(* ===== verification/Prelude.thy ===== *)
theory Prelude
  imports Main "HOL-Library.Word"
begin

text \<open>
  Shared vocabulary of the development: bytes and buffers, the errors the SDK throws and the
  result type that carries them, the coercions of JavaScript's bitwise operators
  (\<open>~~x\<close>, \<open>x >>> 0\<close>), and the positional value of a byte string.  The generic lemmas are
  collected in \<open>result_simps\<close> (error propagation), \<open>bytes_simps\<close> (values of byte strings)
  and \<open>int32_simps\<close> (coercions), so that component proofs can name a collection.
\<close>

named_theorems result_simps
named_theorems bytes_simps
named_theorems int32_simps

section \<open>Bytes, errors and results\<close>

type_synonym byte = "8 word"
type_synonym bytes = "byte list"

text \<open>
  The exceptions of the modelled code.  The constructors are the classes the code throws
  (JavaScript's own \<open>Error\<close>, \<open>RangeError\<close>, \<open>TypeError\<close> and the \<open>errors.*\<close>
  classes of magnachain.js); the argument is the message or the data the class is built from.
\<close>

datatype js_error =
    PlainError string
  | RangeError string
  | TypeError string
  | AssertionError string
  | InvalidState string
  | InvalidArgument string
  | ScriptInvalidBuffer bytes
  | ScriptUnrecognizedAddress
  | MissingScript
  | MissingPreviousOutput
  | UnableToVerifySignature string
  | InvalidSatoshis
  | InvalidOutputAmountSum
  | FeeTooSmall
  | FeeTooLarge
  | FeeDifferent
  | ChangeAddressMissing
  | DustOutputs
  | MissingSignatures
  | InvalidSorting
  | InvalidIndex
  | NamedError string

type_synonym 'a result = "js_error + 'a"

definition rbind :: "'e + 'a \<Rightarrow> ('a \<Rightarrow> 'e + 'b) \<Rightarrow> 'e + 'b" where
  "rbind m f = (case m of Inl e \<Rightarrow> Inl e | Inr x \<Rightarrow> f x)"

definition check :: "bool \<Rightarrow> 'e \<Rightarrow> 'e + unit" where
  "check b e = (if b then Inr () else Inl e)"

definition is_ok :: "'e + 'a \<Rightarrow> bool" where
  "is_ok m = (case m of Inl _ \<Rightarrow> False | Inr _ \<Rightarrow> True)"

lemma rbind_Inl [simp, result_simps]: "rbind (Inl e) f = Inl e"
  by (simp add: rbind_def)

lemma rbind_Inr [simp, result_simps]: "rbind (Inr x) f = f x"
  by (simp add: rbind_def)

lemma rbind_assoc [result_simps]: "rbind (rbind m f) g = rbind m (\<lambda>x. rbind (f x) g)"
  by (cases m) simp_all

lemma rbind_eq_Inr [result_simps]: "rbind m f = Inr y \<longleftrightarrow> (\<exists>x. m = Inr x \<and> f x = Inr y)"
  by (cases m) simp_all

lemma rbind_eq_Inl [result_simps]:
  "rbind m f = Inl e \<longleftrightarrow> m = Inl e \<or> (\<exists>x. m = Inr x \<and> f x = Inl e)"
  by (cases m) simp_all

lemma rbind_cong [fundef_cong]:
  assumes "m = n" and "\<And>x. n = Inr x \<Longrightarrow> f x = g x"
  shows "rbind m f = rbind n g"
  using assms by (cases n) simp_all

lemma check_eq_Inr [simp, result_simps]: "check b e = Inr u \<longleftrightarrow> b"
  by (simp add: check_def)

lemma check_eq_Inl [simp, result_simps]: "check b e = Inl e' \<longleftrightarrow> \<not> b \<and> e' = e"
  by (auto simp: check_def)

lemma check_True [simp]: "check True e = Inr ()" and check_False [simp]: "check False e = Inl e"
  by (simp_all add: check_def)

lemma is_ok_simps [simp]: "is_ok (Inr x)" "\<not> is_ok (Inl e)"
  by (simp_all add: is_ok_def)

lemma is_okE: "is_ok m \<Longrightarrow> (\<And>x. m = Inr x \<Longrightarrow> P) \<Longrightarrow> P"
  by (cases m) auto

section \<open>JavaScript integer coercions\<close>

text \<open>
  \<open>~~x\<close> (and every bitwise operator's operand) is \<open>ToInt32\<close>; \<open>x >>> 0\<close> is \<open>ToUint32\<close>.
\<close>

definition toInt32 :: "int \<Rightarrow> int" where
  "toInt32 x = (x + 2147483648) mod 4294967296 - 2147483648"

definition toUint32 :: "nat \<Rightarrow> nat" where
  "toUint32 n = n mod 4294967296"

lemma toInt32_id [int32_simps]: "- 2147483648 \<le> x \<Longrightarrow> x < 2147483648 \<Longrightarrow> toInt32 x = x"
  by (simp add: toInt32_def)

lemma toInt32_of_nat [int32_simps]: "n < 2147483648 \<Longrightarrow> toInt32 (int n) = int n"
  by (simp add: toInt32_id)

lemma toInt32_range: "- 2147483648 \<le> toInt32 x" "toInt32 x < 2147483648"
  by (simp_all add: toInt32_def)

lemma toUint32_id [int32_simps]: "n < 4294967296 \<Longrightarrow> toUint32 n = n"
  by (simp add: toUint32_def)

section \<open>Positional values of byte strings\<close>

text \<open>The big-endian value of a byte string, and a number's fixed-width byte strings.\<close>

definition be_val :: "bytes \<Rightarrow> nat" where
  "be_val bs = foldl (\<lambda>a b. a * 256 + unat b) 0 bs"

fun le_val :: "bytes \<Rightarrow> nat" where
  "le_val [] = 0"
| "le_val (b # bs) = unat b + 256 * le_val bs"

fun le_bytes :: "nat \<Rightarrow> nat \<Rightarrow> bytes" where
  "le_bytes 0 n = []"
| "le_bytes (Suc k) n = of_nat n # le_bytes k (n div 256)"

lemma foldl_be_val: "foldl (\<lambda>a b. a * 256 + unat b) a bs = a * 256 ^ length bs + be_val bs"
  unfolding be_val_def
proof (induction bs arbitrary: a)
  case Nil
  then show ?case by simp
next
  case (Cons b bs)
  have "foldl (\<lambda>a b. a * 256 + unat b) (a * 256 + unat b) bs
      = (a * 256 + unat b) * 256 ^ length bs + foldl (\<lambda>a b. a * 256 + unat b) 0 bs"
    by (rule Cons.IH)
  moreover have "foldl (\<lambda>a b. a * 256 + unat b) (unat b) bs
      = unat b * 256 ^ length bs + foldl (\<lambda>a b. a * 256 + unat b) 0 bs"
    by (rule Cons.IH)
  ultimately show ?case by (simp add: distrib_right)
qed

lemma be_val_Nil [simp, bytes_simps]: "be_val [] = 0"
  by (simp add: be_val_def)

lemma be_val_Cons [bytes_simps]: "be_val (b # bs) = unat b * 256 ^ length bs + be_val bs"
  by (simp add: be_val_def foldl_be_val [of "unat b", unfolded be_val_def])

lemma be_val_append [bytes_simps]: "be_val (as @ bs) = be_val as * 256 ^ length bs + be_val bs"
  by (simp add: be_val_def foldl_be_val [of "foldl _ 0 as", unfolded be_val_def])

lemma byte_less [simp]: "unat (b :: byte) < 256"
  using unsigned_less [of b] by simp

lemma byte_eqI: "unat a = unat b \<Longrightarrow> a = (b :: byte)"
  by (simp add: word_unat_eq_iff)

lemma be_val_less: "be_val bs < 256 ^ length bs"
proof (induction bs)
  case Nil
  then show ?case by simp
next
  case (Cons b bs)
  have "unat b * 256 ^ length bs + be_val bs < (unat b + 1) * 256 ^ length bs"
    using Cons.IH by simp
  also have "\<dots> \<le> 256 * 256 ^ length bs"
    using byte_less [of b] by (intro mult_right_mono) linarith+
  finally show ?case by (simp add: be_val_Cons)
qed

lemma be_val_rev [bytes_simps]: "be_val (rev bs) = le_val bs"
  by (induction bs) (simp_all add: be_val_append be_val_Cons)

lemma le_val_rev [bytes_simps]: "le_val (rev bs) = be_val bs"
  using be_val_rev [of "rev bs"] by simp

lemma le_val_less: "le_val bs < 256 ^ length bs"
  using be_val_less [of "rev bs"] by (simp add: be_val_rev)

lemma length_le_bytes [simp]: "length (le_bytes k n) = k"
  by (induction k arbitrary: n) simp_all

lemma le_bytes_numeral [simp, bytes_simps]:
  "le_bytes (numeral k) n = of_nat n # le_bytes (pred_numeral k) (n div 256)"
  by (simp only: numeral_eq_Suc le_bytes.simps)

lemma of_int_div_numeral [bytes_simps]:
  "(of_int (int n div numeral k) :: byte) = of_nat (n div numeral k)"
  by (metis of_int_of_nat_eq of_nat_numeral zdiv_int)

lemma unat_of_nat_byte [bytes_simps]: "unat (of_nat n :: byte) = n mod 256"
  by (simp add: unat_of_nat)

lemma le_val_le_bytes [bytes_simps]: "le_val (le_bytes k n) = n mod 256 ^ k"
proof (induction k arbitrary: n)
  case 0
  then show ?case by simp
next
  case (Suc k)
  show ?case
    by (simp add: Suc.IH unat_of_nat_byte mod_mult2_eq)
qed

lemma le_bytes_add: "le_bytes (j + k) n = le_bytes j n @ le_bytes k (n div 256 ^ j)"
  by (induction j arbitrary: n) (simp_all add: div_mult2_eq)

lemma le_bytes_mod: "le_bytes j (n mod 256 ^ j) = le_bytes j n"
proof (induction j arbitrary: n)
  case 0
  then show ?case by simp
next
  case (Suc j)
  have "(of_nat (n mod (256 * 256 ^ j)) :: byte) = of_nat n"
    by (simp add: byte_eqI unat_of_nat_byte mod_mod_cancel)
  moreover have "n mod (256 * 256 ^ j) div 256 = n div 256 mod 256 ^ j"
    by (simp add: mod_mult2_eq)
  ultimately show ?case by (simp add: Suc.IH)
qed

lemma le_val_append [bytes_simps]: "le_val (as @ bs) = le_val as + 256 ^ length as * le_val bs"
  by (induction as) (simp_all add: algebra_simps)

lemma le_bytes_le_val [bytes_simps]: "le_bytes (length bs) (le_val bs) = bs"
proof (induction bs)
  case Nil
  then show ?case by simp
next
  case (Cons b bs)
  have "(of_nat (unat b + 256 * le_val bs) :: byte) = b"
    by (simp only: word_unat_eq_iff unat_of_nat_byte) simp
  moreover have "(unat b + 256 * le_val bs) div 256 = le_val bs"
    using byte_less [of b] by simp
  ultimately show ?case by (simp add: Cons.IH)
qed

lemma be_val_zeros [simp]: "be_val (replicate k 0) = 0"
  by (induction k) (simp_all add: be_val_Cons)

lemma be_val_inj: "length as = length bs \<Longrightarrow> be_val as = be_val bs \<Longrightarrow> as = bs"
  by (metis le_bytes_le_val be_val_rev length_rev rev_rev_ident)

section \<open>Lists\<close>

lemma nth_split_at: "n < length xs \<Longrightarrow> xs = take n xs @ xs ! n # drop (Suc n) xs"
  by (simp add: id_take_nth_drop)

lemma drop_eq_append_length: "drop n xs = ys @ zs \<Longrightarrow> length ys + length zs = length xs - n"
  by (metis length_append length_drop)

lemma drop_append_nth: "drop n xs = ys @ zs \<Longrightarrow> i < length ys \<Longrightarrow> xs ! (n + i) = ys ! i"
proof -
  assume a: "drop n xs = ys @ zs" and i: "i < length ys"
  then have "n + i < length xs"
    using drop_eq_append_length [OF a] by simp
  then have "xs ! (n + i) = drop n xs ! i" by simp
  then show ?thesis using a i by (simp add: nth_append)
qed

end
