(* ===== verification/Buffers.thy ===== *)
theory Buffers
  imports Prelude
begin

unbundle bit_operations_syntax

text \<open>
  The byte buffers the SDK works on: the primitives of src/buffer.js that magnachain.js calls
  (\<open>slice\<close>, the fixed-width readers and writers with their range checks, the hex codec) and
  the helpers of \<open>BufferUtil\<close>.  A \<open>Buffer\<close> is its list of bytes; \<open>new Buffer(n)\<close> is a
  zero-filled array; storing a number in a cell keeps it modulo 256.  Numbers that the code
  writes are \<open>int\<close>, numbers that it reads are \<open>nat\<close>.
\<close>

section \<open>Allocation, slices and range checks\<close>

definition new_Buffer :: "nat \<Rightarrow> bytes" where
  "new_Buffer n = replicate n 0"

definition clamp_index :: "int \<Rightarrow> int \<Rightarrow> int" where
  "clamp_index len i =
     (if i < 0 then (if i + len < 0 then 0 else i + len)
      else if i > len then len else i)"

definition Buffer_slice :: "bytes \<Rightarrow> int \<Rightarrow> int \<Rightarrow> bytes" where
  "Buffer_slice b start fin =
     (let len = int (length b);
          s = clamp_index len (toInt32 start);
          e = clamp_index len (toInt32 fin);
          e' = (if e < s then s else e)
      in take (nat (e' - s)) (drop (nat s) b))"

definition checkOffset :: "nat \<Rightarrow> nat \<Rightarrow> nat \<Rightarrow> unit result" where
  "checkOffset off ext len =
     check (off + ext \<le> len) (RangeError ''Trying to access beyond buffer length'')"

definition checkInt :: "bytes \<Rightarrow> int \<Rightarrow> nat \<Rightarrow> nat \<Rightarrow> int \<Rightarrow> int \<Rightarrow> unit result" where
  "checkInt b value off ext mx mn =
     (if value > mx \<or> value < mn then Inl (RangeError ''value argument is out of bounds'')
      else if off + ext > length b then Inl (RangeError ''Index out of range'')
      else Inr ())"

section \<open>Fixed-width reads\<close>

definition Buffer_readUInt8 :: "bytes \<Rightarrow> nat \<Rightarrow> nat result" where
  "Buffer_readUInt8 b off =
     (let o1 = toUint32 off in
      rbind (checkOffset o1 1 (length b)) (\<lambda>_. Inr (unat (b ! o1))))"

definition Buffer_readUInt16LE :: "bytes \<Rightarrow> nat \<Rightarrow> nat result" where
  "Buffer_readUInt16LE b off =
     (let o1 = toUint32 off in
      rbind (checkOffset o1 2 (length b)) (\<lambda>_.
        Inr (unat (b ! o1) OR push_bit 8 (unat (b ! (o1 + 1))))))"

definition Buffer_readUInt16BE :: "bytes \<Rightarrow> nat \<Rightarrow> nat result" where
  "Buffer_readUInt16BE b off =
     (let o1 = toUint32 off in
      rbind (checkOffset o1 2 (length b)) (\<lambda>_.
        Inr (push_bit 8 (unat (b ! o1)) OR unat (b ! (o1 + 1)))))"

definition Buffer_readUInt32LE :: "bytes \<Rightarrow> nat \<Rightarrow> nat result" where
  "Buffer_readUInt32LE b off =
     (let o1 = toUint32 off in
      rbind (checkOffset o1 4 (length b)) (\<lambda>_.
        Inr ((unat (b ! o1) OR push_bit 8 (unat (b ! (o1 + 1))) OR push_bit 16 (unat (b ! (o1 + 2))))
             + unat (b ! (o1 + 3)) * 16777216)))"

definition Buffer_readUInt32BE :: "bytes \<Rightarrow> nat \<Rightarrow> nat result" where
  "Buffer_readUInt32BE b off =
     (let o1 = toUint32 off in
      rbind (checkOffset o1 4 (length b)) (\<lambda>_.
        Inr (unat (b ! o1) * 16777216
             + (push_bit 16 (unat (b ! (o1 + 1))) OR push_bit 8 (unat (b ! (o1 + 2)))
                OR unat (b ! (o1 + 3))))))"

definition Buffer_readInt32LE :: "bytes \<Rightarrow> nat \<Rightarrow> int result" where
  "Buffer_readInt32LE b off =
     (let o1 = toUint32 off in
      rbind (checkOffset o1 4 (length b)) (\<lambda>_.
        Inr (toInt32 (int (unat (b ! o1) OR push_bit 8 (unat (b ! (o1 + 1)))
               OR push_bit 16 (unat (b ! (o1 + 2))) OR push_bit 24 (unat (b ! (o1 + 3))))))))"

section \<open>Fixed-width writes\<close>

text \<open>
  \<open>value >>> k\<close> stored in a cell keeps the bits \<open>k .. k + 7\<close> of the two's complement
  representation, which is \<open>of_int (value div 2 ^ k)\<close>.
\<close>

definition Buffer_writeUInt8 :: "bytes \<Rightarrow> int \<Rightarrow> nat \<Rightarrow> bytes result" where
  "Buffer_writeUInt8 b value off =
     (let o1 = toUint32 off in
      rbind (checkInt b value o1 1 255 0) (\<lambda>_. Inr (b[o1 := of_int value])))"

definition Buffer_writeUInt16LE :: "bytes \<Rightarrow> int \<Rightarrow> nat \<Rightarrow> bytes result" where
  "Buffer_writeUInt16LE b value off =
     (let o1 = toUint32 off in
      rbind (checkInt b value o1 2 65535 0) (\<lambda>_.
        Inr (b[o1 := of_int value, o1 + 1 := of_int (value div 256)])))"

definition Buffer_writeUInt16BE :: "bytes \<Rightarrow> int \<Rightarrow> nat \<Rightarrow> bytes result" where
  "Buffer_writeUInt16BE b value off =
     (let o1 = toUint32 off in
      rbind (checkInt b value o1 2 65535 0) (\<lambda>_.
        Inr (b[o1 := of_int (value div 256), o1 + 1 := of_int value])))"

definition Buffer_writeUInt32LE :: "bytes \<Rightarrow> int \<Rightarrow> nat \<Rightarrow> bytes result" where
  "Buffer_writeUInt32LE b value off =
     (let o1 = toUint32 off in
      rbind (checkInt b value o1 4 4294967295 0) (\<lambda>_.
        Inr (b[o1 + 3 := of_int (value div 16777216), o1 + 2 := of_int (value div 65536),
               o1 + 1 := of_int (value div 256), o1 := of_int value])))"

definition Buffer_writeUInt32BE :: "bytes \<Rightarrow> int \<Rightarrow> nat \<Rightarrow> bytes result" where
  "Buffer_writeUInt32BE b value off =
     (let o1 = toUint32 off in
      rbind (checkInt b value o1 4 4294967295 0) (\<lambda>_.
        Inr (b[o1 := of_int (value div 16777216), o1 + 1 := of_int (value div 65536),
               o1 + 2 := of_int (value div 256), o1 + 3 := of_int value])))"

definition Buffer_writeInt32LE :: "bytes \<Rightarrow> int \<Rightarrow> nat \<Rightarrow> bytes result" where
  "Buffer_writeInt32LE b value off =
     (let o1 = toUint32 off in
      rbind (checkInt b value o1 4 2147483647 (- 2147483648)) (\<lambda>_.
        Inr (b[o1 := of_int value, o1 + 1 := of_int (value div 256),
               o1 + 2 := of_int (value div 65536), o1 + 3 := of_int (value div 16777216)])))"

section \<open>Order and concatenation of buffers\<close>

fun Buffer_compare :: "bytes \<Rightarrow> bytes \<Rightarrow> int" where
  "Buffer_compare (a # as) (b # bs) =
     (if a \<noteq> b then (if unat a < unat b then - 1 else 1) else Buffer_compare as bs)"
| "Buffer_compare as bs =
     (if length as < length bs then - 1 else if length bs < length as then 1 else 0)"

fun Buffer_concat :: "bytes list \<Rightarrow> bytes" where
  "Buffer_concat [] = []"
| "Buffer_concat (b # bs) = b @ Buffer_concat bs"

section \<open>Hexadecimal strings\<close>

definition hex_char :: "nat \<Rightarrow> char" where
  "hex_char n = ''0123456789abcdef'' ! n"

definition toHexEx :: "byte \<Rightarrow> string" where
  "toHexEx b = (if unat b < 16 then CHR ''0'' # [hex_char (unat b)]
                else [hex_char (unat b div 16), hex_char (unat b mod 16)])"

fun hexSlice :: "bytes \<Rightarrow> string" where
  "hexSlice [] = []"
| "hexSlice (b # bs) = toHexEx b @ hexSlice bs"

definition hex_digit :: "char \<Rightarrow> nat option" where
  "hex_digit c =
     (let n = of_char c :: nat in
      if 48 \<le> n \<and> n \<le> 57 then Some (n - 48)
      else if 97 \<le> n \<and> n \<le> 102 then Some (n - 87)
      else if 65 \<le> n \<and> n \<le> 70 then Some (n - 55)
      else None)"

text \<open>
  \<open>parseInt(s, 16)\<close> on the two characters \<open>hexWrite\<close> takes at a time.  It skips leading
  white space, accepts a sign and a prefix \<open>0x\<close>, and reads the longest run of digits;
  \<open>None\<close> is \<open>NaN\<close>.
\<close>

definition js_space :: "char \<Rightarrow> bool" where
  "js_space c = ((of_char c :: nat) \<in> {9, 10, 11, 12, 13, 32, 160})"

definition parseInt16_pair :: "char \<Rightarrow> char \<Rightarrow> int option" where
  "parseInt16_pair c d =
     (case hex_digit c of
        Some x \<Rightarrow>
          (case hex_digit d of
             Some y \<Rightarrow> Some (int (16 * x + y))
           | None \<Rightarrow> if x = 0 \<and> (d = CHR ''x'' \<or> d = CHR ''X'') then None else Some (int x))
      | None \<Rightarrow>
          (case hex_digit d of
             Some y \<Rightarrow> if c = CHR ''-'' then Some (- int y)
                       else if c = CHR ''+'' \<or> js_space c then Some (int y)
                       else None
           | None \<Rightarrow> None))"

text \<open>\<open>new Buffer(string, 'hex')\<close>: an odd last digit is dropped, and the first pair that is
  no number ends the buffer.\<close>

fun Buffer_from_hex :: "string \<Rightarrow> bytes" where
  "Buffer_from_hex (c # d # cs) =
     (case parseInt16_pair c d of None \<Rightarrow> [] | Some v \<Rightarrow> of_int v # Buffer_from_hex cs)"
| "Buffer_from_hex cs = []"

section \<open>BufferUtil and JSUtil\<close>

definition isHexa :: "string \<Rightarrow> bool" where
  "isHexa s = (s \<noteq> [] \<and> list_all (\<lambda>c. hex_digit c \<noteq> None) s)"

fun BufferUtil_equals_loop :: "bytes \<Rightarrow> bytes \<Rightarrow> bool" where
  "BufferUtil_equals_loop (a # as) (b # bs) = (if a \<noteq> b then False else BufferUtil_equals_loop as bs)"
| "BufferUtil_equals_loop as bs = True"

definition BufferUtil_equals :: "bytes \<Rightarrow> bytes \<Rightarrow> bool" where
  "BufferUtil_equals a b = (if length a \<noteq> length b then False else BufferUtil_equals_loop a b)"

definition BufferUtil_fill :: "bytes \<Rightarrow> int \<Rightarrow> bytes" where
  "BufferUtil_fill b value = replicate (length b) (of_int value)"

definition BufferUtil_reverse :: "bytes \<Rightarrow> bytes" where
  "BufferUtil_reverse p = map (\<lambda>i. p ! (length p - i - 1)) [0..<length p]"

definition integerAsSingleByteBuffer :: "int \<Rightarrow> bytes" where
  "integerAsSingleByteBuffer n = [of_int (toInt32 n AND 255)]"

definition integerAsBuffer :: "int \<Rightarrow> bytes" where
  "integerAsBuffer n =
     [of_int (drop_bit 24 (toInt32 n) AND 255), of_int (drop_bit 16 (toInt32 n) AND 255),
      of_int (drop_bit 8 (toInt32 n) AND 255), of_int (toInt32 n AND 255)]"

text \<open>A missing cell is \<open>undefined\<close>, which the shift and the or read as 0.\<close>

definition cell :: "bytes \<Rightarrow> nat \<Rightarrow> nat" where
  "cell b i = (if i < length b then unat (b ! i) else 0)"

definition integerFromBuffer :: "bytes \<Rightarrow> int" where
  "integerFromBuffer b =
     toInt32 (int (push_bit 24 (cell b 0) OR push_bit 16 (cell b 1) OR push_bit 8 (cell b 2)
                   OR cell b 3))"

definition integerFromSingleByteBuffer :: "bytes \<Rightarrow> nat option" where
  "integerFromSingleByteBuffer b = (if 0 < length b then Some (unat (b ! 0)) else None)"

section \<open>Facts about slices\<close>

lemma length_new_Buffer [simp]: "length (new_Buffer n) = n"
  by (simp add: new_Buffer_def)

lemma clamp_index_range: "0 \<le> len \<Longrightarrow> 0 \<le> clamp_index len i \<and> clamp_index len i \<le> len"
  by (auto simp: clamp_index_def)

lemma Buffer_slice_nat:
  assumes "s \<le> e" and "e < 2147483648" and "length b < 2147483648"
  shows "Buffer_slice b (int s) (int e) = take (e - s) (drop s b)"
proof -
  have "toInt32 (int s) = int s" "toInt32 (int e) = int e"
    using assms by (simp_all add: int32_simps)
  then show ?thesis
    using assms by (auto simp: Buffer_slice_def clamp_index_def Let_def nat_diff_distrib)
qed

lemma Buffer_slice_length_le: "length (Buffer_slice b s e) \<le> length b"
  by (simp add: Buffer_slice_def Let_def)

text \<open>\<open>slice(-k)\<close> is the last \<open>k\<close> bytes and \<open>slice(0, -k)\<close> is the rest.\<close>

lemma Buffer_slice_last:
  assumes "k \<le> length b" and "length b < 2147483648" and "0 < k"
  shows "Buffer_slice b (- int k) (int (length b)) = drop (length b - k) b"
proof -
  have "toInt32 (- int k) = - int k" "toInt32 (int (length b)) = int (length b)"
    using assms by (simp_all add: int32_simps)
  then show ?thesis
    using assms by (simp add: Buffer_slice_def clamp_index_def Let_def nat_diff_distrib)
qed

lemma Buffer_slice_butlast:
  assumes "k \<le> length b" and "length b < 2147483648" and "0 < k"
  shows "Buffer_slice b 0 (- int k) = take (length b - k) b"
proof -
  have "toInt32 (- int k) = - int k" "toInt32 0 = 0"
    using assms by (simp_all add: int32_simps)
  then show ?thesis
    using assms by (simp add: Buffer_slice_def clamp_index_def Let_def nat_diff_distrib)
qed

section \<open>Reads compute little-endian and big-endian values\<close>

lemma or_push_bit_plus:
  assumes "x < 2 ^ k"
  shows "x OR push_bit k y = x + 2 ^ k * (y :: nat)"
proof -
  have t: "take_bit k x = x" using assms by (simp add: take_bit_nat_eq_self)
  have "take_bit k x AND push_bit k y = 0"
    by (rule bit_eqI) (simp add: bit_simps)
  then have "x + push_bit k y = x OR push_bit k y" by (simp add: t disjunctive_add_eq_or)
  then show ?thesis by (simp add: push_bit_eq_mult mult.commute)
qed

lemma or_bytes2: "(a::nat) < 256 \<Longrightarrow> a OR push_bit 8 b = a + 256 * b"
  using or_push_bit_plus [of a 8 b] by simp

lemma or_bytes3:
  "(a::nat) < 256 \<Longrightarrow> b < 256 \<Longrightarrow>
   a OR push_bit 8 b OR push_bit 16 c = a + 256 * b + 65536 * c"
  using or_push_bit_plus [of "a + 256 * b" 16 c] by (simp add: or_bytes2 flip: or.assoc)

lemma or_bytes4:
  "(a::nat) < 256 \<Longrightarrow> b < 256 \<Longrightarrow> c < 256 \<Longrightarrow>
   a OR push_bit 8 b OR push_bit 16 c OR push_bit 24 d
     = a + 256 * b + 65536 * c + 16777216 * d"
  using or_push_bit_plus [of "a + 256 * b + 65536 * c" 24 d] or_bytes3 [of a b c]
  by (simp add: or.assoc [symmetric])

lemma take_drop_Suc: "o1 < length b \<Longrightarrow> take (Suc k) (drop o1 b) = b ! o1 # take k (drop (Suc o1) b)"
  by (simp add: Cons_nth_drop_Suc [symmetric])

lemma take_drop_2: "o1 + 2 \<le> length b \<Longrightarrow> take 2 (drop o1 b) = [b ! o1, b ! (o1 + 1)]"
  by (simp add: numeral_2_eq_2 take_drop_Suc)

lemma take_drop_4:
  "o1 + 4 \<le> length b \<Longrightarrow>
   take 4 (drop o1 b) = [b ! o1, b ! (o1 + 1), b ! (o1 + 2), b ! (o1 + 3)]"
  by (simp add: eval_nat_numeral take_drop_Suc)

lemmas read_defs = Buffer_readUInt8_def Buffer_readUInt16LE_def Buffer_readUInt16BE_def
  Buffer_readUInt32LE_def Buffer_readUInt32BE_def Buffer_readInt32LE_def checkOffset_def Let_def

lemma readUInt8_eq:
  "length b < 4294967296 \<Longrightarrow> off + 1 \<le> length b \<Longrightarrow> Buffer_readUInt8 b off = Inr (unat (b ! off))"
  by (simp add: read_defs toUint32_id)

lemma readUInt16LE_eq:
  "length b < 4294967296 \<Longrightarrow> off + 2 \<le> length b \<Longrightarrow>
   Buffer_readUInt16LE b off = Inr (le_val (take 2 (drop off b)))"
  by (simp add: read_defs toUint32_id take_drop_2 or_bytes2)

lemma readUInt16BE_eq:
  "length b < 4294967296 \<Longrightarrow> off + 2 \<le> length b \<Longrightarrow>
   Buffer_readUInt16BE b off = Inr (be_val (take 2 (drop off b)))"
  by (simp add: read_defs toUint32_id take_drop_2 or.commute [of "push_bit _ _"] or_bytes2
        be_val_Cons)

lemma readUInt32LE_eq:
  "length b < 4294967296 \<Longrightarrow> off + 4 \<le> length b \<Longrightarrow>
   Buffer_readUInt32LE b off = Inr (le_val (take 4 (drop off b)))"
  by (simp add: read_defs toUint32_id take_drop_4 or_bytes3)

lemma or_bytes3_rev:
  "(a::nat) < 256 \<Longrightarrow> b < 256 \<Longrightarrow>
   push_bit 16 c OR push_bit 8 b OR a = a + 256 * b + 65536 * c"
  using or_bytes3 [of a b c] by (simp add: or.left_commute or.commute)

lemma readUInt32BE_eq:
  "length b < 4294967296 \<Longrightarrow> off + 4 \<le> length b \<Longrightarrow>
   Buffer_readUInt32BE b off = Inr (be_val (take 4 (drop off b)))"
  by (simp add: read_defs toUint32_id take_drop_4 or_bytes3_rev be_val_Cons)

lemma readInt32LE_eq:
  "length b < 4294967296 \<Longrightarrow> off + 4 \<le> length b \<Longrightarrow>
   Buffer_readInt32LE b off = Inr (toInt32 (int (le_val (take 4 (drop off b)))))"
  by (simp add: read_defs toUint32_id take_drop_4 or_bytes4 algebra_simps)

text \<open>A read that would pass the end of the buffer raises \<open>RangeError\<close>.\<close>

lemma reads_out_of_range:
  assumes "length b < 4294967296" and "off < 4294967296"
  shows "length b < off + 1 \<Longrightarrow> \<exists>m. Buffer_readUInt8 b off = Inl (RangeError m)"
    and "length b < off + 2 \<Longrightarrow> \<exists>m. Buffer_readUInt16LE b off = Inl (RangeError m)"
    and "length b < off + 4 \<Longrightarrow> \<exists>m. Buffer_readUInt32LE b off = Inl (RangeError m)"
    and "length b < off + 4 \<Longrightarrow> \<exists>m. Buffer_readInt32LE b off = Inl (RangeError m)"
  using assms by (simp_all add: read_defs toUint32_id)

section \<open>Writes store the bytes of the value\<close>

lemmas write_defs = Buffer_writeUInt8_def Buffer_writeUInt16LE_def Buffer_writeUInt16BE_def
  Buffer_writeUInt32LE_def Buffer_writeUInt32BE_def Buffer_writeInt32LE_def checkInt_def Let_def
  new_Buffer_def toUint32_def

lemma writeUInt8_fresh:
  "Buffer_writeUInt8 (new_Buffer 1) (int n) 0
     = (if n < 256 then Inr (le_bytes 1 n) else Inl (RangeError ''value argument is out of bounds''))"
  by (auto simp: write_defs)

lemma writeUInt16LE_fresh:
  "Buffer_writeUInt16LE (new_Buffer 2) (int n) 0
     = (if n < 65536 then Inr (le_bytes 2 n) else Inl (RangeError ''value argument is out of bounds''))"
  by (simp add: write_defs of_int_div_numeral numeral_2_eq_2)

lemma replicate_4: "replicate 4 x = [x, x, x, x]"
  by (simp add: numeral_eq_Suc)

lemma writeUInt32LE_fresh:
  "Buffer_writeUInt32LE (new_Buffer 4) (int n) 0
     = (if n < 4294967296 then Inr (le_bytes 4 n)
        else Inl (RangeError ''value argument is out of bounds''))"
  by (simp add: write_defs of_int_div_numeral div_mult2_eq [symmetric] replicate_4 numeral_3_eq_3)

lemma writeUInt16BE_fresh:
  "Buffer_writeUInt16BE (new_Buffer 2) (int n) 0
     = (if n < 65536 then Inr (rev (le_bytes 2 n))
        else Inl (RangeError ''value argument is out of bounds''))"
  by (simp add: write_defs of_int_div_numeral numeral_2_eq_2)

lemma writeUInt32BE_fresh:
  "Buffer_writeUInt32BE (new_Buffer 4) (int n) 0
     = (if n < 4294967296 then Inr (rev (le_bytes 4 n))
        else Inl (RangeError ''value argument is out of bounds''))"
  by (simp add: write_defs of_int_div_numeral div_mult2_eq [symmetric] replicate_4 numeral_3_eq_3)

text \<open>A signed 32-bit number is stored as the bytes of its residue modulo \<open>2 ^ 32\<close>.\<close>

lemma of_int_mod_byte: "256 dvd m \<Longrightarrow> (of_int (v mod m) :: byte) = of_int v"
  by (simp add: word_of_int_eq_iff take_bit_eq_mod mod_mod_cancel)

lemma mod_mult_div: "0 < a \<Longrightarrow> 0 < b \<Longrightarrow> v mod (a * b) div a = v div a mod (b :: int)"
  by (simp add: zmod_zmult2_eq)

lemma le_bytes_int32:
  "le_bytes 4 (nat (v mod 4294967296))
     = [of_int v, of_int (v div 256), of_int (v div 65536), of_int (v div 16777216)]"
proof -
  let ?n = "nat (v mod 4294967296)"
  have n: "int ?n = v mod 4294967296" by simp
  note shift = mod_mult_div [of 256 16777216 v, simplified]
    mod_mult_div [of 65536 65536 v, simplified] mod_mult_div [of 16777216 256 v, simplified]
  have "(of_int (int ?n) :: byte) = of_int v"
    unfolding n by (rule of_int_mod_byte) simp
  moreover have "(of_nat (?n div 256) :: byte) = of_int (v div 256)"
    by (simp only: of_int_div_numeral [symmetric] n shift) (rule of_int_mod_byte, simp)
  moreover have "(of_nat (?n div 65536) :: byte) = of_int (v div 65536)"
    by (simp only: of_int_div_numeral [symmetric] n shift) (rule of_int_mod_byte, simp)
  moreover have "(of_nat (?n div 16777216) :: byte) = of_int (v div 16777216)"
    by (simp only: of_int_div_numeral [symmetric] n shift) (rule of_int_mod_byte, simp)
  ultimately show ?thesis
    by (simp add: div_mult2_eq [symmetric])
qed

lemma writeInt32LE_fresh:
  assumes "- 2147483648 \<le> v" and "v \<le> 2147483647"
  shows "Buffer_writeInt32LE (new_Buffer 4) v 0 = Inr (le_bytes 4 (nat (v mod 4294967296)))"
  unfolding le_bytes_int32
  using assms by (simp add: write_defs replicate_4 numeral_3_eq_3)

section \<open>Hex strings, equality, order and reversal\<close>

lemma BufferUtil_equals_loop_eq:
  "length a = length b \<Longrightarrow> BufferUtil_equals_loop a b \<longleftrightarrow> a = b"
  by (induction a b rule: BufferUtil_equals_loop.induct) auto

lemma BufferUtil_equals_iff: "BufferUtil_equals a b \<longleftrightarrow> a = b"
  by (auto simp: BufferUtil_equals_def BufferUtil_equals_loop_eq)

lemma BufferUtil_reverse_eq [simp]: "BufferUtil_reverse p = rev p"
  by (rule nth_equalityI) (simp_all add: BufferUtil_reverse_def rev_nth)

lemma Buffer_concat_eq [simp]: "Buffer_concat bs = concat bs"
  by (induction bs) simp_all

lemma Buffer_compare_eq_0: "Buffer_compare a b = 0 \<longleftrightarrow> a = b"
  by (induction a b rule: Buffer_compare.induct) auto

lemma Buffer_compare_antisym: "Buffer_compare b a = - Buffer_compare a b"
  by (induction a b rule: Buffer_compare.induct) (auto simp: unsigned_word_eqI)

lemma hex_digit_hex_char: "n < 16 \<Longrightarrow> hex_digit (hex_char n) = Some n"
proof -
  assume "n < 16"
  then have "n \<in> set [0..<16]" by simp
  moreover have "list_all (\<lambda>n. hex_digit (hex_char n) = Some n) [0..<16]"
    by code_simp
  ultimately show ?thesis by (simp only: list_all_iff)
qed

lemma toHexEx_digits: "toHexEx b = [hex_char (unat b div 16), hex_char (unat b mod 16)]"
  by (simp add: toHexEx_def) (simp add: hex_char_def)

lemma Buffer_from_hex_toHexEx: "Buffer_from_hex (toHexEx b @ cs) = b # Buffer_from_hex cs"
proof -
  have "unat b div 16 < 16" using byte_less [of b] by (simp only: less_mult_imp_div_less)
  then have "parseInt16_pair (hex_char (unat b div 16)) (hex_char (unat b mod 16))
      = Some (int (16 * (unat b div 16) + unat b mod 16))"
    by (simp add: parseInt16_pair_def hex_digit_hex_char)
  then show ?thesis by (simp add: toHexEx_digits)
qed

lemma Buffer_from_hex_hexSlice: "Buffer_from_hex (hexSlice b) = b"
  by (induction b) (simp_all add: Buffer_from_hex_toHexEx)

lemma hexSlice_inj: "hexSlice a = hexSlice b \<longleftrightarrow> a = b"
  by (metis Buffer_from_hex_hexSlice)

end
