(* ===== verification/BNum.thy ===== *)
theory BNum
  imports Buffers
begin

unbundle bit_operations_syntax

text \<open>
  The extensions magnachain.js adds to the big-integer class \<open>BN\<close>: conversion from and to
  byte buffers, the sign-magnitude format and the script numbers built on it.  A \<open>BN\<close> is the
  integer it denotes; its words (src/bn.js) are in the theory \<open>BNWords\<close>.  The conversions go through
  the hexadecimal string as the code does, and are shown equal to the positional value of the
  buffer (\<open>be_val\<close>) and to the shortest big-endian representation (\<open>nat_be\<close>).
\<close>

section \<open>Strings of a BN\<close>

fun hex_digits :: "nat \<Rightarrow> string" where
  "hex_digits n = (if n < 16 then [hex_char n] else hex_digits (n div 16) @ [hex_char (n mod 16)])"

declare hex_digits.simps [simp del]

definition pad_even :: "string \<Rightarrow> string" where
  "pad_even s = (if even (length s) then s else CHR ''0'' # s)"

definition BN_toString16_2 :: "int \<Rightarrow> string" where
  "BN_toString16_2 v =
     (let out = pad_even (hex_digits (nat \<bar>v\<bar>)) in if v < 0 then CHR ''-'' # out else out)"

text \<open>
  \<open>new BN(s, 16)\<close>: blanks are removed, a minus sign is read, and \<open>parseHex\<close> takes four bits from every other character,
  a hexadecimal digit or not.
\<close>

definition hex_code :: "char \<Rightarrow> int" where
  "hex_code ch =
     (let c = int (of_char ch) - 48 in
      if c \<ge> 49 \<and> c \<le> 54 then c - 49 + 0xa
      else if c \<ge> 17 \<and> c \<le> 22 then c - 17 + 0xa
      else c AND 0xf)"

definition hex_number :: "string \<Rightarrow> int" where
  "hex_number s = foldl (\<lambda>a c. a * 16 + hex_code c) 0 s"

definition BN_parseHex :: "string \<Rightarrow> int" where
  "BN_parseHex s =
     (let s = filter (\<lambda>c. \<not> js_space c) s
      in if take 1 s = ''-'' then - hex_number (drop 1 s) else hex_number s)"

section \<open>Rounding to a double\<close>

text \<open>
  \<open>BN.prototype.toNumber\<close> is \<open>parseInt\<close> of the decimal string: the double nearest to the
  integer, ties to the even significand.  \<open>bitlen\<close> is the length of the binary representation.
\<close>

fun bitlen :: "nat \<Rightarrow> nat" where
  "bitlen n = (if n = 0 then 0 else Suc (bitlen (n div 2)))"

declare bitlen.simps [simp del]

definition double_round_nat :: "nat \<Rightarrow> nat" where
  "double_round_nat m =
     (if m < 9007199254740992 then m
      else let e = bitlen m - 53; q = m div 2 ^ e; r = m mod 2 ^ e
           in (if 2 ^ e < 2 * r \<or> (2 ^ e = 2 * r \<and> odd q) then q + 1 else q) * 2 ^ e)"

definition BN_toNumber :: "int \<Rightarrow> int" where
  "BN_toNumber v = (if v < 0 then - int (double_round_nat (nat (- v)))
                    else int (double_round_nat (nat v)))"

section \<open>Buffers of a BN\<close>

definition BN_fromBuffer :: "bytes \<Rightarrow> bool \<Rightarrow> int" where
  "BN_fromBuffer b little = BN_parseHex (hexSlice (if little then BufferUtil_reverse b else b))"

definition BN_trim :: "bytes \<Rightarrow> nat \<Rightarrow> bytes" where
  "BN_trim b natlen = Buffer_slice b (int natlen - int (length b)) (int (length b))"

definition BN_pad :: "bytes \<Rightarrow> nat \<Rightarrow> nat \<Rightarrow> bytes" where
  "BN_pad b natlen sz =
     (let rbuf = fold (\<lambda>i r. r[length r - 1 - i := b ! (length b - 1 - i)])
                   [0..<length b] (new_Buffer sz)
      in fold (\<lambda>i r. r[i := 0]) [0..<sz - natlen] rbuf)"

text \<open>\<open>sz = 0\<close> stands for a call without the option, which the code treats alike.\<close>

definition BN_toBuffer :: "int \<Rightarrow> nat \<Rightarrow> bool \<Rightarrow> bytes" where
  "BN_toBuffer v sz little =
     (let hex = BN_toString16_2 v;
          natlen = length hex div 2;
          b0 = Buffer_from_hex hex;
          b = (if sz = 0 \<or> natlen = sz then b0
               else if natlen > sz then BN_trim b0 natlen
               else BN_pad b0 natlen sz)
      in if little then BufferUtil_reverse b else b)"

section \<open>Sign-magnitude buffers and script numbers\<close>

definition BN_fromSM :: "bytes \<Rightarrow> bool \<Rightarrow> int" where
  "BN_fromSM b0 little =
     (if b0 = [] then BN_fromBuffer [0] False
      else
        let b = (if little then BufferUtil_reverse b0 else b0) in
        if b ! 0 AND 128 \<noteq> 0 then - BN_fromBuffer (b[0 := b ! 0 AND 127]) False
        else BN_fromBuffer b False)"

definition BN_toSMBigEndian :: "int \<Rightarrow> bytes" where
  "BN_toSMBigEndian v =
     (let b =
        (if v < 0 then
           let m = BN_toBuffer (- v) 0 False in
           if m ! 0 AND 128 \<noteq> 0 then 128 # m else m[0 := m ! 0 OR 128]
         else
           let m = BN_toBuffer v 0 False in
           if m ! 0 AND 128 \<noteq> 0 then 0 # m else m)
      in if length b = 1 \<and> b ! 0 = 0 then [] else b)"

definition BN_toSM :: "int \<Rightarrow> bool \<Rightarrow> bytes" where
  "BN_toSM v little =
     (let b = BN_toSMBigEndian v in if little then BufferUtil_reverse b else b)"

text \<open>\<open>BN.fromScriptNumBuffer(buf, fRequireMinimal, sz)\<close>, where a missing \<open>sz\<close> is 4.\<close>

definition BN_fromScriptNumBuffer :: "bytes \<Rightarrow> bool \<Rightarrow> nat \<Rightarrow> int result" where
  "BN_fromScriptNumBuffer b fRequireMinimal sz =
     (let nMaxNumSize = (if sz = 0 then 4 else sz) in
      if length b > nMaxNumSize then Inl (InvalidArgument ''script number overflow'')
      else if fRequireMinimal \<and> length b > 0 \<and> b ! (length b - 1) AND 127 = 0 \<and>
              (length b \<le> 1 \<or> b ! (length b - 2) AND 128 = 0)
      then Inl (PlainError ''non-minimally encoded script number'')
      else Inr (BN_fromSM b True))"

definition BN_toScriptNumBuffer :: "int \<Rightarrow> bytes" where
  "BN_toScriptNumBuffer v = BN_toSM v True"

section \<open>The shortest big-endian representation\<close>

fun nat_be :: "nat \<Rightarrow> bytes" where
  "nat_be n = (if n < 256 then [of_nat n] else nat_be (n div 256) @ [of_nat (n mod 256)])"

declare nat_be.simps [simp del]

lemma nat_be_small: "n < 256 \<Longrightarrow> nat_be n = [of_nat n]"
  by (simp add: nat_be.simps [of n])

lemma nat_be_step: "256 \<le> n \<Longrightarrow> nat_be n = nat_be (n div 256) @ [of_nat (n mod 256)]"
  by (simp add: nat_be.simps [of n])

lemma nat_be_not_Nil [simp]: "nat_be n \<noteq> []"
  by (simp add: nat_be.simps [of n])

lemma be_val_nat_be [bytes_simps]: "be_val (nat_be n) = n"
proof (induction n rule: nat_be.induct)
  case (1 n)
  then show ?case
    by (cases "n < 256")
      (simp_all add: nat_be_small nat_be_step be_val_append be_val_Cons unat_of_nat_byte)
qed

lemma hd_nat_be: "0 < n \<Longrightarrow> hd (nat_be n) \<noteq> 0"
proof (induction n rule: nat_be.induct)
  case (1 n)
  show ?case
  proof (cases "n < 256")
    case True
    have "unat (of_nat n :: byte) \<noteq> 0"
      using True "1.prems" by (simp add: unat_of_nat_byte)
    then have "(of_nat n :: byte) \<noteq> 0" by auto
    with True show ?thesis by (simp add: nat_be_small)
  next
    case False
    with "1.IH" show ?thesis by (simp add: nat_be_step)
  qed
qed

lemma length_nat_be_le: "n < 256 ^ k \<Longrightarrow> 0 < k \<Longrightarrow> length (nat_be n) \<le> k"
proof (induction n arbitrary: k rule: nat_be.induct)
  case (1 n)
  show ?case
  proof (cases "n < 256")
    case True
    with "1.prems" show ?thesis by (simp add: nat_be_small)
  next
    case False
    with "1.prems" have k: "1 < k"
      by (cases k) (auto simp: less_Suc_eq)
    then obtain j where j: "k = Suc j" "0 < j" by (cases k) auto
    then have "n div 256 < 256 ^ j"
      using "1.prems" by (simp add: less_mult_imp_div_less mult.commute)
    with "1.IH" [OF False] j False show ?thesis by (simp add: nat_be_step)
  qed
qed

lemma nat_be_unique:
  assumes "bs \<noteq> []" and "hd bs \<noteq> 0 \<or> length bs = 1"
  shows "nat_be (be_val bs) = bs"
  using assms
proof (induction bs rule: rev_induct)
  case Nil
  then show ?case by simp
next
  case (snoc b bs)
  show ?case
  proof (cases "bs = []")
    case True
    then show ?thesis by (simp add: nat_be_small be_val_Cons)
  next
    case False
    with snoc.prems have h: "hd bs \<noteq> 0" by simp
    with False snoc.IH have IH: "nat_be (be_val bs) = bs" by blast
    have pos: "0 < be_val bs"
    proof -
      obtain c cs where c: "bs = c # cs" using False by (cases bs) auto
      with h have "0 < unat c" by (simp add: unat_gt_0)
      then show ?thesis by (simp add: c be_val_Cons)
    qed
    have v: "be_val (bs @ [b]) = be_val bs * 256 + unat b"
      by (simp add: be_val_append be_val_Cons)
    have "nat_be (be_val (bs @ [b])) = nat_be (be_val bs) @ [b]"
      using pos by (simp add: v nat_be_step)
    then show ?thesis by (simp add: IH)
  qed
qed

section \<open>The conversions through hexadecimal strings\<close>

lemma hexSlice_append: "hexSlice (as @ bs) = hexSlice as @ hexSlice bs"
  by (induction as) simp_all

lemma length_hexSlice [simp]: "length (hexSlice bs) = 2 * length bs"
  by (induction bs) (simp_all add: toHexEx_digits)

lemma hex_digits_step256:
  assumes "256 \<le> n"
  shows "hex_digits n = hex_digits (n div 256) @ [hex_char (n mod 256 div 16), hex_char (n mod 16)]"
proof -
  have ge: "16 \<le> n div 16" using div_le_mono [OF assms, of 16] by simp
  have "hex_digits n = hex_digits (n div 16) @ [hex_char (n mod 16)]"
    using assms by (simp add: hex_digits.simps [of n])
  also have "hex_digits (n div 16) = hex_digits (n div 16 div 16) @ [hex_char (n div 16 mod 16)]"
    using ge by (simp add: hex_digits.simps [of "n div 16"])
  also have "n div 16 mod 16 = n mod 256 div 16"
    using mod_mult2_eq [of n 16 16] by simp
  finally show ?thesis by (simp add: div_mult2_eq [symmetric])
qed

lemma hexSlice_nat_be: "hexSlice (nat_be n) = pad_even (hex_digits n)"
proof (induction n rule: nat_be.induct)
  case (1 n)
  show ?case
  proof (cases "n < 256")
    case True
    then have "n < 16 \<or> (hex_digits n = [hex_char (n div 16), hex_char (n mod 16)] \<and> 16 \<le> n)"
      by (auto simp: hex_digits.simps [of n] hex_digits.simps [of "n div 16"])
    then show ?thesis
      using True
      by (auto simp: nat_be_small toHexEx_def unat_of_nat_byte pad_even_def hex_digits.simps [of n])
  next
    case False
    then have "hexSlice (nat_be n)
        = pad_even (hex_digits (n div 256)) @ [hex_char (n mod 256 div 16), hex_char (n mod 256 mod 16)]"
      using "1.IH" by (simp add: nat_be_step hexSlice_append toHexEx_digits unat_of_nat_byte)
    also have "n mod 256 mod 16 = n mod 16"
      by (simp add: mod_mod_cancel)
    also have "pad_even (hex_digits (n div 256)) @ [hex_char (n mod 256 div 16), hex_char (n mod 16)]
        = pad_even (hex_digits n)"
      using False by (simp add: hex_digits_step256 pad_even_def)
    finally show ?thesis .
  qed
qed

lemma hex_char_code: "n < 16 \<Longrightarrow> hex_code (hex_char n) = int n \<and> \<not> js_space (hex_char n) \<and> hex_char n \<noteq> CHR ''-''"
proof -
  assume "n < 16"
  then have "n \<in> set [0..<16]" by simp
  moreover have "list_all (\<lambda>n. hex_code (hex_char n) = int n \<and> \<not> js_space (hex_char n) \<and> hex_char n \<noteq> CHR ''-'') [0..<16]"
    by code_simp
  ultimately show ?thesis unfolding list_all_iff by blast
qed

lemma hexSlice_plain: "c \<in> set (hexSlice bs) \<Longrightarrow> \<not> js_space c \<and> c \<noteq> CHR ''-''"
proof (induction bs)
  case (Cons b bs)
  have "unat b div 16 < 16" "unat b mod 16 < 16" using byte_less [of b] by (simp_all add: less_mult_imp_div_less)
  then show ?case using Cons hex_char_code by (auto simp: toHexEx_digits)
qed simp

lemma hex_number_hexSlice: "hex_number (hexSlice bs) = int (be_val bs)"
proof -
  have "foldl (\<lambda>a c. a * 16 + hex_code c) (int a) (hexSlice bs) = int (foldl (\<lambda>a b. a * 256 + unat b) a bs)" for a
  proof (induction bs arbitrary: a)
    case (Cons b bs)
    have b: "unat b div 16 < 16" "unat b mod 16 < 16" using byte_less [of b] by (simp_all add: less_mult_imp_div_less)
    have "hexSlice (b # bs) = hex_char (unat b div 16) # hex_char (unat b mod 16) # hexSlice bs" by (simp add: toHexEx_digits)
    moreover have "(int a * 16 + hex_code (hex_char (unat b div 16))) * 16 + hex_code (hex_char (unat b mod 16)) = int (a * 256 + unat b)"
      using div_mult_mod_eq [of "unat b" 16] conjunct1 [OF hex_char_code [OF b(1)]] conjunct1 [OF hex_char_code [OF b(2)]] by presburger
    ultimately show ?case using Cons.IH [of "a * 256 + unat b"] by (simp only: foldl_Cons)
  qed simp
  from this [of 0] show ?thesis by (simp add: hex_number_def be_val_def)
qed

lemma BN_parseHex_hexSlice: "BN_parseHex (hexSlice bs) = int (be_val bs)"
proof -
  have "filter (\<lambda>c. \<not> js_space c) (hexSlice bs) = hexSlice bs" using hexSlice_plain by (simp add: filter_id_conv)
  moreover have "take 1 (hexSlice bs) \<noteq> ''-''" using hexSlice_plain [of "CHR ''-''" bs] by (cases "hexSlice bs") auto
  ultimately show ?thesis by (simp add: BN_parseHex_def hex_number_hexSlice)
qed

lemma BN_fromBuffer_eq: "BN_fromBuffer b little = int (if little then le_val b else be_val b)"
  by (simp add: BN_fromBuffer_def BN_parseHex_hexSlice be_val_rev)

lemma BN_toBuffer_plain: "0 \<le> v \<Longrightarrow> BN_toBuffer v 0 False = nat_be (nat v)"
  by (simp add: BN_toBuffer_def BN_toString16_2_def Let_def hexSlice_nat_be [symmetric]
      Buffer_from_hex_hexSlice)

lemma BN_fromBuffer_toBuffer: "0 \<le> v \<Longrightarrow> BN_fromBuffer (BN_toBuffer v 0 False) False = v"
  by (simp add: BN_toBuffer_plain BN_fromBuffer_eq be_val_nat_be)

section \<open>Fixed-size buffers\<close>

lemma BN_pad_copy:
  assumes "k \<le> length b" and "length b \<le> sz"
  shows "fold (\<lambda>i r. r[length r - 1 - i := b ! (length b - 1 - i)]) [0..<k] (new_Buffer sz)
       = replicate (sz - k) 0 @ drop (length b - k) b"
  using assms
proof (induction k)
  case 0
  then show ?case by (simp add: new_Buffer_def)
next
  case (Suc k)
  have d: "drop (length b - Suc k) b = b ! (length b - Suc k) # drop (length b - k) b"
    using Suc.prems Cons_nth_drop_Suc [of "length b - Suc k" b] by (simp add: Suc_diff_Suc)
  have r: "replicate (sz - k) (0::byte) = replicate (sz - Suc k) 0 @ [0]"
    using Suc.prems by (metis Suc_diff_Suc Suc_le_lessD le_trans replicate_Suc replicate_append_same)
  have "fold (\<lambda>i r. r[length r - 1 - i := b ! (length b - 1 - i)]) [0..<Suc k] (new_Buffer sz)
      = (replicate (sz - k) 0 @ drop (length b - k) b)[sz - Suc k := b ! (length b - Suc k)]"
    using Suc by simp
  also have "\<dots> = replicate (sz - Suc k) 0 @ b ! (length b - Suc k) # drop (length b - k) b"
    by (simp add: r list_update_append)
  finally show ?case by (simp add: d)
qed

lemma fold_zero_prefix:
  "m \<le> n \<Longrightarrow> fold (\<lambda>i r. r[i := 0]) [0..<m] (replicate n (0::byte) @ b) = replicate n 0 @ b"
  by (induction m) (simp_all add: list_update_append list_update_same_conv)

lemma BN_pad_eq:
  "length b \<le> sz \<Longrightarrow> BN_pad b (length b) sz = replicate (sz - length b) 0 @ b"
  using BN_pad_copy [of "length b" b sz] by (simp add: BN_pad_def fold_zero_prefix)

lemma BN_trim_eq: "length b < 2147483648 \<Longrightarrow> BN_trim b (length b) = b"
  using Buffer_slice_nat [of 0 "length b" b] by (simp add: BN_trim_def)

text \<open>
  With a size, a shorter number is padded on the left; a longer one is left as it is,
  because \<open>BN.trim\<close> is called with the length of the buffer it trims.
\<close>

lemma BN_toBuffer_size:
  assumes "0 \<le> v" and "0 < sz" and "length (nat_be (nat v)) < 2147483648"
  shows "BN_toBuffer v sz False = replicate (sz - length (nat_be (nat v))) 0 @ nat_be (nat v)"
  using assms BN_pad_eq [of "nat_be (nat v)" sz]
  by (auto simp: BN_toBuffer_def BN_toString16_2_def Let_def hexSlice_nat_be [symmetric]
      Buffer_from_hex_hexSlice BN_trim_eq)

lemma BN_toBuffer_fits:
  assumes "0 \<le> v" and "nat v < 256 ^ sz" and "0 < sz" and "sz < 2147483648"
  shows "BN_toBuffer v sz False = rev (le_bytes sz (nat v))"
proof (rule be_val_inj)
  have l: "length (nat_be (nat v)) \<le> sz"
    using assms by (simp add: length_nat_be_le)
  with assms have e: "BN_toBuffer v sz False
      = replicate (sz - length (nat_be (nat v))) 0 @ nat_be (nat v)"
    by (simp add: BN_toBuffer_size)
  show "length (BN_toBuffer v sz False) = length (rev (le_bytes sz (nat v)))"
    using l by (simp add: e)
  show "be_val (BN_toBuffer v sz False) = be_val (rev (le_bytes sz (nat v)))"
    using assms by (simp add: e bytes_simps)
qed

section \<open>Sign-magnitude round trip\<close>

lemma sign_bit_iff: "(b :: byte) AND 128 \<noteq> 0 \<longleftrightarrow> 128 \<le> unat b"
proof -
  have "b AND 128 \<noteq> 0 \<longleftrightarrow> bit b 7"
    using and_exp_eq_0_iff_not_bit [of b 7] by simp
  also have "\<dots> \<longleftrightarrow> odd (unat b div 128)"
    using bit_unsigned_iff [of b 7, where 'a = nat] by (simp add: bit_iff_odd [of "unat b"])
  also have "unat b div 128 = (if 128 \<le> unat b then 1 else 0)"
    using byte_less [of b] by (simp add: div_nat_eqI)
  also have "odd (if 128 \<le> unat b then 1 else 0 :: nat) \<longleftrightarrow> 128 \<le> unat b"
    by simp
  finally show ?thesis .
qed

lemma unat_and_127: "unat ((b :: byte) AND 127) = unat b mod 128"
proof -
  have "b AND 127 = take_bit 7 b" by (simp add: take_bit_eq_mask mask_eq_exp_minus_1)
  then show ?thesis by (simp only: unsigned_take_bit_eq) (simp add: take_bit_eq_mod)
qed

lemma unat_or_128: "unat (b :: byte) < 128 \<Longrightarrow> unat (b OR 128) = unat b + 128"
proof -
  assume lt: "unat b < 128"
  then have "b AND 128 = 0" using sign_bit_iff [of b] by auto
  then have "b OR 128 = b + 128" by (simp add: disjunctive_add_eq_or)
  then show ?thesis using lt by (simp add: unat_word_ariths)
qed

text \<open>The value of a big-endian sign-magnitude buffer.\<close>

definition sm_val :: "bytes \<Rightarrow> int" where
  "sm_val b =
     (case b of [] \<Rightarrow> 0
      | h # t \<Rightarrow>
          (let m = int (unat h mod 128 * 256 ^ length t + be_val t)
           in if 128 \<le> unat h then - m else m))"

lemma BN_fromSM_eq: "BN_fromSM b little = sm_val (if little then rev b else b)"
proof -
  have big: "b \<noteq> [] \<Longrightarrow> BN_fromSM b False = sm_val b" for b
    by (cases b) (auto simp: BN_fromSM_def sm_val_def Let_def sign_bit_iff BN_fromBuffer_eq
        be_val_Cons unat_and_127)
  have "BN_fromSM b True = BN_fromSM (rev b) False" if "b \<noteq> []"
    using that by (simp add: BN_fromSM_def)
  with big [of "rev b"] big [of b] show ?thesis
    by (cases "b = []") (auto simp: BN_fromSM_def sm_val_def BN_fromBuffer_eq be_val_Cons)
qed

text \<open>The shortest sign-magnitude buffer, as \<open>toSMBigEndian\<close> builds it.\<close>

definition sm_min :: "bytes \<Rightarrow> bool" where
  "sm_min b =
     (case b of [] \<Rightarrow> True
      | h # t \<Rightarrow> unat h mod 128 \<noteq> 0 \<or> (t \<noteq> [] \<and> 128 \<le> unat (hd t)))"

lemma BN_toSMBigEndian_cases:
  assumes "v \<noteq> 0"
  defines "m \<equiv> nat_be (nat \<bar>v\<bar>)"
  shows "BN_toSMBigEndian v =
     (if 128 \<le> unat (hd m) then (if v < 0 then 128 # m else 0 # m)
      else if v < 0 then (hd m OR 128) # tl m else m)"
proof -
  obtain h t where m: "m = h # t" unfolding m_def by (metis list.exhaust nat_be_not_Nil)
  have h: "h \<noteq> 0" using hd_nat_be [of "nat \<bar>v\<bar>"] assms(1) m by (simp add: m_def)
  have p: "BN_toBuffer (- v) 0 False = m" if "v < 0"
    using that by (simp add: BN_toBuffer_plain m_def)
  have q: "BN_toBuffer v 0 False = m" if "\<not> v < 0"
    using that by (simp add: BN_toBuffer_plain m_def)
  have or0: "h OR 128 \<noteq> 0" if "unat h < 128"
    using unat_or_128 [OF that] by (metis add_is_0 unsigned_0 zero_neq_numeral)
  show ?thesis
    using h or0 by (auto simp: BN_toSMBigEndian_def p q m Let_def sign_bit_iff)
qed

lemma BN_toSMBigEndian_0: "BN_toSMBigEndian 0 = []"
  by (simp add: BN_toSMBigEndian_def BN_toBuffer_plain nat_be_small)

lemma sm_toSMBigEndian: "sm_val (BN_toSMBigEndian v) = v \<and> sm_min (BN_toSMBigEndian v)"
proof (cases "v = 0")
  case True
  then show ?thesis by (simp add: BN_toSMBigEndian_0 sm_val_def sm_min_def)
next
  case False
  obtain h t where m: "nat_be (nat \<bar>v\<bar>) = h # t" by (metis list.exhaust nat_be_not_Nil)
  have h: "unat h \<noteq> 0" using hd_nat_be [of "nat \<bar>v\<bar>"] False m by (simp add: unat_eq_0)
  have val: "int (unat h * 256 ^ length t + be_val t) = \<bar>v\<bar>"
    using be_val_nat_be [of "nat \<bar>v\<bar>"] by (simp add: m be_val_Cons)
  have enc: "BN_toSMBigEndian v =
     (if 128 \<le> unat h then (if v < 0 then 128 # h # t else 0 # h # t)
      else if v < 0 then (h OR 128) # t else h # t)"
    using BN_toSMBigEndian_cases [OF False] by (simp only: m list.sel)
  show ?thesis
  proof (cases "128 \<le> unat h")
    case True
    then show ?thesis using val unfolding enc by (simp add: sm_val_def sm_min_def be_val_Cons)
  next
    case small: False
    then have "unat (h OR 128) = unat h + 128" by (simp add: unat_or_128)
    with small val h show ?thesis
      unfolding enc by (cases "v < 0") (simp_all add: sm_val_def sm_min_def)
  qed
qed

lemma abs_sm_val: "\<bar>sm_val (h # t)\<bar> = int (unat h mod 128 * 256 ^ length t + be_val t)"
  by (simp add: sm_val_def Let_def del: of_nat_add of_nat_mult)

lemma sm_val_neg_iff: "sm_val (h # t) < 0 \<longleftrightarrow> 128 \<le> unat h \<and> sm_val (h # t) \<noteq> 0"
  by (simp add: sm_val_def Let_def del: of_nat_add of_nat_mult)

lemma byte_mod_128: "128 \<le> unat h \<Longrightarrow> unat (h :: byte) mod 128 = unat h - 128"
  using byte_less [of h] by (subst le_mod_geq) (assumption, intro mod_less, linarith)

lemma byte_high_zero:
  assumes "unat (h :: byte) mod 128 = 0"
  shows "unat h = 0 \<or> unat h = 128"
proof (cases "128 \<le> unat h")
  case True
  with assms byte_mod_128 [of h] show ?thesis by simp
next
  case False
  with assms show ?thesis by simp
qed

lemma sm_toSMBigEndian_unique:
  assumes "sm_min b"
  shows "BN_toSMBigEndian (sm_val b) = b"
proof (cases b)
  case Nil
  then show ?thesis by (simp add: sm_val_def BN_toSMBigEndian_0)
next
  case (Cons h t)
  define v where "v = sm_val b"
  show ?thesis
  proof (cases "unat h mod 128 = 0")
    case False
    let ?m = "(h AND 127) # t"
    have hd0: "h AND 127 \<noteq> 0" using False unat_and_127 [of h] by auto
    have abs: "nat \<bar>v\<bar> = be_val ?m"
      by (simp only: v_def Cons abs_sm_val nat_int be_val_Cons unat_and_127)
    then have be: "nat_be (nat \<bar>v\<bar>) = ?m"
      using nat_be_unique [of ?m] hd0 by simp
    have v0: "v \<noteq> 0" using abs be be_val_nat_be [of 0] hd0 by (auto simp: nat_be_small)
    have sgn: "v < 0 \<longleftrightarrow> 128 \<le> unat h"
      using v0 sm_val_neg_iff [of h t] by (simp add: v_def Cons)
    have "128 \<le> unat h \<Longrightarrow> (h AND 127) OR 128 = h"
    proof (rule byte_eqI)
      assume "128 \<le> unat h"
      moreover have "unat ((h AND 127) OR 128) = unat h mod 128 + 128"
        by (simp add: unat_or_128 unat_and_127)
      ultimately show "unat ((h AND 127) OR 128) = unat h"
        by (simp add: byte_mod_128)
    qed
    moreover have "\<not> 128 \<le> unat h \<Longrightarrow> h AND 127 = h"
      by (rule byte_eqI) (simp add: unat_and_127)
    moreover have "\<not> 128 \<le> unat (h AND 127)" by (simp add: unat_and_127)
    ultimately show ?thesis
      using BN_toSMBigEndian_cases [OF v0] sgn unfolding be v_def [symmetric] by (auto simp: Cons)
  next
    case True
    then have h: "h = (if 128 \<le> unat h then 128 else 0)"
      using byte_high_zero [of h] by (auto intro: byte_eqI)
    from True assms Cons obtain c cs where t: "t = c # cs" and c: "128 \<le> unat c"
      by (cases t) (auto simp: sm_min_def)
    then have c0: "c \<noteq> 0" by auto
    have abs: "nat \<bar>v\<bar> = be_val t"
      using True by (simp add: v_def Cons abs_sm_val del: of_nat_add of_nat_mult)
    then have be: "nat_be (nat \<bar>v\<bar>) = t"
      using nat_be_unique [of t] c0 t by simp
    have v0: "v \<noteq> 0" using abs c t by (auto simp: be_val_Cons)
    have sgn: "v < 0 \<longleftrightarrow> 128 \<le> unat h"
      using v0 sm_val_neg_iff [of h t] by (simp add: v_def Cons)
    show ?thesis
      using BN_toSMBigEndian_cases [OF v0] sgn h c unfolding be v_def [symmetric]
      by (auto simp: Cons t)
  qed
qed

lemma sm_val_bound: "\<bar>sm_val (h # t)\<bar> < 128 * 256 ^ length t"
proof -
  have "unat h mod 128 * 256 ^ length t + be_val t < (unat h mod 128 + 1) * 256 ^ length t"
    using be_val_less [of t] by simp
  also have "\<dots> \<le> 128 * 256 ^ length t"
    by (intro mult_right_mono) (simp_all add: Suc_leI)
  finally have "int (unat h mod 128 * 256 ^ length t + be_val t) < int (128 * 256 ^ length t)"
    by (simp only: of_nat_less_iff)
  then show ?thesis by (simp only: abs_sm_val) simp
qed

lemma length_toSMBigEndian:
  assumes "\<bar>v\<bar> < 128 * 256 ^ k"
  shows "length (BN_toSMBigEndian v) \<le> Suc k"
proof (cases "v = 0")
  case True
  then show ?thesis by (simp add: BN_toSMBigEndian_0)
next
  case False
  obtain h t where m: "nat_be (nat \<bar>v\<bar>) = h # t" by (metis list.exhaust nat_be_not_Nil)
  have val: "int (unat h * 256 ^ length t + be_val t) = \<bar>v\<bar>"
    using be_val_nat_be [of "nat \<bar>v\<bar>"] by (simp add: m be_val_Cons)
  have "int (unat h * 256 ^ length t) < int (128 * 256 ^ k)"
    using val assms by simp
  then have lt: "unat h * 256 ^ length t < 128 * 256 ^ k"
    by (simp only: of_nat_less_iff)
  have "0 < unat h" using hd_nat_be [of "nat \<bar>v\<bar>"] False m by (simp add: unat_gt_0)
  then have "256 ^ length t \<le> unat h * 256 ^ length t" by simp
  also note lt
  also have "128 * 256 ^ k < (256 :: nat) ^ Suc k" by simp
  finally have "256 ^ length t < (256 :: nat) ^ Suc k" .
  then have "length t < Suc k" by (rule power_less_imp_less_exp [rotated]) simp
  then have small: "length t \<le> k" by simp
  have big: "length t < k" if "128 \<le> unat h"
  proof -
    have "128 * 256 ^ length t \<le> unat h * 256 ^ length t" using that by simp
    also note lt
    finally show ?thesis by (simp add: power_strict_increasing_iff)
  qed
  show ?thesis
    using BN_toSMBigEndian_cases [OF False] small big unfolding m by auto
qed

section \<open>Script numbers\<close>

lemma scriptnum_minimal_guard:
  "length b > 0 \<and> b ! (length b - 1) AND 127 = 0 \<and> (length b \<le> 1 \<or> b ! (length b - 2) AND 128 = 0)
     \<longleftrightarrow> \<not> sm_min (rev b)"
proof (cases b rule: rev_cases)
  case Nil
  then show ?thesis by (simp add: sm_min_def)
next
  case (snoc t h)
  have h0: "h AND 127 = 0 \<longleftrightarrow> unat h mod 128 = 0"
    using unat_and_127 [of h] by (metis unat_eq_0)
  have "t \<noteq> [] \<Longrightarrow> b ! (length b - 2) = hd (rev t)"
    by (simp add: snoc nth_append hd_rev last_conv_nth)
  then show ?thesis
    using h0 sign_bit_iff [of "hd (rev t)"]
    by (cases "t = []") (auto simp: snoc sm_min_def)
qed

lemma BN_fromScriptNumBuffer_eq:
  "BN_fromScriptNumBuffer b minimal sz =
     (if length b > (if sz = 0 then 4 else sz) then Inl (InvalidArgument ''script number overflow'')
      else if minimal \<and> \<not> sm_min (rev b) then Inl (PlainError ''non-minimally encoded script number'')
      else Inr (sm_val (rev b)))"
  using scriptnum_minimal_guard [of b]
  by (simp add: BN_fromScriptNumBuffer_def Let_def BN_fromSM_eq)

lemma BN_toScriptNumBuffer_eq: "BN_toScriptNumBuffer v = rev (BN_toSMBigEndian v)"
  by (simp add: BN_toScriptNumBuffer_def BN_toSM_def)

text \<open>Decoding an encoded number gives it back, also when minimal encodings are required.\<close>

lemma scriptnum_decode_encode:
  assumes "length (BN_toScriptNumBuffer v) \<le> (if sz = 0 then 4 else sz)"
  shows "BN_fromScriptNumBuffer (BN_toScriptNumBuffer v) minimal sz = Inr v"
  using assms sm_toSMBigEndian [of v]
  by (simp add: BN_fromScriptNumBuffer_eq BN_toScriptNumBuffer_eq)

lemma scriptnum_encode_decode:
  "BN_fromScriptNumBuffer b True sz = Inr v \<Longrightarrow> BN_toScriptNumBuffer v = b"
  using sm_toSMBigEndian_unique [of "rev b"]
  by (auto simp: BN_fromScriptNumBuffer_eq BN_toScriptNumBuffer_eq split: if_splits)

lemma scriptnum_length: "\<bar>v\<bar> < 128 * 256 ^ k \<Longrightarrow> length (BN_toScriptNumBuffer v) \<le> Suc k"
  by (simp add: BN_toScriptNumBuffer_eq length_toSMBigEndian)

lemma scriptnum_range:
  assumes "BN_fromScriptNumBuffer b minimal sz = Inr v"
  shows "\<bar>v\<bar> < 128 * 256 ^ ((if sz = 0 then 4 else sz) - 1)"
proof (cases "rev b")
  case Nil
  with assms show ?thesis by (simp add: BN_fromScriptNumBuffer_eq sm_val_def split: if_splits)
next
  case (Cons h t)
  then have "length b = Suc (length t)" by (metis length_Cons length_rev)
  with assms have "length t \<le> (if sz = 0 then 4 else sz) - 1"
    by (auto simp: BN_fromScriptNumBuffer_eq split: if_splits)
  then have "(256::int) ^ length t \<le> 256 ^ ((if sz = 0 then 4 else sz) - 1)"
    by (simp add: power_increasing)
  with sm_val_bound [of h t] have "\<bar>sm_val (h # t)\<bar> < 128 * 256 ^ ((if sz = 0 then 4 else sz) - 1)"
    by linarith
  with assms Cons show ?thesis
    by (auto simp: BN_fromScriptNumBuffer_eq split: if_splits)
qed

lemma scriptnum_default_range: "BN_fromScriptNumBuffer b minimal 0 = Inr v \<Longrightarrow> \<bar>v\<bar> < 2147483648"
  using scriptnum_range [of b minimal 0 v] by simp

lemma length_scriptnum_of_nat_256: "\<bar>v\<bar> < 128 * 256 ^ 4 \<Longrightarrow> length (BN_toScriptNumBuffer v) \<le> 5"
  using scriptnum_length [of v 4] by simp

end
