(* ===== verification/BufferIO.thy ===== *)
theory BufferIO
  imports BNum
begin

text \<open>
  \<open>BufferReader\<close>, \<open>BufferWriter\<close> and the variable-length integers (\<open>Varint\<close>) of
  magnachain.js.  A reader is a buffer and a position; every read returns the value and the
  moved reader, or the error the buffer primitive raises.  A writer is the list of buffers
  written so far.  The locale \<open>wire_format\<close> is the contract between a writer and the reader
  of the same datum; the encodings of this file and of the later ones interpret it.
\<close>

section \<open>BufferReader\<close>

record reader =
  rbuf :: bytes
  rpos :: nat

definition new_BufferReader :: "bytes \<Rightarrow> reader" where
  "new_BufferReader b = \<lparr>rbuf = b, rpos = 0\<rparr>"

definition BufferReader_finished :: "reader \<Rightarrow> bool" where
  "BufferReader_finished br \<longleftrightarrow> rpos br \<ge> length (rbuf br)"

definition BufferReader_read :: "reader \<Rightarrow> nat \<Rightarrow> bytes \<times> reader" where
  "BufferReader_read br len =
     (Buffer_slice (rbuf br) (int (rpos br)) (int (rpos br + len)), br\<lparr>rpos := rpos br + len\<rparr>)"

definition BufferReader_readAll :: "reader \<Rightarrow> bytes \<times> reader" where
  "BufferReader_readAll br =
     (Buffer_slice (rbuf br) (int (rpos br)) (int (length (rbuf br))), br\<lparr>rpos := length (rbuf br)\<rparr>)"

definition advance :: "nat \<Rightarrow> reader \<Rightarrow> 'a result \<Rightarrow> ('a \<times> reader) result" where
  "advance k br r = rbind r (\<lambda>v. Inr (v, br\<lparr>rpos := rpos br + k\<rparr>))"

definition BufferReader_readUInt8 :: "reader \<Rightarrow> (nat \<times> reader) result" where
  "BufferReader_readUInt8 br = advance 1 br (Buffer_readUInt8 (rbuf br) (rpos br))"

definition BufferReader_readUInt16BE :: "reader \<Rightarrow> (nat \<times> reader) result" where
  "BufferReader_readUInt16BE br = advance 2 br (Buffer_readUInt16BE (rbuf br) (rpos br))"

definition BufferReader_readUInt16LE :: "reader \<Rightarrow> (nat \<times> reader) result" where
  "BufferReader_readUInt16LE br = advance 2 br (Buffer_readUInt16LE (rbuf br) (rpos br))"

definition BufferReader_readUInt32BE :: "reader \<Rightarrow> (nat \<times> reader) result" where
  "BufferReader_readUInt32BE br = advance 4 br (Buffer_readUInt32BE (rbuf br) (rpos br))"

definition BufferReader_readUInt32LE :: "reader \<Rightarrow> (nat \<times> reader) result" where
  "BufferReader_readUInt32LE br = advance 4 br (Buffer_readUInt32LE (rbuf br) (rpos br))"

definition BufferReader_readInt32LE :: "reader \<Rightarrow> (int \<times> reader) result" where
  "BufferReader_readInt32LE br = advance 4 br (Buffer_readInt32LE (rbuf br) (rpos br))"

definition BufferReader_readUInt64BEBN :: "reader \<Rightarrow> int \<times> reader" where
  "BufferReader_readUInt64BEBN br =
     (BN_fromBuffer (Buffer_slice (rbuf br) (int (rpos br)) (int (rpos br + 8))) False,
      br\<lparr>rpos := rpos br + 8\<rparr>)"

definition BufferReader_readUInt64LEBN :: "reader \<Rightarrow> (int \<times> reader) result" where
  "BufferReader_readUInt64LEBN br =
     rbind (Buffer_readUInt32LE (rbuf br) (rpos br)) (\<lambda>second.
     rbind (Buffer_readUInt32LE (rbuf br) (rpos br + 4)) (\<lambda>first.
       let combined = double_round_nat (first * 4294967296 + second);
           bn = (if combined \<le> 9007199254740991 then int combined
                 else int (le_val (take 8 (drop (rpos br) (rbuf br)))))
       in Inr (bn, br\<lparr>rpos := rpos br + 8\<rparr>)))"

definition BufferReader_readVarintNum :: "reader \<Rightarrow> (nat \<times> reader) result" where
  "BufferReader_readVarintNum br =
     rbind (BufferReader_readUInt8 br) (\<lambda>(first, br).
       if first = 253 then BufferReader_readUInt16LE br
       else if first = 254 then BufferReader_readUInt32LE br
       else if first = 255 then
         rbind (BufferReader_readUInt64LEBN br) (\<lambda>(bn, br).
           let n = BN_toNumber bn in
           if n \<le> 9007199254740992 then Inr (nat n, br)
           else Inl (PlainError ''number too large to retain precision - use readVarintBN''))
       else Inr (first, br))"

definition BufferReader_readVarLengthBuffer :: "reader \<Rightarrow> (bytes \<times> reader) result" where
  "BufferReader_readVarLengthBuffer br =
     rbind (BufferReader_readVarintNum br) (\<lambda>(len, br).
       let (b, br) = BufferReader_read br len in
       rbind (check (length b = len) (InvalidState ''Invalid length while reading varlength buffer''))
         (\<lambda>_. Inr (b, br)))"

definition BufferReader_readVarintBuf :: "reader \<Rightarrow> (bytes \<times> reader) result" where
  "BufferReader_readVarintBuf br =
     rbind (Buffer_readUInt8 (rbuf br) (rpos br)) (\<lambda>first.
       Inr (if first = 253 then BufferReader_read br (1 + 2)
            else if first = 254 then BufferReader_read br (1 + 4)
            else if first = 255 then BufferReader_read br (1 + 8)
            else BufferReader_read br 1))"

definition BufferReader_readVarintBN :: "reader \<Rightarrow> (int \<times> reader) result" where
  "BufferReader_readVarintBN br =
     rbind (BufferReader_readUInt8 br) (\<lambda>(first, br).
       if first = 253 then rbind (BufferReader_readUInt16LE br) (\<lambda>(n, br). Inr (int n, br))
       else if first = 254 then rbind (BufferReader_readUInt32LE br) (\<lambda>(n, br). Inr (int n, br))
       else if first = 255 then BufferReader_readUInt64LEBN br
       else Inr (int first, br))"

definition BufferReader_reverse :: "reader \<Rightarrow> reader" where
  "BufferReader_reverse br =
     br\<lparr>rbuf := map (\<lambda>i. rbuf br ! (length (rbuf br) - 1 - i)) [0..<length (rbuf br)]\<rparr>"

definition BufferReader_readReverse :: "reader \<Rightarrow> nat option \<Rightarrow> bytes \<times> reader" where
  "BufferReader_readReverse br len0 =
     (let len = (case len0 of None \<Rightarrow> length (rbuf br) | Some l \<Rightarrow> l);
          b = Buffer_slice (rbuf br) (int (rpos br)) (int (rpos br + len))
      in (BufferUtil_reverse b, br\<lparr>rpos := rpos br + len\<rparr>))"

section \<open>BufferWriter\<close>

type_synonym bwriter = "bytes list"

definition BufferWriter_concat :: "bwriter \<Rightarrow> bytes" where
  "BufferWriter_concat w = Buffer_concat w"

definition BufferWriter_write :: "bwriter \<Rightarrow> bytes \<Rightarrow> bwriter" where
  "BufferWriter_write w b = w @ [b]"

definition BufferWriter_writeReverse :: "bwriter \<Rightarrow> bytes \<Rightarrow> bwriter" where
  "BufferWriter_writeReverse w b = w @ [BufferUtil_reverse b]"

definition writing :: "bwriter \<Rightarrow> bytes result \<Rightarrow> bwriter result" where
  "writing w r = rbind r (\<lambda>b. Inr (BufferWriter_write w b))"

definition BufferWriter_writeUInt8 :: "bwriter \<Rightarrow> int \<Rightarrow> bwriter result" where
  "BufferWriter_writeUInt8 w n = writing w (Buffer_writeUInt8 (new_Buffer 1) n 0)"

definition BufferWriter_writeUInt16BE :: "bwriter \<Rightarrow> int \<Rightarrow> bwriter result" where
  "BufferWriter_writeUInt16BE w n = writing w (Buffer_writeUInt16BE (new_Buffer 2) n 0)"

definition BufferWriter_writeUInt16LE :: "bwriter \<Rightarrow> int \<Rightarrow> bwriter result" where
  "BufferWriter_writeUInt16LE w n = writing w (Buffer_writeUInt16LE (new_Buffer 2) n 0)"

definition BufferWriter_writeUInt32BE :: "bwriter \<Rightarrow> int \<Rightarrow> bwriter result" where
  "BufferWriter_writeUInt32BE w n = writing w (Buffer_writeUInt32BE (new_Buffer 4) n 0)"

definition BufferWriter_writeInt32LE :: "bwriter \<Rightarrow> int \<Rightarrow> bwriter result" where
  "BufferWriter_writeInt32LE w n = writing w (Buffer_writeInt32LE (new_Buffer 4) n 0)"

definition BufferWriter_writeUInt32LE :: "bwriter \<Rightarrow> int \<Rightarrow> bwriter result" where
  "BufferWriter_writeUInt32LE w n = writing w (Buffer_writeUInt32LE (new_Buffer 4) n 0)"

definition BufferWriter_writeUInt64BEBN :: "bwriter \<Rightarrow> int \<Rightarrow> bwriter" where
  "BufferWriter_writeUInt64BEBN w bn = BufferWriter_write w (BN_toBuffer bn 8 False)"

definition BufferWriter_writeUInt64LEBN :: "bwriter \<Rightarrow> int \<Rightarrow> bwriter" where
  "BufferWriter_writeUInt64LEBN w bn = BufferWriter_writeReverse w (BN_toBuffer bn 8 False)"

definition varintBufNum :: "int \<Rightarrow> bytes result" where
  "varintBufNum n =
     (if n < 253 then Buffer_writeUInt8 (new_Buffer 1) n 0
      else if n < 65536 then
        rbind (Buffer_writeUInt8 (new_Buffer (1 + 2)) 253 0) (\<lambda>b. Buffer_writeUInt16LE b n 1)
      else if n < 4294967296 then
        rbind (Buffer_writeUInt8 (new_Buffer (1 + 4)) 254 0) (\<lambda>b. Buffer_writeUInt32LE b n 1)
      else
        rbind (Buffer_writeUInt8 (new_Buffer (1 + 8)) 255 0) (\<lambda>b.
        rbind (Buffer_writeInt32LE b (toInt32 n) 1) (\<lambda>b.
          Buffer_writeUInt32LE b (n div 4294967296) 5)))"

definition varintBufBN :: "int \<Rightarrow> bytes result" where
  "varintBufBN bn =
     (let n = BN_toNumber bn in
      if n < 253 then Buffer_writeUInt8 (new_Buffer 1) n 0
      else if n < 65536 then
        rbind (Buffer_writeUInt8 (new_Buffer (1 + 2)) 253 0) (\<lambda>b. Buffer_writeUInt16LE b n 1)
      else if n < 4294967296 then
        rbind (Buffer_writeUInt8 (new_Buffer (1 + 4)) 254 0) (\<lambda>b. Buffer_writeUInt32LE b n 1)
      else
        rbind (BufferWriter_writeUInt8 [] 255) (\<lambda>bw.
          Inr (BufferWriter_concat (BufferWriter_writeUInt64LEBN bw bn))))"

definition BufferWriter_writeVarintNum :: "bwriter \<Rightarrow> int \<Rightarrow> bwriter result" where
  "BufferWriter_writeVarintNum w n = writing w (varintBufNum n)"

definition BufferWriter_writeVarintBN :: "bwriter \<Rightarrow> int \<Rightarrow> bwriter result" where
  "BufferWriter_writeVarintBN w bn = writing w (varintBufBN bn)"

section \<open>Varint\<close>

definition Varint_fromBufferReader :: "reader \<Rightarrow> (bytes \<times> reader) result" where
  "Varint_fromBufferReader br = BufferReader_readVarintBuf br"

definition Varint_fromBN :: "int \<Rightarrow> bytes result" where
  "Varint_fromBN bn = rbind (BufferWriter_writeVarintBN [] bn) (\<lambda>w. Inr (BufferWriter_concat w))"

definition Varint_fromNumber :: "int \<Rightarrow> bytes result" where
  "Varint_fromNumber n = rbind (BufferWriter_writeVarintNum [] n) (\<lambda>w. Inr (BufferWriter_concat w))"

definition Varint_toBN :: "bytes \<Rightarrow> int result" where
  "Varint_toBN b = rbind (BufferReader_readVarintBN (new_BufferReader b)) (\<lambda>(n, _). Inr n)"

definition Varint_toNumber :: "bytes \<Rightarrow> nat result" where
  "Varint_toNumber b = rbind (BufferReader_readVarintNum (new_BufferReader b)) (\<lambda>(n, _). Inr n)"

section \<open>What a reader sees\<close>

text \<open>\<open>reads br e\<close>: the bytes \<open>e\<close> stand at the reader's position.\<close>

definition reads :: "reader \<Rightarrow> bytes \<Rightarrow> bool" where
  "reads br e \<longleftrightarrow>
     rpos br + length e \<le> length (rbuf br) \<and> take (length e) (drop (rpos br) (rbuf br)) = e \<and>
     length (rbuf br) < 2147483648"

definition skip :: "nat \<Rightarrow> reader \<Rightarrow> reader" where
  "skip k br = br\<lparr>rpos := rpos br + k\<rparr>"

lemma skip_sel [simp]: "rbuf (skip k br) = rbuf br" "rpos (skip k br) = rpos br + k"
  by (simp_all add: skip_def)

lemma skip_skip [simp]: "skip j (skip k br) = skip (k + j) br"
  by (simp add: skip_def add.assoc)

lemma skip_0 [simp]: "skip 0 br = br"
  by (simp add: skip_def)

lemma reads_append:
  "reads br (a @ b) \<longleftrightarrow> reads br a \<and> reads (skip (length a) br) b"
  by (auto simp: reads_def take_add add.commute add.left_commute)

lemma reads_Cons: "reads br (x # b) \<longleftrightarrow> reads br [x] \<and> reads (skip 1 br) b"
  using reads_append [of br "[x]" b] by simp

lemma reads_new: "length e < 2147483648 \<Longrightarrow> reads (new_BufferReader e) e"
  by (simp add: reads_def new_BufferReader_def)

lemma advance_skip: "advance k br r = rbind r (\<lambda>v. Inr (v, skip k br))"
  by (simp add: advance_def skip_def)

lemma read_reads: "reads br e \<Longrightarrow> BufferReader_read br (length e) = (e, skip (length e) br)"
  using Buffer_slice_nat [of "rpos br" "rpos br + length e" "rbuf br"]
  by (simp add: reads_def BufferReader_read_def skip_def)

lemma reads_nth: "reads br e \<Longrightarrow> i < length e \<Longrightarrow> rbuf br ! (rpos br + i) = e ! i"
  by (metis (no_types, lifting) reads_def add_leD1 nth_drop nth_take)

lemma readUInt8_reads: "reads br [b] \<Longrightarrow> BufferReader_readUInt8 br = Inr (unat b, skip 1 br)"
  using reads_nth [of br "[b]" 0]
  by (simp add: BufferReader_readUInt8_def advance_skip readUInt8_eq reads_def)

lemma readUInt16LE_reads:
  "reads br e \<Longrightarrow> length e = 2 \<Longrightarrow> BufferReader_readUInt16LE br = Inr (le_val e, skip 2 br)"
  by (simp add: BufferReader_readUInt16LE_def advance_skip readUInt16LE_eq reads_def)

lemma readUInt32LE_reads:
  "reads br e \<Longrightarrow> length e = 4 \<Longrightarrow> BufferReader_readUInt32LE br = Inr (le_val e, skip 4 br)"
  by (simp add: BufferReader_readUInt32LE_def advance_skip readUInt32LE_eq reads_def)

lemma readInt32LE_reads:
  "reads br e \<Longrightarrow> length e = 4 \<Longrightarrow>
   BufferReader_readInt32LE br = Inr (toInt32 (int (le_val e)), skip 4 br)"
  by (simp add: BufferReader_readInt32LE_def advance_skip readInt32LE_eq reads_def)

lemma readReverse_reads:
  "reads br e \<Longrightarrow> BufferReader_readReverse br (Some (length e)) = (rev e, skip (length e) br)"
  using Buffer_slice_nat [of "rpos br" "rpos br + length e" "rbuf br"]
  by (simp add: reads_def BufferReader_readReverse_def skip_def)

section \<open>Doubles\<close>

lemma bitlen_bounds: "0 < n \<Longrightarrow> 2 ^ (bitlen n - 1) \<le> n \<and> n < 2 ^ bitlen n"
proof (induction n rule: bitlen.induct)
  case (1 n)
  show ?case
  proof (cases "n = 1")
    case True
    then show ?thesis by (simp add: bitlen.simps [of "Suc 0"] bitlen.simps [of 0])
  next
    case False
    with "1.prems" have pos: "0 < n div 2" by (simp add: div_greater_zero_iff)
    with "1.IH" "1.prems" have IH: "2 ^ (bitlen (n div 2) - 1) \<le> n div 2" "n div 2 < 2 ^ bitlen (n div 2)"
      by simp_all
    have b: "bitlen n = Suc (bitlen (n div 2))" using "1.prems" by (simp add: bitlen.simps [of n])
    have c: "bitlen (n div 2) = Suc (bitlen (n div 2) - 1)"
      using pos by (simp add: bitlen.simps [of "n div 2"])
    have "2 * 2 ^ (bitlen (n div 2) - 1) \<le> n" using IH(1) by simp
    moreover have "2 * 2 ^ (bitlen (n div 2) - 1) = (2::nat) ^ bitlen (n div 2)"
      by (subst c) simp
    moreover have "n < 2 * 2 ^ bitlen (n div 2)" using IH(2) by simp
    ultimately show ?thesis by (simp add: b)
  qed
qed

lemma bitlen_ge: "2 ^ k \<le> n \<Longrightarrow> k < bitlen n"
proof -
  assume k: "2 ^ k \<le> n"
  then have "0 < n" by (metis gr0I le_zero_eq power_not_zero zero_neq_numeral)
  with bitlen_bounds [of n] k have "(2::nat) ^ k < 2 ^ bitlen n" by linarith
  then show ?thesis by simp
qed

lemma bitlen_eqI: "2 ^ k \<le> n \<Longrightarrow> n < 2 ^ Suc k \<Longrightarrow> bitlen n = Suc k"
proof -
  assume k: "2 ^ k \<le> n" and "n < 2 ^ Suc k"
  have "0 < n" using k by (metis gr0I le_zero_eq power_not_zero zero_neq_numeral)
  with bitlen_bounds [of n] \<open>n < 2 ^ Suc k\<close> have "(2::nat) ^ (bitlen n - 1) < 2 ^ Suc k" by linarith
  then have "bitlen n - 1 < Suc k" by (rule power_less_imp_less_exp [rotated]) simp
  with bitlen_ge [OF k] show ?thesis by linarith
qed

lemma double_round_small: "m \<le> 9007199254740992 \<Longrightarrow> double_round_nat m = m"
proof -
  assume m: "m \<le> 9007199254740992"
  have "bitlen 9007199254740992 = 54" using bitlen_eqI [of 53 9007199254740992] by simp
  then have "double_round_nat 9007199254740992 = 9007199254740992"
    by (simp add: double_round_nat_def)
  with m show ?thesis by (cases "m = 9007199254740992") (simp_all add: double_round_nat_def)
qed

lemma double_round_tie: "double_round_nat 9007199254740993 = 9007199254740992"
proof -
  have "bitlen 9007199254740993 = 54" using bitlen_eqI [of 53 9007199254740993] by simp
  then show ?thesis by (simp add: double_round_nat_def)
qed

lemma double_round_ge:
  assumes "9007199254740992 \<le> m"
  shows "9007199254740992 \<le> double_round_nat m"
    and "9007199254740994 \<le> m \<Longrightarrow> 9007199254740994 \<le> double_round_nat m"
proof -
  let ?e = "bitlen m - 53" and ?q = "m div 2 ^ (bitlen m - 53)"
  have bl: "53 < bitlen m" using bitlen_ge [of 53 m] assms by simp
  then obtain e where e: "?e = Suc e" by (metis Suc_diff_Suc)
  have "2 ^ (bitlen m - 1) \<le> m" using bitlen_bounds [of m] assms by simp
  moreover have "bitlen m - 1 = 52 + ?e" using bl by linarith
  ultimately have "2 ^ (52 + ?e) \<le> m" by (simp only:)
  then have "2 ^ 52 * 2 ^ ?e \<le> m" by (simp only: power_add)
  then have q: "2 ^ 52 \<le> ?q" using div_le_mono [of "2 ^ 52 * 2 ^ ?e" m "2 ^ ?e"] by simp
  have dr: "?q * 2 ^ ?e \<le> double_round_nat m"
    using assms by (simp add: double_round_nat_def Let_def)
  have "4503599627370496 * 2 ^ ?e \<le> ?q * 2 ^ ?e" using q by simp
  from this dr have ge: "4503599627370496 * 2 ^ ?e \<le> double_round_nat m" by (rule order_trans)
  have "(2::nat) \<le> 2 ^ ?e" by (simp add: e)
  with ge show "9007199254740992 \<le> double_round_nat m" by linarith
  assume m: "9007199254740994 \<le> m"
  show "9007199254740994 \<le> double_round_nat m"
  proof (cases e)
    case 0
    then have "4503599627370497 \<le> ?q" using div_le_mono [OF m, of 2] by (simp add: e)
    then have "4503599627370497 * 2 ^ ?e \<le> ?q * 2 ^ ?e" by simp
    from this dr have "4503599627370497 * 2 ^ ?e \<le> double_round_nat m" by (rule order_trans)
    with 0 e show ?thesis by simp
  next
    case (Suc f)
    then have "(4::nat) \<le> 2 ^ ?e" by (simp add: e)
    with ge show ?thesis by linarith
  qed
qed

lemma BN_toNumber_small: "\<bar>v\<bar> \<le> 9007199254740992 \<Longrightarrow> BN_toNumber v = v"
  by (simp add: BN_toNumber_def double_round_small nat_le_iff)

section \<open>64-bit and variable-length numbers\<close>

lemma readUInt64LEBN_reads:
  assumes "reads br e" and "length e = 8"
  shows "BufferReader_readUInt64LEBN br = Inr (int (le_val e), skip 8 br)"
proof -
  have split: "e = take 4 e @ drop 4 e" by simp
  then have r: "reads br (take 4 e)" "reads (skip 4 br) (drop 4 e)"
    using assms reads_append [of br "take 4 e" "drop 4 e"] by simp_all
  have lo: "Buffer_readUInt32LE (rbuf br) (rpos br) = Inr (le_val (take 4 e))"
    using r(1) assms(2) by (simp add: readUInt32LE_eq reads_def)
  have hi: "Buffer_readUInt32LE (rbuf br) (rpos br + 4) = Inr (le_val (drop 4 e))"
    using r(2) assms(2) by (simp add: readUInt32LE_eq reads_def)
  have val: "le_val e = le_val (drop 4 e) * 4294967296 + le_val (take 4 e)"
    using le_val_append [of "take 4 e" "drop 4 e"] assms(2) by simp
  have "le_val (take 8 (drop (rpos br) (rbuf br))) = le_val e"
    using assms by (simp add: reads_def)
  moreover have "double_round_nat (le_val e) = le_val e" if "double_round_nat (le_val e) \<le> 9007199254740991"
    using that double_round_ge(1) [of "le_val e"] by (intro double_round_small) linarith
  ultimately show ?thesis
    by (simp add: BufferReader_readUInt64LEBN_def lo hi Let_def skip_def val [symmetric])
qed

definition varint_bytes :: "nat \<Rightarrow> bytes" where
  "varint_bytes n =
     (if n < 253 then [of_nat n]
      else if n < 65536 then 253 # le_bytes 2 n
      else if n < 4294967296 then 254 # le_bytes 4 n
      else 255 # le_bytes 8 n)"

lemma toInt32_mod: "toInt32 n mod 4294967296 = n mod 4294967296"
  by (simp add: toInt32_def mod_diff_left_eq)

lemma le_bytes_8: "le_bytes 8 n = le_bytes 4 (n mod 4294967296) @ le_bytes 4 (n div 4294967296)"
  using le_bytes_add [of 4 4 n] le_bytes_mod [of 4 n] by (simp del: le_bytes_numeral)

lemma replicate_small:
  "replicate 3 x = [x, x, x]" "replicate 5 x = [x, x, x, x, x]"
  "replicate 9 x = [x, x, x, x, x, x, x, x, x]"
  by (simp_all add: numeral_eq_Suc)

lemma list_update_numeral [simp]:
  "(x # xs)[numeral k := y] = x # xs[pred_numeral k := y]"
  by (simp add: numeral_eq_Suc)

lemma varintBufNum_8:
  assumes "4294967296 \<le> n" and "n < 18446744073709551616"
  shows "varintBufNum (int n) = Inr (255 # le_bytes 8 n)"
proof -
  have lo: "le_bytes 4 (n mod 4294967296) =
      [of_int (toInt32 (int n)), of_int (toInt32 (int n) div 256),
       of_int (toInt32 (int n) div 65536), of_int (toInt32 (int n) div 16777216)]"
    using le_bytes_int32 [of "toInt32 (int n)"] by (simp add: toInt32_mod nat_mod_distrib)
  have hi: "le_bytes 4 (n div 4294967296) =
      [of_nat (n div 4294967296), of_nat (n div 4294967296 div 256),
       of_nat (n div 4294967296 div 65536), of_nat (n div 4294967296 div 16777216)]"
    by (simp add: div_mult2_eq [symmetric])
  have h: "int n div 4294967296 = int (n div 4294967296)" by (simp add: zdiv_int)
  have "n div 4294967296 < 4294967296"
    using assms by (simp add: less_mult_imp_div_less)
  then show ?thesis
    unfolding le_bytes_8 lo hi
    using assms toInt32_range [of "int n"]
    by (simp add: varintBufNum_def write_defs replicate_small h of_int_div_numeral del: of_nat_div)
qed

lemma varintBufNum_eq:
  "n < 18446744073709551616 \<Longrightarrow> varintBufNum (int n) = Inr (varint_bytes n)"
  by (simp add: varintBufNum_8 varint_bytes_def del: le_bytes_numeral)
    (simp add: varintBufNum_def write_defs replicate_small of_int_div_numeral div_mult2_eq [symmetric])

lemma varintBufNum_negative: "n < 0 \<Longrightarrow> \<exists>m. varintBufNum n = Inl (RangeError m)"
  by (simp add: varintBufNum_def write_defs)

lemma varintBufBN_eq:
  assumes "n \<le> 9007199254740992"
  shows "varintBufBN (int n) = Inr (varint_bytes n)"
proof -
  have "BN_toNumber (int n) = int n" using assms by (simp add: BN_toNumber_small)
  moreover have "BufferWriter_writeUInt64LEBN [[255]] (int n) = [[255], le_bytes 8 n]"
    using assms BN_toBuffer_fits [of "int n" 8]
    by (simp add: BufferWriter_writeUInt64LEBN_def BufferWriter_writeReverse_def
        del: le_bytes_numeral)
  moreover have "BufferWriter_writeUInt8 [] 255 = Inr [[255]]"
    by (simp add: BufferWriter_writeUInt8_def writing_def BufferWriter_write_def write_defs)
  moreover have "n < 4294967296 \<Longrightarrow> varintBufBN (int n) = varintBufNum (int n)"
    using \<open>BN_toNumber (int n) = int n\<close> by (simp add: varintBufBN_def varintBufNum_def)
  ultimately show ?thesis
    using assms varintBufNum_eq [of n]
    by (cases "n < 4294967296")
      (simp_all add: varintBufBN_def BufferWriter_concat_def varint_bytes_def del: le_bytes_numeral)
qed

lemma readVarintNum_reads:
  assumes "reads br (varint_bytes n)" and "n \<le> 9007199254740992"
  shows "BufferReader_readVarintNum br = Inr (n, skip (length (varint_bytes n)) br)"
proof -
  consider "n < 253" | "253 \<le> n" "n < 65536" | "65536 \<le> n" "n < 4294967296" | "4294967296 \<le> n"
    by linarith
  then show ?thesis
  proof cases
    case 1
    with assms(1) have r: "reads br [of_nat n]" by (simp add: varint_bytes_def)
    have "unat (of_nat n :: byte) = n" using 1 by (simp add: unat_of_nat_byte)
    then show ?thesis
      using readUInt8_reads [OF r] 1 by (simp add: BufferReader_readVarintNum_def varint_bytes_def)
  next
    case 2
    with assms(1) have "reads br (253 # le_bytes 2 n)" by (simp add: varint_bytes_def)
    then have r: "reads br [253]" "reads (skip 1 br) (le_bytes 2 n)"
      by (simp_all only: reads_Cons [of br 253 "le_bytes 2 n"])
    have "le_val (le_bytes 2 n) = n"
      using 2 by (simp only: le_val_le_bytes) simp
    then show ?thesis
      using readUInt8_reads [OF r(1)] readUInt16LE_reads [OF r(2)] 2
      by (simp add: BufferReader_readVarintNum_def varint_bytes_def del: le_bytes_numeral)
  next
    case 3
    with assms(1) have "reads br (254 # le_bytes 4 n)" by (simp add: varint_bytes_def)
    then have r: "reads br [254]" "reads (skip 1 br) (le_bytes 4 n)"
      by (simp_all only: reads_Cons [of br 254 "le_bytes 4 n"])
    have "le_val (le_bytes 4 n) = n"
      using 3 by (simp only: le_val_le_bytes) simp
    then show ?thesis
      using readUInt8_reads [OF r(1)] readUInt32LE_reads [OF r(2)] 3
      by (simp add: BufferReader_readVarintNum_def varint_bytes_def del: le_bytes_numeral)
  next
    case 4
    with assms(1) have "reads br (255 # le_bytes 8 n)" by (simp add: varint_bytes_def)
    then have r: "reads br [255]" "reads (skip 1 br) (le_bytes 8 n)"
      by (simp_all only: reads_Cons [of br 255 "le_bytes 8 n"])
    have "le_val (le_bytes 8 n) = n"
      using assms(2) by (simp only: le_val_le_bytes) simp
    then show ?thesis
      using readUInt8_reads [OF r(1)] readUInt64LEBN_reads [OF r(2)] 4 assms(2)
      by (simp add: BufferReader_readVarintNum_def varint_bytes_def BN_toNumber_small
          del: le_bytes_numeral)
  qed
qed

text \<open>The value \<open>2 ^ 53 + 1\<close> is not refused: it rounds to \<open>2 ^ 53\<close> before the test.\<close>

lemma readVarintNum_wide:
  assumes "reads br (255 # e)" and "length e = 8"
  shows "BufferReader_readVarintNum br =
    (if le_val e \<le> 9007199254740992 then Inr (le_val e, skip 9 br)
     else if le_val e = 9007199254740993 then Inr (9007199254740992, skip 9 br)
     else Inl (PlainError ''number too large to retain precision - use readVarintBN''))"
proof -
  from assms(1) have r: "reads br [255]" "reads (skip 1 br) e"
    by (simp_all only: reads_Cons [of br 255 e])
  have "BN_toNumber (int (le_val e)) = int (double_round_nat (le_val e))"
    by (simp add: BN_toNumber_def)
  moreover have "9007199254740994 \<le> le_val e \<Longrightarrow> \<not> double_round_nat (le_val e) \<le> 9007199254740992"
    using double_round_ge(2) [of "le_val e"] by linarith
  ultimately show ?thesis
    using readUInt8_reads [OF r(1)] readUInt64LEBN_reads [OF r(2) assms(2)] double_round_tie
    by (auto simp: BufferReader_readVarintNum_def Let_def double_round_small)
qed

lemma length_varint_bytes: "0 < length (varint_bytes n) \<and> length (varint_bytes n) \<le> 9"
  by (simp add: varint_bytes_def del: le_bytes_numeral)

lemma readVarLengthBuffer_reads:
  assumes "reads br (varint_bytes (length b) @ b)"
  shows "BufferReader_readVarLengthBuffer br
       = Inr (b, skip (length (varint_bytes (length b)) + length b) br)"
proof -
  have r: "reads br (varint_bytes (length b))"
      "reads (skip (length (varint_bytes (length b))) br) b"
    using assms by (simp_all add: reads_append)
  have "length b \<le> 9007199254740992" using r(2) by (simp add: reads_def)
  then show ?thesis
    using readVarintNum_reads [OF r(1)] read_reads [OF r(2)]
    by (simp add: BufferReader_readVarLengthBuffer_def)
qed

section \<open>The contract of a wire format\<close>

text \<open>
  \<open>enc\<close> writes a value that is \<open>valid\<close>, and \<open>dec\<close> reads it back from any reader that
  stands at the written bytes, leaving the reader behind them.
\<close>

locale wire_format =
  fixes valid :: "'a \<Rightarrow> bool"
    and enc :: "'a \<Rightarrow> bytes result"
    and dec :: "reader \<Rightarrow> ('a \<times> reader) result"
  assumes enc_valid: "valid x \<Longrightarrow> \<exists>e. enc x = Inr e"
    and dec_enc: "valid x \<Longrightarrow> enc x = Inr e \<Longrightarrow> reads br e \<Longrightarrow> dec br = Inr (x, skip (length e) br)"

text \<open>Writing a list of values one after the other, and reading a given number of them.\<close>

fun enc_all :: "('a \<Rightarrow> bytes result) \<Rightarrow> 'a list \<Rightarrow> bytes result" where
  "enc_all enc [] = Inr []"
| "enc_all enc (x # xs) = rbind (enc x) (\<lambda>e. rbind (enc_all enc xs) (\<lambda>es. Inr (e @ es)))"

fun dec_n :: "(reader \<Rightarrow> ('a \<times> reader) result) \<Rightarrow> nat \<Rightarrow> reader \<Rightarrow> ('a list \<times> reader) result" where
  "dec_n dec 0 br = Inr ([], br)"
| "dec_n dec (Suc n) br =
     rbind (dec br) (\<lambda>(x, br). rbind (dec_n dec n br) (\<lambda>(xs, br). Inr (x # xs, br)))"

text \<open>A count followed by that many values, as transactions store their inputs and outputs.\<close>

definition enc_vector :: "('a \<Rightarrow> bytes result) \<Rightarrow> 'a list \<Rightarrow> bytes result" where
  "enc_vector enc xs =
     rbind (varintBufNum (int (length xs))) (\<lambda>c. rbind (enc_all enc xs) (\<lambda>es. Inr (c @ es)))"

definition dec_vector :: "(reader \<Rightarrow> ('a \<times> reader) result) \<Rightarrow> reader \<Rightarrow> ('a list \<times> reader) result" where
  "dec_vector dec br = rbind (BufferReader_readVarintNum br) (\<lambda>(n, br). dec_n dec n br)"

context wire_format
begin

lemma enc_all_valid: "list_all valid xs \<Longrightarrow> \<exists>es. enc_all enc xs = Inr es"
  by (induction xs) (auto dest: enc_valid)

lemma dec_n_enc_all:
  assumes "list_all valid xs" and "enc_all enc xs = Inr es" and "reads br es"
  shows "dec_n dec (length xs) br = Inr (xs, skip (length es) br)"
  using assms
proof (induction xs arbitrary: es br)
  case Nil
  then show ?case by simp
next
  case (Cons x xs)
  from Cons.prems obtain e fs where e: "enc x = Inr e" "enc_all enc xs = Inr fs" "es = e @ fs"
    by (auto simp: rbind_eq_Inr)
  have r: "reads br e" "reads (skip (length e) br) fs"
    using Cons.prems(3) by (simp_all add: e reads_append)
  have "dec br = Inr (x, skip (length e) br)"
    using Cons.prems(1) e(1) r(1) by (simp add: dec_enc)
  moreover have "dec_n dec (length xs) (skip (length e) br) = Inr (xs, skip (length fs) (skip (length e) br))"
    using Cons.prems(1) e(2) r(2) by (intro Cons.IH) simp_all
  ultimately show ?case by (simp add: e)
qed

lemma vector_format:
  "wire_format (\<lambda>xs. list_all valid xs \<and> length xs \<le> 9007199254740992) (enc_vector enc) (dec_vector dec)"
proof
  fix xs
  assume "list_all valid xs \<and> length xs \<le> 9007199254740992"
  then show "\<exists>e. enc_vector enc xs = Inr e"
    using enc_all_valid [of xs] by (auto simp: enc_vector_def varintBufNum_eq)
next
  fix xs e br
  assume v: "list_all valid xs \<and> length xs \<le> 9007199254740992" and enc: "enc_vector enc xs = Inr e"
    and r: "reads br e"
  from v enc obtain es where es: "enc_all enc xs = Inr es" "e = varint_bytes (length xs) @ es"
    by (auto simp: enc_vector_def varintBufNum_eq rbind_eq_Inr)
  with r have "reads br (varint_bytes (length xs))" "reads (skip (length (varint_bytes (length xs))) br) es"
    by (simp_all add: reads_append)
  with v es show "dec_vector dec br = Inr (xs, skip (length e) br)"
    by (simp add: dec_vector_def readVarintNum_reads dec_n_enc_all)
qed

text \<open>Two values with different encodings cannot be confused, whatever follows them.\<close>

lemma unambiguous:
  assumes "valid x" and "valid y" and "enc x = Inr e" and "enc y = Inr f"
    and "e @ r = f @ s" and "length (e @ r) < 2147483648"
  shows "x = y \<and> r = s"
proof -
  have "reads (new_BufferReader (e @ r)) e"
    using reads_new [OF assms(6)] by (simp add: reads_append)
  moreover have "reads (new_BufferReader (f @ s)) f"
    using reads_new [of "f @ s"] assms(5,6) by (simp add: reads_append)
  ultimately have "Inr (x, skip (length e) (new_BufferReader (e @ r)))
      = (Inr (y, skip (length f) (new_BufferReader (e @ r))) :: ('a \<times> reader) result)"
    using dec_enc [OF assms(1,3)] dec_enc [OF assms(2,4)] assms(5) by metis
  then have "x = y" "length e = length f"
    by (simp_all add: skip_def new_BufferReader_def)
  with assms(5) show ?thesis by simp
qed

end

interpretation uint8: wire_format "\<lambda>n. n < 256"
  "\<lambda>n. Buffer_writeUInt8 (new_Buffer 1) (int n) 0" BufferReader_readUInt8
  by unfold_locales (auto simp: writeUInt8_fresh [simplified] unat_of_nat_byte dest!: readUInt8_reads)

interpretation uint32: wire_format "\<lambda>n. n < 4294967296"
  "\<lambda>n. Buffer_writeUInt32LE (new_Buffer 4) (int n) 0" BufferReader_readUInt32LE
proof unfold_locales
  fix n e br
  assume "n < 4294967296" "Buffer_writeUInt32LE (new_Buffer 4) (int n) 0 = Inr e" "reads br e"
  moreover from this have "le_val (le_bytes 4 n) = n" by (simp only: le_val_le_bytes) simp
  ultimately show "BufferReader_readUInt32LE br = Inr (n, skip (length e) br)"
    using readUInt32LE_reads [of br e] by (auto simp: writeUInt32LE_fresh simp del: le_bytes_numeral)
qed (simp add: writeUInt32LE_fresh)

interpretation varint: wire_format "\<lambda>n. n \<le> 9007199254740992"
  "\<lambda>n. varintBufNum (int n)" BufferReader_readVarintNum
  by unfold_locales (auto simp: varintBufNum_eq readVarintNum_reads)

definition varbuf :: "bytes \<Rightarrow> bytes result" where
  "varbuf b = rbind (varintBufNum (int (length b))) (\<lambda>c. Inr (c @ b))"

interpretation varbuf: wire_format "\<lambda>b. length b < 2147483648" varbuf BufferReader_readVarLengthBuffer
  by unfold_locales (auto simp: varbuf_def varintBufNum_eq readVarLengthBuffer_reads)

end
