(* ===== verification/Opcodes.thy ===== *)
theory Opcodes
  imports BufferIO
begin

text \<open>
  The opcodes of the script language (\<open>Opcode\<close> in magnachain.js): the table of names and
  numbers, the reverse table, small integers and the conversions of an \<open>Opcode\<close> object.
  An opcode is its number.
\<close>

section \<open>The table\<close>

abbreviation (input) OP_FALSE :: nat where "OP_FALSE \<equiv> 0"
abbreviation (input) OP_0 :: nat where "OP_0 \<equiv> 0"
abbreviation (input) OP_PUSHDATA1 :: nat where "OP_PUSHDATA1 \<equiv> 76"
abbreviation (input) OP_PUSHDATA2 :: nat where "OP_PUSHDATA2 \<equiv> 77"
abbreviation (input) OP_PUSHDATA4 :: nat where "OP_PUSHDATA4 \<equiv> 78"
abbreviation (input) OP_1NEGATE :: nat where "OP_1NEGATE \<equiv> 79"
abbreviation (input) OP_RESERVED :: nat where "OP_RESERVED \<equiv> 80"
abbreviation (input) OP_TRUE :: nat where "OP_TRUE \<equiv> 81"
abbreviation (input) OP_1 :: nat where "OP_1 \<equiv> 81"
abbreviation (input) OP_2 :: nat where "OP_2 \<equiv> 82"
abbreviation (input) OP_3 :: nat where "OP_3 \<equiv> 83"
abbreviation (input) OP_4 :: nat where "OP_4 \<equiv> 84"
abbreviation (input) OP_5 :: nat where "OP_5 \<equiv> 85"
abbreviation (input) OP_6 :: nat where "OP_6 \<equiv> 86"
abbreviation (input) OP_7 :: nat where "OP_7 \<equiv> 87"
abbreviation (input) OP_8 :: nat where "OP_8 \<equiv> 88"
abbreviation (input) OP_9 :: nat where "OP_9 \<equiv> 89"
abbreviation (input) OP_10 :: nat where "OP_10 \<equiv> 90"
abbreviation (input) OP_11 :: nat where "OP_11 \<equiv> 91"
abbreviation (input) OP_12 :: nat where "OP_12 \<equiv> 92"
abbreviation (input) OP_13 :: nat where "OP_13 \<equiv> 93"
abbreviation (input) OP_14 :: nat where "OP_14 \<equiv> 94"
abbreviation (input) OP_15 :: nat where "OP_15 \<equiv> 95"
abbreviation (input) OP_16 :: nat where "OP_16 \<equiv> 96"
abbreviation (input) OP_NOP :: nat where "OP_NOP \<equiv> 97"
abbreviation (input) OP_VER :: nat where "OP_VER \<equiv> 98"
abbreviation (input) OP_IF :: nat where "OP_IF \<equiv> 99"
abbreviation (input) OP_NOTIF :: nat where "OP_NOTIF \<equiv> 100"
abbreviation (input) OP_VERIF :: nat where "OP_VERIF \<equiv> 101"
abbreviation (input) OP_VERNOTIF :: nat where "OP_VERNOTIF \<equiv> 102"
abbreviation (input) OP_ELSE :: nat where "OP_ELSE \<equiv> 103"
abbreviation (input) OP_ENDIF :: nat where "OP_ENDIF \<equiv> 104"
abbreviation (input) OP_VERIFY :: nat where "OP_VERIFY \<equiv> 105"
abbreviation (input) OP_RETURN :: nat where "OP_RETURN \<equiv> 106"
abbreviation (input) OP_TOALTSTACK :: nat where "OP_TOALTSTACK \<equiv> 107"
abbreviation (input) OP_FROMALTSTACK :: nat where "OP_FROMALTSTACK \<equiv> 108"
abbreviation (input) OP_2DROP :: nat where "OP_2DROP \<equiv> 109"
abbreviation (input) OP_2DUP :: nat where "OP_2DUP \<equiv> 110"
abbreviation (input) OP_3DUP :: nat where "OP_3DUP \<equiv> 111"
abbreviation (input) OP_2OVER :: nat where "OP_2OVER \<equiv> 112"
abbreviation (input) OP_2ROT :: nat where "OP_2ROT \<equiv> 113"
abbreviation (input) OP_2SWAP :: nat where "OP_2SWAP \<equiv> 114"
abbreviation (input) OP_IFDUP :: nat where "OP_IFDUP \<equiv> 115"
abbreviation (input) OP_DEPTH :: nat where "OP_DEPTH \<equiv> 116"
abbreviation (input) OP_DROP :: nat where "OP_DROP \<equiv> 117"
abbreviation (input) OP_DUP :: nat where "OP_DUP \<equiv> 118"
abbreviation (input) OP_NIP :: nat where "OP_NIP \<equiv> 119"
abbreviation (input) OP_OVER :: nat where "OP_OVER \<equiv> 120"
abbreviation (input) OP_PICK :: nat where "OP_PICK \<equiv> 121"
abbreviation (input) OP_ROLL :: nat where "OP_ROLL \<equiv> 122"
abbreviation (input) OP_ROT :: nat where "OP_ROT \<equiv> 123"
abbreviation (input) OP_SWAP :: nat where "OP_SWAP \<equiv> 124"
abbreviation (input) OP_TUCK :: nat where "OP_TUCK \<equiv> 125"
abbreviation (input) OP_CAT :: nat where "OP_CAT \<equiv> 126"
abbreviation (input) OP_SUBSTR :: nat where "OP_SUBSTR \<equiv> 127"
abbreviation (input) OP_LEFT :: nat where "OP_LEFT \<equiv> 128"
abbreviation (input) OP_RIGHT :: nat where "OP_RIGHT \<equiv> 129"
abbreviation (input) OP_SIZE :: nat where "OP_SIZE \<equiv> 130"
abbreviation (input) OP_INVERT :: nat where "OP_INVERT \<equiv> 131"
abbreviation (input) OP_AND :: nat where "OP_AND \<equiv> 132"
abbreviation (input) OP_OR :: nat where "OP_OR \<equiv> 133"
abbreviation (input) OP_XOR :: nat where "OP_XOR \<equiv> 134"
abbreviation (input) OP_EQUAL :: nat where "OP_EQUAL \<equiv> 135"
abbreviation (input) OP_EQUALVERIFY :: nat where "OP_EQUALVERIFY \<equiv> 136"
abbreviation (input) OP_RESERVED1 :: nat where "OP_RESERVED1 \<equiv> 137"
abbreviation (input) OP_RESERVED2 :: nat where "OP_RESERVED2 \<equiv> 138"
abbreviation (input) OP_1ADD :: nat where "OP_1ADD \<equiv> 139"
abbreviation (input) OP_1SUB :: nat where "OP_1SUB \<equiv> 140"
abbreviation (input) OP_2MUL :: nat where "OP_2MUL \<equiv> 141"
abbreviation (input) OP_2DIV :: nat where "OP_2DIV \<equiv> 142"
abbreviation (input) OP_NEGATE :: nat where "OP_NEGATE \<equiv> 143"
abbreviation (input) OP_ABS :: nat where "OP_ABS \<equiv> 144"
abbreviation (input) OP_NOT :: nat where "OP_NOT \<equiv> 145"
abbreviation (input) OP_0NOTEQUAL :: nat where "OP_0NOTEQUAL \<equiv> 146"
abbreviation (input) OP_ADD :: nat where "OP_ADD \<equiv> 147"
abbreviation (input) OP_SUB :: nat where "OP_SUB \<equiv> 148"
abbreviation (input) OP_MUL :: nat where "OP_MUL \<equiv> 149"
abbreviation (input) OP_DIV :: nat where "OP_DIV \<equiv> 150"
abbreviation (input) OP_MOD :: nat where "OP_MOD \<equiv> 151"
abbreviation (input) OP_LSHIFT :: nat where "OP_LSHIFT \<equiv> 152"
abbreviation (input) OP_RSHIFT :: nat where "OP_RSHIFT \<equiv> 153"
abbreviation (input) OP_BOOLAND :: nat where "OP_BOOLAND \<equiv> 154"
abbreviation (input) OP_BOOLOR :: nat where "OP_BOOLOR \<equiv> 155"
abbreviation (input) OP_NUMEQUAL :: nat where "OP_NUMEQUAL \<equiv> 156"
abbreviation (input) OP_NUMEQUALVERIFY :: nat where "OP_NUMEQUALVERIFY \<equiv> 157"
abbreviation (input) OP_NUMNOTEQUAL :: nat where "OP_NUMNOTEQUAL \<equiv> 158"
abbreviation (input) OP_LESSTHAN :: nat where "OP_LESSTHAN \<equiv> 159"
abbreviation (input) OP_GREATERTHAN :: nat where "OP_GREATERTHAN \<equiv> 160"
abbreviation (input) OP_LESSTHANOREQUAL :: nat where "OP_LESSTHANOREQUAL \<equiv> 161"
abbreviation (input) OP_GREATERTHANOREQUAL :: nat where "OP_GREATERTHANOREQUAL \<equiv> 162"
abbreviation (input) OP_MIN :: nat where "OP_MIN \<equiv> 163"
abbreviation (input) OP_MAX :: nat where "OP_MAX \<equiv> 164"
abbreviation (input) OP_WITHIN :: nat where "OP_WITHIN \<equiv> 165"
abbreviation (input) OP_RIPEMD160 :: nat where "OP_RIPEMD160 \<equiv> 166"
abbreviation (input) OP_SHA1 :: nat where "OP_SHA1 \<equiv> 167"
abbreviation (input) OP_SHA256 :: nat where "OP_SHA256 \<equiv> 168"
abbreviation (input) OP_HASH160 :: nat where "OP_HASH160 \<equiv> 169"
abbreviation (input) OP_HASH256 :: nat where "OP_HASH256 \<equiv> 170"
abbreviation (input) OP_CODESEPARATOR :: nat where "OP_CODESEPARATOR \<equiv> 171"
abbreviation (input) OP_CHECKSIG :: nat where "OP_CHECKSIG \<equiv> 172"
abbreviation (input) OP_CHECKSIGVERIFY :: nat where "OP_CHECKSIGVERIFY \<equiv> 173"
abbreviation (input) OP_CHECKMULTISIG :: nat where "OP_CHECKMULTISIG \<equiv> 174"
abbreviation (input) OP_CHECKMULTISIGVERIFY :: nat where "OP_CHECKMULTISIGVERIFY \<equiv> 175"
abbreviation (input) OP_CHECKLOCKTIMEVERIFY :: nat where "OP_CHECKLOCKTIMEVERIFY \<equiv> 177"
abbreviation (input) OP_NOP1 :: nat where "OP_NOP1 \<equiv> 176"
abbreviation (input) OP_NOP2 :: nat where "OP_NOP2 \<equiv> 177"
abbreviation (input) OP_NOP3 :: nat where "OP_NOP3 \<equiv> 178"
abbreviation (input) OP_NOP4 :: nat where "OP_NOP4 \<equiv> 179"
abbreviation (input) OP_NOP5 :: nat where "OP_NOP5 \<equiv> 180"
abbreviation (input) OP_NOP6 :: nat where "OP_NOP6 \<equiv> 181"
abbreviation (input) OP_NOP7 :: nat where "OP_NOP7 \<equiv> 182"
abbreviation (input) OP_NOP8 :: nat where "OP_NOP8 \<equiv> 183"
abbreviation (input) OP_NOP9 :: nat where "OP_NOP9 \<equiv> 184"
abbreviation (input) OP_NOP10 :: nat where "OP_NOP10 \<equiv> 185"
abbreviation (input) OP_CONTRACT_ADDR :: nat where "OP_CONTRACT_ADDR \<equiv> 192"
abbreviation (input) OP_CONTRACT :: nat where "OP_CONTRACT \<equiv> 193"
abbreviation (input) OP_CONTRACT_CHANGE :: nat where "OP_CONTRACT_CHANGE \<equiv> 194"
abbreviation (input) OP_CREATE_BRANCH :: nat where "OP_CREATE_BRANCH \<equiv> 208"
abbreviation (input) OP_TRANS_BRANCH :: nat where "OP_TRANS_BRANCH \<equiv> 209"
abbreviation (input) OP_PUBKEYHASH :: nat where "OP_PUBKEYHASH \<equiv> 253"
abbreviation (input) OP_PUBKEY :: nat where "OP_PUBKEY \<equiv> 254"
abbreviation (input) OP_INVALIDOPCODE :: nat where "OP_INVALIDOPCODE \<equiv> 255"

definition Opcode_map :: "(string \<times> nat) list" where
  "Opcode_map =
    [(''OP_FALSE'', OP_FALSE), (''OP_0'', OP_0), (''OP_PUSHDATA1'', OP_PUSHDATA1),
     (''OP_PUSHDATA2'', OP_PUSHDATA2), (''OP_PUSHDATA4'', OP_PUSHDATA4),
     (''OP_1NEGATE'', OP_1NEGATE), (''OP_RESERVED'', OP_RESERVED), (''OP_TRUE'', OP_TRUE),
     (''OP_1'', OP_1), (''OP_2'', OP_2), (''OP_3'', OP_3), (''OP_4'', OP_4), (''OP_5'', OP_5),
     (''OP_6'', OP_6), (''OP_7'', OP_7), (''OP_8'', OP_8), (''OP_9'', OP_9), (''OP_10'', OP_10),
     (''OP_11'', OP_11), (''OP_12'', OP_12), (''OP_13'', OP_13), (''OP_14'', OP_14),
     (''OP_15'', OP_15), (''OP_16'', OP_16), (''OP_NOP'', OP_NOP), (''OP_VER'', OP_VER),
     (''OP_IF'', OP_IF), (''OP_NOTIF'', OP_NOTIF), (''OP_VERIF'', OP_VERIF),
     (''OP_VERNOTIF'', OP_VERNOTIF), (''OP_ELSE'', OP_ELSE), (''OP_ENDIF'', OP_ENDIF),
     (''OP_VERIFY'', OP_VERIFY), (''OP_RETURN'', OP_RETURN), (''OP_TOALTSTACK'', OP_TOALTSTACK),
     (''OP_FROMALTSTACK'', OP_FROMALTSTACK), (''OP_2DROP'', OP_2DROP), (''OP_2DUP'', OP_2DUP),
     (''OP_3DUP'', OP_3DUP), (''OP_2OVER'', OP_2OVER), (''OP_2ROT'', OP_2ROT),
     (''OP_2SWAP'', OP_2SWAP), (''OP_IFDUP'', OP_IFDUP), (''OP_DEPTH'', OP_DEPTH),
     (''OP_DROP'', OP_DROP), (''OP_DUP'', OP_DUP), (''OP_NIP'', OP_NIP), (''OP_OVER'', OP_OVER),
     (''OP_PICK'', OP_PICK), (''OP_ROLL'', OP_ROLL), (''OP_ROT'', OP_ROT),
     (''OP_SWAP'', OP_SWAP), (''OP_TUCK'', OP_TUCK), (''OP_CAT'', OP_CAT),
     (''OP_SUBSTR'', OP_SUBSTR), (''OP_LEFT'', OP_LEFT), (''OP_RIGHT'', OP_RIGHT),
     (''OP_SIZE'', OP_SIZE), (''OP_INVERT'', OP_INVERT), (''OP_AND'', OP_AND),
     (''OP_OR'', OP_OR), (''OP_XOR'', OP_XOR), (''OP_EQUAL'', OP_EQUAL),
     (''OP_EQUALVERIFY'', OP_EQUALVERIFY), (''OP_RESERVED1'', OP_RESERVED1),
     (''OP_RESERVED2'', OP_RESERVED2), (''OP_1ADD'', OP_1ADD), (''OP_1SUB'', OP_1SUB),
     (''OP_2MUL'', OP_2MUL), (''OP_2DIV'', OP_2DIV), (''OP_NEGATE'', OP_NEGATE),
     (''OP_ABS'', OP_ABS), (''OP_NOT'', OP_NOT), (''OP_0NOTEQUAL'', OP_0NOTEQUAL),
     (''OP_ADD'', OP_ADD), (''OP_SUB'', OP_SUB), (''OP_MUL'', OP_MUL), (''OP_DIV'', OP_DIV),
     (''OP_MOD'', OP_MOD), (''OP_LSHIFT'', OP_LSHIFT), (''OP_RSHIFT'', OP_RSHIFT),
     (''OP_BOOLAND'', OP_BOOLAND), (''OP_BOOLOR'', OP_BOOLOR), (''OP_NUMEQUAL'', OP_NUMEQUAL),
     (''OP_NUMEQUALVERIFY'', OP_NUMEQUALVERIFY), (''OP_NUMNOTEQUAL'', OP_NUMNOTEQUAL),
     (''OP_LESSTHAN'', OP_LESSTHAN), (''OP_GREATERTHAN'', OP_GREATERTHAN),
     (''OP_LESSTHANOREQUAL'', OP_LESSTHANOREQUAL),
     (''OP_GREATERTHANOREQUAL'', OP_GREATERTHANOREQUAL), (''OP_MIN'', OP_MIN),
     (''OP_MAX'', OP_MAX), (''OP_WITHIN'', OP_WITHIN), (''OP_RIPEMD160'', OP_RIPEMD160),
     (''OP_SHA1'', OP_SHA1), (''OP_SHA256'', OP_SHA256), (''OP_HASH160'', OP_HASH160),
     (''OP_HASH256'', OP_HASH256), (''OP_CODESEPARATOR'', OP_CODESEPARATOR),
     (''OP_CHECKSIG'', OP_CHECKSIG), (''OP_CHECKSIGVERIFY'', OP_CHECKSIGVERIFY),
     (''OP_CHECKMULTISIG'', OP_CHECKMULTISIG),
     (''OP_CHECKMULTISIGVERIFY'', OP_CHECKMULTISIGVERIFY),
     (''OP_CHECKLOCKTIMEVERIFY'', OP_CHECKLOCKTIMEVERIFY), (''OP_NOP1'', OP_NOP1),
     (''OP_NOP2'', OP_NOP2), (''OP_NOP3'', OP_NOP3), (''OP_NOP4'', OP_NOP4),
     (''OP_NOP5'', OP_NOP5), (''OP_NOP6'', OP_NOP6), (''OP_NOP7'', OP_NOP7),
     (''OP_NOP8'', OP_NOP8), (''OP_NOP9'', OP_NOP9), (''OP_NOP10'', OP_NOP10),
     (''OP_CONTRACT_ADDR'', OP_CONTRACT_ADDR), (''OP_CONTRACT'', OP_CONTRACT),
     (''OP_CONTRACT_CHANGE'', OP_CONTRACT_CHANGE), (''OP_CREATE_BRANCH'', OP_CREATE_BRANCH),
     (''OP_TRANS_BRANCH'', OP_TRANS_BRANCH), (''OP_PUBKEYHASH'', OP_PUBKEYHASH),
     (''OP_PUBKEY'', OP_PUBKEY), (''OP_INVALIDOPCODE'', OP_INVALIDOPCODE)]"

text \<open>\<open>for (var k in Opcode.map) Opcode.reverseMap[Opcode.map[k]] = k\<close>: a later name wins.\<close>

definition Opcode_reverseMap :: "nat \<Rightarrow> string option" where
  "Opcode_reverseMap = fold (\<lambda>(k, v) m. m(v \<mapsto> k)) Opcode_map Map.empty"

section \<open>Operations\<close>

definition Opcode_fromString :: "string \<Rightarrow> nat result" where
  "Opcode_fromString s =
     (case map_of Opcode_map s of
        None \<Rightarrow> Inl (TypeError ''Invalid opcodestr'') | Some v \<Rightarrow> Inr v)"

definition Opcode_toString :: "nat \<Rightarrow> string result" where
  "Opcode_toString n =
     (case Opcode_reverseMap n of
        None \<Rightarrow> Inl (PlainError ''Opcode does not have a string representation'')
      | Some s \<Rightarrow> Inr s)"

definition Opcode_toHex :: "nat \<Rightarrow> string" where
  "Opcode_toHex n = hex_digits n"

definition Opcode_toBuffer :: "nat \<Rightarrow> bytes" where
  "Opcode_toBuffer n = Buffer_from_hex (Opcode_toHex n)"

text \<open>\<open>Number('0x' + hex)\<close> is \<open>NaN\<close> for an empty buffer.\<close>

definition Opcode_fromBuffer :: "bytes \<Rightarrow> int option" where
  "Opcode_fromBuffer b = (if b = [] then None else Some (BN_toNumber (BN_parseHex (hexSlice b))))"

definition Opcode_smallInt :: "int \<Rightarrow> nat result" where
  "Opcode_smallInt n =
     rbind (check (0 \<le> n \<and> n \<le> 16) (InvalidArgument ''Invalid Argument: n must be between 0 and 16''))
       (\<lambda>_. if n = 0 then Inr OP_0 else Inr (OP_1 + nat n - 1))"

definition Opcode_isSmallIntOp :: "nat \<Rightarrow> bool" where
  "Opcode_isSmallIntOp opcode \<longleftrightarrow> opcode = OP_0 \<or> (OP_1 \<le> opcode \<and> opcode \<le> OP_16)"

section \<open>Facts\<close>

text \<open>
  Every number of the table prints as a name that parses back to it: the aliases
  (\<open>OP_FALSE\<close>, \<open>OP_TRUE\<close>, \<open>OP_CHECKLOCKTIMEVERIFY\<close>) print as the later name.
\<close>

lemma Opcode_map_distinct_names: "distinct (map fst Opcode_map)"
  by code_simp

lemma reverse_table_Some:
  "fold (\<lambda>(k, v) m. m(v \<mapsto> k)) xs m v = Some k \<Longrightarrow> (k, v) \<in> set xs \<or> m v = Some k"
  by (induction xs arbitrary: m) (fastforce split: if_splits)+

lemma reverse_table_dom:
  "v \<in> dom m \<union> snd ` set xs \<Longrightarrow> v \<in> dom (fold (\<lambda>(k, v) m. m(v \<mapsto> k)) xs m)"
proof (induction xs arbitrary: m)
  case Nil
  then show ?case by simp
next
  case (Cons x xs)
  obtain k w where x: "x = (k, w)" by (cases x)
  have "v \<in> dom (m(w \<mapsto> k)) \<union> snd ` set xs" using Cons.prems by (auto simp: x)
  then have "v \<in> dom (fold (\<lambda>(k, v) m. m(v \<mapsto> k)) xs (m(w \<mapsto> k)))" by (rule Cons.IH)
  then show ?case by (simp only: x fold_simps prod.case)
qed

lemma Opcode_toString_fromString:
  assumes "Opcode_fromString s = Inr v"
  shows "\<exists>s'. Opcode_toString v = Inr s' \<and> Opcode_fromString s' = Inr v"
proof -
  have "(s, v) \<in> set Opcode_map"
    using assms by (auto simp: Opcode_fromString_def map_of_SomeD split: option.splits)
  then have "v \<in> dom Opcode_reverseMap"
    unfolding Opcode_reverseMap_def by (intro reverse_table_dom) force
  then obtain s' where s': "Opcode_reverseMap v = Some s'" by blast
  then have "(s', v) \<in> set Opcode_map"
    using reverse_table_Some [of Opcode_map Map.empty v s'] by (simp add: Opcode_reverseMap_def)
  then have "map_of Opcode_map s' = Some v"
    using Opcode_map_distinct_names by simp
  with s' show ?thesis by (simp add: Opcode_toString_def Opcode_fromString_def)
qed

lemma Opcode_smallInt_ok: "Opcode_smallInt n = Inr v \<Longrightarrow> Opcode_isSmallIntOp v \<and> v \<le> 96"
  by (auto simp: Opcode_smallInt_def Opcode_isSmallIntOp_def rbind_eq_Inr split: if_splits)

text \<open>
  \<open>Opcode.prototype.toBuffer\<close> hands the unpadded hexadecimal string to \<open>new Buffer\<close>, which
  drops an odd digit: an opcode below 16 becomes the empty buffer.
\<close>

lemma Opcode_toBuffer_eq:
  "n < 256 \<Longrightarrow> Opcode_toBuffer n = (if n < 16 then [] else [of_nat n])"
proof (cases "n < 16")
  case True
  then show ?thesis by (simp add: Opcode_toBuffer_def Opcode_toHex_def hex_digits.simps [of n])
next
  case False
  assume n: "n < 256"
  then have "n div 16 < 16" by (simp add: less_mult_imp_div_less)
  with False have "hex_digits n = pad_even (hex_digits n)"
    by (simp add: hex_digits.simps [of n] hex_digits.simps [of "n div 16"] pad_even_def)
  then have "Opcode_toBuffer n = nat_be n"
    by (metis Opcode_toBuffer_def Opcode_toHex_def Buffer_from_hex_hexSlice hexSlice_nat_be)
  with n False show ?thesis by (simp add: nat_be_small)
qed

end
