(* ===== verification/Signatures.thy ===== *)
theory Signatures
  imports BufferIO
begin

unbundle bit_operations_syntax

text \<open>
  ECDSA signatures as the SDK stores them (\<open>Signature\<close> in magnachain.js): the compact form,
  the DER form with its strict and lenient parsers, the form used in transactions (DER and a
  hash type) and the canonicity test \<open>isTxDER\<close>.  Reading a byte outside a buffer gives
  \<open>undefined\<close>, here \<open>None\<close>.
\<close>

section \<open>Data\<close>

record signature =
  sig_r :: int
  sig_s :: int
  sig_i :: "nat option"
  sig_compressed :: "bool option"
  sig_nhashtype :: "nat option"

definition new_Signature :: "int \<Rightarrow> int \<Rightarrow> signature" where
  "new_Signature r s =
     \<lparr>sig_r = r, sig_s = s, sig_i = None, sig_compressed = None, sig_nhashtype = None\<rparr>"

record der_object =
  der_length :: nat
  der_rneg :: bool
  der_rbuf :: bytes
  der_r :: int
  der_sneg :: bool
  der_sbuf :: bytes
  der_s :: int

definition byte_at :: "bytes \<Rightarrow> nat \<Rightarrow> nat option" where
  "byte_at b i = (if i < length b then Some (unat (b ! i)) else None)"

abbreviation (input) SIGHASH_ALL :: nat where "SIGHASH_ALL \<equiv> 1"
abbreviation (input) SIGHASH_NONE :: nat where "SIGHASH_NONE \<equiv> 2"
abbreviation (input) SIGHASH_SINGLE :: nat where "SIGHASH_SINGLE \<equiv> 3"
abbreviation (input) SIGHASH_ANYONECANPAY :: nat where "SIGHASH_ANYONECANPAY \<equiv> 128"

section \<open>Compact signatures\<close>

definition Signature_fromCompact :: "bytes \<Rightarrow> signature result" where
  "Signature_fromCompact b =
     (case byte_at (Buffer_slice b 0 1) 0 of
        None \<Rightarrow> Inl (InvalidArgument ''i must be 0, 1, 2, or 3'')
      | Some v \<Rightarrow>
          let i0 = int v - 27 - 4;
              compressed = (0 \<le> i0);
              i = (if i0 < 0 then i0 + 4 else i0);
              b2 = Buffer_slice b 1 33;
              b3 = Buffer_slice b 33 65
          in rbind (check (i = 0 \<or> i = 1 \<or> i = 2 \<or> i = 3) (InvalidArgument ''i must be 0, 1, 2, or 3'')) (\<lambda>_.
             rbind (check (length b2 = 32) (InvalidArgument ''r must be 32 bytes'')) (\<lambda>_.
             rbind (check (length b3 = 32) (InvalidArgument ''s must be 32 bytes'')) (\<lambda>_.
               Inr \<lparr>sig_r = BN_fromBuffer b2 False, sig_s = BN_fromBuffer b3 False,
                    sig_i = Some (nat i), sig_compressed = Some compressed, sig_nhashtype = None\<rparr>))))"

text \<open>The arguments \<open>i\<close> and \<open>compressed\<close> default to the fields of the signature.\<close>

definition Signature_toCompact :: "signature \<Rightarrow> nat option \<Rightarrow> bool option \<Rightarrow> bytes result" where
  "Signature_toCompact sig i0 c0 =
     (let i = (case i0 of None \<Rightarrow> sig_i sig | Some _ \<Rightarrow> i0);
          c = (case c0 of None \<Rightarrow> sig_compressed sig | Some _ \<Rightarrow> c0)
      in case i of
           None \<Rightarrow> Inl (PlainError ''i must be equal to 0, 1, 2, or 3'')
         | Some k \<Rightarrow>
             if k > 3 then Inl (PlainError ''i must be equal to 0, 1, 2, or 3'')
             else
               let val = (if c = Some False then k + 27 + 4 - 4 else k + 27 + 4)
               in Inr (Buffer_concat [[of_nat val], BN_toBuffer (sig_r sig) 32 False,
                                      BN_toBuffer (sig_s sig) 32 False]))"

section \<open>DER\<close>

definition Signature_parseDER :: "bytes \<Rightarrow> bool \<Rightarrow> der_object result" where
  "Signature_parseDER b strict =
     rbind (check (byte_at b 0 = Some 48) (InvalidArgument ''Header byte should be 0x30'')) (\<lambda>_.
     let buflength = length (Buffer_slice b 2 (int (length b))) in
     rbind (check (\<not> strict \<or> byte_at b 1 = Some buflength)
             (InvalidArgument ''Length byte should length of what follows'')) (\<lambda>_.
     let len = (case byte_at b 1 of
                  Some l \<Rightarrow> if l < buflength then l else buflength
                | None \<Rightarrow> buflength) in
     rbind (check (byte_at b 2 = Some 2) (InvalidArgument ''Integer byte for r should be 0x02'')) (\<lambda>_.
     case byte_at b 3 of
       None \<Rightarrow> Inl (InvalidArgument ''Length of r incorrect'')
     | Some rlength \<Rightarrow>
         let rb = Buffer_slice b 4 (int (4 + rlength));
             r = BN_fromBuffer rb False;
             rneg = (byte_at b 4 = Some 0) in
         rbind (check (rlength = length rb) (InvalidArgument ''Length of r incorrect'')) (\<lambda>_.
         rbind (check (byte_at b (4 + rlength) = Some 2)
                 (InvalidArgument ''Integer byte for s should be 0x02'')) (\<lambda>_.
         case byte_at b (4 + rlength + 1) of
           None \<Rightarrow> Inl (InvalidArgument ''Length of s incorrect'')
         | Some slength \<Rightarrow>
             let sb = Buffer_slice b (int (4 + rlength + 2)) (int (4 + rlength + 2 + slength));
                 s = BN_fromBuffer sb False;
                 sneg = (byte_at b (4 + rlength + 2 + 2) = Some 0) in
             rbind (check (slength = length sb) (InvalidArgument ''Length of s incorrect'')) (\<lambda>_.
             let sumlength = 2 + 2 + rlength + 2 + slength in
             rbind (check (len = sumlength - 2) (InvalidArgument ''Length of signature incorrect'')) (\<lambda>_.
               Inr \<lparr>der_length = len, der_rneg = rneg, der_rbuf = rb, der_r = r,
                    der_sneg = sneg, der_sbuf = sb, der_s = s\<rparr>)))))))"

definition Signature_fromDER :: "bytes \<Rightarrow> bool \<Rightarrow> signature result" where
  "Signature_fromDER b strict =
     rbind (Signature_parseDER b strict) (\<lambda>obj. Inr (new_Signature (der_r obj) (der_s obj)))"

definition der_integer :: "int \<Rightarrow> bytes" where
  "der_integer v =
     (let nb = BN_toBuffer v 0 False
      in if nb ! 0 AND 128 \<noteq> 0 then Buffer_concat [[0], nb] else nb)"

definition Signature_toDER :: "signature \<Rightarrow> bytes" where
  "Signature_toDER sig =
     (let rb = der_integer (sig_r sig);
          sb = der_integer (sig_s sig);
          len = 2 + length rb + 2 + length sb
      in Buffer_concat [[48, of_nat len, 2, of_nat (length rb)], rb, [2, of_nat (length sb)], sb])"

section \<open>The form used in transactions\<close>

text \<open>\<open>readUInt8(buf.length - 1)\<close> on an empty buffer reads at \<open>-1 >>> 0\<close>.\<close>

definition Signature_fromTxFormat :: "bytes \<Rightarrow> signature result" where
  "Signature_fromTxFormat b =
     rbind (Buffer_readUInt8 b (if b = [] then 4294967295 else length b - 1)) (\<lambda>nhashtype.
     rbind (Signature_fromDER (Buffer_slice b 0 (int (length b) - 1)) False) (\<lambda>sig.
       Inr (sig\<lparr>sig_nhashtype := Some nhashtype\<rparr>)))"

text \<open>A missing hash type is written as 0: \<open>+undefined\<close> is \<open>NaN\<close>, which passes the range check
  and is stored as 0.\<close>

definition Signature_toTxFormat :: "signature \<Rightarrow> bytes result" where
  "Signature_toTxFormat sig =
     rbind (Buffer_writeUInt8 (new_Buffer 1)
              (case sig_nhashtype sig of None \<Rightarrow> 0 | Some n \<Rightarrow> int n) 0) (\<lambda>b.
       Inr (Buffer_concat [Signature_toDER sig, b]))"

definition Signature_isTxDER :: "bytes \<Rightarrow> bool" where
  "Signature_isTxDER b =
     (if length b < 9 then False
      else if length b > 73 then False
      else if b ! 0 \<noteq> 48 then False
      else if unat (b ! 1) \<noteq> length b - 3 then False
      else
        let nLenR = unat (b ! 3) in
        if 5 + nLenR \<ge> length b then False
        else
          let nLenS = unat (b ! (5 + nLenR)) in
          if nLenR + nLenS + 7 \<noteq> length b then False
          else if b ! 2 \<noteq> 2 then False
          else if nLenR = 0 then False
          else if b ! 4 AND 128 \<noteq> 0 then False
          else if nLenR > 1 \<and> b ! 4 = 0 \<and> \<not> (b ! 5 AND 128 \<noteq> 0) then False
          else if b ! (4 + nLenR) \<noteq> 2 then False
          else if nLenS = 0 then False
          else if b ! (6 + nLenR) AND 128 \<noteq> 0 then False
          else if nLenS > 1 \<and> b ! (6 + nLenR) = 0 \<and> \<not> (b ! (7 + nLenR) AND 128 \<noteq> 0) then False
          else True)"

definition Signature_hasLowS :: "signature \<Rightarrow> bool" where
  "Signature_hasLowS sig \<longleftrightarrow>
     \<not> (sig_s sig < 1 \<or>
        sig_s sig > 0x7FFFFFFFFFFFFFFFFFFFFFFFFFFFFFFF5D576E7357A4501DDFE92F46681B20A0)"

definition Signature_hasDefinedHashtype :: "signature \<Rightarrow> bool" where
  "Signature_hasDefinedHashtype sig =
     (case sig_nhashtype sig of
        None \<Rightarrow> False
      | Some n \<Rightarrow>
          let temp = toInt32 (int n) AND NOT (int SIGHASH_ANYONECANPAY)
          in \<not> (temp < int SIGHASH_ALL \<or> temp > int SIGHASH_SINGLE))"

section \<open>Shape of a DER signature\<close>

text \<open>The bytes of a signature whose integers are stored as \<open>rb\<close> and \<open>sb\<close>.\<close>

definition der_layout :: "bytes \<Rightarrow> bytes \<Rightarrow> bytes" where
  "der_layout rb sb =
     [48, of_nat (4 + length rb + length sb), 2, of_nat (length rb)] @ rb @ [2, of_nat (length sb)] @ sb"

lemma Signature_toDER_layout:
  "Signature_toDER sig = der_layout (der_integer (sig_r sig)) (der_integer (sig_s sig))"
  by (simp add: Signature_toDER_def der_layout_def Let_def)

text \<open>A minimal non-negative integer: its first byte has no sign bit, and is 0 only before a
  byte that has it.\<close>

definition der_min :: "bytes \<Rightarrow> bool" where
  "der_min b \<longleftrightarrow> b \<noteq> [] \<and> unat (hd b) < 128 \<and>
     (1 < length b \<longrightarrow> hd b = 0 \<longrightarrow> 128 \<le> unat (b ! 1))"

lemma der_integer_eq:
  "0 \<le> v \<Longrightarrow> der_integer v =
     (if 128 \<le> unat (hd (nat_be (nat v))) then 0 # nat_be (nat v) else nat_be (nat v))"
  by (simp add: der_integer_def Let_def BN_toBuffer_plain sign_bit_iff hd_conv_nth)

lemma der_integer_min: "0 \<le> v \<Longrightarrow> der_min (der_integer v)"
proof (cases "v = 0")
  case True
  then show ?thesis by (simp add: der_integer_eq nat_be_small der_min_def)
next
  case False
  assume "0 \<le> v"
  with False have "hd (nat_be (nat v)) \<noteq> 0" by (simp add: hd_nat_be)
  with \<open>0 \<le> v\<close> show ?thesis by (auto simp: der_integer_eq der_min_def hd_conv_nth)
qed

lemma be_val_der_integer: "0 \<le> v \<Longrightarrow> int (be_val (der_integer v)) = v"
  by (simp add: der_integer_eq be_val_Cons be_val_nat_be)

lemma der_integer_be_val: "der_min b \<Longrightarrow> der_integer (int (be_val b)) = b"
proof -
  assume min: "der_min b"
  then obtain h t where b: "b = h # t" by (cases b) (auto simp: der_min_def)
  show ?thesis
  proof (cases "h = 0 \<and> t \<noteq> []")
    case True
    then obtain c cs where t: "t = c # cs" by (cases t) auto
    then have c: "128 \<le> unat c" using min True by (simp add: der_min_def b)
    then have "c \<noteq> 0" by auto
    then have "nat_be (be_val t) = t" using nat_be_unique [of t] t by simp
    moreover have "be_val b = be_val t" using True by (simp add: b be_val_Cons)
    ultimately show ?thesis using True c by (simp add: der_integer_eq b t)
  next
    case False
    then have "nat_be (be_val b) = b" using nat_be_unique [of b] b by auto
    with min show ?thesis by (simp add: der_integer_eq der_min_def)
  qed
qed

lemma length_der_integer: "0 \<le> v \<Longrightarrow> v < 256 ^ k \<Longrightarrow> 0 < k \<Longrightarrow> length (der_integer v) \<le> Suc k"
  using length_nat_be_le [of "nat v" k] by (simp add: der_integer_eq nat_less_iff)

section \<open>Parsing what was written\<close>

lemma byte_at_append:
  "byte_at (a @ b) i = (if i < length a then byte_at a i else byte_at b (i - length a))"
  by (auto simp: byte_at_def nth_append)

lemma byte_at_Cons [simp]: "byte_at (x # b) 0 = Some (unat x)" "byte_at (x # b) (Suc i) = byte_at b i"
  by (simp_all add: byte_at_def)

lemma slice_append_mid:
  "length (a @ m @ z) < 2147483648 \<Longrightarrow> s = int (length a) \<Longrightarrow> e = int (length a + length m) \<Longrightarrow>
   Buffer_slice (a @ m @ z) s e = m"
  using Buffer_slice_nat [of "length a" "length a + length m" "a @ m @ z"] by simp

lemma parseDER_layout:
  assumes "length rb + length sb \<le> 251"
  shows "Signature_parseDER (der_layout rb sb) strict =
    Inr \<lparr>der_length = 4 + length rb + length sb,
         der_rneg = (byte_at (der_layout rb sb) 4 = Some 0), der_rbuf = rb, der_r = int (be_val rb),
         der_sneg = (byte_at (der_layout rb sb) (length rb + 8) = Some 0), der_sbuf = sb,
         der_s = int (be_val sb)\<rparr>"
proof -
  let ?d = "der_layout rb sb"
  have lr: "unat (of_nat (length rb) :: byte) = length rb"
    and ls: "unat (of_nat (length sb) :: byte) = length sb"
    and lt: "unat (of_nat (4 + length rb + length sb) :: byte) = 4 + length rb + length sb"
    using assms by (simp_all add: unat_of_nat_byte del: of_nat_add)
  have len: "length ?d = 6 + length rb + length sb" by (simp add: der_layout_def)
  have b: "byte_at ?d 0 = Some 48" "byte_at ?d (Suc 0) = Some (4 + length rb + length sb)"
    "byte_at ?d 2 = Some 2" "byte_at ?d 3 = Some (length rb)"
    "byte_at ?d (4 + length rb) = Some 2" "byte_at ?d (Suc (4 + length rb)) = Some (length sb)"
    using assms by (simp_all add: der_layout_def byte_at_def nth_append nth_Cons' lr ls lt
        del: of_nat_add of_nat_Suc)
  have s2: "length (Buffer_slice ?d 2 (int (length ?d))) = 4 + length rb + length sb"
    using Buffer_slice_nat [of 2 "length ?d" ?d] assms len by simp
  have rs: "Buffer_slice ?d 4 (int (4 + length rb)) = rb"
    using assms slice_append_mid [of "[48, of_nat (4 + length rb + length sb), 2, of_nat (length rb)]"
        rb "[2, of_nat (length sb)] @ sb" 4 "int (4 + length rb)"]
    by (simp add: der_layout_def)
  have ss: "Buffer_slice ?d (int (4 + length rb + 2)) (int (4 + length rb + 2 + length sb)) = sb"
    using assms slice_append_mid [of "[48, of_nat (4 + length rb + length sb), 2, of_nat (length rb)]
        @ rb @ [2, of_nat (length sb)]" sb "[]" "int (4 + length rb + 2)"
        "int (4 + length rb + 2 + length sb)"]
    by (simp add: der_layout_def)
  show ?thesis
    unfolding Signature_parseDER_def Let_def
    using b s2 rs ss by (simp add: BN_fromBuffer_eq add.commute)
qed

section \<open>Canonical signatures\<close>

lemma der_min_iff:
  assumes "rb \<noteq> [] \<Longrightarrow> p = hd rb" and "1 < length rb \<Longrightarrow> q = rb ! 1"
  shows "der_min rb \<longleftrightarrow> length rb \<noteq> 0 \<and> \<not> 128 \<le> unat p \<and>
    \<not> (1 < length rb \<and> p = 0 \<and> \<not> 128 \<le> unat q)"
  using assms by (cases "rb = []") (auto simp: der_min_def not_le)

lemma isTxDER_parts:
  assumes "length rb = unat x3" and "length sb = unat y1"
  shows "Signature_isTxDER (x0 # x1 # x2 # x3 # rb @ y0 # y1 # sb @ [h]) \<longleftrightarrow>
    x0 = 48 \<and> unat x1 = 4 + length rb + length sb \<and> x2 = 2 \<and> y0 = 2 \<and>
    der_min rb \<and> der_min sb \<and> length rb + length sb \<le> 66"
proof -
  define b where "b = x0 # x1 # x2 # x3 # rb @ y0 # y1 # sb @ [h]"
  have n: "b ! 0 = x0" "b ! 1 = x1" "b ! 2 = x2" "b ! 3 = x3"
    "b ! (5 + unat x3) = y1" "b ! (4 + unat x3) = y0"
    using assms by (simp_all add: b_def nth_Cons' nth_append)
  have "b ! 4 = hd rb" if "rb \<noteq> []" using that by (cases rb) (simp_all add: b_def nth_Cons')
  moreover have "b ! 5 = rb ! 1" if "length rb > 1" using that by (simp add: b_def nth_Cons' nth_append)
  ultimately have R: "der_min rb \<longleftrightarrow> length rb \<noteq> 0 \<and> \<not> 128 \<le> unat (b ! 4) \<and>
      \<not> (1 < length rb \<and> b ! 4 = 0 \<and> \<not> 128 \<le> unat (b ! 5))"
    by (rule der_min_iff)
  have "b ! (6 + unat x3) = hd sb" if "sb \<noteq> []"
    using that assms(1) by (cases sb) (simp_all add: b_def nth_Cons' nth_append)
  moreover have "b ! (7 + unat x3) = sb ! 1" if "length sb > 1"
    using that assms(1) by (simp add: b_def nth_Cons' nth_append)
  ultimately have S: "der_min sb \<longleftrightarrow> length sb \<noteq> 0 \<and> \<not> 128 \<le> unat (b ! (6 + unat x3)) \<and>
      \<not> (1 < length sb \<and> b ! (6 + unat x3) = 0 \<and> \<not> 128 \<le> unat (b ! (7 + unat x3)))"
    by (rule der_min_iff)
  have len: "length b = 7 + length rb + length sb" by (simp add: b_def)
  have ifs: "(if P then False else Q) \<longleftrightarrow> \<not> P \<and> Q" for P Q by simp
  have arith: "length b < 9 \<longleftrightarrow> length rb + length sb < 2" "length b > 73 \<longleftrightarrow> \<not> length rb + length sb \<le> 66"
    "length b - 3 = 4 + length rb + length sb" "5 + length rb \<ge> length b \<longleftrightarrow> False"
    "length rb + length sb + 7 = length b"
    using len by auto
  have ge2: "length rb \<noteq> 0 \<Longrightarrow> length sb \<noteq> 0 \<Longrightarrow> \<not> length rb + length sb < 2" by linarith
  show ?thesis
    unfolding R S b_def [symmetric] Signature_isTxDER_def Let_def n sign_bit_iff
    unfolding n assms [symmetric] ifs arith
    using ge2 by blast
qed

lemma isTxDER_layout:
  assumes "length rb + length sb \<le> 66"
  shows "Signature_isTxDER (der_layout rb sb @ [h]) \<longleftrightarrow> der_min rb \<and> der_min sb"
proof -
  have "unat (of_nat (4 + length rb + length sb) :: byte) = 4 + length rb + length sb"
    "length rb = unat (of_nat (length rb) :: byte)" "length sb = unat (of_nat (length sb) :: byte)"
    using assms by (simp_all add: unat_of_nat_byte del: of_nat_add)
  with isTxDER_parts [of rb "of_nat (length rb)" sb "of_nat (length sb)" 48
      "of_nat (4 + length rb + length sb)" 2 2 h] assms
  show ?thesis by (simp add: der_layout_def)
qed

lemma isTxDER_E:
  assumes "Signature_isTxDER b"
  obtains rb sb h where "b = der_layout rb sb @ [h]" "der_min rb" "der_min sb"
    "length rb + length sb \<le> 66"
proof -
  have len: "9 \<le> length b" and l: "5 + unat (b ! 3) < length b"
    "unat (b ! 3) + unat (b ! (5 + unat (b ! 3))) + 7 = length b"
    using assms by (auto simp: Signature_isTxDER_def Let_def not_le split: if_splits)
  define r where "r = drop 4 b"
  have b: "b = b ! 0 # b ! 1 # b ! 2 # b ! 3 # r"
    using len take_drop_4 [of 0 b] append_take_drop_id [of 4 b] by (simp add: r_def numeral_2_eq_2)
  define rb where "rb = take (unat (b ! 3)) r"
  define t where "t = drop (unat (b ! 3)) r"
  have rt: "r = rb @ t" by (simp add: rb_def t_def)
  have lrb: "length rb = unat (b ! 3)" using l by (simp add: rb_def r_def)
  have "3 \<le> length t" using l by (simp add: t_def r_def)
  then obtain y0 y1 z where t: "t = y0 # y1 # z" and z: "z \<noteq> []"
    by (cases t; cases "tl t"; cases "tl (tl t)") (auto simp: numeral_3_eq_3)
  then obtain sb h where sb: "z = sb @ [h]" by (metis rev_exhaust)
  have b': "b = b ! 0 # b ! 1 # b ! 2 # b ! 3 # rb @ y0 # y1 # sb @ [h]"
    using b by (simp add: rt t sb)
  have "(x0 # x1 # x2 # x3 # rb @ y0 # y1 # sb @ [h]) ! (5 + length rb) = y1" for x0 x1 x2 x3
    by (simp add: nth_Cons' nth_append)
  then have "b ! (5 + unat (b ! 3)) = y1" using b' lrb by metis
  then have lsb: "length sb = unat y1"
    using l(2) arg_cong [OF b', of length] lrb by simp
  show thesis
  proof (rule that [of rb sb h])
    have *: "b ! 0 = 48 \<and> unat (b ! 1) = 4 + length rb + length sb \<and> b ! 2 = 2 \<and> y0 = 2 \<and>
        der_min rb \<and> der_min sb \<and> length rb + length sb \<le> 66"
      using isTxDER_parts [OF lrb lsb, of "b ! 0" "b ! 1" "b ! 2" y0 h] assms
      by (simp only: b' [symmetric])
    then show "der_min rb" "der_min sb" "length rb + length sb \<le> 66" by simp_all
    have "b ! 1 = of_nat (4 + length rb + length sb)" "b ! 3 = of_nat (length rb)"
      "y1 = of_nat (length sb)"
      using * lrb lsb by (metis of_nat_unat ucast_id)+
    with * show "b = der_layout rb sb @ [h]"
      by (subst b') (simp add: der_layout_def)
  qed
qed

lemma fromTxFormat_layout:
  assumes "length rb + length sb \<le> 66"
  shows "Signature_fromTxFormat (der_layout rb sb @ [h]) =
    Inr ((new_Signature (int (be_val rb)) (int (be_val sb)))\<lparr>sig_nhashtype := Some (unat h)\<rparr>)"
proof -
  let ?d = "der_layout rb sb"
  have len: "length ?d < 2147483647" using assms by (simp add: der_layout_def)
  have "Buffer_readUInt8 (?d @ [h]) (length (?d @ [h]) - 1) = Inr (unat h)"
    using len by (simp add: readUInt8_eq)
  moreover have "Buffer_slice (?d @ [h]) 0 (int (length (?d @ [h])) - 1) = ?d"
    using len Buffer_slice_nat [of 0 "length ?d" "?d @ [h]"] by simp
  ultimately show ?thesis
    using assms parseDER_layout [of rb sb False]
    by (simp add: Signature_fromTxFormat_def Signature_fromDER_def)
qed

lemma toTxFormat_eq:
  assumes "sig_nhashtype sig = Some n" and "n < 256"
  shows "Signature_toTxFormat sig =
    Inr (der_layout (der_integer (sig_r sig)) (der_integer (sig_s sig)) @ [of_nat n])"
  using assms writeUInt8_fresh [of n] by (simp add: Signature_toTxFormat_def Signature_toDER_layout)

text \<open>
  parsing the DER form of a signature whose numbers are 256-bit gives the numbers back,
  with the strict and with the lenient parser.
\<close>

theorem der_roundtrip:
  assumes "0 \<le> sig_r sig" "sig_r sig < 2 ^ 256" "0 \<le> sig_s sig" "sig_s sig < 2 ^ 256"
  shows "Signature_fromDER (Signature_toDER sig) strict = Inr (new_Signature (sig_r sig) (sig_s sig))"
  using assms length_der_integer [of "sig_r sig" 32] length_der_integer [of "sig_s sig" 32]
    parseDER_layout [of "der_integer (sig_r sig)" "der_integer (sig_s sig)" strict]
  by (simp add: Signature_fromDER_def Signature_toDER_layout be_val_der_integer)

lemma der_roundtrip_witness:
  "Signature_fromDER (Signature_toDER (new_Signature (2 ^ 255) 127)) True
     = Inr (new_Signature (2 ^ 255) 127)"
  using der_roundtrip [of "new_Signature (2 ^ 255) 127" True] by (simp add: new_Signature_def)

text \<open>
  the transaction form of a signature with 256-bit numbers and a one-byte hash type passes the
  canonicity test \<open>isTxDER\<close> and parses back to the same numbers and hash type.
\<close>

theorem txformat_canonical:
  assumes "0 \<le> sig_r sig" "sig_r sig < 2 ^ 256" "0 \<le> sig_s sig" "sig_s sig < 2 ^ 256"
    and "sig_nhashtype sig = Some n" "n < 256"
  shows "\<exists>b. Signature_toTxFormat sig = Inr b \<and> Signature_isTxDER b \<and>
    Signature_fromTxFormat b =
      Inr ((new_Signature (sig_r sig) (sig_s sig))\<lparr>sig_nhashtype := Some n\<rparr>)"
  using assms length_der_integer [of "sig_r sig" 32] length_der_integer [of "sig_s sig" 32]
  by (simp add: toTxFormat_eq isTxDER_layout fromTxFormat_layout der_integer_min be_val_der_integer
      unat_of_nat_byte)

lemma txformat_canonical_witness:
  "\<exists>b. Signature_toTxFormat ((new_Signature 200 5)\<lparr>sig_nhashtype := Some 1\<rparr>) = Inr b \<and>
     Signature_isTxDER b \<and>
     Signature_fromTxFormat b = Inr ((new_Signature 200 5)\<lparr>sig_nhashtype := Some 1\<rparr>)"
  using txformat_canonical [of "(new_Signature 200 5)\<lparr>sig_nhashtype := Some 1\<rparr>" 1]
  by (simp add: new_Signature_def)

text \<open>
  C36: a buffer that \<open>isTxDER\<close> accepts is the transaction form of the signature it parses to:
  the parser accepts it, the numbers are not negative, and writing the signature gives the same
  bytes, so a canonical encoding is unique.
\<close>

theorem isTxDER_unique:
  assumes "Signature_isTxDER b"
  shows "\<exists>sig. Signature_fromTxFormat b = Inr sig \<and> 0 \<le> sig_r sig \<and> 0 \<le> sig_s sig \<and>
    Signature_toTxFormat sig = Inr b"
proof -
  obtain rb sb h where "b = der_layout rb sb @ [h]" "der_min rb" "der_min sb"
    "length rb + length sb \<le> 66"
    using assms by (rule isTxDER_E)
  then show ?thesis
    by (simp add: fromTxFormat_layout toTxFormat_eq [where n = "unat h"] new_Signature_def
        der_integer_be_val)
qed

lemma isTxDER_unique_witness:
  "Signature_isTxDER [48, 6, 2, 1, 1, 2, 1, 1, 1] \<and>
   (\<exists>sig. Signature_fromTxFormat [48, 6, 2, 1, 1, 2, 1, 1, 1] = Inr sig \<and> 0 \<le> sig_r sig \<and>
      0 \<le> sig_s sig \<and> Signature_toTxFormat sig = Inr [48, 6, 2, 1, 1, 2, 1, 1, 1])"
proof -
  have "Signature_isTxDER [48, 6, 2, 1, 1, 2, 1, 1, 1]" by code_simp
  with isTxDER_unique show ?thesis by blast
qed

text \<open>
  the compact form of a signature with 256-bit numbers and a recovery id is 65 bytes long and
  reads back as the same numbers, recovery id and compression flag (a missing flag counts as
  compressed).
\<close>

theorem compact_roundtrip:
  assumes "0 \<le> sig_r sig" "sig_r sig < 2 ^ 256" "0 \<le> sig_s sig" "sig_s sig < 2 ^ 256"
    and "sig_i sig = Some i" "i \<le> 3"
  shows "\<exists>b. Signature_toCompact sig None None = Inr b \<and> length b = 65 \<and>
    Signature_fromCompact b =
      Inr \<lparr>sig_r = sig_r sig, sig_s = sig_s sig, sig_i = Some i,
           sig_compressed = Some (sig_compressed sig \<noteq> Some False), sig_nhashtype = None\<rparr>"
proof -
  define v where "v = (if sig_compressed sig = Some False then i + 27 + 4 - 4 else i + 27 + 4)"
  define rb where "rb = BN_toBuffer (sig_r sig) 32 False"
  define sb where "sb = BN_toBuffer (sig_s sig) 32 False"
  have "nat (sig_r sig) < 256 ^ 32" "nat (sig_s sig) < 256 ^ 32"
    using assms by (simp_all add: nat_less_iff)
  with assms have rb: "length rb = 32" "int (be_val rb) = sig_r sig"
    and sb: "length sb = 32" "int (be_val sb) = sig_s sig"
    by (simp_all add: rb_def sb_def BN_toBuffer_fits be_val_rev le_val_le_bytes del: le_bytes_numeral)
  let ?b = "of_nat v # rb @ sb"
  have enc: "Signature_toCompact sig None None = Inr ?b"
    using assms by (simp add: Signature_toCompact_def Let_def v_def rb_def sb_def)
  have v: "v \<le> 34" using assms by (simp add: v_def)
  have s1: "Buffer_slice ?b 0 1 = [of_nat v]"
    using Buffer_slice_nat [of 0 1 ?b] rb sb by simp
  have s2: "Buffer_slice ?b 1 33 = rb" using Buffer_slice_nat [of 1 33 ?b] rb sb by simp
  have s3: "Buffer_slice ?b 33 65 = sb" using Buffer_slice_nat [of 33 65 ?b] rb sb by simp
  have i4: "i = 0 \<or> i = 1 \<or> i = 2 \<or> i = 3" using assms(6) by linarith
  have "Signature_fromCompact ?b =
      Inr \<lparr>sig_r = sig_r sig, sig_s = sig_s sig, sig_i = Some i,
           sig_compressed = Some (sig_compressed sig \<noteq> Some False), sig_nhashtype = None\<rparr>"
    using v i4 rb sb unfolding Signature_fromCompact_def s1 s2 s3
    by (auto simp: Let_def byte_at_def unat_of_nat_byte BN_fromBuffer_eq v_def)
  with enc rb sb show ?thesis by simp
qed

lemma compact_roundtrip_witness:
  "\<exists>b. Signature_toCompact ((new_Signature 7 9)\<lparr>sig_i := Some 2\<rparr>) None None = Inr b \<and>
     length b = 65 \<and>
     Signature_fromCompact b =
       Inr ((new_Signature 7 9)\<lparr>sig_i := Some 2, sig_compressed := Some True\<rparr>)"
  using compact_roundtrip [of "(new_Signature 7 9)\<lparr>sig_i := Some 2\<rparr>" 2]
  by (simp add: new_Signature_def)

end
