(* ===== verification/Hashes.thy ===== *)
theory Hashes
  imports BNum
begin

unbundle bit_operations_syntax

text \<open>
  The hash functions of ix_crypto.js (\<open>BlockHash\<close>, \<open>SHA1\<close>, \<open>SHA256\<close>, \<open>RIPEMD160\<close>) and
  the \<open>Hash\<close> object of magnachain.js that calls them.  Every intermediate value of the code is
  a number taken modulo \<open>2 ^ 32\<close> (\<open>>>> 0\<close>, or a bitwise operator), so it is a \<open>32 word\<close>.
  The scratch array \<open>W\<close>, which every block overwrites, is a local value.  The lemmas show that
  hashing a message in pieces is hashing it at once, that the padding always completes a block,
  and the length of every digest.
\<close>

type_synonym word32 = "32 word"

section \<open>Utilities\<close>

definition rotr32 :: "word32 \<Rightarrow> nat \<Rightarrow> word32" where
  "rotr32 w b = drop_bit b w OR push_bit (32 - b) w"

definition rotl32 :: "word32 \<Rightarrow> nat \<Rightarrow> word32" where
  "rotl32 w b = push_bit b w OR drop_bit (32 - b) w"

definition sum32 :: "word32 \<Rightarrow> word32 \<Rightarrow> word32" where
  "sum32 a b = a + b"

definition sum32_3 :: "word32 \<Rightarrow> word32 \<Rightarrow> word32 \<Rightarrow> word32" where
  "sum32_3 a b c = a + b + c"

definition sum32_4 :: "word32 \<Rightarrow> word32 \<Rightarrow> word32 \<Rightarrow> word32 \<Rightarrow> word32" where
  "sum32_4 a b c d = a + b + c + d"

definition sum32_5 :: "word32 \<Rightarrow> word32 \<Rightarrow> word32 \<Rightarrow> word32 \<Rightarrow> word32 \<Rightarrow> word32" where
  "sum32_5 a b c d e = a + b + c + d + e"

text \<open>\<open>join32(msg, 0, msg.length, endian)\<close>, and its inverse \<open>split32\<close>.\<close>

fun join32 :: "bytes \<Rightarrow> bool \<Rightarrow> word32 list" where
  "join32 (p # q # r # s # msg) big =
     (if big then push_bit 24 (ucast p) OR push_bit 16 (ucast q) OR push_bit 8 (ucast r) OR ucast s
      else push_bit 24 (ucast s) OR push_bit 16 (ucast r) OR push_bit 8 (ucast q) OR ucast p)
     # join32 msg big"
| "join32 _ big = []"

fun split32 :: "word32 list \<Rightarrow> bool \<Rightarrow> bytes" where
  "split32 [] big = []"
| "split32 (m # msg) big =
     (if big then [ucast (drop_bit 24 m), ucast (drop_bit 16 m AND 255), ucast (drop_bit 8 m AND 255),
                   ucast (m AND 255)]
      else [ucast (m AND 255), ucast (drop_bit 8 m AND 255), ucast (drop_bit 16 m AND 255),
            ucast (drop_bit 24 m)]) @ split32 msg big"

section \<open>BlockHash\<close>

text \<open>
  A hash algorithm: the constants of its constructor (sizes in bytes), the initial chaining value,
  the block function \<open>_update\<close> and the number of words of the digest.
\<close>

record hash_alg =
  delta8 :: nat
  pad_length :: nat
  big_endian :: bool
  h_init :: "word32 list"
  compress :: "word32 list \<Rightarrow> word32 list \<Rightarrow> word32 list"
  out_words :: nat

definition delta32 :: "hash_alg \<Rightarrow> nat" where
  "delta32 alg = delta8 alg div 4"

record block_hash =
  pending :: "bytes option"
  pendingTotal :: nat
  h_state :: "word32 list"

definition new_BlockHash :: "hash_alg \<Rightarrow> block_hash" where
  "new_BlockHash alg = \<lparr>pending = None, pendingTotal = 0, h_state = h_init alg\<rparr>"

text \<open>\<open>for (i = 0; i < msg.length; i += this._delta32) this._update(msg, i, i + this._delta32)\<close>\<close>

definition update_blocks :: "hash_alg \<Rightarrow> word32 list \<Rightarrow> word32 list \<Rightarrow> word32 list" where
  "update_blocks alg msg h =
     foldl (\<lambda>h k. compress alg h (take (delta32 alg) (drop (k * delta32 alg) msg))) h
       [0..<length msg div delta32 alg]"

definition BlockHash_update :: "hash_alg \<Rightarrow> block_hash \<Rightarrow> bytes \<Rightarrow> block_hash" where
  "BlockHash_update alg st msg =
     (let p = (case pending st of None \<Rightarrow> msg | Some q \<Rightarrow> q @ msg);
          st = st\<lparr>pending := Some p, pendingTotal := pendingTotal st + length msg\<rparr>
      in if length p \<ge> delta8 alg then
           let r = length p mod delta8 alg;
               rest = drop (length p - r) p;
               words = join32 (take (length p - r) p) (big_endian alg)
           in st\<lparr>pending := (if rest = [] then None else Some rest),
                 h_state := update_blocks alg words (h_state st)\<rparr>
         else st)"

text \<open>\<open>len <<= 3\<close> keeps 32 bits of the length in bits.\<close>

definition BlockHash_pad :: "hash_alg \<Rightarrow> nat \<Rightarrow> bytes" where
  "BlockHash_pad alg n =
     (let k = delta8 alg - (n + pad_length alg) mod delta8 alg;
          len = push_bit 3 (of_nat n :: word32);
          lb = [ucast (drop_bit 24 len AND 255), ucast (drop_bit 16 len AND 255),
                ucast (drop_bit 8 len AND 255), ucast (len AND 255)]
      in 128 # replicate (k - 1) 0 @
         (if big_endian alg then replicate (pad_length alg - 8) 0 @ [0, 0, 0, 0] @ lb
          else rev lb @ [0, 0, 0, 0] @ replicate (pad_length alg - 8) 0))"

definition BlockHash_digest :: "hash_alg \<Rightarrow> block_hash \<Rightarrow> bytes result" where
  "BlockHash_digest alg st =
     (let st = BlockHash_update alg st (BlockHash_pad alg (pendingTotal st))
      in rbind (check (pending st = None) (AssertionError ''Assertion failed''))
           (\<lambda>_. Inr (split32 (take (out_words alg) (h_state st)) (big_endian alg))))"

section \<open>SHA-1 and SHA-256\<close>

definition ch32 :: "word32 \<Rightarrow> word32 \<Rightarrow> word32 \<Rightarrow> word32" where
  "ch32 x y z = (x AND y) XOR (NOT x AND z)"

definition maj32 :: "word32 \<Rightarrow> word32 \<Rightarrow> word32 \<Rightarrow> word32" where
  "maj32 x y z = (x AND y) XOR (x AND z) XOR (y AND z)"

definition p32 :: "word32 \<Rightarrow> word32 \<Rightarrow> word32 \<Rightarrow> word32" where
  "p32 x y z = x XOR y XOR z"

definition ft_1 :: "nat \<Rightarrow> word32 \<Rightarrow> word32 \<Rightarrow> word32 \<Rightarrow> word32" where
  "ft_1 s x y z = (if s = 0 then ch32 x y z else if s = 1 \<or> s = 3 then p32 x y z else maj32 x y z)"

definition s0_256 :: "word32 \<Rightarrow> word32" where
  "s0_256 x = rotr32 x 2 XOR rotr32 x 13 XOR rotr32 x 22"

definition s1_256 :: "word32 \<Rightarrow> word32" where
  "s1_256 x = rotr32 x 6 XOR rotr32 x 11 XOR rotr32 x 25"

definition g0_256 :: "word32 \<Rightarrow> word32" where
  "g0_256 x = rotr32 x 7 XOR rotr32 x 18 XOR drop_bit 3 x"

definition g1_256 :: "word32 \<Rightarrow> word32" where
  "g1_256 x = rotr32 x 17 XOR rotr32 x 19 XOR drop_bit 10 x"

definition sha1_K :: "word32 list" where
  "sha1_K = [0x5A827999, 0x6ED9EBA1, 0x8F1BBCDC, 0xCA62C1D6]"

definition SHA1_update :: "word32 list \<Rightarrow> word32 list \<Rightarrow> word32 list" where
  "SHA1_update hs msg =
     (let W = foldl (\<lambda>W i. W @ [rotl32 (W ! (i - 3) XOR W ! (i - 8) XOR W ! (i - 14) XOR W ! (i - 16)) 1])
                (take 16 msg) [16..<80];
          (a, b, c, d, e) =
            foldl (\<lambda>(a, b, c, d, e) i.
                let s = i div 20;
                    t = sum32_5 (rotl32 a 5) (ft_1 s b c d) e (W ! i) (sha1_K ! s)
                in (t, a, rotl32 b 30, c, d))
              (hs ! 0, hs ! 1, hs ! 2, hs ! 3, hs ! 4) [0..<80]
      in [sum32 (hs ! 0) a, sum32 (hs ! 1) b, sum32 (hs ! 2) c, sum32 (hs ! 3) d, sum32 (hs ! 4) e])"

definition SHA1 :: hash_alg where
  "SHA1 = \<lparr>delta8 = 64, pad_length = 8, big_endian = True,
     h_init = [0x67452301, 0xefcdab89, 0x98badcfe, 0x10325476, 0xc3d2e1f0],
     compress = SHA1_update, out_words = 5\<rparr>"

text \<open>The table \<open>sha256_K\<close> of ix_crypto.js in its order, its hexadecimal constants in decimal.\<close>

definition sha256_K :: "word32 list" where
  "sha256_K =
    [1116352408, 1899447441, 3049323471, 3921009573, 961987163, 1508970993,
     2453635748, 2870763221, 3624381080, 310598401, 607225278, 1426881987,
     1925078388, 2162078206, 2614888103, 3248222580, 3835390401, 4022224774,
     264347078, 604807628, 770255983, 1249150122, 1555081692, 1996064986,
     2554220882, 2821834349, 2952996808, 3210313671, 3336571891, 3584528711,
     113926993, 338241895, 666307205, 773529912, 1294757372, 1396182291,
     1695183700, 1986661051, 2177026350, 2456956037, 2730485921, 2820302411,
     3259730800, 3345764771, 3516065817, 3600352804, 4094571909, 275423344,
     430227734, 506948616, 659060556, 883997877, 958139571, 1322822218,
     1537002063, 1747873779, 1955562222, 2024104815, 2227730452, 2361852424,
     2428436474, 2756734187, 3204031479, 3329325298]"

definition SHA256_update :: "word32 list \<Rightarrow> word32 list \<Rightarrow> word32 list" where
  "SHA256_update hs msg =
     (let W = foldl (\<lambda>W i. W @ [sum32_4 (g1_256 (W ! (i - 2))) (W ! (i - 7)) (g0_256 (W ! (i - 15)))
                                  (W ! (i - 16))])
                (take 16 msg) [16..<64];
          (a, b, c, d, e, f, g, h) =
            foldl (\<lambda>(a, b, c, d, e, f, g, h) i.
                let T1 = sum32_5 h (s1_256 e) (ch32 e f g) (sha256_K ! i) (W ! i);
                    T2 = sum32 (s0_256 a) (maj32 a b c)
                in (sum32 T1 T2, a, b, c, sum32 d T1, e, f, g))
              (hs ! 0, hs ! 1, hs ! 2, hs ! 3, hs ! 4, hs ! 5, hs ! 6, hs ! 7) [0..<64]
      in [sum32 (hs ! 0) a, sum32 (hs ! 1) b, sum32 (hs ! 2) c, sum32 (hs ! 3) d,
          sum32 (hs ! 4) e, sum32 (hs ! 5) f, sum32 (hs ! 6) g, sum32 (hs ! 7) h])"

definition SHA256 :: hash_alg where
  "SHA256 = \<lparr>delta8 = 64, pad_length = 8, big_endian = True,
     h_init = [0x6a09e667, 0xbb67ae85, 0x3c6ef372, 0xa54ff53a,
               0x510e527f, 0x9b05688c, 0x1f83d9ab, 0x5be0cd19],
     compress = SHA256_update, out_words = 8\<rparr>"

definition SHA224 :: hash_alg where
  "SHA224 = SHA256\<lparr>h_init := [0xc1059ed8, 0x367cd507, 0x3070dd17, 0xf70e5939,
               0xffc00b31, 0x68581511, 0x64f98fa7, 0xbefa4fa4], out_words := 7\<rparr>"

section \<open>RIPEMD-160\<close>

definition rmd_f :: "nat \<Rightarrow> word32 \<Rightarrow> word32 \<Rightarrow> word32 \<Rightarrow> word32" where
  "rmd_f j x y z =
     (if j \<le> 15 then x XOR y XOR z
      else if j \<le> 31 then (x AND y) OR (NOT x AND z)
      else if j \<le> 47 then (x OR NOT y) XOR z
      else if j \<le> 63 then (x AND z) OR (y AND NOT z)
      else x XOR (y OR NOT z))"

definition rmd_K :: "nat \<Rightarrow> word32" where
  "rmd_K j =
     (if j \<le> 15 then 0x00000000 else if j \<le> 31 then 0x5a827999 else if j \<le> 47 then 0x6ed9eba1
      else if j \<le> 63 then 0x8f1bbcdc else 0xa953fd4e)"

definition rmd_Kh :: "nat \<Rightarrow> word32" where
  "rmd_Kh j =
     (if j \<le> 15 then 0x50a28be6 else if j \<le> 31 then 0x5c4dd124 else if j \<le> 47 then 0x6d703ef3
      else if j \<le> 63 then 0x7a6d76e9 else 0x00000000)"

definition rmd_r :: "nat list" where
  "rmd_r =
    [0, 1, 2, 3, 4, 5, 6, 7, 8, 9, 10, 11, 12, 13, 14, 15,
     7, 4, 13, 1, 10, 6, 15, 3, 12, 0, 9, 5, 2, 14, 11, 8,
     3, 10, 14, 4, 9, 15, 8, 1, 2, 7, 0, 6, 13, 11, 5, 12,
     1, 9, 11, 10, 0, 8, 12, 4, 13, 3, 7, 15, 14, 5, 6, 2,
     4, 0, 5, 9, 7, 12, 2, 10, 14, 1, 3, 8, 11, 6, 15, 13]"

definition rmd_rh :: "nat list" where
  "rmd_rh =
    [5, 14, 7, 0, 9, 2, 11, 4, 13, 6, 15, 8, 1, 10, 3, 12,
     6, 11, 3, 7, 0, 13, 5, 10, 14, 15, 8, 12, 4, 9, 1, 2,
     15, 5, 1, 3, 7, 14, 6, 9, 11, 8, 12, 2, 10, 0, 4, 13,
     8, 6, 4, 1, 3, 11, 15, 0, 5, 12, 2, 13, 9, 7, 10, 14,
     12, 15, 10, 4, 1, 5, 8, 7, 6, 2, 13, 14, 0, 3, 9, 11]"

definition rmd_s :: "nat list" where
  "rmd_s =
    [11, 14, 15, 12, 5, 8, 7, 9, 11, 13, 14, 15, 6, 7, 9, 8,
     7, 6, 8, 13, 11, 9, 7, 15, 7, 12, 15, 9, 11, 7, 13, 12,
     11, 13, 6, 7, 14, 9, 13, 15, 14, 8, 13, 6, 5, 12, 7, 5,
     11, 12, 14, 15, 14, 15, 9, 8, 9, 14, 5, 6, 8, 6, 5, 12,
     9, 15, 5, 11, 6, 8, 13, 12, 5, 12, 13, 14, 11, 8, 5, 6]"

definition rmd_sh :: "nat list" where
  "rmd_sh =
    [8, 9, 9, 11, 13, 15, 15, 5, 7, 7, 8, 11, 14, 14, 12, 6,
     9, 13, 15, 7, 12, 8, 9, 11, 7, 7, 12, 7, 6, 15, 13, 11,
     9, 7, 15, 11, 8, 6, 6, 14, 12, 13, 5, 14, 13, 13, 7, 5,
     15, 5, 8, 11, 14, 14, 6, 14, 6, 9, 12, 9, 12, 5, 15, 8,
     8, 5, 12, 9, 12, 5, 14, 6, 8, 13, 6, 5, 15, 13, 11, 11]"

definition RIPEMD160_update :: "word32 list \<Rightarrow> word32 list \<Rightarrow> word32 list" where
  "RIPEMD160_update hs msg =
     (let ((A, B, C, D, E), (Ah, Bh, Ch, Dh, Eh)) =
            foldl (\<lambda>((A, B, C, D, E), (Ah, Bh, Ch, Dh, Eh)) j.
                let T = sum32 (rotl32 (sum32_4 A (rmd_f j B C D) (msg ! (rmd_r ! j)) (rmd_K j))
                                 (rmd_s ! j)) E;
                    Th = sum32 (rotl32 (sum32_4 Ah (rmd_f (79 - j) Bh Ch Dh) (msg ! (rmd_rh ! j)) (rmd_Kh j))
                                  (rmd_sh ! j)) Eh
                in ((E, T, B, rotl32 C 10, D), (Eh, Th, Bh, rotl32 Ch 10, Dh)))
              ((hs ! 0, hs ! 1, hs ! 2, hs ! 3, hs ! 4), (hs ! 0, hs ! 1, hs ! 2, hs ! 3, hs ! 4))
              [0..<80]
      in [sum32_3 (hs ! 1) C Dh, sum32_3 (hs ! 2) D Eh, sum32_3 (hs ! 3) E Ah,
          sum32_3 (hs ! 4) A Bh, sum32_3 (hs ! 0) B Ch])"

definition RIPEMD160 :: hash_alg where
  "RIPEMD160 = \<lparr>delta8 = 64, pad_length = 8, big_endian = False,
     h_init = [0x67452301, 0xefcdab89, 0x98badcfe, 0x10325476, 0xc3d2e1f0],
     compress = RIPEMD160_update, out_words = 5\<rparr>"

section \<open>The Hash object\<close>

text \<open>
  \<open>createHash(alg)\<close>, \<open>update(buf)\<close>, \<open>digest()\<close>.  The assertion in \<open>digest\<close> never fails
  (\<open>digest_ok\<close> below), so the value is a buffer.
\<close>

definition run_hash :: "hash_alg \<Rightarrow> bytes \<Rightarrow> bytes" where
  "run_hash alg b =
     (case BlockHash_digest alg (BlockHash_update alg (new_BlockHash alg) b) of
        Inl _ \<Rightarrow> [] | Inr d \<Rightarrow> d)"

definition Hash_sha1 :: "bytes \<Rightarrow> bytes" where
  "Hash_sha1 b = run_hash SHA1 b"

definition Hash_sha256 :: "bytes \<Rightarrow> bytes" where
  "Hash_sha256 b = run_hash SHA256 b"

definition Hash_sha256sha256 :: "bytes \<Rightarrow> bytes" where
  "Hash_sha256sha256 b = Hash_sha256 (Hash_sha256 b)"

definition Hash_ripemd160 :: "bytes \<Rightarrow> bytes" where
  "Hash_ripemd160 b = run_hash RIPEMD160 b"

definition Hash_sha256ripemd160 :: "bytes \<Rightarrow> bytes" where
  "Hash_sha256ripemd160 b = (let ibuf = Hash_sha256 b in Hash_ripemd160 ibuf)"

section \<open>Words and blocks\<close>

lemma join32_append: "4 dvd length a \<Longrightarrow> join32 (a @ b) big = join32 a big @ join32 b big"
proof (induction a big rule: join32.induct)
  case (1 p q r s msg big)
  then have "4 dvd length msg" by simp presburger
  with "1.IH" show ?case by simp
qed (auto dest!: dvd_imp_le)

lemma length_join32 [simp]: "length (join32 b big) = length b div 4"
  by (induction b big rule: join32.induct) simp_all

lemma length_split32 [simp]: "length (split32 ws big) = 4 * length ws"
  by (induction ws) simp_all

lemma update_blocks_append:
  assumes "delta32 alg dvd length a" and "0 < delta32 alg"
  shows "update_blocks alg (a @ b) h = update_blocks alg b (update_blocks alg a h)"
proof -
  let ?d = "delta32 alg"
  obtain k where k: "length a = k * ?d" using assms(1) by (metis dvd_def mult.commute)
  let ?f = "\<lambda>ws h j. compress alg h (take ?d (drop (j * ?d) ws))"
  have n: "length (a @ b) div ?d = k + length b div ?d" using k assms(2) by simp
  have head: "foldl (?f (a @ b)) h [0..<k] = foldl (?f a) h [0..<k]"
  proof (rule foldl_cong)
    fix h' j
    assume "j \<in> set [0..<k]"
    then have "(j + 1) * ?d \<le> k * ?d" by (intro mult_right_mono) simp_all
    then have "j * ?d + ?d \<le> length a" by (simp add: k)
    then show "?f (a @ b) h' j = ?f a h' j" by simp
  qed simp_all
  have "[k..<k + length b div ?d] = map (\<lambda>j. j + k) [0..<length b div ?d]"
    by (simp add: map_add_upt add.commute)
  then have tail: "foldl (?f (a @ b)) h' [k..<k + length b div ?d]
      = foldl (?f b) h' [0..<length b div ?d]" for h'
    by (simp only: foldl_map) (simp add: distrib_right k [symmetric])
  have "[0..<k + length b div ?d] = [0..<k] @ [k..<k + length b div ?d]"
    by (metis add_0 upt_add_eq_append le0)
  moreover have "length a div ?d = k" using k assms(2) by simp
  ultimately show ?thesis
    unfolding update_blocks_def n by (simp only: foldl_append head tail)
qed

section \<open>The contract of a hash algorithm\<close>

text \<open>The bytes hashed so far, in the three fields of the state.\<close>

definition full_part :: "hash_alg \<Rightarrow> bytes \<Rightarrow> nat" where
  "full_part alg m = length m - length m mod delta8 alg"

definition represents :: "hash_alg \<Rightarrow> block_hash \<Rightarrow> bytes \<Rightarrow> bool" where
  "represents alg st m \<longleftrightarrow>
     h_state st = update_blocks alg (join32 (take (full_part alg m) m) (big_endian alg)) (h_init alg) \<and>
     (case pending st of None \<Rightarrow> [] | Some p \<Rightarrow> p) = drop (full_part alg m) m \<and>
     pendingTotal st = length m"

text \<open>The one-shot hash: pad the message, compress its blocks in turn, write out the words.\<close>

definition hash_ref :: "hash_alg \<Rightarrow> bytes \<Rightarrow> bytes" where
  "hash_ref alg m =
     split32 (take (out_words alg)
       (update_blocks alg (join32 (m @ BlockHash_pad alg (length m)) (big_endian alg)) (h_init alg)))
       (big_endian alg)"

locale block_alg =
  fixes alg :: hash_alg
  assumes block: "0 < delta8 alg" "4 dvd delta8 alg"
    and pad: "8 \<le> pad_length alg" "pad_length alg \<le> delta8 alg"
    and words: "out_words alg \<le> length (h_init alg)"
    and compress_length: "length hs = length (h_init alg) \<Longrightarrow> length (compress alg hs ws) = length (h_init alg)"
begin

lemma delta32_pos: "0 < delta32 alg"
  using block by (auto simp: delta32_def dvd_def)

lemma delta: "4 * delta32 alg = delta8 alg"
  using block by (simp add: delta32_def)

lemma blocks_split:
  assumes "delta8 alg dvd length a"
  shows "update_blocks alg (join32 (a @ b) big) h
       = update_blocks alg (join32 b big) (update_blocks alg (join32 a big) h)"
proof -
  have "4 dvd length a" using assms block(2) dvd_trans by blast
  moreover have "delta32 alg dvd length a div 4"
    using assms by (auto simp: dvd_def delta [symmetric])
  ultimately show ?thesis
    using delta32_pos by (simp add: join32_append update_blocks_append)
qed

lemma full_part_dvd: "delta8 alg dvd full_part alg m"
  by (simp add: full_part_def dvd_minus_mod)

lemma full_part_le: "full_part alg m \<le> length m"
  by (simp add: full_part_def)

lemma update_represents:
  assumes "represents alg st m"
  shows "represents alg (BlockHash_update alg st x) (m @ x)"
proof -
  let ?F = "full_part alg m"
  define p where "p = (case pending st of None \<Rightarrow> x | Some q \<Rightarrow> q @ x)"
  have p: "p = drop ?F m @ x"
    using assms by (auto simp: p_def represents_def split: option.splits)
  have mx: "m @ x = take ?F m @ p" by (simp add: p)
  have lm: "length (m @ x) = ?F + length p" using full_part_le [of m] by (simp add: p)
  have r: "length (m @ x) mod delta8 alg = length p mod delta8 alg"
    using full_part_dvd [of m] unfolding lm by (auto simp: dvd_def)
  define q where "q = length p - length p mod delta8 alg"
  have F': "full_part alg (m @ x) = ?F + q"
    using r lm by (simp add: full_part_def q_def)
  have tk: "take (full_part alg (m @ x)) (m @ x) = take ?F m @ take q p"
    and dr: "drop (full_part alg (m @ x)) (m @ x) = drop q p"
    unfolding F' using full_part_le [of m] by (simp_all add: mx del: append_assoc)
  have "delta8 alg dvd length (take ?F m)" using full_part_dvd full_part_le by (simp add: min_absorb2)
  then have "update_blocks alg (join32 (take (full_part alg (m @ x)) (m @ x)) (big_endian alg)) (h_init alg)
      = update_blocks alg (join32 (take q p) (big_endian alg)) (h_state st)"
    unfolding tk using assms by (simp add: blocks_split represents_def)
  then show ?thesis
    using assms unfolding represents_def dr
    by (auto simp: BlockHash_update_def p_def [symmetric] q_def Let_def update_blocks_def
        split: option.splits)
qed

lemma pad_completes: "delta8 alg dvd n + length (BlockHash_pad alg n)"
proof -
  let ?k = "delta8 alg - (n + pad_length alg) mod delta8 alg"
  have k: "0 < ?k" using block(1) by simp
  then have "length (BlockHash_pad alg n) = ?k + pad_length alg"
    using pad(1) by (simp add: BlockHash_pad_def Let_def)
  moreover have "n + pad_length alg + delta8 alg - (n + pad_length alg) mod delta8 alg
      = n + (?k + pad_length alg)"
    using k by simp
  moreover have "delta8 alg dvd (n + pad_length alg + delta8 alg - (n + pad_length alg) mod delta8 alg)"
    by (metis dvd_minus_mod mod_add_self2)
  ultimately show ?thesis by simp
qed

lemma digest_represents:
  assumes "represents alg st m"
  shows "BlockHash_digest alg st = Inr (hash_ref alg m)"
proof -
  let ?p = "BlockHash_pad alg (length m)"
  let ?st = "BlockHash_update alg st ?p"
  have tot: "pendingTotal st = length m" using assms by (simp add: represents_def)
  have r: "represents alg ?st (m @ ?p)" by (rule update_represents [OF assms])
  have full: "full_part alg (m @ ?p) = length (m @ ?p)"
    using pad_completes [of "length m"] by (auto simp: full_part_def dvd_def)
  then have h: "h_state ?st = update_blocks alg (join32 (m @ ?p) (big_endian alg)) (h_init alg)"
    using r by (simp add: represents_def)
  have "(case pending ?st of None \<Rightarrow> [] | Some q \<Rightarrow> q) = []"
    using r full by (simp add: represents_def)
  moreover have "pending ?st \<noteq> Some []"
  proof -
    have "?p \<noteq> []" by (simp add: BlockHash_pad_def Let_def)
    then show ?thesis by (auto simp: BlockHash_update_def Let_def split: option.splits if_splits)
  qed
  ultimately have "pending ?st = None" by (auto split: option.splits)
  then show ?thesis
    by (simp add: BlockHash_digest_def Let_def tot h hash_ref_def)
qed

lemma new_represents: "represents alg (new_BlockHash alg) []"
  by (simp add: represents_def new_BlockHash_def full_part_def update_blocks_def)

lemma updates_represents:
  "represents alg st m \<Longrightarrow> represents alg (foldl (BlockHash_update alg) st ms) (m @ concat ms)"
proof (induction ms arbitrary: st m)
  case (Cons x ms)
  from Cons.IH [OF update_represents [OF Cons.prems, of x]] show ?case by simp
qed simp

lemma digest_pieces:
  "BlockHash_digest alg (foldl (BlockHash_update alg) (new_BlockHash alg) ms) = Inr (hash_ref alg (concat ms))"
  using digest_represents [OF updates_represents [OF new_represents, of ms]] by simp

lemma run_hash_eq: "run_hash alg m = hash_ref alg m"
  using digest_pieces [of "[m]"] by (simp add: run_hash_def)

lemma length_update_blocks: "length (update_blocks alg ws (h_init alg)) = length (h_init alg)"
proof -
  have "length h = length (h_init alg) \<Longrightarrow>
      length (foldl (\<lambda>h k. compress alg h (f k)) h ks) = length (h_init alg)" for h f and ks :: "nat list"
    by (induction ks arbitrary: h) (simp_all add: compress_length)
  then show ?thesis by (simp add: update_blocks_def)
qed

lemma length_run_hash: "length (run_hash alg m) = 4 * out_words alg"
  using words by (simp add: run_hash_eq hash_ref_def length_update_blocks min_absorb2)

end

lemma compress_lengths:
  "length (SHA1_update hs ws) = 5" "length (SHA256_update hs ws) = 8" "length (RIPEMD160_update hs ws) = 5"
  unfolding SHA1_update_def SHA256_update_def RIPEMD160_update_def Let_def case_prod_beta
  by (simp_all only: list.size)

interpretation sha1: block_alg SHA1
  by unfold_locales (simp_all add: SHA1_def compress_lengths)

interpretation sha256: block_alg SHA256
  by unfold_locales (simp_all add: SHA256_def compress_lengths)

interpretation sha224: block_alg SHA224
  by unfold_locales (simp_all add: SHA224_def SHA256_def compress_lengths)

interpretation ripemd160: block_alg RIPEMD160
  by unfold_locales (simp_all add: RIPEMD160_def compress_lengths)

lemma hash_lengths [simp]:
  "length (Hash_sha1 b) = 20" "length (Hash_sha256 b) = 32" "length (Hash_ripemd160 b) = 20"
  "length (Hash_sha256sha256 b) = 32" "length (Hash_sha256ripemd160 b) = 20"
  using sha1.length_run_hash sha256.length_run_hash ripemd160.length_run_hash
  by (simp_all add: Hash_sha1_def Hash_sha256_def Hash_ripemd160_def Hash_sha256sha256_def
      Hash_sha256ripemd160_def Let_def SHA1_def SHA256_def RIPEMD160_def)

text \<open>
  C29: hashing is incremental.  Feeding a message to \<open>SHA256\<close> in any pieces and asking for the
  digest never fails the assertion in \<open>digest\<close> and gives the hash of the whole message, which is
  the one-shot hash of its padded blocks.
\<close>

theorem sha256_incremental:
  "BlockHash_digest SHA256 (foldl (BlockHash_update SHA256) (new_BlockHash SHA256) ms)
     = Inr (Hash_sha256 (concat ms)) \<and>
   Hash_sha256 (concat ms) = hash_ref SHA256 (concat ms)"
  by (simp add: sha256.digest_pieces Hash_sha256_def sha256.run_hash_eq)

end
