(* ===== verification/JSString.thy ===== *)
theory JSString
  imports BNum
begin

text \<open>
  The string functions of JavaScript that the modelled code calls: decimal printing of a
  non-negative number, \<open>parseInt\<close> without a radix, \<open>split(' ')\<close> and \<open>trim\<close>.
\<close>

section \<open>Numbers as strings\<close>

definition dec_char :: "nat \<Rightarrow> char" where
  "dec_char d = char_of (48 + d)"

fun dec_string :: "nat \<Rightarrow> string" where
  "dec_string n = (if n < 10 then [dec_char n] else dec_string (n div 10) @ [dec_char (n mod 10)])"

declare dec_string.simps [simp del]

definition dec_digit :: "char \<Rightarrow> nat option" where
  "dec_digit c = (let n = of_char c :: nat in if 48 \<le> n \<and> n \<le> 57 then Some (n - 48) else None)"

text \<open>The value of the longest run of digits of the given base, \<open>None\<close> when there is none.\<close>

fun parse_digits :: "nat \<Rightarrow> (char \<Rightarrow> nat option) \<Rightarrow> nat option \<Rightarrow> string \<Rightarrow> nat option" where
  "parse_digits base dig acc [] = acc"
| "parse_digits base dig acc (c # cs) =
     (case dig c of
        None \<Rightarrow> acc
      | Some d \<Rightarrow>
          parse_digits base dig (Some ((case acc of None \<Rightarrow> 0 | Some a \<Rightarrow> a) * base + d)) cs)"

definition parse_radix :: "string \<Rightarrow> nat option" where
  "parse_radix s =
     (if take 2 s = ''0x'' \<or> take 2 s = ''0X'' then parse_digits 16 hex_digit None (drop 2 s)
      else parse_digits 10 dec_digit None s)"

text \<open>\<open>parseInt(s)\<close>: \<open>None\<close> is \<open>NaN\<close>; the value is rounded to a double.\<close>

definition js_parseInt :: "string \<Rightarrow> int option" where
  "js_parseInt s =
     (let t = dropWhile js_space s;
          neg = (t \<noteq> [] \<and> hd t = CHR ''-'');
          u = (if t \<noteq> [] \<and> (hd t = CHR ''-'' \<or> hd t = CHR ''+'') then tl t else t)
      in map_option (\<lambda>n. let v = int (double_round_nat n) in if neg then - v else v) (parse_radix u))"

section \<open>Splitting and trimming\<close>

fun js_split :: "char \<Rightarrow> string \<Rightarrow> string list" where
  "js_split sep [] = [[]]"
| "js_split sep (c # cs) =
     (if c = sep then [] # js_split sep cs
      else case js_split sep cs of [] \<Rightarrow> [[c]] | t # ts \<Rightarrow> (c # t) # ts)"

definition js_trim :: "string \<Rightarrow> string" where
  "js_trim s = rev (dropWhile js_space (rev (dropWhile js_space s)))"

section \<open>Facts\<close>

lemma dec_digit_dec_char: "d < 10 \<Longrightarrow> dec_digit (dec_char d) = Some d"
  by (simp add: dec_digit_def dec_char_def)

lemma dec_string_not_Nil [simp]: "dec_string n \<noteq> []"
  by (simp add: dec_string.simps [of n])

lemma parse_digits_append:
  "list_all (\<lambda>c. dig c \<noteq> None) s \<Longrightarrow>
   parse_digits base dig acc (s @ t) = parse_digits base dig (parse_digits base dig acc s) t"
  by (induction s arbitrary: acc) (auto split: option.splits)

lemma dec_string_digits: "list_all (\<lambda>c. dec_digit c \<noteq> None) (dec_string n)"
proof (induction n rule: dec_string.induct)
  case (1 n)
  then show ?case
    by (cases "n < 10") (simp_all add: dec_string.simps [of n] dec_digit_dec_char)
qed

lemma parse_dec_string: "parse_digits 10 dec_digit None (dec_string n) = Some n"
proof (induction n rule: dec_string.induct)
  case (1 n)
  show ?case
  proof (cases "n < 10")
    case True
    then show ?thesis by (simp add: dec_string.simps [of n] dec_digit_dec_char)
  next
    case False
    with 1 show ?thesis
      by (simp add: dec_string.simps [of n] parse_digits_append [OF dec_string_digits]
          dec_digit_dec_char)
  qed
qed

lemma dec_string_inj: "dec_string m = dec_string n \<longleftrightarrow> m = n"
  by (metis option.inject parse_dec_string)

lemma js_split_append:
  "sep \<notin> set a \<Longrightarrow> js_split sep (a @ sep # b) = a # js_split sep b"
  by (induction a) auto

lemma js_split_single: "sep \<notin> set a \<Longrightarrow> js_split sep a = [a]"
  by (induction a) auto

lemma js_trim_id:
  assumes "list_all (\<lambda>c. \<not> js_space c) s"
  shows "js_trim s = s"
proof -
  have "dropWhile js_space t = t" if "list_all (\<lambda>c. \<not> js_space c) t" for t
    using that by (cases t) simp_all
  moreover have "list_all (\<lambda>c. \<not> js_space c) (rev s)" using assms by (simp add: list_all_iff)
  ultimately show ?thesis using assms by (simp add: js_trim_def)
qed

end
