(* ===== verification/Networks.thy ===== *)
theory Networks
  imports JSString
begin

text \<open>
  The registry of networks (\<open>Networks\<close> in magnachain.js): the list \<open>networks\<close>, the table
  \<open>networkMaps\<close> from property values to networks, and \<open>get\<close>, \<open>addNetwork\<close> and
  \<open>removeNetwork\<close>.  A network object carries the identity \<open>net_id\<close> that \<open>===\<close> compares;
  a key of \<open>networkMaps\<close> is a string, as property names are.
\<close>

section \<open>Data\<close>

record network =
  net_id :: nat
  net_name :: string
  net_alias :: string
  pubkeyhash :: nat
  privatekey :: nat
  scripthash :: nat
  contracthash :: nat
  xpubkey :: nat
  xprivkey :: nat
  networkMagic :: "bytes option"
  net_port :: "nat option"
  dnsSeeds :: "string list option"

text \<open>The argument of \<open>addNetwork\<close>; 0 stands for a missing magic number or port.\<close>

record network_data =
  d_name :: string
  d_alias :: string
  d_pubkeyhash :: nat
  d_privatekey :: nat
  d_scripthash :: nat
  d_contracthash :: nat
  d_xpubkey :: nat
  d_xprivkey :: nat
  d_networkMagic :: nat
  d_port :: nat
  d_dnsSeeds :: "string list option"

datatype net_value = VStr string | VNum nat

datatype net_arg = ArgUndefined | ArgNet network | ArgStr string | ArgNum nat

record net_state =
  networks :: "network list"
  networkMaps :: "(string \<times> network) list"
  next_net_id :: nat
  regtestEnabled :: bool

definition key_string :: "net_value \<Rightarrow> string" where
  "key_string v = (case v of VStr s \<Rightarrow> s | VNum n \<Rightarrow> dec_string n)"

section \<open>Operations\<close>

text \<open>The property \<open>network[key]\<close>, when it is a string or a number.\<close>

definition net_field :: "network \<Rightarrow> string \<Rightarrow> net_value option" where
  "net_field n key =
     (if key = ''name'' then Some (VStr (net_name n))
      else if key = ''alias'' then Some (VStr (net_alias n))
      else if key = ''pubkeyhash'' then Some (VNum (pubkeyhash n))
      else if key = ''privatekey'' then Some (VNum (privatekey n))
      else if key = ''scripthash'' then Some (VNum (scripthash n))
      else if key = ''contracthash'' then Some (VNum (contracthash n))
      else if key = ''xpubkey'' then Some (VNum (xpubkey n))
      else if key = ''xprivkey'' then Some (VNum (xprivkey n))
      else if key = ''port'' then map_option VNum (net_port n)
      else None)"

definition arg_value :: "net_arg \<Rightarrow> net_value option" where
  "arg_value arg =
     (case arg of ArgStr s \<Rightarrow> Some (VStr s) | ArgNum n \<Rightarrow> Some (VNum n) | _ \<Rightarrow> None)"

text \<open>The property name an argument is coerced to in \<open>networkMaps[arg]\<close>.\<close>

definition arg_key :: "net_arg \<Rightarrow> string" where
  "arg_key arg =
     (case arg of ArgUndefined \<Rightarrow> ''undefined'' | ArgNet n \<Rightarrow> net_name n
      | ArgStr s \<Rightarrow> s | ArgNum n \<Rightarrow> dec_string n)"

definition Networks_get :: "net_state \<Rightarrow> net_arg \<Rightarrow> string list option \<Rightarrow> network option" where
  "Networks_get st arg keys =
     (case arg of
        ArgNet n \<Rightarrow> if n \<in> set (networks st) then Some n
                    else (case keys of Some _ \<Rightarrow> None | None \<Rightarrow> map_of (networkMaps st) (arg_key arg))
      | _ \<Rightarrow>
          (case keys of
             Some ks \<Rightarrow>
               find (\<lambda>n. list_ex (\<lambda>k. net_field n k \<noteq> None \<and> net_field n k = arg_value arg) ks) (networks st)
           | None \<Rightarrow> map_of (networkMaps st) (arg_key arg)))"

definition net_values :: "network \<Rightarrow> net_value list" where
  "net_values n =
     [VStr (net_name n), VStr (net_alias n), VNum (pubkeyhash n), VNum (privatekey n),
      VNum (scripthash n), VNum (contracthash n), VNum (xpubkey n), VNum (xprivkey n)]
     @ (case net_port n of None \<Rightarrow> [] | Some p \<Rightarrow> [VNum p])"

definition new_network :: "nat \<Rightarrow> network_data \<Rightarrow> network" where
  "new_network i d =
     \<lparr>net_id = i, net_name = d_name d, net_alias = d_alias d, pubkeyhash = d_pubkeyhash d,
      privatekey = d_privatekey d, scripthash = d_scripthash d, contracthash = d_contracthash d,
      xpubkey = d_xpubkey d, xprivkey = d_xprivkey d,
      networkMagic = (if d_networkMagic d \<noteq> 0 then Some (integerAsBuffer (int (d_networkMagic d))) else None),
      net_port = (if d_port d \<noteq> 0 then Some (d_port d) else None),
      dnsSeeds = d_dnsSeeds d\<rparr>"

definition map_network :: "string \<Rightarrow> network \<Rightarrow> (string \<times> network) list \<Rightarrow> (string \<times> network) list" where
  "map_network k n m = (k, n) # filter (\<lambda>(k', _). k' \<noteq> k) m"

definition addNetwork :: "net_state \<Rightarrow> network_data \<Rightarrow> network \<times> net_state" where
  "addNetwork st d =
     (let n = new_network (next_net_id st) d;
          m = foldl (\<lambda>m v. map_network (key_string v) n m) (networkMaps st) (net_values n)
      in (n, st\<lparr>networks := networks st @ [n], networkMaps := m, next_net_id := Suc (next_net_id st)\<rparr>))"

text \<open>The loop over \<open>networks\<close> goes on after the element that follows a removed one.\<close>

fun remove_loop :: "network \<Rightarrow> network list \<Rightarrow> network list" where
  "remove_loop n [] = []"
| "remove_loop n (m # ms) =
     (if net_id m = net_id n then (case ms of [] \<Rightarrow> [] | m' # ms' \<Rightarrow> m' # remove_loop n ms')
      else m # remove_loop n ms)"

definition removeNetwork :: "net_state \<Rightarrow> network \<Rightarrow> net_state" where
  "removeNetwork st n =
     st\<lparr>networks := remove_loop n (networks st),
        networkMaps := filter (\<lambda>(_, m). net_id m \<noteq> net_id n) (networkMaps st)\<rparr>"

definition enableRegtest :: "net_state \<Rightarrow> net_state" where
  "enableRegtest st = st\<lparr>regtestEnabled := True\<rparr>"

definition disableRegtest :: "net_state \<Rightarrow> net_state" where
  "disableRegtest st = st\<lparr>regtestEnabled := False\<rparr>"

section \<open>The networks of the SDK\<close>

definition livenet_data :: network_data where
  "livenet_data =
     \<lparr>d_name = ''livenet'', d_alias = ''mainnet'', d_pubkeyhash = 75, d_privatekey = 0x80,
      d_scripthash = 62, d_contracthash = 69, d_xpubkey = 0x0488b21e, d_xprivkey = 0x0488ade4,
      d_networkMagic = 0xf9beb4d9, d_port = 8333,
      d_dnsSeeds = Some [''seed.bitcoin.sipa.be'', ''dnsseed.bluematt.me'',
        ''dnsseed.bitcoin.dashjr.org'', ''seed.bitcoinstats.com'', ''seed.bitnodes.io'',
        ''bitseed.xf2.org'']\<rparr>"

definition testnet_data :: network_data where
  "testnet_data =
     \<lparr>d_name = ''testnet'', d_alias = ''regtest'', d_pubkeyhash = 110, d_privatekey = 0xef,
      d_scripthash = 195, d_contracthash = 199, d_xpubkey = 0x043587cf, d_xprivkey = 0x04358394,
      d_networkMagic = 0, d_port = 0, d_dnsSeeds = None\<rparr>"

definition livenet :: network where
  "livenet = new_network 0 livenet_data"

definition testnet :: network where
  "testnet = new_network 1 testnet_data"

text \<open>The ports of the test networks are entered in \<open>networkMaps\<close> apart.\<close>

definition initial_networks :: net_state where
  "initial_networks =
     (let st = \<lparr>networks = [], networkMaps = [], next_net_id = 0, regtestEnabled = False\<rparr>;
          (_, st) = addNetwork st livenet_data;
          (t, st) = addNetwork st testnet_data
      in st\<lparr>networkMaps := map_network (dec_string 18444) t
              (map_network (dec_string 18333) t (networkMaps st))\<rparr>)"

text \<open>The getters \<open>testnet.port\<close>, \<open>testnet.networkMagic\<close> and \<open>testnet.dnsSeeds\<close>.\<close>

definition testnet_port :: "net_state \<Rightarrow> nat" where
  "testnet_port st = (if regtestEnabled st then 18444 else 18333)"

definition testnet_networkMagic :: "net_state \<Rightarrow> bytes" where
  "testnet_networkMagic st =
     (if regtestEnabled st then integerAsBuffer 0xfabfb5da else integerAsBuffer 0x0b110907)"

definition testnet_dnsSeeds :: "net_state \<Rightarrow> string list" where
  "testnet_dnsSeeds st =
     (if regtestEnabled st then []
      else [''testnet-seed.bitcoin.petertodd.org'', ''testnet-seed.bluematt.me'',
            ''testnet-seed.alexykot.me'', ''testnet-seed.bitcoin.schildbach.de''])"

section \<open>The invariant of the registry\<close>

text \<open>
  Networks in the list have distinct identities, all allocated, and the table only refers to
  networks of the list.
\<close>

definition net_ok :: "net_state \<Rightarrow> bool" where
  "net_ok st \<longleftrightarrow>
     distinct (map net_id (networks st)) \<and>
     list_all (\<lambda>n. net_id n < next_net_id st) (networks st) \<and>
     list_all (\<lambda>(_, n). n \<in> set (networks st)) (networkMaps st)"

lemma map_network_set: "set (map_network k n m) \<subseteq> insert (k, n) (set m)"
  by (auto simp: map_network_def)

lemma map_of_map_network: "map_of (map_network k n m) = (map_of m)(k \<mapsto> n)"
proof -
  have "map_of (filter (\<lambda>(k', _). k' \<noteq> k) m) k' = (if k' = k then None else map_of m k')" for k'
    by (induction m) auto
  then show ?thesis by (auto simp: map_network_def fun_eq_iff)
qed

lemma map_networks_set:
  "set (foldl (\<lambda>m v. map_network (key_string v) n m) m vs) \<subseteq> set m \<union> UNIV \<times> {n}"
proof (induction vs arbitrary: m)
  case (Cons v vs)
  have "set (map_network (key_string v) n m) \<subseteq> set m \<union> UNIV \<times> {n}"
    using map_network_set [of "key_string v" n m] by auto
  then show ?case using Cons.IH [of "map_network (key_string v) n m"] by auto
qed simp

lemma map_of_map_networks:
  "map_of (foldl (\<lambda>m v. map_network (key_string v) n m) m vs) k
     = (if k \<in> key_string ` set vs then Some n else map_of m k)"
  by (induction vs arbitrary: m) (auto simp: map_of_map_network)

lemma remove_loop_eq:
  "distinct (map net_id ms) \<Longrightarrow> remove_loop n ms = filter (\<lambda>m. net_id m \<noteq> net_id n) ms"
proof (induction n ms rule: remove_loop.induct)
  case (2 n m ms)
  show ?case
  proof (cases "net_id m = net_id n")
    case True
    then have "filter (\<lambda>m. net_id m \<noteq> net_id n) ms = ms"
      using "2.prems" by (auto simp: filter_id_conv image_iff)
    moreover have "remove_loop n ms' = ms'" if "ms = m' # ms'" for m' ms'
    proof -
      have "remove_loop n ms' = filter (\<lambda>m. net_id m \<noteq> net_id n) ms'"
        using "2.IH"(1) [OF True that] "2.prems" that by simp
      also have "\<dots> = ms'" using True "2.prems" that by (auto simp: filter_id_conv image_iff)
      finally show ?thesis .
    qed
    ultimately show ?thesis using True by (auto split: list.splits)
  next
    case False
    with 2 show ?thesis by simp
  qed
qed simp

lemma addNetwork_ok:
  assumes "net_ok st"
  shows "net_ok (snd (addNetwork st d))"
proof -
  let ?n = "new_network (next_net_id st) d"
  have "net_id ?n = next_net_id st" by (simp add: new_network_def)
  moreover have "\<forall>(k, m) \<in> set (foldl (\<lambda>m v. map_network (key_string v) ?n m) (networkMaps st) (net_values ?n)).
      m = ?n \<or> m \<in> set (networks st)"
    using assms map_networks_set [of ?n "networkMaps st" "net_values ?n"]
    by (auto simp: net_ok_def list_all_iff)
  ultimately show ?thesis
    using assms by (auto simp: net_ok_def addNetwork_def Let_def list_all_iff)
qed

lemma removeNetwork_ok:
  assumes "net_ok st"
  shows "net_ok (removeNetwork st n)"
  using assms
  by (auto simp: net_ok_def removeNetwork_def remove_loop_eq list_all_iff distinct_map inj_on_def)

lemma initial_networks_ok: "net_ok initial_networks"
  by (auto simp: initial_networks_def net_ok_def addNetwork_def Let_def new_network_def list_all_iff
      dest!: subsetD [OF map_network_set] subsetD [OF map_networks_set])

text \<open>
  a network that was added is found under its name, its alias and every number that was
  registered for it, and looking up anything else gives what it gave before.
\<close>

theorem Networks_get_add:
  assumes "addNetwork st d = (n, st')"
  shows "Networks_get st' (ArgStr s) None
     = (if s \<in> key_string ` set (net_values n) then Some n else Networks_get st (ArgStr s) None)"
  using assms
  by (auto simp: addNetwork_def Let_def Networks_get_def arg_key_def map_of_map_networks)

lemma Networks_get_add_witness:
  "Networks_get (snd (addNetwork initial_networks livenet_data)) (ArgStr ''livenet'') None
     = Some (fst (addNetwork initial_networks livenet_data))"
  using Networks_get_add [of initial_networks livenet_data _ _ "''livenet''", OF prod.collapse [symmetric]]
  by (simp add: addNetwork_def Let_def net_values_def key_string_def new_network_def livenet_data_def)

text \<open>
  a network that was removed from a well-formed registry is no longer returned by any lookup,
  by key or by value, and the registry stays well-formed.
\<close>

theorem Networks_get_remove:
  assumes "net_ok st"
  shows "net_ok (removeNetwork st n) \<and>
    (Networks_get (removeNetwork st n) arg keys = Some m \<longrightarrow> net_id m \<noteq> net_id n)"
proof -
  have "net_id m \<noteq> net_id n" if "map_of (filter (\<lambda>(_, m). net_id m \<noteq> net_id n) xs) k = Some m" for xs k
    using map_of_SomeD [OF that] by auto
  moreover have "net_id m \<noteq> net_id n" if "find P (filter (\<lambda>m. net_id m \<noteq> net_id n) xs) = Some m" for P xs
    using that by (auto simp: find_Some_iff dest: nth_mem)
  moreover have "remove_loop n (networks st) = filter (\<lambda>m. net_id m \<noteq> net_id n) (networks st)"
    using assms by (simp add: net_ok_def remove_loop_eq)
  ultimately have "Networks_get (removeNetwork st n) arg keys = Some m \<longrightarrow> net_id m \<noteq> net_id n"
    by (cases arg; cases keys) (auto simp: Networks_get_def removeNetwork_def split: if_splits)
  then show ?thesis using removeNetwork_ok [OF assms] by simp
qed

lemma Networks_get_remove_witness:
  "net_ok initial_networks \<and>
   Networks_get (removeNetwork initial_networks testnet) (ArgNet livenet) None = Some livenet \<and>
   net_id livenet \<noteq> net_id testnet"
proof -
  have "Networks_get (removeNetwork initial_networks testnet) (ArgNet livenet) None = Some livenet"
    by (simp add: Networks_get_def removeNetwork_def initial_networks_def addNetwork_def Let_def
        livenet_def testnet_def new_network_def)
  with Networks_get_remove [OF initial_networks_ok] initial_networks_ok show ?thesis by blast
qed

end
