(* ===== verification/Scripts.thy ===== *)
theory Scripts
  imports Opcodes Signatures Hashes Networks "HOL-Library.Char_ord" "HOL-Library.List_Lexorder"
begin

text \<open>
  Transaction scripts (\<open>Script\<close> in magnachain.js): the list of chunks, parsing from and
  printing to buffers, the predicates that classify a script, the builders of the standard
  scripts and the helpers of the interpreter.  \<open>PublicKey.isValid\<close> is the parameter
  \<open>pkvalid\<close> of the definitions that ask for it; a public key given to a builder is its
  serialised buffer (\<open>toBuffer()\<close>).
\<close>

section \<open>Data\<close>

text \<open>
  \<open>None\<close> is \<open>undefined\<close> in the three fields (and \<open>NaN\<close> in \<open>clen\<close>, which every use
  treats alike).
\<close>

record chunk =
  opcodenum :: "nat option"
  cbuf :: "bytes option"
  clen :: "int option"

record script =
  chunks :: "chunk list"
  s_isInput :: bool
  s_isOutput :: bool
  s_network :: "network option"

abbreviation (input) op_chunk :: "nat \<Rightarrow> chunk" where
  "op_chunk n \<equiv> \<lparr>opcodenum = Some n, cbuf = None, clen = None\<rparr>"

abbreviation (input) data_chunk :: "nat \<Rightarrow> bytes \<Rightarrow> nat \<Rightarrow> chunk" where
  "data_chunk n b l \<equiv> \<lparr>opcodenum = Some n, cbuf = Some b, clen = Some (int l)\<rparr>"

definition new_Script :: script where
  "new_Script = \<lparr>chunks = [], s_isInput = False, s_isOutput = False, s_network = None\<rparr>"

definition Script_set :: "script \<Rightarrow> chunk list \<Rightarrow> script" where
  "Script_set s cs = s\<lparr>chunks := cs\<rparr>"

section \<open>Buffers\<close>

text \<open>One iteration of the loop of \<open>Script.fromBuffer\<close>.\<close>

definition Script_readChunk :: "reader \<Rightarrow> (chunk \<times> reader) result" where
  "Script_readChunk br =
     rbind (BufferReader_readUInt8 br) (\<lambda>(opcode, br).
       if opcode > 0 \<and> opcode < OP_PUSHDATA1 then
         let (b, br) = BufferReader_read br opcode in Inr (data_chunk opcode b opcode, br)
       else if opcode = OP_PUSHDATA1 then
         rbind (BufferReader_readUInt8 br) (\<lambda>(len, br).
           let (b, br) = BufferReader_read br len in Inr (data_chunk opcode b len, br))
       else if opcode = OP_PUSHDATA2 then
         rbind (BufferReader_readUInt16LE br) (\<lambda>(len, br).
           let (b, br) = BufferReader_read br len in Inr (data_chunk opcode b len, br))
       else if opcode = OP_PUSHDATA4 then
         rbind (BufferReader_readUInt32LE br) (\<lambda>(len, br).
           let (b, br) = BufferReader_read br len in Inr (data_chunk opcode b len, br))
       else Inr (op_chunk opcode, br))"

lemma readers_advance:
  "BufferReader_readUInt8 br = Inr (v, br') \<Longrightarrow> br' = skip 1 br"
  "BufferReader_readUInt16LE br = Inr (v, br') \<Longrightarrow> br' = skip 2 br"
  "BufferReader_readUInt32LE br = Inr (v, br') \<Longrightarrow> br' = skip 4 br"
  by (auto simp: BufferReader_readUInt8_def BufferReader_readUInt16LE_def
      BufferReader_readUInt32LE_def advance_skip rbind_eq_Inr)

lemma read_skip:
  "BufferReader_read br n = (Buffer_slice (rbuf br) (int (rpos br)) (int (rpos br + n)), skip n br)"
  by (simp add: BufferReader_read_def skip_def)

lemma readChunk_advances:
  assumes "Script_readChunk br = Inr (c, br')"
  shows "\<exists>k. 0 < k \<and> br' = skip k br"
proof -
  from assms obtain opc br1 where "BufferReader_readUInt8 br = Inr (opc, br1)"
    by (auto simp: Script_readChunk_def rbind_eq_Inr)
  then have 1: "BufferReader_readUInt8 br = Inr (opc, skip 1 br)"
    using readers_advance(1) by blast
  have "\<exists>k. br' = skip k (skip 1 br)"
    using assms unfolding Script_readChunk_def 1
    by (auto simp: rbind_eq_Inr read_skip split: if_splits dest!: readers_advance simp del: skip_skip)
      (metis skip_0 skip_skip)+
  then show ?thesis by auto
qed

function Script_readChunks :: "reader \<Rightarrow> chunk list result" where
  "Script_readChunks br =
     (if BufferReader_finished br then Inr []
      else rbind (Script_readChunk br) (\<lambda>(c, br).
             rbind (Script_readChunks br) (\<lambda>cs. Inr (c # cs))))"
  by pat_completeness auto

termination
proof (relation "measure (\<lambda>br. length (rbuf br) - rpos br)")
  fix br p c br'
  assume "\<not> BufferReader_finished br" and "Script_readChunk br = Inr p" and "(c, br') = p"
  moreover from this obtain k where "0 < k" "br' = skip k br"
    using readChunk_advances by metis
  ultimately show "(br', br) \<in> measure (\<lambda>br. length (rbuf br) - rpos br)"
    by (simp add: BufferReader_finished_def)
qed simp

declare Script_readChunks.simps [simp del]

text \<open>A \<open>RangeError\<close> of the reader becomes \<open>errors.Script.InvalidBuffer\<close>.\<close>

definition Script_fromBuffer :: "bytes \<Rightarrow> script result" where
  "Script_fromBuffer b =
     (case Script_readChunks (new_BufferReader b) of
        Inl (RangeError _) \<Rightarrow> Inl (ScriptInvalidBuffer b)
      | Inl e \<Rightarrow> Inl e
      | Inr cs \<Rightarrow> Inr (new_Script\<lparr>chunks := cs\<rparr>))"

text \<open>An undefined number is written as 0 (\<open>NaN\<close> passes the range check).\<close>

definition num_or_0 :: "int option \<Rightarrow> int" where
  "num_or_0 n = (case n of None \<Rightarrow> 0 | Some v \<Rightarrow> v)"

definition Script_writeChunk :: "bwriter \<Rightarrow> chunk \<Rightarrow> bwriter result" where
  "Script_writeChunk bw c =
     rbind (BufferWriter_writeUInt8 bw (num_or_0 (map_option int (opcodenum c)))) (\<lambda>bw.
       case cbuf c of
         None \<Rightarrow> Inr bw
       | Some b \<Rightarrow>
           (case opcodenum c of
              None \<Rightarrow> Inr bw
            | Some n \<Rightarrow>
                if n < OP_PUSHDATA1 then Inr (BufferWriter_write bw b)
                else if n = OP_PUSHDATA1 then
                  rbind (BufferWriter_writeUInt8 bw (num_or_0 (clen c))) (\<lambda>bw. Inr (BufferWriter_write bw b))
                else if n = OP_PUSHDATA2 then
                  rbind (BufferWriter_writeUInt16LE bw (num_or_0 (clen c))) (\<lambda>bw. Inr (BufferWriter_write bw b))
                else if n = OP_PUSHDATA4 then
                  rbind (BufferWriter_writeUInt32LE bw (num_or_0 (clen c))) (\<lambda>bw. Inr (BufferWriter_write bw b))
                else Inr bw))"

fun Script_writeChunks :: "bwriter \<Rightarrow> chunk list \<Rightarrow> bwriter result" where
  "Script_writeChunks bw [] = Inr bw"
| "Script_writeChunks bw (c # cs) = rbind (Script_writeChunk bw c) (\<lambda>bw. Script_writeChunks bw cs)"

definition Script_toBuffer :: "script \<Rightarrow> bytes result" where
  "Script_toBuffer s = rbind (Script_writeChunks [] (chunks s)) (\<lambda>bw. Inr (BufferWriter_concat bw))"

definition Script_fromHex :: "string \<Rightarrow> script result" where
  "Script_fromHex str = Script_fromBuffer (Buffer_from_hex str)"

definition Script_toHex :: "script \<Rightarrow> string result" where
  "Script_toHex s = rbind (Script_toBuffer s) (\<lambda>b. Inr (hexSlice b))"

section \<open>Strings\<close>

definition is_pushdata :: "nat \<Rightarrow> bool" where
  "is_pushdata n \<longleftrightarrow> n = OP_PUSHDATA1 \<or> n = OP_PUSHDATA2 \<or> n = OP_PUSHDATA4"

text \<open>
  The token loops.  A missing token is \<open>undefined\<close>: slicing it is a \<open>TypeError\<close>,
  \<open>parseInt\<close> of it is \<open>NaN\<close>, and \<open>new Buffer(undefined, 'hex')\<close> is a \<open>TypeError\<close>.
\<close>

fun fromASM_tokens :: "string list \<Rightarrow> chunk list result" where
  "fromASM_tokens [] = Inr []"
| "fromASM_tokens (t # ts) =
     (case map_of Opcode_map t of
        None \<Rightarrow>
          let b = Buffer_from_hex t in
          rbind (fromASM_tokens ts) (\<lambda>cs. Inr (data_chunk (length b) b (length b) # cs))
      | Some n \<Rightarrow>
          if is_pushdata n then
            (case ts of
               l # d # ts' \<Rightarrow>
                 rbind (fromASM_tokens ts') (\<lambda>cs.
                   Inr (\<lparr>opcodenum = Some n, cbuf = Some (Buffer_from_hex d), clen = js_parseInt l\<rparr> # cs))
             | _ \<Rightarrow> Inl (TypeError ''must start with number, buffer, array or string''))
          else rbind (fromASM_tokens ts) (\<lambda>cs. Inr (op_chunk n # cs)))"

definition Script_fromASM :: "string \<Rightarrow> script result" where
  "Script_fromASM str =
     rbind (fromASM_tokens (js_split (CHR '' '') str)) (\<lambda>cs. Inr (new_Script\<lparr>chunks := cs\<rparr>))"

fun fromString_tokens :: "string list \<Rightarrow> chunk list result" where
  "fromString_tokens [] = Inr []"
| "fromString_tokens (t # ts) =
     (case map_of Opcode_map t of
        None \<Rightarrow>
          (case js_parseInt t of
             Some v \<Rightarrow>
               if v > 0 \<and> v < int OP_PUSHDATA1 then
                 (case ts of
                    d # ts' \<Rightarrow>
                      rbind (fromString_tokens ts') (\<lambda>cs.
                        Inr (data_chunk (nat v) (Buffer_from_hex (drop 2 d)) (nat v) # cs))
                  | [] \<Rightarrow> Inl (TypeError ''undefined is not an object''))
               else Inl (PlainError ''Invalid script'')
           | None \<Rightarrow> Inl (PlainError ''Invalid script''))
      | Some n \<Rightarrow>
          if is_pushdata n then
            (case ts of
               l # d # ts' \<Rightarrow>
                 if take 2 d \<noteq> ''0x'' then Inl (PlainError ''Pushdata data must start with 0x'')
                 else rbind (fromString_tokens ts') (\<lambda>cs.
                        Inr (\<lparr>opcodenum = Some n, cbuf = Some (Buffer_from_hex (drop 2 d)),
                              clen = js_parseInt l\<rparr> # cs))
             | _ \<Rightarrow> Inl (TypeError ''undefined is not an object''))
          else rbind (fromString_tokens ts) (\<lambda>cs. Inr (op_chunk n # cs)))"

definition Script_fromString :: "string \<Rightarrow> script result" where
  "Script_fromString str =
     (if isHexa str \<or> length str = 0 then Script_fromBuffer (Buffer_from_hex str)
      else rbind (fromString_tokens (js_split (CHR '' '') str)) (\<lambda>cs. Inr (new_Script\<lparr>chunks := cs\<rparr>)))"

text \<open>A chunk without an opcode number makes \<open>opcodenum.toString\<close> fail.\<close>

definition Script_chunkToString :: "chunk \<Rightarrow> bool \<Rightarrow> string result" where
  "Script_chunkToString c asm =
     (case cbuf c of
        None \<Rightarrow>
          (case opcodenum c of
             None \<Rightarrow> Inl (TypeError ''undefined is not an object'')
           | Some n \<Rightarrow>
               (case Opcode_reverseMap n of
                  Some nm \<Rightarrow>
                    if asm then
                      (if n = 0 then Inr '' 0'' else if n = 79 then Inr '' -1'' else Inr ('' '' @ nm))
                    else Inr ('' '' @ nm)
                | None \<Rightarrow>
                    let numstr = pad_even (hex_digits n) in
                    if asm then Inr ('' '' @ numstr) else Inr ('' '' @ ''0x'' @ numstr)))
      | Some b \<Rightarrow>
          rbind (if (\<not> asm \<and> opcodenum c = Some OP_PUSHDATA1) \<or> opcodenum c = Some OP_PUSHDATA2 \<or>
                    opcodenum c = Some OP_PUSHDATA4
                 then rbind (Opcode_toString (case opcodenum c of None \<Rightarrow> 0 | Some n \<Rightarrow> n)) (\<lambda>nm. Inr ('' '' @ nm))
                 else Inr []) (\<lambda>str.
            case clen c of
              None \<Rightarrow> Inr str
            | Some l \<Rightarrow>
                if l > 0 then
                  (if asm then Inr (str @ '' '' @ hexSlice b)
                   else Inr (str @ '' '' @ dec_string (nat l) @ '' '' @ ''0x'' @ hexSlice b))
                else Inr str))"

fun Script_chunksToString :: "chunk list \<Rightarrow> bool \<Rightarrow> string result" where
  "Script_chunksToString [] asm = Inr []"
| "Script_chunksToString (c # cs) asm =
     rbind (Script_chunkToString c asm) (\<lambda>s. rbind (Script_chunksToString cs asm) (\<lambda>t. Inr (s @ t)))"

definition Script_toString :: "script \<Rightarrow> string result" where
  "Script_toString s = rbind (Script_chunksToString (chunks s) False) (\<lambda>str. Inr (drop 1 str))"

definition Script_toASM :: "script \<Rightarrow> string result" where
  "Script_toASM s = rbind (Script_chunksToString (chunks s) True) (\<lambda>str. Inr (drop 1 str))"

section \<open>Classification\<close>

definition op_is :: "chunk \<Rightarrow> nat \<Rightarrow> bool" where
  "op_is c n \<longleftrightarrow> opcodenum c = Some n"

definition has_buf :: "chunk \<Rightarrow> (bytes \<Rightarrow> bool) \<Rightarrow> bool" where
  "has_buf c P = (case cbuf c of None \<Rightarrow> False | Some b \<Rightarrow> P b)"

definition Script_isPublicKeyHashOut :: "script \<Rightarrow> bool" where
  "Script_isPublicKeyHashOut s =
     (case chunks s of
        [c0, c1, c2, c3, c4] \<Rightarrow>
          op_is c0 OP_DUP \<and> op_is c1 OP_HASH160 \<and> has_buf c2 (\<lambda>b. length b = 20) \<and>
          op_is c3 OP_EQUALVERIFY \<and> op_is c4 OP_CHECKSIG
      | _ \<Rightarrow> False)"

text \<open>The test on the first byte and the length of a public key.\<close>

definition pubkey_shape :: "bytes \<Rightarrow> bool" where
  "pubkey_shape b \<longleftrightarrow>
     b \<noteq> [] \<and>
     (((b ! 0 = 4 \<or> b ! 0 = 6 \<or> b ! 0 = 7) \<and> length b = 65) \<or>
      ((b ! 0 = 3 \<or> b ! 0 = 2) \<and> length b = 33))"

definition signature_shape :: "bytes \<Rightarrow> bool" where
  "signature_shape b \<longleftrightarrow> b \<noteq> [] \<and> b ! 0 = 48"

definition Script_isPublicKeyHashIn :: "script \<Rightarrow> bool" where
  "Script_isPublicKeyHashIn s =
     (case chunks s of
        [c0, c1] \<Rightarrow> has_buf c0 signature_shape \<and> has_buf c1 pubkey_shape
      | _ \<Rightarrow> False)"

definition Script_isPublicKeyOut :: "(bytes \<Rightarrow> bool) \<Rightarrow> script \<Rightarrow> bool" where
  "Script_isPublicKeyOut pkvalid s =
     (case chunks s of
        [c0, c1] \<Rightarrow> has_buf c0 (\<lambda>b. b \<noteq> []) \<and> op_is c1 OP_CHECKSIG \<and>
                     has_buf c0 (\<lambda>b. pubkey_shape b \<and> pkvalid b)
      | _ \<Rightarrow> False)"

definition Script_isPublicKeyIn :: "script \<Rightarrow> bool" where
  "Script_isPublicKeyIn s =
     (case chunks s of [c0] \<Rightarrow> has_buf c0 signature_shape | _ \<Rightarrow> False)"

definition Script_isContractOut :: "script \<Rightarrow> bool" where
  "Script_isContractOut s =
     (case chunks s of
        [c0, c1] \<Rightarrow> (op_is c0 OP_CONTRACT \<or> op_is c0 OP_CONTRACT_CHANGE) \<and>
                     has_buf c1 (\<lambda>b. length b = 20)
      | _ \<Rightarrow> False)"

definition Script_isScriptHashOut :: "script \<Rightarrow> bool result" where
  "Script_isScriptHashOut s =
     rbind (Script_toBuffer s) (\<lambda>b.
       Inr (length b = 23 \<and> unat (b ! 0) = OP_HASH160 \<and> b ! 1 = 0x14 \<and>
            unat (b ! (length b - 1)) = OP_EQUAL))"

definition small_int_op :: "chunk \<Rightarrow> bool" where
  "small_int_op c = (case opcodenum c of None \<Rightarrow> False | Some n \<Rightarrow> Opcode_isSmallIntOp n)"

definition Script_isMultisigOut :: "script \<Rightarrow> bool" where
  "Script_isMultisigOut s =
     (let cs = chunks s; n = length cs in
      n > 3 \<and> small_int_op (cs ! 0) \<and>
      list_all (\<lambda>c. cbuf c \<noteq> None) (take (n - 3) (drop 1 cs)) \<and>
      small_int_op (cs ! (n - 2)) \<and> op_is (cs ! (n - 1)) OP_CHECKMULTISIG)"

definition Script_isMultisigIn :: "script \<Rightarrow> bool" where
  "Script_isMultisigIn s =
     (let cs = chunks s in
      length cs \<ge> 2 \<and> op_is (cs ! 0) 0 \<and>
      list_all (\<lambda>c. has_buf c Signature_isTxDER) (drop 1 cs))"

abbreviation (input) OP_RETURN_STANDARD_SIZE :: nat where "OP_RETURN_STANDARD_SIZE \<equiv> 80"

text \<open>\<open>chunks[1].length === chunks.len\<close> compares \<open>undefined\<close> with \<open>undefined\<close>.\<close>

definition Script_isDataOut :: "script \<Rightarrow> bool" where
  "Script_isDataOut s =
     (case chunks s of
        [c0] \<Rightarrow> op_is c0 OP_RETURN
      | [c0, c1] \<Rightarrow> op_is c0 OP_RETURN \<and> has_buf c1 (\<lambda>b. length b \<le> OP_RETURN_STANDARD_SIZE)
      | _ \<Rightarrow> False)"

definition Script_isPushOnly :: "script \<Rightarrow> bool" where
  "Script_isPushOnly s =
     list_all (\<lambda>c. case opcodenum c of None \<Rightarrow> False | Some n \<Rightarrow> n \<le> OP_16) (chunks s)"

definition Script_getData :: "script \<Rightarrow> bytes result" where
  "Script_getData s =
     rbind (if Script_isDataOut s then Inr True else Script_isScriptHashOut s) (\<lambda>d.
       if d then
         (case chunks s of
            _ # c1 # _ \<Rightarrow>
              (case cbuf c1 of
                 None \<Rightarrow> Inl (TypeError ''must start with number, buffer, array or string'')
               | Some b \<Rightarrow> Inr b)
          | _ \<Rightarrow> Inr (new_Buffer 0))
       else if Script_isPublicKeyHashOut s then
         (case cbuf (chunks s ! 2) of
            None \<Rightarrow> Inl (TypeError ''must start with number, buffer, array or string'')
          | Some b \<Rightarrow> Inr b)
       else Inl (PlainError ''Unrecognized script type to get data from''))"

definition Script_getPublicKey :: "(bytes \<Rightarrow> bool) \<Rightarrow> script \<Rightarrow> bytes option result" where
  "Script_getPublicKey pkvalid s =
     rbind (check (Script_isPublicKeyOut pkvalid s)
              (InvalidState ''Can't retrieve PublicKey from a non-PK output''))
       (\<lambda>_. Inr (cbuf (chunks s ! 0)))"

definition Script_getPublicKeyHash :: "script \<Rightarrow> bytes option result" where
  "Script_getPublicKeyHash s =
     rbind (check (Script_isPublicKeyHashOut s)
              (InvalidState ''Can't retrieve PublicKeyHash from a non-PKH output''))
       (\<lambda>_. Inr (cbuf (chunks s ! 2)))"

datatype script_type =
    UNKNOWN | PUBKEY_OUT | PUBKEY_IN | PUBKEYHASH_OUT | PUBKEYHASH_IN | SCRIPTHASH_OUT
  | SCRIPTHASH_IN | MULTISIG_OUT | MULTISIG_IN | DATA_OUT

definition Script_classifyOutput :: "(bytes \<Rightarrow> bool) \<Rightarrow> script \<Rightarrow> script_type result" where
  "Script_classifyOutput pkvalid s =
     (if Script_isPublicKeyOut pkvalid s then Inr PUBKEY_OUT
      else if Script_isPublicKeyHashOut s then Inr PUBKEYHASH_OUT
      else if Script_isMultisigOut s then Inr MULTISIG_OUT
      else rbind (Script_isScriptHashOut s) (\<lambda>sh.
        if sh then Inr SCRIPTHASH_OUT
        else if Script_isDataOut s then Inr DATA_OUT
        else Inr UNKNOWN))"

text \<open>
  \<open>isScriptHashIn\<close> classifies the script in the last chunk, which may again be a script-hash
  input.  The classification of inputs takes the test as a parameter; the test recurses on the
  fuel, whose end is the overflow of the call stack.
\<close>

definition classifyInput_by :: "(script \<Rightarrow> bool result) \<Rightarrow> script \<Rightarrow> script_type result" where
  "classifyInput_by scriptHashIn s =
     (if Script_isPublicKeyIn s then Inr PUBKEY_IN
      else if Script_isPublicKeyHashIn s then Inr PUBKEYHASH_IN
      else if Script_isMultisigIn s then Inr MULTISIG_IN
      else rbind (scriptHashIn s) (\<lambda>sh. if sh then Inr SCRIPTHASH_IN else Inr UNKNOWN))"

definition classify_by ::
    "(script \<Rightarrow> bool result) \<Rightarrow> (bytes \<Rightarrow> bool) \<Rightarrow> script \<Rightarrow> script_type result" where
  "classify_by scriptHashIn pkvalid s =
     (if s_isInput s then classifyInput_by scriptHashIn s
      else if s_isOutput s then Script_classifyOutput pkvalid s
      else rbind (Script_classifyOutput pkvalid s) (\<lambda>t.
        if t \<noteq> UNKNOWN then Inr t else classifyInput_by scriptHashIn s))"

fun isScriptHashIn_fuel :: "(bytes \<Rightarrow> bool) \<Rightarrow> nat \<Rightarrow> script \<Rightarrow> bool result" where
  "isScriptHashIn_fuel pkvalid 0 s = Inl (RangeError ''Maximum call stack size exceeded'')"
| "isScriptHashIn_fuel pkvalid (Suc k) s =
     (if length (chunks s) \<le> 1 then Inr False
      else case cbuf (last (chunks s)) of
             None \<Rightarrow> Inr False
           | Some redeemBuf \<Rightarrow>
               (case Script_fromBuffer redeemBuf of
                  Inl (ScriptInvalidBuffer _) \<Rightarrow> Inr False
                | Inl e \<Rightarrow> Inl e
                | Inr redeemScript \<Rightarrow>
                    rbind (classify_by (isScriptHashIn_fuel pkvalid k) pkvalid redeemScript)
                      (\<lambda>t. Inr (t \<noteq> UNKNOWN))))"

definition redeem_depth :: "script \<Rightarrow> nat" where
  "redeem_depth s =
     (if chunks s = [] then 0
      else case cbuf (last (chunks s)) of None \<Rightarrow> 0 | Some b \<Rightarrow> length b)"

definition Script_isScriptHashIn :: "(bytes \<Rightarrow> bool) \<Rightarrow> script \<Rightarrow> bool result" where
  "Script_isScriptHashIn pkvalid s = isScriptHashIn_fuel pkvalid (Suc (Suc (redeem_depth s))) s"

definition Script_classifyInput :: "(bytes \<Rightarrow> bool) \<Rightarrow> script \<Rightarrow> script_type result" where
  "Script_classifyInput pkvalid s = classifyInput_by (Script_isScriptHashIn pkvalid) s"

definition Script_classify :: "(bytes \<Rightarrow> bool) \<Rightarrow> script \<Rightarrow> script_type result" where
  "Script_classify pkvalid s = classify_by (Script_isScriptHashIn pkvalid) pkvalid s"

definition Script_isStandard :: "(bytes \<Rightarrow> bool) \<Rightarrow> script \<Rightarrow> bool result" where
  "Script_isStandard pkvalid s = rbind (Script_classify pkvalid s) (\<lambda>t. Inr (t \<noteq> UNKNOWN))"

section \<open>Construction\<close>

fun equals_chunks :: "chunk list \<Rightarrow> chunk list \<Rightarrow> bool" where
  "equals_chunks (c # cs) (d # ds) =
     (case cbuf c of
        Some b \<Rightarrow>
          (case cbuf d of
             None \<Rightarrow> False
           | Some b' \<Rightarrow> if \<not> BufferUtil_equals b b' then False
                         else if opcodenum c \<noteq> opcodenum d then False
                         else equals_chunks cs ds)
      | None \<Rightarrow> if opcodenum c \<noteq> opcodenum d then False else equals_chunks cs ds)"
| "equals_chunks cs ds = True"

definition Script_equals :: "script \<Rightarrow> script \<Rightarrow> bool" where
  "Script_equals s t =
     (if length (chunks s) \<noteq> length (chunks t) then False else equals_chunks (chunks s) (chunks t))"

datatype script_arg =
    OpName string | OpNum nat | OpObj nat | ArgBuffer bytes | ArgScript script | ArgChunk chunk

definition Script_insertAtPosition :: "script \<Rightarrow> chunk \<Rightarrow> bool \<Rightarrow> script" where
  "Script_insertAtPosition s c pre =
     (if pre then s\<lparr>chunks := c # chunks s\<rparr> else s\<lparr>chunks := chunks s @ [c]\<rparr>)"

definition Script_addOpcode :: "script \<Rightarrow> nat option \<Rightarrow> bool \<Rightarrow> script" where
  "Script_addOpcode s op pre =
     Script_insertAtPosition s \<lparr>opcodenum = op, cbuf = None, clen = None\<rparr> pre"

definition push_opcode :: "nat \<Rightarrow> nat result" where
  "push_opcode len =
     (if len < OP_PUSHDATA1 then Inr len
      else if len < 2 ^ 8 then Inr OP_PUSHDATA1
      else if len < 2 ^ 16 then Inr OP_PUSHDATA2
      else if len < 2 ^ 32 then Inr OP_PUSHDATA4
      else Inl (PlainError ''You can't push that much data''))"

definition Script_addBuffer :: "script \<Rightarrow> bytes \<Rightarrow> bool \<Rightarrow> script result" where
  "Script_addBuffer s b pre =
     rbind (push_opcode (length b)) (\<lambda>n.
       Inr (Script_insertAtPosition s (data_chunk n b (length b)) pre))"

definition Script_addByType :: "script \<Rightarrow> script_arg \<Rightarrow> bool \<Rightarrow> script result" where
  "Script_addByType s arg pre =
     (case arg of
        OpName nm \<Rightarrow> Inr (Script_addOpcode s (map_of Opcode_map nm) pre)
      | OpNum n \<Rightarrow> Inr (Script_addOpcode s (Some n) pre)
      | OpObj n \<Rightarrow> Inr (Script_addOpcode s (Some n) pre)
      | ArgBuffer b \<Rightarrow> Script_addBuffer s b pre
      | ArgScript t \<Rightarrow> Inr (s\<lparr>chunks := chunks s @ chunks t\<rparr>)
      | ArgChunk c \<Rightarrow> Inr (Script_insertAtPosition s c pre))"

definition Script_add :: "script \<Rightarrow> script_arg \<Rightarrow> script result" where
  "Script_add s arg = Script_addByType s arg False"

definition Script_prepend :: "script \<Rightarrow> script_arg \<Rightarrow> script result" where
  "Script_prepend s arg = Script_addByType s arg True"

text \<open>The chained calls \<open>s.add(a).add(b)\<dots>\<close>.\<close>

fun Script_adds :: "script \<Rightarrow> script_arg list \<Rightarrow> script result" where
  "Script_adds s [] = Inr s"
| "Script_adds s (a # as) = rbind (Script_add s a) (\<lambda>s. Script_adds s as)"

definition Script_removeCodeseparators :: "script \<Rightarrow> script" where
  "Script_removeCodeseparators s = s\<lparr>chunks := filter (\<lambda>c. \<not> op_is c OP_CODESEPARATOR) (chunks s)\<rparr>"

section \<open>Builders\<close>

datatype address_type = PayToPublicKeyHash | PayToScriptHash | PayToContractHash

record address =
  hashBuffer :: bytes
  a_network :: network
  a_type :: address_type

definition Script_buildMultisigOut :: "bytes list \<Rightarrow> int \<Rightarrow> bool \<Rightarrow> script result" where
  "Script_buildMultisigOut publicKeys threshold noSorting =
     rbind (check (threshold \<le> int (length publicKeys))
       (InvalidArgument ''Number of required signatures must be less than or equal to the number of public keys'')) (\<lambda>_.
     rbind (Opcode_smallInt threshold) (\<lambda>m.
     let sorted = (if noSorting then publicKeys else sort_key hexSlice publicKeys) in
     rbind (Script_adds new_Script (OpObj m # map ArgBuffer sorted)) (\<lambda>s.
     rbind (Opcode_smallInt (int (length publicKeys))) (\<lambda>n.
       Script_adds s [OpObj n, OpNum OP_CHECKMULTISIG]))))"

definition Script_buildMultisigIn :: "bytes list \<Rightarrow> script result" where
  "Script_buildMultisigIn signatures = Script_adds new_Script (OpNum OP_0 # map ArgBuffer signatures)"

definition Script_buildP2SHMultisigIn ::
    "bytes list \<Rightarrow> int \<Rightarrow> bytes list \<Rightarrow> bool \<Rightarrow> script option \<Rightarrow> script result" where
  "Script_buildP2SHMultisigIn pubkeys threshold signatures noSorting cachedMultisig =
     rbind (Script_adds new_Script (OpNum OP_0 # map ArgBuffer signatures)) (\<lambda>s.
     rbind (case cachedMultisig of Some m \<Rightarrow> Inr m
            | None \<Rightarrow> Script_buildMultisigOut pubkeys threshold noSorting) (\<lambda>m.
     rbind (Script_toBuffer m) (\<lambda>b. Script_add s (ArgBuffer b))))"

definition Script_buildPublicKeyHashOut :: "address \<Rightarrow> script result" where
  "Script_buildPublicKeyHashOut dest =
     rbind (Script_adds new_Script
              [OpNum OP_DUP, OpNum OP_HASH160, ArgBuffer (hashBuffer dest), OpNum OP_EQUALVERIFY,
               OpNum OP_CHECKSIG]) (\<lambda>s.
       Inr (s\<lparr>s_network := Some (a_network dest)\<rparr>))"

definition Script_buildPublicKeyOut :: "bytes \<Rightarrow> script result" where
  "Script_buildPublicKeyOut pubkey = Script_adds new_Script [ArgBuffer pubkey, OpNum OP_CHECKSIG]"

definition Script_buildDataOut :: "bytes option \<Rightarrow> script result" where
  "Script_buildDataOut d =
     Script_adds new_Script
       (OpNum OP_RETURN # (case d of None \<Rightarrow> [] | Some b \<Rightarrow> [ArgBuffer b]))"

text \<open>\<open>buildScriptHashOut\<close> of a script, and of a script-hash address.\<close>

definition hash_out :: "bytes \<Rightarrow> network option \<Rightarrow> script result" where
  "hash_out h net =
     rbind (Script_adds new_Script [OpNum OP_HASH160, ArgBuffer h, OpNum OP_EQUAL]) (\<lambda>s.
       Inr (s\<lparr>s_network := net\<rparr>))"

definition Script_buildScriptHashOut :: "script \<Rightarrow> script result" where
  "Script_buildScriptHashOut s =
     rbind (Script_toBuffer s) (\<lambda>b. hash_out (Hash_sha256ripemd160 b) (s_network s))"

definition Script_buildScriptHashOut_address :: "address \<Rightarrow> script result" where
  "Script_buildScriptHashOut_address dest =
     rbind (check (a_type dest = PayToScriptHash) (InvalidArgument []))
       (\<lambda>_. hash_out (hashBuffer dest) (Some (a_network dest)))"

definition sighash_byte :: "int option \<Rightarrow> bytes" where
  "sighash_byte sigtype =
     integerAsSingleByteBuffer
       (case sigtype of None \<Rightarrow> int SIGHASH_ALL | Some t \<Rightarrow> if t = 0 then int SIGHASH_ALL else t)"

definition Script_buildPublicKeyIn :: "bytes \<Rightarrow> int option \<Rightarrow> script result" where
  "Script_buildPublicKeyIn signature sigtype =
     Script_adds new_Script [ArgBuffer (Buffer_concat [signature, sighash_byte sigtype])]"

definition Script_buildPublicKeyHashIn :: "bytes \<Rightarrow> bytes \<Rightarrow> int option \<Rightarrow> script result" where
  "Script_buildPublicKeyHashIn publicKey signature sigtype =
     Script_adds new_Script
       [ArgBuffer (Buffer_concat [signature, sighash_byte sigtype]), ArgBuffer publicKey]"

definition Script_toScriptHashOut :: "script \<Rightarrow> script result" where
  "Script_toScriptHashOut s = Script_buildScriptHashOut s"

text \<open>The error that a contract address gets carries no data here.\<close>

definition Script_fromAddress :: "address \<Rightarrow> script result" where
  "Script_fromAddress a =
     (if a_type a = PayToScriptHash then Script_buildScriptHashOut_address a
      else if a_type a = PayToPublicKeyHash then Script_buildPublicKeyHashOut a
      else Inl ScriptUnrecognizedAddress)"

section \<open>Address information\<close>

definition Script_getOutputAddressInfo :: "script \<Rightarrow> (bytes \<times> address_type) option result" where
  "Script_getOutputAddressInfo s =
     rbind (Script_isScriptHashOut s) (\<lambda>sh.
       if sh then rbind (Script_getData s) (\<lambda>h. Inr (Some (h, PayToScriptHash)))
       else if Script_isPublicKeyHashOut s then
         rbind (Script_getData s) (\<lambda>h. Inr (Some (h, PayToPublicKeyHash)))
       else Inr None)"

definition buf_of :: "chunk \<Rightarrow> bytes" where
  "buf_of c = (case cbuf c of None \<Rightarrow> [] | Some b \<Rightarrow> b)"

definition Script_getInputAddressInfo ::
    "(bytes \<Rightarrow> bool) \<Rightarrow> script \<Rightarrow> (bytes \<times> address_type) option result" where
  "Script_getInputAddressInfo pkvalid s =
     (if Script_isPublicKeyHashIn s then
        Inr (Some (Hash_sha256ripemd160 (buf_of (chunks s ! 1)), PayToPublicKeyHash))
      else rbind (Script_isScriptHashIn pkvalid s) (\<lambda>sh.
        if sh then Inr (Some (Hash_sha256ripemd160 (buf_of (last (chunks s))), PayToScriptHash))
        else Inr None))"

definition Script_getAddressInfo ::
    "(bytes \<Rightarrow> bool) \<Rightarrow> script \<Rightarrow> (bytes \<times> address_type) option result" where
  "Script_getAddressInfo pkvalid s =
     (if s_isInput s then Script_getInputAddressInfo pkvalid s
      else if s_isOutput s then Script_getOutputAddressInfo s
      else rbind (Script_getOutputAddressInfo s) (\<lambda>info.
        case info of None \<Rightarrow> Script_getInputAddressInfo pkvalid s | Some _ \<Rightarrow> Inr info))"

section \<open>Helpers of the interpreter\<close>

text \<open>
  \<open>splice(i, 1)\<close> moves the next chunk to position \<open>i\<close>, and \<open>i++\<close> then passes over it.
\<close>

fun findAndDelete_loop :: "string \<Rightarrow> chunk list \<Rightarrow> chunk list result" where
  "findAndDelete_loop hex [] = Inr []"
| "findAndDelete_loop hex (c # cs) =
     rbind (Script_toBuffer (Script_set new_Script [c])) (\<lambda>buf2.
       if hex = hexSlice buf2 then
         (case cs of
            [] \<Rightarrow> Inr []
          | c' # cs' \<Rightarrow> rbind (findAndDelete_loop hex cs') (\<lambda>r. Inr (c' # r)))
       else rbind (findAndDelete_loop hex cs) (\<lambda>r. Inr (c # r)))"

definition Script_findAndDelete :: "script \<Rightarrow> script \<Rightarrow> script result" where
  "Script_findAndDelete s t =
     rbind (Script_toBuffer t) (\<lambda>b.
     rbind (findAndDelete_loop (hexSlice b) (chunks s)) (\<lambda>cs. Inr (s\<lparr>chunks := cs\<rparr>)))"

definition minimal_push :: "chunk \<Rightarrow> bool" where
  "minimal_push c =
     (case cbuf c of
        None \<Rightarrow> True
      | Some b \<Rightarrow>
          if length b = 0 then op_is c OP_0
          else if length b = 1 \<and> unat (b ! 0) \<ge> 1 \<and> unat (b ! 0) \<le> 16 then
            op_is c (OP_1 + (unat (b ! 0) - 1))
          else if length b = 1 \<and> b ! 0 = 0x81 then op_is c OP_1NEGATE
          else if length b \<le> 75 then op_is c (length b)
          else if length b \<le> 255 then op_is c OP_PUSHDATA1
          else if length b \<le> 65535 then op_is c OP_PUSHDATA2
          else True)"

definition Script_checkMinimalPush :: "script \<Rightarrow> nat \<Rightarrow> bool result" where
  "Script_checkMinimalPush s i =
     (if i < length (chunks s) then Inr (minimal_push (chunks s ! i))
      else Inl (TypeError ''undefined is not an object''))"

definition Script_decodeOP_N :: "nat \<Rightarrow> nat result" where
  "Script_decodeOP_N opcode =
     (if opcode = OP_0 then Inr 0
      else if opcode \<ge> OP_1 \<and> opcode \<le> OP_16 then Inr (opcode - (OP_1 - 1))
      else Inl (PlainError ''Invalid opcode''))"

fun sigops_loop :: "bool \<Rightarrow> nat option \<Rightarrow> nat \<Rightarrow> chunk list \<Rightarrow> nat result" where
  "sigops_loop accurate lastOpcode n [] = Inr n"
| "sigops_loop accurate lastOpcode n (c # cs) =
     rbind
       (if op_is c OP_CHECKSIG \<or> op_is c OP_CHECKSIGVERIFY then Inr (n + 1)
        else if op_is c OP_CHECKMULTISIG \<or> op_is c OP_CHECKMULTISIGVERIFY then
          (case lastOpcode of
             Some l \<Rightarrow>
               if accurate \<and> l \<ge> OP_1 \<and> l \<le> OP_16
               then rbind (Script_decodeOP_N l) (\<lambda>k. Inr (n + k))
               else Inr (n + 20)
           | None \<Rightarrow> Inr (n + 20))
        else Inr n)
       (\<lambda>n. sigops_loop accurate (opcodenum c) n cs)"

definition Script_getSignatureOperationsCount :: "script \<Rightarrow> bool \<Rightarrow> nat result" where
  "Script_getSignatureOperationsCount s accurate =
     sigops_loop accurate (Some OP_INVALIDOPCODE) 0 (chunks s)"

end
