(* ===== verification/ScriptProps.thy ===== *)
theory ScriptProps
  imports Scripts "HOL-Library.Multiset"
begin

text \<open>
  The theorems about \<open>Script\<close>: what a chunk is written as, that printing and parsing are
  inverse to each other (in both directions, and where not), that classification is total on
  parsed scripts, that the builders make scripts of their class, and what deletion, the
  minimality test, the count of signature operations and the textual form do.  Chunks are
  another encoding that satisfies the contract \<open>wire_format\<close>.
\<close>

section \<open>What a chunk is written as\<close>

definition chunk_enc :: "chunk \<Rightarrow> bytes result" where
  "chunk_enc c = rbind (Script_writeChunk [] c) (\<lambda>bw. Inr (concat bw))"

lemma writeUInt8_bw: "n < 256 \<Longrightarrow> BufferWriter_writeUInt8 bw (int n) = Inr (bw @ [[of_nat n]])"
  using writeUInt8_fresh [of n]
  by (simp add: BufferWriter_writeUInt8_def writing_def BufferWriter_write_def)

lemma writeUInt16LE_bw: "n < 65536 \<Longrightarrow> BufferWriter_writeUInt16LE bw (int n) = Inr (bw @ [le_bytes 2 n])"
  using writeUInt16LE_fresh [of n]
  by (simp add: BufferWriter_writeUInt16LE_def writing_def BufferWriter_write_def)

lemma writeUInt32LE_bw: "n < 4294967296 \<Longrightarrow> BufferWriter_writeUInt32LE bw (int n) = Inr (bw @ [le_bytes 4 n])"
  using writeUInt32LE_fresh [of n]
  by (simp add: BufferWriter_writeUInt32LE_def writing_def BufferWriter_write_def)

lemma writing_append: "writing (bw @ x) r = rbind (writing x r) (\<lambda>w. Inr (bw @ w))"
  by (cases r) (simp_all add: writing_def BufferWriter_write_def)

lemmas writer_append =
  writing_append [where r = "Buffer_writeUInt8 (new_Buffer 1) n 0" for n, folded BufferWriter_writeUInt8_def]
  writing_append [where r = "Buffer_writeUInt16LE (new_Buffer 2) n 0" for n, folded BufferWriter_writeUInt16LE_def]
  writing_append [where r = "Buffer_writeUInt32LE (new_Buffer 4) n 0" for n, folded BufferWriter_writeUInt32LE_def]

lemma writeChunk_append:
  "Script_writeChunk (bw @ x) c = rbind (Script_writeChunk x c) (\<lambda>w. Inr (bw @ w))"
  by (cases "cbuf c"; cases "opcodenum c")
    (auto simp: Script_writeChunk_def writer_append rbind_assoc BufferWriter_write_def
      if_distrib [where f = "\<lambda>r. rbind r f" for f] cong: if_cong)

lemma writeChunks_enc_all:
  "rbind (Script_writeChunks bw cs) (\<lambda>bw. Inr (concat bw))
     = rbind (enc_all chunk_enc cs) (\<lambda>e. Inr (concat bw @ e))"
proof (induction cs arbitrary: bw)
  case Nil
  then show ?case by simp
next
  case (Cons c cs)
  have "Script_writeChunk bw c = rbind (Script_writeChunk [] c) (\<lambda>w. Inr (bw @ w))"
    using writeChunk_append [of bw "[]" c] by simp
  then show ?case by (simp add: rbind_assoc Cons.IH chunk_enc_def)
qed

lemma Script_toBuffer_eq: "Script_toBuffer s = enc_all chunk_enc (chunks s)"
  using writeChunks_enc_all [of "[]" "chunks s"]
  by (cases "enc_all chunk_enc (chunks s)") (simp_all add: Script_toBuffer_def BufferWriter_concat_def)

lemma chunk_enc_op: "n < 256 \<Longrightarrow> chunk_enc (op_chunk n) = Inr [of_nat n]"
  by (simp add: chunk_enc_def Script_writeChunk_def num_or_0_def writeUInt8_bw)

lemma chunk_enc_data:
  "n < 76 \<Longrightarrow> chunk_enc (data_chunk n b l) = Inr (of_nat n # b)"
  "l < 256 \<Longrightarrow> chunk_enc (data_chunk 76 b l) = Inr (76 # of_nat l # b)"
  "l < 65536 \<Longrightarrow> chunk_enc (data_chunk 77 b l) = Inr (77 # le_bytes 2 l @ b)"
  "l < 4294967296 \<Longrightarrow> chunk_enc (data_chunk 78 b l) = Inr (78 # le_bytes 4 l @ b)"
  using writeUInt8_bw [of 76 "[]"] writeUInt8_bw [of 77 "[]"] writeUInt8_bw [of 78 "[]"]
  by (simp_all add: chunk_enc_def Script_writeChunk_def num_or_0_def writeUInt8_bw writeUInt16LE_bw
      writeUInt32LE_bw BufferWriter_write_def)

section \<open>Well-formed chunks\<close>

definition chunk_ok :: "chunk \<Rightarrow> bool" where
  "chunk_ok c =
     (case opcodenum c of
        None \<Rightarrow> False
      | Some n \<Rightarrow>
          (case cbuf c of
             None \<Rightarrow> clen c = None \<and> n < 256 \<and> (n = 0 \<or> 78 < n)
           | Some b \<Rightarrow>
               clen c = Some (int (length b)) \<and>
               (0 < n \<and> n < 76 \<and> length b = n \<or> n = 76 \<and> length b < 256 \<or>
                n = 77 \<and> length b < 65536 \<or> n = 78 \<and> length b < 2147483648)))"

lemma chunk_okE:
  assumes "chunk_ok c"
  obtains (op) n where "c = op_chunk n" "n < 256" "n = 0 \<or> 78 < n"
  | (direct) b where "c = data_chunk (length b) b (length b)" "0 < length b" "length b < 76"
  | (pd1) b where "c = data_chunk 76 b (length b)" "length b < 256"
  | (pd2) b where "c = data_chunk 77 b (length b)" "length b < 65536"
  | (pd4) b where "c = data_chunk 78 b (length b)" "length b < 2147483648"
  using assms by (cases c) (auto simp: chunk_ok_def split: option.splits)

lemma chunk_enc_ok: "chunk_ok c \<Longrightarrow> \<exists>e. chunk_enc c = Inr e \<and> e \<noteq> []"
  by (elim chunk_okE) (auto simp: chunk_enc_op chunk_enc_data simp del: le_bytes_numeral)

lemma readUInt8_head:
  assumes "reads br (x # r)"
  shows "BufferReader_readUInt8 br = Inr (unat x, skip 1 br)" "reads (skip 1 br) r"
  using assms reads_Cons [of br x r] readUInt8_reads [of br x] by simp_all

lemma readChunk_chunk_enc:
  assumes ok: "chunk_ok c" and enc: "chunk_enc c = Inr e" and r: "reads br e"
  shows "Script_readChunk br = Inr (c, skip (length e) br)"
  using ok
proof (cases rule: chunk_okE)
  case (op n)
  then have e: "e = [of_nat n]" using enc by (simp add: chunk_enc_op)
  from op readUInt8_head [OF r [unfolded e]] show ?thesis
    by (auto simp: e Script_readChunk_def unat_of_nat_byte)
next
  case (direct b)
  then have e: "e = of_nat (length b) # b" using enc by (simp add: chunk_enc_data)
  from direct readUInt8_head [OF r [unfolded e]] show ?thesis
    by (simp add: e Script_readChunk_def unat_of_nat_byte read_reads)
next
  case (pd1 b)
  then have e: "e = 76 # of_nat (length b) # b" using enc by (simp add: chunk_enc_data)
  note h = readUInt8_head [OF r [unfolded e]]
  from pd1 h(1) readUInt8_head [OF h(2)] show ?thesis
    by (simp add: e Script_readChunk_def unat_of_nat_byte read_reads)
next
  case (pd2 b)
  then have e: "e = 77 # le_bytes 2 (length b) @ b" using enc by (simp add: chunk_enc_data)
  note h = readUInt8_head [OF r [unfolded e]]
  have "le_val (le_bytes 2 (length b)) = length b" using pd2 by (simp only: le_val_le_bytes) simp
  moreover have "reads (skip 1 br) (le_bytes 2 (length b))" "reads (skip (Suc (Suc (Suc 0))) br) b"
    using h(2) by (simp_all add: reads_append del: le_bytes_numeral)
  ultimately show ?thesis
    using pd2 h(1) readUInt16LE_reads [of "skip 1 br" "le_bytes 2 (length b)"]
    by (simp add: e Script_readChunk_def read_reads del: le_bytes_numeral)
next
  case (pd4 b)
  then have e: "e = 78 # le_bytes 4 (length b) @ b" using enc by (simp add: chunk_enc_data)
  note h = readUInt8_head [OF r [unfolded e]]
  have "le_val (le_bytes 4 (length b)) = length b" using pd4 by (simp only: le_val_le_bytes) simp
  moreover have "reads (skip 1 br) (le_bytes 4 (length b))" "reads (skip 5 br) b"
    using h(2) by (simp_all add: reads_append del: le_bytes_numeral)
  ultimately show ?thesis
    using pd4 h(1) readUInt32LE_reads [of "skip 1 br" "le_bytes 4 (length b)"]
    by (simp add: e Script_readChunk_def read_reads del: le_bytes_numeral)
qed

interpretation chunk: wire_format chunk_ok chunk_enc Script_readChunk
  by unfold_locales (use chunk_enc_ok readChunk_chunk_enc in blast)+

lemma readChunks_enc_all:
  assumes "list_all chunk_ok cs" and "enc_all chunk_enc cs = Inr es"
    and "reads br es" and "rpos br + length es = length (rbuf br)"
  shows "Script_readChunks br = Inr cs"
  using assms
proof (induction cs arbitrary: es br)
  case Nil
  then show ?case by (simp add: Script_readChunks.simps [of br] BufferReader_finished_def)
next
  case (Cons c cs)
  from Cons.prems obtain e fs where e: "chunk_enc c = Inr e" "enc_all chunk_enc cs = Inr fs" "es = e @ fs"
    by (auto simp: rbind_eq_Inr)
  have "e \<noteq> []" using chunk_enc_ok [of c] Cons.prems(1) e(1) by auto
  then have "\<not> BufferReader_finished br"
    using Cons.prems(4) e(3) by (cases e) (auto simp: BufferReader_finished_def)
  moreover have "Script_readChunk br = Inr (c, skip (length e) br)"
    using Cons.prems e by (auto simp: reads_append intro!: readChunk_chunk_enc)
  moreover have "Script_readChunks (skip (length e) br) = Inr cs"
    using Cons.prems e by (auto simp: reads_append intro!: Cons.IH)
  ultimately show ?case by (simp add: Script_readChunks.simps [of br])
qed

section \<open>Printing what was parsed\<close>

lemma read_take:
  assumes "rpos br + n < 2147483648" and "length (rbuf br) < 2147483648"
  shows "BufferReader_read br n = (take n (drop (rpos br) (rbuf br)), skip n br)"
  using Buffer_slice_nat [of "rpos br" "rpos br + n" "rbuf br"] assms by (simp add: read_skip)

lemma readers_value:
  assumes "length (rbuf br) < 2147483648" and "rpos br < 2147483648"
  shows "BufferReader_readUInt8 br = Inr (v, br') \<Longrightarrow>
      rpos br < length (rbuf br) \<and> v = unat (rbuf br ! rpos br) \<and> br' = skip 1 br"
    and "BufferReader_readUInt16LE br = Inr (v, br') \<Longrightarrow>
      rpos br + 2 \<le> length (rbuf br) \<and> v = le_val (take 2 (drop (rpos br) (rbuf br))) \<and> br' = skip 2 br"
    and "BufferReader_readUInt32LE br = Inr (v, br') \<Longrightarrow>
      rpos br + 4 \<le> length (rbuf br) \<and> v = le_val (take 4 (drop (rpos br) (rbuf br))) \<and> br' = skip 4 br"
proof -
  note o = reads_out_of_range [of "rbuf br" "rpos br"]
  assume "BufferReader_readUInt8 br = Inr (v, br')"
  moreover from this have "rpos br + 1 \<le> length (rbuf br)"
    using o(1) assms by (fastforce simp: BufferReader_readUInt8_def advance_skip rbind_eq_Inr not_less)
  ultimately show "rpos br < length (rbuf br) \<and> v = unat (rbuf br ! rpos br) \<and> br' = skip 1 br"
    using assms by (auto simp: BufferReader_readUInt8_def advance_skip readUInt8_eq)
next
  note o = reads_out_of_range [of "rbuf br" "rpos br"]
  assume "BufferReader_readUInt16LE br = Inr (v, br')"
  moreover from this have "rpos br + 2 \<le> length (rbuf br)"
    using o(2) assms by (fastforce simp: BufferReader_readUInt16LE_def advance_skip rbind_eq_Inr not_less)
  ultimately show "rpos br + 2 \<le> length (rbuf br) \<and> v = le_val (take 2 (drop (rpos br) (rbuf br))) \<and>
      br' = skip 2 br"
    using assms by (auto simp: BufferReader_readUInt16LE_def advance_skip readUInt16LE_eq)
next
  note o = reads_out_of_range [of "rbuf br" "rpos br"]
  assume "BufferReader_readUInt32LE br = Inr (v, br')"
  moreover from this have "rpos br + 4 \<le> length (rbuf br)"
    using o(3) assms by (fastforce simp: BufferReader_readUInt32LE_def advance_skip rbind_eq_Inr not_less)
  ultimately show "rpos br + 4 \<le> length (rbuf br) \<and> v = le_val (take 4 (drop (rpos br) (rbuf br))) \<and>
      br' = skip 4 br"
    using assms by (auto simp: BufferReader_readUInt32LE_def advance_skip readUInt32LE_eq)
qed

lemma drop_split_take: "p + k \<le> length b \<Longrightarrow> take (k + n) (drop p b) = take k (drop p b) @ take n (drop (p + k) b)"
  by (simp add: take_add add.commute)

lemma take_1_drop: "p < length b \<Longrightarrow> take (Suc n) (drop p b) = b ! p # take n (drop (Suc p) b)"
  by (simp add: Cons_nth_drop_Suc [symmetric])

lemma slice_take:
  assumes "c = data_chunk n (fst (BufferReader_read br l)) l" and "rpos br \<le> length (rbuf br)"
    and "length (rbuf br) + nat (num_or_0 (clen c)) < 2147483648"
  shows "c = data_chunk n (take l (drop (rpos br) (rbuf br))) l"
  using assms read_take [of br l] by (simp add: num_or_0_def)

lemma readChunk_cases:
  assumes rc: "Script_readChunk br = Inr (c, br')" and lb: "length (rbuf br) < 2147483648"
    and pos: "rpos br < length (rbuf br)"
  obtains (op) n where "c = op_chunk n" "rbuf br ! rpos br = of_nat n" "n < 256" "br' = skip 1 br"
  | (push) n l k where "c = data_chunk n (fst (BufferReader_read (skip k br) l)) l"
      "rbuf br ! rpos br = of_nat n" "br' = skip (k + l) br" "rpos br + k \<le> length (rbuf br)"
      "0 < n \<and> n < 76 \<and> l = n \<and> k = 1 \<or>
       n = 76 \<and> take k (drop (rpos br) (rbuf br)) = [76, of_nat l] \<and> l < 256 \<or>
       n = 77 \<and> take k (drop (rpos br) (rbuf br)) = 77 # le_bytes 2 l \<and> l < 65536 \<or>
       n = 78 \<and> take k (drop (rpos br) (rbuf br)) = 78 # le_bytes 4 l \<and> l < 4294967296"
proof -
  let ?b = "rbuf br" and ?p = "rpos br"
  define opc where "opc = unat (?b ! ?p)"
  have h: "BufferReader_readUInt8 br = Inr (opc, skip 1 br)"
    using readUInt8_eq [of ?b ?p] lb pos by (simp add: BufferReader_readUInt8_def advance_skip opc_def)
  have opc: "?b ! ?p = of_nat opc" "opc < 256" by (simp_all add: opc_def)
  note v = readers_value [where br = "skip 1 br", simplified]
  have p1: "?p < 2147483647" using lb pos by simp
  consider "opc = 0 \<or> 78 < opc" | "0 < opc \<and> opc < 76" | "opc = 76" | "opc = 77" | "opc = 78"
    by linarith
  then show thesis
  proof cases
    case 1
    then show thesis
      using rc opc by (intro op [of opc]) (auto simp: Script_readChunk_def h)
  next
    case 2
    then show thesis
      using rc opc pos
      by (intro push [of opc 1 opc]) (auto simp: Script_readChunk_def h read_skip add.assoc)
  next
    case 3
    with rc obtain l br2 where l: "BufferReader_readUInt8 (skip 1 br) = Inr (l, br2)"
      "c = data_chunk 76 (fst (BufferReader_read br2 l)) l" "br' = skip l br2"
      by (auto simp: Script_readChunk_def h rbind_eq_Inr read_skip)
    from v(1) [OF lb p1] l(1) have w: "Suc ?p < length ?b" "l = unat (?b ! Suc ?p)" "br2 = skip 2 br"
      by (simp_all add: numeral_2_eq_2)
    then show thesis
      using l opc 3 by (intro push [of 76 2 l]) (simp_all add: take_drop_2)
  next
    case 4
    with rc obtain l br2 where l: "BufferReader_readUInt16LE (skip 1 br) = Inr (l, br2)"
      "c = data_chunk 77 (fst (BufferReader_read br2 l)) l" "br' = skip l br2"
      by (auto simp: Script_readChunk_def h rbind_eq_Inr read_skip)
    from v(2) [OF lb p1] l(1) have w: "?p + 3 \<le> length ?b" "l = le_val (take 2 (drop (Suc ?p) ?b))"
      "br2 = skip 3 br"
      by (simp_all add: numeral_3_eq_3)
    have t: "length (take 2 (drop (Suc ?p) ?b)) = 2" using w(1) by simp
    have "take (Suc 2) (drop ?p ?b) = 77 # take 2 (drop (Suc ?p) ?b)"
      using take_1_drop [OF pos, of 2] opc 4 by simp
    moreover have "le_bytes 2 l = take 2 (drop (Suc ?p) ?b)"
      using le_bytes_le_val [of "take 2 (drop (Suc ?p) ?b)"] t by (simp only: w(2))
    moreover have "l < 65536" using le_val_less [of "take 2 (drop (Suc ?p) ?b)"] t by (simp only: w(2)) simp
    ultimately show thesis
      using l w opc 4 by (intro push [of 77 3 l]) (simp_all add: numeral_3_eq_3 del: le_bytes_numeral)
  next
    case 5
    with rc obtain l br2 where l: "BufferReader_readUInt32LE (skip 1 br) = Inr (l, br2)"
      "c = data_chunk 78 (fst (BufferReader_read br2 l)) l" "br' = skip l br2"
      by (auto simp: Script_readChunk_def h rbind_eq_Inr read_skip)
    from v(3) [OF lb p1] l(1) have w: "?p + 5 \<le> length ?b" "l = le_val (take 4 (drop (Suc ?p) ?b))"
      "br2 = skip 5 br"
      by simp_all
    have t: "length (take 4 (drop (Suc ?p) ?b)) = 4" using w(1) by simp
    have "take (Suc 4) (drop ?p ?b) = 78 # take 4 (drop (Suc ?p) ?b)"
      using take_1_drop [OF pos, of 4] opc 5 by simp
    moreover have "le_bytes 4 l = take 4 (drop (Suc ?p) ?b)"
      using le_bytes_le_val [of "take 4 (drop (Suc ?p) ?b)"] t by (simp only: w(2))
    moreover have "l < 4294967296" using le_val_less [of "take 4 (drop (Suc ?p) ?b)"] t by (simp only: w(2)) simp
    ultimately show thesis
      using l w opc 5 by (intro push [of 78 5 l]) (simp_all del: le_bytes_numeral)
  qed
qed

lemma readChunk_enc:
  assumes rc: "Script_readChunk br = Inr (c, br')"
    and small: "length (rbuf br) + nat (num_or_0 (clen c)) < 2147483648" and pos: "rpos br < length (rbuf br)"
  shows "\<exists>k. br' = skip k br \<and> chunk_enc c = Inr (take k (drop (rpos br) (rbuf br)))"
proof -
  let ?b = "rbuf br" and ?p = "rpos br"
  have lb: "length ?b < 2147483648" using small by simp
  from rc lb pos show ?thesis
  proof (cases rule: readChunk_cases)
    case (op n)
    then show ?thesis
      using pos by (auto simp: chunk_enc_op take_1_drop intro!: exI [of _ 1])
  next
    case (push n l k)
    have c: "c = data_chunk n (take l (drop (?p + k) ?b)) l"
      using slice_take [OF push(1)] push(4) small by simp
    have t: "take (k + l) (drop ?p ?b) = take k (drop ?p ?b) @ take l (drop (?p + k) ?b)"
      by (rule drop_split_take [OF push(4)])
    have "chunk_enc c = Inr (take k (drop ?p ?b) @ take l (drop (?p + k) ?b))"
      using push(2,5) pos by (auto simp: c chunk_enc_data take_1_drop simp del: le_bytes_numeral)
    then show ?thesis using push(3) t by auto
  qed
qed


lemma readChunks_enc:
  assumes "Script_readChunks br = Inr cs"
    and "list_all (\<lambda>c. length (rbuf br) + nat (num_or_0 (clen c)) < 2147483648) cs"
  shows "enc_all chunk_enc cs = Inr (drop (rpos br) (rbuf br))"
  using assms
proof (induction br arbitrary: cs rule: Script_readChunks.induct)
  case (1 br)
  show ?case
  proof (cases "BufferReader_finished br")
    case True
    then show ?thesis
      using "1.prems"(1) by (simp add: Script_readChunks.simps [of br] BufferReader_finished_def)
  next
    case False
    with "1.prems"(1) obtain c br' ds where rc: "Script_readChunk br = Inr (c, br')"
      "Script_readChunks br' = Inr ds" "cs = c # ds"
      by (auto simp: Script_readChunks.simps [of br] rbind_eq_Inr)
    from False rc(1,3) "1.prems"(2) obtain k where k: "br' = skip k br"
      "chunk_enc c = Inr (take k (drop (rpos br) (rbuf br)))"
      using readChunk_enc [of br c br'] by (auto simp: BufferReader_finished_def not_le)
    have "enc_all chunk_enc ds = Inr (drop (rpos br') (rbuf br'))"
      using "1.IH" [OF False rc(1) refl rc(2)] "1.prems"(2) k(1) rc(3) by simp
    then show ?thesis using k by (simp add: rc(3) add.commute drop_drop [symmetric] del: drop_drop)
  qed
qed

lemma fromBuffer_Inr: "Script_fromBuffer b = Inr s \<longleftrightarrow>
    (\<exists>cs. Script_readChunks (new_BufferReader b) = Inr cs \<and> s = new_Script\<lparr>chunks := cs\<rparr>)"
  by (auto simp: Script_fromBuffer_def split: sum.splits js_error.splits)

text \<open>
  C24: printing a parsed script gives back the very buffer it was parsed from, also when the last
  push is cut short, as long as every announced length stays within the range of signed 32-bit
  indices.
\<close>

theorem script_print_parse:
  assumes "Script_fromBuffer b = Inr s"
    and "list_all (\<lambda>c. length b + nat (num_or_0 (clen c)) < 2147483648) (chunks s)"
  shows "Script_toBuffer s = Inr b"
  using assms readChunks_enc [of "new_BufferReader b" "chunks s"]
  by (auto simp: fromBuffer_Inr Script_toBuffer_eq new_BufferReader_def)

lemma script_print_parse_witness:
  "Script_fromBuffer [118, 2, 7] = Inr (new_Script\<lparr>chunks := [op_chunk 118, data_chunk 2 [7] 2]\<rparr>) \<and>
   Script_toBuffer (new_Script\<lparr>chunks := [op_chunk 118, data_chunk 2 [7] 2]\<rparr>) = Inr [118, 2, 7]"
proof -
  have "Script_fromBuffer [118, 2, 7] = Inr (new_Script\<lparr>chunks := [op_chunk 118, data_chunk 2 [7] 2]\<rparr>)"
    by (simp add: Script_fromBuffer_def Script_readChunks.simps Script_readChunk_def
        BufferReader_finished_def new_BufferReader_def BufferReader_readUInt8_def advance_skip
        readUInt8_eq read_take)
  with script_print_parse [OF this] show ?thesis by (simp add: num_or_0_def new_Script_def)
qed

text \<open>
  the slice that reads a pushed buffer takes its bounds modulo \<open>2 ^ 32\<close> as signed numbers, so
  a push whose announced length is \<open>2 ^ 31\<close> or more is read as empty and the rest of the script is
  dropped: printing the parsed script does not give the buffer back.
\<close>

theorem script_pushdata4_loses_bytes:
  "Script_fromBuffer [78, 255, 255, 255, 255, 1, 2, 3]
     = Inr (new_Script\<lparr>chunks := [data_chunk 78 [] 4294967295]\<rparr>) \<and>
   Script_toBuffer (new_Script\<lparr>chunks := [data_chunk 78 [] 4294967295]\<rparr>) = Inr [78, 255, 255, 255, 255]"
proof -
  let ?br = "new_BufferReader [78, 255, 255, 255, 255, 1, 2, 3]"
  have "BufferReader_readUInt8 ?br = Inr (78, skip 1 ?br)"
    by (simp add: BufferReader_readUInt8_def advance_skip new_BufferReader_def readUInt8_eq)
  moreover have "BufferReader_readUInt32LE (skip 1 ?br) = Inr (4294967295, skip 5 ?br)"
    by (simp add: BufferReader_readUInt32LE_def advance_skip new_BufferReader_def readUInt32LE_eq)
  moreover have "BufferReader_read (skip 5 ?br) 4294967295 = ([], skip 4294967300 ?br)"
    by (simp add: read_skip new_BufferReader_def Buffer_slice_def toInt32_def clamp_index_def Let_def)
  ultimately have "Script_readChunk ?br = Inr (data_chunk 78 [] 4294967295, skip 4294967300 ?br)"
    by (simp add: Script_readChunk_def)
  then have "Script_readChunks ?br = Inr [data_chunk 78 [] 4294967295]"
    by (simp add: Script_readChunks.simps BufferReader_finished_def new_BufferReader_def)
  then show ?thesis
    using chunk_enc_data(4) [of 4294967295 "[]"]
    by (simp add: Script_fromBuffer_def Script_toBuffer_eq)
qed

section \<open>Parsing what was printed\<close>

text \<open>
  The chunks that the construction methods make: those that \<open>fromBuffer\<close> makes for complete data,
  and the push of an empty buffer, which is written as \<open>OP_0\<close>.
\<close>

definition chunk_wf :: "chunk \<Rightarrow> bool" where
  "chunk_wf c \<longleftrightarrow> chunk_ok c \<or> c = data_chunk 0 [] 0"

definition chunk_norm :: "chunk \<Rightarrow> chunk" where
  "chunk_norm c = (if op_is c 0 then op_chunk 0 else c)"

lemma chunk_wf_norm:
  assumes "chunk_wf c"
  shows "chunk_ok (chunk_norm c) \<and> chunk_enc (chunk_norm c) = chunk_enc c"
proof (cases "c = data_chunk 0 [] 0")
  case True
  then show ?thesis
    using chunk_enc_op [of 0] chunk_enc_data(1) [of 0 "[]" 0]
    by (simp add: chunk_norm_def op_is_def chunk_ok_def)
next
  case False
  with assms have "chunk_ok c" by (simp add: chunk_wf_def)
  then have "chunk_norm c = c" by (elim chunk_okE) (auto simp: chunk_norm_def op_is_def)
  with \<open>chunk_ok c\<close> show ?thesis by simp
qed

lemma enc_all_map: "list_all (\<lambda>x. enc (f x) = enc x) xs \<Longrightarrow> enc_all enc (map f xs) = enc_all enc xs"
  by (induction xs) simp_all

lemma parse_written:
  assumes "list_all chunk_wf (chunks s)"
  shows "\<exists>b. Script_toBuffer s = Inr b \<and>
    (length b < 2147483648 \<longrightarrow>
     Script_fromBuffer b = Inr (new_Script\<lparr>chunks := map chunk_norm (chunks s)\<rparr>))"
proof -
  let ?cs = "map chunk_norm (chunks s)"
  have ok: "list_all chunk_ok ?cs" and eq: "enc_all chunk_enc ?cs = enc_all chunk_enc (chunks s)"
    using assms chunk_wf_norm by (auto simp: list_all_iff intro!: enc_all_map)
  then obtain b where b: "enc_all chunk_enc ?cs = Inr b" using chunk.enc_all_valid by blast
  have "Script_readChunks (new_BufferReader b) = Inr ?cs" if "length b < 2147483648"
    using readChunks_enc_all [OF ok b reads_new [OF that]] by (simp add: new_BufferReader_def)
  then show ?thesis using b eq by (auto simp: Script_toBuffer_eq fromBuffer_Inr)
qed

text \<open>
  every script whose chunks are well-formed prints to a buffer, and parsing that buffer gives
  the same chunks back, where the push of an empty buffer has become \<open>OP_0\<close>.
\<close>

theorem script_parse_print:
  assumes "list_all chunk_wf (chunks s)"
  shows "\<exists>b. Script_toBuffer s = Inr b \<and>
    (length b < 2147483648 \<longrightarrow>
     Script_fromBuffer b = Inr (new_Script\<lparr>chunks := map chunk_norm (chunks s)\<rparr>))"
  using assms by (rule parse_written)

lemma script_parse_print_witness:
  "\<exists>b. Script_toBuffer (new_Script\<lparr>chunks := [op_chunk 118, data_chunk 2 [7, 8] 2, data_chunk 0 [] 0]\<rparr>) = Inr b \<and>
     (length b < 2147483648 \<longrightarrow>
      Script_fromBuffer b = Inr (new_Script\<lparr>chunks := [op_chunk 118, data_chunk 2 [7, 8] 2, op_chunk 0]\<rparr>))"
  using script_parse_print [of "new_Script\<lparr>chunks := [op_chunk 118, data_chunk 2 [7, 8] 2, data_chunk 0 [] 0]\<rparr>"]
  by (simp add: chunk_wf_def chunk_ok_def chunk_norm_def op_is_def)

section \<open>Classification is total on parsed scripts\<close>

lemma length_slice_from:
  assumes "q \<le> length b" and "length b < 2147483648"
  shows "length (Buffer_slice b (int q) e) \<le> length b - q"
proof -
  have "toInt32 (int q) = int q" using assms by (simp add: int32_simps)
  then show ?thesis using assms by (simp add: Buffer_slice_def Let_def clamp_index_def)
qed

definition parsed_chunk :: "nat \<Rightarrow> chunk \<Rightarrow> bool" where
  "parsed_chunk n c \<longleftrightarrow> is_ok (chunk_enc c) \<and> (\<forall>b. cbuf c = Some b \<longrightarrow> length b < n)"

lemma readChunk_parsed:
  assumes "Script_readChunk br = Inr (c, br')" "length (rbuf br) < 2147483648" "rpos br < length (rbuf br)"
  shows "parsed_chunk (length (rbuf br)) c"
  using assms
proof (cases rule: readChunk_cases)
  case (op n)
  then show ?thesis by (simp add: parsed_chunk_def chunk_enc_op)
next
  case (push n l k)
  have "0 < k" using push(5) by (auto intro: gr0I)
  then have "length (fst (BufferReader_read (skip k br) l)) < length (rbuf br)"
    using length_slice_from [OF push(4), of "int (rpos br + k + l)"] assms push(4)
    by (simp add: read_skip)
  then show ?thesis
    using push(1,5) by (auto simp: parsed_chunk_def chunk_enc_data simp del: le_bytes_numeral)
qed

lemma readChunks_parsed:
  assumes "Script_readChunks br = Inr cs" and "length (rbuf br) < 2147483648"
  shows "list_all (parsed_chunk (length (rbuf br))) cs"
  using assms
proof (induction br arbitrary: cs rule: Script_readChunks.induct)
  case (1 br)
  show ?case
  proof (cases "BufferReader_finished br")
    case True
    then show ?thesis using "1.prems"(1) by (simp add: Script_readChunks.simps [of br])
  next
    case False
    with "1.prems"(1) obtain c br' ds where rc: "Script_readChunk br = Inr (c, br')"
      "Script_readChunks br' = Inr ds" "cs = c # ds"
      by (auto simp: Script_readChunks.simps [of br] rbind_eq_Inr)
    have "rbuf br' = rbuf br" using readChunk_advances [OF rc(1)] by auto
    with "1.IH" [OF False rc(1) refl rc(2)] "1.prems"(2) readChunk_parsed [OF rc(1)] False rc(3)
    show ?thesis by (simp add: BufferReader_finished_def not_le)
  qed
qed

lemma fromBuffer_parsed:
  assumes "Script_fromBuffer b = Inr s" "length b < 2147483648"
  shows "list_all (parsed_chunk (length b)) (chunks s)" "\<not> s_isInput s" "\<not> s_isOutput s"
  using assms readChunks_parsed [of "new_BufferReader b"]
  by (auto simp: fromBuffer_Inr new_BufferReader_def new_Script_def)

lemma enc_all_ok: "list_all (\<lambda>x. is_ok (enc x)) xs \<Longrightarrow> is_ok (enc_all enc xs)"
  by (induction xs) (auto elim!: is_okE)

lemma toBuffer_parsed: "list_all (parsed_chunk n) (chunks s) \<Longrightarrow> is_ok (Script_toBuffer s)"
  by (auto simp: Script_toBuffer_eq parsed_chunk_def list_all_iff intro!: enc_all_ok)

lemma classifyOutput_total: "is_ok (Script_toBuffer s) \<Longrightarrow> is_ok (Script_classifyOutput pk s)"
  by (auto simp: Script_classifyOutput_def Script_isScriptHashOut_def elim!: is_okE)

lemma classify_by_total:
  "is_ok (Script_toBuffer s) \<Longrightarrow> is_ok (hin s) \<Longrightarrow> is_ok (classify_by hin pk s)"
  using classifyOutput_total [of s pk]
  by (auto simp: classify_by_def classifyInput_by_def elim!: is_okE)

lemma redeem_depth_less:
  "list_all (parsed_chunk n) (chunks s) \<Longrightarrow> 0 < n \<Longrightarrow> redeem_depth s < n"
  by (auto simp: redeem_depth_def parsed_chunk_def list_all_iff split: option.splits dest: last_in_set)

text \<open>The fuel is enough: the script in a redeem buffer only holds shorter buffers.\<close>

lemma readers_error:
  "BufferReader_readUInt8 br = Inl e \<Longrightarrow> \<exists>m. e = RangeError m"
  "BufferReader_readUInt16LE br = Inl e \<Longrightarrow> \<exists>m. e = RangeError m"
  "BufferReader_readUInt32LE br = Inl e \<Longrightarrow> \<exists>m. e = RangeError m"
  by (auto simp: BufferReader_readUInt8_def BufferReader_readUInt16LE_def BufferReader_readUInt32LE_def
      advance_skip rbind_eq_Inl read_defs)

lemma readChunk_error: "Script_readChunk br = Inl e \<Longrightarrow> \<exists>m. e = RangeError m"
  by (auto simp: Script_readChunk_def rbind_eq_Inl read_skip split: if_splits dest: readers_error)

lemma fromBuffer_error: "Script_fromBuffer b = Inl e \<Longrightarrow> e = ScriptInvalidBuffer b"
proof -
  assume "Script_fromBuffer b = Inl e"
  moreover have "Script_readChunks br = Inl e' \<Longrightarrow> \<exists>m. e' = RangeError m" for br e'
  proof (induction br rule: Script_readChunks.induct)
    case (1 br)
    then show ?case
      by (auto simp: Script_readChunks.simps [of br] rbind_eq_Inl split: if_splits
          dest: readChunk_error)
  qed
  ultimately show ?thesis
    by (fastforce simp: Script_fromBuffer_def split: sum.splits js_error.splits)
qed

lemma isScriptHashIn_total:
  "redeem_depth s < 2147483648 \<Longrightarrow> Suc (redeem_depth s) < k \<Longrightarrow> is_ok (isScriptHashIn_fuel pk k s)"
proof (induction k arbitrary: s)
  case 0
  then show ?case by simp
next
  case (Suc k)
  show ?case
  proof (cases "length (chunks s) \<le> 1 \<or> cbuf (last (chunks s)) = None")
    case True
    then show ?thesis by auto
  next
    case False
    then obtain rb where rb: "cbuf (last (chunks s)) = Some rb" "length (chunks s) > 1" by auto
    then have d: "redeem_depth s = length rb" by (auto simp: redeem_depth_def)
    show ?thesis
    proof (cases "Script_fromBuffer rb")
      case (Inl e)
      with fromBuffer_error have "e = ScriptInvalidBuffer rb" by blast
      with Inl rb show ?thesis by simp
    next
      case (Inr rs)
      note p = fromBuffer_parsed [OF Inr] and len = Suc.prems [unfolded d]
      have "is_ok (isScriptHashIn_fuel pk k rs)"
      proof (cases "rb = []")
        case True
        have "Script_readChunks (new_BufferReader []) = Inr []"
          by (simp add: Script_readChunks.simps BufferReader_finished_def new_BufferReader_def)
        with True Inr have "chunks rs = []" by (auto simp: fromBuffer_Inr)
        moreover obtain j where "k = Suc j" using len by (cases k) auto
        ultimately show ?thesis by simp
      next
        case False
        then have "redeem_depth rs < length rb" using p(1) len redeem_depth_less by auto
        then show ?thesis using Suc.IH [of rs] len by simp
      qed
      then have "is_ok (classify_by (isScriptHashIn_fuel pk k) pk rs)"
        using toBuffer_parsed p(1) len by (intro classify_by_total) auto
      with Inr rb show ?thesis by (auto elim!: is_okE)
    qed
  qed
qed

text \<open>
  classifying a script that was parsed from a buffer of less than \<open>2 ^ 31\<close> bytes never throws:
  the recursion through redeem scripts ends, and every script it meets can be printed.
\<close>

theorem classify_total:
  assumes "Script_fromBuffer b = Inr s" and "length b < 2147483648"
  shows "\<exists>t. Script_classify pkvalid s = Inr t"
proof -
  note p = fromBuffer_parsed [OF assms]
  have "redeem_depth s < 2147483648"
    using redeem_depth_less [OF p(1)] p(1) assms(2) by (cases "b = []")
      (auto simp: redeem_depth_def parsed_chunk_def list_all_iff split: option.splits dest: last_in_set)
  then have "is_ok (Script_isScriptHashIn pkvalid s)"
    by (simp only: Script_isScriptHashIn_def) (rule isScriptHashIn_total, simp_all)
  then have "is_ok (Script_classify pkvalid s)"
    using toBuffer_parsed [OF p(1)] by (simp add: Script_classify_def classify_by_total)
  then show ?thesis by (auto elim: is_okE)
qed

lemma classify_total_witness:
  "\<exists>t. Script_classify (\<lambda>_. True) (new_Script\<lparr>chunks := [op_chunk 118, data_chunk 2 [7] 2]\<rparr>) = Inr t"
  by (rule classify_total [of "[118, 2, 7]"])
    (simp_all add: Script_fromBuffer_def Script_readChunks.simps Script_readChunk_def
      BufferReader_finished_def new_BufferReader_def BufferReader_readUInt8_def advance_skip
      readUInt8_eq read_take)

section \<open>Standard scripts\<close>

lemmas adds_defs = Script_add_def Script_addByType_def Script_addOpcode_def Script_addBuffer_def
  Script_insertAtPosition_def push_opcode_def new_Script_def

lemmas classify_defs = Script_classify_def classify_by_def Script_classifyOutput_def
  Script_isPublicKeyOut_def Script_isPublicKeyHashOut_def Script_isMultisigOut_def
  Script_isScriptHashOut_def Script_isDataOut_def op_is_def has_buf_def small_int_op_def Let_def

lemma enc_p2pkh:
  "length h = 20 \<Longrightarrow>
   Script_toBuffer \<lparr>chunks = [op_chunk 118, op_chunk 169, data_chunk 20 h 20, op_chunk 136, op_chunk 172],
      s_isInput = i, s_isOutput = u, s_network = n\<rparr> = Inr ([118, 169, 20] @ h @ [136, 172])"
  using chunk_enc_op [of 118] chunk_enc_op [of 169] chunk_enc_op [of 136] chunk_enc_op [of 172]
    chunk_enc_data(1) [of 20 h 20]
  by (simp add: Script_toBuffer_eq)

lemma enc_p2sh:
  "length h = 20 \<Longrightarrow>
   Script_toBuffer \<lparr>chunks = [op_chunk 169, data_chunk 20 h 20, op_chunk 135],
      s_isInput = i, s_isOutput = u, s_network = n\<rparr> = Inr ([169, 20] @ h @ [135])"
  using chunk_enc_op [of 169] chunk_enc_op [of 135] chunk_enc_data(1) [of 20 h 20]
  by (simp add: Script_toBuffer_eq)

lemma p2pkh_info:
  assumes "length h = 20"
  shows "Script_isScriptHashOut \<lparr>chunks = [op_chunk 118, op_chunk 169, data_chunk 20 h 20, op_chunk 136,
      op_chunk 172], s_isInput = False, s_isOutput = u, s_network = n\<rparr> = Inr False"
    and "Script_getAddressInfo pkvalid \<lparr>chunks = [op_chunk 118, op_chunk 169, data_chunk 20 h 20, op_chunk 136,
      op_chunk 172], s_isInput = False, s_isOutput = u, s_network = n\<rparr> = Inr (Some (h, PayToPublicKeyHash))"
proof -
  show "Script_isScriptHashOut \<lparr>chunks = [op_chunk 118, op_chunk 169, data_chunk 20 h 20, op_chunk 136,
      op_chunk 172], s_isInput = False, s_isOutput = u, s_network = n\<rparr> = Inr False"
    using enc_p2pkh [OF assms] assms by (simp add: Script_isScriptHashOut_def)
  then show "Script_getAddressInfo pkvalid \<lparr>chunks = [op_chunk 118, op_chunk 169, data_chunk 20 h 20,
      op_chunk 136, op_chunk 172], s_isInput = False, s_isOutput = u, s_network = n\<rparr> =
      Inr (Some (h, PayToPublicKeyHash))"
    using assms
    by (cases u) (simp_all add: Script_getAddressInfo_def Script_getOutputAddressInfo_def Script_getData_def
        Script_isPublicKeyHashOut_def Script_isDataOut_def op_is_def has_buf_def numeral_2_eq_2)
qed

lemma p2sh_info:
  assumes "length h = 20"
  shows "Script_isScriptHashOut \<lparr>chunks = [op_chunk 169, data_chunk 20 h 20, op_chunk 135],
      s_isInput = False, s_isOutput = u, s_network = n\<rparr> = Inr True"
    and "Script_getAddressInfo pkvalid \<lparr>chunks = [op_chunk 169, data_chunk 20 h 20, op_chunk 135],
      s_isInput = False, s_isOutput = u, s_network = n\<rparr> = Inr (Some (h, PayToScriptHash))"
proof -
  show "Script_isScriptHashOut \<lparr>chunks = [op_chunk 169, data_chunk 20 h 20, op_chunk 135],
      s_isInput = False, s_isOutput = u, s_network = n\<rparr> = Inr True"
    using enc_p2sh [OF assms] assms by (simp add: Script_isScriptHashOut_def nth_append)
  then show "Script_getAddressInfo pkvalid \<lparr>chunks = [op_chunk 169, data_chunk 20 h 20, op_chunk 135],
      s_isInput = False, s_isOutput = u, s_network = n\<rparr> = Inr (Some (h, PayToScriptHash))"
    by (cases u) (simp_all add: Script_getAddressInfo_def Script_getOutputAddressInfo_def Script_getData_def
        Script_isDataOut_def)
qed

text \<open>
  the pay-to-public-key-hash output built for a 20-byte hash has the expected 25 bytes, is
  classified as such whatever public keys are valid, and its address information is that hash.
\<close>

theorem build_p2pkh:
  assumes "length (hashBuffer dest) = 20"
  shows "\<exists>s. Script_buildPublicKeyHashOut dest = Inr s \<and>
    Script_toBuffer s = Inr ([118, 169, 20] @ hashBuffer dest @ [136, 172]) \<and>
    Script_classify pkvalid s = Inr PUBKEYHASH_OUT \<and>
    Script_getAddressInfo pkvalid s = Inr (Some (hashBuffer dest, PayToPublicKeyHash)) \<and>
    s_network s = Some (a_network dest)"
proof -
  let ?s = "\<lparr>chunks = [op_chunk 118, op_chunk 169, data_chunk 20 (hashBuffer dest) 20, op_chunk 136,
    op_chunk 172], s_isInput = False, s_isOutput = False, s_network = Some (a_network dest)\<rparr>"
  have "Script_buildPublicKeyHashOut dest = Inr ?s"
    using assms by (simp add: Script_buildPublicKeyHashOut_def adds_defs)
  moreover have b: "Script_toBuffer ?s = Inr ([118, 169, 20] @ hashBuffer dest @ [136, 172])"
    using assms by (rule enc_p2pkh)
  moreover have "Script_classify pkvalid ?s = Inr PUBKEYHASH_OUT"
    using assms by (simp add: classify_defs)
  moreover have "Script_getAddressInfo pkvalid ?s = Inr (Some (hashBuffer dest, PayToPublicKeyHash))"
    using assms by (rule p2pkh_info)
  ultimately show ?thesis by (intro exI [of _ ?s]) simp
qed

lemma build_p2pkh_witness:
  "length (hashBuffer \<lparr>hashBuffer = replicate 20 7, a_network = livenet, a_type = PayToPublicKeyHash\<rparr>) = 20 \<and>
   (\<exists>s. Script_buildPublicKeyHashOut \<lparr>hashBuffer = replicate 20 7, a_network = livenet,
           a_type = PayToPublicKeyHash\<rparr> = Inr s \<and> Script_classify (\<lambda>_. False) s = Inr PUBKEYHASH_OUT)"
  using build_p2pkh [of "\<lparr>hashBuffer = replicate 20 7, a_network = livenet, a_type = PayToPublicKeyHash\<rparr>"
      "\<lambda>_. False"]
  by auto

text \<open>
  the pay-to-script-hash output built for a printable script has the expected 23 bytes, is
  classified as such, and its address information is the hash of the script.
\<close>

theorem build_p2sh:
  assumes "Script_toBuffer redeem = Inr b"
  shows "\<exists>s. Script_buildScriptHashOut redeem = Inr s \<and>
    Script_toBuffer s = Inr ([169, 20] @ Hash_sha256ripemd160 b @ [135]) \<and>
    Script_classify pkvalid s = Inr SCRIPTHASH_OUT \<and>
    Script_getAddressInfo pkvalid s = Inr (Some (Hash_sha256ripemd160 b, PayToScriptHash))"
proof -
  let ?h = "Hash_sha256ripemd160 b"
  let ?s = "\<lparr>chunks = [op_chunk 169, data_chunk 20 ?h 20, op_chunk 135], s_isInput = False,
    s_isOutput = False, s_network = s_network redeem\<rparr>"
  have "Script_buildScriptHashOut redeem = Inr ?s"
    using assms by (simp add: Script_buildScriptHashOut_def hash_out_def adds_defs)
  moreover have b: "Script_toBuffer ?s = Inr ([169, 20] @ ?h @ [135])"
    by (rule enc_p2sh) simp
  note info = p2sh_info [of ?h, simplified]
  have "Script_classify pkvalid ?s = Inr SCRIPTHASH_OUT"
    by (simp add: info Script_classify_def classify_by_def Script_classifyOutput_def
        Script_isPublicKeyOut_def Script_isPublicKeyHashOut_def Script_isMultisigOut_def)
  moreover have "Script_getAddressInfo pkvalid ?s = Inr (Some (?h, PayToScriptHash))"
    by (simp add: info)
  ultimately show ?thesis using b by (intro exI [of _ ?s]) simp
qed

lemma build_p2sh_witness:
  "\<exists>s. Script_buildScriptHashOut new_Script = Inr s \<and> Script_classify (\<lambda>_. False) s = Inr SCRIPTHASH_OUT"
  using build_p2sh [of new_Script "[]" "\<lambda>_. False"] by (auto simp: Script_toBuffer_eq new_Script_def)

lemma adds_append: "Script_adds s (as @ bs) = rbind (Script_adds s as) (\<lambda>s. Script_adds s bs)"
  by (induction as arbitrary: s) (simp_all add: rbind_assoc)

definition push_chunk :: "bytes \<Rightarrow> chunk" where
  "push_chunk b =
     data_chunk (if length b < 76 then length b else if length b < 256 then 76
                 else if length b < 65536 then 77 else 78) b (length b)"

lemma addBuffer_eq:
  "length b < 4294967296 \<Longrightarrow> Script_add s (ArgBuffer b) = Inr (s\<lparr>chunks := chunks s @ [push_chunk b]\<rparr>)"
  by (simp add: adds_defs push_chunk_def)

lemma adds_buffers:
  "list_all (\<lambda>b. length b < 4294967296) bs \<Longrightarrow>
   Script_adds s (map ArgBuffer bs) = Inr (s\<lparr>chunks := chunks s @ map push_chunk bs\<rparr>)"
  by (induction bs arbitrary: s) (simp_all add: addBuffer_eq)

lemma smallInt_eq: "n \<le> 16 \<Longrightarrow> Opcode_smallInt (int n) = Inr (if n = 0 then 0 else 80 + n)"
  by (auto simp: Opcode_smallInt_def)

lemma sigops_skip:
  "list_all (\<lambda>c. \<not> op_is c OP_CHECKSIG \<and> \<not> op_is c OP_CHECKSIGVERIFY \<and> \<not> op_is c OP_CHECKMULTISIG \<and>
     \<not> op_is c OP_CHECKMULTISIGVERIFY) cs \<Longrightarrow>
   sigops_loop acc l n (cs @ c # ds) = sigops_loop acc (if cs = [] then l else opcodenum (last cs)) n (c # ds)"
  by (induction cs arbitrary: l) (auto simp del: sigops_loop.simps(2) simp: sigops_loop.simps(2) [of _ _ _ _ "_ @ _"])

text \<open>
  the multisig output built for up to 16 keys and a threshold not above their number consists of
  the threshold, the keys sorted by their hexadecimal form, their number and
  \<open>OP_CHECKMULTISIG\<close>; it is classified as a multisig output and counts as many signature
  operations as it has keys.
\<close>

theorem build_multisig:
  assumes "m \<le> length pks" and "0 < length pks" and "length pks \<le> 16"
    and "list_all (\<lambda>k. length k < 4294967296) pks"
  shows "\<exists>s ks. Script_buildMultisigOut pks (int m) False = Inr s \<and>
    chunks s = op_chunk (if m = 0 then 0 else 80 + m) # map push_chunk ks
               @ [op_chunk (80 + length pks), op_chunk OP_CHECKMULTISIG] \<and>
    mset ks = mset pks \<and> sorted (map hexSlice ks) \<and>
    Script_classify pkvalid s = Inr MULTISIG_OUT \<and>
    Script_getSignatureOperationsCount s True = Inr (length pks)"
proof -
  define ks where "ks = sort_key hexSlice pks"
  define mo where "mo = (if m = 0 then 0 else 80 + m)"
  define s where "s = new_Script\<lparr>chunks := op_chunk mo # map push_chunk ks
    @ [op_chunk (80 + length pks), op_chunk OP_CHECKMULTISIG]\<rparr>"
  have lk: "length ks = length pks" "mset ks = mset pks" "set ks = set pks"
    by (simp_all add: ks_def)
  have "list_all (\<lambda>k. length k < 4294967296) ks" using assms(4) lk(3) by (simp add: list_all_iff)
  then have build: "Script_buildMultisigOut pks (int m) False = Inr s"
    using assms
    by (simp add: Script_buildMultisigOut_def smallInt_eq adds_buffers ks_def [symmetric] s_def mo_def)
      (simp add: adds_defs adds_buffers)
  have nth: "(op_chunk mo # map push_chunk ks @ [a, z]) ! (Suc (length ks)) = a"
    "(op_chunk mo # map push_chunk ks @ [a, z]) ! (Suc (Suc (length ks))) = z" for a z
    by (simp_all add: nth_append)
  have mo: "Opcode_isSmallIntOp mo" "mo \<le> 96" "Opcode_isSmallIntOp (80 + length pks)"
    using assms by (auto simp: mo_def Opcode_isSmallIntOp_def Suc_le_eq)
  have "Script_isMultisigOut s"
    using assms(2) mo lk nth
    by (simp add: Script_isMultisigOut_def s_def Let_def small_int_op_def op_is_def list_all_iff
        push_chunk_def)
  moreover have "\<not> Script_isPublicKeyOut pkvalid s" "\<not> Script_isPublicKeyHashOut s"
    using assms(2) lk mo by (auto simp: Script_isPublicKeyOut_def Script_isPublicKeyHashOut_def s_def
        op_is_def split: list.splits)
  ultimately have cl: "Script_classify pkvalid s = Inr MULTISIG_OUT"
    by (simp add: Script_classify_def classify_by_def Script_classifyOutput_def s_def new_Script_def)
  have "sorted (map hexSlice ks)" by (simp add: ks_def)
  moreover have "Script_getSignatureOperationsCount s True = Inr (length pks)"
  proof -
    have "list_all (\<lambda>c. \<not> op_is c OP_CHECKSIG \<and> \<not> op_is c OP_CHECKSIGVERIFY \<and>
        \<not> op_is c OP_CHECKMULTISIG \<and> \<not> op_is c OP_CHECKMULTISIGVERIFY)
        (op_chunk mo # map push_chunk ks @ [op_chunk (80 + length pks)])"
      using mo(2) assms(3) by (auto simp: list_all_iff op_is_def push_chunk_def)
    from sigops_skip [OF this, of True _ _ "op_chunk OP_CHECKMULTISIG" "[]"] show ?thesis
      using assms(2,3)
      by (simp add: Script_getSignatureOperationsCount_def s_def op_is_def Script_decodeOP_N_def)
  qed
  ultimately show ?thesis using build cl lk by (auto simp: s_def mo_def)
qed

lemma build_multisig_witness:
  "\<exists>s ks. Script_buildMultisigOut [[3, 1], [2, 9]] (int 1) False = Inr s \<and>
     chunks s = op_chunk 81 # map push_chunk ks @ [op_chunk 82, op_chunk OP_CHECKMULTISIG] \<and>
     Script_classify (\<lambda>_. True) s = Inr MULTISIG_OUT"
  using build_multisig [of 1 "[[3, 1], [2, 9]]" "\<lambda>_. True"] by auto

text \<open>
  counting signature operations never fails, the accurate count is at most the legacy count, and
  the legacy count is at most 20 per chunk.
\<close>

theorem sigops_bounds:
  "\<exists>a i. Script_getSignatureOperationsCount s True = Inr a \<and>
    Script_getSignatureOperationsCount s False = Inr i \<and> a \<le> i \<and> i \<le> 20 * length (chunks s)"
proof -
  have "\<exists>a i. sigops_loop True l x cs = Inr a \<and> sigops_loop False l y cs = Inr i \<and>
      a \<le> i \<and> i \<le> y + 20 * length cs" if "x \<le> y" for l x y cs
    using that
  proof (induction cs arbitrary: l x y)
    case Nil
    then show ?case by simp
  next
    case (Cons c cs)
    show ?case
    proof (cases "op_is c OP_CHECKMULTISIG \<or> op_is c OP_CHECKMULTISIGVERIFY")
      case True
      then have ns: "\<not> op_is c OP_CHECKSIG" "\<not> op_is c OP_CHECKSIGVERIFY" by (auto simp: op_is_def)
      define k where "k = (case l of None \<Rightarrow> 20 | Some n \<Rightarrow> if 81 \<le> n \<and> n \<le> 96 then n - 80 else 20)"
      have k: "k \<le> 20" "sigops_loop True l x (c # cs) = sigops_loop True (opcodenum c) (x + k) cs"
        using True ns by (auto simp: k_def Script_decodeOP_N_def split: option.splits)
      have "sigops_loop False l y (c # cs) = sigops_loop False (opcodenum c) (y + 20) cs"
        using True ns by (auto split: option.splits)
      then show ?thesis using Cons.IH [of "x + k" "y + 20" "opcodenum c"] Cons.prems k by auto
    next
      case False
      define k :: nat where "k = (if op_is c OP_CHECKSIG \<or> op_is c OP_CHECKSIGVERIFY then 1 else 0)"
      have "sigops_loop acc l z (c # cs) = sigops_loop acc (opcodenum c) (z + k) cs" for acc z
        using False by (auto simp: k_def)
      moreover have "k \<le> 1" by (simp add: k_def)
      ultimately show ?thesis using Cons.IH [of "x + k" "y + k" "opcodenum c"] Cons.prems by auto
    qed
  qed
  from this [of 0 0 "Some 255" "chunks s"] show ?thesis
    by (simp add: Script_getSignatureOperationsCount_def)
qed

text \<open>
  the push that \<open>add\<close> chooses for a buffer passes \<open>checkMinimalPush\<close>, except for the
  one-byte buffers that have an opcode of their own (1 to 16 and 0x81).
\<close>

theorem addBuffer_minimal:
  assumes "length b < 4294967296"
  shows "\<exists>s'. Script_add s (ArgBuffer b) = Inr s' \<and>
    (Script_checkMinimalPush s' (length (chunks s)) = Inr True \<longleftrightarrow>
     \<not> (length b = 1 \<and> (1 \<le> unat (b ! 0) \<and> unat (b ! 0) \<le> 16 \<or> b ! 0 = 0x81)))"
proof -
  have "minimal_push (push_chunk b) \<longleftrightarrow>
      \<not> (length b = 1 \<and> (1 \<le> unat (b ! 0) \<and> unat (b ! 0) \<le> 16 \<or> b ! 0 = 0x81))"
    by (auto simp: minimal_push_def push_chunk_def op_is_def)
  then show ?thesis
    using addBuffer_eq [OF assms, of s] by (simp add: Script_checkMinimalPush_def nth_append)
qed

lemma addBuffer_minimal_witness:
  "\<exists>s'. Script_add new_Script (ArgBuffer [7, 7]) = Inr s' \<and> Script_checkMinimalPush s' 0 = Inr True"
  using addBuffer_minimal [of "[7, 7]" new_Script] by (auto simp: new_Script_def)

section \<open>Deleting chunks\<close>

lemma toBuffer_single: "Script_toBuffer (Script_set new_Script [c]) = chunk_enc c"
  by (cases "chunk_enc c") (simp_all add: Script_toBuffer_eq Script_set_def)

lemma findAndDelete_loop_filter:
  assumes "list_all (\<lambda>c. is_ok (chunk_enc c)) cs"
    and "successively (\<lambda>c d. \<not> (chunk_enc c = Inr b \<and> chunk_enc d = Inr b)) cs"
  shows "findAndDelete_loop (hexSlice b) cs = Inr (filter (\<lambda>c. chunk_enc c \<noteq> Inr b) cs)"
  using assms
proof (induction "hexSlice b" cs rule: findAndDelete_loop.induct)
  case 1
  then show ?case by simp
next
  case (2 c cs)
  from "2.prems" obtain e where e: "chunk_enc c = Inr e" by (auto elim: is_okE)
  show ?case
  proof (cases "e = b")
    case True
    show ?thesis
    proof (cases cs)
      case Nil
      then show ?thesis using e True by (simp add: toBuffer_single)
    next
      case (Cons c' cs')
      have "chunk_enc c' \<noteq> Inr b" using "2.prems"(2) e True by (simp add: Cons)
      moreover have "successively (\<lambda>c d. \<not> (chunk_enc c = Inr b \<and> chunk_enc d = Inr b)) cs'"
        using "2.prems"(2) by (cases cs') (simp_all add: Cons)
      ultimately show ?thesis
        using "2.hyps"(1) [of e c' cs'] "2.prems"(1) e True by (simp add: toBuffer_single Cons)
    qed
  next
    case False
    moreover have "successively (\<lambda>c d. \<not> (chunk_enc c = Inr b \<and> chunk_enc d = Inr b)) cs"
      using "2.prems"(2) by (cases cs) simp_all
    ultimately show ?thesis
      using "2.hyps"(2) [of e] "2.prems"(1) e by (simp add: toBuffer_single hexSlice_inj)
  qed
qed

text \<open>
  when no two neighbouring chunks are written as the buffer to delete, \<open>findAndDelete\<close> removes
  exactly the chunks that are written as it.
\<close>

theorem findAndDelete_filter:
  assumes "list_all (\<lambda>c. is_ok (chunk_enc c)) (chunks s)" and "Script_toBuffer t = Inr b"
    and "successively (\<lambda>c d. \<not> (chunk_enc c = Inr b \<and> chunk_enc d = Inr b)) (chunks s)"
  shows "Script_findAndDelete s t = Inr (s\<lparr>chunks := filter (\<lambda>c. chunk_enc c \<noteq> Inr b) (chunks s)\<rparr>)"
  using assms by (simp add: Script_findAndDelete_def findAndDelete_loop_filter)

lemma findAndDelete_filter_witness:
  "Script_findAndDelete (new_Script\<lparr>chunks := [data_chunk 1 [5] 1, op_chunk 172, data_chunk 1 [5] 1]\<rparr>)
     (new_Script\<lparr>chunks := [data_chunk 1 [5] 1]\<rparr>) = Inr (new_Script\<lparr>chunks := [op_chunk 172]\<rparr>)"
  using findAndDelete_filter [of "new_Script\<lparr>chunks := [data_chunk 1 [5] 1, op_chunk 172, data_chunk 1 [5] 1]\<rparr>"
      "new_Script\<lparr>chunks := [data_chunk 1 [5] 1]\<rparr>" "[1, 5]"]
    chunk_enc_op [of 172] chunk_enc_data(1) [of 1 "[5]" 1]
  by (simp add: Script_toBuffer_eq)

text \<open>
  of two neighbouring chunks to delete, \<open>findAndDelete\<close> keeps the second: after a removal the
  loop passes over the chunk that moved into its place.
\<close>

theorem findAndDelete_misses_adjacent:
  assumes "Script_toBuffer t = Inr b" and "chunk_enc c = Inr b"
  shows "Script_findAndDelete (new_Script\<lparr>chunks := [c, c]\<rparr>) t = Inr (new_Script\<lparr>chunks := [c]\<rparr>)"
  using assms by (simp add: Script_findAndDelete_def toBuffer_single)

lemma findAndDelete_misses_adjacent_witness:
  "Script_findAndDelete (new_Script\<lparr>chunks := [op_chunk 172, op_chunk 172]\<rparr>)
     (new_Script\<lparr>chunks := [op_chunk 172]\<rparr>) = Inr (new_Script\<lparr>chunks := [op_chunk 172]\<rparr>)"
  using findAndDelete_misses_adjacent [of "new_Script\<lparr>chunks := [op_chunk 172]\<rparr>" "[172]" "op_chunk 172"]
    chunk_enc_op [of 172]
  by (simp add: Script_toBuffer_eq)

section \<open>Strings\<close>

definition join_tokens :: "string list \<Rightarrow> string" where
  "join_tokens ts = concat (map (\<lambda>t. CHR '' '' # t) ts)"

lemma join_tokens_simps [simp]:
  "join_tokens [] = []" "join_tokens (t # ts) = CHR '' '' # t @ join_tokens ts"
  "join_tokens (ss @ ts) = join_tokens ss @ join_tokens ts"
  by (simp_all add: join_tokens_def)

lemma split_join_tokens:
  assumes "ts \<noteq> []" and "list_all (\<lambda>t. CHR '' '' \<notin> set t) ts"
  shows "js_split (CHR '' '') (drop 1 (join_tokens ts)) = ts"
  using assms
proof (induction ts)
  case Nil
  then show ?case by simp
next
  case (Cons t ts)
  then show ?case
    by (cases ts) (simp_all add: js_split_single js_split_append)
qed

definition printable :: "chunk \<Rightarrow> bool" where
  "printable c \<longleftrightarrow>
     chunk_ok c \<and>
     (case cbuf c of
        None \<Rightarrow> (case opcodenum c of None \<Rightarrow> False | Some n \<Rightarrow> Opcode_reverseMap n \<noteq> None)
      | Some b \<Rightarrow> b \<noteq> [])"

lemma Opcode_names: "list_all (\<lambda>(s, _). take 3 s = ''OP_'' \<and> CHR '' '' \<notin> set s) Opcode_map"
  by (simp add: Opcode_map_def)

lemma reverseMap_name:
  assumes "Opcode_reverseMap n = Some nm"
  shows "map_of Opcode_map nm = Some n" "take 3 nm = ''OP_''" "CHR '' '' \<notin> set nm"
proof -
  have m: "(nm, n) \<in> set Opcode_map"
    using reverse_table_Some [of Opcode_map Map.empty n nm] assms by (simp add: Opcode_reverseMap_def)
  then show "map_of Opcode_map nm = Some n" using Opcode_map_distinct_names by simp
  show "take 3 nm = ''OP_''" "CHR '' '' \<notin> set nm"
    using m Opcode_names by (auto simp: list_all_iff)
qed

lemma not_opcode: "take 3 s \<noteq> ''OP_'' \<Longrightarrow> map_of Opcode_map s = None"
  using Opcode_names by (fastforce simp: list_all_iff map_of_eq_None_iff)

lemma reverseMap_dom: "v \<in> snd ` set Opcode_map \<Longrightarrow> \<exists>nm. Opcode_reverseMap v = Some nm"
  using reverse_table_dom [of v Map.empty Opcode_map] by (auto simp: Opcode_reverseMap_def)

lemma pushdata_named: "is_pushdata n \<Longrightarrow> \<exists>nm. Opcode_reverseMap n = Some nm"
  by (rule reverseMap_dom) (auto simp: is_pushdata_def Opcode_map_def)

definition chunk_tokens :: "chunk \<Rightarrow> string list" where
  "chunk_tokens c =
     (let n = (case opcodenum c of None \<Rightarrow> 0 | Some n \<Rightarrow> n);
          nm = (case Opcode_reverseMap n of None \<Rightarrow> [] | Some nm \<Rightarrow> nm)
      in case cbuf c of
           None \<Rightarrow> [nm]
         | Some b \<Rightarrow> (if n < 76 then [] else [nm]) @ [dec_string (length b), ''0x'' @ hexSlice b])"

lemma chunkToString_tokens:
  assumes "printable c"
  shows "Script_chunkToString c False = Inr (join_tokens (chunk_tokens c))"
proof -
  from assms have "chunk_ok c" by (simp add: printable_def)
  then show ?thesis
  proof (cases rule: chunk_okE)
    case (op n)
    with assms show ?thesis
      by (auto simp: printable_def Script_chunkToString_def chunk_tokens_def)
  next
    case (direct b)
    with assms show ?thesis
      by (auto simp: printable_def Script_chunkToString_def chunk_tokens_def)
  next
    case (pd1 b)
    with assms pushdata_named [of 76] show ?thesis
      by (auto simp: printable_def Script_chunkToString_def chunk_tokens_def is_pushdata_def Opcode_toString_def)
  next
    case (pd2 b)
    with assms pushdata_named [of 77] show ?thesis
      by (auto simp: printable_def Script_chunkToString_def chunk_tokens_def is_pushdata_def Opcode_toString_def)
  next
    case (pd4 b)
    with assms pushdata_named [of 78] show ?thesis
      by (auto simp: printable_def Script_chunkToString_def chunk_tokens_def is_pushdata_def Opcode_toString_def)
  qed
qed

lemma chunksToString_tokens:
  "list_all printable cs \<Longrightarrow>
   Script_chunksToString cs False = Inr (join_tokens (concat (map chunk_tokens cs)))"
  by (induction cs) (simp_all add: chunkToString_tokens)

lemma dec_digit_char: "dec_digit c \<noteq> None \<Longrightarrow> \<not> js_space c \<and> c \<noteq> CHR '' '' \<and> c \<noteq> CHR ''x'' \<and>
    c \<noteq> CHR ''X'' \<and> c \<noteq> CHR ''O'' \<and> c \<noteq> CHR ''-'' \<and> c \<noteq> CHR ''+''"
  by (auto simp: dec_digit_def js_space_def Let_def split: if_splits)

lemma dec_string_chars: "c \<in> set (dec_string n) \<Longrightarrow> dec_digit c \<noteq> None"
  using dec_string_digits [of n] by (auto simp: list_all_iff)

lemma parseInt_dec_string:
  assumes "n < 9007199254740992"
  shows "js_parseInt (dec_string n) = Some (int n)"
proof -
  obtain h t where ht: "dec_string n = h # t" by (cases "dec_string n") auto
  then have h: "dec_digit h \<noteq> None" using dec_string_chars [of h n] by simp
  have "\<not> (take 2 (dec_string n) = ''0x'' \<or> take 2 (dec_string n) = ''0X'')"
    using dec_string_chars [of "CHR ''x''" n] dec_string_chars [of "CHR ''X''" n]
      set_take_subset [of 2 "dec_string n"]
    by (auto simp: dec_digit_def)
  then have "parse_radix (dec_string n) = Some n" by (simp add: parse_radix_def parse_dec_string)
  then show ?thesis
    using h dec_digit_char [of h] assms unfolding ht
    by (auto simp: js_parseInt_def Let_def double_round_nat_def)
qed

lemma dec_string_not_opcode: "map_of Opcode_map (dec_string n) = None"
proof (rule not_opcode)
  show "take 3 (dec_string n) \<noteq> ''OP_''"
    using dec_string_chars [of "CHR ''O''" n] set_take_subset [of 3 "dec_string n"]
    by (auto simp: dec_digit_def)
qed

lemma hexSlice_chars: "c \<in> set (hexSlice b) \<Longrightarrow> hex_digit c \<noteq> None"
proof (induction b)
  case (Cons x b)
  have "unat x div 16 < 16" using byte_less [of x] by (simp only: less_mult_imp_div_less)
  with Cons show ?case by (auto simp: toHexEx_digits hex_digit_hex_char)
qed simp

lemma isHexa_hexSlice:
  assumes "b \<noteq> []"
  shows "isHexa (hexSlice b)"
proof -
  have "hexSlice b \<noteq> []" using assms length_hexSlice [of b] by (auto simp del: length_hexSlice)
  then show ?thesis using hexSlice_chars by (auto simp: isHexa_def list_all_iff)
qed

lemma tokens_no_space:
  assumes "printable c"
  shows "list_all (\<lambda>t. CHR '' '' \<notin> set t) (chunk_tokens c)"
proof -
  have nm: "CHR '' '' \<notin> set nm" if "Opcode_reverseMap n = Some nm" for n nm
    using reverseMap_name(3) [OF that] .
  have "CHR '' '' \<notin> set (dec_string n)" for n
    using dec_string_chars [of "CHR '' ''" n] by (auto simp: dec_digit_def)
  moreover have "CHR '' '' \<notin> set (hexSlice b)" for b
    using hexSlice_chars [of "CHR '' ''" b] by (auto simp: hex_digit_def)
  ultimately show ?thesis
    using nm by (auto simp: chunk_tokens_def Let_def split: option.splits)
qed

lemma fromString_tokens_chunk:
  assumes "printable c"
  shows "fromString_tokens (chunk_tokens c @ ts) = rbind (fromString_tokens ts) (\<lambda>cs. Inr (c # cs))"
proof -
  have pd: "fromString_tokens (chunk_tokens c @ ts) = rbind (fromString_tokens ts) (\<lambda>cs. Inr (c # cs))"
    if n: "is_pushdata n" "c = data_chunk n b (length b)" "length b < 2147483648" for n b
  proof -
    obtain nm where nm: "Opcode_reverseMap n = Some nm" using pushdata_named [OF n(1)] by blast
    have "\<not> n < 76" using n(1) by (auto simp: is_pushdata_def)
    then show ?thesis
      using n nm reverseMap_name(1) [OF nm]
      by (simp add: chunk_tokens_def parseInt_dec_string Buffer_from_hex_hexSlice)
  qed
  from assms have "chunk_ok c" by (simp add: printable_def)
  then show ?thesis
  proof (cases rule: chunk_okE)
    case (op n)
    with assms obtain nm where nm: "Opcode_reverseMap n = Some nm" by (auto simp: printable_def)
    then show ?thesis
      using op reverseMap_name(1) [OF nm] by (auto simp: chunk_tokens_def is_pushdata_def)
  next
    case (direct b)
    with assms show ?thesis
      by (simp add: chunk_tokens_def dec_string_not_opcode parseInt_dec_string Buffer_from_hex_hexSlice)
  next
    case (pd1 b) then show ?thesis by (intro pd [of 76 b]) (simp_all add: is_pushdata_def)
  next
    case (pd2 b) then show ?thesis by (intro pd [of 77 b]) (simp_all add: is_pushdata_def)
  next
    case (pd4 b) then show ?thesis by (intro pd [of 78 b]) (simp_all add: is_pushdata_def)
  qed
qed

lemma fromString_tokens_chunks:
  "list_all printable cs \<Longrightarrow> fromString_tokens (concat (map chunk_tokens cs)) = Inr cs"
  by (induction cs) (simp_all add: fromString_tokens_chunk)


lemma tokens_not_hexa:
  assumes "printable c"
  shows "\<exists>t \<in> set (chunk_tokens c). \<exists>ch \<in> set t. hex_digit ch = None"
proof (cases "cbuf c")
  case (Some b)
  have "CHR ''x'' \<in> set (''0x'' @ hexSlice b)" "hex_digit (CHR ''x'') = None"
    by (simp_all add: hex_digit_def)
  moreover have "''0x'' @ hexSlice b \<in> set (chunk_tokens c)"
    using Some by (simp add: chunk_tokens_def Let_def)
  ultimately show ?thesis by blast
next
  case None
  with assms obtain n nm where nm: "opcodenum c = Some n" "Opcode_reverseMap n = Some nm"
    by (auto simp: printable_def split: option.splits)
  have "CHR ''O'' \<in> set (take 3 nm)" by (simp add: reverseMap_name(2) [OF nm(2)])
  then have "CHR ''O'' \<in> set nm" by (rule in_set_takeD)
  moreover have "hex_digit (CHR ''O'') = None" by (simp add: hex_digit_def)
  moreover have "nm \<in> set (chunk_tokens c)" using None nm by (simp add: chunk_tokens_def Let_def)
  ultimately show ?thesis by blast
qed

lemma set_join_tokens: "t \<in> set ts \<Longrightarrow> ch \<in> set t \<Longrightarrow> ch \<in> set (drop 1 (join_tokens ts))"
  by (cases ts) (auto simp: join_tokens_def)

text \<open>
  a script whose chunks are well-formed, whose opcodes have names and whose pushes are not empty
  is printed by \<open>toString\<close> as a string that \<open>fromString\<close> parses to the same chunks.
\<close>

theorem script_string_roundtrip:
  assumes "list_all printable (chunks s)"
  shows "\<exists>str. Script_toString s = Inr str \<and>
    Script_fromString str = Inr (new_Script\<lparr>chunks := chunks s\<rparr>)"
proof (cases "chunks s = []")
  case True
  have "Script_readChunks (new_BufferReader []) = Inr []"
    by (simp add: Script_readChunks.simps BufferReader_finished_def new_BufferReader_def)
  then have "Script_fromString [] = Inr (new_Script\<lparr>chunks := []\<rparr>)"
    by (simp add: Script_fromString_def Script_fromBuffer_def)
  with True show ?thesis by (simp add: Script_toString_def)
next
  case False
  let ?ts = "concat (map chunk_tokens (chunks s))"
  let ?str = "drop 1 (join_tokens ?ts)"
  obtain c cs where c: "chunks s = c # cs" using False by (cases "chunks s") auto
  then have "printable c" using assms by simp
  from tokens_not_hexa [OF this] obtain t ch where t: "t \<in> set ?ts" "ch \<in> set t" "hex_digit ch = None"
    by (auto simp: c)
  from set_join_tokens [OF t(1,2)] t(3) have "\<not> isHexa ?str" "?str \<noteq> []"
    by (auto simp: isHexa_def list_all_iff)
  moreover have "?ts \<noteq> []" using t(1) by (metis empty_iff list.set(1))
  then have "js_split (CHR '' '') ?str = ?ts"
    using assms tokens_no_space by (intro split_join_tokens) (auto simp: list_all_iff)
  ultimately have "Script_fromString ?str = Inr (new_Script\<lparr>chunks := chunks s\<rparr>)"
    using assms by (simp add: Script_fromString_def fromString_tokens_chunks)
  moreover have "Script_toString s = Inr ?str"
    using assms by (simp add: Script_toString_def chunksToString_tokens)
  ultimately show ?thesis by blast
qed

lemma script_string_roundtrip_witness:
  "\<exists>str. Script_toString (new_Script\<lparr>chunks := [data_chunk 2 [7, 8] 2]\<rparr>) = Inr str \<and>
     Script_fromString str = Inr (new_Script\<lparr>chunks := [data_chunk 2 [7, 8] 2]\<rparr>)"
  using script_string_roundtrip [of "new_Script\<lparr>chunks := [data_chunk 2 [7, 8] 2]\<rparr>"]
  by (simp add: printable_def chunk_ok_def)

end
