(* ===== verification/Interpreter.thy ===== *)
theory Interpreter
  imports ScriptProps
begin

unbundle bit_operations_syntax

text \<open>
  The script interpreter (\<open>Interpreter\<close> in magnachain.js): its state, the encoding checks,
  one definition per group of opcodes of \<open>step\<close>, the loop of \<open>evaluate\<close> and \<open>verify\<close>.
  A stack is a list with its top first, so \<open>stack[stack.length - k]\<close> is the element at
  position \<open>k - 1\<close>; \<open>vfExec\<close> is kept the same way.  A step goes on, fails with \<open>errstr\<close>
  set, or throws; the three outcomes carry the state the code leaves behind.
\<close>

section \<open>State\<close>

record interp =
  i_script :: script
  i_stack :: "bytes list"
  i_altstack :: "bytes list"
  i_pc :: nat
  i_pbegincodehash :: nat
  i_nOpCount :: nat
  i_vfExec :: "bool list"
  i_errstr :: string
  i_flags :: nat

text \<open>
  What the interpreter asks of the transaction and of the public keys: \<open>PublicKey.isValid\<close>,
  \<open>PublicKey.fromBuffer(buf, false)\<close> followed by \<open>tx.verifySignature\<close> for the input that is
  verified, the lock time of the transaction, and \<open>tx.inputs[nin].isFinal()\<close>.
\<close>

record tx_env =
  pkvalid :: "bytes \<Rightarrow> bool"
  verifySignature :: "signature \<Rightarrow> bytes \<Rightarrow> script \<Rightarrow> bool result"
  nLockTime :: nat
  inputIsFinal :: "bool result"

datatype step_result = SOk interp | SFail interp | SThrow js_error interp

definition fail :: "string \<Rightarrow> interp \<Rightarrow> step_result" where
  "fail e st = SFail (st\<lparr>i_errstr := e\<rparr>)"

definition Interpreter_initialize :: "interp \<Rightarrow> interp" where
  "Interpreter_initialize st =
     st\<lparr>i_stack := [], i_altstack := [], i_pc := 0, i_pbegincodehash := 0, i_nOpCount := 0,
        i_vfExec := [], i_errstr := [], i_flags := 0\<rparr>"

text \<open>\<open>set\<close> with a script, flags and possibly a stack, the only calls that the code makes.\<close>

definition Interpreter_set :: "interp \<Rightarrow> script \<Rightarrow> bytes list option \<Rightarrow> nat \<Rightarrow> interp" where
  "Interpreter_set st s stack flags =
     (let st = st\<lparr>i_script := s, i_flags := flags\<rparr>
      in case stack of None \<Rightarrow> st | Some k \<Rightarrow> st\<lparr>i_stack := k\<rparr>)"

abbreviation (input) SCRIPT_VERIFY_P2SH :: nat where "SCRIPT_VERIFY_P2SH \<equiv> 1"
abbreviation (input) SCRIPT_VERIFY_STRICTENC :: nat where "SCRIPT_VERIFY_STRICTENC \<equiv> 2"
abbreviation (input) SCRIPT_VERIFY_DERSIG :: nat where "SCRIPT_VERIFY_DERSIG \<equiv> 4"
abbreviation (input) SCRIPT_VERIFY_LOW_S :: nat where "SCRIPT_VERIFY_LOW_S \<equiv> 8"
abbreviation (input) SCRIPT_VERIFY_NULLDUMMY :: nat where "SCRIPT_VERIFY_NULLDUMMY \<equiv> 16"
abbreviation (input) SCRIPT_VERIFY_SIGPUSHONLY :: nat where "SCRIPT_VERIFY_SIGPUSHONLY \<equiv> 32"
abbreviation (input) SCRIPT_VERIFY_MINIMALDATA :: nat where "SCRIPT_VERIFY_MINIMALDATA \<equiv> 64"
abbreviation (input) SCRIPT_VERIFY_DISCOURAGE_UPGRADABLE_NOPS :: nat
  where "SCRIPT_VERIFY_DISCOURAGE_UPGRADABLE_NOPS \<equiv> 128"
abbreviation (input) SCRIPT_VERIFY_CHECKLOCKTIMEVERIFY :: nat
  where "SCRIPT_VERIFY_CHECKLOCKTIMEVERIFY \<equiv> 512"

definition has_flag :: "nat \<Rightarrow> nat \<Rightarrow> bool" where
  "has_flag flags f \<longleftrightarrow> flags AND f \<noteq> 0"

abbreviation (input) Interpreter_true :: bytes where "Interpreter_true \<equiv> [1]"
abbreviation (input) Interpreter_false :: bytes where "Interpreter_false \<equiv> []"
abbreviation (input) MAX_SCRIPT_ELEMENT_SIZE :: nat where "MAX_SCRIPT_ELEMENT_SIZE \<equiv> 520"
abbreviation (input) LOCKTIME_THRESHOLD :: nat where "LOCKTIME_THRESHOLD \<equiv> 500000000"

definition bool_buf :: "bool \<Rightarrow> bytes" where
  "bool_buf b = (if b then Interpreter_true else Interpreter_false)"

section \<open>Checks\<close>

fun Interpreter_castToBool :: "bytes \<Rightarrow> bool" where
  "Interpreter_castToBool [] = False"
| "Interpreter_castToBool (b # bs) =
     (if b \<noteq> 0 then (if bs = [] \<and> b = 0x80 then False else True)
      else Interpreter_castToBool bs)"

text \<open>\<open>Inr None\<close> is the result true, \<open>Inr (Some errstr)\<close> the result false.\<close>

definition Interpreter_checkSignatureEncoding :: "nat \<Rightarrow> bytes \<Rightarrow> string option result" where
  "Interpreter_checkSignatureEncoding flags b =
     (if has_flag flags (SCRIPT_VERIFY_DERSIG OR SCRIPT_VERIFY_LOW_S OR SCRIPT_VERIFY_STRICTENC) \<and>
         \<not> Signature_isTxDER b
      then Inr (Some ''SCRIPT_ERR_SIG_DER_INVALID_FORMAT'')
      else if has_flag flags SCRIPT_VERIFY_LOW_S then
        rbind (Signature_fromTxFormat b) (\<lambda>sig.
          if \<not> Signature_hasLowS sig then Inr (Some ''SCRIPT_ERR_SIG_DER_HIGH_S'') else Inr None)
      else if has_flag flags SCRIPT_VERIFY_STRICTENC then
        rbind (Signature_fromTxFormat b) (\<lambda>sig.
          if \<not> Signature_hasDefinedHashtype sig then Inr (Some ''SCRIPT_ERR_SIG_HASHTYPE'') else Inr None)
      else Inr None)"

definition Interpreter_checkPubkeyEncoding :: "tx_env \<Rightarrow> nat \<Rightarrow> bytes \<Rightarrow> string option" where
  "Interpreter_checkPubkeyEncoding env flags b =
     (if has_flag flags SCRIPT_VERIFY_STRICTENC \<and> \<not> pkvalid env b
      then Some ''SCRIPT_ERR_PUBKEYTYPE'' else None)"

text \<open>\<open>!checkSignatureEncoding(sig) || !checkPubkeyEncoding(pubkey)\<close>\<close>

definition check_encodings :: "tx_env \<Rightarrow> nat \<Rightarrow> bytes \<Rightarrow> bytes \<Rightarrow> string option result" where
  "check_encodings env flags bufSig bufPubkey =
     rbind (Interpreter_checkSignatureEncoding flags bufSig) (\<lambda>r.
       case r of Some e \<Rightarrow> Inr (Some e)
       | None \<Rightarrow> Inr (Interpreter_checkPubkeyEncoding env flags bufPubkey))"

text \<open>The \<open>try\<close> block around a signature check: an exception counts as failure.\<close>

definition try_signature :: "tx_env \<Rightarrow> script \<Rightarrow> bytes \<Rightarrow> bytes \<Rightarrow> bool" where
  "try_signature env subscript bufSig bufPubkey =
     (case rbind (Signature_fromTxFormat bufSig) (\<lambda>sig. verifySignature env sig bufPubkey subscript) of
        Inl _ \<Rightarrow> False | Inr ok \<Rightarrow> ok)"

definition Interpreter_checkLockTime :: "tx_env \<Rightarrow> int \<Rightarrow> bool result" where
  "Interpreter_checkLockTime env t =
     (if \<not> ((nLockTime env < LOCKTIME_THRESHOLD \<and> t < int LOCKTIME_THRESHOLD) \<or>
            (nLockTime env \<ge> LOCKTIME_THRESHOLD \<and> t \<ge> int LOCKTIME_THRESHOLD))
      then Inr False
      else if t > int (nLockTime env) then Inr False
      else inputIsFinal env)"

section \<open>The opcodes\<close>

definition with_num :: "interp \<Rightarrow> bool \<Rightarrow> bytes \<Rightarrow> (int \<Rightarrow> step_result) \<Rightarrow> step_result" where
  "with_num st minimal b f =
     (case BN_fromScriptNumBuffer b minimal 0 of Inl e \<Rightarrow> SThrow e st | Inr v \<Rightarrow> f v)"

abbreviation (input) INVALID_STACK_OPERATION :: string where
  "INVALID_STACK_OPERATION \<equiv> ''SCRIPT_ERR_INVALID_STACK_OPERATION''"

definition push :: "bytes \<Rightarrow> interp \<Rightarrow> interp" where
  "push b st = st\<lparr>i_stack := b # i_stack st\<rparr>"

definition op_smallint :: "nat \<Rightarrow> interp \<Rightarrow> step_result" where
  "op_smallint n st = SOk (push (BN_toScriptNumBuffer (int n - (int OP_1 - 1))) st)"

definition op_cltv :: "tx_env \<Rightarrow> bool \<Rightarrow> interp \<Rightarrow> step_result" where
  "op_cltv env minimal st =
     (if \<not> has_flag (i_flags st) SCRIPT_VERIFY_CHECKLOCKTIMEVERIFY then
        (if has_flag (i_flags st) SCRIPT_VERIFY_DISCOURAGE_UPGRADABLE_NOPS
         then fail ''SCRIPT_ERR_DISCOURAGE_UPGRADABLE_NOPS'' st else SOk st)
      else case i_stack st of
        [] \<Rightarrow> fail INVALID_STACK_OPERATION st
      | b # _ \<Rightarrow>
          (case BN_fromScriptNumBuffer b minimal 5 of
             Inl e \<Rightarrow> SThrow e st
           | Inr t \<Rightarrow>
               if t < 0 then fail ''SCRIPT_ERR_NEGATIVE_LOCKTIME'' st
               else case Interpreter_checkLockTime env t of
                      Inl e \<Rightarrow> SThrow e st
                    | Inr ok \<Rightarrow> if \<not> ok then fail ''SCRIPT_ERR_UNSATISFIED_LOCKTIME'' st else SOk st))"

definition op_nop_n :: "interp \<Rightarrow> step_result" where
  "op_nop_n st =
     (if has_flag (i_flags st) SCRIPT_VERIFY_DISCOURAGE_UPGRADABLE_NOPS
      then fail ''SCRIPT_ERR_DISCOURAGE_UPGRADABLE_NOPS'' st else SOk st)"

definition op_if :: "nat \<Rightarrow> bool \<Rightarrow> interp \<Rightarrow> step_result" where
  "op_if n fExec st =
     (if fExec then
        (case i_stack st of
           [] \<Rightarrow> fail ''SCRIPT_ERR_UNBALANCED_CONDITIONAL'' st
         | b # r \<Rightarrow>
             let v = Interpreter_castToBool b; v = (if n = OP_NOTIF then \<not> v else v)
             in SOk (st\<lparr>i_stack := r, i_vfExec := v # i_vfExec st\<rparr>))
      else SOk (st\<lparr>i_vfExec := False # i_vfExec st\<rparr>))"

definition op_else :: "interp \<Rightarrow> step_result" where
  "op_else st =
     (case i_vfExec st of
        [] \<Rightarrow> fail ''SCRIPT_ERR_UNBALANCED_CONDITIONAL'' st
      | v # vs \<Rightarrow> SOk (st\<lparr>i_vfExec := (\<not> v) # vs\<rparr>))"

definition op_endif :: "interp \<Rightarrow> step_result" where
  "op_endif st =
     (case i_vfExec st of
        [] \<Rightarrow> fail ''SCRIPT_ERR_UNBALANCED_CONDITIONAL'' st
      | v # vs \<Rightarrow> SOk (st\<lparr>i_vfExec := vs\<rparr>))"

definition op_verify :: "interp \<Rightarrow> step_result" where
  "op_verify st =
     (case i_stack st of
        [] \<Rightarrow> fail INVALID_STACK_OPERATION st
      | b # r \<Rightarrow> if Interpreter_castToBool b then SOk (st\<lparr>i_stack := r\<rparr>)
                 else fail ''SCRIPT_ERR_VERIFY'' st)"

definition op_return :: "interp \<Rightarrow> step_result" where
  "op_return st = fail ''SCRIPT_ERR_OP_RETURN'' st"

definition op_toaltstack :: "interp \<Rightarrow> step_result" where
  "op_toaltstack st =
     (case i_stack st of
        [] \<Rightarrow> fail INVALID_STACK_OPERATION st
      | b # r \<Rightarrow> SOk (st\<lparr>i_stack := r, i_altstack := b # i_altstack st\<rparr>))"

definition op_fromaltstack :: "interp \<Rightarrow> step_result" where
  "op_fromaltstack st =
     (case i_altstack st of
        [] \<Rightarrow> fail ''SCRIPT_ERR_INVALID_ALTSTACK_OPERATION'' st
      | b # r \<Rightarrow> SOk (st\<lparr>i_stack := b # i_stack st, i_altstack := r\<rparr>))"

definition op_2drop :: "interp \<Rightarrow> step_result" where
  "op_2drop st =
     (case i_stack st of _ # _ # r \<Rightarrow> SOk (st\<lparr>i_stack := r\<rparr>) | _ \<Rightarrow> fail INVALID_STACK_OPERATION st)"

definition op_2dup :: "interp \<Rightarrow> step_result" where
  "op_2dup st =
     (case i_stack st of
        x2 # x1 # r \<Rightarrow> SOk (st\<lparr>i_stack := x2 # x1 # x2 # x1 # r\<rparr>)
      | _ \<Rightarrow> fail INVALID_STACK_OPERATION st)"

definition op_3dup :: "interp \<Rightarrow> step_result" where
  "op_3dup st =
     (case i_stack st of
        x3 # x2 # x1 # r \<Rightarrow> SOk (st\<lparr>i_stack := x3 # x2 # x1 # x3 # x2 # x1 # r\<rparr>)
      | _ \<Rightarrow> fail INVALID_STACK_OPERATION st)"

definition op_2over :: "interp \<Rightarrow> step_result" where
  "op_2over st =
     (case i_stack st of
        x4 # x3 # x2 # x1 # r \<Rightarrow> SOk (st\<lparr>i_stack := x2 # x1 # x4 # x3 # x2 # x1 # r\<rparr>)
      | _ \<Rightarrow> fail INVALID_STACK_OPERATION st)"

definition op_2rot :: "interp \<Rightarrow> step_result" where
  "op_2rot st =
     (case i_stack st of
        x6 # x5 # x4 # x3 # x2 # x1 # r \<Rightarrow> SOk (st\<lparr>i_stack := x2 # x1 # x6 # x5 # x4 # x3 # r\<rparr>)
      | _ \<Rightarrow> fail INVALID_STACK_OPERATION st)"

definition op_2swap :: "interp \<Rightarrow> step_result" where
  "op_2swap st =
     (case i_stack st of
        x4 # x3 # x2 # x1 # r \<Rightarrow> SOk (st\<lparr>i_stack := x2 # x1 # x4 # x3 # r\<rparr>)
      | _ \<Rightarrow> fail INVALID_STACK_OPERATION st)"

definition op_ifdup :: "interp \<Rightarrow> step_result" where
  "op_ifdup st =
     (case i_stack st of
        [] \<Rightarrow> fail INVALID_STACK_OPERATION st
      | b # r \<Rightarrow> if Interpreter_castToBool b then SOk (push b st) else SOk st)"

definition op_depth :: "interp \<Rightarrow> step_result" where
  "op_depth st = SOk (push (BN_toScriptNumBuffer (int (length (i_stack st)))) st)"

definition op_drop :: "interp \<Rightarrow> step_result" where
  "op_drop st =
     (case i_stack st of [] \<Rightarrow> fail INVALID_STACK_OPERATION st | _ # r \<Rightarrow> SOk (st\<lparr>i_stack := r\<rparr>))"

definition op_dup :: "interp \<Rightarrow> step_result" where
  "op_dup st =
     (case i_stack st of [] \<Rightarrow> fail INVALID_STACK_OPERATION st | b # _ \<Rightarrow> SOk (push b st))"

definition op_nip :: "interp \<Rightarrow> step_result" where
  "op_nip st =
     (case i_stack st of
        x2 # x1 # r \<Rightarrow> SOk (st\<lparr>i_stack := x2 # r\<rparr>) | _ \<Rightarrow> fail INVALID_STACK_OPERATION st)"

definition op_over :: "interp \<Rightarrow> step_result" where
  "op_over st =
     (case i_stack st of
        x2 # x1 # r \<Rightarrow> SOk (push x1 st) | _ \<Rightarrow> fail INVALID_STACK_OPERATION st)"

definition op_pick_roll :: "nat \<Rightarrow> bool \<Rightarrow> interp \<Rightarrow> step_result" where
  "op_pick_roll opc minimal st =
     (case i_stack st of
        b # x # r \<Rightarrow>
          with_num st minimal b (\<lambda>bn.
            let n = BN_toNumber bn; rest = x # r; st = st\<lparr>i_stack := rest\<rparr> in
            if n < 0 \<or> n \<ge> int (length rest) then fail INVALID_STACK_OPERATION st
            else
              let v = rest ! nat n;
                  rest' = (if opc = OP_ROLL then take (nat n) rest @ drop (Suc (nat n)) rest else rest)
              in SOk (st\<lparr>i_stack := v # rest'\<rparr>))
      | _ \<Rightarrow> fail INVALID_STACK_OPERATION st)"

definition op_rot :: "interp \<Rightarrow> step_result" where
  "op_rot st =
     (case i_stack st of
        x3 # x2 # x1 # r \<Rightarrow> SOk (st\<lparr>i_stack := x1 # x3 # x2 # r\<rparr>)
      | _ \<Rightarrow> fail INVALID_STACK_OPERATION st)"

definition op_swap :: "interp \<Rightarrow> step_result" where
  "op_swap st =
     (case i_stack st of
        x2 # x1 # r \<Rightarrow> SOk (st\<lparr>i_stack := x1 # x2 # r\<rparr>) | _ \<Rightarrow> fail INVALID_STACK_OPERATION st)"

definition op_tuck :: "interp \<Rightarrow> step_result" where
  "op_tuck st =
     (case i_stack st of
        x2 # x1 # r \<Rightarrow> SOk (st\<lparr>i_stack := x2 # x1 # x2 # r\<rparr>) | _ \<Rightarrow> fail INVALID_STACK_OPERATION st)"

definition op_size :: "interp \<Rightarrow> step_result" where
  "op_size st =
     (case i_stack st of
        [] \<Rightarrow> fail INVALID_STACK_OPERATION st
      | b # _ \<Rightarrow> SOk (push (BN_toScriptNumBuffer (int (length b))) st))"

definition op_equal :: "nat \<Rightarrow> interp \<Rightarrow> step_result" where
  "op_equal opc st =
     (case i_stack st of
        x2 # x1 # r \<Rightarrow>
          let fEqual = (hexSlice x1 = hexSlice x2);
              st = st\<lparr>i_stack := bool_buf fEqual # r\<rparr>
          in if opc = OP_EQUALVERIFY then
               (if fEqual then SOk (st\<lparr>i_stack := r\<rparr>) else fail ''SCRIPT_ERR_EQUALVERIFY'' st)
             else SOk st
      | _ \<Rightarrow> fail INVALID_STACK_OPERATION st)"

definition bool_num :: "bool \<Rightarrow> int" where
  "bool_num b = (if b then 1 else 0)"

definition unary_num :: "nat \<Rightarrow> int \<Rightarrow> int" where
  "unary_num opc bn =
     (if opc = OP_1ADD then bn + 1
      else if opc = OP_1SUB then bn - 1
      else if opc = OP_NEGATE then - bn
      else if opc = OP_ABS then (if bn < 0 then - bn else bn)
      else if opc = OP_NOT then bool_num (bn = 0)
      else if opc = OP_0NOTEQUAL then bool_num (bn \<noteq> 0)
      else bn)"

definition op_unary :: "nat \<Rightarrow> bool \<Rightarrow> interp \<Rightarrow> step_result" where
  "op_unary opc minimal st =
     (case i_stack st of
        [] \<Rightarrow> fail INVALID_STACK_OPERATION st
      | b # r \<Rightarrow>
          with_num st minimal b (\<lambda>bn.
            SOk (st\<lparr>i_stack := BN_toScriptNumBuffer (unary_num opc bn) # r\<rparr>)))"

definition binary_num :: "nat \<Rightarrow> int \<Rightarrow> int \<Rightarrow> int" where
  "binary_num opc bn1 bn2 =
     (if opc = OP_ADD then bn1 + bn2
      else if opc = OP_SUB then bn1 - bn2
      else if opc = OP_BOOLAND then bool_num (bn1 \<noteq> 0 \<and> bn2 \<noteq> 0)
      else if opc = OP_BOOLOR then bool_num (bn1 \<noteq> 0 \<or> bn2 \<noteq> 0)
      else if opc = OP_NUMEQUAL then bool_num (bn1 = bn2)
      else if opc = OP_NUMEQUALVERIFY then bool_num (bn1 = bn2)
      else if opc = OP_NUMNOTEQUAL then bool_num (bn1 \<noteq> bn2)
      else if opc = OP_LESSTHAN then bool_num (bn1 < bn2)
      else if opc = OP_GREATERTHAN then bool_num (bn1 > bn2)
      else if opc = OP_LESSTHANOREQUAL then bool_num (bn1 \<le> bn2)
      else if opc = OP_GREATERTHANOREQUAL then bool_num (bn1 \<ge> bn2)
      else if opc = OP_MIN then (if bn1 < bn2 then bn1 else bn2)
      else if opc = OP_MAX then (if bn1 > bn2 then bn1 else bn2)
      else 0)"

definition op_binary :: "nat \<Rightarrow> bool \<Rightarrow> interp \<Rightarrow> step_result" where
  "op_binary opc minimal st =
     (case i_stack st of
        b2 # b1 # r \<Rightarrow>
          with_num st minimal b1 (\<lambda>bn1. with_num st minimal b2 (\<lambda>bn2.
            let v = BN_toScriptNumBuffer (binary_num opc bn1 bn2); st = st\<lparr>i_stack := v # r\<rparr> in
            if opc = OP_NUMEQUALVERIFY then
              (if Interpreter_castToBool v then SOk (st\<lparr>i_stack := r\<rparr>)
               else fail ''SCRIPT_ERR_NUMEQUALVERIFY'' st)
            else SOk st))
      | _ \<Rightarrow> fail INVALID_STACK_OPERATION st)"

definition op_within :: "bool \<Rightarrow> interp \<Rightarrow> step_result" where
  "op_within minimal st =
     (case i_stack st of
        b3 # b2 # b1 # r \<Rightarrow>
          with_num st minimal b1 (\<lambda>bn1. with_num st minimal b2 (\<lambda>bn2. with_num st minimal b3 (\<lambda>bn3.
            SOk (st\<lparr>i_stack := bool_buf (bn2 \<le> bn1 \<and> bn1 < bn3) # r\<rparr>))))
      | _ \<Rightarrow> fail INVALID_STACK_OPERATION st)"

definition op_hash :: "nat \<Rightarrow> interp \<Rightarrow> step_result" where
  "op_hash opc st =
     (case i_stack st of
        [] \<Rightarrow> fail INVALID_STACK_OPERATION st
      | b # r \<Rightarrow>
          let h = (if opc = OP_RIPEMD160 then Hash_ripemd160 b
                   else if opc = OP_SHA1 then Hash_sha1 b
                   else if opc = OP_SHA256 then Hash_sha256 b
                   else if opc = OP_HASH160 then Hash_sha256ripemd160 b
                   else Hash_sha256sha256 b)
          in SOk (st\<lparr>i_stack := h # r\<rparr>))"

definition op_codeseparator :: "interp \<Rightarrow> step_result" where
  "op_codeseparator st = SOk (st\<lparr>i_pbegincodehash := i_pc st\<rparr>)"

text \<open>The script from the last code separator on, without the signatures of the operation.\<close>

fun drop_signatures :: "script \<Rightarrow> bytes list \<Rightarrow> script result" where
  "drop_signatures s [] = Inr s"
| "drop_signatures s (sig # sigs) =
     rbind (Script_add new_Script (ArgBuffer sig)) (\<lambda>t.
     rbind (Script_findAndDelete s t) (\<lambda>s. drop_signatures s sigs))"

definition subscript_of :: "interp \<Rightarrow> bytes list \<Rightarrow> script result" where
  "subscript_of st sigs =
     drop_signatures (Script_set new_Script (drop (i_pbegincodehash st) (chunks (i_script st)))) sigs"

definition op_checksig :: "tx_env \<Rightarrow> nat \<Rightarrow> interp \<Rightarrow> step_result" where
  "op_checksig env opc st =
     (case i_stack st of
        bufPubkey # bufSig # r \<Rightarrow>
          (case subscript_of st [bufSig] of
             Inl e \<Rightarrow> SThrow e st
           | Inr subscript \<Rightarrow>
               (case check_encodings env (i_flags st) bufSig bufPubkey of
                  Inl e \<Rightarrow> SThrow e st
                | Inr (Some err) \<Rightarrow> fail err st
                | Inr None \<Rightarrow>
                    let fSuccess = try_signature env subscript bufSig bufPubkey;
                        st = st\<lparr>i_stack := bool_buf fSuccess # r\<rparr>
                    in if opc = OP_CHECKSIGVERIFY then
                         (if fSuccess then SOk (st\<lparr>i_stack := r\<rparr>)
                          else fail ''SCRIPT_ERR_CHECKSIGVERIFY'' st)
                       else SOk st))
      | _ \<Rightarrow> fail INVALID_STACK_OPERATION st)"

text \<open>
  The loop of \<open>OP_CHECKMULTISIG\<close> on the remaining signatures and keys, both in the order in which
  they are tried.  It stops as soon as more signatures than keys are left.
\<close>

fun multisig_loop ::
    "(bytes \<Rightarrow> bytes \<Rightarrow> string option result) \<Rightarrow> (bytes \<Rightarrow> bytes \<Rightarrow> bool) \<Rightarrow> bytes list \<Rightarrow> bytes list
     \<Rightarrow> (string + bool) result" where
  "multisig_loop enc ok [] keys = Inr (Inr True)"
| "multisig_loop enc ok (s # sigs) [] = Inr (Inr False)"
| "multisig_loop enc ok (s # sigs) (k # keys) =
     rbind (enc s k) (\<lambda>r.
       case r of
         Some err \<Rightarrow> Inr (Inl err)
       | None \<Rightarrow>
           let sigs' = (if ok s k then sigs else s # sigs) in
           if length sigs' > length keys then Inr (Inr False)
           else multisig_loop enc ok sigs' keys)"

definition multisig_finish :: "nat \<Rightarrow> bool \<Rightarrow> nat \<Rightarrow> interp \<Rightarrow> step_result" where
  "multisig_finish opc fSuccess i st =
     (let st = st\<lparr>i_stack := drop (i - 1) (i_stack st)\<rparr> in
      case i_stack st of
        [] \<Rightarrow> fail INVALID_STACK_OPERATION st
      | dummy # r \<Rightarrow>
          if has_flag (i_flags st) SCRIPT_VERIFY_NULLDUMMY \<and> length dummy \<noteq> 0
          then fail ''SCRIPT_ERR_SIG_NULLDUMMY'' st
          else
            let st = st\<lparr>i_stack := bool_buf fSuccess # r\<rparr> in
            if opc = OP_CHECKMULTISIGVERIFY then
              (if fSuccess then SOk (st\<lparr>i_stack := r\<rparr>)
               else fail ''SCRIPT_ERR_CHECKMULTISIGVERIFY'' st)
            else SOk st)"

definition op_checkmultisig :: "tx_env \<Rightarrow> nat \<Rightarrow> bool \<Rightarrow> interp \<Rightarrow> step_result" where
  "op_checkmultisig env opc minimal st =
     (let stack = i_stack st in
      if length stack < 1 then fail INVALID_STACK_OPERATION st
      else with_num st minimal (stack ! 0) (\<lambda>bn.
        let nKeys = BN_toNumber bn in
        if nKeys < 0 \<or> nKeys > 20 then fail ''SCRIPT_ERR_PUBKEY_COUNT'' st
        else
          let st = st\<lparr>i_nOpCount := i_nOpCount st + nat nKeys\<rparr> in
          if i_nOpCount st > 201 then fail ''SCRIPT_ERR_OP_COUNT'' st
          else
            let ikey = 2; i = ikey + nat nKeys in
            if length stack < i then fail INVALID_STACK_OPERATION st
            else with_num st minimal (stack ! (i - 1)) (\<lambda>bn.
              let nSigs = BN_toNumber bn in
              if nSigs < 0 \<or> nSigs > nKeys then fail ''SCRIPT_ERR_SIG_COUNT'' st
              else
                let isig = i + 1; i = isig + nat nSigs in
                if length stack < i then fail INVALID_STACK_OPERATION st
                else
                  let sigs = take (nat nSigs) (drop (isig - 1) stack);
                      keys = take (nat nKeys) (drop (ikey - 1) stack)
                  in case subscript_of st sigs of
                       Inl e \<Rightarrow> SThrow e st
                     | Inr subscript \<Rightarrow>
                         (case multisig_loop (check_encodings env (i_flags st))
                                 (try_signature env subscript) sigs keys of
                            Inl e \<Rightarrow> SThrow e st
                          | Inr (Inl err) \<Rightarrow> fail err st
                          | Inr (Inr fSuccess) \<Rightarrow> multisig_finish opc fSuccess i st))))"

section \<open>One step\<close>

definition disabled_opcodes :: "nat list" where
  "disabled_opcodes =
     [OP_CAT, OP_SUBSTR, OP_LEFT, OP_RIGHT, OP_INVERT, OP_AND, OP_OR, OP_XOR, OP_2MUL, OP_2DIV,
      OP_MUL, OP_DIV, OP_MOD, OP_LSHIFT, OP_RSHIFT]"

text \<open>The \<open>switch\<close> of \<open>step\<close>: control and numbers, then stack, then the rest.\<close>

definition exec_control :: "tx_env \<Rightarrow> bool \<Rightarrow> bool \<Rightarrow> nat \<Rightarrow> interp \<Rightarrow> step_result option" where
  "exec_control env minimal fExec n st =
     (if n = OP_1NEGATE \<or> (OP_1 \<le> n \<and> n \<le> OP_16) then Some (op_smallint n st)
      else if n = OP_NOP then Some (SOk st)
      else if n = OP_NOP2 then Some (op_cltv env minimal st)
      else if n = OP_NOP1 \<or> (OP_NOP3 \<le> n \<and> n \<le> OP_NOP10) then Some (op_nop_n st)
      else if n = OP_IF \<or> n = OP_NOTIF then Some (op_if n fExec st)
      else if n = OP_ELSE then Some (op_else st)
      else if n = OP_ENDIF then Some (op_endif st)
      else if n = OP_VERIFY then Some (op_verify st)
      else if n = OP_RETURN then Some (op_return st)
      else None)"

definition exec_stack :: "bool \<Rightarrow> nat \<Rightarrow> interp \<Rightarrow> step_result option" where
  "exec_stack minimal n st =
     (if n = OP_TOALTSTACK then Some (op_toaltstack st)
      else if n = OP_FROMALTSTACK then Some (op_fromaltstack st)
      else if n = OP_2DROP then Some (op_2drop st)
      else if n = OP_2DUP then Some (op_2dup st)
      else if n = OP_3DUP then Some (op_3dup st)
      else if n = OP_2OVER then Some (op_2over st)
      else if n = OP_2ROT then Some (op_2rot st)
      else if n = OP_2SWAP then Some (op_2swap st)
      else if n = OP_IFDUP then Some (op_ifdup st)
      else if n = OP_DEPTH then Some (op_depth st)
      else if n = OP_DROP then Some (op_drop st)
      else if n = OP_DUP then Some (op_dup st)
      else if n = OP_NIP then Some (op_nip st)
      else if n = OP_OVER then Some (op_over st)
      else if n = OP_PICK \<or> n = OP_ROLL then Some (op_pick_roll n minimal st)
      else if n = OP_ROT then Some (op_rot st)
      else if n = OP_SWAP then Some (op_swap st)
      else if n = OP_TUCK then Some (op_tuck st)
      else if n = OP_SIZE then Some (op_size st)
      else None)"

definition exec_arith_crypto :: "tx_env \<Rightarrow> bool \<Rightarrow> nat \<Rightarrow> interp \<Rightarrow> step_result" where
  "exec_arith_crypto env minimal n st =
     (if n = OP_EQUAL \<or> n = OP_EQUALVERIFY then op_equal n st
      else if n \<in> {OP_1ADD, OP_1SUB, OP_NEGATE, OP_ABS, OP_NOT, OP_0NOTEQUAL} then op_unary n minimal st
      else if n \<in> {OP_ADD, OP_SUB, OP_BOOLAND, OP_BOOLOR, OP_NUMEQUAL, OP_NUMEQUALVERIFY, OP_NUMNOTEQUAL,
                   OP_LESSTHAN, OP_GREATERTHAN, OP_LESSTHANOREQUAL, OP_GREATERTHANOREQUAL, OP_MIN, OP_MAX}
      then op_binary n minimal st
      else if n = OP_WITHIN then op_within minimal st
      else if n \<in> {OP_RIPEMD160, OP_SHA1, OP_SHA256, OP_HASH160, OP_HASH256} then op_hash n st
      else if n = OP_CODESEPARATOR then op_codeseparator st
      else if n = OP_CHECKSIG \<or> n = OP_CHECKSIGVERIFY then op_checksig env n st
      else if n = OP_CHECKMULTISIG \<or> n = OP_CHECKMULTISIGVERIFY then op_checkmultisig env n minimal st
      else if n = OP_CONTRACT \<or> n = OP_CONTRACT_CHANGE then SOk st
      else fail ''SCRIPT_ERR_BAD_OPCODE'' st)"

definition exec_opcode :: "tx_env \<Rightarrow> bool \<Rightarrow> bool \<Rightarrow> nat \<Rightarrow> interp \<Rightarrow> step_result" where
  "exec_opcode env minimal fExec n st =
     (case exec_control env minimal fExec n st of
        Some r \<Rightarrow> r
      | None \<Rightarrow>
          (case exec_stack minimal n st of
             Some r \<Rightarrow> r
           | None \<Rightarrow> exec_arith_crypto env minimal n st))"

definition exec_push :: "bool \<Rightarrow> chunk \<Rightarrow> interp \<Rightarrow> step_result" where
  "exec_push minimal c st =
     (case (if minimal then Script_checkMinimalPush (i_script st) (i_pc st - 1) else Inr True) of
        Inl e \<Rightarrow> SThrow e st
      | Inr False \<Rightarrow> fail ''SCRIPT_ERR_MINIMALDATA'' st
      | Inr True \<Rightarrow>
          (case cbuf c of
             None \<Rightarrow> SOk (push Interpreter_false st)
           | Some b \<Rightarrow>
               if clen c \<noteq> Some (int (length b))
               then SThrow (PlainError ''Length of push value not equal to length of data'') st
               else SOk (push b st)))"

definition Interpreter_step :: "tx_env \<Rightarrow> interp \<Rightarrow> step_result" where
  "Interpreter_step env st =
     (let minimal = has_flag (i_flags st) SCRIPT_VERIFY_MINIMALDATA;
          fExec = (False \<notin> set (i_vfExec st));
          c = chunks (i_script st) ! i_pc st;
          st = st\<lparr>i_pc := i_pc st + 1\<rparr>
      in case opcodenum c of
           None \<Rightarrow> fail ''SCRIPT_ERR_UNDEFINED_OPCODE'' st
         | Some n \<Rightarrow>
             if has_buf c (\<lambda>b. length b > MAX_SCRIPT_ELEMENT_SIZE) then fail ''SCRIPT_ERR_PUSH_SIZE'' st
             else
               let st = (if n > OP_16 then st\<lparr>i_nOpCount := i_nOpCount st + 1\<rparr> else st) in
               if n > OP_16 \<and> i_nOpCount st > 201 then fail ''SCRIPT_ERR_OP_COUNT'' st
               else if n \<in> set disabled_opcodes then fail ''SCRIPT_ERR_DISABLED_OPCODE'' st
               else if fExec \<and> n \<le> OP_PUSHDATA4 then exec_push minimal c st
               else if fExec \<or> (OP_IF \<le> n \<and> n \<le> OP_ENDIF) then exec_opcode env minimal fExec n st
               else SOk st)"

section \<open>What a step leaves alone\<close>

definition same_code :: "interp \<Rightarrow> step_result \<Rightarrow> bool" where
  "same_code st r =
     (case r of
        SOk st' \<Rightarrow> i_script st' = i_script st \<and> i_pc st' = i_pc st \<and> i_flags st' = i_flags st
      | _ \<Rightarrow> True)"

lemma same_code_simps [simp]:
  "same_code st (fail e st')" "same_code st (SThrow x st')" "same_code st (SFail st')"
  "same_code st (SOk st') \<longleftrightarrow> i_script st' = i_script st \<and> i_pc st' = i_pc st \<and> i_flags st' = i_flags st"
  by (simp_all add: same_code_def fail_def)

lemma push_sel [simp]:
  "i_script (push b st) = i_script st" "i_pc (push b st) = i_pc st" "i_flags (push b st) = i_flags st"
  "i_stack (push b st) = b # i_stack st" "i_altstack (push b st) = i_altstack st"
  "i_vfExec (push b st) = i_vfExec st" "i_nOpCount (push b st) = i_nOpCount st"
  by (simp_all add: push_def)

lemma same_code_with_num:
  "(\<And>v. same_code st (f v)) \<Longrightarrow> same_code st (with_num st' m b f)"
  by (simp add: with_num_def split: sum.splits)

lemmas op_stack_defs = op_toaltstack_def op_fromaltstack_def op_2drop_def op_2dup_def op_3dup_def
  op_2over_def op_2rot_def op_2swap_def op_ifdup_def op_depth_def op_drop_def op_dup_def op_nip_def
  op_over_def op_rot_def op_swap_def op_tuck_def op_size_def

lemmas op_control_defs = op_smallint_def op_cltv_def op_nop_n_def op_if_def op_else_def op_endif_def
  op_verify_def op_return_def

lemma same_code_control: "exec_control env m x n st = Some r \<Longrightarrow> same_code st r"
  by (auto simp: exec_control_def op_control_defs Let_def split: if_splits list.splits sum.splits)

lemma same_code_pick_roll: "same_code st (op_pick_roll n m st)"
  by (auto simp: op_pick_roll_def Let_def intro!: same_code_with_num split: list.splits)

lemma same_code_stack: "exec_stack m n st = Some r \<Longrightarrow> same_code st r"
  by (auto simp: exec_stack_def op_stack_defs same_code_pick_roll split: if_splits list.splits)

lemma same_code_multisig: "same_code st (op_checkmultisig env n m st)"
  by (auto simp: op_checkmultisig_def multisig_finish_def Let_def intro!: same_code_with_num
      split: sum.splits list.splits)

lemma same_code_arith_crypto: "same_code st (exec_arith_crypto env m n st)"
  by (auto simp: exec_arith_crypto_def op_equal_def op_unary_def op_binary_def op_within_def op_hash_def
      op_codeseparator_def op_checksig_def Let_def same_code_multisig intro!: same_code_with_num
      split: list.splits sum.splits option.splits)

lemma same_code_exec: "same_code st (exec_opcode env m x n st)"
  by (auto simp: exec_opcode_def same_code_arith_crypto split: option.splits
      dest: same_code_control same_code_stack)

lemma same_code_push: "same_code st (exec_push m c st)"
  by (auto simp: exec_push_def split: sum.splits option.splits bool.splits)

text \<open>A step that goes on: the state it starts from, and the three ways it can take.\<close>

definition fetched :: "interp \<Rightarrow> nat \<Rightarrow> interp" where
  "fetched st n =
     st\<lparr>i_pc := i_pc st + 1, i_nOpCount := i_nOpCount st + (if n > OP_16 then 1 else 0)\<rparr>"

lemma fetched_sel [simp]:
  "i_script (fetched st n) = i_script st" "i_pc (fetched st n) = Suc (i_pc st)"
  "i_flags (fetched st n) = i_flags st" "i_stack (fetched st n) = i_stack st"
  "i_altstack (fetched st n) = i_altstack st" "i_vfExec (fetched st n) = i_vfExec st"
  "i_pbegincodehash (fetched st n) = i_pbegincodehash st"
  by (simp_all add: fetched_def)

lemma fetched_nOpCount: "i_nOpCount (fetched st n) = i_nOpCount st + (if n > OP_16 then 1 else 0)"
  by (simp add: fetched_def)

lemma step_eq:
  assumes "opcodenum (chunks (i_script st) ! i_pc st) = Some n"
  shows "Interpreter_step env st =
    (let minimal = has_flag (i_flags st) SCRIPT_VERIFY_MINIMALDATA;
         fExec = (False \<notin> set (i_vfExec st));
         c = chunks (i_script st) ! i_pc st
     in if has_buf c (\<lambda>b. length b > MAX_SCRIPT_ELEMENT_SIZE)
        then fail ''SCRIPT_ERR_PUSH_SIZE'' (st\<lparr>i_pc := i_pc st + 1\<rparr>)
        else if n > OP_16 \<and> i_nOpCount st \<ge> 201 then fail ''SCRIPT_ERR_OP_COUNT'' (fetched st n)
        else if n \<in> set disabled_opcodes then fail ''SCRIPT_ERR_DISABLED_OPCODE'' (fetched st n)
        else if fExec \<and> n \<le> OP_PUSHDATA4 then exec_push minimal c (fetched st n)
        else if fExec \<or> (OP_IF \<le> n \<and> n \<le> OP_ENDIF) then exec_opcode env minimal fExec n (fetched st n)
        else SOk (fetched st n))"
proof -
  have "(if n > OP_16 then st\<lparr>i_pc := i_pc st + 1, i_nOpCount := i_nOpCount st + 1\<rparr>
      else st\<lparr>i_pc := i_pc st + 1\<rparr>) = fetched st n" by (simp add: fetched_def)
  moreover have "i_nOpCount (fetched st n) > 201 \<longleftrightarrow> i_nOpCount st \<ge> 201" if "n > OP_16"
    using that by (simp add: fetched_nOpCount) linarith
  ultimately show ?thesis
    using assms by (cases "n > OP_16") (simp_all add: Interpreter_step_def Let_def)
qed

lemma step_okE:
  assumes "Interpreter_step env st = SOk st'"
  obtains n where "opcodenum (chunks (i_script st) ! i_pc st) = Some n"
    "has_buf (chunks (i_script st) ! i_pc st) (\<lambda>b. length b > MAX_SCRIPT_ELEMENT_SIZE) = False"
    "n > OP_16 \<longrightarrow> i_nOpCount st < 201" "n \<notin> set disabled_opcodes"
    "if False \<notin> set (i_vfExec st) \<and> n \<le> OP_PUSHDATA4
     then exec_push (has_flag (i_flags st) SCRIPT_VERIFY_MINIMALDATA) (chunks (i_script st) ! i_pc st)
            (fetched st n) = SOk st'
     else if False \<notin> set (i_vfExec st) \<or> (OP_IF \<le> n \<and> n \<le> OP_ENDIF)
     then exec_opcode env (has_flag (i_flags st) SCRIPT_VERIFY_MINIMALDATA) (False \<notin> set (i_vfExec st)) n
            (fetched st n) = SOk st'
     else st' = fetched st n"
proof (cases "opcodenum (chunks (i_script st) ! i_pc st)")
  case None
  with assms show thesis by (simp add: Interpreter_step_def Let_def fail_def)
next
  case (Some n)
  show thesis
    using assms unfolding step_eq [OF Some] Let_def
    by (intro that [OF Some]) (auto simp: fail_def not_le split: if_splits)
qed

lemma step_code:
  assumes "Interpreter_step env st = SOk st'"
  shows "i_script st' = i_script st \<and> i_pc st' = Suc (i_pc st) \<and> i_flags st' = i_flags st"
  using assms
proof (cases rule: step_okE)
  case (1 n)
  note same_code_push [of "fetched st n"] same_code_exec [of "fetched st n"]
  then show ?thesis using 1(5) by (simp split: if_splits) (metis fetched_sel(1,2,3) same_code_simps(4))+
qed

section \<open>Evaluation\<close>

function eval_loop :: "tx_env \<Rightarrow> interp \<Rightarrow> step_result" where
  "eval_loop env st =
     (if i_pc st < length (chunks (i_script st)) then
        (case Interpreter_step env st of SOk st' \<Rightarrow> eval_loop env st' | r \<Rightarrow> r)
      else SOk st)"
  by pat_completeness auto

termination
proof (relation "measure (\<lambda>(env, st). length (chunks (i_script st)) - i_pc st)")
  fix env st st'
  assume "i_pc st < length (chunks (i_script st))" and "Interpreter_step env st = SOk st'"
  moreover from this have "i_script st' = i_script st" "i_pc st' = Suc (i_pc st)"
    using step_code by blast+
  ultimately show "((env, st'), env, st) \<in> measure (\<lambda>(env, st). length (chunks (i_script st)) - i_pc st)"
    by simp
qed simp

declare eval_loop.simps [simp del]

text \<open>
  \<open>evaluate\<close> returns a boolean and leaves the interpreter behind; the only exception it lets
  through is one of \<open>script.toBuffer()\<close>, which is outside its \<open>try\<close> block.  The text of a
  caught exception, which the code appends to \<open>errstr\<close>, is left out.
\<close>

definition Interpreter_evaluate :: "tx_env \<Rightarrow> interp \<Rightarrow> (bool \<times> interp) result" where
  "Interpreter_evaluate env st =
     rbind (Script_toBuffer (i_script st)) (\<lambda>b.
       if length b > 10000 then Inr (False, st\<lparr>i_errstr := ''SCRIPT_ERR_SCRIPT_SIZE''\<rparr>)
       else case eval_loop env st of
         SFail st' \<Rightarrow> Inr (False, st')
       | SThrow e st' \<Rightarrow> Inr (False, st'\<lparr>i_errstr := ''SCRIPT_ERR_UNKNOWN_ERROR: ''\<rparr>)
       | SOk st' \<Rightarrow>
           if length (i_stack st') + length (i_altstack st') > 1000
           then Inr (False, st'\<lparr>i_errstr := ''SCRIPT_ERR_STACK_SIZE''\<rparr>)
           else if i_vfExec st' \<noteq> []
           then Inr (False, st'\<lparr>i_errstr := ''SCRIPT_ERR_UNBALANCED_CONDITIONAL''\<rparr>)
           else Inr (True, st'))"

section \<open>Verification\<close>

text \<open>
  The part of \<open>verify\<close> that runs a redeem script.  \<open>stackCopy\<close> is the array that the
  interpreter then works on, so its final contents are the interpreter's stack.
\<close>

definition verify_redeem ::
    "tx_env \<Rightarrow> interp \<Rightarrow> script \<Rightarrow> bytes list \<Rightarrow> nat \<Rightarrow> (bool \<times> interp) result" where
  "verify_redeem env st scriptSig stackCopy flags =
     (if \<not> Script_isPushOnly scriptSig then Inr (False, st\<lparr>i_errstr := ''SCRIPT_ERR_SIG_PUSHONLY''\<rparr>)
      else case stackCopy of
        [] \<Rightarrow> Inl (PlainError ''internal error - stack copy empty'')
      | redeemScriptSerialized # stackCopy \<Rightarrow>
          rbind (Script_fromBuffer redeemScriptSerialized) (\<lambda>redeemScript.
          rbind (Interpreter_evaluate env
                   (Interpreter_set (Interpreter_initialize st) redeemScript (Some stackCopy) flags))
            (\<lambda>(ok, st).
              if \<not> ok then Inr (False, st)
              else case i_stack st of
                [] \<Rightarrow> Inr (False, st\<lparr>i_errstr := ''SCRIPT_ERR_EVAL_FALSE_NO_P2SH_STACK''\<rparr>)
              | b # _ \<Rightarrow>
                  if \<not> Interpreter_castToBool b
                  then Inr (False, st\<lparr>i_errstr := ''SCRIPT_ERR_EVAL_FALSE_IN_P2SH_STACK''\<rparr>)
                  else Inr (True, st))))"

definition Interpreter_verify ::
    "tx_env \<Rightarrow> interp \<Rightarrow> script \<Rightarrow> script \<Rightarrow> nat \<Rightarrow> (bool \<times> interp) result" where
  "Interpreter_verify env st scriptSig scriptPubkey flags =
     (let st = Interpreter_set st scriptSig None flags in
      if has_flag flags SCRIPT_VERIFY_SIGPUSHONLY \<and> \<not> Script_isPushOnly scriptSig
      then Inr (False, st\<lparr>i_errstr := ''SCRIPT_ERR_SIG_PUSHONLY''\<rparr>)
      else rbind (Interpreter_evaluate env st) (\<lambda>(ok, st).
        if \<not> ok then Inr (False, st)
        else
          let stackCopy = i_stack st;
              st = Interpreter_set (Interpreter_initialize st) scriptPubkey (Some (i_stack st)) flags
          in rbind (Interpreter_evaluate env st) (\<lambda>(ok, st).
               if \<not> ok then Inr (False, st)
               else case i_stack st of
                 [] \<Rightarrow> Inr (False, st\<lparr>i_errstr := ''SCRIPT_ERR_EVAL_FALSE_NO_RESULT''\<rparr>)
               | b # _ \<Rightarrow>
                   if \<not> Interpreter_castToBool b
                   then Inr (False, st\<lparr>i_errstr := ''SCRIPT_ERR_EVAL_FALSE_IN_STACK''\<rparr>)
                   else rbind (if has_flag flags SCRIPT_VERIFY_P2SH then Script_isScriptHashOut scriptPubkey
                               else Inr False) (\<lambda>sh.
                     if sh then verify_redeem env st scriptSig stackCopy flags
                     else Inr (True, st)))))"

text \<open>\<open>Interpreter()\<close>; a fresh interpreter has no script, and \<open>verify\<close> sets one first.\<close>

definition new_Interpreter :: interp where
  "new_Interpreter =
     \<lparr>i_script = new_Script, i_stack = [], i_altstack = [], i_pc = 0, i_pbegincodehash = 0,
      i_nOpCount = 0, i_vfExec = [], i_errstr = [], i_flags = 0\<rparr>"

end
