(* ===== verification/InterpreterProps.thy ===== *)
theory InterpreterProps
  imports Interpreter "HOL-Library.Sublist"
begin

unbundle bit_operations_syntax

text \<open>
  What the script interpreter guarantees: invariants of its loop as interpretations of one locale,
  the limits on elements, stacks and operations, disabled opcodes and branches that are not taken,
  the meaning of truth values, and which signatures \<open>OP_CHECKMULTISIG\<close> accepts.
\<close>

section \<open>Invariants of the loop\<close>

locale step_invariant =
  fixes I :: "interp \<Rightarrow> bool"
  assumes step_keeps: "I st \<Longrightarrow> i_pc st < length (chunks (i_script st)) \<Longrightarrow>
    Interpreter_step env st = SOk st' \<Longrightarrow> I st'"
begin

lemma loop_keeps: "I st \<Longrightarrow> eval_loop env st = SOk st' \<Longrightarrow> I st'"
proof (induction env st rule: eval_loop.induct)
  case (1 env st)
  show ?case
  proof (cases "i_pc st < length (chunks (i_script st))")
    case True
    with "1.prems"(2) obtain st1 where st1: "Interpreter_step env st = SOk st1" "eval_loop env st1 = SOk st'"
      by (auto simp: eval_loop.simps [of env st] split: step_result.splits)
    then show ?thesis using "1.IH" [OF True st1(1)] step_keeps [OF "1.prems"(1) True st1(1)] by blast
  next
    case False
    with "1.prems" show ?thesis by (simp add: eval_loop.simps [of env st])
  qed
qed

lemma evaluate_keeps:
  assumes "I st" and "Interpreter_evaluate env st = Inr (True, st')"
  shows "I st'"
  using assms loop_keeps [of st env]
  by (auto simp: Interpreter_evaluate_def rbind_eq_Inr split: step_result.splits if_splits)

end

text \<open>The elements of both stacks, their number, and the count of operations.\<close>

definition small_elems :: "interp \<Rightarrow> bool" where
  "small_elems st \<longleftrightarrow>
     list_all (\<lambda>b. length b \<le> 520) (i_stack st) \<and> list_all (\<lambda>b. length b \<le> 520) (i_altstack st)"

definition depth :: "interp \<Rightarrow> nat" where
  "depth st = length (i_stack st) + length (i_altstack st)"

definition keeps :: "interp \<Rightarrow> step_result \<Rightarrow> bool" where
  "keeps st r =
     (case r of
        SOk st' \<Rightarrow> small_elems st' \<and> depth st' \<le> depth st + 3 \<and> i_nOpCount st' \<le> 201
      | _ \<Rightarrow> True)"

definition good :: "interp \<Rightarrow> bool" where
  "good st \<longleftrightarrow> small_elems st \<and> i_nOpCount st \<le> 201 \<and> depth st < 2147483648"

lemma keeps_simps [simp]:
  "keeps st (fail e st')" "keeps st (SThrow x st')" "keeps st (SFail st')"
  "keeps st (SOk st') \<longleftrightarrow> small_elems st' \<and> depth st' \<le> depth st + 3 \<and> i_nOpCount st' \<le> 201"
  by (simp_all add: keeps_def fail_def)

lemma num_small: "\<bar>v\<bar> < 128 * 256 ^ 4 \<Longrightarrow> length (BN_toScriptNumBuffer v) \<le> 520"
  using length_scriptnum_of_nat_256 [of v] by simp

lemma keeps_with_num:
  "(\<And>v. \<bar>v\<bar> < 2147483648 \<Longrightarrow> keeps st (f v)) \<Longrightarrow> keeps st (with_num st' m b f)"
  using scriptnum_default_range [of b m] by (auto simp: with_num_def split: sum.splits)

lemma unary_range: "\<bar>v\<bar> < 2147483648 \<Longrightarrow> \<bar>unary_num n v\<bar> < 128 * 256 ^ 4"
  by (auto simp: unary_num_def bool_num_def)

lemma binary_range: "\<bar>v\<bar> < 2147483648 \<Longrightarrow> \<bar>w\<bar> < 2147483648 \<Longrightarrow> \<bar>binary_num n v w\<bar> < 128 * 256 ^ 4"
proof -
  assume vw: "\<bar>v\<bar> < 2147483648" "\<bar>w\<bar> < 2147483648"
  have "binary_num n v w \<in> {v + w, v - w, 0, 1, v, w}"
    by (simp add: binary_num_def bool_num_def)
  with vw show ?thesis by (elim insertE) auto
qed

lemma bool_buf_small [simp]: "length (bool_buf b) \<le> 520"
  by (simp add: bool_buf_def)

lemmas keeps_defs = good_def small_elems_def depth_def

lemma keeps_control:
  assumes "good st" and "exec_control env m x n st = Some r"
  shows "keeps st r"
proof -
  have "n \<le> 96 \<Longrightarrow> \<bar>int n - (int OP_1 - 1)\<bar> < 128 * 256 ^ 4" by simp
  then show ?thesis
    using assms num_small [of "int n - (int OP_1 - 1)"]
    by (auto simp: exec_control_def op_control_defs keeps_defs Let_def split: if_splits list.splits sum.splits)
qed

lemma list_all_remove:
  "list_all P xs \<Longrightarrow> n < length xs \<Longrightarrow> P (xs ! n) \<and> list_all P (take n xs @ drop (Suc n) xs)"
  by (auto simp: list_all_iff dest: in_set_takeD in_set_dropD)

lemma keeps_pick_roll:
  assumes "good st"
  shows "keeps st (op_pick_roll n m st)"
proof (cases "\<exists>b x r. i_stack st = b # x # r")
  case False
  then show ?thesis by (auto simp: op_pick_roll_def split: list.splits)
next
  case True
  then obtain b x r where st: "i_stack st = b # x # r" by blast
  define xs where "xs = x # r"
  have "list_all (\<lambda>b. length b \<le> 520) xs" using assms by (simp add: keeps_defs st xs_def)
  from list_all_remove [OF this] show ?thesis
    using assms unfolding op_pick_roll_def st list.case Let_def
    unfolding xs_def [symmetric]
    by (auto simp: keeps_defs st xs_def [symmetric] intro!: keeps_with_num)
qed

lemma keeps_stack_ops:
  assumes g: "good st"
  shows "keeps st (op_toaltstack st)" "keeps st (op_fromaltstack st)" "keeps st (op_2drop st)"
    "keeps st (op_2dup st)" "keeps st (op_3dup st)" "keeps st (op_2over st)" "keeps st (op_2rot st)"
    "keeps st (op_2swap st)" "keeps st (op_ifdup st)" "keeps st (op_drop st)" "keeps st (op_dup st)"
    "keeps st (op_nip st)" "keeps st (op_over st)" "keeps st (op_rot st)" "keeps st (op_swap st)"
    "keeps st (op_tuck st)"
  using g by (simp_all add: op_stack_defs keeps_defs split: list.splits) auto

lemma keeps_stack:
  assumes "good st" and "exec_stack m n st = Some r"
  shows "keeps st r"
proof -
  have "\<bar>int (length (i_stack st))\<bar> < 128 * 256 ^ 4" using assms(1) by (simp add: keeps_defs)
  then have "length (BN_toScriptNumBuffer (int (length (i_stack st)))) \<le> 520" by (rule num_small)
  then have "keeps st (op_depth st)" using assms(1) by (simp add: op_depth_def keeps_defs)
  moreover have "length (b :: bytes) \<le> 520 \<Longrightarrow> length (BN_toScriptNumBuffer (int (length b))) \<le> 520" for b
    by (rule num_small) simp
  then have "keeps st (op_size st)"
    using assms(1) by (auto simp: op_size_def keeps_defs split: list.splits)
  ultimately show ?thesis
    using assms keeps_stack_ops [OF assms(1)] keeps_pick_roll [OF assms(1)]
    by (auto simp: exec_stack_def split: if_splits)
qed

lemma keeps_multisig_finish:
  "good st \<Longrightarrow> keeps st (multisig_finish n ok i st)"
proof -
  assume g: "good st"
  have d: "list_all (\<lambda>b. length b \<le> 520) (drop k (i_stack st))" for k
    using g by (auto simp: keeps_defs list_all_iff dest: in_set_dropD)
  have l: "length (drop k (i_stack st)) \<le> length (i_stack st)" for k by simp
  show ?thesis
    using g d [of "i - 1"] l [of "i - 1"]
    by (auto simp: multisig_finish_def keeps_defs Let_def simp del: length_drop split: list.splits)
qed

lemma keeps_op_count: "keeps (st\<lparr>i_nOpCount := k\<rparr>) r = keeps st r"
  by (simp add: keeps_def depth_def split: step_result.splits)

lemma keeps_multisig: "good st \<Longrightarrow> keeps st (op_checkmultisig env n m st)"
proof -
  assume g: "good st"
  have f: "keeps st (multisig_finish n ok i (st\<lparr>i_nOpCount := k\<rparr>))" if "k \<le> 201" for ok i k
    using keeps_multisig_finish [of "st\<lparr>i_nOpCount := k\<rparr>" n ok i] g that
    by (simp add: keeps_defs keeps_op_count)
  show ?thesis
    using f by (auto simp: op_checkmultisig_def Let_def intro!: keeps_with_num split: sum.splits)
qed

lemma keeps_arith_crypto:
  assumes g: "good st"
  shows "keeps st (exec_arith_crypto env m n st)"
proof -
  note num = num_small [OF unary_range] num_small [OF binary_range]
  have "keeps st (op_equal n st)" "keeps st (op_codeseparator st)" "keeps st (op_hash n st)"
    using g by (auto simp: op_equal_def op_codeseparator_def op_hash_def keeps_defs Let_def split: list.splits)
  moreover have "keeps st (op_unary n m st)" "keeps st (op_binary n m st)" "keeps st (op_within m st)"
    using g num by (auto simp: op_unary_def op_binary_def op_within_def keeps_defs Let_def
        intro!: keeps_with_num split: list.splits)
  moreover have "keeps st (op_checksig env n st)"
    using g by (auto simp: op_checksig_def keeps_defs Let_def split: list.splits sum.splits option.splits)
  ultimately show ?thesis
    using keeps_multisig [OF g] g by (simp add: exec_arith_crypto_def keeps_defs)
qed

lemma keeps_exec: "good st \<Longrightarrow> keeps st (exec_opcode env m x n st)"
  by (auto simp: exec_opcode_def keeps_arith_crypto split: option.splits dest: keeps_control keeps_stack)

lemma keeps_push:
  "good st \<Longrightarrow> has_buf c (\<lambda>b. length b > 520) = False \<Longrightarrow> keeps st (exec_push m c st)"
  by (auto simp: exec_push_def keeps_defs has_buf_def split: sum.splits option.splits bool.splits)

lemma step_good:
  assumes "good st" and "Interpreter_step env st = SOk st'"
  shows "small_elems st' \<and> depth st' \<le> depth st + 3 \<and> i_nOpCount st' \<le> 201"
  using assms(2)
proof (cases rule: step_okE)
  case (1 n)
  have g: "good (fetched st n)"
    using assms(1) 1(3) by (auto simp: keeps_defs fetched_nOpCount)
  have d: "depth (fetched st n) = depth st" by (simp add: depth_def)
  from 1(5) consider (a) m c where "exec_push m c (fetched st n) = SOk st'" "has_buf c (\<lambda>b. length b > 520) = False"
    | (b) m x where "exec_opcode env m x n (fetched st n) = SOk st'" | (c) "st' = fetched st n"
    using 1(2) by (auto split: if_splits)
  then show ?thesis
  proof cases
    case a
    with keeps_push [OF g a(2)] d show ?thesis by (metis keeps_simps(4))
  next
    case b
    with keeps_exec [OF g] d show ?thesis by (metis keeps_simps(4))
  next
    case c
    with g d show ?thesis by (simp add: keeps_defs)
  qed
qed

text \<open>
  The invariant of the loop: elements of at most 520 bytes, at most 201 operations, and stacks
  that can grow by three elements per remaining chunk without leaving the range of a 32-bit index.
\<close>

definition within_limits :: "interp \<Rightarrow> bool" where
  "within_limits st \<longleftrightarrow>
     small_elems st \<and> i_nOpCount st \<le> 201 \<and>
     depth st + 3 * (length (chunks (i_script st)) - i_pc st) < 2147483648"

interpretation limits: step_invariant within_limits
proof
  fix st env st'
  assume w: "within_limits st" and pc: "i_pc st < length (chunks (i_script st))"
    and s: "Interpreter_step env st = SOk st'"
  have "good st" using w by (simp add: within_limits_def good_def)
  note g = step_good [OF this s] and c = step_code [OF s]
  have "3 * (length (chunks (i_script st)) - i_pc st) = 3 * (length (chunks (i_script st)) - Suc (i_pc st)) + 3"
    using pc by simp
  with g c w show "within_limits st'" by (simp add: within_limits_def)
qed

text \<open>A chunk is written as at least one byte, so a script of 10000 bytes has at most 10000 chunks.\<close>

lemma chunk_enc_not_Nil: "chunk_enc c = Inr e \<Longrightarrow> e \<noteq> []"
proof -
  assume "chunk_enc c = Inr e"
  then obtain w where "Script_writeChunk [] c = Inr w" "e = concat w"
    by (auto simp: chunk_enc_def rbind_eq_Inr)
  moreover have "Script_writeChunk [] c = Inr w \<Longrightarrow> concat w \<noteq> []"
    by (auto simp: Script_writeChunk_def rbind_eq_Inr BufferWriter_writeUInt8_def BufferWriter_writeUInt16LE_def
        BufferWriter_writeUInt32LE_def writing_def BufferWriter_write_def write_defs
        split: option.splits if_splits)
  ultimately show ?thesis by simp
qed

lemma enc_all_length: "enc_all chunk_enc cs = Inr e \<Longrightarrow> length cs \<le> length e"
proof (induction cs arbitrary: e)
  case (Cons c cs)
  from Cons.prems obtain a b where "chunk_enc c = Inr a" "enc_all chunk_enc cs = Inr b" "e = a @ b"
    by (auto simp: rbind_eq_Inr)
  with Cons.IH [of b] chunk_enc_not_Nil [of c a] show ?case by (cases a) auto
qed simp

lemma evaluate_trueE:
  assumes "Interpreter_evaluate env st = Inr (True, st')"
  shows "eval_loop env st = SOk st'" "i_vfExec st' = []" "depth st' \<le> 1000"
    "length (chunks (i_script st)) \<le> 10000"
  using assms enc_all_length [of "chunks (i_script st)"]
  by (auto simp: Interpreter_evaluate_def rbind_eq_Inr depth_def Script_toBuffer_eq
      split: step_result.splits if_splits)

lemma loop_end:
  "eval_loop env st = SOk st' \<Longrightarrow> i_pc st \<le> length (chunks (i_script st)) \<Longrightarrow>
   i_script st' = i_script st \<and> i_pc st' = length (chunks (i_script st)) \<and> i_flags st' = i_flags st"
proof (induction env st rule: eval_loop.induct)
  case (1 env st)
  show ?case
  proof (cases "i_pc st < length (chunks (i_script st))")
    case True
    with "1.prems"(1) obtain st1 where st1: "Interpreter_step env st = SOk st1" "eval_loop env st1 = SOk st'"
      by (auto simp: eval_loop.simps [of env st] split: step_result.splits)
    then show ?thesis using "1.IH" [OF True st1] step_code [OF st1(1)] True by simp
  next
    case False
    with "1.prems" show ?thesis by (simp add: eval_loop.simps [of env st])
  qed
qed

text \<open>
  C8: when a script evaluates to true from a state within the limits, the interpreter has run to the
  end of the script, all conditionals are closed, no element of either stack has more than 520
  bytes, the stacks hold at most 1000 elements, and at most 201 operations were counted.
\<close>

theorem evaluate_limits:
  assumes "Interpreter_evaluate env st = Inr (True, st')"
    and "small_elems st" "depth st \<le> 1000" "i_nOpCount st \<le> 201" "i_pc st \<le> length (chunks (i_script st))"
  shows "small_elems st' \<and> depth st' \<le> 1000 \<and> i_nOpCount st' \<le> 201 \<and> i_vfExec st' = [] \<and>
    i_pc st' = length (chunks (i_script st)) \<and> i_script st' = i_script st"
proof -
  note e = evaluate_trueE [OF assms(1)]
  have "3 * (length (chunks (i_script st)) - i_pc st) \<le> 3 * 10000" using e(4) by simp
  then have "within_limits st" using assms(2-4) by (simp add: within_limits_def)
  from limits.loop_keeps [OF this e(1)] have "within_limits st'" .
  with e loop_end [OF e(1) assms(5)] show ?thesis by (simp add: within_limits_def)
qed

text \<open>An environment in which every key is valid and every signature verifies.\<close>

definition sample_env :: tx_env where
  "sample_env = \<lparr>pkvalid = (\<lambda>_. True), verifySignature = (\<lambda>_ _ _. Inr True), nLockTime = 0,
     inputIsFinal = Inr True\<rparr>"

lemma evaluate_limits_witness:
  "Interpreter_evaluate sample_env (new_Interpreter\<lparr>i_script := new_Script\<lparr>chunks := [op_chunk 118]\<rparr>, i_stack := [[7]]\<rparr>)
     = Inr (True, new_Interpreter\<lparr>i_script := new_Script\<lparr>chunks := [op_chunk 118]\<rparr>, i_stack := [[7], [7]],
         i_pc := 1, i_nOpCount := 1\<rparr>) \<and>
   small_elems (new_Interpreter\<lparr>i_script := new_Script\<lparr>chunks := [op_chunk 118]\<rparr>, i_stack := [[7], [7]],
         i_pc := 1, i_nOpCount := 1\<rparr>)"
proof -
  let ?s = "new_Interpreter\<lparr>i_script := new_Script\<lparr>chunks := [op_chunk 118]\<rparr>, i_stack := [[7]]\<rparr>"
  let ?t = "new_Interpreter\<lparr>i_script := new_Script\<lparr>chunks := [op_chunk 118]\<rparr>, i_stack := [[7], [7]], i_pc := 1, i_nOpCount := 1\<rparr>"
  have "Interpreter_step sample_env ?s = SOk ?t"
    by (simp add: Interpreter_step_def new_Interpreter_def has_buf_def disabled_opcodes_def exec_opcode_def
        exec_control_def exec_stack_def op_dup_def push_def)
  then have e: "Interpreter_evaluate sample_env ?s = Inr (True, ?t)"
    using chunk_enc_op [of 118]
    by (simp add: Interpreter_evaluate_def Script_toBuffer_eq new_Interpreter_def eval_loop.simps)
  with evaluate_limits [OF e] show ?thesis
    by (simp add: new_Interpreter_def small_elems_def depth_def)
qed

lemma loop_visits:
  "eval_loop env st = SOk st' \<Longrightarrow> i_pc st \<le> k \<Longrightarrow> k < length (chunks (i_script st)) \<Longrightarrow>
   \<exists>st1 st2. i_script st1 = i_script st \<and> i_pc st1 = k \<and> Interpreter_step env st1 = SOk st2"
proof (induction env st rule: eval_loop.induct)
  case (1 env st)
  then have "i_pc st < length (chunks (i_script st))" by simp
  with "1.prems"(1) obtain st1 where st1: "Interpreter_step env st = SOk st1" "eval_loop env st1 = SOk st'"
    by (auto simp: eval_loop.simps [of env st] split: step_result.splits)
  show ?case
  proof (cases "i_pc st = k")
    case True
    with st1(1) show ?thesis by blast
  next
    case False
    with "1.IH" [OF _ st1] "1.prems" step_code [OF st1(1)] show ?thesis by simp
  qed
qed

text \<open>
  C26: a script with a disabled opcode anywhere after the position at which the evaluation starts never
  evaluates to true, not even when the opcode is in a branch that is not taken.
\<close>

theorem disabled_never_true:
  assumes "i_pc st \<le> k" and "k < length (chunks (i_script st))"
    and "opcodenum (chunks (i_script st) ! k) = Some n" and "n \<in> set disabled_opcodes"
  shows "Interpreter_evaluate env st \<noteq> Inr (True, st')"
proof
  assume "Interpreter_evaluate env st = Inr (True, st')"
  from loop_visits [OF evaluate_trueE(1) [OF this] assms(1,2)]
  obtain st1 st2 where s: "i_script st1 = i_script st" "i_pc st1 = k" "Interpreter_step env st1 = SOk st2"
    by blast
  from s(3) show False by (cases rule: step_okE) (use assms(3,4) s(1,2) in auto)
qed

lemma disabled_never_true_witness:
  "\<forall>st'. Interpreter_evaluate sample_env (new_Interpreter\<lparr>i_script :=
     new_Script\<lparr>chunks := [op_chunk 0, op_chunk 99, op_chunk 126, op_chunk 104, op_chunk 81]\<rparr>\<rparr>) \<noteq> Inr (True, st')"
  using disabled_never_true [of "new_Interpreter\<lparr>i_script :=
      new_Script\<lparr>chunks := [op_chunk 0, op_chunk 99, op_chunk 126, op_chunk 104, op_chunk 81]\<rparr>\<rparr>" 2 126 sample_env]
  by (simp add: new_Interpreter_def disabled_opcodes_def)

text \<open>
  a step that goes on while some enclosing branch is not taken changes neither stack nor the
  position of the last code separator, whatever the opcode is.
\<close>

theorem skipped_branch:
  assumes "Interpreter_step env st = SOk st'" and "False \<in> set (i_vfExec st)"
  shows "i_stack st' = i_stack st \<and> i_altstack st' = i_altstack st \<and> i_pbegincodehash st' = i_pbegincodehash st"
  using assms(1)
proof (cases rule: step_okE)
  case (1 n)
  show ?thesis
  proof (cases "OP_IF \<le> n \<and> n \<le> OP_ENDIF")
    case True
    then have "n \<in> {99, 100, 101, 102, 103, 104}" by auto
    with 1(5) assms(2) show ?thesis
      by (auto simp: exec_opcode_def exec_control_def exec_stack_def exec_arith_crypto_def op_if_def op_else_def
          op_endif_def fail_def split: list.splits)
  next
    case False
    with 1(5) assms(2) show ?thesis by (auto split: if_splits)
  qed
qed

lemma skipped_branch_witness:
  "Interpreter_step sample_env (new_Interpreter\<lparr>i_script := new_Script\<lparr>chunks := [op_chunk 118]\<rparr>, i_vfExec := [True, False]\<rparr>)
     = SOk (new_Interpreter\<lparr>i_script := new_Script\<lparr>chunks := [op_chunk 118]\<rparr>, i_vfExec := [True, False],
         i_pc := 1, i_nOpCount := 1\<rparr>) \<and>
   i_stack (new_Interpreter\<lparr>i_script := new_Script\<lparr>chunks := [op_chunk 118]\<rparr>, i_vfExec := [True, False],
         i_pc := 1, i_nOpCount := 1\<rparr>) = []"
proof -
  let ?s = "new_Interpreter\<lparr>i_script := new_Script\<lparr>chunks := [op_chunk 118]\<rparr>, i_vfExec := [True, False]\<rparr>"
  have e: "Interpreter_step sample_env ?s = SOk (?s\<lparr>i_pc := 1, i_nOpCount := 1\<rparr>)"
    by (simp add: Interpreter_step_def new_Interpreter_def has_buf_def disabled_opcodes_def)
  from skipped_branch [OF e] e show ?thesis by (simp add: new_Interpreter_def)
qed

text \<open>
  a stack element counts as true exactly when the number that it encodes is not zero (so that
  both the empty buffer and negative zero are false).
\<close>

theorem castToBool_iff: "Interpreter_castToBool b \<longleftrightarrow> BN_fromSM b True \<noteq> 0"
proof -
  have "Interpreter_castToBool (bs @ [h]) \<longleftrightarrow> unat h mod 128 \<noteq> 0 \<or> be_val (rev bs) \<noteq> 0" for bs and h :: byte
  proof (induction bs)
    case Nil
    have "unat h mod 128 \<noteq> 0 \<longleftrightarrow> h \<noteq> 0 \<and> h \<noteq> 128"
    proof
      assume "unat h mod 128 \<noteq> 0" then show "h \<noteq> 0 \<and> h \<noteq> 128" by auto
    next
      assume "h \<noteq> 0 \<and> h \<noteq> 128"
      then have "unat h \<noteq> 0 \<and> unat h \<noteq> 128" using word_unat_eq_iff [of h 0] word_unat_eq_iff [of h 128] by simp
      then show "unat h mod 128 \<noteq> 0" using byte_high_zero [of h] by auto
    qed
    then show ?case by simp
  next
    case (Cons a bs)
    then show ?case by (auto simp: be_val_append be_val_Cons unat_eq_zero)
  qed
  moreover have "sm_val (h # t) = 0 \<longleftrightarrow> unat h mod 128 = 0 \<and> be_val t = 0" for h t
  proof -
    have "sm_val (h # t) = 0 \<longleftrightarrow> \<bar>sm_val (h # t)\<bar> = 0" by simp
    then show ?thesis unfolding abs_sm_val of_nat_eq_0_iff by simp
  qed
  moreover have "sm_val [] = 0" by (simp add: sm_val_def)
  ultimately show ?thesis
    by (cases b rule: rev_cases) (simp_all add: BN_fromSM_eq)
qed



section \<open>Multisignatures\<close>

lemma enc_push_chunk: "length b \<le> 75 \<Longrightarrow> chunk_enc (push_chunk b) = Inr (of_nat (length b) # b)"
  by (simp add: push_chunk_def chunk_enc_data)

definition ordered_match :: "('a \<Rightarrow> 'b \<Rightarrow> bool) \<Rightarrow> 'a list \<Rightarrow> 'b list \<Rightarrow> bool" where
  "ordered_match ok sigs keys \<longleftrightarrow> (\<exists>ks. subseq ks keys \<and> list_all2 ok sigs ks)"

lemma ordered_match_Nil [simp]: "ordered_match ok [] keys"
  by (simp add: ordered_match_def)

lemma ordered_match_length: "ordered_match ok sigs keys \<Longrightarrow> length sigs \<le> length keys"
  unfolding ordered_match_def using list_all2_lengthD list_emb_length by metis

lemma ordered_match_drop: "ordered_match ok (s # sigs) keys \<Longrightarrow> ordered_match ok sigs keys"
  by (auto simp: ordered_match_def list_all2_Cons1 dest: subseq_Cons')

lemma ordered_match_Cons:
  "ordered_match ok (s # sigs) (k # keys) \<longleftrightarrow>
     (if ok s k then ordered_match ok sigs keys else ordered_match ok (s # sigs) keys)"
proof (cases "ok s k")
  case True
  have "ordered_match ok sigs keys" if "ordered_match ok (s # sigs) (k # keys)"
  proof -
    from that obtain k' ks where k: "subseq (k' # ks) (k # keys)" "list_all2 ok sigs ks"
      by (auto simp: ordered_match_def list_all2_Cons1)
    then have "subseq ks keys" by (auto dest: subseq_Cons' split: if_splits simp: subseq_Cons2_iff)
    with k(2) show ?thesis by (auto simp: ordered_match_def)
  qed
  moreover have "ordered_match ok (s # sigs) (k # keys)" if "ordered_match ok sigs keys"
  proof -
    from that obtain ks where "subseq ks keys" "list_all2 ok sigs ks" by (auto simp: ordered_match_def)
    with True have "subseq (k # ks) (k # keys) \<and> list_all2 ok (s # sigs) (k # ks)" by simp
    then show ?thesis unfolding ordered_match_def by blast
  qed
  ultimately show ?thesis using True by auto
next
  case False
  have "subseq ks (k # keys) \<and> list_all2 ok (s # sigs) ks \<longleftrightarrow> subseq ks keys \<and> list_all2 ok (s # sigs) ks" for ks
    using False by (cases ks) (auto split: if_splits simp: subseq_Cons2_iff)
  with False show ?thesis by (simp add: ordered_match_def)
qed

lemma multisig_loop_match:
  assumes "\<forall>s\<in>set sigs. \<forall>k\<in>set keys. enc s k = Inr None"
  shows "multisig_loop enc ok sigs keys = Inr (Inr (ordered_match ok sigs keys))"
  using assms
proof (induction enc ok sigs keys rule: multisig_loop.induct)
  case (2 enc ok s sigs)
  show ?case using ordered_match_length [of ok "s # sigs" "[]"] by auto
next
  case (3 enc ok s sigs k keys)
  define sigs' where "sigs' = (if ok s k then sigs else s # sigs)"
  have "ordered_match ok (s # sigs) (k # keys) = ordered_match ok sigs' keys"
    by (simp add: ordered_match_Cons sigs'_def)
  moreover have "\<not> ordered_match ok sigs' keys" if "length sigs' > length keys"
    using that ordered_match_length [of ok sigs' keys] by auto
  moreover have "multisig_loop enc ok sigs' keys = Inr (Inr (ordered_match ok sigs' keys))"
    if "\<not> length sigs' > length keys"
    using that "3.IH" [of None sigs'] "3.prems" by (auto simp: sigs'_def)
  ultimately show ?case using "3.prems" by (simp add: sigs'_def [symmetric])
qed simp

lemma with_num_encoded:
  "0 \<le> v \<Longrightarrow> v \<le> 20 \<Longrightarrow> with_num st m (BN_toScriptNumBuffer v) f = f v"
  using scriptnum_length [of v 3] by (simp add: with_num_def scriptnum_decode_encode)

lemma BN_toNumber_count: "0 \<le> v \<Longrightarrow> v \<le> 20 \<Longrightarrow> BN_toNumber v = v"
  by (simp add: BN_toNumber_def double_round_nat_def nat_less_iff)

text \<open>
  C6: \<open>OP_CHECKMULTISIG\<close> on a stack with its two counts, the keys, the signatures and the extra
  element leaves true exactly when the signatures can be matched, in order, with a subsequence of
  the keys that verifies them.  The hypotheses are the limits on counts and operations, the flag on
  the extra element, and that the encodings are accepted.
\<close>

theorem checkmultisig_matches:
  assumes "i_stack st = BN_toScriptNumBuffer (int (length keys)) # keys @
      BN_toScriptNumBuffer (int (length sigs)) # sigs @ dummy # rest"
    and "length keys \<le> 20" and "length sigs \<le> length keys" and "i_nOpCount st + length keys \<le> 201"
    and "has_flag (i_flags st) SCRIPT_VERIFY_NULLDUMMY \<longrightarrow> dummy = []"
    and "subscript_of st sigs = Inr sub"
    and "\<forall>s\<in>set sigs. \<forall>k\<in>set keys. check_encodings env (i_flags st) s k = Inr None"
  shows "op_checkmultisig env OP_CHECKMULTISIG minimal st =
    SOk (st\<lparr>i_stack := bool_buf (ordered_match (try_signature env sub) sigs keys) # rest,
            i_nOpCount := i_nOpCount st + length keys\<rparr>)"
proof -
  let ?n = "length keys" and ?m = "length sigs"
  let ?st = "st\<lparr>i_nOpCount := i_nOpCount st + ?n\<rparr>"
  have sub: "subscript_of ?st sigs = Inr sub" using assms(6) by (simp add: subscript_of_def)
  have nth: "i_stack st ! Suc ?n = BN_toScriptNumBuffer (int ?m)"
    and keys: "take ?n (drop 1 (i_stack st)) = keys"
    and sigs: "take ?m (drop (Suc (Suc ?n)) (i_stack st)) = sigs"
    and dummy: "drop (Suc (Suc (?n + ?m))) (i_stack st) = dummy # rest"
    and len: "length (i_stack st) = Suc (Suc (Suc (?n + ?m + length rest)))"
    by (simp_all add: assms(1) nth_append)
  have "\<not> (has_flag (i_flags st) SCRIPT_VERIFY_NULLDUMMY \<and> length dummy \<noteq> 0)" using assms(5) by auto
  then show ?thesis
    using assms(1-4)
    by (auto simp: op_checkmultisig_def Let_def with_num_encoded BN_toNumber_count nth keys sigs len sub
        multisig_loop_match [OF assms(7)] multisig_finish_def dummy)
qed

lemma small_signature:
  "Signature_fromTxFormat [48, 6, 2, 1, 1, 2, 1, 1, t] =
     Inr ((new_Signature 1 1)\<lparr>sig_nhashtype := Some (unat t)\<rparr>)"
  using parseDER_layout [of "[1]" "[1]" False] Buffer_slice_nat [of 0 8 "[48, 6, 2, 1, 1, 2, 1, 1, t]"]
  by (simp add: Signature_fromTxFormat_def Signature_fromDER_def der_layout_def readUInt8_eq be_val_Cons)

lemma checkmultisig_matches_witness:
  "op_checkmultisig sample_env OP_CHECKMULTISIG True (new_Interpreter\<lparr>i_stack :=
     [[2], [7], [8], [1], [48, 6, 2, 1, 1, 2, 1, 1, 1], []]\<rparr>) =
   SOk (new_Interpreter\<lparr>i_stack := [[1]], i_nOpCount := 2\<rparr>)"
proof -
  let ?st = "new_Interpreter\<lparr>i_stack := [[2], [7], [8], [1], [48, 6, 2, 1, 1, 2, 1, 1, 1], []]\<rparr>"
  let ?sig = "[48, 6, 2, 1, 1, 2, 1, 1, 1]"
  have n: "BN_toScriptNumBuffer 2 = [2]" "BN_toScriptNumBuffer 1 = [1]" by code_simp+
  have "subscript_of ?st [?sig] = Inr new_Script"
    using addBuffer_eq [of ?sig new_Script]
    by (simp add: subscript_of_def new_Interpreter_def new_Script_def Script_set_def Script_findAndDelete_def
        Script_toBuffer_eq enc_push_chunk)
  moreover have "check_encodings sample_env 0 ?sig k = Inr None" for k
    by (simp add: check_encodings_def Interpreter_checkSignatureEncoding_def has_flag_def
        Interpreter_checkPubkeyEncoding_def)
  moreover have "ordered_match (try_signature sample_env new_Script) [?sig] [[7], [8]]"
    by (simp add: ordered_match_Cons try_signature_def small_signature sample_env_def)
  ultimately show ?thesis
    using checkmultisig_matches [of ?st "[[7], [8]]" "[?sig]" "[]" "[]" new_Script sample_env True]
    by (simp add: n new_Interpreter_def has_flag_def bool_buf_def)
qed

section \<open>Paying to a public key hash\<close>

lemma loop_step:
  "i_pc st < length (chunks (i_script st)) \<Longrightarrow> Interpreter_step env st = SOk st' \<Longrightarrow>
   eval_loop env st = eval_loop env st'"
  by (simp add: eval_loop.simps [of env st])

lemma loop_stop: "length (chunks (i_script st)) \<le> i_pc st \<Longrightarrow> eval_loop env st = SOk st"
  by (simp add: eval_loop.simps [of env st])

lemma loop_fail:
  "i_pc st < length (chunks (i_script st)) \<Longrightarrow> (\<forall>st'. Interpreter_step env st \<noteq> SOk st') \<Longrightarrow>
   eval_loop env st = Interpreter_step env st"
  by (auto simp: eval_loop.simps [of env st] split: step_result.splits)

lemma step_push:
  assumes "chunks (i_script st) ! i_pc st = push_chunk b" and "2 \<le> length b" "length b \<le> 520"
    and "i_vfExec st = []" and "i_pc st < length (chunks (i_script st))"
  shows "Interpreter_step env st = SOk (st\<lparr>i_pc := Suc (i_pc st), i_stack := b # i_stack st\<rparr>)"
proof -
  have "minimal_push (push_chunk b)" using assms(2,3) by (simp add: minimal_push_def push_chunk_def op_is_def)
  then have "Script_checkMinimalPush (i_script st) (i_pc st) = Inr True"
    using assms(1,5) by (simp add: Script_checkMinimalPush_def)
  then show ?thesis
    using assms by (auto simp: Interpreter_step_def push_chunk_def has_buf_def disabled_opcodes_def exec_push_def
        push_def Let_def)
qed

text \<open>The states of a spending of a public key hash output: after the input script, then in the output script.\<close>

definition pkh_state :: "script \<Rightarrow> nat \<Rightarrow> nat \<Rightarrow> nat \<Rightarrow> bytes list \<Rightarrow> interp" where
  "pkh_state s flags pc ops stack =
     \<lparr>i_script = s, i_stack = stack, i_altstack = [], i_pc = pc, i_pbegincodehash = 0, i_nOpCount = ops,
      i_vfExec = [], i_errstr = [], i_flags = flags\<rparr>"

definition pushable :: "bytes \<Rightarrow> bool" where
  "pushable b \<longleftrightarrow> 2 \<le> length b \<and> length b \<le> 520"

lemma pkh_state_sel [simp]:
  "i_script (pkh_state s f p n k) = s" "i_stack (pkh_state s f p n k) = k"
  "i_altstack (pkh_state s f p n k) = []" "i_pc (pkh_state s f p n k) = p" "i_vfExec (pkh_state s f p n k) = []"
  "i_flags (pkh_state s f p n k) = f"
  by (simp_all add: pkh_state_def)

lemma loop_pushes:
  assumes "chunks s = map push_chunk ds" and "list_all pushable ds" and "k \<le> length ds"
  shows "eval_loop env (pkh_state s flags k 0 (rev (take k ds))) = SOk (pkh_state s flags (length ds) 0 (rev ds))"
  using assms(3)
proof (induction "length ds - k" arbitrary: k)
  case 0
  then show ?case by (simp add: loop_stop assms(1))
next
  case (Suc m)
  then have k: "k < length ds" by simp
  let ?st = "pkh_state s flags k 0 (rev (take k ds))"
  have "pushable (ds ! k)" using assms(2) k by (simp add: list_all_length)
  then have "Interpreter_step env ?st = SOk (pkh_state s flags (Suc k) 0 (rev (take (Suc k) ds)))"
    using step_push [of ?st "ds ! k" env] assms(1) k
    by (simp add: pushable_def take_Suc_conv_app_nth) (simp add: pkh_state_def)
  from loop_step [OF _ this] show ?case using Suc.hyps(1) [of "Suc k"] Suc.hyps(2) k assms(1) by simp
qed

lemma eval_pushes:
  assumes "chunks s = map push_chunk ds" and "list_all pushable ds" and "length ds \<le> 1000"
    and "Script_toBuffer s = Inr e" "length e \<le> 10000"
  shows "Interpreter_evaluate env (pkh_state s flags 0 0 []) =
    Inr (True, pkh_state s flags (length ds) 0 (rev ds))"
  using loop_pushes [OF assms(1,2), of 0 env flags] assms(3-5) by (simp add: Interpreter_evaluate_def)

abbreviation pkh_chunks :: "bytes \<Rightarrow> chunk list" where
  "pkh_chunks h \<equiv> [op_chunk 118, op_chunk 169, push_chunk h, op_chunk 136, op_chunk 172]"

lemma subscript_pkh:
  assumes "chunks s = pkh_chunks h" and "length h = 20" and "2 \<le> length sig" "length sig \<le> 75" "length sig \<noteq> 20"
  shows "subscript_of (pkh_state s flags pc ops st) [sig] = Inr (Script_set new_Script (chunks s))"
proof -
  let ?b = "of_nat (length sig) # sig"
  have n: "unat (of_nat (length sig) :: byte) = length sig" using assms(4) by (simp add: unat_of_nat_byte)
  have "of_nat (length sig) \<noteq> (20 :: byte)" using assms(5) n by auto
  then have f: "filter (\<lambda>c. chunk_enc c \<noteq> Inr ?b) (chunks s) = chunks s"
    using assms(1-3) chunk_enc_op [of 118] chunk_enc_op [of 169] chunk_enc_op [of 136] chunk_enc_op [of 172]
    by (auto simp: enc_push_chunk)
  have "list_all (\<lambda>c. is_ok (chunk_enc c)) (chunks s)"
    "successively (\<lambda>c d. \<not> (chunk_enc c = Inr ?b \<and> chunk_enc d = Inr ?b)) (chunks s)"
    using assms(1-3) chunk_enc_op [of 118] chunk_enc_op [of 169] chunk_enc_op [of 136] chunk_enc_op [of 172]
    by (auto simp: enc_push_chunk)
  from findAndDelete_loop_filter [OF this] f
  have "findAndDelete_loop (hexSlice ?b) (chunks s) = Inr (chunks s)" by simp
  then show ?thesis
    using assms(4) addBuffer_eq [of sig new_Script]
    by (simp add: subscript_of_def pkh_state_def Script_findAndDelete_def Script_toBuffer_eq Script_set_def
        new_Script_def enc_push_chunk)
qed

lemmas exec_defs = exec_opcode_def exec_control_def exec_stack_def exec_arith_crypto_def disabled_opcodes_def

lemma steps_pkh:
  assumes "chunks s = pkh_chunks h" and "length h = 20"
  shows "Interpreter_step env (pkh_state s flags 0 0 [pk, sig]) = SOk (pkh_state s flags 1 1 [pk, pk, sig])"
    "Interpreter_step env (pkh_state s flags 1 1 [pk, pk, sig]) =
       SOk (pkh_state s flags 2 2 [Hash_sha256ripemd160 pk, pk, sig])"
    "Interpreter_step env (pkh_state s flags 2 2 [Hash_sha256ripemd160 pk, pk, sig]) =
       SOk (pkh_state s flags 3 2 [h, Hash_sha256ripemd160 pk, pk, sig])"
    "Hash_sha256ripemd160 pk = h \<Longrightarrow>
     Interpreter_step env (pkh_state s flags 3 2 [h, h, pk, sig]) = SOk (pkh_state s flags 4 3 [pk, sig])"
    "Hash_sha256ripemd160 pk \<noteq> h \<Longrightarrow>
     \<exists>st. Interpreter_step env (pkh_state s flags 3 2 [h, Hash_sha256ripemd160 pk, pk, sig]) = SFail st"
    "Interpreter_step env (pkh_state s flags 4 3 [pk, sig]) = op_checksig env 172 (pkh_state s flags 5 4 [pk, sig])"
proof -
  show "Interpreter_step env (pkh_state s flags 2 2 [Hash_sha256ripemd160 pk, pk, sig]) =
       SOk (pkh_state s flags 3 2 [h, Hash_sha256ripemd160 pk, pk, sig])"
    using step_push [of "pkh_state s flags 2 2 [Hash_sha256ripemd160 pk, pk, sig]" h env] assms
    by (simp add: pkh_state_def numeral_2_eq_2 numeral_3_eq_3)
qed (use assms(1) in \<open>simp_all add: Interpreter_step_def Let_def pkh_state_def has_buf_def exec_defs op_dup_def
    op_hash_def op_equal_def push_def fail_def hexSlice_inj\<close>)

lemma enc_pkh: "chunks s = pkh_chunks h \<Longrightarrow> length h = 20 \<Longrightarrow>
    Script_toBuffer s = Inr ([118, 169, 20] @ h @ [136, 172])"
  using chunk_enc_op [of 118] chunk_enc_op [of 169] chunk_enc_op [of 136] chunk_enc_op [of 172]
  by (simp add: Script_toBuffer_eq enc_push_chunk)

definition pkh_accepts :: "tx_env \<Rightarrow> nat \<Rightarrow> script \<Rightarrow> bytes \<Rightarrow> bytes \<Rightarrow> bytes \<Rightarrow> bool" where
  "pkh_accepts env flags s h pk sig \<longleftrightarrow>
     Hash_sha256ripemd160 pk = h \<and> check_encodings env flags sig pk = Inr None \<and> try_signature env s sig pk"

lemma eval_pkh_out:
  fixes env flags pk
  assumes "chunks s = pkh_chunks h" and "length h = 20" and "2 \<le> length sig" "length sig \<le> 75" "length sig \<noteq> 20"
  defines "P \<equiv> pkh_accepts env flags (Script_set new_Script (chunks s)) h pk sig"
  shows "\<exists>ok st. Interpreter_evaluate env (pkh_state s flags 0 0 [pk, sig]) = Inr (ok, st) \<and>
    (P \<longrightarrow> ok) \<and> (ok \<longrightarrow> i_stack st = [bool_buf P])"
proof -
  note steps = steps_pkh [OF assms(1,2)]
  have l: "length (chunks s) = 5" "chunks s \<noteq> []" using assms(1) by simp_all
  have loop: "eval_loop env (pkh_state s flags 0 0 [pk, sig]) =
      eval_loop env (pkh_state s flags 3 2 [h, Hash_sha256ripemd160 pk, pk, sig])"
    using loop_step [OF _ steps(1)] loop_step [OF _ steps(2)] loop_step [OF _ steps(3)] by (simp add: l)
  have ev: "Interpreter_evaluate env (pkh_state s flags 0 0 [pk, sig]) =
      (case eval_loop env (pkh_state s flags 0 0 [pk, sig]) of
         SFail st' \<Rightarrow> Inr (False, st')
       | SThrow e st' \<Rightarrow> Inr (False, st'\<lparr>i_errstr := ''SCRIPT_ERR_UNKNOWN_ERROR: ''\<rparr>)
       | SOk st' \<Rightarrow>
           if length (i_stack st') + length (i_altstack st') > 1000
           then Inr (False, st'\<lparr>i_errstr := ''SCRIPT_ERR_STACK_SIZE''\<rparr>)
           else if i_vfExec st' \<noteq> []
           then Inr (False, st'\<lparr>i_errstr := ''SCRIPT_ERR_UNBALANCED_CONDITIONAL''\<rparr>)
           else Inr (True, st'))"
    using enc_pkh [OF assms(1,2)] assms(2) by (simp add: Interpreter_evaluate_def pkh_state_def)
  show ?thesis
  proof (cases "Hash_sha256ripemd160 pk = h")
    case False
    with steps(5) [OF False, of env flags sig] loop loop_fail [of "pkh_state s flags 3 2 [h, Hash_sha256ripemd160 pk, pk, sig]" env]
    show ?thesis by (auto simp: ev l P_def pkh_accepts_def)
  next
    case True
    have "eval_loop env (pkh_state s flags 0 0 [pk, sig]) =
        (case op_checksig env 172 (pkh_state s flags 5 4 [pk, sig]) of SOk st' \<Rightarrow> eval_loop env st' | r \<Rightarrow> r)"
      using loop loop_step [OF _ steps(4) [OF True, of env flags sig]] True steps(6)
      by (simp add: l eval_loop.simps [of env "pkh_state s flags 4 3 [pk, sig]"])
    moreover have "op_checksig env 172 (pkh_state s flags 5 4 [pk, sig]) =
        (case check_encodings env flags sig pk of
           Inl e \<Rightarrow> SThrow e (pkh_state s flags 5 4 [pk, sig])
         | Inr (Some err) \<Rightarrow> fail err (pkh_state s flags 5 4 [pk, sig])
         | Inr None \<Rightarrow> SOk (pkh_state s flags 5 4
             [bool_buf (try_signature env (Script_set new_Script (chunks s)) sig pk)]))"
      using subscript_pkh [OF assms(1-5), of flags 5 4 "[pk, sig]"]
      by (simp add: op_checksig_def pkh_state_def Let_def split: sum.splits option.splits)
    ultimately show ?thesis
      using True by (auto simp: ev fail_def P_def pkh_accepts_def loop_stop l
          split: sum.splits option.splits)
  qed
qed

lemma p2pkh_run:
  assumes out: "chunks spk = pkh_chunks h" "length h = 20" and inp: "chunks ssig = [push_chunk sig, push_chunk pk]"
    and len: "2 \<le> length sig" "length sig \<le> 75" "length sig \<noteq> 20" "2 \<le> length pk" "length pk \<le> 75"
  shows "\<exists>st. Interpreter_verify env new_Interpreter ssig spk flags =
    Inr (Hash_sha256ripemd160 pk = h \<and> check_encodings env flags sig pk = Inr None \<and>
         try_signature env (Script_set new_Script (chunks spk)) sig pk, st)"
proof -
  have start: "Interpreter_set new_Interpreter ssig None flags = pkh_state ssig flags 0 0 []"
    "Interpreter_set (Interpreter_initialize (pkh_state ssig flags 2 0 [pk, sig])) spk (Some [pk, sig]) flags
       = pkh_state spk flags 0 0 [pk, sig]"
    by (simp_all add: Interpreter_set_def new_Interpreter_def pkh_state_def Interpreter_initialize_def)
  have po: "Script_isPushOnly ssig"
    using inp len by (simp add: Script_isPushOnly_def push_chunk_def)
  have nsh: "Script_isScriptHashOut spk = Inr False"
    using enc_pkh [OF out] out(2) by (simp add: Script_isScriptHashOut_def)
  have "Interpreter_evaluate env (pkh_state ssig flags 0 0 []) = Inr (True, pkh_state ssig flags 2 0 [pk, sig])"
    using eval_pushes [of ssig "[sig, pk]" _ env flags] inp len
    by (simp add: pushable_def Script_toBuffer_eq enc_push_chunk numeral_2_eq_2)
  note eval_in = this
  define P where "P = pkh_accepts env flags (Script_set new_Script (chunks spk)) h pk sig"
  obtain ok st where ev: "Interpreter_evaluate env (pkh_state spk flags 0 0 [pk, sig]) = Inr (ok, st)"
    and ok: "P \<longrightarrow> ok" "ok \<longrightarrow> i_stack st = [bool_buf P]"
    using eval_pkh_out [OF out len(1,2,3), of env flags pk] unfolding P_def by blast
  have "\<exists>st. Interpreter_verify env new_Interpreter ssig spk flags = Inr (P, st)"
    using ok by (cases P; cases ok)
      (auto simp: Interpreter_verify_def Let_def start po nsh eval_in ev bool_buf_def)
  then show ?thesis unfolding P_def pkh_accepts_def .
qed

text \<open>
  C4: the interpreter accepts the input built from a public key and a signature for a public key hash
  output exactly when the key hashes to the output, the encodings pass the flags, and the signature
  verifies against the output script.
\<close>

theorem p2pkh_verify:
  assumes "Script_buildPublicKeyHashOut addr = Inr spk" and "length (hashBuffer addr) = 20"
    and "Script_buildPublicKeyHashIn pk sg ht = Inr ssig"
    and "sig = sg @ sighash_byte ht" and "2 \<le> length sig" "length sig \<le> 75" "length sig \<noteq> 20"
    and "2 \<le> length pk" "length pk \<le> 75"
  shows "\<exists>st. Interpreter_verify env new_Interpreter ssig spk flags =
    Inr (Hash_sha256ripemd160 pk = hashBuffer addr \<and> check_encodings env flags sig pk = Inr None \<and>
         try_signature env (Script_set new_Script (chunks spk)) sig pk, st)"
proof (rule p2pkh_run [OF _ assms(2) _ assms(5-9)])
  show "chunks spk = pkh_chunks (hashBuffer addr)"
    using assms(1,2) by (auto simp: Script_buildPublicKeyHashOut_def adds_defs push_chunk_def)
  show "chunks ssig = [push_chunk sig, push_chunk pk]"
    using assms(3-9) by (auto simp: Script_buildPublicKeyHashIn_def adds_defs push_chunk_def)
qed

lemma p2pkh_verify_witness:
  "\<exists>st. Interpreter_verify sample_env new_Interpreter
      (new_Script\<lparr>chunks := [push_chunk [48, 6, 2, 1, 1, 2, 1, 1, 1], push_chunk (replicate 33 2)]\<rparr>)
      (new_Script\<lparr>chunks := pkh_chunks (Hash_sha256ripemd160 (replicate 33 2)), s_network := Some livenet\<rparr>) 0
    = Inr (True, st)"
proof -
  let ?pk = "replicate 33 2 :: bytes"
  let ?a = "\<lparr>hashBuffer = Hash_sha256ripemd160 ?pk, a_network = livenet, a_type = PayToPublicKeyHash\<rparr>"
  let ?in = "new_Script\<lparr>chunks := [push_chunk [48, 6, 2, 1, 1, 2, 1, 1, 1], push_chunk ?pk]\<rparr>"
  let ?out = "new_Script\<lparr>chunks := pkh_chunks (Hash_sha256ripemd160 ?pk), s_network := Some livenet\<rparr>"
  have ht: "sighash_byte None = [1]" by code_simp
  have o: "Script_buildPublicKeyHashOut ?a = Inr ?out"
    by (simp add: Script_buildPublicKeyHashOut_def adds_defs push_chunk_def)
  have i: "Script_buildPublicKeyHashIn ?pk [48, 6, 2, 1, 1, 2, 1, 1] None = Inr ?in"
    by (simp add: Script_buildPublicKeyHashIn_def adds_defs push_chunk_def ht)
  have "try_signature sample_env s [48, 6, 2, 1, 1, 2, 1, 1, 1] k" for s k
    by (simp add: try_signature_def small_signature sample_env_def)
  moreover have "check_encodings sample_env 0 [48, 6, 2, 1, 1, 2, 1, 1, 1] k = Inr None" for k
    by (simp add: check_encodings_def Interpreter_checkSignatureEncoding_def has_flag_def
        Interpreter_checkPubkeyEncoding_def)
  moreover have "\<exists>st. Interpreter_verify sample_env new_Interpreter ?in ?out 0 =
      Inr (Hash_sha256ripemd160 ?pk = hashBuffer ?a \<and>
        check_encodings sample_env 0 [48, 6, 2, 1, 1, 2, 1, 1, 1] ?pk = Inr None \<and>
        try_signature sample_env (Script_set new_Script (chunks ?out)) [48, 6, 2, 1, 1, 2, 1, 1, 1] ?pk, st)"
    by (rule p2pkh_verify [OF o _ i]) (simp_all add: ht)
  ultimately show ?thesis by simp
qed

section \<open>Paying to a script hash\<close>

abbreviation sh_chunks :: "bytes \<Rightarrow> chunk list" where
  "sh_chunks h \<equiv> [op_chunk 169, push_chunk h, op_chunk 135]"

lemma eval_sh_out:
  assumes "chunks s = sh_chunks h" and "length h = 20" and "length k \<le> 999"
  shows "\<exists>st. Interpreter_evaluate env (pkh_state s flags 0 0 (r # k)) = Inr (True, st) \<and>
    i_stack st = bool_buf (Hash_sha256ripemd160 r = h) # k"
proof -
  have 1: "Interpreter_step env (pkh_state s flags 0 0 (r # k)) =
      SOk (pkh_state s flags 1 1 (Hash_sha256ripemd160 r # k))"
    using assms(1) by (simp add: Interpreter_step_def Let_def has_buf_def exec_defs op_hash_def pkh_state_def)
  have 2: "Interpreter_step env (pkh_state s flags 1 1 (Hash_sha256ripemd160 r # k)) =
      SOk (pkh_state s flags 2 1 (h # Hash_sha256ripemd160 r # k))"
    using step_push [of "pkh_state s flags 1 1 (Hash_sha256ripemd160 r # k)" h env] assms
    by (simp add: numeral_2_eq_2) (simp add: pkh_state_def numeral_2_eq_2)
  have 3: "Interpreter_step env (pkh_state s flags 2 1 (h # Hash_sha256ripemd160 r # k)) =
      SOk (pkh_state s flags 3 2 (bool_buf (Hash_sha256ripemd160 r = h) # k))"
    using assms(1) by (simp add: Interpreter_step_def Let_def has_buf_def exec_defs op_equal_def hexSlice_inj pkh_state_def)
  have "eval_loop env (pkh_state s flags 0 0 (r # k)) =
      SOk (pkh_state s flags 3 2 (bool_buf (Hash_sha256ripemd160 r = h) # k))"
    using loop_step [OF _ 1] loop_step [OF _ 2] loop_step [OF _ 3] assms(1)
    by (simp add: loop_stop)
  moreover have "Script_toBuffer s = Inr ([169, 20] @ h @ [135])"
    using assms(1,2) chunk_enc_op [of 169] chunk_enc_op [of 135] by (simp add: Script_toBuffer_eq enc_push_chunk)
  ultimately show ?thesis using assms(2,3) by (simp add: Interpreter_evaluate_def)
qed

text \<open>
  C25: an input that only pushes data, ending with a serialised redeem script, is checked against a
  script hash output in two stages: it is refused when the hashes differ, and otherwise the outcome
  is that of the redeem script run on the rest of the data, an error included when the redeem script
  cannot be parsed.
\<close>

theorem p2sh_verify:
  assumes "hash_out h net = Inr spk" and "length h = 20" and "has_flag flags SCRIPT_VERIFY_P2SH"
    and "Script_adds new_Script (map ArgBuffer (ds @ [r])) = Inr ssig" and "list_all pushable (ds @ [r])"
    and "Script_toBuffer ssig = Inr e" and "length e \<le> 10000" and "length ds \<le> 999"
  shows "\<exists>st. Interpreter_verify env new_Interpreter ssig spk flags =
    (if Hash_sha256ripemd160 r \<noteq> h then Inr (False, st)
     else rbind (Script_fromBuffer r) (\<lambda>redeem.
       rbind (Interpreter_evaluate env (pkh_state redeem flags 0 0 (rev ds))) (\<lambda>(ok, st).
         if \<not> ok then Inr (False, st)
         else case i_stack st of
           [] \<Rightarrow> Inr (False, st\<lparr>i_errstr := ''SCRIPT_ERR_EVAL_FALSE_NO_P2SH_STACK''\<rparr>)
         | b # _ \<Rightarrow>
             if \<not> Interpreter_castToBool b
             then Inr (False, st\<lparr>i_errstr := ''SCRIPT_ERR_EVAL_FALSE_IN_P2SH_STACK''\<rparr>)
             else Inr (True, st))))"
proof -
  have "list_all (\<lambda>b. length b < 4294967296) (ds @ [r])"
    using assms(5) by (auto simp: list_all_iff pushable_def)
  from adds_buffers [OF this, of new_Script] assms(4)
  have inp: "chunks ssig = map push_chunk (ds @ [r])" by (auto simp: new_Script_def)
  have out: "chunks spk = sh_chunks h"
    using assms(1,2) by (auto simp: hash_out_def adds_defs push_chunk_def)
  have po: "Script_isPushOnly ssig"
    using inp assms(5) by (auto simp: Script_isPushOnly_def push_chunk_def list_all_iff pushable_def)
  have start: "Interpreter_set new_Interpreter ssig None flags = pkh_state ssig flags 0 0 []"
    "Interpreter_set (Interpreter_initialize st) t (Some k) flags = pkh_state t flags 0 0 k" for st t k
    by (simp_all add: Interpreter_set_def new_Interpreter_def pkh_state_def Interpreter_initialize_def)
  have sh: "Script_isScriptHashOut spk = Inr True"
    using out assms(2) chunk_enc_op [of 169] chunk_enc_op [of 135]
    by (simp add: Script_isScriptHashOut_def Script_toBuffer_eq enc_push_chunk nth_append)
  have e1: "Interpreter_evaluate env (pkh_state ssig flags 0 0 []) =
      Inr (True, pkh_state ssig flags (Suc (length ds)) 0 (r # rev ds))"
    using eval_pushes [OF inp assms(5) _ assms(6,7), of env flags] assms(8) by simp
  obtain st where e2: "Interpreter_evaluate env (pkh_state spk flags 0 0 (r # rev ds)) = Inr (True, st)"
    "i_stack st = bool_buf (Hash_sha256ripemd160 r = h) # rev ds"
    using eval_sh_out [OF out assms(2), of "rev ds" env flags r] assms(8) by auto
  show ?thesis
    using assms(3)
    by (auto simp: Interpreter_verify_def verify_redeem_def Let_def start po sh e1 e2 bool_buf_def)
qed

lemma p2sh_verify_witness:
  "Interpreter_verify sample_env new_Interpreter (new_Script\<lparr>chunks := [push_chunk [77, 0]]\<rparr>)
     (new_Script\<lparr>chunks := sh_chunks (Hash_sha256ripemd160 [77, 0])\<rparr>) 1 = Inl (ScriptInvalidBuffer [77, 0])"
proof -
  have "hash_out (Hash_sha256ripemd160 [77, 0]) None =
      Inr (new_Script\<lparr>chunks := sh_chunks (Hash_sha256ripemd160 [77, 0])\<rparr>)"
    by (simp add: hash_out_def adds_defs push_chunk_def)
  moreover have "\<exists>m. Buffer_readUInt16LE [77, 0] 1 = Inl (RangeError m)" by (rule reads_out_of_range(2)) simp_all
  then have "Script_fromBuffer [77, 0] = Inl (ScriptInvalidBuffer [77, 0])"
    by (auto simp: Script_fromBuffer_def Script_readChunks.simps new_BufferReader_def BufferReader_finished_def
        Script_readChunk_def BufferReader_readUInt8_def BufferReader_readUInt16LE_def advance_def readUInt8_eq)
  ultimately show ?thesis
    using p2sh_verify [of "Hash_sha256ripemd160 [77, 0]" None _ 1 "[]" "[77, 0]" _ "[2, 77, 0]" sample_env]
    by (simp add: has_flag_def addBuffer_eq new_Script_def pushable_def Script_toBuffer_eq enc_push_chunk)
qed

section \<open>Encoding flags\<close>

end
