(* ===== verification/Base58.thy ===== *)
theory Base58
  imports Hashes JSString
begin

text \<open>
  \<open>basex\<close>, \<open>bs58\<close>, \<open>Base58\<close> and \<open>Base58Check\<close> of magnachain.js.  Both directions of the conversion
  work on an array of digits, least significant first, that is multiplied and added to in place; the
  locale \<open>positional\<close> holds what one such step does to the value and to the leading digit, and is
  interpreted for the two bases.  Characters are those of \<open>char\<close>.
\<close>

section \<open>The conversion\<close>

text \<open>
  The inner \<open>for\<close> and \<open>while\<close> loops: multiply the digits by \<open>M\<close> and add the carry.  In \<open>decode\<close> the
  base is 256, and \<open>carry & 0xff\<close> and \<open>carry >>= 8\<close> are remainder and quotient of a carry that stays
  below \<open>2 ^ 16\<close>.
\<close>

fun carry_loop :: "nat \<Rightarrow> nat \<Rightarrow> nat list \<Rightarrow> nat \<Rightarrow> nat list \<times> nat" where
  "carry_loop B M [] carry = ([], carry)"
| "carry_loop B M (d # ds) carry =
     (let carry = carry + d * M; (ds', c') = carry_loop B M ds (carry div B) in (carry mod B # ds', c'))"

fun push_carry :: "nat \<Rightarrow> nat \<Rightarrow> nat list" where
  "push_carry B carry = (if carry = 0 \<or> B < 2 then [] else carry mod B # push_carry B (carry div B))"

declare push_carry.simps [simp del]

lemma push_carry_0 [simp]: "push_carry B 0 = []"
  by (simp add: push_carry.simps)

definition add_digit :: "nat \<Rightarrow> nat \<Rightarrow> nat list \<Rightarrow> nat \<Rightarrow> nat list" where
  "add_digit B M digits v = (let (ds, carry) = carry_loop B M digits v in ds @ push_carry B carry)"

text \<open>\<open>for (k = 0; xs[k] === z && k < xs.length - 1; ++k)\<close>\<close>

definition leading :: "'a \<Rightarrow> 'a list \<Rightarrow> nat" where
  "leading z xs = length (takeWhile (\<lambda>x. x = z) (butlast xs))"

definition basex_encode :: "string \<Rightarrow> bytes \<Rightarrow> string" where
  "basex_encode A source =
     (if length source = 0 then []
      else
        let digits = foldl (\<lambda>ds b. add_digit (length A) 256 ds (unat b)) [0] source
        in replicate (leading 0 source) (A ! 0) @ map (\<lambda>d. A ! d) (rev digits))"

definition alphabet_map :: "string \<Rightarrow> char \<Rightarrow> nat option" where
  "alphabet_map A c = map_of (zip A [0..<length A]) c"

fun decode_loop :: "string \<Rightarrow> nat list \<Rightarrow> string \<Rightarrow> nat list option" where
  "decode_loop A bs [] = Some bs"
| "decode_loop A bs (c # cs) =
     (case alphabet_map A c of
        None \<Rightarrow> None
      | Some v \<Rightarrow> decode_loop A (add_digit 256 (length A) bs v) cs)"

definition basex_decodeUnsafe :: "string \<Rightarrow> string \<Rightarrow> bytes option" where
  "basex_decodeUnsafe A s =
     (if length s = 0 then Some []
      else case decode_loop A [0] s of
        None \<Rightarrow> None
      | Some bs \<Rightarrow> Some (map of_nat (rev (bs @ replicate (leading (A ! 0) s) 0))))"

definition basex_decode :: "string \<Rightarrow> string \<Rightarrow> bytes result" where
  "basex_decode A s =
     (case basex_decodeUnsafe A s of
        Some b \<Rightarrow> Inr b
      | None \<Rightarrow> Inl (PlainError (''Non-base'' @ dec_string (length A) @ '' character'')))"

definition ALPHABET :: string where
  "ALPHABET = ''123456789ABCDEFGHJKLMNPQRSTUVWXYZabcdefghijkmnopqrstuvwxyz''"

definition Base58_validCharacters :: "string \<Rightarrow> bool" where
  "Base58_validCharacters chars = list_all (\<lambda>c. c \<in> set ALPHABET) chars"

definition Base58_encode :: "bytes \<Rightarrow> string" where
  "Base58_encode b = basex_encode ALPHABET b"

definition Base58_decode :: "string \<Rightarrow> bytes result" where
  "Base58_decode s = basex_decode ALPHABET s"

section \<open>Base58Check\<close>

definition Base58Check_checksum :: "bytes \<Rightarrow> bytes" where
  "Base58Check_checksum b = Buffer_slice (Hash_sha256sha256 b) 0 4"

text \<open>\<open>validChecksum\<close> of buffers, with and without a separate checksum.\<close>

definition Base58Check_validChecksum :: "bytes \<Rightarrow> bytes option \<Rightarrow> bool" where
  "Base58Check_validChecksum data0 checksum0 =
     (let (data, checksum) =
        (case checksum0 of
           Some c \<Rightarrow> (data0, c)
         | None \<Rightarrow> (Buffer_slice data0 0 (-4), Buffer_slice data0 (-4) (int (length data0))))
      in hexSlice (Base58Check_checksum data) = hexSlice checksum)"

definition Base58Check_decode :: "string \<Rightarrow> bytes result" where
  "Base58Check_decode s =
     rbind (Base58_decode s) (\<lambda>b.
       if length b < 4 then Inl (PlainError ''Input string too short'')
       else
         let data = Buffer_slice b 0 (-4);
             csum = Buffer_slice b (-4) (int (length b));
             hash4 = Buffer_slice (Hash_sha256sha256 data) 0 4
         in if hexSlice csum \<noteq> hexSlice hash4 then Inl (PlainError ''Checksum mismatch'')
            else Inr data)"

definition Base58Check_encode :: "bytes \<Rightarrow> string" where
  "Base58Check_encode b = Base58_encode (b @ Base58Check_checksum b)"

section \<open>Digits in a base\<close>

definition pos_val :: "nat \<Rightarrow> nat list \<Rightarrow> nat" where
  "pos_val B ds = foldr (\<lambda>d a. d + B * a) ds 0"

lemma pos_val_simps [simp]: "pos_val B [] = 0" "pos_val B (d # ds) = d + B * pos_val B ds"
  by (simp_all add: pos_val_def)

lemma pos_val_append: "pos_val B (xs @ ys) = pos_val B xs + B ^ length xs * pos_val B ys"
  by (induction xs) (simp_all add: algebra_simps)

definition canonical :: "nat list \<Rightarrow> bool" where
  "canonical ds \<longleftrightarrow> ds = [0] \<or> (ds \<noteq> [] \<and> last ds \<noteq> 0)"

locale positional =
  fixes B :: nat
  assumes base: "2 \<le> B"
begin

lemma carry_value:
  "carry_loop B M ds c = (ds', c') \<Longrightarrow>
   pos_val B ds' + B ^ length ds * c' = c + M * pos_val B ds \<and> length ds' = length ds \<and> list_all (\<lambda>d. d < B) ds'"
proof (induction ds arbitrary: c ds')
  case (Cons d ds)
  then obtain es where es: "carry_loop B M ds ((c + d * M) div B) = (es, c')" "ds' = (c + d * M) mod B # es"
    by (auto simp: Let_def split: prod.splits)
  note ih = Cons.IH [OF es(1)]
  have "pos_val B ds' + B ^ length (d # ds) * c' =
      (c + d * M) mod B + B * (pos_val B es + B ^ length ds * c')"
    by (simp add: es(2) algebra_simps)
  also have "\<dots> = (c + d * M) mod B + B * ((c + d * M) div B) + B * (M * pos_val B ds)"
    using ih by (simp add: algebra_simps)
  also have "\<dots> = c + M * pos_val B (d # ds)" by (simp add: algebra_simps)
  finally show ?case using ih es(2) base by simp
qed simp

lemma carry_top:
  "carry_loop B M ds c = (ds', 0) \<Longrightarrow> ds \<noteq> [] \<Longrightarrow> last ds \<noteq> 0 \<Longrightarrow> 0 < M \<Longrightarrow> last ds' \<noteq> 0"
proof (induction ds arbitrary: c ds')
  case (Cons d ds)
  then obtain es where es: "carry_loop B M ds ((c + d * M) div B) = (es, 0)" "ds' = (c + d * M) mod B # es"
    by (auto simp: Let_def split: prod.splits)
  show ?case
  proof (cases "ds = []")
    case True
    with es have "(c + d * M) div B = 0" "es = []" by auto
    moreover from this have "(c + d * M) mod B = c + d * M" using base div_eq_0_iff by auto
    ultimately show ?thesis using Cons.prems True es(2) by simp
  next
    case False
    with Cons.IH [OF es(1)] Cons.prems have "last es \<noteq> 0" by simp
    moreover have "es \<noteq> []" using carry_value [OF es(1)] False by auto
    ultimately show ?thesis using es(2) by simp
  qed
qed simp

lemma push_value:
  "pos_val B (push_carry B c) = c \<and> list_all (\<lambda>d. d < B) (push_carry B c) \<and>
   (0 < c \<longrightarrow> push_carry B c \<noteq> [] \<and> last (push_carry B c) \<noteq> 0)"
proof (induction c rule: less_induct)
  case (less c)
  show ?case
  proof (cases "c = 0")
    case True
    then show ?thesis by simp
  next
    case False
    then have "c div B < c" using base by simp
    from less.IH [OF this] show ?thesis
      using False base by (cases "c div B = 0") (auto simp: push_carry.simps [of B c] div_eq_0_iff)
  qed
qed

lemma add_digit_value:
  "pos_val B (add_digit B M ds v) = pos_val B ds * M + v \<and> list_all (\<lambda>d. d < B) (add_digit B M ds v)"
proof -
  obtain ds' c where c: "carry_loop B M ds v = (ds', c)" by fastforce
  show ?thesis
    using carry_value [OF c] push_value [of c]
    by (simp add: add_digit_def c pos_val_append algebra_simps)
qed

lemma add_digit_canonical:
  assumes "canonical ds" and "0 < M"
  shows "canonical (add_digit B M ds v)"
proof -
  obtain ds' c where c: "carry_loop B M ds v = (ds', c)" by fastforce
  have r: "add_digit B M ds v = ds' @ push_carry B c" by (simp add: add_digit_def c)
  consider "0 < c" | "c = 0" "last ds \<noteq> 0" "ds \<noteq> []" | "c = 0" "ds = [0]"
    using assms(1) by (auto simp: canonical_def)
  then show ?thesis
  proof cases
    case 1
    with push_value [of c] show ?thesis by (simp add: r canonical_def)
  next
    case 2
    with carry_top [of M ds v ds'] carry_value [OF c] c assms(2) show ?thesis
      by (auto simp: r canonical_def)
  next
    case 3
    then show ?thesis using c unfolding r by (auto simp: canonical_def)
  qed
qed

lemma digits_value:
  assumes "0 < M" and "canonical ds" and "list_all (\<lambda>d. d < B) ds"
  shows "pos_val B (foldl (add_digit B M) ds xs) = pos_val B ds * M ^ length xs + pos_val M (rev xs) \<and>
    canonical (foldl (add_digit B M) ds xs) \<and> list_all (\<lambda>d. d < B) (foldl (add_digit B M) ds xs)"
  using assms(2,3)
proof (induction xs arbitrary: ds)
  case (Cons x xs)
  from Cons.IH [OF add_digit_canonical [OF Cons.prems(1) assms(1), of x]] add_digit_value [of M ds x]
  show ?case by (simp add: pos_val_append algebra_simps)
qed simp

lemma pos_val_0: "list_all (\<lambda>d. d < B) ds \<Longrightarrow> pos_val B ds = 0 \<longleftrightarrow> list_all (\<lambda>d. d = 0) ds"
  using base by (induction ds) auto

lemma digits_unique:
  assumes "pos_val B ds = pos_val B es" "list_all (\<lambda>d. d < B) ds" "list_all (\<lambda>d. d < B) es"
    "canonical ds" "canonical es"
  shows "ds = es"
proof -
  have trim: "ds = es" if "pos_val B ds = pos_val B es" "list_all (\<lambda>d. d < B) ds" "list_all (\<lambda>d. d < B) es"
    "ds \<noteq> [] \<longrightarrow> last ds \<noteq> 0" "es \<noteq> [] \<longrightarrow> last es \<noteq> 0" for ds es
    using that
  proof (induction ds arbitrary: es)
    case Nil
    have "list_all (\<lambda>d. d = 0) es" using Nil pos_val_0 [of es] by simp
    with Nil show ?case by (cases es rule: rev_cases) auto
  next
    case (Cons d ds)
    show ?case
    proof (cases es)
      case Nil
      have "list_all (\<lambda>d. d = 0) (d # ds)" using Cons.prems pos_val_0 [of "d # ds"] Nil by simp
      with Cons.prems(4) show ?thesis by (cases ds rule: rev_cases) auto
    next
      case (Cons e es')
      have "(d + B * pos_val B ds) mod B = (e + B * pos_val B es') mod B"
        "(d + B * pos_val B ds) div B = (e + B * pos_val B es') div B"
        using Cons.prems(1) Cons by simp_all
      then have "d = e" "pos_val B ds = pos_val B es'" using Cons.prems(2,3) Cons base by simp_all
      then show ?thesis using Cons.IH [of es'] Cons.prems Cons by (auto split: if_splits)
    qed
  qed
  have z: "pos_val B xs = 0 \<longleftrightarrow> xs = [0]" if "canonical xs" "list_all (\<lambda>d. d < B) xs" for xs
    using that pos_val_0 [of xs] by (cases xs rule: rev_cases) (auto simp: canonical_def)
  show ?thesis
  proof (cases "pos_val B ds = 0")
    case True
    then show ?thesis using z [of ds] z [of es] assms by simp
  next
    case False
    then have "ds \<noteq> [0]" "es \<noteq> [0]" using assms(1) by auto
    then show ?thesis using trim [OF assms(1-3)] assms(4,5) by (auto simp: canonical_def)
  qed
qed

end

section \<open>Both directions\<close>

text \<open>The conversion of a big-endian digit list from base \<open>M\<close> to base \<open>B\<close>, leading zeros kept.\<close>

definition rebase :: "nat \<Rightarrow> nat \<Rightarrow> nat list \<Rightarrow> nat list" where
  "rebase B M xs = replicate (leading 0 xs) 0 @ rev (foldl (add_digit B M) [0] xs)"

lemma leading_split:
  assumes "xs \<noteq> []"
  shows "\<exists>ys. xs = replicate (leading 0 xs) 0 @ ys \<and> canonical (rev ys)"
proof -
  let ?k = "leading 0 xs"
  have "takeWhile (\<lambda>x. x = 0) (butlast xs) = replicate ?k 0"
    unfolding leading_def by (intro replicate_eqI [symmetric, THEN sym]) (auto dest: set_takeWhileD)
  then have b: "butlast xs = replicate ?k 0 @ dropWhile (\<lambda>x. x = 0) (butlast xs)"
    using takeWhile_dropWhile_id by metis
  define ys where "ys = dropWhile (\<lambda>x. x = 0) (butlast xs) @ [last xs]"
  have "xs = replicate ?k 0 @ ys" using b assms by (metis append_assoc append_butlast_last_id ys_def)
  moreover have "canonical (rev ys)"
  proof (cases "dropWhile (\<lambda>x. x = 0) (butlast xs)")
    case Nil
    then show ?thesis by (auto simp: ys_def canonical_def)
  next
    case (Cons y zs)
    then have "y \<noteq> 0" using hd_dropWhile [of "\<lambda>x. x = 0" "butlast xs"] by simp
    then show ?thesis by (simp add: ys_def Cons canonical_def)
  qed
  ultimately show ?thesis by blast
qed

lemma leading_replicate:
  assumes "canonical (rev ys)"
  shows "leading 0 (replicate k 0 @ ys) = k"
proof (cases "ys = [0]")
  case True
  then show ?thesis by (simp add: leading_def butlast_append takeWhile_append)
next
  case False
  with assms obtain y zs where "ys = y # zs" "y \<noteq> 0" by (cases ys) (auto simp: canonical_def)
  then show ?thesis by (simp add: leading_def butlast_append takeWhile_append)
qed

lemma pos_val_zeros: "pos_val B (ds @ replicate k 0) = pos_val B ds"
proof -
  have "pos_val B (replicate k 0) = 0" by (induction k) simp_all
  then show ?thesis by (simp add: pos_val_append)
qed

lemma rebase_inverse:
  assumes "2 \<le> B" "2 \<le> M" and "xs \<noteq> []" "list_all (\<lambda>d. d < M) xs"
  shows "rebase M B (rebase B M xs) = xs" and "list_all (\<lambda>d. d < B) (rebase B M xs)" and "rebase B M xs \<noteq> []"
proof -
  have pB: "positional B" and pM: "positional M" using assms by (simp_all add: positional_def)
  obtain ys where ys: "xs = replicate (leading 0 xs) 0 @ ys" "canonical (rev ys)"
    using leading_split [OF assms(3)] by blast
  define ds where "ds = foldl (add_digit B M) [0] xs"
  have c0: "canonical [0]" by (simp add: canonical_def)
  have ds: "pos_val B ds = pos_val M (rev xs)" "canonical ds" "list_all (\<lambda>d. d < B) ds"
    using positional.digits_value [OF pB, of M "[0]" xs] assms c0 by (simp_all add: ds_def)
  have r: "rebase B M xs = replicate (leading 0 xs) 0 @ rev ds" by (simp add: rebase_def ds_def)
  show "list_all (\<lambda>d. d < B) (rebase B M xs)" using ds(3) assms(1) by (auto simp: r list_all_iff)
  show "rebase B M xs \<noteq> []" using ds(2) by (auto simp: r canonical_def)
  have l: "leading 0 (rebase B M xs) = leading 0 xs"
    unfolding r using leading_replicate [of "rev ds"] ds(2) by simp
  define es where "es = foldl (add_digit M B) [0] (rebase B M xs)"
  have es: "pos_val M es = pos_val B (rev (rebase B M xs))" "canonical es" "list_all (\<lambda>d. d < M) es"
    using positional.digits_value [OF pM, of B "[0]" "rebase B M xs"] assms c0 by (simp_all add: es_def)
  have "pos_val M es = pos_val M (rev xs)" using es(1) ds(1) by (simp add: r pos_val_zeros)
  also have "\<dots> = pos_val M (rev ys)" using pos_val_zeros [of M "rev ys" "leading 0 xs"] ys(1)
    by (metis rev_append rev_replicate)
  finally have "es = rev ys"
    using es(2,3) ys(2) assms(4) positional.digits_unique [OF pM, of es "rev ys"]
    by (metis list_all_append list_all_rev ys(1))
  then show "rebase M B (rebase B M xs) = xs"
    using ys(1) l rebase_def [of M B "rebase B M xs"] by (metis es_def rev_rev_ident)
qed

section \<open>Alphabets\<close>

lemma leading_map: "(\<And>x. x \<in> set xs \<Longrightarrow> f x = f z \<longleftrightarrow> x = z) \<Longrightarrow> leading (f z) (map f xs) = leading z xs"
  unfolding leading_def map_butlast [symmetric] takeWhile_map
  by (auto intro!: arg_cong [where f = length] takeWhile_cong dest: in_set_butlastD)

locale alphabet =
  fixes A :: string
  assumes distinct_A: "distinct A" and length_A: "2 \<le> length A"
begin

lemma map_nth: "d < length A \<Longrightarrow> alphabet_map A (A ! d) = Some d"
  using distinct_A by (simp add: alphabet_map_def map_of_zip_nth)

lemma map_SomeD: "alphabet_map A c = Some d \<Longrightarrow> d < length A \<and> A ! d = c"
  by (auto simp: alphabet_map_def dest!: map_of_SomeD simp: set_zip)

lemma encode_rebase:
  assumes "b \<noteq> []"
  shows "basex_encode A b = map (\<lambda>d. A ! d) (rebase (length A) 256 (map unat b))"
proof -
  have "leading 0 (map unat b) = leading 0 b"
    using leading_map [of b unat 0] by (simp add: unat_eq_zero)
  then show ?thesis
    using assms by (simp add: basex_encode_def rebase_def foldl_map)
qed

lemma decode_loop_nth:
  "list_all (\<lambda>d. d < length A) ds \<Longrightarrow>
   decode_loop A bs (map (\<lambda>d. A ! d) ds) = Some (foldl (add_digit 256 (length A)) bs ds)"
  by (induction ds arbitrary: bs) (simp_all add: map_nth)

lemma decode_rebase:
  assumes "ds \<noteq> []" and "list_all (\<lambda>d. d < length A) ds"
  shows "basex_decode A (map (\<lambda>d. A ! d) ds) = Inr (map of_nat (rebase 256 (length A) ds))"
proof -
  have "leading (A ! 0) (map (\<lambda>d. A ! d) ds) = leading 0 ds"
  proof (rule leading_map)
    fix d assume "d \<in> set ds"
    then have "d < length A" using assms(2) by (simp add: list_all_iff)
    moreover have "0 < length A" using length_A by linarith
    ultimately show "(A ! d = A ! 0) = (d = 0)" using nth_eq_iff_index_eq [OF distinct_A] by blast
  qed
  then show ?thesis
    using assms by (simp add: basex_decode_def basex_decodeUnsafe_def decode_loop_nth rebase_def rev_map)
qed

lemma decode_encode: "basex_decode A (basex_encode A b) = Inr b"
proof (cases "b = []")
  case True
  then show ?thesis by (simp add: basex_encode_def basex_decode_def basex_decodeUnsafe_def)
next
  case False
  let ?xs = "map unat b"
  have xs: "?xs \<noteq> []" "list_all (\<lambda>d. d < 256) ?xs" using False by (simp_all add: list_all_iff byte_less)
  note r = rebase_inverse [OF length_A _ xs, simplified]
  have "map of_nat ?xs = b" by (simp add: o_def)
  then show ?thesis using r by (simp add: encode_rebase [OF False] decode_rebase)
qed

lemma decode_loop_SomeD:
  "decode_loop A bs s = Some r \<Longrightarrow> \<exists>ds. s = map (\<lambda>d. A ! d) ds \<and> list_all (\<lambda>d. d < length A) ds"
proof (induction s arbitrary: bs)
  case (Cons c cs)
  then obtain v where v: "alphabet_map A c = Some v" "decode_loop A (add_digit 256 (length A) bs v) cs = Some r"
    by (auto split: option.splits)
  from Cons.IH [OF v(2)] obtain ds where "cs = map (\<lambda>d. A ! d) ds" "list_all (\<lambda>d. d < length A) ds" by blast
  with v(1) map_SomeD [of c v] show ?case by (intro exI [of _ "v # ds"]) simp
qed simp

lemma encode_decode:
  assumes "basex_decode A s = Inr b"
  shows "basex_encode A b = s"
proof (cases "s = []")
  case True
  then show ?thesis using assms by (simp add: basex_decode_def basex_decodeUnsafe_def basex_encode_def)
next
  case False
  with assms obtain r where "decode_loop A [0] s = Some r"
    by (auto simp: basex_decode_def basex_decodeUnsafe_def split: option.splits)
  then obtain ds where ds: "s = map (\<lambda>d. A ! d) ds" "list_all (\<lambda>d. d < length A) ds"
    using decode_loop_SomeD by blast
  with False have ne: "ds \<noteq> []" by auto
  note r = rebase_inverse [OF _ length_A ne ds(2), of 256, simplified]
  have b: "b = map of_nat (rebase 256 (length A) ds)" using decode_rebase [OF ne ds(2)] assms ds(1) by simp
  have "map unat b = rebase 256 (length A) ds"
    using r(2) by (simp add: b o_def list_all_iff unat_of_nat_byte cong: map_cong)
  moreover from this have "b \<noteq> []" using r(3) by auto
  ultimately show ?thesis using r(1) ds(1) by (simp add: encode_rebase)
qed

lemma decode_error:
  "(\<exists>e. basex_decode A s = Inl e) \<longleftrightarrow> \<not> set s \<subseteq> set A"
proof -
  have "decode_loop A bs s = None \<longleftrightarrow> \<not> set s \<subseteq> set A" for bs
  proof (induction s arbitrary: bs)
    case (Cons c cs)
    have "alphabet_map A c = None \<longleftrightarrow> c \<notin> set A"
      using map_SomeD [of c] map_nth by (cases "alphabet_map A c") (auto simp: in_set_conv_nth)
    with Cons show ?case by (auto split: option.splits)
  qed simp
  from this [of "[0]"] show ?thesis
    by (cases "s = []"; cases "decode_loop A [0] s") (auto simp: basex_decode_def basex_decodeUnsafe_def)
qed

end

sublocale alphabet \<subseteq> digits: positional "length A"
  by unfold_locales (rule length_A)

interpretation byte_digits: positional 256
  by unfold_locales simp

interpretation bs58: alphabet ALPHABET
  by unfold_locales (simp_all add: ALPHABET_def)

section \<open>Round trips\<close>

text \<open>
  a string is the Base58 form of a buffer exactly when it decodes to that buffer; every buffer
  has one form, leading zeros included, and every string over the alphabet is the form of a buffer.
\<close>

theorem base58_decode_iff: "Base58_decode s = Inr b \<longleftrightarrow> s = Base58_encode b"
  unfolding Base58_decode_def Base58_encode_def using bs58.decode_encode bs58.encode_decode by metis

text \<open>
  decoding fails exactly on the strings that \<open>validCharacters\<close> refuses.
\<close>

theorem base58_decode_error: "(\<exists>e. Base58_decode s = Inl e) \<longleftrightarrow> \<not> Base58_validCharacters s"
  using bs58.decode_error [of s] by (auto simp: Base58_decode_def Base58_validCharacters_def list_all_iff)

lemma slice_checked:
  assumes "length b = n + 4"
  shows "Buffer_slice b 0 (-4) = take n b"
    and "n < 2147483640 \<Longrightarrow> Buffer_slice b (-4) (int (length b)) = drop n b"
proof -
  have "toInt32 (-4) = -4" "toInt32 0 = 0" by (simp_all add: toInt32_def)
  then show "Buffer_slice b 0 (-4) = take n b" using assms by (simp add: Buffer_slice_def clamp_index_def Let_def)
  assume "n < 2147483640"
  then have "toInt32 (int (length b)) = int (length b)" using assms by (simp add: int32_simps)
  then show "Buffer_slice b (-4) (int (length b)) = drop n b"
    using assms \<open>toInt32 (-4) = -4\<close> by (simp add: Buffer_slice_def clamp_index_def Let_def nat_add_distrib)
qed

lemma length_checksum [simp]: "length (Base58Check_checksum b) = 4"
  using Buffer_slice_nat [of 0 4 "Hash_sha256sha256 b"] by (simp add: Base58Check_checksum_def)

lemma check58_iff:
  assumes "length b < 2147483640"
  shows "Base58Check_decode s = Inr b \<longleftrightarrow> s = Base58Check_encode b"
proof -
  have "Base58Check_decode s = Inr b \<longleftrightarrow> Base58_decode s = Inr (b @ Base58Check_checksum b)"
  proof (cases "Base58_decode s")
    case (Inr c)
    show ?thesis
    proof (cases "length c < 4")
      case False
      define n where "n = length c - 4"
      have n: "length c = n + 4" using False by (simp add: n_def)
      have "take n c = b \<and> drop n c = Base58Check_checksum b \<longleftrightarrow> c = b @ Base58Check_checksum b"
      proof
        assume "c = b @ Base58Check_checksum b"
        moreover from this have "n = length b" using n by simp
        ultimately show "take n c = b \<and> drop n c = Base58Check_checksum b" by simp
      qed (metis append_take_drop_id)
      moreover have "n < 2147483640" if "take n c = b" using that assms n by auto
      ultimately show ?thesis
        using Inr False n slice_checked [OF n] hexSlice_inj
        by (auto simp: Base58Check_decode_def Let_def Base58Check_checksum_def)
    qed (use Inr in \<open>auto simp: Base58Check_decode_def\<close>)
  qed (simp add: Base58Check_decode_def)
  also have "\<dots> \<longleftrightarrow> s = Base58Check_encode b"
    unfolding Base58Check_encode_def Base58_decode_def Base58_encode_def
    using bs58.decode_encode bs58.encode_decode by metis
  finally show ?thesis .
qed

text \<open>
  C27: \<open>Base58Check.decode\<close> accepts exactly the strings that \<open>Base58Check.encode\<close> makes: any other
  string, with a wrong character, a wrong checksum or fewer than four bytes, raises an error.
\<close>

theorem base58check_decode_iff:
  assumes "length b < 2147483640"
  shows "Base58Check_decode s = Inr b \<longleftrightarrow> s = Base58Check_encode b"
  using assms by (rule check58_iff)

lemma base58check_decode_iff_witness:
  "Base58Check_decode (Base58Check_encode [0, 0, 7]) = Inr [0, 0, 7]"
  using base58check_decode_iff [of "[0, 0, 7]" "Base58Check_encode [0, 0, 7]"] by simp

end
