(* ===== verification/Addresses.thy ===== *)
theory Addresses
  imports Base58 ScriptProps
begin

text \<open>
  \<open>Address\<close> of magnachain.js.  The network registry is a parameter, as the constructors look networks
  up in it.  What the code distinguishes by \<open>instanceof\<close> and \<open>typeof\<close> is the datatype \<open>addr_data\<close>; a
  public key is given by its bytes.  The type of an address in an object is one of the three types.
\<close>

section \<open>Data\<close>

definition type_name :: "address_type \<Rightarrow> string" where
  "type_name t =
     (case t of PayToPublicKeyHash \<Rightarrow> ''pubkeyhash'' | PayToScriptHash \<Rightarrow> ''scripthash''
      | PayToContractHash \<Rightarrow> ''contracthash'')"

definition type_of_name :: "string \<Rightarrow> address_type option" where
  "type_of_name s =
     (if s = ''pubkeyhash'' then Some PayToPublicKeyHash
      else if s = ''scripthash'' then Some PayToScriptHash
      else if s = ''contracthash'' then Some PayToContractHash else None)"

datatype addr_data =
    ABuffer bytes
  | APublicKey bytes
  | AScript script
  | AString string
  | AObject "string option" "bytes option" net_arg "address_type option"
  | AAddress address

record addr_info =
  ai_hash :: bytes
  ai_network :: "network option"
  ai_type :: "address_type option"

record addr_object =
  o_hash :: string
  o_type :: string
  o_network :: string

definition truthy_net :: "net_arg \<Rightarrow> bool" where
  "truthy_net a = (case a of ArgUndefined \<Rightarrow> False | ArgNet _ \<Rightarrow> True | ArgStr s \<Rightarrow> s \<noteq> [] | ArgNum n \<Rightarrow> n \<noteq> 0)"

definition truthy_str :: "string option \<Rightarrow> bool" where
  "truthy_str s = (case s of None \<Rightarrow> False | Some t \<Rightarrow> t \<noteq> [])"

definition or_else :: "'a option \<Rightarrow> 'a \<Rightarrow> 'a" where
  "or_else x d = (case x of None \<Rightarrow> d | Some v \<Rightarrow> v)"

definition defaultNetwork :: network where
  "defaultNetwork = livenet"

section \<open>The constructor\<close>

definition Address_transformHash :: "bytes \<Rightarrow> addr_info result" where
  "Address_transformHash h =
     rbind (check (length h = 20) (TypeError ''Address hashbuffers must be exactly 20 bytes.'')) (\<lambda>_.
       Inr \<lparr>ai_hash = h, ai_network = None, ai_type = None\<rparr>)"

definition Address_transformObject ::
    "net_state \<Rightarrow> string option \<Rightarrow> bytes option \<Rightarrow> net_arg \<Rightarrow> address_type option \<Rightarrow> addr_info result" where
  "Address_transformObject st hash hashbuf net t =
     rbind (check (truthy_str hash \<or> hashbuf \<noteq> None)
              (InvalidArgument ''Must provide a `hash` or `hashBuffer` property'')) (\<lambda>_.
     case t of
       None \<Rightarrow> Inl (InvalidArgument ''Must provide a `type` property'')
     | Some t \<Rightarrow>
         Inr \<lparr>ai_hash = (if truthy_str hash then Buffer_from_hex (or_else hash []) else or_else hashbuf []),
              ai_network = Some (or_else (Networks_get st net None) defaultNetwork), ai_type = Some t\<rparr>)"

definition Address_classifyFromVersion :: "net_state \<Rightarrow> bytes \<Rightarrow> (network \<times> address_type) option" where
  "Address_classifyFromVersion st b =
     (let v = ArgNum (unat (b ! 0)) in
      case Networks_get st v (Some [''pubkeyhash'']) of
        Some n \<Rightarrow> Some (n, PayToPublicKeyHash)
      | None \<Rightarrow>
          (case Networks_get st v (Some [''scripthash'']) of
             Some n \<Rightarrow> Some (n, PayToScriptHash)
           | None \<Rightarrow> map_option (\<lambda>n. (n, PayToContractHash)) (Networks_get st v (Some [''contracthash'']))))"

definition Address_transformBuffer ::
    "net_state \<Rightarrow> bytes \<Rightarrow> net_arg \<Rightarrow> string option \<Rightarrow> addr_info result" where
  "Address_transformBuffer st b net t =
     rbind (check (length b = 1 + 20) (TypeError ''Address buffers must be exactly 21 bytes.'')) (\<lambda>_.
     let networkObj = Networks_get st net None in
     rbind (check (\<not> (truthy_net net \<and> networkObj = None)) (TypeError ''Unknown network'')) (\<lambda>_.
     case Address_classifyFromVersion st b of
       None \<Rightarrow> Inl (TypeError ''Address has mismatched network type.'')
     | Some (n, ty) \<Rightarrow>
         rbind (check (networkObj = None \<or> networkObj = Some n)
                  (TypeError ''Address has mismatched network type.'')) (\<lambda>_.
         rbind (check (\<not> (truthy_str t \<and> t \<noteq> Some (type_name ty)))
                  (TypeError ''Address has mismatched type.'')) (\<lambda>_.
           Inr \<lparr>ai_hash = Buffer_slice b 1 (int (length b)), ai_network = Some n, ai_type = Some ty\<rparr>))))"

definition Address_transformPublicKey :: "bytes \<Rightarrow> addr_info" where
  "Address_transformPublicKey pubkey =
     \<lparr>ai_hash = Hash_sha256ripemd160 pubkey, ai_network = None, ai_type = Some PayToPublicKeyHash\<rparr>"

definition Address_transformScript :: "(bytes \<Rightarrow> bool) \<Rightarrow> script \<Rightarrow> addr_info result" where
  "Address_transformScript pkv s =
     rbind (Script_getAddressInfo pkv s) (\<lambda>info.
       case info of
         None \<Rightarrow> Inl (NamedError ''Script.CantDeriveAddress'')
       | Some (h, t) \<Rightarrow> Inr \<lparr>ai_hash = h, ai_network = None, ai_type = Some t\<rparr>)"

definition Address_transformString ::
    "net_state \<Rightarrow> string \<Rightarrow> net_arg \<Rightarrow> string option \<Rightarrow> addr_info result" where
  "Address_transformString st data net t =
     rbind (Base58Check_decode (js_trim data)) (\<lambda>b. Address_transformBuffer st b net t)"

text \<open>A buffer of another length is an object without the properties of an address.\<close>

definition Address_classifyArguments ::
    "(bytes \<Rightarrow> bool) \<Rightarrow> net_state \<Rightarrow> addr_data \<Rightarrow> net_arg \<Rightarrow> string option \<Rightarrow> addr_info result" where
  "Address_classifyArguments pkv st data net t =
     (case data of
        ABuffer b \<Rightarrow>
          if length b = 20 then Address_transformHash b
          else if length b = 21 then Address_transformBuffer st b net t
          else Address_transformObject st None None ArgUndefined None
      | APublicKey p \<Rightarrow> Inr (Address_transformPublicKey p)
      | AScript s \<Rightarrow> Address_transformScript pkv s
      | AString s \<Rightarrow> Address_transformString st s net t
      | AObject h hb n ty \<Rightarrow> Address_transformObject st h hb n ty
      | AAddress a \<Rightarrow> Inr \<lparr>ai_hash = hashBuffer a, ai_network = Some (a_network a), ai_type = Some (a_type a)\<rparr>)"

definition new_Address ::
    "(bytes \<Rightarrow> bool) \<Rightarrow> net_state \<Rightarrow> addr_data \<Rightarrow> net_arg \<Rightarrow> string option \<Rightarrow> address result" where
  "new_Address pkv st data net t =
     (case data of
        AAddress a \<Rightarrow> Inr a
      | _ \<Rightarrow>
          rbind (check (data \<noteq> AString []) (InvalidArgument ''First argument is required, please include address data.''))
            (\<lambda>_.
          rbind (check (\<not> (truthy_net net \<and> Networks_get st net None = None))
                   (TypeError ''Second argument must be \"livenet\" or \"testnet\".'')) (\<lambda>_.
          rbind (check (\<not> (truthy_str t \<and> type_of_name (or_else t []) = None))
                   (TypeError ''Third argument must be \"pubkeyhash\" or \"scripthash\".'')) (\<lambda>_.
          rbind (Address_classifyArguments pkv st data net t) (\<lambda>info.
            Inr \<lparr>hashBuffer = ai_hash info,
                 a_network = (case ai_network info of Some n \<Rightarrow> n
                              | None \<Rightarrow> or_else (Networks_get st net None) defaultNetwork),
                 a_type = (case ai_type info of Some ty \<Rightarrow> ty
                           | None \<Rightarrow> (if truthy_str t then or_else (type_of_name (or_else t [])) PayToPublicKeyHash
                                     else PayToPublicKeyHash))\<rparr>)))))"

section \<open>Other ways to make an address\<close>

text \<open>The internal calls \<open>new Address(info.hashBuffer, network, info.type)\<close>.\<close>

definition from_info :: "(bytes \<Rightarrow> bool) \<Rightarrow> net_state \<Rightarrow> addr_info \<Rightarrow> net_arg \<Rightarrow> address result" where
  "from_info pkv st info net =
     new_Address pkv st (ABuffer (ai_hash info)) net (map_option type_name (ai_type info))"

definition Address_fromPublicKey :: "(bytes \<Rightarrow> bool) \<Rightarrow> net_state \<Rightarrow> bytes \<Rightarrow> net_arg \<Rightarrow> address result" where
  "Address_fromPublicKey pkv st pubkey net =
     from_info pkv st (Address_transformPublicKey pubkey)
       (if truthy_net net then net else ArgNet defaultNetwork)"

definition Address_fromPublicKeyHash :: "(bytes \<Rightarrow> bool) \<Rightarrow> net_state \<Rightarrow> bytes \<Rightarrow> net_arg \<Rightarrow> address result" where
  "Address_fromPublicKeyHash pkv st hash net =
     rbind (Address_transformHash hash) (\<lambda>info.
       new_Address pkv st (ABuffer (ai_hash info)) net (Some (type_name PayToPublicKeyHash)))"

definition Address_fromScriptHash :: "(bytes \<Rightarrow> bool) \<Rightarrow> net_state \<Rightarrow> bytes \<Rightarrow> net_arg \<Rightarrow> address result" where
  "Address_fromScriptHash pkv st hash net =
     rbind (Address_transformHash hash) (\<lambda>info.
       new_Address pkv st (ABuffer (ai_hash info)) net (Some (type_name PayToScriptHash)))"

definition Address_payingTo :: "(bytes \<Rightarrow> bool) \<Rightarrow> net_state \<Rightarrow> script \<Rightarrow> net_arg \<Rightarrow> address result" where
  "Address_payingTo pkv st s net =
     rbind (Script_toBuffer s) (\<lambda>b. Address_fromScriptHash pkv st (Hash_sha256ripemd160 b) net)"

text \<open>\<open>createMultisig\<close>; the last argument is \<open>publicKeys[0].network\<close>.\<close>

definition Address_createMultisig ::
    "(bytes \<Rightarrow> bool) \<Rightarrow> net_state \<Rightarrow> bytes list \<Rightarrow> int \<Rightarrow> net_arg \<Rightarrow> net_arg \<Rightarrow> address result" where
  "Address_createMultisig pkv st publicKeys threshold net keynet =
     (let net = (if truthy_net net then net else if truthy_net keynet then keynet else ArgNet defaultNetwork)
      in rbind (Script_buildMultisigOut publicKeys threshold False) (\<lambda>s. Address_payingTo pkv st s net))"

definition Address_fromScript :: "(bytes \<Rightarrow> bool) \<Rightarrow> net_state \<Rightarrow> script \<Rightarrow> net_arg \<Rightarrow> address result" where
  "Address_fromScript pkv st s net = rbind (Address_transformScript pkv s) (\<lambda>info. from_info pkv st info net)"

definition info_net :: "addr_info \<Rightarrow> net_arg" where
  "info_net info = (case ai_network info of None \<Rightarrow> ArgUndefined | Some n \<Rightarrow> ArgNet n)"

definition Address_fromBuffer ::
    "(bytes \<Rightarrow> bool) \<Rightarrow> net_state \<Rightarrow> bytes \<Rightarrow> net_arg \<Rightarrow> string option \<Rightarrow> address result" where
  "Address_fromBuffer pkv st b net t =
     rbind (Address_transformBuffer st b net t) (\<lambda>info. from_info pkv st info (info_net info))"

definition Address_fromString ::
    "(bytes \<Rightarrow> bool) \<Rightarrow> net_state \<Rightarrow> string \<Rightarrow> net_arg \<Rightarrow> string option \<Rightarrow> address result" where
  "Address_fromString pkv st s net t =
     rbind (Address_transformString st s net t) (\<lambda>info. from_info pkv st info (info_net info))"

definition Address_fromObject :: "(bytes \<Rightarrow> bool) \<Rightarrow> net_state \<Rightarrow> addr_object \<Rightarrow> address result" where
  "Address_fromObject pkv st obj =
     rbind (check (isHexa (o_hash obj)) (InvalidState ''Unexpected hash property'')) (\<lambda>_.
       new_Address pkv st (ABuffer (Buffer_from_hex (o_hash obj))) (ArgStr (o_network obj)) (Some (o_type obj)))"

definition Address_getValidationError ::
    "(bytes \<Rightarrow> bool) \<Rightarrow> net_state \<Rightarrow> addr_data \<Rightarrow> net_arg \<Rightarrow> string option \<Rightarrow> js_error option" where
  "Address_getValidationError pkv st data net t =
     (case new_Address pkv st data net t of Inl e \<Rightarrow> Some e | Inr _ \<Rightarrow> None)"

definition Address_isValid ::
    "(bytes \<Rightarrow> bool) \<Rightarrow> net_state \<Rightarrow> addr_data \<Rightarrow> net_arg \<Rightarrow> string option \<Rightarrow> bool" where
  "Address_isValid pkv st data net t = (Address_getValidationError pkv st data net t = None)"

section \<open>What an address gives\<close>

definition Address_isPayToPublicKeyHash :: "address \<Rightarrow> bool" where
  "Address_isPayToPublicKeyHash a \<longleftrightarrow> a_type a = PayToPublicKeyHash"

definition Address_isPayToScriptHash :: "address \<Rightarrow> bool" where
  "Address_isPayToScriptHash a \<longleftrightarrow> a_type a = PayToScriptHash"

definition net_version :: "network \<Rightarrow> address_type \<Rightarrow> nat" where
  "net_version n t =
     (case t of PayToPublicKeyHash \<Rightarrow> pubkeyhash n | PayToScriptHash \<Rightarrow> scripthash n
      | PayToContractHash \<Rightarrow> contracthash n)"

definition Address_toBuffer :: "address \<Rightarrow> bytes" where
  "Address_toBuffer a = Buffer_concat [[of_nat (net_version (a_network a) (a_type a))], hashBuffer a]"

definition Address_toObject :: "address \<Rightarrow> addr_object" where
  "Address_toObject a =
     \<lparr>o_hash = hexSlice (hashBuffer a), o_type = type_name (a_type a), o_network = net_name (a_network a)\<rparr>"

definition Address_toString :: "address \<Rightarrow> string" where
  "Address_toString a = Base58Check_encode (Address_toBuffer a)"

text \<open>\<open>Script.prototype.toAddress\<close>; \<open>Inr None\<close> is the result \<open>false\<close>.\<close>

definition Script_toAddress ::
    "(bytes \<Rightarrow> bool) \<Rightarrow> net_state \<Rightarrow> script \<Rightarrow> net_arg \<Rightarrow> address option result" where
  "Script_toAddress pkv st s net =
     rbind (Script_getAddressInfo pkv s) (\<lambda>info.
       case info of
         None \<Rightarrow> Inr None
       | Some (h, t) \<Rightarrow>
           let n = (case Networks_get st net None of Some n \<Rightarrow> n
                    | None \<Rightarrow> or_else (s_network s) defaultNetwork)
           in rbind (new_Address pkv st (AObject None (Some h) (ArgNet n) (Some t)) ArgUndefined None)
                (\<lambda>a. Inr (Some a)))"

section \<open>Lookups in the registry of the SDK\<close>

definition sdk_network :: "network \<Rightarrow> bool" where
  "sdk_network n \<longleftrightarrow> n = livenet \<or> n = testnet"

lemma sdk_networks: "networks initial_networks = [livenet, testnet]"
  by (simp add: initial_networks_def addNetwork_def Let_def livenet_def testnet_def)

lemma sdk_versions [simp]:
  "pubkeyhash livenet = 75" "scripthash livenet = 62" "contracthash livenet = 69"
  "pubkeyhash testnet = 110" "scripthash testnet = 195" "contracthash testnet = 199"
  "net_name livenet = ''livenet''" "net_name testnet = ''testnet''"
  by (simp_all add: livenet_def testnet_def new_network_def livenet_data_def testnet_data_def)

lemma get_sdk_network: "sdk_network n \<Longrightarrow> Networks_get initial_networks (ArgNet n) keys = Some n"
  by (auto simp: Networks_get_def sdk_networks sdk_network_def)

lemma maps_eq:
  "map_of (networkMaps initial_networks) k =
     (if k = dec_string 18444 \<or> k = dec_string 18333 \<or> k \<in> key_string ` set (net_values testnet) then Some testnet
      else if k \<in> key_string ` set (net_values livenet) then Some livenet else None)"
proof -
  have "map_of (networkMaps initial_networks) =
     ((map_of (foldl (\<lambda>m v. map_network (key_string v) testnet m)
         (foldl (\<lambda>m v. map_network (key_string v) livenet m) [] (net_values livenet)) (net_values testnet)))
       (dec_string 18333 \<mapsto> testnet))(dec_string 18444 \<mapsto> testnet)"
    by (simp add: initial_networks_def addNetwork_def Let_def livenet_def testnet_def map_of_map_network)
  then show ?thesis by (simp add: map_of_map_networks)
qed

lemma not_dec_string:
  assumes "s \<noteq> []" and "dec_digit (hd s) = None"
  shows "s \<noteq> dec_string n"
  using dec_string_chars [of "hd s" n] assms by auto

lemma named_key:
  assumes "s \<noteq> []" and "dec_digit (hd s) = None"
  shows "map_of (networkMaps initial_networks) s =
    (if s = ''testnet'' \<or> s = ''regtest'' then Some testnet
     else if s = ''livenet'' \<or> s = ''mainnet'' then Some livenet else None)"
proof -
  have n: "s \<in> key_string ` set (net_values n) \<longleftrightarrow> s = net_name n \<or> s = net_alias n" for n
    using not_dec_string [OF assms] by (cases "net_port n") (simp_all add: net_values_def key_string_def)
  have "net_alias livenet = ''mainnet''" "net_alias testnet = ''regtest''"
    by (simp_all add: livenet_def testnet_def new_network_def livenet_data_def testnet_data_def)
  then show ?thesis unfolding maps_eq n using not_dec_string [OF assms] by simp
qed

lemma get_by_name: "sdk_network n \<Longrightarrow> Networks_get initial_networks (ArgStr (net_name n)) None = Some n"
  by (auto simp: Networks_get_def arg_key_def sdk_network_def named_key dec_digit_def)

lemma get_undefined [simp]: "Networks_get initial_networks ArgUndefined None = None"
  by (simp add: Networks_get_def arg_key_def named_key dec_digit_def)

lemma get_version:
  "Networks_get initial_networks (ArgNum v) (Some [type_name t]) =
     (if v = net_version livenet t then Some livenet
      else if v = net_version testnet t then Some testnet else None)"
  by (cases t) (auto simp: Networks_get_def sdk_networks arg_value_def net_field_def type_name_def net_version_def)

lemma classifyFromVersion_iff:
  "Address_classifyFromVersion initial_networks b = Some (n, t) \<longleftrightarrow>
     sdk_network n \<and> unat (b ! 0) = net_version n t"
  using get_version [of "unat (b ! 0)" PayToPublicKeyHash] get_version [of "unat (b ! 0)" PayToScriptHash]
    get_version [of "unat (b ! 0)" PayToContractHash]
  by (cases t) (auto simp: Address_classifyFromVersion_def Let_def type_name_def net_version_def sdk_network_def
      split: if_splits)

section \<open>Strings\<close>

definition addr_ok :: "address \<Rightarrow> bool" where
  "addr_ok a \<longleftrightarrow> length (hashBuffer a) = 20 \<and> sdk_network (a_network a)"

lemma type_of_type_name [simp]: "type_of_name (type_name t) = Some t"
  by (cases t) (simp_all add: type_of_name_def type_name_def)

lemma type_name_not_Nil [simp]: "type_name t \<noteq> []"
  by (cases t) (simp_all add: type_name_def)

lemma new_Address_hash:
  assumes "length h = 20" and "Networks_get st net None = Some n"
  shows "new_Address pkv st (ABuffer h) net (Some (type_name t)) =
    Inr \<lparr>hashBuffer = h, a_network = n, a_type = t\<rparr>"
  using assms
  by (simp add: new_Address_def Address_classifyArguments_def Address_transformHash_def truthy_str_def or_else_def
      check_def)

lemma transformBuffer_iff:
  "Address_transformBuffer initial_networks b ArgUndefined None = Inr info \<longleftrightarrow>
     length b = 21 \<and> (\<exists>n t. sdk_network n \<and> unat (b ! 0) = net_version n t \<and>
       info = \<lparr>ai_hash = drop 1 b, ai_network = Some n, ai_type = Some t\<rparr>)"
proof -
  have "length b = 21 \<Longrightarrow> Buffer_slice b 1 (int (length b)) = drop 1 b"
    using Buffer_slice_nat [of 1 21 b] by simp
  then have "Address_transformBuffer initial_networks b ArgUndefined None = Inr info \<longleftrightarrow>
      length b = 21 \<and> (\<exists>n t. Address_classifyFromVersion initial_networks b = Some (n, t) \<and>
        info = \<lparr>ai_hash = drop 1 b, ai_network = Some n, ai_type = Some t\<rparr>)"
    by (auto simp: Address_transformBuffer_def truthy_net_def truthy_str_def check_def Let_def split: option.splits)
  then show ?thesis unfolding classifyFromVersion_iff by blast
qed

lemma version_byte: "sdk_network n \<Longrightarrow> net_version n t < 256"
  by (cases t) (auto simp: sdk_network_def net_version_def)

lemma toBuffer_shape: "length (Address_toBuffer a) = Suc (length (hashBuffer a))"
  by (simp add: Address_toBuffer_def)

text \<open>
  C28: with the networks of the SDK a string is accepted as an address exactly when, blanks around it
  removed, it is the string of that address; so parsing and printing are inverse, and no string with a
  wrong checksum, length or version byte is accepted.
\<close>

theorem address_string_iff:
  "Address_fromString pkv initial_networks s ArgUndefined None = Inr a \<longleftrightarrow>
     js_trim s = Address_toString a \<and> addr_ok a"
proof -
  have fi: "from_info pkv initial_networks \<lparr>ai_hash = h, ai_network = Some n, ai_type = Some t\<rparr> (ArgNet n) =
      Inr \<lparr>hashBuffer = h, a_network = n, a_type = t\<rparr>" if "length h = 20" "sdk_network n" for h n t
    using new_Address_hash [OF that(1) get_sdk_network [OF that(2)]] by (simp add: from_info_def)
  have "Address_fromString pkv initial_networks s ArgUndefined None = Inr a \<longleftrightarrow>
      (\<exists>b info. Base58Check_decode (js_trim s) = Inr b \<and>
         Address_transformBuffer initial_networks b ArgUndefined None = Inr info \<and>
         from_info pkv initial_networks info (info_net info) = Inr a)"
    by (auto simp: Address_fromString_def Address_transformString_def rbind_eq_Inr)
  also have "\<dots> \<longleftrightarrow> (\<exists>b n t. Base58Check_decode (js_trim s) = Inr b \<and> length b = 21 \<and> sdk_network n \<and>
      unat (b ! 0) = net_version n t \<and> a = \<lparr>hashBuffer = drop 1 b, a_network = n, a_type = t\<rparr>)"
  proof -
    have "(\<exists>info. Address_transformBuffer initial_networks b ArgUndefined None = Inr info \<and>
         from_info pkv initial_networks info (info_net info) = Inr a) \<longleftrightarrow>
       (\<exists>n t. length b = 21 \<and> sdk_network n \<and> unat (b ! 0) = net_version n t \<and>
         a = \<lparr>hashBuffer = drop 1 b, a_network = n, a_type = t\<rparr>)" for b
      unfolding transformBuffer_iff by (auto simp: info_net_def fi) (auto simp: info_net_def fi intro!: exI)
    then show ?thesis by blast
  qed
  also have "\<dots> \<longleftrightarrow> (\<exists>b. js_trim s = Base58Check_encode b \<and> addr_ok a \<and> b = Address_toBuffer a)"
  proof -
    have "length b = 21 \<and> sdk_network n \<and> unat (b ! 0) = net_version n t \<and>
        a = \<lparr>hashBuffer = drop 1 b, a_network = n, a_type = t\<rparr> \<longleftrightarrow>
      addr_ok a \<and> b = Address_toBuffer a \<and> n = a_network a \<and> t = a_type a" for b n t
    proof
      assume l: "length b = 21 \<and> sdk_network n \<and> unat (b ! 0) = net_version n t \<and>
        a = \<lparr>hashBuffer = drop 1 b, a_network = n, a_type = t\<rparr>"
      then obtain x xs where b: "b = x # xs" by (cases b) auto
      with l show "addr_ok a \<and> b = Address_toBuffer a \<and> n = a_network a \<and> t = a_type a"
        by (auto simp: addr_ok_def Address_toBuffer_def dest: sym)
    next
      assume r: "addr_ok a \<and> b = Address_toBuffer a \<and> n = a_network a \<and> t = a_type a"
      then show "length b = 21 \<and> sdk_network n \<and> unat (b ! 0) = net_version n t \<and>
        a = \<lparr>hashBuffer = drop 1 b, a_network = n, a_type = t\<rparr>"
        by (auto simp: addr_ok_def Address_toBuffer_def unat_of_nat_byte version_byte)
    qed
    then have "(\<exists>b n t. Base58Check_decode (js_trim s) = Inr b \<and> length b = 21 \<and> sdk_network n \<and>
        unat (b ! 0) = net_version n t \<and> a = \<lparr>hashBuffer = drop 1 b, a_network = n, a_type = t\<rparr>) \<longleftrightarrow>
      Base58Check_decode (js_trim s) = Inr (Address_toBuffer a) \<and> addr_ok a"
      by auto
    also have "\<dots> \<longleftrightarrow> js_trim s = Base58Check_encode (Address_toBuffer a) \<and> addr_ok a"
      using check58_iff [of "Address_toBuffer a"] by (auto simp: addr_ok_def toBuffer_shape)
    finally show ?thesis by blast
  qed
  finally show ?thesis by (simp add: Address_toString_def)
qed

lemma encode_chars: "c \<in> set (basex_encode ALPHABET b) \<Longrightarrow> c \<in> set ALPHABET"
  using bs58.decode_error [of "basex_encode ALPHABET b"] bs58.decode_encode [of b] by auto

lemma toString_trim: "js_trim (Address_toString a) = Address_toString a"
proof (rule js_trim_id)
  have "list_all (\<lambda>c. \<not> js_space c) ALPHABET" by (simp add: ALPHABET_def js_space_def)
  then show "list_all (\<lambda>c. \<not> js_space c) (Address_toString a)"
    by (auto simp: list_all_iff Address_toString_def Base58Check_encode_def Base58_encode_def dest: encode_chars)
qed

text \<open>
  an address is refused when a network is asked for that is not its own, whether the network is
  given as an object, by name or by number.
\<close>

theorem address_wrong_network:
  assumes "addr_ok a" and "Networks_get initial_networks net None = Some n" and "n \<noteq> a_network a"
  shows "Address_fromString pkv initial_networks (Address_toString a) net t =
    Inl (TypeError ''Address has mismatched network type.'')"
proof -
  have c: "Base58Check_decode (js_trim (Address_toString a)) = Inr (Address_toBuffer a)"
    unfolding toString_trim using check58_iff [of "Address_toBuffer a"] assms(1)
    by (simp add: Address_toString_def addr_ok_def toBuffer_shape)
  have "Address_classifyFromVersion initial_networks (Address_toBuffer a) = Some (a_network a, a_type a)"
    using assms(1) by (auto simp: classifyFromVersion_iff addr_ok_def Address_toBuffer_def unat_of_nat_byte version_byte)
  then show ?thesis
    using assms c
    by (simp add: Address_fromString_def Address_transformString_def Address_transformBuffer_def check_def Let_def
        addr_ok_def toBuffer_shape)
qed

lemma address_wrong_network_witness:
  "Address_fromString (\<lambda>_. True) initial_networks
     (Address_toString \<lparr>hashBuffer = replicate 20 7, a_network = testnet, a_type = PayToScriptHash\<rparr>)
     (ArgNet livenet) None = Inl (TypeError ''Address has mismatched network type.'')"
proof (rule address_wrong_network [where n = livenet])
  show "addr_ok \<lparr>hashBuffer = replicate 20 7, a_network = testnet, a_type = PayToScriptHash\<rparr>"
    by (simp add: addr_ok_def sdk_network_def)
  show "Networks_get initial_networks (ArgNet livenet) None = Some livenet"
    by (rule get_sdk_network) (simp add: sdk_network_def)
  show "livenet \<noteq> a_network \<lparr>hashBuffer = replicate 20 7, a_network = testnet, a_type = PayToScriptHash\<rparr>"
    by (simp add: livenet_def testnet_def new_network_def)
qed

text \<open>
  the object form of an address is read back as the address.
\<close>

theorem address_object_roundtrip:
  assumes "addr_ok a"
  shows "Address_fromObject pkv initial_networks (Address_toObject a) = Inr a"
proof -
  have "isHexa (hexSlice (hashBuffer a))" using assms hexSlice_chars length_hexSlice [of "hashBuffer a"]
    by (auto simp: isHexa_def list_all_iff addr_ok_def simp del: length_hexSlice)
  moreover have "Buffer_from_hex (hexSlice (hashBuffer a)) = hashBuffer a" by (rule Buffer_from_hex_hexSlice)
  ultimately show ?thesis
    using new_Address_hash [of "hashBuffer a" initial_networks _ _ pkv "a_type a"] get_by_name assms
    by (simp add: Address_fromObject_def Address_toObject_def check_def addr_ok_def)
qed

lemma address_object_roundtrip_witness:
  "Address_fromObject (\<lambda>_. True) initial_networks
     (Address_toObject \<lparr>hashBuffer = replicate 20 7, a_network = testnet, a_type = PayToContractHash\<rparr>) =
   Inr \<lparr>hashBuffer = replicate 20 7, a_network = testnet, a_type = PayToContractHash\<rparr>"
  by (rule address_object_roundtrip) (simp add: addr_ok_def sdk_network_def)

text \<open>
  the output script for a public-key-hash or script-hash address leads back to the address,
  whatever public keys are valid, while a contract address has no output script.
\<close>

theorem script_address_roundtrip:
  assumes "addr_ok a"
  shows "(if a_type a = PayToContractHash then Script_fromAddress a = Inl ScriptUnrecognizedAddress
    else \<exists>s. Script_fromAddress a = Inr s \<and> Script_toAddress pkv initial_networks s ArgUndefined = Inr (Some a))"
proof -
  have l: "length (hashBuffer a) = 20" and n: "sdk_network (a_network a)" using assms by (simp_all add: addr_ok_def)
  have new: "new_Address pkv initial_networks (AObject None (Some (hashBuffer a)) (ArgNet (a_network a)) (Some (a_type a)))
      ArgUndefined None = Inr a"
    by (simp add: new_Address_def Address_classifyArguments_def Address_transformObject_def check_def truthy_net_def
        truthy_str_def or_else_def get_sdk_network [OF n])
  show ?thesis
  proof (cases "a_type a")
    case PayToPublicKeyHash
    with l new p2pkh_info(2) [OF l] show ?thesis
      by (simp add: Script_fromAddress_def Script_buildPublicKeyHashOut_def adds_defs Script_toAddress_def or_else_def)
  next
    case PayToScriptHash
    with l new p2sh_info(2) [OF l] show ?thesis
      by (simp add: Script_fromAddress_def Script_buildScriptHashOut_address_def hash_out_def adds_defs check_def
          Script_toAddress_def or_else_def)
  next
    case PayToContractHash
    then show ?thesis by (simp add: Script_fromAddress_def)
  qed
qed

lemma script_address_roundtrip_witness:
  "\<exists>s. Script_fromAddress \<lparr>hashBuffer = replicate 20 7, a_network = testnet, a_type = PayToScriptHash\<rparr> = Inr s \<and>
     Script_toAddress (\<lambda>_. False) initial_networks s ArgUndefined =
       Inr (Some \<lparr>hashBuffer = replicate 20 7, a_network = testnet, a_type = PayToScriptHash\<rparr>)"
  using script_address_roundtrip [of "\<lparr>hashBuffer = replicate 20 7, a_network = testnet, a_type = PayToScriptHash\<rparr>"
      "\<lambda>_. False"]
  by (simp add: addr_ok_def sdk_network_def)

end
