(* ===== verification/TxData.thy ===== *)
theory TxData
  imports Addresses
begin

unbundle bit_operations_syntax

text \<open>
  The data of a transaction (\<open>Output\<close>, \<open>Input\<close>, \<open>Transaction\<close> in magnachain.js), its wire format and
  the hash that signatures commit to (\<open>Sighash\<close>).  The script of an output is kept with its bytes as
  the getter would compute it: \<open>None\<close> when the bytes are not a script.  Amounts given as strings are not
  modelled.  What \<open>PublicKey.fromBuffer(b, true).toBuffer()\<close> gives is the argument \<open>pkp\<close>.
\<close>

section \<open>Outputs\<close>

record tx_output =
  o_satoshis :: int
  o_satoshisBN :: int
  o_scriptBuffer :: bytes
  o_script :: "script option"

datatype sat_arg = SatBN int | SatNum int

datatype script_in = ScrBuffer bytes | ScrScript script | ScrString string

text \<open>The setter of \<open>satoshis\<close>: the number and the big number that are stored.\<close>

definition Output_set_satoshis :: "sat_arg \<Rightarrow> (int \<times> int) result" where
  "Output_set_satoshis a =
     rbind (case a of
              SatBN bn \<Rightarrow> Inr (BN_toNumber bn, bn)
            | SatNum num \<Rightarrow>
                rbind (check (0 \<le> num) (InvalidArgument ''Output satoshis is not a natural number'')) (\<lambda>_.
                rbind (check (num < 9007199254740992) (AssertionError ''Assertion failed'')) (\<lambda>_. Inr (num, num))))
       (\<lambda>(num, bn).
          rbind (check (0 \<le> num) (InvalidState ''Output satoshis is not a natural number'')) (\<lambda>_. Inr (num, bn)))"

definition mark_output :: "script \<Rightarrow> script" where
  "mark_output s = s\<lparr>s_isOutput := True\<rparr>"

definition Output_script_of :: "bytes \<Rightarrow> script option" where
  "Output_script_of b = (case Script_fromBuffer b of Inl _ \<Rightarrow> None | Inr s \<Rightarrow> Some (mark_output s))"

definition Output_setScript :: "tx_output \<Rightarrow> script_in \<Rightarrow> tx_output result" where
  "Output_setScript out a =
     (case a of
        ScrScript s \<Rightarrow>
          rbind (Script_toBuffer s) (\<lambda>b. Inr (out\<lparr>o_scriptBuffer := b, o_script := Some (mark_output s)\<rparr>))
      | ScrString str \<Rightarrow>
          rbind (Script_fromString str) (\<lambda>s.
          rbind (Script_toBuffer s) (\<lambda>b. Inr (out\<lparr>o_scriptBuffer := b, o_script := Some (mark_output s)\<rparr>)))
      | ScrBuffer b \<Rightarrow> Inr (out\<lparr>o_scriptBuffer := b, o_script := Output_script_of b\<rparr>))"

definition new_Output :: "sat_arg \<Rightarrow> script_in \<Rightarrow> tx_output result" where
  "new_Output sat scr =
     rbind (Output_set_satoshis sat) (\<lambda>(num, bn).
       let out = \<lparr>o_satoshis = num, o_satoshisBN = bn, o_scriptBuffer = [], o_script = None\<rparr>;
           scr = (case scr of ScrString str \<Rightarrow> if isHexa str then ScrBuffer (Buffer_from_hex str) else scr | _ \<Rightarrow> scr)
       in Output_setScript out scr)"

text \<open>\<open>false\<close> or one of the messages.\<close>

definition Output_invalidSatoshis :: "tx_output \<Rightarrow> string option" where
  "Output_invalidSatoshis out =
     (if o_satoshis out > 9007199254740991 then Some ''transaction txout satoshis greater than max safe integer''
      else if o_satoshis out \<noteq> BN_toNumber (o_satoshisBN out)
      then Some ''transaction txout satoshis has corrupted value''
      else if o_satoshis out < 0 then Some ''transaction txout negative''
      else None)"

definition Output_fromBufferReader :: "reader \<Rightarrow> (tx_output \<times> reader) result" where
  "Output_fromBufferReader br =
     rbind (BufferReader_readUInt64LEBN br) (\<lambda>(sat, br).
     rbind (BufferReader_readVarintNum br) (\<lambda>(size, br).
       let (b, br) = (if size \<noteq> 0 then BufferReader_read br size else ([], br))
       in rbind (new_Output (SatBN sat) (ScrBuffer b)) (\<lambda>out. Inr (out, br))))"

definition Output_toBufferWriter :: "bwriter \<Rightarrow> tx_output \<Rightarrow> bwriter result" where
  "Output_toBufferWriter w out =
     (let w = BufferWriter_writeUInt64LEBN w (o_satoshisBN out); script = o_scriptBuffer out
      in rbind (BufferWriter_writeVarintNum w (int (length script))) (\<lambda>w. Inr (BufferWriter_write w script)))"

section \<open>Inputs\<close>

text \<open>A signature for an input (\<open>TransactionSignature\<close>).\<close>

record tx_sig =
  ts_publicKey :: bytes
  ts_prevTxId :: bytes
  ts_outputIndex :: nat
  ts_inputIndex :: nat
  ts_signature :: signature
  ts_sigtype :: nat

text \<open>The classes of inputs; the two multisignature classes have keys, a threshold and signatures.\<close>

datatype input_kind =
    KInput
  | KPublicKey
  | KPublicKeyHash
  | KContact
  | KMultiSig "bytes list" nat "tx_sig option list"
  | KMultiSigScriptHash "bytes list" nat "tx_sig option list"

record tx_input =
  in_kind :: input_kind
  prevTxId :: bytes
  outputIndex :: nat
  sequenceNumber :: nat
  in_scriptBuffer :: bytes
  in_script :: "script option"
  in_output :: "tx_output option"

abbreviation (input) MAXINT :: nat where "MAXINT \<equiv> 4294967295"
abbreviation (input) DEFAULT_SEQNUMBER :: nat where "DEFAULT_SEQNUMBER \<equiv> 4294967295"
abbreviation (input) DEFAULT_LOCKTIME_SEQNUMBER :: nat where "DEFAULT_LOCKTIME_SEQNUMBER \<equiv> 4294967294"
abbreviation (input) DEFAULT_RBF_SEQNUMBER :: nat where "DEFAULT_RBF_SEQNUMBER \<equiv> 4294967293"

definition Input_isNull :: "tx_input \<Rightarrow> bool" where
  "Input_isNull i \<longleftrightarrow> hexSlice (prevTxId i) = replicate 64 (CHR ''0'') \<and> outputIndex i = 0xffffffff"

definition mark_input :: "script \<Rightarrow> script" where
  "mark_input s = s\<lparr>s_isInput := True\<rparr>"

text \<open>The getter of \<open>script\<close>; \<open>Inr None\<close> is \<open>null\<close>.\<close>

definition Input_script :: "tx_input \<Rightarrow> script option result" where
  "Input_script i =
     (if Input_isNull i then Inr None
      else case in_script i of
        Some s \<Rightarrow> Inr (Some s)
      | None \<Rightarrow> rbind (Script_fromBuffer (in_scriptBuffer i)) (\<lambda>s. Inr (Some (mark_input s))))"

definition Input_setScript :: "tx_input \<Rightarrow> script \<Rightarrow> tx_input result" where
  "Input_setScript i s =
     rbind (Script_toBuffer s) (\<lambda>b. Inr (i\<lparr>in_script := Some (mark_input s), in_scriptBuffer := b\<rparr>))"

text \<open>\<open>new Input(input)\<close> of an input: the script is taken from the getter.\<close>

definition new_Input_from :: "tx_input \<Rightarrow> tx_input result" where
  "new_Input_from i =
     rbind (Input_script i) (\<lambda>s.
       case s of
         None \<Rightarrow> Inl (TypeError ''Invalid argument type: script'')
       | Some s \<Rightarrow> Input_setScript (i\<lparr>in_kind := KInput\<rparr>) s)"

definition Input_fromBufferReader :: "reader \<Rightarrow> (tx_input \<times> reader) result" where
  "Input_fromBufferReader br =
     (let (prev, br) = BufferReader_readReverse br (Some 32) in
      rbind (BufferReader_readUInt32LE br) (\<lambda>(idx, br).
      rbind (BufferReader_readVarLengthBuffer br) (\<lambda>(sb, br).
      rbind (BufferReader_readUInt32LE br) (\<lambda>(seq, br).
        Inr (\<lparr>in_kind = KPublicKeyHash, prevTxId = prev, outputIndex = idx, sequenceNumber = seq,
              in_scriptBuffer = sb, in_script = None, in_output = None\<rparr>, br)))))"

definition Input_toBufferWriter :: "bwriter \<Rightarrow> tx_input \<Rightarrow> bwriter result" where
  "Input_toBufferWriter w i =
     (let w = BufferWriter_writeReverse w (prevTxId i); script = in_scriptBuffer i in
      rbind (BufferWriter_writeUInt32LE w (int (outputIndex i))) (\<lambda>w.
      rbind (BufferWriter_writeVarintNum w (int (length script))) (\<lambda>w.
        BufferWriter_writeUInt32LE (BufferWriter_write w script) (int (sequenceNumber i)))))"

section \<open>Transactions\<close>

record contract_data =
  c_address :: bytes
  c_sender :: bytes
  c_codeOrFunc :: bytes
  c_args :: bytes
  c_amountOut :: int
  c_signature :: "script option"

record transaction =
  t_version :: int
  t_inputs :: "tx_input list"
  t_outputs :: "tx_output list"
  t_nLockTime :: nat
  contractdata :: "contract_data option"
  t_inputAmount :: "int option"
  t_outputAmount :: "int option"
  t_fee :: "int option"
  t_feePerKb :: "int option"
  t_changeScript :: "script option"
  t_changeIndex :: "int option"

definition new_Transaction :: transaction where
  "new_Transaction =
     \<lparr>t_version = 2, t_inputs = [], t_outputs = [], t_nLockTime = 0, contractdata = None,
      t_inputAmount = None, t_outputAmount = None, t_fee = None, t_feePerKb = None,
      t_changeScript = None, t_changeIndex = None\<rparr>"

definition Transaction_IsSmartContract :: "transaction \<Rightarrow> bool" where
  "Transaction_IsSmartContract tx \<longleftrightarrow> t_version tx = 3 \<or> t_version tx = 4"

fun write_each :: "(bwriter \<Rightarrow> 'a \<Rightarrow> bwriter result) \<Rightarrow> bwriter \<Rightarrow> 'a list \<Rightarrow> bwriter result" where
  "write_each f w [] = Inr w"
| "write_each f w (x # xs) = rbind (f w x) (\<lambda>w. write_each f w xs)"

definition PublicKey_WriteForCl :: "bwriter \<Rightarrow> bytes \<Rightarrow> bwriter result" where
  "PublicKey_WriteForCl w b =
     rbind (BufferWriter_writeUInt8 w (int (length b))) (\<lambda>w. Inr (BufferWriter_write w b))"

definition PublicKey_ReadForCl :: "(bytes \<Rightarrow> bytes result) \<Rightarrow> reader \<Rightarrow> (bytes \<times> reader) result" where
  "PublicKey_ReadForCl pkp br =
     rbind (BufferReader_readUInt8 br) (\<lambda>(len, br).
       let (b, br) = BufferReader_read br len in rbind (pkp b) (\<lambda>k. Inr (k, br)))"

definition write_varbuf :: "bwriter \<Rightarrow> bytes \<Rightarrow> bwriter result" where
  "write_varbuf w b =
     rbind (BufferWriter_writeVarintNum w (int (length b))) (\<lambda>w. Inr (BufferWriter_write w b))"

definition Transaction_WriteExtra :: "bwriter \<Rightarrow> transaction \<Rightarrow> bool \<Rightarrow> bwriter result" where
  "Transaction_WriteExtra w tx forSign =
     (if Transaction_IsSmartContract tx then
        (case contractdata tx of
           None \<Rightarrow> Inl (TypeError ''Cannot read property of undefined'')
         | Some c \<Rightarrow>
             rbind (PublicKey_WriteForCl (BufferWriter_write w (c_address c)) (c_sender c)) (\<lambda>w.
             rbind (write_varbuf w (c_codeOrFunc c)) (\<lambda>w.
             rbind (write_varbuf w (c_args c)) (\<lambda>w.
               let w = BufferWriter_writeUInt64LEBN w (c_amountOut c) in
               if \<not> forSign then
                 rbind (Script_toBuffer (case c_signature c of None \<Rightarrow> new_Script | Some s \<Rightarrow> s)) (\<lambda>b.
                   write_varbuf w b)
               else Inr w))))
      else Inr w)"

definition Transaction_toBufferWriter :: "bwriter \<Rightarrow> transaction \<Rightarrow> bwriter result" where
  "Transaction_toBufferWriter w tx =
     rbind (BufferWriter_writeInt32LE w (t_version tx)) (\<lambda>w.
     rbind (BufferWriter_writeVarintNum w (int (length (t_inputs tx)))) (\<lambda>w.
     rbind (write_each Input_toBufferWriter w (t_inputs tx)) (\<lambda>w.
     rbind (BufferWriter_writeVarintNum w (int (length (t_outputs tx)))) (\<lambda>w.
     rbind (write_each Output_toBufferWriter w (t_outputs tx)) (\<lambda>w.
     rbind (BufferWriter_writeUInt32LE w (int (t_nLockTime tx))) (\<lambda>w.
       Transaction_WriteExtra w tx False))))))"

definition Transaction_toBuffer :: "transaction \<Rightarrow> bytes result" where
  "Transaction_toBuffer tx = rbind (Transaction_toBufferWriter [] tx) (\<lambda>w. Inr (BufferWriter_concat w))"

definition Transaction_toBufferWriterForSign :: "bwriter \<Rightarrow> transaction \<Rightarrow> bwriter result" where
  "Transaction_toBufferWriterForSign w tx =
     rbind (BufferWriter_writeVarintNum w (int (length (t_inputs tx)))) (\<lambda>w.
     rbind (write_each Input_toBufferWriter w (t_inputs tx)) (\<lambda>w.
     rbind (BufferWriter_writeVarintNum w (int (length (t_outputs tx)))) (\<lambda>w.
     rbind (write_each Output_toBufferWriter w (t_outputs tx)) (\<lambda>w.
     rbind (BufferWriter_writeUInt32LE w (int (t_nLockTime tx))) (\<lambda>w.
     rbind (BufferWriter_writeInt32LE w (t_version tx)) (\<lambda>w.
       Transaction_WriteExtra w tx True))))))"

definition Transaction_toBufferForSign :: "transaction \<Rightarrow> bytes result" where
  "Transaction_toBufferForSign tx =
     rbind (Transaction_toBufferWriterForSign [] tx) (\<lambda>w. Inr (BufferWriter_concat w))"

text \<open>
  In \<open>ReadExtra\<close> the name \<open>sign\<close> is not a parameter but the function \<open>sign\<close> of the signature hash,
  so \<open>!sign\<close> is false and the signature of a contract is never read.
\<close>

definition Transaction_ReadExtra ::
    "(bytes \<Rightarrow> bytes result) \<Rightarrow> transaction \<Rightarrow> reader \<Rightarrow> (transaction \<times> reader) result" where
  "Transaction_ReadExtra pkp tx br =
     (if Transaction_IsSmartContract tx then
        let (a, br) = BufferReader_read br 20 in
        rbind (PublicKey_ReadForCl pkp br) (\<lambda>(sender, br).
        rbind (BufferReader_readVarLengthBuffer br) (\<lambda>(code, br).
        rbind (BufferReader_readVarLengthBuffer br) (\<lambda>(args, br).
        rbind (BufferReader_readUInt64LEBN br) (\<lambda>(amount, br).
          Inr (tx\<lparr>contractdata := Some \<lparr>c_address = a, c_sender = sender, c_codeOrFunc = code, c_args = args,
                 c_amountOut = amount, c_signature = None\<rparr>\<rparr>, br)))))
      else Inr (tx, br))"

definition Transaction_fromBufferReader ::
    "(bytes \<Rightarrow> bytes result) \<Rightarrow> reader \<Rightarrow> (transaction \<times> reader) result" where
  "Transaction_fromBufferReader pkp br =
     rbind (check (\<not> BufferReader_finished br) (InvalidArgument ''No transaction data received'')) (\<lambda>_.
     rbind (BufferReader_readInt32LE br) (\<lambda>(ver, br).
     rbind (BufferReader_readVarintNum br) (\<lambda>(nin, br).
     rbind (dec_n Input_fromBufferReader nin br) (\<lambda>(ins, br).
     rbind (BufferReader_readVarintNum br) (\<lambda>(nout, br).
     rbind (dec_n Output_fromBufferReader nout br) (\<lambda>(outs, br).
     rbind (BufferReader_readUInt32LE br) (\<lambda>(lock, br).
       Transaction_ReadExtra pkp
         (new_Transaction\<lparr>t_version := ver, t_inputs := ins, t_outputs := outs, t_nLockTime := lock\<rparr>) br)))))))"

definition Transaction_fromBuffer :: "(bytes \<Rightarrow> bytes result) \<Rightarrow> bytes \<Rightarrow> transaction result" where
  "Transaction_fromBuffer pkp b =
     rbind (Transaction_fromBufferReader pkp (new_BufferReader b)) (\<lambda>(tx, _). Inr tx)"

definition Transaction_shallowCopy :: "(bytes \<Rightarrow> bytes result) \<Rightarrow> transaction \<Rightarrow> transaction result" where
  "Transaction_shallowCopy pkp tx = rbind (Transaction_toBuffer tx) (Transaction_fromBuffer pkp)"

definition Transaction_getHash :: "transaction \<Rightarrow> bytes result" where
  "Transaction_getHash tx = rbind (Transaction_toBuffer tx) (\<lambda>b. Inr (Hash_sha256sha256 b))"

definition Transaction_id :: "transaction \<Rightarrow> string result" where
  "Transaction_id tx =
     rbind (Transaction_getHash tx) (\<lambda>h. Inr (hexSlice (fst (BufferReader_readReverse (new_BufferReader h) None))))"

definition Transaction_uncheckedSerialize :: "transaction \<Rightarrow> string result" where
  "Transaction_uncheckedSerialize tx = rbind (Transaction_toBuffer tx) (\<lambda>b. Inr (hexSlice b))"

definition Transaction_fromString :: "(bytes \<Rightarrow> bytes result) \<Rightarrow> string \<Rightarrow> transaction result" where
  "Transaction_fromString pkp s = Transaction_fromBuffer pkp (Buffer_from_hex s)"

section \<open>What signatures commit to\<close>

fun blank_inputs :: "tx_input list \<Rightarrow> tx_input list result" where
  "blank_inputs [] = Inr []"
| "blank_inputs (i # ins) =
     rbind (new_Input_from i) (\<lambda>i.
     rbind (Input_setScript i new_Script) (\<lambda>i.
     rbind (blank_inputs ins) (\<lambda>ins. Inr (i # ins))))"

definition sighash_single_bug :: bytes where
  "sighash_single_bug = replicate 31 0 @ [1]"

text \<open>
  An \<open>inputNumber\<close> that names no input: \<open>new Input(undefined)\<close> has no fields and is stored beyond the end.
  Holes in the array are an error when they are read, the new input when it is written; SIGHASH_SINGLE
  may return before that.
\<close>

definition sighash_no_input :: "nat \<Rightarrow> nat \<Rightarrow> nat \<Rightarrow> nat \<Rightarrow> transaction option result" where
  "sighash_no_input sighashType inputNumber nin nout =
     (let base = sighashType AND 31 in
      if inputNumber > nin \<and>
         (base = SIGHASH_NONE \<or> base = SIGHASH_SINGLE \<or> sighashType AND SIGHASH_ANYONECANPAY = 0)
      then Inl (TypeError ''Cannot read property of undefined'')
      else if base = SIGHASH_SINGLE \<and> inputNumber \<ge> nout then Inr None
      else Inl (AssertionError ''Assertion failed''))"

text \<open>The copy of the transaction that is hashed, or \<open>None\<close> for the constant of the SIGHASH_SINGLE bug.\<close>

definition sighash_copy ::
    "(bytes \<Rightarrow> bytes result) \<Rightarrow> transaction \<Rightarrow> nat \<Rightarrow> nat \<Rightarrow> script \<Rightarrow> transaction option result" where
  "sighash_copy pkp tx sighashType inputNumber subscript =
     rbind (Transaction_shallowCopy pkp tx) (\<lambda>txcopy.
     rbind (rbind (Script_toBuffer subscript) Script_fromBuffer) (\<lambda>subscript.
     let subscript = Script_removeCodeseparators subscript in
     rbind (blank_inputs (t_inputs txcopy)) (\<lambda>ins.
     if inputNumber \<ge> length ins then
       rbind (Script_toBuffer subscript) (\<lambda>_.
         sighash_no_input sighashType inputNumber (length ins) (length (t_outputs txcopy)))
     else
     rbind (new_Input_from (ins ! inputNumber)) (\<lambda>i.
     rbind (Input_setScript i subscript) (\<lambda>i.
       let ins = ins[inputNumber := i];
           base = sighashType AND 31;
           ins = (if base = SIGHASH_NONE \<or> base = SIGHASH_SINGLE
                  then map (\<lambda>(k, i). if k \<noteq> inputNumber then i\<lparr>sequenceNumber := 0\<rparr> else i) (enumerate 0 ins)
                  else ins);
           outs = t_outputs txcopy
       in if base = SIGHASH_SINGLE \<and> inputNumber \<ge> length outs then Inr None
          else
            rbind (if base = SIGHASH_NONE then Inr []
                   else if base = SIGHASH_SINGLE then
                     rbind (new_Output (SatBN (BN_fromBuffer (replicate 8 255) False)) (ScrScript new_Script)) (\<lambda>blank.
                       Inr (replicate inputNumber blank @ [outs ! inputNumber]))
                   else Inr outs) (\<lambda>outs.
            let ins = (if sighashType AND SIGHASH_ANYONECANPAY \<noteq> 0 then [ins ! inputNumber] else ins)
            in Inr (Some (txcopy\<lparr>t_inputs := ins, t_outputs := outs\<rparr>))))))))"

definition sighash_preimage :: "transaction \<Rightarrow> nat \<Rightarrow> bytes result" where
  "sighash_preimage txcopy sighashType =
     rbind (Transaction_toBufferForSign txcopy) (\<lambda>b.
     rbind (BufferWriter_writeInt32LE (BufferWriter_write [] b) (int sighashType)) (\<lambda>w.
       Inr (BufferWriter_concat w)))"

definition sighash :: "(bytes \<Rightarrow> bytes result) \<Rightarrow> transaction \<Rightarrow> nat \<Rightarrow> nat \<Rightarrow> script \<Rightarrow> bytes result" where
  "sighash pkp tx sighashType inputNumber subscript =
     rbind (sighash_copy pkp tx sighashType inputNumber subscript) (\<lambda>c.
       case c of
         None \<Rightarrow> Inr sighash_single_bug
       | Some txcopy \<Rightarrow>
           rbind (sighash_preimage txcopy sighashType) (\<lambda>b.
             Inr (fst (BufferReader_readReverse (new_BufferReader (Hash_sha256sha256 b)) None))))"

text \<open>The hash that the sender of a contract signs.\<close>

definition Transaction_WriteForContractSign :: "bwriter \<Rightarrow> transaction \<Rightarrow> bwriter result" where
  "Transaction_WriteForContractSign w tx =
     rbind (BufferWriter_writeUInt32LE w (t_version tx)) (\<lambda>w.
     rbind (BufferWriter_writeUInt32LE w (int (t_nLockTime tx))) (\<lambda>w.
     rbind (write_each Input_toBufferWriter w (t_inputs tx)) (\<lambda>w.
     rbind (write_each Output_toBufferWriter w (t_outputs tx)) (\<lambda>w.
       Transaction_WriteExtra w tx True))))"

definition Script_GetHash :: "bwriter \<Rightarrow> bytes" where
  "Script_GetHash w =
     fst (BufferReader_readReverse (new_BufferReader (Hash_sha256sha256 (BufferWriter_concat w))) None)"

definition Script_SignatureHashForContract :: "(bytes \<Rightarrow> bytes result) \<Rightarrow> transaction \<Rightarrow> bytes result" where
  "Script_SignatureHashForContract pkp tx =
     rbind (rbind (Transaction_toBuffer tx) (Transaction_fromBuffer pkp)) (\<lambda>txCopy.
     rbind (Transaction_WriteForContractSign [] txCopy) (\<lambda>w. Inr (Script_GetHash w)))"

end
