(* ===== verification/TxInputs.thy ===== *)
theory TxInputs
  imports TxData
begin

text \<open>
  The classes of inputs (\<open>Input\<close>, \<open>PublicKeyInput\<close>, \<open>PublicKeyHashInput\<close>, \<open>ContactInput\<close>, \<open>MultiSigInput\<close>,
  \<open>MultiSigScriptHashInput\<close> in magnachain.js): what each class does to sign, to clear signatures and to
  estimate its size.  A method that changes the input gives the input it leaves behind together with its
  outcome, so that an exception does not undo what was done before it.  Private keys and ECDSA are the
  record \<open>ec_env\<close>.
\<close>

section \<open>Signing\<close>

text \<open>
  \<open>ecPublicKey\<close> is \<open>privateKey.publicKey\<close>, \<open>ecSign\<close> and \<open>ecVerify\<close> are \<open>ECDSA.sign\<close> and \<open>ECDSA.verify\<close> with
  little-endian hashes, \<open>ecParse\<close> reads a public key and writes it again.
\<close>

record 'k ec_env =
  ecPublicKey :: "'k \<Rightarrow> bytes"
  ecSign :: "bytes \<Rightarrow> 'k \<Rightarrow> signature result"
  ecVerify :: "bytes \<Rightarrow> signature \<Rightarrow> bytes \<Rightarrow> bool result"
  ecParse :: "bytes \<Rightarrow> bytes result"
  ecValid :: "bytes \<Rightarrow> bool"

definition Sighash_sign :: "'k ec_env \<Rightarrow> transaction \<Rightarrow> 'k \<Rightarrow> nat \<Rightarrow> nat \<Rightarrow> script \<Rightarrow> signature result" where
  "Sighash_sign ec tx k sigtype inputIndex subscript =
     rbind (sighash (ecParse ec) tx sigtype inputIndex subscript) (\<lambda>h.
     rbind (ecSign ec h k) (\<lambda>s. Inr (s\<lparr>sig_nhashtype := Some sigtype\<rparr>)))"

definition Sighash_verify :: "'k ec_env \<Rightarrow> transaction \<Rightarrow> signature \<Rightarrow> bytes \<Rightarrow> nat \<Rightarrow> script \<Rightarrow> bool result" where
  "Sighash_verify ec tx s pub inputIndex subscript =
     (case sig_nhashtype s of
        None \<Rightarrow> Inl (InvalidArgument ''Invalid Argument'')
      | Some t \<Rightarrow> rbind (sighash (ecParse ec) tx t inputIndex subscript) (\<lambda>h. ecVerify ec h s pub))"

definition or_all :: "nat \<Rightarrow> nat" where
  "or_all sigtype = (if sigtype = 0 then SIGHASH_ALL else sigtype)"

text \<open>A script that is \<open>null\<close> is the empty script for \<open>new Script\<close> and an error for a method call.\<close>

definition script_or_empty :: "script option \<Rightarrow> script" where
  "script_or_empty s = (case s of None \<Rightarrow> new_Script | Some s \<Rightarrow> s)"

definition script_of :: "script option \<Rightarrow> script result" where
  "script_of s = (case s of None \<Rightarrow> Inl (TypeError ''Cannot read property of null'') | Some s \<Rightarrow> Inr s)"

definition output_of :: "tx_input \<Rightarrow> tx_output result" where
  "output_of i = (case in_output i of None \<Rightarrow> Inl (TypeError ''Cannot read property of undefined'') | Some out \<Rightarrow> Inr out)"

definition checked_output :: "tx_input \<Rightarrow> tx_output result" where
  "checked_output i = (case in_output i of None \<Rightarrow> Inl (InvalidState ''Invalid state'') | Some out \<Rightarrow> Inr out)"

section \<open>Multisignature inputs\<close>

text \<open>\<open>publicKeyIndex\<close>: a key that occurs twice has its last position.\<close>

fun publicKeyIndex_from :: "nat \<Rightarrow> bytes list \<Rightarrow> bytes \<Rightarrow> nat option" where
  "publicKeyIndex_from n [] k = None"
| "publicKeyIndex_from n (p # ps) k =
     (case publicKeyIndex_from (Suc n) ps k of
        Some j \<Rightarrow> Some j
      | None \<Rightarrow> if p = k then Some n else None)"

definition publicKeyIndex :: "bytes list \<Rightarrow> bytes \<Rightarrow> nat option" where
  "publicKeyIndex = publicKeyIndex_from 0"

definition sort_keys :: "bytes list \<Rightarrow> bytes list" where
  "sort_keys = sort_key hexSlice"

definition countSignatures :: "tx_sig option list \<Rightarrow> nat" where
  "countSignatures sigs = length (filter (\<lambda>s. s \<noteq> None) sigs)"

definition createSignatures :: "tx_sig option list \<Rightarrow> bytes list" where
  "createSignatures sigs =
     map (\<lambda>ts. Buffer_concat [Signature_toDER (ts_signature ts), integerAsSingleByteBuffer (int (ts_sigtype ts))])
       (map the (filter (\<lambda>s. s \<noteq> None) sigs))"

definition publicKeysWithoutSignature :: "bytes list \<Rightarrow> tx_sig option list \<Rightarrow> bytes list" where
  "publicKeysWithoutSignature keys sigs =
     filter (\<lambda>k. case publicKeyIndex keys k of None \<Rightarrow> True | Some j \<Rightarrow> j \<ge> length sigs \<or> sigs ! j = None) keys"

text \<open>\<open>redeemScript\<close> of a script-hash input: it is built by the constructor from the sorted keys.\<close>

definition redeemScript :: "bytes list \<Rightarrow> nat \<Rightarrow> script result" where
  "redeemScript keys threshold = Script_buildMultisigOut keys (int threshold) False"

definition set_script :: "tx_input \<Rightarrow> script result \<Rightarrow> unit result \<times> tx_input" where
  "set_script i r =
     (case rbind r (Input_setScript i) of Inl e \<Rightarrow> (Inl e, i) | Inr j \<Rightarrow> (Inr (), j))"

text \<open>\<open>_updateScript\<close> of the two multisignature classes.\<close>

definition MultiSig_updateScript :: "tx_input \<Rightarrow> unit result \<times> tx_input" where
  "MultiSig_updateScript i =
     (case in_kind i of
        KMultiSig keys threshold sigs \<Rightarrow> set_script i (Script_buildMultisigIn (createSignatures sigs))
      | KMultiSigScriptHash keys threshold sigs \<Rightarrow>
          set_script i (rbind (redeemScript keys threshold) (\<lambda>m.
            Script_buildP2SHMultisigIn keys (int threshold) (createSignatures sigs) False (Some m)))
      | _ \<Rightarrow> (Inr (), i))"

text \<open>The constructors; the argument has its fields from \<open>_fromObject\<close>.\<close>

definition new_MultiSigInput :: "tx_input \<Rightarrow> bytes list \<Rightarrow> nat \<Rightarrow> tx_input result" where
  "new_MultiSigInput i pubkeys threshold =
     (let keys = sort_keys pubkeys in
      rbind (Script_buildMultisigOut keys (int threshold) False) (\<lambda>m.
      rbind (output_of i) (\<lambda>out.
      rbind (script_of (o_script out)) (\<lambda>s.
      rbind (check (Script_equals m s)
               (InvalidState ''Provided public keys don't match to the provided output script'')) (\<lambda>_.
        Inr (i\<lparr>in_kind := KMultiSig keys threshold (replicate (length keys) None)\<rparr>))))))"

definition new_MultiSigScriptHashInput :: "tx_input \<Rightarrow> bytes list \<Rightarrow> nat \<Rightarrow> tx_input result" where
  "new_MultiSigScriptHashInput i pubkeys threshold =
     (let keys = sort_keys pubkeys in
      rbind (redeemScript keys threshold) (\<lambda>redeem.
      rbind (Script_buildScriptHashOut redeem) (\<lambda>m.
      rbind (output_of i) (\<lambda>out.
      rbind (script_of (o_script out)) (\<lambda>s.
      rbind (check (Script_equals m s)
               (InvalidState ''Provided public keys don't hash to the provided output'')) (\<lambda>_.
        Inr (i\<lparr>in_kind := KMultiSigScriptHash keys threshold (replicate (length keys) None)\<rparr>)))))))"

section \<open>Methods of the classes\<close>

definition abstract_method :: "string \<Rightarrow> js_error" where
  "abstract_method m = NamedError (''AbstractMethodInvoked: '' @ m)"

definition Input_clearSignatures :: "tx_input \<Rightarrow> unit result \<times> tx_input" where
  "Input_clearSignatures i =
     (case in_kind i of
        KInput \<Rightarrow> (Inl (abstract_method ''Input#clearSignatures''), i)
      | KMultiSig keys threshold sigs \<Rightarrow>
          MultiSig_updateScript (i\<lparr>in_kind := KMultiSig keys threshold (replicate (length keys) None)\<rparr>)
      | KMultiSigScriptHash keys threshold sigs \<Rightarrow>
          MultiSig_updateScript (i\<lparr>in_kind := KMultiSigScriptHash keys threshold (replicate (length keys) None)\<rparr>)
      | _ \<Rightarrow> set_script i (Inr new_Script))"

definition Input_isFullySigned :: "tx_input \<Rightarrow> bool result" where
  "Input_isFullySigned i =
     (case in_kind i of
        KInput \<Rightarrow> Inl (abstract_method ''Input#isFullySigned'')
      | KPublicKey \<Rightarrow> rbind (Input_script i) (\<lambda>s. rbind (script_of s) (\<lambda>s. Inr (Script_isPublicKeyIn s)))
      | KPublicKeyHash \<Rightarrow> rbind (Input_script i) (\<lambda>s. rbind (script_of s) (\<lambda>s. Inr (Script_isPublicKeyHashIn s)))
      | KContact \<Rightarrow> Inr True
      | KMultiSig keys threshold sigs \<Rightarrow> Inr (countSignatures sigs = threshold)
      | KMultiSigScriptHash keys threshold sigs \<Rightarrow> Inr (countSignatures sigs = threshold))"

definition Input_estimateSize :: "tx_input \<Rightarrow> nat result" where
  "Input_estimateSize i =
     (case in_kind i of
        KInput \<Rightarrow> rbind (Input_toBufferWriter [] i) (\<lambda>w. Inr (length (BufferWriter_concat w)))
      | KPublicKey \<Rightarrow> Inr 73
      | KPublicKeyHash \<Rightarrow> Inr (73 + 34)
      | KContact \<Rightarrow> Inr 0
      | KMultiSig keys threshold sigs \<Rightarrow> Inr (1 + threshold * 73)
      | KMultiSigScriptHash keys threshold sigs \<Rightarrow> Inr (7 + threshold * 74 + length keys * 34))"

text \<open>The script that a signature of the input is for.\<close>

definition Input_signedScript :: "tx_input \<Rightarrow> script result" where
  "Input_signedScript i =
     (case in_kind i of
        KMultiSigScriptHash keys threshold sigs \<Rightarrow> redeemScript keys threshold
      | _ \<Rightarrow> rbind (output_of i) (\<lambda>out. Inr (script_or_empty (o_script out))))"

definition Input_isValidSignature :: "'k ec_env \<Rightarrow> transaction \<Rightarrow> tx_input \<Rightarrow> tx_sig \<Rightarrow> bool result" where
  "Input_isValidSignature ec tx i ts =
     rbind (Input_signedScript i) (\<lambda>s.
       Sighash_verify ec tx ((ts_signature ts)\<lparr>sig_nhashtype := Some (ts_sigtype ts)\<rparr>) (ts_publicKey ts)
         (ts_inputIndex ts) s)"

definition new_TransactionSignature :: "bytes \<Rightarrow> tx_input \<Rightarrow> nat \<Rightarrow> signature \<Rightarrow> nat \<Rightarrow> tx_sig" where
  "new_TransactionSignature pub i index s sigtype =
     \<lparr>ts_publicKey = pub, ts_prevTxId = prevTxId i, ts_outputIndex = outputIndex i, ts_inputIndex = index,
      ts_signature = s, ts_sigtype = sigtype\<rparr>"

definition sign_input :: "'k ec_env \<Rightarrow> transaction \<Rightarrow> tx_input \<Rightarrow> 'k \<Rightarrow> nat \<Rightarrow> nat \<Rightarrow> script \<Rightarrow> tx_sig result" where
  "sign_input ec tx i k index sigtype subscript =
     rbind (Sighash_sign ec tx k sigtype index subscript) (\<lambda>s.
       Inr (new_TransactionSignature (ecPublicKey ec k) i index s sigtype))"

fun sign_keys :: "tx_sig result \<Rightarrow> bytes \<Rightarrow> bytes list \<Rightarrow> tx_sig list result" where
  "sign_keys r pub [] = Inr []"
| "sign_keys r pub (k # ks) =
     (if k = pub then rbind r (\<lambda>ts. rbind (sign_keys r pub ks) (\<lambda>rest. Inr (ts # rest))) else sign_keys r pub ks)"

definition Input_getSignatures ::
    "'k ec_env \<Rightarrow> transaction \<Rightarrow> tx_input \<Rightarrow> 'k \<Rightarrow> nat \<Rightarrow> nat \<Rightarrow> bytes \<Rightarrow> tx_sig list result" where
  "Input_getSignatures ec tx i k index sigtype hashData =
     (let sigtype = or_all sigtype; pub = ecPublicKey ec k in
      case in_kind i of
        KInput \<Rightarrow> Inl (abstract_method ''Trying to sign unsupported output type'')
      | KContact \<Rightarrow> Inr []
      | KPublicKey \<Rightarrow>
          rbind (checked_output i) (\<lambda>out.
          rbind (script_of (o_script out)) (\<lambda>s.
          rbind (Script_getPublicKey (ecValid ec) s) (\<lambda>p.
            if p = Some pub
            then rbind (sign_input ec tx i k index sigtype s) (\<lambda>ts. Inr [ts])
            else Inr [])))
      | KPublicKeyHash \<Rightarrow>
          rbind (checked_output i) (\<lambda>out.
          rbind (script_of (o_script out)) (\<lambda>s.
          rbind (Script_getPublicKeyHash s) (\<lambda>h.
            if h = Some hashData
            then rbind (sign_input ec tx i k index sigtype s) (\<lambda>ts. Inr [ts])
            else Inr [])))
      | KMultiSig keys threshold sigs \<Rightarrow>
          rbind (checked_output i) (\<lambda>out.
            sign_keys (sign_input ec tx i k index sigtype (script_or_empty (o_script out))) pub keys)
      | KMultiSigScriptHash keys threshold sigs \<Rightarrow>
          rbind (checked_output i) (\<lambda>out.
            sign_keys (rbind (redeemScript keys threshold) (sign_input ec tx i k index sigtype)) pub keys))"

text \<open>\<open>addSignature\<close> of the multisignature classes: \<open>mk\<close> makes the class of the new list of signatures.\<close>

definition MultiSig_addSignature ::
    "'k ec_env \<Rightarrow> transaction \<Rightarrow> tx_input \<Rightarrow> tx_sig \<Rightarrow> bytes list \<Rightarrow> nat \<Rightarrow> tx_sig option list
     \<Rightarrow> (tx_sig option list \<Rightarrow> input_kind) \<Rightarrow> unit result \<times> tx_input" where
  "MultiSig_addSignature ec tx i ts keys threshold sigs mk =
     (case rbind (check (countSignatures sigs \<noteq> threshold)
                    (InvalidState ''All needed signatures have already been added'')) (\<lambda>_.
           case publicKeyIndex keys (ts_publicKey ts) of
             None \<Rightarrow> Inl (InvalidArgument ''Signature has no matching public key'')
           | Some j \<Rightarrow>
               rbind (Input_isValidSignature ec tx i ts) (\<lambda>ok.
               rbind (check ok (InvalidState ''Invalid state'')) (\<lambda>_. Inr j))) of
        Inl e \<Rightarrow> (Inl e, i)
      | Inr j \<Rightarrow>
          let ts = ts\<lparr>ts_signature := (ts_signature ts)\<lparr>sig_nhashtype := Some (ts_sigtype ts)\<rparr>\<rparr>
          in MultiSig_updateScript (i\<lparr>in_kind := mk (sigs[j := Some ts])\<rparr>))"

definition Input_addSignature :: "'k ec_env \<Rightarrow> transaction \<Rightarrow> tx_input \<Rightarrow> tx_sig \<Rightarrow> unit result \<times> tx_input" where
  "Input_addSignature ec tx i ts =
     (case in_kind i of
        KInput \<Rightarrow> (Inl (abstract_method ''Input#addSignature''), i)
      | KContact \<Rightarrow> (Inr (), i)
      | KPublicKey \<Rightarrow>
          set_script i
            (rbind (Input_isValidSignature ec tx i ts) (\<lambda>ok.
             rbind (check ok (InvalidState ''Signature is invalid'')) (\<lambda>_.
               Script_buildPublicKeyIn (Signature_toDER (ts_signature ts)) (Some (int (ts_sigtype ts))))))
      | KPublicKeyHash \<Rightarrow>
          set_script i
            (rbind (Input_isValidSignature ec tx i ts) (\<lambda>ok.
             rbind (check ok (InvalidState ''Signature is invalid'')) (\<lambda>_.
               Script_buildPublicKeyHashIn (ts_publicKey ts) (Signature_toDER (ts_signature ts))
                 (Some (int (ts_sigtype ts))))))
      | KMultiSig keys threshold sigs \<Rightarrow>
          MultiSig_addSignature ec tx i ts keys threshold sigs (KMultiSig keys threshold)
      | KMultiSigScriptHash keys threshold sigs \<Rightarrow>
          MultiSig_addSignature ec tx i ts keys threshold sigs (KMultiSigScriptHash keys threshold))"

text \<open>
  \<open>normalizeSignatures\<close>: each key takes the first of the remaining signatures that verifies for it.
\<close>

fun take_match :: "(bytes \<Rightarrow> bool result) \<Rightarrow> bytes list \<Rightarrow> (bytes option \<times> bytes list) result" where
  "take_match ok [] = Inr (None, [])"
| "take_match ok (s # ss) =
     rbind (ok s) (\<lambda>b.
       if b then Inr (Some s, ss)
       else rbind (take_match ok ss) (\<lambda>(m, rest). Inr (m, s # rest)))"

fun normalize_keys :: "(bytes \<Rightarrow> bytes \<Rightarrow> bool result) \<Rightarrow> bytes list \<Rightarrow> bytes list \<Rightarrow> bytes option list result" where
  "normalize_keys ok sigs [] = Inr []"
| "normalize_keys ok sigs (k # ks) =
     rbind (take_match (ok k) sigs) (\<lambda>(m, rest).
     rbind (normalize_keys ok rest ks) (\<lambda>ms. Inr (m # ms)))"

definition MultiSigInput_normalizeSignatures ::
    "'k ec_env \<Rightarrow> transaction \<Rightarrow> tx_input \<Rightarrow> nat \<Rightarrow> bytes list \<Rightarrow> bytes list \<Rightarrow> tx_sig option list result" where
  "MultiSigInput_normalizeSignatures ec tx i inputIndex signatures publicKeys =
     rbind (normalize_keys
              (\<lambda>k b. rbind (Signature_fromTxFormat b) (\<lambda>s. rbind (output_of i) (\<lambda>out.
                 Sighash_verify ec tx (s\<lparr>sig_nhashtype := Some SIGHASH_ALL\<rparr>) k inputIndex
                   (script_or_empty (o_script out)))))
              signatures publicKeys) (\<lambda>ms.
       Inr (map2 (\<lambda>k m. case m of
                     None \<Rightarrow> None
                   | Some b \<Rightarrow> (case Signature_fromTxFormat b of
                       Inl _ \<Rightarrow> None
                     | Inr s \<Rightarrow> Some (new_TransactionSignature k i inputIndex (s\<lparr>sig_nhashtype := Some SIGHASH_ALL\<rparr>) SIGHASH_ALL)))
              publicKeys ms))"

end
