(* ===== verification/TxBuild.thy ===== *)
theory TxBuild
  imports TxInputs
begin

text \<open>
  Building a transaction (the methods of \<open>Transaction\<close> that change it, and those that judge it).  A method is
  a function from the transaction to its outcome and the transaction it leaves behind: when a method throws,
  what it changed before stays changed, the caches of the amounts in particular.  Amounts, fees and sizes
  are JavaScript numbers that are integers: sums and products are rounded to doubles.  \<open>_.without\<close> removes
  the object at a position; the same object is not in a list twice.
\<close>

section \<open>Outcomes with a state\<close>

type_synonym 'a tx_op = "transaction \<Rightarrow> 'a result \<times> transaction"

definition tret :: "'a \<Rightarrow> 'a tx_op" where
  "tret x tx = (Inr x, tx)"

definition tlift :: "'a result \<Rightarrow> 'a tx_op" where
  "tlift r tx = (r, tx)"

definition tbind :: "'a tx_op \<Rightarrow> ('a \<Rightarrow> 'b tx_op) \<Rightarrow> 'b tx_op" where
  "tbind m f tx = (case m tx of (Inl e, tx) \<Rightarrow> (Inl e, tx) | (Inr x, tx) \<Rightarrow> f x tx)"

definition tmodify :: "(transaction \<Rightarrow> transaction) \<Rightarrow> unit tx_op" where
  "tmodify f tx = (Inr (), f tx)"

definition num_add :: "int \<Rightarrow> int \<Rightarrow> int" where
  "num_add a b = BN_toNumber (a + b)"

definition num_sub :: "int \<Rightarrow> int \<Rightarrow> int" where
  "num_sub a b = BN_toNumber (a - b)"

definition num_mul :: "int \<Rightarrow> int \<Rightarrow> int" where
  "num_mul a b = BN_toNumber (a * b)"

abbreviation (input) DUST_AMOUNT :: int where "DUST_AMOUNT \<equiv> 546"
abbreviation (input) FEE_SECURITY_MARGIN :: int where "FEE_SECURITY_MARGIN \<equiv> 150"
abbreviation (input) MAX_MONEY :: int where "MAX_MONEY \<equiv> 2100000000000000"
abbreviation (input) NLOCKTIME_BLOCKHEIGHT_LIMIT :: int where "NLOCKTIME_BLOCKHEIGHT_LIMIT \<equiv> 500000000"
abbreviation (input) FEE_PER_KB :: int where "FEE_PER_KB \<equiv> 100000"
abbreviation (input) CHANGE_OUTPUT_MAX_SIZE :: nat where "CHANGE_OUTPUT_MAX_SIZE \<equiv> 62"
abbreviation (input) MAXIMUM_EXTRA_SIZE :: nat where "MAXIMUM_EXTRA_SIZE \<equiv> 26"
abbreviation (input) MAX_BLOCK_SIZE :: nat where "MAX_BLOCK_SIZE \<equiv> 1000000"

section \<open>Amounts and fees\<close>

text \<open>The loop of \<open>_getInputAmount\<close>: an input without its output stops it, and the sum so far is kept.\<close>

fun sum_inputs :: "int \<Rightarrow> tx_input list \<Rightarrow> js_error option \<times> int" where
  "sum_inputs a [] = (None, a)"
| "sum_inputs a (i # ins) =
     (case in_output i of
        None \<Rightarrow> (Some MissingPreviousOutput, a)
      | Some out \<Rightarrow> sum_inputs (num_add a (o_satoshis out)) ins)"

definition Transaction_getInputAmount :: "int tx_op" where
  "Transaction_getInputAmount tx =
     (case t_inputAmount tx of
        Some a \<Rightarrow> (Inr a, tx)
      | None \<Rightarrow>
          (case sum_inputs 0 (t_inputs tx) of
             (Some e, a) \<Rightarrow> (Inl e, tx\<lparr>t_inputAmount := Some a\<rparr>)
           | (None, a) \<Rightarrow> (Inr a, tx\<lparr>t_inputAmount := Some a\<rparr>)))"

definition sum_outputs :: "tx_output list \<Rightarrow> int" where
  "sum_outputs outs = foldl (\<lambda>a out. num_add a (o_satoshis out)) 0 outs"

definition Transaction_getOutputAmount :: "int tx_op" where
  "Transaction_getOutputAmount tx =
     (case t_outputAmount tx of
        Some a \<Rightarrow> (Inr a, tx)
      | None \<Rightarrow> (Inr (sum_outputs (t_outputs tx)), tx\<lparr>t_outputAmount := Some (sum_outputs (t_outputs tx))\<rparr>))"

definition Transaction_getUnspentValue :: "int tx_op" where
  "Transaction_getUnspentValue =
     tbind Transaction_getInputAmount (\<lambda>a. tbind Transaction_getOutputAmount (\<lambda>b. tret (num_sub a b)))"

text \<open>\<open>Math.ceil(size / 1000) * (feePerKb || FEE_PER_KB)\<close>.\<close>

definition size_fee :: "nat \<Rightarrow> int option \<Rightarrow> int" where
  "size_fee n perKb =
     num_mul (int ((n + 999) div 1000)) (case perKb of None \<Rightarrow> FEE_PER_KB | Some f \<Rightarrow> if f = 0 then FEE_PER_KB else f)"

definition estimateFee :: "nat \<Rightarrow> int \<Rightarrow> int option \<Rightarrow> int" where
  "estimateFee n amountAvailable perKb =
     (let n = (if amountAvailable > size_fee n perKb then n + CHANGE_OUTPUT_MAX_SIZE else n)
      in size_fee n perKb)"

fun inputs_size :: "nat \<Rightarrow> tx_input list \<Rightarrow> nat result" where
  "inputs_size n [] = Inr n"
| "inputs_size n (i # ins) = rbind (Input_estimateSize i) (\<lambda>k. inputs_size (n + k) ins)"

fun outputs_size :: "nat \<Rightarrow> tx_output list \<Rightarrow> nat result" where
  "outputs_size n [] = Inr n"
| "outputs_size n (out # outs) =
     rbind (script_of (o_script out)) (\<lambda>s.
     rbind (Script_toBuffer s) (\<lambda>b. outputs_size (n + (length b + 9)) outs))"

definition Transaction_estimateSize :: "transaction \<Rightarrow> nat result" where
  "Transaction_estimateSize tx =
     rbind (inputs_size MAXIMUM_EXTRA_SIZE (t_inputs tx)) (\<lambda>n. outputs_size n (t_outputs tx))"

definition Transaction_estimateFee :: "int tx_op" where
  "Transaction_estimateFee =
     tbind (\<lambda>tx. tlift (Transaction_estimateSize tx) tx) (\<lambda>n.
     tbind Transaction_getUnspentValue (\<lambda>available.
       (\<lambda>tx. tret (estimateFee n available (t_feePerKb tx)) tx)))"

definition Transaction_isCoinbase :: "transaction \<Rightarrow> bool" where
  "Transaction_isCoinbase tx = (case t_inputs tx of [i] \<Rightarrow> Input_isNull i | _ \<Rightarrow> False)"

definition Transaction_getFee :: "int tx_op" where
  "Transaction_getFee tx =
     (if Transaction_isCoinbase tx then tret 0 tx
      else case t_fee tx of
        Some f \<Rightarrow> tret f tx
      | None \<Rightarrow>
          if t_changeScript tx = None then Transaction_getUnspentValue tx else Transaction_estimateFee tx)"

section \<open>The change output\<close>

fun clear_inputs :: "tx_input list \<Rightarrow> unit result \<times> tx_input list" where
  "clear_inputs [] = (Inr (), [])"
| "clear_inputs (i # ins) =
     (case Input_clearSignatures i of
        (Inl e, i) \<Rightarrow> (Inl e, i # ins)
      | (Inr _, i) \<Rightarrow> (case clear_inputs ins of (r, ins) \<Rightarrow> (r, i # ins)))"

definition Transaction_clearSignatures :: "unit tx_op" where
  "Transaction_clearSignatures tx = (case clear_inputs (t_inputs tx) of (r, ins) \<Rightarrow> (r, tx\<lparr>t_inputs := ins\<rparr>))"

definition remove_at :: "int \<Rightarrow> 'a list \<Rightarrow> 'a list" where
  "remove_at k xs = (if 0 \<le> k \<and> k < int (length xs) then take (nat k) xs @ drop (Suc (nat k)) xs else xs)"

definition Transaction_removeOutput_at :: "int \<Rightarrow> unit tx_op" where
  "Transaction_removeOutput_at k =
     tmodify (\<lambda>tx. tx\<lparr>t_outputs := remove_at k (t_outputs tx), t_outputAmount := None\<rparr>)"

definition Transaction_addOutput_plain :: "tx_output \<Rightarrow> unit tx_op" where
  "Transaction_addOutput_plain out =
     tmodify (\<lambda>tx. tx\<lparr>t_outputs := t_outputs tx @ [out], t_outputAmount := None\<rparr>)"

definition Transaction_updateChangeOutput :: "unit tx_op" where
  "Transaction_updateChangeOutput tx =
     (case t_changeScript tx of
        None \<Rightarrow> tret () tx
      | Some s \<Rightarrow>
          tbind Transaction_clearSignatures (\<lambda>_.
          tbind (\<lambda>tx. case t_changeIndex tx of None \<Rightarrow> tret () tx | Some k \<Rightarrow> Transaction_removeOutput_at k tx) (\<lambda>_.
          tbind Transaction_getUnspentValue (\<lambda>available.
          tbind Transaction_getFee (\<lambda>fee.
            let changeAmount = num_sub available fee in
            if changeAmount > 0 then
              tbind (tmodify (\<lambda>tx. tx\<lparr>t_changeIndex := Some (int (length (t_outputs tx)))\<rparr>)) (\<lambda>_.
              tbind (tlift (new_Output (SatNum changeAmount) (ScrScript s))) Transaction_addOutput_plain)
            else tmodify (\<lambda>tx. tx\<lparr>t_changeIndex := None\<rparr>))))) tx)"

section \<open>Building\<close>

definition Transaction_uncheckedAddInput :: "tx_input \<Rightarrow> unit tx_op" where
  "Transaction_uncheckedAddInput i =
     tbind (tmodify (\<lambda>tx. tx\<lparr>t_inputs := t_inputs tx @ [i], t_inputAmount := None\<rparr>)) (\<lambda>_.
       Transaction_updateChangeOutput)"

text \<open>\<open>addInput(input, outputScript, satoshis)\<close> with a \<open>Script\<close> and a number, if given.\<close>

definition Transaction_addInput :: "tx_input \<Rightarrow> script option \<Rightarrow> int option \<Rightarrow> unit tx_op" where
  "Transaction_addInput i outputScript satoshis =
     (case in_output i of
        Some _ \<Rightarrow> Transaction_uncheckedAddInput i
      | None \<Rightarrow>
          (case (outputScript, satoshis) of
             (Some s, Some n) \<Rightarrow>
               tbind (tlift (new_Output (SatNum n) (ScrScript s))) (\<lambda>out.
                 Transaction_uncheckedAddInput (i\<lparr>in_output := Some out\<rparr>))
           | _ \<Rightarrow> tlift (Inl (NamedError ''Transaction.NeedMoreInfo''))))"

text \<open>
  The argument of \<open>from\<close>: the names of \<open>listunspent\<close> (\<open>txid\<close>, \<open>vout\<close>, \<open>scriptPubKey\<close>) stand beside those of
  the library (\<open>txId\<close>, \<open>outputIndex\<close>, \<open>script\<close>).  The amount is given in satoshis.
\<close>

record utxo_data =
  u_address :: "addr_data option"
  u_txid :: "string option"
  u_txId :: "string option"
  u_vout :: "nat option"
  u_outputIndex :: "nat option"
  u_scriptPubKey :: "script_in option"
  u_script :: "script_in option"
  u_satoshis :: "int option"

record unspent_output =
  uo_address :: "address option"
  uo_txId :: string
  uo_outputIndex :: nat
  uo_script :: script
  uo_satoshis :: int

definition new_Script_from :: "script_in \<Rightarrow> script result" where
  "new_Script_from a =
     (case a of
        ScrBuffer b \<Rightarrow> Script_fromBuffer b
      | ScrScript s \<Rightarrow> rbind (Script_toBuffer s) Script_fromBuffer
      | ScrString str \<Rightarrow> Script_fromString str)"

definition first_of :: "'a option \<Rightarrow> 'a option \<Rightarrow> 'a option" where
  "first_of x y = (case x of None \<Rightarrow> y | Some v \<Rightarrow> Some v)"

definition new_UnspentOutput :: "(bytes \<Rightarrow> bool) \<Rightarrow> net_state \<Rightarrow> utxo_data \<Rightarrow> unspent_output result" where
  "new_UnspentOutput pkv st u =
     rbind (case u_address u of
              None \<Rightarrow> Inr None
            | Some a \<Rightarrow> rbind (new_Address pkv st a ArgUndefined None) (\<lambda>a. Inr (Some a))) (\<lambda>address.
     let txId = (if truthy_str (u_txid u) then u_txid u else u_txId u) in
     rbind (check (truthy_str txId \<and> isHexa (or_else txId []) \<and> length (or_else txId []) \<le> 64)
              (PlainError ''Invalid TXID in object'')) (\<lambda>_.
     case first_of (u_vout u) (u_outputIndex u) of
       None \<Rightarrow> Inl (PlainError ''Invalid outputIndex, received undefined'')
     | Some n \<Rightarrow>
         rbind (check (u_scriptPubKey u \<noteq> None \<or> u_script u \<noteq> None)
                  (InvalidArgument ''Must provide the scriptPubKey for that output!'')) (\<lambda>_.
         rbind (case (if u_scriptPubKey u = Some (ScrString []) then u_script u
                      else first_of (u_scriptPubKey u) (u_script u)) of
                  None \<Rightarrow> Inr new_Script
                | Some a \<Rightarrow> new_Script_from a) (\<lambda>s.
         case u_satoshis u of
           None \<Rightarrow> Inl (InvalidArgument ''Must provide an amount for the output'')
         | Some v \<Rightarrow>
             Inr \<lparr>uo_address = address, uo_txId = or_else txId [], uo_outputIndex = n, uo_script = s,
                  uo_satoshis = v\<rparr>))))"

text \<open>\<open>new Input\<close> of the object that \<open>from\<close> makes.\<close>

definition utxo_input :: "unspent_output \<Rightarrow> input_kind \<Rightarrow> tx_input result" where
  "utxo_input u kind =
     rbind (new_Output (SatNum (uo_satoshis u)) (ScrScript (uo_script u))) (\<lambda>out.
       Input_setScript
         \<lparr>in_kind = kind, prevTxId = Buffer_from_hex (uo_txId u), outputIndex = uo_outputIndex u,
          sequenceNumber = DEFAULT_SEQNUMBER, in_scriptBuffer = [], in_script = None, in_output = Some out\<rparr>
         new_Script)"

definition Transaction_fromNonP2SH :: "(bytes \<Rightarrow> bool) \<Rightarrow> net_state \<Rightarrow> utxo_data \<Rightarrow> unit tx_op" where
  "Transaction_fromNonP2SH pkv st u =
     tbind (tlift
       (rbind (new_UnspentOutput pkv st u) (\<lambda>u.
          utxo_input u
            (if Script_isPublicKeyHashOut (uo_script u) then KPublicKeyHash
             else if Script_isPublicKeyOut pkv (uo_script u) then KPublicKey
             else KInput)))) (\<lambda>i.
     Transaction_addInput i None None)"

definition Transaction_fromMultisigUtxo ::
    "(bytes \<Rightarrow> bool) \<Rightarrow> net_state \<Rightarrow> utxo_data \<Rightarrow> bytes list \<Rightarrow> nat \<Rightarrow> unit tx_op" where
  "Transaction_fromMultisigUtxo pkv st u pubkeys threshold =
     tbind (tlift
       (rbind (check (threshold \<le> length pubkeys)
                 (InvalidArgument ''Number of required signatures must be greater than the number of public keys'')) (\<lambda>_.
        rbind (new_UnspentOutput pkv st u) (\<lambda>u.
          if Script_isMultisigOut (uo_script u)
          then rbind (utxo_input u KInput) (\<lambda>i. new_MultiSigInput i pubkeys threshold)
          else
            rbind (Script_isScriptHashOut (uo_script u)) (\<lambda>sh.
              if sh then rbind (utxo_input u KInput) (\<lambda>i. new_MultiSigScriptHashInput i pubkeys threshold)
              else Inl (PlainError ''@TODO'')))))) (\<lambda>i.
     Transaction_addInput i None None)"

text \<open>
  \<open>from\<close> of one output: the test for a known outpoint reads \<open>txId\<close> and \<open>outputIndex\<close> of the argument as it
  was given.
\<close>

definition Transaction_from ::
    "(bytes \<Rightarrow> bool) \<Rightarrow> net_state \<Rightarrow> utxo_data \<Rightarrow> bytes list option \<Rightarrow> nat \<Rightarrow> unit tx_op" where
  "Transaction_from pkv st u pubkeys threshold tx =
     (if \<exists>i \<in> set (t_inputs tx). Some (hexSlice (prevTxId i)) = u_txId u \<and> Some (outputIndex i) = u_outputIndex u
      then tret () tx
      else case pubkeys of
        Some ks \<Rightarrow> if threshold \<noteq> 0 then Transaction_fromMultisigUtxo pkv st u ks threshold tx
                   else Transaction_fromNonP2SH pkv st u tx
      | None \<Rightarrow> Transaction_fromNonP2SH pkv st u tx)"

definition Transaction_addOutput :: "tx_output \<Rightarrow> unit tx_op" where
  "Transaction_addOutput out = tbind (Transaction_addOutput_plain out) (\<lambda>_. Transaction_updateChangeOutput)"

definition Transaction_to :: "(bytes \<Rightarrow> bool) \<Rightarrow> net_state \<Rightarrow> addr_data \<Rightarrow> int \<Rightarrow> unit tx_op" where
  "Transaction_to pkv st a amount =
     tbind (tlift
       (rbind (check (0 \<le> amount) (InvalidArgument ''Amount is expected to be a positive integer'')) (\<lambda>_.
        rbind (new_Address pkv st a ArgUndefined None) (\<lambda>addr.
        rbind (Script_fromAddress addr) (\<lambda>s. new_Output (SatNum amount) (ScrScript s)))))) Transaction_addOutput"

definition Transaction_addData :: "bytes \<Rightarrow> unit tx_op" where
  "Transaction_addData b =
     tbind (tlift (rbind (Script_buildDataOut (Some b)) (\<lambda>s. new_Output (SatNum 0) (ScrScript s)))) Transaction_addOutput"

definition Transaction_change :: "(bytes \<Rightarrow> bool) \<Rightarrow> net_state \<Rightarrow> addr_data \<Rightarrow> unit tx_op" where
  "Transaction_change pkv st a =
     tbind (tlift (rbind (new_Address pkv st a ArgUndefined None) Script_fromAddress)) (\<lambda>s.
     tbind (tmodify (\<lambda>tx. tx\<lparr>t_changeScript := Some s\<rparr>)) (\<lambda>_. Transaction_updateChangeOutput))"

definition Transaction_fee :: "int \<Rightarrow> unit tx_op" where
  "Transaction_fee amount =
     tbind (tmodify (\<lambda>tx. tx\<lparr>t_fee := Some amount\<rparr>)) (\<lambda>_. Transaction_updateChangeOutput)"

definition Transaction_feePerKb :: "int \<Rightarrow> unit tx_op" where
  "Transaction_feePerKb amount =
     tbind (tmodify (\<lambda>tx. tx\<lparr>t_feePerKb := Some amount\<rparr>)) (\<lambda>_. Transaction_updateChangeOutput)"

definition Transaction_clearOutputs :: "unit tx_op" where
  "Transaction_clearOutputs =
     tbind (tmodify (\<lambda>tx. tx\<lparr>t_outputs := []\<rparr>)) (\<lambda>_.
     tbind Transaction_clearSignatures (\<lambda>_.
     tbind (tmodify (\<lambda>tx. tx\<lparr>t_outputAmount := None, t_changeIndex := None\<rparr>)) (\<lambda>_.
       Transaction_updateChangeOutput)))"

definition Transaction_removeOutput :: "int \<Rightarrow> unit tx_op" where
  "Transaction_removeOutput k = tbind (Transaction_removeOutput_at k) (\<lambda>_. Transaction_updateChangeOutput)"

definition input_index :: "string \<Rightarrow> nat \<Rightarrow> tx_input list \<Rightarrow> int" where
  "input_index txId n ins =
     (let k = length (takeWhile (\<lambda>i. \<not> (hexSlice (prevTxId i) = txId \<and> outputIndex i = n)) ins)
      in if k < length ins then int k else -1)"

text \<open>\<open>removeInput\<close> of a position and of an outpoint.\<close>

definition Transaction_removeInput_at :: "int \<Rightarrow> unit tx_op" where
  "Transaction_removeInput_at k tx =
     (if k < 0 \<or> k \<ge> int (length (t_inputs tx)) then (Inl InvalidIndex, tx)
      else Transaction_updateChangeOutput (tx\<lparr>t_inputs := remove_at k (t_inputs tx), t_inputAmount := None\<rparr>))"

definition Transaction_removeInput :: "string \<Rightarrow> nat \<Rightarrow> unit tx_op" where
  "Transaction_removeInput txId n tx = Transaction_removeInput_at (input_index txId n (t_inputs tx)) tx"

definition Transaction_getChangeOutput :: "transaction \<Rightarrow> tx_output option" where
  "Transaction_getChangeOutput tx =
     (case t_changeIndex tx of
        None \<Rightarrow> None
      | Some k \<Rightarrow> if 0 \<le> k \<and> k < int (length (t_outputs tx)) then Some (t_outputs tx ! nat k) else None)"

text \<open>\<open>setOutputs\<close>: the outputs that the inputs spend are set, and the class of the inputs with them.\<close>

fun set_outputs :: "(bytes \<Rightarrow> bool) \<Rightarrow> tx_input list \<Rightarrow> tx_output list \<Rightarrow> unit result \<times> tx_input list" where
  "set_outputs pkv [] outs = (Inr (), [])"
| "set_outputs pkv (i # ins) [] =
     (Inl (TypeError ''Cannot read property of undefined''), i\<lparr>in_output := None\<rparr> # ins)"
| "set_outputs pkv (i # ins) (out # outs) =
     (let i = i\<lparr>in_output := Some out\<rparr> in
      case rbind (script_of (o_script out)) (\<lambda>s. rbind (Script_toBuffer s) (\<lambda>_.
             let j = (if Script_isPublicKeyOut pkv s then rbind (new_Input_from i) (\<lambda>j. Inr (j\<lparr>in_kind := KPublicKey\<rparr>))
                      else Inr i)
             in rbind j (\<lambda>j. if Script_isContractOut s then rbind (new_Input_from j) (\<lambda>j. Inr (j\<lparr>in_kind := KContact\<rparr>))
                             else Inr j))) of
        Inl e \<Rightarrow> (Inl e, i # ins)
      | Inr j \<Rightarrow> (case set_outputs pkv ins outs of (r, ins) \<Rightarrow> (r, j # ins)))"

definition Transaction_setOutputs :: "(bytes \<Rightarrow> bool) \<Rightarrow> tx_output list \<Rightarrow> unit tx_op" where
  "Transaction_setOutputs pkv outs tx =
     (case set_outputs pkv (t_inputs tx) outs of (r, ins) \<Rightarrow> (r, tx\<lparr>t_inputs := ins\<rparr>))"

end
