(* ===== verification/Utf8.thy ===== *)
theory Utf8
  imports Prelude
begin

unbundle bit_operations_syntax

text \<open>
  \<open>utf8Slice\<close> of buffer.js, which is what \<open>buffer.toString()\<close> and \<open>buffer + string\<close> give: the UTF-16 code
  units of the text, with the replacement character for every byte that does not start a valid sequence.
\<close>

definition continuation :: "byte \<Rightarrow> bool" where
  "continuation b \<longleftrightarrow> b AND 0xC0 = 0x80"

text \<open>The code point at the head of the bytes and the length of its sequence, or \<open>None\<close>.\<close>

definition utf8_codePoint :: "bytes \<Rightarrow> (nat \<times> nat) option" where
  "utf8_codePoint bs =
     (case bs of
        [] \<Rightarrow> None
      | b1 # rest \<Rightarrow>
          let k = (if unat b1 > 0xEF then 4 else if unat b1 > 0xDF then 3 else if unat b1 > 0xBF then 2 else 1) in
          if k = 1 then (if unat b1 < 0x80 then Some (unat b1, 1) else None)
          else if k = 2 then
            (case rest of
               b2 # _ \<Rightarrow>
                 let c = push_bit 6 (unat (b1 AND 0x1F)) OR unat (b2 AND 0x3F)
                 in if continuation b2 \<and> c > 0x7F then Some (c, 2) else None
             | _ \<Rightarrow> None)
          else if k = (3 :: nat) then
            (case rest of
               b2 # b3 # _ \<Rightarrow>
                 let c = push_bit 12 (unat (b1 AND 0xF)) OR push_bit 6 (unat (b2 AND 0x3F)) OR unat (b3 AND 0x3F)
                 in if continuation b2 \<and> continuation b3 \<and> c > 0x7FF \<and> (c < 0xD800 \<or> c > 0xDFFF) then Some (c, 3)
                    else None
             | _ \<Rightarrow> None)
          else
            (case rest of
               b2 # b3 # b4 # _ \<Rightarrow>
                 let c = push_bit 18 (unat (b1 AND 0xF)) OR push_bit 12 (unat (b2 AND 0x3F))
                         OR push_bit 6 (unat (b3 AND 0x3F)) OR unat (b4 AND 0x3F)
                 in if continuation b2 \<and> continuation b3 \<and> continuation b4 \<and> c > 0xFFFF \<and> c < 0x110000
                    then Some (c, 4) else None
             | _ \<Rightarrow> None))"

definition utf16_units :: "nat \<Rightarrow> nat list" where
  "utf16_units c =
     (if c > 0xFFFF
      then [(drop_bit 10 (c - 0x10000) AND 0x3FF) OR 0xD800, 0xDC00 OR ((c - 0x10000) AND 0x3FF)]
      else [c])"

function utf8Slice :: "bytes \<Rightarrow> nat list" where
  "utf8Slice [] = []"
| "utf8Slice (b # bs) =
     (case utf8_codePoint (b # bs) of
        None \<Rightarrow> 0xFFFD # utf8Slice bs
      | Some (c, k) \<Rightarrow> utf16_units c @ utf8Slice (drop (k - 1) bs))"
  by pat_completeness auto
termination by (relation "measure length") auto

text \<open>Bytes from \<open>0x80\<close> to \<open>0xBF\<close> never start a sequence.\<close>

lemma utf8Slice_stray:
  assumes "list_all (\<lambda>b. 0x80 \<le> unat b \<and> unat b \<le> 0xBF) bs"
  shows "utf8Slice bs = replicate (length bs) 0xFFFD"
  using assms by (induction bs) (simp_all add: utf8_codePoint_def)

text \<open>ASCII text is read back unit by unit.\<close>

lemma utf8Slice_ascii:
  assumes "list_all (\<lambda>b. unat b < 0x80) bs"
  shows "utf8Slice bs = map unat bs"
  using assms by (induction bs) (simp_all add: utf8_codePoint_def utf16_units_def)

end
