(* ===== verification/TxCheck.thy ===== *)
theory TxCheck
  imports TxBuild Utf8 "HOL-Library.Multiset"
begin

text \<open>
  The rest of \<open>Transaction\<close>: order of inputs and outputs, lock times and replacement, the checks before a
  transaction is serialized (\<open>getSerializationError\<close>), the sanity tests (\<open>verify\<close>) and signing.
\<close>

section \<open>Order\<close>

text \<open>A stable sort by a comparison function, as \<open>Array.prototype.sort\<close>.\<close>

fun insert_by :: "('a \<Rightarrow> 'a \<Rightarrow> int) \<Rightarrow> 'a \<Rightarrow> 'a list \<Rightarrow> 'a list" where
  "insert_by cmp x [] = [x]"
| "insert_by cmp x (y # ys) = (if cmp x y > 0 then y # insert_by cmp x ys else x # y # ys)"

definition sort_by :: "('a \<Rightarrow> 'a \<Rightarrow> int) \<Rightarrow> 'a list \<Rightarrow> 'a list" where
  "sort_by cmp xs = foldr (insert_by cmp) xs []"

definition input_order :: "tx_input \<Rightarrow> tx_input \<Rightarrow> int" where
  "input_order a b =
     (let c = Buffer_compare (prevTxId a) (prevTxId b)
      in if c \<noteq> 0 then c else int (outputIndex a) - int (outputIndex b))"

definition output_bytes_of :: "tx_output \<Rightarrow> bytes result" where
  "output_bytes_of out = rbind (script_of (o_script out)) Script_toBuffer"

definition output_order :: "tx_output \<Rightarrow> tx_output \<Rightarrow> int" where
  "output_order a b =
     (if o_satoshis a \<noteq> o_satoshis b then num_sub (o_satoshis a) (o_satoshis b)
      else case (output_bytes_of a, output_bytes_of b) of
        (Inr x, Inr y) \<Rightarrow> Buffer_compare x y
      | _ \<Rightarrow> 0)"

text \<open>
  The comparison of two outputs throws when the amounts are equal and one of the scripts is not readable;
  two such outputs next to each other in the result are always compared.
\<close>

definition sort_error :: "tx_output list \<Rightarrow> js_error option" where
  "sort_error outs =
     (case filter (\<lambda>out. \<not> is_ok (output_bytes_of out) \<and> length (filter (\<lambda>o2. o_satoshis o2 = o_satoshis out) outs) > 1) outs of
        [] \<Rightarrow> None
      | out # _ \<Rightarrow> (case output_bytes_of out of Inl e \<Rightarrow> Some e | Inr _ \<Rightarrow> None))"

definition Transaction_sortInputs :: "(tx_input list \<Rightarrow> tx_input list) \<Rightarrow> unit tx_op" where
  "Transaction_sortInputs f =
     tbind (tmodify (\<lambda>tx. tx\<lparr>t_inputs := f (t_inputs tx)\<rparr>)) (\<lambda>_. Transaction_clearSignatures)"

text \<open>
  The match of lodash that \<open>_.findIndex\<close> makes of an object: every property of the given object is found in the
  other one, and arrays match when each element of the given one matches an element of the other that no earlier
  element has taken, in any order and with elements to spare.
\<close>

fun equalArrays :: "('a \<Rightarrow> 'a \<Rightarrow> bool) \<Rightarrow> 'a list \<Rightarrow> 'a list \<Rightarrow> bool" where
  "equalArrays eq [] other = True"
| "equalArrays eq (x # xs) other =
     (case List.extract (eq x) other of
        None \<Rightarrow> False
      | Some (us, _, vs) \<Rightarrow> equalArrays eq xs (us @ vs))"

definition equalProp :: "('a \<Rightarrow> 'a \<Rightarrow> bool) \<Rightarrow> 'a option \<Rightarrow> 'a option \<Rightarrow> bool" where
  "equalProp eq x y = (case x of None \<Rightarrow> True | Some v \<Rightarrow> (case y of None \<Rightarrow> False | Some w \<Rightarrow> eq v w))"

definition equalChunk :: "chunk \<Rightarrow> chunk \<Rightarrow> bool" where
  "equalChunk c d \<longleftrightarrow>
     equalProp (=) (opcodenum c) (opcodenum d) \<and> equalProp (equalArrays (=)) (cbuf c) (cbuf d) \<and>
     equalProp (=) (clen c) (clen d)"

definition equalScript :: "script \<Rightarrow> script \<Rightarrow> bool" where
  "equalScript s t \<longleftrightarrow>
     equalArrays equalChunk (chunks s) (chunks t) \<and> (s_isInput s \<longrightarrow> s_isInput t) \<and> (s_isOutput s \<longrightarrow> s_isOutput t) \<and>
     equalProp (=) (s_network s) (s_network t)"

text \<open>
  \<open>baseIsMatch\<close> on two outputs, where \<open>_script\<close> is \<open>null\<close> or an object.  The numbers behind equal amounts have the
  same words.
\<close>

definition baseIsMatch :: "tx_output \<Rightarrow> tx_output \<Rightarrow> bool" where
  "baseIsMatch src out \<longleftrightarrow>
     o_satoshis src = o_satoshis out \<and> o_satoshisBN src = o_satoshisBN out \<and>
     equalArrays (=) (o_scriptBuffer src) (o_scriptBuffer out) \<and>
     (case o_script src of
        None \<Rightarrow> o_script out = None
      | Some s \<Rightarrow> (case o_script out of None \<Rightarrow> False | Some t \<Rightarrow> equalScript s t))"

definition findIndex :: "('a \<Rightarrow> bool) \<Rightarrow> 'a list \<Rightarrow> int" where
  "findIndex P xs = (let k = length (takeWhile (\<lambda>y. \<not> P y) xs) in if k < length xs then int k else -1)"

text \<open>
  \<open>_newOutputOrder\<close>: the outputs of a transaction are different objects, so as many outputs as before, with every old
  object among them, is a permutation.  The new place of the change output is the first output that matches it,
  and with no change output \<open>_.findIndex\<close> finds the first output.
\<close>

definition Transaction_newOutputOrder :: "tx_output list \<Rightarrow> unit tx_op" where
  "Transaction_newOutputOrder outs tx =
     (if mset (t_outputs tx) \<noteq> mset outs then (Inl InvalidSorting, tx)
      else
        let k = (case t_changeIndex tx of
                   None \<Rightarrow> None
                 | Some _ \<Rightarrow>
                     (case Transaction_getChangeOutput tx of
                        Some change \<Rightarrow> Some (findIndex (\<lambda>out. out = change \<or> baseIsMatch change out) outs)
                      | None \<Rightarrow> Some (findIndex (\<lambda>_. True) outs)))
        in (Inr (), tx\<lparr>t_changeIndex := k, t_outputs := outs\<rparr>))"

definition Transaction_sortOutputs :: "(tx_output list \<Rightarrow> tx_output list) \<Rightarrow> unit tx_op" where
  "Transaction_sortOutputs f tx = Transaction_newOutputOrder (f (t_outputs tx)) tx"

definition Transaction_sort :: "unit tx_op" where
  "Transaction_sort =
     tbind (Transaction_sortInputs (sort_by input_order)) (\<lambda>_ tx.
       case sort_error (t_outputs tx) of
         Some e \<Rightarrow> (Inl e, tx)
       | None \<Rightarrow> Transaction_sortOutputs (sort_by output_order) tx)"

section \<open>Lock time and replacement\<close>

definition lock_input :: "tx_input \<Rightarrow> tx_input" where
  "lock_input i = (if sequenceNumber i = DEFAULT_SEQNUMBER then i\<lparr>sequenceNumber := DEFAULT_LOCKTIME_SEQNUMBER\<rparr> else i)"

definition set_lock :: "int \<Rightarrow> transaction \<Rightarrow> transaction" where
  "set_lock n tx = tx\<lparr>t_inputs := map lock_input (t_inputs tx), t_nLockTime := nat n\<rparr>"

text \<open>Times are given as numbers of seconds.\<close>

definition Transaction_lockUntilDate :: "int \<Rightarrow> unit tx_op" where
  "Transaction_lockUntilDate time tx =
     (if time = 0 then (Inl (InvalidArgument ''Invalid Argument''), tx)
      else if time < NLOCKTIME_BLOCKHEIGHT_LIMIT then (Inl (NamedError ''Transaction.LockTimeTooEarly''), tx)
      else (Inr (), set_lock time tx))"

definition Transaction_lockUntilBlockHeight :: "int \<Rightarrow> unit tx_op" where
  "Transaction_lockUntilBlockHeight height tx =
     (if height \<ge> NLOCKTIME_BLOCKHEIGHT_LIMIT then (Inl (NamedError ''Transaction.BlockHeightTooHigh''), tx)
      else if height < 0 then (Inl (NamedError ''Transaction.NLockTimeOutOfRange''), tx)
      else (Inr (), set_lock height tx))"

datatype lock_time = NoLock | LockHeight nat | LockDate nat

definition Transaction_getLockTime :: "transaction \<Rightarrow> lock_time" where
  "Transaction_getLockTime tx =
     (if t_nLockTime tx = 0 then NoLock
      else if int (t_nLockTime tx) < NLOCKTIME_BLOCKHEIGHT_LIMIT then LockHeight (t_nLockTime tx)
      else LockDate (1000 * t_nLockTime tx))"

definition Transaction_isRBF :: "transaction \<Rightarrow> bool" where
  "Transaction_isRBF tx = list_ex (\<lambda>i. sequenceNumber i < MAXINT - 1) (t_inputs tx)"

definition Transaction_enableRBF :: "unit tx_op" where
  "Transaction_enableRBF =
     tmodify (\<lambda>tx. tx\<lparr>t_inputs := map (\<lambda>i. if sequenceNumber i \<ge> MAXINT - 1 then i\<lparr>sequenceNumber := DEFAULT_RBF_SEQNUMBER\<rparr> else i)
       (t_inputs tx)\<rparr>)"

section \<open>Signing\<close>

definition Transaction_hasAllUtxoInfo :: "transaction \<Rightarrow> bool" where
  "Transaction_hasAllUtxoInfo tx = list_all (\<lambda>i. in_output i \<noteq> None) (t_inputs tx)"

fun all_ok :: "('a \<Rightarrow> bool result) \<Rightarrow> 'a list \<Rightarrow> bool result" where
  "all_ok f [] = Inr True"
| "all_ok f (x # xs) = rbind (f x) (\<lambda>b. rbind (all_ok f xs) (\<lambda>c. Inr (b \<and> c)))"

definition Transaction_hasAllInputSign :: "transaction \<Rightarrow> bool result" where
  "Transaction_hasAllInputSign tx =
     all_ok (\<lambda>i. rbind (output_of i) (\<lambda>out. rbind (script_of (o_script out)) (\<lambda>s.
       Inr (Script_isContractOut s \<or> length (in_scriptBuffer i) > 0)))) (t_inputs tx)"

definition unable_to_verify :: js_error where
  "unable_to_verify = UnableToVerifySignature ''Unrecognized script kind, or not enough information to execute script.''"

definition Transaction_isFullySigned :: "transaction \<Rightarrow> bool result" where
  "Transaction_isFullySigned tx =
     (if list_ex (\<lambda>i. in_kind i = KInput) (t_inputs tx) then Inl unable_to_verify
      else all_ok Input_isFullySigned (t_inputs tx))"

fun signatures_from :: "'k ec_env \<Rightarrow> transaction \<Rightarrow> 'k \<Rightarrow> nat \<Rightarrow> bytes \<Rightarrow> nat \<Rightarrow> tx_input list \<Rightarrow> tx_sig list result" where
  "signatures_from ec tx k sigtype hashData n [] = Inr []"
| "signatures_from ec tx k sigtype hashData n (i # ins) =
     rbind (Input_getSignatures ec tx i k n sigtype hashData) (\<lambda>sigs.
     rbind (signatures_from ec tx k sigtype hashData (Suc n) ins) (\<lambda>rest. Inr (sigs @ rest)))"

definition Transaction_getSignatures :: "'k ec_env \<Rightarrow> transaction \<Rightarrow> 'k \<Rightarrow> nat \<Rightarrow> tx_sig list result" where
  "Transaction_getSignatures ec tx k sigtype =
     signatures_from ec tx k (or_all sigtype) (Hash_sha256ripemd160 (ecPublicKey ec k)) 0 (t_inputs tx)"

definition Transaction_applySignature :: "'k ec_env \<Rightarrow> tx_sig \<Rightarrow> unit tx_op" where
  "Transaction_applySignature ec ts tx =
     (if ts_inputIndex ts < length (t_inputs tx)
      then (case Input_addSignature ec tx (t_inputs tx ! ts_inputIndex ts) ts of
              (r, i) \<Rightarrow> (r, tx\<lparr>t_inputs := (t_inputs tx)[ts_inputIndex ts := i]\<rparr>))
      else (Inl (TypeError ''Cannot read property of undefined''), tx))"

fun apply_signatures :: "'k ec_env \<Rightarrow> tx_sig list \<Rightarrow> unit tx_op" where
  "apply_signatures ec [] = tret ()"
| "apply_signatures ec (ts # rest) = tbind (Transaction_applySignature ec ts) (\<lambda>_. apply_signatures ec rest)"

text \<open>The sender of a contract signs when all inputs are signed.\<close>

definition Transaction_signSmartContract :: "'k ec_env \<Rightarrow> 'k \<Rightarrow> nat \<Rightarrow> unit tx_op" where
  "Transaction_signSmartContract ec k sigtype tx =
     (if Transaction_IsSmartContract tx then
        (case contractdata tx of
           None \<Rightarrow> (Inl (TypeError ''Cannot read property of undefined''), tx)
         | Some c \<Rightarrow>
             (case rbind (Script_SignatureHashForContract (ecParse ec) tx) (\<lambda>h.
                   if ecPublicKey ec k = c_sender c then
                     rbind (ecSign ec h k) (\<lambda>s.
                     rbind (Script_add new_Script (ArgBuffer (Buffer_concat
                              [Signature_toDER s, integerAsSingleByteBuffer (int (or_all sigtype))]))) (\<lambda>scr.
                       Inr (Some scr)))
                   else Inr None) of
                Inl e \<Rightarrow> (Inl e, tx)
              | Inr None \<Rightarrow> (Inr (), tx)
              | Inr (Some scr) \<Rightarrow> (Inr (), tx\<lparr>contractdata := Some (c\<lparr>c_signature := Some scr\<rparr>)\<rparr>)))
      else (Inr (), tx))"

definition Transaction_sign :: "'k ec_env \<Rightarrow> 'k \<Rightarrow> nat \<Rightarrow> unit tx_op" where
  "Transaction_sign ec k sigtype tx =
     (if \<not> Transaction_hasAllUtxoInfo tx
      then (Inl (InvalidState ''Not all utxo information is available to sign the transaction.''), tx)
      else
        tbind (\<lambda>tx. tlift (Transaction_getSignatures ec tx k sigtype) tx) (\<lambda>sigs.
        tbind (apply_signatures ec sigs) (\<lambda>_.
        tbind (\<lambda>tx. if Transaction_IsSmartContract tx then tlift (Transaction_hasAllInputSign tx) tx else tret False tx) (\<lambda>b.
          if b then Transaction_signSmartContract ec k sigtype else tret ()))) tx)"

fun sign_each :: "'k ec_env \<Rightarrow> 'k list \<Rightarrow> nat \<Rightarrow> unit tx_op" where
  "sign_each ec [] sigtype = tret ()"
| "sign_each ec (k # ks) sigtype = tbind (Transaction_sign ec k sigtype) (\<lambda>_. sign_each ec ks sigtype)"

definition Transaction_sign_all :: "'k ec_env \<Rightarrow> 'k list \<Rightarrow> nat \<Rightarrow> unit tx_op" where
  "Transaction_sign_all ec ks sigtype tx =
     (if \<not> Transaction_hasAllUtxoInfo tx
      then (Inl (InvalidState ''Not all utxo information is available to sign the transaction.''), tx)
      else sign_each ec ks sigtype tx)"

definition Transaction_isValidSignature :: "'k ec_env \<Rightarrow> transaction \<Rightarrow> tx_sig \<Rightarrow> bool result" where
  "Transaction_isValidSignature ec tx ts =
     (if ts_inputIndex ts \<ge> length (t_inputs tx) then Inl (TypeError ''Cannot read property of undefined'')
      else
        let i = t_inputs tx ! ts_inputIndex ts in
        case in_kind i of
          KMultiSig _ _ _ \<Rightarrow> Input_isValidSignature ec tx i ts
        | KMultiSigScriptHash _ _ _ \<Rightarrow> Input_isValidSignature ec tx i ts
        | _ \<Rightarrow> Inl unable_to_verify)"

section \<open>Checks before serializing\<close>

record ser_opts =
  disableAll :: bool
  disableSmallFees :: bool
  disableLargeFees :: bool
  disableIsFullySigned :: bool
  disableDustOutputs :: bool
  disableMoreOutputThanInput :: bool

definition Transaction_invalidSatoshis :: "transaction \<Rightarrow> bool" where
  "Transaction_invalidSatoshis tx = list_ex (\<lambda>out. Output_invalidSatoshis out \<noteq> None) (t_outputs tx)"

text \<open>The estimate is taken only when a check needs it; the checks that are left out cannot throw.\<close>

definition Transaction_hasFeeError :: "ser_opts \<Rightarrow> int \<Rightarrow> js_error option tx_op" where
  "Transaction_hasFeeError opts unspent tx =
     (if t_fee tx \<noteq> None \<and> t_fee tx \<noteq> Some unspent then tret (Some FeeDifferent) tx
      else
        tbind (if disableLargeFees opts then tret None
               else tbind Transaction_estimateFee (\<lambda>est tx.
                 tret (if unspent > num_mul FEE_SECURITY_MARGIN est
                       then Some (if t_changeScript tx = None then ChangeAddressMissing else FeeTooLarge)
                       else None) tx)) (\<lambda>e.
          if e \<noteq> None then tret e
          else if disableSmallFees opts then tret None
          else tbind Transaction_estimateFee (\<lambda>est.
            tret (if unspent < - ((- est) div FEE_SECURITY_MARGIN) then Some FeeTooSmall else None))) tx)"

fun dust_outputs :: "tx_output list \<Rightarrow> js_error option result" where
  "dust_outputs [] = Inr None"
| "dust_outputs (out # outs) =
     (if o_satoshis out < DUST_AMOUNT
      then rbind (script_of (o_script out)) (\<lambda>s. if Script_isDataOut s then dust_outputs outs else Inr (Some DustOutputs))
      else dust_outputs outs)"

definition Transaction_hasDustOutputs :: "ser_opts \<Rightarrow> transaction \<Rightarrow> js_error option result" where
  "Transaction_hasDustOutputs opts tx = (if disableDustOutputs opts then Inr None else dust_outputs (t_outputs tx))"

definition Transaction_isMissingSignatures :: "ser_opts \<Rightarrow> transaction \<Rightarrow> js_error option result" where
  "Transaction_isMissingSignatures opts tx =
     (if disableIsFullySigned opts then Inr None
      else rbind (Transaction_isFullySigned tx) (\<lambda>b. Inr (if b then None else Some MissingSignatures)))"

definition Transaction_getSerializationError :: "ser_opts \<Rightarrow> js_error option tx_op" where
  "Transaction_getSerializationError opts tx =
     (if Transaction_invalidSatoshis tx then tret (Some InvalidSatoshis) tx
      else
        tbind Transaction_getUnspentValue (\<lambda>unspent.
        tbind (if unspent < 0
               then tret (if disableMoreOutputThanInput opts then None else Some InvalidOutputAmountSum)
               else Transaction_hasFeeError opts unspent) (\<lambda>e.
        if e \<noteq> None then tret e
        else
          (\<lambda>tx. tbind (tlift (Transaction_hasDustOutputs opts tx)) (\<lambda>e.
            if e \<noteq> None then tret e else (\<lambda>tx. tlift (Transaction_isMissingSignatures opts tx) tx)) tx))) tx)"

definition Transaction_checkedSerialize :: "ser_opts \<Rightarrow> string tx_op" where
  "Transaction_checkedSerialize opts =
     tbind (Transaction_getSerializationError opts) (\<lambda>e.
       case e of Some err \<Rightarrow> tlift (Inl err) | None \<Rightarrow> (\<lambda>tx. tlift (Transaction_uncheckedSerialize tx) tx))"

definition Transaction_serialize :: "ser_opts \<Rightarrow> string tx_op" where
  "Transaction_serialize opts =
     (if disableAll opts then (\<lambda>tx. tlift (Transaction_uncheckedSerialize tx) tx) else Transaction_checkedSerialize opts)"

section \<open>Sanity tests\<close>

text \<open>\<open>verify\<close>: a message, or \<open>None\<close> for \<open>true\<close>.\<close>

fun verify_outputs :: "nat \<Rightarrow> int \<Rightarrow> tx_output list \<Rightarrow> string option" where
  "verify_outputs i valueout [] = None"
| "verify_outputs i valueout (out # outs) =
     (if Output_invalidSatoshis out \<noteq> None then Some (''transaction txout '' @ dec_string i @ '' satoshis is invalid'')
      else if o_satoshisBN out > MAX_MONEY then Some (''transaction txout '' @ dec_string i @ '' greater than MAX_MONEY'')
      else if valueout + o_satoshisBN out > MAX_MONEY
      then Some (''transaction txout '' @ dec_string i @ '' total output greater than MAX_MONEY'')
      else verify_outputs (Suc i) (valueout + o_satoshisBN out) outs)"

text \<open>\<open>txin.prevTxId + ':' + txin.outputIndex\<close> as UTF-16 code units.\<close>

definition input_key :: "tx_input \<Rightarrow> nat list" where
  "input_key i = utf8Slice (prevTxId i) @ map of_char ('':'' @ dec_string (outputIndex i))"

fun duplicate_input :: "nat \<Rightarrow> nat list set \<Rightarrow> tx_input list \<Rightarrow> nat option" where
  "duplicate_input n seen [] = None"
| "duplicate_input n seen (i # ins) =
     (if input_key i \<in> seen then Some n else duplicate_input (Suc n) (insert (input_key i) seen) ins)"

fun null_input :: "nat \<Rightarrow> tx_input list \<Rightarrow> nat option" where
  "null_input n [] = None"
| "null_input n (i # ins) = (if Input_isNull i then Some n else null_input (Suc n) ins)"

definition Transaction_verify :: "transaction \<Rightarrow> string option result" where
  "Transaction_verify tx =
     (if t_inputs tx = [] then Inr (Some ''transaction txins empty'')
      else if t_outputs tx = [] then Inr (Some ''transaction txouts empty'')
      else case verify_outputs 0 0 (t_outputs tx) of
        Some msg \<Rightarrow> Inr (Some msg)
      | None \<Rightarrow>
          rbind (Transaction_toBuffer tx) (\<lambda>b.
            if length b > MAX_BLOCK_SIZE then Inr (Some ''transaction over the maximum block size'')
            else case duplicate_input 0 {} (t_inputs tx) of
              Some i \<Rightarrow> Inr (Some (''transaction input '' @ dec_string i @ '' duplicate input''))
            | None \<Rightarrow>
                Inr (if Transaction_isCoinbase tx then
                       (let n = length (in_scriptBuffer (t_inputs tx ! 0)) in
                        if n < 2 \<or> n > 100 then Some ''coinbase transaction script size invalid'' else None)
                     else
                       (case null_input 0 (t_inputs tx) of
                          Some i \<Rightarrow> Some (''transaction input '' @ dec_string i @ '' has null input'')
                        | None \<Rightarrow> None))))"

end
