(* ===== verification/TxWire.thy ===== *)
theory TxWire
  imports TxData
begin

text \<open>
  The bytes of inputs, outputs and transactions, and what the readers make of them: inputs and outputs
  interpret \<open>wire_format\<close>, and from their contracts follow the round trip of transactions, what the
  signature hash commits to, and where the hash for contracts is ambiguous.
\<close>

section \<open>Bytes\<close>

definition output_bytes :: "tx_output \<Rightarrow> bytes" where
  "output_bytes out =
     le_bytes 8 (nat (o_satoshisBN out)) @ varint_bytes (length (o_scriptBuffer out)) @ o_scriptBuffer out"

definition input_bytes :: "tx_input \<Rightarrow> bytes" where
  "input_bytes i =
     rev (prevTxId i) @ le_bytes 4 (outputIndex i) @ varint_bytes (length (in_scriptBuffer i)) @ in_scriptBuffer i
     @ le_bytes 4 (sequenceNumber i)"

definition output_ok :: "tx_output \<Rightarrow> bool" where
  "output_ok out \<longleftrightarrow>
     0 \<le> o_satoshisBN out \<and> o_satoshisBN out < 18446744073709551616 \<and> length (o_scriptBuffer out) < 2147483648"

definition input_ok :: "tx_input \<Rightarrow> bool" where
  "input_ok i \<longleftrightarrow>
     length (prevTxId i) = 32 \<and> outputIndex i < 4294967296 \<and> sequenceNumber i < 4294967296 \<and>
     length (in_scriptBuffer i) < 2147483648"

text \<open>What is left of an output and of an input after a round trip.\<close>

definition wire_output :: "tx_output \<Rightarrow> tx_output" where
  "wire_output out =
     out\<lparr>o_satoshis := BN_toNumber (o_satoshisBN out), o_script := Output_script_of (o_scriptBuffer out)\<rparr>"

definition wire_input :: "tx_input \<Rightarrow> tx_input" where
  "wire_input i = i\<lparr>in_kind := KPublicKeyHash, in_script := None, in_output := None\<rparr>"

lemma wire_idem [simp]: "wire_output (wire_output out) = wire_output out" "wire_input (wire_input i) = wire_input i"
  by (simp_all add: wire_output_def wire_input_def)

lemma writeVarintNum_bw:
  "n < 18446744073709551616 \<Longrightarrow> BufferWriter_writeVarintNum w (int n) = Inr (w @ [varint_bytes n])"
  by (simp add: BufferWriter_writeVarintNum_def writing_def varintBufNum_eq BufferWriter_write_def)

lemma writeInt32LE_bw:
  "-2147483648 \<le> v \<Longrightarrow> v < 2147483648 \<Longrightarrow>
   BufferWriter_writeInt32LE w v = Inr (w @ [le_bytes 4 (nat (v mod 4294967296))])"
  using writeInt32LE_fresh [of v] by (simp add: BufferWriter_writeInt32LE_def writing_def BufferWriter_write_def)

lemma writeUInt64LEBN_bw:
  assumes "0 \<le> v" and "v < 18446744073709551616"
  shows "BufferWriter_writeUInt64LEBN w v = w @ [le_bytes 8 (nat v)]"
proof -
  have "nat v < 256 ^ 8" using assms by (simp add: nat_less_iff)
  then show ?thesis
    using BN_toBuffer_fits [of v 8] assms(1)
    by (simp add: BufferWriter_writeUInt64LEBN_def BufferWriter_writeReverse_def del: le_bytes_numeral)
qed

lemma Output_write:
  "output_ok out \<Longrightarrow> \<exists>ps. Output_toBufferWriter w out = Inr (w @ ps) \<and> concat ps = output_bytes out"
  by (simp add: Output_toBufferWriter_def output_ok_def writeUInt64LEBN_bw writeVarintNum_bw BufferWriter_write_def
      output_bytes_def Let_def del: le_bytes_numeral)

lemma Input_write:
  "input_ok i \<Longrightarrow> \<exists>ps. Input_toBufferWriter w i = Inr (w @ ps) \<and> concat ps = input_bytes i"
  by (simp add: Input_toBufferWriter_def input_ok_def writeUInt32LE_bw writeVarintNum_bw BufferWriter_write_def
      BufferWriter_writeReverse_def input_bytes_def Let_def del: le_bytes_numeral)

lemma write_each_bytes:
  assumes "\<And>w x. x \<in> set xs \<Longrightarrow> \<exists>ps. f w x = Inr (w @ ps) \<and> concat ps = g x"
  shows "\<exists>ps. write_each f w xs = Inr (w @ ps) \<and> concat ps = concat (map g xs)"
  using assms
proof (induction xs arbitrary: w)
  case (Cons x xs)
  from Cons.prems [of x w] obtain ps where ps: "f w x = Inr (w @ ps)" "concat ps = g x" by auto
  from Cons.IH [of "w @ ps"] Cons.prems obtain qs
    where "write_each f (w @ ps) xs = Inr (w @ ps @ qs)" "concat qs = concat (map g xs)" by auto
  with ps show ?case by (intro exI [of _ "ps @ qs"]) simp
qed simp

section \<open>Reading\<close>

lemma le_val_le_bytes_4: "n < 4294967296 \<Longrightarrow> le_val (le_bytes 4 n) = n"
  by (simp only: le_val_le_bytes) simp

lemma le_val_le_bytes_8: "n < 18446744073709551616 \<Longrightarrow> le_val (le_bytes 8 n) = n"
  by (simp only: le_val_le_bytes) simp

lemma Output_read:
  assumes "output_ok out" and "reads br (output_bytes out)"
  shows "Output_fromBufferReader br = Inr (wire_output out, skip (length (output_bytes out)) br)"
proof -
  let ?s = "le_bytes 8 (nat (o_satoshisBN out))" and ?v = "varint_bytes (length (o_scriptBuffer out))"
  let ?b = "o_scriptBuffer out"
  from assms(2) have r: "reads br ?s" "reads (skip 8 br) ?v" "reads (skip (8 + length ?v) br) ?b"
    by (simp_all add: output_bytes_def reads_append del: le_bytes_numeral)
  have n: "nat (o_satoshisBN out) < 18446744073709551616" using assms(1) by (simp add: output_ok_def nat_less_iff)
  have 1: "BufferReader_readUInt64LEBN br = Inr (o_satoshisBN out, skip 8 br)"
    using readUInt64LEBN_reads [OF r(1)] le_val_le_bytes_8 [OF n] assms(1)
    by (simp add: output_ok_def del: le_bytes_numeral)
  have 2: "BufferReader_readVarintNum (skip 8 br) = Inr (length ?b, skip (8 + length ?v) br)"
    using readVarintNum_reads [OF r(2)] assms(1) by (simp add: output_ok_def)
  have 3: "BufferReader_read (skip (8 + length ?v) br) (length ?b) = (?b, skip (8 + length ?v + length ?b) br)"
    using read_reads [OF r(3)] by simp
  have "0 \<le> BN_toNumber (o_satoshisBN out)" using assms(1) by (simp add: BN_toNumber_def output_ok_def)
  then have new: "new_Output (SatBN (o_satoshisBN out)) (ScrBuffer ?b) = Inr (wire_output out)"
    by (simp add: new_Output_def Output_set_satoshis_def check_def Output_setScript_def wire_output_def)
  show ?thesis
    using new 3 by (cases "?b = []") (simp_all add: Output_fromBufferReader_def 1 2 output_bytes_def add.assoc
        del: le_bytes_numeral)
qed

lemma Input_read:
  assumes "input_ok i" and "reads br (input_bytes i)"
  shows "Input_fromBufferReader br = Inr (wire_input i, skip (length (input_bytes i)) br)"
proof -
  let ?p = "rev (prevTxId i)" and ?o = "le_bytes 4 (outputIndex i)" and ?s = "le_bytes 4 (sequenceNumber i)"
  let ?v = "varint_bytes (length (in_scriptBuffer i)) @ in_scriptBuffer i"
  have l: "length ?p = 32" using assms(1) by (simp add: input_ok_def)
  from assms(2) have r: "reads br ?p" "reads (skip 32 br) ?o" "reads (skip 36 br) ?v"
    "reads (skip (36 + length ?v) br) ?s"
    using l by (simp_all add: input_bytes_def reads_append add.assoc del: le_bytes_numeral)
  have 1: "BufferReader_readReverse br (Some 32) = (prevTxId i, skip 32 br)"
    using readReverse_reads [OF r(1)] l by simp
  have 2: "BufferReader_readUInt32LE (skip 32 br) = Inr (outputIndex i, skip 36 br)"
    using readUInt32LE_reads [OF r(2)] le_val_le_bytes_4 assms(1) by (simp add: input_ok_def del: le_bytes_numeral)
  have 3: "BufferReader_readVarLengthBuffer (skip 36 br) = Inr (in_scriptBuffer i, skip (36 + length ?v) br)"
    using readVarLengthBuffer_reads [OF r(3)] by simp
  have 4: "BufferReader_readUInt32LE (skip (36 + length ?v) br) = Inr (sequenceNumber i, skip (40 + length ?v) br)"
    using readUInt32LE_reads [OF r(4)] le_val_le_bytes_4 assms(1)
    by (simp add: input_ok_def add.commute del: le_bytes_numeral)
  show ?thesis
    using l 3 4 by (simp add: Input_fromBufferReader_def 1 2 wire_input_def input_bytes_def add.assoc del: le_bytes_numeral)
qed

definition input_enc :: "tx_input \<Rightarrow> bytes result" where
  "input_enc i = rbind (Input_toBufferWriter [] i) (\<lambda>w. Inr (concat w))"

definition output_enc :: "tx_output \<Rightarrow> bytes result" where
  "output_enc out = rbind (Output_toBufferWriter [] out) (\<lambda>w. Inr (concat w))"

lemma input_enc_eq: "input_ok i \<Longrightarrow> input_enc i = Inr (input_bytes i)"
  using Input_write [of i "[]"] by (auto simp: input_enc_def)

lemma output_enc_eq: "output_ok out \<Longrightarrow> output_enc out = Inr (output_bytes out)"
  using Output_write [of out "[]"] by (auto simp: output_enc_def)

interpretation tx_in: wire_format "\<lambda>i. input_ok i \<and> wire_input i = i" input_enc Input_fromBufferReader
  by unfold_locales (auto simp: input_enc_eq dest: Input_read)

interpretation tx_out: wire_format "\<lambda>out. output_ok out \<and> wire_output out = out" output_enc Output_fromBufferReader
  by unfold_locales (auto simp: output_enc_eq dest: Output_read)

section \<open>Whole transactions\<close>

definition vec_bytes :: "('a \<Rightarrow> bytes) \<Rightarrow> 'a list \<Rightarrow> bytes" where
  "vec_bytes f xs = varint_bytes (length xs) @ concat (map f xs)"

definition varbuf_bytes :: "bytes \<Rightarrow> bytes" where
  "varbuf_bytes b = varint_bytes (length b) @ b"

definition contract_bytes :: "contract_data \<Rightarrow> bytes" where
  "contract_bytes c =
     c_address c @ of_nat (length (c_sender c)) # c_sender c @ varbuf_bytes (c_codeOrFunc c)
     @ varbuf_bytes (c_args c) @ le_bytes 8 (nat (c_amountOut c))"

definition contract_ok :: "contract_data \<Rightarrow> bool" where
  "contract_ok c \<longleftrightarrow>
     length (c_address c) = 20 \<and> length (c_sender c) < 256 \<and>
     length (c_codeOrFunc c) < 2147483648 \<and> length (c_args c) < 2147483648 \<and>
     0 \<le> c_amountOut c \<and> c_amountOut c < 18446744073709551616"

text \<open>The bytes of the signature script of a contract.\<close>

definition contract_sig :: "contract_data \<Rightarrow> bytes result" where
  "contract_sig c = Script_toBuffer (case c_signature c of None \<Rightarrow> new_Script | Some s \<Rightarrow> s)"

definition sig_ok :: "contract_data \<Rightarrow> bool" where
  "sig_ok c \<longleftrightarrow> (case contract_sig c of Inl _ \<Rightarrow> False | Inr b \<Rightarrow> length b < 2147483648)"

definition tx_ok :: "transaction \<Rightarrow> bool" where
  "tx_ok tx \<longleftrightarrow>
     -2147483648 \<le> t_version tx \<and> t_version tx < 2147483648 \<and> t_nLockTime tx < 4294967296 \<and>
     list_all input_ok (t_inputs tx) \<and> list_all output_ok (t_outputs tx) \<and>
     length (t_inputs tx) < 2147483648 \<and> length (t_outputs tx) < 2147483648 \<and>
     (Transaction_IsSmartContract tx \<longrightarrow>
        (case contractdata tx of None \<Rightarrow> False | Some c \<Rightarrow> contract_ok c \<and> sig_ok c))"

definition extra_bytes :: "transaction \<Rightarrow> bytes" where
  "extra_bytes tx = (if Transaction_IsSmartContract tx then contract_bytes (the (contractdata tx)) else [])"

definition sig_bytes :: "transaction \<Rightarrow> bytes" where
  "sig_bytes tx =
     (if Transaction_IsSmartContract tx then varbuf_bytes (projr (contract_sig (the (contractdata tx)))) else [])"

definition version_bytes :: "int \<Rightarrow> bytes" where
  "version_bytes v = le_bytes 4 (nat (v mod 4294967296))"

definition body_bytes :: "transaction \<Rightarrow> bytes" where
  "body_bytes tx =
     vec_bytes input_bytes (t_inputs tx) @ vec_bytes output_bytes (t_outputs tx) @ le_bytes 4 (t_nLockTime tx)"

definition tx_bytes :: "transaction \<Rightarrow> bytes" where
  "tx_bytes tx = version_bytes (t_version tx) @ body_bytes tx @ extra_bytes tx @ sig_bytes tx"

definition wire_contract :: "contract_data \<Rightarrow> contract_data" where
  "wire_contract c = c\<lparr>c_signature := None\<rparr>"

text \<open>What a transaction is after it has been written and read.\<close>

definition wire_tx :: "transaction \<Rightarrow> transaction" where
  "wire_tx tx =
     new_Transaction\<lparr>t_version := t_version tx, t_inputs := map wire_input (t_inputs tx),
       t_outputs := map wire_output (t_outputs tx), t_nLockTime := t_nLockTime tx,
       contractdata :=
         (if Transaction_IsSmartContract tx then map_option wire_contract (contractdata tx) else None)\<rparr>"

subsection \<open>Writing\<close>

lemma write_varbuf_bw:
  "length b < 2147483648 \<Longrightarrow> write_varbuf w b = Inr (w @ [varint_bytes (length b), b])"
  by (simp add: write_varbuf_def writeVarintNum_bw BufferWriter_write_def)

lemma WriteForCl_bw:
  "length b < 256 \<Longrightarrow> PublicKey_WriteForCl w b = Inr (w @ [[of_nat (length b)], b])"
  by (simp add: PublicKey_WriteForCl_def writeUInt8_bw BufferWriter_write_def)

lemma WriteExtra_bw:
  assumes "Transaction_IsSmartContract tx \<longrightarrow>
    (case contractdata tx of None \<Rightarrow> False | Some c \<Rightarrow> contract_ok c \<and> (sign \<or> sig_ok c))"
  shows "\<exists>ps. Transaction_WriteExtra w tx sign = Inr (w @ ps) \<and>
    concat ps = extra_bytes tx @ (if sign then [] else sig_bytes tx)"
proof (cases "Transaction_IsSmartContract tx")
  case True
  with assms obtain c where c: "contractdata tx = Some c" "contract_ok c" "sign \<or> sig_ok c"
    by (auto split: option.splits)
  then obtain b where "sign \<or> contract_sig c = Inr b \<and> length b < 2147483648"
    by (auto simp: sig_ok_def split: sum.splits)
  with c True show ?thesis
    by (auto simp: Transaction_WriteExtra_def contract_ok_def WriteForCl_bw write_varbuf_bw writeUInt64LEBN_bw
        BufferWriter_write_def extra_bytes_def sig_bytes_def contract_sig_def contract_bytes_def varbuf_bytes_def
        Let_def simp del: le_bytes_numeral)
qed (simp add: Transaction_WriteExtra_def extra_bytes_def sig_bytes_def)

lemma write_inputs:
  "list_all input_ok ins \<Longrightarrow>
   \<exists>ps. write_each Input_toBufferWriter w ins = Inr (w @ ps) \<and> concat ps = concat (map input_bytes ins)"
  by (rule write_each_bytes) (auto simp: list_all_iff Input_write)

lemma write_outputs:
  "list_all output_ok outs \<Longrightarrow>
   \<exists>ps. write_each Output_toBufferWriter w outs = Inr (w @ ps) \<and> concat ps = concat (map output_bytes outs)"
  by (rule write_each_bytes) (auto simp: list_all_iff Output_write)

lemma write_body:
  assumes "tx_ok tx"
  shows "\<exists>ps. concat ps = body_bytes tx \<and>
    rbind (BufferWriter_writeVarintNum w (int (length (t_inputs tx)))) (\<lambda>w.
    rbind (write_each Input_toBufferWriter w (t_inputs tx)) (\<lambda>w.
    rbind (BufferWriter_writeVarintNum w (int (length (t_outputs tx)))) (\<lambda>w.
    rbind (write_each Output_toBufferWriter w (t_outputs tx)) (\<lambda>w.
    rbind (BufferWriter_writeUInt32LE w (int (t_nLockTime tx))) k)))) = k (w @ ps)"
proof -
  let ?ni = "[varint_bytes (length (t_inputs tx))]" and ?no = "[varint_bytes (length (t_outputs tx))]"
  let ?l = "[le_bytes 4 (t_nLockTime tx)]"
  obtain ps where ps: "write_each Input_toBufferWriter (w @ ?ni) (t_inputs tx) = Inr ((w @ ?ni) @ ps)"
    "concat ps = concat (map input_bytes (t_inputs tx))"
    using assms write_inputs [of "t_inputs tx" "w @ ?ni"] by (auto simp: tx_ok_def)
  obtain qs where qs: "write_each Output_toBufferWriter (w @ ?ni @ ps @ ?no) (t_outputs tx)
      = Inr ((w @ ?ni @ ps @ ?no) @ qs)"
    "concat qs = concat (map output_bytes (t_outputs tx))"
    using assms write_outputs [of "t_outputs tx" "w @ ?ni @ ps @ ?no"] by (auto simp: tx_ok_def)
  show ?thesis
    using ps(1) qs(1) assms
    by (intro exI [of _ "?ni @ ps @ ?no @ qs @ ?l"])
      (simp add: tx_ok_def writeVarintNum_bw writeUInt32LE_bw ps(2) qs(2) body_bytes_def vec_bytes_def
        del: le_bytes_numeral)
qed

lemma Transaction_toBuffer_ok:
  assumes "tx_ok tx"
  shows "Transaction_toBuffer tx = Inr (tx_bytes tx)"
proof -
  let ?v = "[version_bytes (t_version tx)]"
  obtain ps where ps: "concat ps = body_bytes tx"
    "Transaction_toBufferWriter [] tx = Transaction_WriteExtra (?v @ ps) tx False"
    using write_body [OF assms, of ?v "\<lambda>w. Transaction_WriteExtra w tx False"] assms
    by (auto simp: Transaction_toBufferWriter_def writeInt32LE_bw tx_ok_def version_bytes_def simp del: le_bytes_numeral)
  obtain es where es: "Transaction_WriteExtra (?v @ ps) tx False = Inr ((?v @ ps) @ es)"
    "concat es = extra_bytes tx @ sig_bytes tx"
    using assms WriteExtra_bw [of tx False "?v @ ps"] by (auto simp: tx_ok_def split: option.splits)
  show ?thesis
    using es(1) by (simp add: Transaction_toBuffer_def ps es(2) tx_bytes_def BufferWriter_concat_def)
qed

lemma tx_ok_extra:
  "tx_ok tx \<Longrightarrow> Transaction_IsSmartContract tx \<longrightarrow>
    (case contractdata tx of None \<Rightarrow> False | Some c \<Rightarrow> contract_ok c \<and> (sign \<or> sig_ok c))"
  by (auto simp: tx_ok_def split: option.splits)

lemma Transaction_toBufferForSign_ok:
  assumes "tx_ok tx"
  shows "Transaction_toBufferForSign tx = Inr (body_bytes tx @ version_bytes (t_version tx) @ extra_bytes tx)"
proof -
  let ?v = "[version_bytes (t_version tx)]"
  obtain ps where ps: "concat ps = body_bytes tx"
    "Transaction_toBufferWriterForSign [] tx
       = rbind (BufferWriter_writeInt32LE ps (t_version tx)) (\<lambda>w. Transaction_WriteExtra w tx True)"
    using write_body [OF assms, of "[]"
        "\<lambda>w. rbind (BufferWriter_writeInt32LE w (t_version tx)) (\<lambda>w. Transaction_WriteExtra w tx True)"]
    by (auto simp: Transaction_toBufferWriterForSign_def)
  obtain es where es: "Transaction_WriteExtra (ps @ ?v) tx True = Inr ((ps @ ?v) @ es)" "concat es = extra_bytes tx"
    using WriteExtra_bw [of tx True "ps @ ?v"] tx_ok_extra [OF assms] by auto
  have "BufferWriter_writeInt32LE ps (t_version tx) = Inr (ps @ ?v)"
    using assms by (simp add: writeInt32LE_bw tx_ok_def version_bytes_def del: le_bytes_numeral)
  then show ?thesis
    by (simp add: Transaction_toBufferForSign_def ps es BufferWriter_concat_def)
qed

subsection \<open>Reading\<close>

lemma wire_bytes [simp]: "input_bytes (wire_input i) = input_bytes i" "output_bytes (wire_output out) = output_bytes out"
  by (simp_all add: input_bytes_def wire_input_def output_bytes_def wire_output_def)

lemma wire_ok [simp]: "input_ok (wire_input i) = input_ok i" "output_ok (wire_output out) = output_ok out"
  by (simp_all add: input_ok_def wire_input_def output_ok_def wire_output_def)

lemma read_inputs:
  assumes "list_all input_ok ins" and "reads br (concat (map input_bytes ins))"
  shows "dec_n Input_fromBufferReader (length ins) br
    = Inr (map wire_input ins, skip (length (concat (map input_bytes ins))) br)"
proof -
  have "list_all (\<lambda>i. input_ok i \<and> wire_input i = i) (map wire_input ins)" using assms(1) by (induction ins) auto
  moreover have "enc_all input_enc (map wire_input ins) = Inr (concat (map input_bytes ins))"
    using assms(1) by (induction ins) (auto simp: input_enc_eq)
  ultimately show ?thesis using tx_in.dec_n_enc_all [of "map wire_input ins" "concat (map input_bytes ins)" br] assms(2) by simp
qed

lemma read_outputs:
  assumes "list_all output_ok outs" and "reads br (concat (map output_bytes outs))"
  shows "dec_n Output_fromBufferReader (length outs) br
    = Inr (map wire_output outs, skip (length (concat (map output_bytes outs))) br)"
proof -
  have "list_all (\<lambda>out. output_ok out \<and> wire_output out = out) (map wire_output outs)"
    using assms(1) by (induction outs) auto
  moreover have "enc_all output_enc (map wire_output outs) = Inr (concat (map output_bytes outs))"
    using assms(1) by (induction outs) (auto simp: output_enc_eq)
  ultimately show ?thesis using tx_out.dec_n_enc_all [of "map wire_output outs" "concat (map output_bytes outs)" br] assms(2) by simp
qed

lemma ReadForCl_reads:
  assumes "length k < 256" and "reads br (of_nat (length k) # k)" and "pkp k = Inr k"
  shows "PublicKey_ReadForCl pkp br = Inr (k, skip (Suc (length k)) br)"
  using assms readUInt8_reads [of br "of_nat (length k)"] read_reads [of "skip 1 br" k]
  by (simp add: PublicKey_ReadForCl_def reads_Cons [of br _ k] unat_of_nat_byte)

lemma ReadExtra_contract:
  assumes tx: "Transaction_IsSmartContract tx" and c: "contract_ok c" and r: "reads br (contract_bytes c)"
    and k: "pkp (c_sender c) = Inr (c_sender c)"
  shows "Transaction_ReadExtra pkp tx br
    = Inr (tx\<lparr>contractdata := Some (wire_contract c)\<rparr>, skip (length (contract_bytes c)) br)"
proof -
  let ?s = "of_nat (length (c_sender c)) # c_sender c" and ?code = "varbuf_bytes (c_codeOrFunc c)"
  let ?args = "varbuf_bytes (c_args c)" and ?a = "le_bytes 8 (nat (c_amountOut c))"
  have bytes: "contract_bytes c = c_address c @ ?s @ ?code @ ?args @ ?a" by (simp add: contract_bytes_def)
  define n where "n = length (c_address c)"
  define br1 br2 br3 br4 where "br1 = skip n br" and "br2 = skip (length ?s) br1" and "br3 = skip (length ?code) br2"
    and "br4 = skip (length ?args) br3"
  from r [unfolded bytes reads_append]
  have rs: "reads br (c_address c)" "reads br1 ?s" "reads br2 ?code" "reads br3 ?args" "reads br4 ?a"
    by (simp_all add: br1_def br2_def br3_def br4_def n_def)
  have 1: "BufferReader_read br 20 = (c_address c, br1)"
    using read_reads [OF rs(1)] c by (simp add: contract_ok_def br1_def n_def)
  have 2: "PublicKey_ReadForCl pkp br1 = Inr (c_sender c, br2)"
    using ReadForCl_reads [of "c_sender c" br1 pkp] rs(2) k c by (simp add: contract_ok_def br2_def)
  have 3: "BufferReader_readVarLengthBuffer br2 = Inr (c_codeOrFunc c, br3)"
    using readVarLengthBuffer_reads [OF rs(3) [unfolded varbuf_bytes_def]] by (simp add: br3_def varbuf_bytes_def)
  have 4: "BufferReader_readVarLengthBuffer br3 = Inr (c_args c, br4)"
    using readVarLengthBuffer_reads [OF rs(4) [unfolded varbuf_bytes_def]] by (simp add: br4_def varbuf_bytes_def)
  have "nat (c_amountOut c) < 18446744073709551616" using c by (simp add: contract_ok_def nat_less_iff)
  then have 5: "BufferReader_readUInt64LEBN br4 = Inr (c_amountOut c, skip 8 br4)"
    using readUInt64LEBN_reads [OF rs(5)] le_val_le_bytes_8 c by (simp add: contract_ok_def del: le_bytes_numeral)
  have "skip (length (contract_bytes c)) br = skip 8 br4"
    by (simp add: bytes br1_def br2_def br3_def br4_def n_def del: le_bytes_numeral)
  then show ?thesis
    using tx by (simp add: Transaction_ReadExtra_def 1 2 3 4 5 wire_contract_def)
qed

lemma toInt32_version: "-2147483648 \<le> v \<Longrightarrow> v < 2147483648 \<Longrightarrow> toInt32 (v mod 4294967296) = v"
  by (simp add: toInt32_def mod_add_left_eq)

lemma readInt32LE_version:
  assumes "reads br (version_bytes v)" and "-2147483648 \<le> v" and "v < 2147483648"
  shows "BufferReader_readInt32LE br = Inr (v, skip 4 br)"
proof -
  have "nat (v mod 4294967296) < 4294967296" by (simp add: nat_less_iff)
  then have "int (le_val (version_bytes v)) = v mod 4294967296"
    unfolding version_bytes_def by (simp add: le_val_le_bytes_4 del: le_bytes_numeral)
  then show ?thesis
    using readInt32LE_reads [OF assms(1)] toInt32_version [OF assms(2,3)]
    by (simp add: version_bytes_def del: le_bytes_numeral)
qed

lemma Transaction_reads:
  assumes ok: "tx_ok tx" and r: "reads br (version_bytes (t_version tx) @ body_bytes tx @ extra_bytes tx)"
    and k: "\<And>c. Transaction_IsSmartContract tx \<Longrightarrow> contractdata tx = Some c \<Longrightarrow> pkp (c_sender c) = Inr (c_sender c)"
  shows "\<exists>br'. Transaction_fromBufferReader pkp br = Inr (wire_tx tx, br')"
proof -
  let ?v = "version_bytes (t_version tx)" and ?ni = "varint_bytes (length (t_inputs tx))"
  let ?i = "concat (map input_bytes (t_inputs tx))" and ?no = "varint_bytes (length (t_outputs tx))"
  let ?o = "concat (map output_bytes (t_outputs tx))" and ?l = "le_bytes 4 (t_nLockTime tx)"
  define br1 br2 br3 br4 br5 br6 where "br1 = skip (length ?v) br" and "br2 = skip (length ?ni) br1"
    and "br3 = skip (length ?i) br2" and "br4 = skip (length ?no) br3" and "br5 = skip (length ?o) br4"
    and "br6 = skip (length ?l) br5"
  from r have rs: "reads br ?v" "reads br1 ?ni" "reads br2 ?i" "reads br3 ?no" "reads br4 ?o" "reads br5 ?l"
    "reads br6 (extra_bytes tx)"
    by (simp_all add: body_bytes_def vec_bytes_def reads_append br1_def br2_def br3_def br4_def br5_def br6_def add.assoc
        del: le_bytes_numeral)
  have 1: "BufferReader_readInt32LE br = Inr (t_version tx, br1)"
    using readInt32LE_version [OF rs(1)] ok by (simp add: tx_ok_def br1_def version_bytes_def del: le_bytes_numeral)
  have 2: "BufferReader_readVarintNum br1 = Inr (length (t_inputs tx), br2)"
    using readVarintNum_reads [OF rs(2)] ok by (simp add: tx_ok_def br2_def)
  have 3: "dec_n Input_fromBufferReader (length (t_inputs tx)) br2 = Inr (map wire_input (t_inputs tx), br3)"
    using read_inputs [OF _ rs(3)] ok by (simp add: tx_ok_def br3_def)
  have 4: "BufferReader_readVarintNum br3 = Inr (length (t_outputs tx), br4)"
    using readVarintNum_reads [OF rs(4)] ok by (simp add: tx_ok_def br4_def)
  have 5: "dec_n Output_fromBufferReader (length (t_outputs tx)) br4 = Inr (map wire_output (t_outputs tx), br5)"
    using read_outputs [OF _ rs(5)] ok by (simp add: tx_ok_def br5_def)
  have 6: "BufferReader_readUInt32LE br5 = Inr (t_nLockTime tx, br6)"
    using readUInt32LE_reads [OF rs(6)] le_val_le_bytes_4 ok by (simp add: tx_ok_def br6_def del: le_bytes_numeral)
  have fin: "\<not> BufferReader_finished br"
    using rs(1) by (simp add: BufferReader_finished_def reads_def version_bytes_def del: le_bytes_numeral)
  let ?t = "new_Transaction\<lparr>t_version := t_version tx, t_inputs := map wire_input (t_inputs tx),
    t_outputs := map wire_output (t_outputs tx), t_nLockTime := t_nLockTime tx\<rparr>"
  have read: "Transaction_fromBufferReader pkp br = Transaction_ReadExtra pkp ?t br6"
    by (simp add: Transaction_fromBufferReader_def check_def fin 1 2 3 4 5 6)
  show ?thesis
  proof (cases "Transaction_IsSmartContract tx")
    case True
    then obtain c where c: "contractdata tx = Some c" "contract_ok c"
      using tx_ok_extra [OF ok, of True] by (auto split: option.splits)
    with True rs(7) have "reads br6 (contract_bytes c)" by (simp add: extra_bytes_def)
    from ReadExtra_contract [of ?t c br6 pkp, OF _ c(2) this k [OF True c(1)]] True c show ?thesis
      by (simp add: read wire_tx_def Transaction_IsSmartContract_def)
  next
    case False
    then show ?thesis
      by (simp add: read wire_tx_def Transaction_ReadExtra_def Transaction_IsSmartContract_def new_Transaction_def)
  qed
qed

lemma tx_prefix_reads:
  assumes "length (tx_bytes tx @ rest) < 2147483648"
  shows "reads (new_BufferReader (tx_bytes tx @ rest)) (version_bytes (t_version tx) @ body_bytes tx @ extra_bytes tx)"
proof -
  have "reads (new_BufferReader (tx_bytes tx @ rest)) (tx_bytes tx @ rest)" using assms by (rule reads_new)
  then show ?thesis by (simp add: tx_bytes_def reads_append)
qed

lemma fromBuffer_tx_bytes:
  assumes "tx_ok tx" and "length (tx_bytes tx @ rest) < 2147483648"
    and "\<And>c. Transaction_IsSmartContract tx \<Longrightarrow> contractdata tx = Some c \<Longrightarrow> pkp (c_sender c) = Inr (c_sender c)"
  shows "Transaction_fromBuffer pkp (tx_bytes tx @ rest) = Inr (wire_tx tx)"
  using Transaction_reads [OF assms(1) tx_prefix_reads [OF assms(2)], of pkp] assms(3)
  by (auto simp: Transaction_fromBuffer_def)

lemma shallowCopy_ok:
  assumes "tx_ok tx" and "length (tx_bytes tx) < 2147483648"
    and "\<And>c. Transaction_IsSmartContract tx \<Longrightarrow> contractdata tx = Some c \<Longrightarrow> pkp (c_sender c) = Inr (c_sender c)"
  shows "Transaction_shallowCopy pkp tx = Inr (wire_tx tx)"
  using fromBuffer_tx_bytes [of tx "[]" pkp] assms
  by (simp add: Transaction_shallowCopy_def Transaction_toBuffer_ok)

lemma wire_tx_sel [simp]:
  "t_version (wire_tx tx) = t_version tx" "t_nLockTime (wire_tx tx) = t_nLockTime tx"
  "t_inputs (wire_tx tx) = map wire_input (t_inputs tx)" "t_outputs (wire_tx tx) = map wire_output (t_outputs tx)"
  "Transaction_IsSmartContract (wire_tx tx) = Transaction_IsSmartContract tx"
  by (simp_all add: wire_tx_def Transaction_IsSmartContract_def)

lemma wire_tx_contract [simp]:
  "contractdata (wire_tx tx) = (if Transaction_IsSmartContract tx then map_option wire_contract (contractdata tx) else None)"
  by (simp add: wire_tx_def)

lemma vec_bytes_map [simp]:
  "vec_bytes input_bytes (map wire_input ins) = vec_bytes input_bytes ins"
  "vec_bytes output_bytes (map wire_output outs) = vec_bytes output_bytes outs"
  by (simp_all add: vec_bytes_def comp_def)

lemma body_bytes_wire [simp]: "body_bytes (wire_tx tx) = body_bytes tx"
  by (simp add: body_bytes_def)

lemma wire_contract_sel [simp]:
  "contract_bytes (wire_contract c) = contract_bytes c" "contract_ok (wire_contract c) = contract_ok c"
  "c_sender (wire_contract c) = c_sender c" "c_signature (wire_contract c) = None"
  by (simp_all add: contract_bytes_def wire_contract_def contract_ok_def)

lemma toBuffer_new [simp]: "Script_toBuffer new_Script = Inr []"
  by (simp add: Script_toBuffer_def new_Script_def BufferWriter_concat_def)

lemma contract_sig_wire [simp]: "contract_sig (wire_contract c) = Inr []"
  by (simp add: contract_sig_def)

lemma tx_ok_wire: "tx_ok tx \<Longrightarrow> tx_ok (wire_tx tx)"
  by (auto simp: tx_ok_def list_all_iff sig_ok_def split: option.splits)

lemma extra_bytes_wire [simp]: "tx_ok tx \<Longrightarrow> extra_bytes (wire_tx tx) = extra_bytes tx"
  by (auto simp: extra_bytes_def tx_ok_def split: option.splits)

lemma sig_bytes_wire: "tx_ok tx \<Longrightarrow> sig_bytes (wire_tx tx) = (if Transaction_IsSmartContract tx then [0] else [])"
  by (auto simp: sig_bytes_def tx_ok_def varbuf_bytes_def varint_bytes_def split: option.splits)

section \<open>Round trip\<close>

text \<open>Transactions on which the properties are evaluated.\<close>

definition demo_input :: "bytes \<Rightarrow> tx_input" where
  "demo_input b = \<lparr>in_kind = KPublicKeyHash, prevTxId = replicate 32 1, outputIndex = 0, sequenceNumber = 4294967295,
     in_scriptBuffer = b, in_script = None, in_output = None\<rparr>"

definition demo_output :: tx_output where
  "demo_output = \<lparr>o_satoshis = 5, o_satoshisBN = 5, o_scriptBuffer = [81], o_script = None\<rparr>"

definition demo_tx :: "bytes \<Rightarrow> transaction" where
  "demo_tx b = new_Transaction\<lparr>t_inputs := [demo_input b], t_outputs := [demo_output]\<rparr>"

definition demo_contract :: transaction where
  "demo_contract = new_Transaction\<lparr>t_version := 3, t_inputs := [(demo_input [])\<lparr>prevTxId := replicate 32 32\<rparr>],
     contractdata := Some \<lparr>c_address = replicate 20 2, c_sender = [2], c_codeOrFunc = [], c_args = [], c_amountOut = 0,
       c_signature = None\<rparr>\<rparr>"

lemmas tx_byte_defs =
  tx_bytes_def version_bytes_def body_bytes_def vec_bytes_def input_bytes_def output_bytes_def varint_bytes_def
  extra_bytes_def sig_bytes_def contract_bytes_def contract_sig_def varbuf_bytes_def

lemmas tx_ok_defs =
  tx_ok_def input_ok_def output_ok_def Transaction_IsSmartContract_def contract_ok_def sig_ok_def contract_sig_def

lemmas demo_defs = demo_tx_def demo_input_def demo_output_def demo_contract_def new_Transaction_def

text \<open>
  C23: A transaction in range is written, and what is written (with anything behind it) is read back as the
  same version, inputs, outputs, lock time and contract data; unless it is a contract, writing what was read
  gives the same bytes.
\<close>
theorem transaction_roundtrip:
  assumes "tx_ok tx" and "Transaction_toBuffer tx = Inr b" and "length (b @ rest) < 2147483648"
    and "\<forall>c. Transaction_IsSmartContract tx \<longrightarrow> contractdata tx = Some c \<longrightarrow> pkp (c_sender c) = Inr (c_sender c)"
  shows "Transaction_fromBuffer pkp (b @ rest) = Inr (wire_tx tx) \<and>
    (\<not> Transaction_IsSmartContract tx \<longrightarrow> Transaction_toBuffer (wire_tx tx) = Inr b)"
proof -
  have b: "b = tx_bytes tx" using assms(1,2) by (simp add: Transaction_toBuffer_ok)
  have "Transaction_fromBuffer pkp (b @ rest) = Inr (wire_tx tx)"
    unfolding b by (rule fromBuffer_tx_bytes) (use assms b in auto)
  moreover have "Transaction_toBuffer (wire_tx tx) = Inr b" if "\<not> Transaction_IsSmartContract tx"
    using that assms(1) by (simp add: b Transaction_toBuffer_ok tx_ok_wire tx_bytes_def sig_bytes_wire sig_bytes_def)
  ultimately show ?thesis by simp
qed

theorem transaction_roundtrip_witness:
  "\<exists>b. Transaction_toBuffer (demo_tx [81]) = Inr b \<and> Transaction_fromBuffer Inr (b @ [7]) = Inr (wire_tx (demo_tx [81])) \<and>
    Transaction_toBuffer (wire_tx (demo_tx [81])) = Inr b"
proof -
  have ok: "tx_ok (demo_tx [81])" by (simp add: demo_defs tx_ok_defs)
  have "length (tx_bytes (demo_tx [81])) < 1000" by (simp add: demo_defs tx_byte_defs Transaction_IsSmartContract_def)
  then show ?thesis
    using transaction_roundtrip [of "demo_tx [81]" "tx_bytes (demo_tx [81])" "[7]" Inr] ok Transaction_toBuffer_ok [OF ok]
    by (simp add: demo_tx_def new_Transaction_def Transaction_IsSmartContract_def)
qed

text \<open>
  C38: A contract transaction that was signed by its sender is read back without that signature: the copy has
  other bytes than the transaction.
\<close>
theorem contract_signature_lost:
  assumes "tx_ok tx" and "Transaction_IsSmartContract tx" and "contractdata tx = Some c"
    and "c_signature c = Some s" and "Script_toBuffer s = Inr sb" and "sb \<noteq> []"
    and "Transaction_toBuffer tx = Inr b" and "length b < 2147483648" and "pkp (c_sender c) = Inr (c_sender c)"
  shows "\<exists>copy c'. Transaction_fromBuffer pkp b = Inr copy \<and> contractdata copy = Some c' \<and> c_signature c' = None \<and>
    Transaction_toBuffer copy \<noteq> Inr b"
proof -
  have b: "b = tx_bytes tx" using assms(1,7) by (simp add: Transaction_toBuffer_ok)
  have "Transaction_fromBuffer pkp (tx_bytes tx @ []) = Inr (wire_tx tx)"
    by (rule fromBuffer_tx_bytes) (use assms b in auto)
  then have r: "Transaction_fromBuffer pkp b = Inr (wire_tx tx)" by (simp add: b)
  have "length (sig_bytes (wire_tx tx)) \<noteq> length (sig_bytes tx)"
    using assms(1-6) length_varint_bytes [of "length sb"]
    by (cases sb) (auto simp: sig_bytes_wire, simp add: sig_bytes_def varbuf_bytes_def contract_sig_def)
  then have "tx_bytes (wire_tx tx) \<noteq> b"
    using assms(1) by (auto simp: b tx_bytes_def)
  then show ?thesis
    using assms(1-3) by (intro exI [of _ "wire_tx tx"] exI [of _ "wire_contract c"])
      (simp add: r Transaction_toBuffer_ok tx_ok_wire)
qed

theorem contract_signature_lost_witness:
  "\<exists>b copy c. Transaction_toBuffer
      (demo_contract\<lparr>contractdata := Some ((the (contractdata demo_contract))\<lparr>c_signature := Some (new_Script\<lparr>chunks := [op_chunk 81]\<rparr>)\<rparr>)\<rparr>)
      = Inr b \<and>
    Transaction_fromBuffer Inr b = Inr copy \<and> contractdata copy = Some c \<and> c_signature c = None \<and>
    Transaction_toBuffer copy \<noteq> Inr b"
proof -
  let ?s = "new_Script\<lparr>chunks := [op_chunk 81]\<rparr>"
  let ?c = "(the (contractdata demo_contract))\<lparr>c_signature := Some ?s\<rparr>"
  let ?t = "demo_contract\<lparr>contractdata := Some ?c\<rparr>"
  have s: "Script_toBuffer ?s = Inr [81]" by (simp add: Script_toBuffer_eq chunk_enc_op)
  have ok: "tx_ok ?t" by (simp add: demo_defs tx_ok_defs) (use s in \<open>simp add: new_Script_def\<close>)
  have "length (tx_bytes ?t) < 2147483648"
    by (simp add: demo_defs tx_byte_defs Transaction_IsSmartContract_def) (use s in \<open>simp add: new_Script_def\<close>)
  then show ?thesis
    using contract_signature_lost [OF ok _ _ _ s _ Transaction_toBuffer_ok [OF ok], of ?c Inr] Transaction_toBuffer_ok [OF ok]
    by (simp add: demo_defs Transaction_IsSmartContract_def)
qed

end
