(* ===== verification/SigHash.thy ===== *)
theory SigHash
  imports TxWire
begin

unbundle bit_operations_syntax

text \<open>
  What signatures commit to.  \<open>sighash_message\<close> writes down, from the transaction alone, the bytes whose
  double hash a signature signs for each hash type; \<open>sighash\<close>, which edits a copy of the transaction and
  serializes it, computes the same hash.
\<close>

section \<open>The message of a signature\<close>

definition input_part :: "bytes \<Rightarrow> nat \<Rightarrow> tx_input \<Rightarrow> bytes" where
  "input_part sb seq i =
     rev (prevTxId i) @ le_bytes 4 (outputIndex i) @ varbuf_bytes sb @ le_bytes 4 seq"

definition drops_seq :: "nat \<Rightarrow> bool" where
  "drops_seq ht \<longleftrightarrow> ht AND 31 = SIGHASH_NONE \<or> ht AND 31 = SIGHASH_SINGLE"

definition other_part :: "nat \<Rightarrow> tx_input \<Rightarrow> bytes" where
  "other_part ht i = input_part [] (if drops_seq ht then 0 else sequenceNumber i) i"

definition message_inputs :: "nat \<Rightarrow> nat \<Rightarrow> bytes \<Rightarrow> tx_input list \<Rightarrow> bytes list" where
  "message_inputs ht n sb ins =
     (let own = input_part sb (sequenceNumber (ins ! n)) (ins ! n) in
      if ht AND SIGHASH_ANYONECANPAY \<noteq> 0 then [own] else (map (other_part ht) ins)[n := own])"

definition message_outputs :: "nat \<Rightarrow> nat \<Rightarrow> tx_output list \<Rightarrow> bytes list" where
  "message_outputs ht n outs =
     (if ht AND 31 = SIGHASH_NONE then []
      else if ht AND 31 = SIGHASH_SINGLE then replicate n (replicate 8 255 @ [0]) @ [output_bytes (outs ! n)]
      else map output_bytes outs)"

definition sighash_message :: "nat \<Rightarrow> nat \<Rightarrow> bytes \<Rightarrow> transaction \<Rightarrow> bytes" where
  "sighash_message ht n sb tx =
     vec_bytes id (message_inputs ht n sb (t_inputs tx)) @ vec_bytes id (message_outputs ht n (t_outputs tx))
     @ le_bytes 4 (t_nLockTime tx) @ version_bytes (t_version tx) @ extra_bytes tx @ le_bytes 4 ht"

definition single_bug :: "nat \<Rightarrow> nat \<Rightarrow> transaction \<Rightarrow> bool" where
  "single_bug ht n tx \<longleftrightarrow> ht AND 31 = SIGHASH_SINGLE \<and> length (t_outputs tx) \<le> n"

text \<open>The bytes that stand for the subscript: read again and rid of its code separators.\<close>

definition subscript_bytes :: "script \<Rightarrow> bytes result" where
  "subscript_bytes sub =
     rbind (rbind (Script_toBuffer sub) Script_fromBuffer) (\<lambda>s. Script_toBuffer (Script_removeCodeseparators s))"

definition input_signable :: "tx_input \<Rightarrow> bool" where
  "input_signable i \<longleftrightarrow> input_ok i \<and> \<not> Input_isNull i \<and> is_ok (Script_fromBuffer (in_scriptBuffer i))"

text \<open>A transaction that can be copied and whose inputs all name an output and have a script.\<close>

definition signable :: "(bytes \<Rightarrow> bytes result) \<Rightarrow> transaction \<Rightarrow> bool" where
  "signable pkp tx \<longleftrightarrow>
     tx_ok tx \<and> length (tx_bytes tx) < 2147483648 \<and>
     list_all input_signable (t_inputs tx) \<and>
     (Transaction_IsSmartContract tx \<longrightarrow>
        pkp (c_sender (the (contractdata tx))) = Inr (c_sender (the (contractdata tx))))"

section \<open>The copy\<close>

definition blanked :: "tx_input \<Rightarrow> tx_input" where
  "blanked i = i\<lparr>in_kind := KInput, in_scriptBuffer := [], in_script := Some (mark_input new_Script), in_output := None\<rparr>"

lemma toBuffer_mark [simp]: "Script_toBuffer (mark_input s) = Script_toBuffer s" "Script_toBuffer (mark_output s) = Script_toBuffer s"
  by (simp_all add: Script_toBuffer_def mark_input_def mark_output_def)

lemma fromBuffer_toBuffer_ok:
  assumes "Script_fromBuffer b = Inr s" and "length b < 2147483648"
  obtains b' where "Script_toBuffer s = Inr b'"
  using toBuffer_parsed [OF fromBuffer_parsed(1) [OF assms]] that by (auto elim: is_okE)

lemma blank_inputs_wire:
  "list_all input_signable ins \<Longrightarrow> blank_inputs (map wire_input ins) = Inr (map blanked ins)"
proof (induction ins)
  case (Cons i ins)
  then obtain s where s: "Script_fromBuffer (in_scriptBuffer i) = Inr s" by (auto simp: input_signable_def elim: is_okE)
  with Cons.prems obtain b where "Script_toBuffer s = Inr b"
    by (auto simp: input_signable_def input_ok_def elim: fromBuffer_toBuffer_ok)
  with s Cons show ?case
    by (simp add: input_signable_def new_Input_from_def Input_script_def wire_input_def Input_isNull_def
        Input_setScript_def blanked_def)
qed simp

lemma own_input:
  assumes "\<not> Input_isNull i" and "Script_toBuffer s = Inr sb"
  shows "rbind (new_Input_from (blanked i)) (\<lambda>i. Input_setScript i s)
    = Inr ((blanked i)\<lparr>in_scriptBuffer := sb, in_script := Some (mark_input s)\<rparr>)"
  using assms
  by (simp add: new_Input_from_def Input_script_def blanked_def Input_isNull_def Input_setScript_def)

text \<open>The inputs and outputs of the copy that is serialized.\<close>

definition copy_inputs :: "nat \<Rightarrow> nat \<Rightarrow> bytes \<Rightarrow> script \<Rightarrow> tx_input list \<Rightarrow> tx_input list" where
  "copy_inputs ht n sb s ins =
     (let own = (blanked (ins ! n))\<lparr>in_scriptBuffer := sb, in_script := Some (mark_input s)\<rparr>;
          other = (\<lambda>i. if drops_seq ht then (blanked i)\<lparr>sequenceNumber := 0\<rparr> else blanked i) in
      if ht AND SIGHASH_ANYONECANPAY \<noteq> 0 then [own] else (map other ins)[n := own])"

definition blank_output :: tx_output where
  "blank_output = \<lparr>o_satoshis = BN_toNumber 18446744073709551615, o_satoshisBN = 18446744073709551615, o_scriptBuffer = [],
     o_script = Some (mark_output new_Script)\<rparr>"

definition copy_outputs :: "nat \<Rightarrow> nat \<Rightarrow> tx_output list \<Rightarrow> tx_output list" where
  "copy_outputs ht n outs =
     (if ht AND 31 = SIGHASH_NONE then []
      else if ht AND 31 = SIGHASH_SINGLE then replicate n blank_output @ [outs ! n]
      else outs)"

lemma replicate_8: "replicate 8 x = [x, x, x, x, x, x, x, x]"
  by (simp add: numeral_eq_Suc)

lemma new_blank_output:
  "new_Output (SatBN (BN_fromBuffer (replicate 8 255) False)) (ScrScript new_Script) = Inr blank_output"
proof -
  have "BN_fromBuffer (replicate 8 255) False = 18446744073709551615"
    by (simp add: BN_fromBuffer_eq replicate_8 be_val_def)
  moreover have "0 \<le> BN_toNumber 18446744073709551615" by (simp add: BN_toNumber_def)
  ultimately show ?thesis
    by (simp add: new_Output_def Output_set_satoshis_def check_def Output_setScript_def blank_output_def)
qed

lemma enumerate_update:
  assumes "n < length xs"
  shows "map (\<lambda>(k, x). if k \<noteq> n then f x else x) (enumerate 0 (xs[n := y])) = (map f xs)[n := y]"
  using assms by (auto simp: list_eq_iff_nth_eq nth_enumerate_eq nth_list_update)

lemma sighash_copy_eq:
  assumes sg: "signable pkp tx" and n: "n < length (t_inputs tx)"
    and sub: "rbind (Script_toBuffer sub) Script_fromBuffer = Inr s"
    and sb: "Script_toBuffer (Script_removeCodeseparators s) = Inr sb"
  shows "sighash_copy pkp tx ht n sub =
    Inr (if single_bug ht n tx then None
         else Some ((wire_tx tx)\<lparr>t_inputs := copy_inputs ht n sb (Script_removeCodeseparators s) (t_inputs tx),
                      t_outputs := copy_outputs ht n (map wire_output (t_outputs tx))\<rparr>))"
proof -
  have copy: "Transaction_shallowCopy pkp tx = Inr (wire_tx tx)"
    using sg by (intro shallowCopy_ok) (auto simp: signable_def)
  have ins: "blank_inputs (map wire_input (t_inputs tx)) = Inr (map blanked (t_inputs tx))"
    using sg by (intro blank_inputs_wire) (simp add: signable_def)
  have "\<not> Input_isNull (t_inputs tx ! n)" using sg n by (simp add: signable_def list_all_length input_signable_def)
  from own_input [OF this sb] obtain j where
    j: "new_Input_from (blanked (t_inputs tx ! n)) = Inr j"
      "Input_setScript j (Script_removeCodeseparators s) =
       Inr ((blanked (t_inputs tx ! n))\<lparr>in_scriptBuffer := sb, in_script := Some (mark_input (Script_removeCodeseparators s))\<rparr>)"
    by (auto simp: rbind_def split: sum.splits)
  show ?thesis
    using n by (simp add: sighash_copy_def copy sub ins j enumerate_update copy_inputs_def copy_outputs_def
        new_blank_output drops_seq_def single_bug_def Let_def comp_def)
qed

lemma copy_outputs_bytes:
  "map output_bytes (copy_outputs ht n (map wire_output outs)) = message_outputs ht n outs"
  if "\<not> (ht AND 31 = SIGHASH_SINGLE \<and> length outs \<le> n)"
proof -
  have "output_bytes blank_output = replicate 8 255 @ [0]"
    by (simp add: output_bytes_def blank_output_def varint_bytes_def replicate_8)
  with that show ?thesis by (simp add: copy_outputs_def message_outputs_def not_le map_replicate comp_def)
qed

lemma blanked_bytes:
  "input_bytes ((blanked i)\<lparr>in_scriptBuffer := sb, in_script := Some s\<rparr>) = input_part sb (sequenceNumber i) i"
  "input_bytes (if drops_seq ht then (blanked i)\<lparr>sequenceNumber := 0\<rparr> else blanked i) = other_part ht i"
  by (simp_all add: input_bytes_def blanked_def input_part_def other_part_def varbuf_bytes_def del: le_bytes_numeral)

lemma copy_inputs_bytes:
  "n < length ins \<Longrightarrow> map input_bytes (copy_inputs ht n sb s ins) = message_inputs ht n sb ins"
  by (simp add: copy_inputs_def message_inputs_def Let_def map_update comp_def blanked_bytes del: le_bytes_numeral)

lemma blanked_ok:
  "input_ok i \<Longrightarrow> length sb < 2147483648 \<Longrightarrow> input_ok ((blanked i)\<lparr>in_scriptBuffer := sb, in_script := Some s\<rparr>)"
  "input_ok i \<Longrightarrow> input_ok (if drops_seq ht then (blanked i)\<lparr>sequenceNumber := 0\<rparr> else blanked i)"
  by (simp_all add: input_ok_def blanked_def)

lemma copy_inputs_ok:
  assumes "list_all input_ok ins" and "n < length ins" and "length sb < 2147483648"
  shows "list_all input_ok (copy_inputs ht n sb s ins)"
  using assms by (simp add: copy_inputs_def Let_def list_all_length nth_list_update blanked_ok del: if_True)

lemma copy_outputs_ok:
  assumes "list_all output_ok outs" and "\<not> (ht AND 31 = SIGHASH_SINGLE \<and> length outs \<le> n)"
  shows "list_all output_ok (copy_outputs ht n outs)"
proof -
  have "output_ok blank_output" by (simp add: output_ok_def blank_output_def)
  with assms show ?thesis by (auto simp: copy_outputs_def list_all_iff)
qed

lemma copy_lengths:
  "length (copy_inputs ht n sb s ins) \<le> max 1 (length ins)"
  "length (copy_outputs ht n outs) \<le> max (Suc n) (length outs)"
  by (simp_all add: copy_inputs_def copy_outputs_def Let_def)

lemma copy_ok:
  assumes "signable pkp tx" and n: "n < length (t_inputs tx)" and "length sb < 2147483648" and "\<not> single_bug ht n tx"
  shows "tx_ok ((wire_tx tx)\<lparr>t_inputs := copy_inputs ht n sb s (t_inputs tx),
                  t_outputs := copy_outputs ht n (map wire_output (t_outputs tx))\<rparr>)" (is "tx_ok ?c")
proof -
  from assms have ok: "tx_ok (wire_tx tx)" by (auto simp: signable_def tx_ok_wire)
  have "list_all input_ok (t_inputs ?c)"
    using assms by (simp add: copy_inputs_ok signable_def tx_ok_def)
  moreover have "list_all output_ok (t_outputs ?c)"
    using ok assms(4) by (simp add: copy_outputs_ok tx_ok_def single_bug_def)
  moreover have "length (t_inputs ?c) < 2147483648" "length (t_outputs ?c) < 2147483648"
    using ok n copy_lengths(1) [of ht n sb s "t_inputs tx"]
      copy_lengths(2) [of ht n "map wire_output (t_outputs tx)"] by (auto simp: tx_ok_def)
  ultimately show ?thesis using ok by (simp add: tx_ok_def Transaction_IsSmartContract_def)
qed

lemma vec_bytes_id: "vec_bytes f xs = vec_bytes id (map f xs)"
  by (simp add: vec_bytes_def)

lemma readReverse_all:
  "length h < 2147483648 \<Longrightarrow> fst (BufferReader_readReverse (new_BufferReader h) None) = rev h"
  using Buffer_slice_nat [of 0 "length h" h] by (simp add: BufferReader_readReverse_def new_BufferReader_def)

lemma sighash_eq:
  assumes sg: "signable pkp tx" and n: "n < length (t_inputs tx)" and ht: "ht < 2147483648"
    and sb: "subscript_bytes sub = Inr sb" "length sb < 2147483648"
  shows "sighash pkp tx ht n sub =
    Inr (if single_bug ht n tx then sighash_single_bug else rev (Hash_sha256sha256 (sighash_message ht n sb tx)))"
proof -
  from sb(1) obtain s where s: "rbind (Script_toBuffer sub) Script_fromBuffer = Inr s"
    and r: "Script_toBuffer (Script_removeCodeseparators s) = Inr sb"
    by (cases "rbind (Script_toBuffer sub) Script_fromBuffer") (auto simp: subscript_bytes_def)
  note copy = sighash_copy_eq [OF sg n s r, of ht]
  show ?thesis
  proof (cases "single_bug ht n tx")
    case True
    then show ?thesis by (simp add: sighash_def copy)
  next
    case False
    let ?c = "(wire_tx tx)\<lparr>t_inputs := copy_inputs ht n sb (Script_removeCodeseparators s) (t_inputs tx),
                t_outputs := copy_outputs ht n (map wire_output (t_outputs tx))\<rparr>"
    have "tx_ok tx" using sg by (simp add: signable_def)
    then have extra: "extra_bytes ?c = extra_bytes tx"
      by (auto simp: extra_bytes_def tx_ok_def Transaction_IsSmartContract_def split: option.splits)
    have "\<not> (ht AND 31 = SIGHASH_SINGLE \<and> length (t_outputs tx) \<le> n)" using False by (simp add: single_bug_def)
    then have body: "body_bytes ?c = vec_bytes id (message_inputs ht n sb (t_inputs tx))
        @ vec_bytes id (message_outputs ht n (t_outputs tx)) @ le_bytes 4 (t_nLockTime tx)"
      using n by (simp add: body_bytes_def vec_bytes_id [of input_bytes] vec_bytes_id [of output_bytes]
          copy_inputs_bytes copy_outputs_bytes del: le_bytes_numeral map_map)
    have "sighash_preimage ?c ht = Inr (sighash_message ht n sb tx)"
      using ht Transaction_toBufferForSign_ok [OF copy_ok [OF sg n sb(2) False]]
      by (simp add: sighash_preimage_def writeInt32LE_bw BufferWriter_write_def BufferWriter_concat_def body extra
          sighash_message_def del: le_bytes_numeral)
    then show ?thesis using False by (simp add: sighash_def copy readReverse_all)
  qed
qed

section \<open>Unambiguity\<close>

lemma enc_vector_bytes:
  assumes "\<And>x. x \<in> set xs \<Longrightarrow> enc x = Inr (f x)" and "length xs < 18446744073709551616"
  shows "enc_vector enc xs = Inr (vec_bytes f xs)"
proof -
  have "enc_all enc xs = Inr (concat (map f xs))" using assms(1) by (induction xs) auto
  then show ?thesis using assms(2) by (simp add: enc_vector_def varintBufNum_eq vec_bytes_def)
qed

lemma enc_inputs:
  assumes "list_all input_ok xs" and "length xs < 2147483648"
  shows "enc_vector input_enc (map wire_input xs) = Inr (vec_bytes input_bytes xs)"
proof -
  have "enc_vector input_enc (map wire_input xs) = Inr (vec_bytes input_bytes (map wire_input xs))"
    by (rule enc_vector_bytes) (use assms in \<open>auto simp: list_all_iff input_enc_eq\<close>)
  then show ?thesis by simp
qed

lemma inputs_unambiguous:
  assumes "list_all input_ok xs" "list_all input_ok ys" "length xs < 2147483648" "length ys < 2147483648"
    and "vec_bytes input_bytes xs @ r = vec_bytes input_bytes ys @ s"
    and "length (vec_bytes input_bytes xs @ r) < 2147483648"
  shows "map wire_input xs = map wire_input ys \<and> r = s"
proof (rule wire_format.unambiguous [OF tx_in.vector_format])
  show "enc_vector input_enc (map wire_input xs) = Inr (vec_bytes input_bytes xs)"
    "enc_vector input_enc (map wire_input ys) = Inr (vec_bytes input_bytes ys)"
    using assms(1-4) by (simp_all add: enc_inputs)
qed (use assms in \<open>auto simp: list_all_iff\<close>)

lemma enc_outputs:
  assumes "list_all output_ok xs" and "length xs < 2147483648"
  shows "enc_vector output_enc (map wire_output xs) = Inr (vec_bytes output_bytes xs)"
proof -
  have "enc_vector output_enc (map wire_output xs) = Inr (vec_bytes output_bytes (map wire_output xs))"
    by (rule enc_vector_bytes) (use assms in \<open>auto simp: list_all_iff output_enc_eq\<close>)
  then show ?thesis by simp
qed

lemma outputs_unambiguous:
  assumes "list_all output_ok xs" "list_all output_ok ys" "length xs < 2147483648" "length ys < 2147483648"
    and "vec_bytes output_bytes xs @ r = vec_bytes output_bytes ys @ s"
    and "length (vec_bytes output_bytes xs @ r) < 2147483648"
  shows "map wire_output xs = map wire_output ys \<and> r = s"
proof (rule wire_format.unambiguous [OF tx_out.vector_format])
  show "enc_vector output_enc (map wire_output xs) = Inr (vec_bytes output_bytes xs)"
    "enc_vector output_enc (map wire_output ys) = Inr (vec_bytes output_bytes ys)"
    using assms(1-4) by (simp_all add: enc_outputs)
qed (use assms in \<open>auto simp: list_all_iff\<close>)

lemma contract_bytes_inj:
  assumes "contract_ok c" "contract_ok d" "contract_bytes c = contract_bytes d" "length (contract_bytes c) < 2147483648"
  shows "wire_contract c = wire_contract d"
proof -
  let ?tx = "new_Transaction\<lparr>t_version := 3\<rparr>" and ?br = "new_BufferReader (contract_bytes c)"
  have tx: "Transaction_IsSmartContract ?tx" by (simp add: Transaction_IsSmartContract_def)
  have "reads ?br (contract_bytes c)" "reads ?br (contract_bytes d)" using assms(3,4) by (simp_all add: reads_new)
  from ReadExtra_contract [where pkp = Inr, OF tx assms(1) this(1) refl]
    ReadExtra_contract [where pkp = Inr, OF tx assms(2) this(2) refl]
  show ?thesis by (simp add: new_Transaction_def)
qed

lemma le_bytes_4_inj: "le_bytes 4 a = le_bytes 4 b \<Longrightarrow> a < 4294967296 \<Longrightarrow> b < 4294967296 \<Longrightarrow> a = b"
  by (metis le_val_le_bytes_4)

lemma version_bytes_inj:
  assumes "version_bytes a = version_bytes b" and "-2147483648 \<le> a" "a < 2147483648" "-2147483648 \<le> b" "b < 2147483648"
  shows "a = b"
proof -
  have "nat (a mod 4294967296) = nat (b mod 4294967296)"
    using assms(1) unfolding version_bytes_def by (rule le_bytes_4_inj) (simp_all add: nat_less_iff)
  then have "a mod 4294967296 = b mod 4294967296" by simp
  then show ?thesis using toInt32_version assms(2-) by metis
qed

text \<open>What a signature with SIGHASH_ALL fixes of a transaction.\<close>

definition committed :: "transaction \<Rightarrow> int \<times> (bytes \<times> nat \<times> nat) list \<times> (int \<times> bytes) list \<times> nat \<times> contract_data option" where
  "committed tx =
     (t_version tx, map (\<lambda>i. (prevTxId i, outputIndex i, sequenceNumber i)) (t_inputs tx),
      map (\<lambda>out. (o_satoshisBN out, o_scriptBuffer out)) (t_outputs tx), t_nLockTime tx,
      if Transaction_IsSmartContract tx then map_option wire_contract (contractdata tx) else None)"

lemma wire_input_parts:
  "(\<lambda>i. (prevTxId i, outputIndex i, sequenceNumber i)) \<circ> wire_input = (\<lambda>i. (prevTxId i, outputIndex i, sequenceNumber i))"
  "in_scriptBuffer \<circ> wire_input = in_scriptBuffer"
  "(\<lambda>out. (o_satoshisBN out, o_scriptBuffer out)) \<circ> wire_output = (\<lambda>out. (o_satoshisBN out, o_scriptBuffer out))"
  by (auto simp: wire_input_def wire_output_def)

lemma copy_inputs_parts:
  assumes "\<not> drops_seq ht" and "ht AND SIGHASH_ANYONECANPAY = 0" and "n < length ins"
  shows "map (\<lambda>i. (prevTxId i, outputIndex i, sequenceNumber i)) (copy_inputs ht n sb s ins)
      = map (\<lambda>i. (prevTxId i, outputIndex i, sequenceNumber i)) ins"
    and "map in_scriptBuffer (copy_inputs ht n sb s ins) = (replicate (length ins) [])[n := sb]"
  using assms by (auto simp: copy_inputs_def blanked_def Let_def list_eq_iff_nth_eq nth_list_update)

lemma update_blank_inj:
  assumes "(replicate k [])[n := a] = (replicate k [])[m := b]" and "n < k" and "m < k"
  shows "a = b \<and> (a \<noteq> [] \<longrightarrow> n = m)"
proof -
  have "(if n = m then b else []) = a"
    using arg_cong [OF assms(1), of "\<lambda>xs. xs ! n"] assms(2,3) by (simp add: nth_list_update split: if_splits)
  moreover have "(if n = m then a else []) = b"
    using arg_cong [OF assms(1), of "\<lambda>xs. xs ! m"] assms(2,3) by (simp add: nth_list_update split: if_splits)
  ultimately show ?thesis by (auto split: if_splits)
qed

lemma extra_inj:
  assumes "tx_ok tx" "tx_ok tx'" and "t_version tx = t_version tx'" and "extra_bytes tx = extra_bytes tx'"
    and "length (extra_bytes tx) < 2147483648"
  shows "(if Transaction_IsSmartContract tx then map_option wire_contract (contractdata tx) else None)
    = (if Transaction_IsSmartContract tx' then map_option wire_contract (contractdata tx') else None)"
proof (cases "Transaction_IsSmartContract tx")
  case True
  then have "Transaction_IsSmartContract tx'" using assms(3) by (simp add: Transaction_IsSmartContract_def)
  with True assms show ?thesis
    by (auto simp: tx_ok_def extra_bytes_def intro: contract_bytes_inj split: option.splits)
qed (use assms(3) in \<open>simp add: Transaction_IsSmartContract_def\<close>)

lemma message_inj:
  assumes ok: "tx_ok tx" "tx_ok tx'" and n: "n < length (t_inputs tx)" "n' < length (t_inputs tx')"
    and sb: "length sb < 2147483648" "length sb' < 2147483648"
    and ht: "\<not> drops_seq ht" "ht AND SIGHASH_ANYONECANPAY = 0"
    and eq: "sighash_message ht n sb tx = sighash_message ht n' sb' tx'"
    and len: "length (sighash_message ht n sb tx) < 2147483648"
  shows "committed tx = committed tx' \<and> sb = sb' \<and> (sb \<noteq> [] \<longrightarrow> n = n')"
proof -
  define cs cs' where "cs = copy_inputs ht n sb new_Script (t_inputs tx)"
    and "cs' = copy_inputs ht n' sb' new_Script (t_inputs tx')"
  define tail where "tail = (\<lambda>t. le_bytes 4 (t_nLockTime t) @ version_bytes (t_version t) @ extra_bytes t @ le_bytes 4 ht)"
  have m: "sighash_message ht n sb tx = vec_bytes input_bytes cs @ vec_bytes output_bytes (t_outputs tx) @ tail tx"
    "sighash_message ht n' sb' tx' = vec_bytes input_bytes cs' @ vec_bytes output_bytes (t_outputs tx') @ tail tx'"
    using n ht(1) by (simp_all add: sighash_message_def cs_def cs'_def copy_inputs_bytes vec_bytes_id [of input_bytes]
        vec_bytes_id [of output_bytes] tail_def message_outputs_def drops_seq_def del: le_bytes_numeral)
  have csok: "list_all input_ok cs" "list_all input_ok cs'" "length cs < 2147483648" "length cs' < 2147483648"
    using ok n sb copy_lengths(1) [of ht n sb new_Script "t_inputs tx"]
      copy_lengths(1) [of ht n' sb' new_Script "t_inputs tx'"]
    by (auto simp: cs_def cs'_def copy_inputs_ok tx_ok_def)
  from inputs_unambiguous [OF csok] eq len
  have ins: "map wire_input cs = map wire_input cs'"
    and rest: "vec_bytes output_bytes (t_outputs tx) @ tail tx = vec_bytes output_bytes (t_outputs tx') @ tail tx'"
    unfolding m by auto
  from outputs_unambiguous [OF _ _ _ _ rest] ok len
  have outs: "map wire_output (t_outputs tx) = map wire_output (t_outputs tx')" and tl: "tail tx = tail tx'"
    unfolding m by (auto simp: tx_ok_def)
  from tl have lock: "le_bytes 4 (t_nLockTime tx) = le_bytes 4 (t_nLockTime tx')"
    and ver: "version_bytes (t_version tx) = version_bytes (t_version tx')" and ex: "extra_bytes tx = extra_bytes tx'"
    by (simp_all add: tail_def version_bytes_def del: le_bytes_numeral)
  have ver': "t_version tx = t_version tx'" using version_bytes_inj [OF ver] ok by (simp add: tx_ok_def)
  have contract: "(if Transaction_IsSmartContract tx then map_option wire_contract (contractdata tx) else None)
      = (if Transaction_IsSmartContract tx' then map_option wire_contract (contractdata tx') else None)"
    using extra_inj [OF ok ver' ex] len unfolding m by (simp add: tail_def)
  have "map (\<lambda>i. (prevTxId i, outputIndex i, sequenceNumber i)) cs = map (\<lambda>i. (prevTxId i, outputIndex i, sequenceNumber i)) cs'"
    "map in_scriptBuffer cs = map in_scriptBuffer cs'"
    "map (\<lambda>out. (o_satoshisBN out, o_scriptBuffer out)) (t_outputs tx) = map (\<lambda>out. (o_satoshisBN out, o_scriptBuffer out)) (t_outputs tx')"
    using arg_cong [OF ins, of "map (\<lambda>i. (prevTxId i, outputIndex i, sequenceNumber i))"]
      arg_cong [OF ins, of "map in_scriptBuffer"] arg_cong [OF outs, of "map (\<lambda>out. (o_satoshisBN out, o_scriptBuffer out))"]
    by (simp_all only: map_map wire_input_parts)
  moreover have "t_nLockTime tx = t_nLockTime tx'" using le_bytes_4_inj [OF lock] ok by (simp add: tx_ok_def)
  moreover have "length (t_inputs tx) = length (t_inputs tx')"
    using map_eq_imp_length_eq [OF ins] ht(2) by (simp add: cs_def cs'_def copy_inputs_def Let_def)
  ultimately show ?thesis
    using contract ver' ht n update_blank_inj [of "length (t_inputs tx)" n sb n' sb']
    by (simp add: committed_def cs_def cs'_def copy_inputs_parts)
qed

section \<open>Properties\<close>

lemma fromBuffer_Nil [simp]: "Script_fromBuffer [] = Inr new_Script"
  by (simp add: fromBuffer_Inr Script_readChunks.simps BufferReader_finished_def new_BufferReader_def new_Script_def)

lemma fromBuffer_op: "is_ok (Script_fromBuffer [81])"
  by (simp add: Script_fromBuffer_def Script_readChunks.simps Script_readChunk_def BufferReader_finished_def
      new_BufferReader_def BufferReader_readUInt8_def advance_def readUInt8_eq)

lemma demo_signable: "b = [] \<or> b = [81] \<Longrightarrow> signable Inr (demo_tx b)"
  using fromBuffer_op
  by (auto simp: signable_def demo_tx_def demo_input_def demo_output_def tx_ok_def input_ok_def output_ok_def
      new_Transaction_def Transaction_IsSmartContract_def input_signable_def Input_isNull_def tx_bytes_def
      version_bytes_def body_bytes_def vec_bytes_def input_bytes_def output_bytes_def varint_bytes_def
      extra_bytes_def sig_bytes_def)

lemma subscript_empty [simp]: "subscript_bytes new_Script = Inr []"
  by (simp add: subscript_bytes_def Script_removeCodeseparators_def) (simp add: new_Script_def Script_toBuffer_def BufferWriter_concat_def)

text \<open>
  C5: The hash that is signed is the double hash of \<open>sighash_message\<close>, for every hash type; with
  SIGHASH_SINGLE and no output of the same index it is the constant one.
\<close>
theorem sighash_spec:
  assumes "signable pkp tx" and "n < length (t_inputs tx)" and "ht < 2147483648"
    and "subscript_bytes sub = Inr sb" and "length sb < 2147483648"
  shows "sighash pkp tx ht n sub =
    Inr (if single_bug ht n tx then sighash_single_bug else rev (Hash_sha256sha256 (sighash_message ht n sb tx)))"
  using assms by (rule sighash_eq)

theorem sighash_spec_witness:
  "signable Inr (demo_tx []) \<and>
   sighash Inr (demo_tx []) 1 0 new_Script = Inr (rev (Hash_sha256sha256 (sighash_message 1 0 [] (demo_tx []))))"
  using sighash_spec [of Inr "demo_tx []" 0 1 new_Script "[]"] demo_signable [of "[]"]
  by (simp add: single_bug_def demo_tx_def)

text \<open>
  C7: Two transactions for which the same hash is signed with SIGHASH_ALL agree in version, outpoints,
  sequence numbers, outputs, lock time and contract data and in the subscript, or the two messages are a
  collision of the double hash.
\<close>
theorem sighash_all_commits:
  assumes "signable pkp tx" "signable pkp tx'" and "n < length (t_inputs tx)" "n' < length (t_inputs tx')"
    and "ht < 2147483648" "\<not> drops_seq ht" "ht AND SIGHASH_ANYONECANPAY = 0"
    and "subscript_bytes sub = Inr sb" "length sb < 2147483648"
    and "subscript_bytes sub' = Inr sb'" "length sb' < 2147483648"
    and "length (sighash_message ht n sb tx) < 2147483648"
    and "sighash pkp tx ht n sub = sighash pkp tx' ht n' sub'"
  shows "committed tx = committed tx' \<and> sb = sb' \<and> (sb \<noteq> [] \<longrightarrow> n = n') \<or>
    sighash_message ht n sb tx \<noteq> sighash_message ht n' sb' tx' \<and>
    Hash_sha256sha256 (sighash_message ht n sb tx) = Hash_sha256sha256 (sighash_message ht n' sb' tx')"
proof -
  have "\<not> single_bug ht n tx" "\<not> single_bug ht n' tx'" using assms(6) by (auto simp: single_bug_def drops_seq_def)
  then have h: "Hash_sha256sha256 (sighash_message ht n sb tx) = Hash_sha256sha256 (sighash_message ht n' sb' tx')"
    using assms(13) sighash_eq [OF assms(1,3,5,8,9)] sighash_eq [OF assms(2,4,5,10,11)] by simp
  have "tx_ok tx" "tx_ok tx'" using assms(1,2) by (simp_all add: signable_def)
  from message_inj [OF this assms(3,4,9,11,6,7) _ assms(12)] h show ?thesis by blast
qed

theorem sighash_all_commits_witness:
  "sighash Inr (demo_tx []) 1 0 new_Script = sighash Inr (demo_tx [81]) 1 0 new_Script \<and>
   committed (demo_tx []) = committed (demo_tx [81])"
proof -
  have n: "0 < length (t_inputs (demo_tx b))" for b by (simp add: demo_tx_def)
  have b: "\<not> single_bug 1 0 (demo_tx b)" for b by (simp add: single_bug_def)
  have m: "sighash_message 1 0 [] (demo_tx []) = sighash_message 1 0 [] (demo_tx [81])"
    by (simp add: sighash_message_def message_inputs_def message_outputs_def demo_tx_def demo_input_def input_part_def
        Let_def extra_bytes_def Transaction_IsSmartContract_def)
  have len: "length (sighash_message 1 0 [] (demo_tx [])) < 2147483648"
    by (simp add: sighash_message_def message_inputs_def message_outputs_def demo_tx_def demo_input_def input_part_def
        Let_def extra_bytes_def Transaction_IsSmartContract_def vec_bytes_def varbuf_bytes_def varint_bytes_def version_bytes_def
        output_bytes_def demo_output_def new_Transaction_def)
  have eq: "sighash Inr (demo_tx []) 1 0 new_Script = sighash Inr (demo_tx [81]) 1 0 new_Script"
    using sighash_eq [OF demo_signable [of "[]"] n, of 1 new_Script "[]"]
      sighash_eq [OF demo_signable [of "[81]"] n, of 1 new_Script "[]"] b m by simp
  with sighash_all_commits [of Inr "demo_tx []" "demo_tx [81]" 0 0 1 new_Script "[]" new_Script "[]"]
    demo_signable [of "[]"] demo_signable [of "[81]"] n len m
  show ?thesis by (simp add: drops_seq_def)
qed

text \<open>
  With SIGHASH_ANYONECANPAY the other inputs can change without changing the hash that is signed, with
  SIGHASH_NONE the outputs, and with SIGHASH_SINGLE the outputs other than the one of the same index.
\<close>
theorem sighash_anyonecanpay:
  assumes "signable pkp tx" "signable pkp tx'" and "n < length (t_inputs tx)" "n' < length (t_inputs tx')"
    and "ht < 2147483648" and "subscript_bytes sub = Inr sb" "length sb < 2147483648"
    and "t_version tx' = t_version tx" "t_nLockTime tx' = t_nLockTime tx" "contractdata tx' = contractdata tx"
    and "t_inputs tx' ! n' = t_inputs tx ! n" and "ht AND SIGHASH_ANYONECANPAY \<noteq> 0"
    and "ht AND 31 = SIGHASH_NONE \<or>
      ht AND 31 = SIGHASH_SINGLE \<and> n' = n \<and> n < length (t_outputs tx) \<and> n < length (t_outputs tx') \<and>
        t_outputs tx' ! n = t_outputs tx ! n \<or>
      ht AND 31 \<noteq> SIGHASH_SINGLE \<and> t_outputs tx' = t_outputs tx"
  shows "sighash pkp tx' ht n' sub = sighash pkp tx ht n sub"
proof -
  have "message_outputs ht n' (t_outputs tx') = message_outputs ht n (t_outputs tx)"
    and bug: "\<not> single_bug ht n' tx'" "\<not> single_bug ht n tx"
    using assms(13) by (auto simp: message_outputs_def single_bug_def)
  moreover have "message_inputs ht n' sb (t_inputs tx') = message_inputs ht n sb (t_inputs tx)"
    using assms(11,12) by (simp add: message_inputs_def)
  ultimately have "sighash_message ht n' sb tx' = sighash_message ht n sb tx"
    using assms(8-10) by (simp add: sighash_message_def extra_bytes_def Transaction_IsSmartContract_def)
  then show ?thesis
    using sighash_eq [OF assms(1,3,5,6,7)] sighash_eq [OF assms(2,4,5,6,7)] bug by simp
qed

theorem sighash_anyonecanpay_witness:
  "sighash Inr ((demo_tx [81])\<lparr>t_outputs := []\<rparr>) 130 0 new_Script =
   sighash Inr ((demo_tx [81])\<lparr>t_outputs := [demo_output, demo_output]\<rparr>) 130 0 new_Script"
proof -
  have "signable Inr ((demo_tx [81])\<lparr>t_outputs := outs\<rparr>)" if "outs = [] \<or> outs = [demo_output, demo_output]" for outs
    using that fromBuffer_op
    by (auto simp: signable_def demo_tx_def demo_input_def demo_output_def tx_ok_def input_ok_def output_ok_def
        new_Transaction_def Transaction_IsSmartContract_def input_signable_def Input_isNull_def tx_bytes_def
        version_bytes_def body_bytes_def vec_bytes_def input_bytes_def output_bytes_def varint_bytes_def
        extra_bytes_def sig_bytes_def)
  then show ?thesis
    using sighash_anyonecanpay [of Inr "(demo_tx [81])\<lparr>t_outputs := [demo_output, demo_output]\<rparr>"
        "(demo_tx [81])\<lparr>t_outputs := []\<rparr>" 0 0 130 new_Script "[]"]
    by (simp add: demo_tx_def)
qed

section \<open>The hash of contracts\<close>

definition contract_message :: "transaction \<Rightarrow> bytes" where
  "contract_message tx =
     version_bytes (t_version tx) @ le_bytes 4 (t_nLockTime tx) @ concat (map input_bytes (t_inputs tx))
     @ concat (map output_bytes (t_outputs tx)) @ extra_bytes tx"

lemma WriteForContractSign_ok:
  assumes "tx_ok tx" and "0 \<le> t_version tx"
  shows "\<exists>ps. Transaction_WriteForContractSign [] tx = Inr ps \<and> concat ps = contract_message tx"
proof -
  let ?h = "[version_bytes (t_version tx), le_bytes 4 (t_nLockTime tx)]"
  obtain ps where ps: "write_each Input_toBufferWriter ?h (t_inputs tx) = Inr (?h @ ps)"
    "concat ps = concat (map input_bytes (t_inputs tx))"
    using write_inputs [of "t_inputs tx" ?h] assms(1) by (auto simp: tx_ok_def simp del: le_bytes_numeral)
  obtain qs where qs: "write_each Output_toBufferWriter (?h @ ps) (t_outputs tx) = Inr ((?h @ ps) @ qs)"
    "concat qs = concat (map output_bytes (t_outputs tx))"
    using write_outputs [of "t_outputs tx" "?h @ ps"] assms(1) by (auto simp: tx_ok_def simp del: le_bytes_numeral)
  obtain es where es: "Transaction_WriteExtra (?h @ ps @ qs) tx True = Inr ((?h @ ps @ qs) @ es)" "concat es = extra_bytes tx"
    using WriteExtra_bw [of tx True "?h @ ps @ qs"] tx_ok_extra [OF assms(1)] by (auto simp del: le_bytes_numeral)
  have "BufferWriter_writeUInt32LE [] (t_version tx) = Inr [version_bytes (t_version tx)]"
    using writeUInt32LE_bw [of "nat (t_version tx)" "[]"] assms
    by (simp add: version_bytes_def tx_ok_def nat_less_iff del: le_bytes_numeral)
  then show ?thesis
    using assms(1) ps(1) qs(1) es(1)
    by (simp add: Transaction_WriteForContractSign_def writeUInt32LE_bw tx_ok_def contract_message_def ps(2) qs(2) es(2)
        del: le_bytes_numeral)
qed

lemma SignatureHashForContract_eq:
  assumes "signable pkp tx" and "Transaction_IsSmartContract tx"
  shows "Script_SignatureHashForContract pkp tx = Inr (rev (Hash_sha256sha256 (contract_message tx)))"
proof -
  have ok: "tx_ok tx" using assms(1) by (simp add: signable_def)
  have "Transaction_shallowCopy pkp tx = Inr (wire_tx tx)"
    using assms(1) by (intro shallowCopy_ok) (auto simp: signable_def)
  moreover have "contract_message (wire_tx tx) = contract_message tx"
    using ok by (simp add: contract_message_def comp_def)
  moreover obtain ps where "Transaction_WriteForContractSign [] (wire_tx tx) = Inr ps"
    "concat ps = contract_message (wire_tx tx)"
    using WriteForContractSign_ok [OF tx_ok_wire [OF ok]] assms(2) by (auto simp: Transaction_IsSmartContract_def)
  ultimately show ?thesis
    by (simp add: Script_SignatureHashForContract_def Transaction_shallowCopy_def Script_GetHash_def
        BufferWriter_concat_def readReverse_all)
qed

text \<open>An input without a script, of 41 bytes, read as an output with a script of 32 bytes.\<close>

definition output_of_input :: "tx_input \<Rightarrow> tx_output" where
  "output_of_input i =
     (let b = input_bytes i in
      \<lparr>o_satoshis = BN_toNumber (int (le_val (take 8 b))), o_satoshisBN = int (le_val (take 8 b)),
       o_scriptBuffer = drop 9 b, o_script = None\<rparr>)"

lemma input_as_output:
  assumes "input_ok i" and "in_scriptBuffer i = []" and "rev (prevTxId i) ! 8 = 32"
  shows "output_ok (output_of_input i)" and "output_bytes (output_of_input i) = input_bytes i"
proof -
  have len: "length (input_bytes i) = 41"
    using assms(1,2) by (simp add: input_bytes_def input_ok_def varint_bytes_def del: le_bytes_numeral)
  have "input_bytes i ! 8 = 32"
    using assms by (simp add: input_bytes_def nth_append input_ok_def del: le_bytes_numeral)
  then have split: "input_bytes i = take 8 (input_bytes i) @ 32 # drop 9 (input_bytes i)"
    using len id_take_nth_drop [of 8 "input_bytes i"] by simp
  have l8: "length (take 8 (input_bytes i)) = 8" using len by simp
  then have "le_val (take 8 (input_bytes i)) < 256 ^ 8" using le_val_less [of "take 8 (input_bytes i)"] by simp
  then show "output_ok (output_of_input i)" using len by (simp add: output_ok_def output_of_input_def Let_def)
  have "le_bytes 8 (le_val (take 8 (input_bytes i))) = take 8 (input_bytes i)" using l8 by (metis le_bytes_le_val)
  then show "output_bytes (output_of_input i) = input_bytes i"
    using len split by (simp add: output_bytes_def output_of_input_def Let_def varint_bytes_def del: le_bytes_numeral)
qed

lemma output_bytes_ne: "output_bytes out \<noteq> []"
  by (simp add: output_bytes_def)

lemma length_le_concat:
  assumes "\<And>x. f x \<noteq> []"
  shows "length xs \<le> length (concat (map f xs))"
proof (induction xs)
  case (Cons x xs)
  have "0 < length (f x)" using assms by simp
  with Cons show ?case by (simp del: length_greater_0_conv)
qed simp

text \<open>
  C37: The hash that the sender of a contract signs does not fix how its inputs and outputs are separated: the
  last input, when it has no script and the ninth byte of its transaction id is 32, can be read as an output
  without changing the hash.
\<close>
theorem contract_hash_ambiguous:
  assumes "signable pkp tx" and "Transaction_IsSmartContract tx" and "t_inputs tx = ins @ [i]"
    and "in_scriptBuffer i = []" and "rev (prevTxId i) ! 8 = 32" and "length (tx_bytes tx) < 2147483000"
  shows "signable pkp (tx\<lparr>t_inputs := ins, t_outputs := output_of_input i # t_outputs tx\<rparr>) \<and>
    Script_SignatureHashForContract pkp (tx\<lparr>t_inputs := ins, t_outputs := output_of_input i # t_outputs tx\<rparr>)
      = Script_SignatureHashForContract pkp tx"
proof -
  let ?t = "tx\<lparr>t_inputs := ins, t_outputs := output_of_input i # t_outputs tx\<rparr>"
  have "input_ok i" using assms(1,3) by (simp add: signable_def input_signable_def)
  note out = input_as_output [OF this assms(4,5)]
  have same: "extra_bytes ?t = extra_bytes tx" "sig_bytes ?t = sig_bytes tx"
    "Transaction_IsSmartContract ?t = Transaction_IsSmartContract tx"
    by (simp_all add: extra_bytes_def sig_bytes_def Transaction_IsSmartContract_def)
  have "length (tx_bytes ?t) \<le> length (tx_bytes tx) + 18"
    using length_varint_bytes [of "length ins"] length_varint_bytes [of "Suc (length (t_outputs tx))"]
    by (simp add: tx_bytes_def same body_bytes_def vec_bytes_def assms(3) out del: le_bytes_numeral)
  moreover have "length (t_outputs tx) \<le> length (tx_bytes tx)"
    using length_le_concat [of output_bytes "t_outputs tx", OF output_bytes_ne]
    by (simp add: tx_bytes_def body_bytes_def vec_bytes_def)
  ultimately have sg: "signable pkp ?t"
    using assms(1,3,6) out(1) by (auto simp: signable_def tx_ok_def Transaction_IsSmartContract_def)
  moreover have "contract_message ?t = contract_message tx"
    by (simp add: contract_message_def same assms(3) out)
  ultimately show ?thesis
    using SignatureHashForContract_eq assms(1,2) same(3) by simp
qed

theorem contract_hash_ambiguous_witness:
  "Script_SignatureHashForContract Inr
     (demo_contract\<lparr>t_inputs := [], t_outputs := [output_of_input ((demo_input [])\<lparr>prevTxId := replicate 32 32\<rparr>)]\<rparr>)
   = Script_SignatureHashForContract Inr demo_contract"
proof -
  have len: "length (tx_bytes demo_contract) < 2147483000"
    by (simp add: demo_contract_def demo_input_def tx_bytes_def new_Transaction_def
      version_bytes_def body_bytes_def vec_bytes_def input_bytes_def output_bytes_def varint_bytes_def
      extra_bytes_def sig_bytes_def Transaction_IsSmartContract_def contract_bytes_def contract_sig_def varbuf_bytes_def)
  have "signable Inr demo_contract"
    using len by (simp add: signable_def) (simp add: demo_contract_def demo_input_def tx_ok_def input_ok_def
      new_Transaction_def Transaction_IsSmartContract_def input_signable_def Input_isNull_def contract_ok_def sig_ok_def
      contract_sig_def)
  then show ?thesis
    using contract_hash_ambiguous [of Inr demo_contract "[]" "(demo_input [])\<lparr>prevTxId := replicate 32 32\<rparr>"] len
    by (simp add: demo_contract_def demo_input_def Transaction_IsSmartContract_def new_Transaction_def)
qed

end
