(* ===== verification/TxProps.thy ===== *)
theory TxProps
  imports TxCheck SigHash
begin

text \<open>
  Properties of building a transaction: the invariants of its caches and of its change output and which calls keep them, and
  that no amount is lost in the change.
\<close>

section \<open>Sums\<close>

definition num_sum :: "int list \<Rightarrow> int" where
  "num_sum vs = foldl num_add 0 vs"

text \<open>\<open>a\<close> is a sum of the values, added up in some order.\<close>

definition amount_of :: "int list \<Rightarrow> int \<Rightarrow> bool" where
  "amount_of vs a \<longleftrightarrow> (\<exists>ws. mset ws = mset vs \<and> a = num_sum ws)"

lemma foldl_exact:
  assumes "list_all (\<lambda>v. 0 \<le> v) vs" and "0 \<le> a" and "a + sum_list vs \<le> 9007199254740992"
  shows "foldl num_add a vs = a + sum_list vs"
  using assms
proof (induction vs arbitrary: a)
  case (Cons v vs)
  have "0 \<le> sum_list vs" using Cons.prems(1) by (simp add: list_all_iff sum_list_nonneg)
  then have "num_add a v = a + v" using Cons.prems by (simp add: num_add_def BN_toNumber_small)
  with Cons show ?case by simp
qed simp

lemma amount_exact:
  assumes "amount_of vs a" and "list_all (\<lambda>v. 0 \<le> v) vs" and "sum_list vs \<le> 9007199254740992"
  shows "a = sum_list vs"
proof -
  obtain ws where ws: "mset ws = mset vs" "a = num_sum ws" using assms(1) by (auto simp: amount_of_def)
  have "set ws = set vs" "sum_list ws = sum_list vs"
    using ws(1) mset_eq_setD by (blast, metis sum_mset_sum_list)
  then show ?thesis
    using foldl_exact [of ws 0] assms(2,3) ws(2) by (simp add: num_sum_def list_all_iff)
qed

lemma amount_num_sum [simp]: "amount_of vs (num_sum vs)"
  by (auto simp: amount_of_def)

lemma amount_perm: "mset vs = mset ws \<Longrightarrow> amount_of vs a = amount_of ws a"
  by (simp add: amount_of_def)

definition in_amounts :: "tx_input list \<Rightarrow> int list" where
  "in_amounts ins = map (\<lambda>i. o_satoshis (the (in_output i))) ins"

definition out_amounts :: "tx_output list \<Rightarrow> int list" where
  "out_amounts outs = map o_satoshis outs"

definition known :: "tx_input list \<Rightarrow> bool" where
  "known ins \<longleftrightarrow> list_all (\<lambda>i. in_output i \<noteq> None) ins"

lemma sum_inputs_known: "known ins \<Longrightarrow> sum_inputs a ins = (None, foldl num_add a (in_amounts ins))"
  by (induction ins arbitrary: a) (auto simp: known_def in_amounts_def)

lemma sum_inputs_unknown: "\<not> known ins \<Longrightarrow> \<exists>b. sum_inputs a ins = (Some MissingPreviousOutput, b)"
  by (induction ins arbitrary: a) (auto simp: known_def split: option.split)

lemma sum_outputs_eq: "sum_outputs outs = num_sum (out_amounts outs)"
  by (simp add: sum_outputs_def num_sum_def out_amounts_def foldl_map)

section \<open>The invariant\<close>

definition in_cache_ok :: "transaction \<Rightarrow> bool" where
  "in_cache_ok tx \<longleftrightarrow>
     (\<forall>a. t_inputAmount tx = Some a \<longrightarrow> known (t_inputs tx) \<and> amount_of (in_amounts (t_inputs tx)) a)"

definition out_cache_ok :: "transaction \<Rightarrow> bool" where
  "out_cache_ok tx \<longleftrightarrow> (\<forall>b. t_outputAmount tx = Some b \<longrightarrow> amount_of (out_amounts (t_outputs tx)) b)"

definition caches_ok :: "transaction \<Rightarrow> bool" where
  "caches_ok tx \<longleftrightarrow> in_cache_ok tx \<and> out_cache_ok tx"

lemmas caches_defs = caches_ok_def in_cache_ok_def out_cache_ok_def

definition change_ok :: "transaction \<Rightarrow> bool" where
  "change_ok tx \<longleftrightarrow>
     (\<forall>k. t_changeIndex tx = Some k \<longrightarrow>
       0 \<le> k \<and> k < int (length (t_outputs tx)) \<and>
       (\<exists>s. t_changeScript tx = Some s \<and> o_script (t_outputs tx ! nat k) = Some (mark_output s)))"

definition tx_inv :: "transaction \<Rightarrow> bool" where
  "tx_inv tx \<longleftrightarrow> caches_ok tx \<and> change_ok tx"

text \<open>What is left of the change output when outputs are sorted: a place whose script has the bytes of the change script.\<close>

definition change_near :: "transaction \<Rightarrow> bool" where
  "change_near tx \<longleftrightarrow>
     (\<forall>k. t_changeIndex tx = Some k \<longrightarrow>
       0 \<le> k \<and> k < int (length (t_outputs tx)) \<and>
       (\<exists>s b. t_changeScript tx = Some s \<and> Script_toBuffer s = Inr b \<and>
         mset b \<subseteq># mset (o_scriptBuffer (t_outputs tx ! nat k))))"

lemmas op_defs = tret_def tlift_def tbind_def tmodify_def

lemma tbind_InrE:
  assumes "tbind m f tx = (Inr y, tx')"
  obtains x t where "m tx = (Inr x, t)" and "f x t = (Inr y, tx')"
  using assms by (auto simp: tbind_def split: prod.splits sum.splits)

lemma inputAmountE:
  assumes "Transaction_getInputAmount tx = (Inr a, tx')"
  shows "tx' = tx\<lparr>t_inputAmount := Some a\<rparr>" and "in_cache_ok tx \<Longrightarrow> in_cache_ok tx'"
proof -
  show tx': "tx' = tx\<lparr>t_inputAmount := Some a\<rparr>"
    using assms by (cases tx) (auto simp: Transaction_getInputAmount_def split: option.splits prod.splits)
  assume ok: "in_cache_ok tx"
  show "in_cache_ok tx'"
  proof (cases "t_inputAmount tx")
    case None
    have "known (t_inputs tx)"
    proof (rule ccontr)
      assume "\<not> known (t_inputs tx)"
      then obtain b where "sum_inputs 0 (t_inputs tx) = (Some MissingPreviousOutput, b)" using sum_inputs_unknown by blast
      with assms None show False by (simp add: Transaction_getInputAmount_def)
    qed
    with None assms sum_inputs_known [of "t_inputs tx" 0] show ?thesis
      by (auto simp: Transaction_getInputAmount_def in_cache_ok_def num_sum_def [symmetric])
  qed (use assms ok in \<open>simp add: Transaction_getInputAmount_def\<close>)
qed

lemma outputAmountE:
  assumes "Transaction_getOutputAmount tx = (Inr b, tx')"
  shows "tx' = tx\<lparr>t_outputAmount := Some b\<rparr>" and "out_cache_ok tx \<Longrightarrow> out_cache_ok tx'"
proof -
  show "tx' = tx\<lparr>t_outputAmount := Some b\<rparr>"
    using assms by (cases tx) (auto simp: Transaction_getOutputAmount_def split: option.splits)
  show "out_cache_ok tx \<Longrightarrow> out_cache_ok tx'"
    using assms by (auto simp: Transaction_getOutputAmount_def out_cache_ok_def sum_outputs_eq split: option.splits)
qed

lemma unspentE:
  assumes "Transaction_getUnspentValue tx = (Inr v, tx')"
  obtains a b where "tx' = tx\<lparr>t_inputAmount := Some a, t_outputAmount := Some b\<rparr>" and "v = num_sub a b"
    and "in_cache_ok tx \<Longrightarrow> in_cache_ok tx'" and "out_cache_ok tx \<Longrightarrow> out_cache_ok tx'"
proof -
  from assms obtain a t b where a: "Transaction_getInputAmount tx = (Inr a, t)"
    and b: "Transaction_getOutputAmount t = (Inr b, tx')" and v: "v = num_sub a b"
    unfolding Transaction_getUnspentValue_def by (auto elim!: tbind_InrE simp: tret_def)
  note t = inputAmountE [OF a] outputAmountE [OF b]
  show thesis
    by (rule that [where a = a and b = b]) (use t v in \<open>auto simp: in_cache_ok_def out_cache_ok_def\<close>)
qed

lemma fee_cached:
  assumes "t_inputAmount tx = Some a" and "t_outputAmount tx = Some b"
  shows "snd (Transaction_getFee tx) = tx"
proof -
  have u: "Transaction_getUnspentValue tx = (Inr (num_sub a b), tx)"
    using assms by (simp add: Transaction_getUnspentValue_def Transaction_getInputAmount_def Transaction_getOutputAmount_def op_defs)
  show ?thesis
    by (simp add: Transaction_getFee_def Transaction_estimateFee_def op_defs u split: option.split sum.split)
qed

lemma clear_one: "Input_clearSignatures i = (r, j) \<Longrightarrow> in_output j = in_output i \<and> prevTxId j = prevTxId i \<and> outputIndex j = outputIndex i"
  by (auto simp: Input_clearSignatures_def MultiSig_updateScript_def set_script_def Input_setScript_def rbind_def
      split: input_kind.splits sum.splits)

lemma clear_inputs_outputs:
  "clear_inputs ins = (r, ins') \<Longrightarrow> map in_output ins' = map in_output ins"
  by (induction ins arbitrary: ins') (auto split: prod.splits sum.splits dest: clear_one)

lemma in_amounts_cong: "map in_output ins' = map in_output ins \<Longrightarrow> in_amounts ins' = in_amounts ins \<and> known ins' = known ins"
proof -
  assume eq: "map in_output ins' = map in_output ins"
  have "in_amounts xs = map (\<lambda>x. o_satoshis (the x)) (map in_output xs)"
    "known xs = list_all (\<lambda>x. x \<noteq> None) (map in_output xs)" for xs
    by (simp_all add: in_amounts_def known_def list_all_iff)
  then show ?thesis using eq by metis
qed

lemma clearSignaturesE:
  assumes "Transaction_clearSignatures tx = (r, tx')"
  obtains ins where "tx' = tx\<lparr>t_inputs := ins\<rparr>" and "map in_output ins = map in_output (t_inputs tx)"
  using assms by (auto simp: Transaction_clearSignatures_def split: prod.splits dest: clear_inputs_outputs)

lemma caches_inputs:
  assumes "map in_output ins = map in_output (t_inputs tx)"
  shows "in_cache_ok (tx\<lparr>t_inputs := ins\<rparr>) = in_cache_ok tx" and "out_cache_ok (tx\<lparr>t_inputs := ins\<rparr>) = out_cache_ok tx"
  using in_amounts_cong [OF assms] by (simp_all add: in_cache_ok_def out_cache_ok_def)

definition drop_change :: "transaction \<Rightarrow> tx_output list" where
  "drop_change tx = (case t_changeIndex tx of None \<Rightarrow> t_outputs tx | Some k \<Rightarrow> remove_at k (t_outputs tx))"

lemma new_change_output:
  assumes "new_Output (SatNum v) (ScrScript s) = Inr out"
  shows "o_satoshis out = v" and "0 \<le> v" and "o_script out = Some (mark_output s)"
    and "Script_toBuffer s = Inr (o_scriptBuffer out)"
  using assms by (auto simp: new_Output_def Output_set_satoshis_def Output_setScript_def check_def rbind_eq_Inr split: if_splits)

text \<open>The steps of a successful update of the change output, and what they have done.\<close>

lemma update_steps:
  assumes "Transaction_updateChangeOutput tx = (Inr (), tx')" and "t_changeScript tx = Some s"
  obtains t1 t2 avail t3 fee t4 where "Transaction_clearSignatures tx = (Inr (), t1)"
    and "(case t_changeIndex t1 of None \<Rightarrow> tret () t1 | Some k \<Rightarrow> Transaction_removeOutput_at k t1) = (Inr (), t2)"
    and "Transaction_getUnspentValue t2 = (Inr avail, t3)" and "Transaction_getFee t3 = (Inr fee, t4)"
    and "num_sub avail fee \<le> 0 \<and> tx' = t4\<lparr>t_changeIndex := None\<rparr> \<or>
      (\<exists>out. new_Output (SatNum (num_sub avail fee)) (ScrScript s) = Inr out \<and> 0 < num_sub avail fee \<and>
        tx' = t4\<lparr>t_changeIndex := Some (int (length (t_outputs t4))), t_outputs := t_outputs t4 @ [out], t_outputAmount := None\<rparr>)"
proof -
  from assms obtain t1 t2 avail t3 fee t4 where 1: "Transaction_clearSignatures tx = (Inr (), t1)"
    "(case t_changeIndex t1 of None \<Rightarrow> tret () t1 | Some k \<Rightarrow> Transaction_removeOutput_at k t1) = (Inr (), t2)"
    "Transaction_getUnspentValue t2 = (Inr avail, t3)" "Transaction_getFee t3 = (Inr fee, t4)"
    and 2: "(let changeAmount = num_sub avail fee in
            if changeAmount > 0 then
              tbind (tmodify (\<lambda>tx. tx\<lparr>t_changeIndex := Some (int (length (t_outputs tx)))\<rparr>)) (\<lambda>_.
              tbind (tlift (new_Output (SatNum changeAmount) (ScrScript s))) Transaction_addOutput_plain)
            else tmodify (\<lambda>tx. tx\<lparr>t_changeIndex := None\<rparr>)) t4 = (Inr (), tx')"
    unfolding Transaction_updateChangeOutput_def by (auto elim!: tbind_InrE)
  from 2 show thesis
    by (intro that [OF 1]) (auto simp: Let_def op_defs Transaction_addOutput_plain_def split: if_splits sum.splits)
qed

lemma updateE:
  assumes "Transaction_updateChangeOutput tx = (Inr (), tx')" and "t_changeScript tx = Some s"
  obtains t a b fee where "map in_output (t_inputs t) = map in_output (t_inputs tx)" "t_outputs t = drop_change tx"
    "t_inputAmount t = Some a" "t_outputAmount t = Some b" "in_cache_ok tx \<Longrightarrow> in_cache_ok t" "out_cache_ok tx \<Longrightarrow> out_cache_ok t"
    "fst (Transaction_getFee t) = Inr fee" "t_changeScript t = Some s" "t_fee t = t_fee tx"
    "num_sub (num_sub a b) fee \<le> 0 \<and> tx' = t\<lparr>t_changeIndex := None\<rparr> \<or>
     (\<exists>out. new_Output (SatNum (num_sub (num_sub a b) fee)) (ScrScript s) = Inr out \<and> 0 < num_sub (num_sub a b) fee \<and>
       tx' = t\<lparr>t_changeIndex := Some (int (length (t_outputs t))), t_outputs := t_outputs t @ [out], t_outputAmount := None\<rparr>)"
  using assms
proof (rule update_steps)
  fix t1 t2 avail t3 fee t4
  assume 1: "Transaction_clearSignatures tx = (Inr (), t1)"
    and 2: "(case t_changeIndex t1 of None \<Rightarrow> tret () t1 | Some k \<Rightarrow> Transaction_removeOutput_at k t1) = (Inr (), t2)"
    and 3: "Transaction_getUnspentValue t2 = (Inr avail, t3)" and 4: "Transaction_getFee t3 = (Inr fee, t4)"
    and 5: "num_sub avail fee \<le> 0 \<and> tx' = t4\<lparr>t_changeIndex := None\<rparr> \<or>
      (\<exists>out. new_Output (SatNum (num_sub avail fee)) (ScrScript s) = Inr out \<and> 0 < num_sub avail fee \<and>
        tx' = t4\<lparr>t_changeIndex := Some (int (length (t_outputs t4))), t_outputs := t_outputs t4 @ [out], t_outputAmount := None\<rparr>)"
  from 1 obtain ins where t1: "t1 = tx\<lparr>t_inputs := ins\<rparr>" "map in_output ins = map in_output (t_inputs tx)"
    by (rule clearSignaturesE)
  have t2: "t2 = (case t_changeIndex tx of None \<Rightarrow> t1 | Some k \<Rightarrow> t1\<lparr>t_outputs := remove_at k (t_outputs tx), t_outputAmount := None\<rparr>)"
    using 2 t1 by (auto simp: op_defs Transaction_removeOutput_at_def split: option.splits)
  have ok: "in_cache_ok tx \<Longrightarrow> in_cache_ok t2" "out_cache_ok tx \<Longrightarrow> out_cache_ok t2"
    using caches_inputs [OF t1(2)] by (auto simp: t2 t1(1) in_cache_ok_def out_cache_ok_def split: option.splits)
  from 3 obtain a b where t3: "t3 = t2\<lparr>t_inputAmount := Some a, t_outputAmount := Some b\<rparr>" "avail = num_sub a b"
    "in_cache_ok t2 \<Longrightarrow> in_cache_ok t3" "out_cache_ok t2 \<Longrightarrow> out_cache_ok t3"
    by (rule unspentE) blast
  have t4: "t4 = t3" using fee_cached [of t3 a b] 4 t3(1) by simp
  show thesis
  proof (rule that [of t3 a b fee])
    show "in_cache_ok tx \<Longrightarrow> in_cache_ok t3" "out_cache_ok tx \<Longrightarrow> out_cache_ok t3" using ok t3(3,4) by blast+
  qed (use t1 t2 t3(1,2) 4 5 assms(2) in \<open>auto simp: t4 drop_change_def split: option.splits\<close>)
qed

text \<open>A state in which the change output can be updated, and what the update makes of it.\<close>

definition ready :: "transaction \<Rightarrow> bool" where
  "ready tx \<longleftrightarrow> out_cache_ok tx \<and> (t_changeScript tx = None \<longrightarrow> t_changeIndex tx = None)"

lemma near_ready: "out_cache_ok tx \<Longrightarrow> change_near tx \<Longrightarrow> ready tx"
  by (auto simp: ready_def change_near_def)

lemma update_keeps:
  assumes "Transaction_updateChangeOutput tx = (Inr (), tx')" and "ready tx"
  shows "in_cache_ok tx \<Longrightarrow> in_cache_ok tx'" and "out_cache_ok tx'" and "change_ok tx'" and "change_near tx'"
proof -
  have "(in_cache_ok tx \<longrightarrow> in_cache_ok tx') \<and> out_cache_ok tx' \<and> change_ok tx' \<and> change_near tx'"
  proof (cases "t_changeScript tx")
    case None
    with assms show ?thesis
      by (auto simp: Transaction_updateChangeOutput_def tret_def ready_def change_ok_def change_near_def)
  next
    case (Some s)
    from assms(1) Some show ?thesis
    proof (rule updateE)
      fix t a b fee
      assume t: "in_cache_ok tx \<Longrightarrow> in_cache_ok t" "out_cache_ok tx \<Longrightarrow> out_cache_ok t" "t_changeScript t = Some s"
      assume "num_sub (num_sub a b) fee \<le> 0 \<and> tx' = t\<lparr>t_changeIndex := None\<rparr> \<or>
       (\<exists>out. new_Output (SatNum (num_sub (num_sub a b) fee)) (ScrScript s) = Inr out \<and> 0 < num_sub (num_sub a b) fee \<and>
         tx' = t\<lparr>t_changeIndex := Some (int (length (t_outputs t))), t_outputs := t_outputs t @ [out], t_outputAmount := None\<rparr>)"
      then show ?thesis
        using t assms(2) new_change_output(3,4)
        by (auto simp: ready_def in_cache_ok_def out_cache_ok_def change_ok_def change_near_def nth_append)
    qed
  qed
  then show "in_cache_ok tx \<Longrightarrow> in_cache_ok tx'" "out_cache_ok tx'" "change_ok tx'" "change_near tx'" by simp_all
qed

section \<open>Balance\<close>

text \<open>Amounts that JavaScript numbers add up without rounding.\<close>

definition exact :: "transaction \<Rightarrow> bool" where
  "exact tx \<longleftrightarrow>
     known (t_inputs tx) \<and> list_all (\<lambda>v. 0 \<le> v) (in_amounts (t_inputs tx)) \<and> list_all (\<lambda>v. 0 \<le> v) (out_amounts (t_outputs tx)) \<and>
     sum_list (in_amounts (t_inputs tx)) \<le> 9007199254740992 \<and> sum_list (out_amounts (t_outputs tx)) \<le> 9007199254740992"

definition unspent :: "transaction \<Rightarrow> int" where
  "unspent tx = sum_list (in_amounts (t_inputs tx)) - sum_list (out_amounts (t_outputs tx))"

definition balanced :: "transaction \<Rightarrow> bool" where
  "balanced tx \<longleftrightarrow>
     (\<forall>k f. t_changeIndex tx = Some k \<longrightarrow> t_fee tx = Some f \<longrightarrow> 0 \<le> f \<longrightarrow> exact tx \<longrightarrow>
       unspent tx = (if Transaction_isCoinbase tx then 0 else f))"

lemma BN_toNumber_nonpos: "v \<le> 0 \<Longrightarrow> BN_toNumber v \<le> 0"
  by (auto simp: BN_toNumber_def double_round_small)

lemma num_sub_pos:
  assumes "0 < num_sub x f" and "x \<le> 9007199254740992" and "0 \<le> f"
  shows "num_sub x f = x - f"
proof -
  have "0 < x - f"
  proof (rule ccontr)
    assume "\<not> 0 < x - f"
    then have "num_sub x f \<le> 0" by (simp add: num_sub_def BN_toNumber_nonpos)
    with assms(1) show False by simp
  qed
  then show ?thesis using assms(2,3) by (simp add: num_sub_def BN_toNumber_small)
qed

lemma update_balanced:
  assumes "ready tx" and "in_cache_ok tx" and "Transaction_updateChangeOutput tx = (Inr (), tx')"
  shows "balanced tx'"
proof (cases "t_changeScript tx")
  case None
  with assms show ?thesis by (auto simp: Transaction_updateChangeOutput_def tret_def ready_def balanced_def)
next
  case (Some s)
  from assms(3) Some show ?thesis
  proof (rule updateE)
    fix t a b fee
    assume "in_cache_ok tx \<Longrightarrow> in_cache_ok t" "out_cache_ok tx \<Longrightarrow> out_cache_ok t"
    with assms(1,2) have caches: "caches_ok t" by (simp add: caches_ok_def ready_def)
    assume t: "t_inputAmount t = Some a" "t_outputAmount t = Some b" "fst (Transaction_getFee t) = Inr fee"
      "t_changeScript t = Some s" "t_fee t = t_fee tx"
    assume cases: "num_sub (num_sub a b) fee \<le> 0 \<and> tx' = t\<lparr>t_changeIndex := None\<rparr> \<or>
     (\<exists>out. new_Output (SatNum (num_sub (num_sub a b) fee)) (ScrScript s) = Inr out \<and> 0 < num_sub (num_sub a b) fee \<and>
       tx' = t\<lparr>t_changeIndex := Some (int (length (t_outputs t))), t_outputs := t_outputs t @ [out], t_outputAmount := None\<rparr>)"
    show ?thesis
      unfolding balanced_def
    proof (intro allI impI)
      fix k f
      assume k: "t_changeIndex tx' = Some k" and f: "t_fee tx' = Some f" "0 \<le> f" and ex: "exact tx'"
      from cases k obtain out where out: "new_Output (SatNum (num_sub (num_sub a b) fee)) (ScrScript s) = Inr out"
        "0 < num_sub (num_sub a b) fee"
        "tx' = t\<lparr>t_changeIndex := Some (int (length (t_outputs t))), t_outputs := t_outputs t @ [out], t_outputAmount := None\<rparr>"
        by auto
      have fee: "fee = (if Transaction_isCoinbase t then 0 else f)"
        using t(3) f out(3) by (auto simp: Transaction_getFee_def tret_def split: if_splits)
      have sat: "o_satoshis out = num_sub (num_sub a b) fee" using new_change_output(1) [OF out(1)] .
      have a: "a = sum_list (in_amounts (t_inputs t))"
        using amount_exact [of "in_amounts (t_inputs t)" a] t(1) caches ex out(3) by (simp add: caches_defs exact_def)
      have b: "b = sum_list (out_amounts (t_outputs t))" "0 \<le> b"
        using amount_exact [of "out_amounts (t_outputs t)" b] t(2) caches ex out(2,3) sat
        by (auto simp: caches_defs exact_def out_amounts_def list_all_iff intro!: sum_list_nonneg)
      have "a \<le> 9007199254740992" "0 \<le> a"
        using ex out(3) by (auto simp: a exact_def list_all_iff sum_list_nonneg)
      then have ab: "num_sub a b = a - b" "a - b \<le> 9007199254740992"
        using b ex out(2,3) sat by (auto simp: num_sub_def BN_toNumber_small exact_def out_amounts_def)
      have "num_sub (num_sub a b) fee = a - b - fee"
        using num_sub_pos [of "num_sub a b" fee] out(2) ab f(2) fee by simp
      then have "unspent tx' = fee"
        by (simp add: unspent_def out(3) a [symmetric] b(1) out_amounts_def sat)
      then show "unspent tx' = (if Transaction_isCoinbase tx' then 0 else f)"
        by (simp add: fee out(3) Transaction_isCoinbase_def)
    qed
  qed
qed

section \<open>Operations that keep the amounts\<close>

definition outpoint :: "tx_input \<Rightarrow> tx_output option \<times> bytes \<times> nat" where
  "outpoint i = (in_output i, prevTxId i, outputIndex i)"

definition reordered :: "transaction \<Rightarrow> transaction \<Rightarrow> bool" where
  "reordered tx tx' \<longleftrightarrow>
     mset (map outpoint (t_inputs tx')) = mset (map outpoint (t_inputs tx)) \<and> mset (t_outputs tx') = mset (t_outputs tx) \<and>
     t_inputAmount tx' = t_inputAmount tx \<and> t_outputAmount tx' = t_outputAmount tx \<and> t_fee tx' = t_fee tx \<and>
     (t_changeIndex tx' = None \<longleftrightarrow> t_changeIndex tx = None) \<and> (change_near tx \<longrightarrow> change_near tx')"

lemma reordered_trans: "reordered tx t \<Longrightarrow> reordered t tx' \<Longrightarrow> reordered tx tx'"
  by (auto simp: reordered_def)

text \<open>The outputs stay where they are.\<close>

definition same_outputs :: "transaction \<Rightarrow> transaction \<Rightarrow> bool" where
  "same_outputs tx tx' \<longleftrightarrow>
     t_outputs tx' = t_outputs tx \<and> t_outputAmount tx' = t_outputAmount tx \<and> t_changeIndex tx' = t_changeIndex tx \<and>
     t_changeScript tx' = t_changeScript tx"

lemma same_outputs_keeps:
  assumes "same_outputs tx tx'"
  shows "out_cache_ok tx \<Longrightarrow> out_cache_ok tx'" and "change_ok tx \<Longrightarrow> change_ok tx'" and "change_near tx \<Longrightarrow> change_near tx'"
    and "ready tx \<Longrightarrow> ready tx'"
  using assms by (simp_all add: same_outputs_def out_cache_ok_def change_ok_def change_near_def ready_def)

text \<open>Nothing moves but inputs, with the outputs they spend.\<close>

definition settled :: "transaction \<Rightarrow> transaction \<Rightarrow> bool" where
  "settled tx tx' \<longleftrightarrow>
     same_outputs tx tx' \<and> mset (map outpoint (t_inputs tx')) = mset (map outpoint (t_inputs tx)) \<and>
     t_inputAmount tx' = t_inputAmount tx \<and> t_fee tx' = t_fee tx"

lemma settled_refl [simp]: "settled tx tx"
  by (simp add: settled_def same_outputs_def)

lemma settled_trans: "settled tx t \<Longrightarrow> settled t tx' \<Longrightarrow> settled tx tx'"
  by (auto simp: settled_def same_outputs_def)

lemma settled_reordered: "settled tx tx' \<Longrightarrow> reordered tx tx'"
  by (auto simp: settled_def reordered_def same_outputs_def change_near_def)

lemma outpoints_mset:
  assumes "mset (map outpoint ins') = mset (map outpoint ins)"
  shows "mset (in_amounts ins') = mset (in_amounts ins)" and "known ins' = known ins" and "length ins' = length ins"
proof -
  have m: "mset (map (f \<circ> outpoint) ins') = mset (map (f \<circ> outpoint) ins)" for f :: "_ \<Rightarrow> 'b"
    using arg_cong [OF assms, of "image_mset f"] by (simp add: multiset.map_comp)
  show "mset (in_amounts ins') = mset (in_amounts ins)"
    using m [of "\<lambda>x. o_satoshis (the (fst x))"] by (simp add: in_amounts_def comp_def outpoint_def)
  have "set (map in_output ins') = set (map in_output ins)"
    using mset_eq_setD [OF m [of fst]] by (simp add: comp_def outpoint_def)
  moreover have "known xs \<longleftrightarrow> None \<notin> set (map in_output xs)" for xs
    by (induction xs) (auto simp: known_def)
  ultimately show "known ins' = known ins" by simp
  show "length ins' = length ins" using mset_eq_length [OF assms] by simp
qed

lemma coinbase_outpoint:
  assumes "mset (map outpoint (t_inputs tx')) = mset (map outpoint (t_inputs tx))"
  shows "Transaction_isCoinbase tx' = Transaction_isCoinbase tx"
proof -
  have l: "length (t_inputs tx') = length (t_inputs tx)" by (rule outpoints_mset(3) [OF assms])
  show ?thesis
  proof (cases "t_inputs tx")
    case (Cons i ins)
    then obtain j js where "t_inputs tx' = j # js" "length js = length ins" using l by (cases "t_inputs tx'") auto
    with Cons assms show ?thesis
      by (cases ins; cases js) (auto simp: Transaction_isCoinbase_def outpoint_def Input_isNull_def)
  qed (use l in \<open>simp add: Transaction_isCoinbase_def\<close>)
qed

lemma reordered_keeps:
  assumes "reordered tx tx'"
  shows "caches_ok tx \<Longrightarrow> caches_ok tx'" and "out_cache_ok tx \<Longrightarrow> out_cache_ok tx'" and "balanced tx \<Longrightarrow> balanced tx'"
proof -
  have ins: "mset (map outpoint (t_inputs tx')) = mset (map outpoint (t_inputs tx))"
    and outs: "mset (out_amounts (t_outputs tx')) = mset (out_amounts (t_outputs tx))"
    using assms by (simp_all add: reordered_def out_amounts_def)
  note m = outpoints_mset [OF ins]
  have am: "amount_of (in_amounts (t_inputs tx')) = amount_of (in_amounts (t_inputs tx))"
    "amount_of (out_amounts (t_outputs tx')) = amount_of (out_amounts (t_outputs tx))"
    using amount_perm [OF m(1)] amount_perm [OF outs] by auto
  show "caches_ok tx \<Longrightarrow> caches_ok tx'" "out_cache_ok tx \<Longrightarrow> out_cache_ok tx'"
    using assms by (simp_all add: caches_defs am m(2) reordered_def)
  have sums: "sum_list (in_amounts (t_inputs tx')) = sum_list (in_amounts (t_inputs tx))"
    "sum_list (out_amounts (t_outputs tx')) = sum_list (out_amounts (t_outputs tx))"
    using m(1) outs by (metis sum_mset_sum_list)+
  have "exact tx' = exact tx" "unspent tx' = unspent tx"
    using mset_eq_setD [OF m(1)] mset_eq_setD [OF outs] by (simp_all add: exact_def unspent_def sums m(2) list_all_iff)
  then show "balanced tx \<Longrightarrow> balanced tx'"
    using assms coinbase_outpoint [OF ins] by (auto simp: balanced_def reordered_def)
qed

lemma mset_sort_by [simp]: "mset (sort_by cmp xs) = mset xs"
proof -
  have "mset (insert_by cmp x ys) = add_mset x (mset ys)" for x ys by (induction ys) auto
  then show ?thesis by (induction xs) (simp_all add: sort_by_def)
qed

lemma clear_outpoint: "clear_inputs ins = (r, ins') \<Longrightarrow> map outpoint ins' = map outpoint ins"
  by (induction ins arbitrary: ins') (auto simp: outpoint_def split: prod.splits sum.splits dest: clear_one)

lemma inputs_settled: "map outpoint ins = map outpoint (t_inputs tx) \<Longrightarrow> settled tx (tx\<lparr>t_inputs := ins\<rparr>)"
  unfolding settled_def same_outputs_def by (simp del: mset_map)

lemma clear_settled: "Transaction_clearSignatures tx = (r, tx') \<Longrightarrow> settled tx tx'"
  by (auto simp: Transaction_clearSignatures_def split: prod.splits intro: inputs_settled dest: clear_outpoint)

lemma findIndex_ex:
  assumes "x \<in> set xs" and "P x"
  shows "0 \<le> findIndex P xs" and "findIndex P xs < int (length xs)" and "P (xs ! nat (findIndex P xs))"
proof -
  have "length (takeWhile (\<lambda>y. \<not> P y) xs) < length xs" using assms by (induction xs) auto
  then show "0 \<le> findIndex P xs" "findIndex P xs < int (length xs)" "P (xs ! nat (findIndex P xs))"
    using nth_length_takeWhile [of "\<lambda>y. \<not> P y" xs] by (simp_all add: findIndex_def Let_def)
qed

text \<open>Bytes that match, match as multisets.\<close>

lemma equalArrays_mset: "equalArrays (=) xs ys \<longleftrightarrow> mset xs \<subseteq># mset ys"
proof (induction xs arbitrary: ys)
  case (Cons x xs)
  show ?case
  proof (cases "List.extract ((=) x) ys")
    case None
    then have "x \<notin> set ys" by (auto simp: extract_None_iff)
    then show ?thesis using None by (auto simp: insert_subset_eq_iff)
  next
    case (Some p)
    then obtain us vs where p: "p = (us, x, vs)" "ys = us @ x # vs" by (cases p) (auto simp: extract_Some_iff)
    then show ?thesis using Some Cons.IH [of "us @ vs"] by (simp add: add.commute)
  qed
qed simp

lemma match_bytes: "out = change \<or> baseIsMatch change out \<Longrightarrow> mset (o_scriptBuffer change) \<subseteq># mset (o_scriptBuffer out)"
  by (auto simp: baseIsMatch_def equalArrays_mset)

lemma newOutputOrder_reordered:
  assumes "Transaction_newOutputOrder outs tx = (Inr (), tx')"
  shows "reordered tx tx'"
proof -
  have m: "mset outs = mset (t_outputs tx)" using assms by (auto simp: Transaction_newOutputOrder_def split: if_splits)
  then have set: "set outs = set (t_outputs tx)" by (rule mset_eq_setD)
  show ?thesis
  proof (cases "change_near tx \<and> t_changeIndex tx \<noteq> None")
    case True
    then obtain k s b where k: "t_changeIndex tx = Some k" "0 \<le> k" "k < int (length (t_outputs tx))"
      and s: "t_changeScript tx = Some s" "Script_toBuffer s = Inr b" "mset b \<subseteq># mset (o_scriptBuffer (t_outputs tx ! nat k))"
      by (auto simp: change_near_def)
    let ?change = "t_outputs tx ! nat k"
    let ?k = "findIndex (\<lambda>out. out = ?change \<or> baseIsMatch ?change out) outs"
    have tx': "tx' = tx\<lparr>t_changeIndex := Some ?k, t_outputs := outs\<rparr>"
      using assms m k by (simp add: Transaction_newOutputOrder_def Transaction_getChangeOutput_def)
    have "?change \<in> set outs" using set k by simp
    note f = findIndex_ex [OF this, of "\<lambda>out. out = ?change \<or> baseIsMatch ?change out", simplified]
    have "change_near tx'"
      using f(1,2) s match_bytes [OF f(3)] by (auto simp: tx' change_near_def intro: subset_mset.trans)
    with m k show ?thesis by (simp add: tx' reordered_def)
  next
    case False
    with assms m show ?thesis
      by (auto simp: Transaction_newOutputOrder_def reordered_def change_near_def Let_def split: option.splits)
  qed
qed

lemma sort_reordered:
  assumes "Transaction_sort tx = (Inr (), tx')"
  shows "reordered tx tx'"
proof -
  let ?t = "tx\<lparr>t_inputs := sort_by input_order (t_inputs tx)\<rparr>"
  from assms obtain t where t: "Transaction_clearSignatures ?t = (Inr (), t)"
    and tx': "Transaction_newOutputOrder (sort_by output_order (t_outputs t)) t = (Inr (), tx')"
    by (auto simp: Transaction_sort_def Transaction_sortInputs_def Transaction_sortOutputs_def tmodify_def elim!: tbind_InrE
        split: option.splits)
  have "reordered tx ?t" by (simp add: reordered_def change_near_def)
  with settled_reordered [OF clear_settled [OF t]] newOutputOrder_reordered [OF tx'] show ?thesis using reordered_trans by blast
qed

lemma add_outpoint: "Input_addSignature ec tx i ts = (r, j) \<Longrightarrow> outpoint j = outpoint i"
  by (auto simp: Input_addSignature_def MultiSig_addSignature_def MultiSig_updateScript_def set_script_def Input_setScript_def
      rbind_def outpoint_def Let_def split: input_kind.splits sum.splits)

lemma apply_settled: "Transaction_applySignature ec ts tx = (Inr (), tx') \<Longrightarrow> settled tx tx'"
  by (auto simp: Transaction_applySignature_def map_update dest!: add_outpoint intro!: inputs_settled
      split: if_splits prod.splits) (metis list_update_id map_update nth_map)

lemma apply_all_settled: "apply_signatures ec sigs tx = (Inr (), tx') \<Longrightarrow> settled tx tx'"
proof (induction sigs arbitrary: tx)
  case (Cons ts sigs)
  then obtain t where "Transaction_applySignature ec ts tx = (Inr (), t)" "apply_signatures ec sigs t = (Inr (), tx')"
    by (auto elim!: tbind_InrE)
  with Cons.IH apply_settled settled_trans show ?case by blast
qed (simp add: tret_def)

lemma contractdata_settled [simp]: "settled tx (tx\<lparr>contractdata := c\<rparr>)"
  by (simp add: settled_def same_outputs_def)

lemma signSmartContract_settled: "Transaction_signSmartContract ec k sigtype tx = (Inr (), tx') \<Longrightarrow> settled tx tx'"
  by (auto simp: Transaction_signSmartContract_def split: if_splits option.splits sum.splits)

lemma sign_settled:
  assumes "Transaction_sign ec k sigtype tx = (Inr (), tx')"
  shows "settled tx tx'"
proof -
  from assms obtain sigs t where t: "apply_signatures ec sigs tx = (Inr (), t)"
    and "tx' = t \<or> Transaction_signSmartContract ec k sigtype t = (Inr (), tx')"
    by (fastforce simp: Transaction_sign_def tlift_def tret_def elim!: tbind_InrE split: if_splits)
  then have "settled t tx'" by (auto dest: signSmartContract_settled)
  with apply_all_settled [OF t] show ?thesis by (rule settled_trans)
qed

lemma map_inputs_settled:
  "(\<And>i. outpoint (f i) = outpoint i) \<Longrightarrow> settled tx (tx\<lparr>t_inputs := map f (t_inputs tx)\<rparr>)"
  by (rule inputs_settled) simp

lemma locktime_settled [simp]: "settled tx (tx\<lparr>t_nLockTime := n\<rparr>)"
  by (simp add: settled_def same_outputs_def)

lemma lock_settled: "settled tx (set_lock n tx)"
proof -
  have "settled tx (tx\<lparr>t_inputs := map lock_input (t_inputs tx)\<rparr>)"
    by (rule map_inputs_settled) (simp add: lock_input_def outpoint_def)
  then show ?thesis
    using settled_trans locktime_settled [of "tx\<lparr>t_inputs := map lock_input (t_inputs tx)\<rparr>" "nat n"]
    by (simp add: set_lock_def)
qed

lemma rbf_settled: "Transaction_enableRBF tx = (Inr (), tx') \<Longrightarrow> settled tx tx'"
  by (auto simp: Transaction_enableRBF_def tmodify_def intro!: map_inputs_settled simp: outpoint_def)

section \<open>Transactions that are built\<close>

datatype 'k build_cmd =
    BFrom utxo_data "bytes list option" nat
  | BAddInput tx_input "script option" "int option"
  | BUncheckedAddInput tx_input
  | BTo addr_data int
  | BAddData bytes
  | BAddOutput tx_output
  | BChange addr_data
  | BFee int
  | BFeePerKb int
  | BClearOutputs
  | BRemoveOutput int
  | BRemoveInput string nat
  | BSort
  | BSortOutputs "tx_output list \<Rightarrow> tx_output list"
  | BLockUntilDate int
  | BLockUntilBlockHeight int
  | BEnableRBF
  | BSign 'k nat
  | BSetOutputs "tx_output list"

definition run_cmd :: "net_state \<Rightarrow> 'k ec_env \<Rightarrow> 'k build_cmd \<Rightarrow> unit tx_op" where
  "run_cmd st ec c =
     (case c of
        BFrom u ks n \<Rightarrow> Transaction_from (ecValid ec) st u ks n
      | BAddInput i s n \<Rightarrow> Transaction_addInput i s n
      | BUncheckedAddInput i \<Rightarrow> Transaction_uncheckedAddInput i
      | BTo a n \<Rightarrow> Transaction_to (ecValid ec) st a n
      | BAddData b \<Rightarrow> Transaction_addData b
      | BAddOutput out \<Rightarrow> Transaction_addOutput out
      | BChange a \<Rightarrow> Transaction_change (ecValid ec) st a
      | BFee n \<Rightarrow> Transaction_fee n
      | BFeePerKb n \<Rightarrow> Transaction_feePerKb n
      | BClearOutputs \<Rightarrow> Transaction_clearOutputs
      | BRemoveOutput k \<Rightarrow> Transaction_removeOutput k
      | BRemoveInput s n \<Rightarrow> Transaction_removeInput s n
      | BSort \<Rightarrow> Transaction_sort
      | BSortOutputs f \<Rightarrow> Transaction_sortOutputs f
      | BLockUntilDate n \<Rightarrow> Transaction_lockUntilDate n
      | BLockUntilBlockHeight n \<Rightarrow> Transaction_lockUntilBlockHeight n
      | BEnableRBF \<Rightarrow> Transaction_enableRBF
      | BSign k n \<Rightarrow> Transaction_sign ec k n
      | BSetOutputs outs \<Rightarrow> Transaction_setOutputs (ecValid ec) outs)"

text \<open>
  A new transaction and what successful calls make of it, where all the calls have the property \<open>ok\<close>.  Two kinds of
  calls are told apart: \<open>setOutputs\<close>, which replaces what the inputs spend, and the two that sort the outputs.
\<close>

inductive built :: "('c \<Rightarrow> bool) \<Rightarrow> ('c \<Rightarrow> unit tx_op) \<Rightarrow> transaction \<Rightarrow> bool" for ok run where
  built_new: "built ok run new_Transaction"
| built_step: "built ok run tx \<Longrightarrow> run c tx = (Inr (), tx') \<Longrightarrow> ok c \<Longrightarrow> built ok run tx'"

definition any_call :: "'k build_cmd \<Rightarrow> bool" where
  "any_call c = True"

definition no_setOutputs :: "'k build_cmd \<Rightarrow> bool" where
  "no_setOutputs c = (case c of BSetOutputs _ \<Rightarrow> False | _ \<Rightarrow> True)"

definition no_sorting :: "'k build_cmd \<Rightarrow> bool" where
  "no_sorting c = (case c of BSort \<Rightarrow> False | BSortOutputs _ \<Rightarrow> False | _ \<Rightarrow> True)"

lemmas call_defs = any_call_def no_setOutputs_def no_sorting_def

lemma built_mono: "built ok run tx \<Longrightarrow> (\<And>c. ok c \<Longrightarrow> ok' c) \<Longrightarrow> built ok' run tx"
  by (induction rule: built.induct) (auto intro: built.intros)

locale tx_machine =
  fixes ok :: "'c \<Rightarrow> bool"
    and run :: "'c \<Rightarrow> unit tx_op"
    and inv :: "transaction \<Rightarrow> bool"
  assumes inv_new: "inv new_Transaction"
    and inv_step: "inv tx \<Longrightarrow> ok c \<Longrightarrow> run c tx = (Inr (), tx') \<Longrightarrow> inv tx'"
begin

lemma built_inv: "built ok run tx \<Longrightarrow> inv tx"
  by (induction rule: built.induct) (auto intro: inv_new inv_step)

end

text \<open>Calls that end with an update of the change output.\<close>

definition updated :: "transaction \<Rightarrow> transaction \<Rightarrow> bool" where
  "updated tx tx' \<longleftrightarrow>
     (\<exists>t. (ready tx \<longrightarrow> ready t) \<and> (in_cache_ok tx \<longrightarrow> in_cache_ok t) \<and> Transaction_updateChangeOutput t = (Inr (), tx'))"

lemma updatedI:
  "Transaction_updateChangeOutput t = (Inr (), tx') \<Longrightarrow> (ready tx \<Longrightarrow> ready t) \<Longrightarrow> (in_cache_ok tx \<Longrightarrow> in_cache_ok t) \<Longrightarrow>
   updated tx tx'"
  by (auto simp: updated_def)

lemma updates:
  "Transaction_uncheckedAddInput i tx = (Inr (), tx') \<Longrightarrow> updated tx tx'"
  "Transaction_addOutput out tx = (Inr (), tx') \<Longrightarrow> updated tx tx'"
  "Transaction_change pkv st a tx = (Inr (), tx') \<Longrightarrow> updated tx tx'"
  "Transaction_fee n tx = (Inr (), tx') \<Longrightarrow> updated tx tx'"
  "Transaction_feePerKb n tx = (Inr (), tx') \<Longrightarrow> updated tx tx'"
  "Transaction_removeOutput k tx = (Inr (), tx') \<Longrightarrow> updated tx tx'"
  "Transaction_removeInput_at k tx = (Inr (), tx') \<Longrightarrow> updated tx tx'"
  by (auto simp: Transaction_uncheckedAddInput_def Transaction_addOutput_def Transaction_addOutput_plain_def
      Transaction_change_def Transaction_fee_def Transaction_feePerKb_def Transaction_removeOutput_def
      Transaction_removeOutput_at_def Transaction_removeInput_at_def tmodify_def tlift_def ready_def in_cache_ok_def out_cache_ok_def
      elim!: tbind_InrE intro!: updatedI split: if_splits)

lemma updates_output:
  "tbind (tlift r) Transaction_addOutput tx = (Inr (), tx') \<Longrightarrow> updated tx tx'"
  by (auto simp: tlift_def elim!: tbind_InrE dest: updates(2))

lemma updates_input:
  "Transaction_addInput i s n tx = (Inr (), tx') \<Longrightarrow> updated tx tx'"
  by (auto simp: Transaction_addInput_def tlift_def elim!: tbind_InrE dest: updates(1) split: option.splits)

lemma updates_from:
  "Transaction_from pkv st u ks n tx = (Inr (), tx') \<Longrightarrow> tx' = tx \<or> updated tx tx'"
  by (auto simp: Transaction_from_def Transaction_fromNonP2SH_def Transaction_fromMultisigUtxo_def tlift_def tret_def
      elim!: tbind_InrE dest: updates_input split: if_splits option.splits)

lemma updates_clearOutputs:
  assumes "Transaction_clearOutputs tx = (Inr (), tx')"
  shows "updated tx tx'"
proof -
  from assms obtain t where t: "Transaction_clearSignatures (tx\<lparr>t_outputs := []\<rparr>) = (Inr (), t)"
    and u: "Transaction_updateChangeOutput (t\<lparr>t_outputAmount := None, t_changeIndex := None\<rparr>) = (Inr (), tx')"
    by (auto simp: Transaction_clearOutputs_def tmodify_def elim!: tbind_InrE)
  from t obtain ins where "t = tx\<lparr>t_outputs := [], t_inputs := ins\<rparr>" "map in_output ins = map in_output (t_inputs tx)"
    by (auto elim!: clearSignaturesE)
  with in_amounts_cong [of ins "t_inputs tx"] u show ?thesis
    by (auto simp: ready_def in_cache_ok_def out_cache_ok_def intro!: updatedI)
qed

lemma setOutputs_same: "Transaction_setOutputs pkv outs tx = (r, tx') \<Longrightarrow> same_outputs tx tx'"
  by (auto simp: Transaction_setOutputs_def same_outputs_def split: prod.splits)

text \<open>Every call leaves the outputs alone, sorts them, or ends with an update of the change output.\<close>

lemma cmd_effect:
  assumes "run_cmd st ec c tx = (Inr (), tx')"
  obtains "settled tx tx'" | "updated tx tx'" | "\<not> no_sorting c" "reordered tx tx'" | "\<not> no_setOutputs c" "same_outputs tx tx'"
proof -
  have "settled tx tx' \<or> updated tx tx' \<or> \<not> no_sorting c \<and> reordered tx tx' \<or> \<not> no_setOutputs c \<and> same_outputs tx tx'"
  proof (cases c)
    case (BFrom u ks n)
    with assms updates_from [of "ecValid ec" st u ks n tx tx'] show ?thesis by (auto simp: run_cmd_def)
  next
    case (BSortOutputs f)
    with assms newOutputOrder_reordered show ?thesis by (auto simp: run_cmd_def Transaction_sortOutputs_def no_sorting_def)
  qed (use assms in \<open>auto simp: run_cmd_def Transaction_to_def Transaction_addData_def Transaction_removeInput_def
        Transaction_lockUntilDate_def Transaction_lockUntilBlockHeight_def lock_settled no_sorting_def no_setOutputs_def
        dest: updates updates_input updates_output updates_clearOutputs sort_reordered rbf_settled sign_settled setOutputs_same
        split: if_splits\<close>)
  then show thesis using that by blast
qed

lemma new_inv:
  "in_cache_ok new_Transaction" "out_cache_ok new_Transaction" "change_ok new_Transaction" "change_near new_Transaction"
  "balanced new_Transaction"
  by (simp_all add: in_cache_ok_def out_cache_ok_def change_ok_def change_near_def balanced_def new_Transaction_def)

text \<open>What all calls keep, what sorting alone can lose, and what \<open>setOutputs\<close> alone can lose.\<close>

interpretation any_builder: tx_machine any_call "run_cmd st ec" "\<lambda>tx. out_cache_ok tx \<and> change_near tx"
proof
  fix tx c tx'
  assume inv: "out_cache_ok tx \<and> change_near tx" and run: "run_cmd st ec c tx = (Inr (), tx')"
  from run show "out_cache_ok tx' \<and> change_near tx'"
  proof (rule cmd_effect)
    assume "updated tx tx'"
    with inv near_ready update_keeps show ?thesis unfolding updated_def by blast
  next
    assume "reordered tx tx'"
    with inv reordered_keeps(2) show ?thesis by (simp add: reordered_def)
  qed (use inv in \<open>auto simp: settled_def dest: same_outputs_keeps\<close>)
qed (simp add: new_inv)

interpretation unsorted_builder: tx_machine no_sorting "run_cmd st ec" "\<lambda>tx. ready tx \<and> change_ok tx"
proof
  fix tx c tx'
  assume inv: "ready tx \<and> change_ok tx" and c: "no_sorting c" and run: "run_cmd st ec c tx = (Inr (), tx')"
  from run show "ready tx' \<and> change_ok tx'"
  proof (rule cmd_effect)
    assume "updated tx tx'"
    with inv update_keeps near_ready show ?thesis unfolding updated_def by blast
  qed (use inv c in \<open>auto simp: settled_def dest: same_outputs_keeps\<close>)
qed (simp add: new_inv near_ready)

interpretation builder: tx_machine no_setOutputs "run_cmd st ec" "\<lambda>tx. caches_ok tx \<and> change_near tx \<and> balanced tx"
proof
  fix tx c tx'
  assume inv: "caches_ok tx \<and> change_near tx \<and> balanced tx" and c: "no_setOutputs c" and run: "run_cmd st ec c tx = (Inr (), tx')"
  from run show "caches_ok tx' \<and> change_near tx' \<and> balanced tx'"
  proof (rule cmd_effect)
    assume "updated tx tx'"
    then obtain t where t: "ready t" "in_cache_ok t" "Transaction_updateChangeOutput t = (Inr (), tx')"
      using inv near_ready by (auto simp: updated_def caches_ok_def)
    from update_keeps [OF t(3,1)] update_balanced [OF t] t(2) show ?thesis by (simp add: caches_ok_def)
  next
    assume "settled tx tx'"
    note r = settled_reordered [OF this]
    with inv reordered_keeps [OF r] show ?thesis by (simp add: reordered_def)
  next
    assume r: "reordered tx tx'"
    with inv reordered_keeps [OF r] show ?thesis by (simp add: reordered_def)
  qed (use c in simp)
qed (simp add: new_inv caches_ok_def)

end
