(* ===== verification/TxSafety.thy ===== *)
theory TxSafety
  imports TxProps
begin

text \<open>
  What the calls on a transaction guarantee: the amounts, the fee and the change of every transaction they build,
  what the checks before serialization and \<open>verify\<close> establish, and the inputs on which they go wrong.
\<close>

lemma update_outputs:
  assumes "Transaction_updateChangeOutput tx = (Inr (), tx')" and "t_changeScript tx = Some s"
  shows "\<exists>change. length change \<le> 1 \<and> t_outputs tx' = drop_change tx @ change"
  using assms
proof (rule updateE)
  fix t a b fee
  assume t: "t_outputs t = drop_change tx" and "num_sub (num_sub a b) fee \<le> 0 \<and> tx' = t\<lparr>t_changeIndex := None\<rparr> \<or>
     (\<exists>out. new_Output (SatNum (num_sub (num_sub a b) fee)) (ScrScript s) = Inr out \<and> 0 < num_sub (num_sub a b) fee \<and>
       tx' = t\<lparr>t_changeIndex := Some (int (length (t_outputs t))), t_outputs := t_outputs t @ [out], t_outputAmount := None\<rparr>)"
  then consider "t_outputs tx' = drop_change tx" | out where "t_outputs tx' = drop_change tx @ [out]" by auto
  then show ?thesis
  proof cases
    case 1
    then show ?thesis by (intro exI [of _ "[]"]) simp
  next
    case (2 out)
    then show ?thesis by (intro exI [of _ "[out]"]) simp
  qed
qed

lemma amounts_keep_inputs:
  "t_inputs (snd (Transaction_getInputAmount tx)) = t_inputs tx" "t_inputs (snd (Transaction_getOutputAmount tx)) = t_inputs tx"
  by (auto simp: Transaction_getInputAmount_def Transaction_getOutputAmount_def split: option.split prod.split)

lemma unspent_keeps_inputs: "t_inputs (snd (Transaction_getUnspentValue tx)) = t_inputs tx"
  using amounts_keep_inputs(1) [of tx] amounts_keep_inputs(2) [of "snd (Transaction_getInputAmount tx)"]
  by (auto simp: Transaction_getUnspentValue_def op_defs split: prod.splits sum.splits)

lemma fee_keeps_inputs: "t_inputs (snd (Transaction_getFee tx)) = t_inputs tx"
  using unspent_keeps_inputs [of tx]
  by (auto simp: Transaction_getFee_def Transaction_estimateFee_def op_defs split: prod.splits sum.splits option.split)

lemma update_outpoints:
  assumes "Transaction_updateChangeOutput tx = (Inr (), tx')"
  shows "map outpoint (t_inputs tx') = map outpoint (t_inputs tx)"
proof (cases "t_changeScript tx")
  case (Some s)
  with assms show ?thesis
  proof (rule update_steps)
    fix t1 t2 avail t3 fee t4
    assume t: "Transaction_clearSignatures tx = (Inr (), t1)" "Transaction_getUnspentValue t2 = (Inr avail, t3)"
      "Transaction_getFee t3 = (Inr fee, t4)"
      "(case t_changeIndex t1 of None \<Rightarrow> tret () t1 | Some k \<Rightarrow> Transaction_removeOutput_at k t1) = (Inr (), t2)"
      "num_sub avail fee \<le> 0 \<and> tx' = t4\<lparr>t_changeIndex := None\<rparr> \<or>
        (\<exists>out. new_Output (SatNum (num_sub avail fee)) (ScrScript s) = Inr out \<and> 0 < num_sub avail fee \<and>
          tx' = t4\<lparr>t_changeIndex := Some (int (length (t_outputs t4))), t_outputs := t_outputs t4 @ [out], t_outputAmount := None\<rparr>)"
    then have "map outpoint (t_inputs t1) = map outpoint (t_inputs tx)"
      by (auto simp: Transaction_clearSignatures_def split: prod.splits dest: clear_outpoint)
    moreover have "t_inputs t2 = t_inputs t1" using t(4)
      by (auto simp: op_defs Transaction_removeOutput_at_def split: option.splits)
    moreover have "t_inputs tx' = t_inputs t4" using t(5) by auto
    ultimately show ?thesis
      using unspent_keeps_inputs [of t2] fee_keeps_inputs [of t3] by (simp add: t(2,3))
  qed
qed (use assms in \<open>simp add: Transaction_updateChangeOutput_def tret_def\<close>)

section \<open>Properties\<close>

definition paid_input :: tx_input where
  "paid_input = (demo_input [])\<lparr>in_output := Some \<lparr>o_satoshis = 100000, o_satoshisBN = 100000, o_scriptBuffer = [], o_script = Some new_Script\<rparr>\<rparr>"

definition change_address :: address where
  "change_address = \<lparr>hashBuffer = replicate 20 7, a_network = livenet, a_type = PayToPublicKeyHash\<rparr>"

definition no_ec :: "unit ec_env" where
  "no_ec = \<lparr>ecPublicKey = (\<lambda>_. []), ecSign = (\<lambda>_ _. Inl (PlainError [])), ecVerify = (\<lambda>_ _ _. Inr False), ecParse = Inr,
     ecValid = (\<lambda>_. True)\<rparr>"

lemma fromAddress_p2pkh:
  assumes "length (hashBuffer a) = 20" and "a_type a = PayToPublicKeyHash"
  shows "Script_fromAddress a = Inr \<lparr>chunks = [op_chunk 118, op_chunk 169, data_chunk 20 (hashBuffer a) 20, op_chunk 136,
    op_chunk 172], s_isInput = False, s_isOutput = False, s_network = Some (a_network a)\<rparr>"
  using assms by (simp add: Script_fromAddress_def Script_buildPublicKeyHashOut_def adds_defs)

lemma change_script:
  obtains s b where "Script_fromAddress change_address = Inr s" and "Script_toBuffer s = Inr b"
  using fromAddress_p2pkh [of change_address] enc_p2pkh [of "hashBuffer change_address"]
  by (simp add: change_address_def)

text \<open>The methods that update the change output, on concrete states.\<close>

lemmas builder_defs =
  op_defs Transaction_updateChangeOutput_def Transaction_clearSignatures_def Input_clearSignatures_def set_script_def
  Input_setScript_def Transaction_getUnspentValue_def Transaction_getInputAmount_def Transaction_getOutputAmount_def
  sum_outputs_def num_add_def num_sub_def BN_toNumber_small Transaction_getFee_def Transaction_isCoinbase_def Input_isNull_def
  new_Output_def Output_set_satoshis_def check_def Output_setScript_def Transaction_addOutput_plain_def Let_def

lemma sample_built:
  "\<exists>tx k. built (\<lambda>c. no_setOutputs c \<and> no_sorting c) (run_cmd initial_networks no_ec) tx \<and> t_changeIndex tx = Some k \<and>
    t_fee tx = Some 10 \<and> exact tx \<and> \<not> Transaction_isCoinbase tx \<and> t_inputAmount tx = Some 100000 \<and> length (t_inputs tx) = 1"
proof -
  let ?ok = "\<lambda>c. no_setOutputs c \<and> no_sorting c" and ?run = "run_cmd initial_networks no_ec"
  obtain s b where s: "Script_fromAddress change_address = Inr s" "Script_toBuffer s = Inr b" by (rule change_script)
  let ?t1 = "new_Transaction\<lparr>t_fee := Some 10\<rparr>"
  have "?run (BFee 10) new_Transaction = (Inr (), ?t1)"
    by (simp add: run_cmd_def Transaction_fee_def op_defs Transaction_updateChangeOutput_def new_Transaction_def)
  then have 1: "built ?ok ?run ?t1" by (rule built_step [OF built_new]) (simp add: call_defs)
  let ?t2 = "?t1\<lparr>t_inputs := [paid_input]\<rparr>"
  have "?run (BUncheckedAddInput paid_input) ?t1 = (Inr (), ?t2)"
    by (simp add: run_cmd_def Transaction_uncheckedAddInput_def op_defs Transaction_updateChangeOutput_def new_Transaction_def)
  then have 2: "built ?ok ?run ?t2" by (rule built_step [OF 1]) (simp add: call_defs)
  have "\<exists>t3. ?run (BChange (AAddress change_address)) ?t2 = (Inr (), t3) \<and> t_changeIndex t3 = Some 0 \<and> t_fee t3 = Some 10 \<and>
    exact t3 \<and> \<not> Transaction_isCoinbase t3 \<and> t_inputAmount t3 = Some 100000 \<and> length (t_inputs t3) = 1"
    by (simp add: run_cmd_def Transaction_change_def new_Transaction_def new_Address_def s paid_input_def demo_input_def
        builder_defs exact_def known_def in_amounts_def out_amounts_def)
  then obtain t3 where t3: "?run (BChange (AAddress change_address)) ?t2 = (Inr (), t3)" "t_changeIndex t3 = Some 0"
    "t_fee t3 = Some 10" "exact t3" "\<not> Transaction_isCoinbase t3" "t_inputAmount t3 = Some 100000" "length (t_inputs t3) = 1"
    by blast
  have "built ?ok ?run t3" using t3(1) by (rule built_step [OF 2]) (simp add: call_defs)
  with t3 show ?thesis by blast
qed

text \<open>
  C12: In every transaction that successful calls have built, the cached output amount is that of the outputs, and the
  change index, when set, is the place of an output whose script has all the bytes of the change script.  When no
  call was \<open>setOutputs\<close>, the cached input amount is that of the inputs; when no call sorted the outputs, the change
  index is the place of an output with the change script itself.
\<close>
theorem built_consistent:
  "(built any_call (run_cmd st ec) tx \<longrightarrow>
     (\<forall>b. t_outputAmount tx = Some b \<longrightarrow> amount_of (out_amounts (t_outputs tx)) b) \<and> change_near tx) \<and>
   (built no_setOutputs (run_cmd st ec) tx \<longrightarrow>
     (\<forall>a. t_inputAmount tx = Some a \<longrightarrow> known (t_inputs tx) \<and> amount_of (in_amounts (t_inputs tx)) a)) \<and>
   (built no_sorting (run_cmd st ec) tx \<longrightarrow> change_ok tx)"
  using any_builder.built_inv [of st ec tx] builder.built_inv [of st ec tx] unsorted_builder.built_inv [of st ec tx]
  by (simp add: caches_defs)

theorem built_consistent_witness:
  "\<exists>tx k. t_changeIndex tx = Some k \<and> t_inputAmount tx = Some 100000 \<and>
    built any_call (run_cmd initial_networks no_ec) tx \<and> built no_setOutputs (run_cmd initial_networks no_ec) tx \<and>
    built no_sorting (run_cmd initial_networks no_ec) tx \<and>
    change_near tx \<and> change_ok tx \<and> amount_of (in_amounts (t_inputs tx)) 100000"
proof -
  obtain tx k where tx: "built (\<lambda>c. no_setOutputs c \<and> no_sorting c) (run_cmd initial_networks no_ec) tx"
    "t_changeIndex tx = Some k" "t_inputAmount tx = Some 100000" using sample_built by blast
  have "built any_call (run_cmd initial_networks no_ec) tx" "built no_setOutputs (run_cmd initial_networks no_ec) tx"
    "built no_sorting (run_cmd initial_networks no_ec) tx" using tx(1) by (auto intro: built_mono simp: any_call_def)
  with tx(2,3) built_consistent [of initial_networks no_ec tx] show ?thesis by blast
qed

text \<open>
  C9: In every transaction that successful calls other than \<open>setOutputs\<close> have built with a fixed fee and with a change
  output, and whose amounts are known and add up without rounding, the inputs minus the outputs are exactly the
  fee: the change takes all that is left.
\<close>
theorem built_balanced:
  assumes "built no_setOutputs (run_cmd st ec) tx" and "t_changeIndex tx = Some k" and "t_fee tx = Some f" and "0 \<le> f"
    and "exact tx"
  shows "sum_list (in_amounts (t_inputs tx)) - sum_list (out_amounts (t_outputs tx)) =
    (if Transaction_isCoinbase tx then 0 else f)"
  using builder.built_inv [OF assms(1)] assms(2-) by (simp add: balanced_def unspent_def)

theorem built_balanced_witness:
  "\<exists>tx. built no_setOutputs (run_cmd initial_networks no_ec) tx \<and>
    sum_list (in_amounts (t_inputs tx)) - sum_list (out_amounts (t_outputs tx)) = 10"
proof -
  obtain tx k where tx: "built (\<lambda>c. no_setOutputs c \<and> no_sorting c) (run_cmd initial_networks no_ec) tx"
    "t_changeIndex tx = Some k" "t_fee tx = Some 10"
    "exact tx" "\<not> Transaction_isCoinbase tx" using sample_built by blast
  have b: "built no_setOutputs (run_cmd initial_networks no_ec) tx" using tx(1) by (rule built_mono) simp
  from built_balanced [OF b tx(2,3) _ tx(4)] b tx(5) show ?thesis by auto
qed

section \<open>Calls that break what is built\<close>

lemma new_Input_output: "new_Input_from i = Inr j \<Longrightarrow> in_output j = in_output i"
  by (auto simp: new_Input_from_def Input_setScript_def rbind_eq_Inr split: option.splits)

lemma set_outputs_known:
  "set_outputs pkv ins outs = (Inr (), ins') \<Longrightarrow>
   length ins \<le> length outs \<and> map in_output ins' = map Some (take (length ins) outs)"
proof (induction pkv ins outs arbitrary: ins' rule: set_outputs.induct)
  case (3 pkv i ins out outs)
  then show ?case
    by (auto simp: Let_def rbind_eq_Inr dest!: new_Input_output split: sum.splits prod.splits if_splits)
qed simp_all

text \<open>
  C39: \<open>setOutputs\<close> replaces what the inputs spend and keeps the cached input amount: all that is computed from it
  afterwards, the unspent value included, is still that of the old outputs.
\<close>
theorem setOutputs_stale_amount:
  assumes "t_inputAmount tx = Some a" and "Transaction_setOutputs pkv outs tx = (Inr (), tx')"
  shows "in_amounts (t_inputs tx') = map o_satoshis (take (length (t_inputs tx)) outs) \<and>
    Transaction_getInputAmount tx' = (Inr a, tx') \<and>
    fst (Transaction_getUnspentValue tx') = fst (Transaction_getUnspentValue tx)"
proof -
  from assms(2) obtain ins where ins: "set_outputs pkv (t_inputs tx) outs = (Inr (), ins)" "tx' = tx\<lparr>t_inputs := ins\<rparr>"
    by (auto simp: Transaction_setOutputs_def split: prod.splits)
  have "map (\<lambda>i. o_satoshis (the (in_output i))) ins = map (\<lambda>x. o_satoshis (the x)) (map in_output ins)" by simp
  then have "in_amounts ins = map o_satoshis (take (length (t_inputs tx)) outs)"
    using set_outputs_known [OF ins(1)] by (simp add: in_amounts_def)
  with assms(1) ins(2) show ?thesis
    by (simp add: Transaction_getInputAmount_def Transaction_getUnspentValue_def Transaction_getOutputAmount_def op_defs
        split: option.split)
qed

definition sample_output :: "int \<Rightarrow> script \<Rightarrow> tx_output" where
  "sample_output n s = \<lparr>o_satoshis = n, o_satoshisBN = n, o_scriptBuffer = [], o_script = Some s\<rparr>"

theorem setOutputs_stale_amount_witness:
  "\<exists>tx. built any_call (run_cmd initial_networks no_ec) tx \<and> in_amounts (t_inputs tx) = [5] \<and>
    Transaction_getInputAmount tx = (Inr 100000, tx)"
proof -
  let ?run = "run_cmd initial_networks no_ec" and ?outs = "[sample_output 5 new_Script]"
  obtain tx where tx: "built (\<lambda>c. no_setOutputs c \<and> no_sorting c) ?run tx" "t_inputAmount tx = Some 100000" "length (t_inputs tx) = 1"
    using sample_built by blast
  have b: "built any_call ?run tx" using tx(1) by (rule built_mono) (simp add: any_call_def)
  from tx(3) obtain i where i: "t_inputs tx = [i]" by (auto simp: length_Suc_conv)
  obtain tx' where run: "Transaction_setOutputs (ecValid no_ec) ?outs tx = (Inr (), tx')"
    by (simp add: Transaction_setOutputs_def i sample_output_def script_of_def Script_isPublicKeyOut_def Script_isContractOut_def
        new_Script_def Script_toBuffer_eq)
  then have "built any_call ?run tx'"
    by (intro built_step [OF b, of "BSetOutputs ?outs"]) (simp_all add: run_cmd_def any_call_def)
  with setOutputs_stale_amount [OF tx(2) run] tx(3) show ?thesis by (auto simp: sample_output_def)
qed

text \<open>
  The new place of the change output is looked up by a match that ignores the order of bytes and spare bytes: an
  output with a matching script that stands first is taken for the change, and the next update removes that payment.
\<close>
theorem sortOutputs_drops_payment:
  assumes "t_changeIndex tx = Some (int k)" and "k < length (t_outputs tx)" and "t_changeScript tx = Some s"
    and "mset (pay # rest) = mset (t_outputs tx)" and "baseIsMatch (t_outputs tx ! k) pay"
    and "Transaction_sortOutputs (\<lambda>_. pay # rest) tx = (Inr (), tx')" and "Transaction_fee n tx' = (Inr (), tx'')"
  shows "t_changeIndex tx' = Some 0 \<and> (\<exists>change. length change \<le> 1 \<and> t_outputs tx'' = rest @ change)"
proof -
  have tx': "tx' = tx\<lparr>t_changeIndex := Some 0, t_outputs := pay # rest\<rparr>"
    using assms(1,2,4-6)
    by (auto simp: Transaction_sortOutputs_def Transaction_newOutputOrder_def Transaction_getChangeOutput_def findIndex_def)
  have "Transaction_updateChangeOutput (tx'\<lparr>t_fee := Some n\<rparr>) = (Inr (), tx'')"
    using assms(7) by (auto simp: Transaction_fee_def tmodify_def elim!: tbind_InrE)
  from update_outputs [OF this, of s] assms(3) show ?thesis by (simp add: tx' drop_change_def remove_at_def)
qed

text \<open>Two outputs of 50 to hashes of the same bytes in another order.\<close>

definition hash_script :: "bytes \<Rightarrow> script" where
  "hash_script h = \<lparr>chunks = [op_chunk 118, op_chunk 169, data_chunk 20 h 20, op_chunk 136, op_chunk 172],
     s_isInput = False, s_isOutput = False, s_network = Some livenet\<rparr>"

definition hash_output :: "bytes \<Rightarrow> tx_output" where
  "hash_output h = \<lparr>o_satoshis = 50, o_satoshisBN = 50, o_scriptBuffer = [118, 169, 20] @ h @ [136, 172],
     o_script = Some (mark_output (hash_script h))\<rparr>"

lemma hash_output_match: "mset h = mset p \<Longrightarrow> baseIsMatch (hash_output h) (hash_output p)"
  by (simp add: baseIsMatch_def hash_output_def hash_script_def mark_output_def equalScript_def equalChunk_def equalProp_def
      equalArrays_mset extract_Cons_code)

theorem sortOutputs_drops_payment_witness:
  "\<exists>tx tx' tx''. t_outputs tx = [hash_output (1 # replicate 19 7), hash_output (replicate 19 7 @ [1])] \<and> t_changeIndex tx = Some 0 \<and>
    Transaction_sortOutputs (\<lambda>_. [hash_output (replicate 19 7 @ [1]), hash_output (1 # replicate 19 7)]) tx = (Inr (), tx') \<and>
    Transaction_fee 10 tx' = (Inr (), tx'') \<and>
    (\<exists>change. length change \<le> 1 \<and> t_outputs tx'' = [hash_output (1 # replicate 19 7)] @ change)"
proof -
  let ?h = "1 # replicate 19 7" and ?p = "replicate 19 7 @ [1 :: byte]"
  obtain b where b: "Script_toBuffer (hash_script ?h) = Inr b"
    using enc_p2pkh [of ?h] by (simp add: hash_script_def)
  let ?tx = "new_Transaction\<lparr>t_inputs := [paid_input], t_changeScript := Some (hash_script ?h), t_changeIndex := Some (int 0),
    t_outputs := [hash_output ?h, hash_output ?p]\<rparr>"
  have match: "baseIsMatch (hash_output ?h) (hash_output ?p)" by (rule hash_output_match) simp
  have m: "mset [hash_output ?p, hash_output ?h] = mset (t_outputs ?tx)" by simp
  let ?tx' = "?tx\<lparr>t_outputs := [hash_output ?p, hash_output ?h]\<rparr>"
  have sort: "Transaction_sortOutputs (\<lambda>_. [hash_output ?p, hash_output ?h]) ?tx = (Inr (), ?tx')"
    using match by (simp add: Transaction_sortOutputs_def Transaction_newOutputOrder_def Transaction_getChangeOutput_def findIndex_def)
  obtain tx'' where fee: "Transaction_fee 10 ?tx' = (Inr (), tx'')"
    by (simp add: Transaction_fee_def Transaction_removeOutput_at_def remove_at_def new_Transaction_def paid_input_def demo_input_def
        hash_output_def b builder_defs)
  from sortOutputs_drops_payment [OF _ _ _ m _ sort fee, of 0] match sort fee show ?thesis
    by (intro exI [of _ ?tx] exI [of _ ?tx'] exI [of _ tx'']) simp
qed

text \<open>
  C40: Removing an output that stands before the change output also removes the output behind the change
  output, while the old change output stays: the position of the change is not corrected.
\<close>
theorem removeOutput_drops_payment:
  assumes "tx_inv tx" and "t_changeIndex tx = Some (int k)" and "j < k" and "Suc k < length (t_outputs tx)"
    and "Transaction_removeOutput (int j) tx = (Inr (), tx')"
  shows "\<exists>change. length change \<le> 1 \<and>
    t_outputs tx' = take j (t_outputs tx) @ take (k - j) (drop (Suc j) (t_outputs tx)) @ drop (Suc (Suc k)) (t_outputs tx) @ change"
proof -
  let ?outs = "t_outputs tx"
  let ?t = "tx\<lparr>t_outputs := remove_at (int j) ?outs, t_outputAmount := None\<rparr>"
  have u: "Transaction_updateChangeOutput ?t = (Inr (), tx')"
    using assms(5) by (auto simp: Transaction_removeOutput_def Transaction_removeOutput_at_def tmodify_def elim!: tbind_InrE)
  obtain s where s: "t_changeScript ?t = Some s" using assms(1,2) by (auto simp: tx_inv_def change_ok_def)
  from update_outputs [OF u s] obtain change where t: "length change \<le> 1" "t_outputs tx' = drop_change ?t @ change"
    by blast
  have "drop_change ?t = remove_at (int k) (remove_at (int j) ?outs)" using assms(2) by (simp add: drop_change_def)
  also have "\<dots> = take j ?outs @ take (k - j) (drop (Suc j) ?outs) @ drop (Suc (Suc k)) ?outs"
    using assms(3,4) by (auto simp: remove_at_def Suc_diff_le)
  finally show ?thesis using t by auto
qed

theorem removeOutput_drops_payment_witness:
  "\<exists>tx tx' s. t_outputs tx = [sample_output 1 new_Script, sample_output 50 (mark_output s), sample_output 700 new_Script] \<and>
    Transaction_removeOutput 0 tx = (Inr (), tx') \<and>
    (\<exists>change. t_outputs tx' = sample_output 50 (mark_output s) # change \<and> length change \<le> 1)"
proof -
  obtain s b where s: "Script_fromAddress change_address = Inr s" "Script_toBuffer s = Inr b" by (rule change_script)
  let ?tx = "new_Transaction\<lparr>t_fee := Some 10, t_inputs := [paid_input], t_changeScript := Some s, t_changeIndex := Some (int 1),
    t_outputs := [sample_output 1 new_Script, sample_output 50 (mark_output s), sample_output 700 new_Script]\<rparr>"
  have inv: "tx_inv ?tx"
    by (simp add: tx_inv_def caches_defs change_ok_def new_Transaction_def sample_output_def)
  obtain tx' where run: "Transaction_removeOutput (int 0) ?tx = (Inr (), tx')"
    by (simp add: Transaction_removeOutput_def Transaction_removeOutput_at_def remove_at_def new_Transaction_def paid_input_def
        demo_input_def sample_output_def s builder_defs)
  from removeOutput_drops_payment [OF inv _ _ _ run, of 1] run show ?thesis
    by (intro exI [of _ ?tx] exI [of _ tx'] exI [of _ s]) (auto simp: new_Transaction_def numeral_eq_Suc)
qed

text \<open>
  When an input has no output, \<open>inputAmount\<close> throws once and keeps the sum up to that input: asked again, it
  gives that sum as if it were the amount of all inputs.
\<close>
theorem inputAmount_partial:
  assumes "t_inputs tx = ins @ i # rest" and "known ins" and "in_output i = None" and "t_inputAmount tx = None"
  shows "Transaction_getInputAmount tx = (Inl MissingPreviousOutput, tx\<lparr>t_inputAmount := Some (num_sum (in_amounts ins))\<rparr>) \<and>
    Transaction_getInputAmount (tx\<lparr>t_inputAmount := Some (num_sum (in_amounts ins))\<rparr>)
      = (Inr (num_sum (in_amounts ins)), tx\<lparr>t_inputAmount := Some (num_sum (in_amounts ins))\<rparr>)"
proof -
  have "sum_inputs a (ins @ i # rest) = (Some MissingPreviousOutput, foldl num_add a (in_amounts ins))" for a
    using assms(2,3) by (induction ins arbitrary: a) (auto simp: known_def in_amounts_def)
  then show ?thesis using assms(1,4) by (simp add: Transaction_getInputAmount_def num_sum_def)
qed

theorem inputAmount_partial_witness:
  "fst (Transaction_getInputAmount (new_Transaction\<lparr>t_inputs := [paid_input, demo_input []]\<rparr>)) = Inl MissingPreviousOutput \<and>
   fst (Transaction_getInputAmount (snd (Transaction_getInputAmount (new_Transaction\<lparr>t_inputs := [paid_input, demo_input []]\<rparr>))))
     = Inr 100000"
  using inputAmount_partial [of "new_Transaction\<lparr>t_inputs := [paid_input, demo_input []]\<rparr>" "[paid_input]" "demo_input []" "[]"]
  by (simp add: known_def paid_input_def demo_input_def new_Transaction_def in_amounts_def num_sum_def num_add_def BN_toNumber_small)

text \<open>
  \<open>from\<close> recognizes an output that is already spent only by the names \<open>txId\<close> and \<open>outputIndex\<close>: an unspent
  output with the names of \<open>listunspent\<close> is added each time it is given.
\<close>
theorem from_listunspent_twice:
  assumes "u_txId u = None" and "Transaction_from pkv st u None 0 tx = (Inr (), tx')"
    and "Transaction_from pkv st u None 0 tx' = (Inr (), tx'')"
  shows "\<exists>i. map outpoint (t_inputs tx'') = map outpoint (t_inputs tx) @ [outpoint i, outpoint i]"
proof -
  obtain i where i: "map outpoint (t_inputs t') = map outpoint (t_inputs t) @ [outpoint i]"
    if "Transaction_from pkv st u None 0 t = (Inr (), t')" for t t'
  proof -
    let ?r = "rbind (new_UnspentOutput pkv st u) (\<lambda>u. utxo_input u
      (if Script_isPublicKeyHashOut (uo_script u) then KPublicKeyHash
       else if Script_isPublicKeyOut pkv (uo_script u) then KPublicKey else KInput))"
    have from_eq: "Transaction_from pkv st u None 0 t = tbind (tlift ?r) (\<lambda>i. Transaction_addInput i None None) t" for t
      using assms(1) by (simp add: Transaction_from_def Transaction_fromNonP2SH_def)
    with assms(2) obtain i where i: "?r = Inr i" by (cases ?r) (auto simp: op_defs)
    have "map outpoint (t_inputs t') = map outpoint (t_inputs t) @ [outpoint i]"
      if "Transaction_from pkv st u None 0 t = (Inr (), t')" for t t'
      using that by (auto simp: from_eq i tlift_def tbind_def Transaction_addInput_def Transaction_uncheckedAddInput_def tmodify_def
          dest: update_outpoints split: option.splits)
    with that show thesis by blast
  qed
  from i [OF assms(2)] i [OF assms(3)] show ?thesis by auto
qed

definition listed_utxo :: utxo_data where
  "listed_utxo = \<lparr>u_address = None, u_txid = Some (hexSlice (replicate 32 1)), u_txId = None, u_vout = Some 3, u_outputIndex = None,
     u_scriptPubKey = Some (ScrBuffer []), u_script = None, u_satoshis = Some 700\<rparr>"

theorem from_listunspent_twice_witness:
  "\<exists>tx' tx'' i. Transaction_from (\<lambda>_. True) initial_networks listed_utxo None 0 new_Transaction = (Inr (), tx') \<and>
    Transaction_from (\<lambda>_. True) initial_networks listed_utxo None 0 tx' = (Inr (), tx'') \<and>
    map outpoint (t_inputs tx'') = [outpoint i, outpoint i]"
proof -
  let ?from = "Transaction_from (\<lambda>_. True) initial_networks listed_utxo None 0"
  have isH: "isHexa (hexSlice (replicate 32 1))" by (rule isHexa_hexSlice) simp
  then have ne: "hexSlice (replicate 32 1) \<noteq> []" by (simp add: isHexa_def)
  have "\<exists>t'. ?from t = (Inr (), t') \<and> t_changeScript t' = None" if "t_changeScript t = None" for t
    using that isH ne
    by (simp add: Transaction_from_def Transaction_fromNonP2SH_def listed_utxo_def new_UnspentOutput_def truthy_str_def or_else_def
        first_of_def new_Script_from_def check_def length_hexSlice utxo_input_def new_Output_def Output_set_satoshis_def
        Output_setScript_def Input_setScript_def op_defs Transaction_addInput_def Transaction_uncheckedAddInput_def
        Transaction_updateChangeOutput_def)
  moreover have "t_changeScript new_Transaction = None" by (simp add: new_Transaction_def)
  ultimately obtain tx' tx'' where t: "?from new_Transaction = (Inr (), tx')" "?from tx' = (Inr (), tx'')" by metis
  from from_listunspent_twice [OF _ t] t show ?thesis by (simp add: listed_utxo_def new_Transaction_def)
qed

section \<open>Checks\<close>

definition all_checks :: ser_opts where
  "all_checks = \<lparr>disableAll = False, disableSmallFees = False, disableLargeFees = False, disableIsFullySigned = False,
     disableDustOutputs = False, disableMoreOutputThanInput = False\<rparr>"

lemma dust_outputs_None:
  "dust_outputs outs = Inr None \<Longrightarrow> out \<in> set outs \<Longrightarrow> 546 \<le> o_satoshis out \<or> (\<exists>s. o_script out = Some s \<and> Script_isDataOut s)"
  by (induction outs) (auto simp: script_of_def rbind_eq_Inr split: if_splits option.splits)

lemma all_ok_True: "all_ok f xs = Inr True \<Longrightarrow> x \<in> set xs \<Longrightarrow> f x = Inr True"
  by (induction xs) (auto simp: rbind_eq_Inr)

text \<open>A transaction with its caches filled.\<close>

abbreviation cached :: "transaction \<Rightarrow> int \<Rightarrow> int \<Rightarrow> transaction" where
  "cached tx a b \<equiv> tx\<lparr>t_inputAmount := Some a, t_outputAmount := Some b\<rparr>"

lemma toBuffer_cached: "Transaction_toBuffer (cached tx a b) = Transaction_toBuffer tx"
proof -
  have "Transaction_WriteExtra w (cached tx a b) f = Transaction_WriteExtra w tx f" for w f
    unfolding Transaction_WriteExtra_def Transaction_IsSmartContract_def by simp
  then show ?thesis by (simp add: Transaction_toBuffer_def Transaction_toBufferWriter_def)
qed

lemma unspent_cached: "Transaction_getUnspentValue (cached tx a b) = (Inr (num_sub a b), cached tx a b)"
  by (simp add: Transaction_getUnspentValue_def Transaction_getInputAmount_def Transaction_getOutputAmount_def op_defs)

lemma estimate_cached:
  "Transaction_estimateFee (cached tx a b) =
     (rbind (Transaction_estimateSize tx) (\<lambda>n. Inr (estimateFee n (num_sub a b) (t_feePerKb tx))), cached tx a b)"
proof -
  have "Transaction_estimateSize (cached tx a b) = Transaction_estimateSize tx" by (simp add: Transaction_estimateSize_def)
  then show ?thesis
    by (cases "Transaction_estimateSize tx") (simp_all add: Transaction_estimateFee_def op_defs unspent_cached)
qed

lemma feeError_cached:
  assumes "Transaction_hasFeeError all_checks u (cached tx a b) = (Inr None, t)"
  shows "t = cached tx a b" and "t_fee tx = None \<or> t_fee tx = Some u"
    and "\<exists>n. Transaction_estimateSize tx = Inr n \<and> u \<le> num_mul 150 (estimateFee n (num_sub a b) (t_feePerKb tx)) \<and>
      - (- estimateFee n (num_sub a b) (t_feePerKb tx) div 150) \<le> u"
  using assms
  by (auto simp: Transaction_hasFeeError_def all_checks_def op_defs estimate_cached rbind_def
      split: if_splits sum.splits)

lemma unspent_exact:
  assumes "caches_ok tx" and "exact tx" and "Transaction_getUnspentValue tx = (Inr u, t)"
  obtains a b where "t = cached tx a b" and "u = unspent tx" and "num_sub a b = unspent tx"
proof -
  from unspentE [OF assms(3)] assms(1) obtain a b where t: "t = cached tx a b" "u = num_sub a b" "caches_ok t"
    unfolding caches_ok_def by metis
  then have "a = sum_list (in_amounts (t_inputs tx))" "b = sum_list (out_amounts (t_outputs tx))"
    using assms(2) by (auto simp: caches_defs exact_def intro: amount_exact)
  moreover have "0 \<le> sum_list (in_amounts (t_inputs tx))" "0 \<le> sum_list (out_amounts (t_outputs tx))"
    using assms(2) by (auto simp: exact_def list_all_iff intro: sum_list_nonneg)
  ultimately have "num_sub a b = unspent tx"
    using assms(2) by (auto simp: num_sub_def unspent_def exact_def abs_le_iff intro!: BN_toNumber_small)
  with t that show thesis by simp
qed

lemma serializationError_None:
  assumes "Transaction_getSerializationError all_checks tx = (Inr None, t)" and "caches_ok tx" and "exact tx"
  shows "\<exists>a b n. t = cached tx a b \<and> 0 \<le> unspent tx \<and> (t_fee tx = None \<or> t_fee tx = Some (unspent tx)) \<and>
    Transaction_estimateSize tx = Inr n \<and>
    unspent tx \<le> num_mul 150 (estimateFee n (unspent tx) (t_feePerKb tx)) \<and>
    - (- estimateFee n (unspent tx) (t_feePerKb tx) div 150) \<le> unspent tx \<and>
    \<not> Transaction_invalidSatoshis tx \<and> dust_outputs (t_outputs tx) = Inr None \<and> Transaction_isFullySigned tx = Inr True"
proof -
  from assms(1) obtain u t1 where u: "Transaction_getUnspentValue tx = (Inr u, t1)" and sat: "\<not> Transaction_invalidSatoshis tx"
    by (auto simp: Transaction_getSerializationError_def tret_def elim!: tbind_InrE split: if_splits)
  from assms(2,3) u obtain a b where t1: "t1 = cached tx a b" "u = unspent tx" "num_sub a b = unspent tx"
    by (rule unspent_exact)
  from assms(1) u sat obtain e t2 where
    e: "(if u < 0 then tret (if disableMoreOutputThanInput all_checks then None else Some InvalidOutputAmountSum)
         else Transaction_hasFeeError all_checks u) (cached tx a b) = (Inr e, t2)"
    and rest: "(if e \<noteq> None then tret e
        else (\<lambda>tx. tbind (tlift (Transaction_hasDustOutputs all_checks tx)) (\<lambda>e.
            if e \<noteq> None then tret e else (\<lambda>tx. tlift (Transaction_isMissingSignatures all_checks tx) tx)) tx)) t2 = (Inr None, t)"
    unfolding Transaction_getSerializationError_def t1(1) by (auto elim!: tbind_InrE)
  from rest have none: "e = None" by (auto simp: tret_def split: if_splits)
  with rest have dust: "Transaction_hasDustOutputs all_checks t2 = Inr None"
    and sig: "Transaction_isMissingSignatures all_checks t2 = Inr None" and t: "t = t2"
    by (auto simp: op_defs split: if_splits sum.splits)
  from e none have nonneg: "0 \<le> u" and fee: "Transaction_hasFeeError all_checks u (cached tx a b) = (Inr None, t2)"
    by (auto simp: all_checks_def tret_def split: if_splits)
  note f = feeError_cached [OF fee]
  have "dust_outputs (t_outputs tx) = Inr None"
    using dust by (simp add: f(1) Transaction_hasDustOutputs_def all_checks_def)
  moreover have "Transaction_isFullySigned tx = Inr True"
    using sig by (auto simp: f(1) Transaction_isMissingSignatures_def all_checks_def Transaction_isFullySigned_def rbind_eq_Inr
        split: if_splits)
  ultimately show ?thesis using f t t1(2,3) nonneg sat by auto
qed

text \<open>
  C10: A transaction that calls other than \<open>setOutputs\<close> have built, whose amounts are known and add up without
  rounding, and that is serialized with all checks, has amounts in range and outputs that the inputs cover, pays the fixed
  fee if there is one and in any case a fee within a factor of 150 of the estimate, has no dust, and has all
  its inputs signed.
\<close>
theorem checkedSerialize_safe:
  assumes "built no_setOutputs (run_cmd st ec) tx" and "exact tx" and "Transaction_checkedSerialize all_checks tx = (Inr hex, tx')"
  shows "Transaction_uncheckedSerialize tx = Inr hex \<and>
    sum_list (out_amounts (t_outputs tx)) \<le> sum_list (in_amounts (t_inputs tx)) \<and>
    (t_fee tx = None \<or> t_fee tx = Some (unspent tx)) \<and>
    (\<exists>n est. Transaction_estimateSize tx = Inr n \<and> est = estimateFee n (unspent tx) (t_feePerKb tx) \<and>
      unspent tx \<le> num_mul 150 est \<and> - (- est div 150) \<le> unspent tx) \<and>
    (\<forall>out \<in> set (t_outputs tx). Output_invalidSatoshis out = None \<and>
      (546 \<le> o_satoshis out \<or> (\<exists>s. o_script out = Some s \<and> Script_isDataOut s))) \<and>
    (\<forall>i \<in> set (t_inputs tx). Input_isFullySigned i = Inr True)"
proof -
  have "caches_ok tx" using builder.built_inv [OF assms(1)] by simp
  moreover from assms(3) obtain t where t: "Transaction_getSerializationError all_checks tx = (Inr None, t)"
    and hex: "Transaction_uncheckedSerialize t = Inr hex"
    by (auto simp: Transaction_checkedSerialize_def tlift_def elim!: tbind_InrE split: option.splits)
  ultimately obtain a b n where s: "t = cached tx a b" "0 \<le> unspent tx" "t_fee tx = None \<or> t_fee tx = Some (unspent tx)"
    "Transaction_estimateSize tx = Inr n" "unspent tx \<le> num_mul 150 (estimateFee n (unspent tx) (t_feePerKb tx))"
    "- (- estimateFee n (unspent tx) (t_feePerKb tx) div 150) \<le> unspent tx" "\<not> Transaction_invalidSatoshis tx"
    "dust_outputs (t_outputs tx) = Inr None" "Transaction_isFullySigned tx = Inr True"
    using serializationError_None [OF t _ assms(2)] by blast
  have "Transaction_uncheckedSerialize tx = Inr hex" using hex by (simp add: s(1) Transaction_uncheckedSerialize_def toBuffer_cached)
  moreover have "Input_isFullySigned i = Inr True" if "i \<in> set (t_inputs tx)" for i
    using s(9) that by (auto simp: Transaction_isFullySigned_def dest: all_ok_True split: if_splits)
  ultimately show ?thesis
    using s dust_outputs_None [OF s(8)] by (auto simp: unspent_def Transaction_invalidSatoshis_def list_ex_iff)
qed

definition contract_input :: tx_input where
  "contract_input = (demo_input [])\<lparr>in_kind := KContact, in_output := Some (sample_output 200000 new_Script)\<rparr>"

theorem checkedSerialize_safe_witness:
  "\<exists>tx hex tx'. built no_setOutputs (run_cmd initial_networks no_ec) tx \<and> Transaction_checkedSerialize all_checks tx = (Inr hex, tx') \<and>
    (\<forall>i \<in> set (t_inputs tx). Input_isFullySigned i = Inr True)"
proof -
  let ?run = "run_cmd initial_networks no_ec"
  let ?t1 = "new_Transaction\<lparr>t_inputs := [contract_input]\<rparr>"
  let ?t2 = "?t1\<lparr>t_outputs := [sample_output 100000 new_Script]\<rparr>"
  have "?run (BUncheckedAddInput contract_input) new_Transaction = (Inr (), ?t1)"
    by (simp add: run_cmd_def Transaction_uncheckedAddInput_def op_defs Transaction_updateChangeOutput_def new_Transaction_def)
  then have 1: "built no_setOutputs ?run ?t1" by (rule built_step [OF built_new]) (simp add: call_defs)
  have "?run (BAddOutput (sample_output 100000 new_Script)) ?t1 = (Inr (), ?t2)"
    by (simp add: run_cmd_def Transaction_addOutput_def Transaction_addOutput_plain_def op_defs Transaction_updateChangeOutput_def
        new_Transaction_def)
  then have 2: "built no_setOutputs ?run ?t2" by (rule built_step [OF 1]) (simp add: call_defs)
  have ex: "exact ?t2"
    by (simp add: exact_def known_def in_amounts_def out_amounts_def contract_input_def sample_output_def)
  have ok: "tx_ok ?t2"
    by (simp add: tx_ok_defs contract_input_def demo_input_def sample_output_def new_Transaction_def)
  have "Transaction_getSerializationError all_checks ?t2 = (Inr None, cached ?t2 200000 100000)"
    by (simp add: Transaction_getSerializationError_def Transaction_invalidSatoshis_def Output_invalidSatoshis_def builder_defs
        all_checks_def Transaction_hasFeeError_def Transaction_estimateFee_def Transaction_estimateSize_def estimateFee_def
        size_fee_def num_mul_def Input_estimateSize_def script_of_def contract_input_def sample_output_def demo_input_def
        new_Transaction_def Transaction_hasDustOutputs_def Transaction_isMissingSignatures_def Transaction_isFullySigned_def
        Input_isFullySigned_def)
  then have "Transaction_checkedSerialize all_checks ?t2 = (Inr (hexSlice (tx_bytes ?t2)), cached ?t2 200000 100000)"
    using Transaction_toBuffer_ok [OF ok]
    by (simp add: Transaction_checkedSerialize_def op_defs Transaction_uncheckedSerialize_def toBuffer_cached)
  with checkedSerialize_safe [OF 2 ex this] 2 show ?thesis by blast
qed

lemma duplicate_input_None:
  "duplicate_input n seen ins = None \<Longrightarrow> distinct (map input_key ins) \<and> set (map input_key ins) \<inter> seen = {}"
proof (induction ins arbitrary: n seen)
  case (Cons i ins)
  from Cons.prems have new: "input_key i \<notin> seen" and "duplicate_input (Suc n) (insert (input_key i) seen) ins = None"
    by (auto split: if_splits)
  from Cons.IH [OF this(2)] new show ?case by auto
qed simp

lemma null_input_None: "null_input n ins = None \<Longrightarrow> i \<in> set ins \<Longrightarrow> \<not> Input_isNull i"
  by (induction ins arbitrary: n) (auto split: if_splits)

lemma verify_outputs_None:
  "verify_outputs n v outs = None \<Longrightarrow> v \<le> 2100000000000000 \<Longrightarrow>
   v + sum_list (map o_satoshisBN outs) \<le> 2100000000000000 \<and> (\<forall>out \<in> set outs. Output_invalidSatoshis out = None)"
proof (induction outs arbitrary: n v)
  case (Cons out outs)
  from Cons.prems have ok: "Output_invalidSatoshis out = None" "v + o_satoshisBN out \<le> 2100000000000000"
    and "verify_outputs (Suc n) (v + o_satoshisBN out) outs = None" by (auto split: if_splits)
  from Cons.IH [OF this(3) ok(2)] ok show ?case by (simp add: add.assoc)
qed simp

text \<open>
  C11: A transaction that passes \<open>verify\<close> has inputs and outputs, spends at most all the money there is, fits in a
  block, spends no outpoint twice, and is a coinbase with a script of 2 to 100 bytes or has no null input.
\<close>
theorem verify_accepts:
  assumes "Transaction_verify tx = Inr None"
  shows "t_inputs tx \<noteq> [] \<and> t_outputs tx \<noteq> [] \<and> sum_list (map o_satoshisBN (t_outputs tx)) \<le> 2100000000000000 \<and>
    (\<forall>out \<in> set (t_outputs tx). Output_invalidSatoshis out = None) \<and>
    (\<exists>b. Transaction_toBuffer tx = Inr b \<and> length b \<le> 1000000) \<and>
    distinct (map (\<lambda>i. (prevTxId i, outputIndex i)) (t_inputs tx)) \<and>
    (if Transaction_isCoinbase tx
     then 2 \<le> length (in_scriptBuffer (t_inputs tx ! 0)) \<and> length (in_scriptBuffer (t_inputs tx ! 0)) \<le> 100
     else \<forall>i \<in> set (t_inputs tx). \<not> Input_isNull i)"
proof -
  have ne: "t_inputs tx \<noteq> []" "t_outputs tx \<noteq> []" and out: "verify_outputs 0 0 (t_outputs tx) = None"
    using assms by (auto simp: Transaction_verify_def split: if_splits option.splits)
  from assms ne out obtain b where b: "Transaction_toBuffer tx = Inr b" "length b \<le> 1000000"
    and dup: "duplicate_input 0 {} (t_inputs tx) = None"
    and last: "(if Transaction_isCoinbase tx then
                 (let n = length (in_scriptBuffer (t_inputs tx ! 0)) in
                  if n < 2 \<or> n > 100 then Some ''coinbase transaction script size invalid'' else None)
               else
                 (case null_input 0 (t_inputs tx) of
                    Some i \<Rightarrow> Some (''transaction input '' @ dec_string i @ '' has null input'')
                  | None \<Rightarrow> None)) = None"
    by (auto simp: Transaction_verify_def rbind_eq_Inr not_less split: if_splits option.splits)
  have "distinct (map input_key (t_inputs tx))" using duplicate_input_None [OF dup] by simp
  then have "distinct (map (\<lambda>i. (prevTxId i, outputIndex i)) (t_inputs tx))"
    by (auto simp: distinct_map input_key_def inj_on_def)
  with ne b last verify_outputs_None [OF out] null_input_None show ?thesis
    by (auto simp: Let_def not_less split: if_splits option.splits)
qed

definition two_inputs :: "byte \<Rightarrow> byte \<Rightarrow> transaction" where
  "two_inputs x y = new_Transaction\<lparr>t_inputs := [(demo_input [])\<lparr>prevTxId := replicate 32 x\<rparr>, (demo_input [])\<lparr>prevTxId := replicate 32 y\<rparr>],
     t_outputs := [sample_output 700 new_Script]\<rparr>"

lemma two_inputs_bytes: "\<exists>b. Transaction_toBuffer (two_inputs x y) = Inr b \<and> length b \<le> 1000000"
proof -
  have "tx_ok (two_inputs x y)"
    by (simp add: tx_ok_defs two_inputs_def demo_input_def sample_output_def new_Transaction_def)
  moreover have "length (tx_bytes (two_inputs x y)) \<le> 1000000"
    by (simp add: tx_byte_defs two_inputs_def demo_input_def sample_output_def new_Transaction_def Transaction_IsSmartContract_def)
  ultimately show ?thesis by (simp add: Transaction_toBuffer_ok)
qed

theorem verify_accepts_witness:
  "Transaction_verify (two_inputs 1 2) = Inr None \<and>
   distinct (map (\<lambda>i. (prevTxId i, outputIndex i)) (t_inputs (two_inputs 1 2)))"
proof -
  have key: "input_key j \<noteq> input_key i"
    if "prevTxId i = replicate 32 1" "prevTxId j = replicate 32 2" for i j
    using that by (simp add: input_key_def utf8Slice_ascii list_all_iff)
  have "Transaction_verify (two_inputs 1 2) = Inr None"
    using two_inputs_bytes [of 1 2] key [of "t_inputs (two_inputs 1 2) ! 0" "t_inputs (two_inputs 1 2) ! 1"]
    by (auto simp: Transaction_verify_def two_inputs_def demo_input_def sample_output_def Output_invalidSatoshis_def
        BN_toNumber_small Transaction_isCoinbase_def Input_isNull_def)
  with verify_accepts [of "two_inputs 1 2"] show ?thesis by blast
qed

text \<open>
  \<open>verify\<close> compares the ids of the spent transactions as UTF-8 text, in which every byte that is not valid
  becomes the same character: inputs that spend different transactions are reported as duplicates.
\<close>
theorem verify_false_duplicate:
  assumes "t_inputs tx = i # j # ins" and "outputIndex j = outputIndex i" and "length (prevTxId j) = length (prevTxId i)"
    and "list_all (\<lambda>b. 0x80 \<le> unat b \<and> unat b \<le> 0xBF) (prevTxId i @ prevTxId j)"
    and "t_outputs tx \<noteq> []" and "verify_outputs 0 0 (t_outputs tx) = None"
    and "Transaction_toBuffer tx = Inr b" and "length b \<le> 1000000"
  shows "Transaction_verify tx = Inr (Some ''transaction input 1 duplicate input'')"
proof -
  have "input_key j = input_key i"
    using assms(2-4) by (simp add: input_key_def utf8Slice_stray)
  moreover have "dec_string 1 = ''1''" by code_simp
  ultimately show ?thesis using assms by (simp add: Transaction_verify_def)
qed

theorem verify_false_duplicate_witness:
  "prevTxId (t_inputs (two_inputs 0x80 0x81) ! 0) \<noteq> prevTxId (t_inputs (two_inputs 0x80 0x81) ! 1) \<and>
   Transaction_verify (two_inputs 0x80 0x81) = Inr (Some ''transaction input 1 duplicate input'')"
proof -
  obtain b where "Transaction_toBuffer (two_inputs 0x80 0x81) = Inr b" "length b \<le> 1000000"
    using two_inputs_bytes by blast
  then show ?thesis
    using verify_false_duplicate [of "two_inputs 0x80 0x81" "(demo_input [])\<lparr>prevTxId := replicate 32 0x80\<rparr>"
        "(demo_input [])\<lparr>prevTxId := replicate 32 0x81\<rparr>" "[]" b]
    by (simp add: two_inputs_def demo_input_def sample_output_def Output_invalidSatoshis_def BN_toNumber_small list_all_iff)
qed

end
