(* ===== verification/TxSign.thy ===== *)
theory TxSign
  imports InterpreterProps TxSafety
begin

text \<open>
  Signing and verification together: the transaction as the interpreter sees it, and that what \<open>sign\<close> produces for
  public key hash outputs is accepted by the interpreter, for any \<open>ec_env\<close> that signs the hashes of the inputs.  The theory
  \<open>TxEcdsa\<close> shows that the ECDSA of the SDK is such an \<open>ec_env\<close>.
\<close>

definition Input_isFinal :: "tx_input \<Rightarrow> bool" where
  "Input_isFinal i \<longleftrightarrow> sequenceNumber i \<noteq> 4294967295"

text \<open>What the interpreter asks of the transaction when it verifies the input \<open>nin\<close>.\<close>

definition interp_env :: "'k ec_env \<Rightarrow> transaction \<Rightarrow> nat \<Rightarrow> tx_env" where
  "interp_env ec tx nin =
     \<lparr>pkvalid = ecValid ec,
      verifySignature = (\<lambda>s pub subscript. Sighash_verify ec tx s pub nin subscript),
      nLockTime = t_nLockTime tx,
      inputIsFinal = (if nin < length (t_inputs tx) then Inr (Input_isFinal (t_inputs tx ! nin))
                      else Inl (TypeError ''Cannot read property of undefined''))\<rparr>"

section \<open>The signed hash does not depend on the scripts of the inputs\<close>

definition unsigned :: "tx_input \<Rightarrow> bytes \<times> nat \<times> nat" where
  "unsigned i = (prevTxId i, outputIndex i, sequenceNumber i)"

lemma message_unsigned:
  assumes "map unsigned ins = map unsigned (t_inputs tx)" and "n < length ins"
  shows "sighash_message ht n sb (tx\<lparr>t_inputs := ins\<rparr>) = sighash_message ht n sb tx"
proof -
  have len: "length ins = length (t_inputs tx)" using assms(1) by (metis length_map)
  have nth: "unsigned (ins ! m) = unsigned (t_inputs tx ! m)" if "m < length ins" for m
    using assms(1) that len by (metis nth_map)
  have other: "map (other_part ht) ins = map (other_part ht) (t_inputs tx)"
    by (rule nth_equalityI) (use len nth in \<open>simp_all add: other_part_def unsigned_def input_part_def\<close>)
  have own: "input_part sb (sequenceNumber (ins ! n)) (ins ! n) =
      input_part sb (sequenceNumber (t_inputs tx ! n)) (t_inputs tx ! n)"
    using nth [OF assms(2)] by (simp add: unsigned_def input_part_def)
  show ?thesis
    by (simp add: sighash_message_def message_inputs_def own other Let_def extra_bytes_def Transaction_IsSmartContract_def)
qed

lemma sighash_unsigned:
  assumes "signable pkp tx" "signable pkp (tx\<lparr>t_inputs := ins\<rparr>)"
    and "map unsigned ins = map unsigned (t_inputs tx)" and "n < length ins" and "ht < 2147483648"
    and "subscript_bytes sub = Inr sb" "length sb < 2147483648"
  shows "sighash pkp (tx\<lparr>t_inputs := ins\<rparr>) ht n sub = sighash pkp tx ht n sub"
proof -
  have "n < length (t_inputs tx)" using assms(3,4) by (metis length_map)
  then show ?thesis
    using sighash_eq [OF assms(1) _ assms(5,6,7), of n] sighash_eq [OF assms(2) _ assms(5,6,7), of n] assms(4)
      message_unsigned [OF assms(3,4)] by (simp add: single_bug_def)
qed

section \<open>Scripts of public key hash spends\<close>

lemma wf_push: "2 \<le> length b \<Longrightarrow> length b \<le> 75 \<Longrightarrow> chunk_wf (push_chunk b) \<and> chunk_norm (push_chunk b) = push_chunk b"
  by (auto simp: chunk_wf_def chunk_ok_def push_chunk_def chunk_norm_def op_is_def)

lemma wf_op: "78 < n \<Longrightarrow> n < 256 \<Longrightarrow> chunk_wf (op_chunk n) \<and> chunk_norm (op_chunk n) = op_chunk n"
  by (simp add: chunk_wf_def chunk_ok_def chunk_norm_def op_is_def)

lemma subscript_bytes_pkh:
  assumes "chunks s = pkh_chunks h" and "length h = 20"
  shows "subscript_bytes s = Inr ([118, 169, 20] @ h @ [136, 172])"
proof -
  note e = enc_pkh [OF assms]
  have "list_all chunk_wf (chunks s)" "map chunk_norm (chunks s) = chunks s"
    using assms wf_push [of h] wf_op [of 118] wf_op [of 169] wf_op [of 136] wf_op [of 172] by simp_all
  with parse_written [of s] e assms(2) have "Script_fromBuffer ([118, 169, 20] @ h @ [136, 172]) = Inr (new_Script\<lparr>chunks := chunks s\<rparr>)"
    by simp
  moreover have "Script_removeCodeseparators (new_Script\<lparr>chunks := chunks s\<rparr>) = new_Script\<lparr>chunks := chunks s\<rparr>"
    using assms(1) by (simp add: Script_removeCodeseparators_def op_is_def push_chunk_def assms(2))
  ultimately show ?thesis
    using e enc_pkh [of "new_Script\<lparr>chunks := chunks s\<rparr>" h] assms by (simp add: subscript_bytes_def)
qed

text \<open>The input script and its bytes.\<close>

definition pkh_script :: "bytes \<Rightarrow> bytes \<Rightarrow> script" where
  "pkh_script sig pub = new_Script\<lparr>chunks := [push_chunk sig, push_chunk pub]\<rparr>"

definition pkh_bytes :: "bytes \<Rightarrow> bytes \<Rightarrow> bytes" where
  "pkh_bytes sig pub = of_nat (length sig) # sig @ of_nat (length pub) # pub"

definition signed_with :: "bytes \<Rightarrow> bytes \<Rightarrow> tx_input \<Rightarrow> tx_input" where
  "signed_with sig pub i = i\<lparr>in_scriptBuffer := pkh_bytes sig pub, in_script := Some (mark_input (pkh_script sig pub))\<rparr>"

lemma pkh_script_facts:
  assumes "2 \<le> length sig" "length sig \<le> 75" "2 \<le> length pub" "length pub \<le> 75"
  shows "Script_toBuffer (pkh_script sig pub) = Inr (pkh_bytes sig pub)"
    and "Script_fromBuffer (pkh_bytes sig pub) = Inr (pkh_script sig pub)"
    and "length (pkh_bytes sig pub) \<le> 152"
proof -
  show e: "Script_toBuffer (pkh_script sig pub) = Inr (pkh_bytes sig pub)"
    using assms by (simp add: pkh_script_def pkh_bytes_def Script_toBuffer_eq enc_push_chunk)
  show l: "length (pkh_bytes sig pub) \<le> 152" using assms by (simp add: pkh_bytes_def)
  have "list_all chunk_wf (chunks (pkh_script sig pub))" "map chunk_norm (chunks (pkh_script sig pub)) = chunks (pkh_script sig pub)"
    using assms wf_push [of sig] wf_push [of pub] by (simp_all add: pkh_script_def)
  with parse_written [of "pkh_script sig pub"] e l
  show "Script_fromBuffer (pkh_bytes sig pub) = Inr (pkh_script sig pub)"
    by (simp add: pkh_script_def)
qed

lemma setScript_pkh:
  assumes "2 \<le> length sig" "length sig \<le> 75" "2 \<le> length pub" "length pub \<le> 75"
  shows "Input_setScript i (pkh_script sig pub) = Inr (signed_with sig pub i)"
  using pkh_script_facts(1) [OF assms] by (simp add: Input_setScript_def signed_with_def)

lemma unsigned_signed [simp]: "unsigned (signed_with sig pub i) = unsigned i"
  by (simp add: unsigned_def signed_with_def)

lemma signed_signable:
  assumes "input_signable i" "2 \<le> length sig" "length sig \<le> 75" "2 \<le> length pub" "length pub \<le> 75"
  shows "input_signable (signed_with sig pub i)"
  using assms(1) pkh_script_facts [OF assms(2-5)]
  by (simp add: input_signable_def input_ok_def signed_with_def Input_isNull_def)

lemma length_signed:
  assumes "2 \<le> length sig" "length sig \<le> 75" "2 \<le> length pub" "length pub \<le> 75"
  shows "length (input_bytes (signed_with sig pub i)) \<le> length (input_bytes i) + 200"
  using pkh_script_facts(3) [OF assms] by (simp add: input_bytes_def signed_with_def varint_bytes_def)


lemma length_all_signed:
  assumes "list_all2 (\<lambda>i j. length (f j) \<le> length (f i) + 200) ins js"
  shows "length (concat (map f js)) \<le> length (concat (map f ins)) + 200 * length ins"
  using assms by (induction rule: list_all2_induct) auto

lemma length_tx_signed:
  assumes "list_all2 (\<lambda>i j. length (input_bytes j) \<le> length (input_bytes i) + 200) (t_inputs tx) ins"
  shows "length (tx_bytes (tx\<lparr>t_inputs := ins\<rparr>)) \<le> length (tx_bytes tx) + 200 * length (t_inputs tx)"
proof -
  have "length ins = length (t_inputs tx)" using assms by (simp add: list_all2_lengthD)
  then show ?thesis using length_all_signed [OF assms]
    by (simp add: tx_bytes_def body_bytes_def vec_bytes_def extra_bytes_def sig_bytes_def Transaction_IsSmartContract_def)
qed

section \<open>Signatures\<close>

text \<open>What is used of ECDSA: that signatures have a low \<open>s\<close> and verify, whatever else is stored beside their numbers.\<close>

definition good_signature :: "'k ec_env \<Rightarrow> 'k \<Rightarrow> bytes \<Rightarrow> signature \<Rightarrow> bool" where
  "good_signature ec k h s \<longleftrightarrow>
     0 \<le> sig_r s \<and> sig_r s < 2 ^ 256 \<and> Signature_hasLowS s \<and> length (Signature_toDER s) \<noteq> 19 \<and>
     (\<forall>s'. sig_r s' = sig_r s \<longrightarrow> sig_s s' = sig_s s \<longrightarrow> ecVerify ec h s' (ecPublicKey ec k) = Inr True)"

lemma signature_bytes:
  assumes "good_signature ec k h s" and "n < 256"
  defines "sig \<equiv> Signature_toDER s @ [of_nat n]"
  shows "2 \<le> length sig" "length sig \<le> 75" "length sig \<noteq> 20" "Signature_isTxDER sig" "signature_shape sig"
    "Signature_fromTxFormat sig = Inr ((new_Signature (sig_r s) (sig_s s))\<lparr>sig_nhashtype := Some n\<rparr>)"
proof -
  have rs: "0 \<le> sig_r s" "sig_r s < 256 ^ 32" "0 \<le> sig_s s" "sig_s s < 256 ^ 32"
    using assms(1) by (auto simp: good_signature_def Signature_hasLowS_def)
  then have l: "length (der_integer (sig_r s)) \<le> 33" "length (der_integer (sig_s s)) \<le> 33"
    using length_der_integer [of _ 32] by fastforce+
  have sig: "sig = der_layout (der_integer (sig_r s)) (der_integer (sig_s s)) @ [of_nat n]"
    by (simp add: sig_def Signature_toDER_layout)
  show "2 \<le> length sig" "length sig \<le> 75" "signature_shape sig"
    using l by (simp_all add: sig der_layout_def signature_shape_def)
  show "length sig \<noteq> 20" using assms(1) by (simp add: sig_def good_signature_def)
  show "Signature_isTxDER sig" using l rs by (simp add: sig isTxDER_layout der_integer_min)
  show "Signature_fromTxFormat sig = Inr ((new_Signature (sig_r s) (sig_s s))\<lparr>sig_nhashtype := Some n\<rparr>)"
    using l rs assms(2) by (simp add: sig fromTxFormat_layout be_val_der_integer unat_of_nat_byte)
qed

definition hash_types :: "nat list" where
  "hash_types = [1, 2, 3, 129, 130, 131]"

lemma defined_hash_type: "n \<in> set hash_types \<Longrightarrow> sig_nhashtype s = Some n \<Longrightarrow> Signature_hasDefinedHashtype s"
  by (auto simp: hash_types_def Signature_hasDefinedHashtype_def toInt32_def Let_def)

lemma pubkey_length: "pubkey_shape b \<Longrightarrow> 2 \<le> length b \<and> length b \<le> 75"
  by (auto simp: pubkey_shape_def)

lemma encodings_ok:
  assumes "good_signature ec k h s" and "n \<in> set hash_types" and "pkvalid env pub"
  shows "check_encodings env flags (Signature_toDER s @ [of_nat n]) pub = Inr None"
proof -
  have "n < 256" using assms(2) by (auto simp: hash_types_def)
  from signature_bytes [OF assms(1) this] assms show ?thesis
    by (auto simp: check_encodings_def Interpreter_checkSignatureEncoding_def Interpreter_checkPubkeyEncoding_def
        defined_hash_type good_signature_def Signature_hasLowS_def new_Signature_def)
qed

section \<open>Signing the inputs one after the other\<close>

definition pays_key :: "bytes \<Rightarrow> tx_input \<Rightarrow> bool" where
  "pays_key pub i \<longleftrightarrow>
     in_kind i = KPublicKeyHash \<and>
     (\<exists>out s. in_output i = Some out \<and> o_script out = Some s \<and> chunks s = pkh_chunks (Hash_sha256ripemd160 pub))"

definition spend_hash :: "nat \<Rightarrow> bytes \<Rightarrow> nat \<Rightarrow> transaction \<Rightarrow> bytes" where
  "spend_hash ht pub n tx =
     (if single_bug ht n tx then sighash_single_bug
      else rev (Hash_sha256sha256 (sighash_message ht n ([118, 169, 20] @ Hash_sha256ripemd160 pub @ [136, 172]) tx)))"

text \<open>The key signs the hash of every input.\<close>

definition signs_inputs :: "'k ec_env \<Rightarrow> 'k \<Rightarrow> nat \<Rightarrow> transaction \<Rightarrow> bool" where
  "signs_inputs ec k ht tx \<longleftrightarrow>
     pubkey_shape (ecPublicKey ec k) \<and> ecValid ec (ecPublicKey ec k) \<and>
     (\<forall>n < length (t_inputs tx). \<exists>s. ecSign ec (spend_hash ht (ecPublicKey ec k) n tx) k = Inr s \<and>
        good_signature ec k (spend_hash ht (ecPublicKey ec k) n tx) s)"

lemma sighash_pkh:
  assumes "signable pkp tx" and "n < length (t_inputs tx)" and "ht < 256" and "chunks s = pkh_chunks (Hash_sha256ripemd160 pub)"
  shows "sighash pkp tx ht n s = Inr (spend_hash ht pub n tx)"
  using sighash_eq [OF assms(1,2) _ subscript_bytes_pkh [OF assms(4)], of ht] assms(3) by (simp add: spend_hash_def)

lemma spend_hash_unsigned:
  assumes "map unsigned ins = map unsigned (t_inputs tx)" and "n < length ins"
  shows "spend_hash ht pub n (tx\<lparr>t_inputs := ins\<rparr>) = spend_hash ht pub n tx"
  using message_unsigned [OF assms] by (simp add: spend_hash_def single_bug_def)

lemma getSignatures_pkh:
  assumes "pays_key (ecPublicKey ec k) i" and "signable (ecParse ec) tx" and "n < length (t_inputs tx)" and "0 < ht" "ht < 256"
    and "ecSign ec (spend_hash ht (ecPublicKey ec k) n tx) k = Inr s"
  shows "Input_getSignatures ec tx i k n ht (Hash_sha256ripemd160 (ecPublicKey ec k)) =
    Inr [new_TransactionSignature (ecPublicKey ec k) i n (s\<lparr>sig_nhashtype := Some ht\<rparr>) ht]"
proof -
  from assms(1) obtain out scr where i: "in_kind i = KPublicKeyHash" "in_output i = Some out" "o_script out = Some scr"
    "chunks scr = pkh_chunks (Hash_sha256ripemd160 (ecPublicKey ec k))" by (auto simp: pays_key_def)
  have "Script_getPublicKeyHash scr = Inr (Some (Hash_sha256ripemd160 (ecPublicKey ec k)))"
    using i(4) by (simp add: Script_getPublicKeyHash_def Script_isPublicKeyHashOut_def op_is_def has_buf_def push_chunk_def check_def)
  with i sighash_pkh [OF assms(2,3,5) i(4)] assms(4,6) show ?thesis
    by (simp add: Input_getSignatures_def or_all_def checked_output_def script_of_def sign_input_def Sighash_sign_def)
qed

lemma addSignature_pkh:
  assumes "pays_key (ecPublicKey ec k) i" and "signable (ecParse ec) tx" and "n < length (t_inputs tx)" and "0 < ht" "ht < 256"
    and "good_signature ec k (spend_hash ht (ecPublicKey ec k) n tx) s" and "pubkey_shape (ecPublicKey ec k)"
  shows "Input_addSignature ec tx i (new_TransactionSignature (ecPublicKey ec k) j n (s\<lparr>sig_nhashtype := Some ht\<rparr>) ht) =
    (Inr (), signed_with (Signature_toDER s @ [of_nat ht]) (ecPublicKey ec k) i)"
proof -
  let ?pub = "ecPublicKey ec k" and ?sig = "Signature_toDER s @ [of_nat ht]"
  from assms(1) obtain out scr where i: "in_kind i = KPublicKeyHash" "in_output i = Some out" "o_script out = Some scr"
    "chunks scr = pkh_chunks (Hash_sha256ripemd160 ?pub)" by (auto simp: pays_key_def)
  have der: "Signature_toDER (s\<lparr>sig_nhashtype := Some ht\<rparr>) = Signature_toDER s" by (simp add: Signature_toDER_def)
  have "int ht AND 255 = int ht" using assms(5) take_bit_eq_mask [of 8 "int ht"] by (simp add: take_bit_eq_mod mask_eq_exp_minus_1)
  then have "sighash_byte (Some (int ht)) = [of_nat ht]"
    using assms(4,5) by (simp add: sighash_byte_def integerAsSingleByteBuffer_def toInt32_id)
  then have "Script_buildPublicKeyHashIn ?pub (Signature_toDER s) (Some (int ht)) = Inr (pkh_script ?sig ?pub)"
    using signature_bytes(1,2) [OF assms(6,5)] pubkey_length [OF assms(7)]
    by (simp add: Script_buildPublicKeyHashIn_def adds_defs push_chunk_def pkh_script_def)
  moreover have "Input_setScript i (pkh_script ?sig ?pub) = Inr (signed_with ?sig ?pub i)"
    using signature_bytes(1,2) [OF assms(6,5)] pubkey_length [OF assms(7)] by (intro setScript_pkh) simp_all
  moreover have "ecVerify ec (spend_hash ht ?pub n tx) (s\<lparr>sig_nhashtype := Some ht\<rparr>) ?pub = Inr True"
    using assms(6) by (simp add: good_signature_def)
  ultimately show ?thesis
    using i sighash_pkh [OF assms(2,3,5) i(4)]
    by (simp add: Input_addSignature_def Input_isValidSignature_def Input_signedScript_def output_of_def script_or_empty_def
        Sighash_verify_def new_TransactionSignature_def der set_script_def check_def)
qed

text \<open>The transaction after its first \<open>j\<close> inputs are signed, where input \<open>n\<close> gets the signature \<open>sg n\<close>.\<close>

definition stage :: "bytes \<Rightarrow> (nat \<Rightarrow> bytes) \<Rightarrow> transaction \<Rightarrow> nat \<Rightarrow> transaction" where
  "stage pub sig tx j =
     tx\<lparr>t_inputs := map (\<lambda>n. if n < j then signed_with (sig n) pub (t_inputs tx ! n) else t_inputs tx ! n)
       [0..<length (t_inputs tx)]\<rparr>"

definition script_sizes :: "nat \<Rightarrow> bytes \<Rightarrow> (nat \<Rightarrow> bytes) \<Rightarrow> bool" where
  "script_sizes m pub sig \<longleftrightarrow> 2 \<le> length pub \<and> length pub \<le> 75 \<and> (\<forall>n < m. 2 \<le> length (sig n) \<and> length (sig n) \<le> 75)"

lemma stage_0: "stage pub sig tx 0 = tx"
  by (simp add: stage_def map_nth)

lemma stage_inputs:
  "length (t_inputs (stage pub sig tx j)) = length (t_inputs tx)"
  "n < length (t_inputs tx) \<Longrightarrow> t_inputs (stage pub sig tx j) ! n =
     (if n < j then signed_with (sig n) pub (t_inputs tx ! n) else t_inputs tx ! n)"
  by (simp_all add: stage_def)

lemma stage_unsigned: "map unsigned (t_inputs (stage pub sig tx j)) = map unsigned (t_inputs tx)"
  by (rule nth_equalityI) (simp_all add: stage_inputs)

lemma committed_stage: "committed (stage pub sig tx j) = committed tx"
proof -
  have "(\<lambda>i. (prevTxId i, outputIndex i, sequenceNumber i)) = unsigned" by (simp add: fun_eq_iff unsigned_def)
  then show ?thesis
    unfolding committed_def by (simp add: stage_unsigned) (simp add: stage_def Transaction_IsSmartContract_def)
qed

lemma stage_eq: "tx\<lparr>t_inputs := t_inputs (stage pub sig tx j)\<rparr> = stage pub sig tx j"
  by (simp add: stage_def)

lemma spend_hash_stage:
  "n < length (t_inputs tx) \<Longrightarrow> spend_hash ht pub n (stage p sig tx j) = spend_hash ht pub n tx"
  using spend_hash_unsigned [OF stage_unsigned, of n p sig tx j ht pub] by (simp add: stage_inputs stage_eq)

lemma stage_signable:
  assumes "signable pkp tx" and "length (tx_bytes tx) + 200 * length (t_inputs tx) < 2147483648" and "script_sizes (length (t_inputs tx)) pub sig"
  shows "signable pkp (stage pub sig tx j)"
proof -
  let ?ins = "t_inputs (stage pub sig tx j)"
  have "list_all2 (\<lambda>i j. length (input_bytes j) \<le> length (input_bytes i) + 200) (t_inputs tx) ?ins"
    using assms(3) by (auto simp: list_all2_conv_all_nth stage_inputs script_sizes_def intro!: length_signed)
  from length_tx_signed [OF this] assms(2) have "length (tx_bytes (stage pub sig tx j)) < 2147483648"
    by (simp add: stage_eq)
  moreover have sg: "list_all input_signable ?ins"
    using assms(1,3) by (auto simp: list_all_length stage_inputs script_sizes_def signable_def intro!: signed_signable)
  moreover have "list_all input_ok ?ins" using sg by (auto simp: list_all_iff input_signable_def)
  ultimately show ?thesis
    using assms(1) stage_inputs(1) [of pub sig tx j]
    by (auto simp: signable_def tx_ok_def stage_def Transaction_IsSmartContract_def split: option.splits)
qed

lemma stage_step:
  assumes "j < length (t_inputs tx)"
  shows "(stage pub sig tx j)\<lparr>t_inputs := (t_inputs (stage pub sig tx j))[j := signed_with (sig j) pub (t_inputs tx ! j)]\<rparr>
    = stage pub sig tx (Suc j)"
proof -
  have "(t_inputs (stage pub sig tx j))[j := signed_with (sig j) pub (t_inputs tx ! j)] = t_inputs (stage pub sig tx (Suc j))"
    by (rule nth_equalityI) (use assms in \<open>auto simp: stage_inputs nth_list_update less_Suc_eq\<close>)
  then show ?thesis by (simp add: stage_def)
qed

text \<open>The signature of input \<open>n\<close>, its bytes in the script, and the object that \<open>getSignatures\<close> makes of it.\<close>

definition key_signature :: "'k ec_env \<Rightarrow> 'k \<Rightarrow> nat \<Rightarrow> transaction \<Rightarrow> nat \<Rightarrow> signature" where
  "key_signature ec k ht tx n = projr (ecSign ec (spend_hash ht (ecPublicKey ec k) n tx) k)"

definition key_bytes :: "'k ec_env \<Rightarrow> 'k \<Rightarrow> nat \<Rightarrow> transaction \<Rightarrow> nat \<Rightarrow> bytes" where
  "key_bytes ec k ht tx n = Signature_toDER (key_signature ec k ht tx n) @ [of_nat ht]"

definition key_object :: "'k ec_env \<Rightarrow> 'k \<Rightarrow> nat \<Rightarrow> transaction \<Rightarrow> nat \<Rightarrow> tx_sig" where
  "key_object ec k ht tx n =
     new_TransactionSignature (ecPublicKey ec k) (t_inputs tx ! n) n ((key_signature ec k ht tx n)\<lparr>sig_nhashtype := Some ht\<rparr>) ht"

lemma key_signature:
  assumes "signs_inputs ec k ht tx" and "n < length (t_inputs tx)"
  shows "ecSign ec (spend_hash ht (ecPublicKey ec k) n tx) k = Inr (key_signature ec k ht tx n)"
    and "good_signature ec k (spend_hash ht (ecPublicKey ec k) n tx) (key_signature ec k ht tx n)"
proof -
  from assms obtain s where "ecSign ec (spend_hash ht (ecPublicKey ec k) n tx) k = Inr s"
    "good_signature ec k (spend_hash ht (ecPublicKey ec k) n tx) s" by (auto simp: signs_inputs_def)
  then show "ecSign ec (spend_hash ht (ecPublicKey ec k) n tx) k = Inr (key_signature ec k ht tx n)"
    "good_signature ec k (spend_hash ht (ecPublicKey ec k) n tx) (key_signature ec k ht tx n)"
    by (simp_all add: key_signature_def)
qed

lemma key_sizes:
  assumes "signs_inputs ec k ht tx" and "ht < 256"
  shows "script_sizes (length (t_inputs tx)) (ecPublicKey ec k) (key_bytes ec k ht tx)"
  using signature_bytes(1,2) [OF key_signature(2) [OF assms(1)] assms(2)] assms(1) pubkey_length [of "ecPublicKey ec k"]
  by (simp add: script_sizes_def key_bytes_def signs_inputs_def)

lemma signatures_from_pkh:
  assumes "signs_inputs ec k ht tx" and "signable (ecParse ec) tx" and "list_all (pays_key (ecPublicKey ec k)) (t_inputs tx)"
    and "0 < ht" "ht < 256" and "n \<le> length (t_inputs tx)"
  shows "signatures_from ec tx k ht (Hash_sha256ripemd160 (ecPublicKey ec k)) n (drop n (t_inputs tx)) =
    Inr (map (key_object ec k ht tx) [n..<length (t_inputs tx)])"
  using assms(6)
proof (induction "length (t_inputs tx) - n" arbitrary: n)
  case (Suc d)
  then have n: "n < length (t_inputs tx)" by simp
  with assms(3) have pays: "pays_key (ecPublicKey ec k) (t_inputs tx ! n)" by (simp add: list_all_length)
  have "Input_getSignatures ec tx (t_inputs tx ! n) k n ht (Hash_sha256ripemd160 (ecPublicKey ec k)) = Inr [key_object ec k ht tx n]"
    using getSignatures_pkh [OF pays assms(2) n assms(4,5) key_signature(1) [OF assms(1) n]] by (simp add: key_object_def)
  with Suc.hyps(1) [of "Suc n"] Suc.hyps(2) n show ?case
    by (simp add: Cons_nth_drop_Suc [symmetric] upt_conv_Cons)
qed simp

lemma apply_signatures_pkh:
  assumes "signs_inputs ec k ht tx" and "signable (ecParse ec) tx" and "list_all (pays_key (ecPublicKey ec k)) (t_inputs tx)"
    and "0 < ht" "ht < 256" and "length (tx_bytes tx) + 200 * length (t_inputs tx) < 2147483648" and "j \<le> length (t_inputs tx)"
  defines "st \<equiv> stage (ecPublicKey ec k) (key_bytes ec k ht tx) tx"
  shows "apply_signatures ec (map (key_object ec k ht tx) [j..<length (t_inputs tx)]) (st j) = (Inr (), st (length (t_inputs tx)))"
  using assms(7)
proof (induction "length (t_inputs tx) - j" arbitrary: j)
  case (Suc d)
  then have j: "j < length (t_inputs tx)" by simp
  let ?pub = "ecPublicKey ec k" and ?i = "t_inputs tx ! j"
  have pays: "pays_key ?pub ?i" using assms(3) j by (simp add: list_all_length)
  have sg: "signable (ecParse ec) (st j)" unfolding st_def by (rule stage_signable [OF assms(2,6) key_sizes [OF assms(1,5)]])
  have good: "good_signature ec k (spend_hash ht ?pub j (st j)) (key_signature ec k ht tx j)"
    using key_signature(2) [OF assms(1) j] j by (simp add: st_def spend_hash_stage)
  have len: "j < length (t_inputs (st j))" using j by (simp add: st_def stage_inputs)
  have shape: "pubkey_shape ?pub" using assms(1) by (simp add: signs_inputs_def)
  have "Input_addSignature ec (st j) (t_inputs (st j) ! j) (key_object ec k ht tx j)
      = (Inr (), signed_with (key_bytes ec k ht tx j) ?pub ?i)"
    using addSignature_pkh [OF pays sg len assms(4,5) good shape, of ?i] j
    by (simp add: key_object_def key_bytes_def st_def stage_inputs)
  then have "Transaction_applySignature ec (key_object ec k ht tx j) (st j) = (Inr (), st (Suc j))"
    using len j stage_step [OF j] by (simp add: Transaction_applySignature_def key_object_def new_TransactionSignature_def st_def)
  with Suc.hyps(1) [of "Suc j"] Suc.hyps(2) j show ?case by (simp add: upt_conv_Cons tbind_def)
qed (simp add: tret_def)

lemma sign_pkh:
  assumes "signs_inputs ec k (or_all sigtype) tx" and "signable (ecParse ec) tx" and "list_all (pays_key (ecPublicKey ec k)) (t_inputs tx)"
    and "or_all sigtype < 256" and "length (tx_bytes tx) + 200 * length (t_inputs tx) < 2147483648"
    and "\<not> Transaction_IsSmartContract tx"
  shows "Transaction_sign ec k sigtype tx =
    (Inr (), stage (ecPublicKey ec k) (key_bytes ec k (or_all sigtype) tx) tx (length (t_inputs tx)))"
proof -
  have ht: "0 < or_all sigtype" by (simp add: or_all_def)
  have "Transaction_hasAllUtxoInfo tx"
    using assms(3) by (auto simp: Transaction_hasAllUtxoInfo_def list_all_iff pays_key_def)
  moreover have "Transaction_getSignatures ec tx k sigtype = Inr (map (key_object ec k (or_all sigtype) tx) [0..<length (t_inputs tx)])"
    using signatures_from_pkh [OF assms(1-3) ht assms(4), of 0] by (simp add: Transaction_getSignatures_def)
  moreover have "\<not> Transaction_IsSmartContract (stage p f tx j)" for p f j
    using assms(6) by (simp add: stage_def Transaction_IsSmartContract_def)
  ultimately show ?thesis
    using apply_signatures_pkh [OF assms(1-3) ht assms(4,5), of 0]
    by (simp add: Transaction_sign_def tbind_def tlift_def tret_def stage_0)
qed

lemma verify_pkh:
  assumes "pubkey_shape (ecPublicKey ec k)" "ecValid ec (ecPublicKey ec k)" and "signable (ecParse ec) tx'" and "n < length (t_inputs tx')" and "ht \<in> set hash_types"
    and "chunks spk = pkh_chunks (Hash_sha256ripemd160 (ecPublicKey ec k))"
    and "good_signature ec k (spend_hash ht (ecPublicKey ec k) n tx') s"
    and "chunks ssig = chunks (pkh_script (Signature_toDER s @ [of_nat ht]) (ecPublicKey ec k))"
  shows "\<exists>st. Interpreter_verify (interp_env ec tx' n) new_Interpreter ssig spk flags = Inr (True, st)"
proof -
  let ?pub = "ecPublicKey ec k" and ?sig = "Signature_toDER s @ [of_nat ht]" and ?env = "interp_env ec tx' n"
  have ht: "ht < 256" using assms(5) by (auto simp: hash_types_def)
  note sb = signature_bytes [OF assms(7) ht]
  note pub = assms(1,2)
  have inp: "chunks ssig = [push_chunk ?sig, push_chunk ?pub]" using assms(8) by (simp add: pkh_script_def)
  have "check_encodings ?env flags ?sig ?pub = Inr None"
    using assms(5,7) pub by (intro encodings_ok) (simp_all add: interp_env_def)
  moreover have "try_signature ?env (Script_set new_Script (chunks spk)) ?sig ?pub"
    using sb(6) sighash_pkh [OF assms(3,4) ht, of "Script_set new_Script (chunks spk)" ?pub] assms(6,7)
    by (simp add: try_signature_def interp_env_def Sighash_verify_def Script_set_def new_Signature_def good_signature_def)
  ultimately show ?thesis
    using p2pkh_run [OF assms(6) _ inp sb(1-3), of ?env flags] pubkey_length [OF pub(1)] by simp
qed

section \<open>What is signed is accepted\<close>

lemma sign_pkh_accepted:
  assumes "signs_inputs ec k (or_all sigtype) tx" and "signable (ecParse ec) tx" and "list_all (pays_key (ecPublicKey ec k)) (t_inputs tx)"
    and "or_all sigtype \<in> set hash_types" and "length (tx_bytes tx) + 200 * length (t_inputs tx) < 2147483648"
    and "\<not> Transaction_IsSmartContract tx"
  shows "\<exists>tx'. Transaction_sign ec k sigtype tx = (Inr (), tx') \<and> committed tx' = committed tx \<and>
    Transaction_isFullySigned tx' = Inr True \<and>
    (\<forall>n < length (t_inputs tx). \<exists>ssig out spk st. Input_script (t_inputs tx' ! n) = Inr (Some ssig) \<and>
       in_output (t_inputs tx' ! n) = Some out \<and> o_script out = Some spk \<and>
       Interpreter_verify (interp_env ec tx' n) new_Interpreter ssig spk flags = Inr (True, st))"
proof -
  let ?ht = "or_all sigtype" and ?pub = "ecPublicKey ec k"
  let ?sig = "key_bytes ec k ?ht tx"
  let ?tx = "stage ?pub ?sig tx (length (t_inputs tx))"
  have ht: "?ht < 256" using assms(4) by (auto simp: hash_types_def)
  note run = sign_pkh [OF assms(1,2,3) ht assms(5,6)]
  have sg: "signable (ecParse ec) ?tx" by (rule stage_signable [OF assms(2,5) key_sizes [OF assms(1) ht]])
  have pub: "pubkey_shape ?pub" "ecValid ec ?pub" using assms(1) by (simp_all add: signs_inputs_def)
  have same: "committed ?tx = committed tx" by (rule committed_stage)
  have script: "Input_script (t_inputs ?tx ! n) = Inr (Some (mark_input (pkh_script (?sig n) ?pub)))"
    if "n < length (t_inputs tx)" for n
    using that assms(2) by (simp add: stage_inputs signed_with_def Input_script_def Input_isNull_def)
      (auto simp: signable_def input_signable_def list_all_length Input_isNull_def)
  have full: "Input_isFullySigned i = Inr True \<and> in_kind i = KPublicKeyHash" if i: "i \<in> set (t_inputs ?tx)" for i
  proof -
    from i obtain n where n: "n < length (t_inputs tx)" "i = t_inputs ?tx ! n" by (metis in_set_conv_nth stage_inputs(1))
    then have kind: "in_kind i = KPublicKeyHash" using assms(3) by (simp add: stage_inputs signed_with_def list_all_length pays_key_def)
    moreover have "signature_shape (?sig n)"
      using signature_bytes(5) [OF key_signature(2) [OF assms(1) n(1)] ht] by (simp add: key_bytes_def)
    ultimately show ?thesis using script [OF n(1)] n(2) assms(1)
      by (simp add: Input_isFullySigned_def script_of_def Script_isPublicKeyHashIn_def mark_input_def pkh_script_def has_buf_def
          push_chunk_def signs_inputs_def)
  qed
  have "all_ok Input_isFullySigned is = Inr True" if "set is \<subseteq> set (t_inputs ?tx)" for "is"
    using that by (induction "is") (use full in auto)
  with full have "Transaction_isFullySigned ?tx = Inr True" by (auto simp: Transaction_isFullySigned_def list_ex_iff)
  moreover have "\<exists>ssig out spk st. Input_script (t_inputs ?tx ! n) = Inr (Some ssig) \<and>
       in_output (t_inputs ?tx ! n) = Some out \<and> o_script out = Some spk \<and>
       Interpreter_verify (interp_env ec ?tx n) new_Interpreter ssig spk flags = Inr (True, st)"
    if n: "n < length (t_inputs tx)" for n
  proof -
    obtain out spk where out: "in_output (t_inputs tx ! n) = Some out" "o_script out = Some spk"
      "chunks spk = pkh_chunks (Hash_sha256ripemd160 ?pub)" using assms(3) n by (auto simp: list_all_length pays_key_def)
    have good: "good_signature ec k (spend_hash ?ht ?pub n ?tx) (key_signature ec k ?ht tx n)"
      using key_signature(2) [OF assms(1) n] n by (simp add: spend_hash_stage)
    have "chunks (mark_input (pkh_script (?sig n) ?pub)) =
        chunks (pkh_script (Signature_toDER (key_signature ec k ?ht tx n) @ [of_nat ?ht]) ?pub)"
      by (simp add: mark_input_def key_bytes_def)
    from verify_pkh [OF pub sg _ assms(4) out(3) good this, of flags] n
    show ?thesis using script [OF n] out by (simp add: stage_inputs signed_with_def)
  qed
  ultimately show ?thesis using run same by blast
qed

end
