(* ===== verification/Modular.thy ===== *)
theory Modular
  imports Prelude
begin

text \<open>
  The algorithms of bn.js on the values of big numbers: signed division, rounding, the binary forms of Euclid's
  algorithm, and the reduction contexts (\<open>Red\<close>) with their pseudo-Mersenne primes, windowed powers and square roots.
  A number is an \<open>int\<close>; the theory \<open>BNWords\<close> has the words of 26 bits that hold it.  \<open>assert(!num.isZero())\<close> is a
  hypothesis of the lemmas on division.
\<close>

section \<open>Shifts and division\<close>

text \<open>\<open>iushrn\<close> shifts the magnitude.\<close>

definition BN_ushrn :: "int \<Rightarrow> nat \<Rightarrow> int" where
  "BN_ushrn a k = (if a < 0 then - (- a div 2 ^ k) else a div 2 ^ k)"

fun BN_bitLength :: "nat \<Rightarrow> nat" where
  "BN_bitLength a = (if a = 0 then 0 else Suc (BN_bitLength (a div 2)))"

declare BN_bitLength.simps [simp del]

definition BN_divmod :: "int \<Rightarrow> int \<Rightarrow> bool \<Rightarrow> int \<times> int" where
  "BN_divmod a num positive =
     (if a = 0 then (0, 0)
      else if a < 0 \<and> 0 \<le> num then
        let m = - (- a mod num) in (- (- a div num), if positive \<and> m < 0 then m + num else m)
      else if 0 \<le> a \<and> num < 0 then (- (a div - num), a mod - num)
      else if a < 0 \<and> num < 0 then
        let m = - (- a mod - num) in (- a div - num, if positive \<and> m < 0 then m - num else m)
      else (a div num, a mod num))"

definition BN_div :: "int \<Rightarrow> int \<Rightarrow> int" where
  "BN_div a num = fst (BN_divmod a num False)"

definition BN_mod :: "int \<Rightarrow> int \<Rightarrow> int" where
  "BN_mod a num = snd (BN_divmod a num False)"

definition BN_umod :: "int \<Rightarrow> int \<Rightarrow> int" where
  "BN_umod a num = snd (BN_divmod a num True)"

definition BN_divRound :: "int \<Rightarrow> int \<Rightarrow> int" where
  "BN_divRound a num =
     (let (q, r) = BN_divmod a num False in
      if r = 0 then q
      else
        let r = (if q < 0 then r - num else r);
            half = BN_ushrn num 1
        in if r < half \<or> (odd num \<and> r = half) then q else if q < 0 then q - 1 else q + 1)"

section \<open>Euclid's algorithm\<close>

text \<open>The zero bits at the end of the lowest word, at most 26.\<close>

fun tz :: "nat \<Rightarrow> int \<Rightarrow> nat" where
  "tz 0 a = 0"
| "tz (Suc n) a = (if odd a then 0 else Suc (tz n (a div 2)))"

lemma tz_dvd: "2 ^ tz n a dvd a"
  by (induction n a rule: tz.induct) (auto elim!: evenE)

lemma tz_shift:
  assumes "0 < a"
  shows "0 < BN_ushrn a (tz n a)" "BN_ushrn a (tz n a) \<le> a" "BN_ushrn a (tz n a) * 2 ^ tz n a = a"
proof -
  have "BN_ushrn a (tz n a) = a div 2 ^ tz n a" using assms by (simp add: BN_ushrn_def)
  moreover obtain k where k: "a = 2 ^ tz n a * k" using tz_dvd [of n a] by (elim dvdE)
  then have "a div 2 ^ tz n a = k" by (metis nonzero_mult_div_cancel_left power_not_zero zero_neq_numeral)
  moreover have "0 < k" using k assms by (metis zero_less_mult_pos zero_less_numeral zero_less_power)
  moreover have "1 * k \<le> 2 ^ tz n a * k" using \<open>0 < k\<close> by (intro mult_right_mono) simp_all
  then have "k \<le> a" using k by simp
  ultimately show "0 < BN_ushrn a (tz n a)" "BN_ushrn a (tz n a) \<le> a" "BN_ushrn a (tz n a) * 2 ^ tz n a = a"
    using k by (simp_all add: mult.commute)
qed

lemma smaller_sum:
  "0 < a' \<Longrightarrow> a' \<le> a \<Longrightarrow> 0 < b' \<Longrightarrow> b' \<le> b \<Longrightarrow> b' \<le> a' \<Longrightarrow> nat (a' - b') + nat b' < nat a + nat b"
  "0 < a' \<Longrightarrow> a' \<le> a \<Longrightarrow> 0 < b' \<Longrightarrow> b' \<le> b \<Longrightarrow> a' < b' \<Longrightarrow> nat a' + nat (b' - a') < nat a + nat b"
  for a b :: int
  by linarith+

definition half_mod :: "int \<Rightarrow> int \<Rightarrow> int" where
  "half_mod delta x = BN_ushrn (if odd x then x + delta else x) 1"

function invmp_loop :: "int \<Rightarrow> int \<Rightarrow> int \<Rightarrow> int \<Rightarrow> int \<Rightarrow> int" where
  "invmp_loop delta a b x1 x2 =
     (if 1 < a \<and> 1 < b then
        let i = tz 26 a; a = BN_ushrn a i; x1 = (half_mod delta ^^ i) x1;
            j = tz 26 b; b = BN_ushrn b j; x2 = (half_mod delta ^^ j) x2
        in if b \<le> a then invmp_loop delta (a - b) b (x1 - x2) x2 else invmp_loop delta a (b - a) x1 (x2 - x1)
      else if a = 1 then x1 else x2)"
  by pat_completeness auto
termination
  by (relation "measure (\<lambda>(delta, a, b, x1, x2). nat a + nat b)")
    (auto simp: not_le intro!: smaller_sum tz_shift)

declare invmp_loop.simps [simp del]

definition BN_invmp :: "int \<Rightarrow> int \<Rightarrow> int" where
  "BN_invmp a p =
     (let a = (if a < 0 then BN_umod a p else a); res = invmp_loop p a p 1 0
      in if res < 0 then res + p else res)"

text \<open>\<open>egcd\<close>: the coefficients are halved together, with \<open>xp\<close> and \<open>yp\<close> the numbers without their common twos.\<close>

definition half_pair :: "int \<Rightarrow> int \<Rightarrow> int \<times> int \<Rightarrow> int \<times> int" where
  "half_pair xp yp = (\<lambda>(A, B).
     let (A, B) = (if odd A \<or> odd B then (A + yp, B - xp) else (A, B)) in (BN_ushrn A 1, BN_ushrn B 1))"

function egcd_loop :: "int \<Rightarrow> int \<Rightarrow> int \<Rightarrow> int \<Rightarrow> int \<times> int \<Rightarrow> int \<times> int \<Rightarrow> (int \<times> int) \<times> int" where
  "egcd_loop xp yp x y AB CD =
     (if 0 < x \<and> 0 < y then
        let i = tz 26 x; x = BN_ushrn x i; AB = (half_pair xp yp ^^ i) AB;
            j = tz 26 y; y = BN_ushrn y j; CD = (half_pair xp yp ^^ j) CD
        in if y \<le> x then egcd_loop xp yp (x - y) y (fst AB - fst CD, snd AB - snd CD) CD
           else egcd_loop xp yp x (y - x) AB (fst CD - fst AB, snd CD - snd AB)
      else (CD, y))"
  by pat_completeness auto
termination
  by (relation "measure (\<lambda>(xp, yp, x, y, AB, CD). nat x + nat y)")
    (auto simp: not_le intro!: smaller_sum tz_shift)

declare egcd_loop.simps [simp del]

function common_twos :: "int \<Rightarrow> int \<Rightarrow> int \<times> int \<times> nat" where
  "common_twos x y =
     (if even x \<and> even y \<and> 0 < y then
        let (x, y, g) = common_twos (BN_ushrn x 1) (BN_ushrn y 1) in (x, y, Suc g)
      else (x, y, 0))"
  by pat_completeness auto
termination by (relation "measure (\<lambda>(x, y). nat y)") (auto simp: BN_ushrn_def)

declare common_twos.simps [simp del]

definition BN_egcd :: "int \<Rightarrow> int \<Rightarrow> (int \<times> int \<times> int) result" where
  "BN_egcd x p =
     (if p \<le> 0 then Inl (PlainError ''Assertion failed'')
      else
        let x = (if x < 0 then BN_umod x p else x);
            (xp, yp, g) = common_twos x p;
            ((C, D), y) = egcd_loop xp yp xp yp (1, 0) (0, 1)
        in Inr (C, D, y * 2 ^ g))"

definition BN_invm :: "int \<Rightarrow> int \<Rightarrow> int result" where
  "BN_invm x num = rbind (BN_egcd x num) (\<lambda>(a, b, g). Inr (BN_umod a num))"

text \<open>\<open>gcd\<close>: all twos are removed in each round.\<close>

function strip_twos :: "int \<Rightarrow> int" where
  "strip_twos a = (if even a \<and> 0 < a then strip_twos (BN_ushrn a 1) else a)"
  by pat_completeness auto
termination by (relation "measure nat") (auto simp: BN_ushrn_def)

declare strip_twos.simps [simp del]

lemma strip_twos_bounds: "0 < a \<Longrightarrow> 0 < strip_twos a \<and> strip_twos a \<le> a"
proof (induction a rule: strip_twos.induct)
  case (1 a)
  show ?case
  proof (cases "even a")
    case True
    then have "0 < BN_ushrn a 1" "BN_ushrn a 1 \<le> a" using "1.prems" by (auto simp: BN_ushrn_def elim!: evenE)
    with "1.IH" True "1.prems" show ?thesis by (simp add: strip_twos.simps [of a])
  next
    case False
    with "1.prems" show ?thesis by (simp add: strip_twos.simps [of a])
  qed
qed

function gcd_loop :: "int \<Rightarrow> int \<Rightarrow> int" where
  "gcd_loop a b =
     (if 0 < a \<and> 0 < b then
        let a = strip_twos a; b = strip_twos b
        in if a < b then gcd_loop (b - a) a else if a = b \<or> b = 1 then b else gcd_loop (a - b) b
      else b)"
  by pat_completeness auto
termination
proof (relation "measure (\<lambda>(a, b). nat a + nat b)")
  fix a b x y :: int
  assume *: "0 < a \<and> 0 < b" "x = strip_twos a" "y = strip_twos b"
  note bounds = strip_twos_bounds [of a] strip_twos_bounds [of b]
  show "x < y \<Longrightarrow> ((y - x, x), a, b) \<in> measure (\<lambda>(a, b). nat a + nat b)" using * bounds by auto
  show "\<not> x < y \<Longrightarrow> \<not> (x = y \<or> y = 1) \<Longrightarrow> ((x - y, y), a, b) \<in> measure (\<lambda>(a, b). nat a + nat b)"
    using * bounds by auto
qed simp

declare gcd_loop.simps [simp del]

definition BN_gcd :: "int \<Rightarrow> int \<Rightarrow> int" where
  "BN_gcd a num =
     (if a = 0 then \<bar>num\<bar> else if num = 0 then \<bar>a\<bar>
      else let (x, y, g) = common_twos \<bar>a\<bar> \<bar>num\<bar> in gcd_loop x y * 2 ^ g)"

section \<open>Reduction contexts\<close>

datatype prime_name = K256 | P224 | P192 | P25519

text \<open>\<open>MPrime\<close>: the prime \<open>p = 2 ^ n - k\<close>.\<close>

definition prime_n :: "prime_name \<Rightarrow> nat" where
  "prime_n name = (case name of K256 \<Rightarrow> 256 | P224 \<Rightarrow> 224 | P192 \<Rightarrow> 192 | P25519 \<Rightarrow> 255)"

definition prime_p :: "prime_name \<Rightarrow> int" where
  "prime_p name =
     (case name of
        K256 \<Rightarrow> 0xfffffffffffffffffffffffffffffffffffffffffffffffffffffffefffffc2f
      | P224 \<Rightarrow> 0xffffffffffffffffffffffffffffffff000000000000000000000001
      | P192 \<Rightarrow> 0xfffffffffffffffffffffffffffffffeffffffffffffffff
      | P25519 \<Rightarrow> 0x7fffffffffffffffffffffffffffffffffffffffffffffffffffffffffffffed)"

definition prime_k :: "prime_name \<Rightarrow> int" where
  "prime_k name = 2 ^ prime_n name - prime_p name"

text \<open>One round of \<open>ireduce\<close>: \<open>split\<close> cuts off the low \<open>n\<close> bits, \<open>imulK\<close> multiplies the rest by \<open>k\<close>.\<close>

definition MPrime_round :: "prime_name \<Rightarrow> int \<Rightarrow> int" where
  "MPrime_round name r = BN_ushrn r (prime_n name) * prime_k name + r mod 2 ^ prime_n name"

lemma prime_p_bounds: "0 < prime_p name" "prime_p name < 2 ^ prime_n name"
  by (cases name; simp add: prime_p_def prime_n_def)+

lemma MPrime_round_less:
  assumes "0 \<le> r"
  shows "MPrime_round name r = r - r div 2 ^ prime_n name * prime_p name"
    "r < 2 ^ prime_n name \<Longrightarrow> MPrime_round name r = r"
    "2 ^ prime_n name \<le> r \<Longrightarrow> MPrime_round name r < r"
    "0 \<le> MPrime_round name r"
proof -
  let ?N = "2 ^ prime_n name :: int"
  show *: "MPrime_round name r = r - r div ?N * prime_p name"
    using assms mult_div_mod_eq [of ?N r] by (simp add: MPrime_round_def BN_ushrn_def prime_k_def algebra_simps)
  show "r < ?N \<Longrightarrow> MPrime_round name r = r" using * assms by simp
  show "MPrime_round name r < r" if "?N \<le> r"
  proof -
    have "0 < r div ?N" using that by (simp add: pos_imp_zdiv_pos_iff)
    then show ?thesis using * prime_p_bounds(1) [of name] by simp
  qed
  have "0 \<le> prime_k name" using prime_p_bounds(2) [of name] by (simp add: prime_k_def)
  then show "0 \<le> MPrime_round name r" using assms by (simp add: MPrime_round_def BN_ushrn_def pos_imp_zdiv_nonneg_iff)
qed

function ireduce_loop :: "prime_name \<Rightarrow> int \<Rightarrow> int" where
  "ireduce_loop name r =
     (if r < 0 then r
      else let r' = MPrime_round name r in if 2 ^ prime_n name \<le> r' then ireduce_loop name r' else r')"
  by pat_completeness auto
termination
proof (relation "measure (\<lambda>(name, r). nat r)")
  fix name :: prime_name and r r' :: int
  assume *: "\<not> r < 0" "r' = MPrime_round name r" "2 ^ prime_n name \<le> r'"
  then have "2 ^ prime_n name \<le> r" using MPrime_round_less(2) [of r name] by linarith
  then show "((name, r'), name, r) \<in> measure (\<lambda>(name, r). nat r)"
    using * MPrime_round_less(3,4) [of r name] by simp
qed simp

declare ireduce_loop.simps [simp del]

definition MPrime_ireduce :: "prime_name \<Rightarrow> int \<Rightarrow> int" where
  "MPrime_ireduce name num =
     (let r = ireduce_loop name num
      in if r = prime_p name then 0 else if prime_p name < r then r - prime_p name else r)"

record red =
  red_m :: int
  red_prime :: "prime_name option"

text \<open>\<open>Red\<close> of a name and of a number.\<close>

definition Red_named :: "prime_name \<Rightarrow> red" where
  "Red_named name = \<lparr>red_m = prime_p name, red_prime = Some name\<rparr>"

definition Red_number :: "int \<Rightarrow> red result" where
  "Red_number m =
     (if m \<le> 1 then Inl (PlainError ''modulus must be greater than 1'') else Inr \<lparr>red_m = m, red_prime = None\<rparr>)"

definition Red_imod :: "red \<Rightarrow> int \<Rightarrow> int" where
  "Red_imod r a = (case red_prime r of Some name \<Rightarrow> MPrime_ireduce name a | None \<Rightarrow> BN_umod a (red_m r))"

definition Red_neg :: "red \<Rightarrow> int \<Rightarrow> int" where
  "Red_neg r a = (if a = 0 then 0 else red_m r - a)"

definition Red_add :: "red \<Rightarrow> int \<Rightarrow> int \<Rightarrow> int" where
  "Red_add r a b = (let res = a + b in if red_m r \<le> res then res - red_m r else res)"

definition Red_sub :: "red \<Rightarrow> int \<Rightarrow> int \<Rightarrow> int" where
  "Red_sub r a b = (let res = a - b in if res < 0 then res + red_m r else res)"

definition Red_shl :: "red \<Rightarrow> int \<Rightarrow> nat \<Rightarrow> int" where
  "Red_shl r a num = Red_imod r (a * 2 ^ num)"

definition Red_mul :: "red \<Rightarrow> int \<Rightarrow> int \<Rightarrow> int" where
  "Red_mul r a b = Red_imod r (a * b)"

definition Red_sqr :: "red \<Rightarrow> int \<Rightarrow> int" where
  "Red_sqr r a = Red_mul r a a"

definition Red_invm :: "red \<Rightarrow> int \<Rightarrow> int" where
  "Red_invm r a =
     (let inv = BN_invmp a (red_m r) in if inv < 0 then Red_neg r (Red_imod r (- inv)) else Red_imod r inv)"

definition Red_convertTo :: "red \<Rightarrow> int \<Rightarrow> int" where
  "Red_convertTo r num = BN_umod num (red_m r)"

text \<open>
  \<open>pow\<close> reads the bits from the highest to the lowest and collects them in windows of four.  \<open>started\<close> is the outcome of
  \<open>res !== wnd[0]\<close>: every product is a new object.
\<close>

fun BN_bits :: "nat \<Rightarrow> bool list" where
  "BN_bits e = (if e = 0 then [] else BN_bits (e div 2) @ [odd e])"

declare BN_bits.simps [simp del]

definition pow_window :: "red \<Rightarrow> int \<Rightarrow> int list" where
  "pow_window r a = foldl (\<lambda>wnd _. wnd @ [Red_mul r (last wnd) a]) [Red_convertTo r 1, a] [2..<16]"

fun pow_loop :: "red \<Rightarrow> int list \<Rightarrow> int \<Rightarrow> bool \<Rightarrow> nat \<Rightarrow> nat \<Rightarrow> bool list \<Rightarrow> int" where
  "pow_loop r wnd res started current currentLen [] = res"
| "pow_loop r wnd res started current currentLen (b # bits) =
     (let res = (if started then Red_sqr r res else res) in
      if \<not> b \<and> current = 0 then pow_loop r wnd res started 0 0 bits
      else
        let current = 2 * current + of_bool b; currentLen = currentLen + 1
        in if currentLen \<noteq> 4 \<and> bits \<noteq> [] then pow_loop r wnd res started current currentLen bits
           else pow_loop r wnd (Red_mul r res (wnd ! current)) True 0 0 bits)"

definition Red_pow :: "red \<Rightarrow> int \<Rightarrow> nat \<Rightarrow> int" where
  "Red_pow r a num =
     (if num = 0 then Red_convertTo r 1
      else if num = 1 then a
      else let wnd = pow_window r a in pow_loop r wnd (wnd ! 0) False 0 0 (BN_bits num))"

text \<open>\<open>sqrt\<close> for moduli that are 3 modulo 4, as the one of secp256k1; the other branch is not modelled.\<close>

definition Red_sqrt :: "red \<Rightarrow> int \<Rightarrow> int" where
  "Red_sqrt r a = (if a = 0 then 0 else Red_pow r a (nat (BN_ushrn (red_m r + 1) 2)))"

end
