(* ===== verification/Curve.thy ===== *)
theory Curve
  imports Modular
begin

text \<open>
  The short Weierstrass curves of the elliptic library in magnachain.js: arithmetic modulo a prime (\<open>BN\<close> with a
  reduction context), affine points (\<open>ShortPoint\<close>), Jacobian points (\<open>JPoint\<close>), with the checks of curve points.
  The in-place operations (\<open>redIAdd\<close>, \<open>redISub\<close>) have the values of the others, because their first operand is not
  read again.
\<close>

section \<open>Curves and points\<close>

datatype point = Infinity | Affine int int

record jpoint =
  jx :: int
  jy :: int
  jz :: int
  zOne :: bool

record endomorphism =
  endo_beta :: int
  endo_lambda :: int
  endo_v1 :: "int \<times> int"
  endo_v2 :: "int \<times> int"

record short_curve =
  c_red :: red
  c_a :: int
  c_b :: int
  c_n :: int
  c_endo :: "endomorphism option"

abbreviation c_p :: "short_curve \<Rightarrow> int" where
  "c_p cv \<equiv> red_m (c_red cv)"

abbreviation redAdd :: "short_curve \<Rightarrow> int \<Rightarrow> int \<Rightarrow> int" where
  "redAdd cv \<equiv> Red_add (c_red cv)"

abbreviation redSub :: "short_curve \<Rightarrow> int \<Rightarrow> int \<Rightarrow> int" where
  "redSub cv \<equiv> Red_sub (c_red cv)"

abbreviation redMul :: "short_curve \<Rightarrow> int \<Rightarrow> int \<Rightarrow> int" where
  "redMul cv \<equiv> Red_mul (c_red cv)"

abbreviation redSqr :: "short_curve \<Rightarrow> int \<Rightarrow> int" where
  "redSqr cv \<equiv> Red_sqr (c_red cv)"

abbreviation redNeg :: "short_curve \<Rightarrow> int \<Rightarrow> int" where
  "redNeg cv \<equiv> Red_neg (c_red cv)"

abbreviation redInvm :: "short_curve \<Rightarrow> int \<Rightarrow> int" where
  "redInvm cv \<equiv> Red_invm (c_red cv)"

abbreviation toRed :: "short_curve \<Rightarrow> int \<Rightarrow> int" where
  "toRed cv \<equiv> Red_convertTo (c_red cv)"

definition zeroA :: "short_curve \<Rightarrow> bool" where
  "zeroA cv \<longleftrightarrow> c_a cv = 0"

definition threeA :: "short_curve \<Rightarrow> bool" where
  "threeA cv \<longleftrightarrow> c_a cv - c_p cv = - 3"

section \<open>Affine points\<close>

text \<open>\<open>curve.point(x, y)\<close> reduces its coordinates.\<close>

definition curve_point :: "short_curve \<Rightarrow> int \<Rightarrow> int \<Rightarrow> point" where
  "curve_point cv x y = Affine (toRed cv x) (toRed cv y)"

definition ShortPoint_neg :: "short_curve \<Rightarrow> point \<Rightarrow> point" where
  "ShortPoint_neg cv P = (case P of Infinity \<Rightarrow> Infinity | Affine x y \<Rightarrow> curve_point cv x (redNeg cv y))"

definition ShortPoint_dbl :: "short_curve \<Rightarrow> point \<Rightarrow> point" where
  "ShortPoint_dbl cv P =
     (case P of
        Infinity \<Rightarrow> Infinity
      | Affine x y \<Rightarrow>
          let ys1 = redAdd cv y y in
          if ys1 = 0 then Infinity
          else
            let x2 = redSqr cv x;
                dyinv = redInvm cv ys1;
                c = redMul cv (redAdd cv (redAdd cv (redAdd cv x2 x2) x2) (c_a cv)) dyinv;
                nx = redSub cv (redSqr cv c) (redAdd cv x x);
                ny = redSub cv (redMul cv c (redSub cv x nx)) y
            in curve_point cv nx ny)"

definition ShortPoint_add :: "short_curve \<Rightarrow> point \<Rightarrow> point \<Rightarrow> point" where
  "ShortPoint_add cv P Q =
     (case P of
        Infinity \<Rightarrow> Q
      | Affine x1 y1 \<Rightarrow>
          (case Q of
             Infinity \<Rightarrow> P
           | Affine x2 y2 \<Rightarrow>
               if P = Q then ShortPoint_dbl cv P
               else if ShortPoint_neg cv P = Q then Infinity
               else if x1 = x2 then Infinity
               else
                 let c = redSub cv y1 y2;
                     c = (if c \<noteq> 0 then redMul cv c (redInvm cv (redSub cv x1 x2)) else c);
                     nx = redSub cv (redSub cv (redSqr cv c) x1) x2;
                     ny = redSub cv (redMul cv c (redSub cv x1 nx)) y1
                 in curve_point cv nx ny))"

text \<open>\<open>pointFromX\<close> and \<open>validate\<close> of the curve.\<close>

definition curve_rhs :: "short_curve \<Rightarrow> int \<Rightarrow> int" where
  "curve_rhs cv x = redAdd cv (redAdd cv (redMul cv (redSqr cv x) x) (redMul cv x (c_a cv))) (c_b cv)"

definition ShortCurve_pointFromX :: "short_curve \<Rightarrow> int \<Rightarrow> bool \<Rightarrow> point result" where
  "ShortCurve_pointFromX cv x isodd =
     (let x = toRed cv x;
          y2 = curve_rhs cv x;
          y = Red_sqrt (c_red cv) y2
      in if redSub cv (redSqr cv y) y2 \<noteq> 0 then Inl (PlainError ''invalid point'')
         else Inr (curve_point cv x (if (isodd \<and> even y) \<or> (\<not> isodd \<and> odd y) then redNeg cv y else y)))"

definition ShortCurve_validate :: "short_curve \<Rightarrow> point \<Rightarrow> bool" where
  "ShortCurve_validate cv P =
     (case P of
        Infinity \<Rightarrow> True
      | Affine x y \<Rightarrow> redSub cv (redSqr cv y) (curve_rhs cv x) = 0)"

section \<open>Jacobian points\<close>

definition jinf :: "short_curve \<Rightarrow> jpoint" where
  "jinf cv = \<lparr>jx = 1, jy = 1, jz = 0, zOne = False\<rparr>"

definition curve_jpoint :: "int \<Rightarrow> int \<Rightarrow> int \<Rightarrow> jpoint" where
  "curve_jpoint x y z = \<lparr>jx = x, jy = y, jz = z, zOne = False\<rparr>"

definition JPoint_isInfinity :: "jpoint \<Rightarrow> bool" where
  "JPoint_isInfinity J \<longleftrightarrow> jz J = 0"

definition ShortPoint_toJ :: "short_curve \<Rightarrow> point \<Rightarrow> jpoint" where
  "ShortPoint_toJ cv P =
     (case P of Infinity \<Rightarrow> jinf cv | Affine x y \<Rightarrow> \<lparr>jx = x, jy = y, jz = 1, zOne = True\<rparr>)"

definition JPoint_toP :: "short_curve \<Rightarrow> jpoint \<Rightarrow> point" where
  "JPoint_toP cv J =
     (if JPoint_isInfinity J then Infinity
      else
        let zinv = redInvm cv (jz J); zinv2 = redSqr cv zinv;
            ax = redMul cv (jx J) zinv2;
            ay = redMul cv (redMul cv (jy J) zinv2) zinv
        in curve_point cv ax ay)"

text \<open>The negated point keeps the object \<open>z\<close>, and with it \<open>zOne\<close>.\<close>

definition JPoint_neg :: "short_curve \<Rightarrow> jpoint \<Rightarrow> jpoint" where
  "JPoint_neg cv J = J\<lparr>jy := redNeg cv (jy J)\<rparr>"

definition red_twice :: "short_curve \<Rightarrow> int \<Rightarrow> int" where
  "red_twice cv a = redAdd cv a a"

definition JPoint_zeroDbl :: "short_curve \<Rightarrow> jpoint \<Rightarrow> jpoint" where
  "JPoint_zeroDbl cv J =
     (if zOne J then
        let xx = redSqr cv (jx J);
            yy = redSqr cv (jy J);
            yyyy = redSqr cv yy;
            s = redSub cv (redSub cv (redSqr cv (redAdd cv (jx J) yy)) xx) yyyy;
            s = red_twice cv s;
            m = redAdd cv (redAdd cv xx xx) xx;
            t = redSub cv (redSub cv (redSqr cv m) s) s;
            yyyy8 = red_twice cv (red_twice cv (red_twice cv yyyy));
            nx = t;
            ny = redSub cv (redMul cv m (redSub cv s t)) yyyy8;
            nz = redAdd cv (jy J) (jy J)
        in curve_jpoint nx ny nz
      else
        let a = redSqr cv (jx J);
            b = redSqr cv (jy J);
            c = redSqr cv b;
            d = redSub cv (redSub cv (redSqr cv (redAdd cv (jx J) b)) a) c;
            d = red_twice cv d;
            e = redAdd cv (redAdd cv a a) a;
            f = redSqr cv e;
            c8 = red_twice cv (red_twice cv (red_twice cv c));
            nx = redSub cv (redSub cv f d) d;
            ny = redSub cv (redMul cv e (redSub cv d nx)) c8;
            nz = red_twice cv (redMul cv (jy J) (jz J))
        in curve_jpoint nx ny nz)"

definition JPoint_threeDbl :: "short_curve \<Rightarrow> jpoint \<Rightarrow> jpoint" where
  "JPoint_threeDbl cv J =
     (if zOne J then
        let xx = redSqr cv (jx J);
            yy = redSqr cv (jy J);
            yyyy = redSqr cv yy;
            s = redSub cv (redSub cv (redSqr cv (redAdd cv (jx J) yy)) xx) yyyy;
            s = red_twice cv s;
            m = redAdd cv (redAdd cv (redAdd cv xx xx) xx) (c_a cv);
            t = redSub cv (redSub cv (redSqr cv m) s) s;
            nx = t;
            yyyy8 = red_twice cv (red_twice cv (red_twice cv yyyy));
            ny = redSub cv (redMul cv m (redSub cv s t)) yyyy8;
            nz = redAdd cv (jy J) (jy J)
        in curve_jpoint nx ny nz
      else
        let delta = redSqr cv (jz J);
            gamma = redSqr cv (jy J);
            beta = redMul cv (jx J) gamma;
            alpha = redMul cv (redSub cv (jx J) delta) (redAdd cv (jx J) delta);
            alpha = redAdd cv (redAdd cv alpha alpha) alpha;
            beta4 = red_twice cv (red_twice cv beta);
            beta8 = redAdd cv beta4 beta4;
            nx = redSub cv (redSqr cv alpha) beta8;
            nz = redSub cv (redSub cv (redSqr cv (redAdd cv (jy J) (jz J))) gamma) delta;
            ggamma8 = red_twice cv (red_twice cv (red_twice cv (redSqr cv gamma)));
            ny = redSub cv (redMul cv alpha (redSub cv beta4 nx)) ggamma8
        in curve_jpoint nx ny nz)"

definition JPoint_dbl_general :: "short_curve \<Rightarrow> jpoint \<Rightarrow> jpoint" where
  "JPoint_dbl_general cv J =
     (let jz4 = redSqr cv (redSqr cv (jz J));
          jx2 = redSqr cv (jx J);
          jy2 = redSqr cv (jy J);
          c = redAdd cv (redAdd cv (redAdd cv jx2 jx2) jx2) (redMul cv (c_a cv) jz4);
          jxd4 = red_twice cv (redAdd cv (jx J) (jx J));
          t1 = redMul cv jxd4 jy2;
          nx = redSub cv (redSqr cv c) (redAdd cv t1 t1);
          t2 = redSub cv t1 nx;
          jyd8 = red_twice cv (red_twice cv (red_twice cv (redSqr cv jy2)));
          ny = redSub cv (redMul cv c t2) jyd8;
          nz = redMul cv (redAdd cv (jy J) (jy J)) (jz J)
      in curve_jpoint nx ny nz)"

definition JPoint_dbl :: "short_curve \<Rightarrow> jpoint \<Rightarrow> jpoint" where
  "JPoint_dbl cv J =
     (if JPoint_isInfinity J then J
      else if zeroA cv then JPoint_zeroDbl cv J
      else if threeA cv then JPoint_threeDbl cv J
      else JPoint_dbl_general cv J)"

definition JPoint_add :: "short_curve \<Rightarrow> jpoint \<Rightarrow> jpoint \<Rightarrow> jpoint" where
  "JPoint_add cv J K =
     (if JPoint_isInfinity J then K
      else if JPoint_isInfinity K then J
      else
        let pz2 = redSqr cv (jz K);
            z2 = redSqr cv (jz J);
            u1 = redMul cv (jx J) pz2;
            u2 = redMul cv (jx K) z2;
            s1 = redMul cv (jy J) (redMul cv pz2 (jz K));
            s2 = redMul cv (jy K) (redMul cv z2 (jz J));
            h = redSub cv u1 u2;
            r = redSub cv s1 s2
        in if h = 0 then (if r \<noteq> 0 then jinf cv else JPoint_dbl cv J)
           else
             let h2 = redSqr cv h;
                 h3 = redMul cv h2 h;
                 v = redMul cv u1 h2;
                 nx = redSub cv (redSub cv (redAdd cv (redSqr cv r) h3) v) v;
                 ny = redSub cv (redMul cv r (redSub cv v nx)) (redMul cv s1 h3);
                 nz = redMul cv (redMul cv (jz J) (jz K)) h
             in curve_jpoint nx ny nz)"

definition JPoint_mixedAdd :: "short_curve \<Rightarrow> jpoint \<Rightarrow> point \<Rightarrow> jpoint" where
  "JPoint_mixedAdd cv J P =
     (if JPoint_isInfinity J then ShortPoint_toJ cv P
      else case P of
        Infinity \<Rightarrow> J
      | Affine x y \<Rightarrow>
          let z2 = redSqr cv (jz J);
              u1 = jx J;
              u2 = redMul cv x z2;
              s1 = jy J;
              s2 = redMul cv (redMul cv y z2) (jz J);
              h = redSub cv u1 u2;
              r = redSub cv s1 s2
          in if h = 0 then (if r \<noteq> 0 then jinf cv else JPoint_dbl cv J)
             else
               let h2 = redSqr cv h;
                   h3 = redMul cv h2 h;
                   v = redMul cv u1 h2;
                   nx = redSub cv (redSub cv (redAdd cv (redSqr cv r) h3) v) v;
                   ny = redSub cv (redMul cv r (redSub cv v nx)) (redMul cv s1 h3);
                   nz = redMul cv (jz J) h
               in curve_jpoint nx ny nz)"

text \<open>One iteration of the loop of \<open>dblp\<close> for general curves, on \<open>jx\<close>, \<open>jyd\<close>, \<open>jz\<close> and \<open>jz4\<close>.\<close>

definition dblp_step :: "short_curve \<Rightarrow> int \<times> int \<times> int \<times> int \<Rightarrow> int \<times> int \<times> int \<times> int" where
  "dblp_step cv = (\<lambda>(jx, jyd, jz, jz4).
     let jx2 = redSqr cv jx;
         jyd2 = redSqr cv jyd;
         jyd4 = redSqr cv jyd2;
         c = redAdd cv (redAdd cv (redAdd cv jx2 jx2) jx2) (redMul cv (c_a cv) jz4);
         t1 = redMul cv jx jyd2;
         nx = redSub cv (redSqr cv c) (redAdd cv t1 t1);
         t2 = redSub cv t1 nx;
         dny = redMul cv c t2;
         dny = redSub cv (redAdd cv dny dny) jyd4;
         nz = redMul cv jyd jz
     in (nx, dny, nz, redMul cv jz4 jyd4))"

definition JPoint_dblp :: "short_curve \<Rightarrow> jpoint \<Rightarrow> nat \<Rightarrow> jpoint" where
  "JPoint_dblp cv J pow =
     (if pow = 0 then J
      else if JPoint_isInfinity J then J
      else if zeroA cv \<or> threeA cv then (JPoint_dbl cv ^^ pow) J
      else
        let jz4 = redSqr cv (redSqr cv (jz J));
            (x, yd, z, _) = (dblp_step cv ^^ pow) (jx J, redAdd cv (jy J) (jy J), jz J, jz4)
        in curve_jpoint x (redMul cv yd (redInvm cv (toRed cv 2))) z)"

definition JPoint_eq :: "short_curve \<Rightarrow> jpoint \<Rightarrow> jpoint \<Rightarrow> bool" where
  "JPoint_eq cv J K =
     (let z2 = redSqr cv (jz J); pz2 = redSqr cv (jz K) in
      if redSub cv (redMul cv (jx J) pz2) (redMul cv (jx K) z2) \<noteq> 0 then False
      else
        let z3 = redMul cv z2 (jz J); pz3 = redMul cv pz2 (jz K)
        in redSub cv (redMul cv (jy J) pz3) (redMul cv (jy K) z3) = 0)"

end
