(* ===== verification/ModularProps.thy ===== *)
theory ModularProps
  imports Modular
begin

text \<open>
  What the algorithms of bn.js compute: division with remainder, greatest common divisors with their coefficients, inverses,
  remainders by the folding of pseudo-Mersenne primes, powers by windows, and square roots modulo primes.
\<close>

section \<open>Division\<close>

lemma BN_divmod_eq: "num \<noteq> 0 \<Longrightarrow> BN_div a num * num + BN_mod a num = a"
  unfolding BN_div_def BN_mod_def BN_divmod_def Let_def minus_mult_div_eq_mod [symmetric]
  by (auto simp: algebra_simps)

lemma BN_umod: "num \<noteq> 0 \<Longrightarrow> BN_umod a num = a mod \<bar>num\<bar>"
proof -
  assume "num \<noteq> 0"
  have neg: "(let m = - (b mod n) in if m < 0 then m + n else m) = (- b) mod n" if "0 < n" for b n :: int
    using that pos_mod_sign [of n b] pos_mod_bound [of n b]
    by (auto simp: Let_def zmod_zminus1_eq_if not_less order.antisym)
  show ?thesis
    using \<open>num \<noteq> 0\<close> neg [of num "- a"] neg [of "- num" "- a"]
    by (auto simp: BN_umod_def BN_divmod_def Let_def abs_if)
qed

lemma BN_umod_pos [simp]: "0 < num \<Longrightarrow> BN_umod a num = a mod num"
  by (simp add: BN_umod)

section \<open>Bit lengths\<close>

lemma BN_bitLength_less: "n < 2 ^ BN_bitLength n"
proof (induction n rule: BN_bitLength.induct)
  case (1 n)
  then show ?case by (cases "n = 0") (auto simp: BN_bitLength.simps [of n] BN_bitLength.simps [of 0])
qed

lemma BN_bitLength_lower: "0 < n \<Longrightarrow> 2 ^ (BN_bitLength n - 1) \<le> n"
proof (induction n rule: BN_bitLength.induct)
  case (1 n)
  show ?case
  proof (cases "n div 2 = 0")
    case True
    then have "BN_bitLength n = 1" using "1.prems" by (simp add: BN_bitLength.simps [of n] BN_bitLength.simps [of 0])
    then show ?thesis using "1.prems" by simp
  next
    case False
    then obtain k where k: "BN_bitLength (n div 2) = Suc k" by (simp add: BN_bitLength.simps [of "n div 2"])
    have "2 ^ k \<le> n div 2" using "1.IH" "1.prems" False k by simp
    then show ?thesis using "1.prems" k by (simp add: BN_bitLength.simps [of n])
  qed
qed

lemma BN_bitLength_upper: "n < 2 ^ k \<Longrightarrow> BN_bitLength n \<le> k"
proof (induction k arbitrary: n)
  case (Suc k)
  then have "BN_bitLength (n div 2) \<le> k" by (simp add: less_mult_imp_div_less mult.commute)
  then show ?case by (simp add: BN_bitLength.simps [of n])
qed (simp add: BN_bitLength.simps)

section \<open>Prime moduli\<close>

definition prime_mod :: "int \<Rightarrow> bool" where
  "prime_mod p \<longleftrightarrow> 1 < p \<and> (\<forall>d. 0 < d \<longrightarrow> d dvd p \<longrightarrow> d = 1 \<or> d = p)"

lemma prime_mod_gt: "prime_mod p \<Longrightarrow> 1 < p"
  by (simp add: prime_mod_def)

lemma prime_mod_coprime:
  assumes "prime_mod p" "\<not> p dvd a"
  shows "coprime a p"
proof -
  have g: "gcd a p dvd p" "gcd a p dvd a" "0 < gcd a p" using prime_mod_gt [OF assms(1)] by auto
  then have "gcd a p = 1 \<or> gcd a p = p" using assms(1) unfolding prime_mod_def by blast
  then have "gcd a p = 1" using g(2) assms(2) by metis
  then show ?thesis by (simp add: coprime_iff_gcd_eq_1)
qed

lemma prime_mod_dvd_mult:
  assumes "prime_mod p"
  shows "p dvd a * b \<longleftrightarrow> p dvd a \<or> p dvd b"
  using prime_mod_coprime [OF assms, of a] coprime_dvd_mult_right_iff [of p a b]
  by (auto simp: coprime_commute)

lemma prime_mod_dvd_power: "prime_mod p \<Longrightarrow> p dvd a ^ k \<longleftrightarrow> p dvd a \<and> 0 < k"
  by (induction k) (auto simp: prime_mod_dvd_mult dest: prime_mod_gt zdvd_imp_le)

lemma reduced_eq_iff:
  assumes "0 \<le> a" "a < p" "0 \<le> b" "b < p"
  shows "p dvd a - b \<longleftrightarrow> a = (b :: int)"
  using assms by (metis mod_eq_dvd_iff mod_pos_pos_trivial)

section \<open>The binary algorithms\<close>

lemma gcd_shift:
  fixes a b :: int
  assumes "odd (gcd a b)" "0 < a"
  shows "gcd (BN_ushrn a (tz n a)) b = gcd a b"
proof (cases "tz n a")
  case 0
  then show ?thesis using assms(2) by (simp add: BN_ushrn_def)
next
  case (Suc k)
  then have "2 ^ Suc k dvd a" using tz_dvd [of n a] by simp
  then have "even a" by (metis dvd_trans dvd_triv_left power_Suc)
  then have "odd b" using assms(1) by simp
  then have "coprime (2 ^ tz n a) b" by simp
  moreover have "a = 2 ^ tz n a * BN_ushrn a (tz n a)" using tz_shift(3) [OF assms(2), of n] by (simp only: mult.commute)
  ultimately show ?thesis by (metis gcd_mult_left_left_cancel coprime_commute)
qed

lemma half_mod_exact: "odd delta \<Longrightarrow> 2 * half_mod delta x = (if odd x then x + delta else x)"
  by (auto simp: half_mod_def BN_ushrn_def)

lemma half_mod_cong:
  assumes "odd p" "p dvd x * a0 - v * 2 ^ i"
  shows "p dvd (half_mod p ^^ i) x * a0 - v"
  using assms(2)
proof (induction i arbitrary: x)
  case (Suc i)
  have "2 * (half_mod p x * a0 - v * 2 ^ i) = (x * a0 - v * 2 ^ Suc i) + (if odd x then p * a0 else 0)"
    using half_mod_exact [OF assms(1), of x] by (simp add: algebra_simps split: if_splits)
  then have "p dvd 2 * (half_mod p x * a0 - v * 2 ^ i)" 
    by (simp only:) (use Suc.prems in \<open>auto intro!: dvd_add\<close>)
  then have "p dvd half_mod p x * a0 - v * 2 ^ i"
    using assms(1) coprime_dvd_mult_right_iff [of p 2] by (metis coprime_right_2_iff_odd)
  from Suc.IH [OF this] show ?case by (simp add: funpow_swap1)
qed simp

lemma invmp_loop_inverse:
  assumes "odd p" and "0 < b" "0 \<le> a" "coprime a b" and "p dvd x1 * a0 - a" "p dvd x2 * a0 - b"
  shows "p dvd invmp_loop p a b x1 x2 * a0 - 1"
  using assms
proof (induction p a b x1 x2 rule: invmp_loop.induct)
  case (1 p a b x1 x2)
  show ?case
  proof (cases "1 < a \<and> 1 < b")
    case False
    have "a = 1 \<or> b = 1" using "1.prems"(2-4) False by (cases "a = 0") auto
    with False "1.prems" show ?thesis by (auto simp: invmp_loop.simps [of p a b])
  next
    case True
    let ?i = "tz 26 a" and ?j = "tz 26 b"
    let ?a = "BN_ushrn a ?i" and ?b = "BN_ushrn b ?j" and ?x1 = "(half_mod p ^^ ?i) x1" and ?x2 = "(half_mod p ^^ ?j) x2"
    have s: "0 < ?a" "0 < ?b" "?a * 2 ^ ?i = a" "?b * 2 ^ ?j = b" using tz_shift True by simp_all
    have "coprime (?a * 2 ^ ?i) (?b * 2 ^ ?j)" using "1.prems"(4) s by simp
    then have c: "coprime ?a ?b" by simp
    have x: "p dvd ?x1 * a0 - ?a" "p dvd ?x2 * a0 - ?b"
      by (rule half_mod_cong; use "1.prems"(1,5,6) s in simp)+
    show ?thesis
    proof (cases "?b \<le> ?a")
      case le: True
      have "p dvd (?x1 - ?x2) * a0 - (?a - ?b)" using dvd_diff [OF x] by (simp add: algebra_simps)
      moreover have "coprime (?a - ?b) ?b" using c by (metis coprime_iff_gcd_eq_1 gcd_diff1)
      ultimately have "p dvd invmp_loop p (?a - ?b) ?b (?x1 - ?x2) ?x2 * a0 - 1"
        using "1.IH"(1) [OF True refl refl refl refl refl refl le] "1.prems"(1) s le x(2) by simp
      then show ?thesis using True le by (simp add: invmp_loop.simps [of p a b] Let_def)
    next
      case False
      have "p dvd (?x2 - ?x1) * a0 - (?b - ?a)" using dvd_diff [OF x(2,1)] by (simp add: algebra_simps)
      moreover have "coprime ?a (?b - ?a)" using c by (metis coprime_iff_gcd_eq_1 gcd_diff1 gcd.commute)
      ultimately have "p dvd invmp_loop p ?a (?b - ?a) ?x1 (?x2 - ?x1) * a0 - 1"
        using "1.IH"(2) [OF True refl refl refl refl refl refl False] "1.prems"(1) s False x(1) by simp
      then show ?thesis using True False by (simp add: invmp_loop.simps [of p a b] Let_def)
    qed
  qed
qed

lemma BN_invmp_inverse:
  assumes "prime_mod p" "odd p" "\<not> p dvd a"
  shows "p dvd BN_invmp a p * a - 1"
proof -
  let ?a = "if a < 0 then BN_umod a p else a"
  have p: "0 < p" using prime_mod_gt [OF assms(1)] by simp
  have m: "p dvd ?a - a" using p by (simp add: mod_eq_dvd_iff [symmetric])
  then have "\<not> p dvd ?a" using assms(3) by (metis dvd_diff_right_iff dvd_minus_iff minus_diff_eq dvd_diff_left_iff)
  then have "coprime ?a p" by (rule prime_mod_coprime [OF assms(1)])
  moreover have "0 \<le> ?a" using p by simp
  moreover have "p dvd a - ?a" using m by (metis dvd_minus_iff minus_diff_eq)
  ultimately have "p dvd invmp_loop p ?a p 1 0 * a - 1"
    using invmp_loop_inverse [OF assms(2) p, of ?a 1 a 0] by simp
  moreover have "p dvd (x + p) * a - 1 \<longleftrightarrow> p dvd x * a - 1" for x
  proof -
    have "(x + p) * a - 1 = (x * a - 1) + p * a" by (simp add: algebra_simps)
    then show ?thesis by (metis dvd_add_left_iff dvd_triv_left)
  qed
  ultimately show ?thesis by (simp add: BN_invmp_def Let_def)
qed

text \<open>\<open>egcd\<close> keeps \<open>A * xp + B * yp = x\<close>; halving is exact because \<open>xp\<close> and \<open>yp\<close> are not both even.\<close>

definition combines :: "int \<Rightarrow> int \<Rightarrow> int \<times> int \<Rightarrow> int \<Rightarrow> bool" where
  "combines xp yp AB x \<longleftrightarrow> fst AB * xp + snd AB * yp = x"

lemma half_exact: "even a \<Longrightarrow> 2 * BN_ushrn a 1 = a"
  by (auto simp: BN_ushrn_def)

lemma half_pair:
  assumes "odd xp \<or> odd yp" "combines xp yp AB (2 * x)"
  shows "combines xp yp (half_pair xp yp AB) x"
proof -
  obtain A B where AB: "AB = (A, B)" by (cases AB)
  define C D where "C = (if odd A \<or> odd B then A + yp else A)" and "D = (if odd A \<or> odd B then B - xp else B)"
  have e: "A * xp + B * yp = 2 * x" using assms(2) AB by (simp add: combines_def)
  then have "even (A * xp + B * yp)" by simp
  then have "even C" "even D" using assms(1) by (auto simp: C_def D_def)
  moreover have "C * xp + D * yp = 2 * x" using e by (simp add: C_def D_def algebra_simps)
  ultimately have "2 * (BN_ushrn C 1 * xp + BN_ushrn D 1 * yp) = 2 * x"
    using half_exact [of C] half_exact [of D] by (simp add: distrib_left mult.assoc [symmetric])
  moreover have "half_pair xp yp AB = (BN_ushrn C 1, BN_ushrn D 1)" by (simp add: AB half_pair_def C_def D_def)
  ultimately show ?thesis by (simp add: combines_def)
qed

lemma half_pairs: "odd xp \<or> odd yp \<Longrightarrow> combines xp yp AB (v * 2 ^ i) \<Longrightarrow> combines xp yp ((half_pair xp yp ^^ i) AB) v"
proof (induction i arbitrary: AB)
  case (Suc i)
  then have "combines xp yp (half_pair xp yp AB) (v * 2 ^ i)" by (intro half_pair) (simp_all add: mult.left_commute)
  from Suc.IH [OF Suc.prems(1) this] show ?case by (simp add: funpow_swap1)
qed simp

lemma combines_diff: "combines xp yp AB x \<Longrightarrow> combines xp yp CD y \<Longrightarrow> combines xp yp (fst AB - fst CD, snd AB - snd CD) (x - y)"
  by (simp add: combines_def algebra_simps)

lemma egcd_loop_gcd:
  assumes "odd xp \<or> odd yp" "0 \<le> x" "0 < y" "odd (gcd x y)" "combines xp yp AB x" "combines xp yp CD y"
  shows "snd (egcd_loop xp yp x y AB CD) = gcd x y \<and>
    combines xp yp (fst (egcd_loop xp yp x y AB CD)) (gcd x y)"
  using assms
proof (induction xp yp x y AB CD rule: egcd_loop.induct)
  case (1 xp yp x y AB CD)
  show ?case
  proof (cases "0 < x \<and> 0 < y")
    case False
    then have "x = 0" using "1.prems" by simp
    with "1.prems" show ?thesis by (simp add: egcd_loop.simps [of xp yp 0 y])
  next
    case True
    let ?i = "tz 26 x" and ?j = "tz 26 y"
    let ?x = "BN_ushrn x ?i" and ?y = "BN_ushrn y ?j"
    let ?AB = "(half_pair xp yp ^^ ?i) AB" and ?CD = "(half_pair xp yp ^^ ?j) CD"
    have s: "0 < ?x" "0 < ?y" "?x * 2 ^ ?i = x" "?y * 2 ^ ?j = y" using tz_shift True by simp_all
    have "gcd ?x y = gcd x y" using gcd_shift "1.prems"(4) True by simp
    moreover from this have "gcd ?y ?x = gcd y ?x" using gcd_shift [of y ?x 26] "1.prems"(4) True by (metis gcd.commute)
    ultimately have g: "gcd ?x ?y = gcd x y" by (metis gcd.commute)
    have c: "combines xp yp ?AB ?x" "combines xp yp ?CD ?y"
      by (rule half_pairs; use "1.prems"(1,5,6) s in simp)+
    show ?thesis
    proof (cases "?y \<le> ?x")
      case le: True
      have "gcd (?x - ?y) ?y = gcd x y" using g gcd_diff1 by metis
      then show ?thesis
        using "1.IH"(1) [OF True refl refl refl refl refl refl le] "1.prems"(1,4) s le c combines_diff [OF c] True
        by (simp add: egcd_loop.simps [of xp yp x y] Let_def)
    next
      case False
      have "gcd ?x (?y - ?x) = gcd x y" using g gcd_diff1 gcd.commute by metis
      then show ?thesis
        using "1.IH"(2) [OF True refl refl refl refl refl refl False] "1.prems"(1,4) s False c combines_diff [OF c(2,1)] True
        by (simp add: egcd_loop.simps [of xp yp x y] Let_def)
    qed
  qed
qed

lemma common_twos:
  assumes "common_twos x y = (xp, yp, g)" "0 < y" "0 \<le> x"
  shows "xp * 2 ^ g = x \<and> yp * 2 ^ g = y \<and> (odd xp \<or> odd yp) \<and> 0 < yp \<and> 0 \<le> xp"
  using assms
proof (induction x y arbitrary: xp yp g rule: common_twos.induct)
  case (1 x y)
  show ?case
  proof (cases "even x \<and> even y")
    case True
    obtain xp' yp' g' where r: "common_twos (BN_ushrn x 1) (BN_ushrn y 1) = (xp', yp', g')" by (metis prod_cases3)
    have h: "2 * BN_ushrn x 1 = x" "2 * BN_ushrn y 1 = y" using True half_exact by auto
    have "0 < BN_ushrn y 1" "0 \<le> BN_ushrn x 1" using h "1.prems" by linarith+
    then have "xp' * 2 ^ g' = BN_ushrn x 1 \<and> yp' * 2 ^ g' = BN_ushrn y 1 \<and> (odd xp' \<or> odd yp') \<and> 0 < yp' \<and> 0 \<le> xp'"
      using "1.IH" [OF _ r] True "1.prems" by simp
    moreover have "xp = xp'" "yp = yp'" "g = Suc g'" using "1.prems" True r by (simp_all add: common_twos.simps [of x y])
    ultimately show ?thesis using h by (simp add: mult.left_commute)
  next
    case False
    with "1.prems" show ?thesis by (auto simp: common_twos.simps [of x y])
  qed
qed

lemma BN_egcd_bezout:
  assumes "0 < p"
  shows "\<exists>a b. BN_egcd x p = Inr (a, b, gcd x p) \<and> a * (if x < 0 then x mod p else x) + b * p = gcd x p"
proof -
  let ?x = "if x < 0 then x mod p else x"
  obtain xp yp g where t: "common_twos ?x p = (xp, yp, g)" by (metis prod_cases3)
  have c: "xp * 2 ^ g = ?x" "yp * 2 ^ g = p" "odd xp \<or> odd yp" "0 < yp" "0 \<le> xp"
    using common_twos [OF t assms] assms by auto
  obtain C D y where r: "egcd_loop xp yp xp yp (1, 0) (0, 1) = ((C, D), y)" by (metis prod.exhaust)
  have "odd (gcd xp yp)" using c(3) by auto
  then have l: "y = gcd xp yp" "C * xp + D * yp = gcd xp yp"
    using egcd_loop_gcd [OF c(3,5,4), of "(1, 0)" "(0, 1)"] r by (auto simp: combines_def)
  have "gcd xp yp * 2 ^ g = gcd ?x p" using c(1,2) gcd_mult_right [of xp "2 ^ g" yp] by (simp add: gcd.commute)
  moreover have "gcd ?x p = gcd x p" using gcd_red_int by (simp add: gcd.commute)
  moreover have "C * ?x + D * p = C * (xp * 2 ^ g) + D * (yp * 2 ^ g)" using c(1,2) by (simp only:)
  then have "C * ?x + D * p = (C * xp + D * yp) * 2 ^ g" by (simp only: distrib_right mult.assoc)
  moreover have "BN_egcd x p = Inr (C, D, y * 2 ^ g)" using assms t r by (simp add: BN_egcd_def if_distrib split: if_splits)
  ultimately show ?thesis using l by auto
qed

lemma BN_invm_inverse:
  assumes "1 < n" "coprime a n"
  shows "\<exists>i. BN_invm a n = Inr i \<and> 0 \<le> i \<and> i < n \<and> n dvd i * a - 1"
proof -
  let ?a = "if a < 0 then a mod n else a"
  obtain i j where e: "BN_egcd a n = Inr (i, j, 1)" "i * ?a + j * n = 1"
    using BN_egcd_bezout [of n a] assms by auto
  have "n dvd (i mod n) * a - 1"
  proof -
    have "((i mod n) * a) mod n = (i * ?a) mod n" by (simp add: mod_simps)
    also have "i * ?a = 1 - j * n" using e(2) by simp
    also have "(1 - j * n) mod n = 1 mod n" by (simp add: mod_diff_right_eq [symmetric])
    finally show ?thesis by (simp add: mod_eq_dvd_iff)
  qed
  then show ?thesis using e(1) assms(1) by (simp add: BN_invm_def)
qed

lemma strip_twos:
  assumes "0 < a" "odd b"
  shows "gcd (strip_twos a) b = gcd a b \<and> odd (strip_twos a)"
  using assms(1)
proof (induction a rule: strip_twos.induct)
  case (1 a)
  show ?case
  proof (cases "even a")
    case True
    then have h: "2 * BN_ushrn a 1 = a" by (rule half_exact)
    moreover have "0 < BN_ushrn a 1" using h "1.prems" by linarith
    moreover have "gcd (2 * BN_ushrn a 1) b = gcd (BN_ushrn a 1) b"
      using assms(2) by (metis gcd_mult_left_left_cancel coprime_commute coprime_right_2_iff_odd)
    ultimately show ?thesis using "1.IH" True "1.prems" by (simp add: strip_twos.simps [of a])
  next
    case False
    then show ?thesis by (simp add: strip_twos.simps [of a])
  qed
qed

lemma gcd_loop:
  assumes "0 < a" "0 < b" "odd a \<or> odd b"
  shows "gcd_loop a b = gcd a b"
  using assms
proof (induction a b rule: gcd_loop.induct)
  case (1 a b)
  let ?a = "strip_twos a" and ?b = "strip_twos b"
  have pos: "0 < ?a" "0 < ?b" using strip_twos_bounds "1.prems" by auto
  have o: "odd ?a" "odd ?b" using strip_twos [of _ 1] "1.prems" by auto
  have g: "gcd ?a ?b = gcd a b"
    using strip_twos [of a b] strip_twos [of b a] strip_twos [of b ?a] strip_twos [of a ?b] "1.prems" o by (metis gcd.commute)
  consider "?a < ?b" | "?a = ?b \<or> ?b = 1" "\<not> ?a < ?b" | "\<not> ?a < ?b" "\<not> (?a = ?b \<or> ?b = 1)" by blast
  then show ?case
  proof cases
    case 1
    then have "gcd_loop (?b - ?a) ?a = gcd (?b - ?a) ?a" using "1.IH"(1) "1.prems" pos o by simp
    also have "\<dots> = gcd a b" using g gcd_diff1 [of ?b ?a] by (simp add: gcd.commute)
    finally show ?thesis using 1 "1.prems" by (simp add: gcd_loop.simps [of a b])
  next
    case 2
    then show ?thesis using "1.prems" g pos by (auto simp: gcd_loop.simps [of a b])
  next
    case 3
    then have "gcd_loop (?a - ?b) ?b = gcd (?a - ?b) ?b" using "1.IH"(2) "1.prems" pos o by simp
    also have "\<dots> = gcd a b" using g gcd_diff1 [of ?a ?b] by simp
    finally show ?thesis using 3 "1.prems" by (simp add: gcd_loop.simps [of a b])
  qed
qed

lemma BN_gcd: "BN_gcd a b = gcd a b"
proof (cases "a = 0 \<or> b = 0")
  case False
  obtain xp yp g where t: "common_twos \<bar>a\<bar> \<bar>b\<bar> = (xp, yp, g)" by (metis prod_cases3)
  have c: "xp * 2 ^ g = \<bar>a\<bar>" "yp * 2 ^ g = \<bar>b\<bar>" "odd xp \<or> odd yp" "0 < yp" "0 \<le> xp"
    using common_twos [OF t] False by auto
  have "xp \<noteq> 0" using c(1) False by auto
  then have "gcd_loop xp yp * 2 ^ g = gcd xp yp * 2 ^ g" using gcd_loop c by simp
  also have "\<dots> = gcd (xp * 2 ^ g) (yp * 2 ^ g)" by (simp add: gcd_mult_right gcd.commute)
  also have "\<dots> = gcd a b" using c(1,2) by simp
  finally show ?thesis using False t by (simp add: BN_gcd_def)
qed (auto simp: BN_gcd_def)

section \<open>Reduction contexts\<close>

lemma wrap_mod:
  fixes a m :: int
  shows "0 \<le> a \<Longrightarrow> a < 2 * m \<Longrightarrow> (if m \<le> a then a - m else a) = a mod m"
    and "- m \<le> a \<Longrightarrow> a < m \<Longrightarrow> (if a < 0 then a + m else a) = a mod m"
proof -
  show "(if m \<le> a then a - m else a) = a mod m" if "0 \<le> a" "a < 2 * m"
    using that minus_mod_self2 [of a m] mod_pos_pos_trivial [of "a - m" m] by simp
  show "(if a < 0 then a + m else a) = a mod m" if "- m \<le> a" "a < m"
    using that mod_add_self2 [of a m] mod_pos_pos_trivial [of "a + m" m] by simp
qed

lemma MPrime_ireduce:
  assumes "0 \<le> a"
  shows "MPrime_ireduce name a = a mod prime_p name"
proof -
  let ?p = "prime_p name" and ?N = "2 ^ prime_n name :: int"
  have loop: "0 \<le> ireduce_loop name r \<and> ireduce_loop name r < ?N \<and> ireduce_loop name r mod ?p = r mod ?p" if "0 \<le> r" for r
    using that
  proof (induction name r rule: ireduce_loop.induct)
    case (1 name r)
    let ?r = "MPrime_round name r"
    have "?r mod prime_p name = r mod prime_p name"
      using MPrime_round_less(1) [OF "1.prems"] by (simp add: mod_diff_right_eq [symmetric])
    moreover have "0 \<le> ?r" using MPrime_round_less(4) "1.prems" by simp
    ultimately show ?case using "1.IH" "1.prems" by (simp add: ireduce_loop.simps [of name r] Let_def)
  qed
  define r where "r = ireduce_loop name a"
  have r: "0 \<le> r" "r < ?N" "r mod ?p = a mod ?p" using loop [OF assms] by (auto simp: r_def)
  have "?N < 2 * ?p" by (cases name) (simp_all add: prime_p_def prime_n_def)
  then have "r < 2 * ?p" using r by linarith
  then have "(if r = ?p then 0 else if ?p < r then r - ?p else r) = r mod ?p"
    using wrap_mod(1) [OF r(1), of ?p] by (auto split: if_splits)
  then show ?thesis using r by (simp add: MPrime_ireduce_def r_def [symmetric] Let_def)
qed

text \<open>A reduction context for an odd prime, and the numbers in its range.\<close>

definition field :: "red \<Rightarrow> bool" where
  "field r \<longleftrightarrow> prime_mod (red_m r) \<and> odd (red_m r) \<and> (\<forall>name. red_prime r = Some name \<longrightarrow> red_m r = prime_p name)"

definition reduced :: "red \<Rightarrow> int \<Rightarrow> bool" where
  "reduced r a \<longleftrightarrow> 0 \<le> a \<and> a < red_m r"

named_theorems red_simps \<open>operations of a reduction context as remainders\<close>

lemma field_gt: "field r \<Longrightarrow> 2 < red_m r"
  using prime_mod_gt [of "red_m r"] by (cases "red_m r = 2") (auto simp: field_def)

lemma reduced_mod [simp]: "field r \<Longrightarrow> reduced r (a mod red_m r)"
  using field_gt by (fastforce simp: reduced_def)

lemma reduced_mod_id: "reduced r a \<Longrightarrow> a mod red_m r = a"
  by (simp add: reduced_def)

lemma Red_imod [red_simps]: "field r \<Longrightarrow> 0 \<le> a \<Longrightarrow> Red_imod r a = a mod red_m r"
  using field_gt [of r] by (auto simp: Red_imod_def field_def MPrime_ireduce split: option.splits)

lemma Red_convertTo [red_simps]: "field r \<Longrightarrow> Red_convertTo r a = a mod red_m r"
  using field_gt [of r] by (simp add: Red_convertTo_def)

lemma Red_neg [red_simps]: "reduced r a \<Longrightarrow> Red_neg r a = (- a) mod red_m r"
  using wrap_mod(2) [of "red_m r" "- a"] by (auto simp: Red_neg_def reduced_def split: if_splits)

lemma Red_add [red_simps]: "reduced r a \<Longrightarrow> reduced r b \<Longrightarrow> Red_add r a b = (a + b) mod red_m r"
  using wrap_mod(1) [of "a + b" "red_m r"] by (simp add: Red_add_def reduced_def Let_def)

lemma Red_sub [red_simps]: "reduced r a \<Longrightarrow> reduced r b \<Longrightarrow> Red_sub r a b = (a - b) mod red_m r"
  using wrap_mod(2) [of "red_m r" "a - b"] by (simp add: Red_sub_def reduced_def Let_def)

lemma Red_mul [red_simps]: "field r \<Longrightarrow> reduced r a \<Longrightarrow> reduced r b \<Longrightarrow> Red_mul r a b = (a * b) mod red_m r"
  by (simp add: Red_mul_def Red_imod reduced_def)

lemma Red_sqr [red_simps]: "field r \<Longrightarrow> reduced r a \<Longrightarrow> Red_sqr r a = (a * a) mod red_m r"
  by (simp add: Red_sqr_def Red_mul)

lemma Red_shl [red_simps]: "field r \<Longrightarrow> reduced r a \<Longrightarrow> Red_shl r a k = (a * 2 ^ k) mod red_m r"
  by (simp add: Red_shl_def Red_imod reduced_def)

lemma Red_invm:
  assumes "field r" "\<not> red_m r dvd a"
  shows "red_m r dvd Red_invm r a * a - 1" "reduced r (Red_invm r a)"
proof -
  let ?m = "red_m r" and ?i = "BN_invmp a (red_m r)"
  have "Red_invm r a = ?i mod ?m"
    using assms(1) by (simp add: Red_invm_def Red_imod Red_neg Let_def mod_simps)
  moreover have "?m dvd ?i * a - 1" using BN_invmp_inverse assms by (simp add: field_def)
  ultimately show "?m dvd Red_invm r a * a - 1" "reduced r (Red_invm r a)"
    using assms(1) by (simp_all add: mod_eq_dvd_iff [symmetric] mod_simps)
qed

lemma Red_invm_reduced [simp]: "field r \<Longrightarrow> reduced r (Red_invm r a)"
  by (simp add: Red_invm_def Red_imod Red_neg Let_def mod_simps)

section \<open>Powers\<close>

lemma pow_window:
  assumes "field r" "reduced r a"
  shows "length (pow_window r a) = 16" "i < 16 \<Longrightarrow> pow_window r a ! i = a ^ i mod red_m r"
proof -
  have "length (foldl (\<lambda>wnd _. wnd @ [Red_mul r (last wnd) a]) [Red_convertTo r 1, a] [2..<n]) = n \<and>
    (\<forall>i < n. foldl (\<lambda>wnd _. wnd @ [Red_mul r (last wnd) a]) [Red_convertTo r 1, a] [2..<n] ! i = a ^ i mod red_m r)"
    if "2 \<le> n" for n
    using that
  proof (induction n rule: nat_induct_at_least)
    case base
    then show ?case using assms by (auto simp: Red_convertTo reduced_mod_id less_Suc_eq numeral_2_eq_2)
  next
    case (Suc n)
    let ?w = "foldl (\<lambda>wnd _. wnd @ [Red_mul r (last wnd) a]) [Red_convertTo r 1, a] [2..<n]"
    have l: "last ?w = a ^ (n - 1) mod red_m r" using Suc by (subst last_conv_nth) auto
    have "Red_mul r (last ?w) a = a ^ n mod red_m r"
      unfolding l using assms Suc.hyps by (simp add: Red_mul mod_simps power_eq_if [of a n] mult.commute)
    then show ?case using Suc by (auto simp: nth_append less_Suc_eq)
  qed
  from this [of 16] show "length (pow_window r a) = 16" "i < 16 \<Longrightarrow> pow_window r a ! i = a ^ i mod red_m r"
    by (simp_all add: pow_window_def)
qed

fun bits_value :: "nat \<Rightarrow> bool list \<Rightarrow> nat" where
  "bits_value v [] = v"
| "bits_value v (b # bs) = bits_value (2 * v + of_bool b) bs"

lemma bits_value_append: "bits_value v (xs @ ys) = bits_value (bits_value v xs) ys"
  by (induction v xs rule: bits_value.induct) auto

lemma BN_bits_value: "bits_value 0 (BN_bits e) = e"
proof (induction e rule: BN_bits.induct)
  case (1 e)
  then show ?case
    by (cases "e = 0") (auto simp: BN_bits.simps [of e] BN_bits.simps [of 0] bits_value_append elim!: oddE)
qed

lemma pow_loop:
  assumes "field r" "reduced r a" and "current < 2 ^ len" "len < 4" "reduced r res" "\<not> started \<longrightarrow> res = 1"
    and "red_m r dvd res * a ^ current - a ^ v" and "bits = [] \<longrightarrow> current = 0"
  shows "pow_loop r (pow_window r a) res started current len bits = a ^ bits_value v bits mod red_m r"
  using assms(3-)
proof (induction bits arbitrary: res started current len v)
  case Nil
  then show ?case by (simp add: mod_eq_dvd_iff [symmetric] reduced_mod_id)
next
  case (Cons b bits)
  let ?m = "red_m r"
  define res' where "res' = (if started then Red_sqr r res else res)"
  define cur where "cur = 2 * current + of_bool b"
  have res': "reduced r res'" "res' = res * res mod ?m"
    using Cons.prems(3,4) assms(1) by (auto simp: res'_def Red_sqr reduced_mod_id)
  have "res * res * a ^ cur = (res * a ^ current) * (res * a ^ current) * a ^ of_bool b"
    by (simp only: cur_def power_add mult_2) (simp add: mult.assoc mult.left_commute)
  then have "(res' * a ^ cur) mod ?m = ((res * a ^ current) * (res * a ^ current) * a ^ of_bool b) mod ?m"
    unfolding res'(2) mod_mult_left_eq by (rule arg_cong)
  also have "\<dots> = (a ^ v * a ^ v * a ^ of_bool b) mod ?m"
    using Cons.prems(5) by (intro mod_mult_cong refl) (simp_all add: mod_eq_dvd_iff)
  also have "a ^ v * a ^ v * a ^ of_bool b = a ^ (2 * v + of_bool b)" by (simp add: power_add mult_2)
  finally have c: "(res' * a ^ cur) mod ?m = a ^ (2 * v + of_bool b) mod ?m" .
  have one: "res' = 1" if "\<not> started" using that Cons.prems(4) by (simp add: res'_def)
  have cur16: "cur < 2 ^ Suc len" "cur < 16"
    using Cons.prems(1,2) power_increasing [of "Suc len" 4 "2 :: nat"] by (auto simp: cur_def)
  consider "\<not> b" "current = 0" | "b \<or> current \<noteq> 0" "Suc len \<noteq> 4" "bits \<noteq> []"
    | "b \<or> current \<noteq> 0" "Suc len = 4 \<or> bits = []" by blast
  then show ?case
  proof cases
    case 1
    then have "?m dvd res' * a ^ 0 - a ^ (2 * v)" using c by (simp add: cur_def mod_eq_dvd_iff)
    from Cons.IH [of 0 0 res' started "2 * v", OF _ _ res'(1) _ this] show ?thesis
      using 1 one by (simp add: res'_def Let_def)
  next
    case 2
    have "?m dvd res' * a ^ cur - a ^ (2 * v + of_bool b)" using c by (simp add: mod_eq_dvd_iff)
    from Cons.IH [OF cur16(1) _ res'(1) _ this] show ?thesis
      using 2 one Cons.prems(2) by (auto simp: res'_def cur_def Let_def)
  next
    case 3
    let ?r = "Red_mul r res' (pow_window r a ! cur)"
    have e: "?r = (res' * a ^ cur) mod ?m"
      using assms(1,2) res'(1) cur16(2) by (simp add: pow_window Red_mul mod_simps)
    have "?m dvd ?r * a ^ 0 - a ^ (2 * v + of_bool b)" using c e by (simp add: mod_eq_dvd_iff [symmetric])
    from Cons.IH [of 0 0 ?r True, OF _ _ _ _ this] show ?thesis
      using 3 assms(1) e by (auto simp: res'_def [symmetric] cur_def [symmetric] Let_def)
  qed
qed

lemma Red_pow [red_simps]:
  assumes "field r" "reduced r a"
  shows "Red_pow r a e = a ^ e mod red_m r"
proof -
  consider "e = 0" | "e = 1" | "1 < e" by linarith
  then show ?thesis
  proof cases
    case 3
    have "pow_window r a ! 0 = 1" using pow_window(2) [OF assms, of 0] field_gt [OF assms(1)] by simp
    moreover have "reduced r 1" using field_gt [OF assms(1)] by (simp add: reduced_def)
    moreover have "BN_bits e \<noteq> []" using 3 by (simp add: BN_bits.simps [of e])
    ultimately show ?thesis
      using 3 pow_loop [OF assms, of 0 0 1 False 0 "BN_bits e"] by (simp add: Red_pow_def BN_bits_value)
  qed (use assms in \<open>simp_all add: Red_pow_def Red_convertTo reduced_mod_id\<close>)
qed

section \<open>Square roots\<close>

lemma prime_choose:
  assumes "prime_mod (int P)" "0 < k" "k < P"
  shows "int P dvd int (P choose k)"
proof -
  have "k * (P choose k) = P * ((P - 1) choose (k - 1))"
    using binomial_absorption [of "k - 1" P] assms(2) by simp
  then have "int P dvd int k * int (P choose k)" by (metis dvd_triv_left of_nat_mult)
  moreover have "\<not> int P dvd int k" using assms(2,3) by (simp add: nat_dvd_not_less)
  ultimately show ?thesis using prime_mod_dvd_mult [OF assms(1)] by blast
qed

lemma freshman:
  assumes "prime_mod (int P)"
  shows "int P dvd (x + 1) ^ P - (x ^ P + 1)"
proof -
  have P: "0 < P" using prime_mod_gt [OF assms] by simp
  have "(x + 1) ^ P = (\<Sum>k\<le>P. int (P choose k) * x ^ k)" using binomial_ring [of x 1 P] by simp
  also have "{..P} = insert 0 (insert P {0<..<P})" using P by auto
  also have "(\<Sum>k\<in>insert 0 (insert P {0<..<P}). int (P choose k) * x ^ k) = 1 + (x ^ P + (\<Sum>k\<in>{0<..<P}. int (P choose k) * x ^ k))"
    using P by simp
  finally have "(x + 1) ^ P - (x ^ P + 1) = (\<Sum>k\<in>{0<..<P}. int (P choose k) * x ^ k)" by simp
  also have "int P dvd \<dots>" by (rule dvd_sum) (auto intro!: dvd_mult2 prime_choose [OF assms])
  finally show ?thesis .
qed

lemma fermat:
  assumes "prime_mod p" "0 \<le> x"
  shows "p dvd x ^ nat p - x"
proof -
  have p: "int (nat p) = p" "0 < nat p" using prime_mod_gt [OF assms(1)] by simp_all
  have "p dvd int n ^ nat p - int n" for n
  proof (induction n)
    case (Suc n)
    have "p dvd (int n + 1) ^ nat p - (int n ^ nat p + 1)" using freshman [of "nat p" "int n"] assms(1) p by simp
    from dvd_add [OF this Suc] show ?case by (simp add: algebra_simps)
  qed (use p in \<open>simp add: power_0_left\<close>)
  from this [of "nat x"] show ?thesis using assms(2) by simp
qed

lemma Red_sqrt_square:
  assumes "field r" "red_m r mod 4 = 3" "reduced r z" "a = z * z mod red_m r"
  shows "Red_sqrt r a = z \<or> Red_sqrt r a = (- z) mod red_m r"
proof (cases "a = 0")
  case True
  then have "red_m r dvd z * z" using assms(4) by (simp add: dvd_eq_mod_eq_0)
  then have "red_m r dvd z" using prime_mod_dvd_mult assms(1) by (auto simp: field_def)
  then have "z = 0" using assms(3) reduced_mod_id [OF assms(3)] by (simp add: dvd_eq_mod_eq_0)
  then show ?thesis using True by (simp add: Red_sqrt_def)
next
  case False
  let ?m = "red_m r"
  define e where "e = nat (?m div 4)"
  have m: "?m = 4 * int e + 3" "2 < ?m"
    using assms(2) field_gt [OF assms(1)] mult_div_mod_eq [of 4 ?m] by (simp_all add: e_def)
  have "BN_ushrn (?m + 1) 2 = (?m + 1) div 4" using m by (simp add: BN_ushrn_def)
  also have "\<dots> = int (Suc e)" using m by simp
  finally have e: "nat (BN_ushrn (?m + 1) 2) = Suc e" by simp
  have ra: "reduced r a" using assms(1,4) by simp
  define w where "w = (z * z) ^ Suc e mod ?m"
  have w: "Red_sqrt r a = w" "reduced r w"
    using False e Red_pow [OF assms(1) ra] assms(1) by (simp_all add: Red_sqrt_def w_def assms(4) power_mod del: power_Suc)
  have "nat ?m = 4 * e + 3" using m by linarith
  then have "?m dvd z ^ (4 * e + 3) - z" using fermat [of ?m z] assms(1,3) by (simp add: field_def reduced_def)
  then have "?m dvd z * (z ^ (4 * e + 3) - z)" by simp
  also have "z * (z ^ (4 * e + 3) - z) = (z * z) ^ Suc e * (z * z) ^ Suc e - z * z"
    by (simp add: power_add power_mult algebra_simps power4_eq_xxxx power3_eq_cube power_mult_distrib)
  finally have "?m dvd w * w - z * z" by (simp add: w_def mod_eq_dvd_iff [symmetric] mod_simps)
  then have "?m dvd (w - z) * (w + z)" by (simp add: algebra_simps)
  then have "?m dvd w - z \<or> ?m dvd w - (- z)" using prime_mod_dvd_mult assms(1) by (simp add: field_def)
  then have "w = z \<or> w = (- z) mod ?m"
    unfolding mod_eq_dvd_iff [symmetric] reduced_mod_id [OF w(2)] reduced_mod_id [OF assms(3)] .
  then show ?thesis by (simp add: w)
qed

section \<open>Properties\<close>

text \<open>
  C34: The binary algorithms of bn.js always return and are right: \<open>gcd\<close> gives the greatest common divisor; \<open>egcd\<close> gives it
  with coefficients that combine the operands to it; \<open>invm\<close> of a number prime to the modulus gives its inverse in
  \<open>[0, n)\<close>; for a modulus that is not positive \<open>egcd\<close> and \<open>invm\<close> fail their assertion.
\<close>
theorem euclid_correct:
  "BN_gcd a n = gcd a n \<and>
   (0 < n \<longrightarrow> (\<exists>x y. BN_egcd a n = Inr (x, y, gcd a n) \<and> x * (if a < 0 then a mod n else a) + y * n = gcd a n)) \<and>
   (1 < n \<longrightarrow> coprime a n \<longrightarrow> (\<exists>i. BN_invm a n = Inr i \<and> 0 \<le> i \<and> i < n \<and> (i * a) mod n = 1)) \<and>
   (n \<le> 0 \<longrightarrow> BN_invm a n = Inl (PlainError ''Assertion failed''))"
  using BN_gcd BN_egcd_bezout BN_invm_inverse [of n a]
  by (auto simp: mod_eq_dvd_iff [symmetric] BN_invm_def BN_egcd_def)

theorem euclid_correct_witness:
  "BN_gcd 48 (- 36) = 12 \<and> (\<exists>x y. BN_egcd (- 5) 7 = Inr (x, y, 1)) \<and> (\<exists>i. BN_invm 3 10 = Inr i \<and> (i * 3) mod 10 = 1)"
proof -
  have "coprime (3 :: int) 10" by code_simp
  moreover have "gcd (48 :: int) (- 36) = 12" "gcd (- 5) (7 :: int) = 1" by code_simp+
  ultimately show ?thesis
    using euclid_correct [of 48 "- 36"] euclid_correct [of "- 5" 7] euclid_correct [of 3 10] by auto
qed

text \<open>
  C33: In a reduction context for an odd prime, whether reduced by folding (the named primes) or by division, the operations
  on reduced numbers give the remainders of sum, difference, negation, product and power, and \<open>invm\<close> of a number that the
  prime does not divide gives its inverse.  In particular \<open>pow\<close> with its windows of four bits is exponentiation, and
  \<open>ireduce\<close> returns for every non-negative number.
\<close>
theorem red_arithmetic:
  assumes "field r" "reduced r a" "reduced r b" "0 \<le> c"
  shows "Red_add r a b = (a + b) mod red_m r \<and> Red_sub r a b = (a - b) mod red_m r \<and> Red_neg r a = (- a) mod red_m r \<and>
    Red_mul r a b = (a * b) mod red_m r \<and> Red_pow r a e = a ^ e mod red_m r \<and>
    (a \<noteq> 0 \<longrightarrow> (Red_invm r a * a) mod red_m r = 1) \<and> MPrime_ireduce name c = c mod prime_p name"
proof -
  have "(Red_invm r a * a) mod red_m r = 1" if "a \<noteq> 0"
  proof -
    have "\<not> red_m r dvd a" using that assms(2) by (auto simp: reduced_def dvd_eq_mod_eq_0)
    from Red_invm(1) [OF assms(1) this] have "(Red_invm r a * a) mod red_m r = 1 mod red_m r" by (simp only: mod_eq_dvd_iff)
    then show ?thesis using field_gt [OF assms(1)] by simp
  qed
  then show ?thesis using assms by (simp add: red_simps MPrime_ireduce)
qed

lemma prime_mod_small:
  assumes "1 < n" "\<forall>d \<in> {2..<nat n}. \<not> int d dvd n"
  shows "prime_mod n"
  unfolding prime_mod_def
proof (intro conjI allI impI)
  fix d :: int
  assume d: "0 < d" "d dvd n"
  then have "d \<le> n" using assms(1) by (simp add: zdvd_imp_le)
  show "d = 1 \<or> d = n"
  proof (rule ccontr)
    assume "\<not> (d = 1 \<or> d = n)"
    then have "nat d \<in> {2..<nat n}" "int (nat d) = d" using d \<open>d \<le> n\<close> by auto
    then show False using assms(2) d by metis
  qed
qed (rule assms)

lemma field_13: "field \<lparr>red_m = 13, red_prime = None\<rparr>"
proof -
  have "\<forall>d \<in> {2..<nat 13}. \<not> int d dvd 13" by code_simp
  then have "prime_mod 13" by (intro prime_mod_small) simp_all
  then show ?thesis by (simp add: field_def)
qed

theorem red_arithmetic_witness:
  "Red_pow \<lparr>red_m = 13, red_prime = None\<rparr> 7 21 = 7 ^ 21 mod 13 \<and>
   (Red_invm \<lparr>red_m = 13, red_prime = None\<rparr> 7 * 7) mod 13 = 1 \<and> MPrime_ireduce K256 (2 ^ 300) = 2 ^ 300 mod prime_p K256"
  using red_arithmetic [OF field_13, of 7 7 "2 ^ 300" 21 K256] by (simp add: reduced_def)

end
