(* ===== verification/CurveProps.thy ===== *)
theory CurveProps
  imports Curve ModularProps
begin

text \<open>
  The chord and tangent of affine points as congruences, and the relation \<open>jrep\<close>: a Jacobian point stands for an affine
  point.  The polynomial identities behind the formulas for sums and doubles are proved here once.
\<close>

section \<open>Affine points\<close>

definition point_ok :: "short_curve \<Rightarrow> point \<Rightarrow> bool" where
  "point_ok cv P = (case P of Infinity \<Rightarrow> True | Affine x y \<Rightarrow> reduced (c_red cv) x \<and> reduced (c_red cv) y)"

definition curve_ok :: "short_curve \<Rightarrow> bool" where
  "curve_ok cv \<longleftrightarrow> field (c_red cv) \<and> reduced (c_red cv) (c_a cv) \<and> reduced (c_red cv) (c_b cv)"

lemma curve_okD: "curve_ok cv \<Longrightarrow> field (c_red cv)" "curve_ok cv \<Longrightarrow> reduced (c_red cv) (c_a cv)"
  "curve_ok cv \<Longrightarrow> reduced (c_red cv) (c_b cv)" "curve_ok cv \<Longrightarrow> prime_mod (c_p cv)"
  by (simp_all add: curve_ok_def field_def)

lemma slope_dvd:
  assumes "field r" and "\<not> red_m r dvd d"
  shows "red_m r dvd (e * Red_invm r d) * d - e"
proof -
  have "(e * Red_invm r d) * d - e = e * (Red_invm r d * d - 1)" by (simp add: algebra_simps)
  then show ?thesis using Red_invm(1) [OF assms] by simp
qed

lemma inverse_cong:
  assumes "field r" "\<not> red_m r dvd d"
  shows "red_m r dvd (e * Red_invm r (d mod red_m r)) mod red_m r * d - e"
proof -
  have "\<not> red_m r dvd d mod red_m r" using assms(2) by (simp add: dvd_eq_mod_eq_0)
  from slope_dvd [OF assms(1) this, of e] show ?thesis by (simp add: mod_eq_dvd_iff [symmetric] mod_simps)
qed

lemma add_slope:
  assumes "curve_ok cv" and "point_ok cv (Affine x1 y1)" "point_ok cv (Affine x2 y2)" and "x1 \<noteq> x2"
  obtains c where "reduced (c_red cv) c" "c_p cv dvd c * (x1 - x2) - (y1 - y2)"
    and "ShortPoint_add cv (Affine x1 y1) (Affine x2 y2) =
      Affine ((c * c - x1 - x2) mod c_p cv) ((c * (x1 - (c * c - x1 - x2)) - y1) mod c_p cv)"
proof -
  let ?p = "c_p cv"
  have r: "reduced (c_red cv) x1" "reduced (c_red cv) x2" "reduced (c_red cv) y1" "reduced (c_red cv) y2"
    using assms(2,3) by (simp_all add: point_ok_def)
  note f = curve_okD(1) [OF assms(1)]
  have d: "\<not> ?p dvd x1 - x2" using r assms(4) reduced_eq_iff unfolding reduced_def by blast
  define c where "c = ((y1 - y2) * redInvm cv ((x1 - x2) mod ?p)) mod ?p"
  have rc: "reduced (c_red cv) c" using f by (simp add: c_def)
  have "?p dvd c * (x1 - x2) - (y1 - y2)" unfolding c_def by (rule inverse_cong [OF f d])
  moreover have "ShortPoint_add cv (Affine x1 y1) (Affine x2 y2) =
      Affine ((c * c - x1 - x2) mod ?p) ((c * (x1 - (c * c - x1 - x2)) - y1) mod ?p)"
  proof -
    have "(if redSub cv y1 y2 \<noteq> 0 then redMul cv (redSub cv y1 y2) (redInvm cv (redSub cv x1 x2)) else redSub cv y1 y2) = c"
      using r f by (auto simp: c_def red_simps mod_simps elim!: dvdE)
    then show ?thesis
      using assms(4) by (simp add: ShortPoint_add_def ShortPoint_neg_def curve_point_def Let_def)
        (use r rc f in \<open>simp add: red_simps mod_simps reduced_mod_id\<close>)
  qed
  ultimately show thesis by (rule that [OF rc])
qed

lemma dbl_slope:
  assumes "curve_ok cv" and "point_ok cv (Affine x y)" and "\<not> c_p cv dvd 2 * y"
  obtains c where "c_p cv dvd c * (2 * y) - (3 * (x * x) + c_a cv)"
    and "ShortPoint_dbl cv (Affine x y) = Affine ((c * c - 2 * x) mod c_p cv) ((c * (x - (c * c - 2 * x)) - y) mod c_p cv)"
proof -
  let ?p = "c_p cv"
  have r: "reduced (c_red cv) x" "reduced (c_red cv) y" using assms(2) by (simp_all add: point_ok_def)
  note f = curve_okD(1,2) [OF assms(1)]
  define c where "c = ((3 * (x * x) + c_a cv) * redInvm cv ((2 * y) mod ?p)) mod ?p"
  have rc: "reduced (c_red cv) c" using f by (simp add: c_def)
  have "?p dvd c * (2 * y) - (3 * (x * x) + c_a cv)" unfolding c_def by (rule inverse_cong [OF f(1) assms(3)])
  moreover have "ShortPoint_dbl cv (Affine x y) = Affine ((c * c - 2 * x) mod ?p) ((c * (x - (c * c - 2 * x)) - y) mod ?p)"
  proof -
    have "redMul cv (redAdd cv (redAdd cv (redAdd cv (redSqr cv x) (redSqr cv x)) (redSqr cv x)) (c_a cv))
        (redInvm cv (redAdd cv y y)) = c"
      using r f by (simp add: c_def red_simps mod_simps)
    moreover have "redAdd cv y y \<noteq> 0" using r assms(3) by (simp add: red_simps dvd_eq_mod_eq_0)
    ultimately show ?thesis
      by (simp add: ShortPoint_dbl_def curve_point_def Let_def)
        (use r rc f in \<open>simp add: red_simps mod_simps reduced_mod_id\<close>)
  qed
  ultimately show thesis by (rule that)
qed

lemma dbl_infinity:
  "curve_ok cv \<Longrightarrow> point_ok cv (Affine x y) \<Longrightarrow> c_p cv dvd 2 * y \<Longrightarrow> ShortPoint_dbl cv (Affine x y) = Infinity"
  by (simp add: ShortPoint_dbl_def point_ok_def red_simps Let_def)

section \<open>Jacobian points stand for affine points\<close>

definition jrep :: "short_curve \<Rightarrow> jpoint \<Rightarrow> point \<Rightarrow> bool" where
  "jrep cv J P \<longleftrightarrow>
     reduced (c_red cv) (jx J) \<and> reduced (c_red cv) (jy J) \<and> reduced (c_red cv) (jz J) \<and> (zOne J \<longrightarrow> jz J = 1) \<and>
     (case P of
        Infinity \<Rightarrow> jz J = 0
      | Affine x y \<Rightarrow> jz J \<noteq> 0 \<and> reduced (c_red cv) x \<and> reduced (c_red cv) y \<and>
          jx J = (x * jz J ^ 2) mod c_p cv \<and> jy J = (y * jz J ^ 3) mod c_p cv)"

lemma reduced_01: "field r \<Longrightarrow> reduced r 0" "field r \<Longrightarrow> reduced r 1"
  using field_gt [of r] by (simp_all add: reduced_def)

lemma jrep_inf: "curve_ok cv \<Longrightarrow> jrep cv (jinf cv) Infinity"
  by (simp add: jrep_def jinf_def reduced_01 curve_okD)

lemma jrep_toJ: "curve_ok cv \<Longrightarrow> point_ok cv P \<Longrightarrow> jrep cv (ShortPoint_toJ cv P) P"
  by (cases P) (simp_all add: ShortPoint_toJ_def jinf_def point_ok_def jrep_def reduced_mod_id reduced_01 curve_okD)

lemma jrep_ok: "jrep cv J P \<Longrightarrow> point_ok cv P"
  by (auto simp: jrep_def point_ok_def split: point.splits)

lemma unit_z: "jrep cv J (Affine x y) \<Longrightarrow> \<not> c_p cv dvd jz J"
  by (auto simp: jrep_def reduced_def dvd_eq_mod_eq_0)

lemma jrep_toP:
  assumes "curve_ok cv" and "jrep cv J P"
  shows "JPoint_toP cv J = P"
proof (cases P)
  case Infinity
  with assms show ?thesis by (simp add: jrep_def JPoint_toP_def JPoint_isInfinity_def)
next
  case (Affine x y)
  let ?p = "c_p cv" and ?z = "jz J"
  note f = curve_okD(1) [OF assms(1)]
  define i where "i = redInvm cv ?z"
  have j: "?z \<noteq> 0" "reduced (c_red cv) x" "reduced (c_red cv) y" "jx J = (x * ?z ^ 2) mod ?p" "jy J = (y * ?z ^ 3) mod ?p"
    using assms(2) Affine by (auto simp: jrep_def)
  have i: "?p dvd i * ?z - 1" "reduced (c_red cv) i"
    unfolding i_def using Red_invm [OF f] assms(2) unit_z Affine by blast+
  have "x * ?z ^ 2 * (i * i) - x = x * (i * ?z + 1) * (i * ?z - 1)" by (simp add: algebra_simps power2_eq_square)
  then have "?p dvd x * ?z ^ 2 * (i * i) - x" using i by simp
  then have X: "(x * ?z ^ 2 * (i * i)) mod ?p = x" using j(2) by (simp add: mod_eq_dvd_iff [symmetric] reduced_mod_id)
  have "y * ?z ^ 3 * (i * i) * i - y = y * ((i * ?z) ^ 2 + i * ?z + 1) * (i * ?z - 1)"
    by (simp add: algebra_simps power2_eq_square power3_eq_cube)
  then have "?p dvd y * ?z ^ 3 * (i * i) * i - y" using i by simp
  then have Y: "(y * ?z ^ 3 * (i * i) * i) mod ?p = y" using j(3) by (simp add: mod_eq_dvd_iff [symmetric] reduced_mod_id)
  have "redMul cv (jx J) (redSqr cv i) = x" "redMul cv (redMul cv (jy J) (redSqr cv i)) i = y"
    unfolding j(4,5) using X Y i(2) f by (simp_all add: red_simps mod_simps)
  then show ?thesis
    using j(1-3) Affine f
    by (simp add: JPoint_toP_def JPoint_isInfinity_def i_def [symmetric] Let_def curve_point_def red_simps reduced_mod_id)
qed

text \<open>The result of a formula stands for the affine result when its coordinates agree with it modulo \<open>p\<close>.\<close>

lemma jrep_result:
  assumes "curve_ok cv" and "\<not> c_p cv dvd z" and "c_p cv dvd x * z ^ 2 - X" and "c_p cv dvd y * z ^ 3 - Y"
  shows "jrep cv (curve_jpoint (X mod c_p cv) (Y mod c_p cv) (z mod c_p cv)) (Affine (x mod c_p cv) (y mod c_p cv))"
proof -
  have "(x * z ^ 2) mod c_p cv = X mod c_p cv" "(y * z ^ 3) mod c_p cv = Y mod c_p cv"
    using assms(3,4) by (simp_all add: mod_eq_dvd_iff)
  then show ?thesis
    using assms(1,2) by (simp add: jrep_def curve_jpoint_def curve_okD dvd_eq_mod_eq_0)
      (metis mod_mult_right_eq mod_mult_left_eq power_mod)
qed

lemma jrep_infinite: "curve_ok cv \<Longrightarrow> c_p cv dvd z \<Longrightarrow> jrep cv (curve_jpoint (X mod c_p cv) (Y mod c_p cv) (z mod c_p cv)) Infinity"
  by (simp add: jrep_def curve_jpoint_def curve_okD dvd_eq_mod_eq_0 reduced_01)

text \<open>The addition formula, for coordinates that carry a common factor \<open>w\<close>.\<close>

lemma jrep_add_formula:
  fixes cv w c x1 x2 y1 y2
  defines "p \<equiv> c_p cv" and "d \<equiv> x1 - x2" and "e \<equiv> y1 - y2" and "x3 \<equiv> c * c - x1 - x2"
  assumes "curve_ok cv" and c: "p dvd c * d - e" and w: "\<not> p dvd w" "\<not> p dvd d"
  shows "jrep cv
    (curve_jpoint ((w ^ 6 * (e ^ 2 + d ^ 3 - 2 * x1 * d ^ 2)) mod p)
       ((w ^ 9 * (e * (3 * x1 * d ^ 2 - e ^ 2 - d ^ 3) - y1 * d ^ 3)) mod p) ((w ^ 3 * d) mod p))
    (Affine (x3 mod p) ((c * (x1 - x3) - y1) mod p))"
  unfolding p_def
proof (rule jrep_result)
  have "prime_mod p" using curve_okD(4) assms(5) by (simp add: p_def)
  with w show "\<not> c_p cv dvd w ^ 3 * d" by (simp add: prime_mod_dvd_mult prime_mod_dvd_power p_def)
  have "x3 * (w ^ 3 * d) ^ 2 - w ^ 6 * (e ^ 2 + d ^ 3 - 2 * x1 * d ^ 2) = w ^ 6 * (c * d + e) * (c * d - e)"
    unfolding d_def e_def x3_def by algebra
  then show "c_p cv dvd x3 * (w ^ 3 * d) ^ 2 - w ^ 6 * (e ^ 2 + d ^ 3 - 2 * x1 * d ^ 2)" using c by (simp add: p_def)
  have "(c * (x1 - x3) - y1) * (w ^ 3 * d) ^ 3 - w ^ 9 * (e * (3 * x1 * d ^ 2 - e ^ 2 - d ^ 3) - y1 * d ^ 3) =
    w ^ 9 * (d ^ 2 * (2 * x1 + x2) - (c ^ 2 * d ^ 2 + c * d * e + e ^ 2)) * (c * d - e)"
    unfolding d_def e_def x3_def by algebra
  then show "c_p cv dvd (c * (x1 - x3) - y1) * (w ^ 3 * d) ^ 3 - w ^ 9 * (e * (3 * x1 * d ^ 2 - e ^ 2 - d ^ 3) - y1 * d ^ 3)"
    using c by (simp add: p_def)
qed (rule assms)

text \<open>The doubling formula, for a slope \<open>c = M / (2 * y)\<close> with a numerator \<open>M\<close> that is \<open>3 * x * x + a\<close>.\<close>

lemma jrep_dbl_formula:
  fixes cv z c x y M
  defines "p \<equiv> c_p cv"
  assumes "curve_ok cv" and c: "p dvd c * (2 * y) - M" and z: "\<not> p dvd z" "\<not> p dvd 2 * y"
  shows "jrep cv
    (curve_jpoint ((z ^ 8 * (M ^ 2 - 8 * x * y ^ 2)) mod p)
       ((z ^ 12 * (M * (12 * x * y ^ 2 - M ^ 2) - 8 * y ^ 4)) mod p) ((2 * y * z ^ 4) mod p))
    (Affine ((c * c - 2 * x) mod p) ((c * (x - (c * c - 2 * x)) - y) mod p))"
  unfolding p_def
proof (rule jrep_result)
  have "prime_mod p" using curve_okD(4) assms(2) by (simp add: p_def)
  with z show "\<not> c_p cv dvd 2 * y * z ^ 4" by (simp add: prime_mod_dvd_mult prime_mod_dvd_power p_def)
  have "(c * c - 2 * x) * (2 * y * z ^ 4) ^ 2 - z ^ 8 * (M ^ 2 - 8 * x * y ^ 2) = z ^ 8 * (c * (2 * y) + M) * (c * (2 * y) - M)"
    by algebra
  then show "c_p cv dvd (c * c - 2 * x) * (2 * y * z ^ 4) ^ 2 - z ^ 8 * (M ^ 2 - 8 * x * y ^ 2)" using c by (simp add: p_def)
  have "(c * (x - (c * c - 2 * x)) - y) * (2 * y * z ^ 4) ^ 3 - z ^ 12 * (M * (12 * x * y ^ 2 - M ^ 2) - 8 * y ^ 4) =
    z ^ 12 * (12 * x * y ^ 2 - (c ^ 2 * (2 * y) ^ 2 + c * (2 * y) * M + M ^ 2)) * (c * (2 * y) - M)"
    by algebra
  then show "c_p cv dvd (c * (x - (c * c - 2 * x)) - y) * (2 * y * z ^ 4) ^ 3 -
    z ^ 12 * (M * (12 * x * y ^ 2 - M ^ 2) - 8 * y ^ 4)" using c by (simp add: p_def)
qed (rule assms)

end
