(* ===== verification/Jacobian.thy ===== *)
theory Jacobian
  imports CurveProps
begin

text \<open>The operations on Jacobian points stand for the operations on affine points.\<close>

lemma jpoint_cong:
  "x = x' \<Longrightarrow> y = y' \<Longrightarrow> z = z' \<Longrightarrow> curve_jpoint (x mod m) (y mod m) (z mod m) = curve_jpoint (x' mod m) (y' mod m) (z' mod m)"
  by simp

lemma jrep_coords:
  assumes "jrep cv J (Affine x y)"
  shows "jx J = (x * jz J ^ 2) mod c_p cv" "jy J = (y * jz J ^ 3) mod c_p cv" "reduced (c_red cv) (jz J)"
    "zOne J \<Longrightarrow> jz J = 1" "reduced (c_red cv) x" "reduced (c_red cv) y" "jz J \<noteq> 0"
    "reduced (c_red cv) (jx J)" "reduced (c_red cv) (jy J)"
  using assms by (auto simp: jrep_def)

lemma zeroDbl_form:
  assumes "curve_ok cv" "jrep cv J (Affine x y)" "zeroA cv"
  defines "z \<equiv> jz J" and "M \<equiv> 3 * (x * x) + c_a cv"
  shows "JPoint_zeroDbl cv J = curve_jpoint ((z ^ 8 * (M ^ 2 - 8 * x * y ^ 2)) mod c_p cv)
       ((z ^ 12 * (M * (12 * x * y ^ 2 - M ^ 2) - 8 * y ^ 4)) mod c_p cv) ((2 * y * z ^ 4) mod c_p cv)"
proof -
  note j = jrep_coords [OF assms(2)] and f = curve_okD(1) [OF assms(1)]
  have a: "c_a cv = 0" using assms(3) by (simp add: zeroA_def)
  show ?thesis
  proof (cases "zOne J")
    case False
    then show ?thesis
      using f j(3) unfolding JPoint_zeroDbl_def j(1,2) z_def [symmetric] M_def a
      by (simp add: red_twice_def Let_def red_simps mod_simps) (rule jpoint_cong; (rule refl | algebra))
  next
    case True
    then show ?thesis
      using f j(5,6) unfolding JPoint_zeroDbl_def j(1,2) z_def M_def a j(4) [OF True]
      by (simp add: red_twice_def Let_def red_simps mod_simps) (rule jpoint_cong; (rule refl | algebra))
  qed
qed

lemma threeDbl_form:
  assumes "curve_ok cv" "jrep cv J (Affine x y)" "threeA cv"
  defines "z \<equiv> jz J" and "M \<equiv> 3 * (x * x) - 3"
  shows "JPoint_threeDbl cv J = curve_jpoint ((z ^ 8 * (M ^ 2 - 8 * x * y ^ 2)) mod c_p cv)
       ((z ^ 12 * (M * (12 * x * y ^ 2 - M ^ 2) - 8 * y ^ 4)) mod c_p cv) ((2 * y * z ^ 4) mod c_p cv)"
proof -
  note j = jrep_coords [OF assms(2)] and f = curve_okD(1) [OF assms(1)]
  have a: "c_a cv = (- 3) mod c_p cv"
  proof -
    have "c_a cv = - 3 + c_p cv" using assms(3) by (simp add: threeA_def)
    then show ?thesis using reduced_mod_id [OF curve_okD(2) [OF assms(1)]] by (metis mod_add_self2)
  qed
  show ?thesis
  proof (cases "zOne J")
    case False
    then show ?thesis
      using f j(3) unfolding JPoint_threeDbl_def j(1,2) z_def [symmetric] M_def
      by (simp add: red_twice_def Let_def red_simps mod_simps) (rule jpoint_cong; (rule refl | algebra))
  next
    case True
    then show ?thesis
      using f j(5,6) unfolding JPoint_threeDbl_def j(1,2) z_def M_def a j(4) [OF True]
      by (simp add: red_twice_def Let_def red_simps mod_simps) (rule jpoint_cong; (rule refl | algebra))
  qed
qed

lemma dbl_general_form:
  assumes "curve_ok cv" "jrep cv J (Affine x y)"
  defines "z \<equiv> jz J" and "M \<equiv> 3 * (x * x) + c_a cv"
  shows "JPoint_dbl_general cv J = curve_jpoint ((z ^ 8 * (M ^ 2 - 8 * x * y ^ 2)) mod c_p cv)
       ((z ^ 12 * (M * (12 * x * y ^ 2 - M ^ 2) - 8 * y ^ 4)) mod c_p cv) ((2 * y * z ^ 4) mod c_p cv)"
proof -
  note j = jrep_coords [OF assms(2)] and f = curve_okD(1,2) [OF assms(1)]
  show ?thesis
    using f j(3) unfolding JPoint_dbl_general_def j(1,2) z_def [symmetric] M_def
    by (simp add: red_twice_def Let_def red_simps mod_simps) (rule jpoint_cong; (rule refl | algebra))
qed

lemma dbl_form:
  assumes "curve_ok cv" "jrep cv J (Affine x y)"
  obtains M where "c_p cv dvd M - (3 * (x * x) + c_a cv)"
    and "JPoint_dbl cv J = curve_jpoint ((jz J ^ 8 * (M ^ 2 - 8 * x * y ^ 2)) mod c_p cv)
       ((jz J ^ 12 * (M * (12 * x * y ^ 2 - M ^ 2) - 8 * y ^ 4)) mod c_p cv) ((2 * y * jz J ^ 4) mod c_p cv)"
proof (cases "\<not> zeroA cv \<and> threeA cv")
  case True
  have "3 * (x * x) - 3 - (3 * (x * x) + c_a cv) = - (c_p cv)" using True by (simp add: threeA_def)
  then have "c_p cv dvd 3 * (x * x) - 3 - (3 * (x * x) + c_a cv)" by simp
  then show thesis
    using that [of "3 * (x * x) - 3"] threeDbl_form [OF assms] jrep_coords(7) [OF assms(2)] True
    by (simp add: JPoint_dbl_def JPoint_isInfinity_def)
next
  case False
  then show thesis
    using that [of "3 * (x * x) + c_a cv"] zeroDbl_form [OF assms] dbl_general_form [OF assms] jrep_coords(7) [OF assms(2)]
    by (auto simp: JPoint_dbl_def JPoint_isInfinity_def)
qed

lemma jrep_dbl_of_form:
  assumes "curve_ok cv" "jrep cv J (Affine x y)" and M: "c_p cv dvd M - (3 * (x * x) + c_a cv)"
    and J': "J' = curve_jpoint ((jz J ^ 8 * (M ^ 2 - 8 * x * y ^ 2)) mod c_p cv)
       ((jz J ^ 12 * (M * (12 * x * y ^ 2 - M ^ 2) - 8 * y ^ 4)) mod c_p cv) ((2 * y * jz J ^ 4) mod c_p cv)"
  shows "jrep cv J' (ShortPoint_dbl cv (Affine x y))"
proof (cases "c_p cv dvd 2 * y")
  case True
  then have "c_p cv dvd 2 * y * jz J ^ 4" by simp
  then show ?thesis using jrep_infinite [OF assms(1)] dbl_infinity [OF assms(1) jrep_ok [OF assms(2)] True] J' by simp
next
  case False
  obtain c where c: "c_p cv dvd c * (2 * y) - (3 * (x * x) + c_a cv)"
    "ShortPoint_dbl cv (Affine x y) = Affine ((c * c - 2 * x) mod c_p cv) ((c * (x - (c * c - 2 * x)) - y) mod c_p cv)"
    using dbl_slope [OF assms(1) jrep_ok [OF assms(2)] False] by blast
  have "c_p cv dvd c * (2 * y) - M" using dvd_diff [OF c(1) M] by (simp add: algebra_simps)
  from jrep_dbl_formula [OF assms(1) this unit_z [OF assms(2)] False] show ?thesis using c(2) J' by simp
qed

lemma jrep_dbl:
  assumes "curve_ok cv" "jrep cv J P"
  shows "jrep cv (JPoint_dbl cv J) (ShortPoint_dbl cv P)"
proof (cases P)
  case Infinity
  then show ?thesis using assms by (auto simp: JPoint_dbl_def ShortPoint_dbl_def JPoint_isInfinity_def jrep_def)
next
  case (Affine x y)
  then show ?thesis using jrep_dbl_of_form [OF assms(1)] dbl_form [OF assms(1)] assms(2) by metis
qed

lemma red_closed:
  assumes "field r" "reduced r a" "reduced r b"
  shows "reduced r (Red_add r a b)" "reduced r (Red_sub r a b)" "reduced r (Red_mul r a b)" "reduced r (Red_sqr r a)"
  using assms by (simp_all add: red_simps)

lemma jrep_dbl_general:
  assumes "curve_ok cv" "jrep cv J P"
  shows "jrep cv (JPoint_dbl_general cv J) (ShortPoint_dbl cv P)"
proof (cases P)
  case Infinity
  then have "jz J = 0" "reduced (c_red cv) (jx J)" "reduced (c_red cv) (jy J)" using assms(2) by (simp_all add: jrep_def)
  with Infinity show ?thesis
    using curve_okD [OF assms(1)] reduced_01
    by (simp add: JPoint_dbl_general_def ShortPoint_dbl_def jrep_def curve_jpoint_def red_twice_def Let_def red_closed Red_mul)
next
  case (Affine x y)
  then show ?thesis
    using jrep_dbl_of_form [OF assms(1), where M = "3 * (x * x) + c_a cv"] dbl_general_form [OF assms(1)] assms(2) by simp
qed

lemma negated_other:
  assumes "curve_ok cv" "point_ok cv (Affine x y1)" "point_ok cv (Affine x y2)" "y1 \<noteq> y2"
  shows "ShortPoint_add cv (Affine x y1) (Affine x y2) = Infinity"
  using assms by (simp add: ShortPoint_add_def)

lemma same_x:
  assumes "curve_ok cv" "reduced (c_red cv) x1" "reduced (c_red cv) x2" "\<not> c_p cv dvd w"
  shows "((x1 - x2) * w) mod c_p cv = 0 \<longleftrightarrow> x1 = x2"
  using assms curve_okD(4) [OF assms(1)] reduced_eq_iff [of x1 "c_p cv" x2]
  by (auto simp: dvd_eq_mod_eq_0 [symmetric] prime_mod_dvd_mult reduced_def)

text \<open>Addition in the code of \<open>add\<close> and \<open>mixedAdd\<close>, from the values \<open>u1\<close>, \<open>s1\<close>, \<open>h\<close>, \<open>r\<close> and the product of the \<open>z\<close>.\<close>

lemma jrep_add_core:
  fixes cv J x1 y1 x2 y2 w
  defines "p \<equiv> c_p cv" and "rc \<equiv> c_red cv"
  assumes "curve_ok cv" "jrep cv J (Affine x1 y1)" "point_ok cv (Affine x2 y2)" "\<not> p dvd w"
    and "u1 = (x1 * w ^ 2) mod p" "s1 = (y1 * w ^ 3) mod p" "h = ((x1 - x2) * w ^ 2) mod p" "r = ((y1 - y2) * w ^ 3) mod p"
    and "nz = (w * h) mod p"
  shows "jrep cv
    (if h = 0 then (if r \<noteq> 0 then jinf cv else JPoint_dbl cv J)
     else
       let h2 = redSqr cv h; h3 = redMul cv h2 h; v = redMul cv u1 h2;
           nx = redSub cv (redSub cv (redAdd cv (redSqr cv r) h3) v) v;
           ny = redSub cv (redMul cv r (redSub cv v nx)) (redMul cv s1 h3)
       in curve_jpoint nx ny nz)
    (ShortPoint_add cv (Affine x1 y1) (Affine x2 y2))"
proof -
  note f = curve_okD(1) [OF assms(3)] and pr = curve_okD(4) [OF assms(3)]
  have ok: "point_ok cv (Affine x1 y1)" using jrep_ok assms(4) by blast
  have rd: "reduced (c_red cv) x1" "reduced (c_red cv) y1" "reduced (c_red cv) x2" "reduced (c_red cv) y2"
    using ok assms(5) by (simp_all add: point_ok_def)
  have w: "\<not> c_p cv dvd w ^ 2" "\<not> c_p cv dvd w ^ 3" using assms(6) prime_mod_dvd_power [OF pr] by (simp_all add: p_def)
  have h: "h = 0 \<longleftrightarrow> x1 = x2" and r: "r = 0 \<longleftrightarrow> y1 = y2"
    using same_x [OF assms(3) rd(1,3) w(1)] same_x [OF assms(3) rd(2,4) w(2)] assms(9,10) by (simp_all add: p_def)
  show ?thesis
  proof (cases "x1 = x2")
    case True
    then show ?thesis
      using h r jrep_inf [OF assms(3)] jrep_dbl [OF assms(3,4)] by (cases "y1 = y2") (simp_all add: ShortPoint_add_def)
  next
    case False
    obtain c where c: "c_p cv dvd c * (x1 - x2) - (y1 - y2)"
      "ShortPoint_add cv (Affine x1 y1) (Affine x2 y2) =
        Affine ((c * c - x1 - x2) mod c_p cv) ((c * (x1 - (c * c - x1 - x2)) - y1) mod c_p cv)"
      using add_slope [OF assms(3) ok assms(5) False] by blast
    have d: "\<not> c_p cv dvd x1 - x2" using rd False reduced_eq_iff unfolding reduced_def by blast
    have "(let h2 = redSqr cv h; h3 = redMul cv h2 h; v = redMul cv u1 h2;
           nx = redSub cv (redSub cv (redAdd cv (redSqr cv r) h3) v) v;
           ny = redSub cv (redMul cv r (redSub cv v nx)) (redMul cv s1 h3)
       in curve_jpoint nx ny nz) =
      curve_jpoint ((w ^ 6 * ((y1 - y2) ^ 2 + (x1 - x2) ^ 3 - 2 * x1 * (x1 - x2) ^ 2)) mod c_p cv)
       ((w ^ 9 * ((y1 - y2) * (3 * x1 * (x1 - x2) ^ 2 - (y1 - y2) ^ 2 - (x1 - x2) ^ 3) - y1 * (x1 - x2) ^ 3)) mod c_p cv)
       ((w ^ 3 * (x1 - x2)) mod c_p cv)"
      unfolding assms(7-11) unfolding p_def using f
      by (simp add: Let_def red_simps mod_simps) (rule jpoint_cong; (rule refl | algebra))
    then show ?thesis
      using jrep_add_formula [OF assms(3) c(1) assms(6) [unfolded p_def] d] False h c(2) by simp
  qed
qed

lemma jrep_mixedAdd:
  assumes "curve_ok cv" "jrep cv J P" "point_ok cv Q"
  shows "jrep cv (JPoint_mixedAdd cv J Q) (ShortPoint_add cv P Q)"
proof (cases P)
  case Infinity
  then show ?thesis
    using assms jrep_toJ by (simp add: JPoint_mixedAdd_def ShortPoint_add_def JPoint_isInfinity_def jrep_def)
next
  case P: (Affine x1 y1)
  have j: "jrep cv J (Affine x1 y1)" using assms(2) P by simp
  note co = jrep_coords [OF j] and f = curve_okD(1) [OF assms(1)]
  show ?thesis
  proof (cases Q)
    case Infinity
    then show ?thesis
      using P j co(7) by (simp add: JPoint_mixedAdd_def ShortPoint_add_def JPoint_isInfinity_def)
  next
    case (Affine x2 y2)
    let ?z = "jz J" and ?p = "c_p cv"
    have rd: "reduced (c_red cv) x2" "reduced (c_red cv) y2" using assms(3) Affine by (simp_all add: point_ok_def)
    let ?h = "redSub cv (jx J) (redMul cv x2 (redSqr cv ?z))"
    have h: "?h = ((x1 - x2) * ?z ^ 2) mod ?p"
      using f rd co(3) unfolding co(1) by (simp add: red_simps mod_simps) (simp add: algebra_simps power2_eq_square)
    have r: "redSub cv (jy J) (redMul cv (redMul cv y2 (redSqr cv ?z)) ?z) = ((y1 - y2) * ?z ^ 3) mod ?p"
      using f rd co(3) unfolding co(2) by (simp add: red_simps mod_simps) (simp add: algebra_simps power3_eq_cube)
    have z: "redMul cv ?z ?h = (?z * ?h) mod ?p" unfolding h using f co(3) by (simp add: red_simps)
    have "\<not> JPoint_isInfinity J" using co(7) by (simp add: JPoint_isInfinity_def)
    with jrep_add_core [OF assms(1) j assms(3) [unfolded Affine] unit_z [OF j] co(1,2) h r z] show ?thesis
      unfolding P Affine by (simp only: JPoint_mixedAdd_def Let_def if_False point.case)
  qed
qed

lemma jrep_add:
  assumes "curve_ok cv" "jrep cv J P" "jrep cv K Q"
  shows "jrep cv (JPoint_add cv J K) (ShortPoint_add cv P Q)"
proof (cases P)
  case Infinity
  then show ?thesis
    using assms by (simp add: JPoint_add_def ShortPoint_add_def JPoint_isInfinity_def jrep_def)
next
  case P: (Affine x1 y1)
  have j: "jrep cv J (Affine x1 y1)" using assms(2) P by simp
  note co = jrep_coords [OF j] and f = curve_okD(1) [OF assms(1)]
  show ?thesis
  proof (cases Q)
    case Infinity
    then show ?thesis
      using P j assms(3) co(7) by (auto simp: JPoint_add_def ShortPoint_add_def JPoint_isInfinity_def jrep_def)
  next
    case (Affine x2 y2)
    have k: "jrep cv K (Affine x2 y2)" using assms(3) Affine by simp
    note ck = jrep_coords [OF k]
    let ?z1 = "jz J" and ?z2 = "jz K" and ?p = "c_p cv"
    let ?w = "?z1 * ?z2"
    have u1: "redMul cv (jx J) (redSqr cv ?z2) = (x1 * ?w ^ 2) mod ?p"
      using f ck(3) unfolding co(1) by (simp add: red_simps mod_simps) (simp add: algebra_simps power2_eq_square)
    have u2: "redMul cv (jx K) (redSqr cv ?z1) = (x2 * ?w ^ 2) mod ?p"
      using f co(3) unfolding ck(1) by (simp add: red_simps mod_simps) (simp add: algebra_simps power2_eq_square)
    have s1: "redMul cv (jy J) (redMul cv (redSqr cv ?z2) ?z2) = (y1 * ?w ^ 3) mod ?p"
      using f ck(3) unfolding co(2) by (simp add: red_simps mod_simps) (simp add: algebra_simps power3_eq_cube)
    have s2: "redMul cv (jy K) (redMul cv (redSqr cv ?z1) ?z1) = (y2 * ?w ^ 3) mod ?p"
      using f co(3) unfolding ck(2) by (simp add: red_simps mod_simps) (simp add: algebra_simps power3_eq_cube)
    have h: "redSub cv (redMul cv (jx J) (redSqr cv ?z2)) (redMul cv (jx K) (redSqr cv ?z1)) = ((x1 - x2) * ?w ^ 2) mod ?p"
      unfolding u1 u2 using f by (simp add: red_simps mod_simps algebra_simps)
    have r: "redSub cv (redMul cv (jy J) (redMul cv (redSqr cv ?z2) ?z2)) (redMul cv (jy K) (redMul cv (redSqr cv ?z1) ?z1)) =
      ((y1 - y2) * ?w ^ 3) mod ?p"
      unfolding s1 s2 using f by (simp add: red_simps mod_simps algebra_simps)
    let ?h = "redSub cv (redMul cv (jx J) (redSqr cv ?z2)) (redMul cv (jx K) (redSqr cv ?z1))"
    have z: "redMul cv (redMul cv ?z1 ?z2) ?h = (?w * ?h) mod ?p"
      unfolding h using f co(3) ck(3) by (simp add: red_simps mod_simps)
    have w: "\<not> ?p dvd ?w" using unit_z [OF j] unit_z [OF k] prime_mod_dvd_mult curve_okD(4) [OF assms(1)] by blast
    have "\<not> JPoint_isInfinity J" "\<not> JPoint_isInfinity K" using co(7) ck(7) by (simp_all add: JPoint_isInfinity_def)
    with jrep_add_core [OF assms(1) j jrep_ok [OF k] w u1 s1 h r z] show ?thesis
      unfolding P Affine by (simp only: JPoint_add_def Let_def if_False)
  qed
qed

section \<open>Repeated doubling, negation and equality\<close>

definition dblp_state :: "short_curve \<Rightarrow> jpoint \<Rightarrow> int \<times> int \<times> int \<times> int" where
  "dblp_state cv J = (jx J, redAdd cv (jy J) (jy J), jz J, redSqr cv (redSqr cv (jz J)))"

lemma dblp_step_state:
  assumes "curve_ok cv" "jrep cv J P"
  shows "dblp_step cv (dblp_state cv J) = dblp_state cv (JPoint_dbl_general cv J)"
proof -
  have r: "reduced (c_red cv) (jx J)" "reduced (c_red cv) (jy J)" "reduced (c_red cv) (jz J)"
    using assms(2) by (simp_all add: jrep_def)
  note f = curve_okD(1,2) [OF assms(1)]
  show ?thesis
    using r f unfolding dblp_step_def dblp_state_def JPoint_dbl_general_def
    by (simp add: curve_jpoint_def red_twice_def Let_def red_simps mod_simps)
      (intro conjI arg_cong [where f = "\<lambda>t. t mod c_p cv"]; algebra)
qed

lemma jrep_dblp:
  assumes "curve_ok cv" "jrep cv J P"
  shows "jrep cv (JPoint_dblp cv J n) ((ShortPoint_dbl cv ^^ n) P)"
proof -
  have dbl: "jrep cv ((JPoint_dbl cv ^^ n) J) ((ShortPoint_dbl cv ^^ n) P)" for n
    by (induction n) (simp_all add: assms jrep_dbl)
  have gen: "jrep cv ((JPoint_dbl_general cv ^^ n) J) ((ShortPoint_dbl cv ^^ n) P)" for n
    by (induction n) (simp_all add: assms jrep_dbl_general)
  have st: "(dblp_step cv ^^ n) (dblp_state cv J) = dblp_state cv ((JPoint_dbl_general cv ^^ n) J)" for n
    by (induction n) (simp_all add: dblp_step_state [OF assms(1) gen])
  have inf: "(ShortPoint_dbl cv ^^ n) Infinity = Infinity" for n
    by (induction n) (simp_all add: ShortPoint_dbl_def)
  consider "n = 0" | "P = Infinity" | "n \<noteq> 0" "P \<noteq> Infinity" "zeroA cv \<or> threeA cv" | "n \<noteq> 0" "P \<noteq> Infinity" "\<not> (zeroA cv \<or> threeA cv)" by blast
  then show ?thesis
  proof cases
    case 2
    then show ?thesis using assms(2) inf by (auto simp: JPoint_dblp_def JPoint_isInfinity_def jrep_def)
  next
    case 3
    then have "jz J \<noteq> 0" using assms(2) by (auto simp: jrep_def split: point.splits)
    then show ?thesis using 3 dbl by (auto simp: JPoint_dblp_def JPoint_isInfinity_def)
  next
    case 4
    then have z: "jz J \<noteq> 0" using assms(2) by (auto simp: jrep_def split: point.splits)
    define K where "K = (JPoint_dbl_general cv ^^ n) J"
    have k: "jrep cv K ((ShortPoint_dbl cv ^^ n) P)" using gen by (simp add: K_def)
    then have r: "reduced (c_red cv) (jy K)" by (simp add: jrep_def)
    note f = curve_okD(1) [OF assms(1)]
    have t2: "toRed cv 2 = 2" using field_gt [OF f] f by (simp add: red_simps)
    have two: "\<not> c_p cv dvd toRed cv 2" using field_gt [OF f] by (auto simp: red_simps f dest: zdvd_imp_le)
    have "redMul cv (redAdd cv (jy K) (jy K)) (redInvm cv (toRed cv 2)) = jy K"
    proof -
      have "(jy K * (redInvm cv (toRed cv 2) * 2)) mod c_p cv = jy K mod c_p cv"
      proof -
        have "(redInvm cv (toRed cv 2) * 2) mod c_p cv = 1 mod c_p cv"
          using Red_invm(1) [OF f two] unfolding mod_eq_dvd_iff by (simp add: t2)
        then show ?thesis by (metis mod_mult_right_eq mult.right_neutral)
      qed
      then show ?thesis using r f by (simp add: red_simps mod_simps reduced_mod_id algebra_simps)
    qed
    then have "JPoint_dblp cv J n = K\<lparr>zOne := False\<rparr>"
      using 4 z st [of n] by (simp add: JPoint_dblp_def JPoint_isInfinity_def dblp_state_def K_def [symmetric] curve_jpoint_def)
    then show ?thesis using k by (simp add: jrep_def split: point.splits)
  qed (use assms in \<open>simp add: JPoint_dblp_def\<close>)
qed

lemma jrep_neg:
  assumes "curve_ok cv" "jrep cv J P"
  shows "jrep cv (JPoint_neg cv J) (ShortPoint_neg cv P)"
proof -
  note f = curve_okD(1) [OF assms(1)]
  have r: "reduced (c_red cv) (jy J)" using assms(2) by (simp add: jrep_def)
  show ?thesis
    using assms(2) r f
    by (cases P) (auto simp: jrep_def JPoint_neg_def ShortPoint_neg_def curve_point_def red_simps reduced_mod_id mod_simps)
qed

text \<open>\<open>eq\<close> compares the points that the operands stand for, unless only one of them is at infinity.\<close>

lemma JPoint_eq:
  assumes "curve_ok cv" "jrep cv J (Affine x1 y1)" "jrep cv K (Affine x2 y2)"
  shows "JPoint_eq cv J K \<longleftrightarrow> x1 = x2 \<and> y1 = y2"
proof -
  note cj = jrep_coords [OF assms(2)] and ck = jrep_coords [OF assms(3)] and f = curve_okD(1) [OF assms(1)]
  let ?w = "jz J * jz K"
  have w: "\<not> c_p cv dvd ?w" using unit_z assms(2,3) prime_mod_dvd_mult curve_okD(4) [OF assms(1)] by blast
  then have w2: "\<not> c_p cv dvd ?w ^ 2" "\<not> c_p cv dvd ?w ^ 3" using prime_mod_dvd_power curve_okD(4) [OF assms(1)] by simp_all
  have X: "redSub cv (redMul cv (jx J) (redSqr cv (jz K))) (redMul cv (jx K) (redSqr cv (jz J))) = ((x1 - x2) * ?w ^ 2) mod c_p cv"
    using f cj(3) ck(3) unfolding cj(1) ck(1) by (simp add: red_simps mod_simps) (simp add: algebra_simps power2_eq_square)
  have Y: "redSub cv (redMul cv (jy J) (redMul cv (redSqr cv (jz K)) (jz K))) (redMul cv (jy K) (redMul cv (redSqr cv (jz J)) (jz J))) =
      ((y1 - y2) * ?w ^ 3) mod c_p cv"
    using f cj(3) ck(3) unfolding cj(2) ck(2) by (simp add: red_simps mod_simps) (simp add: algebra_simps power3_eq_cube)
  show ?thesis
    using same_x [OF assms(1) cj(5) ck(5) w2(1)] same_x [OF assms(1) cj(6) ck(6) w2(2)]
    by (simp add: JPoint_eq_def Let_def X Y)
qed

text \<open>
  C22: The Jacobian formulas compute the affine group operations: on coordinates that stand for affine points, \<open>add\<close>,
  \<open>mixedAdd\<close>, \<open>dbl\<close>, \<open>dblp\<close> and \<open>neg\<close>, converted back by \<open>toP\<close>, give the sum, the double, the repeated double and the
  negative, for every case distinction of the formulas (\<open>a = 0\<close>, \<open>a = -3\<close>, \<open>z = 1\<close>, equal, opposite and infinite points).
\<close>
theorem jacobian_affine:
  assumes "curve_ok cv" and "jrep cv J P" and "jrep cv K Q"
  shows "JPoint_toP cv (JPoint_add cv J K) = ShortPoint_add cv P Q \<and>
    JPoint_toP cv (JPoint_mixedAdd cv J Q) = ShortPoint_add cv P Q \<and>
    JPoint_toP cv (JPoint_dbl cv J) = ShortPoint_dbl cv P \<and>
    JPoint_toP cv (JPoint_dblp cv J n) = (ShortPoint_dbl cv ^^ n) P \<and>
    JPoint_toP cv (JPoint_neg cv J) = ShortPoint_neg cv P"
  using assms jrep_ok [OF assms(3)]
  by (simp add: jrep_toP jrep_add jrep_mixedAdd jrep_dbl jrep_dblp jrep_neg)

end
