(* ===== verification/CurveGroup.thy ===== *)
theory CurveGroup
  imports Jacobian
begin

text \<open>
  The points of a curve: sums, doubles and negatives stay on it, addition commutes, has the point at infinity as neutral
  element and negatives as inverses.  Multiples of points (\<open>zmul\<close>), the reference of the multiplication routines, and
  decompression of a point from its first coordinate.
\<close>

section \<open>Points on the curve\<close>

definition on_curve :: "short_curve \<Rightarrow> point \<Rightarrow> bool" where
  "on_curve cv P \<longleftrightarrow> point_ok cv P \<and> ShortCurve_validate cv P"

lemma on_curve_inf [simp]: "on_curve cv Infinity"
  by (simp add: on_curve_def point_ok_def ShortCurve_validate_def)

lemma on_curve_ok: "on_curve cv P \<Longrightarrow> point_ok cv P"
  by (simp add: on_curve_def)

definition curve_poly :: "short_curve \<Rightarrow> int \<Rightarrow> int" where
  "curve_poly cv x = x * x * x + c_a cv * x + c_b cv"

lemma on_curve_affine:
  assumes "curve_ok cv"
  shows "on_curve cv (Affine x y) \<longleftrightarrow>
    reduced (c_red cv) x \<and> reduced (c_red cv) y \<and> c_p cv dvd curve_poly cv x - y * y"
proof -
  note f = curve_okD [OF assms]
  have "redSub cv (redSqr cv y) (curve_rhs cv x) = (y * y - curve_poly cv x) mod c_p cv"
    if "reduced (c_red cv) x" "reduced (c_red cv) y"
    using that f by (simp add: curve_rhs_def red_simps mod_simps curve_poly_def algebra_simps)
  moreover have "c_p cv dvd y * y - curve_poly cv x \<longleftrightarrow> c_p cv dvd curve_poly cv x - y * y"
    by (metis dvd_minus_iff minus_diff_eq)
  ultimately show ?thesis
    by (auto simp: on_curve_def point_ok_def ShortCurve_validate_def dvd_eq_mod_eq_0)
qed

lemma on_curve_reduced:
  assumes "curve_ok cv" "c_p cv dvd curve_poly cv x - y * y"
  shows "on_curve cv (Affine (x mod c_p cv) (y mod c_p cv))"
proof -
  have "(curve_poly cv (x mod c_p cv) - (y mod c_p cv) * (y mod c_p cv)) mod c_p cv = (curve_poly cv x - y * y) mod c_p cv"
    unfolding curve_poly_def by (intro mod_diff_cong mod_add_cong mod_mult_cong) simp_all
  then show ?thesis using assms on_curve_affine curve_okD(1) by (simp add: dvd_eq_mod_eq_0)
qed

lemma add_on_curve:
  assumes "curve_ok cv" "on_curve cv (Affine x1 y1)" "on_curve cv (Affine x2 y2)" "x1 \<noteq> x2"
  shows "on_curve cv (ShortPoint_add cv (Affine x1 y1) (Affine x2 y2))"
proof -
  let ?p = "c_p cv"
  note f = curve_okD [OF assms(1)]
  have r: "reduced (c_red cv) x1" "reduced (c_red cv) x2"
    and e: "?p dvd curve_poly cv x1 - y1 * y1" "?p dvd curve_poly cv x2 - y2 * y2"
    using assms on_curve_affine by auto
  obtain c where c: "?p dvd c * (x1 - x2) - (y1 - y2)"
    "ShortPoint_add cv (Affine x1 y1) (Affine x2 y2) =
      Affine ((c * c - x1 - x2) mod ?p) ((c * (x1 - (c * c - x1 - x2)) - y1) mod ?p)"
    using add_slope [OF assms(1) on_curve_ok [OF assms(2)] on_curve_ok [OF assms(3)] assms(4)] by metis
  define x3 where "x3 = c * c - x1 - x2"
  define A where "A = c_a cv - 2 * c * (y1 - c * x1) - (x1 * x2 + (x1 + x2) * x3)"
  have "A * (x1 - x2) = (curve_poly cv x1 - y1 * y1) - (curve_poly cv x2 - y2 * y2) -
      (c * (x1 - x2) - (y1 - y2)) * (y2 + (y1 - c * (x1 - x2)))"
    unfolding A_def x3_def curve_poly_def by algebra
  then have "?p dvd A * (x1 - x2)" using e c(1) by (metis dvd_diff dvd_mult2)
  moreover have "\<not> ?p dvd x1 - x2" using r assms(4) reduced_eq_iff unfolding reduced_def by blast
  ultimately have "?p dvd A" using f(4) prime_mod_dvd_mult by blast
  moreover have "curve_poly cv x3 - (c * (x1 - x3) - y1) * (c * (x1 - x3) - y1) = A * (x3 - x1) + (curve_poly cv x1 - y1 * y1)"
    unfolding A_def x3_def curve_poly_def by algebra
  ultimately have "?p dvd curve_poly cv x3 - (c * (x1 - x3) - y1) * (c * (x1 - x3) - y1)" using e(1) by simp
  then show ?thesis unfolding c(2) x3_def [symmetric] by (rule on_curve_reduced [OF assms(1)])
qed

lemma neg_on_curve: "curve_ok cv \<Longrightarrow> on_curve cv P \<Longrightarrow> on_curve cv (ShortPoint_neg cv P)"
proof (cases P)
  case (Affine x y)
  assume *: "curve_ok cv" "on_curve cv P"
  then have r: "reduced (c_red cv) x" "reduced (c_red cv) y" "c_p cv dvd curve_poly cv x - (- y) * (- y)"
    using on_curve_affine Affine by simp_all
  then have "ShortPoint_neg cv P = Affine (x mod c_p cv) ((- y) mod c_p cv)"
    using curve_okD(1) [OF *(1)] Affine by (simp add: ShortPoint_neg_def curve_point_def red_simps)
  then show ?thesis using on_curve_reduced [OF *(1) r(3)] by simp
qed (simp add: ShortPoint_neg_def)

lemma dbl_on_curve:
  assumes "curve_ok cv" "on_curve cv P"
  shows "on_curve cv (ShortPoint_dbl cv P)"
proof (cases P)
  case (Affine x y)
  let ?p = "c_p cv"
  have ok: "point_ok cv (Affine x y)" and e: "?p dvd curve_poly cv x - y * y"
    using assms on_curve_affine on_curve_ok Affine by auto
  show ?thesis
  proof (cases "?p dvd 2 * y")
    case True
    then show ?thesis using dbl_infinity [OF assms(1) ok] Affine by simp
  next
    case False
    obtain c where c: "?p dvd c * (2 * y) - (3 * (x * x) + c_a cv)"
      "ShortPoint_dbl cv (Affine x y) = Affine ((c * c - 2 * x) mod ?p) ((c * (x - (c * c - 2 * x)) - y) mod ?p)"
      using dbl_slope [OF assms(1) ok False] by metis
    define x3 where "x3 = c * c - 2 * x"
    have "curve_poly cv x3 - (c * (x - x3) - y) * (c * (x - x3) - y) =
        (curve_poly cv x - y * y) - (c * (2 * y) - (3 * (x * x) + c_a cv)) * (x3 - x)"
      unfolding x3_def curve_poly_def by algebra
    then have "?p dvd curve_poly cv x3 - (c * (x - x3) - y) * (c * (x - x3) - y)" using e c(1) by (metis dvd_diff dvd_mult2)
    then show ?thesis unfolding Affine c(2) x3_def [symmetric] by (rule on_curve_reduced [OF assms(1)])
  qed
qed (simp add: ShortPoint_dbl_def)

lemma add_infinity [simp]: "ShortPoint_add cv Infinity P = P" "ShortPoint_add cv P Infinity = P"
  by (simp_all add: ShortPoint_add_def split: point.split)

lemma add_same: "ShortPoint_add cv P P = ShortPoint_dbl cv P"
  by (cases P) (simp_all add: ShortPoint_add_def ShortPoint_dbl_def)

lemma add_same_x: "y1 \<noteq> y2 \<Longrightarrow> ShortPoint_add cv (Affine x y1) (Affine x y2) = Infinity"
  by (simp add: ShortPoint_add_def)

lemma add_closed:
  assumes "curve_ok cv" "on_curve cv P" "on_curve cv Q"
  shows "on_curve cv (ShortPoint_add cv P Q)"
proof (cases "P = Infinity \<or> Q = Infinity \<or> P = Q")
  case True
  then show ?thesis using assms dbl_on_curve by (auto simp: add_same)
next
  case False
  then obtain x1 y1 x2 y2 where "P = Affine x1 y1" "Q = Affine x2 y2" by (metis point.exhaust)
  with False show ?thesis using add_on_curve [OF assms(1)] assms(2,3) by (cases "x1 = x2") (auto simp: add_same_x)
qed

lemma add_commute:
  assumes "curve_ok cv" "point_ok cv P" "point_ok cv Q"
  shows "ShortPoint_add cv P Q = ShortPoint_add cv Q P"
proof (cases "P = Infinity \<or> Q = Infinity \<or> P = Q")
  case False
  then obtain x1 y1 x2 y2 where PQ: "P = Affine x1 y1" "Q = Affine x2 y2" by (metis point.exhaust)
  show ?thesis
  proof (cases "x1 = x2")
    case True
    then show ?thesis using False PQ by (auto simp: add_same_x)
  next
    case x: False
    let ?p = "c_p cv"
    have r: "reduced (c_red cv) x1" "reduced (c_red cv) x2" using assms PQ by (simp_all add: point_ok_def)
    have d: "\<not> ?p dvd x1 - x2" using r x reduced_eq_iff unfolding reduced_def by blast
    obtain c where c: "reduced (c_red cv) c" "?p dvd c * (x1 - x2) - (y1 - y2)"
      "ShortPoint_add cv P Q = Affine ((c * c - x1 - x2) mod ?p) ((c * (x1 - (c * c - x1 - x2)) - y1) mod ?p)"
      using add_slope [OF assms(1) assms(2,3) [unfolded PQ] x] PQ by metis
    obtain c' where c': "reduced (c_red cv) c'" "?p dvd c' * (x2 - x1) - (y2 - y1)"
      "ShortPoint_add cv Q P = Affine ((c' * c' - x2 - x1) mod ?p) ((c' * (x2 - (c' * c' - x2 - x1)) - y2) mod ?p)"
      using add_slope [OF assms(1) assms(3,2) [unfolded PQ]] x PQ by metis
    have "?p dvd (c - c') * (x1 - x2)" using dvd_add [OF c(2) c'(2)] by (simp add: algebra_simps)
    then have "?p dvd c - c'" using d prime_mod_dvd_mult curve_okD(4) [OF assms(1)] by blast
    then have eq: "c' = c" using c(1) c'(1) reduced_eq_iff unfolding reduced_def by blast
    have X: "c * c - x2 - x1 = c * c - x1 - x2" by simp
    have "?p dvd (c * (x1 - (c * c - x1 - x2)) - y1) - (c * (x2 - (c * c - x1 - x2)) - y2)"
      using c(2) by (simp add: algebra_simps)
    then show ?thesis unfolding c(3) c'(3) eq X by (simp add: mod_eq_dvd_iff)
  qed
qed auto

lemma neg_point_ok: "curve_ok cv \<Longrightarrow> point_ok cv P \<Longrightarrow> point_ok cv (ShortPoint_neg cv P)"
  by (auto simp: point_ok_def ShortPoint_neg_def curve_point_def red_simps curve_okD split: point.splits)

lemma add_neg:
  assumes "curve_ok cv" "point_ok cv P"
  shows "ShortPoint_add cv P (ShortPoint_neg cv P) = Infinity"
proof (cases P)
  case (Affine x y)
  note f = curve_okD(1) [OF assms(1)]
  have r: "reduced (c_red cv) x" "reduced (c_red cv) y" using assms(2) Affine by (simp_all add: point_ok_def)
  have n: "ShortPoint_neg cv P = Affine x ((- y) mod c_p cv)"
    using r f Affine by (simp add: ShortPoint_neg_def curve_point_def red_simps reduced_mod_id)
  show ?thesis
  proof (cases "y = (- y) mod c_p cv")
    case True
    then have "y mod c_p cv = (- y) mod c_p cv" using reduced_mod_id r by simp
    then have "c_p cv dvd 2 * y" by (simp add: mod_eq_dvd_iff)
    then show ?thesis using n True Affine dbl_infinity assms by (simp add: add_same)
  qed (use n Affine add_same_x in simp)
qed (simp add: ShortPoint_neg_def)

section \<open>Multiples\<close>

text \<open>
  Closure, commutativity, the neutral element and inverses hold for every curve.  That the addition of a curve is associative
  is a theorem of algebra about non-singular curves; it is the hypothesis \<open>curve_group\<close>.
\<close>

definition curve_group :: "short_curve \<Rightarrow> bool" where
  "curve_group cv \<longleftrightarrow> curve_ok cv \<and>
     (\<forall>P Q R. on_curve cv P \<longrightarrow> on_curve cv Q \<longrightarrow> on_curve cv R \<longrightarrow>
        ShortPoint_add cv (ShortPoint_add cv P Q) R = ShortPoint_add cv P (ShortPoint_add cv Q R))"

lemma curve_group_ok: "curve_group cv \<Longrightarrow> curve_ok cv"
  by (simp add: curve_group_def)

definition nmul :: "short_curve \<Rightarrow> nat \<Rightarrow> point \<Rightarrow> point" where
  "nmul cv n P = (ShortPoint_add cv P ^^ n) Infinity"

definition zmul :: "short_curve \<Rightarrow> int \<Rightarrow> point \<Rightarrow> point" where
  "zmul cv k P = (if k < 0 then ShortPoint_neg cv (nmul cv (nat (- k)) P) else nmul cv (nat k) P)"

lemma nmul_simps [simp]: "nmul cv 0 P = Infinity" "nmul cv (Suc n) P = ShortPoint_add cv P (nmul cv n P)"
  by (simp_all add: nmul_def)

lemma neg_infinity [simp]: "ShortPoint_neg cv Infinity = Infinity"
  by (simp add: ShortPoint_neg_def)

lemma zmul_0 [simp]: "zmul cv 0 P = Infinity"
  by (simp add: zmul_def)

lemma zmul_1 [simp]: "zmul cv 1 P = P"
  by (simp add: zmul_def)

lemma nmul_closed: "curve_ok cv \<Longrightarrow> on_curve cv P \<Longrightarrow> on_curve cv (nmul cv n P)"
  by (induction n) (simp_all add: add_closed)

lemma zmul_closed: "curve_ok cv \<Longrightarrow> on_curve cv P \<Longrightarrow> on_curve cv (zmul cv k P)"
  by (simp add: zmul_def nmul_closed neg_on_curve)

lemma add_assoc: "curve_group cv \<Longrightarrow> on_curve cv P \<Longrightarrow> on_curve cv Q \<Longrightarrow> on_curve cv R \<Longrightarrow>
    ShortPoint_add cv (ShortPoint_add cv P Q) R = ShortPoint_add cv P (ShortPoint_add cv Q R)"
  by (simp add: curve_group_def)

lemma neg_neg [simp]:
  assumes "curve_ok cv" "point_ok cv P"
  shows "ShortPoint_neg cv (ShortPoint_neg cv P) = P"
  using assms curve_okD(1) [OF assms(1)]
  by (cases P) (auto simp: ShortPoint_neg_def curve_point_def point_ok_def red_simps mod_simps reduced_mod_id)

lemma add_neg_left:
  "curve_ok cv \<Longrightarrow> point_ok cv P \<Longrightarrow> ShortPoint_add cv (ShortPoint_neg cv P) P = Infinity"
  using add_neg add_commute neg_point_ok by metis

lemma add_left_commute:
  assumes "curve_group cv" "on_curve cv P" "on_curve cv Q" "on_curve cv R"
  shows "ShortPoint_add cv P (ShortPoint_add cv Q R) = ShortPoint_add cv Q (ShortPoint_add cv P R)"
  using assms by (metis add_assoc add_commute curve_group_ok on_curve_ok)

lemma add_cancel:
  assumes "curve_group cv" "on_curve cv P" "on_curve cv Q" "on_curve cv R"
    "ShortPoint_add cv P Q = ShortPoint_add cv P R"
  shows "Q = R"
proof -
  note ok = curve_group_ok [OF assms(1)]
  have "ShortPoint_add cv (ShortPoint_neg cv P) (ShortPoint_add cv P S) = S" if "on_curve cv S" for S
    using add_assoc [OF assms(1) neg_on_curve [OF ok assms(2)] assms(2) that] add_neg_left [OF ok on_curve_ok [OF assms(2)]]
    by simp
  then show ?thesis using assms(3-5) by metis
qed

lemma neg_unique:
  assumes "curve_group cv" "on_curve cv P" "on_curve cv Q" "ShortPoint_add cv P Q = Infinity"
  shows "Q = ShortPoint_neg cv P"
proof -
  note ok = curve_group_ok [OF assms(1)]
  have "Q = ShortPoint_add cv (ShortPoint_add cv (ShortPoint_neg cv P) P) Q"
    using add_neg_left [OF ok on_curve_ok [OF assms(2)]] by simp
  also have "\<dots> = ShortPoint_add cv (ShortPoint_neg cv P) (ShortPoint_add cv P Q)"
    using add_assoc [OF assms(1) neg_on_curve [OF ok assms(2)] assms(2,3)] .
  finally show ?thesis using assms(4) by simp
qed

lemma neg_add:
  assumes "curve_group cv" "on_curve cv P" "on_curve cv Q"
  shows "ShortPoint_neg cv (ShortPoint_add cv P Q) = ShortPoint_add cv (ShortPoint_neg cv P) (ShortPoint_neg cv Q)"
proof -
  note ok = curve_group_ok [OF assms(1)]
  let ?p = "ShortPoint_neg cv P" and ?q = "ShortPoint_neg cv Q"
  have c: "on_curve cv ?p" "on_curve cv ?q" using neg_on_curve ok assms by auto
  have "ShortPoint_add cv (ShortPoint_add cv P Q) (ShortPoint_add cv ?p ?q) =
      ShortPoint_add cv (ShortPoint_add cv P ?p) (ShortPoint_add cv Q ?q)"
    using assms c by (simp add: add_assoc add_left_commute add_closed ok)
  also have "\<dots> = Infinity" using add_neg ok assms on_curve_ok by simp
  finally show ?thesis using neg_unique [OF assms(1)] add_closed ok assms c by metis
qed

lemma nmul_add:
  assumes "curve_group cv" "on_curve cv P"
  shows "nmul cv (m + n) P = ShortPoint_add cv (nmul cv m P) (nmul cv n P)"
  using assms curve_group_ok [OF assms(1)] by (induction m) (simp_all add: add_assoc nmul_closed)

lemma zmul_Suc:
  assumes "curve_group cv" "on_curve cv P"
  shows "zmul cv (k + 1) P = ShortPoint_add cv P (zmul cv k P)"
proof (cases "0 \<le> k")
  case True
  then have "nat (k + 1) = Suc (nat k)" by simp
  then show ?thesis using True by (simp add: zmul_def)
next
  case False
  note ok = curve_group_ok [OF assms(1)]
  have n: "nat (- k) = Suc (nat (- (k + 1)))" using False by simp
  let ?Q = "nmul cv (nat (- (k + 1))) P"
  have q: "on_curve cv ?Q" "on_curve cv (ShortPoint_neg cv ?Q)" "on_curve cv (ShortPoint_neg cv P)"
    using nmul_closed neg_on_curve ok assms by auto
  have "ShortPoint_add cv P (zmul cv k P) = ShortPoint_add cv P (ShortPoint_add cv (ShortPoint_neg cv P) (ShortPoint_neg cv ?Q))"
    using False n neg_add [OF assms q(1)] by (simp add: zmul_def)
  also have "\<dots> = ShortPoint_neg cv ?Q"
    using add_assoc [OF assms(1,2) q(3,2)] add_neg ok on_curve_ok assms(2) by simp
  also have "\<dots> = zmul cv (k + 1) P"
    using False by (cases "k = - 1") (simp_all add: zmul_def)
  finally show ?thesis by simp
qed

lemma zmul_add:
  assumes "curve_group cv" "on_curve cv P"
  shows "zmul cv (k + l) P = ShortPoint_add cv (zmul cv k P) (zmul cv l P)"
proof (induction k rule: int_induct [where k = 0])
  case base
  show ?case by simp
next
  case (step1 i)
  have "zmul cv (i + 1 + l) P = ShortPoint_add cv P (zmul cv (i + l) P)"
    using zmul_Suc [OF assms, of "i + l"] by (simp add: algebra_simps)
  then show ?case using step1 zmul_Suc [OF assms, of i] assms curve_group_ok by (simp add: add_assoc zmul_closed)
next
  case (step2 i)
  note ok = curve_group_ok [OF assms(1)]
  have c: "on_curve cv (zmul cv j P)" for j using zmul_closed ok assms(2) by blast
  have "ShortPoint_add cv P (zmul cv (i - 1 + l) P) = zmul cv (i + l) P"
    using zmul_Suc [OF assms, of "i - 1 + l"] by (simp add: algebra_simps)
  also have "\<dots> = ShortPoint_add cv (ShortPoint_add cv P (zmul cv (i - 1) P)) (zmul cv l P)"
    using step2 zmul_Suc [OF assms, of "i - 1"] by simp
  also have "\<dots> = ShortPoint_add cv P (ShortPoint_add cv (zmul cv (i - 1) P) (zmul cv l P))"
    using add_assoc [OF assms c c] .
  finally show ?case using add_cancel assms c add_closed ok by metis
qed

lemma zmul_minus:
  assumes "curve_group cv" "on_curve cv P"
  shows "zmul cv (- k) P = ShortPoint_neg cv (zmul cv k P)"
  using neg_unique [OF assms(1), of "zmul cv k P" "zmul cv (- k) P"] zmul_add [OF assms, of k "- k"]
    zmul_closed curve_group_ok assms by simp

lemma nmul_infinity [simp]: "nmul cv n Infinity = Infinity"
  by (induction n) simp_all

lemma zmul_infinity [simp]: "zmul cv k Infinity = Infinity"
  by (simp add: zmul_def)

lemma zmul_mult:
  assumes "curve_group cv" "on_curve cv P"
  shows "zmul cv (k * l) P = zmul cv k (zmul cv l P)"
proof (induction k rule: int_induct [where k = 0])
  case (step1 i)
  then show ?case
    using zmul_add [OF assms, of l "i * l"] zmul_Suc [OF assms(1) zmul_closed, of P i l] assms curve_group_ok
    by (simp add: distrib_right add.commute)
next
  case (step2 i)
  have c: "on_curve cv (zmul cv l P)" using zmul_closed assms curve_group_ok by blast
  have "zmul cv ((i - 1) * l) P = ShortPoint_add cv (zmul cv i (zmul cv l P)) (ShortPoint_neg cv (zmul cv l P))"
    using step2 zmul_add [OF assms, of "i * l" "- l"] zmul_minus [OF assms, of l] by (simp add: algebra_simps)
  also have "\<dots> = zmul cv (i - 1) (zmul cv l P)"
    using zmul_add [OF assms(1) c, of i "- 1"] zmul_minus [OF assms(1) c, of 1] by simp
  finally show ?case .
qed simp

lemma zmul_distrib:
  assumes "curve_group cv" "on_curve cv P" "on_curve cv Q"
  shows "zmul cv k (ShortPoint_add cv P Q) = ShortPoint_add cv (zmul cv k P) (zmul cv k Q)"
proof -
  note ok = curve_group_ok [OF assms(1)]
  have n: "nmul cv n (ShortPoint_add cv P Q) = ShortPoint_add cv (nmul cv n P) (nmul cv n Q)" for n
    by (induction n) (simp_all add: assms ok add_assoc add_left_commute add_closed nmul_closed)
  show ?thesis using neg_add [OF assms(1)] nmul_closed ok assms by (simp add: zmul_def n)
qed

lemma zmul_dbl:
  assumes "curve_group cv" "on_curve cv P"
  shows "(ShortPoint_dbl cv ^^ n) P = zmul cv (2 ^ n) P"
proof (induction n)
  case (Suc n)
  have "on_curve cv (zmul cv (2 ^ n) P)" using zmul_closed assms curve_group_ok by blast
  have "ShortPoint_dbl cv (zmul cv (2 ^ n) P) = zmul cv (2 ^ n + 2 ^ n) P"
    using zmul_add [OF assms, of "2 ^ n" "2 ^ n"] by (simp only: add_same)
  then show ?case using Suc by (simp only: funpow.simps o_apply power_Suc mult_2)
qed simp

section \<open>Decompression\<close>

lemma curve_rhs_mod:
  "curve_ok cv \<Longrightarrow> reduced (c_red cv) x \<Longrightarrow> curve_rhs cv x = curve_poly cv x mod c_p cv"
  using curve_okD [of cv] by (simp add: curve_rhs_def curve_poly_def red_simps mod_simps mult.commute)

lemma pointFromX:
  assumes "curve_ok cv" "c_p cv mod 4 = 3"
  shows "(on_curve cv (Affine x y) \<longrightarrow> ShortCurve_pointFromX cv x (odd y) = Inr (Affine x y)) \<and>
    (ShortCurve_pointFromX cv u isodd = Inr P \<longrightarrow>
       on_curve cv P \<and> (\<exists>v. P = Affine (u mod c_p cv) v \<and> (v = 0 \<or> odd v = isodd)))"
proof -
  note f = curve_okD [OF assms(1)]
  let ?r = "c_red cv" and ?p = "c_p cv"
  have odd_p: "odd ?p" using f(1) by (simp add: field_def)
  have flip: "odd (redNeg cv v) \<longleftrightarrow> even v" if "reduced ?r v" "v \<noteq> 0" for v
    using that odd_p by (simp add: Red_neg_def)
  have nsq: "redNeg cv v * redNeg cv v mod ?p = v * v mod ?p" if "reduced ?r v" for v
    using that by (metis Red_neg mod_mult_eq minus_mult_minus)
  have sq: "reduced ?r (Red_sqrt ?r a)" if "reduced ?r a" for a
    using that f(1) reduced_01(1) [OF f(1)] by (auto simp: Red_sqrt_def Red_pow)
  have 1: "ShortCurve_pointFromX cv x (odd y) = Inr (Affine x y)" if oc: "on_curve cv (Affine x y)"
  proof -
    have r: "reduced ?r x" "reduced ?r y" and e: "?p dvd curve_poly cv x - y * y"
      using oc on_curve_affine [OF assms(1)] by auto
    define w where "w = Red_sqrt ?r (curve_rhs cv x)"
    have rhs: "curve_rhs cv x = y * y mod ?p" using curve_rhs_mod [OF assms(1) r(1)] e by (simp add: mod_eq_dvd_iff)
    then have w: "w = y \<or> w = redNeg cv y"
      using Red_sqrt_square [OF f(1) assms(2) r(2) rhs] r by (simp add: w_def Red_neg)
    then have rw: "reduced ?r w" using r f(1) by (auto simp: Red_neg)
    have "w * w mod ?p = y * y mod ?p" using w nsq [OF r(2)] by auto
    then have z: "redSub cv (redSqr cv w) (curve_rhs cv x) = 0" using rw f(1) rhs by (simp add: red_simps)
    have "(if odd y \<and> even w \<or> even y \<and> odd w then redNeg cv w else w) = y"
    proof (cases "w = y")
      case False
      then have wn: "w = redNeg cv y" and "y \<noteq> 0" using w by (auto simp: Red_neg_def)
      moreover have "redNeg cv (redNeg cv y) = y" using r f(1) by (simp add: Red_neg mod_simps reduced_mod_id)
      ultimately show ?thesis using flip [OF r(2)] by auto
    qed auto
    then show ?thesis
      using z r f(1) by (simp add: ShortCurve_pointFromX_def Let_def Red_convertTo reduced_mod_id curve_point_def w_def [symmetric])
        (auto simp: reduced_mod_id split: if_splits)
  qed
  have 2: "on_curve cv P \<and> (\<exists>v. P = Affine (u mod ?p) v \<and> (v = 0 \<or> odd v = isodd))"
    if pf: "ShortCurve_pointFromX cv u isodd = Inr P"
  proof -
    define x where "x = u mod ?p"
    have rx: "reduced ?r x" using f(1) by (simp add: x_def)
    define w where "w = Red_sqrt ?r (curve_rhs cv x)"
    have rr: "reduced ?r (curve_rhs cv x)" using curve_rhs_mod [OF assms(1) rx] f(1) by simp
    then have rw: "reduced ?r w" using sq by (simp add: w_def)
    define v where "v = (if isodd \<and> even w \<or> \<not> isodd \<and> odd w then redNeg cv w else w)"
    have rv: "reduced ?r v" using rw f(1) by (simp add: v_def Red_neg)
    have "ShortCurve_pointFromX cv u isodd =
        (if redSub cv (redSqr cv w) (curve_rhs cv x) \<noteq> 0 then Inl (PlainError ''invalid point'') else Inr (curve_point cv x v))"
      unfolding ShortCurve_pointFromX_def Let_def v_def w_def x_def Red_convertTo [OF f(1)] ..
    then have s: "redSub cv (redSqr cv w) (curve_rhs cv x) = 0" and P: "P = Affine x v"
      using pf rx rv f(1) by (simp_all add: Red_convertTo curve_point_def reduced_mod_id split: if_splits)
    have "w * w mod ?p = curve_poly cv x mod ?p"
      using s rw rr f(1) curve_rhs_mod [OF assms(1) rx] by (simp add: red_simps mod_simps mod_eq_dvd_iff dvd_eq_mod_eq_0)
    moreover have "v * v mod ?p = w * w mod ?p" using nsq [OF rw] by (simp add: v_def)
    ultimately have "?p dvd curve_poly cv x - v * v" by (simp add: mod_eq_dvd_iff [symmetric])
    then have "on_curve cv P" using on_curve_affine [OF assms(1)] rx rv P by simp
    moreover have "v = 0 \<or> odd v = isodd" using flip [OF rw] by (auto simp: v_def Red_neg_def)
    ultimately show ?thesis using P x_def by blast
  qed
  show ?thesis using 1 2 by blast
qed

text \<open>
  C30: Decompression inverts compression on curves whose prime is 3 modulo 4: for every affine point of the curve
  \<open>pointFromX\<close> gives the point back from its first coordinate and the parity of the second; whatever it accepts is a point
  of the curve with the given first coordinate modulo \<open>p\<close>, and for the parity that is asked for unless the second
  coordinate is zero.
\<close>
theorem point_from_x:
  assumes "curve_ok cv" "c_p cv mod 4 = 3"
  shows "(on_curve cv (Affine x y) \<longrightarrow> ShortCurve_pointFromX cv x (odd y) = Inr (Affine x y)) \<and>
    (ShortCurve_pointFromX cv u isodd = Inr P \<longrightarrow>
       on_curve cv P \<and> (\<exists>v. P = Affine (u mod c_p cv) v \<and> (v = 0 \<or> odd v = isodd)))"
  using assms by (rule pointFromX)

end
