(* ===== verification/CurveMul.thy ===== *)
theory CurveMul
  imports Curve
begin

text \<open>
  Multiplication of points (elliptic/utils and elliptic/curve/base with the parts of elliptic/curve/short that use them): the
  signed digits of a multiplier, tables of multiples, and the routines that combine them.  Reading an entry that a table does
  not have is a \<open>TypeError\<close>, as is reading the coordinates of the point at infinity.
\<close>

section \<open>Digits of a multiplier\<close>

text \<open>\<open>getNAF\<close>: the digits from the lowest, each zero or odd.\<close>

definition naf_digit :: "nat \<Rightarrow> int \<Rightarrow> int" where
  "naf_digit w k =
     (if odd k then let m = k mod 2 ^ Suc w in if m > 2 ^ w - 1 then 2 ^ w - m else m else 0)"

lemma naf_digit_less: "1 \<le> k \<Longrightarrow> - k < naf_digit w k \<and> naf_digit w k \<le> k"
proof -
  assume k: "1 \<le> k"
  have "k mod 2 ^ Suc w \<le> k" "0 \<le> k mod 2 ^ Suc w" "k mod 2 ^ Suc w < 2 ^ Suc w"
    using k by (simp_all add: zmod_le_nonneg_dividend)
  moreover have "(2 :: int) ^ Suc w = 2 * 2 ^ w" "(0 :: int) < 2 ^ w" by simp_all
  ultimately show ?thesis using k unfolding naf_digit_def Let_def by (smt (verit))
qed

function getNAF :: "int \<Rightarrow> nat \<Rightarrow> int list" where
  "getNAF k w =
     (if k < 1 then []
      else
        let z = naf_digit w k;
            k = k - z;
            shift = (if k \<noteq> 0 \<and> k mod 2 ^ Suc w = 0 then w + 1 else 1)
        in z # replicate (shift - 1) 0 @ getNAF (k div 2 ^ shift) w)"
  by pat_completeness auto
termination
proof (relation "measure (\<lambda>(k, w). nat k)")
  fix k z k' :: int and w shift :: nat
  assume *: "\<not> k < 1" "z = naf_digit w k" "k' = k - z" "shift = (if k' \<noteq> 0 \<and> k' mod 2 ^ Suc w = 0 then w + 1 else 1)"
  have "0 \<le> k'" "k' < 2 * k" using * naf_digit_less [of k w] by auto
  moreover have "(2 :: int) \<le> 2 ^ shift" using *(4) by simp
  then have "k' div 2 ^ shift \<le> k' div 2" using \<open>0 \<le> k'\<close> by (intro zdiv_mono2) simp_all
  ultimately show "((k' div 2 ^ shift, w), k, w) \<in> measure (\<lambda>(k, w). nat k)" using * by auto
qed simp

declare getNAF.simps [simp del]

text \<open>\<open>getJSF\<close>: one pair of digits from the low bits of both numbers and their carries.\<close>

definition jsf_mod4 :: "int \<Rightarrow> int \<Rightarrow> int" where
  "jsf_mod4 k d = (let m = (k mod 4 + d) mod 4 in if m = 3 then - 1 else m)"

definition jsf_digit :: "int \<Rightarrow> int \<Rightarrow> int \<Rightarrow> int" where
  "jsf_digit k d other =
     (let m = jsf_mod4 k d in
      if even m then 0
      else let m8 = (k mod 8 + d) mod 8 in if (m8 = 3 \<or> m8 = 5) \<and> other = 2 then - m else m)"

definition jsf_carry :: "int \<Rightarrow> int \<Rightarrow> int" where
  "jsf_carry d u = (if 2 * d = u + 1 then 1 - d else d)"

lemma jsf_carry_less:
  assumes "0 \<le> k" "d = 0 \<or> d = 1"
  shows "jsf_carry d (jsf_digit k d m) = 0 \<or> jsf_carry d (jsf_digit k d m) = 1"
    "k div 2 + jsf_carry d (jsf_digit k d m) \<le> k + d"
    "0 < k + d \<Longrightarrow> k div 2 + jsf_carry d (jsf_digit k d m) < k + d"
proof -
  show "jsf_carry d (jsf_digit k d m) = 0 \<or> jsf_carry d (jsf_digit k d m) = 1"
    using assms(2) by (auto simp: jsf_carry_def)
  have "k div 2 + jsf_carry d (jsf_digit k d m) < k + d \<or> k + d = 0 \<and> jsf_carry d (jsf_digit k d m) = 0"
  proof (cases "k \<le> 2")
    case True
    then have "k = 0 \<or> k = 1 \<or> k = 2" using assms(1) by linarith
    then show ?thesis using assms(2) by (auto simp: jsf_carry_def jsf_digit_def jsf_mod4_def Let_def)
  next
    case False
    have "jsf_carry d (jsf_digit k d m) \<le> 1" using assms(2) by (auto simp: jsf_carry_def)
    then show ?thesis using False assms by linarith
  qed
  then show "k div 2 + jsf_carry d (jsf_digit k d m) \<le> k + d"
    "0 < k + d \<Longrightarrow> k div 2 + jsf_carry d (jsf_digit k d m) < k + d"
    using assms by auto
qed

function jsf_loop :: "int \<Rightarrow> int \<Rightarrow> int \<Rightarrow> int \<Rightarrow> (int \<times> int) list" where
  "jsf_loop k1 k2 d1 d2 =
     (if 0 \<le> k1 \<and> 0 \<le> k2 \<and> (d1 = 0 \<or> d1 = 1) \<and> (d2 = 0 \<or> d2 = 1) \<and> (k1 > - d1 \<or> k2 > - d2) then
        let u1 = jsf_digit k1 d1 (jsf_mod4 k2 d2); u2 = jsf_digit k2 d2 (jsf_mod4 k1 d1)
        in (u1, u2) # jsf_loop (k1 div 2) (k2 div 2) (jsf_carry d1 u1) (jsf_carry d2 u2)
      else [])"
  by pat_completeness auto
termination
proof (relation "measure (\<lambda>(k1, k2, d1, d2). nat (k1 + d1 + (k2 + d2)))")
  fix k1 k2 d1 d2 u1 u2 :: int
  assume *: "0 \<le> k1 \<and> 0 \<le> k2 \<and> (d1 = 0 \<or> d1 = 1) \<and> (d2 = 0 \<or> d2 = 1) \<and> (k1 > - d1 \<or> k2 > - d2)"
    "u1 = jsf_digit k1 d1 (jsf_mod4 k2 d2)" "u2 = jsf_digit k2 d2 (jsf_mod4 k1 d1)"
  then show "((k1 div 2, k2 div 2, jsf_carry d1 u1, jsf_carry d2 u2), k1, k2, d1, d2) \<in>
      measure (\<lambda>(k1, k2, d1, d2). nat (k1 + d1 + (k2 + d2)))"
    using jsf_carry_less [of k1 d1 "jsf_mod4 k2 d2"] jsf_carry_less [of k2 d2 "jsf_mod4 k1 d1"] by auto
qed simp

declare jsf_loop.simps [simp del]

definition getJSF :: "int \<Rightarrow> int \<Rightarrow> (int \<times> int) list" where
  "getJSF k1 k2 = jsf_loop k1 k2 0 0"

section \<open>Points with their tables\<close>

text \<open>
  A table is the step or window and its points.  The cached \<open>beta\<close> of a precomputed point is left out: \<open>_getBeta\<close> computes
  the same point again.
\<close>

record precomp =
  pre_doubles :: "(nat \<times> point list) option"
  pre_naf :: "(nat \<times> point list) option"

record short_point =
  sp_point :: point
  precomputed :: "precomp option"

definition plain :: "point \<Rightarrow> short_point" where
  "plain P = \<lparr>sp_point = P, precomputed = None\<rparr>"

definition map_pre :: "(point \<Rightarrow> point) \<Rightarrow> precomp \<Rightarrow> precomp" where
  "map_pre f pre = \<lparr>pre_doubles = map_option (\<lambda>(step, ps). (step, map f ps)) (pre_doubles pre),
                    pre_naf = map_option (\<lambda>(wnd, ps). (wnd, map f ps)) (pre_naf pre)\<rparr>"

text \<open>\<open>neg(true)\<close>: the point at infinity is returned as it is, with its tables.\<close>

definition ShortPoint_neg_pre :: "short_curve \<Rightarrow> short_point \<Rightarrow> short_point" where
  "ShortPoint_neg_pre cv p =
     (if sp_point p = Infinity then p
      else \<lparr>sp_point = ShortPoint_neg cv (sp_point p), precomputed = map_option (map_pre (ShortPoint_neg cv)) (precomputed p)\<rparr>)"

text \<open>\<open>_getBeta\<close> reads the coordinates of the point and of its tables; the point at infinity has none.\<close>

definition endoMul :: "short_curve \<Rightarrow> int \<Rightarrow> point \<Rightarrow> point" where
  "endoMul cv beta P = (case P of Infinity \<Rightarrow> Infinity | Affine x y \<Rightarrow> curve_point cv (redMul cv x beta) y)"

definition pre_points :: "precomp \<Rightarrow> point list" where
  "pre_points pre = (case pre_naf pre of Some (wnd, ps) \<Rightarrow> ps | None \<Rightarrow> []) @ (case pre_doubles pre of Some (step, ps) \<Rightarrow> ps | None \<Rightarrow> [])"

definition ShortPoint_getBeta :: "short_curve \<Rightarrow> int \<Rightarrow> short_point \<Rightarrow> short_point result" where
  "ShortPoint_getBeta cv beta p =
     (if sp_point p = Infinity \<or> (\<exists>pre \<in> set_option (precomputed p). Infinity \<in> set (pre_points pre))
      then Inl (TypeError ''Cannot read property 'redMul' of null'')
      else Inr \<lparr>sp_point = endoMul cv beta (sp_point p), precomputed = map_option (map_pre (endoMul cv beta)) (precomputed p)\<rparr>)"

fun doubles_list :: "short_curve \<Rightarrow> nat \<Rightarrow> nat \<Rightarrow> point \<Rightarrow> point list" where
  "doubles_list cv step n acc =
     (if n = 0 \<or> step = 0 then [] else let acc = (ShortPoint_dbl cv ^^ step) acc in acc # doubles_list cv step (n - step) acc)"

declare doubles_list.simps [simp del]

definition doubles_of :: "short_point \<Rightarrow> (nat \<times> point list) option" where
  "doubles_of p = Option.bind (precomputed p) pre_doubles"

definition naf_of :: "short_point \<Rightarrow> (nat \<times> point list) option" where
  "naf_of p = Option.bind (precomputed p) pre_naf"

definition getDoubles :: "short_curve \<Rightarrow> short_point \<Rightarrow> nat \<Rightarrow> nat \<Rightarrow> nat \<times> point list" where
  "getDoubles cv p step pow =
     (case doubles_of p of
        Some d \<Rightarrow> d
      | None \<Rightarrow> (step, sp_point p # doubles_list cv step pow (sp_point p)))"

definition getNAFPoints :: "short_curve \<Rightarrow> short_point \<Rightarrow> nat \<Rightarrow> nat \<times> point list" where
  "getNAFPoints cv p wnd =
     (case naf_of p of
        Some t \<Rightarrow> t
      | None \<Rightarrow> (wnd, foldl (\<lambda>res _. res @ [ShortPoint_add cv (last res) (ShortPoint_dbl cv (sp_point p))])
                    [sp_point p] [1..<2 ^ wnd - 1]))"

definition BasePoint_precompute :: "short_curve \<Rightarrow> short_point \<Rightarrow> nat \<Rightarrow> short_point" where
  "BasePoint_precompute cv p pow =
     (if precomputed p \<noteq> None then p
      else p\<lparr>precomputed := Some \<lparr>pre_doubles = Some (getDoubles cv p 4 pow), pre_naf = Some (getNAFPoints cv p 8)\<rparr>\<rparr>)"

definition hasDoubles :: "short_point \<Rightarrow> int \<Rightarrow> bool" where
  "hasDoubles p k =
     (case doubles_of p of
        Some (step, ps) \<Rightarrow> BN_bitLength (nat \<bar>k\<bar>) + 1 \<le> length ps * step
      | None \<Rightarrow> False)"

section \<open>Multiplication with a table of doubles\<close>

text \<open>The digits of one window; \<open>naf[k]\<close> beyond the end makes the sum \<open>NaN\<close>, which the next shift turns into zero.\<close>

definition naf_window :: "int list \<Rightarrow> nat \<Rightarrow> nat \<Rightarrow> int" where
  "naf_window naf j step = foldr (\<lambda>d w. 2 * w + d) (take step (drop j naf)) 0"

fun naf_windows :: "int list \<Rightarrow> nat \<Rightarrow> int list" where
  "naf_windows naf step =
     (if naf = [] \<or> step = 0 then [] else naf_window naf 0 step # naf_windows (drop step naf) step)"

declare naf_windows.simps [simp del]

definition entry :: "'a list \<Rightarrow> nat \<Rightarrow> 'a result" where
  "entry xs i = (if i < length xs then Inr (xs ! i) else Inl (TypeError ''Cannot read property of undefined''))"

fun fixed_inner :: "short_curve \<Rightarrow> point list \<Rightarrow> int \<Rightarrow> jpoint \<Rightarrow> nat \<Rightarrow> int list \<Rightarrow> jpoint result" where
  "fixed_inner cv ps i b j [] = Inr b"
| "fixed_inner cv ps i b j (nafW # rest) =
     (if nafW = i then rbind (entry ps j) (\<lambda>P. fixed_inner cv ps i (JPoint_mixedAdd cv b P) (Suc j) rest)
      else if nafW = - i then
        rbind (entry ps j) (\<lambda>P. fixed_inner cv ps i (JPoint_mixedAdd cv b (ShortPoint_neg cv P)) (Suc j) rest)
      else fixed_inner cv ps i b (Suc j) rest)"

fun fixed_outer :: "short_curve \<Rightarrow> point list \<Rightarrow> int list \<Rightarrow> nat \<Rightarrow> jpoint \<Rightarrow> jpoint \<Rightarrow> jpoint result" where
  "fixed_outer cv ps repr 0 a b = Inr a"
| "fixed_outer cv ps repr (Suc i) a b =
     rbind (fixed_inner cv ps (int (Suc i)) b 0 repr) (\<lambda>b. fixed_outer cv ps repr i (JPoint_add cv a b) b)"

definition fixedNafMul :: "short_curve \<Rightarrow> short_point \<Rightarrow> int \<Rightarrow> point result" where
  "fixedNafMul cv p k =
     (if precomputed p = None then Inl (PlainError ''Assertion failed'')
      else
        let (step, ps) = getDoubles cv p 0 0;
            naf = getNAF k 1;
            I = (2 ^ (step + 1) - (if even step then 2 else 1)) div 3
        in rbind (fixed_outer cv ps (naf_windows naf step) I (jinf cv) (jinf cv)) (\<lambda>a. Inr (JPoint_toP cv a)))"

section \<open>Multiplication with windows\<close>

text \<open>Entries of the tables of \<open>_wnafMulAdd\<close> are affine or Jacobian.\<close>

datatype table_point = TAffine point | TJacobian jpoint

definition add_entry :: "short_curve \<Rightarrow> jpoint \<Rightarrow> table_point \<Rightarrow> jpoint" where
  "add_entry cv acc t = (case t of TAffine P \<Rightarrow> JPoint_mixedAdd cv acc P | TJacobian J \<Rightarrow> JPoint_add cv acc J)"

definition neg_entry :: "short_curve \<Rightarrow> table_point \<Rightarrow> table_point" where
  "neg_entry cv t =
     (case t of TAffine P \<Rightarrow> TAffine (ShortPoint_neg cv P) | TJacobian J \<Rightarrow> TJacobian (JPoint_neg cv J))"

text \<open>Adds the entry for the digit \<open>z\<close>.\<close>

definition add_wnaf_digit :: "short_curve \<Rightarrow> jpoint \<Rightarrow> table_point list \<times> int \<Rightarrow> jpoint result" where
  "add_wnaf_digit cv acc = (\<lambda>(wnd, z).
     if z = 0 then Inr acc
     else if z > 0 then rbind (entry wnd (nat ((z - 1) div 2))) (\<lambda>t. Inr (add_entry cv acc t))
     else rbind (entry wnd (nat ((- z - 1) div 2))) (\<lambda>t. Inr (add_entry cv acc (neg_entry cv t))))"

fun add_digits :: "short_curve \<Rightarrow> jpoint \<Rightarrow> (table_point list \<times> int) list \<Rightarrow> jpoint result" where
  "add_digits cv acc [] = Inr acc"
| "add_digits cv acc (d # ds) = rbind (add_wnaf_digit cv acc d) (\<lambda>acc. add_digits cv acc ds)"

text \<open>
  The main loop, on the columns of digits from the highest to the lowest: columns of zeros are counted and doubled over
  together with the column that ends them.
\<close>

function wnaf_loop :: "short_curve \<Rightarrow> table_point list list \<Rightarrow> jpoint \<Rightarrow> int list list \<Rightarrow> jpoint result" where
  "wnaf_loop cv wnds acc cols =
     (let k = length (takeWhile (list_all (\<lambda>z. z = 0)) cols) in
      case dropWhile (list_all (\<lambda>z. z = 0)) cols of
        [] \<Rightarrow> Inr (JPoint_dblp cv acc k)
      | col # rest \<Rightarrow>
          rbind (add_digits cv (JPoint_dblp cv acc (k + 1)) (zip wnds col)) (\<lambda>acc. wnaf_loop cv wnds acc rest))"
  by pat_completeness auto
termination
proof (relation "measure (\<lambda>(cv, wnds, acc, cols). length cols)")
  fix cols col rest and cv :: short_curve and wnds :: "table_point list list" and acc acc' :: jpoint
  assume "dropWhile (list_all (\<lambda>z :: int. z = 0)) cols = col # rest"
  then have "length (col # rest) \<le> length cols" by (metis length_dropWhile_le)
  then show "((cv, wnds, acc', rest), cv, wnds, acc, cols) \<in> measure (\<lambda>(cv, wnds, acc, cols). length cols)" by simp
qed simp

declare wnaf_loop.simps [simp del]

definition wnafMul :: "short_curve \<Rightarrow> short_point \<Rightarrow> int \<Rightarrow> point result" where
  "wnafMul cv p k =
     (let (w, ps) = getNAFPoints cv p 4; naf = getNAF k w
      in rbind (wnaf_loop cv [map TAffine ps] (jinf cv) (map (\<lambda>z. [z]) (rev naf))) (\<lambda>acc. Inr (JPoint_toP cv acc)))"

text \<open>
  \<open>_wnafMulAdd\<close> takes the points in pairs, from the last to the first.  A pair with windows of width one gets a common table
  and the digits of its joint sparse form; other pairs have a table and digits each.  \<open>mx\<close> is the length so far.
\<close>

definition digit_at :: "int list \<Rightarrow> nat \<Rightarrow> int" where
  "digit_at naf i = (if i < length naf then naf ! i else 0)"

definition comb_table :: "short_curve \<Rightarrow> point \<Rightarrow> point \<Rightarrow> table_point list result" where
  "comb_table cv A B =
     (case (A, B) of
        (Affine xa ya, Affine xb yb) \<Rightarrow>
          Inr (if ya = yb then
                 [TAffine A, TAffine (ShortPoint_add cv A B),
                  TJacobian (JPoint_mixedAdd cv (ShortPoint_toJ cv A) (ShortPoint_neg cv B)), TAffine B]
               else if ya = redNeg cv yb then
                 [TAffine A, TJacobian (JPoint_mixedAdd cv (ShortPoint_toJ cv A) B),
                  TAffine (ShortPoint_add cv A (ShortPoint_neg cv B)), TAffine B]
               else
                 [TAffine A, TJacobian (JPoint_mixedAdd cv (ShortPoint_toJ cv A) B),
                  TJacobian (JPoint_mixedAdd cv (ShortPoint_toJ cv A) (ShortPoint_neg cv B)), TAffine B])
      | _ \<Rightarrow> Inl (TypeError ''Cannot read property 'cmp' of null''))"

definition comb_index :: "int list" where
  "comb_index = [- 3, - 1, - 5, - 7, 0, 7, 5, 1, 3]"

type_synonym wnaf_track = "table_point list \<times> int list"

definition wnaf_pair ::
    "short_curve \<Rightarrow> nat \<Rightarrow> nat \<Rightarrow> (short_point \<times> int) \<times> (short_point \<times> int) \<Rightarrow> (wnaf_track list \<times> nat) result" where
  "wnaf_pair cv defW mx = (\<lambda>((pa, ka), (pb, kb)).
     let (wa, ta) = getNAFPoints cv pa defW; (wb, tb) = getNAFPoints cv pb defW in
     if wa \<noteq> 1 \<or> wb \<noteq> 1 then
       let na = getNAF ka wa; nb = getNAF kb wb
       in Inr ([(map TAffine ta, na), (map TAffine tb, nb)], max (length nb) (max (length na) mx))
     else
       rbind (comb_table cv (sp_point pa) (sp_point pb)) (\<lambda>comb.
         let jsf = getJSF ka kb; mx = max (length jsf) mx;
             naf = map (\<lambda>j. let (ja, jb) = (if j < length jsf then jsf ! j else (0, 0))
                            in comb_index ! nat ((ja + 1) * 3 + (jb + 1))) [0..<mx]
         in Inr ([(comb, naf), (map TAffine tb, replicate mx 0)], mx)))"

fun wnaf_pairs ::
    "short_curve \<Rightarrow> nat \<Rightarrow> ((short_point \<times> int) \<times> (short_point \<times> int)) list \<Rightarrow> (wnaf_track list \<times> nat) result" where
  "wnaf_pairs cv defW [] = Inr ([], 0)"
| "wnaf_pairs cv defW (pr # prs) =
     rbind (wnaf_pairs cv defW prs) (\<lambda>(tracks, mx).
       rbind (wnaf_pair cv defW mx pr) (\<lambda>(tracks', mx'). Inr (tracks' @ tracks, mx')))"

definition wnafMulAdd ::
    "short_curve \<Rightarrow> nat \<Rightarrow> ((short_point \<times> int) \<times> (short_point \<times> int)) list \<Rightarrow> jpoint result" where
  "wnafMulAdd cv defW prs =
     rbind (wnaf_pairs cv defW prs) (\<lambda>(tracks, mx).
       wnaf_loop cv (map fst tracks) (jinf cv) (map (\<lambda>i. map (\<lambda>t. digit_at (snd t) i) tracks) (rev [0..<Suc mx])))"

section \<open>The endomorphism\<close>

definition endoSplit :: "short_curve \<Rightarrow> endomorphism \<Rightarrow> int \<Rightarrow> int \<times> int" where
  "endoSplit cv en k =
     (let (a1, b1) = endo_v1 en; (a2, b2) = endo_v2 en;
          c1 = BN_divRound (b2 * k) (c_n cv);
          c2 = BN_divRound (- b1 * k) (c_n cv)
      in (k - c1 * a1 - c2 * a2, - (c1 * b1 + c2 * b2)))"

definition endo_pair ::
    "short_curve \<Rightarrow> endomorphism \<Rightarrow> short_point \<times> int \<Rightarrow> ((short_point \<times> int) \<times> (short_point \<times> int)) result" where
  "endo_pair cv en = (\<lambda>(p, k).
     let (k1, k2) = endoSplit cv en k in
     rbind (ShortPoint_getBeta cv (endo_beta en) p) (\<lambda>beta.
       Inr (if k1 < 0 then (ShortPoint_neg_pre cv p, - k1) else (p, k1),
            if k2 < 0 then (ShortPoint_neg_pre cv beta, - k2) else (beta, k2))))"

fun endo_pairs ::
    "short_curve \<Rightarrow> endomorphism \<Rightarrow> (short_point \<times> int) list \<Rightarrow> ((short_point \<times> int) \<times> (short_point \<times> int)) list result" where
  "endo_pairs cv en [] = Inr []"
| "endo_pairs cv en (pk # pks) =
     rbind (endo_pair cv en pk) (\<lambda>pr. rbind (endo_pairs cv en pks) (\<lambda>prs. Inr (pr # prs)))"

definition endoWnafMulAdd :: "short_curve \<Rightarrow> endomorphism \<Rightarrow> (short_point \<times> int) list \<Rightarrow> jpoint result" where
  "endoWnafMulAdd cv en pks = rbind (endo_pairs cv en pks) (\<lambda>prs. wnafMulAdd cv 1 prs)"

section \<open>Multiples and sums of multiples\<close>

definition ShortPoint_mul :: "short_curve \<Rightarrow> short_point \<Rightarrow> int \<Rightarrow> point result" where
  "ShortPoint_mul cv p k =
     (if hasDoubles p k then fixedNafMul cv p k
      else case c_endo cv of
        Some en \<Rightarrow> rbind (endoWnafMulAdd cv en [(p, k)]) (\<lambda>acc. Inr (JPoint_toP cv acc))
      | None \<Rightarrow> wnafMul cv p k)"

definition ShortPoint_jmulAdd :: "short_curve \<Rightarrow> short_point \<Rightarrow> int \<Rightarrow> short_point \<Rightarrow> int \<Rightarrow> jpoint result" where
  "ShortPoint_jmulAdd cv p1 k1 p2 k2 =
     (case c_endo cv of
        Some en \<Rightarrow> endoWnafMulAdd cv en [(p1, k1), (p2, k2)]
      | None \<Rightarrow> wnafMulAdd cv 1 [((p1, k1), (p2, k2))])"

definition ShortPoint_mulAdd :: "short_curve \<Rightarrow> short_point \<Rightarrow> int \<Rightarrow> short_point \<Rightarrow> int \<Rightarrow> point result" where
  "ShortPoint_mulAdd cv p1 k1 p2 k2 = rbind (ShortPoint_jmulAdd cv p1 k1 p2 k2) (\<lambda>acc. Inr (JPoint_toP cv acc))"

end
