(* ===== verification/NafProps.thy ===== *)
theory NafProps
  imports CurveMul
begin

text \<open>What the digits of a multiplier are worth, how large they and their windows are, and how many there are.\<close>

section \<open>The digits of a number\<close>

fun naf_value :: "int list \<Rightarrow> int" where
  "naf_value [] = 0"
| "naf_value (d # ds) = d + 2 * naf_value ds"

lemma naf_value_append: "naf_value (xs @ ys) = naf_value xs + 2 ^ length xs * naf_value ys"
  by (induction xs) (simp_all add: algebra_simps)

lemma naf_value_zeros [simp]: "naf_value (replicate n 0) = 0"
  by (induction n) simp_all

lemma naf_digit:
  assumes "1 \<le> w"
  shows "even (k - naf_digit w k)" "naf_digit w k = 0 \<or> odd (naf_digit w k)" "\<bar>naf_digit w k\<bar> < 2 ^ w"
    "naf_digit w k = 0 \<longleftrightarrow> even k"
proof -
  define m where "m = k mod 2 ^ Suc w"
  have p: "even ((2 :: int) ^ w)" "(2 :: int) ^ Suc w = 2 * 2 ^ w" using assms by simp_all
  have m: "0 \<le> m" "m < 2 * 2 ^ w" unfolding m_def p(2) by (rule pos_mod_sign pos_mod_bound; simp)+
  have o: "odd k \<longleftrightarrow> odd m" by (simp add: m_def even_mod_exp_div_exp_iff dvd_mod_iff)
  have z: "naf_digit w k = (if odd k then if m > 2 ^ w - 1 then 2 ^ w - m else m else 0)"
    by (simp add: naf_digit_def m_def Let_def)
  have b: "m \<noteq> 2 ^ w" if "odd m" using that p(1) by auto
  show "even (k - naf_digit w k)" "naf_digit w k = 0 \<or> odd (naf_digit w k)" using o p(1) by (auto simp: z)
  show "\<bar>naf_digit w k\<bar> < 2 ^ w" "naf_digit w k = 0 \<longleftrightarrow> even k" using m o b by (auto simp: z abs_if)
qed

lemma naf_step:
  assumes "1 \<le> w" "1 \<le> k"
  obtains s q where "0 < s" "naf_digit w k + 2 ^ s * q = k" "0 \<le> q" "q < k"
    "getNAF k w = naf_digit w k # replicate (s - 1) 0 @ getNAF q w"
    "s = (if q \<noteq> 0 \<and> (k - naf_digit w k) mod 2 ^ Suc w = 0 then w + 1 else 1)"
proof -
  let ?k = "k - naf_digit w k"
  define s where "s = (if ?k \<noteq> 0 \<and> ?k mod 2 ^ Suc w = 0 then w + 1 else 1)"
  define q where "q = ?k div 2 ^ s"
  have "2 ^ s dvd ?k" using naf_digit(1) [OF assms(1), of k] by (auto simp: s_def dvd_eq_mod_eq_0)
  then have 1: "2 ^ s * q = ?k" unfolding q_def by (rule dvd_mult_div_cancel)
  have k: "0 \<le> ?k" using naf_digit_less [OF assms(2), of w] by simp
  then have 2: "0 \<le> q" by (simp add: q_def pos_imp_zdiv_nonneg_iff)
  have 3: "0 < s" by (simp add: s_def)
  have "2 * q \<le> 2 ^ s * q" using 2 3 by (intro mult_right_mono) (simp_all add: self_le_power)
  then have 4: "q < k" using 1 naf_digit_less [OF assms(2), of w] by linarith
  have "q = 0 \<longleftrightarrow> ?k = 0" using 1 by auto
  then have 5: "s = (if q \<noteq> 0 \<and> ?k mod 2 ^ Suc w = 0 then w + 1 else 1)" by (simp add: s_def)
  have "getNAF k w = naf_digit w k # replicate (s - 1) 0 @ getNAF q w"
    using assms(2) by (simp add: getNAF.simps [of k w] Let_def s_def q_def)
  then show thesis using that [OF 3 _ 2 4 _ 5] 1 by simp
qed

lemma getNAF_induct [consumes 2, case_names zero step]:
  assumes "1 \<le> w" "0 \<le> k" and "P 0"
    and "\<And>k s q. 1 \<le> k \<Longrightarrow> 0 < s \<Longrightarrow> naf_digit w k + 2 ^ s * q = k \<Longrightarrow> 0 \<le> q \<Longrightarrow>
      getNAF k w = naf_digit w k # replicate (s - 1) 0 @ getNAF q w \<Longrightarrow>
      s = (if q \<noteq> 0 \<and> (k - naf_digit w k) mod 2 ^ Suc w = 0 then w + 1 else 1) \<Longrightarrow> P q \<Longrightarrow> P k"
  shows "P k"
  using assms(2)
proof (induction "nat k" arbitrary: k rule: less_induct)
  case less
  show ?case
  proof (cases "k = 0")
    case False
    then have k: "1 \<le> k" using less.prems by simp
    obtain s q where s: "0 < s" "naf_digit w k + 2 ^ s * q = k" "0 \<le> q" "q < k"
      "getNAF k w = naf_digit w k # replicate (s - 1) 0 @ getNAF q w"
      "s = (if q \<noteq> 0 \<and> (k - naf_digit w k) mod 2 ^ Suc w = 0 then w + 1 else 1)"
      by (rule naf_step [OF assms(1) k])
    have "P q" using less.hyps [of q] s(3,4) by simp
    then show ?thesis using assms(4) [OF k s(1,2,3,5,6)] by blast
  qed (use assms(3) in simp)
qed

lemmas getNAF_induct_1 = getNAF_induct [OF order_refl, consumes 1, case_names zero step]

lemma getNAF_0 [simp]: "getNAF 0 w = []"
  by (simp add: getNAF.simps)

lemma getNAF_value: "1 \<le> w \<Longrightarrow> 0 \<le> k \<Longrightarrow> naf_value (getNAF k w) = k"
proof (induction rule: getNAF_induct)
  case (step k s q)
  have "(2 :: int) * 2 ^ (s - 1) = 2 ^ s" using step(2) by (simp add: power_eq_if)
  then have "naf_value (getNAF k w) = naf_digit w k + 2 ^ s * q"
    using step(5,7) by (simp add: naf_value_append mult.assoc [symmetric])
  then show ?case using step(3) by simp
qed simp

lemma getNAF_digits:
  assumes "1 \<le> w" "0 \<le> k" "d \<in> set (getNAF k w)"
  shows "d = 0 \<or> odd d \<and> \<bar>d\<bar> < 2 ^ w"
  using assms
proof (induction arbitrary: d rule: getNAF_induct)
  case (step k s q)
  then have "d = naf_digit w k \<or> d = 0 \<or> d \<in> set (getNAF q w)" by (auto split: if_splits)
  then show ?case using naf_digit [OF assms(1), of k] step.IH by metis
qed simp

text \<open>For \<open>w = 1\<close> no two neighbours are both non-zero, and the digits are one longer than the number at most.\<close>

fun nonadj :: "int list \<Rightarrow> bool" where
  "nonadj (a # b # xs) \<longleftrightarrow> (a = 0 \<or> b = 0) \<and> nonadj (b # xs)"
| "nonadj xs \<longleftrightarrow> True"

lemma nonadj_Cons_0 [simp]: "nonadj (0 # xs) = nonadj xs"
  by (cases xs) simp_all

lemma nonadj_tl: "nonadj (x # xs) \<Longrightarrow> nonadj xs"
  by (cases xs) simp_all

lemma nonadj_drop: "nonadj xs \<Longrightarrow> nonadj (drop n xs)"
proof (induction n arbitrary: xs)
  case (Suc n)
  then show ?case by (cases xs) (auto dest: nonadj_tl)
qed simp

lemma nonadj_take: "nonadj xs \<Longrightarrow> nonadj (take n xs)"
proof (induction xs arbitrary: n rule: nonadj.induct)
  case (1 a b xs)
  show ?case
  proof (cases n)
    case (Suc m)
    then show ?thesis using "1.IH" [of m] "1.prems" by (cases m) auto
  qed simp
qed (auto simp: take_Cons' )

lemma naf_digit_1: "naf_digit (Suc 0) k = (if odd k then if k mod 4 = 3 then - 1 else 1 else 0)"
proof -
  have "even k \<or> k mod 4 = 1 \<or> k mod 4 = 3" by presburger
  then show ?thesis by (auto simp: naf_digit_def)
qed

lemma naf_rest_1: "odd k \<Longrightarrow> (k - naf_digit (Suc 0) k) mod 4 = 0"
  unfolding naf_digit_1 by presburger

lemma getNAF_nonadj: "0 \<le> k \<Longrightarrow> nonadj (getNAF k 1)"
proof (induction rule: getNAF_induct_1)
  case (step k s q)
  have z: "nonadj (replicate n 0 @ getNAF q 1)" for n using step.IH by (induction n) simp_all
  show ?case
  proof (cases "odd k \<and> q \<noteq> 0")
    case True
    then have "s = 2" using step(6) naf_rest_1 [of k] by simp
    then show ?thesis using step(5) step.IH by simp
  next
    case False
    then consider "naf_digit 1 k = 0" | "q = 0" "s = 1" using step(6) by (auto simp: naf_digit_1)
    then show ?thesis using step(5) z by cases simp_all
  qed
qed simp_all

lemma power2_mod3: "(2 :: int) ^ m mod 3 = 1 \<or> (2 :: int) ^ m mod 3 = 2"
proof (induction m)
  case (Suc m)
  have "(2 :: int) ^ Suc m mod 3 = (2 * (2 ^ m mod 3)) mod 3" by (simp add: mod_mult_right_eq)
  with Suc show ?case by auto
qed simp

lemma getNAF_length: "0 \<le> k \<Longrightarrow> 3 * k < 2 ^ Suc n \<Longrightarrow> length (getNAF k 1) \<le> n"
proof (induction arbitrary: n rule: getNAF_induct_1)
  case (step k s q)
  have n: "1 \<le> n" using step(1,8) by (cases n) auto
  show ?case
  proof (cases "q = 0")
    case True
    then show ?thesis using step(5,6) n by simp
  next
    case False
    then have s: "s = 1 \<or> s = 2" "(k - naf_digit 1 k) mod 4 = 0 \<longleftrightarrow> s = 2" using step(6) by (auto split: if_splits)
    have "3 * (2 ^ s * q) < 2 ^ Suc n"
    proof (cases "odd k \<and> k mod 4 = 3")
      case True
      then have e: "2 ^ s * q = k + 1" using step(3) by (simp add: naf_digit_1)
      have "(2 :: int) ^ Suc n mod 4 = 0" using n by (cases n) simp_all
      moreover have "(2 :: int) ^ Suc n mod 3 \<noteq> 0"
        using power2_mod3 [of "Suc n"] by linarith
      ultimately have "3 * (k + 1) < 2 ^ Suc n" using True step(8) by presburger
      then show ?thesis using e by simp
    next
      case False
      then have "2 ^ s * q \<le> k" using step(3) by (simp add: naf_digit_1 split: if_splits)
      then show ?thesis using step(8) by simp
    qed
    moreover have "1 \<le> q" using step(4) False by simp
    ultimately have b: "3 * q < 2 ^ Suc (n - s)" "s \<le> n"
      using s(1) n by (cases n; cases "n - 1"; auto)+
    have "length (getNAF k 1) = s + length (getNAF q 1)" using step(2,5) by simp
    then show ?thesis using step.IH [OF b(1)] b(2) by simp
  qed
qed simp_all

text \<open>The bound \<open>I\<close> of \<open>_fixedNafMul\<close> is the largest value of a window.\<close>

definition window_bound :: "nat \<Rightarrow> int" where
  "window_bound n = 2 ^ Suc n - (if even n then 2 else 1)"

lemma window_bound_mono: "m \<le> n \<Longrightarrow> window_bound m \<le> window_bound n"
proof (induction n rule: dec_induct)
  case (step n)
  have "(1 :: int) \<le> 2 ^ n" by simp
  moreover have "window_bound (Suc n) = 2 * (2 * 2 ^ n) - (if even n then 1 else 2)"
    "window_bound n = 2 * 2 ^ n - (if even n then 2 else 1)" by (simp_all add: window_bound_def)
  ultimately have "window_bound n \<le> window_bound (Suc n)" by (smt (verit))
  with step.IH show ?case by linarith
qed simp

lemma nonadj_value:
  assumes "nonadj ds" "\<forall>d \<in> set ds. d = 0 \<or> d = 1 \<or> d = - 1"
  shows "3 * \<bar>naf_value ds\<bar> \<le> window_bound (length ds)"
  using assms
proof (induction ds rule: length_induct)
  case (1 ds)
  show ?case
  proof (cases ds)
    case Nil
    then show ?thesis by (simp add: window_bound_def)
  next
    case (Cons d ds')
    then have IH: "3 * \<bar>naf_value ds'\<bar> \<le> window_bound (length ds')" using "1.IH" "1.prems" nonadj_tl by auto
    have up: "2 * window_bound n \<le> window_bound (Suc n)" for n by (simp add: window_bound_def)
    show ?thesis
    proof (cases "d = 0")
      case True
      then show ?thesis using Cons IH up [of "length ds'"] by (simp add: abs_mult)
    next
      case False
      then have d: "\<bar>d\<bar> = 1" using "1.prems"(2) Cons by auto
      show ?thesis
      proof (cases ds')
        case Nil
        then show ?thesis using Cons d by (simp add: window_bound_def)
      next
        case (Cons e ds'')
        then have e: "e = 0" and IH: "3 * \<bar>naf_value ds''\<bar> \<le> window_bound (length ds'')"
          using "1.IH" "1.prems" \<open>ds = d # ds'\<close> False nonadj_tl by auto
        have "\<bar>d + 4 * naf_value ds''\<bar> \<le> 1 + 4 * \<bar>naf_value ds''\<bar>" using d by linarith
        moreover have "3 + 4 * window_bound n \<le> window_bound (Suc (Suc n))" for n by (simp add: window_bound_def)
        ultimately show ?thesis
          using \<open>ds = d # ds'\<close> Cons e IH by (simp add: algebra_simps) (smt (verit))
      qed
    qed
  qed
qed

lemma naf_window_value: "naf_window naf 0 step = naf_value (take step naf)"
proof -
  have "foldr (\<lambda>d w. 2 * w + d) ds 0 = naf_value ds" for ds by (induction ds) simp_all
  then show ?thesis by (simp add: naf_window_def)
qed

fun windows_value :: "nat \<Rightarrow> int list \<Rightarrow> int" where
  "windows_value step [] = 0"
| "windows_value step (w # ws) = w + 2 ^ step * windows_value step ws"

lemma naf_windows_value: "0 < step \<Longrightarrow> windows_value step (naf_windows naf step) = naf_value naf"
proof (induction naf step rule: naf_windows.induct)
  case (1 naf step)
  show ?case
  proof (cases "naf = []")
    case True
    then show ?thesis by (simp add: naf_windows.simps)
  next
    case False
    have "naf_value naf = naf_value (take step naf) + 2 ^ length (take step naf) * naf_value (drop step naf)"
      by (metis append_take_drop_id naf_value_append)
    also have "2 ^ length (take step naf) * naf_value (drop step naf) = 2 ^ step * naf_value (drop step naf)"
      by (cases "step \<le> length naf") simp_all
    finally show ?thesis using False "1.IH" "1.prems" by (simp add: naf_windows.simps [of naf] naf_window_value)
  qed
qed

lemma naf_windows_bound:
  assumes "0 < step" "nonadj naf" "\<forall>d \<in> set naf. d = 0 \<or> d = 1 \<or> d = - 1" "w \<in> set (naf_windows naf step)"
  shows "3 * \<bar>w\<bar> \<le> window_bound step"
  using assms
proof (induction naf step rule: naf_windows.induct)
  case (1 naf step)
  then have "w = naf_value (take step naf) \<or> w \<in> set (naf_windows (drop step naf) step)"
    by (auto simp: naf_windows.simps [of naf] naf_window_value split: if_splits)
  moreover have "3 * \<bar>naf_value (take step naf)\<bar> \<le> window_bound (length (take step naf))"
    using "1.prems" nonadj_take by (intro nonadj_value) (auto dest: in_set_takeD)
  moreover have "window_bound (length (take step naf)) \<le> window_bound step" by (rule window_bound_mono) simp
  moreover have "naf \<noteq> []" using "1.prems" by (auto simp: naf_windows.simps)
  ultimately show ?case using "1.IH" "1.prems" nonadj_drop by (fastforce dest: in_set_dropD)
qed

lemma naf_windows_length: "0 < step \<Longrightarrow> length naf \<le> n * step \<Longrightarrow> length (naf_windows naf step) \<le> n"
proof (induction naf step arbitrary: n rule: naf_windows.induct)
  case (1 naf step)
  show ?case
  proof (cases "naf = []")
    case False
    then obtain m where m: "n = Suc m" using "1.prems" by (cases n) auto
    then have "length (drop step naf) \<le> m * step" using "1.prems" by simp
    then show ?thesis using False "1.IH" "1.prems" m by (simp add: naf_windows.simps [of naf])
  qed (simp add: naf_windows.simps)
qed

section \<open>The joint sparse form\<close>

lemma jsf_step:
  assumes "d = 0 \<or> d = 1"
  shows "jsf_digit k d m + 2 * (k div 2 + jsf_carry d (jsf_digit k d m)) = k + d"
    "jsf_digit k d m \<in> {- 1, 0, 1}"
proof -
  define r q where "r = k mod 8" and "q = k div 8"
  have k: "k = 8 * q + r" "0 \<le> r" "r < 8" by (simp_all add: r_def q_def)
  have m: "k mod 4 = r mod 4" "k mod 8 = r" "k div 2 = 4 * q + r div 2" unfolding k(1) using k(2,3) by presburger+
  have "r = 0 \<or> r = 1 \<or> r = 2 \<or> r = 3 \<or> r = 4 \<or> r = 5 \<or> r = 6 \<or> r = 7" using k by linarith
  then show "jsf_digit k d m + 2 * (k div 2 + jsf_carry d (jsf_digit k d m)) = k + d" "jsf_digit k d m \<in> {- 1, 0, 1}"
    using assms unfolding jsf_carry_def jsf_digit_def jsf_mod4_def m
    by (elim disjE; simp add: k(1) Let_def)+
qed

lemma jsf_loop_value:
  assumes "0 \<le> k1" "0 \<le> k2" "d1 = 0 \<or> d1 = 1" "d2 = 0 \<or> d2 = 1"
  shows "naf_value (map fst (jsf_loop k1 k2 d1 d2)) = k1 + d1 \<and> naf_value (map snd (jsf_loop k1 k2 d1 d2)) = k2 + d2 \<and>
    set (jsf_loop k1 k2 d1 d2) \<subseteq> {- 1, 0, 1} \<times> {- 1, 0, 1}"
  using assms
proof (induction k1 k2 d1 d2 rule: jsf_loop.induct)
  case (1 k1 k2 d1 d2)
  show ?case
  proof (cases "k1 > - d1 \<or> k2 > - d2")
    case True
    define u1 u2 where "u1 = jsf_digit k1 d1 (jsf_mod4 k2 d2)" and "u2 = jsf_digit k2 d2 (jsf_mod4 k1 d1)"
    have c: "jsf_carry d1 u1 = 0 \<or> jsf_carry d1 u1 = 1" "jsf_carry d2 u2 = 0 \<or> jsf_carry d2 u2 = 1"
      using jsf_carry_less(1) "1.prems" unfolding u1_def u2_def by blast+
    have g: "0 \<le> k1 \<and> 0 \<le> k2 \<and> (d1 = 0 \<or> d1 = 1) \<and> (d2 = 0 \<or> d2 = 1) \<and> (k1 > - d1 \<or> k2 > - d2)"
      using "1.prems" True by blast
    have "jsf_loop k1 k2 d1 d2 = (u1, u2) # jsf_loop (k1 div 2) (k2 div 2) (jsf_carry d1 u1) (jsf_carry d2 u2)"
      using g by (simp add: jsf_loop.simps [of k1 k2] u1_def u2_def Let_def)
    moreover note "1.IH" [OF g u1_def u2_def]
    moreover have "u1 + 2 * (k1 div 2 + jsf_carry d1 u1) = k1 + d1" "u2 + 2 * (k2 div 2 + jsf_carry d2 u2) = k2 + d2"
      "u1 \<in> {- 1, 0, 1}" "u2 \<in> {- 1, 0, 1}"
      unfolding u1_def u2_def using jsf_step "1.prems"(3,4) by blast+
    ultimately show ?thesis using "1.prems"(1,2) c by (simp, blast)
  next
    case False
    then have "k1 = 0" "d1 = 0" "k2 = 0" "d2 = 0" using "1.prems" by linarith+
    then show ?thesis by (simp add: jsf_loop.simps)
  qed
qed

lemma getJSF:
  assumes "0 \<le> k1" "0 \<le> k2"
  shows "naf_value (map fst (getJSF k1 k2)) = k1" "naf_value (map snd (getJSF k1 k2)) = k2"
    "set (getJSF k1 k2) \<subseteq> {- 1, 0, 1} \<times> {- 1, 0, 1}"
  using jsf_loop_value [OF assms, of 0 0] by (simp_all add: getJSF_def)

end
