(* ===== verification/MulProps.thy ===== *)
theory MulProps
  imports CurveGroup NafProps
begin

text \<open>
  The loops of the multiplication routines: multiplication with a table of doubles, and the loop over columns of digits, which
  computes by Horner's rule the sum of what its tracks (tables with digits) stand for.
\<close>

section \<open>The table of doubles\<close>

definition doubles_ok :: "short_curve \<Rightarrow> nat \<Rightarrow> point list \<Rightarrow> point \<Rightarrow> bool" where
  "doubles_ok cv step ps P \<longleftrightarrow> 0 < step \<and> (\<forall>j < length ps. ps ! j = zmul cv (2 ^ (step * j)) P)"

fun selected :: "nat \<Rightarrow> int \<Rightarrow> nat \<Rightarrow> int list \<Rightarrow> int" where
  "selected step i j [] = 0"
| "selected step i j (w # ws) =
     (if w = i then 2 ^ (step * j) else if w = - i then - (2 ^ (step * j)) else 0) + selected step i (Suc j) ws"

lemma jrep_add_zmul:
  assumes "curve_group cv" "on_curve cv P" "jrep cv J (zmul cv a P)" "Q = zmul cv b P"
  shows "jrep cv (JPoint_mixedAdd cv J Q) (zmul cv (a + b) P)"
    "jrep cv K Q \<Longrightarrow> jrep cv (JPoint_add cv J K) (zmul cv (a + b) P)"
proof -
  note ok = curve_group_ok [OF assms(1)]
  have "point_ok cv Q" using assms zmul_closed ok on_curve_ok by blast
  then show "jrep cv (JPoint_mixedAdd cv J Q) (zmul cv (a + b) P)"
    using jrep_mixedAdd [OF ok assms(3)] zmul_add [OF assms(1,2)] assms(4) by simp
  show "jrep cv K Q \<Longrightarrow> jrep cv (JPoint_add cv J K) (zmul cv (a + b) P)"
    using jrep_add [OF ok assms(3)] zmul_add [OF assms(1,2)] assms(4) by simp
qed

lemma fixed_inner:
  assumes "curve_group cv" "on_curve cv P" "doubles_ok cv step ps P" "0 < i"
    and "jrep cv b (zmul cv B P)" "j + length ws \<le> length ps"
  shows "\<exists>b'. fixed_inner cv ps i b j ws = Inr b' \<and> jrep cv b' (zmul cv (B + selected step i j ws) P)"
  using assms(5,6)
proof (induction ws arbitrary: b B j)
  case (Cons w ws)
  have j: "entry ps j = Inr (zmul cv (2 ^ (step * j)) P)"
    using Cons.prems(2) assms(3) by (simp add: entry_def doubles_ok_def)
  consider "w = i" | "w = - i" "w \<noteq> i" | "w \<noteq> i" "w \<noteq> - i" by blast
  then show ?case
  proof cases
    case 1
    have "jrep cv (JPoint_mixedAdd cv b (zmul cv (2 ^ (step * j)) P)) (zmul cv (B + 2 ^ (step * j)) P)"
      using jrep_add_zmul(1) [OF assms(1,2) Cons.prems(1) refl] .
    from Cons.IH [OF this, of "Suc j"] show ?thesis using 1 Cons.prems(2) j by (simp add: add.assoc)
  next
    case 2
    have "jrep cv (JPoint_mixedAdd cv b (ShortPoint_neg cv (zmul cv (2 ^ (step * j)) P))) (zmul cv (B + - (2 ^ (step * j))) P)"
      by (rule jrep_add_zmul(1) [OF assms(1,2) Cons.prems(1)]) (simp add: zmul_minus [OF assms(1,2)])
    from Cons.IH [OF this, of "Suc j"] show ?thesis using 2 Cons.prems(2) j by (simp add: algebra_simps)
  next
    case 3
    then show ?thesis using Cons by simp
  qed
qed simp

lemma fixed_outer:
  assumes "curve_group cv" "on_curve cv P" "doubles_ok cv step ps P" "length ws \<le> length ps"
    and "jrep cv a (zmul cv A P)" "jrep cv b (zmul cv B P)"
  shows "\<exists>a'. fixed_outer cv ps ws n a b = Inr a' \<and>
    jrep cv a' (zmul cv (A + int n * B + (\<Sum>i \<in> {1..n}. int i * selected step (int i) 0 ws)) P)"
  using assms(5,6)
proof (induction n arbitrary: a A b B)
  case (Suc n)
  obtain b' where b': "fixed_inner cv ps (int (Suc n)) b 0 ws = Inr b'"
    "jrep cv b' (zmul cv (B + selected step (int (Suc n)) 0 ws) P)"
    using fixed_inner [OF assms(1-3) _ Suc.prems(2), of "int (Suc n)" 0 ws] assms(4) by auto
  let ?B = "B + selected step (int (Suc n)) 0 ws"
  have "jrep cv (JPoint_add cv a b') (zmul cv (A + ?B) P)"
    using jrep_add_zmul(2) [OF assms(1,2) Suc.prems(1) refl b'(2)] .
  from Suc.IH [OF this b'(2)] obtain a' where a': "fixed_outer cv ps ws n (JPoint_add cv a b') b' = Inr a'"
    "jrep cv a' (zmul cv (A + ?B + int n * ?B + (\<Sum>i \<in> {1..n}. int i * selected step (int i) 0 ws)) P)" by blast
  have "A + ?B + int n * ?B + (\<Sum>i \<in> {1..n}. int i * selected step (int i) 0 ws) =
      A + int (Suc n) * B + (\<Sum>i \<in> {1..Suc n}. int i * selected step (int i) 0 ws)"
    by (simp add: algebra_simps)
  then show ?case using a' b'(1) by (simp only: fixed_outer.simps rbind_Inr) blast
qed simp

lemma selected_sum:
  assumes "\<forall>w \<in> set ws. \<bar>w\<bar> \<le> int n"
  shows "(\<Sum>i \<in> {1..n}. int i * selected step (int i) j ws) = 2 ^ (step * j) * windows_value step ws"
  using assms
proof (induction ws arbitrary: j)
  case (Cons w ws)
  let ?c = "\<lambda>i. if w = int i then 2 ^ (step * j) else if w = - int i then - (2 ^ (step * j)) else (0 :: int)"
  have one: "(\<Sum>i \<in> {1..n}. int i * ?c i) = 2 ^ (step * j) * w"
  proof (cases "w = 0")
    case False
    define m where "m = nat \<bar>w\<bar>"
    have m: "m \<in> {1..n}" "int m = \<bar>w\<bar>" using False Cons.prems by (auto simp: m_def)
    have "(\<Sum>i \<in> {1..n}. int i * ?c i) = (\<Sum>i \<in> {m}. int i * ?c i)"
      using m by (intro sum.mono_neutral_right) auto
    also have "\<dots> = 2 ^ (step * j) * w" using m(2) False by (cases "w < 0") auto
    finally show ?thesis .
  qed (simp add: sum.neutral)
  have "(\<Sum>i \<in> {1..n}. int i * selected step (int i) j (w # ws)) =
      (\<Sum>i \<in> {1..n}. int i * ?c i) + (\<Sum>i \<in> {1..n}. int i * selected step (int i) (Suc j) ws)"
    by (simp add: distrib_left sum.distrib)
  also have "\<dots> = 2 ^ (step * j) * w + 2 ^ (step * Suc j) * windows_value step ws"
    using one Cons by simp
  finally show ?case by (simp add: algebra_simps power_add)
qed simp

lemma fixedNafMul:
  assumes "curve_group cv" "on_curve cv P" "doubles_of p = Some (step, ps)" "doubles_ok cv step ps P" "0 \<le> k" "hasDoubles p k"
  shows "fixedNafMul cv p k = Inr (zmul cv k P)"
proof -
  note ok = curve_group_ok [OF assms(1)]
  have step: "0 < step" using assms(4) by (simp add: doubles_ok_def)
  define naf where "naf = getNAF k 1"
  define I where "I = (2 ^ (step + 1) - (if even step then 2 else 1)) div (3 :: nat)"
  have "int I = window_bound step div 3"
  proof -
    have "(2 :: nat) \<le> 2 ^ (step + 1)" by simp
    then have "int (2 ^ (step + 1) - (if even step then 2 else 1)) = window_bound step"
      by (simp add: window_bound_def of_nat_diff)
    then show ?thesis by (simp add: I_def zdiv_int)
  qed
  have digits: "\<forall>d \<in> set naf. d = 0 \<or> d = 1 \<or> d = - 1"
    using getNAF_digits [of 1 k] assms(5) unfolding naf_def by fastforce
  have bound: "\<forall>w \<in> set (naf_windows naf step). \<bar>w\<bar> \<le> int I"
    using naf_windows_bound [OF step _ digits] getNAF_nonadj [OF assms(5)] \<open>int I = _\<close> by (fastforce simp: naf_def)
  have "3 * k < 2 ^ Suc (BN_bitLength (nat k) + 1)"
    using BN_bitLength_less [of "nat k"] assms(5) by (simp add: nat_less_iff of_nat_power)
  then have "length naf \<le> BN_bitLength (nat k) + 1" unfolding naf_def by (rule getNAF_length [OF assms(5)])
  then have len: "length (naf_windows naf step) \<le> length ps"
    using naf_windows_length [OF step] assms(3,5,6) by (simp add: hasDoubles_def)
  have inf: "jrep cv (jinf cv) (zmul cv 0 P)" using jrep_inf ok by simp
  obtain a where a: "fixed_outer cv ps (naf_windows naf step) I (jinf cv) (jinf cv) = Inr a"
    "jrep cv a (zmul cv (\<Sum>i \<in> {1..I}. int i * selected step (int i) 0 (naf_windows naf step)) P)"
    using fixed_outer [OF assms(1,2,4) len inf inf, of I] by auto
  have "(\<Sum>i \<in> {1..I}. int i * selected step (int i) 0 (naf_windows naf step)) = k"
    using selected_sum [OF bound, of step 0] naf_windows_value [OF step] getNAF_value assms(5) by (simp add: naf_def)
  moreover have "precomputed p \<noteq> None" using assms(3) by (cases "precomputed p") (auto simp: doubles_of_def)
  then have "fixedNafMul cv p k =
      rbind (fixed_outer cv ps (naf_windows naf step) I (jinf cv) (jinf cv)) (\<lambda>a. Inr (JPoint_toP cv a))"
    by (simp only: fixedNafMul_def getDoubles_def assms(3) option.case Let_def prod.case if_False naf_def I_def)
  ultimately show ?thesis using a jrep_toP [OF ok] by simp
qed

section \<open>Columns of digits\<close>

definition entry_means :: "short_curve \<Rightarrow> table_point \<Rightarrow> point \<Rightarrow> bool" where
  "entry_means cv t P \<longleftrightarrow> on_curve cv P \<and> (case t of TAffine Q \<Rightarrow> Q = P | TJacobian J \<Rightarrow> jrep cv J P)"

text \<open>The digit \<open>z\<close> of a table contributes the point \<open>D\<close>.\<close>

definition digit_means :: "short_curve \<Rightarrow> table_point list \<Rightarrow> int \<Rightarrow> point \<Rightarrow> bool" where
  "digit_means cv wnd z D \<longleftrightarrow>
     (if z = 0 then D = Infinity
      else nat ((\<bar>z\<bar> - 1) div 2) < length wnd \<and>
        entry_means cv (wnd ! nat ((\<bar>z\<bar> - 1) div 2)) (if z < 0 then ShortPoint_neg cv D else D)) \<and> on_curve cv D"

lemma neg_entry_means:
  assumes "curve_ok cv" "entry_means cv t P"
  shows "entry_means cv (neg_entry cv t) (ShortPoint_neg cv P)"
  using assms neg_on_curve jrep_neg by (auto simp: entry_means_def neg_entry_def split: table_point.splits)

lemma add_entry_means:
  assumes "curve_ok cv" "jrep cv acc A" "entry_means cv t D"
  shows "jrep cv (add_entry cv acc t) (ShortPoint_add cv A D)"
  using assms jrep_mixedAdd jrep_add on_curve_ok by (auto simp: entry_means_def add_entry_def split: table_point.splits)

lemma add_digit_means:
  assumes "curve_ok cv" "jrep cv acc A" "digit_means cv wnd z D"
  shows "\<exists>acc'. add_wnaf_digit cv acc (wnd, z) = Inr acc' \<and> jrep cv acc' (ShortPoint_add cv A D)"
proof -
  have D: "on_curve cv D" using assms(3) by (simp add: digit_means_def)
  consider "z = 0" | "z > 0" | "z < 0" by linarith
  then show ?thesis
  proof cases
    case 1
    then show ?thesis using assms by (simp add: add_wnaf_digit_def digit_means_def)
  next
    case 2
    then show ?thesis
      using assms add_entry_means by (simp add: add_wnaf_digit_def digit_means_def entry_def)
  next
    case 3
    have n: "ShortPoint_neg cv (ShortPoint_neg cv D) = D" using assms(1) D on_curve_ok by simp
    show ?thesis
      using 3 assms(3) add_entry_means [OF assms(1,2) neg_entry_means [OF assms(1)]]
      by (fastforce simp: add_wnaf_digit_def digit_means_def entry_def n)
  qed
qed

lemma add_digits_means:
  assumes "curve_ok cv" "jrep cv acc A" "list_all2 (\<lambda>(wnd, z) D. digit_means cv wnd z D) wzs Ds"
  shows "\<exists>acc'. add_digits cv acc wzs = Inr acc' \<and> jrep cv acc' (foldl (ShortPoint_add cv) A Ds)"
  using assms(2,3)
proof (induction wzs arbitrary: acc A Ds)
  case (Cons wz wzs)
  then obtain D Ds' wnd z where Ds: "Ds = D # Ds'" "wz = (wnd, z)" "digit_means cv wnd z D"
    "list_all2 (\<lambda>(wnd, z) D. digit_means cv wnd z D) wzs Ds'" by (cases wz) (auto simp: list_all2_Cons1)
  then obtain acc' where "add_wnaf_digit cv acc (wnd, z) = Inr acc'" "jrep cv acc' (ShortPoint_add cv A D)"
    using add_digit_means [OF assms(1) Cons.prems(1)] by blast
  then show ?case using Cons.IH Ds by simp
qed simp

text \<open>The loop computes the value of the columns by Horner's rule.\<close>

fun horner :: "short_curve \<Rightarrow> point \<Rightarrow> point list list \<Rightarrow> point" where
  "horner cv A [] = A"
| "horner cv A (Ds # Dss) = horner cv (foldl (ShortPoint_add cv) (ShortPoint_dbl cv A) Ds) Dss"

definition col_means :: "short_curve \<Rightarrow> table_point list list \<Rightarrow> int list \<Rightarrow> point list \<Rightarrow> bool" where
  "col_means cv wnds col Ds \<longleftrightarrow> length col = length wnds \<and> list_all2 (\<lambda>(wnd, z) D. digit_means cv wnd z D) (zip wnds col) Ds"

lemma zero_col_means:
  assumes "col_means cv wnds col Ds" "list_all (\<lambda>z. z = 0) col"
  shows "foldl (ShortPoint_add cv) A Ds = A"
proof -
  have "\<forall>D \<in> set Ds. D = Infinity"
  proof
    fix D assume "D \<in> set Ds"
    then obtain i where "i < length Ds" "D = Ds ! i" by (auto simp: in_set_conv_nth)
    then show "D = Infinity"
      using assms by (auto simp: col_means_def list_all2_conv_all_nth digit_means_def list_all_length split: prod.splits)
  qed
  then show ?thesis by (induction Ds) simp_all
qed

lemma horner_zeros:
  assumes "list_all2 (col_means cv wnds) cols Dss" "\<forall>col \<in> set cols. list_all (\<lambda>z. z = 0) col"
  shows "horner cv A (Dss @ rest) = horner cv ((ShortPoint_dbl cv ^^ length cols) A) rest"
  using assms
proof (induction cols arbitrary: Dss A)
  case (Cons col cols)
  then obtain Ds Dss' where "Dss = Ds # Dss'" "col_means cv wnds col Ds" "list_all2 (col_means cv wnds) cols Dss'"
    by (auto simp: list_all2_Cons1)
  then show ?case using Cons zero_col_means by (simp add: funpow_swap1)
qed simp

lemma wnaf_loop_means:
  assumes "curve_ok cv" "jrep cv acc A" "list_all2 (col_means cv wnds) cols Dss"
  shows "\<exists>acc'. wnaf_loop cv wnds acc cols = Inr acc' \<and> jrep cv acc' (horner cv A Dss)"
  using assms(2,3)
proof (induction "length cols" arbitrary: acc A cols Dss rule: less_induct)
  case less
  let ?Z = "list_all (\<lambda>z :: int. z = 0)"
  define zs where "zs = takeWhile ?Z cols"
  have cols: "cols = zs @ dropWhile ?Z cols" by (simp add: zs_def)
  have z: "\<forall>col \<in> set zs. ?Z col" unfolding zs_def using set_takeWhileD by metis
  obtain Ds1 Ds2 where Dss: "Dss = Ds1 @ Ds2" "list_all2 (col_means cv wnds) zs Ds1"
    "list_all2 (col_means cv wnds) (dropWhile ?Z cols) Ds2"
    using less.prems(2) cols by (metis list_all2_append1)
  have h: "horner cv A Dss = horner cv ((ShortPoint_dbl cv ^^ length zs) A) Ds2"
    using horner_zeros [OF Dss(2) z] Dss(1) by simp
  show ?case
  proof (cases "dropWhile ?Z cols")
    case Nil
    then have "Ds2 = []" using Dss(3) unfolding Nil by simp
    moreover have "wnaf_loop cv wnds acc cols = Inr (JPoint_dblp cv acc (length zs))"
      by (subst wnaf_loop.simps) (simp only: Nil Let_def list.case zs_def)
    ultimately show ?thesis using h jrep_dblp [OF assms(1) less.prems(1)] by simp
  next
    case (Cons col rest)
    then obtain Ds Ds2' where Ds2: "Ds2 = Ds # Ds2'" "col_means cv wnds col Ds" "list_all2 (col_means cv wnds) rest Ds2'"
      using Dss(3) by (auto simp: list_all2_Cons1)
    have "jrep cv (JPoint_dblp cv acc (length zs + 1)) (ShortPoint_dbl cv ((ShortPoint_dbl cv ^^ length zs) A))"
      using jrep_dblp [OF assms(1) less.prems(1), of "length zs + 1"] by simp
    from add_digits_means [OF assms(1) this, of "zip wnds col" Ds] obtain acc' where acc':
      "add_digits cv (JPoint_dblp cv acc (length zs + 1)) (zip wnds col) = Inr acc'"
      "jrep cv acc' (foldl (ShortPoint_add cv) (ShortPoint_dbl cv ((ShortPoint_dbl cv ^^ length zs) A)) Ds)"
      using Ds2(2) by (auto simp: col_means_def)
    have "length (dropWhile ?Z cols) \<le> length cols" by (rule length_dropWhile_le)
    then have "length rest < length cols" unfolding Cons by simp
    note IH = less.hyps [OF this acc'(2) Ds2(3)]
    have "wnaf_loop cv wnds acc cols = wnaf_loop cv wnds acc' rest"
      by (subst wnaf_loop.simps) (simp only: Cons Let_def list.case zs_def [symmetric] acc'(1) rbind_Inr)
    then show ?thesis using IH h Ds2(1) by simp
  qed
qed

section \<open>Tracks of digits\<close>

primrec hsum :: "short_curve \<Rightarrow> (nat \<Rightarrow> point) \<Rightarrow> nat \<Rightarrow> point" where
  "hsum cv D 0 = Infinity"
| "hsum cv D (Suc n) = ShortPoint_add cv (hsum cv D n) (zmul cv (2 ^ n) (D n))"

abbreviation psum :: "short_curve \<Rightarrow> point list \<Rightarrow> point" where
  "psum cv Ps \<equiv> foldr (ShortPoint_add cv) Ps Infinity"

lemma psum_closed: "curve_ok cv \<Longrightarrow> \<forall>P \<in> set Ps. on_curve cv P \<Longrightarrow> on_curve cv (psum cv Ps)"
  by (induction Ps) (simp_all add: add_closed)

lemma hsum_closed: "curve_ok cv \<Longrightarrow> \<forall>i. on_curve cv (D i) \<Longrightarrow> on_curve cv (hsum cv D n)"
  by (induction n) (simp_all add: add_closed zmul_closed)

lemma foldl_psum:
  assumes "curve_group cv" "on_curve cv A" "\<forall>P \<in> set Ps. on_curve cv P"
  shows "foldl (ShortPoint_add cv) A Ps = ShortPoint_add cv A (psum cv Ps)"
  using assms(2,3)
proof (induction Ps arbitrary: A)
  case (Cons P Ps)
  note ok = curve_group_ok [OF assms(1)]
  from Cons show ?case by (simp add: add_closed ok add_assoc [OF assms(1)] psum_closed)
qed simp

lemma horner_hsum:
  assumes "curve_group cv" "on_curve cv A" "\<forall>D \<in> set Dfs. \<forall>i. on_curve cv (D i)"
  shows "horner cv A (map (\<lambda>i. map (\<lambda>D. D i) Dfs) (rev [0..<n])) =
    ShortPoint_add cv (zmul cv (2 ^ n) A) (hsum cv (\<lambda>i. psum cv (map (\<lambda>D. D i) Dfs)) n)"
  using assms(2)
proof (induction n arbitrary: A)
  case (Suc n)
  note ok = curve_group_ok [OF assms(1)]
  let ?S = "\<lambda>i. psum cv (map (\<lambda>D. D i) Dfs)"
  have S: "\<forall>i. on_curve cv (?S i)" using assms(3) psum_closed [OF ok] by simp
  have d: "on_curve cv (ShortPoint_dbl cv A)" using dbl_on_curve ok Suc.prems by blast
  have c: "on_curve cv (zmul cv (2 ^ n) (ShortPoint_dbl cv A))" "on_curve cv (zmul cv (2 ^ n) (?S n))" "on_curve cv (hsum cv ?S n)"
    using zmul_closed [OF ok d] zmul_closed [OF ok] S hsum_closed [OF ok S] by simp_all
  have f: "foldl (ShortPoint_add cv) (ShortPoint_dbl cv A) (map (\<lambda>D. D n) Dfs) = ShortPoint_add cv (ShortPoint_dbl cv A) (?S n)"
    using foldl_psum [OF assms(1) d] assms(3) by simp
  have a: "on_curve cv (ShortPoint_add cv (ShortPoint_dbl cv A) (?S n))" using add_closed ok d S by blast
  have "ShortPoint_dbl cv A = zmul cv 2 A" using zmul_dbl [OF assms(1) Suc.prems, of 1] by simp
  then have e: "zmul cv (2 ^ n) (ShortPoint_dbl cv A) = zmul cv (2 ^ Suc n) A"
    unfolding power_Suc2 zmul_mult [OF assms(1) Suc.prems] by simp
  have "horner cv A (map (\<lambda>i. map (\<lambda>D. D i) Dfs) (rev [0..<Suc n])) =
      ShortPoint_add cv (zmul cv (2 ^ n) (ShortPoint_add cv (ShortPoint_dbl cv A) (?S n))) (hsum cv ?S n)"
    using Suc.IH [OF a] f by simp
  also have "\<dots> = ShortPoint_add cv (zmul cv (2 ^ Suc n) A) (ShortPoint_add cv (zmul cv (2 ^ n) (?S n)) (hsum cv ?S n))"
    using zmul_distrib [OF assms(1) d, of "?S n"] S add_assoc [OF assms(1) c] e by simp
  also have "ShortPoint_add cv (zmul cv (2 ^ n) (?S n)) (hsum cv ?S n) = hsum cv ?S (Suc n)"
    using add_commute [OF ok] c on_curve_ok by simp
  finally show ?case .
qed simp

lemma hsum_add:
  assumes "curve_group cv" "\<forall>i. on_curve cv (f i)" "\<forall>i. on_curve cv (g i)"
  shows "hsum cv (\<lambda>i. ShortPoint_add cv (f i) (g i)) n = ShortPoint_add cv (hsum cv f n) (hsum cv g n)"
proof (induction n)
  case (Suc n)
  note ok = curve_group_ok [OF assms(1)]
  have c: "on_curve cv (hsum cv f n)" "on_curve cv (hsum cv g n)" "on_curve cv (zmul cv (2 ^ n) (f n))" "on_curve cv (zmul cv (2 ^ n) (g n))"
    using assms hsum_closed zmul_closed ok by blast+
  then show ?case
    using Suc assms(2,3) by (simp add: zmul_distrib [OF assms(1)] add_assoc [OF assms(1)] add_left_commute [OF assms(1)] add_closed ok)
qed simp

lemma hsum_infinity [simp]: "hsum cv (\<lambda>i. Infinity) n = Infinity"
  by (induction n) simp_all

lemma hsum_psum:
  assumes "curve_group cv" "\<forall>D \<in> set Dfs. \<forall>i. on_curve cv (D i)"
  shows "hsum cv (\<lambda>i. psum cv (map (\<lambda>D. D i) Dfs)) n = psum cv (map (\<lambda>D. hsum cv D n) Dfs)"
  using assms(2)
proof (induction Dfs)
  case (Cons D Dfs)
  have "\<forall>i. on_curve cv (psum cv (map (\<lambda>D. D i) Dfs))"
    using Cons.prems psum_closed curve_group_ok [OF assms(1)] by simp
  then show ?case using Cons hsum_add [OF assms(1)] by simp
qed simp

lemma hsum_zmul:
  assumes "curve_group cv" "on_curve cv P"
  shows "hsum cv (\<lambda>i. zmul cv (c i) P) n = zmul cv (\<Sum>i<n. 2 ^ i * c i) P"
  by (induction n) (simp_all add: zmul_add [OF assms] zmul_mult [OF assms])

lemma digit_at_Cons [simp]: "digit_at (d # ds) 0 = d" "digit_at (d # ds) (Suc i) = digit_at ds i"
  by (simp_all add: digit_at_def)

lemma digits_sum: "length ds \<le> n \<Longrightarrow> (\<Sum>i<n. 2 ^ i * digit_at ds i) = naf_value ds"
proof (induction ds arbitrary: n)
  case Nil
  then show ?case by (simp add: digit_at_def)
next
  case (Cons d ds)
  then obtain m where m: "n = Suc m" "length ds \<le> m" by (cases n) auto
  have "(\<Sum>i<Suc m. 2 ^ i * digit_at (d # ds) i) = d + (\<Sum>i<m. 2 * (2 ^ i * digit_at ds i))"
    unfolding sum.lessThan_Suc_shift by (simp add: mult.assoc)
  also have "\<dots> = d + 2 * naf_value ds" using Cons.IH [OF m(2)] by (simp add: sum_distrib_left [symmetric])
  finally show ?case using m by simp
qed

text \<open>A track (a table and its digits) stands for the point \<open>Q\<close>, from \<open>N\<close> digits on.\<close>

definition track_means :: "short_curve \<Rightarrow> nat \<Rightarrow> wnaf_track \<Rightarrow> point \<Rightarrow> bool" where
  "track_means cv N t Q \<longleftrightarrow>
     (\<exists>D. (\<forall>i. digit_means cv (fst t) (digit_at (snd t) i) (D i)) \<and> (\<forall>n \<ge> N. hsum cv D n = Q))"

lemma track_means_mono: "track_means cv M t Q \<Longrightarrow> M \<le> N \<Longrightarrow> track_means cv N t Q"
  unfolding track_means_def by (meson order_trans)

lemma tracks_choice:
  "list_all2 (track_means cv N) tracks Qs \<Longrightarrow>
   \<exists>Dfs. list_all2 (\<lambda>t D. \<forall>i. digit_means cv (fst t) (digit_at (snd t) i) (D i)) tracks Dfs \<and>
     list_all2 (\<lambda>D Q. \<forall>n \<ge> N. hsum cv D n = Q) Dfs Qs"
proof (induction rule: list_all2_induct)
  case (Cons t ts Q Qs)
  obtain D where "\<forall>i. digit_means cv (fst t) (digit_at (snd t) i) (D i)" "\<forall>n \<ge> N. hsum cv D n = Q"
    using Cons.hyps(1) unfolding track_means_def by blast
  moreover obtain Dfs where "list_all2 (\<lambda>t D. \<forall>i. digit_means cv (fst t) (digit_at (snd t) i) (D i)) ts Dfs"
    "list_all2 (\<lambda>D Q. \<forall>n \<ge> N. hsum cv D n = Q) Dfs Qs"
    using Cons.IH by blast
  ultimately show ?case by (intro exI [of _ "D # Dfs"]) simp
qed simp

lemma wnaf_tracks:
  assumes "curve_group cv" "list_all2 (track_means cv N) tracks Qs" "N \<le> n"
  shows "\<exists>acc. wnaf_loop cv (map fst tracks) (jinf cv) (map (\<lambda>i. map (\<lambda>t. digit_at (snd t) i) tracks) (rev [0..<n])) = Inr acc \<and>
    jrep cv acc (psum cv Qs)"
proof -
  note ok = curve_group_ok [OF assms(1)]
  obtain Dfs where D: "list_all2 (\<lambda>t D. \<forall>i. digit_means cv (fst t) (digit_at (snd t) i) (D i)) tracks Dfs"
    "list_all2 (\<lambda>D Q. \<forall>n \<ge> N. hsum cv D n = Q) Dfs Qs"
    using tracks_choice [OF assms(2)] by blast
  have oc: "\<forall>D \<in> set Dfs. \<forall>i. on_curve cv (D i)"
    using D(1) by (auto simp: list_all2_conv_all_nth in_set_conv_nth digit_means_def)
  have "list_all2 (col_means cv (map fst tracks)) (map (\<lambda>i. map (\<lambda>t. digit_at (snd t) i) tracks) (rev [0..<n]))
      (map (\<lambda>i. map (\<lambda>D. D i) Dfs) (rev [0..<n]))"
    using D(1) by (auto simp: list_all2_conv_all_nth col_means_def)
  from wnaf_loop_means [OF ok jrep_inf [OF ok] this] obtain acc where acc:
    "wnaf_loop cv (map fst tracks) (jinf cv) (map (\<lambda>i. map (\<lambda>t. digit_at (snd t) i) tracks) (rev [0..<n])) = Inr acc"
    "jrep cv acc (horner cv Infinity (map (\<lambda>i. map (\<lambda>D. D i) Dfs) (rev [0..<n])))" by blast
  have "map (\<lambda>D. hsum cv D n) Dfs = Qs"
    using D(2) assms(3) by (auto simp: list_all2_conv_all_nth intro: nth_equalityI)
  then have "horner cv Infinity (map (\<lambda>i. map (\<lambda>D. D i) Dfs) (rev [0..<n])) = psum cv Qs"
    using horner_hsum [OF assms(1) on_curve_inf oc] hsum_psum [OF assms(1) oc] by simp
  then show ?thesis using acc by metis
qed

end
