(* ===== verification/Curve7.thy ===== *)
theory Curve7
  imports CurveGroup
begin

text \<open>
  A small curve on which the hypotheses of the properties hold: \<open>y\<^sup>2 = x\<^sup>3 + 3\<close> over the field of seven elements, of order 13.
\<close>

definition curve7 :: short_curve where
  "curve7 = \<lparr>c_red = \<lparr>red_m = 7, red_prime = None\<rparr>, c_a = 0, c_b = 3, c_n = 13,
     c_endo = Some \<lparr>endo_beta = 2, endo_lambda = 3, endo_v1 = (1, 4), endo_v2 = (4, 3)\<rparr>\<rparr>"

definition G7 :: point where
  "G7 = Affine 1 2"

lemma curve7_ok: "curve_ok curve7"
proof -
  have "\<forall>d \<in> {2..<nat 7}. \<not> int d dvd 7" by code_simp
  then have "prime_mod 7" by (intro prime_mod_small) simp_all
  then show ?thesis by (simp add: curve_ok_def field_def reduced_def curve7_def)
qed



definition chord7 :: "int \<Rightarrow> int \<Rightarrow> int \<Rightarrow> int \<Rightarrow> point" where
  "chord7 c x1 y1 x2 = Affine ((c * c - x1 - x2) mod 7) ((c * (x1 - (c * c - x1 - x2)) - y1) mod 7)"

fun add7 :: "point \<Rightarrow> point \<Rightarrow> point" where
  "add7 Infinity Q = Q"
| "add7 P Infinity = P"
| "add7 (Affine x1 y1) (Affine x2 y2) =
     (if x1 \<noteq> x2 then chord7 ((y1 - y2) * (x1 - x2) ^ 5 mod 7) x1 y1 x2
      else if y1 = y2 \<and> y1 \<noteq> 0 then chord7 (3 * (x1 * x1) * (2 * y1) ^ 5 mod 7) x1 y1 x1
      else Infinity)"

lemma inverse7:
  assumes "\<not> (7 :: int) dvd d" "7 dvd c * d - e"
  shows "c mod 7 = e * d ^ 5 mod 7"
proof -
  have "7 dvd (d mod 7) ^ 7 - d mod 7"
    using fermat [of 7 "d mod 7"] curve_okD(4) [OF curve7_ok] by (simp add: curve7_def)
  then have "7 dvd d ^ 7 - d" by (simp add: mod_eq_dvd_iff [symmetric] power_mod)
  moreover have "d ^ 7 - d = d * (d ^ 6 - 1)" by algebra
  ultimately have "7 dvd d * (d ^ 6 - 1)" by metis
  then have "7 dvd d ^ 6 - 1" using assms(1) prime_mod_dvd_mult curve_okD(4) [OF curve7_ok] by (simp add: curve7_def)
  moreover have "c - e * d ^ 5 = (c * d - e) * d ^ 5 - c * (d ^ 6 - 1)" by (simp add: algebra_simps power_numeral_reduce)
  ultimately show ?thesis using assms(2) by (simp add: mod_eq_dvd_iff)
qed

lemma add_curve7:
  assumes "point_ok curve7 P" "point_ok curve7 Q"
  shows "ShortPoint_add curve7 P Q = add7 P Q"
proof (cases "P = Infinity \<or> Q = Infinity")
  case False
  then obtain x1 y1 x2 y2 where PQ: "P = Affine x1 y1" "Q = Affine x2 y2" by (metis point.exhaust)
  have p7: "c_p curve7 = 7" "c_a curve7 = 0" by (simp_all add: curve7_def)
  have r: "0 \<le> x1" "x1 < 7" "0 \<le> x2" "x2 < 7" "0 \<le> y1" "y1 < 7" "0 \<le> y2" "y2 < 7"
    using assms PQ by (simp_all add: point_ok_def reduced_def p7)
  consider "x1 \<noteq> x2" | "x1 = x2" "y1 \<noteq> y2" | "x1 = x2" "y1 = y2" by blast
  then show ?thesis
  proof cases
    case 1
    obtain c where c: "reduced (c_red curve7) c" "7 dvd c * (x1 - x2) - (y1 - y2)"
      "ShortPoint_add curve7 P Q = chord7 c x1 y1 x2"
      using add_slope [OF curve7_ok assms [unfolded PQ] 1] unfolding p7 PQ chord7_def by metis
    have "\<not> 7 dvd x1 - x2" using r 1 reduced_eq_iff by blast
    from inverse7 [OF this c(2)] have "c = (y1 - y2) * (x1 - x2) ^ 5 mod 7"
      using reduced_mod_id [OF c(1)] p7 by simp
    then show ?thesis using c(3) 1 PQ by simp
  next
    case 3
    have d: "7 dvd 2 * y1 \<longleftrightarrow> y1 = 0" using r by presburger
    show ?thesis
    proof (cases "y1 = 0")
      case True
      then show ?thesis using 3 dbl_infinity [OF curve7_ok, of x1 y1] assms PQ by (simp add: add_same p7)
    next
      case False
      then have nd: "\<not> 7 dvd 2 * y1" using d by simp
      obtain c where c: "7 dvd c * (2 * y1) - 3 * (x1 * x1)"
        "ShortPoint_dbl curve7 P = Affine ((c * c - 2 * x1) mod 7) ((c * (x1 - (c * c - 2 * x1)) - y1) mod 7)"
        using dbl_slope [OF curve7_ok assms(1) [unfolded PQ]] nd unfolding p7 PQ by (metis add.right_neutral)
      define e where "e = 3 * (x1 * x1) * (2 * y1) ^ 5 mod 7"
      have m: "c mod 7 = e mod 7" using inverse7 [OF nd c(1)] by (simp add: e_def)
      have X: "(c * c - 2 * x1) mod 7 = (e * e - x1 - x1) mod 7"
        using mod_diff_cong [OF mod_mult_cong [OF m m] refl, of "2 * x1"] by (simp add: algebra_simps)
      have "(c * (x1 - (c * c - 2 * x1)) - y1) mod 7 = (e * (x1 - (e * e - x1 - x1)) - y1) mod 7"
        by (rule mod_diff_cong [OF mod_mult_cong [OF m mod_diff_cong [OF refl X]] refl])
      then have "ShortPoint_dbl curve7 P = chord7 e x1 y1 x1" using X unfolding c(2) chord7_def by (simp only:)
      then show ?thesis using 3 False PQ by (simp add: add_same e_def)
    qed
  qed (simp add: PQ add_same_x)
qed (cases P; auto)

definition points7 :: "point list" where
  "points7 = [Infinity, Affine 1 2, Affine 6 3, Affine 2 2, Affine 4 5, Affine 3 3, Affine 5 3,
     Affine 5 4, Affine 3 4, Affine 4 2, Affine 2 5, Affine 6 4, Affine 1 5]"

lemma on_curve7: "on_curve curve7 P \<longleftrightarrow> P \<in> set points7"
proof -
  have 1: "on_curve curve7 P \<longleftrightarrow> (case P of Infinity \<Rightarrow> True | Affine x y \<Rightarrow>
      x \<in> set [0..6] \<and> y \<in> set [0..6] \<and> (x * x * x + 3 - y * y) mod 7 = 0)" for P
    using on_curve_affine [OF curve7_ok]
    by (auto simp: curve7_def reduced_def curve_poly_def dvd_eq_mod_eq_0 split: point.split)
  have "\<forall>x\<in>set [0..6]. \<forall>y\<in>set [0..6]. (x * x * x + 3 - y * y) mod 7 = 0 \<longrightarrow> Affine x y \<in> set points7" by code_simp
  moreover have "\<forall>P\<in>set points7. (case P of Infinity \<Rightarrow> True | Affine x y \<Rightarrow>
      x \<in> set [0..6] \<and> y \<in> set [0..6] \<and> (x * x * x + 3 - y * y) mod 7 = 0)" by code_simp
  moreover have "Infinity \<in> set points7" by (simp add: points7_def)
  ultimately show ?thesis unfolding 1 by (cases P) auto
qed

lemma length_points7 [simp]: "length points7 = 13"
  by (simp add: points7_def)

lemma add7_table:
  "\<forall>i\<in>set [0..<13]. \<forall>j\<in>set [0..<13]. add7 (points7 ! i) (points7 ! j) = points7 ! ((i + j) mod 13)"
  by code_simp

lemma add_points7:
  assumes "i < 13" "j < 13"
  shows "ShortPoint_add curve7 (points7 ! i) (points7 ! j) = points7 ! ((i + j) mod 13)"
proof -
  have "point_ok curve7 (points7 ! k)" if "k < 13" for k
    using that on_curve7 on_curve_ok by simp
  then have "ShortPoint_add curve7 (points7 ! i) (points7 ! j) = add7 (points7 ! i) (points7 ! j)"
    using add_curve7 assms by blast
  also have "\<dots> = points7 ! ((i + j) mod 13)"
    by (rule add7_table [THEN bspec, THEN bspec]; simp only: set_upt atLeastLessThan_iff assms zero_le simp_thms)
  finally show ?thesis .
qed

lemma curve7_group: "curve_group curve7"
  unfolding curve_group_def
proof (intro conjI allI impI curve7_ok)
  fix P Q R
  assume "on_curve curve7 P" "on_curve curve7 Q" "on_curve curve7 R"
  then obtain i j k where "i < 13" "j < 13" "k < 13" "P = points7 ! i" "Q = points7 ! j" "R = points7 ! k"
    unfolding on_curve7 in_set_conv_nth length_points7 by blast
  then show "ShortPoint_add curve7 (ShortPoint_add curve7 P Q) R = ShortPoint_add curve7 P (ShortPoint_add curve7 Q R)"
    by (simp add: add_points7 mod_simps add.assoc)
qed

lemma nth_points7: "points7 ! 0 = Infinity" "points7 ! Suc 0 = G7"
  by (simp_all add: points7_def G7_def)

lemma nmul_G7: "nmul curve7 n G7 = points7 ! (n mod 13)"
proof (induction n)
  case (Suc n)
  then show ?case using add_points7 [of 1 "n mod 13"] by (simp add: nth_points7 mod_simps)
qed (simp add: nth_points7)

lemma on_curve_G7 [simp]: "on_curve curve7 G7"
  by (simp add: on_curve7 points7_def G7_def)

section \<open>Witnesses\<close>

theorem jacobian_affine_witness:
  "JPoint_toP curve7 (JPoint_mixedAdd curve7 (JPoint_dbl curve7 (ShortPoint_toJ curve7 G7)) G7) =
     ShortPoint_add curve7 (ShortPoint_dbl curve7 G7) G7 \<and>
   JPoint_toP curve7 (JPoint_dblp curve7 (JPoint_dbl curve7 (ShortPoint_toJ curve7 G7)) 2) =
     (ShortPoint_dbl curve7 ^^ 2) (ShortPoint_dbl curve7 G7)"
  using jacobian_affine [OF curve7_ok jrep_dbl [OF curve7_ok jrep_toJ] jrep_toJ, OF curve7_ok on_curve_ok curve7_ok on_curve_ok,
      OF on_curve_G7 on_curve_G7]
  by blast

theorem point_from_x_witness:
  "ShortCurve_pointFromX curve7 5 True = Inr (Affine 5 3) \<and> ShortCurve_pointFromX curve7 5 False = Inr (Affine 5 4)"
proof -
  have "on_curve curve7 (Affine 5 3)" "on_curve curve7 (Affine 5 4)" by (simp_all add: on_curve7 points7_def)
  then show ?thesis
    using point_from_x [OF curve7_ok, of 5 3] point_from_x [OF curve7_ok, of 5 4] by (simp add: curve7_def)
qed

end
