(* ===== verification/CurveMulProps.thy ===== *)
theory CurveMulProps
  imports MulProps Curve7
begin

text \<open>
  The tables that the code builds are right, pairs of points are combined rightly, the endomorphism splits a multiplier, and
  with them \<open>mul\<close> and \<open>mulAdd\<close> compute multiples.  The hypotheses are shown to hold for the small curve.
\<close>

section \<open>Tables\<close>

definition table_ok :: "short_curve \<Rightarrow> nat \<Rightarrow> point list \<Rightarrow> point \<Rightarrow> bool" where
  "table_ok cv w ps P \<longleftrightarrow> 1 \<le> w \<and>
     (\<forall>i. int (2 * i + 1) < 2 ^ w \<longrightarrow> i < length ps \<and> ps ! i = zmul cv (int (2 * i + 1)) P)"

lemma table_digit:
  assumes "table_ok cv w ps P" "odd d" "0 < d" "d < 2 ^ w"
  shows "nat ((d - 1) div 2) < length ps" "ps ! nat ((d - 1) div 2) = zmul cv d P"
proof -
  have "d = int (2 * nat ((d - 1) div 2) + 1)" using assms(2,3) by (auto elim!: oddE)
  then show "nat ((d - 1) div 2) < length ps" "ps ! nat ((d - 1) div 2) = zmul cv d P"
    using assms(1,4) unfolding table_ok_def by metis+
qed

lemma naf_track:
  assumes "curve_group cv" "on_curve cv P" "table_ok cv w ps P" "0 \<le> k"
  shows "track_means cv (length (getNAF k w)) (map TAffine ps, getNAF k w) (zmul cv k P)"
  unfolding track_means_def
proof (intro exI [of _ "\<lambda>i. zmul cv (digit_at (getNAF k w) i) P"] conjI allI impI)
  note ok = curve_group_ok [OF assms(1)]
  have w: "1 \<le> w" using assms(3) by (simp add: table_ok_def)
  fix i
  let ?z = "digit_at (getNAF k w) i"
  have z: "?z = 0 \<or> odd ?z \<and> \<bar>?z\<bar> < 2 ^ w"
    using getNAF_digits [OF w assms(4)] by (auto simp: digit_at_def)
  show "digit_means cv (fst (map TAffine ps, getNAF k w)) (digit_at (snd (map TAffine ps, getNAF k w)) i) (zmul cv ?z P)"
  proof (cases "?z = 0")
    case False
    then have "nat ((\<bar>?z\<bar> - 1) div 2) < length ps" "ps ! nat ((\<bar>?z\<bar> - 1) div 2) = zmul cv \<bar>?z\<bar> P"
      using table_digit [OF assms(3), of "\<bar>?z\<bar>"] z by auto
    then show ?thesis
      using False zmul_closed [OF ok assms(2)] zmul_minus [OF assms(1,2), of ?z]
      by (auto simp: digit_means_def entry_means_def abs_if neg_on_curve [OF ok])
  qed (simp add: digit_means_def)
next
  fix n assume "length (getNAF k w) \<le> n"
  then show "hsum cv (\<lambda>i. zmul cv (digit_at (getNAF k w) i) P) n = zmul cv k P"
    using hsum_zmul [OF assms(1,2)] digits_sum getNAF_value assms(3,4) by (simp add: table_ok_def)
qed

lemma getNAFPoints_table:
  assumes "curve_group cv" "on_curve cv (sp_point p)" "1 \<le> w" "naf_of p = None"
  shows "\<exists>ps. getNAFPoints cv p w = (w, ps) \<and> table_ok cv w ps (sp_point p)"
proof -
  let ?P = "sp_point p"
  let ?F = "\<lambda>m. foldl (\<lambda>res _. res @ [ShortPoint_add cv (last res) (ShortPoint_dbl cv ?P)]) [?P] [1..<m]"
  have dbl: "ShortPoint_dbl cv ?P = zmul cv 2 ?P" using zmul_dbl [OF assms(1,2), of 1] by simp
  have F: "length (?F m) = m \<and> (\<forall>i < m. ?F m ! i = zmul cv (int (2 * i + 1)) ?P)" if "1 \<le> m" for m
    using that
  proof (induction m rule: nat_induct_at_least)
    case (Suc m)
    have "last (?F m) = zmul cv (int (2 * (m - 1) + 1)) ?P" using Suc by (subst last_conv_nth) auto
    then have "ShortPoint_add cv (last (?F m)) (ShortPoint_dbl cv ?P) = zmul cv (int (2 * (m - 1) + 1) + 2) ?P"
      unfolding dbl zmul_add [OF assms(1,2)] by simp
    also have "int (2 * (m - 1) + 1) + 2 = int (2 * m + 1)" using Suc.hyps by simp
    finally show ?case using Suc by (auto simp: nth_append less_Suc_eq)
  qed simp
  have two: "(2 :: nat) \<le> 2 ^ w" using assms(3) by (simp add: self_le_power)
  have "table_ok cv w (?F (2 ^ w - 1)) ?P"
    unfolding table_ok_def
  proof (intro conjI allI impI)
    fix i :: nat assume "int (2 * i + 1) < 2 ^ w"
    then have "2 * i + 1 < 2 ^ w" by (metis of_nat_less_iff of_nat_numeral of_nat_power)
    then show "i < length (?F (2 ^ w - 1))" "?F (2 ^ w - 1) ! i = zmul cv (int (2 * i + 1)) ?P"
      using F [of "2 ^ w - 1"] two by auto
  qed (rule assms)
  then show ?thesis using assms(4) by (simp add: getNAFPoints_def)
qed

definition sp_ok :: "short_curve \<Rightarrow> short_point \<Rightarrow> bool" where
  "sp_ok cv p \<longleftrightarrow> on_curve cv (sp_point p) \<and> sp_point p \<noteq> Infinity \<and>
     (\<forall>w ps. naf_of p = Some (w, ps) \<longrightarrow> (\<forall>P \<in> set ps. on_curve cv P \<and> P \<noteq> Infinity) \<and> table_ok cv w ps (sp_point p)) \<and>
     (\<forall>step ps. doubles_of p = Some (step, ps) \<longrightarrow> (\<forall>P \<in> set ps. on_curve cv P \<and> P \<noteq> Infinity) \<and> doubles_ok cv step ps (sp_point p))"

lemma getNAFPoints_ok:
  assumes "curve_group cv" "sp_ok cv p" "1 \<le> w"
  obtains v ps where "getNAFPoints cv p w = (v, ps)" "table_ok cv v ps (sp_point p)"
proof (cases "naf_of p")
  case None
  then show thesis using getNAFPoints_table [OF assms(1) _ assms(3)] assms(2) that by (auto simp: sp_ok_def)
next
  case (Some t)
  then show thesis using assms(2) that by (cases t) (auto simp: sp_ok_def getNAFPoints_def)
qed

lemma wnafMul:
  assumes "curve_group cv" "sp_ok cv p" "0 \<le> k"
  shows "wnafMul cv p k = Inr (zmul cv k (sp_point p))"
proof -
  obtain w ps where t: "getNAFPoints cv p 4 = (w, ps)" "table_ok cv w ps (sp_point p)"
    using getNAFPoints_ok [OF assms(1,2), of 4] by auto
  let ?naf = "getNAF k w"
  have P: "on_curve cv (sp_point p)" using assms(2) by (simp add: sp_ok_def)
  have "list_all2 (track_means cv (length ?naf)) [(map TAffine ps, ?naf)] [zmul cv k (sp_point p)]"
    using naf_track [OF assms(1) P t(2) assms(3)] by simp
  from wnaf_tracks [OF assms(1) this, of "length ?naf"] obtain acc where acc:
    "wnaf_loop cv [map TAffine ps] (jinf cv) (map (\<lambda>i. [digit_at ?naf i]) (rev [0..<length ?naf])) = Inr acc"
    "jrep cv acc (zmul cv k (sp_point p))" by auto
  have "map (\<lambda>i. [digit_at ?naf i]) (rev [0..<length ?naf]) = map (\<lambda>z. [z]) (rev ?naf)"
    by (rule nth_equalityI) (auto simp: rev_nth digit_at_def)
  then show ?thesis using acc t(1) jrep_toP [OF curve_group_ok [OF assms(1)]] by (simp add: wnafMul_def)
qed

section \<open>Pairs\<close>

lemma comb_entries:
  assumes "curve_ok cv" "on_curve cv A" "on_curve cv B" "A \<noteq> Infinity" "B \<noteq> Infinity"
  obtains t1 t2 where "comb_table cv A B = Inr [TAffine A, t1, t2, TAffine B]"
    "entry_means cv t1 (ShortPoint_add cv A B)" "entry_means cv t2 (ShortPoint_add cv A (ShortPoint_neg cv B))"
proof -
  obtain xa ya xb yb where AB: "A = Affine xa ya" "B = Affine xb yb" using assms(4,5) by (metis point.exhaust)
  have oc: "on_curve cv (ShortPoint_add cv A B)" "on_curve cv (ShortPoint_neg cv B)"
    "on_curve cv (ShortPoint_add cv A (ShortPoint_neg cv B))"
    using add_closed neg_on_curve assms by auto
  have j: "jrep cv (ShortPoint_toJ cv A) A" using jrep_toJ assms on_curve_ok by blast
  have e: "entry_means cv (TAffine (ShortPoint_add cv A B)) (ShortPoint_add cv A B)"
    "entry_means cv (TAffine (ShortPoint_add cv A (ShortPoint_neg cv B))) (ShortPoint_add cv A (ShortPoint_neg cv B))"
    "entry_means cv (TJacobian (JPoint_mixedAdd cv (ShortPoint_toJ cv A) B)) (ShortPoint_add cv A B)"
    "entry_means cv (TJacobian (JPoint_mixedAdd cv (ShortPoint_toJ cv A) (ShortPoint_neg cv B))) (ShortPoint_add cv A (ShortPoint_neg cv B))"
    using oc jrep_mixedAdd [OF assms(1) j] assms(3) on_curve_ok by (auto simp: entry_means_def)
  have c: "comb_table cv A B = Inr
      [TAffine A, if ya = yb then TAffine (ShortPoint_add cv A B) else TJacobian (JPoint_mixedAdd cv (ShortPoint_toJ cv A) B),
       if ya \<noteq> yb \<and> ya = redNeg cv yb then TAffine (ShortPoint_add cv A (ShortPoint_neg cv B))
       else TJacobian (JPoint_mixedAdd cv (ShortPoint_toJ cv A) (ShortPoint_neg cv B)), TAffine B]"
    by (simp add: comb_table_def AB)
  show thesis by (rule that [OF c]) (use e in auto)
qed

lemma comb_digit:
  assumes "curve_group cv" "on_curve cv A" "on_curve cv B"
    "entry_means cv t1 (ShortPoint_add cv A B)" "entry_means cv t2 (ShortPoint_add cv A (ShortPoint_neg cv B))"
    "ja \<in> {- 1, 0, 1}" "jb \<in> {- 1, 0, 1}"
  shows "digit_means cv [TAffine A, t1, t2, TAffine B] (comb_index ! nat ((ja + 1) * 3 + (jb + 1)))
    (ShortPoint_add cv (zmul cv ja A) (zmul cv jb B))"
proof -
  note ok = curve_group_ok [OF assms(1)]
  have n: "zmul cv (- 1) A = ShortPoint_neg cv A" "zmul cv (- 1) B = ShortPoint_neg cv B"
    using zmul_minus [OF assms(1,2), of 1] zmul_minus [OF assms(1,3), of 1] by simp_all
  have oc: "on_curve cv (ShortPoint_neg cv A)" "on_curve cv (ShortPoint_neg cv B)" "on_curve cv (ShortPoint_add cv P Q)"
    if "on_curve cv P" "on_curve cv Q" for P Q
    using neg_on_curve add_closed ok assms that by auto
  have nn: "ShortPoint_neg cv (ShortPoint_neg cv A) = A" "ShortPoint_neg cv (ShortPoint_neg cv B) = B"
    using ok assms on_curve_ok by simp_all
  have s: "ShortPoint_neg cv (ShortPoint_add cv (ShortPoint_neg cv A) (ShortPoint_neg cv B)) = ShortPoint_add cv A B"
    "ShortPoint_neg cv (ShortPoint_add cv (ShortPoint_neg cv A) B) = ShortPoint_add cv A (ShortPoint_neg cv B)"
    using neg_add [OF assms(1)] oc [OF on_curve_inf on_curve_inf] assms(2,3) nn by simp_all
  have a: "entry_means cv (TAffine A) A" "entry_means cv (TAffine B) B" using assms(2,3) by (simp_all add: entry_means_def)
  show ?thesis
    using assms(6,7) assms(2-5) a oc [OF on_curve_inf on_curve_inf] oc(3)
    by (auto simp: comb_index_def digit_means_def n s nn)
qed

lemma wnaf_pair:
  assumes "curve_group cv" "sp_ok cv pa" "sp_ok cv pb" "0 \<le> ka" "0 \<le> kb" "1 \<le> defW"
  obtains t1 t2 mx' Q1 Q2 where "wnaf_pair cv defW mx ((pa, ka), (pb, kb)) = Inr ([t1, t2], mx')" "mx \<le> mx'"
    "track_means cv mx' t1 Q1" "track_means cv mx' t2 Q2" "on_curve cv Q1" "on_curve cv Q2"
    "ShortPoint_add cv Q1 Q2 = ShortPoint_add cv (zmul cv ka (sp_point pa)) (zmul cv kb (sp_point pb))"
proof -
  note ok = curve_group_ok [OF assms(1)]
  let ?A = "sp_point pa" and ?B = "sp_point pb"
  have oc: "on_curve cv ?A" "on_curve cv ?B" "?A \<noteq> Infinity" "?B \<noteq> Infinity" using assms(2,3) by (simp_all add: sp_ok_def)
  have zc: "on_curve cv (zmul cv ka ?A)" "on_curve cv (zmul cv kb ?B)" using zmul_closed ok oc by blast+
  obtain wa ta where ta: "getNAFPoints cv pa defW = (wa, ta)" "table_ok cv wa ta ?A"
    using getNAFPoints_ok [OF assms(1,2,6)] .
  obtain wb tb where tb: "getNAFPoints cv pb defW = (wb, tb)" "table_ok cv wb tb ?B"
    using getNAFPoints_ok [OF assms(1,3,6)] .
  show thesis
  proof (cases "wa \<noteq> 1 \<or> wb \<noteq> 1")
    case True
    let ?na = "getNAF ka wa" and ?nb = "getNAF kb wb"
    let ?mx = "max (length ?nb) (max (length ?na) mx)"
    have "wnaf_pair cv defW mx ((pa, ka), (pb, kb)) = Inr ([(map TAffine ta, ?na), (map TAffine tb, ?nb)], ?mx)"
      using True ta(1) tb(1) by (simp add: wnaf_pair_def Let_def)
    then show thesis
      by (rule that) (use track_means_mono [OF naf_track [OF assms(1) oc(1) ta(2) assms(4)]]
        track_means_mono [OF naf_track [OF assms(1) oc(2) tb(2) assms(5)]] zc in auto)
  next
    case False
    obtain t1 t2 where c: "comb_table cv ?A ?B = Inr [TAffine ?A, t1, t2, TAffine ?B]"
      "entry_means cv t1 (ShortPoint_add cv ?A ?B)" "entry_means cv t2 (ShortPoint_add cv ?A (ShortPoint_neg cv ?B))"
      using comb_entries [OF ok oc] .
    define jsf where "jsf = getJSF ka kb"
    define m where "m = max (length jsf) mx"
    define uv where "uv = (\<lambda>j. if j < length jsf then jsf ! j else (0, 0))"
    define naf where "naf = map (\<lambda>j. let (ja, jb) = uv j in comb_index ! nat ((ja + 1) * 3 + (jb + 1))) [0..<m]"
    have w: "wnaf_pair cv defW mx ((pa, ka), (pb, kb)) =
        Inr ([([TAffine ?A, t1, t2, TAffine ?B], naf), (map TAffine tb, replicate m 0)], m)"
      using False ta(1) tb(1) c(1) by (simp add: wnaf_pair_def Let_def jsf_def m_def uv_def naf_def)
    have uv: "fst (uv i) = digit_at (map fst jsf) i" "snd (uv i) = digit_at (map snd jsf) i" for i
      by (simp_all add: uv_def digit_at_def)
    have u1: "fst (uv i) \<in> {- 1, 0, 1}" "snd (uv i) \<in> {- 1, 0, 1}" for i
    proof -
      have "uv i \<in> {- 1, 0, 1} \<times> {- 1, 0, 1}"
      proof (cases "i < length jsf")
        case True
        then have "uv i \<in> set jsf" by (simp add: uv_def)
        then show ?thesis using getJSF(3) [OF assms(4,5)] unfolding jsf_def by blast
      qed (simp add: uv_def)
      then show "fst (uv i) \<in> {- 1, 0, 1}" "snd (uv i) \<in> {- 1, 0, 1}" by auto
    qed
    have dig: "digit_at naf i = comb_index ! nat ((fst (uv i) + 1) * 3 + (snd (uv i) + 1))" for i
    proof (cases "i < m")
      case True
      then show ?thesis by (simp add: digit_at_def naf_def case_prod_beta Let_def)
    next
      case False
      then have "uv i = (0, 0)" by (auto simp: uv_def m_def)
      then show ?thesis using False by (simp add: digit_at_def naf_def comb_index_def)
    qed
    have "track_means cv m ([TAffine ?A, t1, t2, TAffine ?B], naf) (ShortPoint_add cv (zmul cv ka ?A) (zmul cv kb ?B))"
      unfolding track_means_def
    proof (intro exI [of _ "\<lambda>i. ShortPoint_add cv (zmul cv (fst (uv i)) ?A) (zmul cv (snd (uv i)) ?B)"] conjI allI impI)
      fix i
      show "digit_means cv (fst ([TAffine ?A, t1, t2, TAffine ?B], naf)) (digit_at (snd ([TAffine ?A, t1, t2, TAffine ?B], naf)) i)
          (ShortPoint_add cv (zmul cv (fst (uv i)) ?A) (zmul cv (snd (uv i)) ?B))"
        using comb_digit [OF assms(1) oc(1,2) c(2,3) u1 [of i]] dig by simp
    next
      fix n assume n: "m \<le> n"
      have "length (map fst jsf) \<le> n" "length (map snd jsf) \<le> n" using n by (simp_all add: m_def)
      then have "(\<Sum>i<n. 2 ^ i * fst (uv i)) = ka" "(\<Sum>i<n. 2 ^ i * snd (uv i)) = kb"
        unfolding uv using digits_sum getJSF [OF assms(4,5)] by (simp_all add: jsf_def)
      then show "hsum cv (\<lambda>i. ShortPoint_add cv (zmul cv (fst (uv i)) ?A) (zmul cv (snd (uv i)) ?B)) n =
          ShortPoint_add cv (zmul cv ka ?A) (zmul cv kb ?B)"
        using zmul_closed [OF ok] oc by (simp add: hsum_add [OF assms(1)] hsum_zmul [OF assms(1)])
    qed
    moreover have "track_means cv m (map TAffine tb, replicate m 0) Infinity"
      unfolding track_means_def by (intro exI [of _ "\<lambda>i. Infinity"]) (simp add: digit_means_def digit_at_def)
    ultimately show thesis
      using that [OF w] add_closed [OF ok zc] by (simp add: m_def)
  qed
qed

definition pair_value :: "short_curve \<Rightarrow> (short_point \<times> int) \<times> (short_point \<times> int) \<Rightarrow> point" where
  "pair_value cv = (\<lambda>((pa, ka), (pb, kb)). ShortPoint_add cv (zmul cv ka (sp_point pa)) (zmul cv kb (sp_point pb)))"

definition pair_ok :: "short_curve \<Rightarrow> (short_point \<times> int) \<times> (short_point \<times> int) \<Rightarrow> bool" where
  "pair_ok cv = (\<lambda>((pa, ka), (pb, kb)). sp_ok cv pa \<and> sp_ok cv pb \<and> 0 \<le> ka \<and> 0 \<le> kb)"

lemma wnaf_pairs:
  assumes "curve_group cv" "\<forall>pr \<in> set prs. pair_ok cv pr" "1 \<le> defW"
  shows "\<exists>tracks mx Qs. wnaf_pairs cv defW prs = Inr (tracks, mx) \<and> list_all2 (track_means cv mx) tracks Qs \<and>
    (\<forall>Q \<in> set Qs. on_curve cv Q) \<and> psum cv Qs = psum cv (map (pair_value cv) prs)"
  using assms(2)
proof (induction prs)
  case (Cons pr prs)
  note ok = curve_group_ok [OF assms(1)]
  obtain pa ka pb kb where pr: "pr = ((pa, ka), (pb, kb))" by (metis prod.exhaust)
  obtain tracks mx Qs where IH: "wnaf_pairs cv defW prs = Inr (tracks, mx)" "list_all2 (track_means cv mx) tracks Qs"
    "\<forall>Q \<in> set Qs. on_curve cv Q" "psum cv Qs = psum cv (map (pair_value cv) prs)"
    using Cons by auto
  have o: "sp_ok cv pa" "sp_ok cv pb" "0 \<le> ka" "0 \<le> kb" using Cons.prems pr by (simp_all add: pair_ok_def)
  obtain t1 t2 mx' Q1 Q2 where w: "wnaf_pair cv defW mx ((pa, ka), (pb, kb)) = Inr ([t1, t2], mx')" "mx \<le> mx'"
    "track_means cv mx' t1 Q1" "track_means cv mx' t2 Q2" "on_curve cv Q1" "on_curve cv Q2"
    "ShortPoint_add cv Q1 Q2 = ShortPoint_add cv (zmul cv ka (sp_point pa)) (zmul cv kb (sp_point pb))"
    using wnaf_pair [OF assms(1) o assms(3)] .
  have "list_all2 (track_means cv mx') tracks Qs"
    using IH(2) w(2) track_means_mono by (metis (no_types, lifting) list_all2_mono)
  moreover have "psum cv (Q1 # Q2 # Qs) = psum cv (map (pair_value cv) (pr # prs))"
    using IH(4) w(7) add_assoc [OF assms(1) w(5,6) psum_closed [OF ok IH(3)]] by (simp add: pr pair_value_def)
  ultimately show ?case
    using w IH by (intro exI [of _ "t1 # t2 # tracks"] exI [of _ mx'] exI [of _ "Q1 # Q2 # Qs"]) (simp add: pr)
qed simp

lemma wnafMulAdd:
  assumes "curve_group cv" "\<forall>pr \<in> set prs. pair_ok cv pr" "1 \<le> defW"
  shows "\<exists>acc. wnafMulAdd cv defW prs = Inr acc \<and> jrep cv acc (psum cv (map (pair_value cv) prs))"
proof -
  obtain tracks mx Qs where w: "wnaf_pairs cv defW prs = Inr (tracks, mx)" "list_all2 (track_means cv mx) tracks Qs"
    "psum cv Qs = psum cv (map (pair_value cv) prs)"
    using wnaf_pairs [OF assms] by blast
  then show ?thesis using wnaf_tracks [OF assms(1) w(2), of "Suc mx"] by (simp add: wnafMulAdd_def)
qed

section \<open>The endomorphism\<close>

text \<open>
  What makes the endomorphism of a curve right: \<open>beta\<close> multiplies the first coordinate of a point exactly as \<open>lambda\<close>
  multiplies the point, the order of every point divides \<open>n\<close>, and the basis consists of relations modulo \<open>n\<close>.
\<close>

definition endo_ok :: "short_curve \<Rightarrow> endomorphism \<Rightarrow> bool" where
  "endo_ok cv en \<longleftrightarrow>
     c_n cv dvd fst (endo_v1 en) + snd (endo_v1 en) * endo_lambda en \<and>
     c_n cv dvd fst (endo_v2 en) + snd (endo_v2 en) * endo_lambda en \<and>
     (\<forall>P. on_curve cv P \<longrightarrow> zmul cv (c_n cv) P = Infinity \<and> endoMul cv (endo_beta en) P = zmul cv (endo_lambda en) P \<and>
       (P \<noteq> Infinity \<longrightarrow> zmul cv (endo_lambda en) P \<noteq> Infinity))"

lemma zmul_cong:
  assumes "curve_group cv" "on_curve cv P" "zmul cv n P = Infinity" "n dvd a - b"
  shows "zmul cv a P = zmul cv b P"
proof -
  obtain q where q: "a = b + q * n" using assms(4) by (metis dvd_def diff_eq_eq add.commute mult.commute)
  have "zmul cv (q * n) P = Infinity" using zmul_mult [OF assms(1,2), of q n] assms(3) by simp
  then show ?thesis using q zmul_add [OF assms(1,2), of b "q * n"] by simp
qed

lemma endoSplit:
  assumes "endo_ok cv en" "endoSplit cv en k = (k1, k2)"
  shows "c_n cv dvd (k1 + k2 * endo_lambda en) - k"
proof -
  obtain a1 b1 a2 b2 where v: "endo_v1 en = (a1, b1)" "endo_v2 en = (a2, b2)" by (metis prod.exhaust)
  obtain c1 c2 where k: "k1 = k - c1 * a1 - c2 * a2" "k2 = - (c1 * b1 + c2 * b2)"
    using assms(2) v by (auto simp: endoSplit_def Let_def)
  have "(k1 + k2 * endo_lambda en) - k = - (c1 * (a1 + b1 * endo_lambda en)) - c2 * (a2 + b2 * endo_lambda en)"
    unfolding k by (simp add: algebra_simps)
  moreover have "c_n cv dvd - (c1 * (a1 + b1 * endo_lambda en)) - c2 * (a2 + b2 * endo_lambda en)"
    using assms(1) v by (intro dvd_diff) (simp_all add: endo_ok_def)
  ultimately show ?thesis by simp
qed

text \<open>Tables mapped by a homomorphism are tables of the image.\<close>

lemma map_pre_of:
  "naf_of \<lparr>sp_point = Q, precomputed = map_option (map_pre f) (precomputed p)\<rparr> = map_option (\<lambda>(w, ps). (w, map f ps)) (naf_of p)"
  "doubles_of \<lparr>sp_point = Q, precomputed = map_option (map_pre f) (precomputed p)\<rparr> = map_option (\<lambda>(s, ps). (s, map f ps)) (doubles_of p)"
  by (cases "precomputed p"; simp add: naf_of_def doubles_of_def map_pre_def)+

lemma sp_ok_map:
  assumes "sp_ok cv p" "\<And>k. f (zmul cv k (sp_point p)) = zmul cv k (f (sp_point p))"
    "\<And>P. on_curve cv P \<Longrightarrow> P \<noteq> Infinity \<Longrightarrow> on_curve cv (f P) \<and> f P \<noteq> Infinity"
  shows "sp_ok cv \<lparr>sp_point = f (sp_point p), precomputed = map_option (map_pre f) (precomputed p)\<rparr>"
  unfolding sp_ok_def map_pre_of
proof (intro conjI allI impI)
  show "on_curve cv (sp_point \<lparr>sp_point = f (sp_point p), precomputed = map_option (map_pre f) (precomputed p)\<rparr>)"
    "sp_point \<lparr>sp_point = f (sp_point p), precomputed = map_option (map_pre f) (precomputed p)\<rparr> \<noteq> Infinity"
    using assms(1,3) by (simp_all add: sp_ok_def)
  fix w ps'
  assume "map_option (\<lambda>(w, ps). (w, map f ps)) (naf_of p) = Some (w, ps')"
  then obtain ps where ps: "naf_of p = Some (w, ps)" "ps' = map f ps" by (cases "naf_of p") auto
  have "\<forall>P \<in> set ps. on_curve cv P \<and> P \<noteq> Infinity" "table_ok cv w ps (sp_point p)"
    using assms(1) ps(1) by (simp_all add: sp_ok_def)
  then show "\<forall>P \<in> set ps'. on_curve cv P \<and> P \<noteq> Infinity"
    "table_ok cv w ps' (sp_point \<lparr>sp_point = f (sp_point p), precomputed = map_option (map_pre f) (precomputed p)\<rparr>)"
    using assms(2,3) ps(2) by (auto simp: table_ok_def)
next
  fix s ps'
  assume "map_option (\<lambda>(s, ps). (s, map f ps)) (doubles_of p) = Some (s, ps')"
  then obtain ps where ps: "doubles_of p = Some (s, ps)" "ps' = map f ps" by (cases "doubles_of p") auto
  have "\<forall>P \<in> set ps. on_curve cv P \<and> P \<noteq> Infinity" "doubles_ok cv s ps (sp_point p)"
    using assms(1) ps(1) by (simp_all add: sp_ok_def)
  then show "\<forall>P \<in> set ps'. on_curve cv P \<and> P \<noteq> Infinity"
    "doubles_ok cv s ps' (sp_point \<lparr>sp_point = f (sp_point p), precomputed = map_option (map_pre f) (precomputed p)\<rparr>)"
    using assms(2,3) ps(2) by (auto simp: doubles_ok_def)
qed

lemma neg_pre_ok:
  assumes "curve_group cv" "sp_ok cv p"
  shows "sp_ok cv (ShortPoint_neg_pre cv p)" "sp_point (ShortPoint_neg_pre cv p) = ShortPoint_neg cv (sp_point p)"
proof -
  note ok = curve_group_ok [OF assms(1)]
  have P: "on_curve cv (sp_point p)" "sp_point p \<noteq> Infinity" using assms(2) by (simp_all add: sp_ok_def)
  have "ShortPoint_neg cv (zmul cv k (sp_point p)) = zmul cv k (ShortPoint_neg cv (sp_point p))" for k
    using zmul_mult [OF assms(1) P(1), of k "- 1"] zmul_minus [OF assms(1) P(1)] by simp
  moreover have "ShortPoint_neg cv Q \<noteq> Infinity" if "Q \<noteq> Infinity" for Q
    using that by (cases Q) (simp_all add: ShortPoint_neg_def curve_point_def)
  ultimately show "sp_ok cv (ShortPoint_neg_pre cv p)"
    using sp_ok_map [OF assms(2), of "ShortPoint_neg cv"] neg_on_curve [OF ok] P(2) by (simp add: ShortPoint_neg_pre_def)
  show "sp_point (ShortPoint_neg_pre cv p) = ShortPoint_neg cv (sp_point p)" using P(2) by (simp add: ShortPoint_neg_pre_def)
qed

lemma getBeta_ok:
  assumes "curve_group cv" "endo_ok cv en" "sp_ok cv p"
  obtains q where "ShortPoint_getBeta cv (endo_beta en) p = Inr q" "sp_ok cv q"
    "sp_point q = zmul cv (endo_lambda en) (sp_point p)"
proof -
  note ok = curve_group_ok [OF assms(1)]
  let ?f = "endoMul cv (endo_beta en)"
  have P: "on_curve cv (sp_point p)" "sp_point p \<noteq> Infinity" using assms(3) by (simp_all add: sp_ok_def)
  have f: "?f Q = zmul cv (endo_lambda en) Q" "Q \<noteq> Infinity \<Longrightarrow> zmul cv (endo_lambda en) Q \<noteq> Infinity" if "on_curve cv Q" for Q
    using assms(2) that by (simp_all add: endo_ok_def)
  have "?f (zmul cv k (sp_point p)) = zmul cv k (?f (sp_point p))" for k
    using f zmul_closed [OF ok P(1)] P(1) zmul_mult [OF assms(1) P(1), of "endo_lambda en" k]
      zmul_mult [OF assms(1) P(1), of k "endo_lambda en"] by (simp add: mult.commute)
  then have s: "sp_ok cv \<lparr>sp_point = ?f (sp_point p), precomputed = map_option (map_pre ?f) (precomputed p)\<rparr>"
    using f zmul_closed [OF ok] by (intro sp_ok_map [OF assms(3)]) simp_all
  have "Infinity \<notin> set (pre_points pre)" if "precomputed p = Some pre" for pre
    using assms(3) that
    by (cases "pre_naf pre"; cases "pre_doubles pre") (auto simp: sp_ok_def pre_points_def naf_of_def doubles_of_def)
  then have "ShortPoint_getBeta cv (endo_beta en) p =
      Inr \<lparr>sp_point = ?f (sp_point p), precomputed = map_option (map_pre ?f) (precomputed p)\<rparr>"
    using P(2) by (auto simp: ShortPoint_getBeta_def)
  then show thesis by (rule that) (use s f P in simp_all)
qed

lemma endo_pair:
  assumes "curve_group cv" "endo_ok cv en" "sp_ok cv p"
  obtains pr where "endo_pair cv en (p, k) = Inr pr" "pair_ok cv pr" "pair_value cv pr = zmul cv k (sp_point p)"
proof -
  let ?P = "sp_point p" and ?l = "endo_lambda en"
  have P: "on_curve cv ?P" using assms(3) by (simp add: sp_ok_def)
  obtain k1 k2 where k: "endoSplit cv en k = (k1, k2)" by (metis prod.exhaust)
  obtain q where q: "ShortPoint_getBeta cv (endo_beta en) p = Inr q" "sp_ok cv q" "sp_point q = zmul cv ?l ?P"
    using getBeta_ok [OF assms] .
  have Q: "on_curve cv (sp_point q)" using q(2) by (simp add: sp_ok_def)
  define pr where "pr = (if k1 < 0 then (ShortPoint_neg_pre cv p, - k1) else (p, k1),
            if k2 < 0 then (ShortPoint_neg_pre cv q, - k2) else (q, k2))"
  have 1: "endo_pair cv en (p, k) = Inr pr" using k q(1) by (simp add: endo_pair_def pr_def)
  have 2: "pair_ok cv pr" using neg_pre_ok [OF assms(1)] assms(3) q(2) by (simp add: pair_ok_def pr_def split: prod.splits)
  have n: "zmul cv (- m) (ShortPoint_neg cv R) = zmul cv m R" if "on_curve cv R" for m R
    using zmul_mult [OF assms(1) that, of "- m" "- 1"] zmul_minus [OF assms(1) that, of 1] by simp
  have "pair_value cv pr = ShortPoint_add cv (zmul cv k1 ?P) (zmul cv k2 (sp_point q))"
    using neg_pre_ok(2) [OF assms(1)] assms(3) q(2) n [OF P] n [OF Q] by (simp add: pair_value_def pr_def split: prod.splits)
  also have "\<dots> = zmul cv (k1 + k2 * ?l) ?P"
    using zmul_add [OF assms(1) P] zmul_mult [OF assms(1) P] q(3) by simp
  also have "\<dots> = zmul cv k ?P"
    using zmul_cong [OF assms(1) P _ endoSplit [OF assms(2) k]] assms(2) P by (simp add: endo_ok_def)
  finally show thesis using that [OF 1 2] by simp
qed

lemma endoWnafMulAdd:
  assumes "curve_group cv" "endo_ok cv en" "\<forall>pk \<in> set pks. sp_ok cv (fst pk)"
  shows "\<exists>acc. endoWnafMulAdd cv en pks = Inr acc \<and> jrep cv acc (psum cv (map (\<lambda>(p, k). zmul cv k (sp_point p)) pks))"
proof -
  have "\<exists>prs. endo_pairs cv en pks = Inr prs \<and> (\<forall>pr \<in> set prs. pair_ok cv pr) \<and>
      map (pair_value cv) prs = map (\<lambda>(p, k). zmul cv k (sp_point p)) pks"
    using assms(3)
  proof (induction pks)
    case (Cons pk pks)
    obtain p k where pk: "pk = (p, k)" by (cases pk)
    have "sp_ok cv p" using Cons.prems pk by simp
    then obtain pr where "endo_pair cv en (p, k) = Inr pr" "pair_ok cv pr" "pair_value cv pr = zmul cv k (sp_point p)"
      by (rule endo_pair [OF assms(1,2)])
    then show ?case using Cons pk by auto
  qed simp
  then show ?thesis using wnafMulAdd [OF assms(1)] unfolding endoWnafMulAdd_def by (metis order_refl rbind_Inr)
qed

section \<open>Multiples\<close>

definition curve_mul_ok :: "short_curve \<Rightarrow> bool" where
  "curve_mul_ok cv \<longleftrightarrow> curve_group cv \<and> (\<forall>en. c_endo cv = Some en \<longrightarrow> endo_ok cv en)"

lemma ShortPoint_mul_zmul:
  assumes "curve_mul_ok cv" "sp_ok cv p" "0 \<le> k"
  shows "ShortPoint_mul cv p k = Inr (zmul cv k (sp_point p))"
proof -
  have g: "curve_group cv" and P: "on_curve cv (sp_point p)" using assms by (simp_all add: curve_mul_ok_def sp_ok_def)
  show ?thesis
  proof (cases "hasDoubles p k")
    case True
    then obtain step ps where d: "doubles_of p = Some (step, ps)" by (auto simp: hasDoubles_def split: option.splits)
    then have "doubles_ok cv step ps (sp_point p)" using assms(2) by (simp add: sp_ok_def)
    then show ?thesis using True fixedNafMul [OF g P d _ assms(3)] by (simp add: ShortPoint_mul_def)
  next
    case False
    show ?thesis
    proof (cases "c_endo cv")
      case None
      then show ?thesis using False wnafMul [OF g assms(2,3)] by (simp add: ShortPoint_mul_def)
    next
      case (Some en)
      then obtain acc where "endoWnafMulAdd cv en [(p, k)] = Inr acc" "jrep cv acc (zmul cv k (sp_point p))"
        using endoWnafMulAdd [OF g, of en "[(p, k)]"] assms(1,2) by (auto simp: curve_mul_ok_def)
      then show ?thesis using False Some jrep_toP [OF curve_group_ok [OF g]] by (simp add: ShortPoint_mul_def)
    qed
  qed
qed

lemma ShortPoint_mulAdd_zmul:
  assumes "curve_mul_ok cv" "sp_ok cv p" "sp_ok cv q" "0 \<le> k" "0 \<le> l"
  shows "ShortPoint_mulAdd cv p k q l = Inr (ShortPoint_add cv (zmul cv k (sp_point p)) (zmul cv l (sp_point q)))"
proof -
  have g: "curve_group cv" using assms by (simp add: curve_mul_ok_def)
  have "\<exists>acc. ShortPoint_jmulAdd cv p k q l = Inr acc \<and>
      jrep cv acc (ShortPoint_add cv (zmul cv k (sp_point p)) (zmul cv l (sp_point q)))"
  proof (cases "c_endo cv")
    case None
    then show ?thesis using wnafMulAdd [OF g, of "[((p, k), (q, l))]" 1] assms(2-5)
      by (simp add: ShortPoint_jmulAdd_def pair_ok_def pair_value_def)
  next
    case (Some en)
    then show ?thesis using endoWnafMulAdd [OF g, of en "[(p, k), (q, l)]"] assms(1-3)
      by (simp add: ShortPoint_jmulAdd_def curve_mul_ok_def)
  qed
  then show ?thesis using jrep_toP [OF curve_group_ok [OF g]] by (auto simp: ShortPoint_mulAdd_def)
qed

lemma sp_ok_plain: "on_curve cv P \<Longrightarrow> P \<noteq> Infinity \<Longrightarrow> sp_ok cv (plain P)"
  by (simp add: sp_ok_def plain_def naf_of_def doubles_of_def)

text \<open>
  C13: The routines that multiply points compute multiples.  On a curve with an associative addition and, if it has one, a
  correct endomorphism, for every affine point of the curve, with or without (correct) tables of doubles and odd multiples,
  and every non-negative \<open>k\<close>: \<open>mul\<close> returns the \<open>k\<close>-fold sum of the point, whichever of \<open>_fixedNafMul\<close>, \<open>_endoWnafMulAdd\<close>
  and \<open>_wnafMul\<close> it takes, and \<open>mulAdd\<close> the sum of two multiples.  The point at infinity cannot be multiplied on a curve
  with an endomorphism: \<open>mul\<close> throws a \<open>TypeError\<close>.
\<close>
theorem point_mul_correct:
  assumes "curve_mul_ok cv" "sp_ok cv p" "sp_ok cv q" "0 \<le> k" "0 \<le> l"
  shows "ShortPoint_mul cv p k = Inr (zmul cv k (sp_point p)) \<and>
    ShortPoint_mulAdd cv p k q l = Inr (ShortPoint_add cv (zmul cv k (sp_point p)) (zmul cv l (sp_point q))) \<and>
    (c_endo cv \<noteq> None \<longrightarrow> (\<exists>m. ShortPoint_mul cv (plain Infinity) k = Inl (TypeError m)))"
proof -
  have "\<exists>m. ShortPoint_mul cv (plain Infinity) k = Inl (TypeError m)" if "c_endo cv = Some en" for en
    using that by (simp add: ShortPoint_mul_def hasDoubles_def doubles_of_def plain_def endoWnafMulAdd_def endo_pair_def
        ShortPoint_getBeta_def split: prod.splits)
  then show ?thesis using ShortPoint_mul_zmul [OF assms(1,2,4)] ShortPoint_mulAdd_zmul [OF assms] by blast
qed

section \<open>The small curve\<close>

lemma zmul_points7:
  assumes "i < 13"
  shows "zmul curve7 (int n) (points7 ! i) = points7 ! (n * i mod 13)"
proof (induction n)
  case (Suc n)
  have "on_curve curve7 (points7 ! i)" using assms by (simp add: on_curve7)
  then have "zmul curve7 (int n + 1) (points7 ! i) = ShortPoint_add curve7 (points7 ! i) (zmul curve7 (int n) (points7 ! i))"
    by (rule zmul_Suc [OF curve7_group])
  also have "\<dots> = points7 ! ((i + n * i mod 13) mod 13)" using Suc assms add_points7 by simp
  finally show ?case by (simp add: mod_simps add.commute)
qed (simp add: nth_points7)

lemma endo7_table: "\<forall>i\<in>set [0..<13]. endoMul curve7 2 (points7 ! i) = points7 ! (3 * i mod 13) \<and> (i \<noteq> 0 \<longrightarrow> points7 ! (3 * i mod 13) \<noteq> Infinity)"
  by code_simp

lemma curve7_mul_ok: "curve_mul_ok curve7"
proof -
  have "endo_ok curve7 en" if en: "c_endo curve7 = Some en" for en
    unfolding endo_ok_def
  proof (intro conjI allI impI)
    have e: "endo_beta en = 2" "endo_lambda en = 3" "endo_v1 en = (1, 4)" "endo_v2 en = (4, 3)" "c_n curve7 = 13"
      using en by (auto simp: curve7_def)
    show "c_n curve7 dvd fst (endo_v1 en) + snd (endo_v1 en) * endo_lambda en"
      "c_n curve7 dvd fst (endo_v2 en) + snd (endo_v2 en) * endo_lambda en" by (simp_all add: e)
    fix P
    assume "on_curve curve7 P"
    then obtain i where i: "i < 13" "P = points7 ! i" unfolding on_curve7 in_set_conv_nth length_points7 by blast
    have t: "endoMul curve7 2 (points7 ! i) = points7 ! (3 * i mod 13)" "i \<noteq> 0 \<Longrightarrow> points7 ! (3 * i mod 13) \<noteq> Infinity"
      using endo7_table [THEN bspec, of i] i(1) by (simp_all only: set_upt atLeastLessThan_iff zero_le simp_thms)
    show "zmul curve7 (c_n curve7) P = Infinity"
      using zmul_points7 [OF i(1), of 13] i(2) e(5) by (simp add: nth_points7)
    show "endoMul curve7 (endo_beta en) P = zmul curve7 (endo_lambda en) P"
      using t(1) zmul_points7 [OF i(1), of 3] i(2) e by simp
    assume "P \<noteq> Infinity"
    then have "i \<noteq> 0" using i(2) nth_points7(1) by metis
    then show "zmul curve7 (endo_lambda en) P \<noteq> Infinity"
      using t(2) zmul_points7 [OF i(1), of 3] i(2) e by simp
  qed
  then show ?thesis using curve7_group by (simp add: curve_mul_ok_def)
qed

text \<open>The generator with a table of odd multiples up to 3.\<close>

definition G7_pre :: short_point where
  "G7_pre = \<lparr>sp_point = G7, precomputed = Some \<lparr>pre_doubles = Some (2, [Affine 1 2, Affine 4 5, Affine 2 2]),
     pre_naf = Some (2, [Affine 1 2, Affine 2 2, Affine 3 3])\<rparr>\<rparr>"

lemma G7_pre_ok: "sp_ok curve7 G7_pre"
proof -
  have z: "zmul curve7 (int n) G7 = points7 ! (n mod 13)" for n using zmul_points7 [of 1 n] by (simp add: nth_points7)
  have "ps ! i = zmul curve7 (int (2 * i + 1)) G7"
    if "int (2 * i + 1) < 2 ^ 2" "ps = [Affine 1 2, Affine 2 2, Affine 3 3]" for i ps
  proof -
    have "i = 0 \<or> i = 1" using that(1) by auto
    then show ?thesis unfolding z that(2) by (auto simp: points7_def)
  qed
  moreover have "ps ! j = zmul curve7 (2 ^ (2 * j)) G7" if "j < 3" "ps = [Affine 1 2, Affine 4 5, Affine 2 2]" for j ps
  proof -
    have e: "(2 :: int) ^ (2 * j) = int (2 ^ (2 * j))" by simp
    have "j = 0 \<or> j = 1 \<or> j = 2" using that(1) by linarith
    then show ?thesis unfolding e z that(2) by (auto simp: points7_def)
  qed
  moreover have "\<forall>P \<in> set [Affine 1 2, Affine 2 2, Affine 3 3, Affine 4 5]. on_curve curve7 P"
    by (simp add: on_curve7 points7_def)
  ultimately show ?thesis
    by (auto simp: sp_ok_def G7_pre_def naf_of_def doubles_of_def table_ok_def doubles_ok_def G7_def)
qed

theorem point_mul_correct_witness:
  "ShortPoint_mul curve7 G7_pre 11 = Inr (zmul curve7 11 G7) \<and>
   ShortPoint_mulAdd curve7 G7_pre 5 (plain (Affine 3 3)) 9 =
     Inr (ShortPoint_add curve7 (zmul curve7 5 G7) (zmul curve7 9 (Affine 3 3))) \<and>
   (\<exists>m. ShortPoint_mul curve7 (plain Infinity) 11 = Inl (TypeError m))"
proof -
  have q: "sp_ok curve7 (plain (Affine 3 3))" by (rule sp_ok_plain) (simp_all add: on_curve7 points7_def)
  show ?thesis
    using point_mul_correct [OF curve7_mul_ok G7_pre_ok q, of 11 9] point_mul_correct [OF curve7_mul_ok G7_pre_ok q, of 5 9]
    by (simp add: G7_pre_def plain_def curve7_def [THEN arg_cong [where f = c_endo]])
qed

end
