(* ===== verification/Keys.thy ===== *)
theory Keys
  imports CurveMul Addresses
begin

text \<open>
  \<open>Point\<close>, \<open>PublicKey\<close> and \<open>PrivateKey\<close> of magnachain.js on a curve with a generator: the checks of a point, the forms of a
  public key, the forms of a private key.  The source fixes the curve to secp256k1; here it is the record \<open>ec_params\<close>, so
  that the functions run on small curves too.  Networks are looked up in the registry \<open>st\<close>.
\<close>

section \<open>The curve\<close>

record ec_params =
  ec_curve :: short_curve
  ec_g :: short_point

abbreviation ec_n :: "ec_params \<Rightarrow> int" where
  "ec_n ec \<equiv> c_n (ec_curve ec)"

definition secp256k1 :: short_curve where
  "secp256k1 =
     \<lparr>c_red = Red_named K256, c_a = 0, c_b = 7,
      c_n = 0xfffffffffffffffffffffffffffffffebaaedce6af48a03bbfd25e8cd0364141,
      c_endo = Some
        \<lparr>endo_beta = 0x7ae96a2b657c07106e64479eac3434e99cf0497512f58995c1396c28719501ee,
         endo_lambda = 0x5363ad4cc05c30e0a5261c028812645a122e22ea20816678df02967c1b23bd72,
         endo_v1 = (0x3086d221a7d46bcde86c90e49284eb15, - 0xe4437ed6010e88286f547fa90abfe4c3),
         endo_v2 = (0x114ca50f7a8e2f3f657c1108d9d44cfd8, 0x3086d221a7d46bcde86c90e49284eb15)\<rparr>\<rparr>"

definition secp256k1_g :: point where
  "secp256k1_g =
     curve_point secp256k1
       0x79be667ef9dcbbac55a06295ce870b07029bfcdb2dce28d959f2815b16f81798
       0x483ada7726a3c4655da4fbfc0e1108a8fd17b448a68554199c47d08ffb10d4b8"

text \<open>The tables of the generator are the argument \<open>pre\<close>.\<close>

definition ec_secp256k1 :: "precomp \<Rightarrow> ec_params" where
  "ec_secp256k1 pre =
     \<lparr>ec_curve = secp256k1, ec_g = \<lparr>sp_point = secp256k1_g, precomputed = Some pre\<rparr>\<rparr>"

section \<open>Point\<close>

text \<open>\<open>new BN(array)\<close>.\<close>

definition BN_initArray :: "bytes \<Rightarrow> int" where
  "BN_initArray b = int (be_val b)"

text \<open>The coordinates; the point at infinity has \<open>null\<close>.\<close>

definition Point_getX :: "point \<Rightarrow> int result" where
  "Point_getX P = (case P of Infinity \<Rightarrow> Inl (TypeError ''Cannot read property 'fromRed' of null'') | Affine x y \<Rightarrow> Inr x)"

definition Point_getY :: "point \<Rightarrow> int result" where
  "Point_getY P = (case P of Infinity \<Rightarrow> Inl (TypeError ''Cannot read property 'fromRed' of null'') | Affine x y \<Rightarrow> Inr y)"

definition Point_validate :: "ec_params \<Rightarrow> short_point \<Rightarrow> unit result" where
  "Point_validate ec p =
     (case sp_point p of
        Infinity \<Rightarrow> Inl (PlainError ''Point cannot be equal to Infinity'')
      | Affine x y \<Rightarrow>
          (case ShortCurve_pointFromX (ec_curve ec) x (odd y) of
             Inl _ \<Rightarrow> Inl (PlainError ''Point does not lie on the curve'')
           | Inr p2 \<Rightarrow>
               if Point_getY p2 \<noteq> Inr y then Inl (PlainError ''Invalid y value for curve.'')
               else
                 rbind (ShortPoint_mul (ec_curve ec) p (ec_n ec)) (\<lambda>q.
                   check (q = Infinity) (PlainError ''Point times N must be infinity''))))"

text \<open>\<open>toRed\<close> asserts that its argument is not negative; the assertion is caught.\<close>

definition new_Point :: "ec_params \<Rightarrow> int \<Rightarrow> int \<Rightarrow> short_point result" where
  "new_Point ec x y =
     (if x < 0 \<or> y < 0 then Inl (PlainError ''Invalid Point'')
      else let p = plain (curve_point (ec_curve ec) x y) in rbind (Point_validate ec p) (\<lambda>_. Inr p))"

definition Point_fromX :: "ec_params \<Rightarrow> bool \<Rightarrow> int \<Rightarrow> short_point result" where
  "Point_fromX ec isodd x =
     (case (if x < 0 then Inl (PlainError ''red works only with positives'') else ShortCurve_pointFromX (ec_curve ec) x isodd) of
        Inl _ \<Rightarrow> Inl (PlainError ''Invalid X'')
      | Inr P \<Rightarrow> rbind (Point_validate ec (plain P)) (\<lambda>_. Inr (plain P)))"

definition last_odd :: "bytes \<Rightarrow> bool" where
  "last_odd b = odd (unat (b ! (length b - 1)))"

definition Point_pointToCompressed :: "point \<Rightarrow> bytes result" where
  "Point_pointToCompressed P =
     rbind (Point_getX P) (\<lambda>x. rbind (Point_getY P) (\<lambda>y.
       let xbuf = BN_toBuffer x 32 False; ybuf = BN_toBuffer y 32 False
       in Inr (Buffer_concat [[if last_odd ybuf then 3 else 2], xbuf])))"

section \<open>Data of the keys\<close>

record public_key =
  pk_point :: short_point
  pk_compressed :: bool
  pk_network :: network

record private_key =
  priv_bn :: int
  priv_compressed :: bool
  priv_network :: network

text \<open>
  The arguments of the constructors, by what \<open>instanceof\<close> and \<open>typeof\<close> tell apart.  \<open>PKObject\<close> has the hexadecimal
  coordinates and \<open>compressed\<close>; \<open>SKObject\<close> the hexadecimal number, \<open>compressed\<close> and the network; their strings are not
  empty, and consist of hexadecimal digits.
\<close>

datatype pk_data =
    PKPublicKey public_key
  | PKPoint short_point
  | PKObject string string "bool option"
  | PKString string
  | PKBuffer bytes
  | PKPrivateKey private_key
  | PKOther

datatype sk_data =
    SKPrivateKey private_key
  | SKUndefined
  | SKBN int
  | SKBuffer bytes
  | SKObject string bool net_arg
  | SKString string
  | SKOther net_arg

section \<open>Public keys\<close>

text \<open>\<open>info\<close> of the constructor, and the end of the constructor.\<close>

record pk_info =
  pi_point :: short_point
  pi_compressed :: bool
  pi_network :: "network option"

definition extra_network :: "net_state \<Rightarrow> net_arg \<Rightarrow> network option" where
  "extra_network st net = (if net = ArgUndefined then None else Networks_get st net None)"

definition PublicKey_of_info :: "ec_params \<Rightarrow> pk_info \<Rightarrow> public_key result" where
  "PublicKey_of_info ec info =
     rbind (Point_validate ec (pi_point info)) (\<lambda>_.
       Inr \<lparr>pk_point = pi_point info, pk_compressed = pi_compressed info,
            pk_network = or_else (pi_network info) defaultNetwork\<rparr>)"

text \<open>\<open>new PublicKey(point, {compressed, network})\<close>.\<close>

definition PublicKey_of_point ::
    "ec_params \<Rightarrow> net_state \<Rightarrow> short_point \<Rightarrow> bool option \<Rightarrow> net_arg \<Rightarrow> public_key result" where
  "PublicKey_of_point ec st p compressed net =
     PublicKey_of_info ec
       \<lparr>pi_point = p, pi_compressed = or_else compressed True, pi_network = extra_network st net\<rparr>"

definition PublicKey_transformPrivateKey :: "ec_params \<Rightarrow> private_key \<Rightarrow> pk_info result" where
  "PublicKey_transformPrivateKey ec k =
     rbind (ShortPoint_mul (ec_curve ec) (ec_g ec) (priv_bn k)) (\<lambda>P.
       Inr \<lparr>pi_point = plain P, pi_compressed = priv_compressed k, pi_network = Some (priv_network k)\<rparr>)"

definition PublicKey_transformX :: "ec_params \<Rightarrow> bool \<Rightarrow> int \<Rightarrow> short_point result" where
  "PublicKey_transformX ec isodd x = Point_fromX ec isodd x"

definition PublicKey_transformDER :: "ec_params \<Rightarrow> bytes \<Rightarrow> bool \<Rightarrow> (short_point \<times> bool) result" where
  "PublicKey_transformDER ec buf strict =
     (let c = byte_at buf 0 in
      if c = Some 4 \<or> (\<not> strict \<and> (c = Some 6 \<or> c = Some 7)) then
        let xbuf = Buffer_slice buf 1 33; ybuf = Buffer_slice buf 33 65 in
        if length xbuf \<noteq> 32 \<or> length ybuf \<noteq> 32 \<or> length buf \<noteq> 65
        then Inl (TypeError ''Length of x and y must be 32 bytes'')
        else rbind (new_Point ec (BN_initArray xbuf) (BN_initArray ybuf)) (\<lambda>p. Inr (p, False))
      else if c = Some 3 then
        rbind (PublicKey_transformX ec True (BN_initArray (Buffer_slice buf 1 (int (length buf))))) (\<lambda>p. Inr (p, True))
      else if c = Some 2 then
        rbind (PublicKey_transformX ec False (BN_initArray (Buffer_slice buf 1 (int (length buf))))) (\<lambda>p. Inr (p, True))
      else Inl (TypeError ''Invalid DER format public key''))"

text \<open>\<open>_transformObject\<close> returns a public key, so that its network is the default one.\<close>

definition PublicKey_transformObject ::
    "ec_params \<Rightarrow> net_state \<Rightarrow> string \<Rightarrow> string \<Rightarrow> bool option \<Rightarrow> public_key result" where
  "PublicKey_transformObject ec st x y compressed =
     rbind (new_Point ec (BN_parseHex x) (BN_parseHex y)) (\<lambda>p. PublicKey_of_point ec st p compressed ArgUndefined)"

definition PublicKey_classifyArgs ::
    "ec_params \<Rightarrow> net_state \<Rightarrow> pk_data \<Rightarrow> bool option \<Rightarrow> net_arg \<Rightarrow> pk_info result" where
  "PublicKey_classifyArgs ec st data compressed net =
     (case data of
        PKPoint p \<Rightarrow>
          Inr \<lparr>pi_point = p, pi_compressed = or_else compressed True, pi_network = extra_network st net\<rparr>
      | PKObject x y c \<Rightarrow>
          rbind (PublicKey_transformObject ec st x y c) (\<lambda>k.
            Inr \<lparr>pi_point = pk_point k, pi_compressed = pk_compressed k, pi_network = Some (pk_network k)\<rparr>)
      | PKString s \<Rightarrow>
          rbind (PublicKey_transformDER ec (Buffer_from_hex s) True) (\<lambda>(p, c).
            Inr \<lparr>pi_point = p, pi_compressed = c, pi_network = extra_network st net\<rparr>)
      | PKBuffer b \<Rightarrow>
          rbind (PublicKey_transformDER ec b True) (\<lambda>(p, c).
            Inr \<lparr>pi_point = p, pi_compressed = c, pi_network = extra_network st net\<rparr>)
      | PKPrivateKey k \<Rightarrow> PublicKey_transformPrivateKey ec k
      | _ \<Rightarrow> Inl (TypeError ''First argument is an unrecognized data format.''))"

definition new_PublicKey ::
    "ec_params \<Rightarrow> net_state \<Rightarrow> pk_data \<Rightarrow> bool option \<Rightarrow> net_arg \<Rightarrow> public_key result" where
  "new_PublicKey ec st data compressed net =
     (case data of
        PKPublicKey k \<Rightarrow> Inr k
      | _ \<Rightarrow>
          rbind (check (data \<noteq> PKString [])
                   (InvalidArgument ''First argument is required, please include public key data.'')) (\<lambda>_.
          rbind (PublicKey_classifyArgs ec st data compressed net) (PublicKey_of_info ec)))"

definition PublicKey_fromPrivateKey :: "ec_params \<Rightarrow> net_state \<Rightarrow> private_key \<Rightarrow> public_key result" where
  "PublicKey_fromPrivateKey ec st k =
     rbind (PublicKey_transformPrivateKey ec k) (\<lambda>info.
       PublicKey_of_point ec st (pi_point info) (Some (pi_compressed info))
         (case pi_network info of None \<Rightarrow> ArgUndefined | Some n \<Rightarrow> ArgNet n))"

definition PublicKey_fromBuffer :: "ec_params \<Rightarrow> net_state \<Rightarrow> bytes \<Rightarrow> bool \<Rightarrow> public_key result" where
  "PublicKey_fromBuffer ec st buf strict =
     rbind (PublicKey_transformDER ec buf strict) (\<lambda>(p, c). PublicKey_of_point ec st p (Some c) ArgUndefined)"

definition PublicKey_fromPoint :: "ec_params \<Rightarrow> net_state \<Rightarrow> short_point \<Rightarrow> bool option \<Rightarrow> public_key result" where
  "PublicKey_fromPoint ec st p compressed = PublicKey_of_point ec st p compressed ArgUndefined"

definition PublicKey_fromString :: "ec_params \<Rightarrow> net_state \<Rightarrow> string \<Rightarrow> public_key result" where
  "PublicKey_fromString ec st s =
     rbind (PublicKey_transformDER ec (Buffer_from_hex s) True) (\<lambda>(p, c).
       PublicKey_of_point ec st p (Some c) ArgUndefined)"

definition PublicKey_fromX :: "ec_params \<Rightarrow> net_state \<Rightarrow> bool \<Rightarrow> int \<Rightarrow> public_key result" where
  "PublicKey_fromX ec st isodd x =
     rbind (PublicKey_transformX ec isodd x) (\<lambda>p. PublicKey_of_point ec st p None ArgUndefined)"

definition PublicKey_getValidationError :: "ec_params \<Rightarrow> net_state \<Rightarrow> pk_data \<Rightarrow> js_error option" where
  "PublicKey_getValidationError ec st data =
     (case new_PublicKey ec st data None ArgUndefined of Inl e \<Rightarrow> Some e | Inr _ \<Rightarrow> None)"

definition PublicKey_isValid :: "ec_params \<Rightarrow> net_state \<Rightarrow> pk_data \<Rightarrow> bool" where
  "PublicKey_isValid ec st data \<longleftrightarrow> PublicKey_getValidationError ec st data = None"

definition PublicKey_toObject :: "public_key \<Rightarrow> (string \<times> string \<times> bool) result" where
  "PublicKey_toObject k =
     rbind (Point_getX (sp_point (pk_point k))) (\<lambda>x. rbind (Point_getY (sp_point (pk_point k))) (\<lambda>y.
       Inr (BN_toString16_2 x, BN_toString16_2 y, pk_compressed k)))"

definition PublicKey_toBuffer :: "public_key \<Rightarrow> bytes result" where
  "PublicKey_toBuffer k =
     rbind (Point_getX (sp_point (pk_point k))) (\<lambda>x. rbind (Point_getY (sp_point (pk_point k))) (\<lambda>y.
       let xbuf = BN_toBuffer x 32 False; ybuf = BN_toBuffer y 32 False in
       if \<not> pk_compressed k then Inr (Buffer_concat [[4], xbuf, ybuf])
       else Inr (Buffer_concat [[if last_odd ybuf then 3 else 2], xbuf])))"

definition PublicKey_getID :: "public_key \<Rightarrow> bytes result" where
  "PublicKey_getID k = rbind (PublicKey_toBuffer k) (\<lambda>b. Inr (Hash_sha256ripemd160 b))"

definition PublicKey_toAddress :: "(bytes \<Rightarrow> bool) \<Rightarrow> net_state \<Rightarrow> public_key \<Rightarrow> net_arg \<Rightarrow> address result" where
  "PublicKey_toAddress pkv st k net =
     rbind (PublicKey_toBuffer k) (\<lambda>b.
       Address_fromPublicKey pkv st b (if truthy_net net then net else ArgNet (pk_network k)))"

definition PublicKey_toString :: "public_key \<Rightarrow> string result" where
  "PublicKey_toString k = rbind (PublicKey_toBuffer k) (\<lambda>b. Inr (hexSlice b))"

definition PublicKey_inspect :: "public_key \<Rightarrow> string result" where
  "PublicKey_inspect k =
     rbind (PublicKey_toString k) (\<lambda>s.
       Inr (''<PublicKey: '' @ s @ (if pk_compressed k then [] else '', uncompressed'') @ ''>''))"

section \<open>Private keys\<close>

text \<open>
  \<open>_getRandomBN\<close> on the buffers that \<open>Random.getRandomBuffer(32)\<close> returns; \<open>None\<close> when none of them gives a number below
  \<open>n\<close>.  The functions below that may draw a number have it as the argument \<open>rnd\<close>.
\<close>

fun PrivateKey_getRandomBN :: "ec_params \<Rightarrow> bytes list \<Rightarrow> int option" where
  "PrivateKey_getRandomBN ec [] = None"
| "PrivateKey_getRandomBN ec (privbuf # rest) =
     (let bn = BN_fromBuffer privbuf False in if bn < ec_n ec then Some bn else PrivateKey_getRandomBN ec rest)"

record sk_info =
  si_bn :: int
  si_compressed :: bool
  si_network :: "network option"

definition PrivateKey_transformBNBuffer :: "net_state \<Rightarrow> bytes \<Rightarrow> net_arg \<Rightarrow> sk_info" where
  "PrivateKey_transformBNBuffer st buf net =
     \<lparr>si_bn = BN_fromBuffer buf False, si_compressed = False,
      si_network = Some (or_else (Networks_get st net None) defaultNetwork)\<rparr>"

definition PrivateKey_transformBuffer :: "net_state \<Rightarrow> bytes \<Rightarrow> net_arg \<Rightarrow> sk_info result" where
  "PrivateKey_transformBuffer st buf net =
     (if length buf = 32 then Inr (PrivateKey_transformBNBuffer st buf net)
      else
        case Networks_get st (case byte_at buf 0 of None \<Rightarrow> ArgUndefined | Some v \<Rightarrow> ArgNum v) (Some [''privatekey'']) of
          None \<Rightarrow> Inl (PlainError ''Invalid network'')
        | Some n \<Rightarrow>
            if truthy_net net \<and> Some n \<noteq> Networks_get st net None
            then Inl (TypeError ''Private key network mismatch'')
            else if length buf = 1 + 32 + 1 \<and> byte_at buf (1 + 32 + 1 - 1) = Some 1
            then Inr \<lparr>si_bn = BN_fromBuffer (Buffer_slice buf 1 33) False, si_compressed = True, si_network = Some n\<rparr>
            else if length buf = 1 + 32
            then Inr \<lparr>si_bn = BN_fromBuffer (Buffer_slice buf 1 33) False, si_compressed = False, si_network = Some n\<rparr>
            else Inl (PlainError ''Length of buffer must be 33 (uncompressed) or 34 (compressed)''))"

definition PrivateKey_transformWIF :: "net_state \<Rightarrow> string \<Rightarrow> net_arg \<Rightarrow> sk_info result" where
  "PrivateKey_transformWIF st s net = rbind (Base58Check_decode s) (\<lambda>b. PrivateKey_transformBuffer st b net)"

definition PrivateKey_transformObject :: "net_state \<Rightarrow> string \<Rightarrow> bool \<Rightarrow> net_arg \<Rightarrow> sk_info" where
  "PrivateKey_transformObject st bn compressed net =
     \<lparr>si_bn = BN_parseHex bn, si_compressed = compressed, si_network = Networks_get st net None\<rparr>"

text \<open>A datum that is the name, or another key, of a network asks for a random key of that network.\<close>

definition PrivateKey_classifyArguments ::
    "net_state \<Rightarrow> int \<Rightarrow> sk_data \<Rightarrow> net_arg \<Rightarrow> sk_info result" where
  "PrivateKey_classifyArguments st rnd data net =
     (let info = (\<lambda>bn. \<lparr>si_bn = bn, si_compressed = True,
                    si_network = (if truthy_net net then Networks_get st net None else Some defaultNetwork)\<rparr>);
          named = (\<lambda>arg. \<not> truthy_net net \<and> Networks_get st arg None \<noteq> None);
          random_of = (\<lambda>arg. (info rnd)\<lparr>si_network := Networks_get st arg None\<rparr>)
      in case data of
           SKUndefined \<Rightarrow> Inr (info rnd)
         | SKBN bn \<Rightarrow> Inr (info bn)
         | SKBuffer b \<Rightarrow> PrivateKey_transformBuffer st b net
         | SKObject bn compressed n \<Rightarrow> Inr (PrivateKey_transformObject st bn compressed n)
         | SKString s \<Rightarrow>
             if named (ArgStr s) then Inr (random_of (ArgStr s))
             else if isHexa s then Inr (info (BN_initArray (Buffer_from_hex s)))
             else PrivateKey_transformWIF st s net
         | SKOther arg \<Rightarrow>
             if named arg then Inr (random_of arg)
             else Inl (TypeError ''First argument is an unrecognized data type.'')
         | SKPrivateKey k \<Rightarrow> Inl (TypeError ''First argument is an unrecognized data type.''))"

definition PrivateKey_of_info :: "ec_params \<Rightarrow> sk_info \<Rightarrow> private_key result" where
  "PrivateKey_of_info ec info =
     (if si_bn info = 0 then Inl (TypeError ''Number can not be equal to zero, undefined, null or false'')
      else if \<not> si_bn info < ec_n ec then Inl (TypeError ''Number must be less than N'')
      else
        case si_network info of
          None \<Rightarrow> Inl (TypeError ''Must specify the network (\"livenet\" or \"testnet\")'')
        | Some n \<Rightarrow> Inr \<lparr>priv_bn = si_bn info, priv_compressed = si_compressed info, priv_network = n\<rparr>)"

definition new_PrivateKey ::
    "ec_params \<Rightarrow> net_state \<Rightarrow> int \<Rightarrow> sk_data \<Rightarrow> net_arg \<Rightarrow> private_key result" where
  "new_PrivateKey ec st rnd data net =
     (case data of
        SKPrivateKey k \<Rightarrow> Inr k
      | _ \<Rightarrow> rbind (PrivateKey_classifyArguments st rnd data net) (PrivateKey_of_info ec))"

definition PrivateKey_fromString :: "ec_params \<Rightarrow> net_state \<Rightarrow> int \<Rightarrow> string \<Rightarrow> private_key result" where
  "PrivateKey_fromString ec st rnd s = new_PrivateKey ec st rnd (SKString s) ArgUndefined"

definition PrivateKey_fromBuffer :: "ec_params \<Rightarrow> net_state \<Rightarrow> int \<Rightarrow> bytes \<Rightarrow> net_arg \<Rightarrow> private_key result" where
  "PrivateKey_fromBuffer ec st rnd b net = new_PrivateKey ec st rnd (SKBuffer b) net"

definition PrivateKey_fromObject :: "ec_params \<Rightarrow> net_state \<Rightarrow> int \<Rightarrow> string \<Rightarrow> bool \<Rightarrow> string \<Rightarrow> private_key result" where
  "PrivateKey_fromObject ec st rnd bn compressed net =
     new_PrivateKey ec st rnd (SKObject bn compressed (ArgStr net)) ArgUndefined"

definition PrivateKey_fromRandom :: "ec_params \<Rightarrow> net_state \<Rightarrow> bytes list \<Rightarrow> net_arg \<Rightarrow> private_key result option" where
  "PrivateKey_fromRandom ec st bufs net =
     map_option (\<lambda>bn. new_PrivateKey ec st bn (SKBN bn) net) (PrivateKey_getRandomBN ec bufs)"

definition PrivateKey_getValidationError ::
    "ec_params \<Rightarrow> net_state \<Rightarrow> int \<Rightarrow> sk_data \<Rightarrow> net_arg \<Rightarrow> js_error option" where
  "PrivateKey_getValidationError ec st rnd data net =
     (case new_PrivateKey ec st rnd data net of Inl e \<Rightarrow> Some e | Inr _ \<Rightarrow> None)"

definition PrivateKey_isValid :: "ec_params \<Rightarrow> net_state \<Rightarrow> int \<Rightarrow> sk_data \<Rightarrow> net_arg \<Rightarrow> bool" where
  "PrivateKey_isValid ec st rnd data net \<longleftrightarrow>
     (case data of SKUndefined \<Rightarrow> False | SKString s \<Rightarrow> s \<noteq> [] | SKOther arg \<Rightarrow> truthy_net arg | _ \<Rightarrow> True) \<and>
     PrivateKey_getValidationError ec st rnd data net = None"

definition PrivateKey_toBuffer :: "private_key \<Rightarrow> bytes" where
  "PrivateKey_toBuffer k = BN_toBuffer (priv_bn k) 0 False"

definition PrivateKey_toString :: "private_key \<Rightarrow> string" where
  "PrivateKey_toString k = hexSlice (PrivateKey_toBuffer k)"

definition PrivateKey_toWIF :: "private_key \<Rightarrow> string" where
  "PrivateKey_toWIF k =
     Base58Check_encode
       (if priv_compressed k
        then Buffer_concat [[of_nat (privatekey (priv_network k))], BN_toBuffer (priv_bn k) 32 False, [1]]
        else Buffer_concat [[of_nat (privatekey (priv_network k))], BN_toBuffer (priv_bn k) 32 False])"

definition PrivateKey_toPublicKey :: "ec_params \<Rightarrow> net_state \<Rightarrow> private_key \<Rightarrow> public_key result" where
  "PrivateKey_toPublicKey ec st k = PublicKey_fromPrivateKey ec st k"

definition PrivateKey_toAddress ::
    "ec_params \<Rightarrow> (bytes \<Rightarrow> bool) \<Rightarrow> net_state \<Rightarrow> private_key \<Rightarrow> net_arg \<Rightarrow> address result" where
  "PrivateKey_toAddress ec pkv st k net =
     rbind (PrivateKey_toPublicKey ec st k) (\<lambda>pub. rbind (PublicKey_toBuffer pub) (\<lambda>b.
       Address_fromPublicKey pkv st b (if truthy_net net then net else ArgNet (priv_network k))))"

definition PrivateKey_toObject :: "private_key \<Rightarrow> string \<times> bool \<times> string" where
  "PrivateKey_toObject k =
     ((if priv_bn k < 0 then CHR ''-'' # hex_digits (nat (- priv_bn k)) else hex_digits (nat (priv_bn k))),
      priv_compressed k, net_name (priv_network k))"

definition PrivateKey_inspect :: "private_key \<Rightarrow> string" where
  "PrivateKey_inspect k =
     ''<PrivateKey: '' @ PrivateKey_toString k @ '', network: '' @ net_name (priv_network k) @
       (if priv_compressed k then [] else '', uncompressed'') @ ''>''"

end
