(* ===== verification/KeyProps.thy ===== *)
theory KeyProps
  imports CurveMulProps Keys
begin

text \<open>
  Points, public and private keys: which points \<open>validate\<close> accepts, the bytes of public keys, the range and the strings of
  private keys.  The theorems are on any curve with the properties \<open>ec_ok\<close>; the curve of 13 points has them.
\<close>

section \<open>Curves that can be used\<close>

text \<open>
  What the theorems on keys and signatures assume of the curve: multiplication works (\<open>curve_mul_ok\<close>), the prime is 3 modulo
  4 and fits 32 bytes, the order is a prime that annihilates every point, and the tables of the generator are right.
\<close>

definition ec_ok :: "ec_params \<Rightarrow> bool" where
  "ec_ok ec \<longleftrightarrow>
     curve_mul_ok (ec_curve ec) \<and> c_p (ec_curve ec) mod 4 = 3 \<and> c_p (ec_curve ec) \<le> 2 ^ 256 \<and>
     sp_ok (ec_curve ec) (ec_g ec) \<and> prime_mod (ec_n ec) \<and> ec_n ec \<le> 2 ^ 256 \<and>
     (\<forall>P. on_curve (ec_curve ec) P \<longrightarrow> zmul (ec_curve ec) (ec_n ec) P = Infinity)"

abbreviation gmul :: "ec_params \<Rightarrow> int \<Rightarrow> point" where
  "gmul ec k \<equiv> zmul (ec_curve ec) k (sp_point (ec_g ec))"

lemma ec_okD:
  assumes "ec_ok ec"
  shows "curve_mul_ok (ec_curve ec)" "curve_group (ec_curve ec)" "curve_ok (ec_curve ec)" "c_p (ec_curve ec) mod 4 = 3"
    "c_p (ec_curve ec) \<le> 2 ^ 256" "sp_ok (ec_curve ec) (ec_g ec)" "prime_mod (ec_n ec)" "ec_n ec \<le> 2 ^ 256"
    "on_curve (ec_curve ec) (sp_point (ec_g ec))" "sp_point (ec_g ec) \<noteq> Infinity" "1 < ec_n ec"
  using assms by (simp_all add: ec_ok_def curve_mul_ok_def curve_group_ok sp_ok_def prime_mod_gt)

lemma ec_order: "ec_ok ec \<Longrightarrow> on_curve (ec_curve ec) P \<Longrightarrow> zmul (ec_curve ec) (ec_n ec) P = Infinity"
  by (simp add: ec_ok_def)

lemma ec_zmul_cong:
  assumes "ec_ok ec" "on_curve (ec_curve ec) P" "ec_n ec dvd a - b"
  shows "zmul (ec_curve ec) a P = zmul (ec_curve ec) b P"
  using zmul_cong [OF ec_okD(2) [OF assms(1)] assms(2) ec_order [OF assms(1,2)] assms(3)] .

lemma ec_zmul_mod:
  assumes "ec_ok ec" "on_curve (ec_curve ec) P"
  shows "zmul (ec_curve ec) (a mod ec_n ec) P = zmul (ec_curve ec) a P"
  by (rule ec_zmul_cong [OF assms]) (metis dvd_minus_mod dvd_diff_commute)

text \<open>A multiple of a point is the point at infinity only for multiples of the order.\<close>

lemma zmul_infinity_iff:
  assumes "ec_ok ec" "on_curve (ec_curve ec) P" "P \<noteq> Infinity"
  shows "zmul (ec_curve ec) k P = Infinity \<longleftrightarrow> ec_n ec dvd k"
proof
  let ?z = "zmul (ec_curve ec)"
  note d = ec_okD [OF assms(1)]
  show "?z k P = Infinity" if "ec_n ec dvd k"
    using ec_zmul_cong [OF assms(1,2), of k 0] that by simp
  assume z: "?z k P = Infinity"
  show "ec_n ec dvd k"
  proof (rule ccontr)
    assume "\<not> ec_n ec dvd k"
    then have "coprime k (ec_n ec)" by (rule prime_mod_coprime [OF d(7)])
    then obtain i where "ec_n ec dvd i * k - 1" using BN_invm_inverse [OF d(11), of k] by blast
    then have "?z (i * k) P = P" using ec_zmul_cong [OF assms(1,2), of "i * k" 1] by simp
    then show False using zmul_mult [OF d(2) assms(2), of i k] z assms(3) by simp
  qed
qed

lemma gmul_closed [simp]: "ec_ok ec \<Longrightarrow> on_curve (ec_curve ec) (gmul ec k)"
  by (simp add: zmul_closed ec_okD)

section \<open>Checks of a point\<close>

lemma Point_validate_iff:
  assumes "ec_ok ec" "point_ok (ec_curve ec) P"
  shows "Point_validate ec (plain P) = Inr () \<longleftrightarrow> on_curve (ec_curve ec) P \<and> P \<noteq> Infinity"
proof (cases P)
  case Infinity
  then show ?thesis by (simp add: Point_validate_def plain_def)
next
  case (Affine x y)
  note d = ec_okD [OF assms(1)]
  note fx = pointFromX [OF d(3,4)]
  have n: "0 \<le> ec_n ec" using d(11) by simp
  show ?thesis
  proof
    assume v: "Point_validate ec (plain P) = Inr ()"
    then obtain p2 where p2: "ShortCurve_pointFromX (ec_curve ec) x (odd y) = Inr p2" "Point_getY p2 = Inr y"
      by (auto simp: Point_validate_def plain_def Affine split: sum.splits if_splits)
    then have "on_curve (ec_curve ec) p2" "\<exists>v. p2 = Affine (x mod c_p (ec_curve ec)) v" using fx by blast+
    then show "on_curve (ec_curve ec) P \<and> P \<noteq> Infinity"
      using p2(2) assms(2) by (auto simp: Affine Point_getY_def point_ok_def reduced_mod_id)
  next
    assume P: "on_curve (ec_curve ec) P \<and> P \<noteq> Infinity"
    then have "ShortCurve_pointFromX (ec_curve ec) x (odd y) = Inr (Affine x y)" using fx Affine by blast
    moreover have "ShortPoint_mul (ec_curve ec) (plain P) (ec_n ec) = Inr Infinity"
      using ShortPoint_mul_zmul [OF d(1) sp_ok_plain n] P ec_order [OF assms(1)] by (simp add: plain_def)
    ultimately show "Point_validate ec (plain P) = Inr ()"
      by (simp add: Point_validate_def plain_def Affine Point_getY_def)
  qed
qed

lemma curve_point_ok: "curve_ok cv \<Longrightarrow> point_ok cv (curve_point cv x y)"
  by (simp add: curve_point_def point_ok_def Red_convertTo curve_okD(1))

lemma curve_point_id: "curve_ok cv \<Longrightarrow> on_curve cv (Affine x y) \<Longrightarrow> curve_point cv x y = Affine x y"
  using on_curve_ok [of cv "Affine x y"] by (simp add: curve_point_def point_ok_def Red_convertTo curve_okD(1) reduced_mod_id)

lemma new_Point_iff:
  assumes "ec_ok ec" "0 \<le> x" "0 \<le> y"
  shows "new_Point ec x y = Inr p \<longleftrightarrow>
    p = plain (curve_point (ec_curve ec) x y) \<and> on_curve (ec_curve ec) (curve_point (ec_curve ec) x y)"
proof -
  have "curve_point (ec_curve ec) x y \<noteq> Infinity" by (simp add: curve_point_def)
  then show ?thesis
    using Point_validate_iff [OF assms(1) curve_point_ok [OF ec_okD(3) [OF assms(1)]], of x y] assms(2,3)
    by (auto simp: new_Point_def Let_def rbind_eq_Inr)
qed

lemma Point_fromX_iff:
  assumes "ec_ok ec" "0 \<le> x"
  shows "Point_fromX ec isodd x = Inr p \<longleftrightarrow>
    (\<exists>P. p = plain P \<and> ShortCurve_pointFromX (ec_curve ec) x isodd = Inr P)"
proof -
  have "Point_validate ec (plain P) = Inr ()" if "ShortCurve_pointFromX (ec_curve ec) x isodd = Inr P" for P
  proof -
    have "on_curve (ec_curve ec) P" "P \<noteq> Infinity" using pointFromX [OF ec_okD(3,4) [OF assms(1)]] that by blast+
    then show ?thesis using Point_validate_iff [OF assms(1) on_curve_ok] by blast
  qed
  then show ?thesis using assms(2) by (auto simp: Point_fromX_def split: sum.splits)
qed

section \<open>Public keys\<close>

definition pk_ok :: "ec_params \<Rightarrow> public_key \<Rightarrow> bool" where
  "pk_ok ec k \<longleftrightarrow> (\<exists>P. pk_point k = plain P \<and> on_curve (ec_curve ec) P \<and> P \<noteq> Infinity)"

lemma PublicKey_of_point:
  assumes "ec_ok ec" "on_curve (ec_curve ec) P" "P \<noteq> Infinity"
  shows "PublicKey_of_point ec st (plain P) c net =
    Inr \<lparr>pk_point = plain P, pk_compressed = or_else c True, pk_network = or_else (extra_network st net) defaultNetwork\<rparr>"
  using Point_validate_iff [OF assms(1) on_curve_ok [OF assms(2)]] assms(2,3)
  by (simp add: PublicKey_of_point_def PublicKey_of_info_def)

lemma extra_undefined [simp]: "extra_network st ArgUndefined = None"
  by (simp add: extra_network_def)

lemma toBuffer_32:
  assumes "0 \<le> v" "v < 2 ^ 256"
  shows "length (BN_toBuffer v 32 False) = 32" "int (be_val (BN_toBuffer v 32 False)) = v"
    "last_odd (BN_toBuffer v 32 False) \<longleftrightarrow> odd v"
proof -
  have "(2 :: int) ^ 256 = int (256 ^ 32)" by simp
  then have v: "nat v < 256 ^ 32" using assms nat_less_iff [OF assms(1)] by metis
  have e: "BN_toBuffer v 32 False = rev (le_bytes 32 (nat v))" using assms(1) v by (intro BN_toBuffer_fits) simp_all
  show "length (BN_toBuffer v 32 False) = 32" unfolding e by (simp only: length_rev length_le_bytes)
  show "int (be_val (BN_toBuffer v 32 False)) = v" unfolding e be_val_rev le_val_le_bytes using v assms(1) by simp
  have "last (rev (le_bytes 32 (nat v))) = of_nat (nat v)" 
    by (metis last_rev le_bytes.simps(2) list.sel(1) numeral_eq_Suc)
  moreover have "odd (unat (of_nat (nat v) :: byte)) \<longleftrightarrow> odd v"
    using assms(1) dvd_mod_iff [of 2 256 v] by (simp add: unsigned_of_int take_bit_eq_mod even_nat_iff)
  ultimately show "last_odd (BN_toBuffer v 32 False) \<longleftrightarrow> odd v"
    unfolding last_odd_def e by (metis last_conv_nth length_0_conv length_le_bytes length_rev zero_neq_numeral)
qed

text \<open>The bytes of a key.\<close>

lemma PublicKey_toBuffer_eq:
  assumes "ec_ok ec" "pk_point k = plain (Affine x y)" "on_curve (ec_curve ec) (Affine x y)"
  shows "PublicKey_toBuffer k =
    Inr (if pk_compressed k then (if odd y then 3 else 2) # BN_toBuffer x 32 False
         else 4 # BN_toBuffer x 32 False @ BN_toBuffer y 32 False)"
    and "0 \<le> x" "x < 2 ^ 256" "0 \<le> y" "y < 2 ^ 256"
proof -
  have "reduced (c_red (ec_curve ec)) x" "reduced (c_red (ec_curve ec)) y"
    using on_curve_ok [OF assms(3)] by (simp_all add: point_ok_def)
  then show b: "0 \<le> x" "x < 2 ^ 256" "0 \<le> y" "y < 2 ^ 256" using ec_okD(5) [OF assms(1)] by (auto simp: reduced_def)
  show "PublicKey_toBuffer k =
    Inr (if pk_compressed k then (if odd y then 3 else 2) # BN_toBuffer x 32 False
         else 4 # BN_toBuffer x 32 False @ BN_toBuffer y 32 False)"
    using toBuffer_32(3) [OF b(3,4)] assms(2) by (simp add: PublicKey_toBuffer_def Point_getX_def Point_getY_def plain_def)
qed

lemma slice_1:
  assumes "length xs < 2147483647"
  shows "Buffer_slice (c # xs) 1 (int (length (c # xs))) = xs"
  using Buffer_slice_nat [of 1 "length (c # xs)" "c # xs"] assms by simp

lemma PublicKey_fromBuffer_compressed:
  assumes "ec_ok ec" "length xs < 2147483647"
    and "on_curve (ec_curve ec) (Affine x y)" "int (be_val xs) mod c_p (ec_curve ec) = x"
  shows "PublicKey_fromBuffer ec st ((if odd y then 3 else 2) # xs) strict =
    Inr \<lparr>pk_point = plain (Affine x y), pk_compressed = True, pk_network = defaultNetwork\<rparr>"
proof -
  let ?cv = "ec_curve ec"
  note d = ec_okD [OF assms(1)]
  have "reduced (c_red ?cv) x" using on_curve_ok [OF assms(3)] by (simp add: point_ok_def)
  then have "ShortCurve_pointFromX ?cv (int (be_val xs)) (odd y) = ShortCurve_pointFromX ?cv x (odd y)"
    using assms(4) curve_okD(1) [OF d(3)] by (simp add: ShortCurve_pointFromX_def Red_convertTo reduced_mod_id)
  also have "\<dots> = Inr (Affine x y)" using pointFromX [OF d(3,4)] assms(3) by blast
  finally have "Point_fromX ec (odd y) (int (be_val xs)) = Inr (plain (Affine x y))"
    using Point_fromX_iff [OF assms(1)] by simp
  then show ?thesis
    using PublicKey_of_point [OF assms(1,3)] slice_1 [OF assms(2)]
    by (cases "odd y") (simp_all add: PublicKey_fromBuffer_def PublicKey_transformDER_def PublicKey_transformX_def BN_initArray_def byte_at_def or_else_def)
qed

lemma PublicKey_fromBuffer_full:
  assumes "ec_ok ec" "length xs = 32" "length ys = 32"
    and "on_curve (ec_curve ec) (Affine x y)" "int (be_val xs) = x" "int (be_val ys) = y"
  shows "PublicKey_fromBuffer ec st (4 # xs @ ys) strict =
    Inr \<lparr>pk_point = plain (Affine x y), pk_compressed = False, pk_network = defaultNetwork\<rparr>"
proof -
  have s: "Buffer_slice (4 # xs @ ys) 1 33 = xs" "Buffer_slice (4 # xs @ ys) 33 65 = ys"
    using Buffer_slice_nat [of 1 33 "4 # xs @ ys"] Buffer_slice_nat [of 33 65 "4 # xs @ ys"] assms(2,3) by simp_all
  have "0 \<le> x" "0 \<le> y" using assms(5,6) by auto
  then have "new_Point ec x y = Inr (plain (Affine x y))"
    using new_Point_iff [OF assms(1)] curve_point_id [OF ec_okD(3) [OF assms(1)] assms(4)] assms(4) by simp
  then show ?thesis
    using PublicKey_of_point [OF assms(1,4)] s assms(2,3,5,6)
    by (simp add: PublicKey_fromBuffer_def PublicKey_transformDER_def BN_initArray_def byte_at_def or_else_def)
qed

lemma PublicKey_transformDER_valid:
  assumes "ec_ok ec" "PublicKey_transformDER ec b strict = Inr (p, c)"
  shows "\<exists>P. p = plain P \<and> on_curve (ec_curve ec) P \<and> P \<noteq> Infinity"
proof -
  have X: "\<exists>P. p = plain P \<and> on_curve (ec_curve ec) P \<and> P \<noteq> Infinity"
    if "Point_fromX ec isodd (int m) = Inr p" for isodd m
    using that Point_fromX_iff [OF assms(1), of "int m"] pointFromX [OF ec_okD(3,4) [OF assms(1)]] by fastforce
  have N: "\<exists>P. p = plain P \<and> on_curve (ec_curve ec) P \<and> P \<noteq> Infinity" if "new_Point ec (int l) (int m) = Inr p" for l m
    using that new_Point_iff [OF assms(1), of "int l" "int m"] by (auto simp: curve_point_def)
  show ?thesis using assms(2) X N
    by (auto simp: PublicKey_transformDER_def PublicKey_transformX_def Let_def BN_initArray_def rbind_eq_Inr split: if_splits)
qed

lemma PublicKey_fromBuffer_valid:
  assumes "ec_ok ec" "PublicKey_fromBuffer ec st b strict = Inr k"
  shows "pk_ok ec k \<and> pk_network k = defaultNetwork"
proof -
  obtain p c where t: "PublicKey_transformDER ec b strict = Inr (p, c)" "PublicKey_of_point ec st p (Some c) ArgUndefined = Inr k"
    using assms(2) by (auto simp: PublicKey_fromBuffer_def rbind_eq_Inr)
  obtain P where "p = plain P" "on_curve (ec_curve ec) P" "P \<noteq> Infinity"
    using PublicKey_transformDER_valid [OF assms(1) t(1)] by blast
  then show ?thesis using t(2) PublicKey_of_point [OF assms(1)] by (auto simp: pk_ok_def or_else_def)
qed

lemma public_key_read:
  assumes "ec_ok ec" "on_curve (ec_curve ec) P" "P \<noteq> Infinity"
  shows "\<exists>b. PublicKey_toBuffer \<lparr>pk_point = plain P, pk_compressed = c, pk_network = n\<rparr> = Inr b \<and>
    length b = (if c then 33 else 65) \<and> pubkey_shape b \<and>
    PublicKey_fromBuffer ec st b strict = Inr \<lparr>pk_point = plain P, pk_compressed = c, pk_network = defaultNetwork\<rparr>"
proof -
  obtain x y where P: "P = Affine x y" using assms(3) by (cases P) auto
  let ?k = "\<lparr>pk_point = plain P, pk_compressed = c, pk_network = n\<rparr>"
  have k: "pk_point ?k = plain (Affine x y)" "on_curve (ec_curve ec) (Affine x y)" using P assms(2) by simp_all
  note b = PublicKey_toBuffer_eq [OF assms(1) k]
  note X = toBuffer_32 [OF b(2,3)] and Y = toBuffer_32 [OF b(4,5)]
  have "x mod c_p (ec_curve ec) = x" using on_curve_ok [OF k(2)] by (simp add: point_ok_def reduced_mod_id)
  then show ?thesis
    using b(1) PublicKey_fromBuffer_compressed [OF assms(1), of "BN_toBuffer x 32 False" x y st strict] k(2)
      PublicKey_fromBuffer_full [OF assms(1) X(1) Y(1) k(2) X(2) Y(2), of st strict] X(1,2) Y(1) P
    by (simp add: pubkey_shape_def)
qed

section \<open>Private keys\<close>

lemma getRandomBN:
  "PrivateKey_getRandomBN ec bufs = Some bn \<Longrightarrow> 0 \<le> bn \<and> bn < ec_n ec \<and> (\<exists>b \<in> set bufs. bn = BN_fromBuffer b False)"
  by (induction bufs) (auto simp: Let_def BN_fromBuffer_eq split: if_splits)

text \<open>The keys that buffers, strings, random numbers and non-negative numbers give.\<close>

definition sk_ok :: "ec_params \<Rightarrow> private_key \<Rightarrow> bool" where
  "sk_ok ec k \<longleftrightarrow> 0 < priv_bn k \<and> priv_bn k < ec_n ec"

definition sk_nonneg :: "int \<Rightarrow> sk_data \<Rightarrow> bool" where
  "sk_nonneg rnd data \<longleftrightarrow> 0 \<le> rnd \<and> (case data of SKBN bn \<Rightarrow> 0 \<le> bn | SKObject bn _ _ \<Rightarrow> 0 \<le> BN_parseHex bn | SKPrivateKey k \<Rightarrow> False | _ \<Rightarrow> True)"

lemma classify_nonneg:
  assumes "PrivateKey_classifyArguments st rnd data net = Inr info" "sk_nonneg rnd data"
  shows "0 \<le> si_bn info"
proof -
  have t: "0 \<le> si_bn info" if "PrivateKey_transformBuffer st b net = Inr info" for b
    using that by (auto simp: PrivateKey_transformBuffer_def PrivateKey_transformBNBuffer_def BN_fromBuffer_eq
        split: option.splits if_splits)
  show ?thesis using assms t
    by (auto simp: PrivateKey_classifyArguments_def Let_def sk_nonneg_def BN_initArray_def PrivateKey_transformWIF_def
        PrivateKey_transformObject_def rbind_eq_Inr split: sk_data.splits if_splits)
qed

lemma new_PrivateKey_ok:
  assumes "new_PrivateKey ec st rnd data net = Inr k" "sk_nonneg rnd data"
  shows "sk_ok ec k"
proof -
  obtain info where "PrivateKey_classifyArguments st rnd data net = Inr info" "PrivateKey_of_info ec info = Inr k"
    using assms by (auto simp: new_PrivateKey_def sk_nonneg_def rbind_eq_Inr split: sk_data.splits)
  moreover from this have "0 \<le> si_bn info" using classify_nonneg assms(2) by blast
  ultimately show ?thesis by (auto simp: PrivateKey_of_info_def sk_ok_def split: if_splits option.splits)
qed

lemma fromPrivateKey:
  assumes "ec_ok ec" "sk_ok ec k"
  shows "PublicKey_fromPrivateKey ec st k =
    Inr \<lparr>pk_point = plain (gmul ec (priv_bn k)), pk_compressed = priv_compressed k,
         pk_network = or_else (Networks_get st (ArgNet (priv_network k)) None) defaultNetwork\<rparr>"
    and "gmul ec (priv_bn k) \<noteq> Infinity"
proof -
  note d = ec_okD [OF assms(1)]
  have b: "0 < priv_bn k" "priv_bn k < ec_n ec" using assms(2) by (simp_all add: sk_ok_def)
  then have "\<not> ec_n ec dvd priv_bn k" using zdvd_imp_le [of "ec_n ec" "priv_bn k"] by auto
  then show i: "gmul ec (priv_bn k) \<noteq> Infinity" using zmul_infinity_iff [OF assms(1) d(9,10)] by blast
  have "ShortPoint_mul (ec_curve ec) (ec_g ec) (priv_bn k) = Inr (gmul ec (priv_bn k))"
    using ShortPoint_mul_zmul [OF d(1,6)] b by simp
  then show "PublicKey_fromPrivateKey ec st k =
    Inr \<lparr>pk_point = plain (gmul ec (priv_bn k)), pk_compressed = priv_compressed k,
         pk_network = or_else (Networks_get st (ArgNet (priv_network k)) None) defaultNetwork\<rparr>"
    using PublicKey_of_point [OF assms(1) gmul_closed [OF assms(1)] i]
    by (simp add: PublicKey_fromPrivateKey_def PublicKey_transformPrivateKey_def extra_network_def or_else_def)
qed

text \<open>The bytes of the import format.\<close>

definition wif_bytes :: "private_key \<Rightarrow> bytes" where
  "wif_bytes k = of_nat (privatekey (priv_network k)) # BN_toBuffer (priv_bn k) 32 False @ (if priv_compressed k then [1] else [])"

lemma toWIF_eq: "PrivateKey_toWIF k = Base58Check_encode (wif_bytes k)"
  by (simp add: PrivateKey_toWIF_def wif_bytes_def)

lemma sdk_privatekey: "privatekey livenet = 128" "privatekey testnet = 239"
  by (simp_all add: livenet_def testnet_def new_network_def livenet_data_def testnet_data_def)

lemma get_privatekey:
  assumes "sdk_network n"
  shows "Networks_get initial_networks (ArgNum (privatekey n)) (Some [''privatekey'']) = Some n"
  using assms by (auto simp: sdk_network_def Networks_get_def sdk_networks net_field_def arg_value_def sdk_privatekey)

lemma transformBuffer_wif:
  assumes "ec_ok ec" "sk_ok ec k" "sdk_network (priv_network k)"
    and "\<not> truthy_net net \<or> Networks_get initial_networks net None = Some (priv_network k)"
  shows "PrivateKey_transformBuffer initial_networks (wif_bytes k) net =
    Inr \<lparr>si_bn = priv_bn k, si_compressed = priv_compressed k, si_network = Some (priv_network k)\<rparr>"
proof -
  have "0 \<le> priv_bn k" "priv_bn k < 2 ^ 256" using assms(2) ec_okD(8) [OF assms(1)] by (auto simp: sk_ok_def)
  note b = toBuffer_32 [OF this]
  let ?b = "BN_toBuffer (priv_bn k) 32 False"
  have len: "length (wif_bytes k) = (if priv_compressed k then 34 else 33)" using b(1) by (simp add: wif_bytes_def)
  have v: "privatekey (priv_network k) < 256" using assms(3) by (auto simp: sdk_network_def sdk_privatekey)
  then have "byte_at (wif_bytes k) 0 = Some (privatekey (priv_network k))" by (simp add: byte_at_def wif_bytes_def unat_of_nat_byte)
  moreover have "byte_at (wif_bytes k) 33 = (if priv_compressed k then Some 1 else None)"
    using b(1) by (simp add: byte_at_def wif_bytes_def nth_append)
  moreover have "Buffer_slice (wif_bytes k) 1 33 = ?b"
    using Buffer_slice_nat [of 1 33 "wif_bytes k"] len b(1) by (simp add: wif_bytes_def)
  ultimately show ?thesis
    using len get_privatekey [OF assms(3)] assms(4) b(2)
    by (auto simp: PrivateKey_transformBuffer_def BN_fromBuffer_eq)
qed

lemma of_info_ok:
  assumes "sk_ok ec k"
  shows "PrivateKey_of_info ec \<lparr>si_bn = priv_bn k, si_compressed = priv_compressed k, si_network = Some (priv_network k)\<rparr> = Inr k"
  using assms by (simp add: PrivateKey_of_info_def sk_ok_def)

section \<open>Lengths of strings\<close>

lemma carry_small:
  assumes "list_all (\<lambda>d. d < 256) ds" "c < M" "M \<le> 256"
  shows "snd (carry_loop 256 M ds c) < M \<and> list_all (\<lambda>d. d < 256) (fst (carry_loop 256 M ds c)) \<and>
    length (fst (carry_loop 256 M ds c)) = length ds"
  using assms(1,2)
proof (induction ds arbitrary: c)
  case (Cons d ds)
  have "d * M \<le> 255 * M" using Cons.prems(1) by (intro mult_le_mono1) simp
  then have "c + d * M < M * 256" using Cons.prems(2) by linarith
  then have "(c + d * M) div 256 < M" by (simp add: div_less_iff_less_mult)
  then have "snd (carry_loop 256 M ds ((c + d * M) div 256)) < M \<and>
      list_all (\<lambda>d. d < 256) (fst (carry_loop 256 M ds ((c + d * M) div 256))) \<and>
      length (fst (carry_loop 256 M ds ((c + d * M) div 256))) = length ds"
    using Cons.IH Cons.prems(1) by simp
  then show ?case by (auto simp: Let_def split: prod.splits)
qed simp

lemma add_digit_grows:
  assumes "list_all (\<lambda>d. d < 256) ds" "v < 58"
  shows "list_all (\<lambda>d. d < 256) (add_digit 256 58 ds v) \<and> length (add_digit 256 58 ds v) \<le> Suc (length ds)"
proof -
  obtain es c where e: "carry_loop 256 58 ds v = (es, c)" by (cases "carry_loop 256 58 ds v")
  then have c: "c < 58" "list_all (\<lambda>d. d < 256) es" "length es = length ds" using carry_small [OF assms] by auto
  then have "c = 0 \<and> push_carry 256 c = [] \<or> push_carry 256 c = [c]"
    by (simp add: push_carry.simps [of 256 c])
  then show ?thesis using e c by (auto simp: add_digit_def)
qed

lemma decode_loop_length:
  assumes "decode_loop ALPHABET ds s = Some bs" "list_all (\<lambda>d. d < 256) ds"
  shows "length bs \<le> length ds + length s"
  using assms
proof (induction s arbitrary: ds)
  case (Cons c s)
  have len: "length ALPHABET = 58" by (simp add: ALPHABET_def)
  obtain v where v: "alphabet_map ALPHABET c = Some v" "decode_loop ALPHABET (add_digit 256 58 ds v) s = Some bs"
    using Cons.prems(1) by (auto simp: len split: option.splits)
  have "v < 58" using bs58.map_SomeD [OF v(1)] len by simp
  then show ?case using Cons.IH [OF v(2)] add_digit_grows [OF Cons.prems(2)] by fastforce
qed simp

lemma base58_decode_length:
  assumes "Base58_decode s = Inr b"
  shows "length b \<le> 2 * length s + 1"
proof (cases "s = []")
  case True
  then show ?thesis using assms by (simp add: Base58_decode_def basex_decode_def basex_decodeUnsafe_def)
next
  case False
  then obtain bs where bs: "decode_loop ALPHABET [0] s = Some bs" "length b = length bs + leading (ALPHABET ! 0) s"
    using assms by (auto simp: Base58_decode_def basex_decode_def basex_decodeUnsafe_def split: option.splits)
  have "leading (ALPHABET ! 0) s \<le> length s" unfolding leading_def
    by (metis length_butlast length_takeWhile_le diff_le_self order_trans)
  then show ?thesis using decode_loop_length [OF bs(1)] bs(2) by simp
qed

lemma base58check_length: "length b \<le> 2 * length (Base58Check_encode b)"
proof -
  have "Base58_decode (Base58Check_encode b) = Inr (b @ Base58Check_checksum b)"
    unfolding Base58Check_encode_def Base58_decode_def Base58_encode_def by (rule bs58.decode_encode)
  from base58_decode_length [OF this] show ?thesis by simp
qed

lemma dec_string_short: "n < 10 ^ Suc k \<Longrightarrow> length (dec_string n) \<le> Suc k"
proof (induction k arbitrary: n)
  case 0
  then show ?case by (simp add: dec_string.simps)
next
  case (Suc k)
  show ?case
  proof (cases "n < 10")
    case True
    then show ?thesis by (simp add: dec_string.simps)
  next
    case False
    have "n div 10 < 10 ^ Suc k" using Suc.prems by (simp add: div_less_iff_less_mult)
    then show ?thesis using Suc.IH False by (simp add: dec_string.simps [of n])
  qed
qed

lemma network_key_short:
  assumes "8 < length s"
  shows "Networks_get initial_networks (ArgStr s) None = None"
proof -
  have d: "s \<noteq> dec_string m" if "m < 10 ^ 8" for m
    using dec_string_short [of m 7] that assms by auto
  have v: "s \<notin> key_string ` set (net_values livenet)" "s \<notin> key_string ` set (net_values testnet)"
    using assms d by (auto simp: net_values_def key_string_def livenet_def testnet_def new_network_def livenet_data_def testnet_data_def)
  have "s \<noteq> dec_string 18444" "s \<noteq> dec_string 18333" using d by simp_all
  then have "map_of (networkMaps initial_networks) s = None" unfolding maps_eq using v by simp
  then show ?thesis by (simp add: Networks_get_def arg_key_def)
qed

lemma check58_not_network: "18 \<le> length b \<Longrightarrow> Networks_get initial_networks (ArgStr (Base58Check_encode b)) None = None"
  by (rule network_key_short) (use base58check_length [of b] in simp)

section \<open>Properties\<close>

text \<open>
  C16: Public keys and their bytes.  For every point of the curve other than the point at infinity, the 33 or 65 bytes that
  \<open>PublicKey.toBuffer\<close> writes are read back by \<open>fromBuffer\<close> as the same key, with the default network; and whatever
  \<open>fromBuffer\<close> accepts, strict or not, is a point of the curve other than the point at infinity.
\<close>
theorem public_key_bytes:
  assumes "ec_ok ec"
  shows "(on_curve (ec_curve ec) P \<and> P \<noteq> Infinity \<longrightarrow>
      (\<exists>b. PublicKey_toBuffer \<lparr>pk_point = plain P, pk_compressed = c, pk_network = n\<rparr> = Inr b \<and>
        length b = (if c then 33 else 65) \<and>
        PublicKey_fromBuffer ec st b strict = Inr \<lparr>pk_point = plain P, pk_compressed = c, pk_network = defaultNetwork\<rparr>)) \<and>
    (PublicKey_fromBuffer ec st b' strict = Inr k \<longrightarrow>
      (\<exists>Q. pk_point k = plain Q \<and> on_curve (ec_curve ec) Q \<and> Q \<noteq> Infinity))"
proof -
  have "pk_ok ec k" if "PublicKey_fromBuffer ec st b' strict = Inr k"
    using PublicKey_fromBuffer_valid [OF assms that] by blast
  then show ?thesis using public_key_read [OF assms, of P c n st strict] unfolding pk_ok_def by blast
qed

text \<open>
  The bytes of a public key are not unique.  After the prefix 2 or 3, \<open>fromBuffer\<close> accepts a first coordinate of any
  length and any size, and reduces it modulo the prime: two buffers with coordinates that are equal modulo the prime give
  the same key, for instance a buffer with zeros in front, or one with a coordinate that is not below the prime.
\<close>
theorem public_key_noncanonical:
  assumes "ec_ok ec" "on_curve (ec_curve ec) (Affine x y)"
    and "length xs < 2147483647" "int (be_val xs) mod c_p (ec_curve ec) = x"
  shows "PublicKey_fromBuffer ec st ((if odd y then 3 else 2) # xs) True =
    Inr \<lparr>pk_point = plain (Affine x y), pk_compressed = True, pk_network = defaultNetwork\<rparr>"
  using PublicKey_fromBuffer_compressed [OF assms(1,3,2,4)] .

text \<open>
  C18: Every private key that the constructor makes of a buffer, a string, a random number, or an object or a \<open>BN\<close> whose number
  is not negative, is a number between 1 and \<open>n - 1\<close>, and has a public key: \<open>toPublicKey\<close> returns the multiple of the
  generator, a point of the curve other than the point at infinity, with the same \<open>compressed\<close> flag.  A negative number, as a
  \<open>BN\<close> or in an object as a hexadecimal string with a minus sign, is accepted as a private key as it is, since the constructor
  only tests for zero and for the upper bound.
\<close>
theorem private_key_range:
  assumes "ec_ok ec" "0 \<le> rnd"
  shows "(new_PrivateKey ec st rnd data net = Inr k \<and> (\<forall>j. data \<noteq> SKPrivateKey j) \<and> (\<forall>m. data = SKBN m \<longrightarrow> 0 \<le> m) \<and>
        (\<forall>s c nw. data = SKObject s c nw \<longrightarrow> 0 \<le> BN_parseHex s) \<longrightarrow>
      0 < priv_bn k \<and> priv_bn k < ec_n ec \<and>
      (\<exists>pub. PrivateKey_toPublicKey ec st k = Inr pub \<and> pk_point pub = plain (gmul ec (priv_bn k)) \<and>
        on_curve (ec_curve ec) (gmul ec (priv_bn k)) \<and> gmul ec (priv_bn k) \<noteq> Infinity \<and> pk_compressed pub = priv_compressed k)) \<and>
    (m < 0 \<longrightarrow> new_PrivateKey ec st rnd (SKBN m) ArgUndefined =
      Inr \<lparr>priv_bn = m, priv_compressed = True, priv_network = defaultNetwork\<rparr>) \<and>
    (BN_parseHex s < 0 \<and> Networks_get st nw None = Some n \<longrightarrow> new_PrivateKey ec st rnd (SKObject s c nw) net =
      Inr \<lparr>priv_bn = BN_parseHex s, priv_compressed = c, priv_network = n\<rparr>)"
proof -
  have "sk_ok ec k" if "new_PrivateKey ec st rnd data net = Inr k" "\<forall>j. data \<noteq> SKPrivateKey j" "\<forall>m. data = SKBN m \<longrightarrow> 0 \<le> m"
      "\<forall>s c nw. data = SKObject s c nw \<longrightarrow> 0 \<le> BN_parseHex s"
    using new_PrivateKey_ok [OF that(1)] that(2-4) assms(2) by (auto simp: sk_nonneg_def split: sk_data.splits)
  moreover have "new_PrivateKey ec st rnd (SKBN m) ArgUndefined =
      Inr \<lparr>priv_bn = m, priv_compressed = True, priv_network = defaultNetwork\<rparr>" if "m < 0"
    using that ec_okD(11) [OF assms(1)]
    by (simp add: new_PrivateKey_def PrivateKey_classifyArguments_def PrivateKey_of_info_def truthy_net_def)
  moreover have "new_PrivateKey ec st rnd (SKObject s c nw) net =
      Inr \<lparr>priv_bn = BN_parseHex s, priv_compressed = c, priv_network = n\<rparr>" if "BN_parseHex s < 0" "Networks_get st nw None = Some n"
    using that ec_okD(11) [OF assms(1)]
    by (simp add: new_PrivateKey_def PrivateKey_classifyArguments_def PrivateKey_transformObject_def PrivateKey_of_info_def)
  ultimately show ?thesis
    using fromPrivateKey [OF assms(1)] gmul_closed [OF assms(1)]
    by (simp add: sk_ok_def PrivateKey_toPublicKey_def)
qed

lemma sk_hex_string:
  assumes "ec_ok ec" "sk_ok ec k"
  shows "isHexa (PrivateKey_toString k)" "BN_initArray (Buffer_from_hex (PrivateKey_toString k)) = priv_bn k"
proof -
  have e: "PrivateKey_toString k = hexSlice (nat_be (nat (priv_bn k)))"
    using assms(2) by (simp add: PrivateKey_toString_def PrivateKey_toBuffer_def BN_toBuffer_plain sk_ok_def)
  then show "isHexa (PrivateKey_toString k)" by (simp add: isHexa_hexSlice)
  show "BN_initArray (Buffer_from_hex (PrivateKey_toString k)) = priv_bn k"
    using assms(2) unfolding e by (simp add: Buffer_from_hex_hexSlice BN_initArray_def be_val_nat_be sk_ok_def)
qed

lemma xpubkey_hex:
  assumes "priv_bn k = 0x76067358"
  shows "Networks_get initial_networks (ArgStr (PrivateKey_toString k)) None = Some livenet"
proof -
  have "be_val [0x76, 0x06, 0x73, 0x58] = 0x76067358" by (simp add: be_val_def)
  then have "nat_be (nat (priv_bn k)) = [0x76, 0x06, 0x73, 0x58]"
    using nat_be_unique [of "[0x76, 0x06, 0x73, 0x58]"] assms by simp
  moreover have "hexSlice [0x76, 0x06, 0x73, 0x58] = ''76067358''" by code_simp
  ultimately have "PrivateKey_toString k = ''76067358''"
    using assms by (simp add: PrivateKey_toString_def PrivateKey_toBuffer_def BN_toBuffer_plain)
  moreover have d: "dec_string 76067358 = ''76067358''" by (simp add: dec_string.simps dec_char_def, code_simp)
  moreover have "xpubkey livenet = 76067358"
    by (simp add: livenet_def new_network_def livenet_data_def)
  then have "map_of (networkMaps initial_networks) ''76067358'' = Some livenet"
    unfolding maps_eq d [symmetric] using not_dec_string [of "''testnet''" 76067358, THEN not_sym]
      not_dec_string [of "''regtest''" 76067358, THEN not_sym]
    by (auto simp add: net_values_def key_string_def dec_string_inj dec_digit_def livenet_def testnet_def new_network_def livenet_data_def testnet_data_def)
  ultimately show ?thesis by (simp add: Networks_get_def arg_key_def)
qed

text \<open>
  C31: Private keys and their strings.  The import format (\<open>toWIF\<close>) of a private key of one of the networks is read back as
  the same key, unless the string consists of hexadecimal digits.  The hexadecimal form
  (\<open>toString\<close>) is read back as the same number with the compressed flag set and the default network; but a number whose
  hexadecimal form is a key of the network table is not read at all: for \<open>0x76067358\<close>, the decimal form of the version
  \<open>xpubkey\<close> of the live network, a random key is returned instead.
\<close>
theorem private_key_strings:
  assumes "ec_ok ec" "0 < priv_bn k" "priv_bn k < ec_n ec" "sdk_network (priv_network k)"
  shows "rbind (PrivateKey_transformWIF initial_networks (PrivateKey_toWIF k) ArgUndefined) (PrivateKey_of_info ec) = Inr k \<and>
    (\<not> isHexa (PrivateKey_toWIF k) \<longrightarrow>
      PrivateKey_fromString ec initial_networks rnd (PrivateKey_toWIF k) = Inr k) \<and>
    (Networks_get initial_networks (ArgStr (PrivateKey_toString k)) None = None \<longrightarrow>
      PrivateKey_fromString ec initial_networks rnd (PrivateKey_toString k) =
        Inr \<lparr>priv_bn = priv_bn k, priv_compressed = True, priv_network = livenet\<rparr>) \<and>
    (priv_bn k = 0x76067358 \<and> 0 < rnd \<and> rnd < ec_n ec \<longrightarrow>
      PrivateKey_fromString ec initial_networks rnd (PrivateKey_toString k) =
        Inr \<lparr>priv_bn = rnd, priv_compressed = True, priv_network = livenet\<rparr>)"
proof -
  let ?get = "\<lambda>s. Networks_get initial_networks (ArgStr s) None"
  have k: "sk_ok ec k" using assms(2,3) by (simp add: sk_ok_def)
  have new: "PrivateKey_fromString ec initial_networks rnd s =
      rbind (PrivateKey_classifyArguments initial_networks rnd (SKString s) ArgUndefined) (PrivateKey_of_info ec)" for s
    by (simp add: PrivateKey_fromString_def new_PrivateKey_def)
  have len: "length (wif_bytes k) < 2147483640"
    using toBuffer_32(1) [of "priv_bn k"] assms(2,3) ec_okD(8) [OF assms(1)] by (simp add: wif_bytes_def)
  have wif: "PrivateKey_transformWIF initial_networks (PrivateKey_toWIF k) ArgUndefined =
      Inr \<lparr>si_bn = priv_bn k, si_compressed = priv_compressed k, si_network = Some (priv_network k)\<rparr>"
    using check58_iff [OF len, of "PrivateKey_toWIF k"] transformBuffer_wif [OF assms(1) k assms(4), of ArgUndefined]
    by (simp add: PrivateKey_transformWIF_def toWIF_eq truthy_net_def)
  have "18 \<le> length (wif_bytes k)"
    using toBuffer_32(1) [of "priv_bn k"] assms(2,3) ec_okD(8) [OF assms(1)] by (simp add: wif_bytes_def)
  then have "?get (PrivateKey_toWIF k) = None" unfolding toWIF_eq by (rule check58_not_network)
  with wif have "PrivateKey_fromString ec initial_networks rnd (PrivateKey_toWIF k) = Inr k"
    if "\<not> isHexa (PrivateKey_toWIF k)"
    using that of_info_ok [OF k] by (simp add: new PrivateKey_classifyArguments_def Let_def)
  moreover have "PrivateKey_fromString ec initial_networks rnd (PrivateKey_toString k) =
        Inr \<lparr>priv_bn = priv_bn k, priv_compressed = True, priv_network = livenet\<rparr>" if "?get (PrivateKey_toString k) = None"
    using that sk_hex_string [OF assms(1) k] assms(2,3)
    by (simp add: new PrivateKey_classifyArguments_def Let_def truthy_net_def PrivateKey_of_info_def defaultNetwork_def)
  moreover have "PrivateKey_fromString ec initial_networks rnd (PrivateKey_toString k) =
        Inr \<lparr>priv_bn = rnd, priv_compressed = True, priv_network = livenet\<rparr>"
    if "priv_bn k = 0x76067358" "0 < rnd" "rnd < ec_n ec"
    using that xpubkey_hex [OF that(1)]
    by (simp add: new PrivateKey_classifyArguments_def Let_def truthy_net_def PrivateKey_of_info_def)
  ultimately show ?thesis using wif of_info_ok [OF k] by simp
qed

section \<open>The curve of the source\<close>

lemma secp256k1_simps:
  "c_p secp256k1 = 0xfffffffffffffffffffffffffffffffffffffffffffffffffffffffefffffc2f" "c_a secp256k1 = 0" "c_b secp256k1 = 7"
  "c_n secp256k1 = 0xfffffffffffffffffffffffffffffffebaaedce6af48a03bbfd25e8cd0364141"
  "red_prime (c_red secp256k1) = Some K256"
  by (simp_all add: secp256k1_def Red_named_def prime_p_def)

section \<open>The small curve\<close>

definition ec7 :: ec_params where
  "ec7 = \<lparr>ec_curve = curve7, ec_g = G7_pre\<rparr>"

lemma prime_13: "prime_mod 13"
proof -
  have "\<forall>d \<in> {2..<nat 13}. \<not> int d dvd 13" by code_simp
  then show ?thesis by (intro prime_mod_small) simp_all
qed

lemma ec7_simps [simp]: "ec_curve ec7 = curve7" "ec_g ec7 = G7_pre" "c_n curve7 = 13" "red_m (c_red curve7) = 7"
  by (simp_all add: ec7_def curve7_def)

lemma ec7_ok: "ec_ok ec7"
proof -
  have "zmul curve7 13 P = Infinity" if oc: "on_curve curve7 P" for P
  proof -
    obtain i where "i < 13" "P = points7 ! i" using oc unfolding on_curve7 in_set_conv_nth length_points7 by blast
    then show ?thesis using zmul_points7 [of i 13] by (simp add: nth_points7)
  qed
  then show ?thesis using curve7_mul_ok G7_pre_ok prime_13 by (simp add: ec_ok_def)
qed

lemma affine_33: "on_curve curve7 (Affine 3 3)"
  by (simp add: on_curve7 points7_def)

theorem public_key_bytes_witness:
  "\<exists>b. PublicKey_toBuffer \<lparr>pk_point = plain (Affine 3 3), pk_compressed = True, pk_network = livenet\<rparr> = Inr b \<and> length b = 33 \<and>
     PublicKey_fromBuffer ec7 initial_networks b True =
       Inr \<lparr>pk_point = plain (Affine 3 3), pk_compressed = True, pk_network = defaultNetwork\<rparr>"
  using public_key_bytes [OF ec7_ok, of "Affine 3 3" True livenet initial_networks True] affine_33 by simp

theorem public_key_noncanonical_witness:
  "PublicKey_fromBuffer ec7 initial_networks [3, 3] True = PublicKey_fromBuffer ec7 initial_networks [3, 0, 10] True \<and>
   PublicKey_fromBuffer ec7 initial_networks [3, 3] True =
     Inr \<lparr>pk_point = plain (Affine 3 3), pk_compressed = True, pk_network = defaultNetwork\<rparr>"
  using public_key_noncanonical [OF ec7_ok, of 3 3 "[3]" initial_networks] affine_33
    public_key_noncanonical [OF ec7_ok, of 3 3 "[0, 10]" initial_networks] by (simp add: be_val_def)

theorem private_key_range_witness:
  "(\<exists>pub. PrivateKey_toPublicKey ec7 initial_networks \<lparr>priv_bn = 5, priv_compressed = True, priv_network = livenet\<rparr> = Inr pub \<and>
      pk_point pub = plain (gmul ec7 5)) \<and>
   new_PrivateKey ec7 initial_networks 0 (SKBN (- 1)) ArgUndefined =
      Inr \<lparr>priv_bn = - 1, priv_compressed = True, priv_network = defaultNetwork\<rparr> \<and>
   new_PrivateKey ec7 initial_networks 0 (SKObject ''-5'' True (ArgStr ''livenet'')) ArgUndefined =
      Inr \<lparr>priv_bn = - 5, priv_compressed = True, priv_network = livenet\<rparr>"
proof -
  let ?k = "\<lparr>priv_bn = 5, priv_compressed = True, priv_network = livenet\<rparr>"
  have "new_PrivateKey ec7 initial_networks 0 (SKBN 5) ArgUndefined = Inr ?k"
    by (simp add: new_PrivateKey_def PrivateKey_classifyArguments_def PrivateKey_of_info_def truthy_net_def defaultNetwork_def)
  moreover have "BN_parseHex ''-5'' = - 5" by code_simp
  moreover have "Networks_get initial_networks (ArgStr ''livenet'') None = Some livenet"
    using get_by_name [of livenet] by (simp add: sdk_network_def)
  ultimately show ?thesis
    using private_key_range [OF ec7_ok, of 0 initial_networks "SKBN 5" ArgUndefined ?k "- 1" "''-5''" "ArgStr ''livenet''" livenet True] by auto
qed

theorem private_key_strings_witness:
  "rbind (PrivateKey_transformWIF initial_networks
      (PrivateKey_toWIF \<lparr>priv_bn = 5, priv_compressed = True, priv_network = testnet\<rparr>) ArgUndefined) (PrivateKey_of_info ec7) =
    Inr \<lparr>priv_bn = 5, priv_compressed = True, priv_network = testnet\<rparr>"
  using private_key_strings [OF ec7_ok, of "\<lparr>priv_bn = 5, priv_compressed = True, priv_network = testnet\<rparr>" 0]
  by (simp add: sdk_network_def)

end
