(* ===== verification/Sha512.thy ===== *)
theory Sha512
  imports Hashes
begin

unbundle bit_operations_syntax

text \<open>
  \<open>SHA512\<close> and \<open>SHA384\<close> of ix_crypto.js, which keep every 64-bit number as two 32-bit halves, and \<open>Hash.hmac\<close> of
  magnachain.js.  The arithmetic on halves is shown to be arithmetic on 64-bit words, and the block function to be
  the one of the standard; \<open>hmac\<close> is shown to be the construction of RFC 2104.
\<close>

type_synonym word64 = "64 word"

section \<open>Arithmetic on halves\<close>

definition sum64_hi :: "word32 \<Rightarrow> word32 \<Rightarrow> word32 \<Rightarrow> word32 \<Rightarrow> word32" where
  "sum64_hi ah al bh bl = (let lo = al + bl in (if lo < al then 1 else 0) + ah + bh)"

definition sum64_lo :: "word32 \<Rightarrow> word32 \<Rightarrow> word32 \<Rightarrow> word32 \<Rightarrow> word32" where
  "sum64_lo ah al bh bl = al + bl"

text \<open>\<open>sum64\<close> adds to the number at a position of an array.\<close>

definition sum64 :: "word32 list \<Rightarrow> nat \<Rightarrow> word32 \<Rightarrow> word32 \<Rightarrow> word32 list" where
  "sum64 buf pos ah al =
     (let bh = buf ! pos; bl = buf ! (pos + 1); lo = al + bl; hi = (if lo < al then 1 else 0) + ah + bh
      in buf[pos := hi, pos + 1 := lo])"

definition sum64_4_hi ::
    "word32 \<Rightarrow> word32 \<Rightarrow> word32 \<Rightarrow> word32 \<Rightarrow> word32 \<Rightarrow> word32 \<Rightarrow> word32 \<Rightarrow> word32 \<Rightarrow> word32" where
  "sum64_4_hi ah al bh bl ch cl dh dl =
     (let lo = al + bl; carry = (if lo < al then 1 else 0);
          lo = lo + cl; carry = carry + (if lo < cl then 1 else 0);
          lo = lo + dl; carry = carry + (if lo < dl then 1 else 0)
      in ah + bh + ch + dh + carry)"

definition sum64_4_lo ::
    "word32 \<Rightarrow> word32 \<Rightarrow> word32 \<Rightarrow> word32 \<Rightarrow> word32 \<Rightarrow> word32 \<Rightarrow> word32 \<Rightarrow> word32 \<Rightarrow> word32" where
  "sum64_4_lo ah al bh bl ch cl dh dl = al + bl + cl + dl"

definition sum64_5_hi ::
    "word32 \<Rightarrow> word32 \<Rightarrow> word32 \<Rightarrow> word32 \<Rightarrow> word32 \<Rightarrow> word32 \<Rightarrow> word32 \<Rightarrow> word32 \<Rightarrow> word32 \<Rightarrow> word32 \<Rightarrow> word32" where
  "sum64_5_hi ah al bh bl ch cl dh dl eh el =
     (let lo = al + bl; carry = (if lo < al then 1 else 0);
          lo = lo + cl; carry = carry + (if lo < cl then 1 else 0);
          lo = lo + dl; carry = carry + (if lo < dl then 1 else 0);
          lo = lo + el; carry = carry + (if lo < el then 1 else 0)
      in ah + bh + ch + dh + eh + carry)"

definition sum64_5_lo ::
    "word32 \<Rightarrow> word32 \<Rightarrow> word32 \<Rightarrow> word32 \<Rightarrow> word32 \<Rightarrow> word32 \<Rightarrow> word32 \<Rightarrow> word32 \<Rightarrow> word32 \<Rightarrow> word32 \<Rightarrow> word32" where
  "sum64_5_lo ah al bh bl ch cl dh dl eh el = al + bl + cl + dl + el"

definition rotr64_hi :: "word32 \<Rightarrow> word32 \<Rightarrow> nat \<Rightarrow> word32" where
  "rotr64_hi ah al num = push_bit (32 - num) al OR drop_bit num ah"

definition rotr64_lo :: "word32 \<Rightarrow> word32 \<Rightarrow> nat \<Rightarrow> word32" where
  "rotr64_lo ah al num = push_bit (32 - num) ah OR drop_bit num al"

definition shr64_hi :: "word32 \<Rightarrow> word32 \<Rightarrow> nat \<Rightarrow> word32" where
  "shr64_hi ah al num = drop_bit num ah"

definition shr64_lo :: "word32 \<Rightarrow> word32 \<Rightarrow> nat \<Rightarrow> word32" where
  "shr64_lo ah al num = push_bit (32 - num) ah OR drop_bit num al"

section \<open>SHA-512\<close>

definition ch64_hi :: "word32 \<Rightarrow> word32 \<Rightarrow> word32 \<Rightarrow> word32 \<Rightarrow> word32 \<Rightarrow> word32" where
  "ch64_hi xh xl yh yl zh = (xh AND yh) XOR (NOT xh AND zh)"

definition ch64_lo :: "word32 \<Rightarrow> word32 \<Rightarrow> word32 \<Rightarrow> word32 \<Rightarrow> word32 \<Rightarrow> word32 \<Rightarrow> word32" where
  "ch64_lo xh xl yh yl zh zl = (xl AND yl) XOR (NOT xl AND zl)"

definition maj64_hi :: "word32 \<Rightarrow> word32 \<Rightarrow> word32 \<Rightarrow> word32 \<Rightarrow> word32 \<Rightarrow> word32" where
  "maj64_hi xh xl yh yl zh = (xh AND yh) XOR (xh AND zh) XOR (yh AND zh)"

definition maj64_lo :: "word32 \<Rightarrow> word32 \<Rightarrow> word32 \<Rightarrow> word32 \<Rightarrow> word32 \<Rightarrow> word32 \<Rightarrow> word32" where
  "maj64_lo xh xl yh yl zh zl = (xl AND yl) XOR (xl AND zl) XOR (yl AND zl)"

definition s0_512_hi :: "word32 \<Rightarrow> word32 \<Rightarrow> word32" where
  "s0_512_hi xh xl = rotr64_hi xh xl 28 XOR rotr64_hi xl xh 2 XOR rotr64_hi xl xh 7"

definition s0_512_lo :: "word32 \<Rightarrow> word32 \<Rightarrow> word32" where
  "s0_512_lo xh xl = rotr64_lo xh xl 28 XOR rotr64_lo xl xh 2 XOR rotr64_lo xl xh 7"

definition s1_512_hi :: "word32 \<Rightarrow> word32 \<Rightarrow> word32" where
  "s1_512_hi xh xl = rotr64_hi xh xl 14 XOR rotr64_hi xh xl 18 XOR rotr64_hi xl xh 9"

definition s1_512_lo :: "word32 \<Rightarrow> word32 \<Rightarrow> word32" where
  "s1_512_lo xh xl = rotr64_lo xh xl 14 XOR rotr64_lo xh xl 18 XOR rotr64_lo xl xh 9"

definition g0_512_hi :: "word32 \<Rightarrow> word32 \<Rightarrow> word32" where
  "g0_512_hi xh xl = rotr64_hi xh xl 1 XOR rotr64_hi xh xl 8 XOR shr64_hi xh xl 7"

definition g0_512_lo :: "word32 \<Rightarrow> word32 \<Rightarrow> word32" where
  "g0_512_lo xh xl = rotr64_lo xh xl 1 XOR rotr64_lo xh xl 8 XOR shr64_lo xh xl 7"

definition g1_512_hi :: "word32 \<Rightarrow> word32 \<Rightarrow> word32" where
  "g1_512_hi xh xl = rotr64_hi xh xl 19 XOR rotr64_hi xl xh 29 XOR shr64_hi xh xl 6"

definition g1_512_lo :: "word32 \<Rightarrow> word32 \<Rightarrow> word32" where
  "g1_512_lo xh xl = rotr64_lo xh xl 19 XOR rotr64_lo xl xh 29 XOR shr64_lo xh xl 6"

text \<open>The table \<open>sha512_K\<close> of ix_crypto.js in its order, its hexadecimal constants in decimal.\<close>

definition sha512_K :: "word32 list" where
  "sha512_K =
    [1116352408, 3609767458, 1899447441, 602891725, 3049323471, 3964484399,
     3921009573, 2173295548, 961987163, 4081628472, 1508970993, 3053834265,
     2453635748, 2937671579, 2870763221, 3664609560, 3624381080, 2734883394,
     310598401, 1164996542, 607225278, 1323610764, 1426881987, 3590304994,
     1925078388, 4068182383, 2162078206, 991336113, 2614888103, 633803317,
     3248222580, 3479774868, 3835390401, 2666613458, 4022224774, 944711139,
     264347078, 2341262773, 604807628, 2007800933, 770255983, 1495990901,
     1249150122, 1856431235, 1555081692, 3175218132, 1996064986, 2198950837,
     2554220882, 3999719339, 2821834349, 766784016, 2952996808, 2566594879,
     3210313671, 3203337956, 3336571891, 1034457026, 3584528711, 2466948901,
     113926993, 3758326383, 338241895, 168717936, 666307205, 1188179964,
     773529912, 1546045734, 1294757372, 1522805485, 1396182291, 2643833823,
     1695183700, 2343527390, 1986661051, 1014477480, 2177026350, 1206759142,
     2456956037, 344077627, 2730485921, 1290863460, 2820302411, 3158454273,
     3259730800, 3505952657, 3345764771, 106217008, 3516065817, 3606008344,
     3600352804, 1432725776, 4094571909, 1467031594, 275423344, 851169720,
     430227734, 3100823752, 506948616, 1363258195, 659060556, 3750685593,
     883997877, 3785050280, 958139571, 3318307427, 1322822218, 3812723403,
     1537002063, 2003034995, 1747873779, 3602036899, 1955562222, 1575990012,
     2024104815, 1125592928, 2227730452, 2716904306, 2361852424, 442776044,
     2428436474, 593698344, 2756734187, 3733110249, 3204031479, 2999351573,
     3329325298, 3815920427, 3391569614, 3928383900, 3515267271, 566280711,
     3940187606, 3454069534, 4118630271, 4000239992, 116418474, 1914138554,
     174292421, 2731055270, 289380356, 3203993006, 460393269, 320620315,
     685471733, 587496836, 852142971, 1086792851, 1017036298, 365543100,
     1126000580, 2618297676, 1288033470, 3409855158, 1501505948, 4234509866,
     1607167915, 987167468, 1816402316, 1246189591]"

text \<open>One iteration of the loop of \<open>_prepareBlock\<close>, which fills two places of \<open>W\<close>.\<close>

definition SHA512_extend :: "word32 list \<Rightarrow> nat \<Rightarrow> word32 list" where
  "SHA512_extend W i =
     (let c0_hi = g1_512_hi (W ! (i - 4)) (W ! (i - 3)); c0_lo = g1_512_lo (W ! (i - 4)) (W ! (i - 3));
          c1_hi = W ! (i - 14); c1_lo = W ! (i - 13);
          c2_hi = g0_512_hi (W ! (i - 30)) (W ! (i - 29)); c2_lo = g0_512_lo (W ! (i - 30)) (W ! (i - 29));
          c3_hi = W ! (i - 32); c3_lo = W ! (i - 31)
      in W @ [sum64_4_hi c0_hi c0_lo c1_hi c1_lo c2_hi c2_lo c3_hi c3_lo,
              sum64_4_lo c0_hi c0_lo c1_hi c1_lo c2_hi c2_lo c3_hi c3_lo])"

definition SHA512_prepareBlock :: "word32 list \<Rightarrow> word32 list" where
  "SHA512_prepareBlock msg = foldl SHA512_extend (take 32 msg) (map (\<lambda>t. 2 * t) [16..<80])"

type_synonym regs512 =
  "(word32 \<times> word32) \<times> (word32 \<times> word32) \<times> (word32 \<times> word32) \<times> (word32 \<times> word32) \<times>
   (word32 \<times> word32) \<times> (word32 \<times> word32) \<times> (word32 \<times> word32) \<times> (word32 \<times> word32)"

definition SHA512_round :: "word32 list \<Rightarrow> regs512 \<Rightarrow> nat \<Rightarrow> regs512" where
  "SHA512_round W = (\<lambda>((ah, al), (bh, bl), (ch, cl), (dh, dl), (eh, el), (fh, fl), (gh, gl), (hh, hl)) i.
     let c1_hi = s1_512_hi eh el; c1_lo = s1_512_lo eh el;
         c2_hi = ch64_hi eh el fh fl gh; c2_lo = ch64_lo eh el fh fl gh gl;
         c3_hi = sha512_K ! i; c3_lo = sha512_K ! (i + 1);
         c4_hi = W ! i; c4_lo = W ! (i + 1);
         T1_hi = sum64_5_hi hh hl c1_hi c1_lo c2_hi c2_lo c3_hi c3_lo c4_hi c4_lo;
         T1_lo = sum64_5_lo hh hl c1_hi c1_lo c2_hi c2_lo c3_hi c3_lo c4_hi c4_lo;
         c0_hi = s0_512_hi ah al; c0_lo = s0_512_lo ah al;
         c1_hi = maj64_hi ah al bh bl ch; c1_lo = maj64_lo ah al bh bl ch cl;
         T2_hi = sum64_hi c0_hi c0_lo c1_hi c1_lo; T2_lo = sum64_lo c0_hi c0_lo c1_hi c1_lo
     in ((sum64_hi T1_hi T1_lo T2_hi T2_lo, sum64_lo T1_hi T1_lo T2_hi T2_lo), (ah, al), (bh, bl), (ch, cl),
         (sum64_hi dh dl T1_hi T1_lo, sum64_lo dl dl T1_hi T1_lo), (eh, el), (fh, fl), (gh, gl)))"

definition SHA512_update :: "word32 list \<Rightarrow> word32 list \<Rightarrow> word32 list" where
  "SHA512_update hs msg =
     (let W = SHA512_prepareBlock msg;
          ((ah, al), (bh, bl), (ch, cl), (dh, dl), (eh, el), (fh, fl), (gh, gl), (hh, hl)) =
            foldl (SHA512_round W)
              ((hs ! 0, hs ! 1), (hs ! 2, hs ! 3), (hs ! 4, hs ! 5), (hs ! 6, hs ! 7),
               (hs ! 8, hs ! 9), (hs ! 10, hs ! 11), (hs ! 12, hs ! 13), (hs ! 14, hs ! 15))
              (map (\<lambda>t. 2 * t) [0..<80]);
          hs = sum64 hs 0 ah al; hs = sum64 hs 2 bh bl; hs = sum64 hs 4 ch cl; hs = sum64 hs 6 dh dl;
          hs = sum64 hs 8 eh el; hs = sum64 hs 10 fh fl; hs = sum64 hs 12 gh gl
      in sum64 hs 14 hh hl)"

definition SHA512 :: hash_alg where
  "SHA512 = \<lparr>delta8 = 128, pad_length = 16, big_endian = True,
     h_init = [0x6a09e667, 0xf3bcc908, 0xbb67ae85, 0x84caa73b, 0x3c6ef372, 0xfe94f82b, 0xa54ff53a, 0x5f1d36f1,
               0x510e527f, 0xade682d1, 0x9b05688c, 0x2b3e6c1f, 0x1f83d9ab, 0xfb41bd6b, 0x5be0cd19, 0x137e2179],
     compress = SHA512_update, out_words = 16\<rparr>"

definition SHA384 :: hash_alg where
  "SHA384 = SHA512\<lparr>h_init := [0xcbbb9d5d, 0xc1059ed8, 0x629a292a, 0x367cd507, 0x9159015a, 0x3070dd17,
               0x152fecd8, 0xf70e5939, 0x67332667, 0xffc00b31, 0x8eb44a87, 0x68581511, 0xdb0c2e0d, 0x64f98fa7,
               0x47b5481d, 0xbefa4fa4], out_words := 12\<rparr>"

definition Hash_sha512 :: "bytes \<Rightarrow> bytes" where
  "Hash_sha512 b = run_hash SHA512 b"

section \<open>HMAC\<close>

text \<open>
  \<open>Hash.hmac\<close>.  The comparison \<open>key < blocksize\<close> is of a buffer, that is of its text read as a number; \<open>lt\<close> is its
  outcome.  \<open>key[i]\<close> beyond the end is \<open>undefined\<close>, which the exclusive or takes for zero.
\<close>

definition key_at :: "bytes \<Rightarrow> nat \<Rightarrow> byte" where
  "key_at key i = (if i < length key then key ! i else 0)"

definition Hash_hmac :: "(bytes \<Rightarrow> nat \<Rightarrow> bool) \<Rightarrow> (bytes \<Rightarrow> bytes) \<Rightarrow> nat \<Rightarrow> bytes \<Rightarrow> bytes \<Rightarrow> bytes" where
  "Hash_hmac lt hashf blocksize data key =
     (let key = (if length key > blocksize then hashf key
                 else if lt key blocksize then key @ replicate (blocksize - length key) 0
                 else key);
          o_key_pad = map (\<lambda>i. 0x5c XOR key_at key i) [0..<blocksize];
          i_key_pad = map (\<lambda>i. 0x36 XOR key_at key i) [0..<blocksize];
          p1 = hashf (i_key_pad @ data)
      in hashf (o_key_pad @ p1))"

definition Hash_sha256hmac :: "bytes \<Rightarrow> bytes \<Rightarrow> bytes" where
  "Hash_sha256hmac data key = Hash_hmac (\<lambda>_ _. False) Hash_sha256 64 data key"

definition Hash_sha512hmac :: "bytes \<Rightarrow> bytes \<Rightarrow> bytes" where
  "Hash_sha512hmac data key = Hash_hmac (\<lambda>_ _. False) Hash_sha512 128 data key"

section \<open>Halves of 64-bit words\<close>

definition hi64 :: "word32 \<Rightarrow> word64" where
  "hi64 h = push_bit 32 (ucast h)"

definition join64 :: "word32 \<Rightarrow> word32 \<Rightarrow> word64" where
  "join64 h l = hi64 h OR ucast l"

lemma bit_join64: "bit (join64 h l) n \<longleftrightarrow> (if n < 32 then bit l n else n < 64 \<and> bit h (n - 32))"
  by (auto simp: join64_def hi64_def bit_simps dest: bit_imp_le_length)

lemma join64_plus: "join64 h l = hi64 h + ucast l"
proof -
  have "hi64 h AND ucast l = 0" by (rule bit_eqI) (auto simp: hi64_def bit_simps dest: bit_imp_le_length)
  then show ?thesis unfolding join64_def by (simp only: disjunctive_add_eq_or)
qed

lemma hi64_add: "hi64 (x + y) = hi64 x + hi64 y"
proof -
  have hi: "hi64 w = of_int (uint w * 4294967296)" for w
    unfolding hi64_def push_bit_eq_mult ucast_eq by simp
  have "uint (x + y) = (uint x + uint y) mod 4294967296" by (simp add: uint_word_ariths)
  then have "uint (x + y) * 4294967296 mod 18446744073709551616 = (uint x + uint y) * 4294967296 mod 18446744073709551616"
    by (simp add: mult_mod_left)
  then have "(of_int (uint (x + y) * 4294967296) :: word64) = of_int ((uint x + uint y) * 4294967296)"
    by (simp only: word_of_int_eq_iff take_bit_eq_mod) simp
  then show ?thesis by (simp add: hi distrib_right)
qed

lemma carry: "(ucast al + ucast bl :: word64) = ucast (al + bl) + hi64 (if al + bl < al then 1 else 0)" for al bl :: word32
proof -
  have hi: "hi64 1 = of_int 4294967296" by (simp add: hi64_def push_bit_eq_mult)
  have b: "0 \<le> uint al" "uint al < 4294967296" "0 \<le> uint bl" "uint bl < 4294967296"
    using uint_lt2p [of al] uint_lt2p [of bl] by simp_all
  have c: "al + bl < al \<longleftrightarrow> \<not> uint al + uint bl < 4294967296"
    using b by (simp add: word_less_alt uint_plus_if')
  have "(ucast al + ucast bl :: word64) = of_int (uint al + uint bl)" unfolding ucast_eq by simp
  also have "\<dots> = of_int (uint (al + bl)) + hi64 (if al + bl < al then 1 else 0)"
    unfolding c using b by (simp add: uint_plus_if' hi) (simp add: hi64_def)
  finally show ?thesis unfolding ucast_eq .
qed

lemma sum64_join: "join64 (sum64_hi ah al bh bl) (sum64_lo x al y bl) = join64 ah al + join64 bh bl"
  using carry [of al bl] by (simp add: sum64_hi_def sum64_lo_def join64_plus hi64_add Let_def)

lemma carry_swapped: "(ucast x + ucast c :: word64) = ucast (x + c) + hi64 (if x + c < c then 1 else 0)" for x c :: word32
  using carry [of c x] by (simp only: add.commute)

lemma add_carries:
  fixes a b :: word64
  assumes "a + b = u + h" and "u + c = v + i" and "v + d = w + j"
  shows "a + b + c + d = w + (h + i + j)"
proof -
  have "a + b + c + d = u + h + c + d" by (simp only: assms(1))
  also have "\<dots> = (u + c) + h + d" by (simp only: add_ac)
  also have "\<dots> = v + i + h + d" by (simp only: assms(2))
  also have "\<dots> = (v + d) + h + i" by (simp only: add_ac)
  also have "\<dots> = w + j + h + i" by (simp only: assms(3))
  finally show ?thesis by (simp only: add_ac)
qed

lemma sum64_4_join:
  "join64 (sum64_4_hi ah al bh bl ch cl dh dl) (sum64_4_lo ah al bh bl ch cl dh dl)
     = join64 ah al + join64 bh bl + join64 ch cl + join64 dh dl"
proof -
  have "join64 ah al + join64 bh bl + join64 ch cl + join64 dh dl =
      hi64 ah + hi64 bh + hi64 ch + hi64 dh + (ucast al + ucast bl + ucast cl + ucast dl)"
    by (simp only: join64_plus add_ac)
  also have "\<dots> = join64 (sum64_4_hi ah al bh bl ch cl dh dl) (sum64_4_lo ah al bh bl ch cl dh dl)"
    unfolding add_carries [OF carry [of al bl] carry_swapped [of "al + bl" cl] carry_swapped [of "al + bl + cl" dl]]
    by (simp only: sum64_4_hi_def sum64_4_lo_def join64_plus Let_def hi64_add add_ac)
  finally show ?thesis ..
qed

lemma sum64_5_join:
  "join64 (sum64_5_hi ah al bh bl ch cl dh dl eh el) (sum64_5_lo ah al bh bl ch cl dh dl eh el)
     = join64 ah al + join64 bh bl + join64 ch cl + join64 dh dl + join64 eh el"
proof -
  have "join64 (sum64_5_hi ah al bh bl ch cl dh dl eh el) (sum64_5_lo ah al bh bl ch cl dh dl eh el) =
      hi64 (sum64_4_hi ah al bh bl ch cl dh dl) + hi64 eh +
        (ucast (al + bl + cl + dl + el) + hi64 (if al + bl + cl + dl + el < el then 1 else 0))"
    by (simp only: sum64_5_hi_def sum64_5_lo_def sum64_4_hi_def join64_plus Let_def hi64_add add_ac)
  also have "\<dots> = join64 (sum64_4_hi ah al bh bl ch cl dh dl) (sum64_4_lo ah al bh bl ch cl dh dl) + join64 eh el"
    unfolding carry_swapped [symmetric] by (simp only: join64_plus sum64_4_lo_def add_ac)
  finally show ?thesis by (simp only: sum64_4_join)
qed

section \<open>The block function on 64-bit words\<close>

definition rotr64 :: "nat \<Rightarrow> word64 \<Rightarrow> word64" where
  "rotr64 n w = drop_bit n w OR push_bit (64 - n) w"

lemma bit_rotate:
  fixes a b :: "'a :: len word"
  assumes "LENGTH('a) = N" and "0 < n" "n < N" "m < N"
  shows "bit (push_bit (N - n) a OR drop_bit n b) m \<longleftrightarrow> (if m + n < N then bit b (m + n) else bit a (m + n - N))"
proof (cases "m + n < N")
  case True
  with assms have "\<not> N - n \<le> m" by simp
  with True assms show ?thesis by (simp add: bit_simps add.commute)
next
  case False
  then have "\<not> bit b (m + n)" using assms(1) by (auto dest: bit_imp_le_length)
  with False assms show ?thesis by (auto simp: bit_simps add.commute)
qed

lemma bit_halves:
  assumes "0 < n" "n < 32" "m < 32"
  shows "bit (rotr64_hi h l n) m \<longleftrightarrow> (if m + n < 32 then bit h (m + n) else bit l (m + n - 32))"
    and "bit (rotr64_lo h l n) m \<longleftrightarrow> (if m + n < 32 then bit l (m + n) else bit h (m + n - 32))"
    and "bit (shr64_lo h l n) m \<longleftrightarrow> (if m + n < 32 then bit l (m + n) else bit h (m + n - 32))"
    and "bit (shr64_hi h l n) m \<longleftrightarrow> m + n < 32 \<and> bit h (m + n)"
proof -
  note r = bit_rotate [of 32 n m, where 'a = 32]
  show "bit (rotr64_hi h l n) m \<longleftrightarrow> (if m + n < 32 then bit h (m + n) else bit l (m + n - 32))"
    "bit (rotr64_lo h l n) m \<longleftrightarrow> (if m + n < 32 then bit l (m + n) else bit h (m + n - 32))"
    "bit (shr64_lo h l n) m \<longleftrightarrow> (if m + n < 32 then bit l (m + n) else bit h (m + n - 32))"
    unfolding rotr64_hi_def rotr64_lo_def shr64_lo_def by (rule r; use assms in simp)+
  show "bit (shr64_hi h l n) m \<longleftrightarrow> m + n < 32 \<and> bit h (m + n)"
    by (auto simp: shr64_hi_def bit_drop_bit_eq add.commute dest: bit_imp_le_length)
qed

lemma bit_rotr64:
  assumes "0 < n" "n < 64" "m < 64"
  shows "bit (rotr64 n w) m \<longleftrightarrow> (if m + n < 64 then bit w (m + n) else bit w (m + n - 64))"
  unfolding rotr64_def or.commute [of "drop_bit n w"] by (rule bit_rotate) (use assms in simp_all)

lemma bit_rotr64_swapped:
  assumes "0 < n" "n < 32" "m < 32"
  shows "bit (rotr64 (n + 32) w) m \<longleftrightarrow> (if m + n < 32 then bit w (m + n + 32) else bit w (m + n - 32))"
    and "bit (rotr64 (n + 32) w) (m + 32) \<longleftrightarrow> bit w (m + n)"
proof -
  have "m + (n + 32) - 64 = m + n - 32" "m + 32 + (n + 32) - 64 = m + n" by simp_all
  with assms show "bit (rotr64 (n + 32) w) m \<longleftrightarrow> (if m + n < 32 then bit w (m + n + 32) else bit w (m + n - 32))"
    "bit (rotr64 (n + 32) w) (m + 32) \<longleftrightarrow> bit w (m + n)"
    using bit_rotr64 [of "n + 32" m w] bit_rotr64 [of "n + 32" "m + 32" w] by (simp_all add: add.assoc)
qed

lemma join64_eqI:
  assumes "\<And>m. m < 32 \<Longrightarrow> bit l m \<longleftrightarrow> bit w m" and "\<And>m. m < 32 \<Longrightarrow> bit h m \<longleftrightarrow> bit w (m + 32)"
  shows "join64 h l = w"
proof (rule bit_word_eqI)
  fix m
  assume "m < LENGTH(64)"
  then have m: "m < 64" by simp
  show "bit (join64 h l) m \<longleftrightarrow> bit w m"
  proof (cases "m < 32")
    case False
    then obtain k where "m = k + 32" by (metis add.commute le_add_diff_inverse not_less)
    with m assms(2) [of k] show ?thesis by (simp add: bit_join64)
  qed (simp add: bit_join64 assms(1))
qed

lemma rotr64_join:
  assumes "0 < n" "n < 32"
  shows "join64 (rotr64_hi h l n) (rotr64_lo h l n) = rotr64 n (join64 h l)"
    and "join64 (rotr64_hi l h n) (rotr64_lo l h n) = rotr64 (n + 32) (join64 h l)"
  using assms by (auto intro!: join64_eqI simp: bit_join64 bit_rotr64 bit_rotr64_swapped bit_halves simp del: One_nat_def)

lemma shr64_join:
  assumes "0 < n" "n < 32"
  shows "join64 (shr64_hi h l n) (shr64_lo h l n) = drop_bit n (join64 h l)"
  using assms by (auto intro!: join64_eqI simp: bit_join64 bit_halves bit_drop_bit_eq add.commute)

lemma xor_join: "join64 (a XOR b) (c XOR d) = join64 a c XOR join64 b d"
  by (rule bit_word_eqI) (simp add: bit_join64 bit_xor_iff)

lemma ch64_join: "join64 (ch64_hi xh xl yh yl zh) (ch64_lo xh xl yh yl zh zl) =
    (join64 xh xl AND join64 yh yl) XOR (NOT (join64 xh xl) AND join64 zh zl)"
  by (rule bit_word_eqI) (auto simp: bit_join64 ch64_hi_def ch64_lo_def bit_simps)

lemma maj64_join: "join64 (maj64_hi xh xl yh yl zh) (maj64_lo xh xl yh yl zh zl) =
    (join64 xh xl AND join64 yh yl) XOR (join64 xh xl AND join64 zh zl) XOR (join64 yh yl AND join64 zh zl)"
  by (rule bit_word_eqI) (auto simp: bit_join64 maj64_hi_def maj64_lo_def bit_simps)

text \<open>The functions and the block function of the standard, on 64-bit words.\<close>

definition Sigma0 :: "word64 \<Rightarrow> word64" where
  "Sigma0 x = rotr64 28 x XOR rotr64 34 x XOR rotr64 39 x"

definition Sigma1 :: "word64 \<Rightarrow> word64" where
  "Sigma1 x = rotr64 14 x XOR rotr64 18 x XOR rotr64 41 x"

definition sigma0 :: "word64 \<Rightarrow> word64" where
  "sigma0 x = rotr64 1 x XOR rotr64 8 x XOR drop_bit 7 x"

definition sigma1 :: "word64 \<Rightarrow> word64" where
  "sigma1 x = rotr64 19 x XOR rotr64 61 x XOR drop_bit 6 x"

definition extend64 :: "word64 list \<Rightarrow> nat \<Rightarrow> word64 list" where
  "extend64 W t = W @ [sigma1 (W ! (t - 2)) + W ! (t - 7) + sigma0 (W ! (t - 15)) + W ! (t - 16)]"

definition schedule64 :: "word64 list \<Rightarrow> word64 list" where
  "schedule64 msg = foldl extend64 msg [16..<80]"

type_synonym regs64 = "word64 \<times> word64 \<times> word64 \<times> word64 \<times> word64 \<times> word64 \<times> word64 \<times> word64"

definition round64 :: "word64 \<Rightarrow> word64 \<Rightarrow> regs64 \<Rightarrow> regs64" where
  "round64 k w = (\<lambda>(a, b, c, d, e, f, g, h).
     let t1 = h + Sigma1 e + ((e AND f) XOR (NOT e AND g)) + k + w;
         t2 = Sigma0 a + ((a AND b) XOR (a AND c) XOR (b AND c))
     in (t1 + t2, a, b, c, d + t1, e, f, g))"

fun pairs :: "word32 list \<Rightarrow> word64 list" where
  "pairs (h # l # ws) = join64 h l # pairs ws"
| "pairs _ = []"

definition compress64 :: "word64 list \<Rightarrow> word64 list \<Rightarrow> word64 list" where
  "compress64 H msg =
     (let W = schedule64 msg;
          (a, b, c, d, e, f, g, h) =
            foldl (\<lambda>r t. round64 (pairs sha512_K ! t) (W ! t) r)
              (H ! 0, H ! 1, H ! 2, H ! 3, H ! 4, H ! 5, H ! 6, H ! 7) [0..<80]
      in [a + H ! 0, b + H ! 1, c + H ! 2, d + H ! 3, e + H ! 4, f + H ! 5, g + H ! 6, h + H ! 7])"

section \<open>The code computes the block function of the standard\<close>

lemma functions_join:
  "join64 (s0_512_hi h l) (s0_512_lo h l) = Sigma0 (join64 h l)"
  "join64 (s1_512_hi h l) (s1_512_lo h l) = Sigma1 (join64 h l)"
  "join64 (g0_512_hi h l) (g0_512_lo h l) = sigma0 (join64 h l)"
  "join64 (g1_512_hi h l) (g1_512_lo h l) = sigma1 (join64 h l)"
  using rotr64_join(2) [of 2 l h] rotr64_join(2) [of 7 l h] rotr64_join(2) [of 9 l h] rotr64_join(2) [of 29 l h]
  by (simp_all add: s0_512_hi_def s0_512_lo_def s1_512_hi_def s1_512_lo_def g0_512_hi_def g0_512_lo_def g1_512_hi_def
      g1_512_lo_def Sigma0_def Sigma1_def sigma0_def sigma1_def xor_join rotr64_join(1) shr64_join)

lemma pairs_append: "even (length a) \<Longrightarrow> pairs (a @ b) = pairs a @ pairs b"
  by (induction a rule: pairs.induct) auto

lemma length_pairs: "length (pairs ws) = length ws div 2"
  by (induction ws rule: pairs.induct) auto

lemma pairs_nth: "2 * t + 1 < length ws \<Longrightarrow> pairs ws ! t = join64 (ws ! (2 * t)) (ws ! (2 * t + 1))"
proof (induction ws arbitrary: t rule: pairs.induct)
  case (1 h l ws)
  then show ?case by (cases t) auto
qed auto

lemma length_sum64: "length (sum64 hs p ah al) = length hs"
  by (simp add: sum64_def Let_def)

lemma pairs_sum64:
  assumes "2 * t + 1 < length hs"
  shows "pairs (sum64 hs (2 * t) ah al) = (pairs hs)[t := join64 ah al + pairs hs ! t]"
  using assms
proof (induction hs arbitrary: t rule: pairs.induct)
  case (1 h l ws)
  then show ?case
    using sum64_join [of ah al h l ah ah] by (cases t) (auto simp: sum64_def Let_def sum64_hi_def sum64_lo_def)
qed auto

lemma extend_join:
  assumes "length W = 2 * t" "16 \<le> t"
  shows "length (SHA512_extend W (2 * t)) = 2 * Suc t" "pairs (SHA512_extend W (2 * t)) = extend64 (pairs W) t"
proof -
  have n: "pairs W ! (t - k) = join64 (W ! (2 * t - 2 * k)) (W ! (2 * t - (2 * k - 1)))" if "0 < k" "k \<le> 16" for k
  proof -
    have "2 * (t - k) = 2 * t - 2 * k" "2 * (t - k) + 1 = 2 * t - (2 * k - 1)" using that assms(2) by simp_all
    with pairs_nth [of "t - k" W] that assms show ?thesis by simp
  qed
  show "length (SHA512_extend W (2 * t)) = 2 * Suc t" using assms(1) by (simp add: SHA512_extend_def Let_def)
  show "pairs (SHA512_extend W (2 * t)) = extend64 (pairs W) t"
    using assms n [of 2] n [of 7] n [of 15] n [of 16]
    by (simp add: SHA512_extend_def extend64_def Let_def pairs_append sum64_4_join functions_join)
qed

lemma schedule_join:
  assumes "length msg = 32"
  shows "length (SHA512_prepareBlock msg) = 160" "pairs (SHA512_prepareBlock msg) = schedule64 (pairs msg)"
proof -
  have "length (foldl SHA512_extend msg (map (\<lambda>t. 2 * t) [16..<m])) = 2 * m \<and>
      pairs (foldl SHA512_extend msg (map (\<lambda>t. 2 * t) [16..<m])) = foldl extend64 (pairs msg) [16..<m]" if "16 \<le> m" for m
    using that
  proof (induction m rule: dec_induct)
    case (step n)
    then show ?case using extend_join [of _ n] by simp
  qed (simp add: assms)
  from this [of 80] assms show "length (SHA512_prepareBlock msg) = 160" "pairs (SHA512_prepareBlock msg) = schedule64 (pairs msg)"
    by (simp_all only: SHA512_prepareBlock_def schedule64_def) simp_all
qed

definition join_regs :: "regs512 \<Rightarrow> regs64" where
  "join_regs = (\<lambda>((ah, al), (bh, bl), (ch, cl), (dh, dl), (eh, el), (fh, fl), (gh, gl), (hh, hl)).
     (join64 ah al, join64 bh bl, join64 ch cl, join64 dh dl, join64 eh el, join64 fh fl, join64 gh gl, join64 hh hl))"

lemma round_join:
  assumes "2 * t + 1 < length W" and "t < 80"
  shows "join_regs (SHA512_round W r (2 * t)) = round64 (pairs sha512_K ! t) (pairs W ! t) (join_regs r)"
proof -
  have "length sha512_K = 160" by code_simp
  then have k: "pairs sha512_K ! t = join64 (sha512_K ! (2 * t)) (sha512_K ! (2 * t + 1))"
    using assms(2) by (intro pairs_nth) simp
  obtain ah al bh bl ch cl dh dl eh el fh fl gh gl hh hl where
    r: "r = ((ah, al), (bh, bl), (ch, cl), (dh, dl), (eh, el), (fh, fl), (gh, gl), (hh, hl))" by (metis prod.exhaust)
  show ?thesis
    by (simp add: r SHA512_round_def round64_def join_regs_def Let_def k pairs_nth [OF assms(1)] sum64_join
        sum64_5_join functions_join ch64_join maj64_join)
qed

lemma rounds_join:
  assumes "length W = 160" and "m \<le> 80"
  shows "join_regs (foldl (SHA512_round W) r (map (\<lambda>t. 2 * t) [0..<m])) =
    foldl (\<lambda>r t. round64 (pairs sha512_K ! t) (pairs W ! t) r) (join_regs r) [0..<m]"
  using assms(2)
proof (induction m)
  case (Suc m)
  then show ?case using round_join [of m W] assms(1) by (simp del: foldl_map)
qed simp

text \<open>
  C35: The block function of \<open>SHA512\<close>, computed on 32-bit halves with explicit carries, is the SHA-512 block function
  of the standard on 64-bit words.
\<close>
theorem sha512_halves:
  assumes "length hs = 16" and "length msg = 32"
  shows "pairs (SHA512_update hs msg) = compress64 (pairs hs) (pairs msg)"
proof -
  let ?W = "SHA512_prepareBlock msg"
  let ?r0 = "((hs ! 0, hs ! 1), (hs ! 2, hs ! 3), (hs ! 4, hs ! 5), (hs ! 6, hs ! 7),
               (hs ! 8, hs ! 9), (hs ! 10, hs ! 11), (hs ! 12, hs ! 13), (hs ! 14, hs ! 15))"
  obtain ah al bh bl ch cl dh dl eh el fh fl gh gl hh hl where
    r: "foldl (SHA512_round ?W) ?r0 (map (\<lambda>t. 2 * t) [0..<80]) =
      ((ah, al), (bh, bl), (ch, cl), (dh, dl), (eh, el), (fh, fl), (gh, gl), (hh, hl))"
    by (metis prod.exhaust)
  note W = schedule_join [OF assms(2)]
  have nth: "pairs hs ! t = join64 (hs ! (2 * t)) (hs ! (2 * t + 1))" if "t < 8" for t
    using that assms(1) by (intro pairs_nth) simp
  have r0: "join_regs ?r0 = (pairs hs ! 0, pairs hs ! 1, pairs hs ! 2, pairs hs ! 3, pairs hs ! 4, pairs hs ! 5, pairs hs ! 6, pairs hs ! 7)"
    using nth [of 0] nth [of 1] nth [of 2] nth [of 3] nth [of 4] nth [of 5] nth [of 6] nth [of 7] by (simp add: join_regs_def)
  have fin: "foldl (\<lambda>r t. round64 (pairs sha512_K ! t) (schedule64 (pairs msg) ! t) r)
      (pairs hs ! 0, pairs hs ! 1, pairs hs ! 2, pairs hs ! 3, pairs hs ! 4, pairs hs ! 5, pairs hs ! 6, pairs hs ! 7) [0..<80] =
     (join64 ah al, join64 bh bl, join64 ch cl, join64 dh dl, join64 eh el, join64 fh fl, join64 gh gl, join64 hh hl)"
    using rounds_join [of ?W 80 ?r0] W unfolding r0 r by (simp add: join_regs_def)
  have "pairs (SHA512_update hs msg) = (pairs hs)[0 := join64 ah al + pairs hs ! 0, 1 := join64 bh bl + pairs hs ! 1,
      2 := join64 ch cl + pairs hs ! 2, 3 := join64 dh dl + pairs hs ! 3, 4 := join64 eh el + pairs hs ! 4,
      5 := join64 fh fl + pairs hs ! 5, 6 := join64 gh gl + pairs hs ! 6, 7 := join64 hh hl + pairs hs ! 7]"
    using pairs_sum64 [of 0] pairs_sum64 [of 1] pairs_sum64 [of 2] pairs_sum64 [of 3] pairs_sum64 [of 4] pairs_sum64 [of 5]
      pairs_sum64 [of 6] pairs_sum64 [of 7] r assms(1)
    by (simp only: SHA512_update_def Let_def prod.case) (simp add: length_sum64)
  moreover have "length (pairs hs) = 8" using assms(1) by (simp add: length_pairs)
  then obtain h0 h1 h2 h3 h4 h5 h6 h7 where "pairs hs = [h0, h1, h2, h3, h4, h5, h6, h7]"
    by (auto simp: numeral_eq_Suc length_Suc_conv)
  ultimately show ?thesis using fin by (simp add: compress64_def)
qed


theorem sha512_halves_witness:
  "pairs (SHA512_update (h_init SHA512) (replicate 32 1)) = compress64 (pairs (h_init SHA512)) (pairs (replicate 32 1))"
  by (rule sha512_halves) (simp_all add: SHA512_def)

lemma compress_length_512: "length hs = 16 \<Longrightarrow> length (SHA512_update hs ws) = 16"
  by (simp add: SHA512_update_def length_sum64 Let_def case_prod_beta)

interpretation sha512: block_alg SHA512
  by unfold_locales (simp_all add: SHA512_def compress_length_512)

interpretation sha384: block_alg SHA384
  by unfold_locales (simp_all add: SHA384_def SHA512_def compress_length_512)

lemma length_sha512 [simp]: "length (Hash_sha512 b) = 64"
  using sha512.length_run_hash by (simp add: Hash_sha512_def SHA512_def)

section \<open>HMAC as specified\<close>

definition hmac_key :: "(bytes \<Rightarrow> bytes) \<Rightarrow> nat \<Rightarrow> bytes \<Rightarrow> bytes" where
  "hmac_key H B K = (let K = (if length K > B then H K else K) in K @ replicate (B - length K) 0)"

definition hmac_ref :: "(bytes \<Rightarrow> bytes) \<Rightarrow> nat \<Rightarrow> bytes \<Rightarrow> bytes \<Rightarrow> bytes" where
  "hmac_ref H B data K = H (map (\<lambda>b. b XOR 0x5c) (hmac_key H B K) @ H (map (\<lambda>b. b XOR 0x36) (hmac_key H B K) @ data))"

lemma pad_key_at:
  assumes "length K \<le> B"
  shows "map (\<lambda>i. c XOR key_at K i) [0..<B] = map (\<lambda>b. b XOR c) (K @ replicate (B - length K) 0)"
  by (rule nth_equalityI) (use assms in \<open>auto simp: key_at_def nth_append xor.commute\<close>)

lemma hmac_eq:
  assumes "\<And>x. length (H x) \<le> B"
  shows "Hash_hmac lt H B data K = hmac_ref H B data K"
proof -
  have "key_at (K @ replicate (B - length K) 0) i = key_at K i" if "length K \<le> B" for i
    using that by (auto simp: key_at_def nth_append)
  then show ?thesis using pad_key_at [of "H K" B] pad_key_at [of K B] assms
    by (simp add: Hash_hmac_def hmac_ref_def hmac_key_def Let_def)
qed

text \<open>
  \<open>Hash.hmac\<close> is HMAC as RFC 2104 specifies it for both hash functions, whatever the comparison of the key with a
  number gives.
\<close>
theorem hmac_rfc2104:
  "Hash_hmac lt Hash_sha256 64 data K = hmac_ref Hash_sha256 64 data K \<and>
   Hash_hmac lt Hash_sha512 128 data K = hmac_ref Hash_sha512 128 data K"
  by (simp add: hmac_eq)

lemma length_hmac [simp]: "length (Hash_sha256hmac data K) = 32" "length (Hash_sha512hmac data K) = 64"
  by (simp_all add: Hash_sha256hmac_def Hash_sha512hmac_def Hash_hmac_def Let_def)

end
