(* ===== verification/Ecdsa.thy ===== *)
theory Ecdsa
  imports Keys Sha512
begin

text \<open>
  \<open>ECDSA\<close> of magnachain.js.  An object is the record \<open>ecdsa\<close>, whose fields may be undefined; a method that changes the object
  returns it with its result, also when it throws.  The searches for a nonce and for a signature may run forever, which is
  \<open>None\<close>.  \<open>JSON\<close> strings of objects are left out.
\<close>

section \<open>Objects\<close>

record ecdsa =
  e_hashbuf :: "bytes option"
  e_endian :: "string option"
  e_privkey :: "private_key option"
  e_pubkey :: "public_key option"
  e_sig :: "signature option"
  e_k :: "int option"
  e_verified :: "bool option"

definition new_ECDSA :: ecdsa where
  "new_ECDSA = \<lparr>e_hashbuf = None, e_endian = None, e_privkey = None, e_pubkey = None, e_sig = None, e_k = None, e_verified = None\<rparr>"

definition little_endian :: "ecdsa \<Rightarrow> bool" where
  "little_endian this \<longleftrightarrow> e_endian this = Some ''little''"

definition or_this :: "'a option \<Rightarrow> 'a option \<Rightarrow> 'a option" where
  "or_this x y = (if x = None then y else x)"

definition ECDSA_set :: "ec_params \<Rightarrow> net_state \<Rightarrow> ecdsa \<Rightarrow> ecdsa \<Rightarrow> unit result \<times> ecdsa" where
  "ECDSA_set ec st this obj =
     (let this1 = this\<lparr>e_hashbuf := or_this (e_hashbuf obj) (e_hashbuf this),
                       e_endian := (if truthy_str (e_endian obj) then e_endian obj else e_endian this),
                       e_privkey := or_this (e_privkey obj) (e_privkey this)\<rparr>;
          pub = (case e_pubkey obj of
                   Some p \<Rightarrow> Inr (Some p)
                 | None \<Rightarrow>
                     (case e_privkey this1 of
                        Some k \<Rightarrow> rbind (PrivateKey_toPublicKey ec st k) (\<lambda>p. Inr (Some p))
                      | None \<Rightarrow> Inr (e_pubkey this1)))
      in case pub of
           Inl err \<Rightarrow> (Inl err, this1)
         | Inr p \<Rightarrow>
             (Inr (), this1\<lparr>e_pubkey := p, e_sig := or_this (e_sig obj) (e_sig this1), e_k := or_this (e_k obj) (e_k this1),
                            e_verified := (if e_verified obj = Some True then Some True else e_verified this1)\<rparr>))"

definition ECDSA_privkey2pubkey :: "ec_params \<Rightarrow> net_state \<Rightarrow> ecdsa \<Rightarrow> unit result \<times> ecdsa" where
  "ECDSA_privkey2pubkey ec st this =
     (case e_privkey this of
        None \<Rightarrow> (Inl (TypeError ''Cannot read property 'toPublicKey' of undefined''), this)
      | Some k \<Rightarrow>
          (case PrivateKey_toPublicKey ec st k of
             Inl err \<Rightarrow> (Inl err, this)
           | Inr p \<Rightarrow> (Inr (), this\<lparr>e_pubkey := Some p\<rparr>)))"

section \<open>Nonces\<close>

text \<open>\<open>randomK\<close> on the buffers that \<open>Random.getRandomBuffer(32)\<close> returns.\<close>

fun ECDSA_randomK :: "ec_params \<Rightarrow> bytes list \<Rightarrow> ecdsa \<Rightarrow> ecdsa option" where
  "ECDSA_randomK ec [] this = None"
| "ECDSA_randomK ec (b # rest) this =
     (let k = BN_fromBuffer b False in
      if k < ec_n ec \<and> k > 0 then Some (this\<lparr>e_k := Some k\<rparr>) else ECDSA_randomK ec rest this)"

partial_function (option) k_loop :: "int \<Rightarrow> nat \<Rightarrow> nat \<Rightarrow> bytes \<Rightarrow> bytes \<Rightarrow> int \<Rightarrow> int option" where
  "k_loop N badrs i k v T =
     (if i < badrs \<or> \<not> (T < N \<and> T > 0) then
        let k = Hash_sha256hmac (Buffer_concat [v, [0]]) k;
            v = Hash_sha256hmac v k;
            v = Hash_sha256hmac v k
        in k_loop N badrs (i + 1) k v (BN_fromBuffer v False)
      else Some T)"

definition deterministic_start :: "bytes \<Rightarrow> bytes \<Rightarrow> bytes \<times> bytes" where
  "deterministic_start x hashbuf =
     (let v = replicate 32 1; k = replicate 32 0;
          k = Hash_sha256hmac (Buffer_concat [v, [0], x, hashbuf]) k;
          v = Hash_sha256hmac v k;
          k = Hash_sha256hmac (Buffer_concat [v, [1], x, hashbuf]) k;
          v = Hash_sha256hmac v k;
          v = Hash_sha256hmac v k
      in (k, v))"

definition ECDSA_deterministicK :: "ec_params \<Rightarrow> nat \<Rightarrow> ecdsa \<Rightarrow> (unit result \<times> ecdsa) option" where
  "ECDSA_deterministicK ec badrs this =
     (case e_privkey this of
        None \<Rightarrow> Some (Inl (TypeError ''Cannot read property 'bn' of undefined''), this)
      | Some priv \<Rightarrow>
          (case e_hashbuf this of
             None \<Rightarrow> Some (Inl (TypeError ''Cannot read property 'length' of undefined''), this)
           | Some h \<Rightarrow>
               let x = BN_toBuffer (priv_bn priv) 32 False;
                   hashbuf = (if little_endian this then BufferUtil_reverse h else h);
                   (k, v) = deterministic_start x hashbuf
               in map_option (\<lambda>T. (Inr (), this\<lparr>e_k := Some T\<rparr>)) (k_loop (ec_n ec) badrs 0 k v (BN_fromBuffer v False))))"

section \<open>Signing\<close>

definition ECDSA_toLowS :: "ec_params \<Rightarrow> int \<Rightarrow> int" where
  "ECDSA_toLowS ec s =
     (if s > 0x7FFFFFFFFFFFFFFFFFFFFFFFFFFFFFFF5D576E7357A4501DDFE92F46681B20A0 then ec_n ec - s else s)"

text \<open>The body of the search: \<open>r\<close> and \<open>s\<close> for the nonce \<open>k\<close>.\<close>

definition sign_with :: "ec_params \<Rightarrow> int \<Rightarrow> int \<Rightarrow> int \<Rightarrow> (int \<times> int) result" where
  "sign_with ec d e k =
     rbind (ShortPoint_mul (ec_curve ec) (ec_g ec) k) (\<lambda>Q.
       case Q of
         Infinity \<Rightarrow> Inl (TypeError ''Cannot read property 'umod' of null'')
       | Affine x y \<Rightarrow>
           let r = BN_umod x (ec_n ec)
           in rbind (BN_invm k (ec_n ec)) (\<lambda>kinv. Inr (r, BN_umod (kinv * (e + d * r)) (ec_n ec))))"

definition next_k :: "ec_params \<Rightarrow> nat \<Rightarrow> ecdsa \<Rightarrow> (unit result \<times> ecdsa) option" where
  "next_k ec badrs this = (if e_k this = None \<or> badrs > 0 then ECDSA_deterministicK ec badrs this else Some (Inr (), this))"

partial_function (option) find_loop :: "ec_params \<Rightarrow> int \<Rightarrow> int \<Rightarrow> nat \<Rightarrow> ecdsa \<Rightarrow> ((int \<times> int) result \<times> ecdsa) option" where
  "find_loop ec d e badrs this =
     Option.bind (next_k ec badrs this) (\<lambda>(res, this).
       case res of
         Inl err \<Rightarrow> Some (Inl err, this)
       | Inr _ \<Rightarrow>
           (case sign_with ec d e (the (e_k this)) of
              Inl err \<Rightarrow> Some (Inl err, this)
            | Inr (r, s) \<Rightarrow>
                if r \<le> 0 \<or> s \<le> 0 then find_loop ec d e (badrs + 1) this
                else Some (Inr (r, ECDSA_toLowS ec s), this)))"

definition ECDSA_findSignature :: "ec_params \<Rightarrow> int \<Rightarrow> int \<Rightarrow> ecdsa \<Rightarrow> ((int \<times> int) result \<times> ecdsa) option" where
  "ECDSA_findSignature ec d e this = find_loop ec d e 0 this"

definition ECDSA_sign :: "ec_params \<Rightarrow> ecdsa \<Rightarrow> (unit result \<times> ecdsa) option" where
  "ECDSA_sign ec this =
     (case e_privkey this of
        None \<Rightarrow> Some (Inl (TypeError ''Cannot read property 'bn' of undefined''), this)
      | Some priv \<Rightarrow>
          (case e_hashbuf this of
             None \<Rightarrow> Some (Inl (InvalidState ''invalid parameters''), this)
           | Some h \<Rightarrow>
               if length h \<noteq> 32 then Some (Inl (InvalidState ''hashbuf must be a 32 byte buffer''), this)
               else
                 Option.bind (ECDSA_findSignature ec (priv_bn priv) (BN_fromBuffer h (little_endian this)) this) (\<lambda>(res, this).
                   case res of
                     Inl err \<Rightarrow> Some (Inl err, this)
                   | Inr (r, s) \<Rightarrow>
                       (case e_pubkey this of
                          None \<Rightarrow> Some (Inl (TypeError ''Cannot read property 'compressed' of undefined''), this)
                        | Some pub \<Rightarrow>
                            Some (Inr (), this\<lparr>e_sig := Some ((new_Signature r s)\<lparr>sig_compressed := Some (pk_compressed pub)\<rparr>)\<rparr>)))))"

definition ECDSA_signRandomK :: "ec_params \<Rightarrow> bytes list \<Rightarrow> ecdsa \<Rightarrow> (unit result \<times> ecdsa) option" where
  "ECDSA_signRandomK ec bufs this = Option.bind (ECDSA_randomK ec bufs this) (ECDSA_sign ec)"

section \<open>Verification\<close>

text \<open>\<open>Inr None\<close> is the result \<open>false\<close>, of a valid signature.\<close>

definition ECDSA_sigError :: "ec_params \<Rightarrow> ecdsa \<Rightarrow> string option result" where
  "ECDSA_sigError ec this =
     (case e_hashbuf this of
        None \<Rightarrow> Inr (Some ''hashbuf must be a 32 byte buffer'')
      | Some h \<Rightarrow>
          if length h \<noteq> 32 then Inr (Some ''hashbuf must be a 32 byte buffer'')
          else
            case e_sig this of
              None \<Rightarrow> Inl (TypeError ''Cannot read property 'r' of undefined'')
            | Some sg \<Rightarrow>
                let r = sig_r sg; s = sig_s sg; n = ec_n ec in
                if \<not> (r > 0 \<and> r < n) \<or> \<not> (s > 0 \<and> s < n) then Inr (Some ''r and s not in range'')
                else
                  let e = BN_fromBuffer h (little_endian this) in
                  rbind (BN_invm s n) (\<lambda>sinv.
                  let u1 = BN_umod (sinv * e) n; u2 = BN_umod (sinv * r) n in
                  case e_pubkey this of
                    None \<Rightarrow> Inl (TypeError ''Cannot read property 'point' of undefined'')
                  | Some pub \<Rightarrow>
                      rbind (ShortPoint_mulAdd (ec_curve ec) (ec_g ec) u1 (pk_point pub) u2) (\<lambda>p.
                        case p of
                          Infinity \<Rightarrow> Inr (Some ''p is infinity'')
                        | Affine x y \<Rightarrow> Inr (if BN_umod x n \<noteq> r then Some ''Invalid signature'' else None))))"

definition ECDSA_verify :: "ec_params \<Rightarrow> ecdsa \<Rightarrow> unit result \<times> ecdsa" where
  "ECDSA_verify ec this =
     (case ECDSA_sigError ec this of
        Inl err \<Rightarrow> (Inl err, this)
      | Inr res \<Rightarrow> (Inr (), this\<lparr>e_verified := Some (res = None)\<rparr>))"

text \<open>The static methods, each on an object of its own.\<close>

definition ECDSA_sign_static ::
    "ec_params \<Rightarrow> net_state \<Rightarrow> bytes \<Rightarrow> private_key \<Rightarrow> string option \<Rightarrow> signature result option" where
  "ECDSA_sign_static ec st hashbuf privkey endian =
     (case ECDSA_set ec st new_ECDSA
             (new_ECDSA\<lparr>e_hashbuf := Some hashbuf, e_endian := endian, e_privkey := Some privkey\<rparr>) of
        (Inl err, _) \<Rightarrow> Some (Inl err)
      | (Inr _, this) \<Rightarrow>
          map_option (\<lambda>(res, this). rbind res (\<lambda>_. Inr (the (e_sig this)))) (ECDSA_sign ec this))"

definition ECDSA_verify_static ::
    "ec_params \<Rightarrow> net_state \<Rightarrow> bytes \<Rightarrow> signature \<Rightarrow> public_key \<Rightarrow> string option \<Rightarrow> bool result" where
  "ECDSA_verify_static ec st hashbuf sg pubkey endian =
     (case ECDSA_set ec st new_ECDSA
             (new_ECDSA\<lparr>e_hashbuf := Some hashbuf, e_endian := endian, e_sig := Some sg, e_pubkey := Some pubkey\<rparr>) of
        (Inl err, _) \<Rightarrow> Inl err
      | (Inr _, this) \<Rightarrow> (case ECDSA_verify ec this of (res, this) \<Rightarrow> rbind res (\<lambda>_. Inr (e_verified this = Some True))))"

section \<open>Recovery of the public key\<close>

definition ECDSA_toPublicKey :: "ec_params \<Rightarrow> net_state \<Rightarrow> ecdsa \<Rightarrow> public_key result" where
  "ECDSA_toPublicKey ec st this =
     (case e_sig this of
        None \<Rightarrow> Inl (TypeError ''Cannot read property 'i' of undefined'')
      | Some sg \<Rightarrow>
          (case sig_i sg of
             None \<Rightarrow> Inl (InvalidArgument ''i must be equal to 0, 1, 2, or 3'')
           | Some i \<Rightarrow>
               if \<not> i < 4 then Inl (InvalidArgument ''i must be equal to 0, 1, 2, or 3'')
               else
                 case e_hashbuf this of
                   None \<Rightarrow> Inl (InvalidArgument ''Invalid Argument'')
                 | Some h \<Rightarrow>
                     let e = BN_fromBuffer h False; r = sig_r sg; s = sig_s sg; cv = ec_curve ec; n = ec_n ec;
                         x = (if i div 2 = 1 then r + n else r)
                     in
                     rbind (Point_fromX ec (odd i) x) (\<lambda>R.
                     rbind (ShortPoint_mul cv R n) (\<lambda>nR.
                     if nR \<noteq> Infinity then Inl (PlainError ''nR is not a valid curve point'')
                     else
                       let eNeg = BN_umod (- e) n in
                       rbind (BN_invm r n) (\<lambda>rInv.
                       rbind (ShortPoint_mul cv R s) (\<lambda>sR.
                       rbind (ShortPoint_mul cv (ec_g ec) eNeg) (\<lambda>eG.
                       rbind (ShortPoint_mul cv (plain (ShortPoint_add cv sR eG)) rInv) (\<lambda>Q.
                         PublicKey_fromPoint ec st (plain Q) (sig_compressed sg)))))))))"

text \<open>The loop of \<open>calci\<close> over the factors from \<open>i\<close> on; errors of \<open>toPublicKey\<close> are caught.\<close>

fun calci_loop :: "ec_params \<Rightarrow> net_state \<Rightarrow> public_key option \<Rightarrow> nat list \<Rightarrow> ecdsa \<Rightarrow> unit result \<times> ecdsa" where
  "calci_loop ec st pub [] this =
     (Inl (PlainError ''Unable to find valid recovery factor''),
      this\<lparr>e_sig := map_option (\<lambda>sg. sg\<lparr>sig_i := None\<rparr>) (e_sig this)\<rparr>)"
| "calci_loop ec st pub (i # is) this =
     (let this = this\<lparr>e_sig := map_option (\<lambda>sg. sg\<lparr>sig_i := Some i\<rparr>) (e_sig this)\<rparr> in
      case ECDSA_toPublicKey ec st this of
        Inl _ \<Rightarrow> calci_loop ec st pub is this
      | Inr Qprime \<Rightarrow>
          (case pub of
             None \<Rightarrow> (Inl (TypeError ''Cannot read property 'point' of undefined''), this)
           | Some p \<Rightarrow>
               if sp_point (pk_point Qprime) = sp_point (pk_point p)
               then (Inr (), this\<lparr>e_sig := map_option (\<lambda>sg. sg\<lparr>sig_compressed := Some (pk_compressed p)\<rparr>) (e_sig this)\<rparr>)
               else calci_loop ec st pub is this))"

definition ECDSA_calci :: "ec_params \<Rightarrow> net_state \<Rightarrow> ecdsa \<Rightarrow> unit result \<times> ecdsa" where
  "ECDSA_calci ec st this =
     (if e_sig this = None then (Inl (TypeError ''Cannot set property 'i' of undefined''), this)
      else calci_loop ec st (e_pubkey this) [0, 1, 2, 3] this)"

end
