(* ===== verification/EcdsaProps.thy ===== *)
theory EcdsaProps
  imports KeyProps Ecdsa
begin

text \<open>
  \<open>ECDSA\<close>: the nonces, that signatures are made and verify, what a reused nonce gives away, and recovery of the public key.
  The theorems are on any curve with the properties \<open>ec_ok\<close>.
\<close>

section \<open>Nonces\<close>

text \<open>
  The candidates of RFC 6979, section 3.2, from the HMAC generator of NIST SP 800-90A: the update of the state \<open>(K, V)\<close> with
  data, the generation of one block, the seed of the generator with the private key and the hash (steps b to g), and an update
  without data after each candidate (step h).
\<close>

definition drbg_update :: "bytes option \<Rightarrow> bytes \<times> bytes \<Rightarrow> bytes \<times> bytes" where
  "drbg_update provided = (\<lambda>(K, V).
     let data = (case provided of None \<Rightarrow> [] | Some d \<Rightarrow> d);
         K1 = Hash_sha256hmac (V @ 0 # data) K; V1 = Hash_sha256hmac V K1;
         K2 = Hash_sha256hmac (V1 @ 1 # data) K1; V2 = Hash_sha256hmac V1 K2
     in if provided = None then (K1, V1) else (K2, V2))"

definition drbg_generate :: "bytes \<times> bytes \<Rightarrow> bytes \<times> bytes" where
  "drbg_generate = (\<lambda>(K, V). (K, Hash_sha256hmac V K))"

definition drbg_seed :: "bytes \<Rightarrow> bytes \<times> bytes" where
  "drbg_seed data = drbg_update (Some data) (replicate 32 0, replicate 32 1)"

definition next_state :: "bytes \<times> bytes \<Rightarrow> bytes \<times> bytes" where
  "next_state s = drbg_generate (drbg_update None s)"

definition candidate :: "private_key \<Rightarrow> bytes \<Rightarrow> nat \<Rightarrow> int" where
  "candidate priv hashbuf m =
     int (be_val (snd ((next_state ^^ m) (drbg_generate (drbg_seed (BN_toBuffer (priv_bn priv) 32 False @ hashbuf))))))"

lemma next_state_eq:
  "next_state (k, v) = (let k' = Hash_sha256hmac (v @ [0]) k; v' = Hash_sha256hmac v k' in (k', Hash_sha256hmac v' k'))"
  by (simp add: next_state_def drbg_update_def drbg_generate_def Let_def)

lemma deterministic_start_eq: "deterministic_start x h = drbg_generate (drbg_seed (x @ h))"
  by (simp add: deterministic_start_def drbg_generate_def drbg_seed_def drbg_update_def Let_def)

definition in_range :: "ec_params \<Rightarrow> int \<Rightarrow> bool" where
  "in_range ec k \<longleftrightarrow> 0 < k \<and> k < ec_n ec"

definition hash_be :: "ecdsa \<Rightarrow> bytes \<Rightarrow> bytes" where
  "hash_be this h = (if little_endian this then rev h else h)"

lemma k_loop_step:
  "k_loop N b i (fst s) (snd s) (int (be_val (snd s))) =
     (if b \<le> i \<and> 0 < int (be_val (snd s)) \<and> int (be_val (snd s)) < N then Some (int (be_val (snd s)))
      else k_loop N b (Suc i) (fst (next_state s)) (snd (next_state s)) (int (be_val (snd (next_state s)))))"
  by (subst k_loop.simps) (cases s; auto simp: Let_def next_state_eq BN_fromBuffer_eq split: prod.splits)

lemma k_loop_finds:
  assumes "b \<le> i + d" "0 < c d" "c d < N" "\<forall>j < d. b \<le> i + j \<longrightarrow> \<not> (0 < c j \<and> c j < N)"
    and "\<forall>j. c j = int (be_val (snd ((next_state ^^ j) s)))"
  shows "k_loop N b i (fst s) (snd s) (int (be_val (snd s))) = Some (c d)"
  using assms
proof (induction d arbitrary: i s c)
  case 0
  then show ?case by (subst k_loop_step) simp
next
  case (Suc d)
  have c0: "c 0 = int (be_val (snd s))" using Suc.prems(5) by simp
  have "k_loop N b (Suc i) (fst (next_state s)) (snd (next_state s)) (int (be_val (snd (next_state s)))) = Some (c (Suc d))"
    using Suc.prems by (intro Suc.IH) (auto simp: funpow_swap1)
  moreover have "\<not> (b \<le> i \<and> 0 < int (be_val (snd s)) \<and> int (be_val (snd s)) < N)"
    using Suc.prems(4) c0 by (metis Nat.add_0_right zero_less_Suc)
  ultimately show ?case by (subst k_loop_step) (simp only: if_False)
qed

lemma k_loop_only:
  assumes "k_loop N b i k v T = Some U" "T = int (be_val v)" "s = (k, v)"
  shows "\<exists>d. b \<le> i + d \<and> 0 < U \<and> U < N \<and> U = int (be_val (snd ((next_state ^^ d) s)))"
proof -
  have "T = int (be_val v) \<longrightarrow> (\<exists>d. b \<le> i + d \<and> 0 < U \<and> U < N \<and> U = int (be_val (snd ((next_state ^^ d) (k, v)))))"
    using assms(1)
  proof (rule k_loop.raw_induct [rotated], intro impI)
    fix loop N b i k v T U
    assume IH: "\<And>N b i k v T U. loop N b i k v T = Some U \<Longrightarrow>
        T = int (be_val v) \<longrightarrow> (\<exists>d. b \<le> i + d \<and> 0 < U \<and> U < N \<and> U = int (be_val (snd ((next_state ^^ d) (k, v)))))"
      and body: "(if i < b \<or> \<not> (T < N \<and> T > 0) then
        let k = Hash_sha256hmac (Buffer_concat [v, [0]]) k; v = Hash_sha256hmac v k; v = Hash_sha256hmac v k
        in loop N b (i + 1) k v (BN_fromBuffer v False) else Some T) = Some U"
      and T: "T = int (be_val v)"
    show "\<exists>d. b \<le> i + d \<and> 0 < U \<and> U < N \<and> U = int (be_val (snd ((next_state ^^ d) (k, v))))"
    proof (cases "i < b \<or> \<not> (T < N \<and> T > 0)")
      case True
      obtain k' v' where n: "next_state (k, v) = (k', v')" by (cases "next_state (k, v)")
      have "loop N b (Suc i) k' v' (int (be_val v')) = Some U"
        using body True n by (auto simp: Let_def next_state_eq BN_fromBuffer_eq)
      then obtain d where "b \<le> Suc i + d" "0 < U" "U < N" "U = int (be_val (snd ((next_state ^^ d) (k', v'))))"
        using IH by blast
      then show ?thesis using n by (intro exI [of _ "Suc d"]) (simp add: funpow_swap1)
    next
      case False
      then show ?thesis using body T by (intro exI [of _ 0]) auto
    qed
  qed
  then show ?thesis using assms(2,3) by simp
qed

lemma k_loop_start:
  fixes s :: "bytes \<times> bytes"
  defines "c \<equiv> \<lambda>m. int (be_val (snd ((next_state ^^ m) s)))"
  shows "k_loop N b 0 (fst s) (snd s) (int (be_val (snd s))) =
    (if \<exists>m. b \<le> m \<and> 0 < c m \<and> c m < N then Some (c (LEAST m. b \<le> m \<and> 0 < c m \<and> c m < N)) else None)"
proof (cases "\<exists>m. b \<le> m \<and> 0 < c m \<and> c m < N")
  case True
  define m where "m = (LEAST m. b \<le> m \<and> 0 < c m \<and> c m < N)"
  have "b \<le> m \<and> 0 < c m \<and> c m < N" unfolding m_def using True by (rule LeastI_ex)
  moreover have "\<not> (b \<le> j \<and> 0 < c j \<and> c j < N)" if "j < m" for j using not_less_Least that unfolding m_def by blast
  ultimately have "k_loop N b 0 (fst s) (snd s) (int (be_val (snd s))) = Some (c m)"
    by (intro k_loop_finds) (auto simp: c_def)
  then show ?thesis using True m_def by simp
next
  case False
  have "k_loop N b 0 (fst s) (snd s) (int (be_val (snd s))) \<noteq> Some U" for U
    using k_loop_only [of N b 0 "fst s" "snd s" "int (be_val (snd s))" U s] False unfolding c_def
    by (metis add_0 prod.collapse)
  then show ?thesis using False by auto
qed

lemma deterministicK_eq:
  assumes "e_privkey this = Some priv" "e_hashbuf this = Some h"
  shows "ECDSA_deterministicK ec badrs this =
    (if \<exists>m. badrs \<le> m \<and> in_range ec (candidate priv (hash_be this h) m)
     then Some (Inr (), this\<lparr>e_k := Some (candidate priv (hash_be this h)
       (LEAST m. badrs \<le> m \<and> in_range ec (candidate priv (hash_be this h) m)))\<rparr>)
     else None)"
proof -
  define s where "s = deterministic_start (BN_toBuffer (priv_bn priv) 32 False) (hash_be this h)"
  have "ECDSA_deterministicK ec badrs this =
      map_option (\<lambda>T. (Inr (), this\<lparr>e_k := Some T\<rparr>)) (k_loop (ec_n ec) badrs 0 (fst s) (snd s) (int (be_val (snd s))))"
    using assms by (simp add: ECDSA_deterministicK_def s_def hash_be_def BN_fromBuffer_eq split: prod.splits)
  then show ?thesis unfolding k_loop_start by (simp add: candidate_def in_range_def s_def deterministic_start_eq)
qed


section \<open>One signature\<close>

lemma in_range_coprime:
  assumes "ec_ok ec" "in_range ec k"
  shows "\<not> ec_n ec dvd k" "coprime k (ec_n ec)"
proof -
  show d: "\<not> ec_n ec dvd k" using assms(2) zdvd_imp_le [of "ec_n ec" k] by (auto simp: in_range_def)
  show "coprime k (ec_n ec)" by (rule prime_mod_coprime [OF ec_okD(7) [OF assms(1)] d])
qed

lemma BN_invm_range:
  assumes "ec_ok ec" "\<not> ec_n ec dvd k"
  obtains i where "BN_invm k (ec_n ec) = Inr i" "ec_n ec dvd i * k - 1"
  using BN_invm_inverse [OF ec_okD(11) prime_mod_coprime] ec_okD(7) assms by blast

text \<open>The numbers \<open>r\<close> and \<open>s\<close> for a nonce, as equations modulo the order.\<close>

definition signs_as :: "ec_params \<Rightarrow> int \<Rightarrow> int \<Rightarrow> int \<Rightarrow> int \<Rightarrow> int \<Rightarrow> bool" where
  "signs_as ec d e k r s \<longleftrightarrow>
     (\<exists>x y. gmul ec k = Affine x y \<and> r = x mod ec_n ec) \<and> 0 \<le> s \<and> s < ec_n ec \<and> ec_n ec dvd s * k - (e + d * r)"

lemma sign_with_cases:
  assumes "ec_ok ec" "0 \<le> k"
  shows "if ec_n ec dvd k then (\<exists>m. sign_with ec d e k = Inl (TypeError m))
    else \<exists>r s. sign_with ec d e k = Inr (r, s) \<and> signs_as ec d e k r s"
proof -
  note okd = ec_okD [OF assms(1)]
  let ?n = "ec_n ec"
  have mul: "ShortPoint_mul (ec_curve ec) (ec_g ec) k = Inr (gmul ec k)" using ShortPoint_mul_zmul [OF okd(1,6) assms(2)] .
  have inf: "gmul ec k = Infinity \<longleftrightarrow> ?n dvd k" by (rule zmul_infinity_iff [OF assms(1) okd(9,10)])
  show ?thesis
  proof (cases "gmul ec k")
    case Infinity
    then show ?thesis using mul inf by (simp add: sign_with_def)
  next
    case (Affine x y)
    then have "\<not> ?n dvd k" using inf by simp
    then obtain i where i: "BN_invm k ?n = Inr i" "?n dvd i * k - 1" by (rule BN_invm_range [OF assms(1)])
    define s where "s = i * (e + d * (x mod ?n)) mod ?n"
    have "sign_with ec d e k = Inr (x mod ?n, s)" using mul Affine i(1) okd(11) by (simp add: sign_with_def s_def Let_def)
    moreover have "s * k mod ?n = (e + d * (x mod ?n)) mod ?n"
    proof -
      have "i * k mod ?n = 1 mod ?n" using i(2) by (simp add: mod_eq_dvd_iff)
      then have "i * k * (e + d * (x mod ?n)) mod ?n = 1 * (e + d * (x mod ?n)) mod ?n" by (rule mod_mult_cong) simp
      then show ?thesis unfolding s_def by (metis mod_mult_left_eq mult.assoc mult.commute mult_1)
    qed
    ultimately show ?thesis using \<open>\<not> ?n dvd k\<close> Affine okd(11) by (auto simp: signs_as_def s_def mod_eq_dvd_iff)
  qed
qed

text \<open>
  The point of the verification: \<open>u1 * G + u2 * Q\<close> for a signature with \<open>s * k = \<plusminus> (e + d * r)\<close> is \<open>\<plusminus> k * G\<close>, which has the
  first coordinate of \<open>k * G\<close>.
\<close>

definition verify_point :: "ec_params \<Rightarrow> point \<Rightarrow> int \<Rightarrow> int \<Rightarrow> int \<Rightarrow> point" where
  "verify_point ec Q e r w = ShortPoint_add (ec_curve ec) (gmul ec (w * e)) (zmul (ec_curve ec) (w * r) Q)"

lemma verify_point_gmul:
  assumes "ec_ok ec" "ec_n ec dvd w * s - 1" "ec_n ec dvd s * k - (e + d * r)"
  shows "verify_point ec (gmul ec d) e r w = gmul ec k"
proof -
  note okd = ec_okD [OF assms(1)]
  have "zmul (ec_curve ec) (w * r) (gmul ec d) = gmul ec (w * r * d)" using zmul_mult [OF okd(2,9), of "w * r" d] by simp
  then have "verify_point ec (gmul ec d) e r w = gmul ec (w * e + w * r * d)"
    using zmul_add [OF okd(2,9)] by (simp add: verify_point_def)
  also have "\<dots> = gmul ec k"
  proof (rule ec_zmul_cong [OF assms(1) okd(9)])
    have "w * e + w * r * d - k = (w * s - 1) * k - w * (s * k - (e + d * r))" by (simp add: algebra_simps)
    then show "ec_n ec dvd w * e + w * r * d - k" using assms(2,3) by (simp only: dvd_diff dvd_mult dvd_mult2)
  qed
  finally show ?thesis .
qed

lemma gmul_minus_x:
  assumes "ec_ok ec" "gmul ec k = Affine x y"
  shows "\<exists>y'. gmul ec (- k) = Affine x y'"
proof -
  note okd = ec_okD [OF assms(1)]
  have "reduced (c_red (ec_curve ec)) x"
    using on_curve_ok [OF gmul_closed [OF assms(1), of k]] assms(2) by (simp add: point_ok_def)
  then show ?thesis
    using zmul_minus [OF okd(2,9), of k] assms(2) curve_okD(1) [OF okd(3)]
    by (simp add: ShortPoint_neg_def curve_point_def Red_convertTo reduced_mod_id)
qed

text \<open>What verification computes for numbers in range.\<close>

lemma sigError_eq:
  assumes "ec_ok ec" "e_hashbuf this = Some h" "length h = 32" "e_sig this = Some sg" "e_pubkey this = Some pub"
    and "sp_ok (ec_curve ec) (pk_point pub)" "in_range ec (sig_r sg)" "in_range ec (sig_s sg)"
  obtains w where "ec_n ec dvd w * sig_s sg - 1"
    "ECDSA_sigError ec this =
       Inr (case verify_point ec (sp_point (pk_point pub)) (BN_fromBuffer h (little_endian this)) (sig_r sg) w of
              Infinity \<Rightarrow> Some ''p is infinity''
            | Affine x y \<Rightarrow> if x mod ec_n ec \<noteq> sig_r sg then Some ''Invalid signature'' else None)"
proof -
  note okd = ec_okD [OF assms(1)]
  let ?n = "ec_n ec" and ?e = "BN_fromBuffer h (little_endian this)" and ?Q = "sp_point (pk_point pub)"
  obtain w where w: "BN_invm (sig_s sg) ?n = Inr w" "?n dvd w * sig_s sg - 1"
    by (rule BN_invm_range [OF assms(1) in_range_coprime(1) [OF assms(1,8)]])
  have Q: "on_curve (ec_curve ec) ?Q" using assms(6) by (simp add: sp_ok_def)
  have "0 \<le> w * ?e mod ?n" "0 \<le> w * sig_r sg mod ?n" using okd(11) by simp_all
  then have "ShortPoint_mulAdd (ec_curve ec) (ec_g ec) (w * ?e mod ?n) (pk_point pub) (w * sig_r sg mod ?n) =
      Inr (verify_point ec ?Q ?e (sig_r sg) w)"
    using ShortPoint_mulAdd_zmul [OF okd(1,6) assms(6)] ec_zmul_mod [OF assms(1) okd(9)] ec_zmul_mod [OF assms(1) Q]
    by (simp add: verify_point_def)
  then have "ECDSA_sigError ec this =
       Inr (case verify_point ec ?Q ?e (sig_r sg) w of
              Infinity \<Rightarrow> Some ''p is infinity''
            | Affine x y \<Rightarrow> if x mod ?n \<noteq> sig_r sg then Some ''Invalid signature'' else None)"
    using assms(2-5,7,8) w(1) okd(11)
    by (simp add: ECDSA_sigError_def Let_def in_range_def split: point.splits)
  with w(2) show thesis by (rule that)
qed

section \<open>The search for a signature\<close>

definition good_nonce :: "ec_params \<Rightarrow> int \<Rightarrow> int \<Rightarrow> int \<Rightarrow> bool" where
  "good_nonce ec d e k \<longleftrightarrow> in_range ec k \<and> (\<exists>r s. signs_as ec d e k r s \<and> 0 < r \<and> 0 < s)"

lemma signs_as_unique:
  assumes "ec_ok ec" "in_range ec k" "signs_as ec d e k r s" "signs_as ec d e k r' s'"
  shows "r' = r \<and> s' = s"
proof -
  have r: "r' = r" using assms(3,4) by (auto simp: signs_as_def)
  then have "ec_n ec dvd (s * k - (e + d * r)) - (s' * k - (e + d * r))" using assms(3,4) unfolding signs_as_def by (blast intro: dvd_diff)
  then have "ec_n ec dvd (s - s') * k" by (simp add: algebra_simps)
  then have "ec_n ec dvd s - s'"
    using prime_mod_dvd_mult [OF ec_okD(7) [OF assms(1)]] in_range_coprime(1) [OF assms(1,2)] by blast
  then show ?thesis using r assms(3,4) reduced_eq_iff [of s "ec_n ec" s'] by (auto simp: signs_as_def)
qed

lemma toLowS:
  assumes "in_range ec s"
  shows "in_range ec (ECDSA_toLowS ec s)" "ECDSA_toLowS ec s = s \<or> ECDSA_toLowS ec s = ec_n ec - s"
  using assms by (auto simp: ECDSA_toLowS_def in_range_def)

lemma e_k_id: "e_k this = Some k \<Longrightarrow> this\<lparr>e_k := Some k\<rparr> = (this :: ecdsa)"
  by (cases this) simp

lemma next_k_ok:
  assumes "ec_ok ec" "next_k ec b this = Some (Inr u, this')" "\<forall>k. e_k this = Some k \<longrightarrow> 0 \<le> k"
  shows "\<exists>k. this' = this\<lparr>e_k := Some k\<rparr> \<and> 0 \<le> k \<and> (b = 0 \<and> e_k this = Some k \<or> in_range ec k)"
proof (cases "e_k this = None \<or> b > 0")
  case True
  then have d: "ECDSA_deterministicK ec b this = Some (Inr u, this')" using assms(2) by (simp add: next_k_def)
  then obtain priv h where ph: "e_privkey this = Some priv" "e_hashbuf this = Some h"
    by (auto simp: ECDSA_deterministicK_def split: option.splits)
  let ?c = "candidate priv (hash_be this h)"
  let ?m = "LEAST m. b \<le> m \<and> in_range ec (?c m)"
  have ex: "\<exists>m. b \<le> m \<and> in_range ec (?c m)"
    using d unfolding deterministicK_eq [OF ph] by (metis option.distinct(1))
  have t: "this' = this\<lparr>e_k := Some (?c ?m)\<rparr>"
    using d unfolding deterministicK_eq [OF ph] if_P [OF ex] option.inject prod.inject by blast
  from ex have "b \<le> ?m \<and> in_range ec (?c ?m)" by (rule LeastI_ex)
  then have "in_range ec (?c ?m)" "0 \<le> ?c ?m" by (simp_all add: in_range_def)
  then show ?thesis using t by blast
next
  case False
  then obtain k where "e_k this = Some k" "b = 0" by auto
  then show ?thesis using assms(2,3) e_k_id [of this k] by (intro exI [of _ k]) (simp add: next_k_def)
qed

definition found :: "ec_params \<Rightarrow> int \<Rightarrow> int \<Rightarrow> ecdsa \<Rightarrow> (int \<times> int) result \<times> ecdsa \<Rightarrow> bool" where
  "found ec d e this U \<longleftrightarrow>
     (case U of
        (Inl _, _) \<Rightarrow> True
      | (Inr (r, s), this') \<Rightarrow>
          \<exists>k s0. this' = this\<lparr>e_k := Some k\<rparr> \<and> 0 \<le> k \<and> signs_as ec d e k r s0 \<and> 0 < r \<and> 0 < s0 \<and> s = ECDSA_toLowS ec s0)"

lemma sign_with_ok:
  assumes "ec_ok ec" "0 \<le> k" "sign_with ec d e k = Inr (r, s)"
  shows "signs_as ec d e k r s"
  using sign_with_cases [OF assms(1,2), of d e] assms(3) by (auto split: if_splits)

lemma find_loop_found:
  assumes "find_loop ec d e b this = Some U"
  shows "ec_ok ec \<longrightarrow> (\<forall>k. e_k this = Some k \<longrightarrow> 0 \<le> k) \<longrightarrow> found ec d e this U"
proof (rule find_loop.raw_induct [OF _ assms,
      where P = "\<lambda>ec d e b this U. ec_ok ec \<longrightarrow> (\<forall>k. e_k this = Some k \<longrightarrow> 0 \<le> k) \<longrightarrow> found ec d e this U"], intro impI)
  fix loop ec d e b this U
  assume IH: "\<And>ec d e b this U. loop ec d e b this = Some U \<Longrightarrow>
      ec_ok ec \<longrightarrow> (\<forall>k. e_k this = Some k \<longrightarrow> 0 \<le> k) \<longrightarrow> found ec d e this U"
    and body: "Option.bind (next_k ec b this) (\<lambda>(res, this).
        case res of Inl err \<Rightarrow> Some (Inl err, this)
        | Inr _ \<Rightarrow> (case sign_with ec d e (the (e_k this)) of Inl err \<Rightarrow> Some (Inl err, this)
          | Inr (r, s) \<Rightarrow> if r \<le> 0 \<or> s \<le> 0 then loop ec d e (b + 1) this else Some (Inr (r, ECDSA_toLowS ec s), this))) = Some U"
    and ok: "ec_ok ec" "\<forall>k. e_k this = Some k \<longrightarrow> 0 \<le> k"
  obtain res this1 where n: "next_k ec b this = Some (res, this1)" using body by (auto simp: bind_eq_Some_conv)
  show "found ec d e this U"
  proof (cases res)
    case (Inl err)
    then show ?thesis using body n by (auto simp: found_def)
  next
    case (Inr u)
    then obtain k where k: "this1 = this\<lparr>e_k := Some k\<rparr>" "0 \<le> k" using next_k_ok [OF ok(1) _ ok(2)] n by blast
    show ?thesis
    proof (cases "sign_with ec d e k")
      case (Inl err)
      then show ?thesis using body n Inr k(1) by (auto simp: found_def)
    next
      case (Inr rs)
      then obtain r s where rs: "sign_with ec d e k = Inr (r, s)" by (cases rs) simp
      note sa = sign_with_ok [OF ok(1) k(2) rs]
      show ?thesis
      proof (cases "r \<le> 0 \<or> s \<le> 0")
        case True
        then have "loop ec d e (b + 1) this1 = Some U" using body n \<open>res = Inr u\<close> rs k(1) by simp
        then have "found ec d e this1 U" using IH ok(1) k by simp
        then show ?thesis unfolding found_def k(1) by (simp split: sum.splits prod.splits) blast
      next
        case False
        then have U: "U = (Inr (r, ECDSA_toLowS ec s), this1)" using body n \<open>res = Inr u\<close> rs k(1) by simp
        show ?thesis unfolding U found_def prod.case sum.case using False sa k by (intro exI [of _ k] exI [of _ s]) simp
      qed
    qed
  qed
qed

text \<open>If the nonce that is set, or else one of the candidates, is good, the search ends.\<close>

lemma good_nonce_sign:
  assumes "ec_ok ec" "in_range ec k"
  obtains r s where "sign_with ec d e k = Inr (r, s)" "signs_as ec d e k r s" "good_nonce ec d e k \<longleftrightarrow> 0 < r \<and> 0 < s"
proof -
  have "0 \<le> k" using assms(2) by (simp add: in_range_def)
  then obtain r s where rs: "sign_with ec d e k = Inr (r, s)" "signs_as ec d e k r s"
    using sign_with_cases [OF assms(1), of k d e] in_range_coprime(1) [OF assms] by auto
  moreover have "good_nonce ec d e k \<longleftrightarrow> 0 < r \<and> 0 < s"
    using signs_as_unique [OF assms rs(2)] rs(2) assms(2) unfolding good_nonce_def by blast
  ultimately show thesis by (rule that)
qed

lemma find_loop_candidate:
  assumes "ec_ok ec" "e_privkey this = Some priv" "e_hashbuf this = Some h"
    and "good_nonce ec d e (candidate priv (hash_be this h) (b + j))" "e_k this = None \<or> 0 < b"
  shows "\<exists>rs this'. find_loop ec d e b this = Some (Inr rs, this')"
  using assms
proof (induction j arbitrary: b this rule: less_induct)
  case (less j)
  let ?c = "candidate priv (hash_be this h)"
  define m where "m = (LEAST m. b \<le> m \<and> in_range ec (?c m))"
  have g: "b \<le> b + j \<and> in_range ec (?c (b + j))" using less.prems(4) by (simp add: good_nonce_def)
  then have m: "b \<le> m" "in_range ec (?c m)" "m \<le> b + j"
    using LeastI [of "\<lambda>m. b \<le> m \<and> in_range ec (?c m)", OF g] Least_le [of "\<lambda>m. b \<le> m \<and> in_range ec (?c m)", OF g]
    by (simp_all add: m_def)
  have "ECDSA_deterministicK ec b this = Some (Inr (), this\<lparr>e_k := Some (?c m)\<rparr>)"
    unfolding deterministicK_eq [OF less.prems(2,3)] m_def using g by (subst if_P) blast+
  then have n: "next_k ec b this = Some (Inr (), this\<lparr>e_k := Some (?c m)\<rparr>)"
    using less.prems(5) unfolding next_k_def by auto
  obtain r s where rs: "sign_with ec d e (?c m) = Inr (r, s)" "good_nonce ec d e (?c m) \<longleftrightarrow> 0 < r \<and> 0 < s"
    by (rule good_nonce_sign [OF less.prems(1) m(2)])
  show ?case
  proof (cases "r \<le> 0 \<or> s \<le> 0")
    case True
    then have "m \<noteq> b + j" using rs(2) less.prems(4) by auto
    then have j: "0 < j" using m by (cases j) auto
    let ?ob = "this\<lparr>e_k := Some (?c m)\<rparr>"
    have h: "hash_be ?ob h = hash_be this h" by (simp add: hash_be_def little_endian_def)
    have "\<exists>rs this'. find_loop ec d e (b + 1) ?ob = Some (Inr rs, this')"
      by (rule less.IH [of "j - 1"]) (use less.prems j h in auto)
    then show ?thesis using True n rs(1) by (subst find_loop.simps) simp
  next
    case False
    then show ?thesis using n rs(1) by (subst find_loop.simps) simp
  qed
qed

lemma find_loop_set:
  assumes "ec_ok ec" "e_k this = Some k" "good_nonce ec d e k"
  obtains r s where "find_loop ec d e 0 this = Some (Inr (r, ECDSA_toLowS ec s), this)" "signs_as ec d e k r s" "0 < r" "0 < s"
proof -
  obtain r s where rs: "sign_with ec d e k = Inr (r, s)" "signs_as ec d e k r s" "good_nonce ec d e k \<longleftrightarrow> 0 < r \<and> 0 < s"
    using good_nonce_sign [OF assms(1), of k d e] assms(3) unfolding good_nonce_def by metis
  then have p: "\<not> (r \<le> 0 \<or> s \<le> 0)" using assms(3) by simp
  have "next_k ec 0 this = Some (Inr (), this)" using assms(2) by (simp add: next_k_def)
  then have "find_loop ec d e 0 this = Some (Inr (r, ECDSA_toLowS ec s), this)"
    using p rs(1) assms(2) by (subst find_loop.simps) (simp only: Option.bind.bind_lunit prod.case sum.case option.sel if_False)
  then show thesis by (rule that) (use rs(2) p in auto)
qed

section \<open>Signing and verification\<close>

lemma sigError_signed:
  assumes "ec_ok ec" "e_hashbuf this = Some h" "length h = 32" "e_sig this = Some sg" "e_pubkey this = Some pub"
    and "sp_ok (ec_curve ec) (pk_point pub)" "sp_point (pk_point pub) = gmul ec d"
    and "signs_as ec d (BN_fromBuffer h (little_endian this)) k (sig_r sg) s0" "0 < sig_r sg" "0 < s0"
    and "sig_s sg = ECDSA_toLowS ec s0"
  shows "ECDSA_sigError ec this = Inr None"
proof -
  let ?n = "ec_n ec" and ?e = "BN_fromBuffer h (little_endian this)" and ?r = "sig_r sg" and ?s = "sig_s sg"
  note okd = ec_okD [OF assms(1)]
  obtain x y where x: "gmul ec k = Affine x y" "?r = x mod ?n" and s0: "s0 < ?n" "?n dvd s0 * k - (?e + d * ?r)"
    using assms(8) by (auto simp: signs_as_def)
  have r: "in_range ec ?r" using assms(9) x(2) okd(11) by (simp add: in_range_def)
  have s: "in_range ec ?s" "?s = s0 \<or> ?s = ?n - s0" using toLowS [of ec s0] assms(10,11) s0(1) by (simp_all add: in_range_def)
  obtain w where w: "?n dvd w * ?s - 1" "ECDSA_sigError ec this =
       Inr (case verify_point ec (sp_point (pk_point pub)) ?e ?r w of
              Infinity \<Rightarrow> Some ''p is infinity''
            | Affine x y \<Rightarrow> if x mod ?n \<noteq> ?r then Some ''Invalid signature'' else None)"
    by (rule sigError_eq [OF assms(1-6) r s(1)])
  have "\<exists>y'. verify_point ec (gmul ec d) ?e ?r w = Affine x y'"
  proof (cases "?s = s0")
    case True
    then show ?thesis using verify_point_gmul [OF assms(1) w(1), of k ?e d ?r] s0(2) x(1) by simp
  next
    case False
    then have e: "?s = ?n - s0" using s(2) by blast
    have "?s * - k - (?e + d * ?r) = s0 * k - (?e + d * ?r) - ?n * k" unfolding e by (simp add: algebra_simps)
    then have "?n dvd ?s * - k - (?e + d * ?r)" using s0(2) by (metis dvd_diff dvd_triv_left)
    then have "verify_point ec (gmul ec d) ?e ?r w = gmul ec (- k)" by (rule verify_point_gmul [OF assms(1) w(1)])
    then show ?thesis using gmul_minus_x [OF assms(1) x(1)] by simp
  qed
  then show ?thesis using w(2) assms(7) x(2) by auto
qed

lemma sign_found:
  assumes "ec_ok ec" "e_privkey this = Some priv" "e_hashbuf this = Some h" "length h = 32" "e_pubkey this = Some pub"
    and "\<forall>k. e_k this = Some k \<longrightarrow> 0 \<le> k" "ECDSA_sign ec this = Some (Inr (), this')"
  shows "\<exists>k r s0. this' = this\<lparr>e_k := Some k,
      e_sig := Some ((new_Signature r (ECDSA_toLowS ec s0))\<lparr>sig_compressed := Some (pk_compressed pub)\<rparr>)\<rparr> \<and>
    0 \<le> k \<and> signs_as ec (priv_bn priv) (BN_fromBuffer h (little_endian this)) k r s0 \<and> 0 < r \<and> 0 < s0"
proof -
  let ?e = "BN_fromBuffer h (little_endian this)" and ?d = "priv_bn priv"
  obtain res this1 where f: "find_loop ec ?d ?e 0 this = Some (res, this1)"
    and rest: "(case res of Inl err \<Rightarrow> Some (Inl err, this1)
      | Inr (r, s) \<Rightarrow> (case e_pubkey this1 of None \<Rightarrow> Some (Inl (TypeError ''Cannot read property 'compressed' of undefined''), this1)
        | Some pub \<Rightarrow> Some (Inr (), this1\<lparr>e_sig := Some ((new_Signature r s)\<lparr>sig_compressed := Some (pk_compressed pub)\<rparr>)\<rparr>))) =
      Some (Inr (), this')"
    using assms(2-4,7) by (auto simp: ECDSA_sign_def ECDSA_findSignature_def bind_eq_Some_conv)
  obtain r s where res: "res = Inr (r, s)" using rest by (cases res) auto
  obtain k s0 where k: "this1 = this\<lparr>e_k := Some k\<rparr>" "0 \<le> k" "signs_as ec ?d ?e k r s0" "0 < r" "0 < s0" "s = ECDSA_toLowS ec s0"
    using find_loop_found [OF f] assms(1,6) res by (auto simp: found_def)
  then show ?thesis using rest res assms(5) by auto
qed

lemma sign_ends:
  assumes "ec_ok ec" "e_privkey this = Some priv" "e_hashbuf this = Some h" "length h = 32" "e_pubkey this = Some pub"
    and "good_nonce ec (priv_bn priv) (BN_fromBuffer h (little_endian this)) k"
    and "e_k this = Some k \<or> e_k this = None \<and> (\<exists>m. k = candidate priv (hash_be this h) m)"
  shows "\<exists>this'. ECDSA_sign ec this = Some (Inr (), this')"
proof -
  let ?e = "BN_fromBuffer h (little_endian this)" and ?d = "priv_bn priv"
  have r: "\<forall>k. e_k this = Some k \<longrightarrow> 0 \<le> k" using assms(6,7) by (auto simp: good_nonce_def in_range_def)
  have "\<exists>rs this1. find_loop ec ?d ?e 0 this = Some (Inr rs, this1)"
  proof (cases "e_k this")
    case None
    then obtain m where "k = candidate priv (hash_be this h) m" using assms(7) by auto
    then show ?thesis using find_loop_candidate [OF assms(1-3), of ?d ?e 0 m] assms(6) None by simp
  next
    case (Some k')
    then have "e_k this = Some k" using assms(7) by simp
    then show ?thesis using find_loop_set [OF assms(1) _ assms(6), of this] by metis
  qed
  then obtain r s this1 where f: "find_loop ec ?d ?e 0 this = Some (Inr (r, s), this1)" by auto
  then have "\<exists>k. this1 = this\<lparr>e_k := Some k\<rparr>" using find_loop_found [OF f] assms(1) r by (auto simp: found_def)
  then show ?thesis using f assms(2-5) by (auto simp: ECDSA_sign_def ECDSA_findSignature_def)
qed

text \<open>
  C2: Signing works and what it makes is valid.  For a private key in range with its public key and a hash of 32 bytes: if the
  nonce that was set, or else one of the candidates of \<open>deterministicK\<close>, gives \<open>r\<close> and \<open>s\<close> that are not zero, \<open>sign\<close> returns;
  and whenever \<open>sign\<close> returns, \<open>r\<close> and \<open>s\<close> are in range, \<open>s\<close> is the lower one of the two possible values on curves with the
  order of secp256k1, and \<open>verify\<close> accepts the signature.
\<close>
theorem ecdsa_sign_verifies:
  assumes "ec_ok ec" "e_privkey this = Some priv" "0 < priv_bn priv" "priv_bn priv < ec_n ec"
    and "e_hashbuf this = Some h" "length h = 32" "PrivateKey_toPublicKey ec st priv = Inr pub" "e_pubkey this = Some pub"
    and "\<forall>k. e_k this = Some k \<longrightarrow> 0 \<le> k"
  shows "((\<exists>k. good_nonce ec (priv_bn priv) (BN_fromBuffer h (little_endian this)) k \<and>
        (e_k this = Some k \<or> e_k this = None \<and> (\<exists>m. k = candidate priv (hash_be this h) m))) \<longrightarrow>
      (\<exists>this'. ECDSA_sign ec this = Some (Inr (), this'))) \<and>
    (ECDSA_sign ec this = Some (Inr (), this') \<longrightarrow>
      (\<exists>sg. e_sig this' = Some sg \<and> 0 < sig_r sg \<and> sig_r sg < ec_n ec \<and> 0 < sig_s sg \<and> sig_s sg < ec_n ec \<and>
        (ec_n ec = c_n secp256k1 \<longrightarrow> sig_s sg \<le> ec_n ec div 2) \<and>
        ECDSA_verify ec this' = (Inr (), this'\<lparr>e_verified := Some True\<rparr>)))"
proof -
  have sk: "sk_ok ec priv" using assms(3,4) by (simp add: sk_ok_def)
  have p: "pk_point pub = plain (gmul ec (priv_bn priv))" and i: "gmul ec (priv_bn priv) \<noteq> Infinity"
    using fromPrivateKey(1) [OF assms(1) sk, of st] fromPrivateKey(2) [OF assms(1) sk] assms(7) by (auto simp: PrivateKey_toPublicKey_def)
  then have sp: "sp_ok (ec_curve ec) (pk_point pub)" "sp_point (pk_point pub) = gmul ec (priv_bn priv)"
    using sp_ok_plain gmul_closed [OF assms(1)] by (simp_all add: plain_def)
  have "\<exists>sg. e_sig this' = Some sg \<and> 0 < sig_r sg \<and> sig_r sg < ec_n ec \<and> 0 < sig_s sg \<and> sig_s sg < ec_n ec \<and>
        (ec_n ec = c_n secp256k1 \<longrightarrow> sig_s sg \<le> ec_n ec div 2) \<and>
        ECDSA_verify ec this' = (Inr (), this'\<lparr>e_verified := Some True\<rparr>)"
    if s: "ECDSA_sign ec this = Some (Inr (), this')"
  proof -
    obtain k r s0 where f: "this' = this\<lparr>e_k := Some k,
        e_sig := Some ((new_Signature r (ECDSA_toLowS ec s0))\<lparr>sig_compressed := Some (pk_compressed pub)\<rparr>)\<rparr>"
      "signs_as ec (priv_bn priv) (BN_fromBuffer h (little_endian this)) k r s0" "0 < r" "0 < s0"
      using sign_found [OF assms(1,2,5,6,8,9) s] by blast
    define sg where "sg = (new_Signature r (ECDSA_toLowS ec s0))\<lparr>sig_compressed := Some (pk_compressed pub)\<rparr>"
    have sg: "sig_r sg = r" "sig_s sg = ECDSA_toLowS ec s0" by (simp_all add: sg_def new_Signature_def)
    have t: "e_hashbuf this' = Some h" "e_pubkey this' = Some pub" "e_sig this' = Some sg" "little_endian this' = little_endian this"
      using assms(5,8) f(1) by (simp_all add: sg_def little_endian_def)
    have v: "ECDSA_sigError ec this' = Inr None"
      by (rule sigError_signed [OF assms(1) t(1) assms(6) t(3) t(2) sp]) (use f t(4) sg in simp_all)
    have s0: "in_range ec s0" "r < ec_n ec" using f(2,4) ec_okD(11) [OF assms(1)] by (auto simp: signs_as_def in_range_def)
    have low: "sig_s sg \<le> ec_n ec div 2" if "ec_n ec = c_n secp256k1"
    proof -
      have "ec_n ec = 0xfffffffffffffffffffffffffffffffebaaedce6af48a03bbfd25e8cd0364141"
        using that by (simp only: secp256k1_simps)
      then show ?thesis using sg(2) by (simp add: ECDSA_toLowS_def)
    qed
    show ?thesis
      using v t(3) sg f(3) s0 toLowS(1) [OF s0(1)] low by (auto simp: ECDSA_verify_def in_range_def)
  qed
  then show ?thesis using sign_ends [OF assms(1,2,5,6,8)] by blast
qed

text \<open>
  C15: The nonces follow RFC 6979.  \<open>deterministicK(badrs)\<close> stores the first of the candidates of section 3.2 (with the hash
  as it is, not reduced modulo the order) that has an index of at least \<open>badrs\<close> and lies between 1 and \<open>n - 1\<close>; it does not
  return if there is none.  Without a private key it throws.
\<close>
theorem deterministicK_rfc6979:
  "ECDSA_deterministicK ec badrs (this\<lparr>e_privkey := Some priv, e_hashbuf := Some h\<rparr>) =
    (if \<exists>m. badrs \<le> m \<and> in_range ec (candidate priv (hash_be this h) m)
     then Some (Inr (), this\<lparr>e_privkey := Some priv, e_hashbuf := Some h, e_k := Some (candidate priv (hash_be this h)
       (LEAST m. badrs \<le> m \<and> in_range ec (candidate priv (hash_be this h) m)))\<rparr>)
     else None) \<and>
   (\<exists>m. ECDSA_deterministicK ec badrs (this\<lparr>e_privkey := None\<rparr>) = Some (Inl (TypeError m), this\<lparr>e_privkey := None\<rparr>))"
proof -
  have "hash_be (this\<lparr>e_privkey := Some priv, e_hashbuf := Some h\<rparr>) h = hash_be this h"
    by (simp add: hash_be_def little_endian_def)
  then show ?thesis
    using deterministicK_eq [of "this\<lparr>e_privkey := Some priv, e_hashbuf := Some h\<rparr>" priv h ec badrs]
    by (simp add: ECDSA_deterministicK_def)
qed

text \<open>The equation that two signatures with one nonce give for the private key.\<close>

lemma nonce_leak:
  fixes n :: int
  assumes "n dvd s1 * k - (e1 + d * r)" "n dvd s2 * k - (e2 + d * r)"
  shows "n dvd d * r * (s1 - s2) - (s2 * e1 - s1 * e2)"
proof -
  have "d * r * (s1 - s2) - (s2 * e1 - s1 * e2) = s2 * (s1 * k - (e1 + d * r)) - s1 * (s2 * k - (e2 + d * r))"
    by (simp add: algebra_simps)
  then show ?thesis using assms by (simp only: dvd_diff dvd_mult)
qed

lemma signs_as_signed:
  assumes "signs_as ec d e k r s0"
  shows "\<exists>c. (c = 1 \<or> c = - 1) \<and> ec_n ec dvd (c * ECDSA_toLowS ec s0) * k - (e + d * r)"
proof (cases "ECDSA_toLowS ec s0 = s0")
  case True
  then show ?thesis using assms by (intro exI [of _ 1]) (simp add: signs_as_def)
next
  case False
  then have e: "ECDSA_toLowS ec s0 = ec_n ec - s0" by (simp add: ECDSA_toLowS_def split: if_splits)
  have "(- 1 * (ec_n ec - s0)) * k - (e + d * r) = s0 * k - (e + d * r) - ec_n ec * k" by (simp add: algebra_simps)
  then show ?thesis using assms unfolding signs_as_def e by (metis dvd_diff dvd_triv_left)
qed

text \<open>
  C21: An object that signs twice uses its nonce twice and gives the private key away.  \<open>sign\<close> stores the nonce in the object,
  and neither \<open>set\<close> with another hash nor \<open>sign\<close> replaces it: the second signature has the same \<open>r\<close>, and with one choice of
  signs the two values of \<open>s\<close> and the two hashes satisfy \<open>d * r * (s1 - s2) = s2 * e1 - s1 * e2\<close> modulo the order, an equation
  for the private key \<open>d\<close> in numbers that are public.
\<close>
theorem ecdsa_nonce_reused:
  assumes "ec_ok ec" "e_privkey this = Some priv" "0 < priv_bn priv" "priv_bn priv < ec_n ec"
    and "e_hashbuf this = Some h1" "length h1 = 32" "e_pubkey this = Some pub" "\<forall>k. e_k this = Some k \<longrightarrow> 0 \<le> k"
    and "ECDSA_sign ec this = Some (Inr (), this1)" "e_sig this1 = Some sg1"
    and "ECDSA_set ec st this1 (new_ECDSA\<lparr>e_hashbuf := Some h2\<rparr>) = (Inr (), this2)" "length h2 = 32"
    and "\<not> ec_n ec dvd BN_fromBuffer h2 (little_endian this) + priv_bn priv * sig_r sg1"
  shows "\<exists>this3 sg2. ECDSA_sign ec this2 = Some (Inr (), this3) \<and> e_k this3 = e_k this1 \<and> e_sig this3 = Some sg2 \<and>
    sig_r sg2 = sig_r sg1 \<and>
    (\<exists>c1 c2. (c1 = 1 \<or> c1 = - 1) \<and> (c2 = 1 \<or> c2 = - 1) \<and>
      ec_n ec dvd priv_bn priv * sig_r sg1 * (c1 * sig_s sg1 - c2 * sig_s sg2) -
        (c2 * sig_s sg2 * BN_fromBuffer h1 (little_endian this) - c1 * sig_s sg1 * BN_fromBuffer h2 (little_endian this)))"
proof -
  let ?d = "priv_bn priv" and ?n = "ec_n ec" and ?e1 = "BN_fromBuffer h1 (little_endian this)"
    and ?e2 = "BN_fromBuffer h2 (little_endian this)"
  have sk: "sk_ok ec priv" using assms(3,4) by (simp add: sk_ok_def)
  obtain k r s1 where t1: "this1 = this\<lparr>e_k := Some k,
      e_sig := Some ((new_Signature r (ECDSA_toLowS ec s1))\<lparr>sig_compressed := Some (pk_compressed pub)\<rparr>)\<rparr>"
    and k: "0 \<le> k" "signs_as ec ?d ?e1 k r s1" "0 < r" "0 < s1"
    using sign_found [OF assms(1,2,5-9)] by blast
  then have sg1: "sig_r sg1 = r" "sig_s sg1 = ECDSA_toLowS ec s1" using assms(10) by (auto simp: new_Signature_def)
  obtain pub' where pub': "PrivateKey_toPublicKey ec st priv = Inr pub'"
    using fromPrivateKey(1) [OF assms(1) sk] by (auto simp: PrivateKey_toPublicKey_def)
  have t2: "e_k this2 = Some k" "e_privkey this2 = Some priv" "e_hashbuf this2 = Some h2" "e_pubkey this2 = Some pub'"
    "little_endian this2 = little_endian this"
    using assms(2,11) pub' t1 by (auto simp: ECDSA_set_def Let_def new_ECDSA_def or_this_def truthy_str_def little_endian_def)
  have nk: "\<not> ?n dvd k"
  proof
    assume "?n dvd k"
    then have "gmul ec k = Infinity" using zmul_infinity_iff [OF assms(1) ec_okD(9,10) [OF assms(1)]] by blast
    then show False using k(2) by (simp add: signs_as_def)
  qed
  obtain r2 s2 where s2: "sign_with ec ?d ?e2 k = Inr (r2, s2)" "signs_as ec ?d ?e2 k r2 s2"
    using sign_with_cases [OF assms(1) k(1), of ?d ?e2] nk by auto
  have r2: "r2 = r" using k(2) s2(2) by (auto simp: signs_as_def)
  have "?n dvd s2 * k - (?e2 + ?d * r)" using s2(2) r2 by (simp only: signs_as_def)
  then have "s2 \<noteq> 0" using assms(13) sg1(1) by (metis diff_0 dvd_minus_iff mult_zero_left)
  then have p: "0 < s2" using s2(2) by (simp add: signs_as_def)
  have "find_loop ec ?d ?e2 0 this2 = Some (Inr (r, ECDSA_toLowS ec s2), this2)"
    using s2(1) r2 k(3) p t2(1) by (subst find_loop.simps) (simp add: next_k_def)
  then have sign2: "ECDSA_sign ec this2 = Some (Inr (), this2\<lparr>e_sig :=
      Some ((new_Signature r (ECDSA_toLowS ec s2))\<lparr>sig_compressed := Some (pk_compressed pub')\<rparr>)\<rparr>)"
    using t2 assms(12) by (simp add: ECDSA_sign_def ECDSA_findSignature_def)
  obtain c1 where c1: "c1 = 1 \<or> c1 = - 1" "?n dvd (c1 * ECDSA_toLowS ec s1) * k - (?e1 + ?d * r)"
    using signs_as_signed [OF k(2)] by blast
  obtain c2 where c2: "c2 = 1 \<or> c2 = - 1" "?n dvd (c2 * ECDSA_toLowS ec s2) * k - (?e2 + ?d * r)"
    using signs_as_signed [OF s2(2)] r2 by blast
  define sg2 where "sg2 = (new_Signature r (ECDSA_toLowS ec s2))\<lparr>sig_compressed := Some (pk_compressed pub')\<rparr>"
  have "sig_r sg2 = sig_r sg1" "sig_s sg2 = ECDSA_toLowS ec s2" using sg1 by (simp_all add: sg2_def new_Signature_def)
  moreover have "e_k (this2\<lparr>e_sig := Some sg2\<rparr>) = e_k this1" using t2(1) t1 by simp
  ultimately show ?thesis
    using nonce_leak [OF c1(2) c2(2)] c1(1) c2(1) sg1 sign2 unfolding sg2_def [symmetric]
    by (intro exI [of _ "this2\<lparr>e_sig := Some sg2\<rparr>"] exI [of _ sg2] conjI exI [of _ c1] exI [of _ c2]) simp_all
qed

section \<open>Recovery of the public key\<close>

lemma recover_sum:
  assumes "ec_ok ec" "on_curve (ec_curve ec) Q" "ec_n ec dvd w * s - 1"
  shows "ShortPoint_add (ec_curve ec) (zmul (ec_curve ec) s (verify_point ec Q e r w)) (gmul ec (- e)) = zmul (ec_curve ec) r Q"
proof -
  let ?cv = "ec_curve ec"
  note okd = ec_okD [OF assms(1)]
  note c = zmul_closed [OF okd(3)]
  have eG: "on_curve ?cv (gmul ec e)" "on_curve ?cv (gmul ec (- e))" "on_curve ?cv (zmul ?cv r Q)" using c okd(9) assms(2) by simp_all
  have cong: "ec_n ec dvd s * (w * a) - a" for a
  proof -
    have "s * (w * a) - a = (w * s - 1) * a" by (simp add: algebra_simps)
    then show ?thesis using assms(3) by simp
  qed
  have "zmul ?cv s (verify_point ec Q e r w) = ShortPoint_add ?cv (gmul ec (s * (w * e))) (zmul ?cv (s * (w * r)) Q)"
    unfolding verify_point_def using zmul_distrib [OF okd(2)] zmul_mult [OF okd(2)] c okd(9) assms(2) by simp
  also have "\<dots> = ShortPoint_add ?cv (zmul ?cv r Q) (gmul ec e)"
    using ec_zmul_cong [OF assms(1) okd(9) cong] ec_zmul_cong [OF assms(1,2) cong] add_commute [OF okd(3)] eG on_curve_ok by metis
  finally show ?thesis
    using add_assoc [OF okd(2) eG(3,1,2)] zmul_add [OF okd(2,9), of e "- e"] by simp
qed

lemma toPublicKey_recovers:
  assumes "ec_ok ec" "c_p (ec_curve ec) \<le> 2 * ec_n ec" "e_hashbuf this = Some h" "e_sig this = Some sg"
    and "on_curve (ec_curve ec) Q" "Q \<noteq> Infinity" "in_range ec (sig_r sg)" "in_range ec (sig_s sg)"
    and "ec_n ec dvd w * sig_s sg - 1" "verify_point ec Q (BN_fromBuffer h False) (sig_r sg) w = Affine x y"
    and "x mod ec_n ec = sig_r sg" "sig_i sg = Some ((if odd y then 1 else 0) + (if x = sig_r sg then 0 else 2))"
  shows "\<exists>k. ECDSA_toPublicKey ec st this = Inr k \<and> sp_point (pk_point k) = Q"
proof -
  let ?cv = "ec_curve ec" and ?n = "ec_n ec" and ?e = "BN_fromBuffer h False" and ?r = "sig_r sg" and ?s = "sig_s sg"
  note okd = ec_okD [OF assms(1)]
  obtain i where i: "sig_i sg = Some i" "i < 4" "odd i = odd y" "i div 2 = 1 \<longleftrightarrow> x \<noteq> ?r" using assms(12) by auto
  have R: "on_curve ?cv (Affine x y)"
    using assms(5) zmul_closed [OF okd(3)] add_closed [OF okd(3)] okd(9) unfolding verify_point_def assms(10) [symmetric] by simp
  then have xb: "0 \<le> x" "x < 2 * ?n" using on_curve_ok [OF R] assms(2) by (auto simp: point_ok_def reduced_def)
  have "x = (if i div 2 = 1 then ?r + ?n else ?r)"
  proof (cases "x < ?n")
    case True
    then show ?thesis using xb(1) assms(11) i(4) by simp
  next
    case False
    then have "x - ?n = ?r" using xb assms(11) by (metis diff_ge_0_iff_ge diff_less_eq linorder_not_less minus_mod_self2 mod_pos_pos_trivial mult_2)
    then show ?thesis using i(4) okd(11) by auto
  qed
  moreover have fx: "Point_fromX ec (odd i) x = Inr (plain (Affine x y))"
    using Point_fromX_iff [OF assms(1) xb(1)] pointFromX [OF okd(3,4)] R i(3) by simp
  moreover have n: "0 \<le> ?n" "0 \<le> ?s" "0 \<le> - ?e mod ?n" using okd(11) assms(8) by (simp_all add: in_range_def)
  note sp = sp_ok_plain [OF R point.distinct(2)]
  have "ShortPoint_mul ?cv (plain (Affine x y)) ?n = Inr Infinity"
    using ShortPoint_mul_zmul [OF okd(1) sp n(1)] ec_order [OF assms(1) R] by (simp add: plain_def)
  moreover have "ShortPoint_mul ?cv (plain (Affine x y)) ?s = Inr (zmul ?cv ?s (Affine x y))"
    using ShortPoint_mul_zmul [OF okd(1) sp n(2)] by (simp add: plain_def)
  moreover have "ShortPoint_mul ?cv (ec_g ec) (- ?e mod ?n) = Inr (gmul ec (- ?e))"
    using ShortPoint_mul_zmul [OF okd(1,6) n(3)] ec_zmul_mod [OF assms(1) okd(9)] by simp
  moreover have "ShortPoint_add ?cv (zmul ?cv ?s (Affine x y)) (gmul ec (- ?e)) = zmul ?cv ?r Q"
    using recover_sum [OF assms(1,5,9), of ?e ?r] assms(10) by simp
  moreover obtain ri where ri: "BN_invm ?r ?n = Inr ri" "?n dvd ri * ?r - 1" "0 \<le> ri"
    using BN_invm_inverse [OF okd(11) in_range_coprime(2) [OF assms(1,7)]] by blast
  moreover have "ShortPoint_mul ?cv (plain (zmul ?cv ?r Q)) ri = Inr Q"
  proof -
    have "zmul ?cv ?r Q \<noteq> Infinity" using zmul_infinity_iff [OF assms(1,5,6)] in_range_coprime(1) [OF assms(1,7)] by blast
    then have "ShortPoint_mul ?cv (plain (zmul ?cv ?r Q)) ri = Inr (zmul ?cv ri (zmul ?cv ?r Q))"
      using ShortPoint_mul_zmul [OF okd(1) sp_ok_plain ri(3)] zmul_closed [OF okd(3) assms(5)] by (simp add: plain_def)
    also have "zmul ?cv ri (zmul ?cv ?r Q) = Q"
      using zmul_mult [OF okd(2) assms(5), of ri ?r] ec_zmul_cong [OF assms(1,5) ri(2)] by simp
    finally show ?thesis .
  qed
  ultimately show ?thesis
    using assms(3,4) i(1,2) okd(11) PublicKey_of_point [OF assms(1,5,6), of st "sig_compressed sg" ArgUndefined]
    by (simp add: ECDSA_toPublicKey_def PublicKey_fromPoint_def Let_def plain_def [of Q])
qed

lemma calci_loop_finds:
  assumes "ECDSA_toPublicKey ec st (this\<lparr>e_sig := Some (sg\<lparr>sig_i := Some i\<rparr>)\<rparr>) = Inr k"
    and "sp_point (pk_point k) = sp_point (pk_point pub)" "i \<in> set is"
  shows "\<exists>j k'. j \<in> set is \<and> ECDSA_toPublicKey ec st (this\<lparr>e_sig := Some (sg\<lparr>sig_i := Some j\<rparr>)\<rparr>) = Inr k' \<and>
    sp_point (pk_point k') = sp_point (pk_point pub) \<and>
    calci_loop ec st (Some pub) is (this\<lparr>e_sig := Some (sg\<lparr>sig_i := a\<rparr>)\<rparr>) =
      (Inr (), this\<lparr>e_sig := Some (sg\<lparr>sig_i := Some j, sig_compressed := Some (pk_compressed pub)\<rparr>)\<rparr>)"
  using assms(3)
proof (induction "is" arbitrary: a)
  case (Cons m ms)
  let ?t = "this\<lparr>e_sig := Some (sg\<lparr>sig_i := Some m\<rparr>)\<rparr>"
  show ?case
  proof (cases "\<exists>k'. ECDSA_toPublicKey ec st ?t = Inr k' \<and> sp_point (pk_point k') = sp_point (pk_point pub)")
    case True
    then show ?thesis by (intro exI [of _ m]) auto
  next
    case False
    then have "m \<noteq> i" using assms(1,2) by blast
    then have "i \<in> set ms" using Cons.prems by simp
    moreover have "calci_loop ec st (Some pub) (m # ms) (this\<lparr>e_sig := Some (sg\<lparr>sig_i := a\<rparr>)\<rparr>) = calci_loop ec st (Some pub) ms ?t"
      using False by (auto simp: Let_def split: sum.splits)
    ultimately show ?thesis using Cons.IH [of "Some m"] by (metis list.set_intros(2))
  qed
qed simp

text \<open>
  C14: Recovery of the public key.  On a curve whose prime is at most twice the order, if the signature of an object is one that
  \<open>verify\<close> accepts for its hash read in big-endian order, whatever order the object is set to, \<open>calci\<close> finds a recovery factor
  below 4, and \<open>toPublicKey\<close> with this factor returns the point of the public key.  (For a signature of the hash in
  little-endian order, as transactions are signed, nothing is claimed: \<open>toPublicKey\<close> does not look at the order.)
\<close>
theorem ecdsa_recover:
  assumes "ec_ok ec" "c_p (ec_curve ec) \<le> 2 * ec_n ec" "e_sig this = Some sg" "e_pubkey this = Some pub"
    and "sp_ok (ec_curve ec) (pk_point pub)" "ECDSA_sigError ec (this\<lparr>e_endian := None\<rparr>) = Inr None"
  shows "\<exists>j k. j < 4 \<and> ECDSA_calci ec st this =
      (Inr (), this\<lparr>e_sig := Some (sg\<lparr>sig_i := Some j, sig_compressed := Some (pk_compressed pub)\<rparr>)\<rparr>) \<and>
    ECDSA_toPublicKey ec st (this\<lparr>e_sig := Some (sg\<lparr>sig_i := Some j\<rparr>)\<rparr>) = Inr k \<and>
    sp_point (pk_point k) = sp_point (pk_point pub)"
proof -
  let ?Q = "sp_point (pk_point pub)" and ?n = "ec_n ec" and ?b = "this\<lparr>e_endian := None\<rparr>"
  obtain h where h: "e_hashbuf this = Some h" "length h = 32" using assms(6) by (auto simp: ECDSA_sigError_def split: option.splits if_splits)
  have rng: "in_range ec (sig_r sg)" "in_range ec (sig_s sg)"
    using assms(3,6) h by (auto simp: ECDSA_sigError_def in_range_def Let_def split: if_splits)
  have Q: "on_curve (ec_curve ec) ?Q" "?Q \<noteq> Infinity" using assms(5) by (simp_all add: sp_ok_def)
  obtain w where w: "?n dvd w * sig_s sg - 1" "ECDSA_sigError ec ?b =
       Inr (case verify_point ec ?Q (BN_fromBuffer h (little_endian ?b)) (sig_r sg) w of
              Infinity \<Rightarrow> Some ''p is infinity''
            | Affine x y \<Rightarrow> if x mod ?n \<noteq> sig_r sg then Some ''Invalid signature'' else None)"
    by (rule sigError_eq [OF assms(1), of ?b h sg pub]) (use h assms(3-5) rng in simp_all)
  then obtain x y where xy: "verify_point ec ?Q (BN_fromBuffer h False) (sig_r sg) w = Affine x y" "x mod ?n = sig_r sg"
    using assms(6) by (auto simp: little_endian_def split: point.splits if_splits)
  define i :: nat where "i = (if odd y then 1 else 0) + (if x = sig_r sg then 0 else 2)"
  have i4: "i \<in> set [0, 1, 2, 3]" by (simp add: i_def)
  let ?t = "this\<lparr>e_sig := Some (sg\<lparr>sig_i := Some i\<rparr>)\<rparr>"
  obtain k where k: "ECDSA_toPublicKey ec st ?t = Inr k" "sp_point (pk_point k) = ?Q"
    using toPublicKey_recovers [OF assms(1,2), of ?t h "sg\<lparr>sig_i := Some i\<rparr>" ?Q w x y st] h(1) Q rng w(1) xy
    by (auto simp: i_def)
  have "this = this\<lparr>e_sig := Some (sg\<lparr>sig_i := sig_i sg\<rparr>)\<rparr>" using assms(3) by (cases this) (simp add: signature.equality)
  then have c: "ECDSA_calci ec st this = calci_loop ec st (Some pub) [0, 1, 2, 3] (this\<lparr>e_sig := Some (sg\<lparr>sig_i := sig_i sg\<rparr>)\<rparr>)"
    using assms(3,4) by (simp add: ECDSA_calci_def)
  obtain j k' where j: "j \<in> set [0 :: nat, 1, 2, 3]" "ECDSA_toPublicKey ec st (this\<lparr>e_sig := Some (sg\<lparr>sig_i := Some j\<rparr>)\<rparr>) = Inr k'"
    "sp_point (pk_point k') = ?Q" "calci_loop ec st (Some pub) [0, 1, 2, 3] (this\<lparr>e_sig := Some (sg\<lparr>sig_i := sig_i sg\<rparr>)\<rparr>) =
      (Inr (), this\<lparr>e_sig := Some (sg\<lparr>sig_i := Some j, sig_compressed := Some (pk_compressed pub)\<rparr>)\<rparr>)"
    using calci_loop_finds [OF k i4, of "sig_i sg"] by (elim exE conjE) (rule that)
  have "j < 4" using j(1) by auto
  then show ?thesis using j(2,3) trans [OF c j(4)] by (intro exI conjI)
qed

section \<open>The small curve\<close>

definition priv7 :: private_key where
  "priv7 = \<lparr>priv_bn = 5, priv_compressed = True, priv_network = livenet\<rparr>"

definition pub7 :: public_key where
  "pub7 = \<lparr>pk_point = plain (Affine 3 3), pk_compressed = True, pk_network = livenet\<rparr>"

definition this7 :: "nat \<Rightarrow> ecdsa" where
  "this7 e = new_ECDSA\<lparr>e_hashbuf := Some (replicate 31 0 @ [of_nat e]), e_privkey := Some priv7, e_pubkey := Some pub7, e_k := Some 2\<rparr>"

lemma gmul7: "gmul ec7 (int m) = points7 ! (m mod 13)"
  using zmul_points7 [of 1 m] by (simp add: nth_points7 G7_pre_def)

lemma pub7: "PrivateKey_toPublicKey ec7 initial_networks priv7 = Inr pub7"
proof -
  have "gmul ec7 5 = Affine 3 3" using gmul7 [of 5] by (simp add: points7_def)
  then show ?thesis using fromPrivateKey(1) [OF ec7_ok, of priv7 initial_networks]
    by (simp add: PrivateKey_toPublicKey_def priv7_def pub7_def sk_ok_def get_sdk_network sdk_network_def or_else_def)
qed

lemma hash7: "e < 256 \<Longrightarrow> BN_fromBuffer (replicate 31 0 @ [of_nat e]) False = int e"
  by (simp add: BN_fromBuffer_eq be_val_append be_val_Cons unat_of_nat_byte)

lemma signs7: "signs_as ec7 5 0 2 6 2"
  using gmul7 [of 2] by (simp add: signs_as_def points7_def)

definition sg7 :: signature where
  "sg7 = (new_Signature 6 2)\<lparr>sig_compressed := Some True\<rparr>"

definition signed7 :: ecdsa where
  "signed7 = (this7 0)\<lparr>e_sig := Some sg7\<rparr>"

lemma this7_simps [simp]:
  "e_privkey (this7 e) = Some priv7" "e_pubkey (this7 e) = Some pub7" "e_k (this7 e) = Some 2" "\<not> little_endian (this7 e)"
  "e_hashbuf (this7 e) = Some (replicate 31 0 @ [of_nat e])"
  "priv_bn priv7 = 5" "pk_compressed pub7 = True" "pk_point pub7 = plain (Affine 3 3)"
  by (simp_all add: this7_def new_ECDSA_def little_endian_def priv7_def pub7_def)

lemma good7: "good_nonce ec7 5 0 2"
  using signs7 unfolding good_nonce_def by (intro conjI exI [of _ 6] exI [of _ 2]) (simp_all add: in_range_def)

lemma sign7: "ECDSA_sign ec7 (this7 0) = Some (Inr (), signed7)"
proof -
  have k: "in_range ec7 2" by (simp add: in_range_def)
  obtain r s where f: "find_loop ec7 5 0 0 (this7 0) = Some (Inr (r, ECDSA_toLowS ec7 s), this7 0)" and sa: "signs_as ec7 5 0 2 r s"
    using find_loop_set [OF ec7_ok _ good7, of "this7 0"] this7_simps(3) by metis
  have "r = 6 \<and> s = 2" by (rule signs_as_unique [OF ec7_ok k signs7 sa])
  then have "find_loop ec7 5 0 0 (this7 0) = Some (Inr (6, 2), this7 0)" using f by (simp add: ECDSA_toLowS_def)
  then show ?thesis using hash7 [of 0] by (simp add: ECDSA_sign_def ECDSA_findSignature_def signed7_def sg7_def)
qed

theorem ecdsa_sign_verifies_witness:
  "\<exists>this'. ECDSA_sign ec7 (this7 0) = Some (Inr (), this') \<and> ECDSA_verify ec7 this' = (Inr (), this'\<lparr>e_verified := Some True\<rparr>)"
proof -
  let ?h = "replicate 31 0 @ [of_nat 0] :: bytes"
  have h: "e_hashbuf (this7 0) = Some ?h" "length ?h = 32" by simp_all
  have "BN_fromBuffer ?h False = 0" using hash7 [of 0] by simp
  then have "\<exists>k. good_nonce ec7 (priv_bn priv7) (BN_fromBuffer ?h (little_endian (this7 0))) k \<and>
      (e_k (this7 0) = Some k \<or> e_k (this7 0) = None \<and> (\<exists>m. k = candidate priv7 (hash_be (this7 0) ?h) m))"
    using good7 by (intro exI [of _ 2]) (simp only: this7_simps simp_thms)
  moreover note w = ecdsa_sign_verifies [OF ec7_ok this7_simps(1) _ _ h pub7 this7_simps(2)]
  ultimately obtain this' where "ECDSA_sign ec7 (this7 0) = Some (Inr (), this')" using w by simp blast
  then show ?thesis using w [of this'] by auto
qed

theorem ecdsa_nonce_reused_witness:
  "\<exists>this2 this3 sg2. ECDSA_sign ec7 (this7 0) = Some (Inr (), signed7) \<and>
     ECDSA_set ec7 initial_networks signed7 (new_ECDSA\<lparr>e_hashbuf := Some (replicate 31 0 @ [of_nat 1])\<rparr>) = (Inr (), this2) \<and>
     ECDSA_sign ec7 this2 = Some (Inr (), this3) \<and> e_sig this3 = Some sg2 \<and> sig_r sg2 = 6"
proof -
  let ?h = "replicate 31 0 @ [of_nat 0] :: bytes" and ?h2 = "replicate 31 0 @ [of_nat 1] :: bytes"
  have h: "e_hashbuf (this7 0) = Some ?h" "length ?h = 32" "length ?h2 = 32" by simp_all
  have s: "e_sig signed7 = Some sg7" by (simp add: signed7_def)
  obtain this2 where t2: "ECDSA_set ec7 initial_networks signed7 (new_ECDSA\<lparr>e_hashbuf := Some ?h2\<rparr>) = (Inr (), this2)"
    using pub7 by (simp add: ECDSA_set_def Let_def new_ECDSA_def or_this_def signed7_def)
  have n: "\<not> ec_n ec7 dvd BN_fromBuffer ?h2 (little_endian (this7 0)) + priv_bn priv7 * sig_r sg7"
    using hash7 [of 1] by (simp add: sg7_def new_Signature_def)
  have "0 < priv_bn priv7" "priv_bn priv7 < ec_n ec7" "\<forall>k. e_k (this7 0) = Some k \<longrightarrow> 0 \<le> k" by simp_all
  from ecdsa_nonce_reused [OF ec7_ok this7_simps(1) this(1,2) h(1,2) this7_simps(2) this(3) sign7 s t2 h(3) n]
  show ?thesis using t2 sign7 by (auto simp: sg7_def new_Signature_def)
qed

theorem ecdsa_recover_witness:
  "\<exists>j k. j < 4 \<and> ECDSA_calci ec7 initial_networks signed7 =
      (Inr (), signed7\<lparr>e_sig := Some (sg7\<lparr>sig_i := Some j, sig_compressed := Some (pk_compressed pub7)\<rparr>)\<rparr>) \<and>
    ECDSA_toPublicKey ec7 initial_networks (signed7\<lparr>e_sig := Some (sg7\<lparr>sig_i := Some j\<rparr>)\<rparr>) = Inr k \<and>
    sp_point (pk_point k) = sp_point (pk_point pub7)"
proof -
  let ?h = "replicate 31 0 @ [of_nat 0] :: bytes"
  have s: "e_hashbuf signed7 = Some ?h" "e_sig signed7 = Some sg7" "e_pubkey signed7 = Some pub7" "\<not> little_endian signed7"
    by (simp_all add: signed7_def this7_def new_ECDSA_def little_endian_def)
  have p: "c_p (ec_curve ec7) \<le> 2 * ec_n ec7" "sp_ok (ec_curve ec7) (pk_point pub7)" "length ?h = 32"
    using sp_ok_plain [OF affine_33] by simp_all
  have "sp_point (pk_point pub7) = gmul ec7 5" using gmul7 [of 5] by (simp add: points7_def plain_def)
  then have "ECDSA_sigError ec7 signed7 = Inr None"
    using sigError_signed [OF ec7_ok s(1) p(3) s(2,3) p(2), of 5 2 2] signs7 s(4) hash7 [of 0]
    by (simp add: sg7_def new_Signature_def ECDSA_toLowS_def)
  moreover have "signed7\<lparr>e_endian := None\<rparr> = signed7" by (simp add: signed7_def this7_def new_ECDSA_def)
  ultimately have "ECDSA_sigError ec7 (signed7\<lparr>e_endian := None\<rparr>) = Inr None" by simp
  then show ?thesis by (rule ecdsa_recover [OF ec7_ok p(1) s(2,3) p(2)])
qed

end
