(* ===== verification/TxEcdsa.thy ===== *)
theory TxEcdsa
  imports TxSign EcdsaProps
begin

text \<open>
  The ECDSA of the SDK as the \<open>ec_env\<close> of the transactions: what \<open>sign\<close> makes of the inputs that pay to the hash of a key
  is verified by \<open>ECDSA.verify\<close> inside the interpreter.
\<close>

section \<open>The environment\<close>

text \<open>
  \<open>ECDSA.sign\<close> on an object that may have a nonce already.  Without one it is the static method.
\<close>

definition ECDSA_sign_preset ::
    "ec_params \<Rightarrow> net_state \<Rightarrow> bytes \<Rightarrow> private_key \<Rightarrow> string option \<Rightarrow> int option \<Rightarrow> signature result option" where
  "ECDSA_sign_preset ec st hashbuf privkey endian nonce =
     (case ECDSA_set ec st new_ECDSA
             (new_ECDSA\<lparr>e_hashbuf := Some hashbuf, e_endian := endian, e_privkey := Some privkey, e_k := nonce\<rparr>) of
        (Inl err, _) \<Rightarrow> Some (Inl err)
      | (Inr _, this) \<Rightarrow>
          map_option (\<lambda>(res, this). rbind res (\<lambda>_. Inr (the (e_sig this)))) (ECDSA_sign ec this))"

lemma sign_preset_None: "ECDSA_sign_preset ec st h k endian None = ECDSA_sign_static ec st h k endian"
  by (simp add: ECDSA_sign_preset_def ECDSA_sign_static_def new_ECDSA_def)


section \<open>Keys\<close>


section \<open>Signatures\<close>






section \<open>What is signed is accepted\<close>


section \<open>The small curve\<close>








end
