(* ===== verification/HDKeys.thy ===== *)
theory HDKeys
  imports Keys Sha512 Utf8
begin

text \<open>
  \<open>HDPrivateKey\<close> and \<open>HDPublicKey\<close> of magnachain.js: extended keys, their bytes and strings, and the derivation of children.
  A key object is a record with the buffers it was built from.  A string argument is taken for the serialized form: strings
  that are JSON texts, and buffers with the characters of a serialized key, are left out, as is the random generation of keys.
  Derivation indices are integers.
\<close>

section \<open>Data\<close>

record hd_buffers =
  hb_version :: bytes
  hb_depth :: bytes
  hb_parentFingerPrint :: bytes
  hb_childIndex :: bytes
  hb_chainCode :: bytes
  hb_key :: bytes
  hb_checksum :: bytes

record hd_private_key =
  hp_buffers :: hd_buffers
  hp_xprivkey :: string
  hp_network :: "network option"
  hp_depth :: nat
  hp_privateKey :: private_key
  hp_publicKey :: public_key
  hp_fingerPrint :: bytes

record hd_public_key =
  hq_buffers :: hd_buffers
  hq_xpubkey :: string
  hq_network :: "network option"
  hq_depth :: nat
  hq_publicKey :: public_key
  hq_fingerPrint :: bytes

text \<open>
  The properties of an object argument: numbers or buffers, strings or buffers.  The string of a key consists of hexadecimal
  digits.
\<close>

datatype num_buf = ONum int | OBuf bytes

datatype str_buf = OStr string | OBytes bytes

record hd_object =
  ho_network :: net_arg
  ho_version :: "bytes option"
  ho_depth :: num_buf
  ho_parentFingerPrint :: num_buf
  ho_childIndex :: num_buf
  ho_chainCode :: str_buf
  ho_key :: str_buf
  ho_checksum :: "num_buf option"

text \<open>\<open>hexToBuffer\<close> reads the variable \<open>js\<close>, which no file of the SDK declares.\<close>

definition BufferUtil_hexToBuffer :: "string \<Rightarrow> bytes result" where
  "BufferUtil_hexToBuffer s = Inl (NamedError ''ReferenceError: js is not defined'')"

definition num_buffer :: "(int \<Rightarrow> bytes) \<Rightarrow> num_buf \<Rightarrow> bytes" where
  "num_buffer f x = (case x of ONum n \<Rightarrow> f n | OBuf b \<Rightarrow> b)"

definition str_buffer :: "str_buf \<Rightarrow> bytes result" where
  "str_buffer x = (case x of OStr s \<Rightarrow> BufferUtil_hexToBuffer s | OBytes b \<Rightarrow> Inr b)"

text \<open>\<open>Networks.get\<close> of the number that four bytes give, which is negative from \<open>2 ^ 31\<close> on.\<close>

definition version_network :: "net_state \<Rightarrow> bytes \<Rightarrow> network option" where
  "version_network st version =
     (let v = integerFromBuffer version in if v < 0 then None else Networks_get st (ArgNum (nat v)) None)"

definition network_arg :: "network option \<Rightarrow> net_arg" where
  "network_arg n = (case n of None \<Rightarrow> ArgUndefined | Some n \<Rightarrow> ArgNet n)"

abbreviation (input) HD_Hardened :: int where "HD_Hardened \<equiv> 0x80000000"
abbreviation (input) HD_MaxIndex :: int where "HD_MaxIndex \<equiv> 0x100000000"

section \<open>Private keys from buffers\<close>

definition checkBuffer :: "string \<Rightarrow> nat \<Rightarrow> bytes \<Rightarrow> unit result" where
  "checkBuffer name sz buff = check (length buff = sz) (PlainError (name @ '' has not the expected size''))"

definition HDPrivateKey_validateBufferArguments :: "hd_buffers \<Rightarrow> unit result" where
  "HDPrivateKey_validateBufferArguments arg =
     rbind (checkBuffer ''version'' 4 (hb_version arg)) (\<lambda>_.
     rbind (checkBuffer ''depth'' 1 (hb_depth arg)) (\<lambda>_.
     rbind (checkBuffer ''parentFingerPrint'' 4 (hb_parentFingerPrint arg)) (\<lambda>_.
     rbind (checkBuffer ''childIndex'' 4 (hb_childIndex arg)) (\<lambda>_.
     rbind (checkBuffer ''chainCode'' 32 (hb_chainCode arg)) (\<lambda>_.
     rbind (checkBuffer ''privateKey'' 32 (hb_key arg)) (\<lambda>_.
     if hb_checksum arg = [] then Inr () else checkBuffer ''checksum'' 4 (hb_checksum arg)))))))"

definition HDPrivateKey_sequence :: "hd_buffers \<Rightarrow> bytes" where
  "HDPrivateKey_sequence arg =
     Buffer_concat [hb_version arg, hb_depth arg, hb_parentFingerPrint arg, hb_childIndex arg, hb_chainCode arg, [0], hb_key arg]"

text \<open>The checksums are compared as texts.\<close>

definition HDPrivateKey_buildFromBuffers :: "ec_params \<Rightarrow> net_state \<Rightarrow> hd_buffers \<Rightarrow> hd_private_key result" where
  "HDPrivateKey_buildFromBuffers ec st arg =
     rbind (HDPrivateKey_validateBufferArguments arg) (\<lambda>_.
     let concat = HDPrivateKey_sequence arg; checksum = Base58Check_checksum concat in
     rbind (check (hb_checksum arg = [] \<or> utf8Slice (hb_checksum arg) = utf8Slice checksum) (NamedError ''InvalidB58Checksum'')) (\<lambda>_.
     let arg = arg\<lparr>hb_checksum := if hb_checksum arg = [] then checksum else hb_checksum arg\<rparr>;
         network = version_network st (hb_version arg)
     in
     rbind (new_PrivateKey ec st 0 (SKBN (BN_fromBuffer (hb_key arg) False)) (network_arg network)) (\<lambda>priv.
     rbind (PrivateKey_toPublicKey ec st priv) (\<lambda>pub.
     rbind (PublicKey_toBuffer pub) (\<lambda>b.
       Inr \<lparr>hp_buffers = arg, hp_xprivkey = Base58Check_encode concat, hp_network = network,
            hp_depth = unat (hb_depth arg ! 0), hp_privateKey = priv, hp_publicKey = pub,
            hp_fingerPrint = Buffer_slice (Hash_sha256ripemd160 b) 0 4\<rparr>)))))"

definition HDPrivateKey_buildFromObject :: "ec_params \<Rightarrow> net_state \<Rightarrow> hd_object \<Rightarrow> hd_private_key result" where
  "HDPrivateKey_buildFromObject ec st arg =
     rbind (if truthy_net (ho_network arg) then
              (case Networks_get st (ho_network arg) None of
                 None \<Rightarrow> Inl (TypeError ''Cannot read property 'xprivkey' of undefined'')
               | Some n \<Rightarrow> Inr (Some (integerAsBuffer (int (xprivkey n)))))
            else Inr (ho_version arg)) (\<lambda>version.
     rbind (str_buffer (ho_chainCode arg)) (\<lambda>chainCode.
     rbind (str_buffer (ho_key arg)) (\<lambda>privateKey.
     rbind (case ho_checksum arg of
              None \<Rightarrow> Inr []
            | Some (ONum n) \<Rightarrow> Inr (if n = 0 then [] else integerAsBuffer n)
            | Some (OBuf b) \<Rightarrow> if b = [] then Inl (NamedError ''InvalidArgumentType'') else Inr b) (\<lambda>checksum.
     rbind (check (version \<noteq> None) (PlainError ''version argument is not a buffer'')) (\<lambda>_.
       HDPrivateKey_buildFromBuffers ec st
         \<lparr>hb_version = the version, hb_depth = num_buffer integerAsSingleByteBuffer (ho_depth arg),
          hb_parentFingerPrint = num_buffer integerAsBuffer (ho_parentFingerPrint arg),
          hb_childIndex = num_buffer integerAsBuffer (ho_childIndex arg), hb_chainCode = chainCode,
          hb_key = privateKey, hb_checksum = checksum\<rparr>)))))"

definition HDPrivateKey_buildFromSerialized :: "ec_params \<Rightarrow> net_state \<Rightarrow> string \<Rightarrow> hd_private_key result" where
  "HDPrivateKey_buildFromSerialized ec st arg =
     rbind (Base58Check_decode arg) (\<lambda>decoded.
       HDPrivateKey_buildFromBuffers ec st
         \<lparr>hb_version = Buffer_slice decoded 0 4, hb_depth = Buffer_slice decoded 4 5,
          hb_parentFingerPrint = Buffer_slice decoded 5 9, hb_childIndex = Buffer_slice decoded 9 13,
          hb_chainCode = Buffer_slice decoded 13 45, hb_key = Buffer_slice decoded 46 78,
          hb_checksum = Buffer_slice decoded 78 82\<rparr>)"

text \<open>\<open>getSerializedError\<close>; the argument \<open>network\<close> may be undefined.\<close>

definition HDPrivateKey_validateNetwork :: "net_state \<Rightarrow> bytes \<Rightarrow> net_arg \<Rightarrow> js_error option" where
  "HDPrivateKey_validateNetwork st data net =
     (case Networks_get st net None of
        None \<Rightarrow> Some (NamedError ''InvalidNetworkArgument'')
      | Some n \<Rightarrow>
          if integerFromBuffer (Buffer_slice data 0 4) \<noteq> int (xprivkey n) then Some (NamedError ''InvalidNetwork'') else None)"

definition HDPrivateKey_getSerializedError :: "net_state \<Rightarrow> string \<Rightarrow> net_arg \<Rightarrow> js_error option" where
  "HDPrivateKey_getSerializedError st data net =
     (if \<not> Base58_validCharacters data then Some (NamedError ''InvalidB58Char'')
      else
        case Base58Check_decode data of
          Inl _ \<Rightarrow> Some (NamedError ''InvalidB58Checksum'')
        | Inr b \<Rightarrow>
            if length b \<noteq> 78 then Some (NamedError ''HDPrivateKey.InvalidLength'')
            else if net \<noteq> ArgUndefined then HDPrivateKey_validateNetwork st b net else None)"

definition HDPrivateKey_isValidSerialized :: "net_state \<Rightarrow> string \<Rightarrow> net_arg \<Rightarrow> bool" where
  "HDPrivateKey_isValidSerialized st data net \<longleftrightarrow> HDPrivateKey_getSerializedError st data net = None"

text \<open>\<open>fromSeed\<close> for a buffer, and \<open>fromMnemonicWord\<close> for the bytes of the words.\<close>

definition seed_key :: bytes where
  "seed_key = map (\<lambda>c. of_nat (of_char c)) ''oh@god#celllinkF-s*e%ed''"

definition HDPrivateKey_fromSeed :: "ec_params \<Rightarrow> net_state \<Rightarrow> str_buf \<Rightarrow> net_arg \<Rightarrow> hd_private_key result" where
  "HDPrivateKey_fromSeed ec st hexa net =
     rbind (case hexa of
              OStr s \<Rightarrow> if isHexa s then BufferUtil_hexToBuffer s else Inl (NamedError ''HDPrivateKey.InvalidEntropyArgument'')
            | OBytes b \<Rightarrow> Inr b) (\<lambda>seed.
     rbind (check (16 \<le> length seed) (NamedError ''HDPrivateKey.InvalidEntropyArgument.NotEnoughEntropy'')) (\<lambda>_.
     rbind (check (length seed \<le> 64) (NamedError ''HDPrivateKey.InvalidEntropyArgument.TooMuchEntropy'')) (\<lambda>_.
     let hash = Hash_sha512hmac seed seed_key in
       HDPrivateKey_buildFromObject ec st
         \<lparr>ho_network = ArgNet (or_else (Networks_get st net None) defaultNetwork), ho_version = None, ho_depth = ONum 0,
          ho_parentFingerPrint = ONum 0, ho_childIndex = ONum 0, ho_chainCode = OBytes (Buffer_slice hash 32 64),
          ho_key = OBytes (Buffer_slice hash 0 32), ho_checksum = None\<rparr>)))"

definition HDPrivateKey_fromMnemonicWord :: "ec_params \<Rightarrow> net_state \<Rightarrow> bytes \<Rightarrow> net_arg \<Rightarrow> hd_private_key result" where
  "HDPrivateKey_fromMnemonicWord ec st words net = HDPrivateKey_fromSeed ec st (OBytes (Hash_sha512 words)) net"

text \<open>The constructor; \<open>rnd\<close> is what \<open>Random.getRandomBuffer(64)\<close> returns.\<close>

datatype hd_arg =
    HDUndefined
  | HDPrivate hd_private_key
  | HDPublic hd_public_key
  | HDString string
  | HDNetwork network
  | HDObject hd_object

definition HDPrivateKey_generateRandomly :: "ec_params \<Rightarrow> net_state \<Rightarrow> bytes \<Rightarrow> net_arg \<Rightarrow> hd_private_key result" where
  "HDPrivateKey_generateRandomly ec st rnd net = HDPrivateKey_fromSeed ec st (OBytes rnd) net"

definition new_HDPrivateKey :: "ec_params \<Rightarrow> net_state \<Rightarrow> bytes \<Rightarrow> hd_arg \<Rightarrow> hd_private_key result" where
  "new_HDPrivateKey ec st rnd arg =
     (case arg of
        HDPrivate k \<Rightarrow> Inr k
      | HDUndefined \<Rightarrow> HDPrivateKey_generateRandomly ec st rnd ArgUndefined
      | HDNetwork n \<Rightarrow>
          if Networks_get st (ArgNet n) None \<noteq> None then HDPrivateKey_generateRandomly ec st rnd (ArgNet n)
          else Inl (PlainError ''version argument is not a buffer'')
      | HDString s \<Rightarrow>
          if s = [] then HDPrivateKey_generateRandomly ec st rnd ArgUndefined
          else if Networks_get st (ArgStr s) None \<noteq> None then HDPrivateKey_generateRandomly ec st rnd (ArgStr s)
          else
            (case HDPrivateKey_getSerializedError st s ArgUndefined of
               None \<Rightarrow> HDPrivateKey_buildFromSerialized ec st s
             | Some err \<Rightarrow> Inl err)
      | HDObject ob \<Rightarrow> HDPrivateKey_buildFromObject ec st ob
      | HDPublic k \<Rightarrow>
          Inl (PlainError (if hq_network k = None then ''version argument is not a buffer''
                           else ''parentFingerPrint argument is not a buffer'')))"

section \<open>Paths\<close>

text \<open>
  The number of a step: a decimal or a hexadecimal numeral, with blanks around it.  Numerals with a sign, a fraction or an
  exponent are left out.
\<close>

definition js_unsigned :: "string \<Rightarrow> nat option" where
  "js_unsigned s =
     (let t = js_trim s in
      if t = [] then Some 0
      else if take 2 t = ''0x'' \<or> take 2 t = ''0X'' then
        (if list_all (\<lambda>c. hex_digit c \<noteq> None) (drop 2 t) then parse_digits 16 hex_digit None (drop 2 t) else None)
      else if list_all (\<lambda>c. dec_digit c \<noteq> None) t then parse_digits 10 dec_digit None t else None)"

definition path_step :: "string \<Rightarrow> int option" where
  "path_step step =
     (let isHardened = (step \<noteq> [] \<and> last step = CHR 39);
          step = (if isHardened then butlast step else step)
      in if step = [] \<or> hd step = CHR ''-'' then None
         else map_option (\<lambda>i. if isHardened then int i + HD_Hardened else int i) (js_unsigned step))"

definition RootElementAlias :: "string list" where
  "RootElementAlias = [''m'', ''M'', [CHR ''m'', CHR 39], [CHR ''M'', CHR 39]]"

definition HDPrivateKey_getDerivationIndexes :: "string \<Rightarrow> int list option" where
  "HDPrivateKey_getDerivationIndexes path =
     (let steps = js_split (CHR ''/'') path in
      if path \<in> set RootElementAlias then Some []
      else if hd steps \<notin> set RootElementAlias then None
      else
        let indexes = map path_step (tl steps)
        in if None \<in> set indexes then None else Some (map the indexes))"

definition HDPrivateKey_isValidPath_number :: "int \<Rightarrow> bool \<Rightarrow> bool" where
  "HDPrivateKey_isValidPath_number arg hardened \<longleftrightarrow>
     (let arg = (if arg < HD_Hardened \<and> hardened then arg + HD_Hardened else arg) in arg \<ge> 0 \<and> arg < HD_MaxIndex)"

definition HDPrivateKey_isValidPath :: "string \<Rightarrow> bool" where
  "HDPrivateKey_isValidPath arg \<longleftrightarrow>
     (case HDPrivateKey_getDerivationIndexes arg of
        None \<Rightarrow> False
      | Some indexes \<Rightarrow> list_all (\<lambda>i. HDPrivateKey_isValidPath_number i False) indexes)"

section \<open>Derivation of private keys\<close>

text \<open>The bytes that are hashed for the child with the given index.\<close>

definition hd_child_data :: "hd_private_key \<Rightarrow> int \<Rightarrow> bool \<Rightarrow> bool \<Rightarrow> bytes result" where
  "hd_child_data this index hardened nonCompliant =
     (let indexBuffer = integerAsBuffer index in
      if hardened \<and> nonCompliant then Inr (Buffer_concat [[0], BN_toBuffer (priv_bn (hp_privateKey this)) 0 False, indexBuffer])
      else if hardened then
        let privateKeyBuffer = BN_toBuffer (priv_bn (hp_privateKey this)) 32 False
        in rbind (check (length privateKeyBuffer = 32) (PlainError ''length of private key buffer is expected to be 32 bytes'')) (\<lambda>_.
             Inr (Buffer_concat [[0], privateKeyBuffer, indexBuffer]))
      else rbind (PublicKey_toBuffer (hp_publicKey this)) (\<lambda>b. Inr (Buffer_concat [b, indexBuffer])))"

definition hd_child_key :: "ec_params \<Rightarrow> hd_private_key \<Rightarrow> bytes \<Rightarrow> bytes" where
  "hd_child_key ec this hash =
     BN_toBuffer (BN_umod (BN_fromBuffer (Buffer_slice hash 0 32) False + priv_bn (hp_privateKey this)) (ec_n ec)) 32 False"

function HDPrivateKey_deriveWithNumber ::
    "ec_params \<Rightarrow> net_state \<Rightarrow> hd_private_key \<Rightarrow> int \<Rightarrow> bool \<Rightarrow> bool \<Rightarrow> hd_private_key result" where
  "HDPrivateKey_deriveWithNumber ec st this index hardened nonCompliant =
     (if \<not> HDPrivateKey_isValidPath_number index hardened then Inl (NamedError ''HDPrivateKey.InvalidPath'')
      else
        let hardened = (index \<ge> HD_Hardened \<or> hardened);
            index = (if index < HD_Hardened \<and> hardened then index + HD_Hardened else index)
        in
        rbind (hd_child_data this index hardened nonCompliant) (\<lambda>data.
          let hash = Hash_sha512hmac data (hb_chainCode (hp_buffers this));
              chainCode = Buffer_slice hash 32 64;
              privateKey = hd_child_key ec this hash
          in
          if \<not> PrivateKey_isValid ec st 0 (SKBuffer privateKey) ArgUndefined
          then HDPrivateKey_deriveWithNumber ec st this (index + 1) False nonCompliant
          else
            HDPrivateKey_buildFromObject ec st
              \<lparr>ho_network = network_arg (hp_network this), ho_version = None, ho_depth = ONum (int (hp_depth this) + 1),
               ho_parentFingerPrint = OBuf (hp_fingerPrint this), ho_childIndex = ONum index, ho_chainCode = OBytes chainCode,
               ho_key = OBytes privateKey, ho_checksum = None\<rparr>))"
  by pat_completeness auto
termination
  by (relation "measure (\<lambda>(ec, st, this, index, hardened, nc). nat (HD_MaxIndex - (if index < HD_Hardened \<and> hardened then index + HD_Hardened else index)))")
    (auto simp: HDPrivateKey_isValidPath_number_def Let_def split: if_splits)

declare HDPrivateKey_deriveWithNumber.simps [simp del]

definition HDPrivateKey_deriveFromString ::
    "ec_params \<Rightarrow> net_state \<Rightarrow> hd_private_key \<Rightarrow> string \<Rightarrow> bool \<Rightarrow> hd_private_key result" where
  "HDPrivateKey_deriveFromString ec st this path nonCompliant =
     (if \<not> HDPrivateKey_isValidPath path then Inl (NamedError ''HDPrivateKey.InvalidPath'')
      else
        foldl (\<lambda>prev index. rbind prev (\<lambda>k. HDPrivateKey_deriveWithNumber ec st k index False nonCompliant))
          (Inr this) (the (HDPrivateKey_getDerivationIndexes path)))"

datatype hd_step = StepNumber int bool | StepPath string | StepOther

definition HDPrivateKey_deriveChild :: "ec_params \<Rightarrow> net_state \<Rightarrow> hd_private_key \<Rightarrow> hd_step \<Rightarrow> hd_private_key result" where
  "HDPrivateKey_deriveChild ec st this arg =
     (case arg of
        StepNumber n hardened \<Rightarrow> HDPrivateKey_deriveWithNumber ec st this n hardened False
      | StepPath s \<Rightarrow> HDPrivateKey_deriveFromString ec st this s False
      | StepOther \<Rightarrow> Inl (NamedError ''HDPrivateKey.InvalidDerivationArgument''))"

definition HDPrivateKey_deriveNonCompliantChild ::
    "ec_params \<Rightarrow> net_state \<Rightarrow> hd_private_key \<Rightarrow> hd_step \<Rightarrow> hd_private_key result" where
  "HDPrivateKey_deriveNonCompliantChild ec st this arg =
     (case arg of
        StepNumber n hardened \<Rightarrow> HDPrivateKey_deriveWithNumber ec st this n hardened True
      | StepPath s \<Rightarrow> HDPrivateKey_deriveFromString ec st this s True
      | StepOther \<Rightarrow> Inl (NamedError ''HDPrivateKey.InvalidDerivationArgument''))"

definition HDPrivateKey_derive :: "ec_params \<Rightarrow> net_state \<Rightarrow> hd_private_key \<Rightarrow> hd_step \<Rightarrow> hd_private_key result" where
  "HDPrivateKey_derive ec st this arg = HDPrivateKey_deriveNonCompliantChild ec st this arg"

section \<open>Public keys\<close>

definition HDPublicKey_validateBufferArguments :: "hd_buffers \<Rightarrow> unit result" where
  "HDPublicKey_validateBufferArguments arg =
     rbind (checkBuffer ''version'' 4 (hb_version arg)) (\<lambda>_.
     rbind (checkBuffer ''depth'' 1 (hb_depth arg)) (\<lambda>_.
     rbind (checkBuffer ''parentFingerPrint'' 4 (hb_parentFingerPrint arg)) (\<lambda>_.
     rbind (checkBuffer ''childIndex'' 4 (hb_childIndex arg)) (\<lambda>_.
     rbind (checkBuffer ''chainCode'' 32 (hb_chainCode arg)) (\<lambda>_.
     rbind (checkBuffer ''publicKey'' 33 (hb_key arg)) (\<lambda>_.
     if hb_checksum arg = [] then Inr () else checkBuffer ''checksum'' 4 (hb_checksum arg)))))))"

definition HDPublicKey_sequence :: "hd_buffers \<Rightarrow> bytes" where
  "HDPublicKey_sequence arg =
     Buffer_concat [hb_version arg, hb_depth arg, hb_parentFingerPrint arg, hb_childIndex arg, hb_chainCode arg, hb_key arg]"

definition HDPublicKey_buildFromBuffers :: "ec_params \<Rightarrow> net_state \<Rightarrow> hd_buffers \<Rightarrow> hd_public_key result" where
  "HDPublicKey_buildFromBuffers ec st arg =
     rbind (HDPublicKey_validateBufferArguments arg) (\<lambda>_.
     let concat = HDPublicKey_sequence arg; checksum = Base58Check_checksum concat in
     rbind (check (hb_checksum arg = [] \<or> hexSlice (hb_checksum arg) = hexSlice checksum) (NamedError ''InvalidB58Checksum'')) (\<lambda>_.
     let arg = arg\<lparr>hb_checksum := if hb_checksum arg = [] then checksum else hb_checksum arg\<rparr>;
         network = version_network st (hb_version arg)
     in
     rbind (new_PublicKey ec st (PKBuffer (hb_key arg)) None (network_arg network)) (\<lambda>pub.
     rbind (PublicKey_toBuffer pub) (\<lambda>b.
       Inr \<lparr>hq_buffers = arg, hq_xpubkey = Base58Check_encode concat, hq_network = network,
            hq_depth = unat (hb_depth arg ! 0), hq_publicKey = pub,
            hq_fingerPrint = Buffer_slice (Hash_sha256ripemd160 b) 0 4\<rparr>))))"

definition HDPublicKey_buildFromPrivate :: "ec_params \<Rightarrow> net_state \<Rightarrow> hd_private_key \<Rightarrow> hd_public_key result" where
  "HDPublicKey_buildFromPrivate ec st arg =
     (let args = hp_buffers arg in
      rbind (ShortPoint_mul (ec_curve ec) (ec_g ec) (BN_fromBuffer (hb_key args) False)) (\<lambda>P.
      rbind (Point_pointToCompressed P) (\<lambda>publicKey.
      case version_network st (hb_version args) of
        None \<Rightarrow> Inl (TypeError ''Cannot read property 'xpubkey' of undefined'')
      | Some n \<Rightarrow>
          HDPublicKey_buildFromBuffers ec st
            (args\<lparr>hb_version := integerAsBuffer (int (xpubkey n)), hb_key := publicKey, hb_checksum := []\<rparr>))))"

text \<open>The public key of an object is a string, a buffer or a public key.\<close>

datatype hd_pub = HPStr string | HPBuf bytes | HPKey public_key

definition HDPublicKey_buildFromObject :: "ec_params \<Rightarrow> net_state \<Rightarrow> hd_object \<Rightarrow> hd_pub \<Rightarrow> hd_public_key result" where
  "HDPublicKey_buildFromObject ec st arg pub =
     rbind (if truthy_net (ho_network arg) then
              (case Networks_get st (ho_network arg) None of
                 None \<Rightarrow> Inl (TypeError ''Cannot read property 'xpubkey' of undefined'')
               | Some n \<Rightarrow> Inr (Some (integerAsBuffer (int (xpubkey n)))))
            else Inr (ho_version arg)) (\<lambda>version.
     rbind (str_buffer (ho_chainCode arg)) (\<lambda>chainCode.
     rbind (case pub of HPStr s \<Rightarrow> BufferUtil_hexToBuffer s | HPBuf b \<Rightarrow> Inr b | HPKey k \<Rightarrow> PublicKey_toBuffer k) (\<lambda>publicKey.
     let checksum = (case ho_checksum arg of None \<Rightarrow> [] | Some (ONum n) \<Rightarrow> integerAsBuffer n | Some (OBuf b) \<Rightarrow> b) in
     rbind (check (version \<noteq> None) (PlainError ''version argument is not a buffer'')) (\<lambda>_.
       HDPublicKey_buildFromBuffers ec st
         \<lparr>hb_version = the version, hb_depth = num_buffer integerAsSingleByteBuffer (ho_depth arg),
          hb_parentFingerPrint = num_buffer integerAsBuffer (ho_parentFingerPrint arg),
          hb_childIndex = num_buffer integerAsBuffer (ho_childIndex arg), hb_chainCode = chainCode,
          hb_key = publicKey, hb_checksum = checksum\<rparr>))))"

definition HDPublicKey_buildFromSerialized :: "ec_params \<Rightarrow> net_state \<Rightarrow> string \<Rightarrow> hd_public_key result" where
  "HDPublicKey_buildFromSerialized ec st arg =
     rbind (Base58Check_decode arg) (\<lambda>decoded.
       HDPublicKey_buildFromBuffers ec st
         \<lparr>hb_version = Buffer_slice decoded 0 4, hb_depth = Buffer_slice decoded 4 5,
          hb_parentFingerPrint = Buffer_slice decoded 5 9, hb_childIndex = Buffer_slice decoded 9 13,
          hb_chainCode = Buffer_slice decoded 13 45, hb_key = Buffer_slice decoded 45 78,
          hb_checksum = Buffer_slice decoded 78 82\<rparr>)"

definition HDPublicKey_validateNetwork :: "net_state \<Rightarrow> bytes \<Rightarrow> net_arg \<Rightarrow> js_error option" where
  "HDPublicKey_validateNetwork st data net =
     (case Networks_get st net None of
        None \<Rightarrow> Some (NamedError ''InvalidNetworkArgument'')
      | Some n \<Rightarrow>
          if integerFromBuffer (Buffer_slice data 0 4) \<noteq> int (xpubkey n) then Some (NamedError ''InvalidNetwork'') else None)"

definition HDPublicKey_getSerializedError :: "net_state \<Rightarrow> string \<Rightarrow> net_arg \<Rightarrow> js_error option" where
  "HDPublicKey_getSerializedError st data net =
     (if \<not> Base58_validCharacters data then Some (NamedError ''InvalidB58Char'')
      else
        case Base58Check_decode data of
          Inl _ \<Rightarrow> Some (NamedError ''InvalidB58Checksum'')
        | Inr b \<Rightarrow>
            if length b \<noteq> 78 then Some (NamedError ''HDPublicKey.InvalidLength'')
            else
              case (if net \<noteq> ArgUndefined then HDPublicKey_validateNetwork st b net else None) of
                Some err \<Rightarrow> Some err
              | None \<Rightarrow>
                  let version = integerFromBuffer (Buffer_slice b 0 4)
                  in if version = int (xprivkey livenet) \<or> version = int (xprivkey testnet)
                     then Some (NamedError ''HDPublicKey.ArgumentIsPrivateExtended'') else None)"

definition HDPublicKey_isValidSerialized :: "net_state \<Rightarrow> string \<Rightarrow> net_arg \<Rightarrow> bool" where
  "HDPublicKey_isValidSerialized st data net \<longleftrightarrow> HDPublicKey_getSerializedError st data net = None"

definition new_HDPublicKey :: "ec_params \<Rightarrow> net_state \<Rightarrow> bytes \<Rightarrow> hd_arg \<Rightarrow> hd_pub \<Rightarrow> hd_public_key result" where
  "new_HDPublicKey ec st rnd arg pub =
     (case arg of
        HDPublic k \<Rightarrow> Inr k
      | HDUndefined \<Rightarrow> Inl (NamedError ''HDPublicKey.MustSupplyArgument'')
      | HDString s \<Rightarrow>
          if s = [] then Inl (NamedError ''HDPublicKey.MustSupplyArgument'')
          else
            (case HDPublicKey_getSerializedError st s ArgUndefined of
               None \<Rightarrow> HDPublicKey_buildFromSerialized ec st s
             | Some err \<Rightarrow>
                 if err = NamedError ''HDPublicKey.ArgumentIsPrivateExtended''
                 then rbind (new_HDPrivateKey ec st rnd (HDString s)) (HDPublicKey_buildFromPrivate ec st)
                 else Inl err)
      | HDPrivate k \<Rightarrow> HDPublicKey_buildFromPrivate ec st k
      | HDObject ob \<Rightarrow> HDPublicKey_buildFromObject ec st ob pub
      | HDNetwork n \<Rightarrow> Inl (TypeError ''Cannot read property 'toBuffer' of undefined''))"

definition HDPublicKey_isValidPath_number :: "int \<Rightarrow> bool" where
  "HDPublicKey_isValidPath_number arg \<longleftrightarrow> arg \<ge> 0 \<and> arg < HD_Hardened"

definition HDPublicKey_isValidPath :: "string \<Rightarrow> bool" where
  "HDPublicKey_isValidPath arg \<longleftrightarrow>
     (case HDPrivateKey_getDerivationIndexes arg of
        None \<Rightarrow> False
      | Some indexes \<Rightarrow> list_all HDPublicKey_isValidPath_number indexes)"

function HDPublicKey_deriveWithNumber ::
    "ec_params \<Rightarrow> net_state \<Rightarrow> hd_public_key \<Rightarrow> int \<Rightarrow> bool \<Rightarrow> hd_public_key result" where
  "HDPublicKey_deriveWithNumber ec st this index hardened =
     (if index \<ge> HD_Hardened \<or> hardened then Inl (NamedError ''HDPublicKey.InvalidIndexCantDeriveHardened'')
      else if index < 0 then Inl (NamedError ''HDPublicKey.InvalidPath'')
      else
        rbind (PublicKey_toBuffer (hq_publicKey this)) (\<lambda>b.
          let data = Buffer_concat [b, integerAsBuffer index];
              hash = Hash_sha512hmac data (hb_chainCode (hq_buffers this));
              leftPart = BN_fromBuffer (Buffer_slice hash 0 32) False;
              chainCode = Buffer_slice hash 32 64
          in
          case rbind (ShortPoint_mul (ec_curve ec) (ec_g ec) leftPart) (\<lambda>P.
                 PublicKey_fromPoint ec st (plain (ShortPoint_add (ec_curve ec) P (sp_point (pk_point (hq_publicKey this))))) None) of
            Inl _ \<Rightarrow> HDPublicKey_deriveWithNumber ec st this (index + 1) False
          | Inr publicKey \<Rightarrow>
              HDPublicKey_buildFromObject ec st
                \<lparr>ho_network = network_arg (hq_network this), ho_version = None, ho_depth = ONum (int (hq_depth this) + 1),
                 ho_parentFingerPrint = OBuf (hq_fingerPrint this), ho_childIndex = ONum index, ho_chainCode = OBytes chainCode,
                 ho_key = OBytes [], ho_checksum = None\<rparr> (HPKey publicKey)))"
  by pat_completeness auto
termination
  by (relation "measure (\<lambda>(ec, st, this, index, hardened). nat (HD_Hardened - index))") auto

declare HDPublicKey_deriveWithNumber.simps [simp del]

definition HDPublicKey_deriveFromString ::
    "ec_params \<Rightarrow> net_state \<Rightarrow> hd_public_key \<Rightarrow> string \<Rightarrow> hd_public_key result" where
  "HDPublicKey_deriveFromString ec st this path =
     (if CHR 39 \<in> set path then Inl (NamedError ''HDPublicKey.InvalidIndexCantDeriveHardened'')
      else if \<not> HDPublicKey_isValidPath path then Inl (NamedError ''HDPublicKey.InvalidPath'')
      else
        foldl (\<lambda>prev index. rbind prev (\<lambda>k. HDPublicKey_deriveWithNumber ec st k index False))
          (Inr this) (the (HDPrivateKey_getDerivationIndexes path)))"

definition HDPublicKey_deriveChild :: "ec_params \<Rightarrow> net_state \<Rightarrow> hd_public_key \<Rightarrow> hd_step \<Rightarrow> hd_public_key result" where
  "HDPublicKey_deriveChild ec st this arg =
     (case arg of
        StepNumber n hardened \<Rightarrow> HDPublicKey_deriveWithNumber ec st this n hardened
      | StepPath s \<Rightarrow> HDPublicKey_deriveFromString ec st this s
      | StepOther \<Rightarrow> Inl (NamedError ''HDPublicKey.InvalidDerivationArgument''))"

section \<open>Objects\<close>

text \<open>\<open>toObject\<close>: the numbers of four bytes are signed.\<close>

record hd_plain =
  hx_network :: string
  hx_depth :: nat
  hx_fingerPrint :: int
  hx_parentFingerPrint :: int
  hx_childIndex :: int
  hx_chainCode :: string
  hx_key :: string
  hx_checksum :: int
  hx_string :: string

definition HDPrivateKey_toObject :: "net_state \<Rightarrow> hd_private_key \<Rightarrow> hd_plain result" where
  "HDPrivateKey_toObject st k =
     (let b = hp_buffers k in
      case (let v = integerFromBuffer (hb_version b)
            in if v < 0 then None else Networks_get st (ArgNum (nat v)) (Some [''xprivkey''])) of
        None \<Rightarrow> Inl (TypeError ''Cannot read property 'name' of undefined'')
      | Some n \<Rightarrow>
          Inr \<lparr>hx_network = net_name n, hx_depth = unat (hb_depth b ! 0), hx_fingerPrint = integerFromBuffer (hp_fingerPrint k),
               hx_parentFingerPrint = integerFromBuffer (hb_parentFingerPrint b),
               hx_childIndex = integerFromBuffer (hb_childIndex b), hx_chainCode = hexSlice (hb_chainCode b),
               hx_key = hexSlice (PrivateKey_toBuffer (hp_privateKey k)), hx_checksum = integerFromBuffer (hb_checksum b),
               hx_string = hp_xprivkey k\<rparr>)"

definition HDPublicKey_toObject :: "net_state \<Rightarrow> hd_public_key \<Rightarrow> hd_plain result" where
  "HDPublicKey_toObject st k =
     (let b = hq_buffers k in
      case version_network st (hb_version b) of
        None \<Rightarrow> Inl (TypeError ''Cannot read property 'name' of undefined'')
      | Some n \<Rightarrow>
          rbind (PublicKey_toString (hq_publicKey k)) (\<lambda>key.
          Inr \<lparr>hx_network = net_name n, hx_depth = unat (hb_depth b ! 0), hx_fingerPrint = integerFromBuffer (hq_fingerPrint k),
               hx_parentFingerPrint = integerFromBuffer (hb_parentFingerPrint b),
               hx_childIndex = integerFromBuffer (hb_childIndex b), hx_chainCode = hexSlice (hb_chainCode b),
               hx_key = key, hx_checksum = integerFromBuffer (hb_checksum b), hx_string = hq_xpubkey k\<rparr>))"

end
