(* ===== verification/HDProps.thy ===== *)
theory HDProps
  imports KeyProps HDKeys
begin

text \<open>
  Extended keys: what is built from buffers, the strings of the keys, and the derivation of children.  Derivation commutes
  with the passage from a private key to its public key.
\<close>

section \<open>Networks of the versions\<close>

lemma length_integerAsBuffer [simp]: "length (integerAsBuffer v) = 4"
  by (simp add: integerAsBuffer_def)

lemma version_network_sdk: "version_network initial_networks v = Some n \<Longrightarrow> sdk_network n"
  by (auto simp: version_network_def Let_def Networks_get_def maps_eq sdk_network_def split: if_splits)

lemma sdk_hd_versions:
  "xpubkey livenet = 76067358" "xprivkey livenet = 76066276" "xpubkey testnet = 70617039" "xprivkey testnet = 70615956"
  "net_alias testnet = ''regtest''" "net_port testnet = None"
  by (simp_all add: livenet_def testnet_def new_network_def livenet_data_def testnet_data_def)

lemma integer_of_versions:
  "integerFromBuffer (integerAsBuffer 76067358) = 76067358" "integerFromBuffer (integerAsBuffer 76066276) = 76066276"
  "integerFromBuffer (integerAsBuffer 70617039) = 70617039" "integerFromBuffer (integerAsBuffer 70615956) = 70615956"
  by (simp_all add: integerAsBuffer_def integerFromBuffer_def cell_def toInt32_id)

lemma sdk_hd_keys:
  assumes "sdk_network n" "m = xpubkey n \<or> m = xprivkey n"
  shows "Networks_get initial_networks (ArgNum m) None = Some n"
proof -
  have ne: "dec_string m \<noteq> ''testnet''" "dec_string m \<noteq> ''regtest''" for m
    using not_dec_string [of "''testnet''" m] not_dec_string [of "''regtest''" m] by (auto simp: dec_digit_def)
  show ?thesis
    using assms ne
    by (auto simp: Networks_get_def arg_key_def maps_eq net_values_def key_string_def dec_string_inj sdk_network_def
        sdk_hd_versions sdk_privatekey)
qed

lemma version_network_keys:
  assumes "sdk_network n"
  shows "version_network initial_networks (integerAsBuffer (int (xprivkey n))) = Some n"
    "version_network initial_networks (integerAsBuffer (int (xpubkey n))) = Some n"
  using assms sdk_hd_keys [OF assms, of "xprivkey n"] sdk_hd_keys [OF assms, of "xpubkey n"]
  by (auto simp: version_network_def Let_def sdk_network_def sdk_hd_versions integer_of_versions)

section \<open>Keys built from buffers\<close>

definition compressed_bytes :: "point \<Rightarrow> bytes" where
  "compressed_bytes P = (case P of Infinity \<Rightarrow> [] | Affine x y \<Rightarrow> (if odd y then 3 else 2) # BN_toBuffer x 32 False)"

definition hd_sizes :: "nat \<Rightarrow> hd_buffers \<Rightarrow> bool" where
  "hd_sizes m a \<longleftrightarrow> length (hb_version a) = 4 \<and> length (hb_depth a) = 1 \<and> length (hb_parentFingerPrint a) = 4 \<and>
     length (hb_childIndex a) = 4 \<and> length (hb_chainCode a) = 32 \<and> length (hb_key a) = m"

lemma validate_private:
  "HDPrivateKey_validateBufferArguments a = Inr () \<longleftrightarrow> hd_sizes 32 a \<and> (hb_checksum a = [] \<or> length (hb_checksum a) = 4)"
  by (auto simp: HDPrivateKey_validateBufferArguments_def hd_sizes_def checkBuffer_def check_def rbind_eq_Inr split: if_splits)

lemma validate_public:
  "HDPublicKey_validateBufferArguments a = Inr () \<longleftrightarrow> hd_sizes 33 a \<and> (hb_checksum a = [] \<or> length (hb_checksum a) = 4)"
  by (auto simp: HDPublicKey_validateBufferArguments_def hd_sizes_def checkBuffer_def check_def rbind_eq_Inr split: if_splits)

text \<open>The private key of the buffers, and the public key of buffers with the bytes of a point.\<close>

definition hd_private_of :: "ec_params \<Rightarrow> hd_buffers \<Rightarrow> hd_private_key" where
  "hd_private_of ec a =
     (let s = int (be_val (hb_key a)); n = version_network initial_networks (hb_version a); P = gmul ec s in
      \<lparr>hp_buffers = a\<lparr>hb_checksum := if hb_checksum a = [] then Base58Check_checksum (HDPrivateKey_sequence a) else hb_checksum a\<rparr>,
       hp_xprivkey = Base58Check_encode (HDPrivateKey_sequence a), hp_network = n, hp_depth = unat (hb_depth a ! 0),
       hp_privateKey = \<lparr>priv_bn = s, priv_compressed = True, priv_network = or_else n livenet\<rparr>,
       hp_publicKey = \<lparr>pk_point = plain P, pk_compressed = True, pk_network = or_else n livenet\<rparr>,
       hp_fingerPrint = take 4 (Hash_sha256ripemd160 (compressed_bytes P))\<rparr>)"

definition hd_public_of :: "hd_buffers \<Rightarrow> point \<Rightarrow> hd_public_key" where
  "hd_public_of a P =
     (let n = version_network initial_networks (hb_version a) in
      \<lparr>hq_buffers = a\<lparr>hb_checksum := Base58Check_checksum (HDPublicKey_sequence a)\<rparr>,
       hq_xpubkey = Base58Check_encode (HDPublicKey_sequence a), hq_network = n, hq_depth = unat (hb_depth a ! 0),
       hq_publicKey = \<lparr>pk_point = plain P, pk_compressed = True, pk_network = or_else n livenet\<rparr>,
       hq_fingerPrint = take 4 (Hash_sha256ripemd160 (compressed_bytes P))\<rparr>)"

lemma toBuffer_compressed:
  assumes "ec_ok ec" "on_curve (ec_curve ec) P" "P \<noteq> Infinity"
  shows "PublicKey_toBuffer \<lparr>pk_point = plain P, pk_compressed = True, pk_network = n\<rparr> = Inr (compressed_bytes P)"
    and "Point_pointToCompressed P = Inr (compressed_bytes P)" and "length (compressed_bytes P) = 33"
proof -
  obtain x y where P: "P = Affine x y" using assms(3) by (cases P) auto
  note b = PublicKey_toBuffer_eq [OF assms(1), of "\<lparr>pk_point = plain P, pk_compressed = True, pk_network = n\<rparr>" x y]
  have k: "pk_point \<lparr>pk_point = plain P, pk_compressed = True, pk_network = n\<rparr> = plain (Affine x y)"
    and c: "on_curve (ec_curve ec) (Affine x y)" using P assms(2) by simp_all
  then show "PublicKey_toBuffer \<lparr>pk_point = plain P, pk_compressed = True, pk_network = n\<rparr> = Inr (compressed_bytes P)"
    using b(1) by (simp add: compressed_bytes_def P)
  show "Point_pointToCompressed P = Inr (compressed_bytes P)" "length (compressed_bytes P) = 33"
    using toBuffer_32(1) [OF b(2,3) [OF k c]] toBuffer_32(3) [OF b(4,5) [OF k c]]
    by (simp_all add: Point_pointToCompressed_def Point_getX_def Point_getY_def P compressed_bytes_def)
qed

lemma slice_4 [simp]: "length h = m \<Longrightarrow> 4 \<le> m \<Longrightarrow> m < 2147483648 \<Longrightarrow> Buffer_slice h 0 4 = take 4 h"
  using Buffer_slice_nat [of 0 4 h] by simp

lemma network_arg_version:
  "Networks_get initial_networks (network_arg (version_network initial_networks v)) None =
     (case version_network initial_networks v of None \<Rightarrow> Networks_get initial_networks ArgUndefined None | Some n \<Rightarrow> Some n)"
  using version_network_sdk [of v] get_sdk_network by (auto simp: network_arg_def split: option.splits)

lemma hd_new_private:
  "new_PrivateKey ec initial_networks 0 (SKBN s) (network_arg (version_network initial_networks v)) =
     PrivateKey_of_info ec \<lparr>si_bn = s, si_compressed = True, si_network = Some (or_else (version_network initial_networks v) livenet)\<rparr>"
  using network_arg_version [of v]
  by (auto simp: new_PrivateKey_def PrivateKey_classifyArguments_def network_arg_def truthy_net_def or_else_def defaultNetwork_def
      split: option.splits)

lemma hd_private_iff:
  assumes "ec_ok ec"
  shows "HDPrivateKey_buildFromBuffers ec initial_networks a = Inr k \<longleftrightarrow>
    hd_sizes 32 a \<and>
    (hb_checksum a = [] \<or> length (hb_checksum a) = 4 \<and>
      utf8Slice (hb_checksum a) = utf8Slice (Base58Check_checksum (HDPrivateKey_sequence a))) \<and>
    0 < be_val (hb_key a) \<and> int (be_val (hb_key a)) < ec_n ec \<and> k = hd_private_of ec a"
proof -
  let ?v = "version_network initial_networks (hb_version a)" and ?s = "int (be_val (hb_key a))"
  let ?sk = "\<lparr>priv_bn = ?s, priv_compressed = True, priv_network = or_else ?v livenet\<rparr>"
  let ?pk = "\<lparr>pk_point = plain (gmul ec ?s), pk_compressed = True, pk_network = or_else ?v livenet\<rparr>"
  have sk: "new_PrivateKey ec initial_networks 0 (SKBN ?s) (network_arg ?v) =
      (if ?s = 0 then Inl (TypeError ''Number can not be equal to zero, undefined, null or false'')
       else if \<not> ?s < ec_n ec then Inl (TypeError ''Number must be less than N'') else Inr ?sk)"
    unfolding hd_new_private by (simp add: PrivateKey_of_info_def)
  have n: "Networks_get initial_networks (ArgNet (or_else ?v livenet)) None = Some (or_else ?v livenet)"
    by (rule get_sdk_network) (use version_network_sdk in \<open>auto simp: or_else_def sdk_network_def split: option.splits\<close>)
  have pk: "PrivateKey_toPublicKey ec initial_networks ?sk = Inr ?pk \<and> PublicKey_toBuffer ?pk = Inr (compressed_bytes (gmul ec ?s))"
    if "0 < ?s" "?s < ec_n ec"
  proof -
    have "sk_ok ec ?sk" using that by (simp add: sk_ok_def)
    from fromPrivateKey(1) [OF assms this, of initial_networks] fromPrivateKey(2) [OF assms this] show ?thesis
      using toBuffer_compressed(1) [OF assms gmul_closed [OF assms]] n by (simp add: PrivateKey_toPublicKey_def or_else_def)
  qed
  have len: "Buffer_slice (Hash_sha256ripemd160 b) 0 4 = take 4 (Hash_sha256ripemd160 b)" for b by simp
  show ?thesis
  proof (cases "0 < ?s \<and> ?s < ec_n ec")
    case True
    then show ?thesis using pk
      by (auto simp: HDPrivateKey_buildFromBuffers_def rbind_eq_Inr validate_private check_def BN_fromBuffer_eq sk len
          hd_private_of_def Let_def split: if_splits)
  next
    case False
    then show ?thesis
      by (auto simp: HDPrivateKey_buildFromBuffers_def rbind_eq_Inr BN_fromBuffer_eq sk Let_def split: if_splits)
  qed
qed

lemma transformDER_compressed:
  assumes "ec_ok ec" "on_curve (ec_curve ec) P" "P \<noteq> Infinity"
  shows "PublicKey_transformDER ec (compressed_bytes P) True = Inr (plain P, True)"
proof -
  obtain x y where P: "P = Affine x y" using assms(3) by (cases P) auto
  note b = PublicKey_toBuffer_eq(2,3) [OF assms(1), of "\<lparr>pk_point = plain P, pk_compressed = True, pk_network = livenet\<rparr>" x y]
  have x: "0 \<le> x" "x < 2 ^ 256" using b P assms(2) by simp_all
  have "x mod c_p (ec_curve ec) = x" using on_curve_ok [OF assms(2)] by (simp add: P point_ok_def reduced_mod_id)
  then have "PublicKey_fromBuffer ec initial_networks (compressed_bytes P) True =
      Inr \<lparr>pk_point = plain P, pk_compressed = True, pk_network = defaultNetwork\<rparr>"
    using PublicKey_fromBuffer_compressed [OF assms(1), of "BN_toBuffer x 32 False" x y] toBuffer_32 [OF x] assms(2)
    by (simp add: compressed_bytes_def P)
  then show ?thesis
    by (auto simp: PublicKey_fromBuffer_def rbind_eq_Inr PublicKey_of_point_def PublicKey_of_info_def or_else_def split: if_splits option.splits)
qed

lemma hd_public_build:
  assumes "ec_ok ec" "on_curve (ec_curve ec) P" "P \<noteq> Infinity"
    and "hd_sizes 33 a" "hb_key a = compressed_bytes P" "hb_checksum a = []"
  shows "HDPublicKey_buildFromBuffers ec initial_networks a = Inr (hd_public_of a P)"
proof -
  let ?v = "version_network initial_networks (hb_version a)"
  let ?pk = "\<lparr>pk_point = plain P, pk_compressed = True, pk_network = or_else ?v livenet\<rparr>"
  have n: "extra_network initial_networks (network_arg ?v) = ?v"
    using network_arg_version [of "hb_version a"] by (auto simp: extra_network_def network_arg_def split: option.splits)
  have "Point_validate ec (plain P) = Inr ()" using Point_validate_iff [OF assms(1) on_curve_ok [OF assms(2)]] assms(2,3) by simp
  then have "new_PublicKey ec initial_networks (PKBuffer (hb_key a)) None (network_arg ?v) = Inr ?pk"
    using transformDER_compressed [OF assms(1-3)] n
    by (simp add: new_PublicKey_def PublicKey_classifyArgs_def assms(5) PublicKey_of_info_def defaultNetwork_def check_def)
  moreover have "PublicKey_toBuffer ?pk = Inr (compressed_bytes P)" by (rule toBuffer_compressed(1) [OF assms(1-3)])
  moreover have "HDPublicKey_validateBufferArguments a = Inr ()" using assms(4,6) by (simp add: validate_public)
  moreover have "Buffer_slice (Hash_sha256ripemd160 b) 0 4 = take 4 (Hash_sha256ripemd160 b)" for b by simp
  ultimately show ?thesis
    by (simp add: HDPublicKey_buildFromBuffers_def check_def Let_def assms(6) hd_public_of_def)
qed

definition hd_neutered :: "ec_params \<Rightarrow> network \<Rightarrow> hd_buffers \<Rightarrow> hd_public_key" where
  "hd_neutered ec n a =
     (let P = gmul ec (int (be_val (hb_key a)))
      in hd_public_of (a\<lparr>hb_version := integerAsBuffer (int (xpubkey n)), hb_key := compressed_bytes P, hb_checksum := []\<rparr>) P)"

definition hd_built :: "ec_params \<Rightarrow> hd_buffers \<Rightarrow> bool" where
  "hd_built ec a \<longleftrightarrow> hd_sizes 32 a \<and> 0 < be_val (hb_key a) \<and> int (be_val (hb_key a)) < ec_n ec"

lemma hd_built_gmul:
  assumes "ec_ok ec" "hd_built ec a"
  shows "gmul ec (int (be_val (hb_key a))) \<noteq> Infinity"
  using fromPrivateKey(2) [OF assms(1), of "\<lparr>priv_bn = int (be_val (hb_key a)), priv_compressed = True, priv_network = livenet\<rparr>"] assms(2)
  by (simp add: sk_ok_def hd_built_def)

lemma hd_neuter:
  assumes "ec_ok ec" "hd_built ec a"
  shows "HDPublicKey_buildFromPrivate ec initial_networks (hd_private_of ec a) =
    (case version_network initial_networks (hb_version a) of
       None \<Rightarrow> Inl (TypeError ''Cannot read property 'xpubkey' of undefined'')
     | Some n \<Rightarrow> Inr (hd_neutered ec n a))"
proof -
  let ?s = "int (be_val (hb_key a))"
  note P = gmul_closed [OF assms(1), of ?s] hd_built_gmul [OF assms]
  have m: "ShortPoint_mul (ec_curve ec) (ec_g ec) ?s = Inr (gmul ec ?s)"
    using ShortPoint_mul_zmul [OF ec_okD(1,6) [OF assms(1)]] by simp
  have b: "HDPublicKey_buildFromBuffers ec initial_networks a' = Inr (hd_public_of a' (gmul ec ?s))"
    if "hd_sizes 33 a'" "hb_key a' = compressed_bytes (gmul ec ?s)" "hb_checksum a' = []" for a'
    by (rule hd_public_build [OF assms(1) P that])
  have s: "hd_sizes 33 (a\<lparr>hb_version := integerAsBuffer v, hb_key := compressed_bytes (gmul ec ?s), hb_checksum := []\<rparr>)" for v
    using assms(2) toBuffer_compressed(3) [OF assms(1) P] by (simp add: hd_built_def hd_sizes_def)
  show ?thesis
    using m toBuffer_compressed(2) [OF assms(1) P] b [OF s]
    by (simp add: HDPublicKey_buildFromPrivate_def hd_private_of_def Let_def BN_fromBuffer_eq hd_neutered_def split: option.splits)
qed

section \<open>One step of a derivation\<close>

text \<open>The number of the child and its buffers, for the hash \<open>h\<close>.\<close>

definition child_secret :: "ec_params \<Rightarrow> hd_buffers \<Rightarrow> bytes \<Rightarrow> int" where
  "child_secret ec a h = (int (be_val (take 32 h)) + int (be_val (hb_key a))) mod ec_n ec"

definition hd_child_buffers :: "ec_params \<Rightarrow> network \<Rightarrow> hd_buffers \<Rightarrow> int \<Rightarrow> bytes \<Rightarrow> hd_buffers" where
  "hd_child_buffers ec n a j h =
     \<lparr>hb_version = integerAsBuffer (int (xprivkey n)), hb_depth = integerAsSingleByteBuffer (int (unat (hb_depth a ! 0)) + 1),
      hb_parentFingerPrint = take 4 (Hash_sha256ripemd160 (compressed_bytes (gmul ec (int (be_val (hb_key a)))))),
      hb_childIndex = integerAsBuffer j, hb_chainCode = drop 32 h, hb_key = BN_toBuffer (child_secret ec a h) 32 False,
      hb_checksum = []\<rparr>"

lemma child_secret_bounds:
  assumes "ec_ok ec"
  shows "0 \<le> child_secret ec a h" "child_secret ec a h < ec_n ec" "child_secret ec a h < 2 ^ 256"
proof -
  show b: "0 \<le> child_secret ec a h" "child_secret ec a h < ec_n ec"
    using ec_okD(11) [OF assms] by (simp_all add: child_secret_def)
  then show "child_secret ec a h < 2 ^ 256" using ec_okD(8) [OF assms] by linarith
qed

lemma hd_child_built:
  assumes "ec_ok ec" "child_secret ec a h \<noteq> 0" "length h = 64"
  shows "hd_built ec (hd_child_buffers ec n a j h)"
    and "int (be_val (hb_key (hd_child_buffers ec n a j h))) = child_secret ec a h"
proof -
  note c = child_secret_bounds [OF assms(1), of a h]
  note b = toBuffer_32 [OF c(1,3)]
  show v: "int (be_val (hb_key (hd_child_buffers ec n a j h))) = child_secret ec a h"
    using b(2) by (simp add: hd_child_buffers_def)
  show "hd_built ec (hd_child_buffers ec n a j h)"
    unfolding hd_built_def v using c assms(2,3) b v
    by (auto simp: hd_sizes_def hd_child_buffers_def integerAsSingleByteBuffer_def intro!: gr0I)
qed

lemma hd_child_build:
  assumes "ec_ok ec" "child_secret ec a h \<noteq> 0" "length h = 64" "sdk_network n"
  shows "HDPrivateKey_buildFromObject ec initial_networks
      \<lparr>ho_network = ArgNet n, ho_version = None, ho_depth = ONum (int (unat (hb_depth a ! 0)) + 1),
       ho_parentFingerPrint = OBuf (take 4 (Hash_sha256ripemd160 (compressed_bytes (gmul ec (int (be_val (hb_key a))))))),
       ho_childIndex = ONum j, ho_chainCode = OBytes (drop 32 h),
       ho_key = OBytes (BN_toBuffer (child_secret ec a h) 32 False), ho_checksum = None\<rparr> =
    Inr (hd_private_of ec (hd_child_buffers ec n a j h))"
proof -
  have "HDPrivateKey_buildFromBuffers ec initial_networks (hd_child_buffers ec n a j h) =
      Inr (hd_private_of ec (hd_child_buffers ec n a j h))"
    using hd_child_built(1) [OF assms(1-3)] hd_private_iff [OF assms(1)] by (simp add: hd_built_def hd_child_buffers_def)
  then show ?thesis
    using get_sdk_network [OF assms(4)]
    by (simp add: HDPrivateKey_buildFromObject_def truthy_net_def str_buffer_def num_buffer_def hd_child_buffers_def check_def)
qed

lemma PrivateKey_isValid_32:
  assumes "length b = 32"
  shows "PrivateKey_isValid ec initial_networks 0 (SKBuffer b) ArgUndefined \<longleftrightarrow> 0 < be_val b \<and> int (be_val b) < ec_n ec"
  using assms
  by (auto simp: PrivateKey_isValid_def PrivateKey_getValidationError_def new_PrivateKey_def PrivateKey_classifyArguments_def Let_def
      PrivateKey_transformBuffer_def PrivateKey_transformBNBuffer_def PrivateKey_of_info_def BN_fromBuffer_eq split: sum.splits if_splits)

lemma slice_halves:
  assumes "length h = 64"
  shows "Buffer_slice h 0 32 = take 32 h" "Buffer_slice h 32 64 = drop 32 h"
  using Buffer_slice_nat [of 0 32 h] Buffer_slice_nat [of 32 64 h] assms by simp_all

lemma hd_private_step:
  fixes n
  defines "st \<equiv> initial_networks"
  assumes "ec_ok ec" "hd_built ec a" "version_network st (hb_version a) = Some n" "HDPrivateKey_isValidPath_number i hardened"
    and "j = (if i < HD_Hardened \<and> hardened then i + HD_Hardened else i)"
    and "hd_child_data (hd_private_of ec a) j (i \<ge> HD_Hardened \<or> hardened) nc = Inr d" "h = Hash_sha512hmac d (hb_chainCode a)"
  shows "HDPrivateKey_deriveWithNumber ec st (hd_private_of ec a) i hardened nc =
    (if child_secret ec a h = 0 then HDPrivateKey_deriveWithNumber ec st (hd_private_of ec a) (j + 1) False nc
     else Inr (hd_private_of ec (hd_child_buffers ec n a j h)))"
proof -
  have len: "length h = 64" using assms(8) by simp
  have cc: "hb_chainCode (hp_buffers (hd_private_of ec a)) = hb_chainCode a" "hp_network (hd_private_of ec a) = Some n"
    "int (hp_depth (hd_private_of ec a)) = int (unat (hb_depth a ! 0))"
    "hp_fingerPrint (hd_private_of ec a) = take 4 (Hash_sha256ripemd160 (compressed_bytes (gmul ec (int (be_val (hb_key a))))))"
    using assms(4) by (simp_all add: hd_private_of_def Let_def st_def)
  have key: "hd_child_key ec (hd_private_of ec a) h = BN_toBuffer (child_secret ec a h) 32 False"
    using ec_okD(11) [OF assms(2)]
    by (simp add: hd_child_key_def slice_halves [OF len] BN_fromBuffer_eq BN_umod child_secret_def hd_private_of_def Let_def)
  note c = child_secret_bounds [OF assms(2), of a h]
  note b = toBuffer_32 [OF c(1,3)]
  have valid: "PrivateKey_isValid ec st 0 (SKBuffer (BN_toBuffer (child_secret ec a h) 32 False)) ArgUndefined \<longleftrightarrow>
      child_secret ec a h \<noteq> 0"
    unfolding st_def PrivateKey_isValid_32 [OF b(1)] using b(2) c(1,2) by auto
  note build = hd_child_build [OF assms(2) _ len version_network_sdk [OF assms(4) [unfolded st_def]], folded st_def]
  have j: "(if i < HD_Hardened \<and> (i \<ge> HD_Hardened \<or> hardened) then i + HD_Hardened else i) = j" using assms(6) by auto
  have "HDPrivateKey_deriveWithNumber ec st (hd_private_of ec a) i hardened nc =
     (if \<not> PrivateKey_isValid ec st 0 (SKBuffer (hd_child_key ec (hd_private_of ec a) h)) ArgUndefined
      then HDPrivateKey_deriveWithNumber ec st (hd_private_of ec a) (j + 1) False nc
      else HDPrivateKey_buildFromObject ec st
              \<lparr>ho_network = network_arg (Some n), ho_version = None, ho_depth = ONum (int (unat (hb_depth a ! 0)) + 1),
               ho_parentFingerPrint = OBuf (hp_fingerPrint (hd_private_of ec a)), ho_childIndex = ONum j,
               ho_chainCode = OBytes (Buffer_slice h 32 64), ho_key = OBytes (hd_child_key ec (hd_private_of ec a) h), ho_checksum = None\<rparr>)"
    by (subst HDPrivateKey_deriveWithNumber.simps)
      (simp only: assms(5) not_True_eq_False if_False Let_def j assms(7) rbind_Inr cc assms(8) [symmetric])
  then show ?thesis
    unfolding key valid cc slice_halves [OF len] network_arg_def option.case using build by simp
qed

lemma hd_child_data_public:
  assumes "ec_ok ec" "hd_built ec a"
  shows "hd_child_data (hd_private_of ec a) j False nc =
    Inr (compressed_bytes (gmul ec (int (be_val (hb_key a)))) @ integerAsBuffer j)"
  using toBuffer_compressed(1) [OF assms(1) gmul_closed [OF assms(1)] hd_built_gmul [OF assms]]
  by (simp add: hd_child_data_def Let_def hd_private_of_def)

lemma hd_child_data_ok:
  assumes "ec_ok ec" "hd_built ec a"
  shows "\<exists>d. hd_child_data (hd_private_of ec a) j hard nc = Inr d"
proof (cases hard)
  case True
  have "int (be_val (hb_key a)) < 2 ^ 256" using assms(2) ec_okD(8) [OF assms(1)] by (auto simp: hd_built_def)
  from toBuffer_32(1) [OF _ this] True show ?thesis
    by (simp add: hd_child_data_def Let_def hd_private_of_def check_def)
next
  case False
  then show ?thesis using hd_child_data_public [OF assms] by simp
qed

lemma hd_child_point:
  assumes "ec_ok ec"
  shows "ShortPoint_add (ec_curve ec) (gmul ec (int (be_val (take 32 h)))) (gmul ec (int (be_val (hb_key a)))) = gmul ec (child_secret ec a h)"
    and "gmul ec (child_secret ec a h) = Infinity \<longleftrightarrow> child_secret ec a h = 0"
proof -
  note d = ec_okD [OF assms]
  show "ShortPoint_add (ec_curve ec) (gmul ec (int (be_val (take 32 h)))) (gmul ec (int (be_val (hb_key a)))) = gmul ec (child_secret ec a h)"
    unfolding child_secret_def ec_zmul_mod [OF assms d(9)] by (rule zmul_add [OF d(2,9), symmetric])
  show "gmul ec (child_secret ec a h) = Infinity \<longleftrightarrow> child_secret ec a h = 0"
    using zmul_infinity_iff [OF assms d(9,10), of "child_secret ec a h"] child_secret_bounds(1,2) [OF assms, of a h]
    by (metis dvd_0_right zdvd_imp_le linorder_not_less order_le_less)
qed

lemma hd_public_child_build:
  fixes n
  defines "st \<equiv> initial_networks"
  assumes "ec_ok ec" "child_secret ec a h \<noteq> 0" "length h = 64" "sdk_network n"
  shows "PublicKey_fromPoint ec st (plain (gmul ec (child_secret ec a h))) None =
      Inr \<lparr>pk_point = plain (gmul ec (child_secret ec a h)), pk_compressed = True, pk_network = defaultNetwork\<rparr>" (is "_ = Inr ?pk")
    and "HDPublicKey_buildFromObject ec st
      \<lparr>ho_network = ArgNet n, ho_version = None, ho_depth = ONum (int (unat (hb_depth a ! 0)) + 1),
       ho_parentFingerPrint = OBuf (take 4 (Hash_sha256ripemd160 (compressed_bytes (gmul ec (int (be_val (hb_key a))))))),
       ho_childIndex = ONum i, ho_chainCode = OBytes (drop 32 h), ho_key = OBytes [], ho_checksum = None\<rparr>
      (HPKey \<lparr>pk_point = plain (gmul ec (child_secret ec a h)), pk_compressed = True, pk_network = defaultNetwork\<rparr>) =
    Inr (hd_neutered ec n (hd_child_buffers ec n a i h))"
proof -
  let ?c = "child_secret ec a h"
  note Q = gmul_closed [OF assms(2), of ?c] assms(3) [folded hd_child_point(2) [OF assms(2)]]
  show "PublicKey_fromPoint ec st (plain (gmul ec ?c)) None = Inr ?pk"
    using PublicKey_of_point [OF assms(2) Q] by (simp add: PublicKey_fromPoint_def or_else_def)
  have b: "PublicKey_toBuffer ?pk = Inr (compressed_bytes (gmul ec ?c))" by (rule toBuffer_compressed(1) [OF assms(2) Q])
  let ?a = "(hd_child_buffers ec n a i h)\<lparr>hb_version := integerAsBuffer (int (xpubkey n)), hb_key := compressed_bytes (gmul ec ?c), hb_checksum := []\<rparr>"
  have "HDPublicKey_buildFromBuffers ec st ?a = Inr (hd_public_of ?a (gmul ec ?c))"
    unfolding st_def using hd_child_built(1) [OF assms(2-4)] toBuffer_compressed(3) [OF assms(2) Q]
    by (intro hd_public_build [OF assms(2) Q]) (simp_all add: hd_built_def hd_sizes_def)
  then show "HDPublicKey_buildFromObject ec st
      \<lparr>ho_network = ArgNet n, ho_version = None, ho_depth = ONum (int (unat (hb_depth a ! 0)) + 1),
       ho_parentFingerPrint = OBuf (take 4 (Hash_sha256ripemd160 (compressed_bytes (gmul ec (int (be_val (hb_key a))))))),
       ho_childIndex = ONum i, ho_chainCode = OBytes (drop 32 h), ho_key = OBytes [], ho_checksum = None\<rparr> (HPKey ?pk) =
    Inr (hd_neutered ec n (hd_child_buffers ec n a i h))"
    using get_sdk_network [OF assms(5)] b hd_child_built(2) [OF assms(2-4)]
    by (simp add: st_def HDPublicKey_buildFromObject_def truthy_net_def str_buffer_def num_buffer_def check_def hd_neutered_def)
      (simp add: hd_child_buffers_def Let_def)
qed

lemma hd_public_step:
  fixes i :: int
  defines "st \<equiv> initial_networks"
  assumes "ec_ok ec" "hd_built ec a" "sdk_network n" "0 \<le> i" "i < HD_Hardened"
    and "h = Hash_sha512hmac (compressed_bytes (gmul ec (int (be_val (hb_key a)))) @ integerAsBuffer i) (hb_chainCode a)"
  shows "HDPublicKey_deriveWithNumber ec st (hd_neutered ec n a) i False =
    (if child_secret ec a h = 0 then HDPublicKey_deriveWithNumber ec st (hd_neutered ec n a) (i + 1) False
     else Inr (hd_neutered ec n (hd_child_buffers ec n a i h)))"
proof -
  let ?s = "int (be_val (hb_key a))" and ?l = "int (be_val (take 32 h))" and ?c = "child_secret ec a h"
  let ?K = "hd_neutered ec n a"
  note P = gmul_closed [OF assms(2), of ?s] hd_built_gmul [OF assms(2,3)]
  have len: "length h = 64" using assms(7) by simp
  have K: "hq_network ?K = Some n" "hq_depth ?K = unat (hb_depth a ! 0)" "hb_chainCode (hq_buffers ?K) = hb_chainCode a"
    "hq_publicKey ?K = \<lparr>pk_point = plain (gmul ec ?s), pk_compressed = True, pk_network = n\<rparr>"
    "hq_fingerPrint ?K = take 4 (Hash_sha256ripemd160 (compressed_bytes (gmul ec ?s)))"
    using version_network_keys [OF assms(4)] by (simp_all add: hd_neutered_def hd_public_of_def Let_def or_else_def)
  have m: "ShortPoint_mul (ec_curve ec) (ec_g ec) ?l = Inr (gmul ec ?l)"
    using ShortPoint_mul_zmul [OF ec_okD(1,6) [OF assms(2)]] by simp
  have v: "Point_validate ec (plain (gmul ec ?c)) = Inr () \<longleftrightarrow> ?c \<noteq> 0"
    using Point_validate_iff [OF assms(2) on_curve_ok [OF gmul_closed [OF assms(2), of ?c]]] hd_child_point(2) [OF assms(2)]
      gmul_closed [OF assms(2), of ?c] by simp
  then have e: "\<exists>e. PublicKey_fromPoint ec st (plain (gmul ec ?c)) None = Inl e" if "?c = 0"
    using that by (cases "Point_validate ec (plain (gmul ec ?c))")
        (simp_all add: PublicKey_fromPoint_def PublicKey_of_point_def PublicKey_of_info_def)
  note build = hd_public_child_build [OF assms(2) _ len assms(4), of a, folded st_def]
  show ?thesis
    by (subst HDPublicKey_deriveWithNumber.simps)
      (use e build m assms(5,6) toBuffer_compressed(1) [OF assms(2) P] hd_child_point(1) [OF assms(2), of h a] in
        \<open>auto simp: Let_def K assms(7) [symmetric] slice_halves [OF len] BN_fromBuffer_eq plain_def network_arg_def\<close>)
qed

section \<open>Derivations\<close>

lemma hd_derive_private:
  fixes n
  defines "st \<equiv> initial_networks"
  assumes "ec_ok ec" "hd_built ec a" "version_network st (hb_version a) = Some n"
    and "j0 = (if i < HD_Hardened \<and> hardened then i + HD_Hardened else i)"
  shows "HDPrivateKey_deriveWithNumber ec st (hd_private_of ec a) i hardened nc = Inl (NamedError ''HDPrivateKey.InvalidPath'') \<or>
    (\<exists>j h. j0 \<le> j \<and> 0 \<le> j0 \<and> j < HD_MaxIndex \<and> length h = 64 \<and> child_secret ec a h \<noteq> 0 \<and>
      HDPrivateKey_deriveWithNumber ec st (hd_private_of ec a) i hardened nc = Inr (hd_private_of ec (hd_child_buffers ec n a j h)))"
  using assms(5)
proof (induction "nat (HD_MaxIndex - j0)" arbitrary: i hardened j0 rule: less_induct)
  case less
  let ?der = "HDPrivateKey_deriveWithNumber ec st (hd_private_of ec a)"
  show ?case
  proof (cases "HDPrivateKey_isValidPath_number i hardened")
    case False
    then show ?thesis by (simp add: HDPrivateKey_deriveWithNumber.simps [of _ _ _ i])
  next
    case True
    then have j0: "0 \<le> j0" "j0 < HD_MaxIndex" using less.prems by (auto simp: HDPrivateKey_isValidPath_number_def Let_def)
    obtain d where d: "hd_child_data (hd_private_of ec a) j0 (i \<ge> HD_Hardened \<or> hardened) nc = Inr d"
      using hd_child_data_ok [OF assms(2,3)] by blast
    define h where "h = Hash_sha512hmac d (hb_chainCode a)"
    note step = hd_private_step [OF assms(2,3) assms(4) [unfolded st_def] True less.prems d h_def, folded st_def]
    have len: "length h = 64" by (simp add: h_def)
    show ?thesis
    proof (cases "child_secret ec a h = 0")
      case True
      with step have e: "?der i hardened nc = ?der (j0 + 1) False nc" by simp
      have "nat (HD_MaxIndex - (j0 + 1)) < nat (HD_MaxIndex - j0)" using j0 by simp
      from less.hyps [OF this, of "j0 + 1" False] show ?thesis unfolding e using j0 by fastforce
    next
      case False
      then show ?thesis using step j0 len by auto
    qed
  qed
qed

lemma hd_step_both:
  fixes n
  defines "st \<equiv> initial_networks"
  assumes "ec_ok ec" "hd_built ec a" "version_network st (hb_version a) = Some n" "0 \<le> i" "i < HD_Hardened"
  obtains "HDPrivateKey_deriveWithNumber ec st (hd_private_of ec a) i False nc =
        HDPrivateKey_deriveWithNumber ec st (hd_private_of ec a) (i + 1) False nc"
      "HDPublicKey_deriveWithNumber ec st (hd_neutered ec n a) i False = HDPublicKey_deriveWithNumber ec st (hd_neutered ec n a) (i + 1) False"
  | b where "HDPrivateKey_deriveWithNumber ec st (hd_private_of ec a) i False nc = Inr (hd_private_of ec b)"
      "HDPublicKey_deriveWithNumber ec st (hd_neutered ec n a) i False = Inr (hd_neutered ec n b)"
      "hd_built ec b" "version_network st (hb_version b) = Some n"
proof -
  have v: "HDPrivateKey_isValidPath_number i False" "\<not> (i \<ge> HD_Hardened \<or> False)"
    using assms(5,6) by (simp_all add: HDPrivateKey_isValidPath_number_def)
  note sdk = version_network_sdk [OF assms(4) [unfolded st_def]]
  define h where "h = Hash_sha512hmac (compressed_bytes (gmul ec (int (be_val (hb_key a)))) @ integerAsBuffer i) (hb_chainCode a)"
  have len: "length h = 64" by (simp add: h_def)
  have priv: "HDPrivateKey_deriveWithNumber ec st (hd_private_of ec a) i False nc =
      (if child_secret ec a h = 0 then HDPrivateKey_deriveWithNumber ec st (hd_private_of ec a) (i + 1) False nc
       else Inr (hd_private_of ec (hd_child_buffers ec n a i h)))"
    unfolding st_def
    by (rule hd_private_step [OF assms(2,3) assms(4) [unfolded st_def] v(1) _ _ h_def])
      (use v(2) hd_child_data_public [OF assms(2,3)] in simp_all)
  note pub = hd_public_step [OF assms(2,3) sdk assms(5,6) h_def, folded st_def]
  show thesis
  proof (cases "child_secret ec a h = 0")
    case True
    then show thesis using that(1) pub priv by simp
  next
    case False
    have "version_network st (hb_version (hd_child_buffers ec n a i h)) = Some n"
      using version_network_keys(1) [OF sdk] by (simp add: hd_child_buffers_def st_def)
    then show thesis using that(2) pub priv False hd_child_built(1) [OF assms(2) False len] by simp
  qed
qed

lemma hd_derive_public:
  fixes n
  defines "st \<equiv> initial_networks"
  assumes "ec_ok ec" "hd_built ec a" "version_network st (hb_version a) = Some n"
    and "HDPublicKey_deriveWithNumber ec st (hd_neutered ec n a) i False = Inr C"
  shows "\<exists>b. hd_built ec b \<and> version_network st (hb_version b) = Some n \<and> C = hd_neutered ec n b \<and>
    HDPrivateKey_deriveWithNumber ec st (hd_private_of ec a) i False nc = Inr (hd_private_of ec b)"
  using assms(5)
proof (induction "nat (HD_Hardened - i)" arbitrary: i rule: less_induct)
  case less
  have i: "0 \<le> i" "i < HD_Hardened"
    using less.prems by (auto simp: HDPublicKey_deriveWithNumber.simps [of _ _ _ i] split: if_splits)
  show ?case
  proof (cases rule: hd_step_both [OF assms(2,3) assms(4) [unfolded st_def] i, where nc = nc])
    case 1
    have "nat (HD_Hardened - (i + 1)) < nat (HD_Hardened - i)" using i by simp
    from less.hyps [OF this] show ?thesis using less.prems 1 by (simp add: st_def)
  qed (use less.prems in \<open>auto simp: st_def\<close>)
qed

text \<open>The first bit of the child index is the one of hardened keys.\<close>

lemma hardened_bit:
  assumes "0 \<le> j" "j < HD_MaxIndex" "unat (integerAsBuffer j ! 0) < 128"
  shows "j < HD_Hardened"
proof (rule ccontr)
  assume "\<not> j < HD_Hardened"
  then have "(j + HD_Hardened) mod HD_MaxIndex = j - HD_Hardened" 
    using assms(2) by (intro int_mod_pos_eq [of _ _ 1]) simp_all
  then have t: "toInt32 j = j - HD_MaxIndex" by (simp add: toInt32_def)
  have "drop_bit 24 (toInt32 j) AND 255 = (j - HD_MaxIndex) div 2 ^ 24 mod 256"
    unfolding t using take_bit_eq_mask [of 8 "(j - HD_MaxIndex) div 2 ^ 24"]
    by (simp add: drop_bit_eq_div take_bit_eq_mod mask_eq_exp_minus_1)
  moreover have "- 128 \<le> (j - HD_MaxIndex) div 2 ^ 24 \<and> (j - HD_MaxIndex) div 2 ^ 24 < 0"
    using \<open>\<not> j < HD_Hardened\<close> assms(2) zdiv_mono1 [of "- HD_Hardened" "j - HD_MaxIndex" "2 ^ 24"]
    by (simp add: neg_imp_zdiv_neg_iff)
  then have "(j - HD_MaxIndex) div 2 ^ 24 mod 256 = (j - HD_MaxIndex) div 2 ^ 24 + 256"
    by (intro int_mod_pos_eq [of _ _ "- 1"]) simp_all
  ultimately have "drop_bit 24 (toInt32 j) AND 255 \<in> {128..255}" using \<open>- 128 \<le> _ \<and> _\<close> by auto
  moreover have "unat (of_int q :: byte) = nat q" if "q \<in> {128..255}" for q :: int
    using that by (simp add: unsigned_of_int take_bit_eq_mod)
  ultimately show False using assms(3) by (simp add: integerAsBuffer_def)
qed

lemma hd_derive_unhardened:
  fixes n
  defines "st \<equiv> initial_networks"
  assumes "ec_ok ec" "hd_built ec a" "version_network st (hb_version a) = Some n" "0 \<le> i"
    and "HDPrivateKey_deriveWithNumber ec st (hd_private_of ec a) i False nc = Inr c"
    and "unat (hb_childIndex (hp_buffers c) ! 0) < 128"
  shows "\<exists>b. hd_built ec b \<and> version_network st (hb_version b) = Some n \<and> c = hd_private_of ec b \<and>
    HDPublicKey_deriveWithNumber ec st (hd_neutered ec n a) i False = Inr (hd_neutered ec n b)"
  using assms(5,6)
proof (induction "nat (HD_Hardened - i)" arbitrary: i rule: less_induct)
  case less
  have i: "i < HD_Hardened"
  proof -
    have "(if i < HD_Hardened \<and> False then i + HD_Hardened else i) = i" by simp
    from hd_derive_private [OF assms(2,3) assms(4) [unfolded st_def] this [symmetric], of nc] less.prems
    obtain j h where "i \<le> j" "0 \<le> j" "j < HD_MaxIndex" "c = hd_private_of ec (hd_child_buffers ec n a j h)"
      unfolding st_def by fastforce
    then show ?thesis using hardened_bit [of j] assms(7) by (simp add: hd_private_of_def hd_child_buffers_def Let_def)
  qed
  show ?case
  proof (cases rule: hd_step_both [OF assms(2,3) assms(4) [unfolded st_def] less.prems(1) i, where nc = nc])
    case 1
    have "nat (HD_Hardened - (i + 1)) < nat (HD_Hardened - i)" using i by simp
    from less.hyps [OF this] show ?thesis using less.prems 1 by (simp add: st_def)
  qed (use less.prems in \<open>auto simp: st_def\<close>)
qed

lemma foldl_rbind_Inl: "foldl (\<lambda>prev i. rbind prev (f i)) (Inl e) is = Inl e"
  by (induction "is") simp_all

lemma hd_derive_path:
  fixes n
  defines "st \<equiv> initial_networks"
  assumes "ec_ok ec" "hd_built ec a" "version_network st (hb_version a) = Some n"
    and "foldl (\<lambda>prev i. rbind prev (\<lambda>k. HDPublicKey_deriveWithNumber ec st k i False)) (Inr (hd_neutered ec n a)) is = Inr C"
  shows "\<exists>b. hd_built ec b \<and> version_network st (hb_version b) = Some n \<and> C = hd_neutered ec n b \<and>
    foldl (\<lambda>prev i. rbind prev (\<lambda>k. HDPrivateKey_deriveWithNumber ec st k i False nc)) (Inr (hd_private_of ec a)) is =
      Inr (hd_private_of ec b)"
  using assms(3-5)
proof (induction "is" arbitrary: a)
  case (Cons i "is")
  obtain D where D: "HDPublicKey_deriveWithNumber ec st (hd_neutered ec n a) i False = Inr D"
    using Cons.prems(3) by (cases "HDPublicKey_deriveWithNumber ec st (hd_neutered ec n a) i False") (simp_all add: foldl_rbind_Inl)
  obtain b where b: "hd_built ec b" "version_network st (hb_version b) = Some n" "D = hd_neutered ec n b"
    "HDPrivateKey_deriveWithNumber ec st (hd_private_of ec a) i False nc = Inr (hd_private_of ec b)"
    using hd_derive_public [OF assms(2) Cons.prems(1) Cons.prems(2) [unfolded st_def] D [unfolded st_def], of nc]
    unfolding st_def by blast
  from Cons.IH [OF b(1,2)] show ?case using Cons.prems(3) D b by simp
qed auto

section \<open>Strings\<close>

lemma hd_slices:
  assumes "b = V @ D @ F @ J @ C @ K" "length V = 4" "length D = 1" "length F = 4" "length J = 4" "length C = 32" "length K = 33"
  shows "length b = 78" "Buffer_slice b 0 4 = V" "Buffer_slice b 4 5 = D" "Buffer_slice b 5 9 = F" "Buffer_slice b 9 13 = J"
    "Buffer_slice b 13 45 = C" "Buffer_slice b 45 78 = K" "Buffer_slice b 46 78 = tl K" "Buffer_slice b 78 82 = []"
proof -
  show l: "length b = 78" using assms by simp
  have t: "drop (Suc 0) K = tl K" by (simp add: drop_Suc)
  show "Buffer_slice b 0 4 = V" "Buffer_slice b 4 5 = D" "Buffer_slice b 5 9 = F" "Buffer_slice b 9 13 = J"
    "Buffer_slice b 13 45 = C" "Buffer_slice b 45 78 = K" "Buffer_slice b 46 78 = tl K" "Buffer_slice b 78 82 = []"
    using Buffer_slice_nat [of 0 4 b] Buffer_slice_nat [of 4 5 b] Buffer_slice_nat [of 5 9 b] Buffer_slice_nat [of 9 13 b]
      Buffer_slice_nat [of 13 45 b] Buffer_slice_nat [of 45 78 b] Buffer_slice_nat [of 46 78 b] Buffer_slice_nat [of 78 82 b] l assms
    by (simp_all add: t)
qed

lemma hd_string:
  assumes "length b = 78"
  shows "Base58Check_decode (Base58Check_encode b) = Inr b" "Base58_validCharacters (Base58Check_encode b)"
    "Base58Check_encode b \<noteq> []" "Networks_get initial_networks (ArgStr (Base58Check_encode b)) None = None"
proof -
  show "Base58Check_decode (Base58Check_encode b) = Inr b" using check58_iff [of b] assms by simp
  have "Base58_decode (Base58Check_encode b) = Inr (b @ Base58Check_checksum b)"
    unfolding Base58Check_encode_def Base58_decode_def Base58_encode_def by (rule bs58.decode_encode)
  then show "Base58_validCharacters (Base58Check_encode b)"
    using bs58.decode_error [of "Base58Check_encode b"] by (auto simp: Base58_decode_def Base58_validCharacters_def list_all_iff)
  show "Base58Check_encode b \<noteq> []" using base58check_length [of b] assms by auto
  show "Networks_get initial_networks (ArgStr (Base58Check_encode b)) None = None" using check58_not_network [of b] assms by simp
qed

text \<open>A string of the right length is read as a private key whatever its version is.\<close>

lemma hd_private_of_string:
  assumes "b = V @ D @ F @ J @ C @ K" "length V = 4" "length D = 1" "length F = 4" "length J = 4" "length C = 32" "length K = 33"
  shows "new_HDPrivateKey ec initial_networks rnd (HDString (Base58Check_encode b)) =
    HDPrivateKey_buildFromBuffers ec initial_networks
      \<lparr>hb_version = V, hb_depth = D, hb_parentFingerPrint = F, hb_childIndex = J, hb_chainCode = C, hb_key = tl K, hb_checksum = []\<rparr>"
  using hd_string [OF hd_slices(1) [OF assms]] hd_slices [OF assms]
  by (simp add: new_HDPrivateKey_def HDPrivateKey_getSerializedError_def HDPrivateKey_buildFromSerialized_def)

lemma hd_public_of_string:
  assumes "b = V @ D @ F @ J @ C @ K" "length V = 4" "length D = 1" "length F = 4" "length J = 4" "length C = 32" "length K = 33"
  shows "new_HDPublicKey ec initial_networks rnd (HDString (Base58Check_encode b)) pub =
    (if integerFromBuffer V = int (xprivkey livenet) \<or> integerFromBuffer V = int (xprivkey testnet)
     then rbind (new_HDPrivateKey ec initial_networks rnd (HDString (Base58Check_encode b))) (HDPublicKey_buildFromPrivate ec initial_networks)
     else HDPublicKey_buildFromBuffers ec initial_networks
       \<lparr>hb_version = V, hb_depth = D, hb_parentFingerPrint = F, hb_childIndex = J, hb_chainCode = C, hb_key = K, hb_checksum = []\<rparr>)"
  using hd_string [OF hd_slices(1) [OF assms]] hd_slices [OF assms]
  by (simp add: new_HDPublicKey_def HDPublicKey_getSerializedError_def HDPublicKey_buildFromSerialized_def Let_def)

lemma hd_private_string:
  assumes "hd_sizes 32 a" "hb_checksum a = []"
  shows "new_HDPrivateKey ec initial_networks rnd (HDString (Base58Check_encode (HDPrivateKey_sequence a))) =
      HDPrivateKey_buildFromBuffers ec initial_networks a"
    and "integerFromBuffer (hb_version a) = int (xprivkey livenet) \<or> integerFromBuffer (hb_version a) = int (xprivkey testnet) \<Longrightarrow>
      new_HDPublicKey ec initial_networks rnd (HDString (Base58Check_encode (HDPrivateKey_sequence a))) pub =
        rbind (HDPrivateKey_buildFromBuffers ec initial_networks a) (HDPublicKey_buildFromPrivate ec initial_networks)"
proof -
  have s: "HDPrivateKey_sequence a = hb_version a @ hb_depth a @ hb_parentFingerPrint a @ hb_childIndex a @ hb_chainCode a @ (0 # hb_key a)"
    by (simp add: HDPrivateKey_sequence_def)
  have l: "length (hb_version a) = 4" "length (hb_depth a) = 1" "length (hb_parentFingerPrint a) = 4" "length (hb_childIndex a) = 4"
    "length (hb_chainCode a) = 32" "length (0 # hb_key a) = 33" using assms(1) by (simp_all add: hd_sizes_def)
  have a: "\<lparr>hb_version = hb_version a, hb_depth = hb_depth a, hb_parentFingerPrint = hb_parentFingerPrint a,
      hb_childIndex = hb_childIndex a, hb_chainCode = hb_chainCode a, hb_key = hb_key a, hb_checksum = []\<rparr> = a"
    using assms(2) by simp
  show p: "new_HDPrivateKey ec initial_networks rnd (HDString (Base58Check_encode (HDPrivateKey_sequence a))) =
      HDPrivateKey_buildFromBuffers ec initial_networks a"
    using hd_private_of_string [OF s l, of ec rnd] a by simp
  show "integerFromBuffer (hb_version a) = int (xprivkey livenet) \<or> integerFromBuffer (hb_version a) = int (xprivkey testnet) \<Longrightarrow>
      new_HDPublicKey ec initial_networks rnd (HDString (Base58Check_encode (HDPrivateKey_sequence a))) pub =
        rbind (HDPrivateKey_buildFromBuffers ec initial_networks a) (HDPublicKey_buildFromPrivate ec initial_networks)"
    unfolding hd_public_of_string [OF s l] p by simp
qed

section \<open>Properties\<close>

lemma hd_privateD:
  assumes "ec_ok ec" "HDPrivateKey_buildFromBuffers ec initial_networks a = Inr k"
  shows "hd_built ec a" "k = hd_private_of ec a" "hp_network k = version_network initial_networks (hb_version a)"
  using assms(2) unfolding hd_private_iff [OF assms(1)] by (simp_all add: hd_built_def hd_private_of_def Let_def)

lemma hd_neuterD:
  assumes "ec_ok ec" "HDPrivateKey_buildFromBuffers ec initial_networks a = Inr k"
    and "HDPublicKey_buildFromPrivate ec initial_networks k = Inr K"
  obtains n where "version_network initial_networks (hb_version a) = Some n" "K = hd_neutered ec n a"
  using assms(3) hd_neuter [OF assms(1) hd_privateD(1) [OF assms(1,2)]] hd_privateD(2) [OF assms(1,2)]
  by (auto split: option.splits)

lemma hd_neutered_shape:
  assumes "ec_ok ec" "HDPrivateKey_buildFromBuffers ec initial_networks a = Inr k"
    and "HDPublicKey_buildFromPrivate ec initial_networks k = Inr K"
  obtains b P n where "K = hd_public_of b P" "on_curve (ec_curve ec) P" "P \<noteq> Infinity" "hd_sizes 33 b" "hb_key b = compressed_bytes P"
    "hb_checksum b = []" "sdk_network n" "hb_version b = integerAsBuffer (int (xpubkey n))"
proof -
  note a = hd_privateD [OF assms(1,2)]
  obtain n where n: "version_network initial_networks (hb_version a) = Some n" "K = hd_neutered ec n a"
    using hd_neuterD [OF assms] .
  let ?P = "gmul ec (int (be_val (hb_key a)))"
  note P = gmul_closed [OF assms(1), of "int (be_val (hb_key a))"] hd_built_gmul [OF assms(1) a(1)]
  show thesis
    using a(1) toBuffer_compressed(3) [OF assms(1) P]
    by (intro that [OF _ P, of "a\<lparr>hb_version := integerAsBuffer (int (xpubkey n)), hb_key := compressed_bytes ?P, hb_checksum := []\<rparr>" n]
        version_network_sdk [OF n(1)])
      (simp_all add: n(2) hd_neutered_def Let_def hd_built_def hd_sizes_def)
qed

lemma hd_neutered_string:
  assumes "ec_ok ec" "HDPrivateKey_buildFromBuffers ec initial_networks a = Inr k"
    and "HDPublicKey_buildFromPrivate ec initial_networks k = Inr K"
  shows "new_HDPublicKey ec initial_networks rnd (HDString (hq_xpubkey K)) pub = Inr K"
proof -
  obtain b P n where b: "K = hd_public_of b P" "on_curve (ec_curve ec) P" "P \<noteq> Infinity" "hd_sizes 33 b" "hb_key b = compressed_bytes P"
    "hb_checksum b = []" "sdk_network n" "hb_version b = integerAsBuffer (int (xpubkey n))"
    using hd_neutered_shape [OF assms] .
  have s: "HDPublicKey_sequence b = hb_version b @ hb_depth b @ hb_parentFingerPrint b @ hb_childIndex b @ hb_chainCode b @ hb_key b"
    by (simp add: HDPublicKey_sequence_def)
  have l: "length (hb_version b) = 4" "length (hb_depth b) = 1" "length (hb_parentFingerPrint b) = 4" "length (hb_childIndex b) = 4"
    "length (hb_chainCode b) = 32" "length (hb_key b) = 33" using b(4) by (simp_all add: hd_sizes_def)
  have x: "hq_xpubkey K = Base58Check_encode (HDPublicKey_sequence b)" by (simp add: b(1) hd_public_of_def Let_def)
  have eq: "\<lparr>hb_version = hb_version b, hb_depth = hb_depth b, hb_parentFingerPrint = hb_parentFingerPrint b,
      hb_childIndex = hb_childIndex b, hb_chainCode = hb_chainCode b, hb_key = hb_key b, hb_checksum = []\<rparr> = b"
    using b(6) by simp
  have "\<not> (integerFromBuffer (hb_version b) = int (xprivkey livenet) \<or> integerFromBuffer (hb_version b) = int (xprivkey testnet))"
    using b(7,8) by (auto simp: sdk_network_def sdk_hd_versions integer_of_versions)
  then show ?thesis
    unfolding x hd_public_of_string [OF s l] eq using hd_public_build [OF assms(1) b(2-6)] b(1) by simp
qed

text \<open>
  C3: Public derivation.  Let \<open>k\<close> be an extended private key and \<open>K\<close> its extended public key.  Whatever child \<open>K\<close> derives, for
  an index or for a path, is the public key of the child that \<open>k\<close> derives in either mode; and when the child that \<open>k\<close>
  derives for an index has an index without the hardened bit, \<open>K\<close> derives its public key.
\<close>
theorem hd_public_derivation:
  assumes "ec_ok ec" "HDPrivateKey_buildFromBuffers ec initial_networks a = Inr k"
    and "HDPublicKey_buildFromPrivate ec initial_networks k = Inr K"
  shows "(HDPublicKey_deriveWithNumber ec initial_networks K i False = Inr C \<longrightarrow>
      (\<exists>c. HDPrivateKey_deriveWithNumber ec initial_networks k i False nc = Inr c \<and>
        HDPublicKey_buildFromPrivate ec initial_networks c = Inr C)) \<and>
    (HDPublicKey_deriveFromString ec initial_networks K path = Inr C \<longrightarrow>
      (\<exists>c. HDPrivateKey_deriveFromString ec initial_networks k path nc = Inr c \<and>
        HDPublicKey_buildFromPrivate ec initial_networks c = Inr C)) \<and>
    (HDPrivateKey_deriveWithNumber ec initial_networks k i False nc = Inr c \<and> 0 \<le> i \<and> unat (hb_childIndex (hp_buffers c) ! 0) < 128 \<longrightarrow>
      HDPublicKey_deriveWithNumber ec initial_networks K i False = HDPublicKey_buildFromPrivate ec initial_networks c)"
proof -
  note a = hd_privateD [OF assms(1,2)]
  obtain n where n: "version_network initial_networks (hb_version a) = Some n" "K = hd_neutered ec n a"
    using hd_neuterD [OF assms] .
  have neuter: "HDPublicKey_buildFromPrivate ec initial_networks (hd_private_of ec b) = Inr (hd_neutered ec n b)"
    if "hd_built ec b" "version_network initial_networks (hb_version b) = Some n" for b
    using hd_neuter [OF assms(1) that(1)] that(2) by simp
  have path: "HDPrivateKey_isValidPath path" if "HDPublicKey_isValidPath path"
    using that by (auto simp: HDPrivateKey_isValidPath_def HDPublicKey_isValidPath_def HDPrivateKey_isValidPath_number_def
        HDPublicKey_isValidPath_number_def list_all_iff split: option.splits)
  have "\<exists>c. HDPrivateKey_deriveWithNumber ec initial_networks k i False nc = Inr c \<and>
        HDPublicKey_buildFromPrivate ec initial_networks c = Inr C"
    if "HDPublicKey_deriveWithNumber ec initial_networks K i False = Inr C"
    using hd_derive_public [OF assms(1) a(1) n(1) that [unfolded n(2)], of nc] neuter a(2) by blast
  moreover have "\<exists>c. HDPrivateKey_deriveFromString ec initial_networks k path nc = Inr c \<and>
        HDPublicKey_buildFromPrivate ec initial_networks c = Inr C"
    if "HDPublicKey_deriveFromString ec initial_networks K path = Inr C"
  proof -
    have f: "foldl (\<lambda>prev i. rbind prev (\<lambda>k. HDPublicKey_deriveWithNumber ec initial_networks k i False)) (Inr (hd_neutered ec n a))
        (the (HDPrivateKey_getDerivationIndexes path)) = Inr C" "HDPublicKey_isValidPath path"
      using that n(2) by (auto simp: HDPublicKey_deriveFromString_def split: if_splits)
    obtain b where "hd_built ec b" "version_network initial_networks (hb_version b) = Some n" "C = hd_neutered ec n b"
      "foldl (\<lambda>prev i. rbind prev (\<lambda>k. HDPrivateKey_deriveWithNumber ec initial_networks k i False nc)) (Inr (hd_private_of ec a))
        (the (HDPrivateKey_getDerivationIndexes path)) = Inr (hd_private_of ec b)"
      using hd_derive_path [OF assms(1) a(1) n(1) f(1), of nc] by blast
    then show ?thesis using neuter [of b] a(2) path [OF f(2)] by (simp add: HDPrivateKey_deriveFromString_def)
  qed
  moreover have "HDPublicKey_deriveWithNumber ec initial_networks K i False = HDPublicKey_buildFromPrivate ec initial_networks c"
    if "HDPrivateKey_deriveWithNumber ec initial_networks k i False nc = Inr c" "0 \<le> i" "unat (hb_childIndex (hp_buffers c) ! 0) < 128"
    using hd_derive_unhardened [OF assms(1) a(1) n(1) that(2) that(1) [unfolded a(2)] that(3)] neuter n(2) by auto
  ultimately show ?thesis by blast
qed

lemma depth_byte:
  fixes d :: byte
  shows "unat (integerAsSingleByteBuffer (int (unat d) + 1) ! 0) = (unat d + 1) mod 256"
proof -
  have "int (unat d) < 256" using unsigned_less [of d] by simp
  then have "toInt32 (int (unat d) + 1) = int (unat d + 1)" by (simp add: toInt32_id)
  moreover have "int m AND 255 = int (m mod 256)" for m
    using take_bit_eq_mask [of 8 "int m"] by (simp add: take_bit_eq_mod mask_eq_exp_minus_1 zmod_int)
  ultimately have "integerAsSingleByteBuffer (int (unat d) + 1) = [of_nat ((unat d + 1) mod 256)]"
    unfolding integerAsSingleByteBuffer_def by (simp only: of_int_of_nat_eq)
  then show ?thesis by (simp add: unat_of_nat_byte)
qed

text \<open>
  C17: The child of an extended private key.  For an index out of range, and when no index up to the end of the range gives a
  valid key, derivation throws \<open>InvalidPath\<close>; otherwise the child has a number between 1 and \<open>n - 1\<close>, an index from the
  requested one up to \<open>2 ^ 32 - 1\<close>, the fingerprint of its parent, the network of its parent, and can be built again from its
  own buffers.  The depth is one byte: the child of a key of depth 255 has depth 0, as a master key has.
\<close>
theorem hd_child_bounds:
  assumes "ec_ok ec" "HDPrivateKey_buildFromBuffers ec initial_networks a = Inr k" "hp_network k = Some n"
  shows "HDPrivateKey_deriveWithNumber ec initial_networks k i hardened nc = Inl (NamedError ''HDPrivateKey.InvalidPath'') \<or>
    (\<exists>c j. HDPrivateKey_deriveWithNumber ec initial_networks k i hardened nc = Inr c \<and>
      0 < priv_bn (hp_privateKey c) \<and> priv_bn (hp_privateKey c) < ec_n ec \<and>
      (if hardened \<and> i < 0x80000000 then i + 0x80000000 else i) \<le> j \<and> 0 \<le> j \<and> j < 0x100000000 \<and>
      hb_childIndex (hp_buffers c) = integerAsBuffer j \<and> hp_depth c = (hp_depth k + 1) mod 256 \<and>
      hb_parentFingerPrint (hp_buffers c) = hp_fingerPrint k \<and> hp_network c = Some n \<and>
      HDPrivateKey_buildFromBuffers ec initial_networks (hp_buffers c) = Inr c)"
proof -
  note a = hd_privateD [OF assms(1,2)]
  have vn: "version_network initial_networks (hb_version a) = Some n" using a(3) assms(3) by simp
  note sdk = version_network_sdk [OF vn]
  let ?j = "if i < HD_Hardened \<and> hardened then i + HD_Hardened else i"
  from hd_derive_private [OF assms(1) a(1) vn refl, of i hardened nc] show ?thesis
  proof (elim disjE exE conjE)
    fix j h
    let ?b = "hd_child_buffers ec n a j h" and ?c = "hd_private_of ec (hd_child_buffers ec n a j h)"
    assume d: "?j \<le> j" "0 \<le> ?j" "j < HD_MaxIndex" "length h = 64" "child_secret ec a h \<noteq> 0"
      "HDPrivateKey_deriveWithNumber ec initial_networks (hd_private_of ec a) i hardened nc = Inr ?c"
    note b = hd_child_built [OF assms(1) d(5,4)] and s = child_secret_bounds [OF assms(1), of a h]
    have cs: "hp_buffers ?c = ?b\<lparr>hb_checksum := Base58Check_checksum (HDPrivateKey_sequence ?b)\<rparr>"
      by (simp add: hd_private_of_def Let_def hd_child_buffers_def)
    have "HDPrivateKey_buildFromBuffers ec initial_networks (hp_buffers ?c) = Inr ?c"
      unfolding hd_private_iff [OF assms(1)] cs using b(1) [of n j]
      by (auto simp: hd_built_def hd_sizes_def HDPrivateKey_sequence_def hd_private_of_def Let_def hd_child_buffers_def)
    moreover have "hp_depth ?c = (hp_depth k + 1) mod 256"
      using depth_byte [of "hb_depth a ! 0"] by (simp add: hd_private_of_def Let_def hd_child_buffers_def a(2))
    moreover have "priv_bn (hp_privateKey ?c) = child_secret ec a h" using b(2) by (simp add: hd_private_of_def Let_def)
    ultimately show ?thesis
      using d s version_network_keys(1) [OF sdk] a(2)
      by (intro disjI2 exI [of _ ?c] exI [of _ j]) (auto simp: hd_private_of_def Let_def hd_child_buffers_def)
  qed (simp add: a(2))
qed

text \<open>
  C19: The strings of extended keys.  The string of an extended private key is read back as the same key, and as its public key
  where an extended public key is expected, provided the version is the one of extended private keys.  The string of its
  extended public key is read back as that public key.
\<close>
theorem hd_strings:
  assumes "ec_ok ec" "HDPrivateKey_buildFromBuffers ec initial_networks a = Inr k" "hb_checksum a = []"
  shows "new_HDPrivateKey ec initial_networks rnd (HDString (hp_xprivkey k)) = Inr k \<and>
    (sdk_network n \<and> hb_version a = integerAsBuffer (int (xprivkey n)) \<longrightarrow>
      new_HDPublicKey ec initial_networks rnd (HDString (hp_xprivkey k)) pub = HDPublicKey_buildFromPrivate ec initial_networks k) \<and>
    (HDPublicKey_buildFromPrivate ec initial_networks k = Inr K \<longrightarrow>
      new_HDPublicKey ec initial_networks rnd (HDString (hq_xpubkey K)) pub = Inr K)"
proof -
  note a = hd_privateD [OF assms(1,2)]
  have s: "hd_sizes 32 a" "hp_xprivkey k = Base58Check_encode (HDPrivateKey_sequence a)"
    using a(1,2) by (simp_all add: hd_built_def hd_private_of_def Let_def)
  note str = hd_private_string [OF s(1) assms(3), of ec rnd, folded s(2)]
  have "integerFromBuffer (hb_version a) = int (xprivkey livenet) \<or> integerFromBuffer (hb_version a) = int (xprivkey testnet)"
    if "sdk_network n" "hb_version a = integerAsBuffer (int (xprivkey n))"
    using that by (auto simp: sdk_network_def sdk_hd_versions integer_of_versions)
  moreover have "new_HDPublicKey ec initial_networks rnd (HDString (hq_xpubkey K)) pub = Inr K"
    if "HDPublicKey_buildFromPrivate ec initial_networks k = Inr K"
    using hd_neutered_string [OF assms(1,2) that] .
  ultimately show ?thesis using str assms(2) by simp
qed

text \<open>
  C20: An extended public key passes for a private key: the string of an extended public key is accepted by the constructor
  of extended private keys, which does not look at the version, and gives a private key whose number is the first coordinate
  of the public key, so that it is known to everyone who knows the string.
\<close>
theorem hd_private_from_xpub:
  assumes "ec_ok ec" "HDPrivateKey_buildFromBuffers ec initial_networks a = Inr k"
    and "HDPublicKey_buildFromPrivate ec initial_networks k = Inr K"
    and "sp_point (pk_point (hq_publicKey K)) = Affine x y" "0 < x" "x < ec_n ec"
  shows "\<exists>m. new_HDPrivateKey ec initial_networks rnd (HDString (hq_xpubkey K)) = Inr m \<and>
    priv_bn (hp_privateKey m) = x \<and> hp_network m = hq_network K \<and> hb_version (hp_buffers m) = hb_version (hq_buffers K)"
proof -
  obtain b P where K: "K = hd_public_of b P" "hd_sizes 33 b" "hb_key b = compressed_bytes P"
    using hd_neutered_shape [OF assms(1-3)] by metis
  then have "P = Affine x y" using assms(4) by (simp add: hd_public_of_def Let_def plain_def)
  then have b: "hd_sizes 33 b" "hb_key b = compressed_bytes (Affine x y)" "hq_xpubkey K = Base58Check_encode (HDPublicKey_sequence b)"
    "hq_network K = version_network initial_networks (hb_version b)" "hb_version (hq_buffers K) = hb_version b"
    using K by (simp_all add: hd_public_of_def Let_def)
  have "x < 2 ^ 256" using assms(6) ec_okD(8) [OF assms(1)] by simp
  note X = toBuffer_32 [OF less_imp_le [OF assms(5)] this]
  let ?m = "\<lparr>hb_version = hb_version b, hb_depth = hb_depth b, hb_parentFingerPrint = hb_parentFingerPrint b,
      hb_childIndex = hb_childIndex b, hb_chainCode = hb_chainCode b, hb_key = tl (hb_key b), hb_checksum = []\<rparr>"
  have "new_HDPrivateKey ec initial_networks rnd (HDString (hq_xpubkey K)) = HDPrivateKey_buildFromBuffers ec initial_networks ?m"
    unfolding b(3) by (rule hd_private_of_string) (use b(1) in \<open>simp_all add: hd_sizes_def HDPublicKey_sequence_def\<close>)
  moreover have k: "int (be_val (tl (hb_key b))) = x" using X(2) by (simp add: b(2) compressed_bytes_def)
  then have "HDPrivateKey_buildFromBuffers ec initial_networks ?m = Inr (hd_private_of ec ?m)"
    unfolding hd_private_iff [OF assms(1)] using b(1) X(1) assms(5,6)
    by (auto simp: hd_sizes_def b(2) compressed_bytes_def)
  ultimately show ?thesis using k b(4,5) by (simp add: hd_private_of_def Let_def)
qed

section \<open>Witnesses\<close>

text \<open>A key of depth 255 on the small curve.\<close>

definition hd_ex :: hd_buffers where
  "hd_ex = \<lparr>hb_version = integerAsBuffer (int (xprivkey livenet)), hb_depth = [255], hb_parentFingerPrint = [1, 2, 3, 4],
     hb_childIndex = [0, 0, 0, 7], hb_chainCode = replicate 32 9, hb_key = replicate 31 0 @ [1], hb_checksum = []\<rparr>"

lemma hd_ex_key: "be_val (hb_key hd_ex) = 1"
  by (simp add: hd_ex_def be_val_def numeral_eq_Suc)

lemma hd_ex_private: "HDPrivateKey_buildFromBuffers ec7 initial_networks hd_ex = Inr (hd_private_of ec7 hd_ex)"
  unfolding hd_private_iff [OF ec7_ok] by (simp add: hd_ex_key) (simp add: hd_ex_def hd_sizes_def)

lemma hd_ex_public: "HDPublicKey_buildFromPrivate ec7 initial_networks (hd_private_of ec7 hd_ex) = Inr (hd_neutered ec7 livenet hd_ex)"
  using hd_neuter [OF ec7_ok hd_privateD(1) [OF ec7_ok hd_ex_private]] version_network_keys(1) [of livenet]
  by (simp add: hd_ex_def sdk_network_def)

theorem hd_public_derivation_witness:
  "HDPublicKey_deriveFromString ec7 initial_networks (hd_neutered ec7 livenet hd_ex) ''m'' = Inr (hd_neutered ec7 livenet hd_ex) \<and>
   (\<exists>c. HDPrivateKey_deriveFromString ec7 initial_networks (hd_private_of ec7 hd_ex) ''m'' False = Inr c \<and>
     HDPublicKey_buildFromPrivate ec7 initial_networks c = Inr (hd_neutered ec7 livenet hd_ex))"
proof -
  have "HDPublicKey_deriveFromString ec7 initial_networks (hd_neutered ec7 livenet hd_ex) ''m'' = Inr (hd_neutered ec7 livenet hd_ex)"
    by (simp add: HDPublicKey_deriveFromString_def HDPublicKey_isValidPath_def HDPrivateKey_getDerivationIndexes_def Let_def RootElementAlias_def)
  then show ?thesis
    using hd_public_derivation [OF ec7_ok hd_ex_private hd_ex_public, of 0 "hd_neutered ec7 livenet hd_ex" False "''m''" undefined] by blast
qed

theorem hd_child_bounds_witness:
  "HDPrivateKey_deriveWithNumber ec7 initial_networks (hd_private_of ec7 hd_ex) 3 True False = Inl (NamedError ''HDPrivateKey.InvalidPath'') \<or>
   (\<exists>c. HDPrivateKey_deriveWithNumber ec7 initial_networks (hd_private_of ec7 hd_ex) 3 True False = Inr c \<and> hp_depth c = 0)"
proof -
  have "hp_network (hd_private_of ec7 hd_ex) = Some livenet" "hp_depth (hd_private_of ec7 hd_ex) = 255"
    using version_network_keys(1) [of livenet] by (simp_all add: hd_private_of_def hd_ex_def Let_def sdk_network_def)
  then show ?thesis using hd_child_bounds [OF ec7_ok hd_ex_private, of livenet 3 True False] by auto
qed

theorem hd_strings_witness:
  "new_HDPrivateKey ec7 initial_networks [] (HDString (hp_xprivkey (hd_private_of ec7 hd_ex))) = Inr (hd_private_of ec7 hd_ex) \<and>
   new_HDPublicKey ec7 initial_networks [] (HDString (hp_xprivkey (hd_private_of ec7 hd_ex))) (HPStr []) = Inr (hd_neutered ec7 livenet hd_ex) \<and>
   new_HDPublicKey ec7 initial_networks [] (HDString (hq_xpubkey (hd_neutered ec7 livenet hd_ex))) (HPStr []) = Inr (hd_neutered ec7 livenet hd_ex)"
  using hd_strings [OF ec7_ok hd_ex_private, of "[]" livenet "HPStr []" "hd_neutered ec7 livenet hd_ex"] hd_ex_public
  by (simp add: hd_ex_def sdk_network_def)

theorem hd_private_from_xpub_witness:
  "\<exists>m. new_HDPrivateKey ec7 initial_networks [] (HDString (hq_xpubkey (hd_neutered ec7 livenet hd_ex))) = Inr m \<and>
     priv_bn (hp_privateKey m) = 1"
proof -
  have "sp_point (pk_point (hq_publicKey (hd_neutered ec7 livenet hd_ex))) = Affine 1 2"
    by (simp add: hd_neutered_def hd_public_of_def Let_def plain_def hd_ex_key G7_pre_def G7_def)
  from hd_private_from_xpub [OF ec7_ok hd_ex_private hd_ex_public this, of "[]"] show ?thesis by auto
qed

end
