(* ===== verification/BNWords.thy ===== *)
theory BNWords
  imports Modular
begin

unbundle bit_operations_syntax

text \<open>
  The representation of big numbers in bn.js: a sign and words of 26 bits, least significant word first.  The array of words
  is cut to the length of the number.  Operations that work in place return the new number.  JavaScript numbers are doubles:
  the operations below use \<open>int\<close>, with the 32-bit coercions of the bitwise operators written out; every intermediate
  value stays below \<open>2 ^ 53\<close>, where doubles are exact.
\<close>

section \<open>Words and numbers\<close>

record bn =
  bn_negative :: bool
  bn_words :: "int list"

text \<open>\<open>r & 0x3ffffff\<close>, \<open>r >> 26\<close>, \<open>r >>> 26\<close> and, for \<open>r\<close> that is not negative, \<open>(r / 0x4000000) | 0\<close>.\<close>

definition and26 :: "int \<Rightarrow> int" where
  "and26 r = toInt32 r AND 0x3ffffff"

definition sar26 :: "int \<Rightarrow> int" where
  "sar26 r = drop_bit 26 (toInt32 r)"

definition shr26 :: "int \<Rightarrow> int" where
  "shr26 r = drop_bit 26 (r mod 0x100000000)"

definition quo26 :: "int \<Rightarrow> int" where
  "quo26 r = toInt32 (r div 0x4000000)"

text \<open>A word that may be beyond the end, where the code reads 0 with \<open>| 0\<close>.\<close>

definition bn_at :: "int list \<Rightarrow> nat \<Rightarrow> int" where
  "bn_at ws i = (if i < length ws then toInt32 (ws ! i) else 0)"

fun strip_words :: "int list \<Rightarrow> int list" where
  "strip_words ws = (if 1 < length ws \<and> last ws = 0 then strip_words (butlast ws) else ws)"

declare strip_words.simps [simp del]

definition bn_normSign :: "bn \<Rightarrow> bn" where
  "bn_normSign a = (if bn_words a = [0] then a\<lparr>bn_negative := False\<rparr> else a)"

definition bn_strip :: "bn \<Rightarrow> bn" where
  "bn_strip a = bn_normSign (a\<lparr>bn_words := strip_words (bn_words a)\<rparr>)"

definition bn_isZero :: "bn \<Rightarrow> bool" where
  "bn_isZero a \<longleftrightarrow> bn_words a = [0]"

definition bn_ineg :: "bn \<Rightarrow> bn" where
  "bn_ineg a = (if bn_isZero a then a else a\<lparr>bn_negative := \<not> bn_negative a\<rparr>)"

text \<open>Numbers from JavaScript integers below \<open>2 ^ 53\<close>.\<close>

definition bn_initNumber :: "int \<Rightarrow> bn result" where
  "bn_initNumber number =
     (let neg = number < 0; number = (if neg then - number else number) in
      if number < 0x4000000 then Inr \<lparr>bn_negative = neg, bn_words = [and26 number]\<rparr>
      else if number < 0x10000000000000 then
        Inr \<lparr>bn_negative = neg, bn_words = [and26 number, and26 (number div 0x4000000)]\<rparr>
      else if number < 0x20000000000000 then
        Inr \<lparr>bn_negative = neg, bn_words = [and26 number, and26 (number div 0x4000000), 1]\<rparr>
      else Inl (PlainError ''Assertion failed''))"

section \<open>Comparison\<close>

fun ucmp_loop :: "int list \<Rightarrow> int list \<Rightarrow> int" where
  "ucmp_loop (a # as) (b # bs) = (if a = b then ucmp_loop as bs else if a < b then - 1 else 1)"
| "ucmp_loop _ _ = 0"

definition bn_ucmp :: "bn \<Rightarrow> bn \<Rightarrow> int" where
  "bn_ucmp this num =
     (if length (bn_words this) > length (bn_words num) then 1
      else if length (bn_words this) < length (bn_words num) then - 1
      else ucmp_loop (rev (bn_words this)) (rev (bn_words num)))"

definition bn_cmp :: "bn \<Rightarrow> bn \<Rightarrow> int" where
  "bn_cmp this num =
     (if bn_negative this \<and> \<not> bn_negative num then - 1
      else if \<not> bn_negative this \<and> bn_negative num then 1
      else let res = bn_ucmp this num in if bn_negative this then - res else res)"

section \<open>Addition and subtraction\<close>

text \<open>The loops over the longer and the shorter list of words.\<close>

fun add_loop :: "int \<Rightarrow> int list \<Rightarrow> int list \<Rightarrow> int list" where
  "add_loop carry (a # as) (b # bs) =
     (let r = toInt32 a + toInt32 b + carry in and26 r # add_loop (shr26 r) as bs)"
| "add_loop carry (a # as) [] =
     (if carry \<noteq> 0 then let r = toInt32 a + carry in and26 r # add_loop (shr26 r) as [] else a # as)"
| "add_loop carry [] bs = (if carry \<noteq> 0 then [carry] else [])"

fun sub_loop :: "int \<Rightarrow> int list \<Rightarrow> int list \<Rightarrow> int list" where
  "sub_loop carry (a # as) (b # bs) =
     (let r = toInt32 a - toInt32 b + carry in and26 r # sub_loop (sar26 r) as bs)"
| "sub_loop carry (a # as) [] =
     (if carry \<noteq> 0 then let r = toInt32 a + carry in and26 r # sub_loop (sar26 r) as [] else a # as)"
| "sub_loop carry [] bs = []"

text \<open>\<open>isub\<close> for numbers that are both not negative.\<close>

definition bn_isub_pos :: "bn \<Rightarrow> bn \<Rightarrow> bn" where
  "bn_isub_pos this num =
     (let cmp = bn_cmp this num in
      if cmp = 0 then \<lparr>bn_negative = False, bn_words = [0]\<rparr>
      else if cmp > 0 then bn_strip (this\<lparr>bn_words := sub_loop 0 (bn_words this) (bn_words num)\<rparr>)
      else bn_strip (this\<lparr>bn_words := sub_loop 0 (bn_words num) (bn_words this), bn_negative := True\<rparr>))"

definition bn_iadd :: "bn \<Rightarrow> bn \<Rightarrow> bn" where
  "bn_iadd this num =
     (if bn_negative this \<and> \<not> bn_negative num then
        let r = bn_isub_pos (this\<lparr>bn_negative := False\<rparr>) num in bn_normSign (r\<lparr>bn_negative := \<not> bn_negative r\<rparr>)
      else if \<not> bn_negative this \<and> bn_negative num then bn_normSign (bn_isub_pos this (num\<lparr>bn_negative := False\<rparr>))
      else if length (bn_words this) > length (bn_words num)
      then this\<lparr>bn_words := add_loop 0 (bn_words this) (bn_words num)\<rparr>
      else this\<lparr>bn_words := add_loop 0 (bn_words num) (bn_words this)\<rparr>)"

definition bn_isub :: "bn \<Rightarrow> bn \<Rightarrow> bn" where
  "bn_isub this num =
     (if bn_negative num then bn_normSign (bn_iadd this (num\<lparr>bn_negative := False\<rparr>))
      else if bn_negative this then bn_normSign ((bn_iadd (this\<lparr>bn_negative := False\<rparr>) num)\<lparr>bn_negative := True\<rparr>)
      else bn_isub_pos this num)"

definition bn_add :: "bn \<Rightarrow> bn \<Rightarrow> bn" where
  "bn_add this num =
     (if bn_negative num \<and> \<not> bn_negative this then bn_isub this (num\<lparr>bn_negative := False\<rparr>)
      else if \<not> bn_negative num \<and> bn_negative this then bn_isub num (this\<lparr>bn_negative := False\<rparr>)
      else if length (bn_words this) > length (bn_words num) then bn_iadd this num
      else bn_iadd num this)"

definition bn_sub :: "bn \<Rightarrow> bn \<Rightarrow> bn" where
  "bn_sub this num = bn_isub this num"

section \<open>Shifts\<close>

fun shl_loop :: "nat \<Rightarrow> int \<Rightarrow> int \<Rightarrow> int list \<Rightarrow> int list" where
  "shl_loop r carryMask carry [] = (if carry \<noteq> 0 then [carry] else [])"
| "shl_loop r carryMask carry (w # ws) =
     (let newCarry = w AND carryMask; c = toInt32 (push_bit r (w - newCarry))
      in (c OR carry) # shl_loop r carryMask (drop_bit (26 - r) newCarry) ws)"

definition bn_iushln :: "bn \<Rightarrow> nat \<Rightarrow> bn" where
  "bn_iushln this bits =
     (let r = bits mod 26; s = bits div 26;
          carryMask = push_bit (26 - r) (drop_bit (26 - r) 0x3ffffff);
          ws = (if r \<noteq> 0 then shl_loop r carryMask 0 (bn_words this) else bn_words this)
      in bn_strip (this\<lparr>bn_words := replicate s 0 @ ws\<rparr>))"

text \<open>The loop of \<open>iushrn\<close> runs from the highest word down and also returns the bits that fall out.\<close>

fun shr_loop :: "nat \<Rightarrow> int \<Rightarrow> int \<Rightarrow> int list \<Rightarrow> int list \<times> int" where
  "shr_loop r lowMask carry [] = ([], carry)"
| "shr_loop r lowMask carry (w # ws) =
     (let (ws', c) = shr_loop r lowMask (w AND lowMask) ws in ((toInt32 (push_bit (26 - r) carry) OR drop_bit r w) # ws', c))"

text \<open>Without hint; the second component are the words of \<open>extended\<close>.\<close>

definition bn_iushrn :: "bn \<Rightarrow> nat \<Rightarrow> bn \<times> int list" where
  "bn_iushrn this bits =
     (let r = bits mod 26; s = min (bits div 26) (length (bn_words this));
          lowMask = 0x3ffffff XOR push_bit r (drop_bit r 0x3ffffff);
          ws = (if s = 0 then bn_words this else if length (bn_words this) > s then drop s (bn_words this) else [0]);
          (ws', carry) = shr_loop r lowMask 0 (rev ws)
      in (bn_strip (this\<lparr>bn_words := rev ws'\<rparr>), take s (bn_words this) @ (if carry \<noteq> 0 then [carry] else [])))"

definition bn_ushrn :: "bn \<Rightarrow> nat \<Rightarrow> bn" where
  "bn_ushrn this bits = fst (bn_iushrn this bits)"

section \<open>Multiplication\<close>

text \<open>The positions \<open>j\<close> of the second factor in column \<open>k\<close> of the product of \<open>m\<close> and \<open>n\<close> words.\<close>

definition mul_range :: "nat \<Rightarrow> nat \<Rightarrow> nat \<Rightarrow> nat list" where
  "mul_range m n k = [k + 1 - m..<Suc (min k (n - 1))]"

fun small_column :: "int list \<Rightarrow> int list \<Rightarrow> nat \<Rightarrow> nat list \<Rightarrow> int \<Rightarrow> int \<Rightarrow> int \<times> int" where
  "small_column a b k [] rword ncarry = (rword, ncarry)"
| "small_column a b k (j # js) rword ncarry =
     (let r = bn_at a (k - j) * bn_at b j + rword in small_column a b k js (and26 r) (ncarry + quo26 r))"

fun small_loop :: "int list \<Rightarrow> int list \<Rightarrow> nat list \<Rightarrow> int \<Rightarrow> int list" where
  "small_loop a b [] carry = (if carry \<noteq> 0 then [toInt32 carry] else [])"
| "small_loop a b (k # ks) carry =
     (let (rword, ncarry) = small_column a b k (mul_range (length a) (length b) k) (and26 carry) (shr26 carry)
      in toInt32 rword # small_loop a b ks (toInt32 ncarry))"

definition smallMulTo :: "bn \<Rightarrow> bn \<Rightarrow> bn" where
  "smallMulTo self num =
     (let a = bn_words self; b = bn_words num; r = bn_at a 0 * bn_at b 0
      in bn_strip \<lparr>bn_negative = (bn_negative num \<noteq> bn_negative self),
                  bn_words = and26 r # small_loop a b [1..<length a + length b - 1] (quo26 r)\<rparr>)"

fun big_column :: "int list \<Rightarrow> int list \<Rightarrow> nat \<Rightarrow> nat list \<Rightarrow> int \<Rightarrow> int \<Rightarrow> int \<Rightarrow> int \<times> int \<times> int" where
  "big_column a b k [] rword ncarry hncarry = (rword, ncarry, hncarry)"
| "big_column a b k (j # js) rword ncarry hncarry =
     (let r = bn_at a (k - j) * bn_at b j;
          lo = and26 r;
          ncarry = toInt32 (ncarry + quo26 r);
          lo = toInt32 (lo + rword);
          rword = and26 lo;
          ncarry = toInt32 (ncarry + shr26 lo)
      in big_column a b k js rword (and26 ncarry) (hncarry + shr26 ncarry))"

fun big_loop :: "int list \<Rightarrow> int list \<Rightarrow> nat list \<Rightarrow> int \<Rightarrow> int \<Rightarrow> int list" where
  "big_loop a b [] carry hncarry = (if carry \<noteq> 0 then [carry] else [])"
| "big_loop a b (k # ks) carry hncarry =
     (let (rword, ncarry, hncarry) = big_column a b k (mul_range (length a) (length b) k) (and26 carry) hncarry 0
      in rword # big_loop a b ks ncarry hncarry)"

definition bigMulTo :: "bn \<Rightarrow> bn \<Rightarrow> bn" where
  "bigMulTo self num =
     (let a = bn_words self; b = bn_words num
      in bn_strip \<lparr>bn_negative = (bn_negative num \<noteq> bn_negative self),
                  bn_words = big_loop a b [0..<length a + length b - 1] 0 0\<rparr>)"

text \<open>
  The unrolled multiplication of ten words by ten words works on halves of 13 bits.  Each of its 19 columns is the same
  sequence of statements on the pairs of words of that column.
\<close>

definition imul :: "int \<Rightarrow> int \<Rightarrow> int" where
  "imul x y = toInt32 (x * y)"

fun comb_column :: "int list \<Rightarrow> int list \<Rightarrow> nat \<Rightarrow> nat list \<Rightarrow> int \<Rightarrow> int \<Rightarrow> int \<Rightarrow> int \<times> int \<times> int" where
  "comb_column a b k [] lo mid hi = (lo, mid, hi)"
| "comb_column a b k (j # js) lo mid hi =
     (let al = bn_at a (k - j) AND 0x1fff; ah = drop_bit 13 (bn_at a (k - j));
          bl = bn_at b j AND 0x1fff; bh = drop_bit 13 (bn_at b j)
      in comb_column a b k js (toInt32 (lo + imul al bl)) (toInt32 (toInt32 (mid + imul al bh) + imul ah bl)) (toInt32 (hi + imul ah bh)))"

fun comb_loop :: "int list \<Rightarrow> int list \<Rightarrow> nat list \<Rightarrow> int \<Rightarrow> int list" where
  "comb_loop a b [] c = (if c \<noteq> 0 then [c] else [])"
| "comb_loop a b (k # ks) c =
     (let (lo, mid, hi) = comb_column a b k (mul_range 10 10 k) 0 0 0;
          w = toInt32 (toInt32 (c + lo) + toInt32 (push_bit 13 (mid AND 0x1fff)))
      in and26 w # comb_loop a b ks (toInt32 (toInt32 (hi + drop_bit 13 (mid mod 0x100000000)) + shr26 w)))"

definition comb10MulTo :: "bn \<Rightarrow> bn \<Rightarrow> bn" where
  "comb10MulTo self num =
     \<lparr>bn_negative = (bn_negative self \<noteq> bn_negative num),
      bn_words = comb_loop (bn_words self) (bn_words num) [0..<19] 0\<rparr>"

text \<open>\<open>mulTo\<close>; the argument \<open>jumboMulTo\<close> is the multiplication by Fourier transforms of doubles for very long numbers.\<close>

definition bn_mul :: "(bn \<Rightarrow> bn \<Rightarrow> bn) \<Rightarrow> bn \<Rightarrow> bn \<Rightarrow> bn" where
  "bn_mul jumboMulTo this num =
     (let len = length (bn_words this) + length (bn_words num) in
      if length (bn_words this) = 10 \<and> length (bn_words num) = 10 then comb10MulTo this num
      else if len < 63 then smallMulTo this num
      else if len < 1024 then bigMulTo this num
      else jumboMulTo this num)"

text \<open>\<open>imuln\<close>.\<close>

fun muln_loop :: "int \<Rightarrow> int list \<Rightarrow> int \<Rightarrow> int list" where
  "muln_loop num [] carry = (if carry \<noteq> 0 then [carry] else [])"
| "muln_loop num (x # xs) carry =
     (let w = toInt32 x * num;
          lo = and26 w + and26 carry;
          carry = sar26 carry + quo26 w + shr26 lo
      in and26 lo # muln_loop num xs carry)"

definition bn_imuln :: "bn \<Rightarrow> int \<Rightarrow> bn result" where
  "bn_imuln this num =
     (if num < 0x4000000 then Inr (this\<lparr>bn_words := muln_loop num (bn_words this) 0\<rparr>) else Inl (PlainError ''Assertion failed''))"

section \<open>Plain numbers\<close>

fun iaddn_loop :: "int list \<Rightarrow> int list" where
  "iaddn_loop [] = []"
| "iaddn_loop [w] = (if w \<ge> 0x4000000 then [w - 0x4000000, 1] else [w])"
| "iaddn_loop (w # x # ws) = (if w \<ge> 0x4000000 then (w - 0x4000000) # iaddn_loop ((x + 1) # ws) else w # x # ws)"

text \<open>\<open>_iaddn\<close>, which adds without checks.\<close>

definition bn_iaddn_words :: "bn \<Rightarrow> int \<Rightarrow> bn" where
  "bn_iaddn_words this num = this\<lparr>bn_words := iaddn_loop ((hd (bn_words this) + num) # tl (bn_words this))\<rparr>"

fun isubn_loop :: "int list \<Rightarrow> int list" where
  "isubn_loop [] = []"
| "isubn_loop [w] = [if w < 0 then w + 0x4000000 else w]"
| "isubn_loop (w # x # ws) = (if w < 0 then (w + 0x4000000) # isubn_loop ((x - 1) # ws) else w # x # ws)"

text \<open>\<open>isubn\<close> for a number that is not negative, and the two operations for \<open>num\<close> that is not negative.\<close>

definition bn_isubn_pos :: "bn \<Rightarrow> int \<Rightarrow> bn" where
  "bn_isubn_pos this num =
     (let w = hd (bn_words this) - num in
      if length (bn_words this) = 1 \<and> w < 0 then bn_strip (this\<lparr>bn_words := [- w], bn_negative := True\<rparr>)
      else bn_strip (this\<lparr>bn_words := isubn_loop (w # tl (bn_words this))\<rparr>))"

definition bn_iaddn_nonneg :: "bn \<Rightarrow> int \<Rightarrow> bn" where
  "bn_iaddn_nonneg this num =
     (if bn_negative this then
        if length (bn_words this) = 1 \<and> hd (bn_words this) < num
        then \<lparr>bn_negative = False, bn_words = [num - hd (bn_words this)]\<rparr>
        else (bn_isubn_pos (this\<lparr>bn_negative := False\<rparr>) num)\<lparr>bn_negative := True\<rparr>
      else bn_iaddn_words this num)"

definition bn_isubn_nonneg :: "bn \<Rightarrow> int \<Rightarrow> bn" where
  "bn_isubn_nonneg this num =
     (if bn_negative this then (bn_iaddn_nonneg (this\<lparr>bn_negative := False\<rparr>) num)\<lparr>bn_negative := True\<rparr>
      else bn_isubn_pos this num)"

definition bn_iaddn :: "bn \<Rightarrow> int \<Rightarrow> bn result" where
  "bn_iaddn this num =
     rbind (check (\<bar>num\<bar> < 0x4000000) (PlainError ''Assertion failed'')) (\<lambda>_.
       Inr (if num < 0 then bn_isubn_nonneg this (- num) else bn_iaddn_nonneg this num))"

definition bn_isubn :: "bn \<Rightarrow> int \<Rightarrow> bn result" where
  "bn_isubn this num =
     rbind (check (\<bar>num\<bar> < 0x4000000) (PlainError ''Assertion failed'')) (\<lambda>_.
       Inr (if num < 0 then bn_iaddn_nonneg this (- num) else bn_isubn_nonneg this num))"

fun modn_loop :: "int \<Rightarrow> int \<Rightarrow> int \<Rightarrow> int list \<Rightarrow> int" where
  "modn_loop num p acc [] = acc"
| "modn_loop num p acc (w # ws) = modn_loop num p ((p * acc + toInt32 w) mod num) ws"

definition bn_modn :: "bn \<Rightarrow> int \<Rightarrow> int" where
  "bn_modn this num = modn_loop num (0x4000000 mod num) 0 (rev (bn_words this))"

fun idivn_loop :: "int \<Rightarrow> int \<Rightarrow> int list \<Rightarrow> int list" where
  "idivn_loop num carry [] = []"
| "idivn_loop num carry (x # xs) =
     (let w = toInt32 x + carry * 0x4000000 in toInt32 (w div num) # idivn_loop num (w mod num) xs)"

definition bn_idivn :: "bn \<Rightarrow> int \<Rightarrow> bn" where
  "bn_idivn this num = bn_strip (this\<lparr>bn_words := rev (idivn_loop num 0 (rev (bn_words this)))\<rparr>)"

section \<open>Division\<close>

fun submul_loop :: "int \<Rightarrow> int \<Rightarrow> int list \<Rightarrow> int list \<Rightarrow> int list \<times> int" where
  "submul_loop m carry (x # xs) (y # ys) =
     (let right = toInt32 y * m;
          w = toInt32 x + carry - and26 right;
          (rs, c) = submul_loop m (sar26 w - quo26 right) xs ys
      in (and26 w # rs, c))"
| "submul_loop m carry (x # xs) [] =
     (let w = toInt32 x + carry; (rs, c) = submul_loop m (sar26 w) xs [] in (and26 w # rs, c))"
| "submul_loop m carry [] ys = ([], carry)"

fun negate_loop :: "int \<Rightarrow> int list \<Rightarrow> int list" where
  "negate_loop carry [] = []"
| "negate_loop carry (x # xs) = (let w = - toInt32 x + carry in and26 w # negate_loop (sar26 w) xs)"

definition bn_ishlnsubmul :: "bn \<Rightarrow> bn \<Rightarrow> int \<Rightarrow> nat \<Rightarrow> bn result" where
  "bn_ishlnsubmul this num m shift =
     (let ws = bn_words this @ replicate (length (bn_words num) + shift - length (bn_words this)) 0;
          (rs, carry) = submul_loop m 0 (drop shift ws) (bn_words num)
      in if carry = 0 then Inr (bn_strip (this\<lparr>bn_words := take shift ws @ rs\<rparr>))
         else
           rbind (check (carry = - 1) (PlainError ''Assertion failed'')) (\<lambda>_.
             Inr (bn_strip (this\<lparr>bn_words := negate_loop 0 (take shift ws @ rs), bn_negative := True\<rparr>))))"

text \<open>The correction of a digit of the quotient.\<close>

partial_function (option) qj_loop :: "bn \<Rightarrow> nat \<Rightarrow> bn \<Rightarrow> int \<Rightarrow> (bn \<times> int) result option" where
  "qj_loop b j a qj =
     (if \<not> bn_negative a then Some (Inr (a, qj))
      else
        case bn_ishlnsubmul (a\<lparr>bn_negative := False\<rparr>) b 1 j of
          Inl e \<Rightarrow> Some (Inl e)
        | Inr a \<Rightarrow> qj_loop b j (if bn_isZero a then a else a\<lparr>bn_negative := \<not> bn_negative a\<rparr>) (qj - 1))"

text \<open>The digits below \<open>j\<close>, and what is left of the dividend.\<close>

fun div_loop :: "bn \<Rightarrow> int \<Rightarrow> nat \<Rightarrow> bn \<Rightarrow> (bn \<times> int list) result option" where
  "div_loop b bhi 0 a = Some (Inr (a, []))"
| "div_loop b bhi (Suc j) a =
     (let n = length (bn_words b);
          qj = bn_at (bn_words a) (n + j) * 0x4000000 + bn_at (bn_words a) (n + j - 1);
          qj = min (toInt32 (qj div bhi)) 0x3ffffff
      in case bn_ishlnsubmul a b qj j of
           Inl e \<Rightarrow> Some (Inl e)
         | Inr a \<Rightarrow>
             (case qj_loop b j a qj of
                None \<Rightarrow> None
              | Some (Inl e) \<Rightarrow> Some (Inl e)
              | Some (Inr (a, qj)) \<Rightarrow>
                  (case div_loop b bhi j a of
                     None \<Rightarrow> None
                   | Some (Inl e) \<Rightarrow> Some (Inl e)
                   | Some (Inr (a, qs)) \<Rightarrow> Some (Inr (a, qs @ [qj])))))"

text \<open>Quotient and remainder; a mode only leaves one of them out.\<close>

definition bn_wordDiv :: "bn \<Rightarrow> bn \<Rightarrow> (bn \<times> bn) result option" where
  "bn_wordDiv this num =
     (let shift = 26 - BN_bitLength (nat (last (bn_words num)));
          b = (if shift \<noteq> 0 then bn_iushln num shift else num);
          a = (if shift \<noteq> 0 then bn_iushln this shift else this);
          bhi = last (bn_words b);
          m = length (bn_words a) - length (bn_words b)
      in case bn_ishlnsubmul a b 1 m of
           Inl e \<Rightarrow> Some (Inl e)
         | Inr diff \<Rightarrow>
             let (a, qm) = (if \<not> bn_negative diff then (diff, 1) else (a, 0)) in
             (case div_loop b bhi m a of
                None \<Rightarrow> None
              | Some (Inl e) \<Rightarrow> Some (Inl e)
              | Some (Inr (a, qs)) \<Rightarrow>
                  Some (Inr (bn_strip \<lparr>bn_negative = False, bn_words = qs @ [qm]\<rparr>,
                             if shift \<noteq> 0 then bn_ushrn (bn_strip a) shift else bn_strip a))))"

definition bn_divmod_pos :: "bn \<Rightarrow> bn \<Rightarrow> (bn \<times> bn) result option" where
  "bn_divmod_pos this num =
     (if length (bn_words num) > length (bn_words this) \<or> bn_cmp this num < 0
      then Some (Inr (\<lparr>bn_negative = False, bn_words = [0]\<rparr>, this))
      else if length (bn_words num) = 1 then
        let n = hd (bn_words num) in
        Some (Inr (bn_idivn this n, \<lparr>bn_negative = False, bn_words = [bn_modn this n]\<rparr>))
      else bn_wordDiv this num)"

definition map_ok :: "('a \<Rightarrow> 'b) \<Rightarrow> 'a result option \<Rightarrow> 'b result option" where
  "map_ok f x = map_option (\<lambda>r. rbind r (\<lambda>v. Inr (f v))) x"

definition bn_divmod :: "bn \<Rightarrow> bn \<Rightarrow> bool \<Rightarrow> (bn \<times> bn) result option" where
  "bn_divmod this num positive =
     (if bn_isZero num then Some (Inl (PlainError ''Assertion failed''))
      else if bn_isZero this then Some (Inr (\<lparr>bn_negative = False, bn_words = [0]\<rparr>, \<lparr>bn_negative = False, bn_words = [0]\<rparr>))
      else if bn_negative this \<and> \<not> bn_negative num then
        map_ok (\<lambda>(d, r). (bn_ineg d, let r = bn_ineg r in if positive \<and> bn_negative r then bn_iadd r num else r))
          (bn_divmod_pos (bn_ineg this) num)
      else if \<not> bn_negative this \<and> bn_negative num then
        map_ok (\<lambda>(d, r). (bn_ineg d, r)) (bn_divmod_pos this (bn_ineg num))
      else if bn_negative this \<and> bn_negative num then
        map_ok (\<lambda>(d, r). (d, let r = bn_ineg r in if positive \<and> bn_negative r then bn_isub r num else r))
          (bn_divmod_pos (bn_ineg this) (bn_ineg num))
      else bn_divmod_pos this num)"

end
