(* ===== verification/BNWordsProps.thy ===== *)
theory BNWordsProps
  imports BNWords
begin

unbundle bit_operations_syntax

text \<open>
  The words of bn.js as a representation of the integers: the value of a number, the normal form that every operation keeps,
  that a value has one normal form, and that comparison, addition, subtraction and shifts compute on the words what the
  integers promise.
\<close>

section \<open>Values\<close>

fun lval :: "int list \<Rightarrow> int" where
  "lval [] = 0"
| "lval (w # ws) = w + 0x4000000 * lval ws"

abbreviation word26 :: "int \<Rightarrow> bool" where
  "word26 w \<equiv> 0 \<le> w \<and> w < 0x4000000"

definition words_ok :: "int list \<Rightarrow> bool" where
  "words_ok ws \<longleftrightarrow> list_all word26 ws"

definition bn_val :: "bn \<Rightarrow> int" where
  "bn_val a = (if bn_negative a then - lval (bn_words a) else lval (bn_words a))"

text \<open>Words in range, at least one, none that is zero at the top of several, and no negative zero.\<close>

definition bn_ok :: "bn \<Rightarrow> bool" where
  "bn_ok a \<longleftrightarrow> words_ok (bn_words a) \<and> bn_words a \<noteq> [] \<and> (1 < length (bn_words a) \<longrightarrow> last (bn_words a) \<noteq> 0) \<and>
     (bn_negative a \<longrightarrow> bn_words a \<noteq> [0])"

lemma words_ok_simps [simp]: "words_ok []" "words_ok (w # ws) \<longleftrightarrow> word26 w \<and> words_ok ws" "words_ok (xs @ ys) \<longleftrightarrow> words_ok xs \<and> words_ok ys"
  "words_ok (rev ws) \<longleftrightarrow> words_ok ws"
  by (auto simp: words_ok_def)

lemma lval_append: "lval (xs @ ys) = lval xs + 0x4000000 ^ length xs * lval ys"
  by (induction xs) (simp_all add: algebra_simps)

lemma lval_bounds: "words_ok ws \<Longrightarrow> 0 \<le> lval ws \<and> lval ws < 0x4000000 ^ length ws"
proof (induction ws)
  case (Cons w ws)
  then have "0 \<le> lval ws" "lval ws + 1 \<le> 0x4000000 ^ length ws" "word26 w" by simp_all
  then have "w + 0x4000000 * lval ws < 0x4000000 * 0x4000000 ^ length ws" by linarith
  then show ?case using Cons by simp
qed simp

lemmas lval_nonneg = lval_bounds [THEN conjunct1] and lval_less = lval_bounds [THEN conjunct2]

section \<open>Bitwise operators on words\<close>

lemma and26: "and26 r = r mod 0x4000000"
proof -
  have "toInt32 r AND 0x3ffffff = toInt32 r mod 0x4000000"
    using take_bit_eq_mask [of 26 "toInt32 r"] by (simp add: take_bit_eq_mod mask_eq_exp_minus_1)
  moreover have "toInt32 r mod 0x4000000 = r mod 0x4000000"
  proof -
    have "toInt32 r = r - 0x100000000 * ((r + 2147483648) div 4294967296)"
      unfolding toInt32_def by (simp add: minus_div_mult_eq_mod [symmetric] algebra_simps)
    also have "\<dots> = r + 0x4000000 * (- 64 * ((r + 2147483648) div 4294967296))" by simp
    finally show ?thesis by (simp only: mod_mult_self2)
  qed
  ultimately show ?thesis by (simp add: and26_def)
qed

lemma sar26: "- 0x80000000 \<le> r \<Longrightarrow> r < 0x80000000 \<Longrightarrow> sar26 r = r div 0x4000000"
  by (simp add: sar26_def toInt32_id drop_bit_eq_div)

lemma shr26: "0 \<le> r \<Longrightarrow> r < 0x100000000 \<Longrightarrow> shr26 r = r div 0x4000000"
  by (simp add: shr26_def drop_bit_eq_div)

lemma quo26: "0 \<le> r \<Longrightarrow> r < 0x20000000000000 \<Longrightarrow> quo26 r = r div 0x4000000"
  by (simp add: quo26_def toInt32_id div_less_iff_less_mult pos_imp_zdiv_nonneg_iff)

lemma word_int32: "word26 w \<Longrightarrow> toInt32 w = w"
  by (simp add: toInt32_id)

lemma split26: "0x4000000 * (r div 0x4000000) + r mod 0x4000000 = (r :: int)"
  by simp

lemma bn_at: "words_ok ws \<Longrightarrow> bn_at ws i = (if i < length ws then ws ! i else 0)"
  by (auto simp: bn_at_def words_ok_def list_all_length word_int32)

section \<open>Normal forms\<close>

lemma strip_snoc: "strip_words (ws @ [w]) = (if ws \<noteq> [] \<and> w = 0 then strip_words ws else ws @ [w])"
  by (subst strip_words.simps) simp

lemma strip_words:
  assumes "words_ok ws" "ws \<noteq> []"
  shows "words_ok (strip_words ws)" "strip_words ws \<noteq> []" "lval (strip_words ws) = lval ws"
    "1 < length (strip_words ws) \<longrightarrow> last (strip_words ws) \<noteq> 0"
proof -
  have "words_ok (strip_words ws) \<and> strip_words ws \<noteq> [] \<and> lval (strip_words ws) = lval ws \<and>
      (1 < length (strip_words ws) \<longrightarrow> last (strip_words ws) \<noteq> 0)"
    using assms by (induction ws rule: rev_induct) (auto simp: strip_snoc lval_append)
  then show "words_ok (strip_words ws)" "strip_words ws \<noteq> []" "lval (strip_words ws) = lval ws"
    "1 < length (strip_words ws) \<longrightarrow> last (strip_words ws) \<noteq> 0" by blast+
qed

lemma strip_words_id: "(1 < length ws \<longrightarrow> last ws \<noteq> 0) \<Longrightarrow> strip_words ws = ws"
  by (subst strip_words.simps) auto

lemma bn_strip:
  assumes "words_ok (bn_words a)" "bn_words a \<noteq> []"
  shows "bn_ok (bn_strip a)" "bn_val (bn_strip a) = bn_val a"
proof -
  note s = strip_words [OF assms]
  show "bn_ok (bn_strip a)" using s by (simp add: bn_strip_def bn_normSign_def bn_ok_def)
  show "bn_val (bn_strip a) = bn_val a" using s(3) by (auto simp: bn_strip_def bn_normSign_def bn_val_def)
qed

text \<open>The last word of a normal form decides how long a number is, so that a number has one normal form.\<close>

lemma last_lower:
  assumes "words_ok ws" "ws \<noteq> []" "last ws \<noteq> 0"
  shows "0x4000000 ^ (length ws - 1) \<le> lval ws"
proof -
  obtain us u where ws: "ws = us @ [u]" using assms(2) by (cases ws rule: rev_cases) auto
  have "0 \<le> lval us" "1 \<le> u" using assms lval_nonneg [of us] by (auto simp: ws)
  moreover have "0x4000000 ^ length us * 1 \<le> 0x4000000 ^ length us * u" using \<open>1 \<le> u\<close> by (intro mult_left_mono) simp_all
  ultimately have "0x4000000 ^ length us \<le> lval us + 0x4000000 ^ length us * u" by linarith
  then show ?thesis by (simp add: ws lval_append)
qed

lemma lval_length:
  assumes "words_ok xs" "words_ok ys" "ys \<noteq> []" "last ys \<noteq> 0" "length xs < length ys"
  shows "lval xs < lval ys"
proof -
  have "lval xs < 0x4000000 ^ length xs" using lval_less [OF assms(1)] .
  also have "\<dots> \<le> 0x4000000 ^ (length ys - 1)" using assms(5) by (intro power_increasing) auto
  also have "\<dots> \<le> lval ys" by (rule last_lower [OF assms(2-4)])
  finally show ?thesis .
qed

lemma ucmp_loop:
  assumes "words_ok xs" "words_ok ys" "length xs = length ys"
  shows "ucmp_loop (rev xs) (rev ys) = (if lval xs = lval ys then 0 else if lval xs < lval ys then - 1 else 1)"
  using assms
proof (induction xs arbitrary: ys rule: rev_induct)
  case (snoc x xs)
  then obtain us u where ys: "ys = us @ [u]" by (cases ys rule: rev_cases) auto
  let ?B = "0x4000000 ^ length xs :: int"
  have l: "length us = length xs" and b: "0 \<le> lval xs" "lval xs < ?B" "0 \<le> lval us" "lval us < ?B"
    using snoc.prems lval_bounds [of xs] lval_bounds [of us] by (auto simp: ys)
  have lt: "p + ?B * v < q + ?B * w" if "v < w" "p < ?B" "0 \<le> q" for v w p q :: int
  proof -
    have "?B * (v + 1) \<le> ?B * w" using that(1) by (intro mult_left_mono) simp_all
    then show ?thesis using that(2,3) by (simp add: distrib_left)
  qed
  show ?case
    using snoc.IH [of us] snoc.prems lt [of x u "lval xs" "lval us"] lt [of u x "lval us" "lval xs"] b l
    by (auto simp: ys lval_append)
qed simp

lemma last_nonzero:
  assumes "words_ok ws" "ws \<noteq> []" "0x4000000 ^ (length ws - 1) \<le> lval ws"
  shows "last ws \<noteq> 0"
proof
  assume z: "last ws = 0"
  obtain us where ws: "ws = us @ [0]" using assms(2) z by (cases ws rule: rev_cases) auto
  then show False using assms lval_less [of us] by (simp add: lval_append)
qed

lemma bn_okD:
  assumes "bn_ok a"
  shows "words_ok (bn_words a)" "bn_words a \<noteq> []" "1 < length (bn_words a) \<Longrightarrow> last (bn_words a) \<noteq> 0"
    "0 \<le> lval (bn_words a)" "bn_negative a \<Longrightarrow> bn_words a \<noteq> [0]"
  using assms lval_nonneg [of "bn_words a"] by (auto simp: bn_ok_def)

lemma bn_ok_zero:
  assumes "bn_ok a"
  shows "lval (bn_words a) = 0 \<longleftrightarrow> bn_words a = [0]"
proof
  assume z: "lval (bn_words a) = 0"
  have "\<not> 1 < length (bn_words a)"
  proof
    assume l: "1 < length (bn_words a)"
    then have "0x4000000 ^ (length (bn_words a) - 1) \<le> lval (bn_words a)" using last_lower [of "bn_words a"] bn_okD [OF assms] by simp
    then show False using z zero_less_power [of "0x4000000 :: int" "length (bn_words a) - 1"] by linarith
  qed
  then obtain w where "bn_words a = [w]" using bn_okD(2) [OF assms] by (cases "bn_words a" rule: list.exhaust) auto
  then show "bn_words a = [0]" using z by simp
qed simp

lemma bn_isZero: "bn_ok a \<Longrightarrow> bn_isZero a \<longleftrightarrow> bn_val a = 0"
  using bn_ok_zero [of a] by (auto simp: bn_isZero_def bn_val_def)

lemma bn_neg_iff: "bn_ok a \<Longrightarrow> bn_negative a \<longleftrightarrow> bn_val a < 0"
  using bn_ok_zero [of a] bn_okD(4,5) [of a] by (auto simp: bn_val_def order_le_less)

lemma bn_negD: "bn_ok a \<Longrightarrow> bn_negative a \<Longrightarrow> 0 < lval (bn_words a)"
  using bn_ok_zero [of a] bn_okD(4,5) [of a] by (auto simp: order_le_less)

text \<open>The order of the words is the order of the values.\<close>

lemma length_leq_1: "ws \<noteq> [] \<Longrightarrow> \<not> 1 < length ws \<Longrightarrow> length ws = 1"
  by (cases ws) auto

lemma bn_ucmp:
  assumes "bn_ok a" "bn_ok b"
  shows "bn_ucmp a b = (if lval (bn_words a) = lval (bn_words b) then 0 else if lval (bn_words a) < lval (bn_words b) then - 1 else 1)"
proof -
  note a = bn_okD [OF assms(1)] and b = bn_okD [OF assms(2)]
  have longer: "lval xs < lval ys" if "bn_ok c" "ys = bn_words c" "words_ok xs" "xs \<noteq> []" "length xs < length ys" for xs ys c
    using lval_length [OF that(3), of ys] bn_okD [OF that(1)] that(2,4,5) by (cases xs) auto
  show ?thesis
    using ucmp_loop [OF a(1) b(1)] longer [OF assms(2) refl a(1,2)] longer [OF assms(1) refl b(1,2)] by (auto simp: bn_ucmp_def)
qed

lemma bn_cmp:
  assumes "bn_ok a" "bn_ok b"
  shows "bn_cmp a b = (if bn_val a = bn_val b then 0 else if bn_val a < bn_val b then - 1 else 1)"
  using bn_ucmp [OF assms] bn_neg_iff [OF assms(1)] bn_neg_iff [OF assms(2)] by (auto simp: bn_cmp_def bn_val_def Let_def)

lemma lval_inj:
  assumes "words_ok xs" "words_ok ys" "length xs = length ys" "lval xs = lval ys"
  shows "xs = ys"
  using assms
proof (induction xs arbitrary: ys)
  case (Cons x xs)
  then obtain y zs where ys: "ys = y # zs" by (cases ys) auto
  have "(x + 0x4000000 * lval xs) mod 0x4000000 = (y + 0x4000000 * lval zs) mod 0x4000000" using Cons.prems(4) by (simp add: ys)
  then have "x = y" using Cons.prems(1,2) by (simp add: ys)
  then show ?case using Cons by (simp add: ys)
qed simp

lemma bn_unique:
  assumes "bn_ok a" "bn_ok b" "bn_val a = bn_val b"
  shows "a = b"
proof -
  have n: "bn_negative a = bn_negative b" using bn_neg_iff [OF assms(1)] bn_neg_iff [OF assms(2)] assms(3) by simp
  then have l: "lval (bn_words a) = lval (bn_words b)" using assms(3) by (auto simp: bn_val_def split: if_splits)
  then have "bn_ucmp a b = 0" using bn_ucmp [OF assms(1,2)] by simp
  then have "length (bn_words a) = length (bn_words b)" by (auto simp: bn_ucmp_def split: if_splits)
  then show ?thesis using lval_inj [OF bn_okD(1) [OF assms(1)] bn_okD(1) [OF assms(2)] _ l] n by simp
qed

section \<open>Addition and subtraction\<close>

lemma add_loop:
  assumes "words_ok as" "words_ok bs" "length bs \<le> length as" "c = 0 \<or> c = 1"
  shows "words_ok (add_loop c as bs) \<and> lval (add_loop c as bs) = lval as + lval bs + c \<and>
    (length (add_loop c as bs) = length as \<or> length (add_loop c as bs) = Suc (length as) \<and> last (add_loop c as bs) = 1)"
  using assms
proof (induction c as bs rule: add_loop.induct)
  case (1 c a as b bs)
  define r where "r = a + b + c"
  have w: "word26 a" "word26 b" "0 \<le> c" "c \<le> 1" using "1.prems" by auto
  then have r: "0 \<le> r" "r < 0x8000000" "toInt32 a + toInt32 b + c = r" by (simp_all add: r_def word_int32)
  then have q: "shr26 r = r div 0x4000000" "r div 0x4000000 = 0 \<or> r div 0x4000000 = 1" by (auto simp: shr26 div_less_iff_less_mult)
  define rest where "rest = add_loop (r div 0x4000000) as bs"
  have e: "add_loop c (a # as) (b # bs) = r mod 0x4000000 # rest" by (simp add: r(3) and26 q(1) rest_def)
  have "words_ok rest \<and> lval rest = lval as + lval bs + r div 0x4000000 \<and> (length rest = length as \<or> length rest = Suc (length as) \<and> last rest = 1)"
    using "1.IH" [OF r(3) [symmetric]] "1.prems" q by (simp add: rest_def)
  then show ?case unfolding e using r_def split26 [of r] by auto
next
  case (2 c a as)
  define r where "r = a + c"
  have w: "word26 a" "0 \<le> c" "c \<le> 1" using "2.prems" by auto
  then have r: "0 \<le> r" "r < 0x8000000" "toInt32 a + c = r" by (simp_all add: r_def word_int32)
  then have q: "shr26 r = r div 0x4000000" "r div 0x4000000 = 0 \<or> r div 0x4000000 = 1" by (auto simp: shr26 div_less_iff_less_mult)
  show ?case
  proof (cases "c = 0")
    case True
    then show ?thesis using "2.prems" by simp
  next
    case False
    define rest where "rest = add_loop (r div 0x4000000) as []"
    have e: "add_loop c (a # as) [] = r mod 0x4000000 # rest" using False by (simp add: r(3) and26 q(1) rest_def)
    have "words_ok rest \<and> lval rest = lval as + r div 0x4000000 \<and> (length rest = length as \<or> length rest = Suc (length as) \<and> last rest = 1)"
      using "2.IH" [OF False r(3) [symmetric]] "2.prems" q by (simp add: rest_def)
    then show ?thesis unfolding e using r_def split26 [of r] by auto
  qed
qed auto

text \<open>The words of a sum that is computed from the lowest word on, modulo a power of the base.\<close>

lemma mod_split:
  fixes r Z K :: int
  assumes "0 < K"
  shows "(r + 0x4000000 * Z) mod (0x4000000 * K) = r mod 0x4000000 + 0x4000000 * ((r div 0x4000000 + Z) mod K)"
  using assms by (simp add: zmod_zmult2_eq add.commute)

lemma borrow:
  assumes "- 0x4000000 \<le> r" "r < 0x4000000"
  shows "sar26 r = r div 0x4000000" "r div 0x4000000 = 0 \<or> r div 0x4000000 = - 1"
proof -
  show "sar26 r = r div 0x4000000" using assms by (simp add: sar26)
  have "- 1 \<le> r div 0x4000000" "r div 0x4000000 < 1"
    using assms zdiv_mono1 [of "- 0x4000000" r "0x4000000"] by (simp_all add: div_less_iff_less_mult)
  then show "r div 0x4000000 = 0 \<or> r div 0x4000000 = - 1" by linarith
qed

lemma sub_loop:
  assumes "words_ok as" "words_ok bs" "length bs \<le> length as" "c = 0 \<or> c = - 1"
  shows "words_ok (sub_loop c as bs) \<and> length (sub_loop c as bs) = length as \<and>
    lval (sub_loop c as bs) = (lval as - lval bs + c) mod 0x4000000 ^ length as"
  using assms
proof (induction c as bs rule: sub_loop.induct)
  case (1 c a as b bs)
  define r where "r = a - b + c"
  have w: "word26 a" "word26 b" "- 1 \<le> c" "c \<le> 0" using "1.prems" by auto
  then have r: "- 0x4000000 \<le> r" "r < 0x4000000" "toInt32 a - toInt32 b + c = r" by (simp_all add: r_def word_int32)
  note q = borrow [OF r(1,2)]
  define rest where "rest = sub_loop (r div 0x4000000) as bs"
  have e: "sub_loop c (a # as) (b # bs) = r mod 0x4000000 # rest" by (simp add: r(3) and26 q(1) rest_def)
  have "words_ok rest \<and> length rest = length as \<and> lval rest = (r div 0x4000000 + (lval as - lval bs)) mod 0x4000000 ^ length as"
    using "1.IH" [OF r(3) [symmetric]] "1.prems" q by (simp add: rest_def add.commute)
  moreover have "lval (a # as) - lval (b # bs) + c = r + 0x4000000 * (lval as - lval bs)" by (simp add: r_def)
  then have "(lval (a # as) - lval (b # bs) + c) mod 0x4000000 ^ length (a # as) =
      r mod 0x4000000 + 0x4000000 * ((r div 0x4000000 + (lval as - lval bs)) mod 0x4000000 ^ length as)"
    by (simp only: length_Cons power_Suc mod_split zero_less_power zero_less_numeral)
  ultimately show ?case unfolding e by simp
next
  case (2 c a as)
  define r where "r = a + c"
  have w: "word26 a" "- 1 \<le> c" "c \<le> 0" using "2.prems" by auto
  then have r: "- 0x4000000 \<le> r" "r < 0x4000000" "toInt32 a + c = r" by (simp_all add: r_def word_int32)
  note q = borrow [OF r(1,2)]
  show ?case
  proof (cases "c = 0")
    case True
    then show ?thesis using "2.prems" lval_bounds [of "a # as"] by simp
  next
    case False
    define rest where "rest = sub_loop (r div 0x4000000) as []"
    have e: "sub_loop c (a # as) [] = r mod 0x4000000 # rest" using False by (simp add: r(3) and26 q(1) rest_def)
    have "words_ok rest \<and> length rest = length as \<and> lval rest = (r div 0x4000000 + lval as) mod 0x4000000 ^ length as"
      using "2.IH" [OF False r(3) [symmetric]] "2.prems" q by (simp add: rest_def add.commute)
    moreover have "lval (a # as) - lval [] + c = r + 0x4000000 * lval as" by (simp add: r_def)
    then have "(lval (a # as) - lval [] + c) mod 0x4000000 ^ length (a # as) =
        r mod 0x4000000 + 0x4000000 * ((r div 0x4000000 + lval as) mod 0x4000000 ^ length as)"
      by (simp only: length_Cons power_Suc mod_split zero_less_power zero_less_numeral)
    ultimately show ?thesis unfolding e by simp
  qed
qed auto

lemma bn_ok_add_loop:
  assumes "bn_ok a" "bn_ok b" "length (bn_words b) \<le> length (bn_words a)" "bn_negative a = bn_negative b"
  shows "bn_words c = add_loop 0 (bn_words a) (bn_words b) \<Longrightarrow> bn_negative c = bn_negative a \<Longrightarrow> bn_ok c"
    and "lval (add_loop 0 (bn_words a) (bn_words b)) = lval (bn_words a) + lval (bn_words b)"
proof -
  let ?s = "add_loop 0 (bn_words a) (bn_words b)"
  note a = bn_okD [OF assms(1)] and b = bn_okD [OF assms(2)]
  note l = add_loop [OF a(1) b(1) assms(3), of 0]
  show v: "lval ?s = lval (bn_words a) + lval (bn_words b)" using l by simp
  have "length ?s \<noteq> 0" using l a(2) by (metis length_0_conv nat.distinct(1))
  then have ne: "?s \<noteq> []" by simp
  have top: "last ?s \<noteq> 0" if "1 < length ?s"
  proof (cases "length ?s = length (bn_words a)")
    case True
    then have "0x4000000 ^ (length ?s - 1) \<le> lval (bn_words a)" using last_lower [OF a(1,2) a(3)] that by simp
    also have "\<dots> \<le> lval ?s" using v b(4) by simp
    finally show ?thesis using last_nonzero [of ?s] l ne by blast
  next
    case False
    then show ?thesis using l by simp
  qed
  have "lval ?s \<noteq> 0" if "bn_negative a" using v bn_negD [OF assms(1) that] b(4) by simp
  then have z: "?s \<noteq> [0]" if "bn_negative a" using that by auto
  show "bn_ok c" if "bn_words c = ?s" "bn_negative c = bn_negative a"
    unfolding bn_ok_def that using l ne top z by blast
qed

lemma bn_abs:
  assumes "bn_ok a"
  shows "bn_ok (a\<lparr>bn_negative := False\<rparr>)" "bn_val (a\<lparr>bn_negative := False\<rparr>) = \<bar>bn_val a\<bar>"
  using assms bn_okD(4) [OF assms] by (auto simp: bn_ok_def bn_val_def)

lemma bn_flip:
  assumes "bn_ok a"
  shows "bn_ok (bn_normSign (a\<lparr>bn_negative := c\<rparr>))" "bn_val (bn_normSign (a\<lparr>bn_negative := c\<rparr>)) = (if c then - \<bar>bn_val a\<bar> else \<bar>bn_val a\<bar>)"
  using assms bn_okD(4) [OF assms] by (auto simp: bn_ok_def bn_val_def bn_normSign_def)

lemma bn_normSign_id: "bn_ok a \<Longrightarrow> bn_normSign a = a"
  by (cases a) (auto simp: bn_ok_def bn_normSign_def)

lemma bn_isub_pos:
  assumes "bn_ok a" "bn_ok b" "0 \<le> bn_val a" "0 \<le> bn_val b"
  shows "bn_ok (bn_isub_pos a b) \<and> bn_val (bn_isub_pos a b) = bn_val a - bn_val b"
proof -
  note a = bn_okD [OF assms(1)] and b = bn_okD [OF assms(2)]
  have n: "\<not> bn_negative a" "\<not> bn_negative b" using assms bn_neg_iff by (simp_all add: not_less)
  then have v: "bn_val a = lval (bn_words a)" "bn_val b = lval (bn_words b)" by (simp_all add: bn_val_def)
  have sub: "words_ok (sub_loop 0 (bn_words x) (bn_words y)) \<and> sub_loop 0 (bn_words x) (bn_words y) \<noteq> [] \<and>
      lval (sub_loop 0 (bn_words x) (bn_words y)) = bn_val x - bn_val y"
    if "bn_ok x" "bn_ok y" "\<not> bn_negative x" "\<not> bn_negative y" "bn_val y < bn_val x" for x y
  proof -
    note x = bn_okD [OF that(1)] and y = bn_okD [OF that(2)]
    have l: "lval (bn_words y) < lval (bn_words x)" using that(3-5) by (simp add: bn_val_def)
    then have le: "length (bn_words y) \<le> length (bn_words x)"
      using bn_ucmp [OF that(1,2)] by (auto simp: bn_ucmp_def split: if_splits)
    from sub_loop [OF x(1) y(1) le, of 0] show ?thesis
      using l x(2) y(4) lval_less [OF x(1)] that(3,4) by (auto simp: bn_val_def)
  qed
  consider "bn_val a = bn_val b" | "bn_val b < bn_val a" | "bn_val a < bn_val b" by linarith
  then show ?thesis
  proof cases
    case 1
    then show ?thesis using bn_cmp [OF assms(1,2)] by (simp add: bn_isub_pos_def bn_ok_def bn_val_def)
  next
    case 2
    then show ?thesis
      using bn_cmp [OF assms(1,2)] sub [OF assms(1,2) n 2] n bn_strip [of "a\<lparr>bn_words := sub_loop 0 (bn_words a) (bn_words b)\<rparr>"]
      by (simp add: bn_isub_pos_def bn_val_def [of "_\<lparr>bn_words := _\<rparr>"])
  next
    case 3
    then show ?thesis
      using bn_cmp [OF assms(1,2)] sub [OF assms(2,1) n(2,1) 3] n
        bn_strip [of "a\<lparr>bn_words := sub_loop 0 (bn_words b) (bn_words a), bn_negative := True\<rparr>"]
      by (simp add: bn_isub_pos_def bn_val_def [of "_\<lparr>bn_words := _, bn_negative := _\<rparr>"])
  qed
qed

lemma bn_iadd:
  assumes "bn_ok a" "bn_ok b"
  shows "bn_ok (bn_iadd a b) \<and> bn_val (bn_iadd a b) = bn_val a + bn_val b"
proof -
  note a = bn_neg_iff [OF assms(1)] and b = bn_neg_iff [OF assms(2)]
  consider "bn_negative a" "\<not> bn_negative b" | "\<not> bn_negative a" "bn_negative b" | "bn_negative a = bn_negative b" by blast
  then show ?thesis
  proof cases
    case 1
    let ?r = "bn_isub_pos (a\<lparr>bn_negative := False\<rparr>) b"
    have r: "bn_ok ?r" "bn_val ?r = - bn_val a - bn_val b" using bn_isub_pos [OF bn_abs(1) [OF assms(1)] assms(2)] bn_abs(2) [OF assms(1)] 1 a b by auto
    then show ?thesis using bn_flip [OF r(1), of "\<not> bn_negative ?r"] bn_neg_iff [OF r(1)] 1 by (auto simp: bn_iadd_def Let_def)
  next
    case 2
    then show ?thesis
      using bn_isub_pos [OF assms(1) bn_abs(1) [OF assms(2)]] bn_abs(2) [OF assms(2)] a b bn_normSign_id by (simp add: bn_iadd_def)
  next
    case 3
    then show ?thesis
      using bn_ok_add_loop [OF assms] bn_ok_add_loop [OF assms(2,1)]
      by (auto simp: bn_iadd_def bn_val_def)
  qed
qed

lemma bn_isub:
  assumes "bn_ok a" "bn_ok b"
  shows "bn_ok (bn_isub a b) \<and> bn_val (bn_isub a b) = bn_val a - bn_val b"
proof -
  note a = bn_neg_iff [OF assms(1)] and b = bn_neg_iff [OF assms(2)]
  consider "bn_negative b" | "bn_negative a" "\<not> bn_negative b" | "\<not> bn_negative a" "\<not> bn_negative b" by blast
  then show ?thesis
  proof cases
    case 1
    then show ?thesis
      using bn_iadd [OF assms(1) bn_abs(1) [OF assms(2)]] bn_abs(2) [OF assms(2)] b bn_normSign_id by (simp add: bn_isub_def)
  next
    case 2
    let ?r = "bn_iadd (a\<lparr>bn_negative := False\<rparr>) b"
    have r: "bn_ok ?r" "bn_val ?r = - bn_val a + bn_val b" using bn_iadd [OF bn_abs(1) [OF assms(1)] assms(2)] bn_abs(2) [OF assms(1)] 2 a by auto
    then show ?thesis using bn_flip [OF r(1), of True] 2 a b by (simp add: bn_isub_def)
  next
    case 3
    then show ?thesis using bn_isub_pos [OF assms] a b by (simp add: bn_isub_def)
  qed
qed

lemma bn_add:
  assumes "bn_ok a" "bn_ok b"
  shows "bn_ok (bn_add a b) \<and> bn_val (bn_add a b) = bn_val a + bn_val b"
  using bn_isub [OF assms(1) bn_abs(1) [OF assms(2)]] bn_isub [OF assms(2) bn_abs(1) [OF assms(1)]] bn_iadd [OF assms] bn_iadd [OF assms(2,1)]
    bn_abs(2) [OF assms(1)] bn_abs(2) [OF assms(2)] bn_neg_iff [OF assms(1)] bn_neg_iff [OF assms(2)]
  by (auto simp: bn_add_def)

lemma bn_ineg: "bn_ok a \<Longrightarrow> bn_ok (bn_ineg a) \<and> bn_val (bn_ineg a) = - bn_val a"
  by (auto simp: bn_ineg_def bn_isZero_def bn_ok_def bn_val_def)

section \<open>Shifts\<close>

lemma mask26: "(0x3ffffff :: int) = mask 26"
  by (simp add: mask_eq_exp_minus_1)

lemma word26_bit: "word26 w \<Longrightarrow> bit w n \<Longrightarrow> n < 26"
proof (rule ccontr)
  assume "word26 w" "bit w n" "\<not> n < 26"
  moreover from this have "take_bit 26 w = w" by (simp add: take_bit_eq_mod)
  ultimately show False by (metis bit_take_bit_iff)
qed

lemma high_mask:
  assumes "word26 w"
  shows "w AND push_bit e (drop_bit e 0x3ffffff) = push_bit e (drop_bit e w)"
  unfolding mask26 by (rule bit_eqI) (use word26_bit [OF assms] in \<open>auto simp: bit_simps\<close>)

lemma low_mask:
  assumes "r \<le> 26"
  shows "w AND (0x3ffffff XOR push_bit r (drop_bit r 0x3ffffff)) = take_bit r (w :: int)"
  unfolding mask26 by (rule bit_eqI) (use assms in \<open>auto simp: bit_simps\<close>)

lemma or_disjoint:
  assumes "0 \<le> c" "c < 2 ^ r"
  shows "push_bit r x OR c = push_bit r x + (c :: int)"
proof -
  have "take_bit r c = c" using assms by (simp add: take_bit_eq_mod)
  then have "\<not> bit (push_bit r x) n \<or> \<not> bit c n" for n by (metis bit_push_bit_iff_int bit_take_bit_iff leD)
  then show ?thesis by (simp add: disjunctive_add)
qed

lemma zdiv_less:
  fixes w a b :: int
  assumes "0 < b" "w < a * b"
  shows "w div b < a"
proof (rule ccontr)
  assume "\<not> w div b < a"
  then have "a * b \<le> w div b * b" using assms(1) by (intro mult_right_mono) simp_all
  moreover have "w div b * b + w mod b = w" "0 \<le> w mod b" using assms(1) by simp_all
  ultimately show False using assms(2) by linarith
qed

lemma shl_loop:
  assumes "words_ok ws" "0 < r" "r < 26" "0 \<le> c" "c < 2 ^ r"
  shows "words_ok (shl_loop r (push_bit (26 - r) (drop_bit (26 - r) 0x3ffffff)) c ws) \<and>
    lval (shl_loop r (push_bit (26 - r) (drop_bit (26 - r) 0x3ffffff)) c ws) = c + 2 ^ r * lval ws \<and>
    length ws \<le> length (shl_loop r (push_bit (26 - r) (drop_bit (26 - r) 0x3ffffff)) c ws)"
  using assms(1,4,5)
proof (induction ws arbitrary: c)
  case Nil
  have "(2 :: int) ^ r \<le> 2 ^ 26" using assms(3) by (intro power_increasing) simp_all
  then show ?case using Nil by simp
next
  case (Cons w ws)
  let ?m = "push_bit (26 - r) (drop_bit (26 - r) 0x3ffffff) :: int" and ?e = "26 - r"
  have w: "word26 w" using Cons.prems(1) by simp
  have p: "(2 :: int) ^ ?e * 2 ^ r = 0x4000000" using assms(3) by (simp add: power_add [symmetric])
  have h: "w AND ?m = push_bit ?e (drop_bit ?e w)" by (rule high_mask [OF w])
  have low: "w - (w AND ?m) = w mod 2 ^ ?e" unfolding h by (simp add: push_bit_eq_mult drop_bit_eq_div minus_div_mult_eq_mod)
  have d: "drop_bit ?e (w AND ?m) = w div 2 ^ ?e" unfolding h by (simp add: drop_bit_eq_div push_bit_eq_mult)
  have l: "0 \<le> w mod 2 ^ ?e" "w mod 2 ^ ?e < 2 ^ ?e" by simp_all
  have "w mod 2 ^ ?e + 1 \<le> 2 ^ ?e" using l(2) by linarith
  from mult_right_mono [OF this, of "2 ^ r"] have "w mod 2 ^ ?e * 2 ^ r + 2 ^ r \<le> 0x4000000" using p by (simp add: distrib_right)
  then have s: "push_bit r (w mod 2 ^ ?e) + c < 0x4000000" "0 \<le> push_bit r (w mod 2 ^ ?e)"
    using Cons.prems(3) l(1) by (simp_all add: push_bit_eq_mult)
  have "toInt32 (push_bit r (w mod 2 ^ ?e)) = push_bit r (w mod 2 ^ ?e)"
    by (rule toInt32_id) (use s Cons.prems(2) in linarith)+
  then have head: "toInt32 (push_bit r (w mod 2 ^ ?e)) OR c = push_bit r (w mod 2 ^ ?e) + c"
    using or_disjoint [OF Cons.prems(2,3)] by simp
  have q: "0 \<le> w div 2 ^ ?e" "w div 2 ^ ?e < 2 ^ r" using w p zdiv_less [of "2 ^ ?e" w "2 ^ r"] by (simp_all add: pos_imp_zdiv_nonneg_iff mult.commute)
  have "2 ^ r * (x + 2 ^ ?e * y) = 2 ^ r * x + (2 ^ ?e * 2 ^ r) * y" for x y :: int by (simp only: distrib_left mult.assoc mult.left_commute)
  from this [of "w mod 2 ^ ?e" "w div 2 ^ ?e"] have "2 ^ r * w = 2 ^ r * (w mod 2 ^ ?e) + 0x4000000 * (w div 2 ^ ?e)"
    unfolding p mod_mult_div_eq .
  then have v: "push_bit r (w mod 2 ^ ?e) + c + 0x4000000 * (w div 2 ^ ?e + 2 ^ r * lval ws) = c + 2 ^ r * lval (w # ws)"
    by (simp add: push_bit_eq_mult distrib_left mult.commute)
  have e: "shl_loop r ?m c (w # ws) = (push_bit r (w mod 2 ^ ?e) + c) # shl_loop r ?m (w div 2 ^ ?e) ws"
    by (simp only: shl_loop.simps Let_def low d head)
  have "words_ok ws" using Cons.prems(1) by simp
  from Cons.IH [OF this q] show ?case
    unfolding e using v s Cons.prems(2) by simp
qed

lemma shr_loop:
  assumes "words_ok ws" "r < 26" "0 \<le> c" "c < 2 ^ r"
    and "shr_loop r (0x3ffffff XOR push_bit r (drop_bit r 0x3ffffff)) c ws = (ws', c')"
  shows "words_ok ws' \<and> length ws' = length ws \<and> 0 \<le> c' \<and> c' < 2 ^ r \<and>
    lval (rev ws') * 2 ^ r + c' = c * 0x4000000 ^ length ws + lval (rev ws)"
  using assms(1,3-5)
proof (induction ws arbitrary: c ws' c')
  case (Cons w ws)
  let ?m = "0x3ffffff XOR push_bit r (drop_bit r 0x3ffffff) :: int" and ?e = "26 - r"
  have w: "word26 w" using Cons.prems(1) by simp
  have p: "(2 :: int) ^ ?e * 2 ^ r = 0x4000000" using assms(2) by (simp add: power_add [symmetric])
  have m: "w AND ?m = w mod 2 ^ r" using low_mask [of r w] assms(2) by (simp add: take_bit_eq_mod)
  obtain us where us: "shr_loop r ?m (w mod 2 ^ r) ws = (us, c')" "ws' = (toInt32 (push_bit ?e c) OR drop_bit r w) # us"
    using Cons.prems(4) unfolding shr_loop.simps m by (auto simp: Let_def split: prod.splits)
  have d: "0 \<le> drop_bit r w" "drop_bit r w < 2 ^ ?e"
    using w p zdiv_less [of "2 ^ r" w "2 ^ ?e"] by (simp_all add: drop_bit_eq_div pos_imp_zdiv_nonneg_iff)
  have "c + 1 \<le> 2 ^ r" using Cons.prems(3) by linarith
  from mult_right_mono [OF this, of "2 ^ ?e"] have "c * 2 ^ ?e + 2 ^ ?e \<le> 0x4000000"
    using p by (simp add: distrib_right mult.commute)
  then have s: "push_bit ?e c + drop_bit r w < 0x4000000" "0 \<le> push_bit ?e c"
    using d Cons.prems(2) by (simp_all add: push_bit_eq_mult)
  have "toInt32 (push_bit ?e c) = push_bit ?e c"
    by (rule toInt32_id) (use s d(1) in linarith)+
  then have head: "toInt32 (push_bit ?e c) OR drop_bit r w = push_bit ?e c + drop_bit r w"
    using or_disjoint [OF d] by simp
  have "w = w mod 2 ^ r + 2 ^ r * (w div 2 ^ r)" by simp
  moreover have "(push_bit ?e c + drop_bit r w) * 2 ^ r = c * 0x4000000 + 2 ^ r * (w div 2 ^ r)"
    using p by (simp add: push_bit_eq_mult drop_bit_eq_div algebra_simps)
  ultimately have h: "(push_bit ?e c + drop_bit r w) * 2 ^ r + w mod 2 ^ r = c * 0x4000000 + w" by linarith
  have IH: "words_ok us \<and> length us = length ws \<and> 0 \<le> c' \<and> c' < 2 ^ r \<and>
      lval (rev us) * 2 ^ r + c' = (w mod 2 ^ r) * 0x4000000 ^ length ws + lval (rev ws)"
    using Cons.IH [OF _ _ _ us(1)] Cons.prems(1) by simp
  have "lval (rev ws') * 2 ^ r + c' =
      (lval (rev us) * 2 ^ r + c') + 0x4000000 ^ length ws * ((push_bit ?e c + drop_bit r w) * 2 ^ r)"
    using IH by (simp add: us(2) head lval_append algebra_simps)
  also have "\<dots> = lval (rev ws) + 0x4000000 ^ length ws * ((push_bit ?e c + drop_bit r w) * 2 ^ r + w mod 2 ^ r)"
    using IH by (simp add: algebra_simps)
  also have "\<dots> = c * 0x4000000 ^ length (w # ws) + lval (rev (w # ws))"
    unfolding h by (simp add: lval_append algebra_simps)
  finally show ?case using IH s d us(2) head by simp
qed auto
lemma words_ok_replicate [simp]: "words_ok (replicate n 0)"
  by (simp add: words_ok_def list_all_length)

lemma lval_replicate [simp]: "lval (replicate n 0) = 0"
  by (induction n) simp_all

lemma pow_bits: "(0x4000000 :: int) ^ (bits div 26) * 2 ^ (bits mod 26) = 2 ^ bits"
proof -
  have "(0x4000000 :: int) ^ (bits div 26) = 2 ^ (26 * (bits div 26))" by (simp add: power_mult)
  then show ?thesis by (simp add: power_add [symmetric])
qed

lemma bn_iushln:
  assumes "bn_ok a"
  shows "bn_ok (bn_iushln a bits) \<and> bn_val (bn_iushln a bits) = bn_val a * 2 ^ bits"
proof -
  let ?r = "bits mod 26" and ?s = "bits div 26"
  define ws where "ws = (if ?r \<noteq> 0 then shl_loop ?r (push_bit (26 - ?r) (drop_bit (26 - ?r) 0x3ffffff)) 0 (bn_words a) else bn_words a)"
  note a = bn_okD [OF assms]
  have "words_ok ws \<and> lval ws = 2 ^ ?r * lval (bn_words a) \<and> length (bn_words a) \<le> length ws"
    using shl_loop [OF a(1), of ?r 0] a(1) by (simp add: ws_def)
  then have w: "words_ok ws" "lval ws = 2 ^ ?r * lval (bn_words a)" "ws \<noteq> []" using a(2) by auto
  let ?b = "a\<lparr>bn_words := replicate ?s 0 @ ws\<rparr>"
  have "lval (replicate ?s 0 @ ws) = lval (bn_words a) * 2 ^ bits"
    using w(2) pow_bits [of bits] by (simp add: lval_append mult.commute mult.left_commute)
  then have "bn_val ?b = bn_val a * 2 ^ bits" by (simp add: bn_val_def)
  moreover have "bn_iushln a bits = bn_strip ?b" by (simp add: bn_iushln_def Let_def ws_def)
  ultimately show ?thesis using bn_strip [of ?b] w by simp
qed

lemma lval_split: "s \<le> length ws \<Longrightarrow> lval ws = lval (take s ws) + 0x4000000 ^ s * lval (drop s ws)"
  using lval_append [of "take s ws" "drop s ws"] by simp

lemma words_ok_take_drop: "words_ok ws \<Longrightarrow> words_ok (take s ws) \<and> words_ok (drop s ws)"
  by (metis append_take_drop_id words_ok_simps(3))

lemma lval_div_mod:
  assumes "words_ok ws" "s \<le> length ws"
  shows "lval ws div 0x4000000 ^ s = lval (drop s ws)" "lval ws mod 0x4000000 ^ s = lval (take s ws)"
proof -
  have "0 \<le> lval (take s ws)" "lval (take s ws) < 0x4000000 ^ s"
    using lval_bounds [of "take s ws"] words_ok_take_drop [OF assms(1), of s] assms(2) by (auto simp: min_absorb2)
  then show "lval ws div 0x4000000 ^ s = lval (drop s ws)" "lval ws mod 0x4000000 ^ s = lval (take s ws)"
    using lval_split [OF assms(2)] by simp_all
qed

lemma bn_iushrn:
  assumes "bn_ok a" "bn_iushrn a bits = (b, ext)"
  shows "bn_ok b" "bn_val b = BN_ushrn (bn_val a) bits" "words_ok ext" "lval ext = \<bar>bn_val a\<bar> mod 2 ^ bits"
proof -
  let ?r = "bits mod 26" and ?X = "lval (bn_words a)"
  let ?s = "min (bits div 26) (length (bn_words a))"
  let ?ws = "if ?s = 0 then bn_words a else if length (bn_words a) > ?s then drop ?s (bn_words a) else [0]"
  note a = bn_okD [OF assms(1)]
  obtain us c where us: "shr_loop ?r (0x3ffffff XOR push_bit ?r (drop_bit ?r 0x3ffffff)) 0 (rev ?ws) = (us, c)" by force
  have be: "b = bn_strip (a\<lparr>bn_words := rev us\<rparr>)" "ext = take ?s (bn_words a) @ (if c \<noteq> 0 then [c] else [])"
    using assms(2) us by (auto simp: bn_iushrn_def Let_def)
  have ws: "words_ok ?ws" "?ws \<noteq> []" "lval ?ws = ?X div 0x4000000 ^ ?s"
    using a(1,2) words_ok_take_drop [OF a(1), of ?s] lval_div_mod(1) [OF a(1), of ?s] by auto
  have l: "words_ok us" "length us = length ?ws" "0 \<le> c" "c < 2 ^ ?r" "lval (rev us) * 2 ^ ?r + c = lval ?ws"
    using shr_loop [OF _ _ _ _ us] ws(1) by auto
  define Y where "Y = ?X div 0x4000000 ^ ?s"
  have q: "lval (rev us) = Y div 2 ^ ?r" "c = Y mod 2 ^ ?r"
  proof -
    have "Y = 2 ^ ?r * lval (rev us) + c" unfolding Y_def ws(3) [symmetric] l(5) [symmetric] by (simp only: mult.commute)
    then show "lval (rev us) = Y div 2 ^ ?r" "c = Y mod 2 ^ ?r" using l(3,4) by simp_all
  qed
  have D: "?X div 2 ^ bits = Y div 2 ^ ?r \<and> ?X mod 2 ^ bits = ?X mod 0x4000000 ^ ?s + 0x4000000 ^ ?s * (Y mod 2 ^ ?r)"
  proof (cases "bits div 26 \<le> length (bn_words a)")
    case True
    then have "(2 :: int) ^ bits = 0x4000000 ^ ?s * 2 ^ ?r" using pow_bits [of bits] by (simp add: min_absorb1)
    then show ?thesis by (simp add: Y_def zdiv_zmult2_eq zmod_zmult2_eq)
  next
    case False
    then have s: "?s = length (bn_words a)" by simp
    have "(0x4000000 :: int) ^ length (bn_words a) \<le> 0x4000000 ^ (bits div 26)" using False by (intro power_increasing) simp_all
    also have "\<dots> \<le> 2 ^ bits" using pow_bits [of bits, symmetric] by simp
    finally have "?X < 2 ^ bits" "?X < 0x4000000 ^ ?s" using lval_less [OF a(1)] s by simp_all
    then show ?thesis using a(4) by (simp add: Y_def)
  qed
  have u: "words_ok (rev us)" "rev us \<noteq> []" using l(1,2) ws(2) by auto
  have "bn_val (a\<lparr>bn_words := rev us\<rparr>) = BN_ushrn (bn_val a) bits"
    using D q(1) a(4) bn_neg_iff [OF assms(1)] by (auto simp: bn_val_def BN_ushrn_def)
  then show "bn_ok b" "bn_val b = BN_ushrn (bn_val a) bits" using bn_strip [of "a\<lparr>bn_words := rev us\<rparr>"] u be(1) by simp_all
  have "(2 :: int) ^ ?r \<le> 2 ^ 26" by (intro power_increasing) simp_all
  then show "words_ok ext" using be(2) l(3,4) words_ok_take_drop [OF a(1), of ?s] by simp
  have "\<bar>bn_val a\<bar> = ?X" using a(4) by (simp add: bn_val_def)
  then show "lval ext = \<bar>bn_val a\<bar> mod 2 ^ bits"
    using D q(2) be(2) lval_div_mod(2) [OF a(1), of ?s] by (simp add: lval_append min_absorb2)
qed

end
