(* ===== verification/BNMulProps.thy ===== *)
theory BNMulProps
  imports BNWordsProps
begin

unbundle bit_operations_syntax

text \<open>
  Products: the columns of \<open>smallMulTo\<close>, \<open>bigMulTo\<close> and the unrolled \<open>comb10MulTo\<close> give the words of the
  product of the values, with all intermediate sums below the limit of exact doubles; then the operations with plain numbers.
\<close>

section \<open>Columns of a product\<close>

abbreviation wat :: "int list \<Rightarrow> nat \<Rightarrow> int" where
  "wat ws i \<equiv> (if i < length ws then ws ! i else 0)"

definition conv :: "int list \<Rightarrow> int list \<Rightarrow> nat \<Rightarrow> int" where
  "conv a b k = (\<Sum>j\<le>k. wat a (k - j) * wat b j)"

lemma conv_Nil [simp]: "conv a [] k = 0"
  by (simp add: conv_def)

lemma conv_0: "conv a (x # b) 0 = wat a 0 * x"
  by (simp add: conv_def)

lemma conv_Suc: "conv a (x # b) (Suc k) = wat a (Suc k) * x + conv a b k"
  unfolding conv_def by (subst sum.atMost_Suc_shift) (auto intro!: sum.cong)

lemma lval_sum: "length a \<le> n \<Longrightarrow> (\<Sum>k<n. wat a k * 0x4000000 ^ k) = lval a"
proof (induction a arbitrary: n)
  case (Cons w ws)
  then obtain m where n: "n = Suc m" "length ws \<le> m" by (cases n) auto
  have "(\<Sum>k<m. wat ws k * 0x4000000 ^ Suc k) = 0x4000000 * lval ws"
    unfolding Cons.IH [OF n(2), symmetric] sum_distrib_left by (intro sum.cong) simp_all
  moreover have "(\<Sum>k<n. wat (w # ws) k * 0x4000000 ^ k) = w + (\<Sum>k<m. wat ws k * 0x4000000 ^ Suc k)"
    unfolding n(1) by (subst sum.lessThan_Suc_shift) (auto intro!: sum.cong)
  ultimately show ?case by simp
qed simp

lemma conv_sum: "length a + length b \<le> Suc n \<Longrightarrow> (\<Sum>k<n. conv a b k * 0x4000000 ^ k) = lval a * lval b"
proof (induction b arbitrary: n)
  case (Cons x b)
  show ?case
  proof (cases n)
    case 0
    then show ?thesis using Cons.prems by simp
  next
    case (Suc m)
    have IH: "(\<Sum>k<m. conv a b k * 0x4000000 ^ k) = lval a * lval b" using Cons.IH [of m] Cons.prems Suc by simp
    have A: "(\<Sum>k<Suc m. wat a k * 0x4000000 ^ k) = lval a" using lval_sum [of a "Suc m"] Cons.prems Suc by simp
    have "(\<Sum>k<Suc m. conv a (x # b) k * 0x4000000 ^ k) =
        wat a 0 * x + (\<Sum>k<m. (wat a (Suc k) * x + conv a b k) * 0x4000000 ^ Suc k)"
      by (subst sum.lessThan_Suc_shift) (simp only: conv_0 conv_Suc power_0 mult_1_right)
    also have "\<dots> = x * (wat a 0 + (\<Sum>k<m. wat a (Suc k) * 0x4000000 ^ Suc k)) + 0x4000000 * (\<Sum>k<m. conv a b k * 0x4000000 ^ k)"
      by (simp add: sum_distrib_left distrib_left distrib_right sum.distrib mult.assoc mult.left_commute mult.commute)
    also have "wat a 0 + (\<Sum>k<m. wat a (Suc k) * 0x4000000 ^ Suc k) = lval a"
      unfolding A [symmetric] by (subst sum.lessThan_Suc_shift) simp
    finally show ?thesis unfolding Suc IH by (simp add: algebra_simps)
  qed
qed simp

lemma conv_list:
  "sum_list (map (\<lambda>j. wat a (k - j) * wat b j) (mul_range (length a) (length b) k)) = conv a b k"
proof -
  have "sum_list (map f [m..<n]) = sum f {m..<n}" for f :: "nat \<Rightarrow> int" and m n
    by (simp add: interv_sum_list_conv_sum_set_nat)
  then have "sum_list (map (\<lambda>j. wat a (k - j) * wat b j) (mul_range (length a) (length b) k)) =
      (\<Sum>j\<in>{k + 1 - length a..<Suc (min k (length b - 1))}. wat a (k - j) * wat b j)"
    unfolding mul_range_def .
  also have "\<dots> = conv a b k"
    unfolding conv_def by (rule sum.mono_neutral_left) auto
  finally show ?thesis .
qed

lemma conv_nonneg:
  assumes "words_ok a" "words_ok b"
  shows "0 \<le> conv a b k"
proof -
  have "0 \<le> wat a i" "0 \<le> wat b i" for i using assms by (auto simp: words_ok_def list_all_length)
  then show ?thesis unfolding conv_def by (intro sum_nonneg mult_nonneg_nonneg)
qed

text \<open>The words of a number whose columns are \<open>f\<close>.\<close>

fun col_words :: "(nat \<Rightarrow> int) \<Rightarrow> nat \<Rightarrow> nat \<Rightarrow> int \<Rightarrow> int list" where
  "col_words f k 0 c = (if c \<noteq> 0 then [c] else [])"
| "col_words f k (Suc n) c = (c + f k) mod 0x4000000 # col_words f (Suc k) n ((c + f k) div 0x4000000)"

lemma col_words_val: "lval (col_words f k n c) = c + (\<Sum>i<n. f (k + i) * 0x4000000 ^ i)"
proof (induction n arbitrary: k c)
  case (Suc n)
  have "(\<Sum>i<Suc n. f (k + i) * 0x4000000 ^ i) = f k + 0x4000000 * (\<Sum>i<n. f (Suc k + i) * 0x4000000 ^ i)"
    by (subst sum.lessThan_Suc_shift) (simp add: sum_distrib_left mult.left_commute)
  then show ?case using Suc.IH [of "Suc k"] split26 [of "c + f k"] by (simp add: algebra_simps)
qed simp

lemma col_words_ok:
  assumes "0 \<le> c" "\<And>i. 0 \<le> f i" "c + (\<Sum>i<n. f (k + i) * 0x4000000 ^ i) < 0x4000000 ^ Suc n"
  shows "words_ok (col_words f k n c) \<and> n \<le> length (col_words f k n c)"
  using assms(1,3)
proof (induction n arbitrary: k c)
  case (Suc n)
  define v where "v = c + f k"
  have v: "0 \<le> v" using Suc.prems(1) assms(2) by (simp add: v_def)
  have "(\<Sum>i<Suc n. f (k + i) * 0x4000000 ^ i) = f k + 0x4000000 * (\<Sum>i<n. f (Suc k + i) * 0x4000000 ^ i)"
    by (subst sum.lessThan_Suc_shift) (simp add: sum_distrib_left mult.left_commute)
  then have "v + 0x4000000 * (\<Sum>i<n. f (Suc k + i) * 0x4000000 ^ i) < 0x4000000 * 0x4000000 ^ Suc n"
    using Suc.prems(2) v_def by simp
  moreover have "0x4000000 * (v div 0x4000000) \<le> v" by simp
  ultimately have "v div 0x4000000 + (\<Sum>i<n. f (Suc k + i) * 0x4000000 ^ i) < 0x4000000 ^ Suc n" by linarith
  moreover have "0 \<le> v div 0x4000000" using v by (simp add: pos_imp_zdiv_nonneg_iff)
  ultimately show ?case using Suc.IH [of "v div 0x4000000" "Suc k"] by (simp add: v_def)
qed auto

lemma col_words_last: "length (col_words f k n c) = n \<or> length (col_words f k n c) = Suc n \<and> last (col_words f k n c) \<noteq> 0"
  by (induction f k n c rule: col_words.induct) auto

lemma bn_product:
  assumes "bn_ok x" "bn_ok y" "n = length (bn_words x) + length (bn_words y) - 1"
  shows "words_ok (col_words (conv (bn_words x) (bn_words y)) 0 n 0)" "col_words (conv (bn_words x) (bn_words y)) 0 n 0 \<noteq> []"
    "lval (col_words (conv (bn_words x) (bn_words y)) 0 n 0) = lval (bn_words x) * lval (bn_words y)"
proof -
  let ?a = "bn_words x" and ?b = "bn_words y"
  note a = bn_okD [OF assms(1)] and b = bn_okD [OF assms(2)]
  have n: "Suc n = length ?a + length ?b" "0 < n" using assms(3) a(2) b(2) by (cases ?a; cases ?b; simp)+
  have s: "(\<Sum>k<n. conv ?a ?b k * 0x4000000 ^ k) = lval ?a * lval ?b" by (rule conv_sum) (simp add: n(1))
  then show v: "lval (col_words (conv ?a ?b) 0 n 0) = lval ?a * lval ?b" by (simp add: col_words_val)
  have "lval ?a * lval ?b < 0x4000000 ^ length ?a * 0x4000000 ^ length ?b"
    by (rule mult_strict_mono) (use lval_less [OF a(1)] lval_less [OF b(1)] a(4) b(4) in auto)
  also have "\<dots> = 0x4000000 ^ Suc n" by (simp only: n(1) power_add)
  finally have lt: "0 + (\<Sum>i<n. conv ?a ?b (0 + i) * 0x4000000 ^ i) < 0x4000000 ^ Suc n" using s by simp
  note c = col_words_ok [of 0 "conv ?a ?b" 0 n, OF order_refl conv_nonneg [OF a(1) b(1)] lt]
  then show "words_ok (col_words (conv ?a ?b) 0 n 0)" by blast
  show "col_words (conv ?a ?b) 0 n 0 \<noteq> []" using c n(2) by auto
qed
section \<open>The three multiplications\<close>

lemma word_product:
  assumes "words_ok a" "words_ok b"
  shows "0 \<le> wat a i * wat b j" "wat a i * wat b j \<le> 0x3ffffff * 0x3ffffff"
proof -
  have a: "0 \<le> wat a i" "wat a i \<le> 0x3ffffff" and b: "0 \<le> wat b j" "wat b j \<le> 0x3ffffff"
    using assms by (auto simp: words_ok_def list_all_length zle_diff1_eq [symmetric])
  from a(1) b(1) show "0 \<le> wat a i * wat b j" by (rule mult_nonneg_nonneg)
  from a b show "wat a i * wat b j \<le> 0x3ffffff * 0x3ffffff" by (intro mult_mono) simp_all
qed

lemma mul_range_length: "m + n < 63 \<Longrightarrow> length (mul_range m n k) \<le> 31" "length (mul_range m n k) \<le> m + n"
  "length (mul_range 10 10 k) \<le> 10"
  by (auto simp: mul_range_def)

lemma small_column:
  assumes "words_ok a" "words_ok b" "word26 rword" "0 \<le> ncarry" "small_column a b k js rword ncarry = (rword', ncarry')"
  shows "word26 rword' \<and> ncarry \<le> ncarry' \<and> ncarry' \<le> ncarry + int (length js) * 0x3ffffff \<and>
    rword' + 0x4000000 * ncarry' = rword + 0x4000000 * ncarry + sum_list (map (\<lambda>j. wat a (k - j) * wat b j) js)"
  using assms(3-5)
proof (induction js arbitrary: rword ncarry)
  case (Cons j js)
  define r where "r = wat a (k - j) * wat b j + rword"
  note p = word_product [OF assms(1,2), of "k - j" j]
  have r: "0 \<le> r" "r \<le> 0x3ffffff * 0x3ffffff + 0x3ffffff" using p Cons.prems(1) by (simp_all add: r_def)
  then have q: "quo26 r = r div 0x4000000" by (simp add: quo26)
  have d: "0 \<le> r div 0x4000000" "r div 0x4000000 \<le> 0x3ffffff"
    using r zdiv_mono1 [of r "0x3ffffff * 0x3ffffff + 0x3ffffff" "0x4000000"] by (simp_all add: pos_imp_zdiv_nonneg_iff)
  have e: "small_column a b k js (r mod 0x4000000) (ncarry + r div 0x4000000) = (rword', ncarry')"
    using Cons.prems(3) by (simp only: small_column.simps Let_def bn_at [OF assms(1)] bn_at [OF assms(2)] r_def [symmetric] and26 q)
  have "0 \<le> ncarry + r div 0x4000000" using Cons.prems(2) d(1) by simp
  from Cons.IH [OF _ this e] d split26 [of r] r_def show ?case by (simp add: algebra_simps)
qed auto

lemma small_loop:
  assumes "words_ok a" "words_ok b" "length a + length b < 63" "0 \<le> c" "c \<le> 31 * 0x4000000"
  shows "small_loop a b [k..<k + n] c = col_words (conv a b) k n c"
  using assms(4,5)
proof (induction n arbitrary: k c)
  case 0
  then show ?case by (simp add: toInt32_id)
next
  case (Suc n)
  let ?js = "mul_range (length a) (length b) k"
  obtain rword ncarry where e: "small_column a b k ?js (c mod 0x4000000) (c div 0x4000000) = (rword, ncarry)" by force
  have cd: "0 \<le> c div 0x4000000" "c div 0x4000000 \<le> 31"
    using Suc.prems zdiv_mono1 [of c "31 * 0x4000000" "0x4000000"] by (simp_all add: pos_imp_zdiv_nonneg_iff)
  from small_column [OF assms(1,2) _ cd(1) e] have s: "word26 rword" "0 \<le> ncarry" "ncarry \<le> c div 0x4000000 + int (length ?js) * 0x3ffffff"
    "rword + 0x4000000 * ncarry = c + conv a b k"
    using cd(1) split26 [of c] by (auto simp: conv_list)
  have "int (length ?js) * 0x3ffffff \<le> 31 * 0x3ffffff" using mul_range_length(1) [OF assms(3), of k] by (intro mult_right_mono) simp_all
  then have n: "ncarry \<le> 31 * 0x4000000" using s(3) cd(2) by linarith
  have v: "rword = (c + conv a b k) mod 0x4000000" "ncarry = (c + conv a b k) div 0x4000000"
    using s(1) unfolding s(4) [symmetric] by simp_all
  have t: "toInt32 rword = rword" "toInt32 ncarry = ncarry" using s(1,2) n by (simp_all add: toInt32_id)
  have c: "shr26 c = c div 0x4000000" using Suc.prems by (simp add: shr26)
  have "[k..<k + Suc n] = k # [Suc k..<Suc k + n]" by (simp add: upt_conv_Cons)
  then have "small_loop a b [k..<k + Suc n] c = rword # small_loop a b [Suc k..<Suc k + n] ncarry"
    by (simp only: small_loop.simps and26 c e Let_def prod.case t)
  then show ?case using Suc.IH [OF s(2) n, of "Suc k"] v by simp
qed

lemma smallMulTo:
  assumes "bn_ok x" "bn_ok y" "length (bn_words x) + length (bn_words y) < 63"
  shows "bn_ok (smallMulTo x y) \<and> bn_val (smallMulTo x y) = bn_val x * bn_val y"
proof -
  let ?a = "bn_words x" and ?b = "bn_words y" and ?n = "length (bn_words x) + length (bn_words y) - 1"
  note a = bn_okD [OF assms(1)] and b = bn_okD [OF assms(2)]
  have l: "0 < length ?a" "0 < length ?b" using a(2) b(2) by simp_all
  define r where "r = bn_at ?a 0 * bn_at ?b 0"
  have r: "r = conv ?a ?b 0" by (simp add: r_def bn_at a(1) b(1) conv_def)
  have p: "0 \<le> r" "r \<le> 0x3ffffff * 0x3ffffff" using word_product [OF a(1) b(1), of 0 0] by (simp_all add: r_def bn_at a(1) b(1))
  have q: "quo26 r = r div 0x4000000" "0 \<le> r div 0x4000000" "r div 0x4000000 \<le> 31 * 0x4000000"
    using p zdiv_mono1 [of r "0x3ffffff * 0x3ffffff" "0x4000000"] by (simp_all add: quo26 pos_imp_zdiv_nonneg_iff)
  have "?n = Suc (?n - 1)" using l by linarith
  then obtain m where m: "?n = Suc m" ..
  have "small_loop ?a ?b [1..<?n] (r div 0x4000000) = col_words (conv ?a ?b) 1 m (r div 0x4000000)"
    using small_loop [OF a(1) b(1) assms(3) q(2,3), of 1 m] m by simp
  moreover have "col_words (conv ?a ?b) 0 ?n 0 = r mod 0x4000000 # col_words (conv ?a ?b) 1 m (r div 0x4000000)"
    unfolding m by (simp add: r)
  ultimately have w: "and26 r # small_loop ?a ?b [1..<?n] (quo26 r) = col_words (conv ?a ?b) 0 ?n 0"
    by (simp only: and26 q(1))
  note c = bn_product [OF assms(1,2) refl]
  let ?z = "\<lparr>bn_negative = (bn_negative y \<noteq> bn_negative x), bn_words = col_words (conv ?a ?b) 0 ?n 0\<rparr>"
  have "smallMulTo x y = bn_strip ?z" by (simp only: smallMulTo_def Let_def r_def [symmetric] w)
  moreover have "bn_val ?z = bn_val x * bn_val y" using c(3) by (simp add: bn_val_def)
  ultimately show ?thesis using bn_strip [of ?z] c(1,2) by simp
qed
lemma big_step:
  fixes lo :: int
  assumes "lo = r0 + rword" "r = 0x4000000 * q + r0" "lo = 0x4000000 * lq + lr" "nc = ncarry + q + lq" "nc = 0x4000000 * nq + nr"
  shows "lr + 0x4000000 * (nr + 0x4000000 * (h + nq)) = rword + 0x4000000 * (ncarry + 0x4000000 * h) + r"
proof -
  have "lr = r0 + rword - 0x4000000 * lq" "nr = ncarry + q + lq - 0x4000000 * nq" using assms by simp_all
  then show ?thesis by (simp add: assms(2) algebra_simps)
qed

lemma digit26:
  assumes "word26 w"
  shows "(w + 0x4000000 * c) mod 0x4000000 = w" "(w + 0x4000000 * c) div 0x4000000 = c"
  using assms by simp_all

lemma scale_less:
  fixes X :: int
  assumes "0 \<le> w" "w + 0x4000000 * X < 0x4000000 * P"
  shows "X < P"
proof -
  have "0x4000000 * X \<le> w + 0x4000000 * X" using assms(1) by simp
  also note assms(2)
  finally have "0x4000000 * X < 0x4000000 * P" .
  then show ?thesis by simp
qed

lemma big_column:
  assumes "words_ok a" "words_ok b" "word26 rword" "word26 ncarry" "0 \<le> h" "h + int (length js) < 0x4000000"
    and "big_column a b k js rword ncarry h = (rword', ncarry', h')"
  shows "word26 rword' \<and> word26 ncarry' \<and> h \<le> h' \<and> h' \<le> h + int (length js) \<and>
    rword' + 0x4000000 * (ncarry' + 0x4000000 * h') =
      rword + 0x4000000 * (ncarry + 0x4000000 * h) + sum_list (map (\<lambda>j. wat a (k - j) * wat b j) js)"
  using assms(3-7)
proof (induction js arbitrary: rword ncarry h)
  case (Cons j js)
  define r where "r = wat a (k - j) * wat b j"
  note p = word_product [OF assms(1,2), of "k - j" j, folded r_def]
  define lo where "lo = r mod 0x4000000 + rword"
  define nc where "nc = ncarry + r div 0x4000000 + lo div 0x4000000"
  have d: "0 \<le> r div 0x4000000" "r div 0x4000000 < 0x4000000"
    using p zdiv_mono1 [of r "0x3ffffff * 0x3ffffff" "0x4000000"] by (simp_all add: pos_imp_zdiv_nonneg_iff)
  have "0 \<le> r mod 0x4000000" "r mod 0x4000000 < 0x4000000" by simp_all
  then have lo: "0 \<le> lo" "lo < 2 * 0x4000000" using Cons.prems(1) unfolding lo_def by linarith+
  have ld: "0 \<le> lo div 0x4000000" "lo div 0x4000000 \<le> 1" using lo zdiv_less [of "0x4000000" lo 2] by (simp_all add: pos_imp_zdiv_nonneg_iff)
  have nc: "0 \<le> nc" "nc < 2 * 0x4000000" using Cons.prems(2) d ld by (simp_all add: nc_def)
  have nd: "0 \<le> nc div 0x4000000" "nc div 0x4000000 \<le> 1" using nc zdiv_less [of "0x4000000" nc 2] by (simp_all add: pos_imp_zdiv_nonneg_iff)
  have t: "toInt32 (ncarry + quo26 r) = ncarry + r div 0x4000000" "toInt32 lo = lo" "shr26 lo = lo div 0x4000000"
    "toInt32 nc = nc" "shr26 nc = nc div 0x4000000"
    using p d lo nc Cons.prems(2) by (simp_all add: quo26 toInt32_id shr26)
  have e: "big_column a b k js (lo mod 0x4000000) (nc mod 0x4000000) (h + nc div 0x4000000) = (rword', ncarry', h')"
    using Cons.prems(5)
    by (simp only: big_column.simps Let_def bn_at [OF assms(1)] bn_at [OF assms(2)] r_def [symmetric] and26 t lo_def [symmetric] nc_def [symmetric])
  have "0 \<le> h + nc div 0x4000000" "h + nc div 0x4000000 + int (length js) < 0x4000000" using Cons.prems(3,4) nd by simp_all
  from Cons.IH [OF _ _ this e] have IH: "word26 rword' \<and> word26 ncarry' \<and> h + nc div 0x4000000 \<le> h' \<and>
      h' \<le> h + nc div 0x4000000 + int (length js) \<and>
      rword' + 0x4000000 * (ncarry' + 0x4000000 * h') =
        lo mod 0x4000000 + 0x4000000 * (nc mod 0x4000000 + 0x4000000 * (h + nc div 0x4000000)) +
        sum_list (map (\<lambda>j. wat a (k - j) * wat b j) js)" by simp
  moreover have "lo mod 0x4000000 + 0x4000000 * (nc mod 0x4000000 + 0x4000000 * (h + nc div 0x4000000)) =
      rword + 0x4000000 * (ncarry + 0x4000000 * h) + r"
    by (rule big_step [OF lo_def split26 [symmetric] split26 [symmetric] nc_def split26 [symmetric]])
  ultimately show ?case using nd by (simp add: r_def [symmetric])
qed auto

lemma big_loop:
  assumes "words_ok a" "words_ok b" "length a + length b < 0x1000000" "word26 c" "0 \<le> h" "h \<le> int (length a + length b)"
    and "c + 0x4000000 * h + (\<Sum>i<n. conv a b (k + i) * 0x4000000 ^ i) < 0x4000000 ^ Suc n"
  shows "big_loop a b [k..<k + n] c h = col_words (conv a b) k n (c + 0x4000000 * h)"
  using assms(4-7)
proof (induction n arbitrary: k c h)
  case 0
  then have "h = 0" by simp
  then show ?case by simp
next
  case (Suc n)
  let ?js = "mul_range (length a) (length b) k" and ?C = "c + 0x4000000 * h"
  obtain rword ncarry h' where e: "big_column a b k ?js c h 0 = (rword, ncarry, h')" by (metis prod_cases3)
  have js: "int (length ?js) \<le> int (length a + length b)" using mul_range_length(2) by (simp only: of_nat_le_iff)
  from big_column [OF assms(1,2) Suc.prems(1) _ _ _ e] have s: "word26 rword" "word26 ncarry" "0 \<le> h'" "h' \<le> int (length ?js)"
    "rword + 0x4000000 * (ncarry + 0x4000000 * h') = ?C + conv a b k"
    using Suc.prems js assms(3) by (simp_all add: conv_list)
  have v: "rword = (?C + conv a b k) mod 0x4000000" "ncarry + 0x4000000 * h' = (?C + conv a b k) div 0x4000000"
    unfolding s(5) [symmetric] by (rule digit26 [OF s(1), symmetric])+
  have "(\<Sum>i<Suc n. conv a b (k + i) * 0x4000000 ^ i) = conv a b k + 0x4000000 * (\<Sum>i<n. conv a b (Suc k + i) * 0x4000000 ^ i)"
    by (subst sum.lessThan_Suc_shift) (simp add: sum_distrib_left mult.left_commute)
  then have "rword + 0x4000000 * (ncarry + 0x4000000 * h' + (\<Sum>i<n. conv a b (Suc k + i) * 0x4000000 ^ i)) < 0x4000000 * 0x4000000 ^ Suc n"
    using Suc.prems(4) s(5) by simp
  then have lt: "ncarry + 0x4000000 * h' + (\<Sum>i<n. conv a b (Suc k + i) * 0x4000000 ^ i) < 0x4000000 ^ Suc n"
    by (rule scale_less [OF conjunct1 [OF s(1)]])
  have "h' \<le> int (length a + length b)" using s(4) js by linarith
  note IH = Suc.IH [OF s(2,3) this lt]
  have c: "and26 c = c" using Suc.prems(1) by (simp add: and26)
  have "[k..<k + Suc n] = k # [Suc k..<Suc k + n]" by (simp add: upt_conv_Cons)
  then have "big_loop a b [k..<k + Suc n] c h = rword # big_loop a b [Suc k..<Suc k + n] ncarry h'"
    by (simp only: big_loop.simps c e Let_def prod.case)
  then show ?case unfolding IH using v by simp
qed

lemma product_bound:
  assumes "bn_ok x" "bn_ok y" "n = length (bn_words x) + length (bn_words y) - 1"
  shows "(\<Sum>i<n. conv (bn_words x) (bn_words y) i * 0x4000000 ^ i) < 0x4000000 ^ Suc n"
proof -
  note a = bn_okD [OF assms(1)] and b = bn_okD [OF assms(2)]
  have n: "length (bn_words x) + length (bn_words y) = Suc n" using assms(3) a(2) b(2) by (cases "bn_words x") auto
  have "lval (bn_words x) * lval (bn_words y) < 0x4000000 ^ length (bn_words x) * 0x4000000 ^ length (bn_words y)"
    by (rule mult_strict_mono) (use lval_less [OF a(1)] lval_less [OF b(1)] a(4) b(4) in auto)
  then show ?thesis using conv_sum [of "bn_words x" "bn_words y" n] n by (simp only: power_add [symmetric])
qed

lemma bigMulTo:
  assumes "bn_ok x" "bn_ok y" "length (bn_words x) + length (bn_words y) < 0x1000000"
  shows "bn_ok (bigMulTo x y) \<and> bn_val (bigMulTo x y) = bn_val x * bn_val y"
proof -
  let ?a = "bn_words x" and ?b = "bn_words y" and ?n = "length (bn_words x) + length (bn_words y) - 1"
  note c = bn_product [OF assms(1,2) refl]
  let ?z = "\<lparr>bn_negative = (bn_negative y \<noteq> bn_negative x), bn_words = col_words (conv ?a ?b) 0 ?n 0\<rparr>"
  have "big_loop ?a ?b [0..<?n] 0 0 = col_words (conv ?a ?b) 0 ?n 0"
    using big_loop [OF bn_okD(1) [OF assms(1)] bn_okD(1) [OF assms(2)] assms(3), where c = 0 and h = 0 and k = 0 and n = ?n] product_bound [OF assms(1,2) refl] by simp
  then have "bigMulTo x y = bn_strip ?z" by (simp add: bigMulTo_def Let_def)
  moreover have "bn_val ?z = bn_val x * bn_val y" using c(3) by (simp add: bn_val_def)
  ultimately show ?thesis using bn_strip [of ?z] c(1,2) by simp
qed
lemma half_words:
  assumes "word26 w"
  shows "w AND 0x1fff = w mod 0x2000" "drop_bit 13 w = w div 0x2000"
    "0 \<le> w mod 0x2000" "w mod 0x2000 \<le> 0x1fff" "0 \<le> w div 0x2000" "w div 0x2000 \<le> 0x1fff" "w mod 0x2000 + 0x2000 * (w div 0x2000) = w"
proof -
  show "w AND 0x1fff = w mod 0x2000"
    using take_bit_eq_mask [of 13 w] by (simp add: take_bit_eq_mod mask_eq_exp_minus_1)
  show "w mod 0x2000 + 0x2000 * (w div 0x2000) = w" by simp
  show "0 \<le> w mod 0x2000" "w mod 0x2000 \<le> 0x1fff" using pos_mod_bound [of "0x2000" w] by simp_all
  show "drop_bit 13 w = w div 0x2000" by (simp add: drop_bit_eq_div)
  show "0 \<le> w div 0x2000" "w div 0x2000 \<le> 0x1fff"
    using assms zdiv_less [of "0x2000" w "0x2000"] by (simp_all add: pos_imp_zdiv_nonneg_iff)
qed

lemma half_product:
  fixes x y :: int
  assumes "0 \<le> x" "x \<le> 0x1fff" "0 \<le> y" "y \<le> 0x1fff"
  shows "imul x y = x * y" "0 \<le> x * y" "x * y \<le> 0x3ffffff"
proof -
  show p: "0 \<le> x * y" using assms by simp
  have "x * y \<le> 0x1fff * 0x1fff" using assms by (intro mult_mono) simp_all
  then show q: "x * y \<le> 0x3ffffff" by simp
  show "imul x y = x * y" using p q by (simp add: imul_def toInt32_id)
qed

lemma comb_column:
  assumes "words_ok a" "words_ok b" "0 \<le> lo" "0 \<le> mid" "0 \<le> hi"
    and "lo \<le> int m * 0x3ffffff" "mid \<le> 2 * int m * 0x3ffffff" "hi \<le> int m * 0x3ffffff" "m + length js \<le> 10"
    and "comb_column a b k js lo mid hi = (lo', mid', hi')"
  shows "0 \<le> lo' \<and> 0 \<le> mid' \<and> 0 \<le> hi' \<and> lo' \<le> 10 * 0x3ffffff \<and> mid' \<le> 20 * 0x3ffffff \<and> hi' \<le> 10 * 0x3ffffff \<and>
    lo' + 0x2000 * mid' + 0x4000000 * hi' = lo + 0x2000 * mid + 0x4000000 * hi + sum_list (map (\<lambda>j. wat a (k - j) * wat b j) js)"
  using assms(3-10)
proof (induction js arbitrary: lo mid hi m)
  case Nil
  then have "int m \<le> 10" by simp
  then show ?case using Nil by auto
next
  case (Cons j js)
  define x y where "x = wat a (k - j)" and "y = wat b j"
  have w: "word26 x" "word26 y" using assms(1,2) by (auto simp: x_def y_def words_ok_def list_all_length)
  note hx = half_words [OF w(1)] and hy = half_words [OF w(2)]
  define ll lh hl hh where "ll = (x mod 0x2000) * (y mod 0x2000)" and "lh = (x mod 0x2000) * (y div 0x2000)"
    and "hl = (x div 0x2000) * (y mod 0x2000)" and "hh = (x div 0x2000) * (y div 0x2000)"
  note P = half_product [OF hx(3,4) hy(3,4), folded ll_def] half_product [OF hx(3,4) hy(5,6), folded lh_def]
    half_product [OF hx(5,6) hy(3,4), folded hl_def] half_product [OF hx(5,6) hy(5,6), folded hh_def]
  have m: "int m \<le> 9" using Cons.prems(7) by simp
  have t: "toInt32 (lo + ll) = lo + ll" "toInt32 (mid + lh) = mid + lh" "toInt32 (mid + lh + hl) = mid + lh + hl" "toInt32 (hi + hh) = hi + hh"
    using Cons.prems(1-6) P m by (simp_all add: toInt32_id)
  have e: "comb_column a b k js (lo + ll) (mid + lh + hl) (hi + hh) = (lo', mid', hi')"
    using Cons.prems(8)
    by (simp only: comb_column.simps Let_def bn_at [OF assms(1)] bn_at [OF assms(2)] x_def [symmetric] y_def [symmetric] hx(1,2) hy(1,2) P(1,4,7,10) t)
  have "(p + 0x2000 * q) * (r + 0x2000 * s) = p * r + 0x2000 * (p * s + q * r) + 0x4000000 * (q * s)" for p q r s :: int
    by (simp add: algebra_simps)
  from this [of "x mod 0x2000" "x div 0x2000" "y mod 0x2000" "y div 0x2000"]
  have xy: "x * y = ll + 0x2000 * (lh + hl) + 0x4000000 * hh" unfolding hx(7) hy(7) ll_def lh_def hl_def hh_def .
  have "0 \<le> lo + ll" "0 \<le> mid + lh + hl" "0 \<le> hi + hh" "lo + ll \<le> int (Suc m) * 0x3ffffff"
    "mid + lh + hl \<le> 2 * int (Suc m) * 0x3ffffff" "hi + hh \<le> int (Suc m) * 0x3ffffff" "Suc m + length js \<le> 10"
    using Cons.prems(1-7) P by simp_all
  from Cons.IH [OF this e] show ?case using xy by (simp add: x_def [symmetric] y_def [symmetric])
qed

lemma comb_loop:
  assumes "words_ok a" "words_ok b" "length a = 10" "length b = 10" "0 \<le> c" "c \<le> 11 * 0x4000000"
  shows "comb_loop a b [k..<k + n] c = col_words (conv a b) k n c"
  using assms(5,6)
proof (induction n arbitrary: k c)
  case (Suc n)
  let ?js = "mul_range 10 10 k"
  obtain lo mid hi where e: "comb_column a b k ?js 0 0 0 = (lo, mid, hi)" by (metis prod_cases3)
  from comb_column [OF assms(1,2) _ _ _ _ _ _ _ e, of 0] have s: "0 \<le> lo" "0 \<le> mid" "0 \<le> hi" "lo \<le> 10 * 0x3ffffff" "mid \<le> 20 * 0x3ffffff"
    "hi \<le> 10 * 0x3ffffff" "lo + 0x2000 * mid + 0x4000000 * hi = conv a b k"
    using mul_range_length(3) [of k] conv_list [where a = a and b = b and k = k] assms(3,4) by simp_all
  have mm: "0 \<le> mid mod 0x2000" "mid mod 0x2000 \<le> 0x1fff" "0 \<le> mid div 0x2000" "mid div 0x2000 \<le> 20 * 0x2000"
    using s(2,5) pos_mod_bound [of "0x2000" mid] zdiv_mono1 [of mid "20 * 0x3ffffff" "0x2000"] by (simp_all add: pos_imp_zdiv_nonneg_iff)
  define w where "w = c + lo + 0x2000 * (mid mod 0x2000)"
  have w: "0 \<le> w" "w < 22 * 0x4000000" using Suc.prems s mm by (simp_all add: w_def)
  have wd: "0 \<le> w div 0x4000000" "w div 0x4000000 < 22" using w zdiv_less [of "0x4000000" w 22] by (simp_all add: pos_imp_zdiv_nonneg_iff)
  have a13: "mid AND 0x1fff = mid mod 0x2000" using take_bit_eq_mask [of 13 mid] by (simp add: take_bit_eq_mod mask_eq_exp_minus_1)
  have t: "toInt32 (push_bit 13 (mid AND 0x1fff)) = 0x2000 * (mid mod 0x2000)" unfolding a13 using mm
    by (simp add: push_bit_eq_mult toInt32_id)
  have W: "toInt32 (toInt32 (c + lo) + toInt32 (push_bit 13 (mid AND 0x1fff))) = w"
    unfolding t using Suc.prems s w by (simp add: toInt32_id w_def)
  have d13: "drop_bit 13 (mid mod 0x100000000) = mid div 0x2000" using s(2,5) by (simp add: drop_bit_eq_div)
  have c': "toInt32 (toInt32 (hi + drop_bit 13 (mid mod 0x100000000)) + shr26 w) = hi + mid div 0x2000 + w div 0x4000000"
    unfolding d13 using s mm wd w by (simp add: toInt32_id shr26)
  have "0x2000 * (p + 0x2000 * q) = 0x2000 * p + 0x4000000 * q" for p q :: int by simp
  from this [of "mid mod 0x2000" "mid div 0x2000"] have "0x2000 * mid = 0x2000 * (mid mod 0x2000) + 0x4000000 * (mid div 0x2000)"
    unfolding mod_mult_div_eq .
  then have V: "c + conv a b k = w + 0x4000000 * (hi + mid div 0x2000)"
    unfolding s(7) [symmetric] w_def distrib_left by linarith
  then have v: "(c + conv a b k) mod 0x4000000 = w mod 0x4000000" "(c + conv a b k) div 0x4000000 = hi + mid div 0x2000 + w div 0x4000000"
    unfolding V by (simp_all only: mod_mult_self2 div_mult_self2 zero_neq_numeral not_False_eq_True)
  have "[k..<k + Suc n] = k # [Suc k..<Suc k + n]" by (simp add: upt_conv_Cons)
  then have "comb_loop a b [k..<k + Suc n] c = w mod 0x4000000 # comb_loop a b [Suc k..<Suc k + n] (hi + mid div 0x2000 + w div 0x4000000)"
    by (simp only: comb_loop.simps e Let_def prod.case W c' and26)
  moreover have "0 \<le> hi + mid div 0x2000 + w div 0x4000000" "hi + mid div 0x2000 + w div 0x4000000 \<le> 11 * 0x4000000"
    using s mm wd by simp_all
  ultimately show ?case using Suc.IH [of "hi + mid div 0x2000 + w div 0x4000000" "Suc k"] v by simp
qed simp

lemma comb10MulTo:
  assumes "bn_ok x" "bn_ok y" "length (bn_words x) = 10" "length (bn_words y) = 10"
  shows "bn_ok (comb10MulTo x y) \<and> bn_val (comb10MulTo x y) = bn_val x * bn_val y"
proof -
  let ?a = "bn_words x" and ?b = "bn_words y"
  let ?p = "col_words (conv ?a ?b) 0 19 0"
  note a = bn_okD [OF assms(1)] and b = bn_okD [OF assms(2)]
  have c: "words_ok ?p" "?p \<noteq> []" "lval ?p = lval ?a * lval ?b" using bn_product [OF assms(1,2), of 19] assms(3,4) by simp_all
  have w: "comb_loop ?a ?b [0..<19] 0 = ?p" using comb_loop [OF a(1) b(1) assms(3,4), of 0 0 19] by simp
  have "(0x4000000 :: int) ^ 9 \<le> lval ?a" "(0x4000000 :: int) ^ 9 \<le> lval ?b"
    using last_lower [OF a(1,2) a(3)] last_lower [OF b(1,2) b(3)] assms(3,4) by simp_all
  then have "(0x4000000 :: int) ^ 9 * 0x4000000 ^ 9 \<le> lval ?p" unfolding c(3) by (rule mult_mono) (use a(4) in auto)
  then have big: "(0x4000000 :: int) ^ 18 \<le> lval ?p" by simp
  have top: "last ?p \<noteq> 0"
  proof (cases "length ?p = 19")
    case True
    then show ?thesis using last_nonzero [OF c(1,2)] big by simp
  next
    case False
    then show ?thesis using col_words_last [of "conv ?a ?b" 0 19 0] by blast
  qed
  moreover have "?p \<noteq> [0]" using top by auto
  ultimately show ?thesis using c by (simp add: comb10MulTo_def w bn_ok_def bn_val_def)
qed

lemma bn_mul:
  assumes "bn_ok x" "bn_ok y" "length (bn_words x) + length (bn_words y) < 1024"
  shows "bn_ok (bn_mul jumbo x y) \<and> bn_val (bn_mul jumbo x y) = bn_val x * bn_val y"
  using comb10MulTo [OF assms(1,2)] smallMulTo [OF assms(1,2)] bigMulTo [OF assms(1,2)] assms(3) by (auto simp: bn_mul_def Let_def)

text \<open>The loop of \<open>imuln\<close>.\<close>

lemma muln_loop:
  assumes "words_ok xs" "0 \<le> num" "num < 0x4000000" "0 \<le> c" "c < 0x4000000"
  shows "words_ok (muln_loop num xs c) \<and> lval (muln_loop num xs c) = lval xs * num + c"
  using assms(1,4,5)
proof (induction xs arbitrary: c)
  case (Cons x xs)
  define w where "w = x * num"
  have x: "word26 x" using Cons.prems by simp
  have "x * num \<le> 0x3ffffff * 0x3ffffff" using x assms(2,3) by (intro mult_mono) simp_all
  then have w: "0 \<le> w" "w \<le> 0x3ffffff * 0x3ffffff" using x assms(2) by (simp_all add: w_def)
  define lo where "lo = w mod 0x4000000 + c"
  have "0 \<le> w mod 0x4000000" "w mod 0x4000000 < 0x4000000" by simp_all
  then have lo: "0 \<le> lo" "lo < 2 * 0x4000000" using Cons.prems(2,3) unfolding lo_def by linarith+
  have d: "0 \<le> w div 0x4000000" "w div 0x4000000 \<le> 0x3fffffe" "0 \<le> lo div 0x4000000" "lo div 0x4000000 \<le> 1"
    using w lo zdiv_mono1 [of w "0x3ffffff * 0x3ffffff" "0x4000000"] zdiv_less [of "0x4000000" lo 2] by (simp_all add: pos_imp_zdiv_nonneg_iff)
  have t: "toInt32 x = x" "and26 c = c" "sar26 c = 0" "quo26 w = w div 0x4000000" "shr26 lo = lo div 0x4000000"
    using x Cons.prems(2,3) w lo by (simp_all add: toInt32_id and26 sar26 quo26 shr26)
  have e: "muln_loop num (x # xs) c = lo mod 0x4000000 # muln_loop num xs (w div 0x4000000 + lo div 0x4000000)"
    by (simp only: muln_loop.simps Let_def t w_def [symmetric] and26 [of w] and26 [of lo] lo_def [symmetric] add_0)
  have "words_ok xs" "0 \<le> w div 0x4000000 + lo div 0x4000000" "w div 0x4000000 + lo div 0x4000000 < 0x4000000"
    using Cons.prems(1) d by simp_all
  from Cons.IH [OF this] have IH: "words_ok (muln_loop num xs (w div 0x4000000 + lo div 0x4000000))"
    "lval (muln_loop num xs (w div 0x4000000 + lo div 0x4000000)) = lval xs * num + (w div 0x4000000 + lo div 0x4000000)" by simp_all
  have v: "lo mod 0x4000000 + 0x4000000 * (lval xs * num + (w div 0x4000000 + lo div 0x4000000)) = w + c + 0x4000000 * (lval xs * num)"
    using split26 [of w] split26 [of lo] lo_def by (simp add: algebra_simps)
  show ?case unfolding e using IH v w_def by (simp add: algebra_simps)
qed simp

section \<open>Operations with plain numbers\<close>

lemma bn_initNumber:
  assumes "\<bar>number\<bar> < 0x20000000000000"
  shows "\<exists>r. bn_initNumber number = Inr r \<and> bn_ok r \<and> bn_val r = number"
proof -
  define n where "n = \<bar>number\<bar>"
  have n: "0 \<le> n" "n < 0x20000000000000" using assms by (simp_all add: n_def)
  have e: "bn_initNumber number =
      (if n < 0x4000000 then Inr \<lparr>bn_negative = number < 0, bn_words = [n mod 0x4000000]\<rparr>
       else if n < 0x10000000000000 then Inr \<lparr>bn_negative = number < 0, bn_words = [n mod 0x4000000, n div 0x4000000 mod 0x4000000]\<rparr>
       else Inr \<lparr>bn_negative = number < 0, bn_words = [n mod 0x4000000, n div 0x4000000 mod 0x4000000, 1]\<rparr>)"
    using n by (simp add: bn_initNumber_def and26 abs_if Let_def n_def)
  define q where "q = n div 0x4000000"
  have v: "n = n mod 0x4000000 + 0x4000000 * q" by (simp add: q_def)
  have s: "number = (if number < 0 then - n else n)" by (simp add: n_def)
  consider "n < 0x4000000" | "0x4000000 \<le> n" "n < 0x10000000000000" | "0x10000000000000 \<le> n" by linarith
  then show ?thesis
  proof cases
    case 1
    then show ?thesis using e n s by (auto simp: bn_ok_def bn_val_def)
  next
    case 2
    then have "0 < q" "q < 0x4000000" using zdiv_less [of "0x4000000" n "0x4000000"] by (simp_all add: q_def pos_imp_zdiv_pos_iff)
    then show ?thesis using e 2 s v by (auto simp: bn_ok_def bn_val_def q_def [symmetric])
  next
    case 3
    then have "q div 0x4000000 = 1" using n by (simp add: q_def zdiv_zmult2_eq [symmetric])
    then have "q = q mod 0x4000000 + 0x4000000" using split26 [of q] by simp
    then show ?thesis using e 3 s v by (auto simp: bn_ok_def bn_val_def q_def [symmetric])
  qed
qed

lemma iaddn_loop:
  assumes "0 \<le> w" "w < 2 * 0x4000000" "words_ok ws"
  shows "words_ok (iaddn_loop (w # ws)) \<and> lval (iaddn_loop (w # ws)) = w + 0x4000000 * lval ws \<and> iaddn_loop (w # ws) \<noteq> [] \<and>
    (length (iaddn_loop (w # ws)) = Suc (length ws) \<and> (ws \<noteq> [] \<and> last ws \<noteq> 0 \<longrightarrow> last (iaddn_loop (w # ws)) \<noteq> 0) \<or>
     last (iaddn_loop (w # ws)) = 1)"
  using assms
proof (induction ws arbitrary: w)
  case (Cons x ws)
  show ?case
  proof (cases "w \<ge> 0x4000000")
    case True
    have IH: "words_ok (iaddn_loop ((x + 1) # ws)) \<and> lval (iaddn_loop ((x + 1) # ws)) = x + 1 + 0x4000000 * lval ws \<and> iaddn_loop ((x + 1) # ws) \<noteq> [] \<and>
      (length (iaddn_loop ((x + 1) # ws)) = Suc (length ws) \<and> (ws \<noteq> [] \<and> last ws \<noteq> 0 \<longrightarrow> last (iaddn_loop ((x + 1) # ws)) \<noteq> 0) \<or>
       last (iaddn_loop ((x + 1) # ws)) = 1)"
      using Cons.IH [of "x + 1"] Cons.prems(3) by simp
    moreover have "last (iaddn_loop [x + 1]) \<noteq> 0" using Cons.prems(3) by simp
    ultimately show ?thesis using True Cons.prems by (cases ws) auto
  next
    case False
    then show ?thesis using Cons.prems by auto
  qed
qed auto

lemma bn_iaddn_words:
  assumes "bn_ok a" "\<not> bn_negative a" "0 \<le> num" "num < 0x4000000"
  shows "bn_ok (bn_iaddn_words a num)" "bn_val (bn_iaddn_words a num) = bn_val a + num"
proof -
  obtain w ws where ws: "bn_words a = w # ws" using bn_okD(2) [OF assms(1)] by (cases "bn_words a") auto
  have "word26 w" "words_ok ws" "ws \<noteq> [] \<longrightarrow> last ws \<noteq> 0" using bn_okD(1,3) [OF assms(1)] ws by (auto split: if_splits)
  then have "words_ok (iaddn_loop ((w + num) # ws))" "lval (iaddn_loop ((w + num) # ws)) = w + num + 0x4000000 * lval ws"
    "iaddn_loop ((w + num) # ws) \<noteq> []" "1 < length (iaddn_loop ((w + num) # ws)) \<longrightarrow> last (iaddn_loop ((w + num) # ws)) \<noteq> 0"
    using iaddn_loop [of "w + num" ws] assms(3,4) by auto
  then show "bn_ok (bn_iaddn_words a num)" "bn_val (bn_iaddn_words a num) = bn_val a + num"
    using assms(2) by (simp_all add: bn_iaddn_words_def ws bn_ok_def bn_val_def)
qed

lemma isubn_loop:
  assumes "- 0x4000000 \<le> w" "w < 0x4000000" "words_ok ws" "0 \<le> w + 0x4000000 * lval ws"
  shows "words_ok (isubn_loop (w # ws)) \<and> lval (isubn_loop (w # ws)) = w + 0x4000000 * lval ws \<and> isubn_loop (w # ws) \<noteq> []"
  using assms
proof (induction ws arbitrary: w)
  case (Cons x ws)
  show ?case
  proof (cases "w < 0")
    case True
    have "0 \<le> x - 1 + 0x4000000 * lval ws" using Cons.prems(4) True by simp
    then show ?thesis using True Cons.IH [of "x - 1"] Cons.prems by auto
  qed (use Cons.prems in auto)
qed simp

lemma bn_isubn_pos:
  assumes "bn_ok a" "\<not> bn_negative a" "0 \<le> num" "num < 0x4000000"
  shows "bn_ok (bn_isubn_pos a num)" "bn_val (bn_isubn_pos a num) = bn_val a - num"
proof -
  obtain w ws where ws: "bn_words a = w # ws" using bn_okD(2) [OF assms(1)] by (cases "bn_words a") auto
  have w: "word26 w" "words_ok ws" using bn_okD(1) [OF assms(1)] ws by auto
  have v: "bn_val a = w + 0x4000000 * lval ws" using assms(2) ws by (simp add: bn_val_def)
  let ?x = "a\<lparr>bn_words := [num - w], bn_negative := True\<rparr>" and ?y = "a\<lparr>bn_words := isubn_loop ((w - num) # ws)\<rparr>"
  have "bn_ok (bn_isubn_pos a num) \<and> bn_val (bn_isubn_pos a num) = bn_val a - num"
  proof (cases "ws = [] \<and> w - num < 0")
    case True
    then have "words_ok (bn_words ?x)" "bn_words ?x \<noteq> []" "bn_val ?x = bn_val a - num" using w v assms(3,4) by (simp_all add: bn_val_def)
    then show ?thesis
      using True bn_strip [of ?x] by (simp_all add: bn_isubn_pos_def ws)
  next
    case False
    have "0 < lval ws" if "ws \<noteq> []"
    proof -
      have "0x4000000 ^ (length ws - 1) \<le> lval ws" using last_lower [OF w(2) that] bn_okD(3) [OF assms(1)] ws that by simp
      then show ?thesis using zero_less_power [of "0x4000000 :: int" "length ws - 1"] by linarith
    qed
    then have "0 \<le> w - num + 0x4000000 * lval ws" using False w(1) assms(4) by (cases "ws = []") auto
    then have "words_ok (bn_words ?y)" "bn_words ?y \<noteq> []" "bn_val ?y = bn_val a - num"
      using isubn_loop [of "w - num" ws] w assms(2-4) v by (simp_all add: bn_val_def)
    then show ?thesis
      using False bn_strip [of ?y] by (auto simp add: bn_isubn_pos_def ws)
  qed
  then show "bn_ok (bn_isubn_pos a num)" "bn_val (bn_isubn_pos a num) = bn_val a - num" by blast+
qed

text \<open>
  Subtraction from a number below zero is right.  Addition to one is right in value, but the sum zero of a number below zero
  keeps the sign.
\<close>

abbreviation negative_zero :: bn where
  "negative_zero \<equiv> \<lparr>bn_negative = True, bn_words = [0]\<rparr>"

lemma bn_with_sign:
  assumes "bn_ok a" "\<not> bn_negative a" "0 < bn_val a"
  shows "bn_ok (a\<lparr>bn_negative := True\<rparr>)" "bn_val (a\<lparr>bn_negative := True\<rparr>) = - bn_val a"
  using assms by (auto simp: bn_ok_def bn_val_def)

lemma bn_iaddn_nonneg:
  assumes "bn_ok a" "0 \<le> num" "num < 0x4000000"
  shows "bn_val (bn_iaddn_nonneg a num) = bn_val a + num \<and>
    (if bn_val a < 0 \<and> bn_val a + num = 0 then bn_iaddn_nonneg a num = negative_zero else bn_ok (bn_iaddn_nonneg a num))"
proof (cases "bn_negative a")
  case False
  then show ?thesis using bn_iaddn_words [OF assms(1) False assms(2,3)] bn_neg_iff [OF assms(1)] by (simp add: bn_iaddn_nonneg_def)
next
  case True
  let ?x = "a\<lparr>bn_negative := False\<rparr>"
  note neg = bn_neg_iff [OF assms(1)]
  have x: "bn_ok ?x" "bn_val ?x = - bn_val a" using bn_abs [OF assms(1)] True neg by simp_all
  show ?thesis
  proof (cases "length (bn_words a) = 1 \<and> hd (bn_words a) < num")
    case t: True
    then obtain w where w: "bn_words a = [w]" "w < num" by (auto simp: length_Suc_conv)
    then show ?thesis using True assms bn_okD(1) [OF assms(1)] by (simp add: bn_iaddn_nonneg_def bn_ok_def bn_val_def)
  next
    case f: False
    let ?y = "bn_isubn_pos ?x num"
    have y: "bn_ok ?y" "bn_val ?y = - bn_val a - num" using bn_isubn_pos [OF x(1) _ assms(2,3)] x(2) by simp_all
    have e: "bn_iaddn_nonneg a num = ?y\<lparr>bn_negative := True\<rparr>" using True f by (simp only: bn_iaddn_nonneg_def if_True if_False)
    have ge: "num \<le> - bn_val a"
    proof (cases "length (bn_words a) = 1")
      case one: True
      then show ?thesis using f True by (auto simp: length_Suc_conv bn_val_def)
    next
      case False
      then have l: "1 < length (bn_words a)" using bn_okD(2) [OF assms(1)] by (cases "bn_words a") auto
      have "(0x4000000 :: int) ^ 1 \<le> 0x4000000 ^ (length (bn_words a) - 1)" using l by (intro power_increasing) simp_all
      also have "\<dots> \<le> lval (bn_words a)" using last_lower bn_okD [OF assms(1)] l by blast
      finally show ?thesis using True assms(3) by (simp add: bn_val_def)
    qed
    then have np: "\<not> bn_negative ?y" using bn_neg_iff [OF y(1)] y(2) by simp
    show ?thesis
    proof (cases "bn_val a + num = 0")
      case z: True
      then have "bn_words ?y = [0]" using bn_isZero [OF y(1)] y(2) by (simp add: bn_isZero_def)
      then have "?y\<lparr>bn_negative := True\<rparr> = negative_zero" by simp
      moreover have "bn_val negative_zero = 0" by (simp add: bn_val_def)
      ultimately show ?thesis using e z True neg by simp
    next
      case nz: False
      then show ?thesis using e bn_with_sign [OF y(1) np] y(2) ge by simp
    qed
  qed
qed

lemma bn_isubn_nonneg:
  assumes "bn_ok a" "0 \<le> num" "num < 0x4000000"
  shows "bn_ok (bn_isubn_nonneg a num)" "bn_val (bn_isubn_nonneg a num) = bn_val a - num"
proof -
  have "bn_ok (bn_isubn_nonneg a num) \<and> bn_val (bn_isubn_nonneg a num) = bn_val a - num"
  proof (cases "bn_negative a")
    case True
    let ?x = "a\<lparr>bn_negative := False\<rparr>"
    have x: "bn_ok ?x" "bn_val ?x = - bn_val a" "0 < - bn_val a" using bn_abs [OF assms(1)] True bn_neg_iff [OF assms(1)] by simp_all
    have y: "bn_ok (bn_iaddn_words ?x num)" "bn_val (bn_iaddn_words ?x num) = - bn_val a + num"
      using bn_iaddn_words [OF x(1) _ assms(2,3)] x(2) by simp_all
    then have "\<not> bn_negative (bn_iaddn_words ?x num)" "0 < bn_val (bn_iaddn_words ?x num)" using bn_neg_iff [OF y(1)] x(3) assms(2) by simp_all
    then show ?thesis
      using True bn_with_sign [OF y(1)] y(2) by (simp_all add: bn_isubn_nonneg_def bn_iaddn_nonneg_def)
  next
    case False
    then show ?thesis
      using bn_isubn_pos [OF assms(1) False assms(2,3)] by (simp_all add: bn_isubn_nonneg_def)
  qed
  then show "bn_ok (bn_isubn_nonneg a num)" "bn_val (bn_isubn_nonneg a num) = bn_val a - num" by blast+
qed

lemma bn_iaddn:
  assumes "bn_ok a" "\<bar>num\<bar> < 0x4000000"
  shows "\<exists>r. bn_iaddn a num = Inr r \<and> bn_val r = bn_val a + num \<and> (if bn_val a < 0 \<and> bn_val a + num = 0 then r = negative_zero else bn_ok r)"
  using bn_iaddn_nonneg [OF assms(1), of num] bn_isubn_nonneg [OF assms(1), of "- num"] assms(2)
  by (cases "num < 0") (auto simp: bn_iaddn_def check_def)

lemma bn_isubn:
  assumes "bn_ok a" "\<bar>num\<bar> < 0x4000000"
  shows "\<exists>r. bn_isubn a num = Inr r \<and> bn_val r = bn_val a - num \<and> (if bn_val a < 0 \<and> bn_val a - num = 0 then r = negative_zero else bn_ok r)"
  using bn_iaddn_nonneg [OF assms(1), of "- num"] bn_isubn_nonneg [OF assms(1), of num] assms(2)
  by (cases "num < 0") (auto simp: bn_isubn_def check_def)

text \<open>Multiplication by a number below the base keeps the value; a product with zero keeps its words.\<close>

lemma bn_imuln:
  assumes "bn_ok a" "0 \<le> num" "num < 0x4000000"
  shows "\<exists>r. bn_imuln a num = Inr r \<and> words_ok (bn_words r) \<and> bn_val r = bn_val a * num"
  using muln_loop [OF bn_okD(1) [OF assms(1)] assms(2,3), of 0] assms(3) by (simp add: bn_imuln_def bn_val_def)

end
