(* ===== verification/BNDivProps.thy ===== *)
theory BNDivProps
  imports BNMulProps ModularProps
begin

unbundle bit_operations_syntax

text \<open>
  Long division on words: the subtraction of a shifted multiple, the estimate of a digit from two words of the rest and the
  highest word of a normalised divisor, its correction, the loop over the digits, and division with all signs.
\<close>

section \<open>Subtraction of a shifted multiple\<close>

lemma submul_loop:
  assumes "words_ok xs" "words_ok ys" "length ys \<le> length xs" "0 \<le> m" "m < 0x4000000" "- 0x4000000 \<le> c" "c \<le> 0"
    and "submul_loop m c xs ys = (rs, c')"
  shows "words_ok rs \<and> length rs = length xs \<and> lval rs + 0x4000000 ^ length xs * c' = lval xs - m * lval ys + c"
  using assms(1-3,6-8)
proof (induction xs arbitrary: ys c rs)
  case (Cons x xs)
  have x: "word26 x" using Cons.prems(1) by simp
  define y zs where "y = (case ys of [] \<Rightarrow> 0 | y # zs \<Rightarrow> y)" and "zs = tl ys"
  have ys: "lval ys = y + 0x4000000 * lval zs" "word26 y" "words_ok zs" "length zs \<le> length xs"
    using Cons.prems(2,3) by (cases ys; simp add: y_def zs_def)+
  define right w where "right = y * m" and "w = x + c - right mod 0x4000000"
  have "y * m \<le> 0x3ffffff * 0x3ffffff" using ys(2) assms(4,5) by (intro mult_mono) simp_all
  then have r: "0 \<le> right" "right \<le> 0x3ffffff * 0x3ffffff" using ys(2) assms(4) by (simp_all add: right_def)
  have rd: "0 \<le> right div 0x4000000" "right div 0x4000000 \<le> 0x3fffffe"
    using r zdiv_mono1 [of right "0x3ffffff * 0x3ffffff" "0x4000000"] by (simp_all add: pos_imp_zdiv_nonneg_iff)
  have rm: "0 \<le> right mod 0x4000000" "right mod 0x4000000 < 0x4000000" by simp_all
  have w: "- (2 * 0x4000000) \<le> w" "w < 0x4000000" using x Cons.prems(4,5) rm unfolding w_def by linarith+
  have wd: "- 2 \<le> w div 0x4000000" "w div 0x4000000 \<le> 0"
    using w zdiv_mono1 [of "- (2 * 0x4000000)" w "0x4000000"] zdiv_less [of "0x4000000" w 1] by simp_all
  have t: "toInt32 x = x" "toInt32 y = y" "sar26 w = w div 0x4000000" "quo26 right = right div 0x4000000"
    using x ys(2) w r by (simp_all add: word_int32 sar26 quo26)
  obtain us where us: "submul_loop m (w div 0x4000000 - right div 0x4000000) xs zs = (us, c')" "rs = w mod 0x4000000 # us"
  proof (cases ys)
    case Nil
    then have "right = 0" "zs = []" "w = x + c" by (simp_all add: right_def y_def zs_def w_def)
    then show thesis using that Cons.prems(6) t Nil by (auto simp: Let_def and26 split: prod.splits)
  next
    case (Cons y' zs')
    then have "y' = y" "zs' = zs" by (simp_all add: y_def zs_def)
    then show thesis using that Cons.prems(6) t Cons by (auto simp: Let_def and26 w_def right_def split: prod.splits)
  qed
  have "- 0x4000000 \<le> w div 0x4000000 - right div 0x4000000" "w div 0x4000000 - right div 0x4000000 \<le> 0" using wd rd by linarith+
  note IH = Cons.IH [OF _ ys(3,4) this us(1)]
  have v: "w mod 0x4000000 + 0x4000000 * (w div 0x4000000 - right div 0x4000000) = x + c - y * m"
    using split26 [of w] split26 [of right] unfolding w_def right_def by (simp add: algebra_simps)
  have I: "words_ok us" "length us = length xs"
    "lval us + 0x4000000 ^ length xs * c' = lval xs - m * lval zs + (w div 0x4000000 - right div 0x4000000)"
    using IH Cons.prems(1) by simp_all
  have "lval rs + 0x4000000 ^ length (x # xs) * c' = w mod 0x4000000 + 0x4000000 * (lval us + 0x4000000 ^ length xs * c')"
    by (simp add: us(2) algebra_simps)
  also have "\<dots> = x + c - y * m + 0x4000000 * (lval xs - m * lval zs)" unfolding I(3) using v by (simp add: algebra_simps)
  also have "\<dots> = lval (x # xs) - m * lval ys + c" by (simp add: ys(1) algebra_simps)
  finally show ?case using I(1,2) us(2) by simp
qed auto

lemma negate_loop:
  assumes "words_ok xs" "c = 0 \<or> c = - 1"
  shows "words_ok (negate_loop c xs) \<and> length (negate_loop c xs) = length xs \<and>
    lval (negate_loop c xs) = (c - lval xs) mod 0x4000000 ^ length xs"
  using assms
proof (induction xs arbitrary: c)
  case (Cons x xs)
  define w where "w = - x + c"
  have w: "- 0x4000000 \<le> w" "w < 0x4000000" "toInt32 x = x" using Cons.prems by (auto simp: w_def word_int32)
  note q = borrow [OF w(1,2)]
  have e: "negate_loop c (x # xs) = w mod 0x4000000 # negate_loop (w div 0x4000000) xs" by (simp only: negate_loop.simps Let_def w(3) w_def [symmetric] and26 q(1))
  have IH: "words_ok (negate_loop (w div 0x4000000) xs) \<and> length (negate_loop (w div 0x4000000) xs) = length xs \<and>
      lval (negate_loop (w div 0x4000000) xs) = (w div 0x4000000 + - lval xs) mod 0x4000000 ^ length xs"
    using Cons.IH [of "w div 0x4000000"] Cons.prems(1) q(2) by simp
  have "c - lval (x # xs) = w + 0x4000000 * - lval xs" by (simp add: w_def)
  then have "(c - lval (x # xs)) mod 0x4000000 ^ length (x # xs) =
      w mod 0x4000000 + 0x4000000 * ((w div 0x4000000 + - lval xs) mod 0x4000000 ^ length xs)"
    by (simp only: length_Cons power_Suc mod_split zero_less_power zero_less_numeral)
  then show ?case unfolding e using IH by simp
qed simp

lemma carry_cases:
  fixes P X T c :: int
  assumes "0 < P" "0 \<le> X" "X < P" "X = T - P * c" "- P < T" "T < P"
  shows "c = 0 \<or> c = - 1"
proof -
  have "c < 1"
  proof (rule ccontr)
    assume "\<not> c < 1"
    then have "P * 1 \<le> P * c" using assms(1) by (intro mult_left_mono) simp_all
    then show False using assms(2,4,6) by linarith
  qed
  moreover have "- 2 < c"
  proof (rule ccontr)
    assume "\<not> - 2 < c"
    then have "P * c \<le> P * - 2" using assms(1) by (intro mult_left_mono) simp_all
    then show False using assms(3-5) by linarith
  qed
  ultimately show ?thesis by linarith
qed

lemma bn_ishlnsubmul:
  fixes a b shift m
  defines "L \<equiv> max (length (bn_words a)) (length (bn_words b) + shift)"
    and "T \<equiv> bn_val a - m * bn_val b * 0x4000000 ^ shift"
  assumes "bn_ok a" "0 \<le> bn_val a" "bn_ok b" "0 \<le> bn_val b" "0 \<le> m" "m < 0x4000000" "- (0x4000000 ^ L) < T"
  shows "\<exists>r. bn_ishlnsubmul a b m shift = Inr r \<and> bn_ok r \<and> bn_val r = T"
proof -
  note A = bn_okD [OF assms(3)] and B = bn_okD [OF assms(5)]
  have n: "\<not> bn_negative a" "bn_val a = lval (bn_words a)" "bn_val b = lval (bn_words b)"
    using bn_neg_iff [OF assms(3)] bn_neg_iff [OF assms(5)] assms(4,6) by (auto simp: bn_val_def)
  define ws where "ws = bn_words a @ replicate (length (bn_words b) + shift - length (bn_words a)) 0"
  have ws: "words_ok ws" "lval ws = lval (bn_words a)" "length ws = L" using A(1) by (simp_all add: ws_def lval_append L_def)
  obtain rs carry where rs: "submul_loop m 0 (drop shift ws) (bn_words b) = (rs, carry)" by force
  have dl: "length (bn_words b) \<le> length (drop shift ws)" "shift \<le> length ws" by (simp_all add: ws(3) L_def)
  note wd = words_ok_take_drop [OF ws(1), of shift]
  from submul_loop [OF conjunct2 [OF wd] B(1) dl(1) assms(7,8) _ _ rs]
  have s: "words_ok rs" "length rs = L - shift" "lval rs + 0x4000000 ^ (L - shift) * carry = lval (drop shift ws) - m * lval (bn_words b)"
    by (simp_all add: ws(3))
  define us where "us = take shift ws @ rs"
  have us: "words_ok us" "length us = L" using wd s(1,2) dl(2) by (simp_all add: us_def ws(3))
  have pw: "(0x4000000 :: int) ^ shift * 0x4000000 ^ (L - shift) = 0x4000000 ^ L"
    using dl(2) by (simp add: ws(3) power_add [symmetric])
  have "lval us = lval (take shift ws) + 0x4000000 ^ shift * lval rs" using dl(2) by (simp add: us_def lval_append min_absorb2)
  also have "lval rs = lval (drop shift ws) - m * lval (bn_words b) - 0x4000000 ^ (L - shift) * carry" using s(3) by linarith
  also have "lval (take shift ws) + 0x4000000 ^ shift * (lval (drop shift ws) - m * lval (bn_words b) - 0x4000000 ^ (L - shift) * carry) =
      (lval (take shift ws) + 0x4000000 ^ shift * lval (drop shift ws)) - m * lval (bn_words b) * 0x4000000 ^ shift -
      (0x4000000 ^ shift * 0x4000000 ^ (L - shift)) * carry"
    by (simp add: algebra_simps)
  also have "\<dots> = T - 0x4000000 ^ L * carry"
    unfolding lval_split [OF dl(2), symmetric] ws(2) pw T_def n(2,3) ..
  finally have X: "lval us = T - 0x4000000 ^ L * carry" .
  have b: "0 \<le> lval us" "lval us < 0x4000000 ^ L" using lval_bounds [OF us(1)] us(2) by simp_all
  have ne: "us \<noteq> []" using us(2) A(2) by (auto simp: L_def)
  have "lval (bn_words a) < 0x4000000 ^ length (bn_words a)" by (rule lval_less [OF A(1)])
  also have "(0x4000000 :: int) ^ length (bn_words a) \<le> 0x4000000 ^ L" by (intro power_increasing) (simp_all add: L_def)
  finally have "bn_val a < 0x4000000 ^ L" using n(2) by simp
  moreover have "0 \<le> m * bn_val b * 0x4000000 ^ shift" using assms(6,7) by simp
  ultimately have T: "T < 0x4000000 ^ L" unfolding T_def by linarith
  have carry: "carry = 0 \<or> carry = - 1"
    by (rule carry_cases [OF _ b X assms(9) T]) simp
  have e: "bn_ishlnsubmul a b m shift =
      (if carry = 0 then Inr (bn_strip (a\<lparr>bn_words := us\<rparr>))
       else rbind (check (carry = - 1) (PlainError ''Assertion failed'')) (\<lambda>_.
             Inr (bn_strip (a\<lparr>bn_words := negate_loop 0 us, bn_negative := True\<rparr>))))"
    by (simp only: bn_ishlnsubmul_def Let_def ws_def [symmetric] rs prod.case us_def)
  show ?thesis
  proof (cases "carry = 0")
    case True
    then show ?thesis using e X bn_strip [of "a\<lparr>bn_words := us\<rparr>"] us ne n(1) by (simp add: bn_val_def)
  next
    case False
    then have c: "carry = - 1" using carry by blast
    let ?r = "a\<lparr>bn_words := negate_loop 0 us, bn_negative := True\<rparr>"
    have "lval us \<noteq> 0" using X c assms(9) by auto
    then have "(- lval us) mod 0x4000000 ^ L = 0x4000000 ^ L - lval us" using b by (intro int_mod_pos_eq [of _ _ "- 1"]) simp_all
    moreover have "negate_loop 0 us \<noteq> []" using negate_loop [OF us(1), of 0] ne by auto
    ultimately have "words_ok (bn_words ?r)" "bn_words ?r \<noteq> []" "bn_val ?r = T"
      using negate_loop [OF us(1), of 0] us(2) X c by (simp_all add: bn_val_def)
    then show ?thesis using e False c bn_strip [of ?r] by simp
  qed
qed

section \<open>Long division\<close>

lemma bn_val_pos: "bn_ok a \<Longrightarrow> 0 \<le> bn_val a \<Longrightarrow> bn_val a = lval (bn_words a)"
  using bn_neg_iff [of a] by (auto simp: bn_val_def)

lemma qj_loop:
  assumes "bn_ok b" "0 < bn_val b" "bn_ok a"
  shows "\<exists>a' t. qj_loop b j a qj = Some (Inr (a', qj - t)) \<and> bn_ok a' \<and> 0 \<le> t \<and>
    bn_val a' = bn_val a + t * (bn_val b * 0x4000000 ^ j) \<and> 0 \<le> bn_val a' \<and>
    (bn_val a < 0 \<longrightarrow> bn_val a' < bn_val b * 0x4000000 ^ j) \<and> (0 \<le> bn_val a \<longrightarrow> t = 0)"
  using assms(3)
proof (induction "nat (- bn_val a)" arbitrary: a qj rule: less_induct)
  case less
  let ?S = "bn_val b * 0x4000000 ^ j"
  show ?case
  proof (cases "bn_negative a")
    case False
    then have "0 \<le> bn_val a" using bn_neg_iff [OF less.prems] by simp
    then show ?thesis using False less.prems by (subst qj_loop.simps) (auto intro!: exI [of _ 0])
  next
    case True
    then have neg: "bn_val a < 0" using bn_neg_iff [OF less.prems] by simp
    let ?x = "a\<lparr>bn_negative := False\<rparr>"
    have x: "bn_ok ?x" "bn_val ?x = - bn_val a" using bn_abs [OF less.prems] neg by simp_all
    have S: "0 < ?S" using assms(2) by simp
    let ?L = "max (length (bn_words ?x)) (length (bn_words b) + j)"
    have "?S < 0x4000000 ^ length (bn_words b) * 0x4000000 ^ j"
      using lval_less [OF bn_okD(1) [OF assms(1)]] bn_val_pos [OF assms(1)] assms(2) by simp
    also have "\<dots> \<le> 0x4000000 ^ ?L" unfolding power_add [symmetric] by (intro power_increasing) simp_all
    finally have lt: "- (0x4000000 ^ ?L) < bn_val ?x - 1 * bn_val b * 0x4000000 ^ j" using neg x(2) by simp
    obtain r where r: "bn_ishlnsubmul ?x b 1 j = Inr r" "bn_ok r" "bn_val r = - bn_val a - ?S"
      using bn_ishlnsubmul [OF x(1) _ assms(1) _ _ _ lt] neg x(2) assms(2) by auto
    let ?a = "if bn_isZero r then r else r\<lparr>bn_negative := \<not> bn_negative r\<rparr>"
    have a: "?a = bn_ineg r" by (simp add: bn_ineg_def)
    have a': "bn_ok ?a" "bn_val ?a = bn_val a + ?S" unfolding a using bn_ineg [OF r(2)] r(3) by simp_all
    have q: "qj_loop b j a qj = qj_loop b j ?a (qj - 1)" using True r(1) by (subst qj_loop.simps) simp
    have "nat (- bn_val ?a) < nat (- bn_val a)" using a'(2) S neg by simp
    from less.hyps [OF this a'(1), of "qj - 1"] obtain a'' t where
      h: "qj_loop b j ?a (qj - 1) = Some (Inr (a'', qj - 1 - t))" "bn_ok a''" "0 \<le> t" "bn_val a'' = bn_val ?a + t * ?S" "0 \<le> bn_val a''"
        "bn_val ?a < 0 \<longrightarrow> bn_val a'' < ?S" "0 \<le> bn_val ?a \<longrightarrow> t = 0" by blast
    have "bn_val a'' < ?S"
    proof (cases "bn_val ?a < 0")
      case False
      then have "bn_val a'' = bn_val a + ?S" using h(4,7) a'(2) by simp
      then show ?thesis using neg by simp
    qed (use h(6) in blast)
    moreover have "bn_val a'' = bn_val a + (t + 1) * ?S" using h(4) a'(2) by (simp add: algebra_simps)
    moreover have "qj_loop b j a qj = Some (Inr (a'', qj - (t + 1)))" using q h(1) by (simp add: algebra_simps)
    ultimately show ?thesis using h(2,3,5) neg by (intro exI [of _ a''] exI [of _ "t + 1"]) simp
  qed
qed

text \<open>The two highest words give an estimate that is not too small.\<close>

lemma estimate:
  fixes A b :: int
  assumes "0 \<le> A" "0 < bhi" "bhi * 0x4000000 ^ k \<le> b" "0 \<le> q" "q * (b * 0x4000000 ^ j) \<le> A"
  shows "q \<le> A div 0x4000000 ^ (k + j) div bhi"
proof -
  have "q * bhi * 0x4000000 ^ (k + j) = q * ((bhi * 0x4000000 ^ k) * 0x4000000 ^ j)" by (simp add: power_add)
  also have "\<dots> \<le> q * (b * 0x4000000 ^ j)" using assms(3,4) by (intro mult_left_mono mult_right_mono) simp_all
  also have "\<dots> \<le> A" by (rule assms(5))
  finally have "q * bhi * 0x4000000 ^ (k + j) \<le> A" .
  then have "q * bhi \<le> A div 0x4000000 ^ (k + j)"
    using zdiv_mono1 [of "q * bhi * 0x4000000 ^ (k + j)" A "0x4000000 ^ (k + j)"] by simp
  then show ?thesis using zdiv_mono1 [of "q * bhi" "A div 0x4000000 ^ (k + j)" bhi] assms(2) by simp
qed

lemma top_words:
  assumes "words_ok ws" "length ws \<le> k + 2"
  shows "lval ws div 0x4000000 ^ k = bn_at ws k + 0x4000000 * bn_at ws (Suc k)"
proof (cases "k \<le> length ws")
  case True
  have at: "bn_at ws (k + i) = (if i < length (drop k ws) then drop k ws ! i else 0)" for i
    unfolding bn_at [OF assms(1)] using True by auto
  have "length (drop k ws) \<le> 2" using assms(2) by simp
  then consider "drop k ws = []" | x where "drop k ws = [x]" | x y where "drop k ws = [x, y]"
    by (cases "drop k ws" rule: remdups_adj.cases) simp_all
  then show ?thesis
    unfolding lval_div_mod(1) [OF assms(1) True] using at [of 0] at [of 1] by cases simp_all
next
  case False
  then have "(0x4000000 :: int) ^ length ws \<le> 0x4000000 ^ k" by (intro power_increasing) simp_all
  then have "lval ws < 0x4000000 ^ k" using lval_less [OF assms(1)] by linarith
  then show ?thesis using lval_nonneg [OF assms(1)] False by (simp add: bn_at_def)
qed

lemma length_bound:
  assumes "bn_ok a" "\<bar>bn_val a\<bar> < 0x4000000 ^ n" "0 < n"
  shows "length (bn_words a) \<le> n"
proof (rule ccontr)
  assume l: "\<not> length (bn_words a) \<le> n"
  note A = bn_okD [OF assms(1)]
  have "last (bn_words a) \<noteq> 0" using A(3) l assms(3) by simp
  then have "0x4000000 ^ (length (bn_words a) - 1) \<le> lval (bn_words a)" using last_lower A by blast
  moreover have "(0x4000000 :: int) ^ n \<le> 0x4000000 ^ (length (bn_words a) - 1)" using l by (intro power_increasing) simp_all
  moreover have "\<bar>bn_val a\<bar> = lval (bn_words a)" using A(4) by (simp add: bn_val_def)
  ultimately show False using assms(2) by linarith
qed

lemma last_bounds:
  assumes "words_ok ws" "ws \<noteq> []"
  shows "last ws * 0x4000000 ^ (length ws - 1) \<le> lval ws" "lval ws < (last ws + 1) * 0x4000000 ^ (length ws - 1)" "word26 (last ws)"
proof -
  obtain us u where ws: "ws = us @ [u]" using assms(2) by (cases ws rule: rev_cases) auto
  have "0 \<le> lval us" "lval us < 0x4000000 ^ length us" using lval_bounds [of us] assms(1) ws by simp_all
  then show "last ws * 0x4000000 ^ (length ws - 1) \<le> lval ws" "lval ws < (last ws + 1) * 0x4000000 ^ (length ws - 1)" "word26 (last ws)"
    using assms(1) by (simp_all add: ws lval_append algebra_simps)
qed

text \<open>One digit: the estimate, the subtraction and the corrections.\<close>

lemma div_digit:
  assumes b: "bn_ok b" "0 < bn_val b" and bhi: "bhi = last (bn_words b)" "0x2000000 \<le> bhi"
    and a: "bn_ok a" "0 \<le> bn_val a" "bn_val a < bn_val b * 0x4000000 ^ Suc j"
    and qh: "qh = min (toInt32 ((bn_at (bn_words a) (length (bn_words b) + j) * 0x4000000 + bn_at (bn_words a) (length (bn_words b) + j - 1)) div bhi)) 0x3ffffff"
  shows "\<exists>r. bn_ishlnsubmul a b qh j = Inr r \<and> bn_ok r \<and> bn_val r = bn_val a - qh * (bn_val b * 0x4000000 ^ j) \<and>
    bn_val a div (bn_val b * 0x4000000 ^ j) \<le> qh"
proof -
  let ?n = "length (bn_words b)" and ?S = "bn_val b * 0x4000000 ^ j" and ?A = "bn_val a"
  note A = bn_okD [OF a(1)] and B = bn_okD [OF b(1)]
  have n: "0 < ?n" using B(2) by simp
  have vb: "bn_val b = lval (bn_words b)" "bn_val a = lval (bn_words a)" using bn_val_pos b a by simp_all
  have bb: "bhi * 0x4000000 ^ (?n - 1) \<le> bn_val b" "bn_val b < 0x4000000 ^ ?n" "bhi < 0x4000000"
    using last_bounds [OF B(1,2)] lval_less [OF B(1)] vb bhi(1) by simp_all
  have "bn_val b * 0x4000000 ^ Suc j < 0x4000000 ^ ?n * 0x4000000 ^ Suc j" using bb(2) by (intro mult_strict_right_mono) simp_all
  then have "?A < 0x4000000 ^ (?n + Suc j)" using a(3) by (simp only: power_add [symmetric])
  then have len: "length (bn_words a) \<le> ?n + Suc j" using length_bound [OF a(1), of "?n + Suc j"] a(2) by simp
  define t1 t0 where "t1 = bn_at (bn_words a) (?n + j)" and "t0 = bn_at (bn_words a) (?n + j - 1)"
  have tw: "word26 t1" "word26 t0" using A(1) by (auto simp: t1_def t0_def bn_at words_ok_def list_all_length)
  have i: "Suc (?n - 1 + j) = ?n + j" "?n + j - 1 = ?n - 1 + j" "length (bn_words a) \<le> ?n - 1 + j + 2" using n len by linarith+
  have top: "?A div 0x4000000 ^ (?n - 1 + j) = t0 + 0x4000000 * t1"
    unfolding t1_def t0_def vb(2) top_words [OF A(1) i(3)] i(1,2) ..
  have lim: "t1 * 0x4000000 + t0 < 0x8000000 * bhi"
  proof -
    have "t1 * 0x4000000 + t0 < 0x8000000 * 0x2000000" using tw by linarith
    then show ?thesis using bhi(2) by linarith
  qed
  have q0: "0 \<le> (t1 * 0x4000000 + t0) div bhi" "(t1 * 0x4000000 + t0) div bhi < 0x8000000"
    using tw bhi(2) zdiv_less [OF _ lim] by (simp_all add: pos_imp_zdiv_nonneg_iff)
  then have qe: "qh = min ((t1 * 0x4000000 + t0) div bhi) 0x3ffffff" by (simp add: qh t1_def t0_def toInt32_id)
  have S: "0 < ?S" using b(2) by simp
  let ?q = "?A div ?S"
  have q: "0 \<le> ?q" "?q * ?S \<le> ?A" using a(2) S by (simp_all add: pos_imp_zdiv_nonneg_iff minus_mod_eq_div_mult [symmetric])
  have "?A < 0x4000000 * ?S" using a(3) by (simp add: mult.left_commute)
  then have "?q < 0x4000000" using zdiv_less [OF S] by blast
  moreover have "?q \<le> (t0 + 0x4000000 * t1) div bhi"
    using estimate [OF a(2) _ bb(1) q] bhi(2) unfolding top by simp
  ultimately have le: "?q \<le> qh" by (simp add: qe add.commute mult.commute)
  have qh: "0 \<le> qh" "qh < 0x4000000" using q0(1) qe by simp_all
  let ?L = "max (length (bn_words a)) (?n + j)"
  have "qh * ?S < 0x4000000 ^ ?L"
  proof (cases "length (bn_words a) \<le> ?n + j")
    case True
    then have "t1 = 0" by (simp add: t1_def bn_at_def)
    then have "(t1 * 0x4000000 + t0) div bhi < 2" using tw(2) bhi(2) zdiv_less [of bhi t0 2] by simp
    then have "qh * ?S \<le> 1 * ?S" using S qe by (intro mult_right_mono) simp_all
    also have "1 * ?S < 0x4000000 ^ ?n * 0x4000000 ^ j" using bb(2) by simp
    also have "\<dots> = 0x4000000 ^ ?L" using True by (simp add: power_add max_absorb2)
    finally show ?thesis .
  next
    case False
    then have L: "?L = Suc (?n + j)" using len by simp
    have "qh * ?S \<le> 0x4000000 * ?S" using qh S by (intro mult_right_mono) simp_all
    also have "\<dots> < 0x4000000 * (0x4000000 ^ ?n * 0x4000000 ^ j)" using bb(2) by simp
    finally show ?thesis unfolding L by (simp add: power_add)
  qed
  then have lt: "- (0x4000000 ^ ?L) < ?A - qh * bn_val b * 0x4000000 ^ j" using a(2) by (simp add: mult.assoc)
  obtain r where "bn_ishlnsubmul a b qh j = Inr r" "bn_ok r" "bn_val r = ?A - qh * bn_val b * 0x4000000 ^ j"
    using bn_ishlnsubmul [OF a(1,2) b(1) _ qh lt] b(2) by auto
  then show ?thesis using le by (simp add: mult.assoc)
qed

text \<open>The loop over the digits keeps the rest below the divisor times the base to the digit.\<close>

lemma div_loop:
  assumes b: "bn_ok b" "0 < bn_val b" "0x2000000 \<le> last (bn_words b)"
    and a: "bn_ok a" "0 \<le> bn_val a" "bn_val a < bn_val b * 0x4000000 ^ j"
  shows "\<exists>a' qs. div_loop b (last (bn_words b)) j a = Some (Inr (a', qs)) \<and> bn_ok a' \<and> words_ok qs \<and>
    bn_val a = lval qs * bn_val b + bn_val a' \<and> length qs = j \<and> 0 \<le> bn_val a' \<and> bn_val a' < bn_val b"
  using a
proof (induction j arbitrary: a)
  case (Suc j)
  let ?S = "bn_val b * 0x4000000 ^ j" and ?bhi = "last (bn_words b)"
  define qh where "qh = min (toInt32 ((bn_at (bn_words a) (length (bn_words b) + j) * 0x4000000 + bn_at (bn_words a) (length (bn_words b) + j - 1)) div ?bhi)) 0x3ffffff"
  obtain r where r: "bn_ishlnsubmul a b qh j = Inr r" "bn_ok r" "bn_val r = bn_val a - qh * ?S" "bn_val a div ?S \<le> qh"
    using div_digit [OF b(1,2) refl b(3) Suc.prems qh_def] by blast
  obtain a' t where h: "qj_loop b j r qh = Some (Inr (a', qh - t))" "bn_ok a'" "0 \<le> t" "bn_val a' = bn_val r + t * ?S" "0 \<le> bn_val a'"
      "bn_val r < 0 \<longrightarrow> bn_val a' < ?S" "0 \<le> bn_val r \<longrightarrow> t = 0"
    using qj_loop [OF b(1,2) r(2), of j qh] by blast
  have S: "0 < ?S" using b(2) by simp
  have lt: "bn_val a' < ?S"
  proof (cases "bn_val r < 0")
    case False
    have "bn_val a < (bn_val a div ?S + 1) * ?S" using S by (simp add: distrib_right minus_mod_eq_div_mult [symmetric])
    also have "\<dots> \<le> (qh + 1) * ?S" using r(4) S by (intro mult_right_mono) simp_all
    finally show ?thesis using False h(4,7) r(3) by (simp add: distrib_right)
  qed (use h(6) in blast)
  define qj where "qj = qh - t"
  have v: "bn_val a = qj * ?S + bn_val a'" using r(3) h(4) by (simp add: qj_def algebra_simps)
  then have "qj = bn_val a div ?S" using S lt h(5) div_mult_self3 [of ?S qj "bn_val a'"] by (simp only: div_pos_pos_trivial)
  then have qj: "0 \<le> qj" "qj < 0x4000000"
    using Suc.prems(2,3) S zdiv_less [OF S, of "bn_val a" "0x4000000"] by (simp_all add: pos_imp_zdiv_nonneg_iff mult.left_commute)
  obtain a'' qs where d: "div_loop b ?bhi j a' = Some (Inr (a'', qs))" "bn_ok a''" "words_ok qs" "bn_val a' = lval qs * bn_val b + bn_val a''"
      "length qs = j" "0 \<le> bn_val a''" "bn_val a'' < bn_val b"
    using Suc.IH [OF h(2,5) lt] by blast
  have "div_loop b ?bhi (Suc j) a = Some (Inr (a'', qs @ [qj]))"
    by (simp only: div_loop.simps Let_def qh_def [symmetric] r(1) h(1) sum.case option.case prod.case qj_def [symmetric] d(1))
  moreover have "bn_val a = lval (qs @ [qj]) * bn_val b + bn_val a''" using v d(4,5) by (simp add: lval_append algebra_simps)
  ultimately show ?case using d qj by (intro exI [of _ a''] exI [of _ "qs @ [qj]"]) simp
qed simp

section \<open>Normalisation of the divisor\<close>

lemma word_bitLength:
  assumes "word26 w" "w \<noteq> 0"
  defines "shift \<equiv> 26 - BN_bitLength (nat w)"
  shows "0x2000000 \<le> w * 2 ^ shift" "w * 2 ^ shift < 0x4000000"
proof -
  let ?k = "BN_bitLength (nat w)"
  have k: "?k \<le> 26" "0 < ?k" using assms(1,2) BN_bitLength_upper [of "nat w" 26] by (simp_all add: BN_bitLength.simps [of "nat w"] nat_less_iff)
  have "2 ^ (?k - 1) \<le> nat w" "nat w < 2 ^ ?k" using assms(1,2) BN_bitLength_lower [of "nat w"] BN_bitLength_less [of "nat w"] by simp_all
  then have w: "2 ^ (?k - 1) \<le> w" "w < 2 ^ ?k" using assms(1) by (simp_all add: nat_le_iff le_nat_iff nat_less_iff)
  have "(2 :: int) ^ (?k - 1) * 2 ^ shift = 2 ^ 25" "(2 :: int) ^ ?k * 2 ^ shift = 2 ^ 26"
    using k by (simp_all only: power_add [symmetric] shift_def) simp_all
  then show "0x2000000 \<le> w * 2 ^ shift" "w * 2 ^ shift < 0x4000000"
    using mult_right_mono [OF w(1), of "2 ^ shift"] mult_strict_right_mono [OF w(2), of "2 ^ shift"] by simp_all
qed

lemma normal_length:
  assumes "bn_ok a" "0x4000000 ^ n \<le> bn_val a" "bn_val a < 0x4000000 ^ Suc n"
  shows "length (bn_words a) = Suc n"
proof -
  have p: "0 \<le> bn_val a" using assms(2) zero_le_power [of "0x4000000 :: int" n] by linarith
  have "length (bn_words a) \<le> Suc n" using length_bound [OF assms(1), of "Suc n"] assms(3) p by simp
  moreover have "\<not> length (bn_words a) \<le> n"
  proof
    assume "length (bn_words a) \<le> n"
    then have "(0x4000000 :: int) ^ length (bn_words a) \<le> 0x4000000 ^ n" by (intro power_increasing) simp_all
    then show False using lval_less [OF bn_okD(1) [OF assms(1)]] bn_val_pos [OF assms(1) p] assms(2) by linarith
  qed
  ultimately show ?thesis by simp
qed

lemma normalise:
  assumes "bn_ok b" "0 < bn_val b"
  defines "shift \<equiv> 26 - BN_bitLength (nat (last (bn_words b)))"
  shows "length (bn_words (bn_iushln b shift)) = length (bn_words b)" "0x2000000 \<le> last (bn_words (bn_iushln b shift))"
    "0x2000000 * 0x4000000 ^ (length (bn_words b) - 1) \<le> bn_val (bn_iushln b shift)"
proof -
  let ?n = "length (bn_words b) - 1" and ?b = "bn_iushln b shift"
  note B = bn_okD [OF assms(1)]
  have n: "length (bn_words b) = Suc ?n" using B(2) by simp
  have vb: "bn_val b = lval (bn_words b)" using bn_val_pos assms(1,2) by simp
  have l: "last (bn_words b) * 0x4000000 ^ ?n \<le> bn_val b" "bn_val b < (last (bn_words b) + 1) * 0x4000000 ^ ?n" "word26 (last (bn_words b))"
    using last_bounds [OF B(1,2)] vb by simp_all
  have nz: "last (bn_words b) \<noteq> 0"
  proof (cases ?n)
    case 0
    then show ?thesis using n vb assms(2) by (cases "bn_words b") auto
  qed (use B(3) n in simp)
  note s = word_bitLength [OF l(3) nz, folded shift_def]
  note S = bn_iushln [OF assms(1), of shift]
  have "(last (bn_words b) * 2 ^ shift) * 0x4000000 ^ ?n \<le> bn_val ?b"
    using S mult_right_mono [OF l(1), of "2 ^ shift"] by (simp add: algebra_simps)
  moreover have "0x2000000 * 0x4000000 ^ ?n \<le> (last (bn_words b) * 2 ^ shift) * 0x4000000 ^ ?n" using s(1) by (intro mult_right_mono) simp_all
  ultimately show lo: "0x2000000 * 0x4000000 ^ ?n \<le> bn_val ?b" by linarith
  have "(2 :: int) ^ shift dvd 2 ^ 26" by (rule le_imp_power_dvd) (simp add: shift_def)
  then obtain q where q: "(0x4000000 :: int) = 2 ^ shift * q" by auto
  have "(last (bn_words b) + 1) * 2 ^ shift \<le> 0x4000000"
  proof -
    have "last (bn_words b) * 2 ^ shift < q * 2 ^ shift" using s(2) q mult.commute [of q "2 ^ shift"] by linarith
    then have "last (bn_words b) + 1 \<le> q" by simp
    then show ?thesis using q mult_right_mono [of "last (bn_words b) + 1" q "2 ^ shift"] by (simp add: mult.commute)
  qed
  then have "((last (bn_words b) + 1) * 2 ^ shift) * 0x4000000 ^ ?n \<le> 0x4000000 * 0x4000000 ^ ?n" by (intro mult_right_mono) simp_all
  moreover have "bn_val ?b < ((last (bn_words b) + 1) * 2 ^ shift) * 0x4000000 ^ ?n"
    using S mult_strict_right_mono [OF l(2), of "2 ^ shift"] by (simp add: algebra_simps)
  ultimately have hi: "bn_val ?b < 0x4000000 ^ Suc ?n" unfolding power_Suc by linarith
  have "0x4000000 ^ ?n \<le> bn_val ?b" using lo zero_le_power [of "0x4000000 :: int" ?n] by linarith
  then show ln: "length (bn_words ?b) = length (bn_words b)" using normal_length [OF conjunct1 [OF S] _ hi] n by simp
  have p: "0 \<le> bn_val ?b" using S assms(2) by simp
  have "bn_val ?b < (last (bn_words ?b) + 1) * 0x4000000 ^ ?n"
    using last_bounds(2) [OF bn_okD(1,2) [OF conjunct1 [OF S]]] bn_val_pos [OF conjunct1 [OF S] p] ln by simp
  then have "0x2000000 * 0x4000000 ^ ?n < (last (bn_words ?b) + 1) * 0x4000000 ^ ?n" using lo by linarith
  then show "0x2000000 \<le> last (bn_words ?b)" by simp
qed

section \<open>Division with remainder\<close>

lemma div_of_product: "X = Q * b + r \<Longrightarrow> 0 \<le> r \<Longrightarrow> r < b \<Longrightarrow> X div b = Q \<and> X mod b = (r :: int)"
  by simp

lemma bn_wordDiv_normal:
  assumes a: "bn_ok a" and b: "bn_ok b" "0x2000000 \<le> last (bn_words b)" "0 < bn_val b" and le: "bn_val b \<le> bn_val a"
  defines "m \<equiv> length (bn_words a) - length (bn_words b)"
  shows "\<exists>d a' qs. bn_ishlnsubmul a b 1 m = Inr d \<and>
    div_loop b (last (bn_words b)) m (if \<not> bn_negative d then d else a) = Some (Inr (a', qs)) \<and> bn_ok a' \<and>
    words_ok (qs @ [if \<not> bn_negative d then 1 else 0]) \<and>
    bn_val a = lval (qs @ [if \<not> bn_negative d then 1 else 0]) * bn_val b + bn_val a' \<and> 0 \<le> bn_val a' \<and> bn_val a' < bn_val b"
proof -
  let ?n = "length (bn_words b)" and ?S = "bn_val b * 0x4000000 ^ m"
  note A = bn_okD [OF a] and B = bn_okD [OF b(1)]
  have va: "0 \<le> bn_val a" "bn_val a = lval (bn_words a)" "bn_val b = lval (bn_words b)" using bn_val_pos a b(1,3) le by simp_all
  have "?n \<le> length (bn_words a)"
  proof (rule ccontr)
    assume "\<not> ?n \<le> length (bn_words a)"
    then have "lval (bn_words a) < lval (bn_words b)" using lval_length [OF A(1) B(1,2)] b(2) by simp
    then show False using le va by simp
  qed
  then have nm: "length (bn_words a) = ?n + m" by (simp add: m_def)
  have n: "?n = Suc (?n - 1)" using B(2) by simp
  have "0x2000000 * 0x4000000 ^ (?n - 1) \<le> last (bn_words b) * 0x4000000 ^ (?n - 1)" using b(2) by (intro mult_right_mono) simp_all
  also have "\<dots> \<le> bn_val b" using last_bounds(1) [OF B(1,2)] va(3) by simp
  finally have lo: "0x4000000 ^ ?n \<le> 2 * bn_val b" by (subst n) simp
  have "0x4000000 ^ (?n + m) \<le> 2 * ?S" using mult_right_mono [OF lo, of "0x4000000 ^ m"] by (simp add: power_add)
  then have up: "bn_val a < 2 * ?S" using lval_less [OF A(1)] va(2) nm by simp
  have "?S < 0x4000000 ^ ?n * 0x4000000 ^ m" using lval_less [OF B(1)] va(3) by (intro mult_strict_right_mono) simp_all
  then have "- (0x4000000 ^ (?n + m)) < bn_val a - ?S" using va(1) unfolding power_add by linarith
  then have lt: "- (0x4000000 ^ max (length (bn_words a)) (?n + m)) < bn_val a - 1 * bn_val b * 0x4000000 ^ m" using nm by simp
  obtain d where d: "bn_ishlnsubmul a b 1 m = Inr d" "bn_ok d" "bn_val d = bn_val a - ?S"
    using bn_ishlnsubmul [OF a va(1) b(1) _ _ _ lt] b(3) by auto
  let ?q = "if \<not> bn_negative d then 1 else 0 :: int" and ?a = "if \<not> bn_negative d then d else a"
  have neg: "bn_negative d \<longleftrightarrow> bn_val a < ?S" using bn_neg_iff [OF d(2)] d(3) by simp
  have x: "bn_ok ?a" "0 \<le> bn_val ?a" "bn_val ?a < ?S" "bn_val a = ?q * ?S + bn_val ?a"
    using neg d a va(1) up by auto
  obtain a' qs where h: "div_loop b (last (bn_words b)) m ?a = Some (Inr (a', qs))" "bn_ok a'" "words_ok qs"
      "bn_val ?a = lval qs * bn_val b + bn_val a'" "length qs = m" "0 \<le> bn_val a'" "bn_val a' < bn_val b"
    using div_loop [OF b(1,3,2) x(1-3)] by blast
  have "bn_val a = lval (qs @ [?q]) * bn_val b + bn_val a'" using x(4) h(4,5) by (simp add: lval_append algebra_simps)
  then show ?thesis using d(1) h by (intro exI [of _ d] exI [of _ a'] exI [of _ qs]) simp
qed

lemma bn_wordDiv:
  assumes "bn_ok a" "bn_ok b" "0 < bn_val b" "bn_val b \<le> bn_val a"
  shows "\<exists>q r. bn_wordDiv a b = Some (Inr (q, r)) \<and> bn_ok q \<and> bn_ok r \<and>
    bn_val q = bn_val a div bn_val b \<and> bn_val r = bn_val a mod bn_val b"
proof -
  define shift where "shift = 26 - BN_bitLength (nat (last (bn_words b)))"
  have id: "bn_iushln c 0 = c" if "bn_ok c" for c
    by (rule bn_unique) (use bn_iushln [OF that, of 0] that in simp_all)
  define B A where "B = bn_iushln b shift" and "A = bn_iushln a shift"
  have B: "bn_ok B" "bn_val B = bn_val b * 2 ^ shift" and A: "bn_ok A" "bn_val A = bn_val a * 2 ^ shift"
    using bn_iushln assms(1,2) by (simp_all add: A_def B_def)
  have ifs: "(if shift \<noteq> 0 then bn_iushln b shift else b) = B" "(if shift \<noteq> 0 then bn_iushln a shift else a) = A"
    using id assms(1,2) by (auto simp: A_def B_def)
  have pb: "0 < bn_val B" "bn_val B \<le> bn_val A" using A B assms(3,4) by simp_all
  note N = normalise(2) [OF assms(2,3), folded shift_def, folded B_def]
  obtain d a' qs where h: "bn_ishlnsubmul A B 1 (length (bn_words A) - length (bn_words B)) = Inr d"
      "div_loop B (last (bn_words B)) (length (bn_words A) - length (bn_words B)) (if \<not> bn_negative d then d else A) = Some (Inr (a', qs))"
      "bn_ok a'" "words_ok (qs @ [if \<not> bn_negative d then 1 else 0])"
      "bn_val A = lval (qs @ [if \<not> bn_negative d then 1 else 0]) * bn_val B + bn_val a'" "0 \<le> bn_val a'" "bn_val a' < bn_val B"
    using bn_wordDiv_normal [OF A(1) B(1) N pb] by blast
  define ws where "ws = qs @ [if \<not> bn_negative d then 1 else 0]"
  define r where "r = (if shift \<noteq> 0 then bn_ushrn (bn_strip a') shift else bn_strip a')"
  have e: "bn_wordDiv a b = Some (Inr (bn_strip \<lparr>bn_negative = False, bn_words = ws\<rparr>, r))"
    unfolding bn_wordDiv_def shift_def [symmetric] Let_def ifs h(1) sum.case
    using h(2) by (cases "bn_negative d") (simp_all add: ws_def r_def)
  have q: "bn_ok (bn_strip \<lparr>bn_negative = False, bn_words = ws\<rparr>)" "bn_val (bn_strip \<lparr>bn_negative = False, bn_words = ws\<rparr>) = lval ws"
    using bn_strip [of "\<lparr>bn_negative = False, bn_words = ws\<rparr>"] h(4) by (simp_all add: ws_def bn_val_def)
  have s: "bn_ok (bn_strip a')" "bn_val (bn_strip a') = bn_val a'" using bn_strip bn_okD(1,2) [OF h(3)] by blast+
  have r: "bn_ok r" "bn_val r = bn_val a' div 2 ^ shift"
    using bn_iushrn(1,2) [OF s(1), of shift "fst (bn_iushrn (bn_strip a') shift)" "snd (bn_iushrn (bn_strip a') shift)"] s h(6)
    by (simp_all add: r_def bn_ushrn_def BN_ushrn_def)
  have "lval ws = bn_val A div bn_val B \<and> bn_val a' = bn_val A mod bn_val B"
    using div_of_product [OF h(5)] h(6,7) unfolding ws_def by simp
  then have "lval ws = bn_val a div bn_val b" "bn_val a' = bn_val a mod bn_val b * 2 ^ shift"
    using A(2) B(2) by (simp_all add: mult_mod_left)
  then show ?thesis using e q r by simp
qed

section \<open>Division by one word\<close>

lemma mod_step: "(y mod num * K + X) mod num = (y * K + X) mod (num :: int)"
  by (metis mod_add_left_eq mod_mult_left_eq)

lemma modn_loop:
  assumes "words_ok ws" "0 < num" "num < 0x4000000"
  shows "modn_loop num (0x4000000 mod num) acc ws = (if ws = [] then acc else (acc * 0x4000000 ^ length ws + lval (rev ws)) mod num)"
  using assms(1)
proof (induction ws arbitrary: acc)
  case (Cons w ws)
  let ?c = "(0x4000000 mod num * acc + w) mod num"
  have w: "toInt32 w = w" using Cons.prems word_int32 by simp
  have "?c = (acc * 0x4000000 + w) mod num" using mod_step [of "0x4000000" num acc w] by (simp only: mult.commute [of acc])
  then have m: "(?c * K + X) mod num = ((acc * 0x4000000 + w) * K + X) mod num" for K X using mod_step by simp
  have "modn_loop num (0x4000000 mod num) acc (w # ws) = (?c * 0x4000000 ^ length ws + lval (rev ws)) mod num"
    using Cons.IH [of ?c] Cons.prems w by simp
  also have "\<dots> = (acc * 0x4000000 ^ length (w # ws) + lval (rev (w # ws))) mod num"
    unfolding m by (simp add: lval_append algebra_simps)
  finally show ?case by simp
qed simp

lemma bn_modn:
  assumes "bn_ok a" "0 < num" "num < 0x4000000"
  shows "bn_modn a num = \<bar>bn_val a\<bar> mod num"
  using modn_loop [of "rev (bn_words a)" num 0] bn_okD(1,2,4) [OF assms(1)] assms(2,3) by (simp add: bn_modn_def bn_val_def)

lemma idivn_loop:
  assumes "words_ok ws" "0 < num" "num < 0x4000000" "0 \<le> c" "c < num"
  shows "words_ok (idivn_loop num c ws) \<and> length (idivn_loop num c ws) = length ws \<and>
    lval (rev (idivn_loop num c ws)) = (c * 0x4000000 ^ length ws + lval (rev ws)) div num"
  using assms(1,4,5)
proof (induction ws arbitrary: c)
  case (Cons w ws)
  define x where "x = w + c * 0x4000000"
  have w: "toInt32 w = w" "word26 w" using Cons.prems(1) word_int32 by simp_all
  have "x < 0x4000000 * num" using Cons.prems(3) w(2) unfolding x_def by linarith
  then have q: "0 \<le> x div num" "x div num < 0x4000000" using zdiv_less [OF assms(2)] Cons.prems(2) w(2) assms(2) by (simp_all add: x_def pos_imp_zdiv_nonneg_iff)
  have e: "idivn_loop num c (w # ws) = x div num # idivn_loop num (x mod num) ws" using w(1) q by (simp add: x_def [symmetric] toInt32_id)
  let ?K = "0x4000000 ^ length ws :: int" and ?X = "lval (rev ws)"
  have IH: "words_ok (idivn_loop num (x mod num) ws)" "length (idivn_loop num (x mod num) ws) = length ws"
      "lval (rev (idivn_loop num (x mod num) ws)) = (x mod num * ?K + ?X) div num"
    using Cons.IH [of "x mod num"] Cons.prems(1) assms(2) by simp_all
  have "c * 0x4000000 ^ length (w # ws) + lval (rev (w # ws)) = x * ?K + ?X" by (simp add: x_def lval_append algebra_simps)
  also have "\<dots> = (x mod num * ?K + ?X) + (x div num * ?K) * num"
  proof -
    have "x * ?K = (x div num * num + x mod num) * ?K" by simp
    then show ?thesis by (simp only: distrib_right mult_ac add_ac)
  qed
  finally have "(c * 0x4000000 ^ length (w # ws) + lval (rev (w # ws))) div num = (x mod num * ?K + ?X) div num + x div num * ?K"
    using assms(2) by simp
  then show ?case unfolding e using IH q by (simp add: lval_append mult.commute)
qed simp

lemma bn_idivn:
  assumes "bn_ok a" "0 \<le> bn_val a" "0 < num" "num < 0x4000000"
  shows "bn_ok (bn_idivn a num)" "bn_val (bn_idivn a num) = bn_val a div num"
proof -
  note A = bn_okD [OF assms(1)]
  have n: "\<not> bn_negative a" "bn_val a = lval (bn_words a)" using bn_neg_iff [OF assms(1)] bn_val_pos assms(1,2) by simp_all
  let ?ws = "idivn_loop num 0 (rev (bn_words a))"
  have w: "words_ok ?ws" "length ?ws = length (bn_words a)" "lval (rev ?ws) = bn_val a div num"
    using idivn_loop [of "rev (bn_words a)" num 0] A(1) assms(3,4) n(2) by simp_all
  have "?ws \<noteq> []" using w(2) A(2) by (cases ?ws) auto
  then show "bn_ok (bn_idivn a num)" "bn_val (bn_idivn a num) = bn_val a div num"
    using bn_strip [of "a\<lparr>bn_words := rev ?ws\<rparr>"] w n(1) by (simp_all add: bn_idivn_def bn_val_def)
qed

section \<open>All signs\<close>

lemma bn_divmod_pos:
  assumes "bn_ok a" "bn_ok b" "0 \<le> bn_val a" "0 < bn_val b"
  shows "\<exists>q r. bn_divmod_pos a b = Some (Inr (q, r)) \<and> bn_ok q \<and> bn_ok r \<and>
    bn_val q = bn_val a div bn_val b \<and> bn_val r = bn_val a mod bn_val b"
proof -
  note A = bn_okD [OF assms(1)] and B = bn_okD [OF assms(2)]
  have v: "bn_val a = lval (bn_words a)" "bn_val b = lval (bn_words b)" using bn_val_pos assms by simp_all
  have cmp: "bn_cmp a b < 0 \<longleftrightarrow> bn_val a < bn_val b" using bn_cmp [OF assms(1,2)] by simp
  have "bn_val a < bn_val b" if l: "length (bn_words b) > length (bn_words a)"
  proof -
    have "1 < length (bn_words b)" using l A(2) by (cases "bn_words a") auto
    then show ?thesis using lval_length [OF A(1) B(1,2)] B(3) l v by simp
  qed
  then consider "bn_val a < bn_val b" "length (bn_words b) > length (bn_words a) \<or> bn_cmp a b < 0"
    | w where "\<not> (length (bn_words b) > length (bn_words a) \<or> bn_cmp a b < 0)" "bn_words b = [w]"
    | "\<not> (length (bn_words b) > length (bn_words a) \<or> bn_cmp a b < 0)" "length (bn_words b) \<noteq> 1" "bn_val b \<le> bn_val a"
    using cmp by (cases "length (bn_words b) = 1") (force simp: length_Suc_conv not_less)+
  then show ?thesis
  proof cases
    case 1
    have "bn_ok \<lparr>bn_negative = False, bn_words = [0]\<rparr>" "bn_val \<lparr>bn_negative = False, bn_words = [0]\<rparr> = 0" by (simp_all add: bn_ok_def bn_val_def)
    then show ?thesis using 1 assms by (simp add: bn_divmod_pos_def)
  next
    case 2
    then have w: "0 < w" "w < 0x4000000" "bn_val b = w" using v B(1) assms(4) by simp_all
    have "bn_modn a w = bn_val a mod w" using bn_modn [OF assms(1) w(1,2)] assms(3) by simp
    moreover have "word26 (bn_val a mod w)" using w(1,2) pos_mod_sign [of w "bn_val a"] pos_mod_bound [of w "bn_val a"] by linarith
    ultimately have "bn_ok \<lparr>bn_negative = False, bn_words = [bn_modn a w]\<rparr>" "bn_val \<lparr>bn_negative = False, bn_words = [bn_modn a w]\<rparr> = bn_val a mod w"
      by (simp_all add: bn_ok_def bn_val_def)
    then show ?thesis using 2 w bn_idivn [OF assms(1,3) w(1,2)] by (simp add: bn_divmod_pos_def)
  next
    case 3
    then show ?thesis using bn_wordDiv [OF assms(1,2,4)] by (simp add: bn_divmod_pos_def)
  qed
qed

lemma map_ok_Inr: "map_ok f (Some (Inr v)) = Some (Inr (f v))"
  by (simp add: map_ok_def rbind_def)

lemma bn_divmod:
  assumes "bn_ok a" "bn_ok b" "bn_val b \<noteq> 0"
  shows "\<exists>q r. bn_divmod a b positive = Some (Inr (q, r)) \<and> bn_ok q \<and> bn_ok r \<and>
    (bn_val q, bn_val r) = BN_divmod (bn_val a) (bn_val b) positive"
proof -
  note na = bn_neg_iff [OF assms(1)] bn_isZero [OF assms(1)] and nb = bn_neg_iff [OF assms(2)] bn_isZero [OF assms(2)]
  have z: "bn_ok \<lparr>bn_negative = False, bn_words = [0]\<rparr>" "bn_val \<lparr>bn_negative = False, bn_words = [0]\<rparr> = 0" by (simp_all add: bn_ok_def bn_val_def)
  let ?A = "if bn_val a < 0 then bn_ineg a else a" and ?B = "if bn_val b < 0 then bn_ineg b else b"
  have A: "bn_ok ?A" "bn_val ?A = \<bar>bn_val a\<bar>" and B: "bn_ok ?B" "bn_val ?B = \<bar>bn_val b\<bar>" using bn_ineg assms(1,2) by simp_all
  obtain q r where d: "bn_divmod_pos ?A ?B = Some (Inr (q, r))" "bn_ok q" "bn_ok r" "bn_val q = \<bar>bn_val a\<bar> div \<bar>bn_val b\<bar>" "bn_val r = \<bar>bn_val a\<bar> mod \<bar>bn_val b\<bar>"
    using bn_divmod_pos [OF A(1) B(1)] A(2) B(2) assms(3) by auto
  note neg = bn_ineg [OF d(2)] bn_ineg [OF d(3)] bn_neg_iff [OF conjunct1 [OF bn_ineg [OF d(3)]]]
  note adj = bn_iadd [OF conjunct1 [OF bn_ineg [OF d(3)]] assms(2)] bn_isub [OF conjunct1 [OF bn_ineg [OF d(3)]] assms(2)]
  consider "bn_val a = 0" | "bn_val a < 0" "0 < bn_val b" | "0 < bn_val a" "bn_val b < 0" | "bn_val a < 0" "bn_val b < 0" | "0 < bn_val a" "0 < bn_val b"
    using assms(3) by linarith
  then show ?thesis
  proof cases
    case 1
    then show ?thesis using z na nb assms(3) by (simp add: bn_divmod_def BN_divmod_def)
  qed (use d neg adj na nb in \<open>simp_all add: bn_divmod_def BN_divmod_def map_ok_Inr Let_def\<close>)
qed

section \<open>Numbers of words are integers\<close>

text \<open>
  C32: The arithmetic of bn.js on signs and words of 26 bits is that of the integers.  On numbers in normal form, which are
  equal exactly when their values are, comparison, sums, differences, negation, shifts, products of fewer than 1024 words (the
  unrolled product of 10 words among them) and division with every sign return numbers in normal form with the right values;
  division returns for every divisor but zero, where its assertion fails.
\<close>
theorem bn_words_refine:
  assumes "bn_ok a" "bn_ok b"
  shows "(a = b \<longleftrightarrow> bn_val a = bn_val b) \<and>
    bn_cmp a b = (if bn_val a = bn_val b then 0 else if bn_val a < bn_val b then - 1 else 1) \<and>
    bn_ok (bn_add a b) \<and> bn_val (bn_add a b) = bn_val a + bn_val b \<and>
    bn_ok (bn_sub a b) \<and> bn_val (bn_sub a b) = bn_val a - bn_val b \<and>
    bn_ok (bn_ineg a) \<and> bn_val (bn_ineg a) = - bn_val a \<and>
    bn_ok (bn_iushln a bits) \<and> bn_val (bn_iushln a bits) = bn_val a * 2 ^ bits \<and>
    bn_ok (bn_ushrn a bits) \<and> bn_val (bn_ushrn a bits) = BN_ushrn (bn_val a) bits \<and>
    (length (bn_words a) + length (bn_words b) < 1024 \<longrightarrow>
      bn_ok (bn_mul jumbo a b) \<and> bn_val (bn_mul jumbo a b) = bn_val a * bn_val b) \<and>
    (bn_val b \<noteq> 0 \<longrightarrow> (\<exists>q r. bn_divmod a b positive = Some (Inr (q, r)) \<and> bn_ok q \<and> bn_ok r \<and>
      (bn_val q, bn_val r) = BN_divmod (bn_val a) (bn_val b) positive)) \<and>
    (bn_val b = 0 \<longrightarrow> bn_divmod a b positive = Some (Inl (PlainError ''Assertion failed'')))"
proof -
  have "bn_ok (bn_ushrn a bits)" "bn_val (bn_ushrn a bits) = BN_ushrn (bn_val a) bits"
    using bn_iushrn [OF assms(1), of bits] by (cases "bn_iushrn a bits"; simp add: bn_ushrn_def)+
  moreover have "a = b \<longleftrightarrow> bn_val a = bn_val b" using bn_unique [OF assms] by blast
  moreover have "bn_val b = 0 \<longrightarrow> bn_divmod a b positive = Some (Inl (PlainError ''Assertion failed''))"
    using bn_isZero [OF assms(2)] by (simp add: bn_divmod_def)
  ultimately show ?thesis
    using bn_cmp [OF assms] bn_add [OF assms] bn_isub [OF assms] bn_ineg [OF assms(1)] bn_iushln [OF assms(1), of bits]
      bn_mul [OF assms, of jumbo] bn_divmod [OF assms, of positive]
    unfolding bn_sub_def by blast
qed

theorem bn_words_refine_witness:
  "\<exists>q r. bn_divmod \<lparr>bn_negative = True, bn_words = [5, 0, 0, 9]\<rparr> \<lparr>bn_negative = False, bn_words = [7, 3]\<rparr> True = Some (Inr (q, r)) \<and>
    bn_val q * 201326599 + bn_val r = - (5 + 9 * 0x4000000 ^ 3) + 201326599 \<and> 0 \<le> bn_val r \<and> bn_val r < 201326599"
proof -
  let ?a = "\<lparr>bn_negative = True, bn_words = [5, 0, 0, 9]\<rparr>" and ?b = "\<lparr>bn_negative = False, bn_words = [7, 3]\<rparr>"
  have ok: "bn_ok ?a" "bn_ok ?b" by (simp_all add: bn_ok_def)
  have v: "bn_val ?a = - (5 + 9 * 0x4000000 ^ 3)" "bn_val ?b = 201326599" by (simp_all add: bn_val_def)
  then have nz: "bn_val ?b \<noteq> 0" by simp
  obtain q r where "bn_divmod ?a ?b True = Some (Inr (q, r))" "(bn_val q, bn_val r) = BN_divmod (bn_val ?a) (bn_val ?b) True"
    using bn_words_refine [OF ok, where positive = True] nz by blast
  then show ?thesis by (auto simp: v BN_divmod_def Let_def)
qed

end
