(* ===== verification/Spec2Isabelle.thy ===== *)
theory Spec2Isabelle
  imports TxEcdsa HDProps BNMulProps BNDivProps
begin

text \<open>
  The JavaScript SDK of MagnaChain (src/SDK/MagnaChainSDKForHtml5/src): the library magnachain.js
  with the byte buffers of buffer.js, the big numbers of bn.js and the hash functions of ix_crypto.js that it calls.

  \<^bold>\<open>The program and its parts.\<close>  magnachain.js is one file of modules.  Buffers and big numbers
  are at the bottom; \<open>BufferReader\<close>, \<open>BufferWriter\<close> and \<open>Varint\<close> turn them into the wire format;
  \<open>Signature\<close>, \<open>Hash\<close>, \<open>Opcode\<close> and \<open>Networks\<close> are used by \<open>Script\<close>, which parses, prints, classifies
  and builds scripts; \<open>Interpreter\<close> runs an input script and an output script on a stack machine and
  asks the transaction to verify signatures.  \<open>Base58\<close> and \<open>Address\<close> turn hashes into strings and
  scripts; \<open>Input\<close>, \<open>Output\<close> and \<open>Transaction\<close> are serialized, hashed and signed (\<open>Sighash\<close>).  Beside this
  column stands the one of the keys: reduction contexts of bn.js, short Weierstrass curves with their multiplication
  routines, \<open>Point\<close>, \<open>PublicKey\<close>, \<open>PrivateKey\<close>, \<open>ECDSA\<close>, and the extended keys \<open>HDPrivateKey\<close> and \<open>HDPublicKey\<close>.

  \<^bold>\<open>Theories.\<close>
  \<^item> \<open>Prelude\<close>: bytes, the datatype \<open>js_error\<close> of raised errors, the result type \<open>js_error + 'a\<close> with
    \<open>rbind\<close> for code that may throw, positional values of byte lists.
  \<^item> \<open>Buffers\<close>: buffer.js (\<open>slice\<close>, \<open>concat\<close>, \<open>compare\<close>, hexadecimal, the integer reads and writes with
    their range checks) and \<open>BufferUtil\<close>.  JavaScript numbers that the code forces to 32 bits go
    through \<open>toInt32\<close> and \<open>toUint32\<close>.
  \<^item> \<open>BNum\<close>: the extensions of \<open>BN\<close>: buffers of a fixed size, sign-magnitude and script numbers, the
    rounding of \<open>toNumber\<close> to a double, hexadecimal strings with a sign.  A \<open>BN\<close> is an \<open>int\<close>.
  \<^item> \<open>BufferIO\<close>: readers, writers, variable-length integers.  The locale \<open>wire_format\<close> is the contract
    of an encoder and a decoder of the same datum; vectors and prefix-freeness are proved in it, and
    the formats of the code interpret it.
  \<^item> \<open>Opcodes\<close>, \<open>JSString\<close>: the opcode table; decimal strings, \<open>parseInt\<close>, \<open>split\<close> and \<open>trim\<close>.
  \<^item> \<open>Signatures\<close>: DER, transaction and compact forms of a signature.
  \<^item> \<open>Hashes\<close>: \<open>BlockHash\<close> with its pending bytes, SHA1, SHA224, SHA256, RIPEMD160.  The locale
    \<open>block_alg\<close> shows once that hashing in pieces is hashing at once; each algorithm interprets it.
  \<^item> \<open>Sha512\<close>: SHA384 and SHA512 on halves of 64-bit words, and \<open>Hash.hmac\<close>.
  \<^item> \<open>Modular\<close>, \<open>ModularProps\<close>: the algorithms of bn.js on values: division, Euclid's algorithm in its binary forms, reduction
    contexts with pseudo-Mersenne primes, powers and square roots.
  \<^item> \<open>BNWords\<close>: bn.js on signs and words of 26 bits with the 32-bit operators of JavaScript: comparison, sums, shifts, the
    three products, long division.  \<open>BNWordsProps\<close>, \<open>BNMulProps\<close>, \<open>BNDivProps\<close>: these operations refine those of the
    integers and of \<open>Modular\<close> (the value \<open>bn_val\<close> and the normal form \<open>bn_ok\<close>), which is why a \<open>BN\<close> is an \<open>int\<close> elsewhere.
  \<^item> \<open>Curve\<close>: short Weierstrass curves, affine and Jacobian points.  \<open>CurveProps\<close>, \<open>Jacobian\<close>: the Jacobian operations stand for
    the affine ones (the relation \<open>jrep\<close>).  \<open>CurveGroup\<close>: the laws of the affine operations, multiples, decompression.
    \<open>Curve7\<close>: a curve of 13 points on which the hypotheses hold.
  \<^item> \<open>CurveMul\<close>: signed digits, tables of multiples and the multiplication routines.  \<open>NafProps\<close>, \<open>MulProps\<close>, \<open>CurveMulProps\<close>:
    the digits, the loops, the tables and the endomorphism are right, so that \<open>mul\<close> and \<open>mulAdd\<close> compute multiples.
  \<^item> \<open>Keys\<close>: \<open>Point\<close>, \<open>PublicKey\<close> and \<open>PrivateKey\<close> over a curve with a generator (\<open>ec_params\<close>), and the constants of
    secp256k1.  \<open>KeyProps\<close>: what a curve has to satisfy (\<open>ec_ok\<close>), bytes and strings of keys, the range of private keys.
  \<^item> \<open>Ecdsa\<close>, \<open>EcdsaProps\<close>: the objects of \<open>ECDSA\<close> with \<open>set\<close>, nonces, signing, verification and recovery; signatures
    are accepted, nonces follow RFC 6979, the recovered key is the one that signed, an object reuses its nonce.
  \<^item> \<open>HDKeys\<close>, \<open>HDProps\<close>: extended keys and the derivation of children; public derivation agrees with private derivation,
    strings are read back, children are in range, and the string of a public key passes for a private key.
  \<^item> \<open>Networks\<close>: the registry of networks with its lookup maps.
  \<^item> \<open>Scripts\<close>, \<open>ScriptProps\<close>: \<open>Script\<close> and its properties.
  \<^item> \<open>Interpreter\<close>, \<open>InterpreterProps\<close>: \<open>Interpreter\<close> and its properties; the locale
    \<open>step_invariant\<close> lifts what one step keeps to the whole evaluation.
  \<^item> \<open>Base58\<close>: the conversion between bases with its carry loops; the locale \<open>positional\<close> shows that it keeps
    the value, the locale \<open>alphabet\<close> that encoding and decoding are inverse; both are interpreted on the code.
  \<^item> \<open>Addresses\<close>: \<open>Address\<close> with its constructors, and scripts of addresses.
  \<^item> \<open>TxData\<close>: inputs, outputs, contract data and transactions as records, their readers and writers, the
    signature hash and the hash that the sender of a contract signs.
  \<^item> \<open>TxWire\<close>: the bytes of a transaction; inputs and outputs interpret \<open>wire_format\<close>, from which the round
    trip of transactions follows.
  \<^item> \<open>SigHash\<close>: the message that each hash type prescribes (\<open>sighash_message\<close>), that \<open>sighash\<close> hashes it, and
    what it commits to.
  \<^item> \<open>Utf8\<close>: \<open>utf8Slice\<close> of buffer.js, the text that a buffer becomes.
  \<^item> \<open>TxInputs\<close>: the classes of inputs with their signing, size and signature methods.
  \<^item> \<open>TxBuild\<close>: the methods that change a transaction, as operations \<open>transaction \<Rightarrow> 'a result \<times> transaction\<close>: a
    call that throws leaves the fields it has already changed.
  \<^item> \<open>TxCheck\<close>: sorting, with the match of lodash that finds the change output again, lock times, signing, the checks before
    serialization and \<open>verify\<close>.
  \<^item> \<open>TxProps\<close>, \<open>TxSafety\<close>: the calls as commands of a machine (the inductive predicate \<open>built\<close>, whose first argument says
    which calls are made); the locale \<open>tx_machine\<close> lifts an invariant of each call to all transactions that such calls
    build.  It is interpreted three times: on all calls (output cache, place of the change output), on all but the sorting
    ones (change script), and on all but \<open>setOutputs\<close> (input cache, balance); \<open>setOutputs\<close> and sorting break the rest, as shown.
  \<^item> \<open>TxSign\<close>: the transaction as the interpreter sees it (\<open>interp_env\<close>), and that what \<open>sign\<close> makes of public key hash
    inputs is accepted by \<open>Interpreter.verify\<close>, for any \<open>ec_env\<close> that signs the hashes of the inputs.  \<open>TxEcdsa\<close>: the \<open>ec_env\<close>
    made of \<open>PrivateKey\<close>, \<open>PublicKey\<close> and \<open>ECDSA\<close> of the SDK (\<open>sdk_env\<close>) is one.

  \<^bold>\<open>What is shown.\<close>  Round trips between values and their bytes or strings (numbers, variable-length
  data, signatures, scripts), canonicity of signatures and script numbers, the functional behaviour
  of the script builders, of classification and of the network registry, incremental hashing, and for
  the interpreter: its limits as an invariant, disabled opcodes and skipped branches, truth values,
  the matching of signatures by \<open>OP_CHECKMULTISIG\<close>, and what verification accepts for the two
  standard kinds of output.  Base58 strings and addresses: exactly the strings that are printed are read.
  Transactions: round trip, what signatures fix and leave open, two defects in the handling of contracts; for
  every transaction that calls build, which calls keep the caches and the change consistent, and that without \<open>setOutputs\<close>
  inputs minus outputs are the fee; what the checks before serialization and \<open>verify\<close> guarantee, and six defects of these
  methods; that signed inputs are accepted by the interpreter with the ECDSA of the SDK.
  Arithmetic: big numbers on words are integers; reduction, powers and inverses modulo a prime, Euclid's algorithm, the Jacobian formulas and the point
  multiplications agree with their mathematical definitions.  Keys: see the theories above.

  \<^bold>\<open>Bounds and fuel.\<close>  Buffers of at least \<open>2 ^ 31\<close> bytes are outside the round trips, because
  \<open>slice\<close> forces its positions to 32 bits.  The recursion of \<open>isScriptHashIn\<close> into redeem scripts has
  fuel \<open>redeem_depth\<close> of the script plus two; every redeem script is shorter than the buffer that held
  it, so the fuel is never used up, and classification is shown to return.  The searches of \<open>ECDSA\<close> for a nonce may
  run forever and are \<open>partial_function (option)\<close>, with \<open>None\<close> for not returning; it is shown when they return.  So is the
  correction of a digit in long division, which is shown to return always.  Every
  other loop is a function with a termination proof; the derivation of a child ends because its index grows to a bound.

  \<^bold>\<open>Parameters.\<close>  Scripts and transactions see keys and signatures through arguments: validity of a public key and the
  verification of a signature are fields of the records \<open>tx_env\<close> and \<open>ec_env\<close> and the argument \<open>pkvalid\<close>; \<open>sdk_env\<close> fills them
  with the code of the SDK.  The theorems
  on keys hold for every curve with \<open>ec_ok\<close>: associativity of the addition, the endomorphism and the tables of the generator
  are right, the prime and the order are primes, and the order annihilates every point.  These facts are proved for the curve
  of \<open>Curve7\<close>, and assumed of secp256k1.  A nonce that is set before signing is an argument of \<open>sdk_env\<close>, none in
  \<open>Sighash.sign\<close>: with deterministic nonces the order of the curve has to be of 256 bits.  Random bytes are arguments.  Amounts are numbers:
  sums are rounded to doubles by \<open>BN_toNumber\<close>, and the theorems on amounts assume them below \<open>2 ^ 53\<close>, where doubles are exact.

  \<^bold>\<open>Not modelled.\<close>  Of transactions: amounts in coins or as strings, dates as objects, \<open>toObject\<close>,
  \<open>fromObject\<close>, \<open>shuffleOutputs\<close> and \<open>setOutputsFromCoins\<close>.  Of keys: JSON texts, the strings of \<open>ECDSA\<close> objects.  Of bn.js: Montgomery
  contexts, bases other than 16, the product of numbers of 1024 words or more (an argument of \<open>bn_mul\<close>), the bitwise operations,
  and the words inside the conversions and the reduction contexts, which are modelled on values.  The Edwards and
  Montgomery curves and the signature schemes of the elliptic library, which the SDK does not use; units, random numbers and the
  network client; lodash.js but for the match of \<open>_.findIndex\<close>, the minified copies, the web front end under browser/, and the C++ node.
\<close>

section \<open>Numbers on the wire\<close>

text \<open>
  a number up to \<open>2 ^ 53\<close> written as a variable-length integer takes at most nine bytes, and a
  reader that stands on these bytes returns the number and stops right behind them, whatever follows.
\<close>

theorem varint_roundtrip:
  assumes "n \<le> 9007199254740992" and "length rest < 2147483639"
  shows "\<exists>e. varintBufNum (int n) = Inr e \<and> length e \<le> 9 \<and>
    BufferReader_readVarintNum (new_BufferReader (e @ rest)) = Inr (n, \<lparr>rbuf = e @ rest, rpos = length e\<rparr>)"
proof -
  let ?e = "varint_bytes n"
  have e: "varintBufNum (int n) = Inr ?e" using assms(1) by (simp add: varintBufNum_eq)
  have "reads (new_BufferReader (?e @ rest)) ?e"
    using reads_new [of "?e @ rest"] length_varint_bytes [of n] assms(2) by (simp add: reads_append)
  from varint.dec_enc [OF assms(1) e this] e length_varint_bytes [of n]
  show ?thesis by (simp add: skip_def new_BufferReader_def)
qed

lemma varint_roundtrip_witness:
  "\<exists>e. varintBufNum (int 70000) = Inr e \<and> length e \<le> 9 \<and>
     BufferReader_readVarintNum (new_BufferReader (e @ [1, 2])) = Inr (70000, \<lparr>rbuf = e @ [1, 2], rpos = length e\<rparr>)"
  using varint_roundtrip [of 70000 "[1, 2]"] by simp

text \<open>
  in the nine-byte form of a variable-length integer \<open>readVarintNum\<close> returns every value up to
  \<open>2 ^ 53\<close>, returns \<open>2 ^ 53\<close> for \<open>2 ^ 53 + 1\<close>, and refuses every larger value.
\<close>

theorem varint_nine_bytes:
  assumes "length e = 8" and "length rest < 2147483639"
  shows "BufferReader_readVarintNum (new_BufferReader (255 # e @ rest)) =
    (let r = \<lparr>rbuf = 255 # e @ rest, rpos = 9\<rparr> in
     if le_val e \<le> 9007199254740992 then Inr (le_val e, r)
     else if le_val e = 9007199254740993 then Inr (9007199254740992, r)
     else Inl (PlainError ''number too large to retain precision - use readVarintBN''))"
proof -
  have "reads (new_BufferReader ((255 # e) @ rest)) (255 # e)"
    using reads_new [of "(255 # e) @ rest"] assms by (simp only: reads_append) simp
  from readVarintNum_wide [OF this assms(1)] show ?thesis
    by (simp add: Let_def skip_def new_BufferReader_def)
qed

lemma varint_nine_bytes_witness:
  "BufferReader_readVarintNum (new_BufferReader (255 # [1, 0, 0, 0, 0, 0, 32, 0] @ [])) =
     Inr (9007199254740992, \<lparr>rbuf = 255 # [1, 0, 0, 0, 0, 0, 32, 0] @ [], rpos = 9\<rparr>)"
  using varint_nine_bytes [of "[1, 0, 0, 0, 0, 0, 32, 0]" "[]"] by (simp add: Let_def)

text \<open>
  variable-length buffers cannot be confused: when the encodings of two buffers are followed by
  anything and the whole is the same, the buffers and what follows them are the same.
\<close>

theorem varbuf_prefix_free:
  assumes "length b < 2147483648" and "length c < 2147483648" and "varbuf b = Inr e" and "varbuf c = Inr f"
    and "e @ r = f @ s" and "length (e @ r) < 2147483648"
  shows "b = c \<and> r = s"
  using assms by (rule varbuf.unambiguous)

lemma varbuf_prefix_free_witness:
  "varbuf [7] = Inr [1, 7] \<and> ([7 :: byte] = [7] \<and> [9 :: byte] = [9])"
proof -
  have v: "varbuf [7] = Inr [1, 7]" using varintBufNum_eq [of 1] by (simp add: varbuf_def varint_bytes_def)
  from varbuf_prefix_free [OF _ _ v v, of "[9]" "[9]"] v show ?thesis by simp
qed

text \<open>
  with minimal encodings required, a buffer decodes to a script number exactly when it is short
  enough and is the encoding of that number, so every number has one encoding.
\<close>

theorem scriptnum_minimal_iff:
  "BN_fromScriptNumBuffer b True sz = Inr v \<longleftrightarrow>
     length b \<le> (if sz = 0 then 4 else sz) \<and> b = BN_toScriptNumBuffer v"
  using scriptnum_encode_decode [of b sz v] scriptnum_decode_encode [of v sz True]
  by (auto simp: BN_fromScriptNumBuffer_eq split: if_splits)

text \<open>
  the operands of the arithmetic opcodes: a number of absolute value below \<open>2 ^ 31\<close> is written
  in at most four bytes and read back, and nothing outside that range is ever read.
\<close>

theorem scriptnum_range_iff:
  "\<bar>v\<bar> < 2147483648 \<longleftrightarrow> BN_fromScriptNumBuffer (BN_toScriptNumBuffer v) minimal 0 = Inr v"
  using scriptnum_length [of v 3] scriptnum_decode_encode [of v 0 minimal]
    scriptnum_default_range [of "BN_toScriptNumBuffer v" minimal v]
  by auto

end
